(* ===== verification/Prelude.thy ===== *)
theory Prelude
  imports Main "HOL-Library.Product_Lexorder" "HOL-Library.List_Lexorder"
    "HOL-Library.Multiset" "HOL-Library.Word"
begin

text \<open>
  Shared vocabulary of the development: Rust's \<open>Result\<close> with the crate's error type
  (src/src/error.rs), machine arithmetic under \<open>overflow-checks = true\<close> (an overflow is the
  value \<open>Err Panic\<close>), \<open>for\<close> loops that stop at the first error, ordered key-value maps
  (orga's \<open>Map\<close>, which iterates in the order of its keys' encodings) and the generic lemmas
  that the component theories rewrite with.
\<close>

section \<open>Results and errors\<close>

text \<open>
  The constructors of \<open>crate::error::Error\<close> that the modelled code returns. \<open>App\<close> and
  \<open>Coins\<close> are the two \<open>orga::Error\<close> variants it wraps. \<open>Panic\<close> stands for a Rust panic:
  \<open>unwrap\<close> on nothing, a failed assertion, an arithmetic overflow, a division by zero.
\<close>

datatype error =
    Panic
  | App string
  | Coins string
  | SignerCtx string
  | Header string
  | SignerErr string
  | Ibc string
  | Relayer string
  | BitcoinFee nat
  | BitcoinMerkleBlockError
  | InputIndexOutOfBounds nat
  | Bip32
  | Secp
  | Sighash
  | TryFrom
  | TaprootBuilder
  | ParseInt string
  | CheckpointErr string
  | InvalidDepositAddress
  | BitcoinCoreRpcAsync string
  | Encoding

datatype 'a result = Ok 'a | Err error

fun rbind :: "'a result \<Rightarrow> ('a \<Rightarrow> 'b result) \<Rightarrow> 'b result" where
  "rbind (Ok a) f = f a"
| "rbind (Err e) f = Err e"

definition ok_or :: "error \<Rightarrow> 'a option \<Rightarrow> 'a result" where
  "ok_or e x = (case x of None \<Rightarrow> Err e | Some a \<Rightarrow> Ok a)"

definition unwrap :: "'a option \<Rightarrow> 'a result" where
  "unwrap x = ok_or Panic x"

definition map_err :: "(error \<Rightarrow> error) \<Rightarrow> 'a result \<Rightarrow> 'a result" where
  "map_err f r = (case r of Ok a \<Rightarrow> Ok a | Err e \<Rightarrow> Err (f e))"

definition is_ok :: "'a result \<Rightarrow> bool" where
  "is_ok r = (case r of Ok _ \<Rightarrow> True | Err _ \<Rightarrow> False)"

text \<open>A \<open>for\<close> loop whose body may return early with \<open>?\<close>, and \<open>collect\<close> into a result.\<close>

fun fold_result :: "('s \<Rightarrow> 'a \<Rightarrow> 's result) \<Rightarrow> 's \<Rightarrow> 'a list \<Rightarrow> 's result" where
  "fold_result f s [] = Ok s"
| "fold_result f s (x # xs) = rbind (f s x) (\<lambda>s'. fold_result f s' xs)"

fun map_result :: "('a \<Rightarrow> 'b result) \<Rightarrow> 'a list \<Rightarrow> 'b list result" where
  "map_result f [] = Ok []"
| "map_result f (x # xs) = rbind (f x) (\<lambda>y. rbind (map_result f xs) (\<lambda>ys. Ok (y # ys)))"

section \<open>Machine integers\<close>

text \<open>
  Unsigned integers are natural numbers and every operation of the source that can leave the
  range of its type is one of the checked operations below: the release profile sets
  \<open>overflow-checks = true\<close>, so leaving the range panics. \<open>as\<close> casts wrap.
\<close>

type_synonym u8 = "8 word"
type_synonym u16 = nat
type_synonym u32 = nat
type_synonym u64 = nat
type_synonym u256 = nat
type_synonym bytes = "u8 list"

definition add_w :: "nat \<Rightarrow> nat \<Rightarrow> nat \<Rightarrow> nat result" where
  "add_w w a b = (if a + b < 2 ^ w then Ok (a + b) else Err Panic)"

definition mul_w :: "nat \<Rightarrow> nat \<Rightarrow> nat \<Rightarrow> nat result" where
  "mul_w w a b = (if a * b < 2 ^ w then Ok (a * b) else Err Panic)"

definition sub_u :: "nat \<Rightarrow> nat \<Rightarrow> nat result" where
  "sub_u a b = (if b \<le> a then Ok (a - b) else Err Panic)"

definition div_u :: "nat \<Rightarrow> nat \<Rightarrow> nat result" where
  "div_u a b = (if b = 0 then Err Panic else Ok (a div b))"

definition rem_u :: "nat \<Rightarrow> nat \<Rightarrow> nat result" where
  "rem_u a b = (if b = 0 then Err Panic else Ok (a mod b))"

abbreviation add_u64 :: "u64 \<Rightarrow> u64 \<Rightarrow> u64 result" where "add_u64 \<equiv> add_w 64"
abbreviation mul_u64 :: "u64 \<Rightarrow> u64 \<Rightarrow> u64 result" where "mul_u64 \<equiv> mul_w 64"
abbreviation add_u32 :: "u32 \<Rightarrow> u32 \<Rightarrow> u32 result" where "add_u32 \<equiv> add_w 32"
abbreviation mul_u32 :: "u32 \<Rightarrow> u32 \<Rightarrow> u32 result" where "mul_u32 \<equiv> mul_w 32"
abbreviation add_u16 :: "u16 \<Rightarrow> u16 \<Rightarrow> u16 result" where "add_u16 \<equiv> add_w 16"

definition add_i64 :: "int \<Rightarrow> int \<Rightarrow> int result" where
  "add_i64 a b = (if - (2 ^ 63) \<le> a + b \<and> a + b < 2 ^ 63 then Ok (a + b) else Err Panic)"

definition sub_i64 :: "int \<Rightarrow> int \<Rightarrow> int result" where
  "sub_i64 a b = add_i64 a (- b)"

definition as_u64 :: "int \<Rightarrow> u64" where "as_u64 n = nat (n mod 2 ^ 64)"
definition as_u32 :: "int \<Rightarrow> u32" where "as_u32 n = nat (n mod 2 ^ 32)"

definition as_i64 :: "u64 \<Rightarrow> int" where
  "as_i64 n = (let m = int n mod 2 ^ 64 in if m < 2 ^ 63 then m else m - 2 ^ 64)"

text \<open>\<open>u64::BITS - x.leading_zeros()\<close> is the number of significant bits of \<open>x\<close>.\<close>

fun bit_len :: "nat \<Rightarrow> nat" where
  "bit_len n = (if n = 0 then 0 else Suc (bit_len (n div 2)))"

declare bit_len.simps [simp del]

definition leading_zeros :: "u64 \<Rightarrow> u32" where
  "leading_zeros n = 64 - bit_len n"

section \<open>Ordered maps\<close>

text \<open>
  orga's \<open>Map\<close> iterates in the order of the encoded keys. \<open>omap_insert f\<close> keeps an association
  list ordered by \<open>f\<close>, a key's position in that order.
\<close>

fun omap_insert :: "('k \<Rightarrow> 'o::linorder) \<Rightarrow> 'k \<Rightarrow> 'v \<Rightarrow> ('k \<times> 'v) list \<Rightarrow> ('k \<times> 'v) list" where
  "omap_insert f k v [] = [(k, v)]"
| "omap_insert f k v ((k', v') # m) =
     (if k' = k then (k, v) # m
      else if f k < f k' then (k, v) # (k', v') # m
      else (k', v') # omap_insert f k v m)"

definition omap_remove :: "'k \<Rightarrow> ('k \<times> 'v) list \<Rightarrow> ('k \<times> 'v) list" where
  "omap_remove k m = filter (\<lambda>(k', _). k' \<noteq> k) m"

definition omap_modify :: "'k \<Rightarrow> ('v \<Rightarrow> 'v) \<Rightarrow> ('k \<times> 'v) list \<Rightarrow> ('k \<times> 'v) list" where
  "omap_modify k g m = map (\<lambda>(k', v). (k', if k' = k then g v else v)) m"

definition omap_contains :: "'k \<Rightarrow> ('k \<times> 'v) list \<Rightarrow> bool" where
  "omap_contains k m = (map_of m k \<noteq> None)"

text \<open>The representation invariant: keys in strictly increasing order.\<close>

definition omap_inv :: "('k \<Rightarrow> 'o::linorder) \<Rightarrow> ('k \<times> 'v) list \<Rightarrow> bool" where
  "omap_inv f m = (sorted (map (f \<circ> fst) m) \<and> distinct (map (f \<circ> fst) m))"

section \<open>Calls on a mutable state\<close>

text \<open>
  A method with \<open>&mut self\<close> that returns a \<open>Result\<close> leaves its changes in place when it fails. A
  \<open>call\<close> returns its result with the state it left. \<open>commit\<close> is the top level of a transaction, which
  drops the state of a failed call.
\<close>

type_synonym ('s, 'a) call = "'s \<Rightarrow> 'a result \<times> 's"

definition cbind :: "('s, 'a) call \<Rightarrow> ('a \<Rightarrow> ('s, 'b) call) \<Rightarrow> ('s, 'b) call" where
  "cbind m f s = (case m s of (Ok a, s') \<Rightarrow> f a s' | (Err e, s') \<Rightarrow> (Err e, s'))"

definition lift_result :: "'a result \<Rightarrow> ('s, 'a) call" where
  "lift_result r s = (r, s)"

definition modify :: "('s \<Rightarrow> 's) \<Rightarrow> ('s, unit) call" where
  "modify f s = (Ok (), f s)"

definition reads :: "('s \<Rightarrow> 'a result) \<Rightarrow> ('s, 'a) call" where
  "reads f s = (f s, s)"

definition commit :: "('s, 'a) call \<Rightarrow> 's \<Rightarrow> ('a \<times> 's) result" where
  "commit m s = (case m s of (Ok a, s') \<Rightarrow> Ok (a, s') | (Err e, _) \<Rightarrow> Err e)"

text \<open>Decimal digits, as \<open>format!\<close> prints an unsigned integer.\<close>

fun decimal :: "nat \<Rightarrow> string" where
  "decimal n = (if n < 10 then [char_of (48 + n)] else decimal (n div 10) @ [char_of (48 + n mod 10)])"

declare decimal.simps [simp del]

section \<open>The call context\<close>

text \<open>
  orga resolves these plugins from the context of a call; each may be missing. \<open>cx_time\<close> is the
  block time in seconds (an \<open>i64\<close>), \<open>cx_signer\<close> the signer of the transaction, \<open>cx_validators\<close>
  the validator entries (\<open>Some None\<close>: the plugin is there and holds no set), \<open>cx_paid\<close> the
  outcome of \<open>give\<close> on the fee plugin.
\<close>

type_synonym address = bytes
type_synonym consensus_key = bytes

record validator_entry =
  ve_power :: u64
  ve_pubkey :: consensus_key

record ctx =
  cx_time :: "int option"
  cx_signer :: "address option option"
  cx_validators :: "validator_entry list option option"
  cx_paid :: "unit result option"

text \<open>\<open>exempt_from_fee\<close> of src/src/bitcoin/mod.rs.\<close>

definition exempt_from_fee :: "ctx \<Rightarrow> unit result" where
  "exempt_from_fee C = rbind (ok_or (Coins ''No Paid context found'') (cx_paid C)) (\<lambda>given. given)"

section \<open>Lemmas on results\<close>

named_theorems checked_defs \<open>definitions of the checked machine operations\<close>

declare add_w_def [checked_defs] mul_w_def [checked_defs] sub_u_def [checked_defs]
  div_u_def [checked_defs] rem_u_def [checked_defs]

lemma rbind_eq_Ok [simp]: "rbind m f = Ok b \<longleftrightarrow> (\<exists>a. m = Ok a \<and> f a = Ok b)"
  by (cases m) auto

lemma Ok_eq_rbind [simp]: "Ok b = rbind m f \<longleftrightarrow> (\<exists>a. m = Ok a \<and> f a = Ok b)"
  by (cases m) auto

lemma rbind_eq_Err: "rbind m f = Err e \<longleftrightarrow> m = Err e \<or> (\<exists>a. m = Ok a \<and> f a = Err e)"
  by (cases m) auto

lemma rbind_assoc: "rbind (rbind m f) g = rbind m (\<lambda>a. rbind (f a) g)"
  by (cases m) auto

lemma rbind_Ok_right [simp]: "rbind m Ok = m"
  by (cases m) auto

lemma rbind_cong [fundef_cong]:
  "m = m' \<Longrightarrow> (\<And>a. m' = Ok a \<Longrightarrow> f a = f' a) \<Longrightarrow> rbind m f = rbind m' f'"
  by (cases m') auto

lemma ok_or_Ok [simp]: "ok_or e x = Ok a \<longleftrightarrow> x = Some a"
  by (auto simp: ok_or_def split: option.splits)

lemma ok_or_Err [simp]: "ok_or e x = Err e' \<longleftrightarrow> x = None \<and> e' = e"
  by (auto simp: ok_or_def split: option.splits)

lemma ok_or_Some [simp]: "ok_or e (Some a) = Ok a" and ok_or_None [simp]: "ok_or e None = Err e"
  by (simp_all add: ok_or_def)

lemma unwrap_Ok [simp]: "unwrap x = Ok a \<longleftrightarrow> x = Some a"
  by (simp add: unwrap_def)

lemma unwrap_Err [simp]: "unwrap x = Err e \<longleftrightarrow> x = None \<and> e = Panic"
  by (simp add: unwrap_def)

lemma unwrap_Some [simp]: "unwrap (Some a) = Ok a" and unwrap_None [simp]: "unwrap None = Err Panic"
  by (simp_all add: unwrap_def)

lemma map_err_Ok [simp]: "map_err f r = Ok a \<longleftrightarrow> r = Ok a"
  by (auto simp: map_err_def split: result.splits)

lemma map_err_simps [simp]: "map_err f (Ok a) = Ok a" "map_err f (Err e) = Err (f e)"
  by (simp_all add: map_err_def)

lemma is_ok_simps [simp]: "is_ok (Ok a)" "\<not> is_ok (Err e)"
  by (simp_all add: is_ok_def)

lemma is_ok_iff: "is_ok r \<longleftrightarrow> (\<exists>a. r = Ok a)"
  by (cases r) auto

lemma if_Err_eq_Ok [simp]: "(if c then Err e else r) = Ok a \<longleftrightarrow> \<not> c \<and> r = Ok a"
  by auto

lemma if_Err_eq_Ok' [simp]: "(if c then r else Err e) = Ok a \<longleftrightarrow> c \<and> r = Ok a"
  by auto

lemma cbind_Ok [simp]:
  "cbind m f s = (Ok b, s2) \<longleftrightarrow> (\<exists>a s1. m s = (Ok a, s1) \<and> f a s1 = (Ok b, s2))"
  by (auto simp: cbind_def split: prod.splits result.splits)

lemma cbind_Err:
  "cbind m f s = (Err e, s2) \<longleftrightarrow> m s = (Err e, s2) \<or> (\<exists>a s1. m s = (Ok a, s1) \<and> f a s1 = (Err e, s2))"
  by (auto simp: cbind_def split: prod.splits result.splits)

lemma lift_result_eq [simp]: "lift_result r s = (x, s') \<longleftrightarrow> r = x \<and> s' = s"
  by (auto simp: lift_result_def)

lemma modify_eq [simp]: "modify f s = (x, s') \<longleftrightarrow> x = Ok () \<and> s' = f s"
  by (auto simp: modify_def)

lemma reads_eq [simp]: "reads f s = (x, s') \<longleftrightarrow> f s = x \<and> s' = s"
  by (auto simp: reads_def)

lemma commit_Ok [simp]: "commit m s = Ok (a, s') \<longleftrightarrow> m s = (Ok a, s')"
  by (auto simp: commit_def split: prod.splits result.splits)

text \<open>A call that keeps an observation of the state, whether it succeeds or fails.\<close>

definition keeps :: "('s \<Rightarrow> 'o) \<Rightarrow> ('s, 'a) call \<Rightarrow> bool" where
  "keeps f m \<longleftrightarrow> (\<forall>s. f (snd (m s)) = f s)"

named_theorems keeps_intros \<open>calls that keep an observation\<close>

lemma keepsD: "keeps f m \<Longrightarrow> m s = (r, s') \<Longrightarrow> f s' = f s"
  by (metis keeps_def snd_conv)

lemma keeps_cbind [keeps_intros]: "keeps f m \<Longrightarrow> (\<And>a. keeps f (g a)) \<Longrightarrow> keeps f (cbind m g)"
  by (auto simp: keeps_def cbind_def split: prod.splits result.splits) (metis snd_conv)+

lemma keeps_lift [keeps_intros]: "keeps f (lift_result r)"
  by (simp add: keeps_def lift_result_def)

lemma keeps_reads [keeps_intros]: "keeps f (reads g)"
  by (simp add: keeps_def reads_def)

lemma keeps_modify [keeps_intros]: "(\<And>s. f (g s) = f s) \<Longrightarrow> keeps f (modify g)"
  by (simp add: keeps_def modify_def)

lemma keeps_if [keeps_intros]: "keeps f m \<Longrightarrow> keeps f n \<Longrightarrow> keeps f (if b then m else n)"
  by simp

lemma keeps_self: "(\<And>x. keeps f (m x)) \<Longrightarrow> keeps f (\<lambda>s. m s s)"
  by (simp add: keeps_def)

text \<open>A loop keeps what each iteration keeps.\<close>

lemma fold_result_invariant:
  assumes "fold_result f s xs = Ok s'" and "P s"
    and "\<And>s x s'. x \<in> set xs \<Longrightarrow> P s \<Longrightarrow> f s x = Ok s' \<Longrightarrow> P s'"
  shows "P s'"
  using assms
proof (induction xs arbitrary: s)
  case Nil
  then show ?case by simp
next
  case (Cons x xs)
  from Cons.prems(1) obtain t where t: "f s x = Ok t" and rest: "fold_result f t xs = Ok s'"
    by auto
  have "P t" using Cons.prems(3) [OF _ Cons.prems(2) t] by simp
  then show ?case
    by (rule Cons.IH [OF rest]) (erule Cons.prems(3) [OF list.set_intros(2)])
qed

lemma fold_result_append:
  "fold_result f s (xs @ ys) = rbind (fold_result f s xs) (\<lambda>s'. fold_result f s' ys)"
  by (induction xs arbitrary: s) (simp_all add: rbind_assoc)

lemma map_result_Ok_iff:
  "map_result f xs = Ok ys \<longleftrightarrow> length ys = length xs \<and> (\<forall>i < length xs. f (xs ! i) = Ok (ys ! i))"
proof (induction xs arbitrary: ys)
  case Nil
  then show ?case by auto
next
  case (Cons x xs)
  show ?case
  proof (cases ys)
    case Nil
    then show ?thesis by simp
  next
    case (Cons y ys')
    then show ?thesis
      using Cons.IH [of ys'] by (auto simp: All_less_Suc2)
  qed
qed

lemma map_result_total: "(\<And>x. x \<in> set xs \<Longrightarrow> f x = Ok (g x)) \<Longrightarrow> map_result f xs = Ok (map g xs)"
  by (induction xs) auto

lemma distinct_sub_mset:
  assumes "mset xs \<subseteq># mset ys" and "distinct ys"
  shows "distinct xs"
proof -
  obtain zs where "mset zs = mset ys - mset xs" by (meson ex_mset)
  then have "mset (xs @ zs) = mset ys" using assms(1) by simp
  then have "distinct (xs @ zs)" using assms(2) mset_eq_imp_distinct_iff by blast
  then show ?thesis by simp
qed

section \<open>Lemmas on machine integers\<close>

lemma add_w_Ok [simp]: "add_w w a b = Ok c \<longleftrightarrow> c = a + b \<and> a + b < 2 ^ w"
  by (auto simp: add_w_def)

lemma mul_w_Ok [simp]: "mul_w w a b = Ok c \<longleftrightarrow> c = a * b \<and> a * b < 2 ^ w"
  by (auto simp: mul_w_def)

lemma sub_u_Ok [simp]: "sub_u a b = Ok c \<longleftrightarrow> c = a - b \<and> b \<le> a"
  by (auto simp: sub_u_def)

lemma div_u_Ok [simp]: "div_u a b = Ok c \<longleftrightarrow> c = a div b \<and> b \<noteq> 0"
  by (auto simp: div_u_def)

lemma rem_u_Ok [simp]: "rem_u a b = Ok c \<longleftrightarrow> c = a mod b \<and> b \<noteq> 0"
  by (auto simp: rem_u_def)

lemma add_i64_Ok [simp]:
  "add_i64 a b = Ok c \<longleftrightarrow> c = a + b \<and> - (2 ^ 63) \<le> a + b \<and> a + b < 2 ^ 63"
  by (auto simp: add_i64_def)

lemma sub_i64_Ok [simp]:
  "sub_i64 a b = Ok c \<longleftrightarrow> c = a - b \<and> - (2 ^ 63) \<le> a - b \<and> a - b < 2 ^ 63"
  by (auto simp: sub_i64_def)

lemma bit_len_less: "n < 2 ^ bit_len n"
proof (induction n rule: bit_len.induct)
  case (1 n)
  then show ?case
    by (cases "n = 0") (auto simp: bit_len.simps [of n])
qed

lemma bit_len_le: "n < 2 ^ k \<Longrightarrow> bit_len n \<le> k"
proof (induction n arbitrary: k rule: bit_len.induct)
  case (1 n)
  show ?case
  proof (cases "n = 0")
    case True
    then show ?thesis by (simp add: bit_len.simps)
  next
    case False
    with "1.prems" obtain j where k: "k = Suc j" by (cases k) auto
    with "1.prems" have "n div 2 < 2 ^ j" by (simp add: less_mult_imp_div_less mult.commute)
    with False "1.IH" k show ?thesis by (simp add: bit_len.simps [of n])
  qed
qed

lemma sum_list_div_le: "sum_list (map (\<lambda>x. f x div d) xs) \<le> sum_list (map f xs) div (d::nat)"
proof (induction xs)
  case (Cons x xs)
  have "f x div d + sum_list (map f xs) div d \<le> (f x + sum_list (map f xs)) div d"
    by (simp only: div_add1_eq [of "f x" "sum_list (map f xs)" d] le_add1)
  with Cons show ?case by simp
qed simp

section \<open>Lemmas on ordered maps\<close>

lemma map_of_omap_insert [simp]: "map_of (omap_insert f k v m) = (map_of m)(k \<mapsto> v)"
  by (induction f k v m rule: omap_insert.induct) (auto simp: fun_eq_iff)

lemma map_of_omap_remove [simp]: "map_of (omap_remove k m) = (map_of m)(k := None)"
  by (induction m) (auto simp: omap_remove_def fun_eq_iff)

lemma map_of_omap_modify [simp]:
  "map_of (omap_modify k g m) = (\<lambda>k'. if k' = k then map_option g (map_of m k) else map_of m k')"
  by (induction m) (auto simp: omap_modify_def fun_eq_iff)

lemma map_fst_omap_modify [simp]: "map fst (omap_modify k g m) = map fst m"
  by (induction m) (auto simp: omap_modify_def)

lemma length_omap_modify [simp]: "length (omap_modify k g m) = length m"
  by (simp add: omap_modify_def)

lemma set_omap_insert_subset: "set (omap_insert f k v m) \<subseteq> insert (k, v) (set m)"
  by (induction f k v m rule: omap_insert.induct) auto

lemma keys_omap_insert: "fst ` set (omap_insert f k v m) = insert k (fst ` set m)"
  by (induction f k v m rule: omap_insert.induct) auto

lemma omap_inv_Cons:
  "omap_inv f ((k, v) # m) \<longleftrightarrow> (\<forall>k' \<in> fst ` set m. f k < f k') \<and> omap_inv f m"
  by (auto simp: omap_inv_def less_le image_iff)

lemma omap_inv_Nil [simp]: "omap_inv f []"
  by (simp add: omap_inv_def)

lemma omap_inv_insert: "inj f \<Longrightarrow> omap_inv f m \<Longrightarrow> omap_inv f (omap_insert f k v m)"
proof (induction m)
  case Nil
  then show ?case by (simp add: omap_inv_def)
next
  case (Cons a m)
  obtain k' v' where a: "a = (k', v')" by (cases a)
  show ?case
  proof (cases "k' = k")
    case True
    with Cons.prems a show ?thesis by (simp add: omap_inv_Cons)
  next
    case False
    with Cons.prems(1) have ne: "f k \<noteq> f k'" by (auto dest: injD)
    have IH: "omap_inv f (omap_insert f k v m)"
      using Cons a by (simp add: omap_inv_Cons)
    show ?thesis
      using Cons.prems False ne IH a
      by (auto simp: omap_inv_Cons keys_omap_insert)
  qed
qed

lemma omap_inv_remove: "omap_inv f m \<Longrightarrow> omap_inv f (omap_remove k m)"
  by (induction m) (auto simp: omap_remove_def omap_inv_Cons)

lemma omap_inv_modify [simp]: "omap_inv f (omap_modify k g m) \<longleftrightarrow> omap_inv f m"
proof -
  have "map (f \<circ> fst) (omap_modify k g m) = map (f \<circ> fst) m"
    by (simp flip: map_map)
  then show ?thesis by (simp add: omap_inv_def)
qed

lemma omap_inv_distinct: "omap_inv f m \<Longrightarrow> distinct (map fst m)"
  by (auto simp: omap_inv_def distinct_map comp_inj_on_iff intro: inj_on_imageI2)

text \<open>The sum of a measure over the values of an ordered map.\<close>

definition omap_sum :: "('v \<Rightarrow> nat) \<Rightarrow> ('k \<times> 'v) list \<Rightarrow> nat" where
  "omap_sum g m = sum_list (map (g \<circ> snd) m)"

abbreviation old_value :: "('v \<Rightarrow> nat) \<Rightarrow> 'v option \<Rightarrow> nat" where
  "old_value g x \<equiv> (case x of None \<Rightarrow> 0 | Some v \<Rightarrow> g v)"

lemma omap_sum_Nil [simp]: "omap_sum g [] = 0"
  by (simp add: omap_sum_def)

lemma omap_sum_Cons [simp]: "omap_sum g ((k, v) # m) = g v + omap_sum g m"
  by (simp add: omap_sum_def)

lemma omap_sum_insert:
  assumes "inj f" and "omap_inv f m"
  shows "omap_sum g (omap_insert f k v m) + old_value g (map_of m k) = omap_sum g m + g v"
  using assms
proof (induction m)
  case (Cons a m)
  obtain k' v' where a: "a = (k', v')" by (cases a)
  have "map_of m k = None" if "f k < f k'"
    using Cons.prems(2) that unfolding a omap_inv_Cons map_of_eq_None_iff by force
  with Cons a show ?case by (auto simp: omap_inv_Cons split: option.splits)
qed simp

lemma omap_sum_lookup: "map_of m k = Some v \<Longrightarrow> g v \<le> omap_sum g m"
  by (induction m) (auto split: if_splits)

end
