(* ===== verification/Threshold_Sig.thy ===== *)
theory Threshold_Sig
  imports Prelude
begin

text \<open>
  The signing state of one Bitcoin input (src/src/bitcoin/threshold_sig.rs): public keys,
  signatures, shares and \<open>ThresholdSig\<close> with each of its operations. The secp256k1 crate is a
  parameter, the record \<open>secp_lib\<close> below. \<open>from_sigset\<close> reads a signatory set only through its
  list of (public key, voting power) pairs, which is what it is given here.
\<close>

section \<open>The secp256k1 crate\<close>

type_synonym pubkey = bytes
type_synonym signature = bytes
type_synonym message = bytes

record secp_lib =
  pubkey_from_slice :: "bytes \<Rightarrow> bool"  \<comment> \<open>\<open>PublicKey::from_slice\<close> accepts the bytes\<close>
  message_from_slice :: "bytes \<Rightarrow> bool"  \<comment> \<open>\<open>secp256k1::Message::from_slice\<close> accepts them\<close>
  sig_from_compact :: "bytes \<Rightarrow> bool"  \<comment> \<open>\<open>ecdsa::Signature::from_compact\<close> accepts them\<close>
  verify_ecdsa :: "message \<Rightarrow> signature \<Rightarrow> pubkey \<Rightarrow> bool"
  serialize_der :: "signature \<Rightarrow> bytes"

section \<open>Public keys\<close>

definition PUBLIC_KEY_SIZE :: nat where "PUBLIC_KEY_SIZE = 33"

definition Pubkey_default :: pubkey where
  "Pubkey_default = replicate PUBLIC_KEY_SIZE 0"

definition Pubkey_new :: "'m secp_lib_scheme \<Rightarrow> bytes \<Rightarrow> pubkey result" where
  "Pubkey_new L pk =
     (if \<not> pubkey_from_slice L pk then Err (App ''Error deserializing public key from slice'')
      else Ok pk)"

definition Pubkey_try_from_slice :: "'m secp_lib_scheme \<Rightarrow> bytes \<Rightarrow> pubkey result" where
  "Pubkey_try_from_slice L bs =
     (if length bs \<noteq> PUBLIC_KEY_SIZE then Err (App ''Incorrect length'') else Pubkey_new L bs)"

section \<open>Threshold signatures\<close>

text \<open>\<open>SIGSET_THRESHOLD\<close> with the default features (\<open>testnet\<close>), src/src/bitcoin/mod.rs.\<close>

definition SIGSET_THRESHOLD :: "u64 \<times> u64" where
  "SIGSET_THRESHOLD = (9, 10)"

record share =
  sh_power :: u64
  sh_sig :: "signature option"

record threshold_sig =
  ts_threshold :: u64
  ts_signed :: u64
  ts_message :: message
  ts_len :: u16
  ts_sigs :: "(pubkey \<times> share) list"

definition ThresholdSig_new :: threshold_sig where
  "ThresholdSig_new =
     \<lparr>ts_threshold = 0, ts_signed = 0, ts_message = replicate 32 0, ts_len = 0, ts_sigs = []\<rparr>"

definition ThresholdSig_set_message :: "message \<Rightarrow> threshold_sig \<Rightarrow> threshold_sig" where
  "ThresholdSig_set_message m ts = ts\<lparr>ts_message := m\<rparr>"

text \<open>The loop visits every key of the map and resets its signature.\<close>

definition ThresholdSig_clear_sigs :: "threshold_sig \<Rightarrow> threshold_sig" where
  "ThresholdSig_clear_sigs ts =
     ts\<lparr>ts_signed := 0,
        ts_sigs := fold (\<lambda>k m. omap_modify k (\<lambda>sh. sh\<lparr>sh_sig := None\<rparr>) m)
          (map fst (ts_sigs ts)) (ts_sigs ts)\<rparr>"

text \<open>\<open>((total_vp as u128) * SIGSET_THRESHOLD.0 as u128 / SIGSET_THRESHOLD.1 as u128) as u64\<close>\<close>

definition threshold_of :: "u64 \<Rightarrow> u64" where
  "threshold_of total_vp = (total_vp * fst SIGSET_THRESHOLD div snd SIGSET_THRESHOLD) mod 2 ^ 64"

definition ThresholdSig_from_sigset :: "(pubkey \<times> u64) list \<Rightarrow> threshold_sig result" where
  "ThresholdSig_from_sigset signatories =
     rbind (fold_result (\<lambda>(ts, total_vp) (pubkey, voting_power).
         let ts = ts\<lparr>ts_sigs :=
               omap_insert (\<lambda>k. k) pubkey \<lparr>sh_power = voting_power, sh_sig = None\<rparr> (ts_sigs ts)\<rparr> in
         rbind (add_u16 (ts_len ts) 1) (\<lambda>len.
         rbind (add_u64 total_vp voting_power) (\<lambda>total_vp.
         Ok (ts\<lparr>ts_len := len\<rparr>, total_vp))))
       (ThresholdSig_new, 0) signatories)
     (\<lambda>(ts, total_vp). Ok (ts\<lparr>ts_threshold := threshold_of total_vp\<rparr>))"

definition ThresholdSig_from_shares :: "(pubkey \<times> share) list \<Rightarrow> threshold_sig result" where
  "ThresholdSig_from_shares shares =
     rbind (fold_result (\<lambda>(ts, total_vp, len) (pubkey, share).
         if sh_sig share \<noteq> None then Err Panic
         else
         rbind (add_u64 total_vp (sh_power share)) (\<lambda>total_vp.
         rbind (add_u16 len 1) (\<lambda>len.
         Ok (ts\<lparr>ts_sigs := omap_insert (\<lambda>k. k) pubkey share (ts_sigs ts)\<rparr>, total_vp, len))))
       (ThresholdSig_new, 0, 0) shares)
     (\<lambda>(ts, total_vp, len). Ok (ts\<lparr>ts_threshold := threshold_of total_vp, ts_len := len\<rparr>))"

definition ThresholdSig_signed :: "threshold_sig \<Rightarrow> bool" where
  "ThresholdSig_signed ts \<longleftrightarrow> ts_signed ts > ts_threshold ts"

definition ThresholdSig_sigs :: "threshold_sig \<Rightarrow> (pubkey \<times> signature) list" where
  "ThresholdSig_sigs ts =
     List.map_filter (\<lambda>(pk, sh). map_option (Pair pk) (sh_sig sh)) (ts_sigs ts)"

definition ThresholdSig_shares :: "threshold_sig \<Rightarrow> (pubkey \<times> share) list" where
  "ThresholdSig_shares ts = ts_sigs ts"

definition ThresholdSig_contains_key :: "threshold_sig \<Rightarrow> pubkey \<Rightarrow> bool" where
  "ThresholdSig_contains_key ts pk = omap_contains pk (ts_sigs ts)"

definition ThresholdSig_needs_sig :: "threshold_sig \<Rightarrow> pubkey \<Rightarrow> bool" where
  "ThresholdSig_needs_sig ts pk =
     (case map_of (ts_sigs ts) pk of None \<Rightarrow> False | Some sh \<Rightarrow> sh_sig sh = None)"

definition ThresholdSig_verify ::
  "'m secp_lib_scheme \<Rightarrow> threshold_sig \<Rightarrow> pubkey \<Rightarrow> signature \<Rightarrow> unit result" where
  "ThresholdSig_verify L ts pk sg =
     (if \<not> pubkey_from_slice L pk then Err Secp
      else if \<not> message_from_slice L (ts_message ts) then Err Secp
      else if \<not> sig_from_compact L sg then Err Secp
      else if \<not> verify_ecdsa L (ts_message ts) sg pk then Err Secp
      else Ok ())"

definition ThresholdSig_sign ::
  "'m secp_lib_scheme \<Rightarrow> pubkey \<Rightarrow> signature \<Rightarrow> threshold_sig \<Rightarrow> threshold_sig result" where
  "ThresholdSig_sign L pk sg ts =
     rbind (ok_or (App ''Pubkey is not part of threshold signature'') (map_of (ts_sigs ts) pk))
     (\<lambda>share.
       if sh_sig share \<noteq> None then Err (App ''Pubkey already signed'')
       else
       rbind (ThresholdSig_verify L ts pk sg) (\<lambda>_.
       let sigs = omap_modify pk (\<lambda>sh. sh\<lparr>sh_sig := Some sg\<rparr>) (ts_sigs ts) in
       rbind (add_u64 (ts_signed ts) (sh_power share)) (\<lambda>signed.
       Ok (ts\<lparr>ts_sigs := sigs, ts_signed := signed\<rparr>))))"

text \<open>\<open>EcdsaSighashType::All.to_u32() as u8\<close> is 1.\<close>

definition ThresholdSig_to_witness :: "'m secp_lib_scheme \<Rightarrow> threshold_sig \<Rightarrow> bytes list result" where
  "ThresholdSig_to_witness L ts =
     (if \<not> ThresholdSig_signed ts then Ok []
      else map_result (\<lambda>(_, share).
          case sh_sig share of
            None \<Rightarrow> Ok []
          | Some sg \<Rightarrow> if \<not> sig_from_compact L sg then Err Secp
                      else Ok (serialize_der L sg @ [1]))
        (sort_key (\<lambda>(pk, share). (sh_power share, pk)) (ts_sigs ts)))"

section \<open>The invariant\<close>

text \<open>Total voting power, and the part of it whose owners have signed.\<close>

definition total_power :: "(pubkey \<times> share) list \<Rightarrow> nat" where
  "total_power m = (\<Sum>(_, sh)\<leftarrow>m. sh_power sh)"

definition signed_power :: "(pubkey \<times> share) list \<Rightarrow> nat" where
  "signed_power m = (\<Sum>(_, sh)\<leftarrow>m. if sh_sig sh = None then 0 else sh_power sh)"

text \<open>A share is unsigned, or signed by a signature its key verifies on the message.\<close>

definition sig_valid :: "'m secp_lib_scheme \<Rightarrow> message \<Rightarrow> pubkey \<Rightarrow> signature \<Rightarrow> bool" where
  "sig_valid L m pk sg \<longleftrightarrow> pubkey_from_slice L pk \<and> message_from_slice L m
     \<and> sig_from_compact L sg \<and> verify_ecdsa L m sg pk"

definition share_verified :: "'m secp_lib_scheme \<Rightarrow> message \<Rightarrow> pubkey \<times> share \<Rightarrow> bool" where
  "share_verified L m = (\<lambda>(pk, sh). case sh_sig sh of None \<Rightarrow> True | Some sg \<Rightarrow> sig_valid L m pk sg)"

text \<open>
  A well-formed signing state: one share per key, in key order; the running counter is exactly
  the power of the shares that carry a signature, every stored signature verifies against the
  current message, and the threshold is the network's ratio of the total power.
\<close>

definition ts_inv :: "'m secp_lib_scheme \<Rightarrow> threshold_sig \<Rightarrow> bool" where
  "ts_inv L ts \<longleftrightarrow>
     omap_inv (\<lambda>k. k) (ts_sigs ts) \<and>
     ts_signed ts = signed_power (ts_sigs ts) \<and>
     total_power (ts_sigs ts) < 2 ^ 64 \<and>
     ts_threshold ts = threshold_of (total_power (ts_sigs ts)) \<and>
     ts_len ts = length (ts_sigs ts) \<and>
     list_all (share_verified L (ts_message ts)) (ts_sigs ts)"

lemma total_power_simps [simp]:
  "total_power [] = 0" "total_power ((pk, sh) # m) = sh_power sh + total_power m"
  by (simp_all add: total_power_def)

lemma signed_power_simps [simp]:
  "signed_power [] = 0"
  "signed_power ((pk, sh) # m) = (if sh_sig sh = None then 0 else sh_power sh) + signed_power m"
  by (simp_all add: signed_power_def)

lemma signed_power_le_total: "signed_power m \<le> total_power m"
  by (induction m) auto

lemma total_power_modify_sig [simp]:
  "total_power (omap_modify pk (\<lambda>sh. sh\<lparr>sh_sig := s\<rparr>) m) = total_power m"
  by (induction m) (auto simp: omap_modify_def)

lemma signed_power_modify:
  assumes "distinct (map fst m)" and "map_of m pk = Some sh" and "sh_sig sh = None"
  shows "signed_power (omap_modify pk (\<lambda>sh. sh\<lparr>sh_sig := Some sg\<rparr>) m) = signed_power m + sh_power sh"
  using assms
proof (induction m)
  case Nil
  then show ?case by simp
next
  case (Cons a m)
  obtain k v where a: "a = (k, v)" by (cases a)
  have same: "omap_modify k g m = m" if "k \<notin> fst ` set m" for k :: bytes and g :: "share \<Rightarrow> share" and m
    using that by (induction m) (auto simp: omap_modify_def)
  show ?case
  proof (cases "k = pk")
    case True
    with Cons.prems a have "pk \<notin> fst ` set m" and v: "v = sh" by auto
    then have "omap_modify pk (\<lambda>sh. sh\<lparr>sh_sig := Some sg\<rparr>) m = m" by (intro same)
    with Cons.prems(3) True a v show ?thesis by (simp add: omap_modify_def)
  next
    case False
    with Cons a show ?thesis by (simp add: omap_modify_def)
  qed
qed

lemma ThresholdSig_verify_Ok [simp]:
  "ThresholdSig_verify L ts pk sg = Ok u \<longleftrightarrow> sig_valid L (ts_message ts) pk sg"
  by (auto simp: ThresholdSig_verify_def sig_valid_def)

section \<open>Signing\<close>

text \<open>The one case in which \<open>sign\<close> succeeds, and the state it leaves.\<close>

lemma ThresholdSig_sign_Ok:
  "ThresholdSig_sign L pk sg ts = Ok ts' \<longleftrightarrow>
     (\<exists>sh. map_of (ts_sigs ts) pk = Some sh \<and> sh_sig sh = None
       \<and> sig_valid L (ts_message ts) pk sg
       \<and> ts_signed ts + sh_power sh < 2 ^ 64
       \<and> ts' = ts\<lparr>ts_sigs := omap_modify pk (\<lambda>sh. sh\<lparr>sh_sig := Some sg\<rparr>) (ts_sigs ts),
                  ts_signed := ts_signed ts + sh_power sh\<rparr>)"
  by (auto simp: ThresholdSig_sign_def Let_def)

lemma ThresholdSig_sign_frame:
  assumes "ThresholdSig_sign L pk sg ts = Ok ts'"
  shows "ts_message ts' = ts_message ts" "ts_threshold ts' = ts_threshold ts"
    "ts_len ts' = ts_len ts" "map fst (ts_sigs ts') = map fst (ts_sigs ts)"
    "ts_signed ts \<le> ts_signed ts'"
  using assms by (auto simp: ThresholdSig_sign_Ok)

lemma list_all_omap_modify:
  assumes "list_all P m" and "\<And>v. (k, v) \<in> set m \<Longrightarrow> P (k, v) \<Longrightarrow> P (k, g v)"
  shows "list_all P (omap_modify k g m)"
  using assms by (auto simp: omap_modify_def list_all_iff)

lemma ThresholdSig_sign_inv:
  assumes "ts_inv L ts" and "ThresholdSig_sign L pk sg ts = Ok ts'"
  shows "ts_inv L ts'"
proof -
  from assms(2) obtain sh where
    sh: "map_of (ts_sigs ts) pk = Some sh" "sh_sig sh = None" "sig_valid L (ts_message ts) pk sg"
    and ts': "ts' = ts\<lparr>ts_sigs := omap_modify pk (\<lambda>sh. sh\<lparr>sh_sig := Some sg\<rparr>) (ts_sigs ts),
                  ts_signed := ts_signed ts + sh_power sh\<rparr>"
    by (auto simp: ThresholdSig_sign_Ok)
  from assms(1) have "distinct (map fst (ts_sigs ts))"
    by (auto simp: ts_inv_def intro: omap_inv_distinct)
  then have "signed_power (ts_sigs ts') = signed_power (ts_sigs ts) + sh_power sh"
    using signed_power_modify [OF _ sh(1,2)] ts' by simp
  moreover have "list_all (share_verified L (ts_message ts))
      (omap_modify pk (\<lambda>sh. sh\<lparr>sh_sig := Some sg\<rparr>) (ts_sigs ts))"
    by (rule list_all_omap_modify) (use assms(1) sh(3) in \<open>auto simp: ts_inv_def share_verified_def\<close>)
  ultimately show ?thesis
    using assms(1) ts' by (auto simp: ts_inv_def)
qed


text \<open>Under the invariant the counter cannot overflow, so \<open>sign\<close> never panics.\<close>

lemma signed_power_room:
  assumes "distinct (map fst m)" and "map_of m pk = Some sh" and "sh_sig sh = None"
  shows "signed_power m + sh_power sh \<le> total_power m"
  using signed_power_modify [OF assms, of undefined]
    signed_power_le_total [of "omap_modify pk (\<lambda>sh. sh\<lparr>sh_sig := Some undefined\<rparr>) m"]
  by simp

lemma ThresholdSig_sign_total:
  assumes "ts_inv L ts" and "ThresholdSig_needs_sig ts pk" and "sig_valid L (ts_message ts) pk sg"
  shows "\<exists>ts'. ThresholdSig_sign L pk sg ts = Ok ts'"
proof -
  from assms(2) obtain sh where sh: "map_of (ts_sigs ts) pk = Some sh" "sh_sig sh = None"
    by (auto simp: ThresholdSig_needs_sig_def split: option.splits)
  moreover have "ts_signed ts + sh_power sh < 2 ^ 64"
    using signed_power_room [OF omap_inv_distinct [of "\<lambda>k. k"] sh] assms(1) by (auto simp: ts_inv_def)
  ultimately show ?thesis
    using assms(3) by (auto simp: ThresholdSig_sign_Ok)
qed

lemma ThresholdSig_verify_Err:
  "ThresholdSig_verify L ts pk sg = Err e \<longleftrightarrow> e = Secp \<and> \<not> sig_valid L (ts_message ts) pk sg"
  by (auto simp: ThresholdSig_verify_def sig_valid_def)

lemma ThresholdSig_sign_Err:
  assumes "ts_inv L ts" and "ThresholdSig_sign L pk sg ts = Err e"
  shows "e = App ''Pubkey is not part of threshold signature'' \<and> \<not> ThresholdSig_contains_key ts pk
    \<or> e = App ''Pubkey already signed'' \<and> ThresholdSig_contains_key ts pk \<and> \<not> ThresholdSig_needs_sig ts pk
    \<or> e = Secp \<and> \<not> sig_valid L (ts_message ts) pk sg"
proof (cases "map_of (ts_sigs ts) pk")
  case None
  with assms(2) show ?thesis
    by (auto simp: ThresholdSig_sign_def ThresholdSig_contains_key_def omap_contains_def)
next
  case (Some sh)
  show ?thesis
  proof (cases "sh_sig sh = None \<and> sig_valid L (ts_message ts) pk sg")
    case True
    then have "ThresholdSig_needs_sig ts pk" using Some by (simp add: ThresholdSig_needs_sig_def)
    with ThresholdSig_sign_total [OF assms(1)] True assms(2) show ?thesis by fastforce
  next
    case False
    with Some assms(2) show ?thesis
      by (auto simp: ThresholdSig_sign_def ThresholdSig_contains_key_def omap_contains_def
          ThresholdSig_needs_sig_def rbind_eq_Err ThresholdSig_verify_Err split: if_splits)
  qed
qed

section \<open>The signing contract\<close>

text \<open>
  What the loops over a transaction's inputs (checkpoint and recovery signing) rely on: signing
  needs a missing signature, takes exactly that key off the list of missing ones, keeps the
  invariant and never undoes completion.
\<close>

locale threshold_signing =
  fixes needs :: "'s \<Rightarrow> 'k \<Rightarrow> bool"
    and sign :: "'k \<Rightarrow> 'g \<Rightarrow> 's \<Rightarrow> 's result"
    and complete :: "'s \<Rightarrow> bool"
    and inv :: "'s \<Rightarrow> bool"
  assumes sign_inv: "inv s \<Longrightarrow> sign k g s = Ok s' \<Longrightarrow> inv s'"
    and sign_needs: "sign k g s = Ok s' \<Longrightarrow> needs s k"
    and needs_sign: "sign k g s = Ok s' \<Longrightarrow> needs s' k' \<longleftrightarrow> needs s k' \<and> k' \<noteq> k"
    and sign_complete: "sign k g s = Ok s' \<Longrightarrow> complete s \<Longrightarrow> complete s'"
begin

text \<open>Any successful sequence of signatures is by distinct keys that all were missing.\<close>

lemma run_distinct:
  assumes "fold_result (\<lambda>s (k, g). sign k g s) s calls = Ok s'"
  shows "distinct (map fst calls) \<and> (\<forall>k. needs s' k \<longleftrightarrow> needs s k \<and> k \<notin> set (map fst calls))
    \<and> (\<forall>k \<in> set (map fst calls). needs s k)"
  using assms
proof (induction calls arbitrary: s)
  case Nil
  then show ?case by simp
next
  case (Cons c calls)
  obtain k g where c: "c = (k, g)" by (cases c)
  with Cons.prems obtain t where t: "sign k g s = Ok t"
    and rest: "fold_result (\<lambda>s (k, g). sign k g s) t calls = Ok s'"
    by auto
  from Cons.IH [OF rest] needs_sign [OF t] sign_needs [OF t] show ?case
    unfolding c by auto
qed

lemma run_inv: "fold_result (\<lambda>s (k, g). sign k g s) s calls = Ok s' \<Longrightarrow> inv s \<Longrightarrow> inv s'"
  by (erule fold_result_invariant) (auto dest: sign_inv)

lemma run_complete:
  "fold_result (\<lambda>s (k, g). sign k g s) s calls = Ok s' \<Longrightarrow> complete s \<Longrightarrow> complete s'"
  by (erule fold_result_invariant) (auto dest: sign_complete)

end

interpretation ts: threshold_signing ThresholdSig_needs_sig "ThresholdSig_sign L" ThresholdSig_signed
  "ts_inv L" for L :: "'m secp_lib_scheme"
proof unfold_locales
  show "ts_inv L s \<Longrightarrow> ThresholdSig_sign L k g s = Ok s' \<Longrightarrow> ts_inv L s'" for s s' k g
    by (rule ThresholdSig_sign_inv)
  show "ThresholdSig_sign L k g s = Ok s' \<Longrightarrow> ThresholdSig_needs_sig s k" for s s' k g
    by (auto simp: ThresholdSig_sign_Ok ThresholdSig_needs_sig_def)
  show "ThresholdSig_sign L k g s = Ok s' \<Longrightarrow>
      ThresholdSig_needs_sig s' k' \<longleftrightarrow> ThresholdSig_needs_sig s k' \<and> k' \<noteq> k" for s s' k g k'
    by (auto simp: ThresholdSig_sign_Ok ThresholdSig_needs_sig_def split: option.splits if_splits)
  show "ThresholdSig_sign L k g s = Ok s' \<Longrightarrow> ThresholdSig_signed s \<Longrightarrow> ThresholdSig_signed s'"
    for s s' k g
    by (auto simp: ThresholdSig_sign_Ok ThresholdSig_signed_def)
qed

section \<open>Construction from a signatory set\<close>

text \<open>The map that inserting the signatories one by one builds.\<close>

definition shares_of :: "(pubkey \<times> share) list \<Rightarrow> (pubkey \<times> share) list \<Rightarrow> (pubkey \<times> share) list" where
  "shares_of xs m = fold (\<lambda>(pk, sh). omap_insert (\<lambda>k. k) pk sh) xs m"

abbreviation unsigned_share :: "pubkey \<times> u64 \<Rightarrow> pubkey \<times> share" where
  "unsigned_share \<equiv> \<lambda>(pk, vp). (pk, \<lparr>sh_power = vp, sh_sig = None\<rparr>)"

lemma shares_of_simps [simp]:
  "shares_of [] m = m" "shares_of ((pk, sh) # xs) m = shares_of xs (omap_insert (\<lambda>k. k) pk sh m)"
  by (simp_all add: shares_of_def)

lemma omap_inv_shares_of: "omap_inv (\<lambda>k. k) m \<Longrightarrow> omap_inv (\<lambda>k. k) (shares_of xs m)"
  by (induction xs arbitrary: m) (auto simp: omap_inv_insert)

lemma map_of_shares_of:
  "distinct (map fst xs) \<Longrightarrow> map_of (shares_of xs m) = map_of m ++ map_of xs"
proof (induction xs arbitrary: m)
  case Nil
  then show ?case by simp
next
  case (Cons a xs)
  obtain pk sh where a: "a = (pk, sh)" by (cases a)
  with Cons.prems have "map_of xs pk = None" by (auto simp: map_of_eq_None_iff)
  with Cons a show ?case by (auto simp: map_add_def fun_eq_iff split: option.splits)
qed

lemma mset_omap_insert:
  "k \<notin> fst ` set m \<Longrightarrow> mset (omap_insert f k v m) = add_mset (k, v) (mset m)"
  by (induction f k v m rule: omap_insert.induct) auto

lemma mset_shares_of:
  "distinct (map fst xs) \<Longrightarrow> set (map fst xs) \<inter> fst ` set m = {} \<Longrightarrow>
   mset (shares_of xs m) = mset xs + mset m"
proof (induction xs arbitrary: m)
  case Nil
  then show ?case by simp
next
  case (Cons a xs)
  obtain pk sh where a: "a = (pk, sh)" by (cases a)
  with Cons.prems have "pk \<notin> fst ` set m" by auto
  with Cons a show ?case by (auto simp: mset_omap_insert keys_omap_insert)
qed

lemma total_power_mset: "mset m = mset m' \<Longrightarrow> total_power m = total_power m'"
  by (simp add: total_power_def flip: sum_mset_sum_list)

lemma signed_power_mset: "mset m = mset m' \<Longrightarrow> signed_power m = signed_power m'"
  by (simp add: signed_power_def flip: sum_mset_sum_list)

lemma total_power_unsigned [simp]:
  "total_power (map unsigned_share sgs) = (\<Sum>(_, vp)\<leftarrow>sgs. vp)"
  by (induction sgs) auto

lemma signed_power_unsigned [simp]: "signed_power (map unsigned_share sgs) = 0"
  by (induction sgs) auto

text \<open>\<open>from_sigset\<close> in closed form: it fails exactly when a counter would overflow.\<close>

lemma from_sigset_loop:
  assumes "total_vp < 2 ^ 64" and "ts_len ts < 2 ^ 16"
  shows "fold_result (\<lambda>(ts, total_vp) (pubkey, voting_power).
         let ts = ts\<lparr>ts_sigs :=
               omap_insert (\<lambda>k. k) pubkey \<lparr>sh_power = voting_power, sh_sig = None\<rparr> (ts_sigs ts)\<rparr> in
         rbind (add_u16 (ts_len ts) 1) (\<lambda>len.
         rbind (add_u64 total_vp voting_power) (\<lambda>total_vp.
         Ok (ts\<lparr>ts_len := len\<rparr>, total_vp)))) (ts, total_vp) sgs
    = (if total_vp + (\<Sum>(_, vp)\<leftarrow>sgs. vp) < 2 ^ 64 \<and> ts_len ts + length sgs < 2 ^ 16
       then Ok (ts\<lparr>ts_sigs := shares_of (map unsigned_share sgs) (ts_sigs ts),
                   ts_len := ts_len ts + length sgs\<rparr>,
                total_vp + (\<Sum>(_, vp)\<leftarrow>sgs. vp))
       else Err Panic)"
  using assms
proof (induction sgs arbitrary: ts total_vp)
  case Nil
  then show ?case by simp
next
  case (Cons a sgs)
  obtain pk vp where a: "a = (pk, vp)" by (cases a)
  show ?case
  proof (cases "total_vp + vp < 2 ^ 64 \<and> ts_len ts + 1 < 2 ^ 16")
    case True
    with Cons.IH show ?thesis
      by (simp add: a add_w_def Let_def add.assoc)
  next
    case False
    then show ?thesis by (auto simp: a add_w_def Let_def)
  qed
qed

lemma ThresholdSig_from_sigset_eq:
  "ThresholdSig_from_sigset sgs =
     (if (\<Sum>(_, vp)\<leftarrow>sgs. vp) < 2 ^ 64 \<and> length sgs < 2 ^ 16
      then Ok \<lparr>ts_threshold = threshold_of (\<Sum>(_, vp)\<leftarrow>sgs. vp), ts_signed = 0,
              ts_message = replicate 32 0, ts_len = length sgs,
              ts_sigs = shares_of (map unsigned_share sgs) []\<rparr>
      else Err Panic)"
  unfolding ThresholdSig_from_sigset_def
  by (subst from_sigset_loop) (auto simp: ThresholdSig_new_def)

lemma ThresholdSig_from_sigset_inv:
  assumes "ThresholdSig_from_sigset sgs = Ok ts" and "distinct (map fst sgs)"
  shows "ts_inv L ts" "\<not> ThresholdSig_signed ts"
    "map_of (ts_sigs ts) = map_of (map unsigned_share sgs)"
    "mset (ts_sigs ts) = mset (map unsigned_share sgs)"
proof -
  from assms(1) have ts: "ts_sigs ts = shares_of (map unsigned_share sgs) []" "ts_signed ts = 0"
    "(\<Sum>(_, vp)\<leftarrow>sgs. vp) < 2 ^ 64" "ts_threshold ts = threshold_of (\<Sum>(_, vp)\<leftarrow>sgs. vp)"
    "ts_len ts = length sgs"
    by (auto simp: ThresholdSig_from_sigset_eq split: if_splits)
  have fst: "map fst (map unsigned_share sgs) = map fst sgs" by auto
  have ms: "mset (ts_sigs ts) = mset (map unsigned_share sgs)"
    using mset_shares_of [of "map unsigned_share sgs" "[]"] assms(2) ts(1)
    by (simp only: fst) simp
  then have pw: "total_power (ts_sigs ts) = (\<Sum>(_, vp)\<leftarrow>sgs. vp)" "signed_power (ts_sigs ts) = 0"
    "length (ts_sigs ts) = length sgs"
    using total_power_mset [OF ms] signed_power_mset [OF ms] mset_eq_length [OF ms] by simp_all
  have "list_all (share_verified L m) (ts_sigs ts)" for m
    using mset_eq_setD [OF ms] by (auto simp: list_all_iff share_verified_def)
  with ts pw show "ts_inv L ts"
    by (simp add: ts_inv_def omap_inv_shares_of)
  show "\<not> ThresholdSig_signed ts" by (simp add: ThresholdSig_signed_def ts)
  show "map_of (ts_sigs ts) = map_of (map unsigned_share sgs)"
    using map_of_shares_of [of "map unsigned_share sgs" "[]"] assms(2) ts(1)
    by (simp only: fst) simp
  show "mset (ts_sigs ts) = mset (map unsigned_share sgs)" by (rule ms)
qed


lemma ThresholdSig_set_message_inv:
  assumes "ts_inv L ts" and "list_all (\<lambda>(_, sh). sh_sig sh = None) (ts_sigs ts)"
  shows "ts_inv L (ThresholdSig_set_message m ts)"
  using assms by (auto simp: ts_inv_def ThresholdSig_set_message_def share_verified_def list_all_iff)

lemma ThresholdSig_from_sigset_unsigned:
  assumes "ThresholdSig_from_sigset sgs = Ok ts" and "distinct (map fst sgs)"
  shows "list_all (\<lambda>(_, sh). sh_sig sh = None) (ts_sigs ts)"
  using mset_eq_setD [OF ThresholdSig_from_sigset_inv(4) [OF assms]] by (auto simp: list_all_iff)

text \<open>Any number of signatures collected on a fresh signing state for the message \<open>m\<close>.\<close>

lemma signing_run_inv:
  assumes "ThresholdSig_from_sigset sgs = Ok ts0" and "distinct (map fst sgs)"
    and "fold_result (\<lambda>ts (pk, sg). ThresholdSig_sign L pk sg ts) (ThresholdSig_set_message m ts0) calls = Ok ts"
  shows "ts_inv L ts" "ts_message ts = m" "map fst (ts_sigs ts) = map fst (ts_sigs ts0)"
proof -
  have "ts_inv L (ThresholdSig_set_message m ts0)"
    by (intro ThresholdSig_set_message_inv ThresholdSig_from_sigset_inv(1) [OF assms(1,2)]
        ThresholdSig_from_sigset_unsigned [OF assms(1,2)])
  then show "ts_inv L ts" by (rule ts.run_inv [OF assms(3)])
  have "ts_message ts = m \<and> map fst (ts_sigs ts) = map fst (ts_sigs ts0)"
    by (rule fold_result_invariant [OF assms(3)])
      (auto simp: ThresholdSig_set_message_def dest: ThresholdSig_sign_frame)
  then show "ts_message ts = m" "map fst (ts_sigs ts) = map fst (ts_sigs ts0)" by simp_all
qed

section \<open>Properties\<close>

text \<open>
  C12: whatever signatures are submitted, the state of an input built from a signatory set stays
  well formed: the power counted as signed is the power of the shares that hold a signature that
  verifies on the message, and it counts no key twice.
\<close>

theorem signing_counts_valid_shares:
  assumes "ThresholdSig_from_sigset sgs = Ok ts0" and "distinct (map fst sgs)"
    and "fold_result (\<lambda>ts (pk, sg). ThresholdSig_sign L pk sg ts) (ThresholdSig_set_message m ts0) calls = Ok ts"
  shows "ts_signed ts = signed_power (ts_sigs ts) \<and> distinct (map fst (ts_sigs ts))
    \<and> list_all (share_verified L m) (ts_sigs ts) \<and> distinct (map fst calls)
    \<and> set (map fst calls) \<subseteq> set (map fst sgs)
    \<and> (ThresholdSig_signed ts \<longleftrightarrow> signed_power (ts_sigs ts) > threshold_of (\<Sum>(_, vp)\<leftarrow>sgs. vp))"
proof -
  note inv = signing_run_inv [OF assms]
  have keys: "set (map fst (ts_sigs ts0)) = set (map fst sgs)"
    using mset_eq_setD [OF ThresholdSig_from_sigset_inv(4) [OF assms(1,2)]] by force
  have "k \<in> set (map fst (ts_sigs ts0))" if "k \<in> set (map fst calls)" for k
  proof -
    have "ThresholdSig_needs_sig (ThresholdSig_set_message m ts0) k"
      using ts.run_distinct [OF assms(3)] that by blast
    then obtain sh where "map_of (ts_sigs ts0) k = Some sh"
      by (auto simp: ThresholdSig_needs_sig_def ThresholdSig_set_message_def split: option.splits)
    from map_of_SomeD [OF this] show ?thesis by force
  qed
  moreover have "ts_threshold ts = threshold_of (\<Sum>(_, vp)\<leftarrow>sgs. vp)"
  proof -
    have "ts_threshold ts = ts_threshold ts0"
      by (rule fold_result_invariant [OF assms(3)])
        (auto simp: ThresholdSig_set_message_def dest: ThresholdSig_sign_frame)
    then show ?thesis using assms(1) by (auto simp: ThresholdSig_from_sigset_eq split: if_splits)
  qed
  moreover have "distinct (map fst (ts_sigs ts))"
    using inv(1) omap_inv_distinct [of "\<lambda>k. k"] by (auto simp: ts_inv_def)
  ultimately show ?thesis
    using inv ts.run_distinct [OF assms(3)] keys by (auto simp: ts_inv_def ThresholdSig_signed_def)
qed

definition demo_secp :: secp_lib where
  "demo_secp = \<lparr>pubkey_from_slice = (\<lambda>_. True), message_from_slice = (\<lambda>_. True),
     sig_from_compact = (\<lambda>_. True), verify_ecdsa = (\<lambda>_ sg pk. sg = pk), serialize_der = (\<lambda>sg. sg)\<rparr>"

definition demo_calls :: "threshold_sig \<Rightarrow> (pubkey \<times> signature) list \<Rightarrow> threshold_sig result" where
  "demo_calls = fold_result (\<lambda>ts (pk, sg). ThresholdSig_sign demo_secp pk sg ts)"

theorem signing_counts_valid_shares_witness:
  "\<exists>ts0 ts. ThresholdSig_from_sigset [([1], 5), ([2], 4), ([3], 1)] = Ok ts0
    \<and> demo_calls (ThresholdSig_set_message [7] ts0) [([2], [2]), ([1], [1])] = Ok ts
    \<and> ts_signed ts = signed_power (ts_sigs ts) \<and> ts_signed ts = 9 \<and> \<not> ThresholdSig_signed ts"
proof -
  let ?sgs = "[([1], 5), ([2], 4), ([3], 1)] :: (pubkey \<times> u64) list"
  obtain ts0 where ts0: "ThresholdSig_from_sigset ?sgs = Ok ts0"
    by (simp add: ThresholdSig_from_sigset_eq)
  obtain ts where ts: "fold_result (\<lambda>ts (pk, sg). ThresholdSig_sign demo_secp pk sg ts)
      (ThresholdSig_set_message [7] ts0) [([2], [2]), ([1], [1])] = Ok ts" and n: "ts_signed ts = 9"
    using ts0 by (auto simp: ThresholdSig_from_sigset_eq ThresholdSig_sign_Ok sig_valid_def demo_secp_def
        ThresholdSig_set_message_def omap_modify_def)
  have d: "distinct (map fst ?sgs)" by simp
  have "threshold_of (\<Sum>(_, vp)\<leftarrow>?sgs. vp) = 9" by (simp add: threshold_of_def SIGSET_THRESHOLD_def)
  with signing_counts_valid_shares [OF ts0 d ts] ts0 ts n show ?thesis
    unfolding demo_calls_def by (intro exI [of _ ts0] exI [of _ ts]) simp
qed

text \<open>
  Under the invariant a signature is either recorded or refused with one of three errors,
  each for its reason: the key is not in the set, it has signed already, or the signature does
  not verify. In particular the counter never overflows.
\<close>

theorem sign_outcome:
  assumes "ts_inv L ts"
  shows "(case ThresholdSig_sign L pk sg ts of
      Ok ts' \<Rightarrow> ThresholdSig_needs_sig ts pk \<and> sig_valid L (ts_message ts) pk sg \<and> ts_inv L ts'
        \<and> \<not> ThresholdSig_needs_sig ts' pk
    | Err e \<Rightarrow> e = App ''Pubkey is not part of threshold signature'' \<and> \<not> ThresholdSig_contains_key ts pk
        \<or> e = App ''Pubkey already signed'' \<and> ThresholdSig_contains_key ts pk \<and> \<not> ThresholdSig_needs_sig ts pk
        \<or> e = Secp \<and> \<not> sig_valid L (ts_message ts) pk sg)"
proof (cases "ThresholdSig_sign L pk sg ts")
  case (Ok ts')
  then have "sig_valid L (ts_message ts) pk sg" by (auto simp: ThresholdSig_sign_Ok)
  with Ok show ?thesis
    using ts.sign_needs [OF Ok] ts.needs_sign [OF Ok, of pk] ts.sign_inv [OF assms Ok] by simp
next
  case (Err e)
  with ThresholdSig_sign_Err [OF assms Err] show ?thesis by simp
qed

theorem sign_outcome_witness:
  "ts_inv demo_secp ThresholdSig_new \<and>
   ThresholdSig_sign demo_secp [1] [1] ThresholdSig_new = Err (App ''Pubkey is not part of threshold signature'')"
proof -
  have inv: "ts_inv demo_secp ThresholdSig_new"
    by (simp add: ts_inv_def ThresholdSig_new_def threshold_of_def)
  have "ThresholdSig_sign demo_secp [1] [1] ThresholdSig_new
      = Err (App ''Pubkey is not part of threshold signature'')"
    using sign_outcome [OF inv, of "[1]" "[1]"]
    by (simp add: ThresholdSig_sign_def ThresholdSig_new_def)
  with inv show ?thesis by simp
qed

end
