(* ===== verification/Signatory.thy ===== *)
theory Signatory
  imports Threshold_Sig
begin

text \<open>
  Signatory sets (src/src/bitcoin/signatory.rs): selection from the validator set, the weighted
  multisig redeem script, and the parser that recovers a set from such a script. The bitcoin and
  bitcoin-script crates are parameters, the record \<open>script_lib\<close>: a script is bytes, the assembler
  turns a list of instructions into bytes and \<open>Script::instructions\<close> reads them back.
\<close>

section \<open>Scripts and extended keys of the bitcoin crate\<close>

datatype opcode =
    OP_FALSE | OP_IF | OP_ELSE | OP_ENDIF | OP_DROP | OP_SWAP | OP_ADD | OP_GREATERTHAN
  | OP_CHECKSIG | OP_PUSHNUM u8 | OP_OTHER u8

datatype instruction = Op opcode | PushBytes bytes

datatype network = Bitcoin_net | Testnet | Regtest | Signet

record xpub =
  xp_network :: network
  xp_depth :: nat
  xp_parent_fingerprint :: bytes
  xp_child_number :: nat
  xp_public_key :: bytes
  xp_chain_code :: bytes

record script_lib = secp_lib +
  script_bytes :: "instruction list \<Rightarrow> bytes"  \<comment> \<open>the \<open>script!\<close> assembler\<close>
  instructions :: "bytes \<Rightarrow> instruction option list"  \<comment> \<open>\<open>None\<close>: an unreadable instruction\<close>
  push_int :: "int \<Rightarrow> instruction"  \<comment> \<open>\<open>Builder::push_int\<close>\<close>
  read_scriptint :: "bytes \<Rightarrow> int option"
  to_v0_p2wsh :: "bytes \<Rightarrow> bytes"
  encode_slice :: "bytes \<Rightarrow> bytes result"  \<comment> \<open>\<open>Encode::encode\<close> on \<open>[u8]\<close>\<close>
  from_normal_idx :: "u32 \<Rightarrow> nat result"  \<comment> \<open>\<open>ChildNumber::from_normal_idx\<close>\<close>
  derive_pub :: "xpub \<Rightarrow> nat \<Rightarrow> pubkey result"  \<comment> \<open>\<open>ExtendedPubKey::derive_pub\<close>, its public key\<close>

definition derive_pubkey :: "'m script_lib_scheme \<Rightarrow> xpub \<Rightarrow> u32 \<Rightarrow> pubkey result" where
  "derive_pubkey L xpub sigset_index =
     rbind (from_normal_idx L sigset_index) (\<lambda>child. derive_pub L xpub child)"

section \<open>Signatory sets\<close>

definition MAX_SIGNATORIES :: u64 where "MAX_SIGNATORIES = 20"

record signatory =
  sg_voting_power :: u64
  sg_pubkey :: pubkey

record signatory_set =
  ss_create_time :: u64
  ss_present_vp :: u64
  ss_possible_vp :: u64
  ss_index :: u32
  ss_signatories :: "signatory list"

text \<open>The derived \<open>Ord\<close> compares the fields in order.\<close>

definition sg_key :: "signatory \<Rightarrow> u64 \<times> pubkey" where
  "sg_key s = (sg_voting_power s, sg_pubkey s)"

definition SignatorySet_insert :: "signatory \<Rightarrow> signatory_set \<Rightarrow> signatory_set result" where
  "SignatorySet_insert s ss =
     rbind (add_u64 (ss_present_vp ss) (sg_voting_power s)) (\<lambda>vp.
     Ok (ss\<lparr>ss_present_vp := vp, ss_signatories := ss_signatories ss @ [s]\<rparr>))"

text \<open>\<open>sort_by(|a, b| b.cmp(a))\<close> sorts in descending order; signatories that compare equal are
  equal, so the order among them is not observable.\<close>

definition SignatorySet_sort_and_truncate :: "signatory_set \<Rightarrow> signatory_set result" where
  "SignatorySet_sort_and_truncate ss =
     (let ss = ss\<lparr>ss_signatories := rev (sort_key sg_key (ss_signatories ss))\<rparr> in
      if length (ss_signatories ss) > MAX_SIGNATORIES then
        rbind (fold_result (\<lambda>vp removed. sub_u vp (sg_voting_power removed)) (ss_present_vp ss)
                 (drop MAX_SIGNATORIES (ss_signatories ss))) (\<lambda>vp.
        Ok (ss\<lparr>ss_present_vp := vp, ss_signatories := take MAX_SIGNATORIES (ss_signatories ss)\<rparr>))
      else Ok ss)"

text \<open>The body of the loop over the validator set.\<close>

definition add_validator ::
  "'m script_lib_scheme \<Rightarrow> nat \<Rightarrow> (consensus_key \<times> xpub) list \<Rightarrow> signatory_set \<Rightarrow> validator_entry
     \<Rightarrow> signatory_set result" where
  "add_validator L derive_path sig_keys sigset entry =
     rbind (add_u64 (ss_possible_vp sigset) (ve_power entry)) (\<lambda>possible_vp.
     let sigset = sigset\<lparr>ss_possible_vp := possible_vp\<rparr> in
     case map_of sig_keys (ve_pubkey entry) of
       None \<Rightarrow> Ok sigset
     | Some xpub \<Rightarrow>
         rbind (derive_pub L xpub derive_path) (\<lambda>signatory_key.
         SignatorySet_insert \<lparr>sg_voting_power = ve_power entry, sg_pubkey = signatory_key\<rparr> sigset))"

definition SignatorySet_from_validator_ctx ::
  "'m script_lib_scheme \<Rightarrow> ctx \<Rightarrow> u32 \<Rightarrow> (consensus_key \<times> xpub) list \<Rightarrow> signatory_set result" where
  "SignatorySet_from_validator_ctx L C index sig_keys =
     rbind (ok_or (App ''No time context found'') (cx_time C)) (\<lambda>seconds.
     let sigset = \<lparr>ss_create_time = as_u64 seconds, ss_present_vp = 0, ss_possible_vp = 0,
                   ss_index = index, ss_signatories = []\<rparr> in
     rbind (ok_or (App ''No validator context found'') (cx_validators C)) (\<lambda>val_set.
     rbind (ok_or (App ''Could not access validator set'') val_set) (\<lambda>entries.
     rbind (from_normal_idx L index) (\<lambda>derive_path.
     rbind (fold_result (add_validator L derive_path sig_keys) sigset entries)
     SignatorySet_sort_and_truncate))))"

text \<open>\<open>((self.present_vp as u128) * numerator as u128 / denominator as u128) as u64\<close>\<close>

definition SignatorySet_signature_threshold :: "signatory_set \<Rightarrow> u64 \<times> u64 \<Rightarrow> u64 result" where
  "SignatorySet_signature_threshold ss = (\<lambda>(numerator, denominator).
     rbind (div_u (ss_present_vp ss * numerator) denominator) (\<lambda>x. Ok (x mod 2 ^ 64)))"

definition SignatorySet_quorum_threshold :: "signatory_set \<Rightarrow> u64" where
  "SignatorySet_quorum_threshold ss = ss_possible_vp ss div 2"

definition SignatorySet_has_quorum :: "signatory_set \<Rightarrow> bool" where
  "SignatorySet_has_quorum ss \<longleftrightarrow> ss_present_vp ss \<ge> SignatorySet_quorum_threshold ss"

definition SignatorySet_len :: "signatory_set \<Rightarrow> nat" where
  "SignatorySet_len ss = length (ss_signatories ss)"

definition SignatorySet_get_truncation :: "signatory_set \<Rightarrow> u32 \<Rightarrow> u32" where
  "SignatorySet_get_truncation ss target_precision =
     (let vp_bits = 64 - leading_zeros (ss_present_vp ss) in vp_bits - target_precision)"

definition SignatorySet_est_witness_vsize :: "signatory_set \<Rightarrow> u64" where
  "SignatorySet_est_witness_vsize ss = length (ss_signatories ss) * 79 + 39"

text \<open>The script pieces, in the order the code appends them.\<close>

definition first_piece :: "'m script_lib_scheme \<Rightarrow> u32 \<Rightarrow> signatory \<Rightarrow> instruction list" where
  "first_piece L truncation s =
     [PushBytes (sg_pubkey s), Op OP_CHECKSIG,
      Op OP_IF, push_int L (as_i64 (drop_bit truncation (sg_voting_power s))),
      Op OP_ELSE, push_int L 0, Op OP_ENDIF]"

definition nth_piece :: "'m script_lib_scheme \<Rightarrow> u32 \<Rightarrow> signatory \<Rightarrow> instruction list" where
  "nth_piece L truncation s =
     [Op OP_SWAP, PushBytes (sg_pubkey s), Op OP_CHECKSIG,
      Op OP_IF, push_int L (as_i64 (drop_bit truncation (sg_voting_power s))), Op OP_ADD,
      Op OP_ENDIF]"

definition SignatorySet_redeem_script ::
  "'m script_lib_scheme \<Rightarrow> signatory_set \<Rightarrow> bytes \<Rightarrow> u64 \<times> u64 \<Rightarrow> bytes result" where
  "SignatorySet_redeem_script L ss dest threshold =
     (let truncation = SignatorySet_get_truncation ss 23 in
      case ss_signatories ss of
        [] \<Rightarrow> Err (App ''Cannot create redeem script for empty signatory set'')
      | signatory # rest \<Rightarrow>
          let bs = script_bytes L (first_piece L truncation signatory)
                     @ concat (map (\<lambda>s. script_bytes L (nth_piece L truncation s)) rest) in
          rbind (SignatorySet_signature_threshold ss threshold) (\<lambda>thr.
          let bs = bs @ script_bytes L
                [push_int L (as_i64 (drop_bit truncation thr)), Op OP_GREATERTHAN] in
          rbind (encode_slice L dest) (\<lambda>data.
          Ok (bs @ script_bytes L [PushBytes data, Op OP_DROP]))))"

definition SignatorySet_output_script ::
  "'m script_lib_scheme \<Rightarrow> signatory_set \<Rightarrow> bytes \<Rightarrow> u64 \<times> u64 \<Rightarrow> bytes result" where
  "SignatorySet_output_script L ss dest threshold =
     rbind (SignatorySet_redeem_script L ss dest threshold) (\<lambda>s. Ok (to_v0_p2wsh L s))"

section \<open>Parsing a redeem script\<close>

type_synonym ins = "instruction option list"

definition take_instruction :: "ins \<Rightarrow> (instruction \<times> ins) result" where
  "take_instruction ins =
     (case ins of
        [] \<Rightarrow> Err (App ''Unexpected end of script'')
      | None # _ \<Rightarrow> Err (App ''Failed to read script'')
      | Some i # rest \<Rightarrow> Ok (i, rest))"

definition take_bytes :: "ins \<Rightarrow> (bytes \<times> ins) result" where
  "take_bytes ins =
     rbind (take_instruction ins) (\<lambda>(i, rest).
     case i of PushBytes bs \<Rightarrow> Ok (bs, rest) | Op _ \<Rightarrow> Err (App ''Expected OP_PUSHBYTES''))"

definition take_key :: "'m script_lib_scheme \<Rightarrow> ins \<Rightarrow> (pubkey \<times> ins) result" where
  "take_key L ins =
     rbind (take_bytes ins) (\<lambda>(bs, rest).
     if length bs \<noteq> 33 then Err (App ''Expected 33 bytes'')
     else rbind (Pubkey_try_from_slice L bs) (\<lambda>pk. Ok (pk, rest)))"

definition take_number :: "'m script_lib_scheme \<Rightarrow> ins \<Rightarrow> (int \<times> ins) result" where
  "take_number L ins =
     rbind (take_bytes ins) (\<lambda>(bs, rest).
     rbind (ok_or (App ''Failed to read scriptint'') (read_scriptint L bs)) (\<lambda>n. Ok (n, rest)))"

definition take_op :: "ins \<Rightarrow> opcode \<Rightarrow> (opcode \<times> ins) result" where
  "take_op ins expected_op =
     rbind (take_instruction ins) (\<lambda>(i, rest).
     rbind (case i of Op op \<Rightarrow> Ok op | PushBytes bs \<Rightarrow>
              if bs = [] then Ok OP_FALSE else Err (App ''Expected opcode'')) (\<lambda>op.
     if op \<noteq> expected_op then Err (App ''Expected opcode'') else Ok (op, rest)))"

definition take_first_signatory :: "'m script_lib_scheme \<Rightarrow> ins \<Rightarrow> (signatory \<times> ins) result" where
  "take_first_signatory L ins =
     rbind (take_key L ins) (\<lambda>(pubkey, ins).
     rbind (take_op ins OP_CHECKSIG) (\<lambda>(_, ins).
     rbind (take_op ins OP_IF) (\<lambda>(_, ins).
     rbind (take_number L ins) (\<lambda>(voting_power, ins).
     rbind (take_op ins OP_ELSE) (\<lambda>(_, ins).
     rbind (take_op ins OP_FALSE) (\<lambda>(_, ins).
     rbind (take_op ins OP_ENDIF) (\<lambda>(_, ins).
     Ok (\<lparr>sg_voting_power = as_u64 voting_power, sg_pubkey = pubkey\<rparr>, ins))))))))"

definition take_nth_signatory :: "'m script_lib_scheme \<Rightarrow> ins \<Rightarrow> (signatory \<times> ins) result" where
  "take_nth_signatory L ins =
     rbind (take_op ins OP_SWAP) (\<lambda>(_, ins).
     rbind (take_key L ins) (\<lambda>(pubkey, ins).
     rbind (take_op ins OP_CHECKSIG) (\<lambda>(_, ins).
     rbind (take_op ins OP_IF) (\<lambda>(_, ins).
     rbind (take_number L ins) (\<lambda>(voting_power, ins).
     rbind (take_op ins OP_ADD) (\<lambda>(_, ins).
     rbind (take_op ins OP_ENDIF) (\<lambda>(_, ins).
     Ok (\<lparr>sg_voting_power = as_u64 voting_power, sg_pubkey = pubkey\<rparr>, ins))))))))"

definition take_threshold :: "'m script_lib_scheme \<Rightarrow> ins \<Rightarrow> (u64 \<times> ins) result" where
  "take_threshold L ins =
     rbind (take_number L ins) (\<lambda>(threshold, ins).
     rbind (take_op ins OP_GREATERTHAN) (\<lambda>(_, ins). Ok (as_u64 threshold, ins)))"

definition take_commitment :: "ins \<Rightarrow> (bytes \<times> ins) result" where
  "take_commitment ins =
     rbind (take_bytes ins) (\<lambda>(bs, ins).
     rbind (take_op ins OP_DROP) (\<lambda>(_, ins). Ok (bs, ins)))"

lemma take_instruction_Ok [simp]: "take_instruction ins = Ok (i, rest) \<longleftrightarrow> ins = Some i # rest"
  by (auto simp: take_instruction_def split: list.splits option.splits)

lemma take_bytes_Ok [simp]: "take_bytes ins = Ok (b, rest) \<longleftrightarrow> ins = Some (PushBytes b) # rest"
proof
  assume "take_bytes ins = Ok (b, rest)"
  then obtain i r where "ins = Some i # r"
    and "(case i of PushBytes bs \<Rightarrow> Ok (bs, r) | Op _ \<Rightarrow> Err (App ''Expected OP_PUSHBYTES'')) = Ok (b, rest)"
    by (auto simp: take_bytes_def)
  then show "ins = Some (PushBytes b) # rest" by (cases i) auto
qed (simp add: take_bytes_def take_instruction_def)

lemma take_op_Ok [simp]:
  "take_op ins e = Ok (x, rest) \<longleftrightarrow>
     x = e \<and> (ins = Some (Op e) # rest \<or> e = OP_FALSE \<and> ins = Some (PushBytes []) # rest)"
proof
  assume "take_op ins e = Ok (x, rest)"
  then obtain i r where ins: "ins = Some i # r"
    and "rbind (case i of Op op \<Rightarrow> Ok op | PushBytes bs \<Rightarrow>
              if bs = [] then Ok OP_FALSE else Err (App ''Expected opcode'')) (\<lambda>op.
     if op \<noteq> e then Err (App ''Expected opcode'') else Ok (op, r)) = Ok (x, rest)"
    by (auto simp: take_op_def)
  then show "x = e \<and> (ins = Some (Op e) # rest \<or> e = OP_FALSE \<and> ins = Some (PushBytes []) # rest)"
    by (cases i) auto
qed (auto simp: take_op_def take_instruction_def)

lemma take_key_Ok [simp]:
  "take_key L ins = Ok (pk, rest) \<longleftrightarrow>
     ins = Some (PushBytes pk) # rest \<and> length pk = 33 \<and> pubkey_from_slice L pk"
  by (auto simp: take_key_def Pubkey_try_from_slice_def Pubkey_new_def PUBLIC_KEY_SIZE_def)

lemma take_number_Ok [simp]:
  "take_number L ins = Ok (n, rest) \<longleftrightarrow>
     (\<exists>b. ins = Some (PushBytes b) # rest \<and> read_scriptint L b = Some n)"
  by (auto simp: take_number_def)

lemma take_nth_signatory_length: "take_nth_signatory L ins = Ok (s, rest) \<Longrightarrow> length rest < length ins"
  by (auto simp: take_nth_signatory_def)

text \<open>The \<open>loop\<close> that peeks at the next instruction and takes a signatory while it is \<open>OP_SWAP\<close>.\<close>

function take_signatories ::
  "'m script_lib_scheme \<Rightarrow> signatory list \<Rightarrow> ins \<Rightarrow> (signatory list \<times> ins) result" where
  "take_signatories L sigs ins =
     rbind (take_instruction ins) (\<lambda>(next, _).
     if next = Op OP_SWAP then
       rbind (take_nth_signatory L ins) (\<lambda>(s, rest). take_signatories L (sigs @ [s]) rest)
     else Ok (sigs, ins))"
  by pat_completeness auto
termination
  by (relation "measure (\<lambda>(L, sigs, ins). length ins)") (auto dest: take_nth_signatory_length)

declare take_signatories.simps [simp del]

text \<open>The search for a present voting power with the script's threshold: at most 100 rounds.\<close>

fun search_threshold :: "nat \<Rightarrow> u64 \<times> u64 \<Rightarrow> u64 \<Rightarrow> signatory_set \<Rightarrow> signatory_set result" where
  "search_threshold 0 ratio expected ss = Ok ss"
| "search_threshold (Suc n) ratio expected ss =
     rbind (SignatorySet_signature_threshold ss ratio) (\<lambda>actual.
     if actual = expected then Ok ss
     else if actual < expected then
       rbind (add_u64 (ss_present_vp ss) 1) (\<lambda>present.
       rbind (add_u64 (ss_possible_vp ss) 1) (\<lambda>possible.
       search_threshold n ratio expected (ss\<lparr>ss_present_vp := present, ss_possible_vp := possible\<rparr>)))
     else
       rbind (sub_u (ss_present_vp ss) 1) (\<lambda>present.
       rbind (sub_u (ss_possible_vp ss) 1) (\<lambda>possible.
       search_threshold n ratio expected (ss\<lparr>ss_present_vp := present, ss_possible_vp := possible\<rparr>))))"

definition SignatorySet_from_script ::
  "'m script_lib_scheme \<Rightarrow> bytes \<Rightarrow> u64 \<times> u64 \<Rightarrow> (signatory_set \<times> bytes) result" where
  "SignatorySet_from_script L script threshold_ratio =
     rbind (take_first_signatory L (instructions L script)) (\<lambda>(first, ins).
     rbind (take_signatories L [first] ins) (\<lambda>(sigs, ins).
     rbind (take_threshold L ins) (\<lambda>(expected_threshold, ins).
     rbind (take_commitment ins) (\<lambda>(commitment, ins).
     if ins \<noteq> [] then Err Panic
     else
     rbind (fold_result (\<lambda>sum s. add_u64 sum (sg_voting_power s)) 0 sigs) (\<lambda>total_vp.
     let sigset = \<lparr>ss_create_time = 0, ss_present_vp = total_vp, ss_possible_vp = total_vp,
                   ss_index = 0, ss_signatories = sigs\<rparr> in
     rbind (search_threshold 100 threshold_ratio expected_threshold sigset) (\<lambda>sigset.
     rbind (SignatorySet_signature_threshold sigset threshold_ratio) (\<lambda>actual.
     if actual \<noteq> expected_threshold then Err Panic
     else
     rbind (SignatorySet_redeem_script L sigset commitment threshold_ratio) (\<lambda>redeem.
     if redeem \<noteq> script then Err Panic
     else Ok (sigset, commitment)))))))))"

section \<open>Selection from the validator set\<close>

abbreviation vp_sum :: "signatory list \<Rightarrow> nat" where
  "vp_sum xs \<equiv> sum_list (map sg_voting_power xs)"

text \<open>The validators that have declared a key, in the order of the validator set.\<close>

definition eligible ::
  "'m script_lib_scheme \<Rightarrow> nat \<Rightarrow> (consensus_key \<times> xpub) list \<Rightarrow> validator_entry list \<Rightarrow> signatory list" where
  "eligible L path keys entries =
     List.map_filter (\<lambda>e. case map_of keys (ve_pubkey e) of
         None \<Rightarrow> None
       | Some x \<Rightarrow> (case derive_pub L x path of
             Ok pk \<Rightarrow> Some \<lparr>sg_voting_power = ve_power e, sg_pubkey = pk\<rparr>
           | Err _ \<Rightarrow> None)) entries"

lemma eligible_simps [simp]:
  "eligible L path keys [] = []"
  "eligible L path keys (e # es) =
     (case map_of keys (ve_pubkey e) of
         None \<Rightarrow> eligible L path keys es
       | Some x \<Rightarrow> (case derive_pub L x path of
             Ok pk \<Rightarrow> \<lparr>sg_voting_power = ve_power e, sg_pubkey = pk\<rparr> # eligible L path keys es
           | Err _ \<Rightarrow> eligible L path keys es))"
  by (auto simp: eligible_def map_filter_simps split: option.splits result.splits)

text \<open>What a signatory set promises to its users.\<close>

definition ss_inv :: "signatory_set \<Rightarrow> bool" where
  "ss_inv ss \<longleftrightarrow>
     ss_present_vp ss = vp_sum (ss_signatories ss) \<and>
     ss_present_vp ss \<le> ss_possible_vp ss \<and> ss_possible_vp ss < 2 ^ 64 \<and>
     length (ss_signatories ss) \<le> MAX_SIGNATORIES \<and>
     sorted_wrt (\<lambda>a b. sg_key a \<ge> sg_key b) (ss_signatories ss)"

lemma add_validator_Ok:
  assumes "add_validator L path keys ss e = Ok t"
  shows "t = ss\<lparr>ss_possible_vp := ss_possible_vp ss + ve_power e,
      ss_present_vp := ss_present_vp ss + vp_sum (eligible L path keys [e]),
      ss_signatories := ss_signatories ss @ eligible L path keys [e]\<rparr>
    \<and> ss_possible_vp ss + ve_power e < 2 ^ 64"
  using assms
  by (cases "map_of keys (ve_pubkey e)")
    (auto simp: add_validator_def Let_def SignatorySet_insert_def)

lemma eligible_append:
  "eligible L path keys (e # es) = eligible L path keys [e] @ eligible L path keys es"
  by (auto split: option.splits result.splits)

lemma eligible_vp_le: "vp_sum (eligible L path keys es) \<le> sum_list (map ve_power es)"
proof (induction es)
  case (Cons e es)
  have "vp_sum (eligible L path keys [e]) \<le> ve_power e"
    by (auto split: option.splits result.splits)
  with Cons show ?case by (subst eligible_append) simp
qed simp

lemma validator_loop:
  assumes "fold_result (add_validator L path keys) ss entries = Ok ss'" and "ss_possible_vp ss < 2 ^ 64"
  shows "ss' = ss\<lparr>ss_possible_vp := ss_possible_vp ss + sum_list (map ve_power entries),
      ss_present_vp := ss_present_vp ss + vp_sum (eligible L path keys entries),
      ss_signatories := ss_signatories ss @ eligible L path keys entries\<rparr>
    \<and> ss_possible_vp ss' < 2 ^ 64"
  using assms
proof (induction entries arbitrary: ss)
  case Nil
  then show ?case by simp
next
  case (Cons e entries)
  from Cons.prems obtain t where t: "add_validator L path keys ss e = Ok t"
    and rest: "fold_result (add_validator L path keys) t entries = Ok ss'" by auto
  note t = add_validator_Ok [OF t]
  from t have "ss_possible_vp t < 2 ^ 64" by simp
  from Cons.IH [OF rest this] have ss': "ss_possible_vp ss' < 2 ^ 64"
    and eq: "ss' = t\<lparr>ss_possible_vp := ss_possible_vp t + sum_list (map ve_power entries),
      ss_present_vp := ss_present_vp t + vp_sum (eligible L path keys entries),
      ss_signatories := ss_signatories t @ eligible L path keys entries\<rparr>"
    by blast+
  from ss' show ?case
    unfolding eq conjunct1 [OF t]
    by (simp del: eligible_simps add: eligible_append [of _ _ _ e entries] add.assoc)
qed

lemma fold_sub_Ok:
  "fold_result (\<lambda>vp removed. sub_u vp (sg_voting_power removed)) v xs = Ok w \<longleftrightarrow>
     w = v - vp_sum xs \<and> vp_sum xs \<le> v"
proof (induction xs arbitrary: v)
  case (Cons x xs)
  then show ?case by (simp add: conj_commute) linarith
qed auto

lemma sorted_rev_sort_key: "sorted_wrt (\<lambda>a b. f a \<ge> f b) (rev (sort_key f xs))"
  using sorted_sort_key [of f xs] by (simp add: sorted_wrt_rev sorted_map)

lemma sorted_wrt_take: "sorted_wrt P xs \<Longrightarrow> sorted_wrt P (take n xs)"
  by (metis append_take_drop_id sorted_wrt_append)

lemma vp_sum_sort [simp]: "vp_sum (rev (sort_key f xs)) = vp_sum xs"
proof -
  have "mset (map sg_voting_power (sort_key f xs)) = mset (map sg_voting_power xs)" by simp
  then show ?thesis by (metis rev_map sum_list_rev sum_mset_sum_list)
qed

lemma vp_sum_take_drop: "vp_sum xs = vp_sum (take n xs) + vp_sum (drop n xs)"
  by (metis append_take_drop_id map_append sum_list_append)

lemma SignatorySet_from_validator_ctx_Ok:
  assumes "SignatorySet_from_validator_ctx L C index keys = Ok ss"
  obtains seconds entries path where
    "cx_time C = Some seconds" "cx_validators C = Some (Some entries)"
    "from_normal_idx L index = Ok path"
    "ss_create_time ss = as_u64 seconds" "ss_index ss = index"
    "ss_possible_vp ss = sum_list (map ve_power entries)" "ss_possible_vp ss < 2 ^ 64"
    "ss_signatories ss = take MAX_SIGNATORIES (rev (sort_key sg_key (eligible L path keys entries)))"
    "ss_present_vp ss = vp_sum (ss_signatories ss)"
    "ss_present_vp ss \<le> ss_possible_vp ss"
proof -
  from assms obtain seconds entries path t where
    c: "cx_time C = Some seconds" "cx_validators C = Some (Some entries)" "from_normal_idx L index = Ok path"
    and loop: "fold_result (add_validator L path keys)
       \<lparr>ss_create_time = as_u64 seconds, ss_present_vp = 0, ss_possible_vp = 0,
        ss_index = index, ss_signatories = []\<rparr> entries = Ok t"
    and st: "SignatorySet_sort_and_truncate t = Ok ss"
    by (auto simp: SignatorySet_from_validator_ctx_def Let_def)
  note t = validator_loop [OF loop, simplified]
  let ?xs = "rev (sort_key sg_key (eligible L path keys entries))"
  have ss: "ss = t\<lparr>ss_signatories := take MAX_SIGNATORIES ?xs, ss_present_vp := vp_sum (take MAX_SIGNATORIES ?xs)\<rparr>"
    using st t vp_sum_take_drop [of ?xs MAX_SIGNATORIES]
    by (auto simp: SignatorySet_sort_and_truncate_def Let_def fold_sub_Ok split: if_splits)
  have "vp_sum (take MAX_SIGNATORIES ?xs) \<le> sum_list (map ve_power entries)"
    using eligible_vp_le [of L path keys entries] vp_sum_take_drop [of ?xs MAX_SIGNATORIES] by simp
  with c t ss show ?thesis
    by (intro that [OF c]) auto
qed

lemma SignatorySet_from_validator_ctx_inv:
  assumes "SignatorySet_from_validator_ctx L C index keys = Ok ss"
  shows "ss_inv ss"
  using assms
  by (rule SignatorySet_from_validator_ctx_Ok)
    (auto simp: ss_inv_def intro: sorted_wrt_take sorted_rev_sort_key)

text \<open>No validator left out outranks one that was chosen.\<close>

lemma take_rev_sort_key_top:
  assumes "x \<in> set (take n (rev (sort_key f xs)))" and "y \<in> set (drop n (rev (sort_key f xs)))"
  shows "f y \<le> f x"
proof -
  have "sorted_wrt (\<lambda>a b. f a \<ge> f b) (take n (rev (sort_key f xs)) @ drop n (rev (sort_key f xs)))"
    using sorted_rev_sort_key by (simp add: sorted_rev_sort_key)
  with assms show ?thesis by (auto simp only: sorted_wrt_append)
qed

section \<open>Thresholds and truncation\<close>

lemma signature_threshold_Ok:
  assumes "SignatorySet_signature_threshold ss (n, d) = Ok t" and "n \<le> d" and "ss_present_vp ss < 2 ^ 64"
  shows "t = ss_present_vp ss * n div d \<and> t \<le> ss_present_vp ss"
proof -
  from assms(1) have d: "d \<noteq> 0" and t: "t = ss_present_vp ss * n div d mod 2 ^ 64"
    by (auto simp: SignatorySet_signature_threshold_def)
  have "ss_present_vp ss * n div d \<le> ss_present_vp ss * d div d"
    using assms(2) by (intro div_le_mono mult_le_mono2)
  then have "ss_present_vp ss * n div d \<le> ss_present_vp ss" using d by simp
  with t assms(3) show ?thesis by simp
qed

lemma get_truncation_bits:
  assumes "ss_present_vp ss < 2 ^ 64"
  shows "SignatorySet_get_truncation ss p = bit_len (ss_present_vp ss) - p"
  using bit_len_le [OF assms] by (simp add: SignatorySet_get_truncation_def leading_zeros_def Let_def)

text \<open>After truncation to \<open>p\<close> bits of precision no voting power, and no sum of them, takes more
  than \<open>p\<close> bits.\<close>

lemma drop_bit_truncation_less:
  assumes "n \<le> ss_present_vp ss" and "ss_present_vp ss < 2 ^ 64"
  shows "drop_bit (SignatorySet_get_truncation ss p) n < 2 ^ p"
proof -
  let ?b = "bit_len (ss_present_vp ss)"
  have "n < 2 ^ ?b" using assms(1) bit_len_less by (rule le_less_trans)
  also have "\<dots> \<le> 2 ^ p * 2 ^ (?b - p)" by (simp flip: power_add)
  finally have "n div 2 ^ (?b - p) < 2 ^ p" by (simp add: less_mult_imp_div_less)
  then show ?thesis by (simp add: get_truncation_bits [OF assms(2)] drop_bit_eq_div)
qed

lemma sum_drop_bit_le: "(\<Sum>x\<leftarrow>xs. drop_bit t (f x :: nat)) \<le> drop_bit t (\<Sum>x\<leftarrow>xs. f x)"
proof (induction xs)
  case (Cons x xs)
  have "drop_bit t a + drop_bit t b \<le> drop_bit t (a + b)" for a b :: nat
    by (simp add: drop_bit_eq_div) (metis div_add1_eq le_add1)
  with Cons show ?case by (simp add: add_le_mono1 order_trans [OF add_left_mono])
qed simp


section \<open>Properties\<close>

text \<open>
  C13: the signatory set chosen from the validators holds at most \<open>MAX_SIGNATORIES\<close> of those that
  declared a key, in descending order of power (ties by key); its present power is the sum of
  the chosen, its possible power the sum over all validators; and no validator with a key that
  was left out outranks one that was chosen.
\<close>

theorem selection_takes_the_top:
  assumes "SignatorySet_from_validator_ctx L C index keys = Ok ss"
    and "cx_validators C = Some (Some entries)" and "from_normal_idx L index = Ok path"
  shows "ss_inv ss \<and> ss_possible_vp ss = sum_list (map ve_power entries)
    \<and> (\<exists>rest. mset (ss_signatories ss) + mset rest = mset (eligible L path keys entries)
        \<and> (rest \<noteq> [] \<longrightarrow> length (ss_signatories ss) = MAX_SIGNATORIES)
        \<and> (\<forall>x \<in> set (ss_signatories ss). \<forall>y \<in> set rest. sg_key y \<le> sg_key x))"
proof -
  let ?xs = "rev (sort_key sg_key (eligible L path keys entries))"
  have ss: "ss_signatories ss = take MAX_SIGNATORIES ?xs" "ss_possible_vp ss = sum_list (map ve_power entries)"
    using assms(2,3) by (auto intro: SignatorySet_from_validator_ctx_Ok [OF assms(1)])
  have "mset (take MAX_SIGNATORIES ?xs) + mset (drop MAX_SIGNATORIES ?xs) = mset (eligible L path keys entries)"
    by (metis append_take_drop_id mset_append mset_rev mset_sort)
  moreover have "drop MAX_SIGNATORIES ?xs \<noteq> [] \<longrightarrow> length (take MAX_SIGNATORIES ?xs) = MAX_SIGNATORIES"
    by simp
  moreover have "\<forall>x \<in> set (take MAX_SIGNATORIES ?xs). \<forall>y \<in> set (drop MAX_SIGNATORIES ?xs). sg_key y \<le> sg_key x"
    by (blast intro: take_rev_sort_key_top)
  ultimately show ?thesis
    using ss SignatorySet_from_validator_ctx_inv [OF assms(1)] by metis
qed

definition demo_xpub :: "u8 \<Rightarrow> xpub" where
  "demo_xpub k = \<lparr>xp_network = Testnet, xp_depth = 0, xp_parent_fingerprint = [], xp_child_number = 0,
     xp_public_key = [k], xp_chain_code = []\<rparr>"

definition demo_ctx :: "validator_entry list \<Rightarrow> ctx" where
  "demo_ctx entries = \<lparr>cx_time = Some 1000, cx_signer = None, cx_validators = Some (Some entries), cx_paid = Some (Ok ())\<rparr>"

definition demo_keys_lib :: script_lib where
  "demo_keys_lib =
     \<lparr>pubkey_from_slice = (\<lambda>_. True), message_from_slice = (\<lambda>_. True), sig_from_compact = (\<lambda>_. True),
      verify_ecdsa = (\<lambda>_ sg pk. sg = pk), serialize_der = (\<lambda>sg. sg),
      script_bytes = (\<lambda>_. []), instructions = (\<lambda>_. []), push_int = (\<lambda>_. PushBytes []),
      read_scriptint = (\<lambda>_. None), to_v0_p2wsh = (\<lambda>s. s), encode_slice = Ok,
      from_normal_idx = (\<lambda>i. if i < 2 ^ 31 then Ok i else Err Bip32),
      derive_pub = (\<lambda>x i. Ok (xp_public_key x))\<rparr>"

theorem selection_takes_the_top_witness:
  "\<exists>ss. SignatorySet_from_validator_ctx demo_keys_lib
        (demo_ctx [\<lparr>ve_power = 3, ve_pubkey = [1]\<rparr>, \<lparr>ve_power = 5, ve_pubkey = [2]\<rparr>, \<lparr>ve_power = 9, ve_pubkey = [3]\<rparr>])
        4 [([1], demo_xpub 1), ([2], demo_xpub 2)] = Ok ss
    \<and> ss_inv ss \<and> ss_possible_vp ss = 17"
proof -
  let ?es = "[\<lparr>ve_power = 3, ve_pubkey = [1]\<rparr>, \<lparr>ve_power = 5, ve_pubkey = [2]\<rparr>, \<lparr>ve_power = 9, ve_pubkey = [3]\<rparr>]"
  let ?keys = "[([1], demo_xpub 1), ([2], demo_xpub 2)]"
  obtain ss where ss: "SignatorySet_from_validator_ctx demo_keys_lib (demo_ctx ?es) 4 ?keys = Ok ss"
    by (auto simp: SignatorySet_from_validator_ctx_def demo_keys_lib_def demo_ctx_def add_validator_def
        SignatorySet_insert_def add_w_def SignatorySet_sort_and_truncate_def MAX_SIGNATORIES_def Let_def
        sg_key_def)
  have c: "cx_validators (demo_ctx ?es) = Some (Some ?es)" "from_normal_idx demo_keys_lib 4 = Ok 4"
    by (simp_all add: demo_ctx_def demo_keys_lib_def)
  from selection_takes_the_top [OF ss c] ss show ?thesis by auto
qed

end
