(* ===== verification/Script_Semantics.thy ===== *)
theory Script_Semantics
  imports Signatory
begin

text \<open>
  What the redeem script means. A small stack machine for the opcodes the script uses is the
  specification; the theorems show that the script a signatory set builds is a weighted multisig
  for it, that the witness \<open>ThresholdSig\<close> builds is in the order the script consumes it, and
  that parsing a script gives back the set it was built from.
\<close>

section \<open>The stack machine\<close>

text \<open>The documented behaviour of Bitcoin's script machine on the opcodes used: \<open>enc\<close> is its number
  encoding and \<open>chk sig pubkey\<close> its signature check.\<close>

definition exec_op ::
  "'m script_lib_scheme \<Rightarrow> (int \<Rightarrow> bytes) \<Rightarrow> (bytes \<Rightarrow> pubkey \<Rightarrow> bool) \<Rightarrow> instruction \<Rightarrow> bytes list
     \<Rightarrow> bytes list option" where
  "exec_op L enc chk i st =
     (case i of
        PushBytes b \<Rightarrow> Some (b # st)
      | Op OP_FALSE \<Rightarrow> Some ([] # st)
      | Op (OP_PUSHNUM k) \<Rightarrow> Some (enc (uint k) # st)
      | Op OP_CHECKSIG \<Rightarrow> (case st of pk # sg # r \<Rightarrow> Some ((if chk sg pk then [1] else []) # r) | _ \<Rightarrow> None)
      | Op OP_SWAP \<Rightarrow> (case st of a # b # r \<Rightarrow> Some (b # a # r) | _ \<Rightarrow> None)
      | Op OP_ADD \<Rightarrow> (case st of a # b # r \<Rightarrow>
            (case (read_scriptint L a, read_scriptint L b) of
               (Some x, Some y) \<Rightarrow> Some (enc (x + y) # r) | _ \<Rightarrow> None) | _ \<Rightarrow> None)
      | Op OP_GREATERTHAN \<Rightarrow> (case st of a # b # r \<Rightarrow>
            (case (read_scriptint L a, read_scriptint L b) of
               (Some x, Some y) \<Rightarrow> Some ((if y > x then [1] else []) # r) | _ \<Rightarrow> None) | _ \<Rightarrow> None)
      | Op OP_DROP \<Rightarrow> (case st of _ # r \<Rightarrow> Some r | _ \<Rightarrow> None)
      | Op _ \<Rightarrow> None)"

text \<open>A value is false when it is zero, with either sign.\<close>

definition truthy :: "bytes \<Rightarrow> bool" where
  "truthy b \<longleftrightarrow> list_ex (\<lambda>x. x \<noteq> 0) (butlast b) \<or> (b \<noteq> [] \<and> last b \<noteq> 0 \<and> last b \<noteq> 128)"

text \<open>\<open>cs\<close> is the stack of open conditionals; instructions in a branch not taken are skipped.\<close>

fun run_script ::
  "'m script_lib_scheme \<Rightarrow> (int \<Rightarrow> bytes) \<Rightarrow> (bytes \<Rightarrow> pubkey \<Rightarrow> bool) \<Rightarrow> instruction list \<Rightarrow> bool list
     \<Rightarrow> bytes list \<Rightarrow> bytes list option" where
  "run_script L enc chk [] cs st = (if cs = [] then Some st else None)"
| "run_script L enc chk (Op OP_IF # is) cs st =
     (if list_all (\<lambda>c. c) cs then
        (case st of [] \<Rightarrow> None | x # r \<Rightarrow> run_script L enc chk is (truthy x # cs) r)
      else run_script L enc chk is (False # cs) st)"
| "run_script L enc chk (Op OP_ELSE # is) cs st =
     (case cs of [] \<Rightarrow> None | c # cs' \<Rightarrow> run_script L enc chk is ((\<not> c) # cs') st)"
| "run_script L enc chk (Op OP_ENDIF # is) cs st =
     (case cs of [] \<Rightarrow> None | _ # cs' \<Rightarrow> run_script L enc chk is cs' st)"
| "run_script L enc chk (i # is) cs st =
     (if list_all (\<lambda>c. c) cs then
        (case exec_op L enc chk i st of None \<Rightarrow> None | Some st' \<Rightarrow> run_script L enc chk is cs st')
      else run_script L enc chk is cs st)"

text \<open>A spend is accepted when the script leaves exactly one true value.\<close>

definition script_accepts ::
  "'m script_lib_scheme \<Rightarrow> (int \<Rightarrow> bytes) \<Rightarrow> (bytes \<Rightarrow> pubkey \<Rightarrow> bool) \<Rightarrow> instruction list \<Rightarrow> bytes list \<Rightarrow> bool" where
  "script_accepts L enc chk is witness =
     (case run_script L enc chk is [] (rev witness) of Some [x] \<Rightarrow> truthy x | _ \<Rightarrow> False)"

text \<open>
  What the crates document. The assembler's output reads back as the instructions, piece by piece, for the
  instructions that have a byte form of their own: data up to the 520 bytes that the machine allows, the opcodes for the
  numbers 1 to 16, and every other opcode that is not a push. (The byte 0 is not one of them: it is
  \<open>OP_FALSE\<close>, and reads back as the push of no data.) A number below \<open>2^31\<close> takes at most four bytes, reads
  back from them, and is pushed by its opcode when it has one, and as data otherwise. A slice is encoded as its bytes.
\<close>

definition plain :: "instruction \<Rightarrow> bool" where
  "plain i = (case i of
       PushBytes b \<Rightarrow> length b \<le> 520
     | Op OP_FALSE \<Rightarrow> False
     | Op (OP_PUSHNUM k) \<Rightarrow> 1 \<le> k \<and> k \<le> 16
     | Op (OP_OTHER k) \<Rightarrow> 0x61 \<le> k \<and> k \<notin> {0x63, 0x67, 0x68, 0x75, 0x7c, 0x93, 0xa0, 0xac}
     | Op _ \<Rightarrow> True)"

definition assembler_law :: "'m script_lib_scheme \<Rightarrow> bool" where
  "assembler_law L \<longleftrightarrow> (\<forall>pieces. list_all plain (concat pieces) \<longrightarrow>
     instructions L (concat (map (script_bytes L) pieces)) = map Some (concat pieces))"

definition number_law :: "'m script_lib_scheme \<Rightarrow> (int \<Rightarrow> bytes) \<Rightarrow> bool" where
  "number_law L enc \<longleftrightarrow> enc 0 = [] \<and>
     (\<forall>n. 0 \<le> n \<and> n < 2 ^ 31 \<longrightarrow> read_scriptint L (enc n) = Some n \<and> length (enc n) \<le> 4
        \<and> push_int L n = (if 1 \<le> n \<and> n \<le> 16 then Op (OP_PUSHNUM (word_of_int n)) else PushBytes (enc n)))"

definition slice_law :: "'m script_lib_scheme \<Rightarrow> bool" where
  "slice_law L \<longleftrightarrow> (\<forall>b. encode_slice L b = Ok b)"

lemma number_lawD:
  assumes "number_law L enc" and "n < 2 ^ 31"
  shows "push_int L (int n) = PushBytes (enc (int n)) \<and> length (enc (int n)) \<le> 4
      \<or> (\<exists>k. push_int L (int n) = Op (OP_PUSHNUM k) \<and> uint k = int n \<and> 1 \<le> k \<and> k \<le> 16)"
proof -
  have n: "0 \<le> int n \<and> int n < 2 ^ 31" using assms(2) by simp
  have "uint (word_of_int m :: u8) = m" if "1 \<le> m" "m \<le> 16" for m using that by (simp add: uint_word_of_int)
  moreover have "(1 :: u8) \<le> word_of_int m \<and> word_of_int m \<le> (16 :: u8)" if "1 \<le> m" "m \<le> 16" for m
    using that calculation [OF that] by (simp add: word_le_def)
  ultimately show ?thesis using assms(1) n unfolding number_law_def by (metis (full_types))
qed

lemma push_int_plain: "number_law L enc \<Longrightarrow> n < 2 ^ 31 \<Longrightarrow> plain (push_int L (int n))"
  using number_lawD [of L enc n] by (auto simp: plain_def)

section \<open>The instructions of a redeem script\<close>

definition redeem_instructions ::
  "'m script_lib_scheme \<Rightarrow> nat \<Rightarrow> signatory list \<Rightarrow> nat \<Rightarrow> bytes \<Rightarrow> instruction list" where
  "redeem_instructions L t sgs thr data =
     (case sgs of [] \<Rightarrow> [] | s # rest \<Rightarrow>
        first_piece L t s @ concat (map (nth_piece L t) rest)
        @ [push_int L (as_i64 (drop_bit t thr)), Op OP_GREATERTHAN] @ [PushBytes data, Op OP_DROP])"

lemma as_i64_small: "n < 2 ^ 63 \<Longrightarrow> as_i64 n = int n"
proof -
  assume "n < 2 ^ 63"
  then have "int n < 2 ^ 63" by (metis of_nat_less_iff of_nat_numeral of_nat_power)
  then show ?thesis by (simp add: as_i64_def Let_def)
qed

lemma redeem_pieces_plain:
  assumes law: "number_law L enc" and "length (sg_pubkey s) \<le> 520" and "drop_bit t (sg_voting_power s) < 2 ^ 31"
  shows "list_all plain (first_piece L t s)" "list_all plain (nth_piece L t s)"
proof -
  have "plain (push_int L (as_i64 (drop_bit t (sg_voting_power s))))"
    using push_int_plain [OF law assms(3)] assms(3) by (simp add: as_i64_small)
  moreover have "plain (push_int L 0)" using push_int_plain [OF law, of 0] by simp
  moreover have "plain (PushBytes (sg_pubkey s))" "plain (Op OP_CHECKSIG)" "plain (Op OP_IF)" "plain (Op OP_ELSE)" "plain (Op OP_ENDIF)"
    "plain (Op OP_SWAP)" "plain (Op OP_ADD)" using assms(2) by (simp_all add: plain_def)
  ultimately show "list_all plain (first_piece L t s)" "list_all plain (nth_piece L t s)"
    by (simp_all add: first_piece_def nth_piece_def)
qed

text \<open>The numbers of a redeem script are small, whatever the powers.\<close>

lemma redeem_numbers:
  assumes inv: "ss_inv ss" and thr: "SignatorySet_signature_threshold ss (n, d) = Ok thr" "n \<le> d"
  shows "thr = ss_present_vp ss * n div d" "thr \<le> ss_present_vp ss"
    "(\<Sum>s\<leftarrow>ss_signatories ss. drop_bit (SignatorySet_get_truncation ss 23) (sg_voting_power s)) < 2 ^ 31"
    "drop_bit (SignatorySet_get_truncation ss 23) thr < 2 ^ 31"
proof -
  let ?t = "SignatorySet_get_truncation ss 23"
  have vp: "ss_present_vp ss < 2 ^ 64" "ss_present_vp ss = vp_sum (ss_signatories ss)"
    using inv by (auto simp: ss_inv_def)
  show thr_eq: "thr = ss_present_vp ss * n div d" "thr \<le> ss_present_vp ss"
    using signature_threshold_Ok [OF thr vp(1)] by auto
  have p: "(2::nat) ^ 23 < 2 ^ 31" by simp
  show "(\<Sum>s\<leftarrow>ss_signatories ss. drop_bit ?t (sg_voting_power s)) < 2 ^ 31"
    using sum_drop_bit_le [of ?t sg_voting_power "ss_signatories ss"]
      drop_bit_truncation_less [of "ss_present_vp ss" ss 23] vp p by simp
  show "drop_bit ?t thr < 2 ^ 31"
    using drop_bit_truncation_less [OF thr_eq(2) vp(1), of 23] p by (rule less_trans)
qed

lemma redeem_script_instructions:
  assumes laws: "assembler_law L" "number_law L enc" "slice_law L" and inv: "ss_inv ss" "n \<le> d"
    and short: "list_all (\<lambda>s. length (sg_pubkey s) \<le> 520) (ss_signatories ss)" "length dest \<le> 520"
    and script: "SignatorySet_redeem_script L ss dest (n, d) = Ok script"
  obtains thr where "SignatorySet_signature_threshold ss (n, d) = Ok thr"
    "instructions L script = map Some (redeem_instructions L (SignatorySet_get_truncation ss 23)
       (ss_signatories ss) thr dest)"
    "ss_signatories ss \<noteq> []"
proof -
  let ?t = "SignatorySet_get_truncation ss 23"
  have data: "encode_slice L dest = Ok dest" using laws(3) by (simp add: slice_law_def)
  from script data obtain s rest thr where ss: "ss_signatories ss = s # rest"
    and thr: "SignatorySet_signature_threshold ss (n, d) = Ok thr"
    and script: "script = concat (map (script_bytes L) (first_piece L ?t s # map (nth_piece L ?t) rest
        @ [[push_int L (as_i64 (drop_bit ?t thr)), Op OP_GREATERTHAN], [PushBytes dest, Op OP_DROP]]))"
    by (auto simp: SignatorySet_redeem_script_def Let_def comp_def split: list.splits)
  let ?pieces = "first_piece L ?t s # map (nth_piece L ?t) rest
        @ [[push_int L (as_i64 (drop_bit ?t thr)), Op OP_GREATERTHAN], [PushBytes dest, Op OP_DROP]]"
  note small = redeem_numbers [OF inv(1) thr inv(2)]
  have each: "drop_bit ?t (sg_voting_power x) < 2 ^ 31" if "x \<in> set (s # rest)" for x
    using member_le_sum_list [of "drop_bit ?t (sg_voting_power x)" "map (\<lambda>s. drop_bit ?t (sg_voting_power s)) (s # rest)"] that small(3)
    unfolding ss by fastforce
  have "plain (push_int L (as_i64 (drop_bit ?t thr)))"
    using push_int_plain [OF laws(2) small(4)] small(4) by (simp add: as_i64_small)
  moreover have "plain (PushBytes dest)" "plain (Op OP_GREATERTHAN)" "plain (Op OP_DROP)" using short(2) by (simp_all add: plain_def)
  moreover have "list_all plain (first_piece L ?t s)" "\<forall>x \<in> set rest. list_all plain (nth_piece L ?t x)"
    using redeem_pieces_plain(1) [OF laws(2) _ each, of s] redeem_pieces_plain(2) [OF laws(2) _ each] short(1) ss
    by (simp_all add: list_all_iff [of "\<lambda>s. length (sg_pubkey s) \<le> 520"])
  ultimately have "list_all plain (concat ?pieces)" by (auto simp: list_all_iff)
  with laws(1) have "instructions L script = map Some (concat ?pieces)" unfolding assembler_law_def script by blast
  also have "\<dots> = map Some (redeem_instructions L ?t (ss_signatories ss) thr dest)"
    by (simp add: redeem_instructions_def ss)
  finally show ?thesis using thr ss by (intro that) auto
qed

section \<open>The script is a weighted multisig\<close>

definition weight_of :: "(bytes \<Rightarrow> pubkey \<Rightarrow> bool) \<Rightarrow> nat \<Rightarrow> signatory \<times> bytes \<Rightarrow> nat" where
  "weight_of chk t = (\<lambda>(s, w). if chk w (sg_pubkey s) then drop_bit t (sg_voting_power s) else 0)"

lemma exec_push_int:
  assumes "number_law L enc" and "n < 2 ^ 31"
  shows "run_script L enc chk (push_int L (as_i64 n) # is) cs st =
    (if list_all (\<lambda>c. c) cs then run_script L enc chk is cs (enc (int n) # st)
     else run_script L enc chk is cs st)"
proof -
  have "as_i64 n = int n" using assms(2) by (intro as_i64_small) simp
  then show ?thesis using number_lawD [OF assms] by (auto simp: exec_op_def)
qed

lemma as_i64_zero: "(0 :: int) = as_i64 0"
  by (simp add: as_i64_def)

lemma truthy_simps [simp]: "truthy [1]" "\<not> truthy []"
  by (simp_all add: truthy_def)

lemma run_first_piece:
  assumes "number_law L enc" and "drop_bit t (sg_voting_power s) < 2 ^ 31"
  shows "run_script L enc chk (first_piece L t s @ is) [] (w # st) =
    run_script L enc chk is [] (enc (int (weight_of chk t (s, w))) # st)"
  using exec_push_int [OF assms] exec_push_int [OF assms(1), of 0]
  by (simp add: first_piece_def exec_op_def weight_of_def flip: as_i64_zero)

lemma read_enc: "number_law L enc \<Longrightarrow> n < 2 ^ 31 \<Longrightarrow> read_scriptint L (enc (int n)) = Some (int n)"
  by (simp add: number_law_def)

lemma run_nth_piece:
  assumes "number_law L enc" and "acc + drop_bit t (sg_voting_power s) < 2 ^ 31"
  shows "run_script L enc chk (nth_piece L t s @ is) [] (enc (int acc) # w # st) =
    run_script L enc chk is [] (enc (int (acc + weight_of chk t (s, w))) # st)"
proof -
  have "acc < 2 ^ 31" "drop_bit t (sg_voting_power s) < 2 ^ 31" using assms(2) by simp_all
  then show ?thesis
    using exec_push_int [OF assms(1)] read_enc [OF assms(1)]
    by (simp add: nth_piece_def exec_op_def weight_of_def add.commute)
qed

lemma run_nth_pieces:
  assumes "number_law L enc" and "length ws = length sgs"
    and "acc + (\<Sum>s\<leftarrow>sgs. drop_bit t (sg_voting_power s)) < 2 ^ 31"
  shows "run_script L enc chk (concat (map (nth_piece L t) sgs) @ is) [] (enc (int acc) # ws @ st) =
    run_script L enc chk is [] (enc (int (acc + sum_list (map (weight_of chk t) (zip sgs ws)))) # st)"
  using assms(2,3)
proof (induction sgs arbitrary: ws acc)
  case Nil
  then show ?case by simp
next
  case (Cons s sgs)
  from Cons.prems(1) obtain w ws' where ws: "ws = w # ws'" by (cases ws) auto
  have le: "weight_of chk t (s, w) \<le> drop_bit t (sg_voting_power s)" by (simp add: weight_of_def)
  have "run_script L enc chk (nth_piece L t s @ concat (map (nth_piece L t) sgs) @ is) []
      (enc (int acc) # w # ws' @ st)
    = run_script L enc chk (concat (map (nth_piece L t) sgs) @ is) []
      (enc (int (acc + weight_of chk t (s, w))) # ws' @ st)"
    using Cons.prems(2) by (intro run_nth_piece [OF assms(1)]) simp
  with Cons.IH [of ws' "acc + weight_of chk t (s, w)"] Cons.prems le ws show ?case
    by (simp add: add.assoc)
qed

lemma run_redeem_instructions:
  assumes "number_law L enc" and "sgs \<noteq> []" and "length ws = length sgs"
    and "(\<Sum>s\<leftarrow>sgs. drop_bit t (sg_voting_power s)) < 2 ^ 31" and "drop_bit t thr < 2 ^ 31"
  shows "run_script L enc chk (redeem_instructions L t sgs thr data) [] ws =
    Some [if sum_list (map (weight_of chk t) (zip sgs ws)) > drop_bit t thr then [1] else []]"
proof -
  from assms(2) obtain s rest where sgs: "sgs = s # rest" by (cases sgs) auto
  with assms(3) obtain w ws' where ws: "ws = w # ws'" "length ws' = length rest" by (cases ws) auto
  let ?a = "weight_of chk t (s, w)"
  let ?b = "sum_list (map (weight_of chk t) (zip rest ws'))"
  let ?tail = "[push_int L (as_i64 (drop_bit t thr)), Op OP_GREATERTHAN] @ [PushBytes data, Op OP_DROP]"
  have a: "?a \<le> drop_bit t (sg_voting_power s)" by (simp add: weight_of_def)
  have b: "?b \<le> (\<Sum>s\<leftarrow>rest. drop_bit t (sg_voting_power s))"
    using ws(2) by (induction ws' rest rule: list_induct2) (auto simp: weight_of_def)
  have "run_script L enc chk (redeem_instructions L t sgs thr data) [] ws
    = run_script L enc chk (concat (map (nth_piece L t) rest) @ ?tail) [] (enc (int ?a) # ws' @ [])"
    unfolding sgs ws redeem_instructions_def list.case
    using assms(4) sgs run_first_piece [OF assms(1), of t s] by simp
  also have "\<dots> = run_script L enc chk ?tail [] [enc (int (?a + ?b))]"
    using assms(4) sgs a ws(2) by (intro run_nth_pieces [OF assms(1)]) auto
  also have "\<dots> = Some [if ?a + ?b > drop_bit t thr then [1] else []]"
    using exec_push_int [OF assms(1,5)] read_enc [OF assms(1), of "?a + ?b"]
      read_enc [OF assms(1,5)] assms(4) sgs a b
    by (simp add: exec_op_def flip: of_nat_add)
  finally show ?thesis using sgs ws by simp
qed

section \<open>The witness fits the script\<close>

text \<open>\<open>chk\<close> is the machine's signature check for the sighash \<open>m\<close>: a DER signature followed by the
  sighash type 1 is checked by ECDSA, an empty one is invalid.\<close>

definition checksig_law :: "'m script_lib_scheme \<Rightarrow> message \<Rightarrow> (bytes \<Rightarrow> pubkey \<Rightarrow> bool) \<Rightarrow> bool" where
  "checksig_law L m chk \<longleftrightarrow>
     (\<forall>pk. \<not> chk [] pk) \<and> (\<forall>sg pk. chk (serialize_der L sg @ [1]) pk = verify_ecdsa L m sg pk)"

text \<open>The (public key, power) pairs \<open>ThresholdSig::from_sigset\<close> iterates over.\<close>

abbreviation sigset_pairs :: "signatory_set \<Rightarrow> (pubkey \<times> u64) list" where
  "sigset_pairs ss \<equiv> map (\<lambda>s. (sg_pubkey s, sg_voting_power s)) (ss_signatories ss)"

definition witness_item :: "'m secp_lib_scheme \<Rightarrow> share \<Rightarrow> bytes" where
  "witness_item L sh = (case sh_sig sh of None \<Rightarrow> [] | Some sg \<Rightarrow> serialize_der L sg @ [1])"

lemma to_witness_items:
  assumes "ts_inv L ts" and "ThresholdSig_signed ts"
  shows "ThresholdSig_to_witness L ts = Ok (map (witness_item L \<circ> snd)
    (sort_key (\<lambda>(pk, share). (sh_power share, pk)) (ts_sigs ts)))"
proof -
  have "share_verified L (ts_message ts) x" if "x \<in> set (ts_sigs ts)" for x
    using assms(1) that by (auto simp: ts_inv_def list_all_iff)
  then have "map_result (\<lambda>(_, share).
          case sh_sig share of
            None \<Rightarrow> Ok []
          | Some sg \<Rightarrow> if \<not> sig_from_compact L sg then Err Secp else Ok (serialize_der L sg @ [1]))
        (sort_key (\<lambda>(pk, share). (sh_power share, pk)) (ts_sigs ts)) =
      Ok (map (witness_item L \<circ> snd) (sort_key (\<lambda>(pk, share). (sh_power share, pk)) (ts_sigs ts)))"
    by (intro map_result_total)
      (fastforce simp: witness_item_def share_verified_def sig_valid_def split: option.splits)
  with assms(2) show ?thesis by (simp add: ThresholdSig_to_witness_def)
qed

text \<open>The signing state holds exactly the keys and powers of the signatory set.\<close>

definition signs_for :: "signatory_set \<Rightarrow> threshold_sig \<Rightarrow> bool" where
  "signs_for ss ts \<longleftrightarrow> mset (map (\<lambda>(pk, sh). (pk, sh_power sh)) (ts_sigs ts)) = mset (sigset_pairs ss)"

lemma from_sigset_signs_for:
  assumes "ThresholdSig_from_sigset (sigset_pairs ss) = Ok ts" and "distinct (map sg_pubkey (ss_signatories ss))"
  shows "signs_for ss ts"
proof -
  have "distinct (map fst (sigset_pairs ss))" using assms(2) by (simp add: comp_def)
  then have "mset (ts_sigs ts) = mset (map unsigned_share (sigset_pairs ss))"
    by (rule ThresholdSig_from_sigset_inv(4) [OF assms(1)])
  then have "image_mset (\<lambda>(pk, sh). (pk, sh_power sh)) (mset (ts_sigs ts))
      = image_mset (\<lambda>(pk, sh). (pk, sh_power sh)) (mset (map unsigned_share (sigset_pairs ss)))"
    by simp
  also have "\<dots> = mset (sigset_pairs ss)" by (simp add: multiset.map_comp comp_def)
  finally show ?thesis by (simp add: signs_for_def)
qed

lemma map_power_modify_sig:
  "map (\<lambda>(pk, sh). (pk, sh_power sh)) (omap_modify k (\<lambda>sh. sh\<lparr>sh_sig := v\<rparr>) m)
     = map (\<lambda>(pk, sh). (pk, sh_power sh)) m"
  by (auto simp: omap_modify_def)

lemma sign_signs_for:
  "ThresholdSig_sign L pk sg ts = Ok ts' \<Longrightarrow> signs_for ss ts \<Longrightarrow> signs_for ss ts'"
  by (clarsimp simp: ThresholdSig_sign_Ok signs_for_def simp del: mset_map) (simp only: map_power_modify_sig)

text \<open>The witness order is the reverse of the script order.\<close>

lemma desc_sorted_unique:
  assumes "sorted_wrt (\<ge>) xs" and "sorted_wrt (\<ge>) ys" and "mset xs = mset (ys :: 'a::linorder list)"
  shows "xs = ys"
proof -
  have "sorted (rev xs)" "sorted (rev ys)" using assms(1,2) by (simp_all add: sorted_wrt_rev)
  then have "rev xs = rev ys" using assms(3) by (metis mset_rev properties_for_sort)
  then show ?thesis by simp
qed

lemma script_order:
  assumes "signs_for ss ts" and "ss_inv ss"
  shows "map (\<lambda>(pk, sh). (sh_power sh, pk)) (rev (sort_key (\<lambda>(pk, sh). (sh_power sh, pk)) (ts_sigs ts)))
    = map sg_key (ss_signatories ss)"
proof (rule desc_sorted_unique)
  show "sorted_wrt (\<ge>) (map (\<lambda>(pk, sh). (sh_power sh, pk))
      (rev (sort_key (\<lambda>(pk, sh). (sh_power sh, pk)) (ts_sigs ts))))"
    using sorted_rev_sort_key [of "\<lambda>(pk, sh). (sh_power sh, pk)" "ts_sigs ts"] by (simp add: sorted_wrt_map)
  show "sorted_wrt (\<ge>) (map sg_key (ss_signatories ss))"
    using assms(2) by (simp add: ss_inv_def sorted_wrt_map)
  have "image_mset (\<lambda>(a, b). (b, a)) (mset (map (\<lambda>(pk, sh). (pk, sh_power sh)) (ts_sigs ts)))
      = image_mset (\<lambda>(a, b). (b, a)) (mset (sigset_pairs ss))"
    using assms(1) by (simp only: signs_for_def)
  then show "mset (map (\<lambda>(pk, sh). (sh_power sh, pk))
      (rev (sort_key (\<lambda>(pk, sh). (sh_power sh, pk)) (ts_sigs ts)))) = mset (map sg_key (ss_signatories ss))"
    by (simp add: multiset.map_comp comp_def split_def sg_key_def [abs_def])
qed

definition truncated_power :: "nat \<Rightarrow> (pubkey \<times> share) list \<Rightarrow> nat" where
  "truncated_power t m = (\<Sum>(_, sh)\<leftarrow>m. if sh_sig sh = None then 0 else drop_bit t (sh_power sh))"

lemma truncated_power_mset: "mset m = mset m' \<Longrightarrow> truncated_power t m = truncated_power t m'"
  by (simp add: truncated_power_def flip: sum_mset_sum_list)

lemma truncated_power_0: "truncated_power 0 m = signed_power m"
  by (induction m) (auto simp: truncated_power_def)

lemma witness_weight:
  assumes "map (\<lambda>(pk, sh). (sh_power sh, pk)) E = map sg_key sgs"
    and "list_all (share_verified L m) E" and "checksig_law L m chk"
  shows "sum_list (map (weight_of chk t) (zip sgs (map (witness_item L \<circ> snd) E))) = truncated_power t E"
  using assms(1,2)
proof (induction E arbitrary: sgs)
  case Nil
  then show ?case by (simp add: truncated_power_def)
next
  case (Cons x E)
  obtain pk sh where x: "x = (pk, sh)" by (cases x)
  from Cons.prems(1) x obtain s sgs' where sgs: "sgs = s # sgs'" "sg_key s = (sh_power sh, pk)" by auto
  from Cons.prems(2) x assms(3) sgs(2) have
    "weight_of chk t (s, witness_item L sh) = (if sh_sig sh = None then 0 else drop_bit t (sh_power sh))"
    by (auto simp: weight_of_def witness_item_def share_verified_def sig_valid_def checksig_law_def
        sg_key_def split: option.splits)
  with Cons.IH [of sgs'] Cons.prems x sgs show ?case
    by (simp add: truncated_power_def)
qed

text \<open>The script accepts the collected witness exactly when the truncated powers of the signers
  exceed the truncated threshold.\<close>

lemma script_accepts_iff:
  assumes laws: "assembler_law L" "number_law L enc" "checksig_law L (ts_message ts) chk" "slice_law L"
    and inv: "ss_inv ss" "ts_inv L ts" "signs_for ss ts"
    and short: "list_all (\<lambda>s. length (sg_pubkey s) \<le> 520) (ss_signatories ss)" "length dest \<le> 520"
    and script: "SignatorySet_redeem_script L ss dest (n, d) = Ok script" "n \<le> d"
    and w: "ThresholdSig_signed ts" "ThresholdSig_to_witness L ts = Ok w"
  shows "script_accepts L enc chk (map the (instructions L script)) w \<longleftrightarrow>
    truncated_power (SignatorySet_get_truncation ss 23) (ts_sigs ts)
      > drop_bit (SignatorySet_get_truncation ss 23) (ss_present_vp ss * n div d)"
proof -
  let ?t = "SignatorySet_get_truncation ss 23"
  let ?E = "rev (sort_key (\<lambda>(pk, sh). (sh_power sh, pk)) (ts_sigs ts))"
  obtain thr where thr: "SignatorySet_signature_threshold ss (n, d) = Ok thr"
    and ins: "instructions L script = map Some (redeem_instructions L ?t (ss_signatories ss) thr dest)"
    and ne: "ss_signatories ss \<noteq> []"
    by (rule redeem_script_instructions [OF laws(1,2,4) inv(1) script(2) short script(1)])
  note small = redeem_numbers [OF inv(1) thr script(2)]
  have order: "map (\<lambda>(pk, sh). (sh_power sh, pk)) ?E = map sg_key (ss_signatories ss)"
    by (rule script_order [OF inv(3,1)])
  have len: "length (map (witness_item L \<circ> snd) ?E) = length (ss_signatories ss)"
    using arg_cong [OF order, of length] by simp
  have "list_all (share_verified L (ts_message ts)) ?E"
    using inv(2) by (simp add: ts_inv_def list_all_iff)
  then have wt: "sum_list (map (weight_of chk ?t) (zip (ss_signatories ss) (map (witness_item L \<circ> snd) ?E)))
      = truncated_power ?t (ts_sigs ts)"
    using witness_weight [OF order _ laws(3)] truncated_power_mset [of ?E "ts_sigs ts"] by simp
  have rw: "rev w = map (witness_item L \<circ> snd) ?E"
    using to_witness_items [OF inv(2) w(1)] w(2) by (simp add: rev_map)
  have "run_script L enc chk (redeem_instructions L ?t (ss_signatories ss) thr dest) [] (rev w) =
    Some [if truncated_power ?t (ts_sigs ts) > drop_bit ?t thr then [1] else []]"
    using run_redeem_instructions [OF laws(2) ne len small(3,4), of chk dest] unfolding wt rw .
  moreover have "map the (instructions L script) = redeem_instructions L ?t (ss_signatories ss) thr dest"
    by (simp add: ins comp_def)
  ultimately show ?thesis
    by (simp add: script_accepts_def small(1))
qed

section \<open>Parsing a redeem script back\<close>

text \<open>A number the builder pushes as data and \<open>read_scriptint\<close> reads back (the builder has opcodes of
  their own for 1 to 16).\<close>

definition data_push :: "'m script_lib_scheme \<Rightarrow> nat \<Rightarrow> bool" where
  "data_push L n = (case push_int L (int n) of
      PushBytes b \<Rightarrow> read_scriptint L b = Some (int n) | Op _ \<Rightarrow> False)"

lemma data_push_large:
  assumes "number_law L enc" and "16 < n" and "n < 2 ^ 31"
  shows "data_push L n"
proof -
  have "0 \<le> int n \<and> int n < 2 ^ 31" "\<not> int n \<le> 16" using assms(2,3) by simp_all
  with assms(1) have "read_scriptint L (enc (int n)) = Some (int n)" "push_int L (int n) = PushBytes (enc (int n))"
    unfolding number_law_def by (metis (no_types))+
  then show ?thesis by (simp add: data_push_def)
qed

text \<open>The keys of a set are compressed public keys, as deriving them gives.\<close>

definition compressed_keys :: "'m script_lib_scheme \<Rightarrow> signatory_set \<Rightarrow> bool" where
  "compressed_keys L ss \<longleftrightarrow> list_all (\<lambda>s. length (sg_pubkey s) = 33 \<and> pubkey_from_slice L (sg_pubkey s)) (ss_signatories ss)"

lemma compressed_keys_short: "compressed_keys L ss \<Longrightarrow> list_all (\<lambda>s. length (sg_pubkey s) \<le> 520) (ss_signatories ss)"
  by (auto simp: compressed_keys_def list_all_iff)

definition parsable_signatory :: "'m script_lib_scheme \<Rightarrow> signatory \<Rightarrow> bool" where
  "parsable_signatory L s \<longleftrightarrow> length (sg_pubkey s) = 33 \<and> pubkey_from_slice L (sg_pubkey s)
     \<and> sg_voting_power s < 2 ^ 63 \<and> data_push L (sg_voting_power s)"

lemma take_instruction_Some [simp]: "take_instruction (Some i # r) = Ok (i, r)"
  by (simp add: take_instruction_def)

lemma take_bytes_Some [simp]: "take_bytes (Some (PushBytes b) # r) = Ok (b, r)"
  by (simp add: take_bytes_def)

lemma take_op_Some [simp]: "take_op (Some (Op e) # r) e = Ok (e, r)"
  by (simp add: take_op_def)

lemma take_op_false [simp]: "take_op (Some (PushBytes []) # r) OP_FALSE = Ok (OP_FALSE, r)"
  by (simp add: take_op_def)

lemma as_u64_int: "n < 2 ^ 64 \<Longrightarrow> as_u64 (int n) = n"
proof -
  assume "n < 2 ^ 64"
  then have "int n < 2 ^ 64" by (metis of_nat_less_iff of_nat_numeral of_nat_power)
  then show ?thesis by (simp add: as_u64_def)
qed

lemma take_number_data:
  assumes "data_push L n" and "n < 2 ^ 63"
  shows "take_number L (Some (push_int L (as_i64 n)) # r) = Ok (int n, r)"
  using assms
  by (auto simp: as_i64_small data_push_def take_number_def split: instruction.splits)

lemma take_key_Some:
  assumes "length pk = 33" and "pubkey_from_slice L pk"
  shows "take_key L (Some (PushBytes pk) # r) = Ok (pk, r)"
  using assms by (simp add: take_key_def Pubkey_try_from_slice_def Pubkey_new_def PUBLIC_KEY_SIZE_def)

lemma take_first_piece:
  assumes "parsable_signatory L s" and "push_int L 0 = PushBytes []"
  shows "take_first_signatory L (map Some (first_piece L 0 s) @ r) = Ok (s, r)"
proof -
  have "sg_voting_power s < 2 ^ 64" using assms(1) by (simp add: parsable_signatory_def)
  with assms show ?thesis
    by (simp add: take_first_signatory_def first_piece_def parsable_signatory_def take_number_data
        take_key_Some as_u64_int)
qed

lemma take_nth_piece:
  assumes "parsable_signatory L s"
  shows "take_nth_signatory L (map Some (nth_piece L 0 s) @ r) = Ok (s, r)"
proof -
  have "sg_voting_power s < 2 ^ 64" using assms by (simp add: parsable_signatory_def)
  with assms show ?thesis
    by (simp add: take_nth_signatory_def nth_piece_def parsable_signatory_def take_number_data
        take_key_Some as_u64_int)
qed

lemma take_signatories_pieces:
  assumes "list_all (parsable_signatory L) rest" and "i \<noteq> Op OP_SWAP"
  shows "take_signatories L acc (map Some (concat (map (nth_piece L 0) rest)) @ Some i # r)
    = Ok (acc @ rest, Some i # r)"
  using assms(1)
proof (induction rest arbitrary: acc)
  case Nil
  then show ?case using assms(2) by (subst take_signatories.simps) simp
next
  case (Cons s rest)
  let ?more = "map Some (concat (map (nth_piece L 0) rest)) @ Some i # r"
  have ins: "take_instruction (map Some (nth_piece L 0 s) @ ?more) =
      Ok (Op OP_SWAP, tl (map Some (nth_piece L 0 s) @ ?more))"
    by (simp add: nth_piece_def)
  have nth: "take_nth_signatory L (map Some (nth_piece L 0 s) @ ?more) = Ok (s, ?more)"
    using Cons.prems by (simp add: take_nth_piece)
  have "take_signatories L acc (map Some (nth_piece L 0 s) @ ?more) = take_signatories L (acc @ [s]) ?more"
    by (subst take_signatories.simps) (simp only: ins nth rbind.simps prod.case simp_thms if_True if_False)
  also have "\<dots> = Ok (acc @ s # rest, Some i # r)"
    using Cons.prems Cons.IH [of "acc @ [s]"] by simp
  finally show ?case by simp
qed

lemma fold_add_Ok:
  "acc + vp_sum sgs < 2 ^ 64 \<Longrightarrow>
   fold_result (\<lambda>sum s. add_u64 sum (sg_voting_power s)) acc sgs = Ok (acc + vp_sum sgs)"
  by (induction sgs arbitrary: acc) (auto simp: add_w_def add.assoc)

lemma search_threshold_hit:
  "SignatorySet_signature_threshold ss ratio = Ok expected \<Longrightarrow> search_threshold n ratio expected ss = Ok ss"
  by (cases n) auto

lemma redeem_script_cong:
  assumes "ss_present_vp ss' = ss_present_vp ss" and "ss_signatories ss' = ss_signatories ss"
  shows "SignatorySet_redeem_script L ss' dest ratio = SignatorySet_redeem_script L ss dest ratio"
    "SignatorySet_signature_threshold ss' ratio = SignatorySet_signature_threshold ss ratio"
proof -
  have t: "SignatorySet_get_truncation ss' b = SignatorySet_get_truncation ss b" for b
    using assms(1) by (simp add: SignatorySet_get_truncation_def)
  show thr: "SignatorySet_signature_threshold ss' ratio = SignatorySet_signature_threshold ss ratio"
    using assms(1) by (simp only: SignatorySet_signature_threshold_def split: prod.split)
  show "SignatorySet_redeem_script L ss' dest ratio = SignatorySet_redeem_script L ss dest ratio"
    by (simp only: SignatorySet_redeem_script_def assms(2) t thr)
qed

lemma from_script_redeem_script:
  assumes law: "assembler_law L" "number_law L enc" "slice_law L"
    and inv: "ss_inv ss" "ss_present_vp ss < 2 ^ 23" "compressed_keys L ss" "\<forall>s \<in> set (ss_signatories ss). 16 < sg_voting_power s"
    and thr: "n \<le> d" "16 < ss_present_vp ss * n div d" and dest: "length dest \<le> 520"
    and script: "SignatorySet_redeem_script L ss dest (n, d) = Ok script"
  shows "SignatorySet_from_script L script (n, d)
    = Ok (ss\<lparr>ss_create_time := 0, ss_index := 0, ss_possible_vp := ss_present_vp ss\<rparr>, dest)"
proof -
  have vp: "ss_present_vp ss < 2 ^ 64" "ss_present_vp ss = vp_sum (ss_signatories ss)"
    using inv(1) by (auto simp: ss_inv_def)
  have t: "SignatorySet_get_truncation ss 23 = 0"
    using bit_len_le [OF inv(2)] by (simp add: get_truncation_bits [OF vp(1)])
  obtain thr where thr_Ok: "SignatorySet_signature_threshold ss (n, d) = Ok thr"
    and ins0: "instructions L script = map Some (redeem_instructions L 0 (ss_signatories ss) thr dest)" and ne: "ss_signatories ss \<noteq> []"
    using redeem_script_instructions [OF law inv(1) thr(1) compressed_keys_short [OF inv(3)] dest script] t by metis
  then obtain s rest where ss: "ss_signatories ss = s # rest" by (cases "ss_signatories ss") auto
  have ins: "instructions L script = map Some (redeem_instructions L 0 (s # rest) thr dest)" using ins0 ss by simp
  note small = redeem_numbers [OF inv(1) thr_Ok thr(1)]
  have push0: "push_int L 0 = PushBytes []" using law(2) unfolding number_law_def by (metis not_one_le_zero order_refl zero_less_numeral zero_less_power)
  have thr_push: "data_push L thr" using data_push_large [OF law(2), of thr] small(1,2) thr(2) inv(2) by simp
  have parsable: "list_all (parsable_signatory L) (ss_signatories ss)"
  proof -
    have "sg_voting_power x < 2 ^ 23" if "x \<in> set (ss_signatories ss)" for x
      using member_le_sum_list [of "sg_voting_power x" "map sg_voting_power (ss_signatories ss)"] that vp(2) inv(2) by fastforce
    then show ?thesis using inv(3,4) data_push_large [OF law(2)]
      by (fastforce simp: list_all_iff parsable_signatory_def compressed_keys_def)
  qed
  have thr64: "thr < 2 ^ 63" using small(2) inv(2) by simp
  let ?i = "push_int L (as_i64 thr)"
  let ?tail = "[Some ?i, Some (Op OP_GREATERTHAN), Some (PushBytes dest), Some (Op OP_DROP)]"
  have i: "?i \<noteq> Op OP_SWAP"
    using thr_push thr64 by (auto simp: as_i64_small data_push_def split: instruction.splits)
  have split: "instructions L script =
      map Some (first_piece L 0 s) @ map Some (concat (map (nth_piece L 0) rest)) @ ?tail"
    by (simp add: ins redeem_instructions_def)
  have first: "take_first_signatory L (instructions L script)
      = Ok (s, map Some (concat (map (nth_piece L 0) rest)) @ ?tail)"
    unfolding split using parsable ss push0 by (intro take_first_piece) auto
  have more: "take_signatories L [s] (map Some (concat (map (nth_piece L 0) rest)) @ ?tail)
      = Ok (ss_signatories ss, ?tail)"
    using take_signatories_pieces [OF _ i, of L rest "[s]"] parsable ss by simp
  have thr64': "thr < 2 ^ 64" using thr64 by simp
  have thr_t: "take_threshold L ?tail = Ok (thr, [Some (PushBytes dest), Some (Op OP_DROP)])"
    by (simp add: take_threshold_def take_number_data [OF thr_push thr64] as_u64_int [OF thr64'])
  have com: "take_commitment [Some (PushBytes dest), Some (Op OP_DROP)] = Ok (dest, [])"
    by (simp add: take_commitment_def)
  let ?ss = "\<lparr>ss_create_time = 0, ss_present_vp = vp_sum (ss_signatories ss),
     ss_possible_vp = vp_sum (ss_signatories ss), ss_index = 0, ss_signatories = ss_signatories ss\<rparr>"
  have eq: "?ss = ss\<lparr>ss_create_time := 0, ss_index := 0, ss_possible_vp := ss_present_vp ss\<rparr>"
    using vp(2) by simp
  have "SignatorySet_signature_threshold ?ss (n, d) = Ok thr"
    and "SignatorySet_redeem_script L ?ss dest (n, d) = Ok script"
    using redeem_script_cong(1) [of ?ss ss L dest "(n, d)"]
      redeem_script_cong(2) [of ?ss ss "(n, d)"] vp(2) thr_Ok script by simp_all
  with first more thr_t com fold_add_Ok [of 0 "ss_signatories ss"] vp show ?thesis
    unfolding eq [symmetric]
    by (simp add: SignatorySet_from_script_def Let_def search_threshold_hit)
qed

section \<open>A concrete instance of the crates\<close>

text \<open>
  An executable instance that satisfies the laws, used to evaluate the model on concrete inputs:
  numbers are four little-endian bytes (none for zero, an opcode for 1 to 16), an instruction is a
  tagged byte string, and a signature is valid when it repeats the public key.
\<close>

definition demo_enc :: "int \<Rightarrow> bytes" where
  "demo_enc n = (if n = 0 then []
      else [word_of_int (n mod 256), word_of_int (n div 256 mod 256),
            word_of_int (n div 65536 mod 256), word_of_int (n div 16777216 mod 256)])"

definition demo_read :: "bytes \<Rightarrow> int option" where
  "demo_read b =
     (case b of [] \<Rightarrow> Some 0
      | [w, x, y, z] \<Rightarrow> Some (uint w + 256 * uint x + 65536 * uint y + 16777216 * uint z)
      | _ \<Rightarrow> None)"

definition demo_push_int :: "int \<Rightarrow> instruction" where
  "demo_push_int n = (if 1 \<le> n \<and> n \<le> 16 then Op (OP_PUSHNUM (word_of_int n)) else PushBytes (demo_enc n))"

fun demo_enc_ins :: "instruction \<Rightarrow> bytes" where
  "demo_enc_ins (PushBytes b) = 1 # concat (map (\<lambda>x. [1, x]) b) @ [0]"
| "demo_enc_ins (Op OP_FALSE) = [0, 0]"
| "demo_enc_ins (Op OP_IF) = [0, 1]"
| "demo_enc_ins (Op OP_ELSE) = [0, 2]"
| "demo_enc_ins (Op OP_ENDIF) = [0, 3]"
| "demo_enc_ins (Op OP_DROP) = [0, 4]"
| "demo_enc_ins (Op OP_SWAP) = [0, 5]"
| "demo_enc_ins (Op OP_ADD) = [0, 6]"
| "demo_enc_ins (Op OP_GREATERTHAN) = [0, 7]"
| "demo_enc_ins (Op OP_CHECKSIG) = [0, 8]"
| "demo_enc_ins (Op (OP_PUSHNUM k)) = [0, 9, k]"
| "demo_enc_ins (Op (OP_OTHER k)) = [0, 10, k]"

definition demo_op :: "u8 \<Rightarrow> opcode" where
  "demo_op c =
     (if c = 0 then OP_FALSE else if c = 1 then OP_IF else if c = 2 then OP_ELSE
      else if c = 3 then OP_ENDIF else if c = 4 then OP_DROP else if c = 5 then OP_SWAP
      else if c = 6 then OP_ADD else if c = 7 then OP_GREATERTHAN else OP_CHECKSIG)"

fun demo_dec :: "bytes option \<Rightarrow> bytes \<Rightarrow> instruction option list" where
  "demo_dec None [] = []"
| "demo_dec (Some a) [] = [None]"
| "demo_dec None [x] = [None]"
| "demo_dec (Some a) [x] = (if x = 0 then [Some (PushBytes a)] else [None])"
| "demo_dec None (x # c # r) =
     (if x = 1 then demo_dec (Some []) (c # r)
      else if c = 9 then (case r of [] \<Rightarrow> [None] | k # r' \<Rightarrow> Some (Op (OP_PUSHNUM k)) # demo_dec None r')
      else if c = 10 then (case r of [] \<Rightarrow> [None] | k # r' \<Rightarrow> Some (Op (OP_OTHER k)) # demo_dec None r')
      else Some (Op (demo_op c)) # demo_dec None r)"
| "demo_dec (Some a) (x # c # r) =
     (if x = 0 then Some (PushBytes a) # demo_dec None (c # r) else demo_dec (Some (a @ [c])) r)"

definition demo_script_lib :: script_lib where
  "demo_script_lib =
     \<lparr>pubkey_from_slice = (\<lambda>_. True), message_from_slice = (\<lambda>_. True), sig_from_compact = (\<lambda>_. True),
      verify_ecdsa = (\<lambda>_ sg pk. sg = pk), serialize_der = (\<lambda>sg. sg),
      script_bytes = (\<lambda>is. concat (map demo_enc_ins is)), instructions = demo_dec None,
      push_int = demo_push_int, read_scriptint = demo_read, to_v0_p2wsh = (\<lambda>s. 0 # 32 # s),
      encode_slice = Ok, from_normal_idx = (\<lambda>i. if i < 2 ^ 31 then Ok i else Err Bip32),
      derive_pub = (\<lambda>x i. Ok (xp_public_key x))\<rparr>"

lemma demo_dec_push_end: "demo_dec (Some a) (0 # r) = Some (PushBytes a) # demo_dec None r"
  by (cases r) auto

lemma demo_dec_push: "demo_dec (Some a) (concat (map (\<lambda>x. [1, x]) b) @ 0 # r)
    = Some (PushBytes (a @ b)) # demo_dec None r"
  by (induction b arbitrary: a) (auto simp: demo_dec_push_end)

lemma demo_dec_None_1: "demo_dec None (1 # c # r) = demo_dec (Some []) (c # r)"
  by simp

lemma demo_dec_enc: "demo_dec None (demo_enc_ins i @ r) = Some i # demo_dec None r"
proof (cases i)
  case (Op op)
  then show ?thesis by (cases op) (auto simp: demo_op_def)
next
  case (PushBytes b)
  have "demo_dec None (1 # xs) = demo_dec (Some []) xs" if "xs \<noteq> []" for xs :: bytes
    using that by (cases xs) auto
  then show ?thesis using PushBytes demo_dec_push [of "[]" b r] by simp
qed

lemma demo_assembler: "assembler_law demo_script_lib"
proof -
  have one: "demo_dec None (concat (map demo_enc_ins is) @ r) = map Some is @ demo_dec None r" for "is" r
    by (induction "is") (auto simp: demo_dec_enc)
  have "demo_dec None (concat (map (\<lambda>is. concat (map demo_enc_ins is)) pieces)) = map Some (concat pieces)"
    for pieces
    by (induction pieces) (auto simp: one)
  then show ?thesis by (simp add: assembler_law_def demo_script_lib_def)
qed

lemma demo_read_enc: "0 \<le> n \<Longrightarrow> n < 2 ^ 31 \<Longrightarrow> demo_read (demo_enc n) = Some n"
proof -
  assume n: "0 \<le> n" "n < 2 ^ 31"
  have "n mod 256 + 256 * (n div 256 mod 256) + 65536 * (n div 65536 mod 256) + 16777216 * (n div 16777216 mod 256) = n"
  proof -
    define a b c where "a = n div 256" and "b = a div 256" and "c = b div 256"
    have "n div 65536 = b" "n div 16777216 = c"
      by (simp_all add: a_def b_def c_def flip: zdiv_zmult2_eq)
    moreover have "c mod 256 = c" using n by (simp add: a_def b_def c_def)
    moreover have "n mod 256 = n - 256 * a" "a mod 256 = a - 256 * b" "b mod 256 = b - 256 * c"
      by (simp_all add: a_def b_def c_def minus_mult_div_eq_mod)
    ultimately show ?thesis unfolding a_def [symmetric] by (simp only:) simp
  qed
  moreover have "uint (word_of_int (k mod 256) :: u8) = k mod 256" for k :: int
    by (simp add: uint_word_of_int)
  ultimately show ?thesis
    by (cases "n = 0") (simp_all only: demo_read_def demo_enc_def if_True if_False list.case refl)
qed

lemma demo_number: "number_law demo_script_lib demo_enc"
proof -
  have length_enc: "length (demo_enc n) \<le> 4" "demo_enc 0 = []" for n by (simp_all add: demo_enc_def)
  show ?thesis
    by (auto simp: number_law_def demo_script_lib_def demo_push_int_def demo_read_enc length_enc)
qed

lemma demo_slice: "slice_law demo_script_lib"
  by (simp add: slice_law_def demo_script_lib_def)

lemma demo_checksig: "checksig_law demo_script_lib m (\<lambda>w pk. w = pk @ [1])"
  by (simp add: checksig_law_def demo_script_lib_def)


section \<open>Properties\<close>

lemma signing_run_signs_for:
  assumes "ThresholdSig_from_sigset (sigset_pairs ss) = Ok ts0" and "distinct (map sg_pubkey (ss_signatories ss))"
    and "fold_result (\<lambda>ts (pk, sg). ThresholdSig_sign L pk sg ts) (ThresholdSig_set_message m ts0) calls = Ok ts"
  shows "signs_for ss ts" "ts_inv L ts" "ts_message ts = m"
    "ThresholdSig_signed ts \<Longrightarrow> ss_present_vp ss = vp_sum (ss_signatories ss) \<Longrightarrow>
       threshold_of (ss_present_vp ss) < signed_power (ts_sigs ts)"
proof -
  have d: "distinct (map fst (sigset_pairs ss))" using assms(2) by (simp add: comp_def)
  have "signs_for ss (ThresholdSig_set_message m ts0)"
    using from_sigset_signs_for [OF assms(1,2)] by (simp add: signs_for_def ThresholdSig_set_message_def)
  then show sf: "signs_for ss ts"
    by (rule fold_result_invariant [OF assms(3), where P = "signs_for ss"]) (auto dest: sign_signs_for)
  note inv = signing_run_inv [OF assms(1) d assms(3)]
  then show "ts_inv L ts" "ts_message ts = m" by simp_all
  assume "ThresholdSig_signed ts" and vp: "ss_present_vp ss = vp_sum (ss_signatories ss)"
  moreover have "total_power (ts_sigs ts) = vp_sum (ss_signatories ss)"
  proof -
    have "(\<Sum>x\<in>#mset (map (\<lambda>(pk, sh). (pk, sh_power sh)) (ts_sigs ts)). snd x)
        = (\<Sum>x\<in>#mset (sigset_pairs ss). snd x)" using sf by (simp only: signs_for_def)
    then show ?thesis
      by (simp add: total_power_def multiset.map_comp comp_def split_def flip: sum_mset_sum_list)
  qed
  ultimately show "threshold_of (ss_present_vp ss) < signed_power (ts_sigs ts)"
    using inv(1) by (auto simp: ts_inv_def ThresholdSig_signed_def)
qed

text \<open>
  C4: the redeem script is a weighted multisig. For a signatory set chosen from the validators and
  any signatures collected for its input, once \<open>ThresholdSig\<close> reports the input as signed, the
  script machine accepts the witness exactly when the signers' powers, each truncated to the
  script's 23-bit precision, exceed the truncated threshold. The keys of the set are distinct compressed
  public keys, and the commitment takes at most the 520 bytes of a push.
\<close>

theorem redeem_script_weighs_signers:
  assumes laws: "assembler_law L" "number_law L enc" "checksig_law L m chk" "slice_law L"
    and ss: "SignatorySet_from_validator_ctx L C index keys = Ok ss" "distinct (map sg_pubkey (ss_signatories ss))" "compressed_keys L ss"
    and ts: "ThresholdSig_from_sigset (sigset_pairs ss) = Ok ts0"
      "fold_result (\<lambda>ts (pk, sg). ThresholdSig_sign L pk sg ts) (ThresholdSig_set_message m ts0) calls = Ok ts"
    and script: "SignatorySet_redeem_script L ss dest (n, d) = Ok script" "n \<le> d" "length dest \<le> 520"
    and w: "ThresholdSig_signed ts" "ThresholdSig_to_witness L ts = Ok w"
  shows "script_accepts L enc chk (map the (instructions L script)) w \<longleftrightarrow>
    truncated_power (SignatorySet_get_truncation ss 23) (ts_sigs ts)
      > drop_bit (SignatorySet_get_truncation ss 23) (ss_present_vp ss * n div d)"
  using signing_run_signs_for(1-3) [OF ts(1) ss(2) ts(2)] laws script w
    SignatorySet_from_validator_ctx_inv [OF ss(1)] compressed_keys_short [OF ss(3)]
  by (intro script_accepts_iff) auto

text \<open>
  C14: while the present voting power is below \<open>2^23\<close> nothing is truncated, and every input that
  \<open>ThresholdSig\<close> reports as signed is accepted by the script: the signing state and the script agree
  on the threshold \<open>SIGSET_THRESHOLD\<close>. As before, the keys of the set are distinct compressed public
  keys and the commitment fits a push.
\<close>

theorem signed_input_is_spendable:
  assumes laws: "assembler_law L" "number_law L enc" "checksig_law L m chk" "slice_law L"
    and ss: "SignatorySet_from_validator_ctx L C index keys = Ok ss" "distinct (map sg_pubkey (ss_signatories ss))"
      "ss_present_vp ss < 2 ^ 23" "compressed_keys L ss"
    and ts: "ThresholdSig_from_sigset (sigset_pairs ss) = Ok ts0"
      "fold_result (\<lambda>ts (pk, sg). ThresholdSig_sign L pk sg ts) (ThresholdSig_set_message m ts0) calls = Ok ts"
    and script: "SignatorySet_redeem_script L ss dest SIGSET_THRESHOLD = Ok script" "length dest \<le> 520"
    and w: "ThresholdSig_signed ts" "ThresholdSig_to_witness L ts = Ok w"
  shows "script_accepts L enc chk (map the (instructions L script)) w"
proof -
  have inv: "ss_inv ss" by (rule SignatorySet_from_validator_ctx_inv [OF ss(1)])
  then have vp: "ss_present_vp ss < 2 ^ 64" "ss_present_vp ss = vp_sum (ss_signatories ss)"
    by (auto simp: ss_inv_def)
  have t: "SignatorySet_get_truncation ss 23 = 0"
    using bit_len_le [OF ss(3)] by (simp add: get_truncation_bits [OF vp(1)])
  note run = signing_run_signs_for [OF ts(1) ss(2) ts(2)]
  have "threshold_of (ss_present_vp ss) = ss_present_vp ss * 9 div 10"
    using ss(3) by (simp add: threshold_of_def SIGSET_THRESHOLD_def)
  then have "signed_power (ts_sigs ts) > ss_present_vp ss * 9 div 10"
    using run(4) [OF w(1) vp(2)] by simp
  moreover have "script_accepts L enc chk (map the (instructions L script)) w \<longleftrightarrow>
    truncated_power (SignatorySet_get_truncation ss 23) (ts_sigs ts)
      > drop_bit (SignatorySet_get_truncation ss 23) (ss_present_vp ss * 9 div 10)"
    using run(1-3) laws script w inv compressed_keys_short [OF ss(4)] by (intro script_accepts_iff) (auto simp: SIGSET_THRESHOLD_def)
  ultimately show ?thesis by (simp add: t truncated_power_0)
qed

definition truncation_ss :: signatory_set where
  "truncation_ss = \<lparr>ss_create_time = 0, ss_present_vp = 16777216, ss_possible_vp = 16777216, ss_index = 0,
     ss_signatories = [\<lparr>sg_voting_power = 15099495, sg_pubkey = [1]\<rparr>, \<lparr>sg_voting_power = 1677721, sg_pubkey = [2]\<rparr>]\<rparr>"

definition truncation_ts :: threshold_sig where
  "truncation_ts = \<lparr>ts_threshold = 15099494, ts_signed = 15099495, ts_message = [7], ts_len = 2,
     ts_sigs = [([1], \<lparr>sh_power = 15099495, sh_sig = Some [1]\<rparr>), ([2], \<lparr>sh_power = 1677721, sh_sig = None\<rparr>)]\<rparr>"

text \<open>
  The truncation can cost a signed input its spend. With powers 15099495 and 1677721 (total
  \<open>2^24\<close>, truncated by two bits) the first signatory alone passes \<open>ThresholdSig::signed\<close>, but the
  redeem script rejects the witness that \<open>to_witness\<close> builds.
\<close>

theorem truncation_rejects_signed_input:
  "\<exists>script w. SignatorySet_redeem_script demo_script_lib truncation_ss [] SIGSET_THRESHOLD = Ok script
    \<and> ss_inv truncation_ss \<and> signs_for truncation_ss truncation_ts \<and> ts_inv demo_script_lib truncation_ts
    \<and> ThresholdSig_signed truncation_ts \<and> ThresholdSig_to_witness demo_script_lib truncation_ts = Ok w
    \<and> \<not> script_accepts demo_script_lib demo_enc (\<lambda>w pk. w = pk @ [1]) (map the (instructions demo_script_lib script)) w"
proof -
  obtain script where script: "SignatorySet_redeem_script demo_script_lib truncation_ss [] (9, 10) = Ok script"
    by (auto simp: SignatorySet_redeem_script_def truncation_ss_def SignatorySet_signature_threshold_def
        Let_def demo_script_lib_def div_u_def)
  have ss: "ss_inv truncation_ss"
    by (simp add: ss_inv_def truncation_ss_def MAX_SIGNATORIES_def sg_key_def)
  have sf: "signs_for truncation_ss truncation_ts" by (simp add: signs_for_def truncation_ss_def truncation_ts_def)
  have ts: "ts_inv demo_script_lib truncation_ts"
    by (simp add: ts_inv_def truncation_ts_def omap_inv_def threshold_of_def SIGSET_THRESHOLD_def
        share_verified_def sig_valid_def demo_script_lib_def)
  have sg: "ThresholdSig_signed truncation_ts" by (simp add: ThresholdSig_signed_def truncation_ts_def)
  obtain w where w: "ThresholdSig_to_witness demo_script_lib truncation_ts = Ok w"
    using to_witness_items [OF ts sg] by blast
  have t: "SignatorySet_get_truncation truncation_ss 23 = 2"
    by (simp add: SignatorySet_get_truncation_def truncation_ss_def leading_zeros_def bit_len.simps)
  have "script_accepts demo_script_lib demo_enc (\<lambda>w pk. w = pk @ [1]) (map the (instructions demo_script_lib script)) w
      \<longleftrightarrow> truncated_power 2 (ts_sigs truncation_ts) > drop_bit 2 (ss_present_vp truncation_ss * 9 div 10)"
    using script_accepts_iff [OF demo_assembler demo_number demo_checksig demo_slice ss ts sf _ _ script _ sg w] t
    by (simp add: truncation_ss_def)
  also have "\<dots> \<longleftrightarrow> False"
    by (simp add: truncated_power_def truncation_ts_def truncation_ss_def drop_bit_eq_div)
  finally show ?thesis using script ss sf ts sg w by (auto simp: SIGSET_THRESHOLD_def)
qed

text \<open>
  C15: parsing a redeem script gives back the signatories, the voting power and the commitment it
  was built from (creation time and index are not in the script, and the possible power becomes the present one). This
  holds for a set chosen from the validators whose present power is below \<open>2^23\<close>, so that nothing is truncated; whose
  powers, and the threshold (a fraction of at most one), are above 16, since the parser does not read the opcodes
  of smaller numbers; whose keys are compressed public keys; and for a commitment of at most 520 bytes.
\<close>

theorem from_script_recovers_sigset:
  assumes law: "assembler_law L" "number_law L enc" "slice_law L"
    and ss: "SignatorySet_from_validator_ctx L C index keys = Ok ss" "ss_present_vp ss < 2 ^ 23" "compressed_keys L ss"
      "\<forall>s \<in> set (ss_signatories ss). 16 < sg_voting_power s"
    and thr: "n \<le> d" "16 < ss_present_vp ss * n div d" and dest: "length dest \<le> 520"
    and script: "SignatorySet_redeem_script L ss dest (n, d) = Ok script"
  shows "SignatorySet_from_script L script (n, d)
    = Ok (ss\<lparr>ss_create_time := 0, ss_index := 0, ss_possible_vp := ss_present_vp ss\<rparr>, dest)"
  by (rule from_script_redeem_script [OF law SignatorySet_from_validator_ctx_inv [OF ss(1)] ss(2-4) thr dest script])

section \<open>Witnesses\<close>

text \<open>Two validators of power 100 and 1000 with declared keys of 33 bytes, on the concrete instance.\<close>

definition demo_pk :: "u8 \<Rightarrow> pubkey" where "demo_pk k = replicate 33 k"

definition demo_xpub33 :: "u8 \<Rightarrow> xpub" where "demo_xpub33 k = (demo_xpub k)\<lparr>xp_public_key := demo_pk k\<rparr>"

definition demo_validators :: ctx where
  "demo_validators = demo_ctx [\<lparr>ve_power = 100, ve_pubkey = [1]\<rparr>, \<lparr>ve_power = 1000, ve_pubkey = [2]\<rparr>]"

definition demo_sig_keys :: "(consensus_key \<times> xpub) list" where
  "demo_sig_keys = [([1], demo_xpub33 1), ([2], demo_xpub33 2)]"

definition demo_ss :: signatory_set where
  "demo_ss = \<lparr>ss_create_time = 1000, ss_present_vp = 1100, ss_possible_vp = 1100, ss_index = 4,
     ss_signatories = [\<lparr>sg_voting_power = 1000, sg_pubkey = demo_pk 2\<rparr>, \<lparr>sg_voting_power = 100, sg_pubkey = demo_pk 1\<rparr>]\<rparr>"

definition demo_ts :: "signature option \<Rightarrow> signature option \<Rightarrow> u64 \<Rightarrow> message \<Rightarrow> threshold_sig" where
  "demo_ts a b vp m = \<lparr>ts_threshold = 990, ts_signed = vp, ts_message = m, ts_len = 2,
     ts_sigs = [(demo_pk 1, \<lparr>sh_power = 100, sh_sig = a\<rparr>), (demo_pk 2, \<lparr>sh_power = 1000, sh_sig = b\<rparr>)]\<rparr>"

lemma demo_ss_chosen:
  "SignatorySet_from_validator_ctx demo_script_lib demo_validators 4 demo_sig_keys = Ok demo_ss"
  "distinct (map sg_pubkey (ss_signatories demo_ss))" "ss_present_vp demo_ss < 2 ^ 23"
  by (simp_all add: SignatorySet_from_validator_ctx_def demo_script_lib_def demo_validators_def demo_ctx_def
      add_validator_def SignatorySet_insert_def add_w_def SignatorySet_sort_and_truncate_def MAX_SIGNATORIES_def
      Let_def demo_sig_keys_def demo_xpub33_def demo_ss_def sg_key_def demo_pk_def as_u64_def)

lemma demo_from_sigset:
  "ThresholdSig_from_sigset (sigset_pairs demo_ss) = Ok (demo_ts None None 0 (replicate 32 0))"
proof -
  have "demo_pk 1 < demo_pk 2" "demo_pk 1 \<noteq> demo_pk 2" by (simp_all add: demo_pk_def numeral_eq_Suc)
  then show ?thesis
    by (auto simp: ThresholdSig_from_sigset_eq demo_ss_def demo_ts_def threshold_of_def SIGSET_THRESHOLD_def)
qed

lemma demo_run:
  "fold_result (\<lambda>ts (pk, sg). ThresholdSig_sign demo_script_lib pk sg ts)
     (ThresholdSig_set_message [7] (demo_ts None None 0 (replicate 32 0))) [(demo_pk 2, demo_pk 2)]
   = Ok (demo_ts None (Some (demo_pk 2)) 1000 [7])"
proof -
  have "demo_pk 1 \<noteq> demo_pk 2" by (simp add: demo_pk_def)
  then show ?thesis
    by (auto simp: ThresholdSig_sign_Ok sig_valid_def demo_script_lib_def ThresholdSig_set_message_def
        omap_modify_def demo_ts_def)
qed

lemma demo_signed: "ThresholdSig_signed (demo_ts None (Some (demo_pk 2)) 1000 [7])"
  by (simp add: ThresholdSig_signed_def demo_ts_def)

lemma demo_witness: "\<exists>w. ThresholdSig_to_witness demo_script_lib (demo_ts None (Some (demo_pk 2)) 1000 [7]) = Ok w"
proof -
  have "distinct (map fst (sigset_pairs demo_ss))" using demo_ss_chosen(2) by (simp add: comp_def)
  from signing_run_inv(1) [OF demo_from_sigset this demo_run] show ?thesis
    using to_witness_items [OF _ demo_signed] by blast
qed

lemma demo_redeem: "\<exists>script. SignatorySet_redeem_script demo_script_lib demo_ss [9] (9, 10) = Ok script"
  by (simp add: SignatorySet_redeem_script_def demo_ss_def SignatorySet_signature_threshold_def
      Let_def demo_script_lib_def div_u_def)

lemma demo_truncation: "SignatorySet_get_truncation demo_ss 23 = 0"
  by (simp add: SignatorySet_get_truncation_def demo_ss_def leading_zeros_def bit_len.simps)

lemma demo_compressed: "compressed_keys demo_script_lib demo_ss" "\<forall>s \<in> set (ss_signatories demo_ss). 16 < sg_voting_power s"
  "(16 :: nat) < ss_present_vp demo_ss * 9 div 10"
  by (simp_all add: compressed_keys_def demo_ss_def demo_pk_def demo_script_lib_def)

theorem redeem_script_weighs_signers_witness:
  "\<exists>script w. SignatorySet_redeem_script demo_script_lib demo_ss [9] (9, 10) = Ok script
    \<and> ThresholdSig_to_witness demo_script_lib (demo_ts None (Some (demo_pk 2)) 1000 [7]) = Ok w
    \<and> script_accepts demo_script_lib demo_enc (\<lambda>w pk. w = pk @ [1]) (map the (instructions demo_script_lib script)) w"
proof -
  obtain script w where s: "SignatorySet_redeem_script demo_script_lib demo_ss [9] (9, 10) = Ok script"
    and w: "ThresholdSig_to_witness demo_script_lib (demo_ts None (Some (demo_pk 2)) 1000 [7]) = Ok w"
    using demo_redeem demo_witness by blast
  have "truncated_power 0 (ts_sigs (demo_ts None (Some (demo_pk 2)) 1000 [7])) > ss_present_vp demo_ss * 9 div 10"
    by (simp add: truncated_power_def demo_ts_def demo_ss_def)
  with redeem_script_weighs_signers [OF demo_assembler demo_number demo_checksig demo_slice demo_ss_chosen(1,2) demo_compressed(1)
      demo_from_sigset demo_run s _ _ demo_signed w] s w show ?thesis
    by (auto simp: demo_truncation)
qed

theorem signed_input_is_spendable_witness:
  "\<exists>script w. SignatorySet_redeem_script demo_script_lib demo_ss [9] SIGSET_THRESHOLD = Ok script
    \<and> ThresholdSig_to_witness demo_script_lib (demo_ts None (Some (demo_pk 2)) 1000 [7]) = Ok w
    \<and> script_accepts demo_script_lib demo_enc (\<lambda>w pk. w = pk @ [1]) (map the (instructions demo_script_lib script)) w"
proof -
  obtain script w where s: "SignatorySet_redeem_script demo_script_lib demo_ss [9] SIGSET_THRESHOLD = Ok script"
    and w: "ThresholdSig_to_witness demo_script_lib (demo_ts None (Some (demo_pk 2)) 1000 [7]) = Ok w"
    using demo_redeem demo_witness by (auto simp: SIGSET_THRESHOLD_def)
  from signed_input_is_spendable [OF demo_assembler demo_number demo_checksig demo_slice demo_ss_chosen demo_compressed(1)
      demo_from_sigset demo_run s _ demo_signed w] s w show ?thesis by auto
qed

theorem from_script_recovers_sigset_witness:
  "\<exists>script. SignatorySet_redeem_script demo_script_lib demo_ss [9] (9, 10) = Ok script
    \<and> SignatorySet_from_script demo_script_lib script (9, 10)
      = Ok (demo_ss\<lparr>ss_create_time := 0, ss_index := 0, ss_possible_vp := 1100\<rparr>, [9])"
proof -
  obtain script where s: "SignatorySet_redeem_script demo_script_lib demo_ss [9] (9, 10) = Ok script"
    using demo_redeem by blast
  from from_script_recovers_sigset [OF demo_assembler demo_number demo_slice demo_ss_chosen(1,3) demo_compressed(1,2) _ demo_compressed(3) _ s] s
  show ?thesis by (simp add: demo_ss_def)
qed

end
