(* ===== verification/Outpoint_Set.thy ===== *)
theory Outpoint_Set
  imports Prelude
begin

text \<open>
  The replay guard of deposits (src/src/bitcoin/outpoint_set.rs), with the two helpers of
  src/src/bitcoin/mod.rs that empty a map and a deque. The locale \<open>replay_guard\<close> states what
  the deposit relay relies on; it is interpreted on the model of \<open>OutpointSet\<close>.
\<close>

section \<open>Emptying collections\<close>

definition clear_map :: "('k \<times> 'v) list \<Rightarrow> ('k \<times> 'v) list" where
  "clear_map m = (let keys = map fst m in fold omap_remove keys m)"

fun clear_deque :: "'v list \<Rightarrow> 'v list" where
  "clear_deque xs = (if xs = [] then xs else clear_deque (butlast xs))"

declare clear_deque.simps [simp del]

lemma fold_omap_remove: "fold omap_remove ks m = filter (\<lambda>(k, _). k \<notin> set ks) m"
  by (induction ks arbitrary: m) (auto simp: omap_remove_def intro: filter_cong)

lemma clear_map_empty [simp]: "clear_map m = []"
  by (auto simp: clear_map_def fold_omap_remove filter_empty_conv image_iff)

lemma clear_deque_empty [simp]: "clear_deque xs = []"
  by (induction xs rule: clear_deque.induct) (subst clear_deque.simps, simp)

section \<open>Outpoint sets\<close>

type_synonym outpoint = "bytes \<times> u32"

record outpoint_set =
  os_expiration_queue :: "((u64 \<times> outpoint) \<times> unit) list"
  os_outpoints :: "(outpoint \<times> unit) list"

definition OutpointSet_default :: outpoint_set where
  "OutpointSet_default = \<lparr>os_expiration_queue = [], os_outpoints = []\<rparr>"

definition OutpointSet_reset :: "outpoint_set \<Rightarrow> outpoint_set" where
  "OutpointSet_reset s =
     s\<lparr>os_expiration_queue := clear_map (os_expiration_queue s), os_outpoints := clear_map (os_outpoints s)\<rparr>"

definition OutpointSet_contains :: "outpoint_set \<Rightarrow> outpoint \<Rightarrow> bool" where
  "OutpointSet_contains s outpoint = omap_contains outpoint (os_outpoints s)"

definition OutpointSet_insert :: "outpoint \<Rightarrow> u64 \<Rightarrow> outpoint_set \<Rightarrow> outpoint_set" where
  "OutpointSet_insert outpoint expiration s =
     s\<lparr>os_outpoints := omap_insert (\<lambda>k. k) outpoint () (os_outpoints s),
       os_expiration_queue := omap_insert (\<lambda>k. k) (expiration, outpoint) () (os_expiration_queue s)\<rparr>"

definition OutpointSet_remove_expired :: "u64 \<Rightarrow> outpoint_set \<Rightarrow> outpoint_set" where
  "OutpointSet_remove_expired now s =
     (let expired = takeWhile (\<lambda>(expiration, outpoint). \<not> expiration \<ge> now)
            (map fst (os_expiration_queue s)) in
      fold (\<lambda>(expiration, outpoint) s.
          s\<lparr>os_outpoints := omap_remove outpoint (os_outpoints s),
            os_expiration_queue := omap_remove (expiration, outpoint) (os_expiration_queue s)\<rparr>) expired s)"

section \<open>The invariant\<close>

text \<open>Both maps are in key order, and every outpoint of the set waits in the queue.\<close>

definition os_inv :: "outpoint_set \<Rightarrow> bool" where
  "os_inv s \<longleftrightarrow> omap_inv (\<lambda>k. k) (os_expiration_queue s) \<and> omap_inv (\<lambda>k. k) (os_outpoints s)
     \<and> list_all (\<lambda>(o', _). list_ex (\<lambda>((_, o''), _). o'' = o') (os_expiration_queue s)) (os_outpoints s)"

lemma OutpointSet_contains_insert [simp]:
  "OutpointSet_contains (OutpointSet_insert o1 e s) o2 \<longleftrightarrow> o2 = o1 \<or> OutpointSet_contains s o2"
  by (auto simp: OutpointSet_contains_def OutpointSet_insert_def omap_contains_def)

lemma OutpointSet_contains_reset [simp]: "\<not> OutpointSet_contains (OutpointSet_reset s) o1"
  by (simp add: OutpointSet_contains_def OutpointSet_reset_def omap_contains_def)

lemma contains_keys: "OutpointSet_contains s o1 \<longleftrightarrow> o1 \<in> fst ` set (os_outpoints s)"
  by (simp add: OutpointSet_contains_def omap_contains_def map_of_eq_None_iff)

lemma os_inv_alt:
  "os_inv s \<longleftrightarrow> omap_inv (\<lambda>k. k) (os_expiration_queue s) \<and> omap_inv (\<lambda>k. k) (os_outpoints s)
     \<and> fst ` set (os_outpoints s) \<subseteq> snd ` fst ` set (os_expiration_queue s)"
proof -
  have "list_all (\<lambda>(o', _). list_ex (\<lambda>((_, o''), _). o'' = o') q) m
      \<longleftrightarrow> fst ` set m \<subseteq> snd ` fst ` set q" for q :: "((u64 \<times> outpoint) \<times> unit) list" and m :: "(outpoint \<times> unit) list"
    by (simp add: list_all_iff list_ex_iff split_def subset_eq image_iff) metis
  then show ?thesis by (simp add: os_inv_def)
qed

lemma OutpointSet_insert_inv: "os_inv s \<Longrightarrow> os_inv (OutpointSet_insert o1 e s)"
  by (auto simp: os_inv_alt OutpointSet_insert_def keys_omap_insert omap_inv_insert)

lemma OutpointSet_default_inv [simp]: "os_inv OutpointSet_default"
  by (simp add: os_inv_def OutpointSet_default_def)

subsection \<open>Expiry\<close>

lemma remove_expired_fold:
  "fold (\<lambda>(expiration, outpoint) s.
      s\<lparr>os_outpoints := omap_remove outpoint (os_outpoints s),
        os_expiration_queue := omap_remove (expiration, outpoint) (os_expiration_queue s)\<rparr>) es s
   = s\<lparr>os_outpoints := filter (\<lambda>(o1, _). o1 \<notin> snd ` set es) (os_outpoints s),
       os_expiration_queue := filter (\<lambda>(k, _). k \<notin> set es) (os_expiration_queue s)\<rparr>"
proof (induction es arbitrary: s)
  case (Cons e es)
  then show ?case
    by (cases e) (simp add: omap_remove_def split_def)
qed simp

text \<open>The queue is ordered by expiration, so the early exit of the loop loses nothing.\<close>

lemma takeWhile_sorted_fst:
  assumes "sorted (ks :: ('a::linorder \<times> 'b::linorder) list)"
  shows "set (takeWhile (\<lambda>(e, _). \<not> e \<ge> now) ks) = {k \<in> set ks. fst k < now}"
  using assms
proof (induction ks)
  case (Cons k ks)
  have mono: "\<And>k'. k' \<in> set ks \<Longrightarrow> fst k \<le> fst k'"
    using Cons.prems by (auto simp: less_eq_prod_def)
  show ?case
  proof (cases "fst k < now")
    case True
    with Cons show ?thesis by (auto simp: split_def)
  next
    case False
    then show ?thesis using mono by (fastforce simp: split_def)
  qed
qed simp

lemma remove_expired_eq:
  assumes "os_inv s"
  shows "OutpointSet_remove_expired now s =
    s\<lparr>os_outpoints := filter (\<lambda>(o1, _). \<not> (\<exists>e < now. (e, o1) \<in> fst ` set (os_expiration_queue s))) (os_outpoints s),
      os_expiration_queue := filter (\<lambda>((e, _), _). now \<le> e) (os_expiration_queue s)\<rparr>"
proof -
  let ?q = "map fst (os_expiration_queue s)"
  let ?es = "takeWhile (\<lambda>(e, _). \<not> e \<ge> now) ?q"
  have "sorted ?q" using assms by (simp add: os_inv_def omap_inv_def comp_def)
  then have es: "set ?es = {k \<in> set ?q. fst k < now}" by (rule takeWhile_sorted_fst)
  have "filter (\<lambda>(k, _). k \<notin> set ?es) (os_expiration_queue s) = filter (\<lambda>((e, _), _). now \<le> e) (os_expiration_queue s)"
    unfolding es by (rule filter_cong) force+
  moreover have "filter (\<lambda>(o1, _). o1 \<notin> snd ` set ?es) (os_outpoints s)
      = filter (\<lambda>(o1, _). \<not> (\<exists>e < now. (e, o1) \<in> fst ` set (os_expiration_queue s))) (os_outpoints s)"
    unfolding es by (rule filter_cong) force+
  ultimately show ?thesis
    by (simp only: OutpointSet_remove_expired_def Let_def remove_expired_fold)
qed

lemma omap_inv_filter: "omap_inv f m \<Longrightarrow> omap_inv f (filter P m)"
  by (induction m) (auto simp: omap_inv_Cons)

lemma remove_expired_inv: "os_inv s \<Longrightarrow> os_inv (OutpointSet_remove_expired now s)"
proof -
  assume inv: "os_inv s"
  have step: "o1 \<in> snd ` fst ` set (filter (\<lambda>((e, _), _). now \<le> e) (os_expiration_queue s))"
    if mem: "(o1, u) \<in> set (os_outpoints s)" and late: "\<And>e. (e, o1) \<in> fst ` set (os_expiration_queue s) \<Longrightarrow> now \<le> e"
    for o1 u
  proof -
    have "o1 \<in> fst ` set (os_outpoints s)" using mem by force
    with inv have "o1 \<in> snd ` fst ` set (os_expiration_queue s)" unfolding os_inv_alt by (meson subsetD)
    then obtain e v where k: "((e, o1), v) \<in> set (os_expiration_queue s)" by auto
    then have "(e, o1) \<in> fst ` set (os_expiration_queue s)" by force
    then have "now \<le> e" by (rule late)
    with k show ?thesis by (intro image_eqI [of _ _ "(e, o1)"] image_eqI [of _ _ "((e, o1), v)"]) simp_all
  qed
  have "fst ` set (filter (\<lambda>(o1, _). \<not> (\<exists>e < now. (e, o1) \<in> fst ` set (os_expiration_queue s))) (os_outpoints s))
      \<subseteq> snd ` fst ` set (filter (\<lambda>((e, _), _). now \<le> e) (os_expiration_queue s))" (is "fst ` ?A \<subseteq> _")
  proof (rule image_subsetI)
    fix x assume x: "x \<in> ?A"
    obtain o1 u where o: "x = (o1, u)" by (cases x)
    from x have mem: "(o1, u) \<in> set (os_outpoints s)"
      and "\<not> (\<exists>e < now. (e, o1) \<in> fst ` set (os_expiration_queue s))" unfolding o by simp_all
    then have "\<And>e. (e, o1) \<in> fst ` set (os_expiration_queue s) \<Longrightarrow> now \<le> e" using not_less by blast
    from step [OF mem this] show "fst x \<in> snd ` fst ` set (filter (\<lambda>((e, _), _). now \<le> e) (os_expiration_queue s))"
      unfolding o by simp
  qed
  with inv show ?thesis
    by (simp add: remove_expired_eq [OF inv] os_inv_alt omap_inv_filter del: set_filter)
qed

section \<open>The contract of the relay\<close>

text \<open>
  What the deposit relay relies on: an outpoint that was inserted is found, and insertion changes
  nothing about the others. Guarding every credit by the check then credits each outpoint once.
\<close>

locale replay_guard =
  fixes contains :: "'s \<Rightarrow> 'o \<Rightarrow> bool"
    and insert_op :: "'o \<Rightarrow> 'e \<Rightarrow> 's \<Rightarrow> 's"
  assumes contains_insert: "contains (insert_op o1 e s) o2 \<longleftrightarrow> o2 = o1 \<or> contains s o2"
begin

definition guarded :: "'s \<Rightarrow> 'o \<times> 'e \<Rightarrow> 's result" where
  "guarded s = (\<lambda>(o1, e). if contains s o1 then Err (App ''Output has already been relayed'')
     else Ok (insert_op o1 e s))"

lemma guarded_Ok: "guarded s (o1, e) = Ok s' \<longleftrightarrow> \<not> contains s o1 \<and> s' = insert_op o1 e s"
  by (auto simp: guarded_def)

lemma guarded_run:
  assumes "fold_result guarded s calls = Ok s'"
  shows "distinct (map fst calls) \<and> (\<forall>o1. contains s' o1 \<longleftrightarrow> contains s o1 \<or> o1 \<in> set (map fst calls))
    \<and> (\<forall>o1 \<in> set (map fst calls). \<not> contains s o1)"
  using assms
proof (induction calls arbitrary: s)
  case Nil
  then show ?case by simp
next
  case (Cons c calls)
  obtain o1 e where c: "c = (o1, e)" by (cases c)
  with Cons.prems have new: "\<not> contains s o1"
    and rest: "fold_result guarded (insert_op o1 e s) calls = Ok s'"
    by (auto simp: guarded_Ok)
  from Cons.IH [OF rest] new show ?case
    unfolding c by (auto simp: contains_insert)
qed

end

interpretation ops: replay_guard OutpointSet_contains OutpointSet_insert
  by unfold_locales simp

section \<open>Properties\<close>

text \<open>
  Pruning keeps the set's invariant and removes exactly the outpoints with an expiration
  before \<open>now\<close>; an outpoint all of whose expirations are later is still refused.
\<close>

theorem remove_expired_exact:
  assumes "os_inv s"
  shows "os_inv (OutpointSet_remove_expired now s)
    \<and> (OutpointSet_contains (OutpointSet_remove_expired now s) o1 \<longleftrightarrow>
        OutpointSet_contains s o1 \<and> (\<forall>e. (e, o1) \<in> fst ` set (os_expiration_queue s) \<longrightarrow> now \<le> e))"
  using remove_expired_inv [OF assms]
  by (auto simp: contains_keys remove_expired_eq [OF assms] not_less) (force simp: not_less)+

theorem remove_expired_exact_witness:
  "os_inv (OutpointSet_insert ([1], 0) 5 (OutpointSet_insert ([2], 0) 9 OutpointSet_default))
   \<and> \<not> OutpointSet_contains (OutpointSet_remove_expired 6
        (OutpointSet_insert ([1], 0) 5 (OutpointSet_insert ([2], 0) 9 OutpointSet_default))) ([1], 0)"
proof -
  let ?s = "OutpointSet_insert ([1], 0) 5 (OutpointSet_insert ([2], 0) 9 OutpointSet_default)"
  have inv: "os_inv ?s" by (intro OutpointSet_insert_inv OutpointSet_default_inv)
  from remove_expired_exact [OF inv, of 6 "([1], 0)"] inv show ?thesis
    by (auto simp: OutpointSet_insert_def OutpointSet_default_def)
qed

end
