(* ===== verification/Bitcoin_Tx.thy ===== *)
theory Bitcoin_Tx
  imports Script_Semantics Outpoint_Set
begin

text \<open>
  Transactions under construction (the first part of src/src/bitcoin/checkpoint.rs): inputs with
  their signing state, outputs, conversion to a Bitcoin transaction, sighashes, size estimates and
  the deduction of a miner fee. The bitcoin crate's transaction functions are the parameters of
  \<open>tx_lib\<close>.
\<close>

section \<open>Transactions of the bitcoin crate\<close>

record txin =
  ti_previous_output :: outpoint
  ti_script_sig :: bytes
  ti_sequence :: u32
  ti_witness :: "bytes list"

record txout =
  to_value :: u64
  to_script_pubkey :: bytes

record transaction =
  tr_version :: int
  tr_lock_time :: u32
  tr_input :: "txin list"
  tr_output :: "txout list"

section \<open>Inputs and transactions under construction\<close>

record input =
  in_prevout :: outpoint
  in_script_pubkey :: bytes
  in_redeem_script :: bytes
  in_sigset_index :: u32
  in_dest :: bytes
  in_amount :: u64
  in_est_witness_vsize :: u64
  in_signatures :: threshold_sig

record bitcoin_tx =
  bt_lock_time :: u32
  bt_signed_inputs :: u16
  bt_input :: "input list"
  bt_output :: "txout list"

record tx_lib = script_lib +
  tx_vsize :: "transaction \<Rightarrow> u64"
  tx_txid :: "transaction \<Rightarrow> bytes"
  segwit_signature_hash :: "transaction \<Rightarrow> nat \<Rightarrow> bytes \<Rightarrow> u64 \<Rightarrow> message result"
  dust_value :: "bytes \<Rightarrow> u64"
  new_op_return :: "bytes \<Rightarrow> bytes"
  arrange_outputs :: "txout list \<Rightarrow> txout list"
  visit_txs :: "bitcoin_tx list \<Rightarrow> bitcoin_tx list"  \<comment> \<open>the order a closure sees the elements in\<close>
  arrange_txs :: "bitcoin_tx list \<Rightarrow> bitcoin_tx list"

text \<open>
  \<open>Deque::retain_unordered\<close> keeps the elements its closure accepts, in an unspecified order: the
  kept elements, rearranged by any permutation \<open>a\<close> (another function is read as the identity).
\<close>

definition rearrange :: "('a list \<Rightarrow> 'a list) \<Rightarrow> 'a list \<Rightarrow> 'a list" where
  "rearrange a xs = (if mset (a xs) = mset xs then a xs else xs)"

definition Input_to_txin :: "'m tx_lib_scheme \<Rightarrow> input \<Rightarrow> txin result" where
  "Input_to_txin L input =
     rbind (ThresholdSig_to_witness L (in_signatures input)) (\<lambda>witness.
     let witness = (if ThresholdSig_signed (in_signatures input)
                    then witness @ [in_redeem_script input] else witness) in
     Ok \<lparr>ti_previous_output = in_prevout input, ti_script_sig = [], ti_sequence = 2 ^ 32 - 1,
         ti_witness = witness\<rparr>)"

definition Input_new ::
  "'m tx_lib_scheme \<Rightarrow> outpoint \<Rightarrow> signatory_set \<Rightarrow> bytes \<Rightarrow> u64 \<Rightarrow> u64 \<times> u64 \<Rightarrow> input result" where
  "Input_new L prevout sigset dest amount threshold =
     rbind (SignatorySet_output_script L sigset dest threshold) (\<lambda>script_pubkey.
     rbind (SignatorySet_redeem_script L sigset dest threshold) (\<lambda>redeem_script.
     rbind (encode_slice L dest) (\<lambda>data.
     if length data \<ge> 2 ^ 16 then Err Encoding
     else
     rbind (ThresholdSig_from_sigset (sigset_pairs sigset)) (\<lambda>signatures.
     Ok \<lparr>in_prevout = prevout, in_script_pubkey = script_pubkey, in_redeem_script = redeem_script,
         in_sigset_index = ss_index sigset, in_dest = data, in_amount = amount,
         in_est_witness_vsize = SignatorySet_est_witness_vsize sigset, in_signatures = signatures\<rparr>))))"

definition Input_est_vsize :: "input \<Rightarrow> u64 result" where
  "Input_est_vsize input = add_u64 (in_est_witness_vsize input) 40"

definition BitcoinTx_default :: bitcoin_tx where
  "BitcoinTx_default = \<lparr>bt_lock_time = 0, bt_signed_inputs = 0, bt_input = [], bt_output = []\<rparr>"

definition BitcoinTx_with_lock_time :: "u32 \<Rightarrow> bitcoin_tx" where
  "BitcoinTx_with_lock_time lock_time = BitcoinTx_default\<lparr>bt_lock_time := lock_time\<rparr>"

definition BitcoinTx_to_bitcoin_tx :: "'m tx_lib_scheme \<Rightarrow> bitcoin_tx \<Rightarrow> transaction result" where
  "BitcoinTx_to_bitcoin_tx L tx =
     rbind (map_result (Input_to_txin L) (bt_input tx)) (\<lambda>inputs.
     Ok \<lparr>tr_version = 1, tr_lock_time = bt_lock_time tx, tr_input = inputs, tr_output = bt_output tx\<rparr>)"

definition BitcoinTx_signed :: "bitcoin_tx \<Rightarrow> bool" where
  "BitcoinTx_signed tx \<longleftrightarrow> bt_signed_inputs tx = length (bt_input tx)"

definition witness_vsizes :: "input list \<Rightarrow> u64 result" where
  "witness_vsizes inputs = fold_result (\<lambda>sum input. add_u64 sum (in_est_witness_vsize input)) 0 inputs"

definition BitcoinTx_est_vsize :: "'m tx_lib_scheme \<Rightarrow> bitcoin_tx \<Rightarrow> u64 result" where
  "BitcoinTx_est_vsize L tx =
     rbind (BitcoinTx_to_bitcoin_tx L tx) (\<lambda>btc_tx.
     rbind (witness_vsizes (bt_input tx)) (\<lambda>est_witness_vsize.
     add_u64 (tx_vsize L btc_tx) est_witness_vsize))"

definition BitcoinTx_txid :: "'m tx_lib_scheme \<Rightarrow> bitcoin_tx \<Rightarrow> bytes result" where
  "BitcoinTx_txid L tx = rbind (BitcoinTx_to_bitcoin_tx L tx) (\<lambda>btc_tx. Ok (tx_txid L btc_tx))"

definition BitcoinTx_value :: "bitcoin_tx \<Rightarrow> u64 result" where
  "BitcoinTx_value tx = fold_result (\<lambda>sum out. add_u64 sum (to_value out)) 0 (bt_output tx)"

definition BitcoinTx_populate_input_sig_message ::
  "'m tx_lib_scheme \<Rightarrow> nat \<Rightarrow> bitcoin_tx \<Rightarrow> bitcoin_tx result" where
  "BitcoinTx_populate_input_sig_message L input_index tx =
     rbind (BitcoinTx_to_bitcoin_tx L tx) (\<lambda>btc_tx.
     if input_index \<ge> length (bt_input tx) then Err (InputIndexOutOfBounds input_index)
     else
     let input = bt_input tx ! input_index in
     rbind (segwit_signature_hash L btc_tx input_index (in_redeem_script input) (in_amount input)) (\<lambda>sighash.
     Ok (tx\<lparr>bt_input := (bt_input tx)[input_index :=
           input\<lparr>in_signatures := ThresholdSig_set_message sighash (in_signatures input)\<rparr>]\<rparr>)))"

subsection \<open>Deducting a fee\<close>

text \<open>\<open>output.value.saturating_sub(dust_value)\<close>\<close>

definition adjusted_output :: "'m tx_lib_scheme \<Rightarrow> txout \<Rightarrow> u64" where
  "adjusted_output L out = to_value out - dust_value L (to_script_pubkey out)"

text \<open>\<open>min_output\<close>, which starts at \<open>u64::MAX\<close> and sees every output once.\<close>

definition min_output :: "'m tx_lib_scheme \<Rightarrow> txout list \<Rightarrow> u64" where
  "min_output L outs = fold (\<lambda>out m. if adjusted_output L out < m then adjusted_output L out else m) outs (2 ^ 64 - 1)"

definition retain_above :: "'m tx_lib_scheme \<Rightarrow> u64 \<Rightarrow> txout list \<Rightarrow> txout list" where
  "retain_above L threshold outs =
     rearrange (arrange_outputs L) (filter (\<lambda>out. adjusted_output L out > threshold) outs)"

lemma mset_rearrange [simp]: "mset (rearrange a xs) = mset xs"
  by (simp add: rearrange_def)

lemma length_rearrange [simp]: "length (rearrange a xs) = length xs"
  by (metis mset_rearrange size_mset)

lemma set_rearrange [simp]: "set (rearrange a xs) = set xs"
  by (metis mset_rearrange set_mset_mset)

lemma mset_retain_above: "mset (retain_above L t outs) = filter_mset (\<lambda>out. adjusted_output L out > t) (mset outs)"
  by (simp add: retain_above_def)

lemma length_retain_above: "length (retain_above L t outs) \<le> length outs"
  by (simp add: retain_above_def)

lemma fold_min_le:
  "fold (\<lambda>x m. if f x < m then f x else m) xs a \<le> (a :: nat)
   \<and> (\<forall>x \<in> set xs. fold (\<lambda>x m. if f x < m then f x else m) xs a \<le> f x)"
proof (induction xs arbitrary: a)
  case (Cons x xs)
  show ?case using Cons.IH [of "if f x < a then f x else a"] by (auto intro: order_trans split: if_splits)
qed simp

lemma fold_min_ge:
  "(\<forall>x \<in> set xs. t \<le> f x) \<Longrightarrow> t \<le> a \<Longrightarrow> (t :: nat) \<le> fold (\<lambda>x m. if f x < m then f x else m) xs a"
  by (induction xs arbitrary: a) auto

lemma min_output_le: "out \<in> set outs \<Longrightarrow> min_output L outs \<le> adjusted_output L out"
  using fold_min_le [of "adjusted_output L" outs] by (simp add: min_output_def)

lemma min_output_ge:
  "(\<forall>out \<in> set outs. t \<le> adjusted_output L out) \<Longrightarrow> t < 2 ^ 64 \<Longrightarrow> t \<le> min_output L outs"
  unfolding min_output_def by (intro fold_min_ge) auto

lemma retain_above_shrinks:
  assumes "fee < 2 ^ 64" and "outs \<noteq> []" and "min_output L outs < fee div length (retain_above L (fee div length outs) outs)"
  shows "length (retain_above L (fee div length outs) outs) < length outs"
proof (rule ccontr)
  let ?t = "fee div length outs"
  assume "\<not> ?thesis"
  moreover have le: "length (retain_above L ?t outs) \<le> length outs" by (simp add: retain_above_def)
  ultimately have len: "length (retain_above L ?t outs) = length outs" by simp
  then have "filter (\<lambda>out. adjusted_output L out > ?t) outs = outs"
    by (simp add: retain_above_def) (metis filter_id_conv length_filter_less less_irrefl)
  then have "\<forall>out \<in> set outs. ?t \<le> adjusted_output L out" by (metis filter_id_conv less_imp_le_nat)
  moreover have "?t < 2 ^ 64" using assms(1) by (rule le_less_trans [OF div_le_dividend])
  ultimately have "?t \<le> min_output L outs" by (rule min_output_ge)
  with assms(3) len show False by simp
qed

text \<open>
  The \<open>loop\<close>. Each round that goes on has removed an output. (A fee is a \<open>u64\<close>; the last test, which
  is false for one, makes the recursion total.)
\<close>

function deduct_loop :: "'m tx_lib_scheme \<Rightarrow> u64 \<Rightarrow> txout list \<Rightarrow> (u64 \<times> txout list) result" where
  "deduct_loop L fee outs =
     rbind (div_u fee (length outs)) (\<lambda>threshold.
     let outs' = retain_above L threshold outs in
     if outs' = [] then Ok (threshold, outs')
     else
     let threshold' = fee div length outs' in
     if min_output L outs \<ge> threshold' \<or> fee \<ge> 2 ^ 64 then Ok (threshold', outs')
     else deduct_loop L fee outs')"
  by pat_completeness auto
termination
  by (relation "measure (\<lambda>(L, fee, outs). length outs)") (auto simp: not_le intro!: retain_above_shrinks)

declare deduct_loop.simps [simp del]

definition BitcoinTx_deduct_fee :: "'m tx_lib_scheme \<Rightarrow> u64 \<Rightarrow> bitcoin_tx \<Rightarrow> bitcoin_tx result" where
  "BitcoinTx_deduct_fee L fee tx =
     (if fee = 0 then Ok tx
      else if bt_output tx = [] then Err (BitcoinFee fee)
      else
      rbind (deduct_loop L fee (bt_output tx)) (\<lambda>(threshold, outs).
      rbind (map_result (\<lambda>out. rbind (sub_u (to_value out) threshold) (\<lambda>v. Ok (out\<lparr>to_value := v\<rparr>))) outs) (\<lambda>outs.
      Ok (tx\<lparr>bt_output := outs\<rparr>))))"


section \<open>What the fee loop computes\<close>

text \<open>The loop ends with the outputs that can pay their share and stay above dust, and no others.\<close>

lemma deduct_loop_spec:
  assumes "fee < 2 ^ 64" and "outs \<noteq> []"
  shows "\<exists>thr outs'. deduct_loop L fee outs = Ok (thr, outs')
    \<and> mset outs' = filter_mset (\<lambda>out. adjusted_output L out > thr) (mset outs)
    \<and> fee div length outs \<le> thr \<and> (outs' \<noteq> [] \<longrightarrow> thr = fee div length outs')"
  using assms
proof (induction L fee outs rule: deduct_loop.induct)
  case (1 L fee outs)
  let ?t = "fee div length outs"
  let ?r = "retain_above L ?t outs"
  let ?t' = "fee div length ?r"
  have div: "div_u fee (length outs) = Ok ?t" using "1.prems"(2) by (simp add: div_u_def)
  have mono: "?t \<le> ?t'" if "?r \<noteq> []"
    using that by (intro div_le_mono2) (simp_all add: length_retain_above)
  consider (none) "?r = []" | (stop) "?r \<noteq> []" "min_output L outs \<ge> ?t'" | (more) "?r \<noteq> []" "\<not> min_output L outs \<ge> ?t'"
    by blast
  then show ?case
  proof cases
    case none
    then have "deduct_loop L fee outs = Ok (?t, [])"
      by (subst deduct_loop.simps) (simp add: div Let_def)
    then show ?thesis using mset_retain_above [of L ?t outs] none by auto
  next
    case stop
    have "?t' = ?t"
    proof (rule ccontr)
      assume "?t' \<noteq> ?t"
      with mono stop have "\<forall>out \<in> set outs. adjusted_output L out > ?t"
        using min_output_le [of _ outs L] by (metis le_less_trans nat_less_le order_trans)
      then have "length ?r = length outs" by (simp add: retain_above_def)
      with \<open>?t' \<noteq> ?t\<close> show False by simp
    qed
    moreover have "deduct_loop L fee outs = Ok (?t', ?r)"
      using stop "1.prems" by (subst deduct_loop.simps) (simp add: div Let_def)
    ultimately show ?thesis using mset_retain_above [of L ?t outs] by auto
  next
    case more
    have eq: "deduct_loop L fee outs = deduct_loop L fee ?r"
      using more "1.prems" by (subst deduct_loop.simps) (simp add: div Let_def)
    from "1.IH" [OF div refl _ refl] more "1.prems" obtain thr outs' where
      r: "deduct_loop L fee ?r = Ok (thr, outs')"
      and ms: "mset outs' = filter_mset (\<lambda>out. adjusted_output L out > thr) (mset ?r)"
      and t: "?t' \<le> thr" "outs' \<noteq> [] \<longrightarrow> thr = fee div length outs'"
      by auto
    have le: "?t \<le> thr" using mono [OF more(1)] t(1) by simp
    then have "mset outs' = filter_mset (\<lambda>out. adjusted_output L out > thr) (mset outs)"
      unfolding ms mset_retain_above filter_filter_mset
      by (intro filter_mset_cong) auto
    with r t le eq show ?thesis by auto
  qed
qed

lemma deduct_from_all:
  assumes "\<forall>out \<in> set outs. thr \<le> to_value out"
  shows "map_result (\<lambda>out. rbind (sub_u (to_value out) thr) (\<lambda>v. Ok (out\<lparr>to_value := v\<rparr>))) outs
    = Ok (map (\<lambda>out. out\<lparr>to_value := to_value out - thr\<rparr>) outs)"
  using assms by (intro map_result_total) (simp add: sub_u_def)

text \<open>\<open>deduct_fee\<close> in closed form.\<close>

lemma deduct_fee_closed:
  assumes "0 < fee" and "fee < 2 ^ 64" and "bt_output tx \<noteq> []"
  obtains thr kept where
    "BitcoinTx_deduct_fee L fee tx =
       Ok (tx\<lparr>bt_output := map (\<lambda>out. out\<lparr>to_value := to_value out - thr\<rparr>) kept\<rparr>)"
    "mset kept = filter_mset (\<lambda>out. adjusted_output L out > thr) (mset (bt_output tx))"
    "kept \<noteq> [] \<longrightarrow> thr = fee div length kept"
    "\<forall>out \<in> set kept. to_value out > thr + dust_value L (to_script_pubkey out)"
proof -
  obtain thr kept where loop: "deduct_loop L fee (bt_output tx) = Ok (thr, kept)"
    and ms: "mset kept = filter_mset (\<lambda>out. adjusted_output L out > thr) (mset (bt_output tx))"
    and t: "kept \<noteq> [] \<longrightarrow> thr = fee div length kept"
    using deduct_loop_spec [OF assms(2,3)] by blast
  have "adjusted_output L out > thr" if "out \<in> set kept" for out
    using that arg_cong [OF ms, of set_mset] by auto
  then have big: "\<forall>out \<in> set kept. to_value out > thr + dust_value L (to_script_pubkey out)"
    by (simp add: adjusted_output_def less_diff_conv)
  then have "\<forall>out \<in> set kept. thr \<le> to_value out" by auto
  from deduct_from_all [OF this] loop assms(1,3) have "BitcoinTx_deduct_fee L fee tx =
       Ok (tx\<lparr>bt_output := map (\<lambda>out. out\<lparr>to_value := to_value out - thr\<rparr>) kept\<rparr>)"
    by (simp add: BitcoinTx_deduct_fee_def)
  then show ?thesis by (rule that [OF _ ms t big])
qed

text \<open>When every output can pay its share none is removed.\<close>

lemma deduct_fee_all:
  assumes "\<forall>out \<in> set (bt_output tx). fee div length (bt_output tx) + dust_value L (to_script_pubkey out) < to_value out"
    and "fee < 2 ^ 64" and "0 < fee" and "bt_output tx \<noteq> []"
  shows "BitcoinTx_deduct_fee L fee tx = Ok (tx\<lparr>bt_output :=
     map (\<lambda>out. out\<lparr>to_value := to_value out - fee div length (bt_output tx)\<rparr>) (rearrange (arrange_outputs L) (bt_output tx))\<rparr>)"
proof -
  let ?t = "fee div length (bt_output tx)"
  have adj: "\<forall>out \<in> set (bt_output tx). ?t < adjusted_output L out" using assms(1) by (auto simp: adjusted_output_def)
  then have f: "filter (\<lambda>out. ?t < adjusted_output L out) (bt_output tx) = bt_output tx" by simp
  have r: "retain_above L ?t (bt_output tx) = rearrange (arrange_outputs L) (bt_output tx)" by (simp only: retain_above_def f)
  have ne: "rearrange (arrange_outputs L) (bt_output tx) \<noteq> []" using assms(4) by (metis length_0_conv length_rearrange)
  have "?t < 2 ^ 64" using assms(2) by (rule le_less_trans [OF div_le_dividend])
  then have "?t \<le> min_output L (bt_output tx)" using adj by (intro min_output_ge) auto
  then have "deduct_loop L fee (bt_output tx) = Ok (?t, rearrange (arrange_outputs L) (bt_output tx))"
    using assms(4) ne by (subst deduct_loop.simps) (simp add: div_u_def r Let_def)
  moreover have "\<forall>out \<in> set (rearrange (arrange_outputs L) (bt_output tx)). ?t \<le> to_value out" using assms(1) by auto
  note deduct_from_all [OF this]
  ultimately show ?thesis using assms(3,4) by (simp add: BitcoinTx_deduct_fee_def)
qed

lemma deduct_fee_single:
  assumes "bt_output tx = [out]" and "0 < fee" and "fee < 2 ^ 64"
  shows "BitcoinTx_deduct_fee L fee tx = Ok (tx\<lparr>bt_output :=
    if fee + dust_value L (to_script_pubkey out) < to_value out then [out\<lparr>to_value := to_value out - fee\<rparr>] else []\<rparr>)"
proof (cases "fee + dust_value L (to_script_pubkey out) < to_value out")
  case True
  moreover have "rearrange (arrange_outputs L) [out] = [out]"
    using length_rearrange [of "arrange_outputs L" "[out]"] set_rearrange [of "arrange_outputs L" "[out]"]
    by (cases "rearrange (arrange_outputs L) [out]") auto
  ultimately show ?thesis using deduct_fee_all [of tx fee L] assms by simp
next
  case False
  obtain thr kept where d: "BitcoinTx_deduct_fee L fee tx =
       Ok (tx\<lparr>bt_output := map (\<lambda>out. out\<lparr>to_value := to_value out - thr\<rparr>) kept\<rparr>)"
    and ms: "mset kept = filter_mset (\<lambda>out. adjusted_output L out > thr) (mset (bt_output tx))"
    and t: "kept \<noteq> [] \<longrightarrow> thr = fee div length kept"
    and big: "\<forall>out \<in> set kept. to_value out > thr + dust_value L (to_script_pubkey out)"
    by (rule deduct_fee_closed [of fee tx L]) (use assms in auto)
  have "kept = []"
  proof (rule ccontr)
    assume ne: "kept \<noteq> []"
    from ms assms(1) ne have "mset kept = {#out#}" by (auto split: if_splits)
    then have "kept = [out]" by (metis mset_single_iff)
    with t big False show False by simp
  qed
  with d False show ?thesis by simp
qed

abbreviation outputs_value :: "txout list \<Rightarrow> nat" where
  "outputs_value outs \<equiv> sum_list (map to_value outs)"

lemma BitcoinTx_value_Ok:
  "BitcoinTx_value tx = Ok v \<longleftrightarrow> v = outputs_value (bt_output tx) \<and> (v < 2 ^ 64 \<or> bt_output tx = [])"
proof -
  have "fold_result (\<lambda>sum out. add_u64 sum (to_value out)) a outs = Ok v
      \<longleftrightarrow> v = a + outputs_value outs \<and> (v < 2 ^ 64 \<or> outs = [])" for a outs
  proof (induction outs arbitrary: a)
    case (Cons x outs)
    have "fold_result (\<lambda>sum out. add_u64 sum (to_value out)) a (x # outs) = Ok v
        \<longleftrightarrow> a + to_value x < 2 ^ 64 \<and> fold_result (\<lambda>sum out. add_u64 sum (to_value out)) (a + to_value x) outs = Ok v"
      by auto
    then show ?case by (auto simp: Cons.IH)
  qed auto
  then show ?thesis by (simp add: BitcoinTx_value_def)
qed


lemma outputs_value_mset: "mset xs = mset ys \<Longrightarrow> outputs_value xs = outputs_value ys"
  by (simp flip: sum_mset_sum_list)

section \<open>Properties\<close>


definition demo_tx_lib :: tx_lib where
  "demo_tx_lib = script_lib.extend demo_script_lib
     \<lparr>tx_vsize = (\<lambda>tx. 100), tx_txid = (\<lambda>tx. [1]), segwit_signature_hash = (\<lambda>tx i script amount. Ok [7]),
      dust_value = (\<lambda>script. 10), new_op_return = (\<lambda>b. b), arrange_outputs = rev,
      visit_txs = (\<lambda>txs. txs), arrange_txs = rev\<rparr>"


text \<open>
  A fee above the value of all outputs is not refused, as the documentation of \<open>deduct_fee\<close>
  says: the call succeeds and removes every output.
\<close>

theorem deduct_fee_above_value_removes_all:
  assumes "outputs_value (bt_output tx) < fee" and "fee < 2 ^ 64" and "bt_output tx \<noteq> []"
  shows "BitcoinTx_deduct_fee L fee tx = Ok (tx\<lparr>bt_output := []\<rparr>)"
proof -
  have "0 < fee" using assms(1) by simp
  then obtain thr kept where d: "BitcoinTx_deduct_fee L fee tx =
       Ok (tx\<lparr>bt_output := map (\<lambda>out. out\<lparr>to_value := to_value out - thr\<rparr>) kept\<rparr>)"
    and ms: "mset kept = filter_mset (\<lambda>out. adjusted_output L out > thr) (mset (bt_output tx))"
    and t: "kept \<noteq> [] \<longrightarrow> thr = fee div length kept"
    and big: "\<forall>out \<in> set kept. to_value out > thr + dust_value L (to_script_pubkey out)"
    by (rule deduct_fee_closed [OF _ assms(2,3)])
  have "kept = []"
  proof (rule ccontr)
    assume ne: "kept \<noteq> []"
    have "outputs_value kept \<le> outputs_value (bt_output tx)"
    proof -
      have "mset kept \<subseteq># mset (bt_output tx)" unfolding ms by (rule multiset_filter_subset)
      then have "mset (bt_output tx) = mset kept + (mset (bt_output tx) - mset kept)" by simp
      then have "(\<Sum>x\<in>#mset (bt_output tx). to_value x)
          = (\<Sum>x\<in>#mset kept. to_value x) + (\<Sum>x\<in>#mset (bt_output tx) - mset kept. to_value x)"
        by (metis image_mset_union sum_mset.union)
      then show ?thesis by (simp flip: sum_mset_sum_list)
    qed
    moreover have "(thr + 1) * length kept \<le> outputs_value kept"
      using big by (induction kept) auto
    moreover have "fee < (thr + 1) * length kept"
      using t ne dividend_less_times_div [of "length kept" fee] by (simp add: mult.commute)
    ultimately show False using assms(1) by simp
  qed
  with d show ?thesis by simp
qed

theorem deduct_fee_above_value_removes_all_witness:
  "BitcoinTx_deduct_fee demo_tx_lib 200 (BitcoinTx_default\<lparr>bt_output := [\<lparr>to_value = 100, to_script_pubkey = [1]\<rparr>]\<rparr>)
   = Ok BitcoinTx_default"
  using deduct_fee_above_value_removes_all
    [of "BitcoinTx_default\<lparr>bt_output := [\<lparr>to_value = 100, to_script_pubkey = [1]\<rparr>]\<rparr>" 200 demo_tx_lib]
  by (simp add: BitcoinTx_default_def)

end
