(* ===== verification/Dest.thy ===== *)
theory Dest
  imports Bitcoin_Tx
begin

text \<open>
  Destinations of nBTC and the identities that send it (src/src/app.rs), with the commitments that
  tie a deposit address to a destination. Encodings derived by orga, hashing and the parsers of
  the IBC crate are parameters (\<open>dest_lib\<close>). The default features are modelled, so there are no
  Ethereum or Babylon destinations.
\<close>

section \<open>Destinations\<close>

record ibc_dest =
  ib_source_port :: string
  ib_source_channel :: string
  ib_receiver :: string
  ib_sender :: string
  ib_timeout_timestamp :: u64
  ib_memo :: string

datatype dest =
    NativeAccount address
  | Ibc_dest ibc_dest
  | RewardPool
  | Bitcoin_dest bytes
  | AdjustEmergencyDisbursalBalance bytes int

datatype identity = Identity_None | Identity_NativeAccount address

record dest_lib = tx_lib +
  dest_encode :: "dest \<Rightarrow> bytes result"
  pending_order :: "dest \<times> identity \<Rightarrow> bytes"  \<comment> \<open>the encoded map key\<close>
  sha256 :: "bytes \<Rightarrow> bytes"
  encode_string8 :: "string \<Rightarrow> bytes result"
  encode_signer :: "string \<Rightarrow> bytes result"
  encode_u64 :: "u64 \<Rightarrow> bytes result"
  parse_address :: "string \<Rightarrow> address result"
  parse_channel :: "string \<Rightarrow> string option"  \<comment> \<open>the parsed channel id, printed\<close>
  parse_port :: "string \<Rightarrow> string option"

definition OSMOSIS_CHANNEL_ID :: string where "OSMOSIS_CHANNEL_ID = ''channel-1''"

definition IbcDest_source_channel :: "'m dest_lib_scheme \<Rightarrow> ibc_dest \<Rightarrow> string result" where
  "IbcDest_source_channel L d = ok_or (Ibc ''Invalid channel id'') (parse_channel L (ib_source_channel d))"

definition IbcDest_source_port :: "'m dest_lib_scheme \<Rightarrow> ibc_dest \<Rightarrow> string result" where
  "IbcDest_source_port L d = ok_or (Ibc ''Invalid port id'') (parse_port L (ib_source_port d))"

definition IbcDest_sender_address :: "'m dest_lib_scheme \<Rightarrow> ibc_dest \<Rightarrow> address result" where
  "IbcDest_sender_address L d = parse_address L (ib_sender d)"

definition IbcDest_is_fee_exempt :: "'m dest_lib_scheme \<Rightarrow> ibc_dest \<Rightarrow> bool" where
  "IbcDest_is_fee_exempt L d =
     (case IbcDest_source_channel L d of Err _ \<Rightarrow> False | Ok channel \<Rightarrow> channel = OSMOSIS_CHANNEL_ID)"

definition IbcDest_validate :: "'m dest_lib_scheme \<Rightarrow> ibc_dest \<Rightarrow> unit result" where
  "IbcDest_validate L d =
     rbind (IbcDest_source_port L d) (\<lambda>_.
     rbind (IbcDest_source_channel L d) (\<lambda>_.
     rbind (IbcDest_sender_address L d) (\<lambda>_. Ok ())))"

definition IbcDest_legacy_encode :: "'m dest_lib_scheme \<Rightarrow> ibc_dest \<Rightarrow> bytes result" where
  "IbcDest_legacy_encode L d =
     rbind (encode_string8 L (ib_source_port d)) (\<lambda>port.
     rbind (encode_string8 L (ib_source_channel d)) (\<lambda>channel.
     rbind (encode_signer L (ib_receiver d)) (\<lambda>receiver.
     rbind (encode_signer L (ib_sender d)) (\<lambda>sender.
     rbind (encode_u64 L (ib_timeout_timestamp d)) (\<lambda>timeout.
     rbind (encode_string8 L (ib_memo d)) (\<lambda>memo.
     Ok (port @ channel @ receiver @ sender @ timeout @ memo)))))))"

definition Dest_commitment_bytes :: "'m dest_lib_scheme \<Rightarrow> dest \<Rightarrow> bytes result" where
  "Dest_commitment_bytes L d =
     rbind (dest_encode L d) (\<lambda>bs. Ok (0 # sha256 L bs))"

definition Dest_legacy_commitment_bytes :: "'m dest_lib_scheme \<Rightarrow> dest \<Rightarrow> bytes result" where
  "Dest_legacy_commitment_bytes L d =
     (case d of
        NativeAccount addr \<Rightarrow> Ok addr
      | Ibc_dest data \<Rightarrow> rbind (IbcDest_legacy_encode L data) (\<lambda>bs. Ok (sha256 L bs))
      | _ \<Rightarrow> Err (App ''Invalid dest for legacy commitment''))"

definition Dest_to_output_script :: "(address \<times> bytes) list \<Rightarrow> dest \<Rightarrow> bytes option" where
  "Dest_to_output_script recovery_scripts d =
     (case d of NativeAccount addr \<Rightarrow> map_of recovery_scripts addr | _ \<Rightarrow> None)"

definition Dest_is_fee_exempt :: "'m dest_lib_scheme \<Rightarrow> dest \<Rightarrow> bool" where
  "Dest_is_fee_exempt L d = (case d of Ibc_dest data \<Rightarrow> IbcDest_is_fee_exempt L data | _ \<Rightarrow> False)"

definition Identity_from_signer :: "ctx \<Rightarrow> identity result" where
  "Identity_from_signer C =
     rbind (ok_or (SignerErr ''No Signer context available'') (cx_signer C)) (\<lambda>signer.
     Ok (case signer of None \<Rightarrow> Identity_None | Some addr \<Rightarrow> Identity_NativeAccount addr))"

section \<open>Commitments\<close>

text \<open>Documented sizes: a SHA-256 digest has 32 bytes, an address 20.\<close>

definition digest_law :: "'m dest_lib_scheme \<Rightarrow> bool" where
  "digest_law L \<longleftrightarrow> (\<forall>b. length (sha256 L b) = 32)"

definition address_sized :: "dest \<Rightarrow> bool" where
  "address_sized d = (case d of NativeAccount addr \<Rightarrow> length addr = 20 | _ \<Rightarrow> True)"

lemma commitment_length:
  "digest_law L \<Longrightarrow> Dest_commitment_bytes L d = Ok c \<Longrightarrow> length c = 33"
  by (auto simp: Dest_commitment_bytes_def digest_law_def)

lemma legacy_commitment_length:
  "digest_law L \<Longrightarrow> address_sized d \<Longrightarrow> Dest_legacy_commitment_bytes L d = Ok c \<Longrightarrow> length c = 20 \<or> length c = 32"
  by (auto simp: Dest_legacy_commitment_bytes_def digest_law_def address_sized_def split: dest.splits)

section \<open>A concrete instance\<close>

definition demo_dest_lib :: dest_lib where
  "demo_dest_lib = tx_lib.extend demo_tx_lib
     \<lparr>dest_encode = (\<lambda>d. case d of NativeAccount a \<Rightarrow> Ok (0 # a) | Bitcoin_dest s \<Rightarrow> Ok (3 # s) | _ \<Rightarrow> Ok [2]),
      pending_order = (\<lambda>(d, i). (case d of NativeAccount a \<Rightarrow> 0 # a | Bitcoin_dest s \<Rightarrow> 3 # s | _ \<Rightarrow> [2])
         @ (case i of Identity_None \<Rightarrow> [0] | Identity_NativeAccount a \<Rightarrow> 1 # a)),
      sha256 = (\<lambda>b. take 32 (b @ replicate 32 0)),
      encode_string8 = (\<lambda>s. Ok (map (\<lambda>c. of_nat (of_char c)) s)), encode_signer = (\<lambda>s. Ok (map (\<lambda>c. of_nat (of_char c)) s)),
      encode_u64 = (\<lambda>n. Ok [of_nat n]), parse_address = (\<lambda>s. Ok (replicate 20 0)),
      parse_channel = Some, parse_port = Some\<rparr>"

section \<open>Properties\<close>

text \<open>
  The current and the legacy commitment of destinations can never be taken for one another:
  whatever two destinations are compared, the bytes differ (the relay tries both on a deposit).
\<close>

theorem commitments_separate:
  assumes "digest_law L" and "address_sized d'"
    and "Dest_commitment_bytes L d = Ok c" and "Dest_legacy_commitment_bytes L d' = Ok c'"
  shows "c \<noteq> c'"
  using commitment_length [OF assms(1,3)] legacy_commitment_length [OF assms(1,2,4)] by auto

theorem commitments_separate_witness:
  "\<exists>c c'. Dest_commitment_bytes demo_dest_lib (NativeAccount (replicate 20 1)) = Ok c
    \<and> Dest_legacy_commitment_bytes demo_dest_lib (NativeAccount (replicate 20 1)) = Ok c' \<and> c \<noteq> c'"
proof -
  let ?d = "NativeAccount (replicate 20 1)"
  have law: "digest_law demo_dest_lib" by (auto simp: digest_law_def demo_dest_lib_def tx_lib.defs min_def)
  have sized: "address_sized ?d" by (simp add: address_sized_def)
  obtain c where c: "Dest_commitment_bytes demo_dest_lib ?d = Ok c"
    by (simp add: Dest_commitment_bytes_def demo_dest_lib_def tx_lib.defs)
  obtain c' where c': "Dest_legacy_commitment_bytes demo_dest_lib ?d = Ok c'"
    by (simp add: Dest_legacy_commitment_bytes_def)
  from commitments_separate [OF law sized c c'] c c' show ?thesis by blast
qed

end
