(* ===== verification/Checkpoint.thy ===== *)
theory Checkpoint
  imports Dest
begin

text \<open>
  Checkpoints (src/src/bitcoin/checkpoint.rs): batches of transactions that are signed in order,
  their configuration, construction, signing and size estimates.
\<close>

section \<open>Configuration\<close>

record checkpoint_config =
  cc_min_checkpoint_interval :: u64
  cc_max_checkpoint_interval :: u64
  cc_max_inputs :: u64
  cc_max_outputs :: u64
  cc_max_age :: u64
  cc_target_checkpoint_inclusion :: u32
  cc_min_fee_rate :: u64
  cc_max_fee_rate :: u64
  cc_user_fee_factor :: u64
  cc_sigset_threshold :: "u64 \<times> u64"
  cc_emergency_disbursal_min_tx_amt :: u64
  cc_emergency_disbursal_lock_time_interval :: u32
  cc_emergency_disbursal_max_tx_size :: u64
  cc_max_unconfirmed_checkpoints :: u32
  cc_wait_to_collect_fees :: bool

definition CheckpointConfig_bitcoin :: checkpoint_config where
  "CheckpointConfig_bitcoin =
     \<lparr>cc_min_checkpoint_interval = 60 * 5, cc_max_checkpoint_interval = 60 * 60 * 8, cc_max_inputs = 40,
      cc_max_outputs = 200, cc_max_age = 60 * 60 * 24 * 7 * 3, cc_target_checkpoint_inclusion = 2,
      cc_min_fee_rate = 2, cc_max_fee_rate = 200, cc_user_fee_factor = 21000,
      cc_sigset_threshold = SIGSET_THRESHOLD, cc_emergency_disbursal_min_tx_amt = 1000,
      cc_emergency_disbursal_lock_time_interval = 60 * 60 * 24 * 7,
      cc_emergency_disbursal_max_tx_size = 50000, cc_max_unconfirmed_checkpoints = 15,
      cc_wait_to_collect_fees = True\<rparr>"

definition CheckpointConfig_regtest :: checkpoint_config where
  "CheckpointConfig_regtest = CheckpointConfig_bitcoin
     \<lparr>cc_min_checkpoint_interval := 15, cc_emergency_disbursal_lock_time_interval := 60,
      cc_emergency_disbursal_max_tx_size := 11, cc_user_fee_factor := 20000,
      cc_max_age := 60 * 60 * 24 * 7 * 3\<rparr>"

text \<open>With the default features \<open>NETWORK\<close> is not \<open>Regtest\<close>.\<close>

definition CheckpointConfig_default :: checkpoint_config where
  "CheckpointConfig_default = CheckpointConfig_bitcoin"

section \<open>Checkpoints\<close>

datatype checkpoint_status = Building | Signing | Complete

datatype batch_type = Disbursal | IntermediateTx | Checkpoint_batch

fun batch_index :: "batch_type \<Rightarrow> nat" where
  "batch_index Disbursal = 0"
| "batch_index IntermediateTx = 1"
| "batch_index Checkpoint_batch = 2"

record batch =
  ba_batch :: "bitcoin_tx list"
  ba_signed_txs :: u16

definition Batch_default :: batch where
  "Batch_default = \<lparr>ba_batch = [], ba_signed_txs = 0\<rparr>"

definition Batch_signed :: "batch \<Rightarrow> bool" where
  "Batch_signed b \<longleftrightarrow> ba_signed_txs b = length (ba_batch b)"

definition DEFAULT_FEE_RATE :: u64 where "DEFAULT_FEE_RATE = 10"

type_synonym pending_map = "((dest \<times> identity) \<times> nat) list"

record checkpoint =
  cp_status :: checkpoint_status
  cp_batches :: "batch list"
  cp_pending :: pending_map
  cp_fee_rate :: u64
  cp_signed_at_btc_height :: "u32 option"
  cp_deposits_enabled :: bool
  cp_fees_collected :: u64
  cp_sigset :: signatory_set

definition Checkpoint_new :: "signatory_set \<Rightarrow> checkpoint" where
  "Checkpoint_new sigset =
     \<lparr>cp_status = Building,
      cp_batches = [Batch_default, Batch_default\<lparr>ba_batch := [BitcoinTx_default]\<rparr>,
                    Batch_default\<lparr>ba_batch := [BitcoinTx_default]\<rparr>],
      cp_pending = [], cp_fee_rate = DEFAULT_FEE_RATE, cp_signed_at_btc_height = None,
      cp_deposits_enabled = True, cp_fees_collected = 0, cp_sigset = sigset\<rparr>"

text \<open>The number of fully signed batches before the first unsigned one.\<close>

definition Checkpoint_signed_batches :: "checkpoint \<Rightarrow> u64" where
  "Checkpoint_signed_batches cp = length (takeWhile Batch_signed (cp_batches cp))"

definition Checkpoint_signed :: "checkpoint \<Rightarrow> bool" where
  "Checkpoint_signed cp \<longleftrightarrow> Checkpoint_signed_batches cp = length (cp_batches cp)"

text \<open>\<open>self.batches.get(i)?.unwrap()\<close> and \<open>batch.get(0)?.unwrap()\<close>\<close>

definition get_batch :: "batch_type \<Rightarrow> checkpoint \<Rightarrow> batch result" where
  "get_batch b cp = (if batch_index b < length (cp_batches cp)
     then Ok (cp_batches cp ! batch_index b) else Err Panic)"

definition get_tx :: "batch \<Rightarrow> bitcoin_tx result" where
  "get_tx b = (case ba_batch b of [] \<Rightarrow> Err Panic | tx # _ \<Rightarrow> Ok tx)"

definition set_batch :: "batch_type \<Rightarrow> batch \<Rightarrow> checkpoint \<Rightarrow> checkpoint" where
  "set_batch i b cp = cp\<lparr>cp_batches := (cp_batches cp)[batch_index i := b]\<rparr>"

definition set_tx :: "bitcoin_tx \<Rightarrow> batch \<Rightarrow> batch" where
  "set_tx tx b = b\<lparr>ba_batch := (ba_batch b)[0 := tx]\<rparr>"

definition Checkpoint_current_batch :: "checkpoint \<Rightarrow> batch option result" where
  "Checkpoint_current_batch cp =
     (if Checkpoint_signed cp then Ok None
      else if Checkpoint_signed_batches cp < length (cp_batches cp)
      then Ok (Some (cp_batches cp ! Checkpoint_signed_batches cp)) else Err Panic)"

definition Checkpoint_create_time :: "checkpoint \<Rightarrow> u64" where
  "Checkpoint_create_time cp = ss_create_time (cp_sigset cp)"

definition Checkpoint_checkpoint_tx :: "'m tx_lib_scheme \<Rightarrow> checkpoint \<Rightarrow> transaction result" where
  "Checkpoint_checkpoint_tx L cp =
     rbind (get_batch Checkpoint_batch cp) (\<lambda>b. rbind (get_tx b) (BitcoinTx_to_bitcoin_tx L))"

definition Checkpoint_checkpoint_txs :: "'m tx_lib_scheme \<Rightarrow> checkpoint \<Rightarrow> transaction list result" where
  "Checkpoint_checkpoint_txs L cp =
     rbind (get_batch Checkpoint_batch cp) (\<lambda>b. map_result (BitcoinTx_to_bitcoin_tx L) (ba_batch b))"

definition Checkpoint_reserve_output :: "'m tx_lib_scheme \<Rightarrow> checkpoint \<Rightarrow> txout option result" where
  "Checkpoint_reserve_output L cp =
     rbind (Checkpoint_checkpoint_tx L cp) (\<lambda>tx.
     Ok (case tr_output tx of [] \<Rightarrow> None | out # _ \<Rightarrow> Some out))"

definition Checkpoint_emergency_disbursal_txs :: "'m tx_lib_scheme \<Rightarrow> checkpoint \<Rightarrow> transaction list result" where
  "Checkpoint_emergency_disbursal_txs L cp =
     rbind (get_batch IntermediateTx cp) (\<lambda>b.
     case ba_batch b of
       [] \<Rightarrow> Ok []
     | intermediate_tx # _ \<Rightarrow>
         rbind (BitcoinTx_to_bitcoin_tx L intermediate_tx) (\<lambda>tx.
         rbind (get_batch Disbursal cp) (\<lambda>d.
         rbind (map_result (BitcoinTx_to_bitcoin_tx L) (ba_batch d)) (\<lambda>txs. Ok (tx # txs)))))"

definition Checkpoint_checkpoint_tx_miner_fees :: "checkpoint \<Rightarrow> u64 result" where
  "Checkpoint_checkpoint_tx_miner_fees cp =
     rbind (get_batch Checkpoint_batch cp) (\<lambda>b.
     rbind (get_tx b) (\<lambda>tx.
     rbind (fold_result (\<lambda>fees input. add_u64 fees (in_amount input)) 0 (bt_input tx)) (\<lambda>fees.
     fold_result (\<lambda>fees out. sub_u fees (to_value out)) fees (bt_output tx))))"

definition Checkpoint_additional_outputs ::
  "'m tx_lib_scheme \<Rightarrow> checkpoint_config \<Rightarrow> bytes \<Rightarrow> checkpoint \<Rightarrow> txout list result" where
  "Checkpoint_additional_outputs L config timestamping_commitment cp =
     rbind (SignatorySet_output_script L (cp_sigset cp) [0] (cc_sigset_threshold config)) (\<lambda>script.
     Ok [\<lparr>to_value = 0, to_script_pubkey = script\<rparr>,
         \<lparr>to_value = 0, to_script_pubkey = new_op_return L timestamping_commitment\<rparr>])"

definition Checkpoint_est_vsize ::
  "'m tx_lib_scheme \<Rightarrow> checkpoint_config \<Rightarrow> bytes \<Rightarrow> checkpoint \<Rightarrow> u64 result" where
  "Checkpoint_est_vsize L config timestamping_commitment cp =
     rbind (get_batch Checkpoint_batch cp) (\<lambda>b.
     rbind (get_tx b) (\<lambda>c.
     rbind (BitcoinTx_to_bitcoin_tx L c) (\<lambda>tx.
     rbind (Checkpoint_additional_outputs L config timestamping_commitment cp) (\<lambda>additional.
     let tx = tx\<lparr>tr_output := take (cc_max_outputs config) (additional @ tr_output tx),
                 tr_input := take (cc_max_inputs config) (tr_input tx)\<rparr> in
     rbind (witness_vsizes (take (cc_max_inputs config) (bt_input c))) (\<lambda>w.
     add_u64 (tx_vsize L tx) w)))))"

definition Checkpoint_base_fee ::
  "'m tx_lib_scheme \<Rightarrow> checkpoint_config \<Rightarrow> bytes \<Rightarrow> checkpoint \<Rightarrow> u64 result" where
  "Checkpoint_base_fee L config timestamping_commitment cp =
     rbind (Checkpoint_est_vsize L config timestamping_commitment cp) (\<lambda>est_vsize.
     mul_u64 est_vsize (cp_fee_rate cp))"

section \<open>Signing\<close>

text \<open>
  The signatures a signatory must supply for a list of inputs, transactions and batches. The
  source's \<open>sig_index\<close> is the number of signatures taken so far; here the ones not yet taken are
  passed along.
\<close>

definition sign_input ::
  "'m script_lib_scheme \<Rightarrow> xpub \<Rightarrow> signature list \<Rightarrow> input \<Rightarrow> (signature list \<times> bool \<times> input) result" where
  "sign_input L xpub sigs input =
     rbind (derive_pubkey L xpub (in_sigset_index input)) (\<lambda>pubkey.
     if \<not> ThresholdSig_needs_sig (in_signatures input) pubkey then Ok (sigs, False, input)
     else case sigs of
       [] \<Rightarrow> Err (App ''Not enough signatures supplied'')
     | sig # sigs \<Rightarrow>
         let input_was_signed = ThresholdSig_signed (in_signatures input) in
         rbind (ThresholdSig_sign L pubkey sig (in_signatures input)) (\<lambda>ts.
         Ok (sigs, \<not> input_was_signed \<and> ThresholdSig_signed ts, input\<lparr>in_signatures := ts\<rparr>)))"

fun sign_inputs ::
  "'m script_lib_scheme \<Rightarrow> xpub \<Rightarrow> signature list \<Rightarrow> u16 \<Rightarrow> input list
     \<Rightarrow> (signature list \<times> u16 \<times> input list) result" where
  "sign_inputs L xpub sigs n [] = Ok (sigs, n, [])"
| "sign_inputs L xpub sigs n (input # inputs) =
     rbind (sign_input L xpub sigs input) (\<lambda>(sigs, newly, input).
     rbind (if newly then add_u16 n 1 else Ok n) (\<lambda>n.
     rbind (sign_inputs L xpub sigs n inputs) (\<lambda>(sigs, n, inputs).
     Ok (sigs, n, input # inputs))))"

definition sign_tx ::
  "'m script_lib_scheme \<Rightarrow> xpub \<Rightarrow> signature list \<Rightarrow> bitcoin_tx \<Rightarrow> (signature list \<times> bool \<times> bitcoin_tx) result" where
  "sign_tx L xpub sigs tx =
     (let tx_was_signed = BitcoinTx_signed tx in
      rbind (sign_inputs L xpub sigs (bt_signed_inputs tx) (bt_input tx)) (\<lambda>(sigs, n, inputs).
      let tx = tx\<lparr>bt_signed_inputs := n, bt_input := inputs\<rparr> in
      Ok (sigs, \<not> tx_was_signed \<and> BitcoinTx_signed tx, tx)))"

fun sign_txs ::
  "'m script_lib_scheme \<Rightarrow> xpub \<Rightarrow> signature list \<Rightarrow> u16 \<Rightarrow> bitcoin_tx list
     \<Rightarrow> (signature list \<times> u16 \<times> bitcoin_tx list) result" where
  "sign_txs L xpub sigs n [] = Ok (sigs, n, [])"
| "sign_txs L xpub sigs n (tx # txs) =
     rbind (sign_tx L xpub sigs tx) (\<lambda>(sigs, newly, tx).
     rbind (if newly then add_u16 n 1 else Ok n) (\<lambda>n.
     rbind (sign_txs L xpub sigs n txs) (\<lambda>(sigs, n, txs).
     Ok (sigs, n, tx # txs))))"

definition sign_batch ::
  "'m script_lib_scheme \<Rightarrow> xpub \<Rightarrow> signature list \<Rightarrow> batch \<Rightarrow> (signature list \<times> batch) result" where
  "sign_batch L xpub sigs b =
     rbind (sign_txs L xpub sigs (ba_signed_txs b) (ba_batch b)) (\<lambda>(sigs, n, txs).
     Ok (sigs, b\<lparr>ba_signed_txs := n, ba_batch := txs\<rparr>))"

fun sign_batches ::
  "'m script_lib_scheme \<Rightarrow> xpub \<Rightarrow> signature list \<Rightarrow> batch list \<Rightarrow> (signature list \<times> batch list) result" where
  "sign_batches L xpub sigs [] = Ok (sigs, [])"
| "sign_batches L xpub sigs (b # bs) =
     (let batch_was_signed = Batch_signed b in
      rbind (sign_batch L xpub sigs b) (\<lambda>(sigs, b).
      if \<not> batch_was_signed then Ok (sigs, b # bs)
      else rbind (sign_batches L xpub sigs bs) (\<lambda>(sigs, bs). Ok (sigs, b # bs))))"

definition Checkpoint_sign ::
  "'m script_lib_scheme \<Rightarrow> xpub \<Rightarrow> signature list \<Rightarrow> u32 \<Rightarrow> checkpoint \<Rightarrow> checkpoint result" where
  "Checkpoint_sign L xpub sigs btc_height cp =
     (let cp_was_signed = Checkpoint_signed cp in
      rbind (sign_batches L xpub sigs (cp_batches cp)) (\<lambda>(rest, batches).
      if rest \<noteq> [] then Err (App ''Excess signatures supplied'')
      else
      let cp = cp\<lparr>cp_batches := batches\<rparr> in
      if Checkpoint_signed cp \<and> \<not> cp_was_signed then Ok (cp\<lparr>cp_signed_at_btc_height := Some btc_height\<rparr>)
      else Ok cp))"

text \<open>What a signatory is asked to sign.\<close>

definition input_to_sign :: "'m script_lib_scheme \<Rightarrow> xpub \<Rightarrow> input \<Rightarrow> (message \<times> u32) list result" where
  "input_to_sign L xpub input =
     rbind (derive_pubkey L xpub (in_sigset_index input)) (\<lambda>pubkey.
     Ok (if ThresholdSig_needs_sig (in_signatures input) pubkey
         then [(ts_message (in_signatures input), in_sigset_index input)] else []))"

definition batch_to_sign :: "'m script_lib_scheme \<Rightarrow> xpub \<Rightarrow> batch \<Rightarrow> (message \<times> u32) list result" where
  "batch_to_sign L xpub b =
     rbind (map_result (\<lambda>tx. map_result (input_to_sign L xpub) (bt_input tx)) (ba_batch b)) (\<lambda>msgs.
     Ok (concat (map concat msgs)))"

fun batches_to_sign :: "'m script_lib_scheme \<Rightarrow> xpub \<Rightarrow> batch list \<Rightarrow> (message \<times> u32) list result" where
  "batches_to_sign L xpub [] = Ok []"
| "batches_to_sign L xpub (b # bs) =
     rbind (batch_to_sign L xpub b) (\<lambda>msgs.
     if \<not> Batch_signed b then Ok msgs
     else rbind (batches_to_sign L xpub bs) (\<lambda>more. Ok (msgs @ more)))"

definition Checkpoint_to_sign :: "'m script_lib_scheme \<Rightarrow> xpub \<Rightarrow> checkpoint \<Rightarrow> (message \<times> u32) list result" where
  "Checkpoint_to_sign L xpub cp = batches_to_sign L xpub (cp_batches cp)"


section \<open>Signing answers what was asked\<close>

text \<open>Each supplied signature verifies on the message asked for, under the key of its signatory set.\<close>

definition answers :: "'m script_lib_scheme \<Rightarrow> xpub \<Rightarrow> (message \<times> u32) list \<Rightarrow> signature list \<Rightarrow> bool" where
  "answers L xpub msgs sigs \<longleftrightarrow> list_all2 (\<lambda>(m, i) sig.
     \<exists>pk. derive_pubkey L xpub i = Ok pk \<and> sig_valid L m pk sig) msgs sigs"

lemma answers_append: "answers L xpub ms1 ss1 \<Longrightarrow> answers L xpub ms2 ss2 \<Longrightarrow> answers L xpub (ms1 @ ms2) (ss1 @ ss2)"
  unfolding answers_def by (rule list_all2_appendI)

lemma answers_Nil [simp]: "answers L xpub [] []"
  by (simp add: answers_def)

abbreviation input_signed :: "input \<Rightarrow> bool" where
  "input_signed i \<equiv> ThresholdSig_signed (in_signatures i)"

text \<open>What one call may do to an input.\<close>

definition input_step :: "'m script_lib_scheme \<Rightarrow> input \<Rightarrow> input \<Rightarrow> bool" where
  "input_step L i i' \<longleftrightarrow> (\<exists>ts. i' = i\<lparr>in_signatures := ts\<rparr>) \<and> (input_signed i \<longrightarrow> input_signed i')
     \<and> (ts_inv L (in_signatures i) \<longrightarrow> ts_inv L (in_signatures i'))"

lemma input_step_refl [simp]: "input_step L i i"
  by (auto simp: input_step_def intro: exI [of _ "in_signatures i"])

lemma sign_input_Ok:
  assumes "sign_input L xpub sigs i = Ok (sigs', newly, i')"
  shows "\<exists>msgs used. input_to_sign L xpub i = Ok msgs \<and> sigs = used @ sigs' \<and> answers L xpub msgs used"
    "input_step L i i'" "newly \<longleftrightarrow> \<not> input_signed i \<and> input_signed i'"
proof -
  from assms obtain pk where pk: "derive_pubkey L xpub (in_sigset_index i) = Ok pk"
    by (auto simp: sign_input_def)
  have "(\<exists>msgs used. input_to_sign L xpub i = Ok msgs \<and> sigs = used @ sigs' \<and> answers L xpub msgs used)
    \<and> input_step L i i' \<and> (newly \<longleftrightarrow> \<not> input_signed i \<and> input_signed i')"
  proof (cases "ThresholdSig_needs_sig (in_signatures i) pk")
    case False
    with assms pk show ?thesis by (simp add: sign_input_def input_to_sign_def)
  next
    case True
    with assms pk obtain sg ts where sigs: "sigs = sg # sigs'" and i': "i' = i\<lparr>in_signatures := ts\<rparr>"
      and ts: "ThresholdSig_sign L pk sg (in_signatures i) = Ok ts"
      and newly: "newly \<longleftrightarrow> \<not> input_signed i \<and> ThresholdSig_signed ts"
      by (cases sigs) (auto simp: sign_input_def Let_def)
    have "sig_valid L (ts_message (in_signatures i)) pk sg" using ts by (auto simp: ThresholdSig_sign_Ok)
    then have "input_to_sign L xpub i = Ok [(ts_message (in_signatures i), in_sigset_index i)]
        \<and> sigs = [sg] @ sigs' \<and> answers L xpub [(ts_message (in_signatures i), in_sigset_index i)] [sg]"
      using pk True sigs by (simp add: input_to_sign_def answers_def)
    moreover have "input_step L i i'"
      using i' ts.sign_complete [OF ts] ts.sign_inv [OF _ ts] by (auto simp: input_step_def)
    ultimately show ?thesis using newly i' by auto
  qed
  then show "\<exists>msgs used. input_to_sign L xpub i = Ok msgs \<and> sigs = used @ sigs' \<and> answers L xpub msgs used"
    "input_step L i i'" "newly \<longleftrightarrow> \<not> input_signed i \<and> input_signed i'" by blast+
qed

lemma sign_inputs_Ok:
  assumes "sign_inputs L xpub sigs n is = Ok (sigs', n', is')"
  shows "(\<exists>msgs used. map_result (input_to_sign L xpub) is = Ok msgs \<and> sigs = used @ sigs'
      \<and> answers L xpub (concat msgs) used)
    \<and> list_all2 (input_step L) is is'
    \<and> n' + length (filter input_signed is) = n + length (filter input_signed is')"
  using assms
proof (induction L xpub sigs n "is" arbitrary: sigs' n' is' rule: sign_inputs.induct)
  case (1 L xpub sigs n)
  then show ?case by auto
next
  case (2 L xpub sigs n i "is")
  from "2.prems" obtain s1 newly i' n1 is1 where i: "sign_input L xpub sigs i = Ok (s1, newly, i')"
    and n1: "n1 = (if newly then n + 1 else n)" and r: "sign_inputs L xpub s1 n1 is = Ok (sigs', n', is1)"
    and is': "is' = i' # is1"
    and step: "(if newly then add_u16 n 1 else Ok n) = Ok n1"
    by (auto split: if_splits)
  note i = sign_input_Ok [OF i] and raw = i
  from "2.IH" [OF raw refl refl step, of sigs' n' is1] r have
    IH: "\<exists>msgs used. map_result (input_to_sign L xpub) is = Ok msgs \<and> s1 = used @ sigs' \<and> answers L xpub (concat msgs) used"
    "list_all2 (input_step L) is is1" "n' + length (filter input_signed is) = n1 + length (filter input_signed is1)"
    by auto
  from i(1) IH(1) obtain m u ms us where "input_to_sign L xpub i = Ok m" "sigs = u @ s1" "answers L xpub m u"
    "map_result (input_to_sign L xpub) is = Ok ms" "s1 = us @ sigs'" "answers L xpub (concat ms) us" by blast
  then have "map_result (input_to_sign L xpub) (i # is) = Ok (m # ms)" "sigs = (u @ us) @ sigs'"
    "answers L xpub (concat (m # ms)) (u @ us)"
    by (auto intro: answers_append)
  then have "\<exists>msgs used. map_result (input_to_sign L xpub) (i # is) = Ok msgs \<and> sigs = used @ sigs'
      \<and> answers L xpub (concat msgs) used" by blast
  moreover have "n' + length (filter input_signed (i # is)) = n + length (filter input_signed is')"
    using IH(3) n1 i(2,3) is' by (auto simp: input_step_def split: if_splits)
  ultimately show ?case using i(2) IH(2) is' by simp
qed

section \<open>The counters are exact\<close>

definition tx_inv :: "'m script_lib_scheme \<Rightarrow> bitcoin_tx \<Rightarrow> bool" where
  "tx_inv L tx \<longleftrightarrow> list_all (\<lambda>i. ts_inv L (in_signatures i)) (bt_input tx)
     \<and> bt_signed_inputs tx = length (filter input_signed (bt_input tx))"

text \<open>A transaction without inputs counts as signed from the start and is never counted later.\<close>

definition counted :: "bitcoin_tx \<Rightarrow> bool" where
  "counted tx \<longleftrightarrow> BitcoinTx_signed tx \<and> bt_input tx \<noteq> []"

definition batch_inv :: "'m script_lib_scheme \<Rightarrow> batch \<Rightarrow> bool" where
  "batch_inv L b \<longleftrightarrow> list_all (tx_inv L) (ba_batch b) \<and> ba_signed_txs b = length (filter counted (ba_batch b))"

definition cp_inv :: "'m script_lib_scheme \<Rightarrow> checkpoint \<Rightarrow> bool" where
  "cp_inv L cp \<longleftrightarrow> list_all (batch_inv L) (cp_batches cp)"

lemma filter_length_eq: "length (filter P xs) = length xs \<longleftrightarrow> list_all P xs"
  by (metis filter_id_conv length_filter_less less_irrefl list_all_iff)

lemma BitcoinTx_signed_iff: "tx_inv L tx \<Longrightarrow> BitcoinTx_signed tx \<longleftrightarrow> list_all input_signed (bt_input tx)"
  by (simp add: tx_inv_def BitcoinTx_signed_def filter_length_eq)

definition tx_step :: "'m script_lib_scheme \<Rightarrow> bitcoin_tx \<Rightarrow> bitcoin_tx \<Rightarrow> bool" where
  "tx_step L tx tx' \<longleftrightarrow> bt_output tx' = bt_output tx \<and> bt_lock_time tx' = bt_lock_time tx
     \<and> list_all2 (input_step L) (bt_input tx) (bt_input tx')
     \<and> (tx_inv L tx \<longrightarrow> tx_inv L tx' \<and> (counted tx \<longrightarrow> counted tx'))"

lemma list_all2_input_step_inv:
  "list_all2 (input_step L) is is' \<Longrightarrow> list_all (\<lambda>i. ts_inv L (in_signatures i)) is
    \<Longrightarrow> list_all (\<lambda>i. ts_inv L (in_signatures i)) is'"
  by (induction rule: list_all2_induct) (auto simp: input_step_def)

lemma list_all2_input_step_signed:
  "list_all2 (input_step L) is is' \<Longrightarrow> list_all input_signed is \<Longrightarrow> list_all input_signed is'"
  by (induction rule: list_all2_induct) (auto simp: input_step_def)

lemma sign_tx_Ok:
  assumes "sign_tx L xpub sigs tx = Ok (sigs', newly, tx')"
  shows "\<exists>msgs used. map_result (input_to_sign L xpub) (bt_input tx) = Ok msgs \<and> sigs = used @ sigs'
      \<and> answers L xpub (concat msgs) used"
    "tx_step L tx tx'" "tx_inv L tx \<Longrightarrow> newly \<longleftrightarrow> \<not> counted tx \<and> counted tx'"
proof -
  from assms obtain n inputs where si: "sign_inputs L xpub sigs (bt_signed_inputs tx) (bt_input tx) = Ok (sigs', n, inputs)"
    and tx': "tx' = tx\<lparr>bt_signed_inputs := n, bt_input := inputs\<rparr>"
    and newly: "newly \<longleftrightarrow> \<not> BitcoinTx_signed tx \<and> BitcoinTx_signed tx'"
    by (auto simp: sign_tx_def Let_def)
  note s = sign_inputs_Ok [OF si]
  then show "\<exists>msgs used. map_result (input_to_sign L xpub) (bt_input tx) = Ok msgs \<and> sigs = used @ sigs'
      \<and> answers L xpub (concat msgs) used" by blast
  have steps: "list_all2 (input_step L) (bt_input tx) (bt_input tx')" using s tx' by simp
  have empty: "bt_input tx' = [] \<longleftrightarrow> bt_input tx = []" using steps by auto
  have inv: "tx_inv L tx'" if "tx_inv L tx"
    using that s tx' list_all2_input_step_inv [OF steps] by (simp add: tx_inv_def)
  have mono: "BitcoinTx_signed tx \<Longrightarrow> BitcoinTx_signed tx'" if "tx_inv L tx"
    using that inv [OF that] list_all2_input_step_signed [OF steps] by (simp add: BitcoinTx_signed_iff)
  show "tx_step L tx tx'"
    using steps inv mono empty tx' by (auto simp: tx_step_def counted_def)
  show "newly \<longleftrightarrow> \<not> counted tx \<and> counted tx'" if "tx_inv L tx"
    using newly empty mono [OF that] that inv [OF that] by (auto simp: counted_def BitcoinTx_signed_iff)
qed

lemma sign_txs_Ok:
  assumes "sign_txs L xpub sigs n txs = Ok (sigs', n', txs')"
  shows "(\<exists>msgs used. map_result (\<lambda>tx. map_result (input_to_sign L xpub) (bt_input tx)) txs = Ok msgs
      \<and> sigs = used @ sigs' \<and> answers L xpub (concat (map concat msgs)) used)
    \<and> list_all2 (tx_step L) txs txs'
    \<and> (list_all (tx_inv L) txs \<longrightarrow> n' + length (filter counted txs) = n + length (filter counted txs'))"
  using assms
proof (induction L xpub sigs n txs arbitrary: sigs' n' txs' rule: sign_txs.induct)
  case (1 L xpub sigs n)
  then show ?case by auto
next
  case (2 L xpub sigs n tx txs)
  from "2.prems" obtain s1 newly tx' n1 txs1 where t: "sign_tx L xpub sigs tx = Ok (s1, newly, tx')"
    and n1: "n1 = (if newly then n + 1 else n)" and r: "sign_txs L xpub s1 n1 txs = Ok (sigs', n', txs1)"
    and txs': "txs' = tx' # txs1"
    and step: "(if newly then add_u16 n 1 else Ok n) = Ok n1"
    by (auto split: if_splits)
  note t = sign_tx_Ok [OF t] and raw = t
  from "2.IH" [OF raw refl refl step, of sigs' n' txs1] r have
    IH: "\<exists>msgs used. map_result (\<lambda>tx. map_result (input_to_sign L xpub) (bt_input tx)) txs = Ok msgs
        \<and> s1 = used @ sigs' \<and> answers L xpub (concat (map concat msgs)) used"
    "list_all2 (tx_step L) txs txs1"
    "list_all (tx_inv L) txs \<longrightarrow> n' + length (filter counted txs) = n1 + length (filter counted txs1)"
    by auto
  from t(1) IH(1) obtain m u ms us where "map_result (input_to_sign L xpub) (bt_input tx) = Ok m" "sigs = u @ s1"
    "answers L xpub (concat m) u" "map_result (\<lambda>tx. map_result (input_to_sign L xpub) (bt_input tx)) txs = Ok ms"
    "s1 = us @ sigs'" "answers L xpub (concat (map concat ms)) us" by blast
  then have "map_result (\<lambda>tx. map_result (input_to_sign L xpub) (bt_input tx)) (tx # txs) = Ok (m # ms)"
    "sigs = (u @ us) @ sigs'" "answers L xpub (concat (map concat (m # ms))) (u @ us)"
    by (auto intro: answers_append)
  then have "\<exists>msgs used. map_result (\<lambda>tx. map_result (input_to_sign L xpub) (bt_input tx)) (tx # txs) = Ok msgs
      \<and> sigs = used @ sigs' \<and> answers L xpub (concat (map concat msgs)) used" by blast
  moreover have "n' + length (filter counted (tx # txs)) = n + length (filter counted txs')"
    if "list_all (tx_inv L) (tx # txs)"
    using IH(3) n1 t(2,3) txs' that by (auto simp: tx_step_def split: if_splits)
  ultimately show ?case using t(2) IH(2) txs' by simp
qed

definition batch_step :: "'m script_lib_scheme \<Rightarrow> batch \<Rightarrow> batch \<Rightarrow> bool" where
  "batch_step L b b' \<longleftrightarrow> list_all2 (tx_step L) (ba_batch b) (ba_batch b')
     \<and> (batch_inv L b \<longrightarrow> batch_inv L b' \<and> (Batch_signed b \<longrightarrow> Batch_signed b'))"

lemma list_all2_tx_step:
  "list_all2 (tx_step L) txs txs' \<Longrightarrow> list_all (tx_inv L) txs \<Longrightarrow>
   list_all (tx_inv L) txs' \<and> (list_all counted txs \<longrightarrow> list_all counted txs')"
  by (induction rule: list_all2_induct) (auto simp: tx_step_def)

lemma Batch_signed_iff: "batch_inv L b \<Longrightarrow> Batch_signed b \<longleftrightarrow> list_all counted (ba_batch b)"
  by (simp add: batch_inv_def Batch_signed_def filter_length_eq)

lemma sign_batch_Ok:
  assumes "sign_batch L xpub sigs b = Ok (sigs', b')"
  shows "\<exists>msgs used. batch_to_sign L xpub b = Ok msgs \<and> sigs = used @ sigs' \<and> answers L xpub msgs used"
    "batch_step L b b'"
proof -
  from assms obtain n txs where st: "sign_txs L xpub sigs (ba_signed_txs b) (ba_batch b) = Ok (sigs', n, txs)"
    and b': "b' = b\<lparr>ba_signed_txs := n, ba_batch := txs\<rparr>"
    by (auto simp: sign_batch_def)
  note s = sign_txs_Ok [OF st]
  then show "\<exists>msgs used. batch_to_sign L xpub b = Ok msgs \<and> sigs = used @ sigs' \<and> answers L xpub msgs used"
    by (auto simp: batch_to_sign_def)
  have steps: "list_all2 (tx_step L) (ba_batch b) (ba_batch b')" using s b' by simp
  have inv: "batch_inv L b'" if "batch_inv L b"
    using that s b' list_all2_tx_step [OF steps] by (auto simp: batch_inv_def)
  moreover have "Batch_signed b'" if "batch_inv L b" "Batch_signed b"
    using that inv [OF that(1)] list_all2_tx_step [OF steps] by (auto simp: Batch_signed_iff batch_inv_def)
  ultimately show "batch_step L b b'" using steps by (simp add: batch_step_def)
qed

text \<open>The batches after the first unsigned one are not touched.\<close>

lemma sign_batches_Ok:
  assumes "sign_batches L xpub sigs bs = Ok (sigs', bs')"
  shows "(\<exists>msgs used. batches_to_sign L xpub bs = Ok msgs \<and> sigs = used @ sigs' \<and> answers L xpub msgs used)
    \<and> list_all2 (\<lambda>b b'. b' = b \<or> batch_step L b b') bs bs'
    \<and> (\<forall>i. length (takeWhile Batch_signed bs) < i \<longrightarrow> i < length bs \<longrightarrow> bs' ! i = bs ! i)"
  using assms
proof (induction L xpub sigs bs arbitrary: sigs' bs' rule: sign_batches.induct)
  case (1 L xpub sigs)
  then show ?case by auto
next
  case (2 L xpub sigs b bs)
  from "2.prems" obtain s1 b' where sb: "sign_batch L xpub sigs b = Ok (s1, b')"
    by (auto simp: Let_def)
  note s = sign_batch_Ok [OF sb]
  show ?case
  proof (cases "Batch_signed b")
    case False
    with "2.prems" sb have eq: "sigs' = s1" "bs' = b' # bs" by (auto simp: Let_def)
    have "list_all2 (\<lambda>b b'. b' = b \<or> batch_step L b b') bs bs" by (simp add: list_all2_refl)
    moreover have "(b' # bs) ! i = (b # bs) ! i" if "0 < i" for i using that by (cases i) auto
    ultimately show ?thesis using False s eq by auto
  next
    case True
    with "2.prems" sb obtain bs1 where r: "sign_batches L xpub s1 bs = Ok (sigs', bs1)" and bs': "bs' = b' # bs1"
      by (auto simp: Let_def)
    from "2.IH" [OF refl sb refl _ r] True have
      IH: "\<exists>msgs used. batches_to_sign L xpub bs = Ok msgs \<and> s1 = used @ sigs' \<and> answers L xpub msgs used"
      "list_all2 (\<lambda>b b'. b' = b \<or> batch_step L b b') bs bs1"
      "\<forall>i. length (takeWhile Batch_signed bs) < i \<longrightarrow> i < length bs \<longrightarrow> bs1 ! i = bs ! i" by auto
    from s(1) IH(1) obtain m u ms us where "batch_to_sign L xpub b = Ok m" "sigs = u @ s1" "answers L xpub m u"
      "batches_to_sign L xpub bs = Ok ms" "s1 = us @ sigs'" "answers L xpub ms us" by blast
    then have "batches_to_sign L xpub (b # bs) = Ok (m @ ms)" "sigs = (u @ us) @ sigs'" "answers L xpub (m @ ms) (u @ us)"
      using True by (auto intro: answers_append)
    then have "\<exists>msgs used. batches_to_sign L xpub (b # bs) = Ok msgs \<and> sigs = used @ sigs' \<and> answers L xpub msgs used"
      by blast
    moreover have "bs' ! i = (b # bs) ! i" if "length (takeWhile Batch_signed (b # bs)) < i" "i < length (b # bs)" for i
      using that IH(3) bs' True by (cases i) auto
    ultimately show ?thesis using s(2) IH(2) bs' by simp
  qed
qed


lemma Checkpoint_signed_all: "Checkpoint_signed cp \<longleftrightarrow> list_all Batch_signed (cp_batches cp)"
  by (metis Checkpoint_signed_def Checkpoint_signed_batches_def list_all_iff takeWhile_eq_all_conv
      takeWhile_eq_take take_all_iff length_takeWhile_le order_refl set_takeWhileD)

lemma Checkpoint_sign_Ok:
  assumes "Checkpoint_sign L xpub sigs h cp = Ok cp'"
  obtains bs where "sign_batches L xpub sigs (cp_batches cp) = Ok ([], bs)" "cp_batches cp' = bs"
    "cp' = cp\<lparr>cp_batches := bs, cp_signed_at_btc_height :=
       (if Checkpoint_signed cp' \<and> \<not> Checkpoint_signed cp then Some h else cp_signed_at_btc_height cp)\<rparr>"
proof -
  from assms obtain bs where "sign_batches L xpub sigs (cp_batches cp) = Ok ([], bs)"
    and "(if Checkpoint_signed (cp\<lparr>cp_batches := bs\<rparr>) \<and> \<not> Checkpoint_signed cp
          then Ok (cp\<lparr>cp_batches := bs, cp_signed_at_btc_height := Some h\<rparr>) else Ok (cp\<lparr>cp_batches := bs\<rparr>)) = Ok cp'"
    by (auto simp: Checkpoint_sign_def Let_def)
  then show ?thesis
    by (intro that) (auto simp: Checkpoint_signed_def Checkpoint_signed_batches_def split: if_splits)
qed

lemma cp_inv_sign:
  assumes "cp_inv L cp" and "sign_batches L xpub sigs (cp_batches cp) = Ok (r, bs)"
  shows "list_all (batch_inv L) bs" "list_all2 (\<lambda>b b'. Batch_signed b \<longrightarrow> Batch_signed b') (cp_batches cp) bs"
proof -
  have "list_all2 (\<lambda>b b'. b' = b \<or> batch_step L b b') (cp_batches cp) bs"
    using sign_batches_Ok [OF assms(2)] by blast
  with assms(1) have "list_all (batch_inv L) bs \<and> list_all2 (\<lambda>b b'. Batch_signed b \<longrightarrow> Batch_signed b') (cp_batches cp) bs"
    unfolding cp_inv_def
    by (rotate_tac -1) (induction rule: list_all2_induct, auto simp: batch_step_def)
  then show "list_all (batch_inv L) bs" "list_all2 (\<lambda>b b'. Batch_signed b \<longrightarrow> Batch_signed b') (cp_batches cp) bs"
    by blast+
qed

subsection \<open>Supplying exactly the signatures asked for is enough\<close>

lemma sign_input_total:
  assumes "ts_inv L (in_signatures i)" and "input_to_sign L xpub i = Ok msgs" and "answers L xpub msgs used"
  shows "\<exists>newly i'. sign_input L xpub (used @ rest) i = Ok (rest, newly, i')"
proof -
  from assms(2) obtain pk where pk: "derive_pubkey L xpub (in_sigset_index i) = Ok pk"
    and msgs: "msgs = (if ThresholdSig_needs_sig (in_signatures i) pk
         then [(ts_message (in_signatures i), in_sigset_index i)] else [])"
    by (auto simp: input_to_sign_def)
  show ?thesis
  proof (cases "ThresholdSig_needs_sig (in_signatures i) pk")
    case False
    with msgs assms(3) have "used = []" by (simp add: answers_def)
    with False pk have "sign_input L xpub (used @ rest) i = Ok (rest, False, i)" by (simp add: sign_input_def)
    then show ?thesis by blast
  next
    case True
    with msgs assms(3) pk obtain sg where used: "used = [sg]" and "sig_valid L (ts_message (in_signatures i)) pk sg"
      by (auto simp: answers_def list_all2_Cons1)
    with ThresholdSig_sign_total [OF assms(1) True] obtain ts where
      "ThresholdSig_sign L pk sg (in_signatures i) = Ok ts" by blast
    with True pk used show ?thesis by (simp add: sign_input_def Let_def)
  qed
qed

lemma answers_split:
  assumes "answers L xpub (ms1 @ ms2) used"
  obtains u1 u2 where "used = u1 @ u2" "answers L xpub ms1 u1" "answers L xpub ms2 u2"
  using assms unfolding answers_def by (auto simp: list_all2_append1)

lemma sign_inputs_total:
  assumes "list_all (\<lambda>i. ts_inv L (in_signatures i)) is" and "map_result (input_to_sign L xpub) is = Ok msgs"
    and "answers L xpub (concat msgs) used" and "n + length (filter (\<lambda>i. \<not> input_signed i) is) < 2 ^ 16"
  shows "\<exists>n' is'. sign_inputs L xpub (used @ rest) n is = Ok (rest, n', is')"
  using assms
proof (induction "is" arbitrary: msgs used n)
  case Nil
  then show ?case by (auto simp: answers_def)
next
  case (Cons i "is")
  from Cons.prems(2) obtain m ms where m: "input_to_sign L xpub i = Ok m"
    and ms: "map_result (input_to_sign L xpub) is = Ok ms" and msgs: "msgs = m # ms" by auto
  from Cons.prems(3) msgs obtain u1 u2 where u: "used = u1 @ u2" "answers L xpub m u1" "answers L xpub (concat ms) u2"
    by (auto elim: answers_split)
  from sign_input_total [OF _ m u(2), of "u2 @ rest"] Cons.prems(1) obtain newly i' where
    i': "sign_input L xpub (u1 @ u2 @ rest) i = Ok (u2 @ rest, newly, i')" by auto
  let ?n = "if newly then n + 1 else n"
  have n: "?n + length (filter (\<lambda>i. \<not> input_signed i) is) < 2 ^ 16"
    using Cons.prems(4) sign_input_Ok(3) [OF i'] by (auto split: if_splits)
  then have step: "(if newly then add_u16 n 1 else Ok n) = Ok ?n" by (auto simp: add_w_def)
  from Cons.IH [OF _ ms u(3) n] Cons.prems(1) obtain n' is' where
    "sign_inputs L xpub (u2 @ rest) ?n is = Ok (rest, n', is')" by auto
  with i' step u(1) show ?case by simp
qed

lemma sign_txs_total:
  assumes "list_all (tx_inv L) txs" and "list_all (\<lambda>tx. length (bt_input tx) < 2 ^ 16) txs"
    and "map_result (\<lambda>tx. map_result (input_to_sign L xpub) (bt_input tx)) txs = Ok msgs"
    and "answers L xpub (concat (map concat msgs)) used" and "n + length (filter (\<lambda>tx. \<not> counted tx) txs) < 2 ^ 16"
  shows "\<exists>n' txs'. sign_txs L xpub (used @ rest) n txs = Ok (rest, n', txs')"
  using assms
proof (induction txs arbitrary: msgs used n)
  case Nil
  then show ?case by (auto simp: answers_def)
next
  case (Cons tx txs)
  from Cons.prems(3) obtain m ms where m: "map_result (input_to_sign L xpub) (bt_input tx) = Ok m"
    and ms: "map_result (\<lambda>tx. map_result (input_to_sign L xpub) (bt_input tx)) txs = Ok ms" and msgs: "msgs = m # ms"
    by auto
  from Cons.prems(4) msgs obtain u1 u2 where u: "used = u1 @ u2" "answers L xpub (concat m) u1"
    "answers L xpub (concat (map concat ms)) u2" by (auto elim: answers_split)
  have inv: "tx_inv L tx" using Cons.prems(1) by simp
  then have "bt_signed_inputs tx + length (filter (\<lambda>i. \<not> input_signed i) (bt_input tx)) = length (bt_input tx)"
    by (simp add: tx_inv_def sum_length_filter_compl)
  with Cons.prems(2) inv obtain k is' where
    "sign_inputs L xpub (u1 @ u2 @ rest) (bt_signed_inputs tx) (bt_input tx) = Ok (u2 @ rest, k, is')"
    using sign_inputs_total [OF _ m u(2), of "bt_signed_inputs tx" "u2 @ rest"] by (auto simp: tx_inv_def)
  then obtain newly tx' where tx': "sign_tx L xpub (u1 @ u2 @ rest) tx = Ok (u2 @ rest, newly, tx')"
    by (auto simp: sign_tx_def Let_def)
  let ?n = "if newly then n + 1 else n"
  have n: "?n + length (filter (\<lambda>tx. \<not> counted tx) txs) < 2 ^ 16"
    using Cons.prems(5) sign_tx_Ok(3) [OF tx' inv] by (auto split: if_splits)
  then have step: "(if newly then add_u16 n 1 else Ok n) = Ok ?n" by (auto simp: add_w_def)
  from Cons.IH [OF _ _ ms u(3) n] Cons.prems(1,2) obtain n' txs' where
    "sign_txs L xpub (u2 @ rest) ?n txs = Ok (rest, n', txs')" by auto
  with tx' step u(1) show ?case by simp
qed

text \<open>Counters are \<open>u16\<close>: a batch has fewer than 65536 transactions of fewer than 65536 inputs.\<close>

definition batch_sized :: "batch \<Rightarrow> bool" where
  "batch_sized b \<longleftrightarrow> length (ba_batch b) < 2 ^ 16 \<and> list_all (\<lambda>tx. length (bt_input tx) < 2 ^ 16) (ba_batch b)"

lemma sign_batches_total:
  assumes "list_all (batch_inv L) bs" and "list_all batch_sized bs" and "batches_to_sign L xpub bs = Ok msgs"
    and "answers L xpub msgs used"
  shows "\<exists>bs'. sign_batches L xpub (used @ rest) bs = Ok (rest, bs')"
  using assms
proof (induction bs arbitrary: msgs used)
  case Nil
  then show ?case by (auto simp: answers_def)
next
  case (Cons b bs)
  have total: "\<exists>b'. sign_batch L xpub (u @ r) b = Ok (r, b')"
    if m: "batch_to_sign L xpub b = Ok m" "answers L xpub m u" for m u r
  proof -
    from m(1) obtain ms where ms: "map_result (\<lambda>tx. map_result (input_to_sign L xpub) (bt_input tx)) (ba_batch b) = Ok ms"
      "m = concat (map concat ms)" by (auto simp: batch_to_sign_def)
    have "ba_signed_txs b + length (filter (\<lambda>tx. \<not> counted tx) (ba_batch b)) = length (ba_batch b)"
      using Cons.prems(1) by (simp add: batch_inv_def sum_length_filter_compl)
    then have "\<exists>n' txs'. sign_txs L xpub (u @ r) (ba_signed_txs b) (ba_batch b) = Ok (r, n', txs')"
      using Cons.prems(1,2) m(2) ms by (intro sign_txs_total [OF _ _ ms(1)]) (auto simp: batch_inv_def batch_sized_def)
    then show ?thesis by (auto simp: sign_batch_def)
  qed
  from Cons.prems(3) obtain m where m: "batch_to_sign L xpub b = Ok m" by auto
  show ?case
  proof (cases "Batch_signed b")
    case False
    with Cons.prems(3) m have "msgs = m" by simp
    with total [OF m, of used rest] Cons.prems(4) False show ?thesis by (auto simp: Let_def)
  next
    case True
    with Cons.prems(3) m obtain ms where ms: "batches_to_sign L xpub bs = Ok ms" "msgs = m @ ms" by auto
    from Cons.prems(4) ms(2) obtain u1 u2 where u: "used = u1 @ u2" "answers L xpub m u1" "answers L xpub ms u2"
      by (auto elim: answers_split)
    from total [OF m u(2), of "u2 @ rest"] Cons.IH [OF _ _ ms(1) u(3)] Cons.prems(1,2) True u(1) show ?thesis
      by (auto simp: Let_def)
  qed
qed

section \<open>A concrete checkpoint\<close>

definition demo_input :: input where
  "demo_input = \<lparr>in_prevout = ([1], 0), in_script_pubkey = [], in_redeem_script = [], in_sigset_index = 4,
     in_dest = [], in_amount = 1000, in_est_witness_vsize = 100,
     in_signatures = demo_ts None None 0 [7]\<rparr>"

definition demo_cp_tx :: bitcoin_tx where
  "demo_cp_tx = BitcoinTx_default\<lparr>bt_input := [demo_input]\<rparr>"

definition demo_cp :: checkpoint where
  "demo_cp = (Checkpoint_new demo_ss)\<lparr>cp_status := Signing,
     cp_batches := [Batch_default, Batch_default\<lparr>ba_batch := [demo_cp_tx]\<rparr>, Batch_default\<lparr>ba_batch := [demo_cp_tx]\<rparr>]\<rparr>"

lemma demo_ts_inv: "ts_inv demo_script_lib (demo_ts None None 0 [7])"
proof -
  have "demo_pk 1 < demo_pk 2" "demo_pk 1 \<noteq> demo_pk 2" by (simp_all add: demo_pk_def numeral_eq_Suc)
  then show ?thesis
    by (auto simp: ts_inv_def demo_ts_def omap_inv_def threshold_of_def SIGSET_THRESHOLD_def share_verified_def)
qed

lemma demo_cp_inv: "cp_inv demo_script_lib demo_cp"
  using demo_ts_inv
  by (simp add: cp_inv_def demo_cp_def batch_inv_def Batch_default_def tx_inv_def demo_cp_tx_def BitcoinTx_default_def
      demo_input_def counted_def BitcoinTx_signed_def ThresholdSig_signed_def demo_ts_def)

lemma demo_derive: "derive_pubkey demo_script_lib (demo_xpub33 2) 4 = Ok (demo_pk 2)"
  by (simp add: derive_pubkey_def demo_script_lib_def demo_xpub33_def)

lemma demo_cp_to_sign: "Checkpoint_to_sign demo_script_lib (demo_xpub33 2) demo_cp = Ok [([7], 4)]"
proof -
  have "demo_pk 1 \<noteq> demo_pk 2" by (simp add: demo_pk_def)
  then show ?thesis
    using demo_derive
    by (simp add: Checkpoint_to_sign_def demo_cp_def batch_to_sign_def Batch_default_def Batch_signed_def demo_cp_tx_def
        BitcoinTx_default_def input_to_sign_def demo_input_def demo_ts_def ThresholdSig_needs_sig_def)
qed

lemma demo_cp_answers: "answers demo_script_lib (demo_xpub33 2) [([7], 4)] [demo_pk 2]"
  using demo_derive by (simp add: answers_def sig_valid_def) (simp add: demo_script_lib_def)

lemma demo_cp_sized: "list_all batch_sized (cp_batches demo_cp)"
  by (simp add: demo_cp_def batch_sized_def Batch_default_def demo_cp_tx_def BitcoinTx_default_def)

lemma demo_cp_sign: "\<exists>cp'. Checkpoint_sign demo_script_lib (demo_xpub33 2) [demo_pk 2] 50 demo_cp = Ok cp'"
proof -
  obtain bs where "sign_batches demo_script_lib (demo_xpub33 2) ([demo_pk 2] @ []) (cp_batches demo_cp) = Ok ([], bs)"
    using sign_batches_total [OF demo_cp_inv [unfolded cp_inv_def] demo_cp_sized
        demo_cp_to_sign [unfolded Checkpoint_to_sign_def] demo_cp_answers, of "[]"] by blast
  then show ?thesis by (simp add: Checkpoint_sign_def Let_def)
qed

section \<open>Properties\<close>

text \<open>
  C9: a signatory's call succeeds exactly when it supplies one signature for each message
  \<open>to_sign\<close> asks of it, in that order, each verifying under its key: fewer, more or invalid
  signatures are refused, and nothing else is.
\<close>

theorem checkpoint_sign_iff_answers:
  assumes "cp_inv L cp" and "list_all batch_sized (cp_batches cp)"
  shows "(\<exists>cp'. Checkpoint_sign L xpub sigs h cp = Ok cp') \<longleftrightarrow>
    (\<exists>msgs. Checkpoint_to_sign L xpub cp = Ok msgs \<and> answers L xpub msgs sigs)"
proof
  assume "\<exists>cp'. Checkpoint_sign L xpub sigs h cp = Ok cp'"
  then obtain cp' where "Checkpoint_sign L xpub sigs h cp = Ok cp'" by blast
  then obtain bs where "sign_batches L xpub sigs (cp_batches cp) = Ok ([], bs)" by (rule Checkpoint_sign_Ok)
  from sign_batches_Ok [OF this] show "\<exists>msgs. Checkpoint_to_sign L xpub cp = Ok msgs \<and> answers L xpub msgs sigs"
    by (auto simp: Checkpoint_to_sign_def)
next
  assume "\<exists>msgs. Checkpoint_to_sign L xpub cp = Ok msgs \<and> answers L xpub msgs sigs"
  then obtain bs where "sign_batches L xpub (sigs @ []) (cp_batches cp) = Ok ([], bs)"
    using sign_batches_total [of L "cp_batches cp" xpub _ sigs "[]"] assms
    by (auto simp: Checkpoint_to_sign_def cp_inv_def)
  then show "\<exists>cp'. Checkpoint_sign L xpub sigs h cp = Ok cp'" by (simp add: Checkpoint_sign_def Let_def)
qed

theorem checkpoint_sign_iff_answers_witness:
  "(\<exists>cp'. Checkpoint_sign demo_script_lib (demo_xpub33 2) [demo_pk 2] 50 demo_cp = Ok cp')
   \<and> \<not> (\<exists>cp'. Checkpoint_sign demo_script_lib (demo_xpub33 2) [] 50 demo_cp = Ok cp')"
  unfolding checkpoint_sign_iff_answers [OF demo_cp_inv demo_cp_sized]
  using demo_cp_to_sign demo_cp_answers by (auto simp: answers_def)

text \<open>
  C10: signing keeps the checkpoint well formed and goes through its batches in order: the counters
  of signed inputs and transactions stay exact, a batch after the first unsigned one is not
  touched, a signed batch stays signed, and the signing height is recorded exactly by the call that
  completes the checkpoint.
\<close>

theorem checkpoint_sign_serial:
  assumes "cp_inv L cp" and "Checkpoint_sign L xpub sigs h cp = Ok cp'"
  shows "cp_inv L cp' \<and> length (cp_batches cp') = length (cp_batches cp)
    \<and> (\<forall>i. Checkpoint_signed_batches cp < i \<longrightarrow> i < length (cp_batches cp) \<longrightarrow> cp_batches cp' ! i = cp_batches cp ! i)
    \<and> (\<forall>i < length (cp_batches cp). Batch_signed (cp_batches cp ! i) \<longrightarrow> Batch_signed (cp_batches cp' ! i))
    \<and> cp_signed_at_btc_height cp' = (if Checkpoint_signed cp' \<and> \<not> Checkpoint_signed cp then Some h
        else cp_signed_at_btc_height cp)"
proof -
  obtain bs where bs: "sign_batches L xpub sigs (cp_batches cp) = Ok ([], bs)" "cp_batches cp' = bs"
    and cp': "cp' = cp\<lparr>cp_batches := bs, cp_signed_at_btc_height :=
       (if Checkpoint_signed cp' \<and> \<not> Checkpoint_signed cp then Some h else cp_signed_at_btc_height cp)\<rparr>"
    by (rule Checkpoint_sign_Ok [OF assms(2)])
  note inv = cp_inv_sign [OF assms(1) bs(1)]
  have "cp_signed_at_btc_height cp' = (if Checkpoint_signed cp' \<and> \<not> Checkpoint_signed cp then Some h
        else cp_signed_at_btc_height cp)"
    by (subst cp') simp
  with inv bs sign_batches_Ok [OF bs(1)] show ?thesis
    by (simp add: cp_inv_def Checkpoint_signed_batches_def list_all2_conv_all_nth)
qed

theorem checkpoint_sign_serial_witness:
  "\<exists>cp'. Checkpoint_sign demo_script_lib (demo_xpub33 2) [demo_pk 2] 50 demo_cp = Ok cp'
    \<and> cp_batches cp' ! 2 = cp_batches demo_cp ! 2 \<and> cp_inv demo_script_lib cp'"
proof -
  obtain cp' where ok: "Checkpoint_sign demo_script_lib (demo_xpub33 2) [demo_pk 2] 50 demo_cp = Ok cp'"
    using demo_cp_sign by blast
  have "Checkpoint_signed_batches demo_cp = 1" "length (cp_batches demo_cp) = 3"
    by (simp_all add: Checkpoint_signed_batches_def demo_cp_def Batch_signed_def Batch_default_def)
  with checkpoint_sign_serial [OF demo_cp_inv ok] ok show ?thesis by auto
qed

text \<open>
  A checkpoint is complete exactly when every input of every transaction is over its threshold.
  A transaction without inputs would keep its batch from ever completing.
\<close>

theorem checkpoint_signed_iff_all_inputs:
  assumes "cp_inv L cp"
  shows "Checkpoint_signed cp \<longleftrightarrow>
    (\<forall>b \<in> set (cp_batches cp). \<forall>tx \<in> set (ba_batch b). bt_input tx \<noteq> []
       \<and> (\<forall>i \<in> set (bt_input tx). ThresholdSig_signed (in_signatures i)))"
proof -
  have "Batch_signed b \<longleftrightarrow> (\<forall>tx \<in> set (ba_batch b). bt_input tx \<noteq> [] \<and> (\<forall>i \<in> set (bt_input tx). input_signed i))"
    if "b \<in> set (cp_batches cp)" for b
  proof -
    have b: "batch_inv L b" using assms that by (auto simp: cp_inv_def list_all_iff)
    then have "counted tx \<longleftrightarrow> bt_input tx \<noteq> [] \<and> (\<forall>i \<in> set (bt_input tx). input_signed i)" if "tx \<in> set (ba_batch b)" for tx
      using that BitcoinTx_signed_iff [of L tx] by (auto simp: batch_inv_def list_all_iff counted_def)
    then show ?thesis using Batch_signed_iff [OF b] by (auto simp: list_all_iff)
  qed
  then show ?thesis by (auto simp: Checkpoint_signed_all list_all_iff)
qed

theorem checkpoint_signed_iff_all_inputs_witness: "\<not> Checkpoint_signed demo_cp"
  unfolding checkpoint_signed_iff_all_inputs [OF demo_cp_inv]
  by (simp add: demo_cp_def Batch_default_def demo_cp_tx_def BitcoinTx_default_def demo_input_def
      ThresholdSig_signed_def demo_ts_def)

end
