(* ===== verification/Header_Queue.thy ===== *)
theory Header_Queue
  imports Outpoint_Set
begin

text \<open>
  The queue of Bitcoin block headers (src/src/bitcoin/header_queue.rs): configuration, relay of
  headers with reorganisation and pruning, difficulty targets, timestamps, lookup by height, and
  the wire format of a header list. The bitcoin crate is the record \<open>header_lib\<close>. Operations that
  change the queue return it also when they fail, since the source documents what an error leaves.
\<close>

section \<open>Headers of the bitcoin crate\<close>

record block_header =
  bh_version :: int
  bh_prev_blockhash :: bytes
  bh_merkle_root :: bytes
  bh_time :: u32
  bh_bits :: u32
  bh_nonce :: u32

record wrapped_header =
  wr_height :: u32
  wr_header :: block_header

text \<open>
  \<open>Uint256\<close> values are natural numbers and the crate's operations on them are parameters, as are
  hashing, the compact form of targets and the encodings.
\<close>

record header_lib =
  block_hash :: "block_header \<Rightarrow> bytes"
  header_work :: "block_header \<Rightarrow> u256"  \<comment> \<open>\<open>BlockHeader::work\<close>\<close>
  header_target :: "block_header \<Rightarrow> u256"  \<comment> \<open>\<open>BlockHeader::target\<close>\<close>
  u256_from_compact :: "u32 \<Rightarrow> u256"
  compact_target_from_u256 :: "u256 \<Rightarrow> u32"
  header_validate_pow :: "block_header \<Rightarrow> u256 \<Rightarrow> bytes result"
  u256_add :: "u256 \<Rightarrow> u256 \<Rightarrow> u256"
  u256_sub :: "u256 \<Rightarrow> u256 \<Rightarrow> u256"
  u256_mul :: "u256 \<Rightarrow> u256 \<Rightarrow> u256"
  u256_div :: "u256 \<Rightarrow> u256 \<Rightarrow> u256 result"
  consensus_encode :: "block_header \<Rightarrow> bytes"
  decode_header :: "bytes \<Rightarrow> block_header result"
  encode_wrapped :: "wrapped_header \<Rightarrow> bytes"  \<comment> \<open>derived by orga\<close>
  decode_wrapped :: "bytes \<Rightarrow> (wrapped_header \<times> bytes) result"
  error_display :: "error \<Rightarrow> string"

section \<open>Constants and configuration\<close>

definition MAX_LENGTH :: u64 where "MAX_LENGTH = 24192"
definition MAX_RELAY :: u64 where "MAX_RELAY = 250"
definition MAX_TIME_INCREASE :: u32 where "MAX_TIME_INCREASE = 2 * 60 * 60"
definition RETARGET_INTERVAL :: u32 where "RETARGET_INTERVAL = 2016"
definition TARGET_SPACING :: u32 where "TARGET_SPACING = 10 * 60"
definition TARGET_TIMESPAN :: u32 where "TARGET_TIMESPAN = RETARGET_INTERVAL * TARGET_SPACING"
definition MAX_TARGET :: u32 where "MAX_TARGET = 0x1d00ffff"

definition WrappedHeader_new :: "block_header \<Rightarrow> u32 \<Rightarrow> wrapped_header" where
  "WrappedHeader_new header height = \<lparr>wr_height = height, wr_header = header\<rparr>"

definition WrappedHeader_time :: "wrapped_header \<Rightarrow> u32" where
  "WrappedHeader_time w = bh_time (wr_header w)"

definition WrappedHeader_target :: "'m header_lib_scheme \<Rightarrow> wrapped_header \<Rightarrow> u256" where
  "WrappedHeader_target H w = header_target H (wr_header w)"

definition WrappedHeader_block_hash :: "'m header_lib_scheme \<Rightarrow> wrapped_header \<Rightarrow> bytes" where
  "WrappedHeader_block_hash H w = block_hash H (wr_header w)"

definition WrappedHeader_prev_blockhash :: "wrapped_header \<Rightarrow> bytes" where
  "WrappedHeader_prev_blockhash w = bh_prev_blockhash (wr_header w)"

definition WrappedHeader_work :: "'m header_lib_scheme \<Rightarrow> wrapped_header \<Rightarrow> u256" where
  "WrappedHeader_work H w = header_work H (wr_header w)"

definition WrappedHeader_bits :: "wrapped_header \<Rightarrow> u32" where
  "WrappedHeader_bits w = bh_bits (wr_header w)"

text \<open>Reading the four big-endian bytes of a \<open>u32\<close> at the end of 32 gives the same number.\<close>

definition u32_to_u256 :: "u32 \<Rightarrow> u256" where "u32_to_u256 v = v"

definition WrappedHeader_validate_pow :: "'m header_lib_scheme \<Rightarrow> wrapped_header \<Rightarrow> u256 \<Rightarrow> bytes result" where
  "WrappedHeader_validate_pow H w required_target = header_validate_pow H (wr_header w) required_target"

record work_header =
  wk_chain_work :: u256
  wk_header :: wrapped_header

definition WorkHeader_new :: "wrapped_header \<Rightarrow> u256 \<Rightarrow> work_header" where
  "WorkHeader_new header chain_work = \<lparr>wk_chain_work = chain_work, wk_header = header\<rparr>"

definition WorkHeader_work :: "'m header_lib_scheme \<Rightarrow> work_header \<Rightarrow> u256" where
  "WorkHeader_work H w = WrappedHeader_work H (wk_header w)"

definition WorkHeader_merkle_root :: "work_header \<Rightarrow> bytes" where
  "WorkHeader_merkle_root w = bh_merkle_root (wr_header (wk_header w))"

record header_config =
  hc_max_length :: u64
  hc_max_time_increase :: u32
  hc_trusted_height :: u32
  hc_retarget_interval :: u32
  hc_target_spacing :: u32
  hc_target_timespan :: u32
  hc_max_target :: u32
  hc_retargeting :: bool
  hc_min_difficulty_blocks :: bool
  hc_encoded_trusted_header :: bytes

text \<open>
  The trusted headers of the JSON files that \<open>include_str!\<close> reads. A hash is printed with its bytes
  reversed, so the bytes are the little-endian form of the printed number.
\<close>

fun le_bytes :: "nat \<Rightarrow> nat \<Rightarrow> bytes" where
  "le_bytes 0 n = []"
| "le_bytes (Suc k) n = word_of_nat (n mod 256) # le_bytes k (n div 256)"

definition mainnet_checkpoint :: "u32 \<times> block_header" where
  "mainnet_checkpoint = (808416,
     \<lparr>bh_version = 691150848,
      bh_prev_blockhash = le_bytes 32 0x000000000000000000027ecc78c2da1cc5c0b0496706baa7e4d7c80812c10bf3,
      bh_merkle_root = le_bytes 32 0xb920d5b5ebef4e9d106072944e0729cea8bf6defc583a7d87063041a316a757b,
      bh_time = 1695114421, bh_bits = 386198911, bh_nonce = 3325534563\<rparr>)"

definition testnet_checkpoint :: "u32 \<times> block_header" where
  "testnet_checkpoint = (2991744,
     \<lparr>bh_version = 690692096,
      bh_prev_blockhash = le_bytes 32 0x0000000000000f080e1a6f704a41308db272cde3db3ce7ecec09a95b41964e83,
      bh_merkle_root = le_bytes 32 0xf1de2eff5cb7c7a6284b695a530efbd5d18cc5d6037983b6045bdce20759b75e,
      bh_time = 1727133677, bh_bits = 457179072, bh_nonce = 68279166\<rparr>)"

definition signet_checkpoint :: "u32 \<times> block_header" where
  "signet_checkpoint = (187488,
     \<lparr>bh_version = 536870912,
      bh_prev_blockhash = le_bytes 32 0x00000145fda2984b2467e98dca41b15a210817ce8507ed6470bfabaf6e1d58a0,
      bh_merkle_root = le_bytes 32 0x1d000188b9d54572e2c67671508d5535da295a9bca3152ba34b26df270170f48,
      bh_time = 1710886069, bh_bits = 503403528, bh_nonce = 44659880\<rparr>)"

definition HeaderConfig_mainnet :: "'m header_lib_scheme \<Rightarrow> header_config" where
  "HeaderConfig_mainnet H = (let (height, header) = mainnet_checkpoint in
     \<lparr>hc_max_length = MAX_LENGTH, hc_max_time_increase = MAX_TIME_INCREASE, hc_trusted_height = height,
      hc_retarget_interval = RETARGET_INTERVAL, hc_target_spacing = TARGET_SPACING,
      hc_target_timespan = TARGET_TIMESPAN, hc_max_target = MAX_TARGET, hc_retargeting = True,
      hc_min_difficulty_blocks = False, hc_encoded_trusted_header = consensus_encode H header\<rparr>)"

definition HeaderConfig_testnet :: "'m header_lib_scheme \<Rightarrow> header_config" where
  "HeaderConfig_testnet H = (let (height, header) = testnet_checkpoint in
     \<lparr>hc_max_length = MAX_LENGTH, hc_max_time_increase = MAX_TIME_INCREASE, hc_trusted_height = height,
      hc_retarget_interval = RETARGET_INTERVAL, hc_target_spacing = TARGET_SPACING,
      hc_target_timespan = TARGET_TIMESPAN, hc_max_target = MAX_TARGET, hc_retargeting = True,
      hc_min_difficulty_blocks = True, hc_encoded_trusted_header = consensus_encode H header\<rparr>)"

definition HeaderConfig_signet :: "'m header_lib_scheme \<Rightarrow> header_config" where
  "HeaderConfig_signet H = (let (height, header) = signet_checkpoint in
     \<lparr>hc_max_length = MAX_LENGTH, hc_max_time_increase = MAX_TIME_INCREASE, hc_trusted_height = height,
      hc_retarget_interval = RETARGET_INTERVAL, hc_target_spacing = TARGET_SPACING,
      hc_target_timespan = TARGET_TIMESPAN, hc_max_target = 0x1e0377ae, hc_retargeting = True,
      hc_min_difficulty_blocks = False, hc_encoded_trusted_header = consensus_encode H header\<rparr>)"

definition HeaderConfig_regtest :: "'m header_lib_scheme \<Rightarrow> header_config" where
  "HeaderConfig_regtest H = (let (height, header) = testnet_checkpoint in
     \<lparr>hc_max_length = MAX_LENGTH, hc_max_time_increase = MAX_TIME_INCREASE, hc_trusted_height = height,
      hc_retarget_interval = RETARGET_INTERVAL, hc_target_spacing = TARGET_SPACING,
      hc_target_timespan = TARGET_TIMESPAN, hc_max_target = MAX_TARGET, hc_retargeting = False,
      hc_min_difficulty_blocks = True, hc_encoded_trusted_header = consensus_encode H header\<rparr>)"

text \<open>With the default features \<open>NETWORK\<close> is the test network.\<close>

definition HeaderConfig_default :: "'m header_lib_scheme \<Rightarrow> header_config" where
  "HeaderConfig_default H = HeaderConfig_testnet H"

section \<open>The wire format of a header list\<close>

definition HeaderList_encode :: "'m header_lib_scheme \<Rightarrow> wrapped_header list \<Rightarrow> bytes result" where
  "HeaderList_encode H headers =
     (if length headers \<ge> 256 then Err Encoding
      else Ok (word_of_nat (length headers) # concat (map (encode_wrapped H) headers)))"

definition HeaderList_encoding_length :: "'m header_lib_scheme \<Rightarrow> wrapped_header list \<Rightarrow> nat" where
  "HeaderList_encoding_length H headers = 1 + sum_list (map (length \<circ> encode_wrapped H) headers)"

fun decode_headers :: "'m header_lib_scheme \<Rightarrow> nat \<Rightarrow> bytes \<Rightarrow> (wrapped_header list \<times> bytes) result" where
  "decode_headers H 0 r = Ok ([], r)"
| "decode_headers H (Suc n) r =
     rbind (decode_wrapped H r) (\<lambda>(h, r). rbind (decode_headers H n r) (\<lambda>(hs, r). Ok (h # hs, r)))"

definition HeaderList_decode :: "'m header_lib_scheme \<Rightarrow> bytes \<Rightarrow> (wrapped_header list \<times> bytes) result" where
  "HeaderList_decode H reader =
     (case reader of [] \<Rightarrow> Err Encoding | len # r \<Rightarrow> decode_headers H (unat len) r)"

section \<open>The queue\<close>

record header_queue =
  hq_deque :: "work_header list"
  hq_current_work :: u256
  hq_config :: header_config

definition HeaderQueue_height :: "header_queue \<Rightarrow> u32" where
  "HeaderQueue_height q = (if hq_deque q = [] then 0 else wr_height (wk_header (last (hq_deque q))))"

definition HeaderQueue_hash :: "'m header_lib_scheme \<Rightarrow> header_queue \<Rightarrow> bytes result" where
  "HeaderQueue_hash H q = (if hq_deque q = [] then Err (Header ''HeaderQueue is empty'')
     else Ok (WrappedHeader_block_hash H (wk_header (last (hq_deque q)))))"

definition HeaderQueue_len :: "header_queue \<Rightarrow> u64" where
  "HeaderQueue_len q = length (hq_deque q)"

definition HeaderQueue_get_by_height :: "header_queue \<Rightarrow> u32 \<Rightarrow> work_header option result" where
  "HeaderQueue_get_by_height q height =
     (case hq_deque q of
        [] \<Rightarrow> Err (Header ''Queue does not contain any headers'')
      | front # _ \<Rightarrow>
          let initial_height = wr_height (wk_header front) in
          if height < initial_height then Err (Header ''Passed index is greater than initial height. Referenced header does not exist on the Header Queue'')
          else if height - initial_height < length (hq_deque q)
          then Ok (Some (hq_deque q ! (height - initial_height)))
          else Ok None)"

definition HeaderQueue_trusted_height :: "header_queue \<Rightarrow> u32" where
  "HeaderQueue_trusted_height q = hc_trusted_height (hq_config q)"

definition trusted_queue :: "'m header_lib_scheme \<Rightarrow> header_config \<Rightarrow> block_header \<Rightarrow> header_queue" where
  "trusted_queue H config decoded =
     (let wrapped = WrappedHeader_new decoded (hc_trusted_height config);
          work_header = WorkHeader_new wrapped (WrappedHeader_work H wrapped) in
      \<lparr>hq_deque = [work_header], hq_current_work = WorkHeader_work H work_header, hq_config = config\<rparr>)"

definition HeaderQueue_default :: "'m header_lib_scheme \<Rightarrow> header_queue result" where
  "HeaderQueue_default H =
     (let config = HeaderConfig_default H in
      rbind (map_err (\<lambda>_. Panic) (decode_header H (hc_encoded_trusted_header config))) (\<lambda>decoded.
      Ok (trusted_queue H config decoded)))"

text \<open>The decoded header replaces the (emptied) deque; a decoding error leaves it emptied.\<close>

definition HeaderQueue_configure ::
  "'m header_lib_scheme \<Rightarrow> header_config \<Rightarrow> header_queue \<Rightarrow> unit result \<times> header_queue" where
  "HeaderQueue_configure H config q =
     (let q = q\<lparr>hq_deque := clear_deque (hq_deque q)\<rparr> in
      case decode_header H (hc_encoded_trusted_header config) of
        Err e \<Rightarrow> (Err e, q)
      | Ok decoded \<Rightarrow>
          let wrapped = WrappedHeader_new decoded (hc_trusted_height config);
              work_header = WorkHeader_new wrapped (WrappedHeader_work H wrapped) in
          (Ok (), q\<lparr>hq_current_work := WrappedHeader_work H wrapped,
                    hq_deque := work_header # butlast (hq_deque q), hq_config := config\<rparr>))"

subsection \<open>Targets\<close>

definition HeaderQueue_calculate_next_target ::
  "'m header_lib_scheme \<Rightarrow> header_queue \<Rightarrow> wrapped_header \<Rightarrow> u32 \<Rightarrow> u256 result" where
  "HeaderQueue_calculate_next_target H q header first_reorg_height =
     (let config = hq_config q in
      if \<not> hc_retargeting config then Ok (u256_from_compact H (WrappedHeader_bits header))
      else if wr_height header < hc_retarget_interval config then
        Err (Header ''Invalid trusted header. Trusted header have height which is a multiple of the retarget interval'')
      else
      rbind (HeaderQueue_get_by_height q first_reorg_height) (\<lambda>found.
      rbind (ok_or (Header ''No previous retargeting header exists'') found) (\<lambda>inner.
      let prev_retarget = WrappedHeader_time (wk_header inner) in
      rbind (sub_u (WrappedHeader_time header) prev_retarget) (\<lambda>timespan.
      let timespan = (if timespan < hc_target_timespan config div 4
            then hc_target_timespan config div 4 else timespan) in
      rbind (mul_u32 (hc_target_timespan config) 4) (\<lambda>limit.
      let timespan = (if timespan > limit then limit else timespan) in
      rbind (u256_div H (u256_mul H (WrappedHeader_target H header) (u32_to_u256 timespan))
               (u32_to_u256 (hc_target_timespan config))) (\<lambda>target.
      let target_u32 = compact_target_from_u256 H target;
          target = u256_from_compact H target_u32 in
      if target > u256_from_compact H (hc_max_target config)
      then Ok (u256_from_compact H (hc_max_target config)) else Ok target))))))"

text \<open>The \<open>while\<close> loop that walks back over minimum-difficulty headers; the index goes down by one.\<close>

fun walk_back :: "header_queue \<Rightarrow> nat \<Rightarrow> wrapped_header \<Rightarrow> wrapped_header result" where
  "walk_back q 0 current_header = Ok current_header"
| "walk_back q (Suc i) current_header =
     rbind (rem_u (Suc i) (hc_retarget_interval (hq_config q))) (\<lambda>r.
     if r \<noteq> 0 \<and> WrappedHeader_bits current_header = hc_max_target (hq_config q) then
       rbind (HeaderQueue_get_by_height q i) (\<lambda>found.
       rbind (ok_or (Header ''No previous header exists'') found) (\<lambda>inner.
       walk_back q i (wk_header inner)))
     else Ok current_header)"

definition HeaderQueue_get_next_target ::
  "'m header_lib_scheme \<Rightarrow> header_queue \<Rightarrow> wrapped_header \<Rightarrow> wrapped_header \<Rightarrow> u256 result" where
  "HeaderQueue_get_next_target H q header previous_header =
     rbind (rem_u (wr_height header) (hc_retarget_interval (hq_config q))) (\<lambda>r.
     if r = 0 then
       rbind (sub_u (wr_height header) (hc_retarget_interval (hq_config q))) (\<lambda>first_reorg_height.
       HeaderQueue_calculate_next_target H q previous_header first_reorg_height)
     else if \<not> hc_min_difficulty_blocks (hq_config q) then Ok (WrappedHeader_target H previous_header)
     else
     rbind (mul_u32 (hc_target_spacing (hq_config q)) 2) (\<lambda>spacing.
     rbind (add_u32 (WrappedHeader_time previous_header) spacing) (\<lambda>limit.
     if WrappedHeader_time header > limit then Ok (u256_from_compact H (hc_max_target (hq_config q)))
     else
     rbind (walk_back q (wr_height previous_header) previous_header) (\<lambda>current_header.
     Ok (u256_from_compact H (WrappedHeader_bits current_header))))))"

subsection \<open>Timestamps\<close>

definition HeaderQueue_validate_time :: "header_queue \<Rightarrow> wrapped_header \<Rightarrow> unit result" where
  "HeaderQueue_validate_time q current_header =
     rbind (map_result (\<lambda>i.
         rbind (sub_u (HeaderQueue_height q) i) (\<lambda>index.
         rbind (HeaderQueue_get_by_height q index) (\<lambda>found.
         rbind (ok_or (Header ''Deque does not contain any elements'') found) (\<lambda>item.
         Ok (WrappedHeader_time (wk_header item)))))) [0..<11]) (\<lambda>stamps.
     let prev_stamps = sort stamps in
     rbind (ok_or (Header ''Median timestamp does not exist'')
              (if 5 < length prev_stamps then Some (prev_stamps ! 5) else None)) (\<lambda>median_stamp.
     if WrappedHeader_time current_header \<le> median_stamp
     then Err (Header ''Header contains an invalid timestamp'')
     else Ok ()))"

subsection \<open>Adding headers\<close>

function HeaderQueue_pop_back_to ::
  "'m header_lib_scheme \<Rightarrow> u32 \<Rightarrow> u256 \<Rightarrow> header_queue \<Rightarrow> u256 result \<times> header_queue" where
  "HeaderQueue_pop_back_to H height work q =
     (if HeaderQueue_height q \<ge> height then
        if hq_deque q = [] then (Err (Header ''Removed all headers''), q)
        else HeaderQueue_pop_back_to H height
               (u256_add H work (WorkHeader_work H (last (hq_deque q)))) (q\<lparr>hq_deque := butlast (hq_deque q)\<rparr>)
      else (Ok work, q))"
  by pat_completeness auto
termination
  by (relation "measure (\<lambda>(H, height, work, q). length (hq_deque q))") auto

declare HeaderQueue_pop_back_to.simps [simp del]

text \<open>The checks of one header against its predecessor, and the effect of accepting it.\<close>

definition check_header ::
  "'m header_lib_scheme \<Rightarrow> header_queue \<Rightarrow> wrapped_header \<Rightarrow> wrapped_header \<Rightarrow> unit result" where
  "check_header H q prev_header header =
     rbind (add_u32 (wr_height prev_header) 1) (\<lambda>next_height.
     if wr_height header \<noteq> next_height then Err (Header ''Non-consecutive headers passed'')
     else if WrappedHeader_prev_blockhash header \<noteq> WrappedHeader_block_hash H prev_header then
       Err (Header ''Passed header references incorrect previous block hash'')
     else
     rbind (if length (hq_deque q) \<ge> 11 then HeaderQueue_validate_time q header else Ok ()) (\<lambda>_.
     rbind (HeaderQueue_get_next_target H q header prev_header) (\<lambda>target.
     rbind (WrappedHeader_validate_pow H header target) (\<lambda>_. Ok ()))))"

definition push_header :: "'m header_lib_scheme \<Rightarrow> wrapped_header \<Rightarrow> header_queue \<Rightarrow> header_queue" where
  "push_header H header q =
     (let chain_work = u256_add H (hq_current_work q) (WrappedHeader_work H header) in
      q\<lparr>hq_deque := hq_deque q @ [WorkHeader_new header chain_work], hq_current_work := chain_work\<rparr>)"

fun add_headers ::
  "'m header_lib_scheme \<Rightarrow> wrapped_header \<Rightarrow> wrapped_header list \<Rightarrow> u256 \<Rightarrow> header_queue
     \<Rightarrow> u256 result \<times> header_queue" where
  "add_headers H prev_header [] work q = (Ok work, q)"
| "add_headers H prev_header (header # headers) work q =
     (case check_header H q prev_header header of
        Err e \<Rightarrow> (Err e, q)
      | Ok _ \<Rightarrow> add_headers H header headers (u256_add H work (WrappedHeader_work H header))
                 (push_header H header q))"

definition HeaderQueue_verify_and_add_headers ::
  "'m header_lib_scheme \<Rightarrow> wrapped_header list \<Rightarrow> header_queue \<Rightarrow> u256 result \<times> header_queue" where
  "HeaderQueue_verify_and_add_headers H headers q =
     (case headers of
        [] \<Rightarrow> (Err (Header ''Passed header list is empty''), q)
      | first # _ \<Rightarrow>
          if wr_height first = 0 then (Err (Header ''Headers must start after height 0''), q)
          else case HeaderQueue_get_by_height q (wr_height first - 1) of
            Err e \<Rightarrow> (Err e, q)
          | Ok None \<Rightarrow> (Err (Header ''Headers not connect to chain''), q)
          | Ok (Some prev) \<Rightarrow> add_headers H (wk_header prev) headers 0 q)"

text \<open>\<open>pop_front\<close> while the queue is longer than the configured maximum.\<close>

function prune_headers :: "'m header_lib_scheme \<Rightarrow> header_queue \<Rightarrow> header_queue" where
  "prune_headers H q =
     (if HeaderQueue_len q > hc_max_length (hq_config q) then
        (case hq_deque q of
           [] \<Rightarrow> q
         | header # rest \<Rightarrow> prune_headers H (q\<lparr>hq_deque := rest,
             hq_current_work := u256_sub H (hq_current_work q) (WorkHeader_work H header)\<rparr>))
      else q)"
  by pat_completeness auto
termination
  by (relation "measure (\<lambda>(H, q). length (hq_deque q))") auto

declare prune_headers.simps [simp del]

definition HeaderQueue_add_into_iter ::
  "'m header_lib_scheme \<Rightarrow> wrapped_header list \<Rightarrow> header_queue \<Rightarrow> unit result \<times> header_queue" where
  "HeaderQueue_add_into_iter H headers q =
     (case headers of
        [] \<Rightarrow> (Err (Header ''Passed header list empty''), q)
      | first # _ \<Rightarrow>
          let (removed, q) =
            (if wr_height first \<le> HeaderQueue_height q then
               (case HeaderQueue_get_by_height q (wr_height first) of
                  Err e \<Rightarrow> (Err e, q)
                | Ok None \<Rightarrow> (Err (Header ''Header not found''), q)
                | Ok (Some first_replaced) \<Rightarrow>
                    if WrappedHeader_block_hash H (wk_header first_replaced) = WrappedHeader_block_hash H first
                    then (Err (Header ''Provided redundant header.''), q)
                    else HeaderQueue_pop_back_to H (wr_height first) 0 q)
             else (Ok 0, q)) in
          case removed of
            Err e \<Rightarrow> (Err e, q)
          | Ok removed_work \<Rightarrow>
              (case HeaderQueue_verify_and_add_headers H headers q of
                 (Err e, q) \<Rightarrow> (Err e, q)
               | (Ok added_work, q) \<Rightarrow>
                   if added_work \<le> removed_work then
                     (Err (Header ''New best chain must include more work than old best chain.''), q)
                   else (Ok (), prune_headers H q)))"

text \<open>\<open>OrgaError::App(err.to_string())\<close>; a panic is not an error value and stays one.\<close>

definition app_error :: "'m header_lib_scheme \<Rightarrow> error \<Rightarrow> error" where
  "app_error H e = (case e of Panic \<Rightarrow> Panic | Header s \<Rightarrow> App s | _ \<Rightarrow> App (error_display H e))"

definition HeaderQueue_add ::
  "'m header_lib_scheme \<Rightarrow> ctx \<Rightarrow> wrapped_header list \<Rightarrow> header_queue \<Rightarrow> unit result \<times> header_queue" where
  "HeaderQueue_add H C headers q =
     (case exempt_from_fee C of
        Err e \<Rightarrow> (Err e, q)
      | Ok _ \<Rightarrow>
          if length headers > MAX_RELAY then
            (Err (App ''Exceeded maximum amount of relayed headers''), q)
          else (let (r, q) = HeaderQueue_add_into_iter H headers q in (map_err (app_error H) r, q)))"


section \<open>The invariant\<close>

text \<open>The queue is never empty, heights go up by one and each header names its predecessor's hash.\<close>

definition linked :: "'m header_lib_scheme \<Rightarrow> wrapped_header \<Rightarrow> wrapped_header \<Rightarrow> bool" where
  "linked H a b \<longleftrightarrow> wr_height b = wr_height a + 1
     \<and> WrappedHeader_prev_blockhash b = WrappedHeader_block_hash H a"

abbreviation hq_headers :: "header_queue \<Rightarrow> wrapped_header list" where
  "hq_headers q \<equiv> map wk_header (hq_deque q)"

definition hq_inv :: "'m header_lib_scheme \<Rightarrow> header_queue \<Rightarrow> bool" where
  "hq_inv H q \<longleftrightarrow> hq_deque q \<noteq> [] \<and> successively (linked H) (hq_headers q)"

text \<open>The headers of a list below a height.\<close>

definition below :: "u32 \<Rightarrow> wrapped_header list \<Rightarrow> wrapped_header list" where
  "below h = takeWhile (\<lambda>w. wr_height w < h)"

lemma successively_drop: "successively P xs \<Longrightarrow> successively P (drop n xs)"
  by (auto simp: successively_conv_nth)

lemma successively_take: "successively P xs \<Longrightarrow> successively P (take n xs)"
  by (auto simp: successively_conv_nth)

lemma linked_heights:
  "successively (linked H) xs \<Longrightarrow> i < length xs \<Longrightarrow> wr_height (xs ! i) = wr_height (hd xs) + i"
proof (induction xs arbitrary: i rule: induct_list012)
  case (3 x y zs)
  then show ?case by (cases i) (auto simp: linked_def)
qed auto

lemma below_take:
  assumes "successively (linked H) xs" and "xs \<noteq> []" and "wr_height (hd xs) \<le> h"
  shows "below h xs = take (h - wr_height (hd xs)) xs"
proof -
  let ?n = "min (h - wr_height (hd xs)) (length xs)"
  have "takeWhile (\<lambda>w. wr_height w < h) xs = take ?n xs"
  proof (rule takeWhile_eq_take_P_nth)
    show "wr_height (xs ! i) < h" if "i < ?n" "i < length xs" for i
      using that linked_heights [OF assms(1)] by simp
    show "\<not> wr_height (xs ! ?n) < h" if "?n < length xs"
      using that linked_heights [OF assms(1) that] assms(3) by simp
  qed
  then show ?thesis by (metis below_def take_all_iff take_take nat_le_linear min.commute order_refl)
qed

lemma HeaderQueue_height_inv:
  assumes "hq_inv H q"
  shows "HeaderQueue_height q = wr_height (hd (hq_headers q)) + (length (hq_deque q) - 1)"
proof -
  have ne: "hq_deque q \<noteq> []" and succ: "successively (linked H) (hq_headers q)"
    using assms by (auto simp: hq_inv_def)
  have "HeaderQueue_height q = wr_height (last (hq_headers q))"
    using ne by (simp add: HeaderQueue_height_def last_map)
  also have "last (hq_headers q) = hq_headers q ! (length (hq_deque q) - 1)"
    using ne last_conv_nth [of "hq_headers q"] by simp
  also have "wr_height \<dots> = wr_height (hd (hq_headers q)) + (length (hq_deque q) - 1)"
    by (rule linked_heights [OF succ]) (use ne in simp)
  finally show ?thesis .
qed

lemma get_by_height_eq:
  assumes "hq_deque q \<noteq> []"
  shows "HeaderQueue_get_by_height q h =
    (if h < wr_height (hd (hq_headers q)) then Err (Header ''Passed index is greater than initial height. Referenced header does not exist on the Header Queue'')
     else Ok (if h - wr_height (hd (hq_headers q)) < length (hq_deque q)
              then Some (hq_deque q ! (h - wr_height (hd (hq_headers q)))) else None))"
  using assms by (cases "hq_deque q") (auto simp: HeaderQueue_get_by_height_def Let_def)

lemma get_by_height_Some:
  assumes "hq_inv H q"
  shows "HeaderQueue_get_by_height q h = Ok (Some w) \<longleftrightarrow>
    w \<in> set (hq_deque q) \<and> wr_height (wk_header w) = h"
proof -
  let ?b = "wr_height (hd (hq_headers q))"
  have hts: "wr_height (wk_header (hq_deque q ! i)) = ?b + i" if "i < length (hq_deque q)" for i
    using linked_heights [of H "hq_headers q" i] assms that by (simp add: hq_inv_def)
  have ne: "hq_deque q \<noteq> []" using assms by (simp add: hq_inv_def)
  show ?thesis
    by (auto simp: get_by_height_eq [OF ne] in_set_conv_nth hts dest: hts split: if_splits)
qed

subsection \<open>Popping\<close>

lemma pop_back_to_take:
  assumes "HeaderQueue_pop_back_to H h work q = (r, q')"
  shows "\<exists>k. q' = q\<lparr>hq_deque := take k (hq_deque q)\<rparr>"
  using assms
proof (induction H h work q arbitrary: r q' rule: HeaderQueue_pop_back_to.induct)
  case (1 H h work q)
  show ?case
  proof (cases "HeaderQueue_height q \<ge> h \<and> hq_deque q \<noteq> []")
    case True
    with "1.prems" have "HeaderQueue_pop_back_to H h (u256_add H work (WorkHeader_work H (last (hq_deque q))))
        (q\<lparr>hq_deque := butlast (hq_deque q)\<rparr>) = (r, q')"
      by (simp add: HeaderQueue_pop_back_to.simps [of H h work q])
    with "1.IH" True obtain k where "q' = q\<lparr>hq_deque := take k (butlast (hq_deque q))\<rparr>" by auto
    then show ?thesis by (auto simp: butlast_conv_take)
  next
    case False
    then have "q' = q\<lparr>hq_deque := take (length (hq_deque q)) (hq_deque q)\<rparr>"
      using "1.prems" by (subst (asm) HeaderQueue_pop_back_to.simps) (auto split: if_splits)
    then show ?thesis by blast
  qed
qed

text \<open>Popping stops at the headers below the height; the work it reports is what it removed.\<close>

lemma pop_back_to_below:
  assumes "hq_inv H q" and "wr_height (hd (hq_headers q)) < h"
  shows "HeaderQueue_pop_back_to H h work q =
    (Ok (foldl (u256_add H) work (map (WorkHeader_work H) (rev (drop (h - wr_height (hd (hq_headers q))) (hq_deque q))))),
     q\<lparr>hq_deque := take (h - wr_height (hd (hq_headers q))) (hq_deque q)\<rparr>)"
  using assms
proof (induction H h work q rule: HeaderQueue_pop_back_to.induct)
  case (1 H h work q)
  let ?b = "wr_height (hd (hq_headers q))" and ?n = "length (hq_deque q)"
  have ne: "?n > 0" using "1.prems" by (simp add: hq_inv_def)
  note hh = HeaderQueue_height_inv [OF "1.prems"(1)]
  show ?case
  proof (cases "HeaderQueue_height q \<ge> h")
    case True
    let ?q = "q\<lparr>hq_deque := butlast (hq_deque q)\<rparr>"
    have n: "h - ?b < ?n" "?n > 1" using True hh ne "1.prems"(2) by linarith+
    then obtain x y zs where d: "hq_deque q = x # y # zs" by (cases "hq_deque q" rule: remdups_adj.cases) auto
    have inv: "hq_inv H ?q"
      using "1.prems"(1) d successively_take [of "linked H" "hq_headers q" "?n - 1"]
      by (simp add: hq_inv_def butlast_conv_take flip: take_map)
    have hd: "hd (hq_headers ?q) = hd (hq_headers q)" by (simp add: d)
    have t: "take (h - ?b) (butlast (hq_deque q)) = take (h - ?b) (hq_deque q)"
      using n by (simp add: butlast_conv_take min_def)
    have r: "rev (drop (h - ?b) (hq_deque q)) = last (hq_deque q) # rev (drop (h - ?b) (butlast (hq_deque q)))"
    proof -
      let ?ys = "drop (h - ?b) (hq_deque q)"
      have "rev ?ys = last ?ys # rev (butlast ?ys)" using n by (cases ?ys rule: rev_cases) auto
      then show ?thesis using n by (simp add: butlast_drop)
    qed
    have ne': "hq_deque q \<noteq> []" using ne by simp
    have lt: "wr_height (hd (hq_headers ?q)) < h" using "1.prems"(2) by (simp only: hd)
    have "HeaderQueue_pop_back_to H h work q = HeaderQueue_pop_back_to H h
        (u256_add H work (WorkHeader_work H (last (hq_deque q)))) ?q"
      by (subst HeaderQueue_pop_back_to.simps) (simp only: True ne' if_True if_False)
    also note "1.IH" [OF True ne' inv lt]
    finally show ?thesis
      unfolding hd using r t by simp
  next
    case False
    then have "h - ?b \<ge> ?n" using hh ne by linarith
    with False show ?thesis by (subst HeaderQueue_pop_back_to.simps) simp
  qed
qed

subsection \<open>Pushing\<close>

lemma check_header_Ok:
  assumes "check_header H q prev header = Ok u"
  shows "linked H prev header"
    "\<exists>target. HeaderQueue_get_next_target H q header prev = Ok target
       \<and> is_ok (WrappedHeader_validate_pow H header target)"
  using assms by (auto simp: check_header_def linked_def)

lemma add_headers_Ok:
  assumes "add_headers H prev headers work q = (Ok w, q')"
  shows "w = foldl (u256_add H) work (map (WrappedHeader_work H) headers)
    \<and> (\<exists>news. hq_deque q' = hq_deque q @ news \<and> map wk_header news = headers)
    \<and> hq_config q' = hq_config q \<and> successively (linked H) (prev # headers)"
  using assms
proof (induction H prev headers work q rule: add_headers.induct)
  case (1 H prev work q)
  then show ?case by simp
next
  case (2 H prev header headers work q)
  from "2.prems" obtain u where ok: "check_header H q prev header = Ok u"
    by (auto split: result.splits)
  with "2.prems" "2.IH" [OF ok] show ?case
    using check_header_Ok(1) [OF ok]
    by (auto simp: push_header_def Let_def WorkHeader_new_def)
qed

subsection \<open>Pruning\<close>

lemma prune_headers_deque:
  "hq_deque (prune_headers H q) = drop (length (hq_deque q) - hc_max_length (hq_config q)) (hq_deque q)
   \<and> hq_config (prune_headers H q) = hq_config q"
proof (induction H q rule: prune_headers.induct)
  case (1 H q)
  show ?case
  proof (cases "HeaderQueue_len q > hc_max_length (hq_config q)")
    case True
    then obtain x xs where d: "hq_deque q = x # xs" by (cases "hq_deque q") (auto simp: HeaderQueue_len_def)
    with 1 [OF True] True show ?thesis
      by (subst (1 2) prune_headers.simps) (auto simp: HeaderQueue_len_def Suc_diff_le)
  next
    case False
    then show ?thesis by (subst (1 2) prune_headers.simps) (simp add: HeaderQueue_len_def)
  qed
qed

subsection \<open>Relaying\<close>

text \<open>The steps of a successful relay: the replaced headers are removed, then the new ones are added.\<close>

lemma add_into_iter_steps:
  assumes "HeaderQueue_add_into_iter H headers q = (Ok u, q')"
  obtains first rest removed q1 prev added q2 where "headers = first # rest"
    "if wr_height first \<le> HeaderQueue_height q then HeaderQueue_pop_back_to H (wr_height first) 0 q = (Ok removed, q1) else removed = 0 \<and> q1 = q"
    "wr_height first \<noteq> 0" "HeaderQueue_get_by_height q1 (wr_height first - 1) = Ok (Some prev)"
    "add_headers H (wk_header prev) headers 0 q1 = (Ok added, q2)" "removed < added" "q' = prune_headers H q2"
proof -
  from assms obtain first rest where hs: "headers = first # rest"
    by (cases headers) (auto simp: HeaderQueue_add_into_iter_def)
  with assms obtain removed q1 added q2 where
    pop: "if wr_height first \<le> HeaderQueue_height q then HeaderQueue_pop_back_to H (wr_height first) 0 q = (Ok removed, q1) else removed = 0 \<and> q1 = q"
    and push: "HeaderQueue_verify_and_add_headers H headers q1 = (Ok added, q2)" "removed < added" "q' = prune_headers H q2"
    by (auto simp: HeaderQueue_add_into_iter_def Let_def split: prod.splits result.splits if_splits option.splits)
  from push(1) obtain prev where "wr_height first \<noteq> 0" "HeaderQueue_get_by_height q1 (wr_height first - 1) = Ok (Some prev)"
    "add_headers H (wk_header prev) headers 0 q1 = (Ok added, q2)"
    by (auto simp: HeaderQueue_verify_and_add_headers_def hs split: result.splits option.splits if_splits)
  from hs pop this push(2,3) show ?thesis by (rule that)
qed

text \<open>The removal keeps a prefix, which is not empty when the predecessor of the first new header is found in it.\<close>

lemma removal_keeps_prefix:
  assumes "if h \<le> HeaderQueue_height q then HeaderQueue_pop_back_to H h 0 q = (Ok removed, q1) else removed = 0 \<and> q1 = q"
  obtains k where "q1 = q\<lparr>hq_deque := take k (hq_deque q)\<rparr>"
proof (cases "h \<le> HeaderQueue_height q")
  case True
  with assms have "HeaderQueue_pop_back_to H h 0 q = (Ok removed, q1)" by simp
  from pop_back_to_take [OF this] that show ?thesis by blast
next
  case False
  with assms have "q1 = q\<lparr>hq_deque := take (length (hq_deque q)) (hq_deque q)\<rparr>" by simp
  then show ?thesis by (rule that)
qed

lemma predecessor_bounds:
  assumes inv: "hq_inv H q" and q1: "q1 = q\<lparr>hq_deque := take k (hq_deque q)\<rparr>" and "h \<noteq> 0"
    and prev: "HeaderQueue_get_by_height q1 (h - 1) = Ok (Some prev)"
  shows "wr_height (hd (hq_headers q)) < h" "h \<le> HeaderQueue_height q + 1" "h - wr_height (hd (hq_headers q)) \<le> length (hq_deque q)"
    "hq_deque q1 \<noteq> []" "prev = hq_deque q1 ! (h - 1 - wr_height (hd (hq_headers q)))"
proof -
  let ?b = "wr_height (hd (hq_headers q))"
  have ne: "hq_deque q \<noteq> []" using inv by (auto simp: hq_inv_def)
  show k0: "hq_deque q1 \<noteq> []"
  proof
    assume "hq_deque q1 = []"
    with prev show False by (simp add: HeaderQueue_get_by_height_def)
  qed
  then have hd1: "hd (hq_headers q1) = hd (hq_headers q)" by (simp add: q1 hd_map ne)
  have b: "?b \<le> h - 1" "h - 1 - ?b < length (hq_deque q1)" and prev': "prev = hq_deque q1 ! (h - 1 - ?b)"
    using prev get_by_height_eq [of q1 "h - 1"] k0 hd1 q1 by (auto split: if_splits)
  show "prev = hq_deque q1 ! (h - 1 - ?b)" by (rule prev')
  from b assms(3) show lt: "?b < h" by simp
  have "length (hq_deque q1) \<le> length (hq_deque q)" by (simp add: q1)
  with b lt show "h \<le> HeaderQueue_height q + 1" "h - ?b \<le> length (hq_deque q)"
    using HeaderQueue_height_inv [OF inv] by linarith+
qed

lemma removal_exact:
  assumes inv: "hq_inv H q" and pop: "if h \<le> HeaderQueue_height q then HeaderQueue_pop_back_to H h 0 q = (Ok removed, q1) else removed = 0 \<and> q1 = q"
    and lt: "wr_height (hd (hq_headers q)) < h" and le: "h - wr_height (hd (hq_headers q)) \<le> length (hq_deque q)"
  shows "q1 = q\<lparr>hq_deque := take (h - wr_height (hd (hq_headers q))) (hq_deque q)\<rparr>"
    "removed = foldl (u256_add H) 0 (map (WrappedHeader_work H) (rev (drop (h - wr_height (hd (hq_headers q))) (hq_headers q))))"
proof -
  let ?n = "h - wr_height (hd (hq_headers q))"
  have ne: "hq_deque q \<noteq> []" using inv by (auto simp: hq_inv_def)
  have wk: "map (WorkHeader_work H) xs = map (WrappedHeader_work H) (map wk_header xs)" for xs
    by (simp add: WorkHeader_work_def)
  have "q1 = q\<lparr>hq_deque := take ?n (hq_deque q)\<rparr> \<and> removed = foldl (u256_add H) 0 (map (WorkHeader_work H) (rev (drop ?n (hq_deque q))))"
  proof (cases "h \<le> HeaderQueue_height q")
    case True
    with pop pop_back_to_below [OF inv lt, of 0] show ?thesis by simp
  next
    case False
    then have "?n = length (hq_deque q)" using le HeaderQueue_height_inv [OF inv] lt ne by (cases "hq_deque q") auto
    with False pop show ?thesis by simp
  qed
  then show "q1 = q\<lparr>hq_deque := take ?n (hq_deque q)\<rparr>"
    "removed = foldl (u256_add H) 0 (map (WrappedHeader_work H) (rev (drop ?n (hq_headers q))))"
    by (simp_all add: wk rev_map drop_map)
qed

text \<open>Everything a successful relay does, in one statement.\<close>

lemma add_into_iter_Ok:
  assumes inv: "hq_inv H q" and ok: "HeaderQueue_add_into_iter H headers q = (Ok u, q')"
  obtains first rest q2 where "headers = first # rest"
    "wr_height (hd (hq_headers q)) < wr_height first" "wr_height first \<le> HeaderQueue_height q + 1"
    "hq_headers q2 = below (wr_height first) (hq_headers q) @ headers"
    "hq_config q2 = hq_config q" "successively (linked H) (hq_headers q2)"
    "q' = prune_headers H q2"
    "foldl (u256_add H) 0 (map (WrappedHeader_work H) (rev (drop (wr_height first - wr_height (hd (hq_headers q))) (hq_headers q))))
      < foldl (u256_add H) 0 (map (WrappedHeader_work H) headers)"
proof -
  from ok obtain first rest removed q1 prev added q2 where hs: "headers = first # rest"
    and pop: "if wr_height first \<le> HeaderQueue_height q then HeaderQueue_pop_back_to H (wr_height first) 0 q = (Ok removed, q1) else removed = 0 \<and> q1 = q"
    and prev: "wr_height first \<noteq> 0" "HeaderQueue_get_by_height q1 (wr_height first - 1) = Ok (Some prev)"
    and add: "add_headers H (wk_header prev) headers 0 q1 = (Ok added, q2)" and more: "removed < added" and q': "q' = prune_headers H q2"
    by (rule add_into_iter_steps)
  let ?b = "wr_height (hd (hq_headers q))" and ?h = "wr_height first"
  from pop obtain k where k: "q1 = q\<lparr>hq_deque := take k (hq_deque q)\<rparr>" by (rule removal_keeps_prefix)
  note b = predecessor_bounds [OF inv k prev]
  note popped = removal_exact [OF inv pop b(1,3)]
  have succ: "successively (linked H) (hq_headers q)" using inv by (simp add: hq_inv_def)
  note add' = add_headers_Ok [OF add]
  from add' obtain news where news: "hq_deque q2 = hq_deque q1 @ news" "map wk_header news = headers" by blast
  have bl: "below ?h (hq_headers q) = hq_headers q1"
    using below_take [OF succ] b(1,4) popped(1) by (auto simp: take_map)
  have h2: "hq_headers q2 = below ?h (hq_headers q) @ headers" by (simp add: news bl)
  have "?h - 1 - ?b = length (hq_deque q1) - 1" using b(1,3) by (simp add: popped(1))
  then have last: "wk_header prev = last (hq_headers q1)" using b(4,5) by (simp add: last_conv_nth last_map)
  have "successively (linked H) (hq_headers q1)" using succ popped(1) by (simp add: successively_take flip: take_map)
  then have s2: "successively (linked H) (hq_headers q2)"
    using add' last b(4) unfolding h2 bl hs by (simp add: successively_append_iff)
  show ?thesis
    using that [OF hs b(1,2) h2 _ s2 q'] add' popped more by simp
qed

text \<open>The \<open>add\<close> call is \<open>add_into_iter\<close> behind the fee exemption and the relay limit.\<close>

lemma HeaderQueue_add_Ok:
  assumes "HeaderQueue_add H C headers q = (Ok u, q')"
  shows "HeaderQueue_add_into_iter H headers q = (Ok (), q')" "length headers \<le> MAX_RELAY"
proof -
  obtain r q1 where r: "HeaderQueue_add_into_iter H headers q = (r, q1)" by (cases "HeaderQueue_add_into_iter H headers q")
  with assms have "length headers \<le> MAX_RELAY" "map_err (app_error H) r = Ok u" "q1 = q'"
    by (auto simp: HeaderQueue_add_def Let_def split: result.splits if_splits)
  with r show "HeaderQueue_add_into_iter H headers q = (Ok (), q')" "length headers \<le> MAX_RELAY" by simp_all
qed

lemma trusted_queue_inv: "hq_inv H (trusted_queue H config decoded)"
  by (simp add: hq_inv_def trusted_queue_def Let_def)

subsection \<open>Work\<close>

text \<open>The documented behaviour of \<open>Uint256\<close> addition: exact as long as the sum fits.\<close>

definition u256_add_law :: "'m header_lib_scheme \<Rightarrow> bool" where
  "u256_add_law H \<longleftrightarrow> (\<forall>a b. a + b < 2 ^ 256 \<longrightarrow> u256_add H a b = a + b)"

lemma foldl_u256_add:
  "u256_add_law H \<Longrightarrow> a + sum_list xs < 2 ^ 256 \<Longrightarrow> foldl (u256_add H) a xs = a + sum_list xs"
  by (induction xs arbitrary: a) (auto simp: u256_add_law_def add.assoc)

definition total_work :: "'m header_lib_scheme \<Rightarrow> wrapped_header list \<Rightarrow> nat" where
  "total_work H hs = sum_list (map (WrappedHeader_work H) hs)"

lemma total_work_append [simp]: "total_work H (xs @ ys) = total_work H xs + total_work H ys"
  by (simp add: total_work_def)

lemma total_work_rev [simp]: "total_work H (rev xs) = total_work H xs"
  by (simp add: total_work_def flip: rev_map)

subsection \<open>Median time\<close>

lemma sorted_nth_count:
  assumes "sorted xs" and "k < length xs" and "xs ! k < (t :: 'a::linorder)"
  shows "Suc k \<le> length (filter (\<lambda>x. x < t) xs)"
proof -
  have "\<forall>x \<in> set (take (Suc k) xs). x < t"
    using assms sorted_nth_mono [OF assms(1) _ assms(2)] by (auto simp: in_set_conv_nth less_Suc_eq_le) (meson le_less_trans)
  then have "filter (\<lambda>x. x < t) (take (Suc k) xs) = take (Suc k) xs" by simp
  then have "length (filter (\<lambda>x. x < t) (take (Suc k) xs)) = Suc k" using assms(2) by simp
  moreover have "length (filter (\<lambda>x. x < t) xs) =
      length (filter (\<lambda>x. x < t) (take (Suc k) xs)) + length (filter (\<lambda>x. x < t) (drop (Suc k) xs))"
    by (metis append_take_drop_id filter_append length_append)
  ultimately show ?thesis by simp
qed

lemma sorted_nth_iff_count:
  assumes "sorted xs" and "k < length xs"
  shows "xs ! k < (t :: 'a::linorder) \<longleftrightarrow> Suc k \<le> length (filter (\<lambda>x. x < t) xs)"
proof
  assume "xs ! k < t"
  with assms show "Suc k \<le> length (filter (\<lambda>x. x < t) xs)" by (rule sorted_nth_count)
next
  assume n: "Suc k \<le> length (filter (\<lambda>x. x < t) xs)"
  show "xs ! k < t"
  proof (rule ccontr)
    assume "\<not> xs ! k < t"
    have "\<not> x < t" if "x \<in> set (drop k xs)" for x
    proof -
      from that obtain i where "i < length (drop k xs)" "x = drop k xs ! i" by (auto simp: in_set_conv_nth)
      then have "xs ! k \<le> x" using sorted_nth_mono [OF assms(1), of k "k + i"] by simp
      with \<open>\<not> xs ! k < t\<close> show ?thesis by simp
    qed
    then have "filter (\<lambda>x. x < t) (drop k xs) = []" by (simp add: filter_empty_conv)
    then have "length (filter (\<lambda>x. x < t) xs) = length (filter (\<lambda>x. x < t) (take k xs))"
      by (metis append_Nil2 append_take_drop_id filter_append)
    also have "\<dots> \<le> k" by (rule order_trans [OF length_filter_le]) simp
    finally show False using n by simp
  qed
qed

lemma filter_sort_length: "length (filter P (sort xs)) = length (filter P xs)"
  by (metis mset_filter mset_sort size_mset)

lemma validate_time_stamps:
  assumes "hq_inv H q" and "11 \<le> length (hq_deque q)"
  shows "map_result (\<lambda>i.
         rbind (sub_u (HeaderQueue_height q) i) (\<lambda>index.
         rbind (HeaderQueue_get_by_height q index) (\<lambda>found.
         rbind (ok_or (Header ''Deque does not contain any elements'') found) (\<lambda>item.
         Ok (WrappedHeader_time (wk_header item)))))) [0..<11]
    = Ok (map WrappedHeader_time (take 11 (rev (hq_headers q))))" (is "map_result ?f _ = _")
proof -
  let ?b = "wr_height (hd (hq_headers q))" and ?n = "length (hq_deque q)"
  have ne: "hq_deque q \<noteq> []" using assms(1) by (simp add: hq_inv_def)
  have "?f i = Ok (WrappedHeader_time (hq_headers q ! (?n - 1 - i)))" if "i < 11" for i
  proof -
    have h: "HeaderQueue_height q = ?b + (?n - 1)" by (rule HeaderQueue_height_inv [OF assms(1)])
    have i: "?n - 1 - i < ?n" "i \<le> ?b + (?n - 1)" "?b + (?n - 1) - i - ?b = ?n - 1 - i" "\<not> ?b + (?n - 1) - i < ?b"
      using that assms(2) by linarith+
    show ?thesis using i by (simp add: h sub_u_def get_by_height_eq [OF ne])
  qed
  then have "map_result ?f [0..<11] = Ok (map (\<lambda>i. WrappedHeader_time (hq_headers q ! (?n - 1 - i))) [0..<11])"
    by (intro map_result_total) simp
  also have "map (\<lambda>i. WrappedHeader_time (hq_headers q ! (?n - 1 - i))) [0..<11]
      = map WrappedHeader_time (take 11 (rev (hq_headers q)))"
    using assms(2) by (intro nth_equalityI) (auto simp: rev_nth)
  finally show ?thesis .
qed

lemma validate_time_median:
  assumes "hq_inv H q" and "11 \<le> length (hq_deque q)"
  shows "HeaderQueue_validate_time q header = Ok u \<longleftrightarrow>
    sort (map WrappedHeader_time (take 11 (rev (hq_headers q)))) ! 5 < WrappedHeader_time header"
  using assms(2) by (simp add: HeaderQueue_validate_time_def validate_time_stamps [OF assms] Let_def not_le)

subsection \<open>The list encoding\<close>

text \<open>The derived encoding of one header reads back, whatever follows it.\<close>

definition wrapped_codec_law :: "'m header_lib_scheme \<Rightarrow> wrapped_header \<Rightarrow> bool" where
  "wrapped_codec_law H h \<longleftrightarrow> (\<forall>r. decode_wrapped H (encode_wrapped H h @ r) = Ok (h, r))"

lemma decode_headers_concat:
  "list_all (wrapped_codec_law H) hs \<Longrightarrow>
   decode_headers H (length hs) (concat (map (encode_wrapped H) hs) @ r) = Ok (hs, r)"
  by (induction hs) (simp_all add: wrapped_codec_law_def)

subsection \<open>Conditionals on results\<close>

lemma if_Ok_eq_Ok: "(if c then Ok a else Ok b) = Ok x \<longleftrightarrow> x = (if c then a else b)"
  by auto

lemma min_less_if: "(if m < t then m else t) = min t (m :: 'a::linorder)"
  by (auto simp: min_def)

section \<open>A concrete instance\<close>

text \<open>The hash is the nonce, the work is the compact target, every proof-of-work is accepted.\<close>

definition demo_header_lib :: header_lib where
  "demo_header_lib =
     \<lparr>block_hash = (\<lambda>h. [word_of_nat (bh_nonce h)]), header_work = bh_bits, header_target = bh_bits,
      u256_from_compact = (\<lambda>c. c), compact_target_from_u256 = (\<lambda>t. t),
      header_validate_pow = (\<lambda>h t. Ok []), u256_add = (+), u256_sub = (-), u256_mul = (*),
      u256_div = (\<lambda>a b. if b = 0 then Err Panic else Ok (a div b)),
      consensus_encode = (\<lambda>h. []), decode_header = (\<lambda>b. Err Encoding),
      encode_wrapped = (\<lambda>h. []), decode_wrapped = (\<lambda>b. Err Encoding), error_display = (\<lambda>_. [])\<rparr>"

definition demo_header :: "u32 \<Rightarrow> nat \<Rightarrow> nat \<Rightarrow> nat \<Rightarrow> wrapped_header" where
  "demo_header height prev nonce bits = WrappedHeader_new
     \<lparr>bh_version = 1, bh_prev_blockhash = [word_of_nat prev], bh_merkle_root = [], bh_time = 100 + height,
      bh_bits = bits, bh_nonce = nonce\<rparr> height"

definition demo_header_config :: header_config where
  "demo_header_config = \<lparr>hc_max_length = 3, hc_max_time_increase = 7200, hc_trusted_height = 1,
     hc_retarget_interval = 2016, hc_target_spacing = 600, hc_target_timespan = 1209600, hc_max_target = 100,
     hc_retargeting = True, hc_min_difficulty_blocks = False, hc_encoded_trusted_header = []\<rparr>"

definition demo_fee_ctx :: ctx where
  "demo_fee_ctx = \<lparr>cx_time = None, cx_signer = None, cx_validators = None, cx_paid = Some (Ok ())\<rparr>"

definition demo_queue :: header_queue where
  "demo_queue =
     \<lparr>hq_deque = [WorkHeader_new (demo_header 1 0 1 5) 5, WorkHeader_new (demo_header 2 1 2 5) 10,
        WorkHeader_new (demo_header 3 2 3 5) 15],
      hq_current_work = 15, hq_config = demo_header_config\<rparr>"

lemmas demo_header_defs =
  demo_queue_def demo_header_def demo_header_config_def demo_header_lib_def demo_fee_ctx_def
  WorkHeader_new_def WrappedHeader_new_def

lemma demo_queue_inv: "hq_inv demo_header_lib demo_queue"
  by (simp add: hq_inv_def linked_def demo_header_defs WrappedHeader_prev_blockhash_def WrappedHeader_block_hash_def)

lemma demo_queue_added:
  "HeaderQueue_add demo_header_lib demo_fee_ctx [demo_header 2 1 2 5, demo_header 3 2 3 5]
     (trusted_queue demo_header_lib demo_header_config (wr_header (demo_header 1 0 1 5))) = (Ok (), demo_queue)"
  by (simp add: demo_header_defs HeaderQueue_add_def exempt_from_fee_def MAX_RELAY_def HeaderQueue_add_into_iter_def
      trusted_queue_def Let_def HeaderQueue_height_def HeaderQueue_verify_and_add_headers_def
      HeaderQueue_get_by_height_def check_header_def WrappedHeader_prev_blockhash_def WrappedHeader_block_hash_def
      HeaderQueue_get_next_target_def rem_u_def add_w_def WrappedHeader_validate_pow_def push_header_def
      WrappedHeader_work_def prune_headers.simps HeaderQueue_len_def WorkHeader_work_def)

text \<open>A longer branch from height 2 on, and one whose second header does not connect.\<close>

lemma demo_queue_reorg:
  "HeaderQueue_add demo_header_lib demo_fee_ctx [demo_header 2 1 7 5, demo_header 3 7 8 6] demo_queue
   = (Ok (), \<lparr>hq_deque = [WorkHeader_new (demo_header 1 0 1 5) 5, WorkHeader_new (demo_header 2 1 7 5) 20,
        WorkHeader_new (demo_header 3 7 8 6) 26],
      hq_current_work = 26, hq_config = demo_header_config\<rparr>)"
  by (simp add: demo_header_defs HeaderQueue_add_def exempt_from_fee_def MAX_RELAY_def HeaderQueue_add_into_iter_def
      trusted_queue_def Let_def HeaderQueue_height_def HeaderQueue_verify_and_add_headers_def
      HeaderQueue_get_by_height_def check_header_def WrappedHeader_prev_blockhash_def WrappedHeader_block_hash_def
      HeaderQueue_get_next_target_def rem_u_def add_w_def WrappedHeader_validate_pow_def push_header_def
      WrappedHeader_work_def prune_headers.simps HeaderQueue_len_def WorkHeader_work_def HeaderQueue_pop_back_to.simps)

lemma demo_queue_rejected:
  "HeaderQueue_add demo_header_lib demo_fee_ctx [demo_header 3 9 8 6] demo_queue
   = (Err (App ''Passed header references incorrect previous block hash''),
      demo_queue\<lparr>hq_deque := butlast (hq_deque demo_queue)\<rparr>)"
  by (simp add: demo_header_defs HeaderQueue_add_def exempt_from_fee_def MAX_RELAY_def HeaderQueue_add_into_iter_def
      Let_def HeaderQueue_height_def HeaderQueue_verify_and_add_headers_def app_error_def
      HeaderQueue_get_by_height_def check_header_def WrappedHeader_prev_blockhash_def WrappedHeader_block_hash_def
      add_w_def HeaderQueue_pop_back_to.simps WrappedHeader_work_def WorkHeader_work_def)

section \<open>Properties\<close>

text \<open>
  C16: a successful relay leaves a chain: the headers below the first relayed height stay, the
  relayed ones replace everything from there on, the oldest are pruned to the configured length,
  heights are consecutive and every header names its predecessor's hash.
\<close>

theorem relay_replaces_the_tail:
  assumes "hq_inv H q" and "HeaderQueue_add H C headers q = (Ok u, q')" and "0 < hc_max_length (hq_config q)"
  shows "hq_inv H q' \<and> length (hq_deque q') \<le> hc_max_length (hq_config q)
    \<and> (let chain = below (wr_height (hd headers)) (hq_headers q) @ headers in
        hq_headers q' = drop (length chain - hc_max_length (hq_config q)) chain)"
proof -
  note add = HeaderQueue_add_Ok [OF assms(2)]
  obtain first rest q2 where hs: "headers = first # rest"
    and h2: "hq_headers q2 = below (wr_height first) (hq_headers q) @ headers" "hq_config q2 = hq_config q"
    and succ: "successively (linked H) (hq_headers q2)" and q': "q' = prune_headers H q2"
    by (rule add_into_iter_Ok [OF assms(1) add(1)])
  let ?chain = "below (wr_height (hd headers)) (hq_headers q) @ headers"
  have len: "length (hq_deque q2) = length ?chain" using arg_cong [OF h2(1), of length] hs by simp
  have eq: "hq_headers q' = drop (length ?chain - hc_max_length (hq_config q)) ?chain"
  proof -
    have "hq_headers q' = drop (length (hq_deque q2) - hc_max_length (hq_config q)) (hq_headers q2)"
      using prune_headers_deque [of H q2] by (simp add: q' drop_map h2(2))
    then show ?thesis unfolding len h2(1) by (simp only: hs list.sel)
  qed
  have "successively (linked H) ?chain" using succ h2(1) hs by simp
  then have "successively (linked H) (hq_headers q')" unfolding eq by (rule successively_drop)
  moreover have "length (hq_headers q') = min (length ?chain) (hc_max_length (hq_config q))"
    unfolding eq length_drop by simp
  then have len': "length (hq_deque q') = min (length ?chain) (hc_max_length (hq_config q))"
    by (simp only: length_map)
  moreover have "hq_deque q' \<noteq> []" using len' assms(3) hs by (cases "hq_deque q'") auto
  ultimately show ?thesis unfolding hq_inv_def Let_def eq [symmetric] by simp
qed

theorem relay_replaces_the_tail_witness:
  "\<exists>q'. HeaderQueue_add demo_header_lib demo_fee_ctx [demo_header 2 1 7 5, demo_header 3 7 8 6] demo_queue = (Ok (), q')
    \<and> hq_inv demo_header_lib q'"
proof -
  have "0 < hc_max_length (hq_config demo_queue)" by (simp add: demo_queue_def demo_header_config_def)
  from relay_replaces_the_tail [OF demo_queue_inv demo_queue_reorg this] demo_queue_reorg show ?thesis by blast
qed

text \<open>
  C17: the queue only reorganises to more work: the relayed headers carry strictly more work than
  the headers they replace, so the work of the whole chain goes up.
\<close>

theorem relay_adds_work:
  assumes "hq_inv H q" and "HeaderQueue_add H C headers q = (Ok u, q')"
    and "u256_add_law H" and "total_work H (hq_headers q) + total_work H headers < 2 ^ 256"
  shows "total_work H (hq_headers q) < total_work H (below (wr_height (hd headers)) (hq_headers q) @ headers)"
proof -
  note add = HeaderQueue_add_Ok [OF assms(2)]
  obtain first rest q2 where hs: "headers = first # rest"
    and lt: "wr_height (hd (hq_headers q)) < wr_height first"
    and more: "foldl (u256_add H) 0 (map (WrappedHeader_work H)
         (rev (drop (wr_height first - wr_height (hd (hq_headers q))) (hq_headers q))))
      < foldl (u256_add H) 0 (map (WrappedHeader_work H) headers)"
    by (rule add_into_iter_Ok [OF assms(1) add(1)])
  let ?k = "wr_height first - wr_height (hd (hq_headers q))"
  have split: "total_work H (hq_headers q) = total_work H (take ?k (hq_headers q)) + total_work H (drop ?k (hq_headers q))"
    by (metis append_take_drop_id total_work_append)
  have "below (wr_height first) (hq_headers q) = take ?k (hq_headers q)"
    using assms(1) lt by (intro below_take) (auto simp: hq_inv_def)
  moreover have "total_work H (drop ?k (hq_headers q)) < total_work H headers"
    using more assms(4) split
    by (simp add: foldl_u256_add [OF assms(3)] flip: total_work_def)
  ultimately show ?thesis using hs split by simp
qed

theorem relay_adds_work_witness:
  "total_work demo_header_lib (hq_headers demo_queue)
     < total_work demo_header_lib (below 2 (hq_headers demo_queue) @ [demo_header 2 1 7 5, demo_header 3 7 8 6])"
proof -
  have law: "u256_add_law demo_header_lib" by (simp add: u256_add_law_def demo_header_lib_def)
  have fits: "total_work demo_header_lib (hq_headers demo_queue)
      + total_work demo_header_lib [demo_header 2 1 7 5, demo_header 3 7 8 6] < 2 ^ 256"
    by (simp add: total_work_def demo_header_defs WrappedHeader_work_def)
  have "wr_height (hd [demo_header 2 1 7 5, demo_header 3 7 8 6]) = 2" by (simp add: demo_header_defs)
  with relay_adds_work [OF demo_queue_inv demo_queue_reorg law fits] show ?thesis by simp
qed

text \<open>
  Lookup by height finds exactly the header of that height: \<open>None\<close> above the tip, an error
  below the oldest header kept.
\<close>

theorem lookup_by_height:
  assumes "hq_inv H q"
  shows "(case HeaderQueue_get_by_height q h of
      Ok (Some w) \<Rightarrow> w \<in> set (hq_deque q) \<and> wr_height (wk_header w) = h
    | Ok None \<Rightarrow> HeaderQueue_height q < h
    | Err e \<Rightarrow> h < wr_height (hd (hq_headers q)))
   \<and> (\<forall>w \<in> set (hq_deque q). HeaderQueue_get_by_height q (wr_height (wk_header w)) = Ok (Some w))"
proof -
  have ne: "hq_deque q \<noteq> []" using assms by (simp add: hq_inv_def)
  have "\<forall>w \<in> set (hq_deque q). HeaderQueue_get_by_height q (wr_height (wk_header w)) = Ok (Some w)"
    using get_by_height_Some [OF assms] by blast
  moreover have "HeaderQueue_height q < h" if "HeaderQueue_get_by_height q h = Ok None"
  proof -
    have "\<not> h - wr_height (hd (hq_headers q)) < length (hq_deque q)" "\<not> h < wr_height (hd (hq_headers q))"
      using that ne by (auto simp: get_by_height_eq split: if_splits)
    then show ?thesis using HeaderQueue_height_inv [OF assms] ne by (cases "hq_deque q") auto
  qed
  moreover have "h < wr_height (hd (hq_headers q))" if "HeaderQueue_get_by_height q h = Err e" for e
    using that ne by (auto simp: get_by_height_eq split: if_splits)
  ultimately show ?thesis
    using get_by_height_Some [OF assms, of h] by (auto split: result.splits option.splits)
qed

theorem lookup_by_height_witness:
  "HeaderQueue_get_by_height demo_queue 2 = Ok (Some (WorkHeader_new (demo_header 2 1 2 5) 10))"
proof -
  have "WorkHeader_new (demo_header 2 1 2 5) 10 \<in> set (hq_deque demo_queue)" by (simp add: demo_queue_def)
  moreover have "wr_height (wk_header (WorkHeader_new (demo_header 2 1 2 5) 10)) = 2"
    by (simp add: demo_header_defs)
  ultimately show ?thesis using lookup_by_height [OF demo_queue_inv, of 2] by metis
qed

text \<open>
  C18: the timestamp rule is Bitcoin's median rule: a header passes exactly when it is later than
  at least six of the last eleven headers, that is, later than their median.
\<close>

theorem validate_time_is_median_rule:
  assumes "hq_inv H q" and "11 \<le> length (hq_deque q)"
  shows "HeaderQueue_validate_time q header = Ok () \<longleftrightarrow>
    6 \<le> length (filter (\<lambda>w. WrappedHeader_time w < WrappedHeader_time header) (take 11 (rev (hq_headers q))))"
proof -
  let ?ts = "map WrappedHeader_time (take 11 (rev (hq_headers q)))"
  have "HeaderQueue_validate_time q header = Ok () \<longleftrightarrow> sort ?ts ! 5 < WrappedHeader_time header"
    by (rule validate_time_median [OF assms])
  also have "\<dots> \<longleftrightarrow> Suc 5 \<le> length (filter (\<lambda>t. t < WrappedHeader_time header) (sort ?ts))"
    using assms(2) by (intro sorted_nth_iff_count) auto
  finally show ?thesis by (simp add: filter_sort_length filter_map comp_def)
qed

definition demo_eleven :: header_queue where
  "demo_eleven = demo_queue\<lparr>hq_deque := map (\<lambda>i. WorkHeader_new (demo_header i (i - 1) i 5) (5 * i)) [1..<12]\<rparr>"

theorem validate_time_is_median_rule_witness:
  "HeaderQueue_validate_time demo_eleven (demo_header 12 11 12 5) = Ok ()
   \<and> 6 \<le> length (filter (\<lambda>w. WrappedHeader_time w < 112) (take 11 (rev (hq_headers demo_eleven))))"
proof -
  have inv: "hq_inv demo_header_lib demo_eleven"
    by (simp add: hq_inv_def demo_eleven_def linked_def demo_header_defs WrappedHeader_prev_blockhash_def
        WrappedHeader_block_hash_def upt_rec)
  have len: "11 \<le> length (hq_deque demo_eleven)" by (simp add: demo_eleven_def)
  have ok: "HeaderQueue_validate_time demo_eleven (demo_header 12 11 12 5) = Ok ()"
    unfolding validate_time_median [OF inv len]
    by (simp add: demo_eleven_def demo_header_defs WrappedHeader_time_def upt_rec)
  with validate_time_is_median_rule [OF inv len, of "demo_header 12 11 12 5"] show ?thesis
    by (simp add: demo_header_def WrappedHeader_time_def WrappedHeader_new_def)
qed

text \<open>
  A retarget scales the previous target by the time the period took, clamped to between a
  quarter of the target timespan and four times it, rounds it through its compact form, and never
  exceeds the configured maximum target.
\<close>

theorem retarget_bounded:
  assumes "HeaderQueue_calculate_next_target H q header h = Ok target" and "hc_retargeting (hq_config q)"
  shows "target \<le> u256_from_compact H (hc_max_target (hq_config q))
    \<and> (\<exists>w span t. HeaderQueue_get_by_height q h = Ok (Some w)
        \<and> hc_target_timespan (hq_config q) div 4 \<le> span \<and> span \<le> hc_target_timespan (hq_config q) * 4
        \<and> (hc_target_timespan (hq_config q) div 4 \<le> WrappedHeader_time header - WrappedHeader_time (wk_header w)
           \<and> WrappedHeader_time header - WrappedHeader_time (wk_header w) \<le> hc_target_timespan (hq_config q) * 4
           \<longrightarrow> span = WrappedHeader_time header - WrappedHeader_time (wk_header w))
        \<and> u256_div H (u256_mul H (WrappedHeader_target H header) span) (hc_target_timespan (hq_config q)) = Ok t
        \<and> target = min (u256_from_compact H (compact_target_from_u256 H t))
                       (u256_from_compact H (hc_max_target (hq_config q))))"
proof -
  let ?c = "hq_config q"
  let ?T = "hc_target_timespan ?c"
  from assms obtain w t where w: "HeaderQueue_get_by_height q h = Ok (Some w)"
    and div: "u256_div H (u256_mul H (WrappedHeader_target H header)
         (let s = WrappedHeader_time header - WrappedHeader_time (wk_header w);
              s = (if s < ?T div 4 then ?T div 4 else s) in if s > ?T * 4 then ?T * 4 else s)) ?T = Ok t"
    and target: "target = min (u256_from_compact H (compact_target_from_u256 H t)) (u256_from_compact H (hc_max_target ?c))"
    by (auto simp: HeaderQueue_calculate_next_target_def Let_def u32_to_u256_def if_Ok_eq_Ok min_less_if
        split del: if_split)
  let ?s = "let s = WrappedHeader_time header - WrappedHeader_time (wk_header w);
              s = (if s < ?T div 4 then ?T div 4 else s) in if s > ?T * 4 then ?T * 4 else s"
  have "?T div 4 \<le> ?s" "?s \<le> ?T * 4" by (auto simp: Let_def)
  moreover have "?T div 4 \<le> WrappedHeader_time header - WrappedHeader_time (wk_header w)
      \<and> WrappedHeader_time header - WrappedHeader_time (wk_header w) \<le> ?T * 4
      \<longrightarrow> ?s = WrappedHeader_time header - WrappedHeader_time (wk_header w)"
    by (auto simp: Let_def)
  ultimately show ?thesis using w div target by (metis min.cobounded2)
qed

theorem retarget_bounded_witness:
  "HeaderQueue_calculate_next_target demo_header_lib
     (demo_queue\<lparr>hq_config := demo_header_config\<lparr>hc_retarget_interval := 2\<rparr>\<rparr>) (demo_header 3 2 3 5) 1 = Ok 1
   \<and> (1 :: nat) \<le> 100"
proof -
  let ?q = "demo_queue\<lparr>hq_config := demo_header_config\<lparr>hc_retarget_interval := 2\<rparr>\<rparr>"
  have ok: "HeaderQueue_calculate_next_target demo_header_lib ?q (demo_header 3 2 3 5) 1 = Ok 1"
    by (simp add: HeaderQueue_calculate_next_target_def demo_header_defs HeaderQueue_get_by_height_def Let_def
        WrappedHeader_time_def WrappedHeader_target_def sub_u_def mul_w_def u32_to_u256_def)
  have "hc_retargeting (hq_config ?q)" by (simp add: demo_header_config_def)
  from retarget_bounded [OF ok this] ok show ?thesis by (simp add: demo_header_defs)
qed

text \<open>
  A header list of fewer than 256 headers survives its wire format, whatever follows it in the
  stream; a longer one is refused instead of having its length truncated to a byte.
\<close>

theorem header_list_roundtrip:
  assumes "list_all (wrapped_codec_law H) headers"
  shows "(case HeaderList_encode H headers of
      Ok b \<Rightarrow> HeaderList_decode H (b @ r) = Ok (headers, r) \<and> length b = HeaderList_encoding_length H headers
    | Err e \<Rightarrow> 256 \<le> length headers)"
proof (cases "length headers < 256")
  case True
  then have "unat (word_of_nat (length headers) :: u8) = length headers"
    by (simp add: unat_of_nat)
  with True show ?thesis
    using decode_headers_concat [OF assms, of r]
    by (simp add: HeaderList_encode_def HeaderList_decode_def HeaderList_encoding_length_def length_concat comp_def)
next
  case False
  then show ?thesis by (simp add: HeaderList_encode_def)
qed

definition demo_codec_lib :: header_lib where
  "demo_codec_lib = demo_header_lib\<lparr>encode_wrapped := (\<lambda>h. [word_of_nat (bh_nonce (wr_header h))]),
     decode_wrapped := (\<lambda>b. case b of [] \<Rightarrow> Err Encoding | n # r \<Rightarrow> Ok (demo_header 2 7 (unat n) 5, r))\<rparr>"

theorem header_list_roundtrip_witness:
  "HeaderList_encode demo_codec_lib [demo_header 2 7 8 5, demo_header 2 7 9 5] = Ok [2, 8, 9]
   \<and> HeaderList_decode demo_codec_lib [2, 8, 9, 7] = Ok ([demo_header 2 7 8 5, demo_header 2 7 9 5], [7])"
proof -
  let ?hs = "[demo_header 2 7 8 5, demo_header 2 7 9 5]"
  have law: "list_all (wrapped_codec_law demo_codec_lib) ?hs"
    by (simp add: wrapped_codec_law_def demo_codec_lib_def demo_header_def WrappedHeader_new_def)
  have enc: "HeaderList_encode demo_codec_lib ?hs = Ok [2, 8, 9]"
    by (simp add: HeaderList_encode_def demo_codec_lib_def demo_header_def WrappedHeader_new_def)
  from header_list_roundtrip [OF law, of "[7]"] enc show ?thesis by simp
qed

text \<open>
  A reorganisation leaves \<open>current_work\<close> wrong: it still counts the removed headers, although
  the queue documents it as the work of the headers it holds.
\<close>

theorem reorg_overcounts_current_work:
  "\<exists>headers q'. HeaderQueue_add demo_header_lib demo_fee_ctx headers demo_queue = (Ok (), q')
    \<and> hq_current_work demo_queue = total_work demo_header_lib (hq_headers demo_queue)
    \<and> hq_current_work q' = 26 \<and> total_work demo_header_lib (hq_headers q') = 16"
proof -
  have "hq_current_work demo_queue = total_work demo_header_lib (hq_headers demo_queue)"
    by (simp add: total_work_def WrappedHeader_work_def demo_header_defs)
  moreover have "total_work demo_header_lib
      (map wk_header [WorkHeader_new (demo_header 1 0 1 5) 5, WorkHeader_new (demo_header 2 1 7 5) 20,
        WorkHeader_new (demo_header 3 7 8 6) 26]) = 16"
    by (simp add: total_work_def WrappedHeader_work_def demo_header_defs)
  ultimately show ?thesis using demo_queue_reorg by fastforce
qed

text \<open>
  A rejected relay changes the queue it was called on, although \<open>add\<close> documents that the queue
  is not modified on an error: the replaced headers are gone before the new ones are checked.
\<close>

theorem rejected_relay_pops_headers:
  "\<exists>headers e q'. HeaderQueue_add demo_header_lib demo_fee_ctx headers demo_queue = (Err e, q')
    \<and> length (hq_deque demo_queue) = 3 \<and> length (hq_deque q') = 2"
proof -
  have "length (hq_deque demo_queue) = 3" by (simp add: demo_queue_def)
  then show ?thesis using demo_queue_rejected by (intro exI) (auto simp: length_butlast)
qed

end
