(* ===== verification/Checkpoint_Advance.thy ===== *)
theory Checkpoint_Advance
  imports Checkpoint Header_Queue
begin

text \<open>
  Freezing a checkpoint (\<open>BuildingCheckpointMut\<close> in src/src/bitcoin/checkpoint.rs): the reserve
  output and fee of the checkpoint transaction, the transactions of the emergency disbursal with
  their fees, and the sighashes. The balances of nBTC accounts are a function, the recovery scripts
  an ordered map, and the outputs passed in from outside a list of results.
\<close>

section \<open>The emergency disbursal\<close>

definition link_intermediate_tx ::
  "'m tx_lib_scheme \<Rightarrow> u64 \<times> u64 \<Rightarrow> bitcoin_tx \<Rightarrow> checkpoint \<Rightarrow> (bitcoin_tx \<times> checkpoint) result" where
  "link_intermediate_tx L threshold tx cp =
     (let sigset = cp_sigset cp in
      rbind (SignatorySet_output_script L sigset [0] threshold) (\<lambda>output_script.
      rbind (BitcoinTx_value tx) (\<lambda>tx_value.
      rbind (get_batch IntermediateTx cp) (\<lambda>b.
      rbind (get_tx b) (\<lambda>intermediate_tx.
      let num_outputs = length (bt_output intermediate_tx) in
      if num_outputs \<ge> 2 ^ 32 then Err TryFrom
      else
      rbind (BitcoinTx_txid L intermediate_tx) (\<lambda>txid.
      rbind (Input_new L (txid, num_outputs) sigset [0] tx_value threshold) (\<lambda>final_tx_input.
      let out = \<lparr>to_value = tx_value, to_script_pubkey = output_script\<rparr>;
          intermediate_tx = intermediate_tx\<lparr>bt_output := bt_output intermediate_tx @ [out]\<rparr> in
      Ok (tx\<lparr>bt_input := bt_input tx @ [final_tx_input]\<rparr>,
          set_batch IntermediateTx (set_tx intermediate_tx b) cp))))))))"

text \<open>
  The closure of \<open>retain_unordered\<close>: it keeps a final transaction (\<open>Some\<close>) whose input matches a
  remaining output of the intermediate transaction, and takes that output off the list.
\<close>

fun take_match :: "u64 \<Rightarrow> (nat \<times> u64) list \<Rightarrow> (nat \<times> (nat \<times> u64) list) option" where
  "take_match amount [] = None"
| "take_match amount ((vout, value) # outs) =
     (if value = amount then Some (vout, outs)
      else map_option (\<lambda>(v, r). (v, (vout, value) # r)) (take_match amount outs))"

definition disburse_tx ::
  "'m header_lib_scheme \<Rightarrow> 'l tx_lib_scheme \<Rightarrow> bytes \<Rightarrow> u64 \<Rightarrow> u64 \<Rightarrow> u64 \<Rightarrow> (nat \<times> u64) list \<Rightarrow> bitcoin_tx
     \<Rightarrow> (bitcoin_tx option \<times> (nat \<times> u64) list) result" where
  "disburse_tx H L txid fee_total len fee_rate outs tx =
     (case bt_input tx of
        [] \<Rightarrow> Ok (None, outs)
      | input # inputs \<Rightarrow>
          rbind (div_u fee_total len) (\<lambda>share.
          if in_amount input < share then Ok (None, outs)
          else
          rbind (sub_u (in_amount input) share) (\<lambda>amount.
          case take_match amount outs of
            None \<Rightarrow> Ok (None, outs)
          | Some (vout, outs) \<Rightarrow>
              let input = input\<lparr>in_amount := amount, in_prevout := (txid, vout mod 2 ^ 32)\<rparr>;
                  tx = tx\<lparr>bt_input := input # inputs\<rparr> in
              rbind (map_err (app_error H) (BitcoinTx_est_vsize L tx)) (\<lambda>tx_size.
              rbind (mul_u64 tx_size fee_rate) (\<lambda>own.
              rbind (add_u64 share own) (\<lambda>fee.
              rbind (map_err (app_error H) (BitcoinTx_deduct_fee L fee tx)) (\<lambda>tx.
              Ok (Some tx, outs))))))))"

fun disburse_txs ::
  "'m header_lib_scheme \<Rightarrow> 'l tx_lib_scheme \<Rightarrow> bytes \<Rightarrow> u64 \<Rightarrow> u64 \<Rightarrow> u64 \<Rightarrow> (nat \<times> u64) list \<Rightarrow> bitcoin_tx list
     \<Rightarrow> bitcoin_tx list result" where
  "disburse_txs H L txid fee_total len fee_rate outs [] = Ok []"
| "disburse_txs H L txid fee_total len fee_rate outs (tx # txs) =
     rbind (disburse_tx H L txid fee_total len fee_rate outs tx) (\<lambda>(kept, outs).
     rbind (disburse_txs H L txid fee_total len fee_rate outs txs) (\<lambda>txs.
     Ok (case kept of None \<Rightarrow> txs | Some tx \<Rightarrow> tx # txs)))"

text \<open>The second half of \<open>deduct_emergency_disbursal_fees\<close>: the final transactions.\<close>

definition disburse_finals ::
  "'m header_lib_scheme \<Rightarrow> 'l tx_lib_scheme \<Rightarrow> bytes \<Rightarrow> u64 \<Rightarrow> u64 \<Rightarrow> bitcoin_tx \<Rightarrow> checkpoint \<Rightarrow> checkpoint result" where
  "disburse_finals H L txid fee fee_rate intermediate_tx cp =
     (let len = length (bt_output intermediate_tx) in
      if len = 0 then Ok cp
      else
      let outs = enumerate 0 (map to_value (bt_output intermediate_tx)) in
      rbind (get_batch Disbursal cp) (\<lambda>d.
      rbind (disburse_txs H L txid fee len fee_rate outs (rearrange (visit_txs L) (ba_batch d))) (\<lambda>txs.
      Ok (set_batch Disbursal (d\<lparr>ba_batch := rearrange (arrange_txs L) txs\<rparr>) cp))))"

definition deduct_emergency_disbursal_fees ::
  "'m header_lib_scheme \<Rightarrow> 'l tx_lib_scheme \<Rightarrow> u64 \<Rightarrow> checkpoint \<Rightarrow> checkpoint result" where
  "deduct_emergency_disbursal_fees H L fee_rate cp =
     rbind (get_batch IntermediateTx cp) (\<lambda>b.
     rbind (get_tx b) (\<lambda>intermediate_tx.
     rbind (BitcoinTx_est_vsize L intermediate_tx) (\<lambda>vsize.
     rbind (mul_u64 vsize fee_rate) (\<lambda>fee.
     rbind (BitcoinTx_deduct_fee L fee intermediate_tx) (\<lambda>intermediate_tx.
     let cp = set_batch IntermediateTx (set_tx intermediate_tx b) cp in
     rbind (BitcoinTx_txid L intermediate_tx) (\<lambda>txid.
     disburse_finals H L txid fee fee_rate intermediate_tx cp))))))"

text \<open>The outputs owed to nBTC accounts with a recovery script and to pending transfers.\<close>

definition account_outputs :: "(address \<Rightarrow> u64) \<Rightarrow> (address \<times> bytes) list \<Rightarrow> txout list" where
  "account_outputs balance recovery_scripts =
     map (\<lambda>(addr, script). \<lparr>to_value = balance addr div 1000000, to_script_pubkey = script\<rparr>) recovery_scripts"

definition pending_outputs :: "(address \<times> bytes) list \<Rightarrow> pending_map \<Rightarrow> txout list" where
  "pending_outputs recovery_scripts pending =
     List.map_filter (\<lambda>((dest, _), amount).
       map_option (\<lambda>script. \<lparr>to_value = amount div 1000000, to_script_pubkey = script\<rparr>)
         (Dest_to_output_script recovery_scripts dest)) pending"

text \<open>The loop that packs outputs into final transactions: the finished ones, the current one and
  the checkpoint (whose intermediate transaction grows).\<close>

definition pack_output ::
  "'m tx_lib_scheme \<Rightarrow> checkpoint_config \<Rightarrow> u32 \<Rightarrow> bitcoin_tx list \<times> bitcoin_tx \<times> checkpoint \<Rightarrow> txout result
     \<Rightarrow> (bitcoin_tx list \<times> bitcoin_tx \<times> checkpoint) result" where
  "pack_output L config lock_time = (\<lambda>(final_txs, curr_tx, cp) output.
     rbind output (\<lambda>output.
     if to_value output < cc_emergency_disbursal_min_tx_amt config then Ok (final_txs, curr_tx, cp)
     else
     rbind (BitcoinTx_est_vsize L curr_tx) (\<lambda>vsize.
     rbind (if vsize \<ge> cc_emergency_disbursal_max_tx_size config then
              rbind (link_intermediate_tx L (cc_sigset_threshold config) curr_tx cp) (\<lambda>(tx, cp).
              Ok (final_txs @ [tx], BitcoinTx_with_lock_time lock_time, cp))
            else Ok (final_txs, curr_tx, cp)) (\<lambda>(final_txs, curr_tx, cp).
     Ok (final_txs, curr_tx\<lparr>bt_output := bt_output curr_tx @ [output]\<rparr>, cp)))))"

text \<open>Filling in the sighash of every input of a transaction.\<close>

definition populate_inputs :: "'m tx_lib_scheme \<Rightarrow> bitcoin_tx \<Rightarrow> bitcoin_tx result" where
  "populate_inputs L tx =
     fold_result (\<lambda>tx j. BitcoinTx_populate_input_sig_message L j tx) tx [0..<length (bt_input tx)]"

text \<open>The intermediate transaction once all final transactions are linked: it spends the reserve
  output and pays what is left back to the signatory set.\<close>

definition fund_intermediate_tx ::
  "'m tx_lib_scheme \<Rightarrow> checkpoint_config \<Rightarrow> u32 \<Rightarrow> outpoint \<Rightarrow> u64 \<Rightarrow> checkpoint \<Rightarrow> checkpoint result" where
  "fund_intermediate_tx L config lock_time reserve_outpoint reserve_value cp =
     rbind (Input_new L reserve_outpoint (cp_sigset cp) [0] reserve_value (cc_sigset_threshold config)) (\<lambda>tx_in.
     rbind (SignatorySet_output_script L (cp_sigset cp) [0] (cc_sigset_threshold config)) (\<lambda>output_script.
     rbind (get_batch IntermediateTx cp) (\<lambda>b.
     rbind (get_tx b) (\<lambda>tx.
     let tx = tx\<lparr>bt_lock_time := lock_time, bt_input := bt_input tx @ [tx_in]\<rparr> in
     rbind (BitcoinTx_value tx) (\<lambda>out_value.
     rbind (sub_u reserve_value out_value) (\<lambda>excess_value.
     let tx = tx\<lparr>bt_output := bt_output tx @ [\<lparr>to_value = excess_value, to_script_pubkey = output_script\<rparr>]\<rparr> in
     Ok (set_batch IntermediateTx (set_tx tx b) cp)))))))"

definition generate_emergency_disbursal_txs ::
  "'m header_lib_scheme \<Rightarrow> 'l tx_lib_scheme \<Rightarrow> ctx \<Rightarrow> (address \<Rightarrow> u64) \<Rightarrow> (address \<times> bytes) list \<Rightarrow> outpoint
     \<Rightarrow> txout result list \<Rightarrow> u64 \<Rightarrow> u64 \<Rightarrow> checkpoint_config \<Rightarrow> checkpoint \<Rightarrow> checkpoint result" where
  "generate_emergency_disbursal_txs H L C balance recovery_scripts reserve_outpoint external_outputs
       fee_rate reserve_value config cp =
     rbind (get_batch IntermediateTx cp) (\<lambda>b.
     if ba_batch b = [] then Ok cp
     else
     rbind (ok_or (Coins ''No Time context found'') (cx_time C)) (\<lambda>seconds.
     rbind (add_u32 (as_u32 seconds) (cc_emergency_disbursal_lock_time_interval config)) (\<lambda>lock_time.
     let outputs = map Ok (account_outputs balance recovery_scripts)
           @ map Ok (pending_outputs recovery_scripts (cp_pending cp)) @ external_outputs in
     rbind (fold_result (pack_output L config lock_time) ([], BitcoinTx_with_lock_time lock_time, cp) outputs)
       (\<lambda>(final_txs, last_tx, cp).
     rbind (link_intermediate_tx L (cc_sigset_threshold config) last_tx cp) (\<lambda>(last_tx, cp).
     rbind (fund_intermediate_tx L config lock_time reserve_outpoint reserve_value cp) (\<lambda>cp.
     rbind (get_batch Disbursal cp) (\<lambda>d.
     let cp = set_batch Disbursal (d\<lparr>ba_batch := ba_batch d @ final_txs @ [last_tx]\<rparr>) cp in
     rbind (deduct_emergency_disbursal_fees H L fee_rate cp) (\<lambda>cp.
     rbind (get_batch Disbursal cp) (\<lambda>d.
     rbind (map_result (populate_inputs L) (ba_batch d)) (\<lambda>txs.
     let cp = set_batch Disbursal (d\<lparr>ba_batch := txs\<rparr>) cp in
     rbind (get_batch IntermediateTx cp) (\<lambda>b.
     rbind (get_tx b) (\<lambda>tx.
     rbind (BitcoinTx_populate_input_sig_message L 0 tx) (\<lambda>tx.
     Ok (set_batch IntermediateTx (set_tx tx b) cp))))))))))))))"

section \<open>Freezing the checkpoint transaction\<close>

text \<open>The funding input and output of the \<open>i\<close>-th other transaction of the checkpoint batch.\<close>

definition fund_other_tx ::
  "'m tx_lib_scheme \<Rightarrow> signatory_set \<Rightarrow> u64 \<Rightarrow> nat \<Rightarrow> bitcoin_tx list \<Rightarrow> nat \<Rightarrow> bitcoin_tx list result" where
  "fund_other_tx L sigset fee_rate checkpoint_outs txs i =
     (let tx = txs ! i in
      rbind (BitcoinTx_value tx) (\<lambda>value.
      rbind (add_u32 (checkpoint_outs mod 2 ^ 32) (i mod 2 ^ 32)) (\<lambda>vout.
      rbind (sub_u vout 1) (\<lambda>vout.
      rbind (Input_new L (replicate 32 0, vout) sigset [0] value SIGSET_THRESHOLD) (\<lambda>input.
      rbind (BitcoinTx_est_vsize L (tx\<lparr>bt_input := bt_input tx @ [input]\<rparr>)) (\<lambda>vsize.
      rbind (mul_u64 vsize fee_rate) (\<lambda>fee.
      rbind (add_u64 (in_amount input) fee) (\<lambda>amount.
      let tx = tx\<lparr>bt_input := bt_input tx @ [input\<lparr>in_amount := amount\<rparr>]\<rparr>;
          txs = txs[i := tx] in
      rbind (SignatorySet_output_script L sigset [0] SIGSET_THRESHOLD) (\<lambda>script.
      let front = txs ! 0;
          out = \<lparr>to_value = value, to_script_pubkey = script\<rparr> in
      Ok (txs[0 := front\<lparr>bt_output := bt_output front @ [out]\<rparr>]))))))))))"

text \<open>\<open>pop_back\<close> while there are more than \<open>n\<close> elements: the ones left and the ones removed.\<close>

function pop_excess :: "nat \<Rightarrow> 'a list \<Rightarrow> 'a list \<Rightarrow> 'a list \<times> 'a list" where
  "pop_excess n xs excess =
     (if length xs > n then pop_excess n (butlast xs) (excess @ [last xs]) else (xs, excess))"
  by pat_completeness auto
termination
  by (relation "measure (\<lambda>(n, xs, excess). length xs)") auto

declare pop_excess.simps [simp del]

definition sum_inputs :: "input list \<Rightarrow> u64 result" where
  "sum_inputs inputs = fold_result (\<lambda>sum input. add_u64 sum (in_amount input)) 0 inputs"

definition sum_outputs :: "txout list \<Rightarrow> u64 result" where
  "sum_outputs outs = fold_result (\<lambda>sum out. add_u64 sum (to_value out)) 0 outs"

text \<open>The sighash of every input of the finished checkpoint transaction.\<close>

definition set_sighashes :: "'m tx_lib_scheme \<Rightarrow> transaction \<Rightarrow> input list \<Rightarrow> input list result" where
  "set_sighashes L btc_tx inputs =
     map_result (\<lambda>(i, input).
       rbind (segwit_signature_hash L btc_tx i (in_redeem_script input) (in_amount input)) (\<lambda>sighash.
       Ok (input\<lparr>in_signatures := ThresholdSig_set_message sighash (in_signatures input)\<rparr>)))
       (enumerate 0 inputs)"

type_synonym advance_res = "outpoint \<times> u64 \<times> u64 \<times> input list \<times> txout list"

text \<open>The finished checkpoint transaction with the data \<open>advance\<close> returns.\<close>

definition finish_checkpoint_tx ::
  "'m tx_lib_scheme \<Rightarrow> checkpoint_config \<Rightarrow> u64 \<Rightarrow> u64 \<Rightarrow> bitcoin_tx \<Rightarrow> (bitcoin_tx \<times> advance_res) result" where
  "finish_checkpoint_tx L config base_fee additional_fees tx =
     (let (inputs, excess_inputs) = pop_excess (cc_max_inputs config) (bt_input tx) [];
          (outputs, excess_outputs) = pop_excess (cc_max_outputs config) (bt_output tx) [] in
      rbind (sum_inputs inputs) (\<lambda>in_amount.
      rbind (sum_outputs outputs) (\<lambda>out_amount.
      rbind (add_u64 base_fee additional_fees) (\<lambda>fee.
      rbind (add_u64 out_amount fee) (\<lambda>spent.
      if in_amount < spent then Err (App ''Insufficient funds to cover fees'')
      else
      let reserve_value = in_amount - spent in
      case outputs of
        [] \<Rightarrow> Err Panic
      | reserve_out # outs \<Rightarrow>
          let tx = tx\<lparr>bt_input := inputs, bt_output := reserve_out\<lparr>to_value := reserve_value\<rparr> # outs\<rparr> in
          rbind (BitcoinTx_to_bitcoin_tx L tx) (\<lambda>btc_tx.
          rbind (set_sighashes L btc_tx inputs) (\<lambda>inputs.
          Ok (tx\<lparr>bt_input := inputs\<rparr>,
              ((tx_txid L btc_tx, 0), reserve_value, fee, excess_inputs, excess_outputs)))))))))"

text \<open>Setting the transaction id in the first input of each other transaction.\<close>

definition set_funding_txid :: "bytes \<Rightarrow> bitcoin_tx \<Rightarrow> bitcoin_tx result" where
  "set_funding_txid txid tx =
     (case bt_input tx of
        [] \<Rightarrow> Err Panic
      | input # inputs \<Rightarrow>
          Ok (tx\<lparr>bt_input := input\<lparr>in_prevout := (txid, snd (in_prevout input))\<rparr> # inputs\<rparr>))"

definition BuildingCheckpoint_advance ::
  "'m header_lib_scheme \<Rightarrow> 'l tx_lib_scheme \<Rightarrow> ctx \<Rightarrow> (address \<Rightarrow> u64) \<Rightarrow> (address \<times> bytes) list
     \<Rightarrow> txout result list \<Rightarrow> bytes \<Rightarrow> u64 \<Rightarrow> checkpoint_config \<Rightarrow> checkpoint
     \<Rightarrow> (checkpoint \<times> advance_res) result" where
  "BuildingCheckpoint_advance H L C balance recovery_scripts external_outputs timestamping_commitment
       additional_fees config cp =
     (let cp = cp\<lparr>cp_status := Signing\<rparr> in
      rbind (Checkpoint_additional_outputs L config timestamping_commitment cp) (\<lambda>outs.
      rbind (Checkpoint_base_fee L config timestamping_commitment cp) (\<lambda>base_fee.
      rbind (get_batch Checkpoint_batch cp) (\<lambda>b.
      rbind (get_tx b) (\<lambda>tx.
      let txs = (ba_batch b)[0 := tx\<lparr>bt_output := outs @ bt_output tx\<rparr>];
          checkpoint_outs = length (outs @ bt_output tx) in
      rbind (fold_result (fund_other_tx L (cp_sigset cp) (cp_fee_rate cp) checkpoint_outs) txs [1..<length txs]) (\<lambda>txs.
      rbind (finish_checkpoint_tx L config base_fee additional_fees (txs ! 0)) (\<lambda>(tx, res).
      let (reserve_outpoint, reserve_value, fee, excess_inputs, excess_outputs) = res;
          cp = set_batch Checkpoint_batch (b\<lparr>ba_batch := txs[0 := tx]\<rparr>) cp in
      rbind (generate_emergency_disbursal_txs H L C balance recovery_scripts reserve_outpoint external_outputs
               (cp_fee_rate cp) reserve_value config cp) (\<lambda>cp.
      rbind (get_batch Checkpoint_batch cp) (\<lambda>b.
      rbind (map_result (set_funding_txid (fst reserve_outpoint)) (tl (ba_batch b))) (\<lambda>others.
      Ok (set_batch Checkpoint_batch (b\<lparr>ba_batch := hd (ba_batch b) # others\<rparr>) cp, res)))))))))))"


section \<open>What the freezing step keeps\<close>

text \<open>The emergency disbursal is written to the first two batches only.\<close>

definition disbursal_frame :: "checkpoint \<Rightarrow> checkpoint \<Rightarrow> bool" where
  "disbursal_frame cp cp' \<longleftrightarrow> cp' = cp\<lparr>cp_batches := cp_batches cp'\<rparr>
     \<and> length (cp_batches cp') = length (cp_batches cp)
     \<and> (\<forall>i. 1 < i \<longrightarrow> i < length (cp_batches cp) \<longrightarrow> cp_batches cp' ! i = cp_batches cp ! i)"

lemma disbursal_frame_refl [simp]: "disbursal_frame cp cp"
  by (simp add: disbursal_frame_def)

lemma disbursal_frame_trans: "disbursal_frame a b \<Longrightarrow> disbursal_frame b c \<Longrightarrow> disbursal_frame a c"
  unfolding disbursal_frame_def
  by (metis checkpoint.surjective checkpoint.update_convs(2))

lemma disbursal_frame_set: "b \<noteq> Checkpoint_batch \<Longrightarrow> disbursal_frame cp (set_batch b x cp)"
  by (cases b) (auto simp: disbursal_frame_def set_batch_def nth_list_update)

lemmas disbursal_frame_intros =
  disbursal_frame_set [of IntermediateTx, simplified] disbursal_frame_set [of Disbursal, simplified]

lemma link_intermediate_tx_frame:
  "link_intermediate_tx L thr tx cp = Ok (tx', cp') \<Longrightarrow> disbursal_frame cp cp'"
  by (auto simp: link_intermediate_tx_def Let_def disbursal_frame_intros)

lemma pack_output_frame:
  "pack_output L config t (txs, tx, cp) out = Ok (txs', tx', cp') \<Longrightarrow> disbursal_frame cp cp'"
  by (auto simp: pack_output_def dest: link_intermediate_tx_frame split: if_splits)

lemma pack_outputs_frame:
  assumes "fold_result (pack_output L config t) (txs, tx, cp) outs = Ok (txs', tx', cp')"
  shows "disbursal_frame cp cp'"
proof -
  have "(\<lambda>(_, _, c). disbursal_frame cp c) (txs', tx', cp')"
    by (rule fold_result_invariant [OF assms])
      (auto intro: disbursal_frame_trans dest: pack_output_frame)
  then show ?thesis by simp
qed

lemma fund_intermediate_tx_frame:
  "fund_intermediate_tx L config t op v cp = Ok cp' \<Longrightarrow> disbursal_frame cp cp'"
  by (auto simp: fund_intermediate_tx_def Let_def disbursal_frame_intros)

lemma deduct_emergency_disbursal_fees_frame:
  "deduct_emergency_disbursal_fees H L fee_rate cp = Ok cp' \<Longrightarrow> disbursal_frame cp cp'"
proof -
  have fin: "disburse_finals H L txid fee fee_rate itx c = Ok c' \<Longrightarrow> disbursal_frame c c'" for txid fee itx c c'
    by (auto simp: disburse_finals_def Let_def disbursal_frame_intros split: if_splits)
  assume "deduct_emergency_disbursal_fees H L fee_rate cp = Ok cp'"
  then show ?thesis
    by (auto simp: deduct_emergency_disbursal_fees_def Let_def
        dest!: fin intro: disbursal_frame_trans [OF disbursal_frame_intros(1)])
qed

lemma generate_emergency_disbursal_txs_frame:
  assumes "generate_emergency_disbursal_txs H L C bal rs op ext fr v config cp = Ok cp'"
  shows "disbursal_frame cp cp'"
proof (cases "\<exists>b. get_batch IntermediateTx cp = Ok b \<and> ba_batch b = []")
  case True
  with assms show ?thesis by (auto simp: generate_emergency_disbursal_txs_def)
next
  case False
  with assms obtain t outs txs tx c1 tx' c2 c3 d c4 d' txs' b tx'' where
    "fold_result (pack_output L config t) ([], BitcoinTx_with_lock_time t, cp) outs = Ok (txs, tx, c1)"
    "link_intermediate_tx L (cc_sigset_threshold config) tx c1 = Ok (tx', c2)"
    "fund_intermediate_tx L config t op v c2 = Ok c3"
    "deduct_emergency_disbursal_fees H L fr (set_batch Disbursal (d\<lparr>ba_batch := ba_batch d @ txs @ [tx']\<rparr>) c3) = Ok c4"
    "cp' = set_batch IntermediateTx (set_tx tx'' b) (set_batch Disbursal (d'\<lparr>ba_batch := txs'\<rparr>) c4)"
    by (auto simp: generate_emergency_disbursal_txs_def Let_def)
  then show ?thesis
    by (meson pack_outputs_frame link_intermediate_tx_frame fund_intermediate_tx_frame
        deduct_emergency_disbursal_fees_frame disbursal_frame_intros disbursal_frame_trans)
qed

subsection \<open>The checkpoint transaction\<close>

lemma pop_excess_eq: "pop_excess n xs e = (take n xs, e @ rev (drop n xs))"
proof (induction n xs e rule: pop_excess.induct)
  case (1 n xs e)
  show ?case
  proof (cases "length xs > n")
    case True
    then have ne: "xs \<noteq> []" by auto
    have "rev (drop n xs) = last xs # rev (drop n (butlast xs))"
    proof -
      let ?ys = "drop n xs"
      have "rev ?ys = last ?ys # rev (butlast ?ys)" using True by (cases ?ys rule: rev_cases) auto
      then show ?thesis using True by (simp add: butlast_drop)
    qed
    moreover have "take n (butlast xs) = take n xs" using True by (rule take_butlast)
    ultimately show ?thesis using 1 True by (subst pop_excess.simps) simp
  next
    case False
    then show ?thesis by (subst pop_excess.simps) simp
  qed
qed

lemma sum_inputs_Ok: "sum_inputs is = Ok v \<longleftrightarrow> v = sum_list (map in_amount is) \<and> (v < 2 ^ 64 \<or> is = [])"
proof -
  have "fold_result (\<lambda>sum i. add_u64 sum (in_amount i)) a is = Ok v
      \<longleftrightarrow> v = a + sum_list (map in_amount is) \<and> (v < 2 ^ 64 \<or> is = [])" for a
  proof (induction "is" arbitrary: a)
    case (Cons x "is")
    have "fold_result (\<lambda>sum i. add_u64 sum (in_amount i)) a (x # is) = Ok v
        \<longleftrightarrow> a + in_amount x < 2 ^ 64 \<and> fold_result (\<lambda>sum i. add_u64 sum (in_amount i)) (a + in_amount x) is = Ok v"
      by auto
    then show ?case by (auto simp: Cons.IH)
  qed auto
  then show ?thesis by (simp add: sum_inputs_def)
qed

lemma sum_outputs_Ok: "sum_outputs outs = Ok v \<longleftrightarrow> v = outputs_value outs \<and> (v < 2 ^ 64 \<or> outs = [])"
  using BitcoinTx_value_Ok [of "BitcoinTx_default\<lparr>bt_output := outs\<rparr>" v]
  by (simp add: BitcoinTx_value_def sum_outputs_def)

text \<open>An input is only given its message.\<close>

definition same_input :: "input \<Rightarrow> input \<Rightarrow> bool" where
  "same_input i i' \<longleftrightarrow> (\<exists>m. i' = i\<lparr>in_signatures := ThresholdSig_set_message m (in_signatures i)\<rparr>)"

lemma set_sighashes_Ok:
  assumes "set_sighashes L tx is = Ok is'"
  shows "list_all2 same_input is is' \<and> map in_amount is' = map in_amount is
    \<and> (\<forall>k < length is. segwit_signature_hash L tx k (in_redeem_script (is ! k)) (in_amount (is ! k))
         = Ok (ts_message (in_signatures (is' ! k))))"
proof -
  from assms have len: "length is' = length is"
    and nth: "\<And>k. k < length is \<Longrightarrow> \<exists>sighash. segwit_signature_hash L tx k (in_redeem_script (is ! k)) (in_amount (is ! k)) = Ok sighash
       \<and> is' ! k = (is ! k)\<lparr>in_signatures := ThresholdSig_set_message sighash (in_signatures (is ! k))\<rparr>"
    by (fastforce simp: set_sighashes_def map_result_Ok_iff nth_enumerate_eq)+
  have "list_all2 same_input is is'"
    using len nth by (auto simp: list_all2_conv_all_nth same_input_def)
  moreover have "map in_amount is' = map in_amount is"
    using len nth by (intro nth_equalityI) (auto, force)
  moreover have "segwit_signature_hash L tx k (in_redeem_script (is ! k)) (in_amount (is ! k))
         = Ok (ts_message (in_signatures (is' ! k)))" if "k < length is" for k
    using nth [OF that] by (auto simp: ThresholdSig_set_message_def)
  ultimately show ?thesis by blast
qed

lemma finish_checkpoint_tx_Ok:
  assumes "finish_checkpoint_tx L config base_fee additional tx = Ok (tx', op, rv, fee, ei, eo)"
  obtains reserve outs where
    "take (cc_max_outputs config) (bt_output tx) = reserve # outs"
    "bt_output tx' = reserve\<lparr>to_value := rv\<rparr> # outs"
    "list_all2 same_input (take (cc_max_inputs config) (bt_input tx)) (bt_input tx')"
    "ei = rev (drop (cc_max_inputs config) (bt_input tx))" "eo = rev (drop (cc_max_outputs config) (bt_output tx))"
    "fee = base_fee + additional"
    "sum_list (map in_amount (bt_input tx')) = outputs_value (reserve # outs) + fee + rv"
    "snd op = 0"
proof -
  from assms obtain reserve outs btc is' where
    o: "take (cc_max_outputs config) (bt_output tx) = reserve # outs"
    and fee: "fee = base_fee + additional"
    and rv: "rv = sum_list (map in_amount (take (cc_max_inputs config) (bt_input tx))) - (outputs_value (reserve # outs) + fee)"
    and le: "outputs_value (reserve # outs) + fee \<le> sum_list (map in_amount (take (cc_max_inputs config) (bt_input tx)))"
    and s: "set_sighashes L btc (take (cc_max_inputs config) (bt_input tx)) = Ok is'"
    and t: "tx' = tx\<lparr>bt_input := is', bt_output := reserve\<lparr>to_value := rv\<rparr> # outs\<rparr>"
    and e: "ei = rev (drop (cc_max_inputs config) (bt_input tx))" "eo = rev (drop (cc_max_outputs config) (bt_output tx))"
    and op: "op = (tx_txid L btc, 0)"
    by (cases "take (cc_max_outputs config) (bt_output tx)")
      (auto simp: finish_checkpoint_tx_def pop_excess_eq Let_def sum_inputs_Ok sum_outputs_Ok not_less)
  note s = set_sighashes_Ok [OF s]
  have "sum_list (map in_amount (bt_input tx')) = outputs_value (reserve # outs) + fee + rv"
    using s t rv le by simp
  then show ?thesis using s t op by (intro that [OF o _ _ e fee]) auto
qed


lemma fold_sub_outputs:
  "outputs_value outs \<le> v \<Longrightarrow>
   fold_result (\<lambda>fees out. sub_u fees (to_value out)) v outs = Ok (v - outputs_value outs)"
  by (induction outs arbitrary: v) (auto simp: sub_u_def)

lemma get_batch_Ok: "get_batch i cp = Ok b \<longleftrightarrow> batch_index i < length (cp_batches cp) \<and> b = cp_batches cp ! batch_index i"
  by (auto simp: get_batch_def)

lemma get_tx_Ok: "get_tx b = Ok tx \<longleftrightarrow> (\<exists>txs. ba_batch b = tx # txs)"
  by (auto simp: get_tx_def split: list.splits)

lemma fund_other_tx_length: "fund_other_tx L ss fr n txs i = Ok txs' \<Longrightarrow> length txs' = length txs"
  by (auto simp: fund_other_tx_def Let_def)

lemma fund_other_txs_length:
  "fold_result (fund_other_tx L ss fr n) txs is = Ok txs' \<Longrightarrow> length txs' = length txs"
  by (erule fold_result_invariant [where P = "\<lambda>t. length t = length txs"]) (auto dest: fund_other_tx_length)

text \<open>The checkpoint transaction in the batch before and after \<open>advance\<close>.\<close>

lemma advance_Ok:
  assumes "BuildingCheckpoint_advance H L C bal rs ext commitment additional config cp = Ok (cp', res)"
  obtains outs base_fee tx others txs tx' b' where
    "Checkpoint_additional_outputs L config commitment cp = Ok outs"
    "2 < length (cp_batches cp)" "ba_batch (cp_batches cp ! 2) = tx # others"
    "fold_result (fund_other_tx L (cp_sigset cp) (cp_fee_rate cp) (length (outs @ bt_output tx)))
       (tx\<lparr>bt_output := outs @ bt_output tx\<rparr> # others) [1..<Suc (length others)] = Ok txs"
    "finish_checkpoint_tx L config base_fee additional (txs ! 0) = Ok (tx', res)"
    "cp_status cp' = Signing" "2 < length (cp_batches cp')" "cp_batches cp' ! 2 = b'"
    "hd (ba_batch b') = tx'" "length (ba_batch b') = length (ba_batch (cp_batches cp ! 2))"
proof -
  let ?cp = "cp\<lparr>cp_status := Signing\<rparr>"
  obtain op rv fee ei eo where res: "res = (op, rv, fee, ei, eo)" by (cases res)
  from assms obtain outs base_fee b tx txs tx' cp2 b2 others where
    o: "Checkpoint_additional_outputs L config commitment ?cp = Ok outs"
    and b: "get_batch Checkpoint_batch ?cp = Ok b" "get_tx b = Ok tx"
    and f: "fold_result (fund_other_tx L (cp_sigset cp) (cp_fee_rate cp) (length (outs @ bt_output tx)))
       ((ba_batch b)[0 := tx\<lparr>bt_output := outs @ bt_output tx\<rparr>])
       [1..<length ((ba_batch b)[0 := tx\<lparr>bt_output := outs @ bt_output tx\<rparr>])] = Ok txs"
    and fin: "finish_checkpoint_tx L config base_fee additional (txs ! 0) = Ok (tx', res)"
    and gen: "generate_emergency_disbursal_txs H L C bal rs op ext (cp_fee_rate cp) rv config
       (set_batch Checkpoint_batch (b\<lparr>ba_batch := txs[0 := tx']\<rparr>) ?cp) = Ok cp2"
    and b2: "get_batch Checkpoint_batch cp2 = Ok b2"
    and oth: "map_result (set_funding_txid (fst op)) (tl (ba_batch b2)) = Ok others"
    and cp': "cp' = set_batch Checkpoint_batch (b2\<lparr>ba_batch := hd (ba_batch b2) # others\<rparr>) cp2"
    unfolding res by (auto simp: BuildingCheckpoint_advance_def Let_def set_batch_def)
  have len: "2 < length (cp_batches cp)" and b_eq: "b = cp_batches cp ! 2"
    using b(1) by (auto simp: get_batch_Ok)
  from b(2) obtain rest where rest: "ba_batch b = tx # rest" by (auto simp: get_tx_Ok)
  have ltxs: "length txs = length (ba_batch b)" using fund_other_txs_length [OF f] by simp
  note frame = generate_emergency_disbursal_txs_frame [OF gen]
  have len2: "length (cp_batches cp2) = length (cp_batches cp)"
    and b2_eq: "b2 = b\<lparr>ba_batch := txs[0 := tx']\<rparr>"
    using frame len b2 by (auto simp: disbursal_frame_def set_batch_def get_batch_Ok)
  have st: "cp_status cp2 = Signing" using frame unfolding disbursal_frame_def by (metis set_batch_def checkpoint.select_convs(1) checkpoint.surjective checkpoint.update_convs(1,2))
  have bb: "ba_batch b2 = tx' # tl txs" using ltxs rest by (cases txs) (auto simp: b2_eq)
  have lo: "length others = length (tl (ba_batch b2))" using oth by (simp add: map_result_Ok_iff)
  have o': "Checkpoint_additional_outputs L config commitment cp = Ok outs"
    using o by (simp add: Checkpoint_additional_outputs_def)
  show ?thesis
  proof (rule that [OF o' len])
    show "ba_batch (cp_batches cp ! 2) = tx # rest" using rest b_eq by simp
    show "fold_result (fund_other_tx L (cp_sigset cp) (cp_fee_rate cp) (length (outs @ bt_output tx)))
       (tx\<lparr>bt_output := outs @ bt_output tx\<rparr> # rest) [1..<Suc (length rest)] = Ok txs"
      using f rest by simp
    show "finish_checkpoint_tx L config base_fee additional (txs ! 0) = Ok (tx', res)" by (rule fin)
    show "cp_status cp' = Signing" using st cp' by (simp add: set_batch_def)
    show "2 < length (cp_batches cp')" using len len2 cp' by (simp add: set_batch_def)
    show "cp_batches cp' ! 2 = b2\<lparr>ba_batch := hd (ba_batch b2) # others\<rparr>"
      using len len2 cp' by (simp add: set_batch_def)
    show "hd (ba_batch (b2\<lparr>ba_batch := hd (ba_batch b2) # others\<rparr>)) = tx'" using bb by simp
    show "length (ba_batch (b2\<lparr>ba_batch := hd (ba_batch b2) # others\<rparr>)) = length (ba_batch (cp_batches cp ! 2))"
      using lo bb ltxs rest b_eq by simp
  qed
qed

subsection \<open>The links of the disbursal transactions\<close>

lemma take_match_Some:
  "take_match a outs = Some (v, outs') \<Longrightarrow> (v, a) \<in> set outs \<and> mset outs = add_mset (v, a) (mset outs')"
  by (induction a outs arbitrary: outs' rule: take_match.induct) (auto split: if_splits)

lemma BitcoinTx_deduct_fee_input: "BitcoinTx_deduct_fee L fee tx = Ok tx' \<Longrightarrow> bt_input tx' = bt_input tx"
  by (auto simp: BitcoinTx_deduct_fee_def split: if_splits)

text \<open>The final transaction \<open>tx\<close> spends output \<open>v\<close> of the transaction \<open>txid\<close>, of value \<open>a\<close>.\<close>

definition spends :: "bytes \<Rightarrow> nat \<times> u64 \<Rightarrow> bitcoin_tx \<Rightarrow> bool" where
  "spends txid va tx \<longleftrightarrow> bt_input tx \<noteq> [] \<and> in_prevout (hd (bt_input tx)) = (txid, fst va mod 2 ^ 32)
     \<and> in_amount (hd (bt_input tx)) = snd va"

lemma disburse_tx_Ok:
  assumes "disburse_tx H L txid fee len rate outs tx = Ok (r, outs')"
  shows "case r of None \<Rightarrow> outs' = outs
    | Some tx' \<Rightarrow> (\<exists>va. spends txid va tx' \<and> mset outs = add_mset va (mset outs'))"
proof (cases "bt_input tx")
  case Nil
  with assms show ?thesis by (auto simp: disburse_tx_def)
next
  case (Cons i "is")
  show ?thesis
  proof (cases r)
    case None
    with assms Cons show ?thesis by (auto simp: disburse_tx_def Let_def split: option.splits if_splits)
  next
    case (Some tx')
    with assms Cons obtain amount v fee' where
      v: "take_match amount outs = Some (v, outs')"
      and t: "BitcoinTx_deduct_fee L fee' (tx\<lparr>bt_input := i\<lparr>in_amount := amount, in_prevout := (txid, v mod 2 ^ 32)\<rparr> # is\<rparr>) = Ok tx'"
      by (auto simp: disburse_tx_def Let_def split: option.splits if_splits)
    have "spends txid (v, amount) tx'" using BitcoinTx_deduct_fee_input [OF t] by (simp add: spends_def)
    with take_match_Some [OF v] Some show ?thesis by auto
  qed
qed

lemma disburse_txs_Ok:
  assumes "disburse_txs H L txid fee len rate outs txs = Ok txs'"
  shows "\<exists>vas. list_all2 (spends txid) vas txs' \<and> mset vas \<subseteq># mset outs"
  using assms
proof (induction H L txid fee len rate outs txs arbitrary: txs' rule: disburse_txs.induct)
  case (1 H L txid fee len rate outs)
  then show ?case by (auto intro: exI [of _ "[]"])
next
  case (2 H L txid fee len rate outs tx txs)
  from "2.prems" obtain r outs' rest where r: "disburse_tx H L txid fee len rate outs tx = Ok (r, outs')"
    and rest: "disburse_txs H L txid fee len rate outs' txs = Ok rest"
    and txs': "txs' = (case r of None \<Rightarrow> rest | Some tx \<Rightarrow> tx # rest)"
    by auto
  from "2.IH" [OF r refl rest] obtain vas where vas: "list_all2 (spends txid) vas rest" "mset vas \<subseteq># mset outs'" by blast
  show ?case
  proof (cases r)
    case None
    with disburse_tx_Ok [OF r] vas txs' show ?thesis by auto
  next
    case (Some tx')
    with disburse_tx_Ok [OF r] obtain va where "spends txid va tx'" "mset outs = add_mset va (mset outs')" by auto
    with vas txs' Some show ?thesis by (intro exI [of _ "va # vas"]) auto
  qed
qed


lemma fund_other_tx_front:
  assumes "fund_other_tx L ss fr n txs i = Ok txs'" and "0 < i" and "txs \<noteq> []"
  shows "bt_input (txs' ! 0) = bt_input (txs ! 0) \<and> (\<exists>m. bt_output (txs' ! 0) = bt_output (txs ! 0) @ m)"
  using assms by (auto simp: fund_other_tx_def Let_def)

lemma fund_other_txs_front:
  assumes "fold_result (fund_other_tx L ss fr n) txs [1..<k] = Ok txs'" and "txs \<noteq> []"
  shows "bt_input (txs' ! 0) = bt_input (txs ! 0) \<and> (\<exists>m. bt_output (txs' ! 0) = bt_output (txs ! 0) @ m)"
proof -
  have "txs' \<noteq> [] \<and> bt_input (txs' ! 0) = bt_input (txs ! 0) \<and> (\<exists>m. bt_output (txs' ! 0) = bt_output (txs ! 0) @ m)"
  proof (rule fold_result_invariant [OF assms(1)])
    show "txs \<noteq> [] \<and> bt_input (txs ! 0) = bt_input (txs ! 0) \<and> (\<exists>m. bt_output (txs ! 0) = bt_output (txs ! 0) @ m)"
      using assms(2) by simp
  next
    fix s i s'
    assume "i \<in> set [1..<k]" and "s \<noteq> [] \<and> bt_input (s ! 0) = bt_input (txs ! 0) \<and> (\<exists>m. bt_output (s ! 0) = bt_output (txs ! 0) @ m)"
      and "fund_other_tx L ss fr n s i = Ok s'"
    then show "s' \<noteq> [] \<and> bt_input (s' ! 0) = bt_input (txs ! 0) \<and> (\<exists>m. bt_output (s' ! 0) = bt_output (txs ! 0) @ m)"
      using fund_other_tx_front [of L ss fr n s i s'] fund_other_tx_length [of L ss fr n s i s'] by fastforce
  qed
  then show ?thesis by blast
qed

lemma same_input_refl [simp]: "same_input i i"
  by (auto simp: same_input_def ThresholdSig_set_message_def intro!: exI [of _ "ts_message (in_signatures i)"])

lemma miner_fees_Ok:
  assumes "2 < length (cp_batches cp)" and "ba_batch (cp_batches cp ! 2) = tx # others"
    and "sum_list (map in_amount (bt_input tx)) = outputs_value (bt_output tx) + fee"
    and "sum_list (map in_amount (bt_input tx)) < 2 ^ 64"
  shows "Checkpoint_checkpoint_tx_miner_fees cp = Ok fee"
proof -
  have "sum_inputs (bt_input tx) = Ok (sum_list (map in_amount (bt_input tx)))"
    using assms(4) by (simp add: sum_inputs_Ok)
  then have "fold_result (\<lambda>fees input. add_u64 fees (in_amount input)) 0 (bt_input tx)
      = Ok (outputs_value (bt_output tx) + fee)"
    using assms(3) by (simp add: sum_inputs_def)
  then show ?thesis
    using assms(1,2) fold_sub_outputs [of "bt_output tx" "outputs_value (bt_output tx) + fee"]
    by (simp add: Checkpoint_checkpoint_tx_miner_fees_def get_batch_def get_tx_def)
qed

section \<open>A concrete checkpoint to freeze\<close>

text \<open>An instance with empty scripts, one signatory, one deposit and one withdrawal.\<close>

definition demo_flat_lib :: tx_lib where
  "demo_flat_lib = script_lib.extend demo_keys_lib
     \<lparr>tx_vsize = (\<lambda>tx. 100), tx_txid = (\<lambda>tx. [1]), segwit_signature_hash = (\<lambda>tx i script amount. Ok [7]),
      dust_value = (\<lambda>script. 10), new_op_return = (\<lambda>b. b), arrange_outputs = rev,
      visit_txs = (\<lambda>txs. txs), arrange_txs = rev\<rparr>"

definition demo_small_ss :: signatory_set where
  "demo_small_ss = \<lparr>ss_create_time = 1000, ss_present_vp = 100, ss_possible_vp = 100, ss_index = 4,
     ss_signatories = [\<lparr>sg_voting_power = 100, sg_pubkey = [2]\<rparr>]\<rparr>"

definition demo_building :: checkpoint where
  "demo_building = (Checkpoint_new demo_small_ss)\<lparr>cp_batches := [Batch_default, Batch_default\<lparr>ba_batch := [BitcoinTx_default]\<rparr>,
     Batch_default\<lparr>ba_batch := [BitcoinTx_default\<lparr>bt_input := [demo_input\<lparr>in_amount := 1000000\<rparr>],
       bt_output := [\<lparr>to_value = 5000, to_script_pubkey = [3]\<rparr>]\<rparr>]\<rparr>]\<rparr>"


lemma demo_parts: "ThresholdSig_from_sigset (sigset_pairs demo_small_ss) = Ok \<lparr>ts_threshold = 90, ts_signed = 0, ts_message = replicate 32 0, ts_len = 1,
     ts_sigs = [([2], \<lparr>sh_power = 100, sh_sig = None\<rparr>)]\<rparr>"
  by (simp add: ThresholdSig_from_sigset_eq demo_small_ss_def threshold_of_def SIGSET_THRESHOLD_def)

lemma demo_redeem_flat: "SignatorySet_redeem_script demo_flat_lib demo_small_ss d (9, 10) = Ok []"
  by (simp add: SignatorySet_redeem_script_def demo_small_ss_def SignatorySet_signature_threshold_def div_u_def demo_flat_lib_def script_lib.defs demo_keys_lib_def Let_def)

lemma demo_out_flat: "SignatorySet_output_script demo_flat_lib demo_small_ss d (9, 10) = Ok []"
  by (simp add: SignatorySet_output_script_def demo_redeem_flat) (simp add: demo_flat_lib_def script_lib.defs demo_keys_lib_def)

definition demo_fresh :: "outpoint \<Rightarrow> u64 \<Rightarrow> input" where
  "demo_fresh op amount = \<lparr>in_prevout = op, in_script_pubkey = [], in_redeem_script = [], in_sigset_index = 4, in_dest = [0],
     in_amount = amount, in_est_witness_vsize = 118, in_signatures = \<lparr>ts_threshold = 90, ts_signed = 0, ts_message = replicate 32 0, ts_len = 1,
     ts_sigs = [([2], \<lparr>sh_power = 100, sh_sig = None\<rparr>)]\<rparr>\<rparr>"

lemma demo_input_new: "Input_new demo_flat_lib op demo_small_ss [0] amount (9, 10) = Ok (demo_fresh op amount)"
  using demo_parts
  by (simp add: Input_new_def demo_out_flat demo_redeem_flat demo_fresh_def SignatorySet_est_witness_vsize_def)
    (simp add: demo_flat_lib_def script_lib.defs demo_keys_lib_def demo_small_ss_def)

lemma demo_flat_sel [simp]: "tx_vsize demo_flat_lib tx = 100" "tx_txid demo_flat_lib tx = [1]" "segwit_signature_hash demo_flat_lib tx i s a = Ok [7]"
  "dust_value demo_flat_lib s = 10" "new_op_return demo_flat_lib b = b" "arrange_outputs demo_flat_lib = rev" "visit_txs demo_flat_lib = (\<lambda>t. t)" "arrange_txs demo_flat_lib = rev"
  by (simp_all add: demo_flat_lib_def script_lib.defs)

lemma demo_unsigned: "Input_to_txin L (i\<lparr>in_signatures := ts\<rparr>) = Ok \<lparr>ti_previous_output = in_prevout i, ti_script_sig = [], ti_sequence = 2 ^ 32 - 1, ti_witness = []\<rparr>"
  if "\<not> ThresholdSig_signed ts"
  using that by (simp add: Input_to_txin_def ThresholdSig_to_witness_def)


lemma demo_advance_ok: "is_ok (BuildingCheckpoint_advance demo_header_lib demo_flat_lib (demo_ctx []) (\<lambda>_. 7000000000) [([1], [5])] [] [9] 300 CheckpointConfig_default demo_building)"
  by (simp add: BuildingCheckpoint_advance_def Checkpoint_additional_outputs_def demo_building_def Checkpoint_new_def CheckpointConfig_default_def CheckpointConfig_bitcoin_def
    SIGSET_THRESHOLD_def demo_out_flat Checkpoint_base_fee_def Checkpoint_est_vsize_def get_batch_def get_tx_def Batch_default_def BitcoinTx_default_def BitcoinTx_to_bitcoin_tx_def Input_to_txin_def
    demo_input_def demo_ts_def ThresholdSig_to_witness_def ThresholdSig_signed_def Let_def witness_vsizes_def add_w_def mul_w_def DEFAULT_FEE_RATE_def
    finish_checkpoint_tx_def pop_excess_eq sum_inputs_def sum_outputs_def set_sighashes_def ThresholdSig_set_message_def set_batch_def
    generate_emergency_disbursal_txs_def demo_ctx_def as_u32_def account_outputs_def pending_outputs_def BitcoinTx_with_lock_time_def
    pack_output_def BitcoinTx_est_vsize_def link_intermediate_tx_def BitcoinTx_value_def BitcoinTx_txid_def demo_input_new set_tx_def fund_intermediate_tx_def demo_fresh_def sub_u_def
 deduct_emergency_disbursal_fees_def disburse_finals_def deduct_fee_all rearrange_def disburse_tx_def div_u_def populate_inputs_def BitcoinTx_populate_input_sig_message_def nth_append numeral_2_eq_2 [symmetric])

section \<open>Properties\<close>

text \<open>
  C5: freezing a checkpoint conserves value. The inputs of the finished checkpoint transaction add
  up to its outputs, the reserve output included, plus exactly the fee that \<open>advance\<close> reports (and
  that \<open>checkpoint_tx_miner_fees\<close> later reads off), and the transaction stays within the configured
  numbers of inputs and outputs.
\<close>

theorem advance_conserves_value:
  assumes "BuildingCheckpoint_advance H L C balance recovery_scripts external commitment additional config cp
     = Ok (cp', op, reserve_value, fee, excess_inputs, excess_outputs)"
  shows "\<exists>tx others. 2 < length (cp_batches cp') \<and> ba_batch (cp_batches cp' ! 2) = tx # others
    \<and> cp_status cp' = Signing
    \<and> sum_list (map in_amount (bt_input tx)) = sum_list (map to_value (bt_output tx)) + fee
    \<and> bt_output tx \<noteq> [] \<and> to_value (hd (bt_output tx)) = reserve_value
    \<and> length (bt_input tx) \<le> cc_max_inputs config \<and> length (bt_output tx) \<le> cc_max_outputs config
    \<and> (sum_list (map in_amount (bt_input tx)) < 2 ^ 64 \<longrightarrow> Checkpoint_checkpoint_tx_miner_fees cp' = Ok fee)"
proof -
  obtain outs base_fee tx0 others0 txs tx' b' where
    outs: "Checkpoint_additional_outputs L config commitment cp = Ok outs"
    and tx0: "ba_batch (cp_batches cp ! 2) = tx0 # others0"
    and fund: "fold_result (fund_other_tx L (cp_sigset cp) (cp_fee_rate cp) (length (outs @ bt_output tx0)))
       (tx0\<lparr>bt_output := outs @ bt_output tx0\<rparr> # others0) [1..<Suc (length others0)] = Ok txs"
    and fin: "finish_checkpoint_tx L config base_fee additional (txs ! 0) = Ok (tx', op, reserve_value, fee, excess_inputs, excess_outputs)"
    and cp': "cp_status cp' = Signing" "2 < length (cp_batches cp')" "cp_batches cp' ! 2 = b'"
    and b': "hd (ba_batch b') = tx'" "length (ba_batch b') = length (ba_batch (cp_batches cp ! 2))"
    by (rule advance_Ok [OF assms])
  obtain reserve rest where r: "take (cc_max_outputs config) (bt_output (txs ! 0)) = reserve # rest"
    "bt_output tx' = reserve\<lparr>to_value := reserve_value\<rparr> # rest"
    and i: "list_all2 same_input (take (cc_max_inputs config) (bt_input (txs ! 0))) (bt_input tx')"
    and sum: "sum_list (map in_amount (bt_input tx')) = outputs_value (reserve # rest) + fee + reserve_value"
    by (rule finish_checkpoint_tx_Ok [OF fin])
  obtain m where "bt_output (txs ! 0) = (outs @ bt_output tx0) @ m"
    using fund_other_txs_front [OF fund] by auto
  then have "to_value reserve = 0"
    using r(1) outs by (cases "cc_max_outputs config") (auto simp: Checkpoint_additional_outputs_def)
  then have bal: "sum_list (map in_amount (bt_input tx')) = sum_list (map to_value (bt_output tx')) + fee"
    using sum r(2) by simp
  have len: "length (bt_input tx') \<le> cc_max_inputs config" "length (bt_output tx') \<le> cc_max_outputs config"
    using list_all2_lengthD [OF i] r(2) length_take [of "cc_max_outputs config" "bt_output (txs ! 0)"]
    unfolding r(1) by simp_all
  obtain others where "ba_batch b' = tx' # others" using b' tx0 by (cases "ba_batch b'") auto
  then have at: "ba_batch (cp_batches cp' ! 2) = tx' # others" using cp'(3) by simp
  show ?thesis
    using cp' at bal r(2) len miner_fees_Ok [OF cp'(2) at bal] by (intro exI [of _ tx'] exI [of _ others]) simp
qed

theorem advance_conserves_value_witness:
  "\<exists>cp' op rv fee ei eo. BuildingCheckpoint_advance demo_header_lib demo_flat_lib (demo_ctx []) (\<lambda>_. 7000000000)
      [([1], [5])] [] [9] 300 CheckpointConfig_default demo_building = Ok (cp', op, rv, fee, ei, eo)
    \<and> cp_status cp' = Signing"
proof -
  obtain cp' op rv fee ei eo where ok: "BuildingCheckpoint_advance demo_header_lib demo_flat_lib (demo_ctx [])
      (\<lambda>_. 7000000000) [([1], [5])] [] [9] 300 CheckpointConfig_default demo_building = Ok (cp', op, rv, fee, ei, eo)"
    using demo_advance_ok by (auto simp: is_ok_iff)
  from advance_conserves_value [OF ok] ok show ?thesis by blast
qed

text \<open>
  C6: freezing loses no deposit and no withdrawal: every input of the checkpoint transaction is either
  kept (with its message set, nothing else changed) or handed back as excess, and likewise every
  output, after the reserve and the timestamping output that are put in front.
\<close>

theorem advance_keeps_or_returns:
  assumes "BuildingCheckpoint_advance H L C balance recovery_scripts external commitment additional config cp
     = Ok (cp', op, reserve_value, fee, excess_inputs, excess_outputs)"
    and "ba_batch (cp_batches cp ! 2) = [tx0]"
  shows "\<exists>tx outs. ba_batch (cp_batches cp' ! 2) = [tx]
    \<and> Checkpoint_additional_outputs L config commitment cp = Ok outs
    \<and> list_all2 same_input (bt_input tx0) (bt_input tx @ rev excess_inputs)
    \<and> tl outs @ bt_output tx0 = tl (bt_output tx) @ rev excess_outputs"
proof -
  obtain outs base_fee tx1 others0 txs tx' b' where
    outs: "Checkpoint_additional_outputs L config commitment cp = Ok outs"
    and tx1: "ba_batch (cp_batches cp ! 2) = tx1 # others0"
    and fund: "fold_result (fund_other_tx L (cp_sigset cp) (cp_fee_rate cp) (length (outs @ bt_output tx1)))
       (tx1\<lparr>bt_output := outs @ bt_output tx1\<rparr> # others0) [1..<Suc (length others0)] = Ok txs"
    and fin: "finish_checkpoint_tx L config base_fee additional (txs ! 0) = Ok (tx', op, reserve_value, fee, excess_inputs, excess_outputs)"
    and b': "cp_batches cp' ! 2 = b'" "hd (ba_batch b') = tx'" "length (ba_batch b') = length (ba_batch (cp_batches cp ! 2))"
    by (rule advance_Ok [OF assms(1)])
  have eq: "tx1 = tx0" "others0 = []" using tx1 assms(2) by simp_all
  have tx: "txs ! 0 = tx0\<lparr>bt_output := outs @ bt_output tx0\<rparr>" using fund eq by auto
  have one: "ba_batch (cp_batches cp' ! 2) = [tx']"
    using b' assms(2) by (cases "ba_batch b'") auto
  obtain reserve rest where r: "take (cc_max_outputs config) (outs @ bt_output tx0) = reserve # rest"
    "bt_output tx' = reserve\<lparr>to_value := reserve_value\<rparr> # rest"
    and i: "list_all2 same_input (take (cc_max_inputs config) (bt_input tx0)) (bt_input tx')"
    and e: "excess_inputs = rev (drop (cc_max_inputs config) (bt_input tx0))"
      "excess_outputs = rev (drop (cc_max_outputs config) (outs @ bt_output tx0))"
    using finish_checkpoint_tx_Ok [OF fin] unfolding tx by simp blast
  have "list_all2 same_input (take (cc_max_inputs config) (bt_input tx0) @ drop (cc_max_inputs config) (bt_input tx0))
      (bt_input tx' @ drop (cc_max_inputs config) (bt_input tx0))"
    by (intro list_all2_appendI i) (simp add: list_all2_refl)
  then have "list_all2 same_input (bt_input tx0) (bt_input tx' @ rev excess_inputs)" by (simp add: e)
  moreover have "outs @ bt_output tx0 = (reserve # rest) @ rev excess_outputs"
    using r(1) e(2) by (metis append_take_drop_id rev_rev_ident)
  moreover have "outs \<noteq> []" using outs by (auto simp: Checkpoint_additional_outputs_def)
  ultimately show ?thesis
    using one outs r(2) by (intro exI [of _ tx'] exI [of _ outs]) (cases outs, auto)
qed

theorem advance_keeps_or_returns_witness:
  "\<exists>cp' op rv fee ei eo (tx :: bitcoin_tx) outs. BuildingCheckpoint_advance demo_header_lib demo_flat_lib (demo_ctx []) (\<lambda>_. 7000000000)
      [([1], [5])] [] [9] 300 CheckpointConfig_default demo_building = Ok (cp', op, rv, fee, ei, eo)
    \<and> tl outs @ [\<lparr>to_value = 5000, to_script_pubkey = [3]\<rparr>] = tl (bt_output tx) @ rev eo"
proof -
  obtain cp' op rv fee ei eo where ok: "BuildingCheckpoint_advance demo_header_lib demo_flat_lib (demo_ctx [])
      (\<lambda>_. 7000000000) [([1], [5])] [] [9] 300 CheckpointConfig_default demo_building = Ok (cp', op, rv, fee, ei, eo)"
    using demo_advance_ok by (auto simp: is_ok_iff)
  have "ba_batch (cp_batches demo_building ! 2) = [BitcoinTx_default\<lparr>bt_input := [demo_input\<lparr>in_amount := 1000000\<rparr>],
       bt_output := [\<lparr>to_value = 5000, to_script_pubkey = [3]\<rparr>]\<rparr>]"
    by (simp add: demo_building_def Batch_default_def)
  from advance_keeps_or_returns [OF ok this] obtain tx :: bitcoin_tx and outs where
    "tl outs @ [\<lparr>to_value = 5000, to_script_pubkey = [3]\<rparr>] = tl (bt_output tx) @ rev eo" by auto
  with ok show ?thesis by blast
qed

text \<open>Transactions that spend different outputs of a transaction, each with the amount of the output.\<close>

lemma spends_outputs:
  assumes sp: "list_all2 (spends txid) vas txs" and sub: "mset vas \<subseteq># mset (enumerate 0 (map to_value outs))" and small: "length outs < 2 ^ 32"
  shows "distinct (map (\<lambda>tx. in_prevout (hd (bt_input tx))) txs)"
    and "tx \<in> set txs \<Longrightarrow> \<exists>input inputs vout. bt_input tx = input # inputs \<and> in_prevout input = (txid, vout)
         \<and> vout < length outs \<and> in_amount input = to_value (outs ! vout)"
proof -
  have mem: "fst va < length outs \<and> snd va = to_value (outs ! fst va)" if "va \<in> set vas" for va
    using mset_subset_eqD [OF sub, of va] that by (auto simp: in_set_enumerate_eq)
  have "image_mset fst (mset vas) \<subseteq># image_mset fst (mset (enumerate 0 (map to_value outs)))"
    using sub by (rule image_mset_subseteq_mono)
  then have "mset (map fst vas) \<subseteq># mset (map fst (enumerate 0 (map to_value outs)))" unfolding mset_map .
  then have "distinct (map fst vas)" by (rule distinct_sub_mset) simp
  then have "distinct (map (\<lambda>va. (txid, fst va)) vas)" by (simp add: distinct_map inj_on_def)
  moreover have "map (\<lambda>tx. in_prevout (hd (bt_input tx))) txs = map (\<lambda>va. (txid, fst va)) vas"
  proof (rule nth_equalityI)
    show len: "length (map (\<lambda>tx. in_prevout (hd (bt_input tx))) txs) = length (map (\<lambda>va. (txid, fst va)) vas)"
      using list_all2_lengthD [OF sp] by simp
    fix i assume "i < length (map (\<lambda>tx. in_prevout (hd (bt_input tx))) txs)"
    then have i: "i < length txs" "i < length vas" using len by simp_all
    then have "fst (vas ! i) < 2 ^ 32" using mem [of "vas ! i"] small by simp
    then show "map (\<lambda>tx. in_prevout (hd (bt_input tx))) txs ! i = map (\<lambda>va. (txid, fst va)) vas ! i"
      using list_all2_nthD [OF sp i(2)] i by (simp add: spends_def)
  qed
  ultimately show "distinct (map (\<lambda>tx. in_prevout (hd (bt_input tx))) txs)" by simp
  assume "tx \<in> set txs"
  then obtain i where i: "i < length txs" "tx = txs ! i" by (auto simp: in_set_conv_nth)
  then have va: "vas ! i \<in> set vas" "spends txid (vas ! i) tx" using sp by (auto simp: list_all2_conv_all_nth)
  with mem [OF va(1)] small show "\<exists>input inputs vout. bt_input tx = input # inputs \<and> in_prevout input = (txid, vout)
      \<and> vout < length outs \<and> in_amount input = to_value (outs ! vout)"
    by (cases "bt_input tx") (auto simp: spends_def)
qed

text \<open>
  After fees are deducted, the final emergency disbursal transactions that are kept each spend an
  output of the intermediate transaction of exactly the amount of their input, no two of them the
  same output.
\<close>

theorem disbursals_spend_distinct_outputs:
  assumes "deduct_emergency_disbursal_fees H L fee_rate cp = Ok cp'"
    and "get_batch IntermediateTx cp' = Ok b" and "get_tx b = Ok intermediate_tx"
    and "get_batch Disbursal cp' = Ok d" and "bt_output intermediate_tx \<noteq> []"
    and "length (bt_output intermediate_tx) < 2 ^ 32" and "1 < length (cp_batches cp)"
  shows "\<exists>txid. BitcoinTx_txid L intermediate_tx = Ok txid
    \<and> (\<forall>tx \<in> set (ba_batch d). \<exists>input inputs vout. bt_input tx = input # inputs \<and> in_prevout input = (txid, vout)
         \<and> vout < length (bt_output intermediate_tx) \<and> in_amount input = to_value (bt_output intermediate_tx ! vout))
    \<and> distinct (map (\<lambda>tx. in_prevout (hd (bt_input tx))) (ba_batch d))"
proof -
  from assms(1) obtain b0 tx0 fee itx txid where
    b0: "get_batch IntermediateTx cp = Ok b0" "get_tx b0 = Ok tx0"
    and itx: "BitcoinTx_deduct_fee L fee tx0 = Ok itx" and txid: "BitcoinTx_txid L itx = Ok txid"
    and rest: "disburse_finals H L txid fee fee_rate itx (set_batch IntermediateTx (set_tx itx b0) cp) = Ok cp'"
    by (auto simp: deduct_emergency_disbursal_fees_def Let_def)
  let ?cp1 = "set_batch IntermediateTx (set_tx itx b0) cp"
  have i1: "get_batch IntermediateTx ?cp1 = Ok (set_tx itx b0)"
    using assms(7) by (simp add: get_batch_Ok set_batch_def)
  have same: "get_batch IntermediateTx (set_batch Disbursal x c) = get_batch IntermediateTx c" for x c
    by (simp add: get_batch_def set_batch_def)
  have "get_batch IntermediateTx cp' = Ok (set_tx itx b0)"
    using rest i1 by (auto simp: disburse_finals_def Let_def same split: if_splits)
  then have it: "intermediate_tx = itx"
    using assms(2,3) b0(2) by (auto simp: get_tx_Ok set_tx_def)
  with assms(5) rest obtain d0 txs where
    txs: "disburse_txs H L txid fee (length (bt_output itx)) fee_rate
       (enumerate 0 (map to_value (bt_output itx))) (rearrange (visit_txs L) (ba_batch d0)) = Ok txs"
    and cp': "cp' = set_batch Disbursal (d0\<lparr>ba_batch := rearrange (arrange_txs L) txs\<rparr>) ?cp1"
    by (auto simp: disburse_finals_def Let_def)
  have d: "ba_batch d = rearrange (arrange_txs L) txs"
    using assms(4,7) by (auto simp: cp' get_batch_Ok set_batch_def)
  obtain vas where vas: "list_all2 (spends txid) vas txs" "mset vas \<subseteq># mset (enumerate 0 (map to_value (bt_output itx)))"
    using disburse_txs_Ok [OF txs] by blast
  note out = spends_outputs [OF vas assms(6) [unfolded it]]
  have "distinct (map (\<lambda>tx. in_prevout (hd (bt_input tx))) (ba_batch d))"
    unfolding d by (rule distinct_sub_mset [OF _ out(1)]) (simp only: mset_map mset_rearrange subset_mset.order_refl)
  moreover have "\<exists>input inputs vout. bt_input tx = input # inputs \<and> in_prevout input = (txid, vout)
      \<and> vout < length (bt_output itx) \<and> in_amount input = to_value (bt_output itx ! vout)" if "tx \<in> set (ba_batch d)" for tx
    using out(2) that d by simp
  ultimately show ?thesis using txid it by blast
qed


definition demo_final :: "outpoint \<Rightarrow> u64 \<Rightarrow> u64 \<Rightarrow> bitcoin_tx" where
  "demo_final op amount value = \<lparr>bt_lock_time = 5, bt_signed_inputs = 0, bt_input = [demo_fresh op amount],
     bt_output = [\<lparr>to_value = value, to_script_pubkey = [5]\<rparr>]\<rparr>"

definition demo_intermediate :: "txout list \<Rightarrow> bitcoin_tx" where
  "demo_intermediate outs = \<lparr>bt_lock_time = 5, bt_signed_inputs = 0, bt_input = [demo_fresh ([8], 0) 992700], bt_output = outs\<rparr>"

definition demo_linked :: "bitcoin_tx \<Rightarrow> bitcoin_tx \<Rightarrow> checkpoint" where
  "demo_linked final intermediate = demo_building\<lparr>cp_batches :=
     [\<lparr>ba_batch = [final], ba_signed_txs = 0\<rparr>, \<lparr>ba_batch = [intermediate], ba_signed_txs = 0\<rparr>]\<rparr>"

lemma demo_disbursal_fees:
  "deduct_emergency_disbursal_fees demo_header_lib demo_flat_lib 10
     (demo_linked (demo_final ([1], 0) 7000 7000)
       (demo_intermediate [\<lparr>to_value = 7000, to_script_pubkey = []\<rparr>, \<lparr>to_value = 985700, to_script_pubkey = []\<rparr>]))
   = Ok (demo_linked (demo_final ([1], 1) 5910 3730)
       (demo_intermediate [\<lparr>to_value = 984610, to_script_pubkey = []\<rparr>, \<lparr>to_value = 5910, to_script_pubkey = []\<rparr>]))"
  by (simp add: demo_linked_def demo_building_def demo_final_def demo_intermediate_def deduct_emergency_disbursal_fees_def
      disburse_finals_def get_batch_def get_tx_def Let_def BitcoinTx_est_vsize_def BitcoinTx_to_bitcoin_tx_def Input_to_txin_def
      demo_fresh_def ThresholdSig_to_witness_def ThresholdSig_signed_def witness_vsizes_def add_w_def mul_w_def
      deduct_fee_all rearrange_def set_batch_def set_tx_def BitcoinTx_txid_def disburse_tx_def div_u_def sub_u_def
      numeral_2_eq_2 [symmetric])

theorem disbursals_spend_distinct_outputs_witness:
  "\<exists>input inputs vout. bt_input (demo_final ([1], 1) 5910 3730) = input # inputs \<and> in_prevout input = ([1], vout)
     \<and> vout < 2 \<and> in_amount input = 5910"
proof -
  let ?itx = "demo_intermediate [\<lparr>to_value = 984610, to_script_pubkey = []\<rparr>, \<lparr>to_value = 5910, to_script_pubkey = []\<rparr>]"
  let ?cp = "demo_linked (demo_final ([1], 1) 5910 3730) ?itx"
  have b: "get_batch IntermediateTx ?cp = Ok \<lparr>ba_batch = [?itx], ba_signed_txs = 0\<rparr>"
    "get_tx \<lparr>ba_batch = [?itx], ba_signed_txs = 0\<rparr> = Ok ?itx"
    "get_batch Disbursal ?cp = Ok \<lparr>ba_batch = [demo_final ([1], 1) 5910 3730], ba_signed_txs = 0\<rparr>"
    by (simp_all add: get_batch_def get_tx_def demo_linked_def)
  have len: "bt_output ?itx \<noteq> []" "length (bt_output ?itx) < 2 ^ 32"
    "1 < length (cp_batches (demo_linked (demo_final ([1], 0) 7000 7000)
       (demo_intermediate [\<lparr>to_value = 7000, to_script_pubkey = []\<rparr>, \<lparr>to_value = 985700, to_script_pubkey = []\<rparr>])))"
    by (simp_all add: demo_intermediate_def demo_linked_def)
  from disbursals_spend_distinct_outputs [OF demo_disbursal_fees b(1,2,3) len] show ?thesis
    by (auto simp: demo_intermediate_def demo_final_def demo_fresh_def)
qed

end
