(* ===== verification/Checkpoint_Queue.thy ===== *)
theory Checkpoint_Queue
  imports Checkpoint_Advance
begin

text \<open>
  The checkpoint queue (\<open>CheckpointQueue\<close> in src/src/bitcoin/checkpoint.rs): the checkpoints by
  index, the step that freezes the \<open>Building\<close> checkpoint and opens the next one, signing, pruning,
  fee rates and the count of unconfirmed checkpoints.
\<close>

section \<open>State and lookup\<close>

record checkpoint_queue =
  cq_queue :: "checkpoint list"
  cq_index :: u32
  cq_confirmed_index :: "u32 option"
  cq_config :: checkpoint_config

definition CheckpointQueue_configure :: "checkpoint_config \<Rightarrow> checkpoint_queue \<Rightarrow> checkpoint_queue" where
  "CheckpointQueue_configure config q = q\<lparr>cq_config := config\<rparr>"

definition CheckpointQueue_reset :: "checkpoint_queue \<Rightarrow> checkpoint_queue" where
  "CheckpointQueue_reset q = q\<lparr>cq_index := 0, cq_queue := clear_deque (cq_queue q)\<rparr>"

definition CheckpointQueue_migrate_from ::
  "checkpoint list \<Rightarrow> u32 \<Rightarrow> checkpoint_config \<Rightarrow> checkpoint_queue" where
  "CheckpointQueue_migrate_from queue index config =
     \<lparr>cq_queue = queue, cq_index = index, cq_confirmed_index = None, cq_config = config\<rparr>"

definition CheckpointQueue_get_deque_index :: "checkpoint_queue \<Rightarrow> u32 \<Rightarrow> u32 result" where
  "CheckpointQueue_get_deque_index q index =
     rbind (add_u32 (cq_index q) 1) (\<lambda>next.
     rbind (sub_u next (length (cq_queue q) mod 2 ^ 32)) (\<lambda>start.
     if index > cq_index q \<or> index < start then Err (App ''Index out of bounds'')
     else Ok (index - start)))"

definition CheckpointQueue_get :: "checkpoint_queue \<Rightarrow> u32 \<Rightarrow> checkpoint result" where
  "CheckpointQueue_get q index =
     rbind (CheckpointQueue_get_deque_index q index) (\<lambda>i.
     if i < length (cq_queue q) then Ok (cq_queue q ! i) else Err Panic)"

text \<open>\<open>get_mut\<close> returns a mutable reference; \<open>f\<close> is what the caller does through it, with the
  value it computes on the way.\<close>

definition CheckpointQueue_get_mut ::
  "checkpoint_queue \<Rightarrow> u32 \<Rightarrow> (checkpoint \<Rightarrow> (checkpoint \<times> 'a) result) \<Rightarrow> (checkpoint_queue \<times> 'a) result" where
  "CheckpointQueue_get_mut q index f =
     rbind (CheckpointQueue_get_deque_index q index) (\<lambda>i.
     if i < length (cq_queue q) then
       rbind (f (cq_queue q ! i)) (\<lambda>(cp, a).
       Ok (q\<lparr>cq_queue := (cq_queue q)[i := cp]\<rparr>, a))
     else Err Panic)"

definition CheckpointQueue_len :: "checkpoint_queue \<Rightarrow> u32 result" where
  "CheckpointQueue_len q = (if length (cq_queue q) < 2 ^ 32 then Ok (length (cq_queue q)) else Err TryFrom)"

definition CheckpointQueue_is_empty :: "checkpoint_queue \<Rightarrow> bool result" where
  "CheckpointQueue_is_empty q = rbind (CheckpointQueue_len q) (\<lambda>n. Ok (n = 0))"

definition CheckpointQueue_all :: "checkpoint_queue \<Rightarrow> (u32 \<times> checkpoint) list result" where
  "CheckpointQueue_all q =
     map_result (\<lambda>(i, checkpoint).
       rbind (sub_u (length (cq_queue q) mod 2 ^ 32) (i mod 2 ^ 32)) (\<lambda>back.
       rbind (add_u32 (cq_index q) 1) (\<lambda>next.
       rbind (sub_u next back) (\<lambda>index. Ok (index, checkpoint)))))
     (enumerate 0 (cq_queue q))"

definition CheckpointQueue_first_index :: "checkpoint_queue \<Rightarrow> u32 result" where
  "CheckpointQueue_first_index q =
     rbind (add_u32 (cq_index q) 1) (\<lambda>next.
     rbind (CheckpointQueue_len q) (\<lambda>len. sub_u next len))"

definition CheckpointQueue_signing :: "checkpoint_queue \<Rightarrow> checkpoint option result" where
  "CheckpointQueue_signing q =
     (if length (cq_queue q) < 2 then Ok None
      else
      rbind (sub_u (cq_index q) 1) (\<lambda>i.
      rbind (CheckpointQueue_get q i) (\<lambda>second.
      if cp_status second \<noteq> Signing then Ok None else Ok (Some second))))"

definition CheckpointQueue_building :: "checkpoint_queue \<Rightarrow> checkpoint result" where
  "CheckpointQueue_building q = CheckpointQueue_get q (cq_index q)"

definition CheckpointQueue_completed :: "checkpoint_queue \<Rightarrow> u32 \<Rightarrow> checkpoint list result" where
  "CheckpointQueue_completed q limit =
     rbind (CheckpointQueue_len q) (\<lambda>len.
     if len = 0 then Ok []
     else
     rbind (CheckpointQueue_signing q) (\<lambda>signing.
     let skip = (if signing \<noteq> None then 2 else 1);
         end_index = cq_index q - (skip - 1) in
     rbind (sub_u len skip) (\<lambda>n.
     rbind (sub_u end_index (min limit n)) (\<lambda>start.
     map_result (CheckpointQueue_get q) [start..<end_index]))))"

definition CheckpointQueue_last_completed_index :: "checkpoint_queue \<Rightarrow> u32 result" where
  "CheckpointQueue_last_completed_index q =
     rbind (CheckpointQueue_signing q) (\<lambda>signing.
     let back = (if signing \<noteq> None then 2 else 1) in
     if cq_index q < back then Err (App ''No completed checkpoints yet'')
     else Ok (cq_index q - back))"

definition CheckpointQueue_last_completed :: "checkpoint_queue \<Rightarrow> checkpoint result" where
  "CheckpointQueue_last_completed q =
     rbind (CheckpointQueue_last_completed_index q) (CheckpointQueue_get q)"

definition CheckpointQueue_last_completed_tx :: "'m tx_lib_scheme \<Rightarrow> checkpoint_queue \<Rightarrow> transaction result" where
  "CheckpointQueue_last_completed_tx L q =
     rbind (CheckpointQueue_last_completed q) (Checkpoint_checkpoint_tx L)"

definition CheckpointQueue_completed_txs ::
  "'m tx_lib_scheme \<Rightarrow> checkpoint_queue \<Rightarrow> u32 \<Rightarrow> transaction list result" where
  "CheckpointQueue_completed_txs L q limit =
     rbind (CheckpointQueue_completed q limit) (\<lambda>cps.
     rbind (map_result (Checkpoint_checkpoint_txs L) cps) (\<lambda>txs. Ok (concat txs)))"

definition CheckpointQueue_emergency_disbursal_txs ::
  "'m tx_lib_scheme \<Rightarrow> checkpoint_queue \<Rightarrow> transaction list result" where
  "CheckpointQueue_emergency_disbursal_txs L q =
     rbind (CheckpointQueue_completed q 1) (\<lambda>cps.
     if cps = [] then Ok [] else Checkpoint_emergency_disbursal_txs L (last cps))"

definition CheckpointQueue_active_sigset :: "checkpoint_queue \<Rightarrow> signatory_set result" where
  "CheckpointQueue_active_sigset q = rbind (CheckpointQueue_building q) (\<lambda>cp. Ok (cp_sigset cp))"

definition CheckpointQueue_sigset :: "checkpoint_queue \<Rightarrow> u32 \<Rightarrow> signatory_set result" where
  "CheckpointQueue_sigset q index = rbind (CheckpointQueue_get q index) (\<lambda>cp. Ok (cp_sigset cp))"

section \<open>Unconfirmed checkpoints and fees\<close>

definition CheckpointQueue_num_unconfirmed :: "checkpoint_queue \<Rightarrow> u32 result" where
  "CheckpointQueue_num_unconfirmed q =
     rbind (CheckpointQueue_signing q) (\<lambda>signing.
     let signing_offset = (if signing \<noteq> None then 1 else 0) in
     if cq_index q < 1 + signing_offset then Ok 0
     else
     let last_completed_index = cq_index q - (1 + signing_offset) in
     case cq_confirmed_index q of
       None \<Rightarrow> rbind (CheckpointQueue_len q) (\<lambda>len. rbind (sub_u len 1) (\<lambda>n. sub_u n signing_offset))
     | Some confirmed_index \<Rightarrow> sub_u last_completed_index confirmed_index)"

definition CheckpointQueue_first_unconfirmed_index :: "checkpoint_queue \<Rightarrow> u32 option result" where
  "CheckpointQueue_first_unconfirmed_index q =
     rbind (CheckpointQueue_num_unconfirmed q) (\<lambda>num_unconf.
     if num_unconf = 0 then Ok None
     else
     rbind (CheckpointQueue_signing q) (\<lambda>signing.
     let signing_offset = (if signing \<noteq> None then 1 else 0) in
     rbind (sub_u (cq_index q) num_unconf) (\<lambda>i.
     rbind (sub_u i signing_offset) (\<lambda>i. Ok (Some i)))))"

text \<open>The loop of \<open>unconfirmed\<close>, which stops at the first checkpoint that is not complete.\<close>

fun completed_prefix :: "checkpoint_queue \<Rightarrow> u32 list \<Rightarrow> checkpoint list result" where
  "completed_prefix q [] = Ok []"
| "completed_prefix q (i # is) =
     rbind (CheckpointQueue_get q i) (\<lambda>cp.
     if cp_status cp \<noteq> Complete then Ok []
     else rbind (completed_prefix q is) (\<lambda>cps. Ok (cp # cps)))"

definition CheckpointQueue_unconfirmed :: "checkpoint_queue \<Rightarrow> checkpoint list result" where
  "CheckpointQueue_unconfirmed q =
     rbind (CheckpointQueue_first_unconfirmed_index q) (\<lambda>first.
     case first of None \<Rightarrow> Ok []
     | Some index \<Rightarrow> completed_prefix q [index..<Suc (cq_index q)])"

definition CheckpointQueue_unconfirmed_fees_paid :: "checkpoint_queue \<Rightarrow> u64 result" where
  "CheckpointQueue_unconfirmed_fees_paid q =
     rbind (CheckpointQueue_unconfirmed q) (\<lambda>cps.
     fold_result (\<lambda>fees cp. rbind (Checkpoint_checkpoint_tx_miner_fees cp) (add_u64 fees)) 0 cps)"

definition CheckpointQueue_unconfirmed_vbytes ::
  "'m tx_lib_scheme \<Rightarrow> checkpoint_queue \<Rightarrow> checkpoint_config \<Rightarrow> u64 result" where
  "CheckpointQueue_unconfirmed_vbytes L q config =
     rbind (CheckpointQueue_unconfirmed q) (\<lambda>cps.
     fold_result (\<lambda>sum cp. rbind (Checkpoint_est_vsize L config (replicate 32 0) cp) (add_u64 sum)) 0 cps)"

definition CheckpointQueue_fee_adjustment ::
  "'m tx_lib_scheme \<Rightarrow> checkpoint_queue \<Rightarrow> u64 \<Rightarrow> checkpoint_config \<Rightarrow> u64 result" where
  "CheckpointQueue_fee_adjustment L q fee_rate config =
     rbind (CheckpointQueue_unconfirmed_fees_paid q) (\<lambda>unconf_fees_paid.
     rbind (CheckpointQueue_unconfirmed_vbytes L q config) (\<lambda>unconf_vbytes.
     rbind (mul_u64 unconf_vbytes fee_rate) (\<lambda>owed. Ok (owed - unconf_fees_paid))))"

definition adjust_fee_rate :: "u64 \<Rightarrow> bool \<Rightarrow> checkpoint_config \<Rightarrow> u64 result" where
  "adjust_fee_rate prev_fee_rate up config =
     rbind (if up then
              rbind (mul_u64 prev_fee_rate 5) (\<lambda>x.
              rbind (add_u64 prev_fee_rate 1) (\<lambda>y. Ok (max (x div 4) y)))
            else
              rbind (mul_u64 prev_fee_rate 3) (\<lambda>x.
              rbind (sub_u prev_fee_rate 1) (\<lambda>y. Ok (min (x div 4) y)))) (\<lambda>rate.
     Ok (max (min rate (cc_max_fee_rate config)) (cc_min_fee_rate config)))"

section \<open>Advancing the queue\<close>

text \<open>The loop of \<open>prune\<close> (\<open>while let Some(oldest) = self.queue.front()?\<close>).\<close>

fun prune_loop :: "u64 \<Rightarrow> u64 \<Rightarrow> checkpoint list \<Rightarrow> checkpoint list result" where
  "prune_loop latest max_age [] = Ok []"
| "prune_loop latest max_age (oldest # cps) =
     (if length (oldest # cps) \<le> 10 then Ok (oldest # cps)
      else
      rbind (sub_u latest (Checkpoint_create_time oldest)) (\<lambda>age.
      if age \<le> max_age then Ok (oldest # cps) else prune_loop latest max_age cps))"

definition CheckpointQueue_prune :: "checkpoint_queue \<Rightarrow> checkpoint_queue result" where
  "CheckpointQueue_prune q =
     rbind (CheckpointQueue_building q) (\<lambda>building.
     rbind (prune_loop (Checkpoint_create_time building) (cc_max_age (cq_config q)) (cq_queue q)) (\<lambda>cps.
     Ok (q\<lparr>cq_queue := cps\<rparr>)))"

text \<open>\<open>if let Ok(x) = e\<close>: an error is dropped, a panic is not.\<close>

definition if_let_ok :: "'a result \<Rightarrow> 'a option result" where
  "if_let_ok r = (case r of Ok a \<Rightarrow> Ok (Some a) | Err Panic \<Rightarrow> Err Panic | Err _ \<Rightarrow> Ok None)"

text \<open>The index and the signatory set the next checkpoint would have.\<close>

definition next_sigset ::
  "'m script_lib_scheme \<Rightarrow> ctx \<Rightarrow> (consensus_key \<times> xpub) list \<Rightarrow> checkpoint_queue \<Rightarrow> (u32 \<times> signatory_set) result" where
  "next_sigset L C sig_keys q =
     rbind (if cq_queue q \<noteq> [] then add_u32 (cq_index q) 1 else Ok (cq_index q)) (\<lambda>index.
     rbind (SignatorySet_from_validator_ctx L C index sig_keys) (\<lambda>sigset. Ok (index, sigset)))"

text \<open>Whether Bitcoin headers are being backfilled.\<close>

definition backfilling :: "checkpoint_queue \<Rightarrow> u32 \<Rightarrow> bool result" where
  "backfilling q btc_height =
     rbind (if_let_ok (CheckpointQueue_last_completed_index q)) (\<lambda>last.
     case last of None \<Rightarrow> Ok False
     | Some i \<Rightarrow>
         rbind (CheckpointQueue_get q i) (\<lambda>last_completed.
         let last_signed_height = (case cp_signed_at_btc_height last_completed of None \<Rightarrow> 0 | Some h \<Rightarrow> h) in
         Ok (btc_height < last_signed_height)))"

text \<open>Whether the \<open>Building\<close> checkpoint holds deposits, withdrawals or transfers, and enough fees.\<close>

definition worth_pushing :: "'m tx_lib_scheme \<Rightarrow> bytes \<Rightarrow> checkpoint_queue \<Rightarrow> bool result" where
  "worth_pushing L timestamping_commitment q =
     rbind (CheckpointQueue_building q) (\<lambda>building.
     rbind (Checkpoint_checkpoint_tx L building) (\<lambda>checkpoint_tx.
     let has_pending_deposit = (if cq_index q = 0 then tr_input checkpoint_tx \<noteq> []
                                else length (tr_input checkpoint_tx) > 1);
         has_pending_withdrawal = (tr_output checkpoint_tx \<noteq> []);
         has_pending_transfers = (cp_pending building \<noteq> []) in
     if \<not> has_pending_deposit \<and> \<not> has_pending_withdrawal \<and> \<not> has_pending_transfers then Ok False
     else if cc_wait_to_collect_fees (cq_config q) then
       rbind (Checkpoint_base_fee L (cq_config q) timestamping_commitment building) (\<lambda>base.
       rbind (CheckpointQueue_fee_adjustment L q (cp_fee_rate building) (cq_config q)) (\<lambda>adj.
       rbind (add_u64 base adj) (\<lambda>miner_fee.
       Ok (\<not> cp_fees_collected building < miner_fee))))
     else Ok True))"

text \<open>The conditions on a queue that has a \<open>Building\<close> checkpoint.\<close>

definition building_is_due ::
  "'m tx_lib_scheme \<Rightarrow> ctx \<Rightarrow> bytes \<Rightarrow> u32 \<Rightarrow> checkpoint_queue \<Rightarrow> bool result" where
  "building_is_due L C timestamping_commitment btc_height q =
     rbind (ok_or (App ''No time context'') (cx_time C)) (\<lambda>seconds.
     let now = as_u64 seconds in
     rbind (CheckpointQueue_building q) (\<lambda>building.
     rbind (sub_u now (Checkpoint_create_time building)) (\<lambda>elapsed.
     if elapsed < cc_min_checkpoint_interval (cq_config q) then Ok False
     else
     rbind (backfilling q btc_height) (\<lambda>backfilling.
     if backfilling then Ok False
     else if elapsed < cc_max_checkpoint_interval (cq_config q) \<or> cq_index q = 0
     then worth_pushing L timestamping_commitment q
     else Ok True))))"

definition CheckpointQueue_should_push ::
  "'m tx_lib_scheme \<Rightarrow> ctx \<Rightarrow> (consensus_key \<times> xpub) list \<Rightarrow> bytes \<Rightarrow> u32 \<Rightarrow> checkpoint_queue \<Rightarrow> bool result" where
  "CheckpointQueue_should_push L C sig_keys timestamping_commitment btc_height q =
     rbind (CheckpointQueue_signing q) (\<lambda>signing.
     if signing \<noteq> None then Ok False
     else
     rbind (if cq_queue q \<noteq> [] then building_is_due L C timestamping_commitment btc_height q else Ok True) (\<lambda>due.
     if \<not> due then Ok False
     else
     rbind (CheckpointQueue_num_unconfirmed q) (\<lambda>unconfs.
     if unconfs \<ge> cc_max_unconfirmed_checkpoints (cq_config q) then Ok False
     else
     rbind (next_sigset L C sig_keys q) (\<lambda>(index, sigset).
     Ok (ss_possible_vp sigset \<noteq> 0 \<and> SignatorySet_has_quorum sigset)))))"

definition CheckpointQueue_maybe_push ::
  "'m script_lib_scheme \<Rightarrow> ctx \<Rightarrow> (consensus_key \<times> xpub) list \<Rightarrow> bool \<Rightarrow> checkpoint_queue
     \<Rightarrow> checkpoint_queue option result" where
  "CheckpointQueue_maybe_push L C sig_keys deposits_enabled q =
     rbind (next_sigset L C sig_keys q) (\<lambda>(index, sigset).
     if ss_possible_vp sigset = 0 then Ok None
     else if \<not> SignatorySet_has_quorum sigset then Ok None
     else
     let q = q\<lparr>cq_index := index, cq_queue := cq_queue q @ [Checkpoint_new sigset]\<rparr> in
     rbind (CheckpointQueue_get_mut q (cq_index q) (\<lambda>cp. Ok (cp\<lparr>cp_deposits_enabled := deposits_enabled\<rparr>, ()))) (\<lambda>(q, _).
     Ok (Some q)))"

text \<open>The fee rate of the new checkpoint.\<close>

definition next_fee_rate :: "checkpoint_config \<Rightarrow> u32 \<Rightarrow> u64 \<Rightarrow> checkpoint_queue \<Rightarrow> u64 result" where
  "next_fee_rate config btc_height prev_fee_rate q =
     rbind (CheckpointQueue_first_unconfirmed_index q) (\<lambda>first.
     case first of
       Some first_unconf_index \<Rightarrow>
         rbind (CheckpointQueue_get q first_unconf_index) (\<lambda>first_unconf.
         rbind (sub_u btc_height (case cp_signed_at_btc_height first_unconf of None \<Rightarrow> 0 | Some h \<Rightarrow> h)) (\<lambda>since_first.
         let miners_excluded_cps = (since_first \<ge> cc_target_checkpoint_inclusion config) in
         rbind (CheckpointQueue_last_completed_index q) (\<lambda>last_unconf_index.
         rbind (CheckpointQueue_get q last_unconf_index) (\<lambda>last_unconf.
         rbind (sub_u btc_height (case cp_signed_at_btc_height last_unconf of None \<Rightarrow> 0 | Some h \<Rightarrow> h)) (\<lambda>since_last.
         let block_was_mined = (since_last > 0) in
         if miners_excluded_cps \<and> block_was_mined then adjust_fee_rate prev_fee_rate True config
         else Ok prev_fee_rate)))))
     | None \<Rightarrow>
         rbind (if_let_ok (CheckpointQueue_last_completed_index q)) (\<lambda>last.
         if last \<noteq> None then adjust_fee_rate prev_fee_rate False config else Ok prev_fee_rate))"

text \<open>An input that did not fit in the previous checkpoint, with its signatures rebuilt.\<close>

definition carry_input :: "input \<Rightarrow> input result" where
  "carry_input input =
     rbind (ThresholdSig_from_shares (ThresholdSig_shares (in_signatures input))) (\<lambda>ts.
     Ok (input\<lparr>in_signatures := ts\<rparr>))"

text \<open>What the new \<open>Building\<close> checkpoint takes over: the fee rate, the reserve output and the excess.\<close>

definition open_checkpoint ::
  "'m tx_lib_scheme \<Rightarrow> checkpoint_config \<Rightarrow> signatory_set \<Rightarrow> u64 \<Rightarrow> outpoint \<Rightarrow> u64 \<Rightarrow> input list \<Rightarrow> txout list
     \<Rightarrow> checkpoint \<Rightarrow> (checkpoint \<times> unit) result" where
  "open_checkpoint L config sigset fee_rate reserve_outpoint reserve_value excess_inputs excess_outputs building =
     rbind (get_batch Checkpoint_batch building) (\<lambda>b.
     rbind (get_tx b) (\<lambda>checkpoint_tx.
     rbind (Input_new L reserve_outpoint sigset [0] reserve_value (cc_sigset_threshold config)) (\<lambda>input.
     rbind (map_result carry_input excess_inputs) (\<lambda>excess_inputs.
     let checkpoint_tx = checkpoint_tx\<lparr>bt_input := bt_input checkpoint_tx @ input # excess_inputs,
                                       bt_output := bt_output checkpoint_tx @ excess_outputs\<rparr> in
     Ok ((set_batch Checkpoint_batch (set_tx checkpoint_tx b) building)\<lparr>cp_fee_rate := fee_rate\<rparr>, ())))))"

text \<open>The part of \<open>maybe_step\<close> that freezes the previous checkpoint.\<close>

definition step_from ::
  "'m header_lib_scheme \<Rightarrow> 'l tx_lib_scheme \<Rightarrow> ctx \<Rightarrow> (address \<Rightarrow> u64) \<Rightarrow> (address \<times> bytes) list \<Rightarrow> txout result list
     \<Rightarrow> u32 \<Rightarrow> bytes \<Rightarrow> int \<Rightarrow> u64 \<Rightarrow> checkpoint_queue \<Rightarrow> (checkpoint_queue \<times> int) result" where
  "step_from H L C nbtc_accounts recovery_scripts external_outputs btc_height timestamping_commitment fee_pool
       units_per_sat q =
     rbind (sub_u (cq_index q) 1) (\<lambda>prev_index.
     rbind (CheckpointQueue_get q prev_index) (\<lambda>prev.
     rbind (CheckpointQueue_fee_adjustment L q (cp_fee_rate prev) (cq_config q)) (\<lambda>additional_fees.
     let config = cq_config q in
     rbind (CheckpointQueue_get_mut q prev_index (BuildingCheckpoint_advance H L C nbtc_accounts recovery_scripts
              external_outputs timestamping_commitment additional_fees config))
       (\<lambda>(q, reserve_outpoint, reserve_value, fees_paid, excess_inputs, excess_outputs).
     rbind (mul_u64 fees_paid units_per_sat) (\<lambda>paid.
     rbind (sub_i64 fee_pool (as_i64 paid)) (\<lambda>fee_pool.
     rbind (next_fee_rate config btc_height (cp_fee_rate prev) q) (\<lambda>fee_rate.
     rbind (CheckpointQueue_get_mut q (cq_index q) (open_checkpoint L config (cp_sigset prev) fee_rate
              reserve_outpoint reserve_value excess_inputs excess_outputs)) (\<lambda>(q, _).
     Ok (q, fee_pool)))))))))"

text \<open>The result is the returned flag, the queue and the fee pool.\<close>

definition CheckpointQueue_maybe_step ::
  "'m header_lib_scheme \<Rightarrow> 'l tx_lib_scheme \<Rightarrow> ctx \<Rightarrow> (consensus_key \<times> xpub) list \<Rightarrow> (address \<Rightarrow> u64)
     \<Rightarrow> (address \<times> bytes) list \<Rightarrow> txout result list \<Rightarrow> u32 \<Rightarrow> bool \<Rightarrow> bytes \<Rightarrow> int \<Rightarrow> u64 \<Rightarrow> checkpoint_queue
     \<Rightarrow> (bool \<times> checkpoint_queue \<times> int) result" where
  "CheckpointQueue_maybe_step H L C sig_keys nbtc_accounts recovery_scripts external_outputs btc_height
       should_allow_deposits timestamping_commitment fee_pool units_per_sat q =
     rbind (CheckpointQueue_should_push L C sig_keys timestamping_commitment btc_height q) (\<lambda>push.
     if \<not> push then Ok (False, q, fee_pool)
     else
     rbind (CheckpointQueue_maybe_push L C sig_keys should_allow_deposits q) (\<lambda>pushed.
     case pushed of None \<Rightarrow> Ok (False, q, fee_pool)
     | Some q \<Rightarrow>
         rbind (CheckpointQueue_prune q) (\<lambda>q.
         rbind (if cq_index q > 0
                then step_from H L C nbtc_accounts recovery_scripts external_outputs btc_height
                       timestamping_commitment fee_pool units_per_sat q
                else Ok (q, fee_pool)) (\<lambda>(q, fee_pool). Ok (True, q, fee_pool)))))"

section \<open>Signing and backfilling\<close>

definition SigningCheckpoint_advance :: "checkpoint \<Rightarrow> checkpoint" where
  "SigningCheckpoint_advance cp = cp\<lparr>cp_status := Complete\<rparr>"

text \<open>The body of \<open>sign\<close> on the checkpoint it looked up.\<close>

definition sign_checkpoint ::
  "'m tx_lib_scheme \<Rightarrow> xpub \<Rightarrow> signature list \<Rightarrow> u32 \<Rightarrow> checkpoint \<Rightarrow> (checkpoint \<times> unit) result" where
  "sign_checkpoint L xpub sigs btc_height checkpoint =
     (let status = cp_status checkpoint in
      if status = Building then Err (App ''Checkpoint is still building'')
      else
      rbind (Checkpoint_sign L xpub sigs btc_height checkpoint) (\<lambda>checkpoint.
      if status = Signing \<and> Checkpoint_signed checkpoint then
        rbind (Checkpoint_checkpoint_tx L checkpoint) (\<lambda>_.
        Ok (SigningCheckpoint_advance checkpoint, ()))
      else Ok (checkpoint, ())))"

definition CheckpointQueue_sign ::
  "'m tx_lib_scheme \<Rightarrow> ctx \<Rightarrow> xpub \<Rightarrow> signature list \<Rightarrow> u32 \<Rightarrow> u32 \<Rightarrow> checkpoint_queue \<Rightarrow> checkpoint_queue result" where
  "CheckpointQueue_sign L C xpub sigs index btc_height q =
     rbind (exempt_from_fee C) (\<lambda>_.
     rbind (CheckpointQueue_get_mut q index (sign_checkpoint L xpub sigs btc_height)) (\<lambda>(q, _). Ok q))"

definition backfill_script ::
  "'m script_lib_scheme \<Rightarrow> u64 \<times> u64 \<Rightarrow> u64 \<Rightarrow> u32 \<times> checkpoint_queue \<Rightarrow> bytes \<Rightarrow> (u32 \<times> checkpoint_queue) result" where
  "backfill_script L threshold_ratio create_time = (\<lambda>(index, q) script.
     rbind (sub_u index 1) (\<lambda>index.
     rbind (CheckpointQueue_first_index q) (\<lambda>first.
     if index \<ge> first then Ok (index, q)
     else
     rbind (SignatorySet_from_script L script threshold_ratio) (\<lambda>(sigset, _).
     let sigset = sigset\<lparr>ss_index := index, ss_create_time := create_time\<rparr>;
         cp = (Checkpoint_new sigset)\<lparr>cp_status := Complete\<rparr> in
     Ok (index, q\<lparr>cq_queue := cp # cq_queue q\<rparr>)))))"

definition CheckpointQueue_backfill ::
  "'m script_lib_scheme \<Rightarrow> u32 \<Rightarrow> bytes list \<Rightarrow> u64 \<times> u64 \<Rightarrow> checkpoint_queue \<Rightarrow> checkpoint_queue result" where
  "CheckpointQueue_backfill L first_index redeem_scripts threshold_ratio q =
     rbind (add_u32 first_index 1) (\<lambda>index.
     case cq_queue q of
       [] \<Rightarrow> Err Panic
     | oldest # _ \<Rightarrow>
         rbind (fold_result (backfill_script L threshold_ratio (Checkpoint_create_time oldest)) (index, q) redeem_scripts)
           (\<lambda>(_, q). Ok q))"

section \<open>The invariant of the queue\<close>

text \<open>
  The statuses, oldest first: complete checkpoints, at most one being signed, and one being built.
  The checkpoints' signatory sets carry the indices up to \<open>cq_index\<close>, and a confirmed checkpoint is
  a complete one.
\<close>

definition cq_shape :: "checkpoint list \<Rightarrow> bool" where
  "cq_shape cps \<longleftrightarrow> (\<forall>i < length cps. (cp_status (cps ! i) = Building \<longleftrightarrow> Suc i = length cps)
     \<and> (cp_status (cps ! i) = Signing \<longrightarrow> i + 2 = length cps))"

definition cq_indexed :: "u32 \<Rightarrow> checkpoint list \<Rightarrow> bool" where
  "cq_indexed index cps \<longleftrightarrow> length cps \<le> Suc index \<and> Suc index < 2 ^ 32
     \<and> (\<forall>i < length cps. ss_index (cp_sigset (cps ! i)) + length cps = Suc index + i)"

definition has_signing :: "checkpoint list \<Rightarrow> bool" where
  "has_signing cps \<longleftrightarrow> 2 \<le> length cps \<and> cp_status (cps ! (length cps - 2)) = Signing"

definition cq_inv :: "checkpoint_queue \<Rightarrow> bool" where
  "cq_inv q \<longleftrightarrow> cq_shape (cq_queue q) \<and> cq_indexed (cq_index q) (cq_queue q)
     \<and> (cq_queue q = [] \<longrightarrow> cq_index q = 0 \<and> cq_confirmed_index q = None)
     \<and> (case cq_confirmed_index q of None \<Rightarrow> True | Some c \<Rightarrow> c \<le> cq_index q)"

abbreviation first_of :: "checkpoint_queue \<Rightarrow> u32" where
  "first_of q \<equiv> Suc (cq_index q) - length (cq_queue q)"

lemma get_deque_index_eq:
  assumes "cq_indexed (cq_index q) (cq_queue q)"
  shows "CheckpointQueue_get_deque_index q i =
    (if first_of q \<le> i \<and> i \<le> cq_index q then Ok (i - first_of q) else Err (App ''Index out of bounds''))"
proof -
  have "length (cq_queue q) mod 2 ^ 32 = length (cq_queue q)"
    using assms by (intro mod_less) (simp add: cq_indexed_def)
  then show ?thesis
    using assms by (auto simp: CheckpointQueue_get_deque_index_def cq_indexed_def add_w_def sub_u_def)
qed

lemma get_eq:
  assumes "cq_indexed (cq_index q) (cq_queue q)"
  shows "CheckpointQueue_get q i =
    (if first_of q \<le> i \<and> i \<le> cq_index q then Ok (cq_queue q ! (i - first_of q))
     else Err (App ''Index out of bounds''))"
  using assms by (auto simp: CheckpointQueue_get_def get_deque_index_eq cq_indexed_def)

lemma get_mut_Ok:
  assumes "cq_indexed (cq_index q) (cq_queue q)" and "CheckpointQueue_get_mut q i f = Ok (q', a)"
  obtains j cp where "j < length (cq_queue q)" "i = first_of q + j" "f (cq_queue q ! j) = Ok (cp, a)"
    "q' = q\<lparr>cq_queue := (cq_queue q)[j := cp]\<rparr>"
proof -
  from assms(2) obtain cp where "first_of q \<le> i" "i \<le> cq_index q" "i - first_of q < length (cq_queue q)"
    "f (cq_queue q ! (i - first_of q)) = Ok (cp, a)" "q' = q\<lparr>cq_queue := (cq_queue q)[i - first_of q := cp]\<rparr>"
    by (auto simp: CheckpointQueue_get_mut_def get_deque_index_eq [OF assms(1)] split: if_splits)
  then show thesis by (intro that [of "i - first_of q" cp]) auto
qed

lemma signing_eq:
  assumes "cq_indexed (cq_index q) (cq_queue q)"
  shows "CheckpointQueue_signing q = Ok (if has_signing (cq_queue q)
     then Some (cq_queue q ! (length (cq_queue q) - 2)) else None)"
proof (cases "length (cq_queue q) < 2")
  case True
  then show ?thesis by (simp add: CheckpointQueue_signing_def has_signing_def)
next
  case False
  with assms have le: "first_of q \<le> cq_index q - 1" "1 \<le> cq_index q"
    "cq_index q - 1 - first_of q = length (cq_queue q) - 2"
    by (auto simp: cq_indexed_def)
  with False show ?thesis
    by (auto simp: CheckpointQueue_signing_def has_signing_def sub_u_def get_eq [OF assms])
qed

lemma building_eq:
  assumes "cq_indexed (cq_index q) (cq_queue q)" and "cq_queue q \<noteq> []"
  shows "CheckpointQueue_building q = Ok (last (cq_queue q))"
proof -
  have "cq_index q - first_of q = length (cq_queue q) - 1" "first_of q \<le> cq_index q"
    using assms by (cases "cq_queue q"; auto simp: cq_indexed_def)+
  then show ?thesis using assms(2) by (simp add: CheckpointQueue_building_def get_eq [OF assms(1)] last_conv_nth)
qed

lemma len_eq: "cq_indexed (cq_index q) (cq_queue q) \<Longrightarrow> CheckpointQueue_len q = Ok (length (cq_queue q))"
  by (simp add: CheckpointQueue_len_def cq_indexed_def)

lemma next_sigset_Ok:
  assumes "next_sigset L C keys q = Ok (index, ss)"
  shows "ss_index ss = index" "index = (if cq_queue q = [] then cq_index q else Suc (cq_index q))"
  using assms by (auto simp: next_sigset_def elim: SignatorySet_from_validator_ctx_Ok split: if_splits)

lemma prune_loop_Ok:
  "prune_loop latest age cps = Ok cps' \<Longrightarrow> \<exists>n. cps' = drop n cps \<and> (n = 0 \<or> 10 \<le> length cps')
     \<and> (\<forall>i < n. age < latest - Checkpoint_create_time (cps ! i))
     \<and> (length cps' \<le> 10 \<or> latest - Checkpoint_create_time (hd cps') \<le> age)"
proof (induction latest age cps rule: prune_loop.induct)
  case (1 latest age)
  then show ?case by auto
next
  case (2 latest age cp cps)
  show ?case
  proof (cases "length (cp # cps) \<le> 10 \<or> latest - Checkpoint_create_time cp \<le> age")
    case True
    with "2.prems" have "cps' = cp # cps" by (auto split: if_splits)
    with True show ?thesis by (intro exI [of _ 0]) auto
  next
    case False
    with "2.prems" have more: "prune_loop latest age cps = Ok cps'" "Checkpoint_create_time cp \<le> latest" by auto
    then have "\<exists>n. cps' = drop n cps \<and> (n = 0 \<or> 10 \<le> length cps')
       \<and> (\<forall>i < n. age < latest - Checkpoint_create_time (cps ! i))
       \<and> (length cps' \<le> 10 \<or> latest - Checkpoint_create_time (hd cps') \<le> age)"
      using "2.IH" [of "latest - Checkpoint_create_time cp"] False by simp
    then obtain n where n: "cps' = drop n cps" "n = 0 \<or> 10 \<le> length cps'"
      "\<forall>i < n. age < latest - Checkpoint_create_time (cps ! i)"
      "length cps' \<le> 10 \<or> latest - Checkpoint_create_time (hd cps') \<le> age" by blast
    then show ?thesis
      using False by (intro exI [of _ "Suc n"]) (auto simp: less_Suc_eq_0_disj)
  qed
qed

lemma CheckpointQueue_prune_Ok:
  assumes "CheckpointQueue_prune q = Ok q'"
  obtains n where "q' = q\<lparr>cq_queue := drop n (cq_queue q)\<rparr>" "n = 0 \<or> n + 10 \<le> length (cq_queue q)"
proof -
  from assms obtain b cps where "prune_loop (Checkpoint_create_time b) (cc_max_age (cq_config q)) (cq_queue q) = Ok cps"
    "q' = q\<lparr>cq_queue := cps\<rparr>" by (auto simp: CheckpointQueue_prune_def)
  with prune_loop_Ok [OF this(1)] that show thesis by fastforce
qed

lemma cq_indexed_drop:
  assumes "cq_indexed index cps" and "n = 0 \<or> n + 10 \<le> length cps"
  shows "cq_indexed index (drop n cps)"
proof -
  have "ss_index (cp_sigset (drop n cps ! i)) + length (drop n cps) = Suc index + i" if "i < length (drop n cps)" for i
  proof -
    have "n + i < length cps" using that by simp
    then have "ss_index (cp_sigset (cps ! (n + i))) + length cps = Suc index + (n + i)"
      using assms(1) unfolding cq_indexed_def by blast
    then show ?thesis using that by simp
  qed
  then show ?thesis using assms by (auto simp: cq_indexed_def)
qed

lemma cq_indexed_update:
  assumes "cq_indexed index cps" and "j < length cps" and "cp_sigset cp = cp_sigset (cps ! j)"
  shows "cq_indexed index (cps[j := cp])"
  using assms by (auto simp: cq_indexed_def nth_list_update)

lemma cq_indexed_push:
  assumes "cq_indexed index cps" and "cps = [] \<longrightarrow> index = 0"
    and "index' = (if cps = [] then index else Suc index)" and "ss_index (cp_sigset cp) = index'" and "Suc index' < 2 ^ 32"
  shows "cq_indexed index' (cps @ [cp])"
proof -
  have "ss_index (cp_sigset ((cps @ [cp]) ! i)) + length (cps @ [cp]) = Suc index' + i" if "i < length (cps @ [cp])" for i
  proof (cases "i < length cps")
    case True
    then have "ss_index (cp_sigset (cps ! i)) + length cps = Suc index + i" "cps \<noteq> []"
      using assms(1) unfolding cq_indexed_def by auto
    with True assms(3) show ?thesis by (simp add: nth_append)
  next
    case False
    with that have "i = length cps" by simp
    with assms(4) show ?thesis by (simp add: nth_append)
  qed
  moreover have "length cps \<le> index'" using assms(1,2,3) by (auto simp: cq_indexed_def)
  ultimately show ?thesis using assms(5) by (simp add: cq_indexed_def)
qed

text \<open>Between the push and the freezing of the previous checkpoint, two checkpoints are being built.\<close>

definition pushed_shape :: "checkpoint list \<Rightarrow> bool" where
  "pushed_shape cps \<longleftrightarrow> (\<forall>i < length cps. cp_status (cps ! i) = (if i + 2 < length cps then Complete else Building))"

lemma pushed_shape_drop: "pushed_shape cps \<Longrightarrow> pushed_shape (drop n cps)"
  by (auto simp: pushed_shape_def)

lemma cq_shape_Complete: "cq_shape cps \<Longrightarrow> i < length cps \<Longrightarrow> i + 2 < length cps \<Longrightarrow> cp_status (cps ! i) = Complete"
proof -
  assume a: "cq_shape cps" "i < length cps" "i + 2 < length cps"
  then have "cp_status (cps ! i) = Building \<longleftrightarrow> Suc i = length cps" "cp_status (cps ! i) = Signing \<longrightarrow> i + 2 = length cps"
    unfolding cq_shape_def by blast+
  with a(3) have "cp_status (cps ! i) \<noteq> Building" "cp_status (cps ! i) \<noteq> Signing" by linarith+
  then show ?thesis by (cases "cp_status (cps ! i)") auto
qed

lemma pushed_shape_push:
  assumes "cq_shape cps" and "\<not> has_signing cps" and "cp_status cp = Building"
  shows "pushed_shape (cps @ [cp])"
proof -
  have "cp_status (cps ! i) = (if Suc i < length cps then Complete else Building)" if "i < length cps" for i
  proof (cases "i + 2 = length cps")
    case True
    then have "i = length cps - 2" "2 \<le> length cps" by auto
    with assms(2) True have "cp_status (cps ! i) \<noteq> Signing" by (auto simp: has_signing_def)
    moreover have "cp_status (cps ! i) \<noteq> Building" using assms(1) that True by (auto simp: cq_shape_def)
    ultimately show ?thesis using True by (cases "cp_status (cps ! i)") auto
  next
    case False
    then show ?thesis using assms(1) that cq_shape_Complete [OF assms(1) that] by (auto simp: cq_shape_def)
  qed
  then show ?thesis using assms(3) by (auto simp: pushed_shape_def nth_append)
qed

lemma maybe_push_Ok:
  assumes "CheckpointQueue_maybe_push L C keys dep q = Ok (Some q')" and "cq_inv q"
  obtains ss index where "next_sigset L C keys q = Ok (index, ss)"
    "ss_possible_vp ss \<noteq> 0" "SignatorySet_has_quorum ss"
    "q' = q\<lparr>cq_index := index, cq_queue := cq_queue q @ [(Checkpoint_new ss)\<lparr>cp_deposits_enabled := dep\<rparr>]\<rparr>"
    "cq_indexed (cq_index q') (cq_queue q')"
proof -
  from assms(1) obtain ss index where n: "next_sigset L C keys q = Ok (index, ss)"
    "ss_possible_vp ss \<noteq> 0" "SignatorySet_has_quorum ss" and
    m: "CheckpointQueue_get_mut (q\<lparr>cq_index := index, cq_queue := cq_queue q @ [Checkpoint_new ss]\<rparr>) index
      (\<lambda>cp. Ok (cp\<lparr>cp_deposits_enabled := dep\<rparr>, ())) = Ok (q', ())"
    by (auto simp: CheckpointQueue_maybe_push_def Let_def split: if_splits)
  note ix = next_sigset_Ok [OF n(1)]
  have "Suc index < 2 ^ 32" using m by (auto simp: CheckpointQueue_get_mut_def CheckpointQueue_get_deque_index_def)
  then have wf: "cq_indexed index (cq_queue q @ [cp])" if "cp_sigset cp = ss" for cp
    using assms(2) ix that by (intro cq_indexed_push [where index = "cq_index q"]) (auto simp: cq_inv_def)
  let ?q = "q\<lparr>cq_index := index, cq_queue := cq_queue q @ [Checkpoint_new ss]\<rparr>"
  have "cq_indexed (cq_index ?q) (cq_queue ?q)" using wf by (simp add: Checkpoint_new_def)
  moreover have "CheckpointQueue_get_mut ?q (cq_index ?q) (\<lambda>cp. Ok (cp\<lparr>cp_deposits_enabled := dep\<rparr>, ())) = Ok (q', ())"
    using m by simp
  ultimately obtain j cp where "j < length (cq_queue ?q)" "cq_index ?q = first_of ?q + j"
    "Ok ((cq_queue ?q ! j)\<lparr>cp_deposits_enabled := dep\<rparr>, ()) = Ok (cp, ())"
    "q' = ?q\<lparr>cq_queue := (cq_queue ?q)[j := cp]\<rparr>" by (rule get_mut_Ok)
  moreover from this wf [of "Checkpoint_new ss"] have "j = length (cq_queue q)" by (auto simp: Checkpoint_new_def cq_indexed_def)
  ultimately have "q' = q\<lparr>cq_index := index, cq_queue := cq_queue q @ [(Checkpoint_new ss)\<lparr>cp_deposits_enabled := dep\<rparr>]\<rparr>" by simp
  moreover from this have "cq_indexed (cq_index q') (cq_queue q')" using wf by (simp add: Checkpoint_new_def)
  ultimately show thesis using that n by blast
qed

lemma advance_keeps_sigset:
  assumes "BuildingCheckpoint_advance H L C bal rs ext commitment additional config cp = Ok (cp', res)"
  shows "cp_sigset cp' = cp_sigset cp" "cp_status cp' = Signing" "cp_pending cp' = cp_pending cp"
proof -
  let ?cp = "cp\<lparr>cp_status := Signing\<rparr>"
  obtain op rv fee ei eo where res: "res = (op, rv, fee, ei, eo)" by (cases res)
  from assms obtain b x cp2 y where
    gen: "generate_emergency_disbursal_txs H L C bal rs op ext (cp_fee_rate cp) rv config
       (set_batch Checkpoint_batch x ?cp) = Ok cp2" and cp': "cp' = set_batch Checkpoint_batch y cp2"
    unfolding res by (auto simp: BuildingCheckpoint_advance_def Let_def set_batch_def)
  have "cp2 = (set_batch Checkpoint_batch x ?cp)\<lparr>cp_batches := cp_batches cp2\<rparr>"
    using generate_emergency_disbursal_txs_frame [OF gen] by (simp add: disbursal_frame_def)
  then have "cp_sigset cp2 = cp_sigset cp \<and> cp_status cp2 = Signing \<and> cp_pending cp2 = cp_pending cp"
    by (rule ssubst [of cp2]) (simp add: set_batch_def)
  then show "cp_sigset cp' = cp_sigset cp" "cp_status cp' = Signing" "cp_pending cp' = cp_pending cp"
    by (simp_all add: cp' set_batch_def)
qed

lemma open_checkpoint_Ok:
  assumes "open_checkpoint L config ss rate op rv ei eo cp = Ok (cp', u)"
  obtains b tx input eis where "get_batch Checkpoint_batch cp = Ok b" "get_tx b = Ok tx"
    "Input_new L op ss [0] rv (cc_sigset_threshold config) = Ok input" "map_result carry_input ei = Ok eis"
    "cp' = (set_batch Checkpoint_batch (set_tx (tx\<lparr>bt_input := bt_input tx @ input # eis,
        bt_output := bt_output tx @ eo\<rparr>) b) cp)\<lparr>cp_fee_rate := rate\<rparr>"
    "cp_sigset cp' = cp_sigset cp" "cp_status cp' = cp_status cp"
proof -
  from assms obtain b tx input eis where o: "get_batch Checkpoint_batch cp = Ok b" "get_tx b = Ok tx"
    "Input_new L op ss [0] rv (cc_sigset_threshold config) = Ok input" "map_result carry_input ei = Ok eis"
    "cp' = (set_batch Checkpoint_batch (set_tx (tx\<lparr>bt_input := bt_input tx @ input # eis,
        bt_output := bt_output tx @ eo\<rparr>) b) cp)\<lparr>cp_fee_rate := rate\<rparr>"
    by (auto simp: open_checkpoint_def Let_def)
  then show thesis by (intro that [OF o]) (simp_all add: set_batch_def)
qed

lemma last_two_split:
  assumes "n + 2 = length xs"
  obtains ys a b where "xs = ys @ [a, b]" "n = length ys"
proof -
  have "length (drop n xs) = Suc (Suc 0)" using assms by simp
  then obtain a b where "drop n xs = [a, b]" unfolding length_Suc_conv length_0_conv by blast
  then show thesis using assms by (intro that [of "take n xs" a b]) (metis append_take_drop_id, simp)
qed

lemma step_from_Ok:
  assumes "step_from H L C bal rs ext h commitment pool units q = Ok (q', pool')"
    and "cq_indexed (cq_index q) (cq_queue q)"
  obtains cps prev prev' cp cp' additional op rv fee ei eo rate where
    "cq_queue q = cps @ [prev, cp]" "q' = q\<lparr>cq_queue := cps @ [prev', cp']\<rparr>"
    "CheckpointQueue_fee_adjustment L q (cp_fee_rate prev) (cq_config q) = Ok additional"
    "BuildingCheckpoint_advance H L C bal rs ext commitment additional (cq_config q) prev
       = Ok (prev', op, rv, fee, ei, eo)"
    "fee * units < 2 ^ 64" "pool' = pool - as_i64 (fee * units)"
    "next_fee_rate (cq_config q) h (cp_fee_rate prev) (q\<lparr>cq_queue := cps @ [prev', cp]\<rparr>) = Ok rate"
    "open_checkpoint L (cq_config q) (cp_sigset prev) rate op rv ei eo cp = Ok (cp', ())"
    "cq_indexed (cq_index q') (cq_queue q')"
proof -
  from assms(1) obtain prev additional q1 op rv fee ei eo rate where
    p: "1 \<le> cq_index q" "CheckpointQueue_get q (cq_index q - 1) = Ok prev"
    and adj: "CheckpointQueue_fee_adjustment L q (cp_fee_rate prev) (cq_config q) = Ok additional"
    and q1: "CheckpointQueue_get_mut q (cq_index q - 1) (BuildingCheckpoint_advance H L C bal rs ext commitment additional
       (cq_config q)) = Ok (q1, op, rv, fee, ei, eo)"
    and fee: "fee * units < 2 ^ 64" "pool' = pool - as_i64 (fee * units)"
    and rate: "next_fee_rate (cq_config q) h (cp_fee_rate prev) q1 = Ok rate"
    and q2: "CheckpointQueue_get_mut q1 (cq_index q1) (open_checkpoint L (cq_config q) (cp_sigset prev) rate op rv ei eo)
       = Ok (q', ())"
    by (auto simp: step_from_def Let_def simp del: One_nat_def)
  from get_mut_Ok [OF assms(2) q1] obtain j prev' where j: "j < length (cq_queue q)"
    "cq_index q - 1 = first_of q + j"
    "BuildingCheckpoint_advance H L C bal rs ext commitment additional (cq_config q) (cq_queue q ! j)
       = Ok (prev', op, rv, fee, ei, eo)" "q1 = q\<lparr>cq_queue := (cq_queue q)[j := prev']\<rparr>" .
  from j(1,2) p(1) have jl: "j + 2 = length (cq_queue q)" using assms(2) by (auto simp: cq_indexed_def)
  then obtain cps a b where cps: "cq_queue q = cps @ [a, b]" "j = length cps"
    by (rule last_two_split)
  have "cq_index q - 1 - first_of q = length cps" using j(2) cps(2) by simp
  then have a: "a = prev" using p(2) cps(1) by (simp add: get_eq [OF assms(2)] split: if_splits)
  have wf1: "cq_indexed (cq_index q1) (cq_queue q1)"
    using cq_indexed_update [OF assms(2) j(1)] advance_keeps_sigset(1) [OF j(3)] j(4) by simp
  have q1q: "cq_queue q1 = cps @ [prev', b]" using j(4) cps by simp
  from get_mut_Ok [OF wf1 q2] obtain k cp' where k: "k < length (cq_queue q1)" "cq_index q1 = first_of q1 + k"
    "open_checkpoint L (cq_config q) (cp_sigset prev) rate op rv ei eo (cq_queue q1 ! k) = Ok (cp', ())"
    "q' = q1\<lparr>cq_queue := (cq_queue q1)[k := cp']\<rparr>" .
  have kl: "k = Suc (length cps)" using k(1,2) q1q wf1 by (auto simp: cq_indexed_def)
  have opened: "open_checkpoint L (cq_config q) (cp_sigset prev) rate op rv ei eo b = Ok (cp', ())"
    using k(3) kl q1q by (simp add: nth_append)
  then have "cp_sigset cp' = cp_sigset b" by (rule open_checkpoint_Ok) 
  then have wf2: "cq_indexed (cq_index q') (cq_queue q')"
    using cq_indexed_update [OF wf1 k(1)] k(4) kl q1q by (simp add: nth_append)
  have "cq_queue q = cps @ [prev, b]" "q' = q\<lparr>cq_queue := cps @ [prev', cp']\<rparr>"
    "next_fee_rate (cq_config q) h (cp_fee_rate prev) (q\<lparr>cq_queue := cps @ [prev', b]\<rparr>) = Ok rate"
    "BuildingCheckpoint_advance H L C bal rs ext commitment additional (cq_config q) prev
       = Ok (prev', op, rv, fee, ei, eo)"
    using a cps j(3,4) k(4) kl q1q rate by (simp_all add: list_update_append)
  with that [OF _ _ adj _ fee _ opened wf2] show thesis by blast
qed

subsection \<open>Preservation\<close>

lemma cq_shape_update:
  assumes "cq_shape cps" and "j < length cps" and "cp_status cp = cp_status (cps ! j)"
  shows "cq_shape (cps[j := cp])"
  using assms by (auto simp: cq_shape_def nth_list_update)

lemma has_signing_update:
  assumes "j < length cps" and "cp_status cp = cp_status (cps ! j)"
  shows "has_signing (cps[j := cp]) \<longleftrightarrow> has_signing cps"
  using assms by (auto simp: has_signing_def nth_list_update)

lemma cq_inv_edit:
  assumes "cq_inv q" and "CheckpointQueue_get_mut q i f = Ok (q', a)"
    and "\<And>cp cp' a. f cp = Ok (cp', a) \<Longrightarrow> cp_status cp' = cp_status cp \<and> cp_sigset cp' = cp_sigset cp"
  shows "cq_inv q'"
proof -
  have wf: "cq_indexed (cq_index q) (cq_queue q)" using assms(1) by (simp add: cq_inv_def)
  from get_mut_Ok [OF wf assms(2)] obtain j cp where j: "j < length (cq_queue q)" "f (cq_queue q ! j) = Ok (cp, a)"
    and q': "q' = q\<lparr>cq_queue := (cq_queue q)[j := cp]\<rparr>" .
  with assms(3) have "cp_status cp = cp_status (cq_queue q ! j)" "cp_sigset cp = cp_sigset (cq_queue q ! j)" by blast+
  then show ?thesis
    using assms(1) j(1) by (auto simp: q' cq_inv_def cq_shape_update cq_indexed_update has_signing_update split: option.splits)
qed

lemma sign_checkpoint_Ok:
  assumes "sign_checkpoint L xpub sigs h cp = Ok (cp', u)"
  obtains cp1 where "cp_status cp \<noteq> Building" "Checkpoint_sign L xpub sigs h cp = Ok cp1"
    "cp' = (if cp_status cp = Signing \<and> Checkpoint_signed cp1 then cp1\<lparr>cp_status := Complete\<rparr> else cp1)"
    "cp_sigset cp' = cp_sigset cp"
    "cp_status cp' = (if Checkpoint_signed cp1 then Complete else cp_status cp) \<or> cp_status cp' = cp_status cp"
proof -
  from assms obtain cp1 where c1: "cp_status cp \<noteq> Building" "Checkpoint_sign L xpub sigs h cp = Ok cp1"
    by (auto simp: sign_checkpoint_def Let_def)
  with assms have c: "cp_status cp \<noteq> Building" "Checkpoint_sign L xpub sigs h cp = Ok cp1"
    "cp' = (if cp_status cp = Signing \<and> Checkpoint_signed cp1 then cp1\<lparr>cp_status := Complete\<rparr> else cp1)"
    by (auto simp: sign_checkpoint_def Let_def SigningCheckpoint_advance_def split: if_splits)
  from Checkpoint_sign_Ok [OF c(2)] obtain bs h' where "cp1 = cp\<lparr>cp_batches := bs, cp_signed_at_btc_height := h'\<rparr>" by blast
  with c show thesis by (intro that [OF c]) (auto split: if_splits)
qed

lemma cq_inv_sign:
  assumes "cq_inv q" and "CheckpointQueue_sign L C xpub sigs i h q = Ok q'"
  shows "cq_inv q'"
proof -
  have wf: "cq_indexed (cq_index q) (cq_queue q)" using assms(1) by (simp add: cq_inv_def)
  from assms(2) have "CheckpointQueue_get_mut q i (sign_checkpoint L xpub sigs h) = Ok (q', ())"
    by (auto simp: CheckpointQueue_sign_def)
  from get_mut_Ok [OF wf this] obtain j cp where j: "j < length (cq_queue q)"
    "sign_checkpoint L xpub sigs h (cq_queue q ! j) = Ok (cp, ())" and q': "q' = q\<lparr>cq_queue := (cq_queue q)[j := cp]\<rparr>" .
  let ?cp = "cq_queue q ! j"
  from j(2) have st: "cp_status ?cp \<noteq> Building" "cp_sigset cp = cp_sigset ?cp"
    "cp_status cp = Complete \<or> cp_status cp = cp_status ?cp"
    by (auto elim!: sign_checkpoint_Ok split: if_splits)
  have shape: "cq_shape (cq_queue q)" using assms(1) by (simp add: cq_inv_def)
  with j(1) st(1) have last: "Suc j \<noteq> length (cq_queue q)" by (auto simp: cq_shape_def)
  have "cq_shape ((cq_queue q)[j := cp])"
    using shape st j(1) last by (auto simp: cq_shape_def nth_list_update)
  moreover have "has_signing ((cq_queue q)[j := cp]) \<longrightarrow> has_signing (cq_queue q)"
    using st(3) j(1) by (auto simp: has_signing_def nth_list_update split: if_splits)
  moreover have "cq_queue q \<noteq> []" using j(1) by auto
  ultimately show ?thesis
    using assms(1) cq_indexed_update [OF wf j(1) st(2)] by (auto simp: cq_inv_def q' split: option.splits if_splits)
qed

lemma maybe_step_Ok:
  assumes "CheckpointQueue_maybe_step H L C keys bal rs ext h dep commitment pool units q = Ok (b, q', pool')"
  obtains "\<not> b" "q' = q" "pool' = pool"
  | q1 q2 where "b" "CheckpointQueue_should_push L C keys commitment h q = Ok True"
     "CheckpointQueue_maybe_push L C keys dep q = Ok (Some q1)" "CheckpointQueue_prune q1 = Ok q2"
     "if cq_index q2 > 0 then step_from H L C bal rs ext h commitment pool units q2 = Ok (q', pool')
      else q' = q2 \<and> pool' = pool"
  using assms by (auto simp: CheckpointQueue_maybe_step_def split: if_splits option.splits)

lemma should_push_True:
  assumes "CheckpointQueue_should_push L C keys commitment h q = Ok True"
  shows "CheckpointQueue_signing q = Ok None"
    and "cq_queue q \<noteq> [] \<Longrightarrow> building_is_due L C commitment h q = Ok True"
    and "\<exists>n. CheckpointQueue_num_unconfirmed q = Ok n \<and> n < cc_max_unconfirmed_checkpoints (cq_config q)"
  using assms by (auto simp: CheckpointQueue_should_push_def not_le split: if_splits)

lemma cq_shape_step:
  assumes "pushed_shape (cps @ [prev, cp])" and "cp_status prev' = Signing" and "cp_status cp' = cp_status cp"
  shows "cq_shape (cps @ [prev', cp'])" "has_signing (cps @ [prev', cp'])"
proof -
  have last: "cp_status cp' = Building"
    using assms(1,3) by (auto simp: pushed_shape_def dest!: spec [of _ "Suc (length cps)"] simp: nth_append)
  have "cp_status (cps ! i) = Complete" if "i < length cps" for i
    using assms(1) that by (auto simp: pushed_shape_def dest!: spec [of _ i] simp: nth_append)
  with last assms(2) show "cq_shape (cps @ [prev', cp'])"
    by (auto simp: cq_shape_def nth_append less_Suc_eq nth_Cons split: nat.splits)
  show "has_signing (cps @ [prev', cp'])" using assms(2) by (simp add: has_signing_def nth_append)
qed

text \<open>What the queue holds between the push and the freezing of the previous checkpoint.\<close>

lemma push_prune_Ok:
  assumes "cq_inv q" and "CheckpointQueue_should_push L C keys commitment h q = Ok True"
    and "CheckpointQueue_maybe_push L C keys dep q = Ok (Some q1)" and "CheckpointQueue_prune q1 = Ok q2"
  obtains n ss where "cq_indexed (cq_index q2) (cq_queue q2)" "pushed_shape (cq_queue q2)"
    "q2 = q\<lparr>cq_index := (if cq_queue q = [] then 0 else Suc (cq_index q)),
       cq_queue := drop n (cq_queue q @ [(Checkpoint_new ss)\<lparr>cp_deposits_enabled := dep\<rparr>])\<rparr>"
    "n = 0 \<or> n + 9 \<le> length (cq_queue q)"
    "next_sigset L C keys q = Ok (cq_index q2, ss)" "ss_possible_vp ss \<noteq> 0" "SignatorySet_has_quorum ss"
proof -
  have wf: "cq_indexed (cq_index q) (cq_queue q)" and shape: "cq_shape (cq_queue q)"
    and empty: "cq_queue q = [] \<longrightarrow> cq_index q = 0" using assms(1) by (auto simp: cq_inv_def)
  obtain ss index where ss: "next_sigset L C keys q = Ok (index, ss)" "ss_possible_vp ss \<noteq> 0" "SignatorySet_has_quorum ss"
    and q1: "q1 = q\<lparr>cq_index := index, cq_queue := cq_queue q @ [(Checkpoint_new ss)\<lparr>cp_deposits_enabled := dep\<rparr>]\<rparr>"
    and wf1: "cq_indexed (cq_index q1) (cq_queue q1)"
    by (rule maybe_push_Ok [OF assms(3,1)])
  obtain n where n: "q2 = q1\<lparr>cq_queue := drop n (cq_queue q1)\<rparr>" "n = 0 \<or> n + 10 \<le> length (cq_queue q1)"
    by (rule CheckpointQueue_prune_Ok [OF assms(4)])
  have "\<not> has_signing (cq_queue q)"
    using should_push_True(1) [OF assms(2)] by (auto simp: signing_eq [OF wf] split: if_splits)
  then have "pushed_shape (cq_queue q1)" using shape by (simp add: q1 pushed_shape_push Checkpoint_new_def)
  then have "pushed_shape (cq_queue q2)" using n by (simp add: pushed_shape_drop)
  moreover have "cq_indexed (cq_index q2) (cq_queue q2)" using cq_indexed_drop [OF wf1 n(2)] n(1) by simp
  moreover have "index = (if cq_queue q = [] then 0 else Suc (cq_index q))" using next_sigset_Ok(2) [OF ss(1)] empty by auto
  ultimately show thesis using n q1 ss by (intro that [of n ss]) auto
qed

lemma cq_inv_maybe_step:
  assumes "cq_inv q" and "CheckpointQueue_maybe_step H L C keys bal rs ext h dep commitment pool units q = Ok (b, q', pool')"
  shows "cq_inv q'"
  using assms(2)
proof (rule maybe_step_Ok)
  assume "q' = q"
  with assms(1) show ?thesis by simp
next
  fix q1 q2 assume s: "CheckpointQueue_should_push L C keys commitment h q = Ok True"
     "CheckpointQueue_maybe_push L C keys dep q = Ok (Some q1)" "CheckpointQueue_prune q1 = Ok q2"
    and step: "if cq_index q2 > 0 then step_from H L C bal rs ext h commitment pool units q2 = Ok (q', pool')
      else q' = q2 \<and> pool' = pool"
  from push_prune_Ok [OF assms(1) s] obtain n ss where wf: "cq_indexed (cq_index q2) (cq_queue q2)"
    and shape: "pushed_shape (cq_queue q2)"
    and q2: "q2 = q\<lparr>cq_index := (if cq_queue q = [] then 0 else Suc (cq_index q)),
       cq_queue := drop n (cq_queue q @ [(Checkpoint_new ss)\<lparr>cp_deposits_enabled := dep\<rparr>])\<rparr>"
    and n: "n = 0 \<or> n + 9 \<le> length (cq_queue q)" .
  show ?thesis
  proof (cases "cq_index q2 > 0")
    case False
    with step have q': "q' = q2" by simp
    have "cq_queue q = []" using False q2 by (simp split: if_splits)
    with q2 n wf assms(1) show ?thesis
      by (auto simp: q' cq_inv_def cq_shape_def has_signing_def Checkpoint_new_def)
  next
    case True
    with step obtain cps prev prev' cp cp' additional op rv fee ei eo rate where
      st: "cq_queue q2 = cps @ [prev, cp]" "q' = q2\<lparr>cq_queue := cps @ [prev', cp']\<rparr>"
      "BuildingCheckpoint_advance H L C bal rs ext commitment additional (cq_config q2) prev = Ok (prev', op, rv, fee, ei, eo)"
      "open_checkpoint L (cq_config q2) (cp_sigset prev) rate op rv ei eo cp = Ok (cp', ())"
      and wf': "cq_indexed (cq_index q') (cq_queue q')"
      by (auto elim: step_from_Ok [OF _ wf])
    have "cp_status prev' = Signing" "cp_status cp' = cp_status cp"
      using advance_keeps_sigset(2) [OF st(3)] open_checkpoint_Ok [OF st(4)] by blast+
    with shape st(1) have "cq_shape (cq_queue q')" "has_signing (cq_queue q')"
      using cq_shape_step by (auto simp: st(2))
    moreover have "cq_index q' = Suc (cq_index q)" "cq_confirmed_index q' = cq_confirmed_index q" "cq_queue q \<noteq> []"
      using True q2 st(2) by (auto split: if_splits)
    ultimately show ?thesis using assms(1) wf' st(2) by (auto simp: cq_inv_def split: option.splits if_splits)
  qed
qed

end
