(* ===== verification/Checkpoint_Chain.thy ===== *)
theory Checkpoint_Chain
  imports Checkpoint_Queue
begin

text \<open>
  The checkpoint queue as a state machine (src/src/bitcoin/checkpoint.rs): its step relation and
  reachable states, lookup, pruning, the chain of reserve outputs, signing, fee rates, the
  unconfirmed checkpoints and backfilling.
\<close>

section \<open>Reachable queues\<close>

text \<open>
  The operations that change the queue: the block step, signing, the relay of a confirmation
  (\<open>relay_checkpoint\<close>, of any checkpoint the queue has), a change of configuration, and what the rest of
  the bridge does through \<open>building_mut\<close> and \<open>last_completed_mut\<close>, which leaves the status and the
  signatory set alone.
\<close>

inductive cq_step :: "'m header_lib_scheme \<Rightarrow> 'l tx_lib_scheme \<Rightarrow> checkpoint_queue \<Rightarrow> checkpoint_queue \<Rightarrow> bool"
  for H :: "'m header_lib_scheme" and L :: "'l tx_lib_scheme" where
  cq_maybe_step: "CheckpointQueue_maybe_step H L C keys bal rs ext h dep commitment pool units q = Ok (b, q', pool')
     \<Longrightarrow> cq_step H L q q'"
| cq_sign: "CheckpointQueue_sign L C xpub sigs i h q = Ok q' \<Longrightarrow> cq_step H L q q'"
| cq_confirm: "CheckpointQueue_get q i = Ok cp
     \<Longrightarrow> cq_step H L q (q\<lparr>cq_confirmed_index := Some i\<rparr>)"
| cq_configure: "cq_step H L q (CheckpointQueue_configure config q)"
| cq_edit: "CheckpointQueue_get_mut q i f = Ok (q', ())
     \<Longrightarrow> (\<And>cp cp'. f cp = Ok (cp', ()) \<Longrightarrow> cp_status cp' = cp_status cp \<and> cp_sigset cp' = cp_sigset cp)
     \<Longrightarrow> cq_step H L q q'"

inductive cq_reachable :: "'m header_lib_scheme \<Rightarrow> 'l tx_lib_scheme \<Rightarrow> checkpoint_queue \<Rightarrow> bool"
  for H :: "'m header_lib_scheme" and L :: "'l tx_lib_scheme" where
  cq_init: "cq_reachable H L \<lparr>cq_queue = [], cq_index = 0, cq_confirmed_index = None, cq_config = config\<rparr>"
| cq_next: "cq_reachable H L q \<Longrightarrow> cq_step H L q q' \<Longrightarrow> cq_reachable H L q'"

lemma cq_inv_confirm:
  assumes "cq_inv q" and "CheckpointQueue_get q i = Ok cp"
  shows "cq_inv (q\<lparr>cq_confirmed_index := Some i\<rparr>)"
proof -
  have wf: "cq_indexed (cq_index q) (cq_queue q)" using assms(1) by (simp add: cq_inv_def)
  from assms(2) have "first_of q \<le> i" "i \<le> cq_index q" by (auto simp: get_eq [OF wf] split: if_splits)
  then show ?thesis using assms(1) by (auto simp: cq_inv_def)
qed

lemma cq_inv_step: "cq_step H L q q' \<Longrightarrow> cq_inv q \<Longrightarrow> cq_inv q'"
proof (induction rule: cq_step.induct)
  case (cq_edit q i f q')
  show ?case by (rule cq_inv_edit [OF cq_edit.prems cq_edit.hyps(1)]) (use cq_edit.hyps(2) in simp)
next
  case (cq_configure q config)
  then show ?case by (auto simp: CheckpointQueue_configure_def cq_inv_def split: option.splits)
qed (blast intro: cq_inv_maybe_step cq_inv_sign cq_inv_confirm)+

lemma cq_inv_reachable: "cq_reachable H L q \<Longrightarrow> cq_inv q"
proof (induction rule: cq_reachable.induct)
  case (cq_init config)
  show ?case by (simp add: cq_inv_def cq_shape_def cq_indexed_def)
next
  case (cq_next q q')
  then show ?case by (blast intro: cq_inv_step)
qed

subsection \<open>Reading the queue\<close>

lemma cq_split:
  assumes "cq_inv q" and "cq_queue q \<noteq> []"
  obtains old building where "cq_queue q = old @ [building]" "cp_status building = Building" "\<not> has_signing (cq_queue q)"
      "list_all (\<lambda>cp. cp_status cp = Complete) old"
  | old signing building where "cq_queue q = old @ [signing, building]" "cp_status building = Building"
      "cp_status signing = Signing" "has_signing (cq_queue q)" "list_all (\<lambda>cp. cp_status cp = Complete) old"
proof -
  have shape: "cq_shape (cq_queue q)" using assms(1) by (simp add: cq_inv_def)
  obtain cps building where cps: "cq_queue q = cps @ [building]" using assms(2) by (metis rev_exhaust)
  have b: "cp_status building = Building" using shape unfolding cps cq_shape_def by (auto simp: nth_append)
  show thesis
  proof (cases "has_signing (cq_queue q)")
    case True
    then have "length (cq_queue q) - 2 + 2 = length (cq_queue q)" by (auto simp: has_signing_def)
    then obtain old s b' where d: "cq_queue q = old @ [s, b']" "length (cq_queue q) - 2 = length old"
      by (rule last_two_split)
    have "cp_status (cq_queue q ! i) = Complete" if "i < length old" for i
      using cq_shape_Complete [OF shape] that d(1) by simp
    then have "list_all (\<lambda>cp. cp_status cp = Complete) old"
      using d(1) by (auto simp: list_all_length nth_append)
    moreover have "cp_status s = Signing" using True d by (simp add: has_signing_def)
    ultimately show ?thesis using that(2) d(1) b cps True by auto
  next
    case False
    have "cp_status (cps ! i) = Complete" if "i < length cps" for i
    proof -
      have i: "cq_queue q ! i = cps ! i" "i < length (cq_queue q)" using that cps by (simp_all add: nth_append)
      have "cp_status (cq_queue q ! i) = Building \<longleftrightarrow> Suc i = length (cq_queue q)"
        using shape i(2) unfolding cq_shape_def by blast
      then have "cp_status (cps ! i) \<noteq> Building" using i(1) that cps by simp
      moreover have "cp_status (cps ! i) \<noteq> Signing"
      proof
        assume s: "cp_status (cps ! i) = Signing"
        then have "i + 2 = length (cq_queue q)" using shape i unfolding cq_shape_def by simp
        then have "length (cq_queue q) - 2 = i" "2 \<le> length (cq_queue q)" by linarith+
        with False s i(1) show False by (simp add: has_signing_def)
      qed
      ultimately show ?thesis by (cases "cp_status (cps ! i)") auto
    qed
    then show ?thesis using that(1) cps b False by (auto simp: list_all_length)
  qed
qed


lemma cq_ss_index:
  assumes "cq_indexed (cq_index q) (cq_queue q)" and "j < length (cq_queue q)"
  shows "ss_index (cp_sigset (cq_queue q ! j)) = first_of q + j"
proof -
  have "ss_index (cp_sigset (cq_queue q ! j)) + length (cq_queue q) = Suc (cq_index q) + j"
    "length (cq_queue q) \<le> Suc (cq_index q)"
    using assms by (auto simp: cq_indexed_def)
  then show ?thesis by linarith
qed

lemma get_iff_index:
  assumes "cq_indexed (cq_index q) (cq_queue q)"
  shows "CheckpointQueue_get q i = Ok cp \<longleftrightarrow> cp \<in> set (cq_queue q) \<and> ss_index (cp_sigset cp) = i"
proof
  assume "CheckpointQueue_get q i = Ok cp"
  then have i: "first_of q \<le> i" "i \<le> cq_index q" "cp = cq_queue q ! (i - first_of q)"
    by (auto simp: get_eq [OF assms] split: if_splits)
  then have j: "i - first_of q < length (cq_queue q)" using assms by (auto simp: cq_indexed_def)
  then show "cp \<in> set (cq_queue q) \<and> ss_index (cp_sigset cp) = i"
    using i cq_ss_index [OF assms j] by simp
next
  assume a: "cp \<in> set (cq_queue q) \<and> ss_index (cp_sigset cp) = i"
  then obtain j where j: "j < length (cq_queue q)" "cp = cq_queue q ! j" by (auto simp: in_set_conv_nth)
  with a cq_ss_index [OF assms j(1)] have "i = first_of q + j" by simp
  with j assms show "CheckpointQueue_get q i = Ok cp" by (auto simp: get_eq [OF assms] cq_indexed_def)
qed

lemma all_eq:
  assumes "cq_indexed (cq_index q) (cq_queue q)"
  shows "CheckpointQueue_all q = Ok (map (\<lambda>cp. (ss_index (cp_sigset cp), cp)) (cq_queue q))"
proof -
  let ?n = "length (cq_queue q)"
  have n: "?n mod 2 ^ 32 = ?n" "?n \<le> Suc (cq_index q)" "Suc (cq_index q) < 2 ^ 32"
    using assms by (auto simp: cq_indexed_def)
  have "CheckpointQueue_all q = Ok (map ((\<lambda>cp. (ss_index (cp_sigset cp), cp)) \<circ> snd) (enumerate 0 (cq_queue q)))"
    unfolding CheckpointQueue_all_def
  proof (rule map_result_total)
    fix x assume "x \<in> set (enumerate 0 (cq_queue q))"
    then have "snd x = cq_queue q ! fst x" "fst x < ?n" by (auto simp: in_set_enumerate_eq)
    then obtain j where j: "x = (j, cq_queue q ! j)" "j < ?n" by (metis prod.collapse)
    then have "j mod 2 ^ 32 = j" using n by simp
    then show "(case x of (i, checkpoint) \<Rightarrow> rbind (sub_u (?n mod 2 ^ 32) (i mod 2 ^ 32)) (\<lambda>back.
         rbind (add_u32 (cq_index q) 1) (\<lambda>next. rbind (sub_u next back) (\<lambda>index. Ok (index, checkpoint)))))
       = Ok (((\<lambda>cp. (ss_index (cp_sigset cp), cp)) \<circ> snd) x)"
      using j n cq_ss_index [OF assms j(2)] by (simp add: n(1) sub_u_def add_w_def)
  qed
  then show ?thesis by (simp add: map_map [symmetric] del: map_map)
qed


section \<open>A queue in use\<close>

definition demo_old :: checkpoint where
  "demo_old = demo_building\<lparr>cp_status := Complete, cp_sigset := demo_small_ss\<lparr>ss_index := 3\<rparr>\<rparr>"

definition demo_cq :: checkpoint_queue where
  "demo_cq = \<lparr>cq_queue = [demo_old, demo_building], cq_index = 4, cq_confirmed_index = Some 3,
     cq_config = CheckpointConfig_default\<rparr>"

definition demo_cq_ctx :: ctx where
  "demo_cq_ctx = (demo_ctx [\<lparr>ve_power = 100, ve_pubkey = [1]\<rparr>])\<lparr>cx_time := Some 40000\<rparr>"

definition demo_next_ss :: signatory_set where
  "demo_next_ss = \<lparr>ss_create_time = 40000, ss_present_vp = 100, ss_possible_vp = 100, ss_index = 5,
     ss_signatories = [\<lparr>sg_voting_power = 100, sg_pubkey = xp_public_key (demo_xpub 1)\<rparr>]\<rparr>"

definition demo_new :: checkpoint where
  "demo_new = (Checkpoint_new demo_next_ss)\<lparr>cp_deposits_enabled := True\<rparr>"

definition demo_pushed :: "checkpoint \<Rightarrow> checkpoint \<Rightarrow> checkpoint_queue" where
  "demo_pushed prev new = demo_cq\<lparr>cq_index := 5, cq_queue := [demo_old, prev, new]\<rparr>"

lemma demo_status [simp]: "cp_status demo_building = Building" "cp_status demo_old = Complete" "cp_status demo_new = Building"
  "cp_signed_at_btc_height demo_old = None" "cp_sigset demo_building = demo_small_ss" "cp_fee_rate demo_building = 10"
  by (simp_all add: demo_old_def demo_building_def demo_new_def Checkpoint_new_def DEFAULT_FEE_RATE_def)

lemma demo_sigsets [simp]: "ss_index demo_small_ss = 4" "ss_create_time demo_small_ss = 1000" "ss_index (cp_sigset demo_old) = 3"
  "ss_index (cp_sigset demo_new) = 5" "ss_create_time (cp_sigset demo_new) = 40000"
  by (simp_all add: demo_old_def demo_building_def demo_new_def Checkpoint_new_def demo_small_ss_def demo_next_ss_def)

lemma demo_cq_inv: "cq_inv demo_cq"
  by (simp add: cq_inv_def demo_cq_def cq_shape_def cq_indexed_def has_signing_def All_less_Suc)

lemma demo_next_sigset: "next_sigset demo_flat_lib demo_cq_ctx [([1], demo_xpub 1)] demo_cq = Ok (5, demo_next_ss)"
  by (simp add: next_sigset_def demo_cq_def SignatorySet_from_validator_ctx_def demo_flat_lib_def script_lib.defs demo_keys_lib_def
      demo_cq_ctx_def demo_ctx_def add_validator_def SignatorySet_insert_def add_w_def SignatorySet_sort_and_truncate_def
      MAX_SIGNATORIES_def Let_def sg_key_def demo_next_ss_def as_u64_def)

lemmas demo_get_simps = CheckpointQueue_get_def CheckpointQueue_get_deque_index_def add_w_def sub_u_def Let_def
  CheckpointQueue_signing_def CheckpointQueue_building_def CheckpointQueue_last_completed_index_def if_let_ok_def
  CheckpointQueue_num_unconfirmed_def CheckpointQueue_first_unconfirmed_index_def CheckpointQueue_unconfirmed_def

lemma demo_should_push: "CheckpointQueue_should_push demo_flat_lib demo_cq_ctx [([1], demo_xpub 1)] [9] 200 demo_cq = Ok True"
proof -
  have due: "building_is_due demo_flat_lib demo_cq_ctx [9] 200 demo_cq = Ok True"
    by (simp add: building_is_due_def demo_cq_ctx_def demo_ctx_def demo_cq_def demo_get_simps Checkpoint_create_time_def
        CheckpointConfig_default_def CheckpointConfig_bitcoin_def as_u64_def backfilling_def)
  have "CheckpointQueue_signing demo_cq = Ok None" "CheckpointQueue_num_unconfirmed demo_cq = Ok 0"
    by (simp_all add: demo_get_simps demo_cq_def)
  moreover have "cc_max_unconfirmed_checkpoints (cq_config demo_cq) = 15" "cq_queue demo_cq \<noteq> []"
    by (simp_all add: demo_cq_def CheckpointConfig_default_def CheckpointConfig_bitcoin_def)
  moreover have "ss_possible_vp demo_next_ss = 100" "SignatorySet_has_quorum demo_next_ss"
    by (simp_all add: SignatorySet_has_quorum_def SignatorySet_quorum_threshold_def demo_next_ss_def)
  ultimately show ?thesis using due demo_next_sigset by (simp add: CheckpointQueue_should_push_def)
qed

lemma demo_maybe_push: "CheckpointQueue_maybe_push demo_flat_lib demo_cq_ctx [([1], demo_xpub 1)] True demo_cq
    = Ok (Some (demo_pushed demo_building demo_new))"
  using demo_next_sigset
  by (simp add: CheckpointQueue_maybe_push_def SignatorySet_has_quorum_def SignatorySet_quorum_threshold_def Let_def
      CheckpointQueue_get_mut_def demo_get_simps demo_cq_def demo_pushed_def demo_new_def)
    (simp add: demo_next_ss_def)

lemma demo_prune: "CheckpointQueue_prune (demo_pushed demo_building demo_new) = Ok (demo_pushed demo_building demo_new)"
  by (simp add: CheckpointQueue_prune_def demo_get_simps demo_pushed_def)

lemma demo_advance_again: "\<exists>cp'. BuildingCheckpoint_advance demo_header_lib demo_flat_lib demo_cq_ctx (\<lambda>_. 7000000000) [([1], [5])] [] [9] 0
    CheckpointConfig_default demo_building = Ok (cp', ([1], 0), 993000, 2000, [], [])"
  by (simp add: BuildingCheckpoint_advance_def Checkpoint_additional_outputs_def demo_building_def Checkpoint_new_def CheckpointConfig_default_def CheckpointConfig_bitcoin_def
    SIGSET_THRESHOLD_def demo_out_flat Checkpoint_base_fee_def Checkpoint_est_vsize_def get_batch_def get_tx_def Batch_default_def BitcoinTx_default_def BitcoinTx_to_bitcoin_tx_def Input_to_txin_def
    demo_input_def demo_ts_def ThresholdSig_to_witness_def ThresholdSig_signed_def Let_def witness_vsizes_def add_w_def mul_w_def DEFAULT_FEE_RATE_def
    finish_checkpoint_tx_def pop_excess_eq sum_inputs_def sum_outputs_def set_sighashes_def ThresholdSig_set_message_def set_batch_def
    generate_emergency_disbursal_txs_def demo_cq_ctx_def demo_ctx_def as_u32_def account_outputs_def pending_outputs_def BitcoinTx_with_lock_time_def
    pack_output_def BitcoinTx_est_vsize_def link_intermediate_tx_def BitcoinTx_value_def BitcoinTx_txid_def demo_input_new set_tx_def fund_intermediate_tx_def demo_fresh_def sub_u_def
 deduct_emergency_disbursal_fees_def disburse_finals_def deduct_fee_all rearrange_def disburse_tx_def div_u_def populate_inputs_def BitcoinTx_populate_input_sig_message_def nth_append numeral_2_eq_2 [symmetric])

lemma demo_step_from: "\<exists>q'. step_from demo_header_lib demo_flat_lib demo_cq_ctx (\<lambda>_. 7000000000) [([1], [5])] [] 200 [9] 5000000000
     1000000 (demo_pushed demo_building demo_new) = Ok (q', 3000000000)"
proof -
  obtain cp' where adv: "BuildingCheckpoint_advance demo_header_lib demo_flat_lib demo_cq_ctx (\<lambda>_. 7000000000) [([1], [5])] [] [9] 0
    CheckpointConfig_default demo_building = Ok (cp', ([1], 0), 993000, 2000, [], [])" using demo_advance_again by blast
  have st: "cp_status cp' = Signing" using advance_keeps_sigset [OF adv] by simp
  have adj: "CheckpointQueue_fee_adjustment demo_flat_lib (demo_pushed demo_building demo_new) 10 CheckpointConfig_default = Ok 0"
    by (simp add: CheckpointQueue_fee_adjustment_def CheckpointQueue_unconfirmed_fees_paid_def CheckpointQueue_unconfirmed_vbytes_def
        mul_w_def demo_get_simps demo_pushed_def demo_cq_def upt_rec)
  have rate: "next_fee_rate CheckpointConfig_default 200 10 (demo_pushed cp' demo_new) = Ok 7"
    using st by (simp add: next_fee_rate_def demo_get_simps demo_pushed_def demo_cq_def adjust_fee_rate_def mul_w_def
        CheckpointConfig_default_def CheckpointConfig_bitcoin_def)
  have op: "\<exists>cp. open_checkpoint demo_flat_lib CheckpointConfig_default demo_small_ss 7 ([1], 0) 993000 [] [] demo_new = Ok (cp, ())"
    by (simp add: open_checkpoint_def demo_new_def Checkpoint_new_def get_batch_def get_tx_def Batch_default_def
        CheckpointConfig_default_def CheckpointConfig_bitcoin_def SIGSET_THRESHOLD_def demo_input_new Let_def)
  have prev: "CheckpointQueue_get (demo_pushed demo_building demo_new) 4 = Ok demo_building"
    by (simp add: demo_get_simps demo_pushed_def)
  have mut: "CheckpointQueue_get_mut (demo_pushed demo_building demo_new) 4 f = rbind (f demo_building) (\<lambda>(cp, a). Ok (demo_pushed cp demo_new, a))"
    for f :: "checkpoint \<Rightarrow> (checkpoint \<times> 'a) result"
    by (simp add: CheckpointQueue_get_mut_def demo_get_simps demo_pushed_def)
  have mut2: "CheckpointQueue_get_mut (demo_pushed cp' demo_new) 5 f = rbind (f demo_new) (\<lambda>(cp, a). Ok (demo_pushed cp' cp, a))"
    for f :: "checkpoint \<Rightarrow> (checkpoint \<times> 'a) result"
    by (simp add: CheckpointQueue_get_mut_def demo_get_simps demo_pushed_def)
  have sel: "cq_index (demo_pushed a b) = 5" "cq_config (demo_pushed a b) = CheckpointConfig_default" for a b
    by (simp_all add: demo_pushed_def demo_cq_def)
  show ?thesis
    using op by (simp add: step_from_def sel sub_u_def prev adj Let_def mut adv mul_w_def sub_i64_def add_i64_def as_i64_def rate mut2)
qed

lemma demo_maybe_step: "\<exists>q'. CheckpointQueue_maybe_step demo_header_lib demo_flat_lib demo_cq_ctx [([1], demo_xpub 1)] (\<lambda>_. 7000000000)
     [([1], [5])] [] 200 True [9] 5000000000 1000000 demo_cq = Ok (True, q', 3000000000)"
  using demo_should_push demo_maybe_push demo_prune demo_step_from
  by (auto simp: CheckpointQueue_maybe_step_def) (simp add: demo_pushed_def)


section \<open>Properties\<close>

text \<open>
  C21: however the queue is used, its checkpoints are, from the oldest to the newest, complete ones,
  at most one that is being signed, and one that is being built; their signatory sets carry
  consecutive indices ending at the queue's index; and the index recorded as confirmed is not past
  the checkpoint being built. (That the confirmed checkpoint is complete is not ensured by the code:
  \<open>relay_checkpoint\<close> does not look at its status.)
\<close>

theorem queue_stays_ordered:
  assumes "cq_reachable H L q" and "cq_queue q \<noteq> []"
  shows "\<exists>old signing building. cq_queue q = old @ signing @ [building]
    \<and> list_all (\<lambda>cp. cp_status cp = Complete) old \<and> cp_status building = Building
    \<and> (signing = [] \<or> (\<exists>cp. signing = [cp] \<and> cp_status cp = Signing))
    \<and> map (\<lambda>cp. ss_index (cp_sigset cp)) (cq_queue q) = [Suc (cq_index q) - length (cq_queue q)..<Suc (cq_index q)]
    \<and> (\<forall>c. cq_confirmed_index q = Some c \<longrightarrow> c \<le> ss_index (cp_sigset building))"
proof -
  have inv: "cq_inv q" using assms(1) by (rule cq_inv_reachable)
  then have wf: "cq_indexed (cq_index q) (cq_queue q)" by (simp add: cq_inv_def)
  have ix: "map (\<lambda>cp. ss_index (cp_sigset cp)) (cq_queue q) = [first_of q..<Suc (cq_index q)]"
  proof -
    have "length (cq_queue q) \<le> Suc (cq_index q)" using wf by (simp add: cq_indexed_def)
    then show ?thesis using cq_ss_index [OF wf] by (intro nth_equalityI) (simp_all del: upt_Suc)
  qed
  have last: "ss_index (cp_sigset cp) = cq_index q - k"
    if "cq_queue q ! j = cp" "j + k + 1 = length (cq_queue q)" for j k cp
    using cq_ss_index [OF wf, of j] that wf by (auto simp: cq_indexed_def)
  have conf: "c \<le> cq_index q" if "cq_confirmed_index q = Some c" for c
    using inv that by (simp add: cq_inv_def)
  from inv assms(2) show ?thesis
  proof (cases rule: cq_split)
    case (1 old building)
    have "ss_index (cp_sigset building) = cq_index q" using last [of "length old" building 0] 1(1) by simp
    with 1 ix conf show ?thesis by (intro exI [of _ old] exI [of _ "[]"] exI [of _ building]) simp
  next
    case (2 old signing building)
    have "ss_index (cp_sigset building) = cq_index q"
      using last [of "Suc (length old)" building 0] 2(1) by (simp add: nth_append)
    with 2 ix conf show ?thesis by (intro exI [of _ old] exI [of _ "[signing]"] exI [of _ building]) simp
  qed
qed

text \<open>
  A checkpoint is found at the index of its signatory set and nowhere else, pruned queues
  included, and \<open>all\<close> lists the checkpoints with these indices.
\<close>

theorem queue_lookup_by_index:
  assumes "cq_inv q"
  shows "(CheckpointQueue_get q i = Ok cp \<longleftrightarrow> cp \<in> set (cq_queue q) \<and> ss_index (cp_sigset cp) = i)
    \<and> CheckpointQueue_all q = Ok (map (\<lambda>cp. (ss_index (cp_sigset cp), cp)) (cq_queue q))"
  using assms get_iff_index all_eq by (simp add: cq_inv_def)

theorem queue_lookup_by_index_witness:
  "CheckpointQueue_get demo_cq 3 = Ok demo_old \<and> CheckpointQueue_get demo_cq 2 \<noteq> Ok demo_old
   \<and> CheckpointQueue_all demo_cq = Ok [(3, demo_old), (4, demo_building)]"
  using queue_lookup_by_index [OF demo_cq_inv, of 3 demo_old] queue_lookup_by_index [OF demo_cq_inv, of 2 demo_old]
  by (simp add: demo_cq_def)

text \<open>
  Pruning drops the oldest checkpoints while they are older than \<open>max_age\<close> (counted from the
  checkpoint being built) and more than ten are left, and nothing else; the checkpoint being built
  stays, at its index.
\<close>

theorem prune_spec:
  assumes "cq_inv q" and "CheckpointQueue_prune q = Ok q'"
  shows "\<exists>n. q' = q\<lparr>cq_queue := drop n (cq_queue q)\<rparr>
    \<and> (\<forall>i < n. cc_max_age (cq_config q) < Checkpoint_create_time (last (cq_queue q)) - Checkpoint_create_time (cq_queue q ! i))
    \<and> (n = 0 \<or> 10 \<le> length (cq_queue q'))
    \<and> (length (cq_queue q') \<le> 10 \<or>
        Checkpoint_create_time (last (cq_queue q)) - Checkpoint_create_time (hd (cq_queue q')) \<le> cc_max_age (cq_config q))
    \<and> CheckpointQueue_building q' = CheckpointQueue_building q"
proof -
  have wf: "cq_indexed (cq_index q) (cq_queue q)" using assms(1) by (simp add: cq_inv_def)
  from assms(2) obtain b cps where b: "CheckpointQueue_building q = Ok b"
    and loop: "prune_loop (Checkpoint_create_time b) (cc_max_age (cq_config q)) (cq_queue q) = Ok cps"
    and q': "q' = q\<lparr>cq_queue := cps\<rparr>" by (auto simp: CheckpointQueue_prune_def)
  have ne: "cq_queue q \<noteq> []" using b by (auto simp: CheckpointQueue_building_def get_eq [OF wf] split: if_splits)
  have last: "b = last (cq_queue q)" using b building_eq [OF wf ne] by simp
  from prune_loop_Ok [OF loop] obtain n where n: "cps = drop n (cq_queue q)" "n = 0 \<or> 10 \<le> length cps"
    "\<forall>i < n. cc_max_age (cq_config q) < Checkpoint_create_time b - Checkpoint_create_time (cq_queue q ! i)"
    "length cps \<le> 10 \<or> Checkpoint_create_time b - Checkpoint_create_time (hd cps) \<le> cc_max_age (cq_config q)"
    by blast
  have n10: "n = 0 \<or> n + 10 \<le> length (cq_queue q)" using n(1,2) by auto
  then have ne': "cq_queue q' \<noteq> []" using n(1) ne q' by auto
  have "CheckpointQueue_building q' = Ok (last (cq_queue q'))"
    using cq_indexed_drop [OF wf n10] ne' by (intro building_eq) (simp_all add: q' n(1))
  moreover have "last (cq_queue q') = last (cq_queue q)" using ne' q' n(1) by simp
  ultimately show ?thesis using n q' b last by (intro exI [of _ n]) simp
qed

theorem prune_spec_witness:
  "\<exists>n. demo_cq = demo_cq\<lparr>cq_queue := drop n (cq_queue demo_cq)\<rparr>"
proof -
  have "CheckpointQueue_prune demo_cq = Ok demo_cq"
    by (simp add: CheckpointQueue_prune_def demo_get_simps demo_cq_def)
  from prune_spec [OF demo_cq_inv this] show ?thesis by blast
qed

text \<open>
  With sensible limits the adjustment of the fee rate never panics, stays within the limits,
  and moves by a quarter, at least by one, unless it meets a limit.
\<close>

theorem adjust_fee_rate_bounded:
  assumes "cc_min_fee_rate config \<le> rate" and "rate \<le> cc_max_fee_rate config" and "1 \<le> cc_min_fee_rate config"
    and "cc_max_fee_rate config * 5 < 2 ^ 64"
  shows "\<exists>r. adjust_fee_rate rate up config = Ok r \<and> cc_min_fee_rate config \<le> r \<and> r \<le> cc_max_fee_rate config
    \<and> (if up then r = min (max (rate + rate div 4) (rate + 1)) (cc_max_fee_rate config)
       else r = max (min (rate * 3 div 4) (rate - 1)) (cc_min_fee_rate config))
    \<and> (up \<longrightarrow> rate < r \<or> r = cc_max_fee_rate config) \<and> (\<not> up \<longrightarrow> r < rate \<or> r = cc_min_fee_rate config)"
proof -
  have ok: "rate * 5 < 2 ^ 64" "rate * 3 < 2 ^ 64" "rate + 1 < 2 ^ 64" "1 \<le> rate" using assms by auto
  have five: "rate * 5 div 4 = rate + rate div 4" by simp
  show ?thesis
  proof (cases up)
    case True
    then have "adjust_fee_rate rate up config = Ok (max (min (max (rate + rate div 4) (rate + 1)) (cc_max_fee_rate config)) (cc_min_fee_rate config))"
      using ok unfolding adjust_fee_rate_def five [symmetric] by (simp add: mul_w_def add_w_def)
    moreover have "cc_min_fee_rate config \<le> min (max (rate + rate div 4) (rate + 1)) (cc_max_fee_rate config)" using assms by simp
    ultimately show ?thesis using True by (auto simp: max_absorb1)
  next
    case False
    then have "adjust_fee_rate rate up config = Ok (max (min (min (rate * 3 div 4) (rate - 1)) (cc_max_fee_rate config)) (cc_min_fee_rate config))"
      using ok by (simp add: adjust_fee_rate_def mul_w_def sub_u_def)
    moreover define m where "m = min (rate * 3 div 4) (rate - 1)"
    moreover have "m < rate" using ok(4) by (simp add: m_def)
    ultimately show ?thesis using False assms by (auto simp: max_def min_absorb1)
  qed
qed

theorem adjust_fee_rate_bounded_witness:
  "\<exists>r. adjust_fee_rate 10 True CheckpointConfig_default = Ok r \<and> r = 12"
  using adjust_fee_rate_bounded [of CheckpointConfig_default 10 True]
  by (simp add: CheckpointConfig_default_def CheckpointConfig_bitcoin_def)


text \<open>Everything \<open>maybe_step\<close> has established when it froze a checkpoint.\<close>

lemma maybe_step_froze:
  assumes "cq_inv q" and "cq_queue q \<noteq> []"
    and "CheckpointQueue_maybe_step H L C keys bal rs ext h dep commitment pool units q = Ok (True, q', pool')"
  obtains n prev' new op rv fee ei eo rate additional ss where
    "cq_queue q' = drop n (butlast (cq_queue q)) @ [prev', new]" "cq_index q' = Suc (cq_index q)"
    "BuildingCheckpoint_advance H L C bal rs ext commitment additional (cq_config q) (last (cq_queue q))
       = Ok (prev', op, rv, fee, ei, eo)"
    "open_checkpoint L (cq_config q) (cp_sigset (last (cq_queue q))) rate op rv ei eo
       ((Checkpoint_new ss)\<lparr>cp_deposits_enabled := dep\<rparr>) = Ok (new, ())"
    "fee * units < 2 ^ 64" "pool' = pool - as_i64 (fee * units)" "ss_index ss = Suc (cq_index q)"
    "ss_possible_vp ss \<noteq> 0" "SignatorySet_has_quorum ss"
    "CheckpointQueue_should_push L C keys commitment h q = Ok True"
proof -
  from assms(3) obtain q1 q2 where s: "CheckpointQueue_should_push L C keys commitment h q = Ok True"
     "CheckpointQueue_maybe_push L C keys dep q = Ok (Some q1)" "CheckpointQueue_prune q1 = Ok q2"
    and st: "if cq_index q2 > 0 then step_from H L C bal rs ext h commitment pool units q2 = Ok (q', pool')
      else q' = q2 \<and> pool' = pool"
    by (rule maybe_step_Ok) auto
  from push_prune_Ok [OF assms(1) s] obtain n ss where wf: "cq_indexed (cq_index q2) (cq_queue q2)"
    and q2: "q2 = q\<lparr>cq_index := (if cq_queue q = [] then 0 else Suc (cq_index q)),
       cq_queue := drop n (cq_queue q @ [(Checkpoint_new ss)\<lparr>cp_deposits_enabled := dep\<rparr>])\<rparr>"
    and n: "n = 0 \<or> n + 9 \<le> length (cq_queue q)"
    and ss: "next_sigset L C keys q = Ok (cq_index q2, ss)" "ss_possible_vp ss \<noteq> 0" "SignatorySet_has_quorum ss" .
  have ix: "cq_index q2 = Suc (cq_index q)" "cq_config q2 = cq_config q" using q2 assms(2) by simp_all
  have len: "n < length (cq_queue q)" using n assms(2) by auto
  have "drop n (cq_queue q) = drop n (butlast (cq_queue q)) @ [last (cq_queue q)]"
    using len by (metis append_butlast_last_id assms(2) drop_append length_append_singleton less_Suc_eq_le diff_is_0_eq drop0 length_butlast Suc_pred length_greater_0_conv One_nat_def)
  then have qq: "cq_queue q2 = drop n (butlast (cq_queue q)) @ [last (cq_queue q), (Checkpoint_new ss)\<lparr>cp_deposits_enabled := dep\<rparr>]"
    using q2 len by simp
  from st ix have "step_from H L C bal rs ext h commitment pool units q2 = Ok (q', pool')" by simp
  from step_from_Ok [OF this wf] obtain cps prev prev' cp cp' additional op rv fee ei eo rate where
      st: "cq_queue q2 = cps @ [prev, cp]" "q' = q2\<lparr>cq_queue := cps @ [prev', cp']\<rparr>"
      and adv: "BuildingCheckpoint_advance H L C bal rs ext commitment additional (cq_config q2) prev = Ok (prev', op, rv, fee, ei, eo)"
      and fee: "fee * units < 2 ^ 64" "pool' = pool - as_i64 (fee * units)"
      and op: "open_checkpoint L (cq_config q2) (cp_sigset prev) rate op rv ei eo cp = Ok (cp', ())" .
  from st(1) qq have "cps = drop n (butlast (cq_queue q))" "prev = last (cq_queue q)"
    "cp = (Checkpoint_new ss)\<lparr>cp_deposits_enabled := dep\<rparr>" by simp_all
  with st(2) adv op fee ix ss next_sigset_Ok(1) [OF ss(1)] s(1) show thesis by (intro that) simp_all
qed

lemma Input_to_txin_prevout: "Input_to_txin L i = Ok t \<Longrightarrow> ti_previous_output t = in_prevout i"
  by (auto simp: Input_to_txin_def Let_def)

lemma same_inputs_prevout: "list_all2 same_input xs ys \<Longrightarrow> map in_prevout ys = map in_prevout xs"
  by (induction rule: list_all2_induct) (auto simp: same_input_def)

lemma finish_checkpoint_tx_outpoint:
  assumes "finish_checkpoint_tx L config base_fee additional tx = Ok (tx', op, rv, fee, ei, eo)"
  obtains btc where "op = (tx_txid L btc, 0)" "tr_output btc = bt_output tx'"
    "map ti_previous_output (tr_input btc) = map in_prevout (bt_input tx')" "bt_output tx' \<noteq> []" "to_value (hd (bt_output tx')) = rv"
proof -
  from assms obtain reserve outs btc is' where
    btc: "BitcoinTx_to_bitcoin_tx L (tx\<lparr>bt_input := take (cc_max_inputs config) (bt_input tx),
       bt_output := reserve\<lparr>to_value := rv\<rparr> # outs\<rparr>) = Ok btc"
    and s: "set_sighashes L btc (take (cc_max_inputs config) (bt_input tx)) = Ok is'"
    and t: "tx' = tx\<lparr>bt_input := is', bt_output := reserve\<lparr>to_value := rv\<rparr> # outs\<rparr>"
    and op: "op = (tx_txid L btc, 0)"
    by (cases "take (cc_max_outputs config) (bt_output tx)")
      (auto simp: finish_checkpoint_tx_def pop_excess_eq Let_def sum_inputs_Ok sum_outputs_Ok not_less)
  from btc obtain ins where ins: "map_result (Input_to_txin L) (take (cc_max_inputs config) (bt_input tx)) = Ok ins"
    "tr_input btc = ins" "tr_output btc = reserve\<lparr>to_value := rv\<rparr> # outs"
    by (auto simp: BitcoinTx_to_bitcoin_tx_def)
  have "map ti_previous_output ins = map in_prevout (take (cc_max_inputs config) (bt_input tx))"
  proof (rule nth_equalityI)
    show len: "length (map ti_previous_output ins) = length (map in_prevout (take (cc_max_inputs config) (bt_input tx)))"
      using ins(1) by (simp add: map_result_Ok_iff)
    fix i assume i: "i < length (map ti_previous_output ins)"
    then have "Input_to_txin L (take (cc_max_inputs config) (bt_input tx) ! i) = Ok (ins ! i)"
      using ins(1) len by (simp add: map_result_Ok_iff)
    then have "ti_previous_output (ins ! i) = in_prevout (take (cc_max_inputs config) (bt_input tx) ! i)"
      by (rule Input_to_txin_prevout)
    then show "map ti_previous_output ins ! i = map in_prevout (take (cc_max_inputs config) (bt_input tx)) ! i"
      using i len by simp
  qed
  moreover have "map in_prevout is' = map in_prevout (take (cc_max_inputs config) (bt_input tx))"
    using set_sighashes_Ok [OF s] same_inputs_prevout by blast
  ultimately show thesis using that op ins t by simp
qed


text \<open>
  C7: checkpoints form a chain of transactions. When the queue freezes a checkpoint, the first input of
  the transaction of the new one spends the first output of the frozen transaction, for exactly its
  value; the remaining inputs and the outputs are the ones the frozen transaction had no room for; and
  the fee pool pays the miner fee of the frozen transaction.
\<close>

theorem step_chains_the_reserve:
  assumes "cq_inv q" and "cq_queue q \<noteq> []"
    and "CheckpointQueue_maybe_step H L C keys bal rs ext h dep commitment pool units q = Ok (True, q', pool')"
  shows "\<exists>old prev' new additional op rv fee ei eo tx others btc input inputs new_tx.
    cq_queue q' = old @ [prev', new]
    \<and> BuildingCheckpoint_advance H L C bal rs ext commitment additional (cq_config q) (last (cq_queue q))
        = Ok (prev', op, rv, fee, ei, eo)
    \<and> ba_batch (cp_batches prev' ! 2) = tx # others
    \<and> tr_output btc = bt_output tx \<and> map ti_previous_output (tr_input btc) = map in_prevout (bt_input tx)
    \<and> ba_batch (cp_batches new ! 2) = [new_tx] \<and> bt_input new_tx = input # inputs
    \<and> in_prevout input = (tx_txid L btc, 0) \<and> in_amount input = to_value (hd (bt_output tx))
    \<and> map in_prevout inputs = map in_prevout ei \<and> map in_amount inputs = map in_amount ei \<and> bt_output new_tx = eo
    \<and> pool' = pool - as_i64 (fee * units)"
proof -
  from assms obtain n prev' new op rv fee ei eo rate additional ss where
    q': "cq_queue q' = drop n (butlast (cq_queue q)) @ [prev', new]"
    and adv: "BuildingCheckpoint_advance H L C bal rs ext commitment additional (cq_config q) (last (cq_queue q))
       = Ok (prev', op, rv, fee, ei, eo)"
    and opened: "open_checkpoint L (cq_config q) (cp_sigset (last (cq_queue q))) rate op rv ei eo
       ((Checkpoint_new ss)\<lparr>cp_deposits_enabled := dep\<rparr>) = Ok (new, ())"
    and pool: "pool' = pool - as_i64 (fee * units)"
    by (rule maybe_step_froze)
  obtain tx0 others0 txs tx b' base_fee where tx0: "ba_batch (cp_batches (last (cq_queue q)) ! 2) = tx0 # others0"
    and fin: "finish_checkpoint_tx L (cq_config q) base_fee additional (txs ! 0) = Ok (tx, op, rv, fee, ei, eo)"
    and b': "cp_batches prev' ! 2 = b'" "hd (ba_batch b') = tx" "length (ba_batch b') = length (ba_batch (cp_batches (last (cq_queue q)) ! 2))"
    by (rule advance_Ok [OF adv]) blast
  obtain others where others: "ba_batch (cp_batches prev' ! 2) = tx # others" using b' tx0 by (cases "ba_batch b'") auto
  obtain btc where btc: "op = (tx_txid L btc, 0)" "tr_output btc = bt_output tx"
    "map ti_previous_output (tr_input btc) = map in_prevout (bt_input tx)" "to_value (hd (bt_output tx)) = rv"
    by (rule finish_checkpoint_tx_outpoint [OF fin])
  obtain b tx1 input eis where o: "get_batch Checkpoint_batch ((Checkpoint_new ss)\<lparr>cp_deposits_enabled := dep\<rparr>) = Ok b" "get_tx b = Ok tx1"
    and inp: "Input_new L op (cp_sigset (last (cq_queue q))) [0] rv (cc_sigset_threshold (cq_config q)) = Ok input"
    and eis: "map_result carry_input ei = Ok eis"
    and new: "new = (set_batch Checkpoint_batch (set_tx (tx1\<lparr>bt_input := bt_input tx1 @ input # eis,
        bt_output := bt_output tx1 @ eo\<rparr>) b) ((Checkpoint_new ss)\<lparr>cp_deposits_enabled := dep\<rparr>))\<lparr>cp_fee_rate := rate\<rparr>"
    by (rule open_checkpoint_Ok [OF opened])
  from o have b: "b = Batch_default\<lparr>ba_batch := [BitcoinTx_default]\<rparr>" "tx1 = BitcoinTx_default"
    by (auto simp: get_batch_Ok get_tx_Ok Checkpoint_new_def)
  have new_tx: "ba_batch (cp_batches new ! 2) = [BitcoinTx_default\<lparr>bt_input := input # eis, bt_output := eo\<rparr>]"
    by (simp add: new b set_batch_def set_tx_def Checkpoint_new_def BitcoinTx_default_def)
  have i: "in_prevout input = op" "in_amount input = rv" using inp by (auto simp: Input_new_def Let_def)
  have carry: "in_prevout i' = in_prevout i \<and> in_amount i' = in_amount i" if "carry_input i = Ok i'" for i i'
    using that by (auto simp: carry_input_def)
  have "map in_prevout eis = map in_prevout ei" "map in_amount eis = map in_amount ei"
    using eis carry by (auto simp: map_result_Ok_iff intro!: nth_equalityI)
  with q' adv others btc new_tx i pool show ?thesis
    by (intro exI [of _ "drop n (butlast (cq_queue q))"] exI conjI) (assumption | simp)+
qed


theorem step_chains_the_reserve_witness:
  "\<exists>q' old prev' new new_tx input inputs. CheckpointQueue_maybe_step demo_header_lib demo_flat_lib demo_cq_ctx [([1], demo_xpub 1)] (\<lambda>_. 7000000000)
     [([1], [5])] [] 200 True [9] 5000000000 1000000 demo_cq = Ok (True, q', 3000000000)
   \<and> cq_queue q' = old @ [prev', new] \<and> ba_batch (cp_batches new ! 2) = [new_tx] \<and> bt_input new_tx = input # inputs
   \<and> in_prevout input = ([1], 0)"
proof -
  obtain q' where ok: "CheckpointQueue_maybe_step demo_header_lib demo_flat_lib demo_cq_ctx [([1], demo_xpub 1)] (\<lambda>_. 7000000000)
     [([1], [5])] [] 200 True [9] 5000000000 1000000 demo_cq = Ok (True, q', 3000000000)"
    using demo_maybe_step by blast
  have "cq_queue demo_cq \<noteq> []" by (simp add: demo_cq_def)
  from step_chains_the_reserve [OF demo_cq_inv this ok] ok show ?thesis by fastforce
qed

text \<open>
  A checkpoint is only frozen when nothing is being signed, the minimum interval has passed since
  it was opened, fewer checkpoints than the limit are unconfirmed, and the next signatory set has a
  quorum of the validators' power; the next checkpoint then has the next index.
\<close>

theorem step_only_when_due:
  assumes "cq_inv q" and "cq_queue q \<noteq> []"
    and "CheckpointQueue_maybe_step H L C keys bal rs ext h dep commitment pool units q = Ok (True, q', pool')"
  shows "list_all (\<lambda>cp. cp_status cp \<noteq> Signing) (cq_queue q)
    \<and> (\<exists>now. cx_time C = Some now
        \<and> Checkpoint_create_time (last (cq_queue q)) + cc_min_checkpoint_interval (cq_config q) \<le> as_u64 now)
    \<and> (\<exists>n. CheckpointQueue_num_unconfirmed q = Ok n \<and> n < cc_max_unconfirmed_checkpoints (cq_config q))
    \<and> cq_index q' = Suc (cq_index q) \<and> ss_index (cp_sigset (last (cq_queue q'))) = cq_index q'
    \<and> ss_possible_vp (cp_sigset (last (cq_queue q'))) div 2 \<le> ss_present_vp (cp_sigset (last (cq_queue q')))"
proof -
  from assms obtain n prev' new op rv fee ei eo rate additional ss where
    q': "cq_queue q' = drop n (butlast (cq_queue q)) @ [prev', new]" "cq_index q' = Suc (cq_index q)"
    and opened: "open_checkpoint L (cq_config q) (cp_sigset (last (cq_queue q))) rate op rv ei eo
       ((Checkpoint_new ss)\<lparr>cp_deposits_enabled := dep\<rparr>) = Ok (new, ())"
    and ss: "ss_index ss = Suc (cq_index q)" "ss_possible_vp ss \<noteq> 0" "SignatorySet_has_quorum ss"
    and push: "CheckpointQueue_should_push L C keys commitment h q = Ok True"
    by (rule maybe_step_froze)
  have wf: "cq_indexed (cq_index q) (cq_queue q)" using assms(1) by (simp add: cq_inv_def)
  have sig: "\<not> has_signing (cq_queue q)"
    using should_push_True(1) [OF push] by (auto simp: signing_eq [OF wf] split: if_splits)
  have "list_all (\<lambda>cp. cp_status cp \<noteq> Signing) (cq_queue q)"
    using assms(1,2) sig by (cases rule: cq_split) (auto simp: list_all_iff)
  moreover have "building_is_due L C commitment h q = Ok True" using should_push_True(2) [OF push assms(2)] .
  then have "\<exists>now. cx_time C = Some now
        \<and> Checkpoint_create_time (last (cq_queue q)) + cc_min_checkpoint_interval (cq_config q) \<le> as_u64 now"
    using building_eq [OF wf assms(2)] by (auto simp: building_is_due_def Let_def split: if_splits)
  moreover have "cp_sigset new = cp_sigset ((Checkpoint_new ss)\<lparr>cp_deposits_enabled := dep\<rparr>)"
    using opened by (rule open_checkpoint_Ok)
  then have "cp_sigset new = ss" by (simp add: Checkpoint_new_def)
  ultimately show ?thesis
    using should_push_True(3) [OF push] q' ss by (simp add: SignatorySet_has_quorum_def SignatorySet_quorum_threshold_def)
qed

theorem step_only_when_due_witness: "list_all (\<lambda>cp. cp_status cp \<noteq> Signing) (cq_queue demo_cq)"
proof -
  have "cq_queue demo_cq \<noteq> []" by (simp add: demo_cq_def)
  with demo_maybe_step step_only_when_due [OF demo_cq_inv] show ?thesis by blast
qed

text \<open>
  A signing call on the queue touches one checkpoint: it refuses one that is still being built,
  completes one that is being signed exactly when its last input reached the threshold, and lets late
  signers add their signatures to a complete one.
\<close>

theorem queue_sign_completes:
  assumes "cq_inv q" and "CheckpointQueue_sign L C xpub sigs i h q = Ok q'"
  shows "\<exists>cp cp'. CheckpointQueue_get q i = Ok cp \<and> CheckpointQueue_get q' i = Ok cp' \<and> cp_status cp \<noteq> Building
    \<and> cp_status cp' = (if cp_status cp = Complete \<or> Checkpoint_signed cp' then Complete else Signing)
    \<and> (\<forall>k. k \<noteq> i \<longrightarrow> CheckpointQueue_get q' k = CheckpointQueue_get q k)"
proof -
  have wf: "cq_indexed (cq_index q) (cq_queue q)" using assms(1) by (simp add: cq_inv_def)
  have wf': "cq_indexed (cq_index q') (cq_queue q')" using cq_inv_sign [OF assms] by (simp add: cq_inv_def)
  from assms(2) have "CheckpointQueue_get_mut q i (sign_checkpoint L xpub sigs h) = Ok (q', ())"
    by (auto simp: CheckpointQueue_sign_def)
  from get_mut_Ok [OF wf this] obtain j cp where j: "j < length (cq_queue q)" "i = first_of q + j"
    "sign_checkpoint L xpub sigs h (cq_queue q ! j) = Ok (cp, ())" and q': "q' = q\<lparr>cq_queue := (cq_queue q)[j := cp]\<rparr>" .
  have n: "length (cq_queue q) \<le> Suc (cq_index q)" using wf by (simp add: cq_indexed_def)
  have get': "CheckpointQueue_get q' k = (if first_of q \<le> k \<and> k \<le> cq_index q then Ok ((cq_queue q)[j := cp] ! (k - first_of q))
     else Err (App ''Index out of bounds''))" for k
    using get_eq [OF wf', of k] unfolding q' by simp
  have "CheckpointQueue_get q' k = CheckpointQueue_get q k" if "k \<noteq> i" for k
    using that j(2) by (auto simp: get_eq [OF wf] get' nth_list_update_neq)
  moreover have "CheckpointQueue_get q i = Ok (cq_queue q ! j)" "CheckpointQueue_get q' i = Ok cp"
    using j(1,2) n by (auto simp: get_eq [OF wf] get')
  moreover have "cp_status (cq_queue q ! j) \<noteq> Building"
    "cp_status cp = (if cp_status (cq_queue q ! j) = Complete \<or> Checkpoint_signed cp then Complete else Signing)"
  proof -
    from j(3) obtain cp1 where c: "cp_status (cq_queue q ! j) \<noteq> Building" "Checkpoint_sign L xpub sigs h (cq_queue q ! j) = Ok cp1"
      "cp = (if cp_status (cq_queue q ! j) = Signing \<and> Checkpoint_signed cp1 then cp1\<lparr>cp_status := Complete\<rparr> else cp1)"
      by (rule sign_checkpoint_Ok)
    from Checkpoint_sign_Ok [OF c(2)] obtain bs h' where "cp1 = (cq_queue q ! j)\<lparr>cp_batches := bs, cp_signed_at_btc_height := h'\<rparr>"
      by blast
    then have "cp_status cp1 = cp_status (cq_queue q ! j)" by simp
    with c show "cp_status (cq_queue q ! j) \<noteq> Building"
      "cp_status cp = (if cp_status (cq_queue q ! j) = Complete \<or> Checkpoint_signed cp then Complete else Signing)"
      by (cases "cp_status (cq_queue q ! j)"; auto simp: Checkpoint_signed_all)+
  qed
  ultimately show ?thesis by blast
qed


text \<open>A queue with a checkpoint that is being signed.\<close>

definition demo_signing_cq :: checkpoint_queue where
  "demo_signing_cq = demo_cq\<lparr>cq_queue := [demo_cp\<lparr>cp_sigset := demo_small_ss\<lparr>ss_index := 3\<rparr>\<rparr>, demo_building],
     cq_confirmed_index := None\<rparr>"

lemma demo_signing_inv: "cq_inv demo_signing_cq"
  by (simp add: demo_signing_cq_def cq_inv_def demo_cq_def cq_shape_def cq_indexed_def All_less_Suc demo_cp_def)

lemma demo_queue_sign: "is_ok (CheckpointQueue_sign demo_tx_lib (demo_ctx []) (demo_xpub33 2) [demo_pk 2] 3 50 demo_signing_cq)"
proof -
  have "demo_pk 1 \<noteq> demo_pk 2" by (simp add: demo_pk_def)
  then show ?thesis
    by (simp add: CheckpointQueue_sign_def exempt_from_fee_def demo_ctx_def CheckpointQueue_get_mut_def demo_get_simps
        demo_signing_cq_def demo_cq_def sign_checkpoint_def demo_cp_def Checkpoint_new_def Checkpoint_sign_def sign_batch_def
        Batch_default_def Batch_signed_def demo_cp_tx_def BitcoinTx_default_def sign_tx_def sign_input_def derive_pubkey_def
        demo_input_def demo_ts_def ThresholdSig_needs_sig_def ThresholdSig_sign_def ThresholdSig_verify_def demo_tx_lib_def
        script_lib.defs demo_script_lib_def demo_xpub33_def ThresholdSig_signed_def Checkpoint_signed_def
        Checkpoint_signed_batches_def omap_modify_def BitcoinTx_signed_def)
qed

theorem queue_sign_completes_witness:
  "\<exists>q' cp'. CheckpointQueue_sign demo_tx_lib (demo_ctx []) (demo_xpub33 2) [demo_pk 2] 3 50 demo_signing_cq = Ok q'
    \<and> CheckpointQueue_get q' 3 = Ok cp' \<and> CheckpointQueue_get q' 4 = CheckpointQueue_get demo_signing_cq 4"
proof -
  obtain q' where ok: "CheckpointQueue_sign demo_tx_lib (demo_ctx []) (demo_xpub33 2) [demo_pk 2] 3 50 demo_signing_cq = Ok q'"
    using demo_queue_sign by (auto simp: is_ok_iff)
  have "(4::nat) \<noteq> 3" by simp
  with queue_sign_completes [OF demo_signing_inv ok] ok show ?thesis by blast
qed

text \<open>The first checkpoint of a chain.\<close>

definition demo_init :: checkpoint_queue where
  "demo_init = \<lparr>cq_queue = [], cq_index = 0, cq_confirmed_index = None, cq_config = CheckpointConfig_default\<rparr>"

lemma demo_first_step: "\<exists>q'. CheckpointQueue_maybe_step demo_header_lib demo_flat_lib demo_cq_ctx [([1], demo_xpub 1)] (\<lambda>_. 0)
     [] [] 200 True [9] 0 1000000 demo_init = Ok (True, q', 0) \<and> length (cq_queue q') = 1"
proof -
  have "next_sigset demo_flat_lib demo_cq_ctx [([1], demo_xpub 1)] demo_init = Ok (0, demo_next_ss\<lparr>ss_index := 0\<rparr>)"
    by (simp add: next_sigset_def demo_init_def SignatorySet_from_validator_ctx_def demo_flat_lib_def script_lib.defs demo_keys_lib_def
      demo_cq_ctx_def demo_ctx_def add_validator_def SignatorySet_insert_def add_w_def SignatorySet_sort_and_truncate_def
      MAX_SIGNATORIES_def Let_def sg_key_def demo_next_ss_def as_u64_def)
  then show ?thesis
    by (simp add: CheckpointQueue_maybe_step_def CheckpointQueue_should_push_def CheckpointQueue_maybe_push_def
        SignatorySet_has_quorum_def SignatorySet_quorum_threshold_def CheckpointQueue_get_mut_def CheckpointQueue_prune_def
        demo_get_simps demo_init_def CheckpointConfig_default_def CheckpointConfig_bitcoin_def demo_next_ss_def)
qed

theorem queue_stays_ordered_witness:
  "\<exists>q. cq_reachable demo_header_lib demo_flat_lib q \<and> cq_queue q \<noteq> []
     \<and> (\<exists>old signing building. cq_queue q = old @ signing @ [building] \<and> cp_status building = Building)"
proof -
  obtain q where q: "CheckpointQueue_maybe_step demo_header_lib demo_flat_lib demo_cq_ctx [([1], demo_xpub 1)] (\<lambda>_. 0)
     [] [] 200 True [9] 0 1000000 demo_init = Ok (True, q, 0)" "length (cq_queue q) = 1"
    using demo_first_step by blast
  have r: "cq_reachable demo_header_lib demo_flat_lib q"
    by (rule cq_next [OF cq_init cq_maybe_step [OF q(1) [unfolded demo_init_def]]])
  have ne: "cq_queue q \<noteq> []" using q(2) by auto
  obtain old signing building where "cq_queue q = old @ signing @ [building]" "cp_status building = Building"
    using queue_stays_ordered [OF r ne] by (elim exE conjE) rule
  with r ne show ?thesis by (intro exI [of _ q]) (auto intro!: exI)
qed


subsection \<open>Unconfirmed checkpoints\<close>

lemma completed_prefix_eq:
  assumes "cq_indexed (cq_index q) (cq_queue q)" and "k \<le> length (cq_queue q)"
  shows "completed_prefix q [first_of q + k..<first_of q + length (cq_queue q)]
    = Ok (takeWhile (\<lambda>cp. cp_status cp = Complete) (drop k (cq_queue q)))"
  using assms(2)
proof (induction "length (cq_queue q) - k" arbitrary: k)
  case 0
  then show ?case by simp
next
  case (Suc m)
  then have k: "k < length (cq_queue q)" by simp
  then have get: "CheckpointQueue_get q (first_of q + k) = Ok (cq_queue q ! k)"
    using assms(1) by (auto simp: get_eq [OF assms(1)] cq_indexed_def)
  have "completed_prefix q [first_of q + Suc k..<first_of q + length (cq_queue q)]
    = Ok (takeWhile (\<lambda>cp. cp_status cp = Complete) (drop (Suc k) (cq_queue q)))"
    using Suc k by (intro Suc.hyps(1)) auto
  then show ?case
    using k get by (simp add: upt_conv_Cons Cons_nth_drop_Suc [symmetric])
qed

lemma filter_eq_drop:
  assumes "\<And>j. j < length xs \<Longrightarrow> P (xs ! j) \<longleftrightarrow> k \<le> j"
  shows "filter P xs = drop k xs"
proof -
  have "filter P (take k xs) = []" using assms by (auto simp: filter_empty_conv in_set_conv_nth)
  moreover have "filter P (drop k xs) = drop k xs" using assms by (auto simp: filter_id_conv in_set_conv_nth)
  ultimately show ?thesis by (metis append_take_drop_id filter_append append_Nil)
qed

text \<open>
  The confirmed checkpoint, if there is one, is complete (before the one being signed and the one being built), and
  pruning has not reached past it.
\<close>

definition confirmed_complete :: "checkpoint_queue \<Rightarrow> bool" where
  "confirmed_complete q \<longleftrightarrow> (case cq_confirmed_index q of None \<Rightarrow> True
     | Some c \<Rightarrow> c + (if has_signing (cq_queue q) then 2 else 1) \<le> cq_index q \<and> first_of q \<le> Suc c)"

definition is_unconfirmed :: "checkpoint_queue \<Rightarrow> checkpoint \<Rightarrow> bool" where
  "is_unconfirmed q cp \<longleftrightarrow> cp_status cp = Complete
     \<and> (case cq_confirmed_index q of None \<Rightarrow> True | Some c \<Rightarrow> c < ss_index (cp_sigset cp))"


lemma cq_parts:
  assumes "cq_inv q" and "cq_queue q \<noteq> []"
  obtains old rest where "cq_queue q = old @ rest" "length rest = (if has_signing (cq_queue q) then 2 else 1)"
    "list_all (\<lambda>cp. cp_status cp = Complete) old" "list_all (\<lambda>cp. cp_status cp \<noteq> Complete) rest"
  using assms
proof (cases rule: cq_split)
  case (1 old building)
  then show thesis using that [of old "[building]"] by simp
next
  case (2 old signing building)
  then show thesis using that [of old "[signing, building]"] by simp
qed

lemma num_unconfirmed_eq:
  assumes inv: "cq_inv q" and q: "cq_queue q = old @ rest" "length rest = (if has_signing (cq_queue q) then 2 else 1)"
    and k: "k = (case cq_confirmed_index q of None \<Rightarrow> 0 | Some c \<Rightarrow> Suc c - first_of q)"
    and confirmed: "confirmed_complete q"
  shows "k \<le> length old" and "CheckpointQueue_num_unconfirmed q = Ok (length old - k)"
proof -
  have wf: "cq_indexed (cq_index q) (cq_queue q)" using inv by (simp add: cq_inv_def)
  have n: "length old + length rest \<le> Suc (cq_index q)" using wf q(1) by (simp add: cq_indexed_def)
  have conf: "c + length rest \<le> cq_index q" if "cq_confirmed_index q = Some c" for c
    using confirmed that q(2) by (simp add: confirmed_complete_def)
  have kept: "case cq_confirmed_index q of None \<Rightarrow> True | Some c \<Rightarrow> first_of q \<le> Suc c"
    using confirmed by (auto simp: confirmed_complete_def split: option.splits)
  show "k \<le> length old" using conf k q(1) n by (auto split: option.splits)
  let ?off = "length rest - 1"
  have off: "(if has_signing (cq_queue q) then 1 else 0) = ?off" "1 \<le> length rest" using q(2) by auto
  have sig: "CheckpointQueue_signing q = Ok s \<Longrightarrow> (if s \<noteq> None then 1 else 0) = ?off" for s
    using off by (auto simp: signing_eq [OF wf] split: if_splits)
  obtain s where s: "CheckpointQueue_signing q = Ok s" using signing_eq [OF wf] by blast
  have "CheckpointQueue_num_unconfirmed q = (if cq_index q < 1 + ?off then Ok 0
     else case cq_confirmed_index q of
       None \<Rightarrow> rbind (CheckpointQueue_len q) (\<lambda>len. rbind (sub_u len 1) (\<lambda>n. sub_u n ?off))
     | Some c \<Rightarrow> sub_u (cq_index q - (1 + ?off)) c)"
    using s by (simp only: CheckpointQueue_num_unconfirmed_def s rbind.simps Let_def sig [OF s])
  also have "\<dots> = Ok (length old - k)"
  proof (cases "cq_index q < 1 + ?off")
    case True
    then have "length old = 0" using n off(2) by linarith
    with True show ?thesis by simp
  next
    case False
    then show ?thesis
      using len_eq [OF wf] q(1) n k off(2) conf kept by (cases "cq_confirmed_index q") (auto simp: sub_u_def)
  qed
  finally show "CheckpointQueue_num_unconfirmed q = Ok (length old - k)" .
qed

text \<open>The unconfirmed checkpoints are the last of the complete ones.\<close>

lemma unconfirmed_parts:
  assumes "cq_inv q" and "confirmed_complete q" and "cq_queue q \<noteq> []"
  obtains old rest k where "cq_queue q = old @ rest" "length rest = (if has_signing (cq_queue q) then 2 else 1)"
    "list_all (\<lambda>cp. cp_status cp = Complete) old" "list_all (\<lambda>cp. cp_status cp \<noteq> Complete) rest"
    "k \<le> length old" "CheckpointQueue_num_unconfirmed q = Ok (length old - k)" "filter (is_unconfirmed q) (cq_queue q) = drop k old"
proof -
  have wf: "cq_indexed (cq_index q) (cq_queue q)" using assms(1) by (simp add: cq_inv_def)
  obtain old rest where q: "cq_queue q = old @ rest" "length rest = (if has_signing (cq_queue q) then 2 else 1)"
    and old: "list_all (\<lambda>cp. cp_status cp = Complete) old" and rest: "list_all (\<lambda>cp. cp_status cp \<noteq> Complete) rest"
    by (rule cq_parts [OF assms(1,3)])
  define k where "k = (case cq_confirmed_index q of None \<Rightarrow> 0 | Some c \<Rightarrow> Suc c - first_of q)"
  note num = num_unconfirmed_eq [OF assms(1) q k_def assms(2)]
  have "is_unconfirmed q (old ! j) \<longleftrightarrow> k \<le> j" if "j < length old" for j
  proof -
    have "ss_index (cp_sigset (old ! j)) = first_of q + j" "cp_status (old ! j) = Complete"
      using cq_ss_index [OF wf, of j] that q(1) old by (auto simp: nth_append list_all_length)
    then show ?thesis using assms(2) by (auto simp: is_unconfirmed_def confirmed_complete_def k_def split: option.splits)
  qed
  moreover have "filter (is_unconfirmed q) rest = []" using rest by (auto simp: filter_empty_conv list_all_iff is_unconfirmed_def)
  ultimately have "filter (is_unconfirmed q) (cq_queue q) = drop k old" using q(1) filter_eq_drop [of old] by simp
  with q old rest num show thesis by (intro that) auto
qed

lemma first_unconfirmed_eq:
  assumes "cq_inv q" and q: "cq_queue q = old @ rest" "length rest = (if has_signing (cq_queue q) then 2 else 1)"
    and num: "CheckpointQueue_num_unconfirmed q = Ok (length old - k)" "k < length old"
  shows "CheckpointQueue_first_unconfirmed_index q = Ok (Some (first_of q + k))"
proof -
  have wf: "cq_indexed (cq_index q) (cq_queue q)" using assms(1) by (simp add: cq_inv_def)
  have n: "length old + length rest \<le> Suc (cq_index q)" "1 \<le> length rest" using wf q by (auto simp: cq_indexed_def)
  let ?off = "if has_signing (cq_queue q) then 1 else 0 :: nat"
  have "cq_index q - (length old - k) - ?off = first_of q + k" "length old - k \<le> cq_index q" "?off \<le> cq_index q - (length old - k)"
    using num(2) n q by (auto split: if_splits)
  with num signing_eq [OF wf] show ?thesis
    by (simp add: CheckpointQueue_first_unconfirmed_index_def Let_def sub_u_def split: if_splits)
qed

text \<open>
  \<open>unconfirmed\<close> returns exactly the complete checkpoints past the confirmed one, in order, and
  \<open>num_unconfirmed\<close> their number, as long as the confirmed checkpoint is complete and pruning has not
  reached past it; neither panics.
\<close>

theorem unconfirmed_exact:
  assumes "cq_inv q" and "confirmed_complete q"
  shows "CheckpointQueue_unconfirmed q = Ok (filter (is_unconfirmed q) (cq_queue q))
    \<and> CheckpointQueue_num_unconfirmed q = Ok (length (filter (is_unconfirmed q) (cq_queue q)))"
proof (cases "cq_queue q = []")
  case True
  with assms(1) have "cq_index q = 0" by (simp add: cq_inv_def)
  with True show ?thesis
    by (simp add: CheckpointQueue_unconfirmed_def CheckpointQueue_first_unconfirmed_index_def
        CheckpointQueue_num_unconfirmed_def CheckpointQueue_signing_def)
next
  case False
  have wf: "cq_indexed (cq_index q) (cq_queue q)" using assms(1) by (simp add: cq_inv_def)
  obtain old rest k where q: "cq_queue q = old @ rest" "length rest = (if has_signing (cq_queue q) then 2 else 1)"
    and old: "list_all (\<lambda>cp. cp_status cp = Complete) old" and rest: "list_all (\<lambda>cp. cp_status cp \<noteq> Complete) rest"
    and num: "k \<le> length old" "CheckpointQueue_num_unconfirmed q = Ok (length old - k)" and fil: "filter (is_unconfirmed q) (cq_queue q) = drop k old"
    by (rule unconfirmed_parts [OF assms False])
  have n: "length old + length rest \<le> Suc (cq_index q)" "1 \<le> length rest" using wf q by (auto simp: cq_indexed_def)
  have "CheckpointQueue_unconfirmed q = Ok (drop k old)"
  proof (cases "length old = k")
    case True
    then show ?thesis
      using num by (simp add: CheckpointQueue_unconfirmed_def CheckpointQueue_first_unconfirmed_index_def)
  next
    case less: False
    have "CheckpointQueue_first_unconfirmed_index q = Ok (Some (first_of q + k))"
      by (rule first_unconfirmed_eq [OF assms(1) q num(2)]) (use less num(1) in simp)
    moreover have "Suc (cq_index q) = first_of q + length (cq_queue q)" using n q(1) by simp
    moreover have "takeWhile (\<lambda>cp. cp_status cp = Complete) (drop k (cq_queue q)) = drop k old"
    proof -
      obtain r rs where r: "rest = r # rs" using n(2) by (cases rest) auto
      have "takeWhile (\<lambda>cp. cp_status cp = Complete) (drop k old @ rest)
          = drop k old @ takeWhile (\<lambda>cp. cp_status cp = Complete) rest"
        using old by (intro takeWhile_append2) (auto simp: list_all_iff dest: in_set_dropD)
      then show ?thesis using q(1) num(1) rest r by simp
    qed
    ultimately show ?thesis
      using completed_prefix_eq [OF wf, of k] num(1) q(1)
      by (simp add: CheckpointQueue_unconfirmed_def del: upt_Suc)
  qed
  then show ?thesis using fil num by simp
qed

theorem unconfirmed_exact_witness:
  "CheckpointQueue_unconfirmed (demo_cq\<lparr>cq_confirmed_index := None\<rparr>) = Ok [demo_old]
   \<and> CheckpointQueue_num_unconfirmed (demo_cq\<lparr>cq_confirmed_index := None\<rparr>) = Ok 1"
proof -
  have inv: "cq_inv (demo_cq\<lparr>cq_confirmed_index := None\<rparr>)" using demo_cq_inv by (simp add: cq_inv_def)
  have "filter (is_unconfirmed (demo_cq\<lparr>cq_confirmed_index := None\<rparr>)) (cq_queue (demo_cq\<lparr>cq_confirmed_index := None\<rparr>)) = [demo_old]"
    by (simp add: is_unconfirmed_def demo_cq_def)
  with unconfirmed_exact [OF inv] show ?thesis by (simp add: confirmed_complete_def)
qed

text \<open>
  \<open>reset\<close> forgets to clear the confirmed index: once the emptied queue has built and completed
  a checkpoint, while the old one had confirmed more, counting the unconfirmed ones underflows and the
  queue cannot open another checkpoint.
\<close>

theorem reset_keeps_confirmed_index:
  assumes "cq_confirmed_index q = Some c" and "q' = (CheckpointQueue_reset q)\<lparr>cq_queue := [a, b], cq_index := 1\<rparr>"
    and "cp_status a = Complete" and "0 < c"
  shows "CheckpointQueue_num_unconfirmed q' = Err Panic
    \<and> CheckpointQueue_should_push L C keys commitment h q' \<noteq> Ok True"
proof -
  have "CheckpointQueue_num_unconfirmed q' = Err Panic"
    using assms by (simp add: demo_get_simps CheckpointQueue_reset_def)
  then show ?thesis using should_push_True(3) by fastforce
qed

theorem reset_keeps_confirmed_index_witness:
  "CheckpointQueue_num_unconfirmed ((CheckpointQueue_reset demo_cq)\<lparr>cq_queue := [demo_old, demo_building], cq_index := 1\<rparr>) = Err Panic"
proof -
  have "cq_confirmed_index demo_cq = Some 3" by (simp add: demo_cq_def)
  then have "CheckpointQueue_num_unconfirmed ((CheckpointQueue_reset demo_cq)\<lparr>cq_queue := [demo_old, demo_building], cq_index := 1\<rparr>) = Err Panic
    \<and> CheckpointQueue_should_push demo_flat_lib demo_cq_ctx [] [] 0
        ((CheckpointQueue_reset demo_cq)\<lparr>cq_queue := [demo_old, demo_building], cq_index := 1\<rparr>) \<noteq> Ok True"
    by (rule reset_keeps_confirmed_index [OF _ refl]) simp_all
  then show ?thesis by blast
qed


subsection \<open>Backfilling\<close>

lemma first_index_eq:
  assumes "cq_indexed (cq_index q) (cq_queue q)"
  shows "CheckpointQueue_first_index q = Ok (first_of q)"
  using assms by (simp add: CheckpointQueue_first_index_def len_eq add_w_def sub_u_def) (simp add: cq_indexed_def)

lemma cq_inv_push_front:
  assumes "cq_inv q" and "cq_queue q \<noteq> []" and "cp_status cp = Complete" and "Suc (ss_index (cp_sigset cp)) = first_of q"
  shows "cq_inv (q\<lparr>cq_queue := cp # cq_queue q\<rparr>)"
proof -
  have "cq_shape (cp # cq_queue q)"
    using assms(1,2,3) by (auto simp: cq_inv_def cq_shape_def nth_Cons split: nat.splits)
  moreover have "cq_indexed (cq_index q) (cp # cq_queue q)"
    using assms(1,2,4) by (auto simp: cq_inv_def cq_indexed_def nth_Cons split: nat.splits)
  moreover have "has_signing (cp # cq_queue q) \<longrightarrow> has_signing (cq_queue q)"
    using assms(2,3) by (cases "length (cq_queue q)"; cases "length (cq_queue q) - 1")
      (auto simp: has_signing_def nth_Cons split: nat.splits)
  ultimately show ?thesis using assms(1) by (auto simp: cq_inv_def split: option.splits if_splits)
qed

lemma backfill_script_Ok:
  assumes "backfill_script L ratio t (index, q) script = Ok (index', q')" and "cq_inv q" and "cq_queue q \<noteq> []"
    and "first_of q \<le> index"
  shows "cq_inv q'" and "Suc index' = index" and "first_of q' = min (first_of q) index'"
    and "cq_index q' = cq_index q" and "\<exists>new. cq_queue q' = new @ cq_queue q \<and> list_all (\<lambda>cp. cp_status cp = Complete) new"
proof -
  have wf: "cq_indexed (cq_index q) (cq_queue q)" using assms(2) by (simp add: cq_inv_def)
  from assms(1) have i: "index' = index - 1" "1 \<le> index" and
    cases: "first_of q \<le> index' \<and> q' = q \<or> (\<exists>ss. \<not> first_of q \<le> index'
       \<and> q' = q\<lparr>cq_queue := (Checkpoint_new (ss\<lparr>ss_index := index', ss_create_time := t\<rparr>))\<lparr>cp_status := Complete\<rparr> # cq_queue q\<rparr>)"
    by (auto simp: backfill_script_def first_index_eq [OF wf] Let_def split: if_splits)
  show "Suc index' = index" using i by simp
  from cases have "cq_inv q' \<and> first_of q' = min (first_of q) index' \<and> cq_index q' = cq_index q
      \<and> (\<exists>new. cq_queue q' = new @ cq_queue q \<and> list_all (\<lambda>cp. cp_status cp = Complete) new)"
  proof
    assume "first_of q \<le> index' \<and> q' = q"
    with assms(2) show ?thesis by simp
  next
    assume "\<exists>ss. \<not> first_of q \<le> index'
       \<and> q' = q\<lparr>cq_queue := (Checkpoint_new (ss\<lparr>ss_index := index', ss_create_time := t\<rparr>))\<lparr>cp_status := Complete\<rparr> # cq_queue q\<rparr>"
    then obtain cp where lt: "index' < first_of q" and q': "q' = q\<lparr>cq_queue := cp # cq_queue q\<rparr>"
      and cp: "cp_status cp = Complete" "ss_index (cp_sigset cp) = index'"
      by (auto simp: Checkpoint_new_def)
    have "Suc index' = first_of q" using lt assms(4) i by linarith
    then show ?thesis using cq_inv_push_front [OF assms(2,3) cp(1)] cp q' by auto
  qed
  then show "cq_inv q'" "first_of q' = min (first_of q) index'" "cq_index q' = cq_index q"
    "\<exists>new. cq_queue q' = new @ cq_queue q \<and> list_all (\<lambda>cp. cp_status cp = Complete) new" by auto
qed

lemma backfill_scripts_Ok:
  assumes "fold_result (backfill_script L ratio t) (index, q) scripts = Ok (index', q')" and "cq_inv q" and "cq_queue q \<noteq> []"
    and "first_of q \<le> index"
  shows "cq_inv q' \<and> first_of q' = min (first_of q) (index - length scripts) \<and> cq_index q' = cq_index q
    \<and> (\<exists>new. cq_queue q' = new @ cq_queue q \<and> list_all (\<lambda>cp. cp_status cp = Complete) new)"
  using assms
proof (induction scripts arbitrary: index q)
  case Nil
  then show ?case by simp
next
  case (Cons script scripts)
  from Cons.prems(1) obtain i1 q1 where s: "backfill_script L ratio t (index, q) script = Ok (i1, q1)"
    and r: "fold_result (backfill_script L ratio t) (i1, q1) scripts = Ok (index', q')" by auto
  note one = backfill_script_Ok [OF s Cons.prems(2-4)]
  obtain new where new: "cq_queue q1 = new @ cq_queue q" "list_all (\<lambda>cp. cp_status cp = Complete) new" using one(5) by blast
  have "cq_inv q' \<and> first_of q' = min (first_of q1) (i1 - length scripts) \<and> cq_index q' = cq_index q1
    \<and> (\<exists>new. cq_queue q' = new @ cq_queue q1 \<and> list_all (\<lambda>cp. cp_status cp = Complete) new)"
    using one new Cons.prems(3) by (intro Cons.IH [OF r]) auto
  then obtain new' where n: "cq_inv q'" "first_of q' = min (first_of q1) (i1 - length scripts)" "cq_index q' = cq_index q1"
    "cq_queue q' = new' @ cq_queue q1" "list_all (\<lambda>cp. cp_status cp = Complete) new'" by blast
  have "first_of q' = min (first_of q) (index - length (script # scripts))" using n(2) one(2,3) by (auto simp: min_def)
  with n new one show ?case by (auto intro!: exI [of _ "new' @ new"])
qed

text \<open>
  Backfilling from a sequence of redeem scripts, newest first, extends the queue downwards by
  complete checkpoints with consecutive indices, skips the ones the queue already holds, and keeps the
  queue well formed.
\<close>

theorem backfill_extends_downwards:
  assumes "cq_inv q" and "Suc (cq_index q) - length (cq_queue q) \<le> Suc first_index"
    and "CheckpointQueue_backfill L first_index scripts ratio q = Ok q'"
  shows "cq_inv q' \<and> (\<exists>new. cq_queue q' = new @ cq_queue q \<and> list_all (\<lambda>cp. cp_status cp = Complete) new
    \<and> map (\<lambda>cp. ss_index (cp_sigset cp)) new
        = [Suc first_index - length scripts..<Suc (cq_index q) - length (cq_queue q)])"
proof -
  from assms(3) obtain t i' where ne: "cq_queue q \<noteq> []"
    and f: "fold_result (backfill_script L ratio t) (Suc first_index, q) scripts = Ok (i', q')"
    by (auto simp: CheckpointQueue_backfill_def split: list.splits)
  from backfill_scripts_Ok [OF f assms(1) ne assms(2)] obtain new where
    inv: "cq_inv q'" and first: "first_of q' = min (first_of q) (Suc first_index - length scripts)" and ix: "cq_index q' = cq_index q"
    and new: "cq_queue q' = new @ cq_queue q" "list_all (\<lambda>cp. cp_status cp = Complete) new" by blast
  have wf: "cq_indexed (cq_index q') (cq_queue q')" using inv by (simp add: cq_inv_def)
  have len: "length new + length (cq_queue q) \<le> Suc (cq_index q)" using wf new(1) ix by (simp add: cq_indexed_def)
  have "map (\<lambda>cp. ss_index (cp_sigset cp)) new = [first_of q'..<first_of q]"
  proof (rule nth_equalityI)
    show "length (map (\<lambda>cp. ss_index (cp_sigset cp)) new) = length [first_of q'..<first_of q]"
      using len new(1) ix by simp
    fix j assume "j < length (map (\<lambda>cp. ss_index (cp_sigset cp)) new)"
    then have j: "j < length new" by simp
    then have "ss_index (cp_sigset (new ! j)) = first_of q' + j"
      using cq_ss_index [OF wf, of j] new(1) by (simp add: nth_append)
    then show "map (\<lambda>cp. ss_index (cp_sigset cp)) new ! j = [first_of q'..<first_of q] ! j"
      using j len new(1) ix by simp
  qed
  moreover have "[first_of q'..<first_of q] = [Suc first_index - length scripts..<first_of q]"
    using first by (auto simp: min_def)
  ultimately show ?thesis using inv new by auto
qed

theorem backfill_extends_downwards_witness:
  "\<exists>script q' new. CheckpointQueue_backfill demo_script_lib 3 [script, script] (9, 10) demo_cq = Ok q'
    \<and> cq_queue q' = new @ cq_queue demo_cq \<and> map (\<lambda>cp. ss_index (cp_sigset cp)) new = [2]"
proof -
  obtain script where s: "SignatorySet_redeem_script demo_script_lib demo_ss [9] (9, 10) = Ok script"
    using demo_redeem by blast
  have p: "\<exists>ss c. SignatorySet_from_script demo_script_lib script (9, 10) = Ok (ss, c)"
    using from_script_redeem_script [OF demo_assembler demo_number demo_slice SignatorySet_from_validator_ctx_inv [OF demo_ss_chosen(1)]
        demo_ss_chosen(3) demo_compressed(1,2) _ demo_compressed(3) _ s] by simp
  then have "\<exists>q'. CheckpointQueue_backfill demo_script_lib 3 [script, script] (9, 10) demo_cq = Ok q'"
    by (auto simp: CheckpointQueue_backfill_def backfill_script_def demo_cq_def add_w_def sub_u_def Let_def
        CheckpointQueue_first_index_def CheckpointQueue_len_def)
  then obtain q' where q': "CheckpointQueue_backfill demo_script_lib 3 [script, script] (9, 10) demo_cq = Ok q'" by blast
  have "Suc (cq_index demo_cq) - length (cq_queue demo_cq) \<le> Suc 3" by (simp add: demo_cq_def)
  from backfill_extends_downwards [OF demo_cq_inv this q'] obtain new where "cq_queue q' = new @ cq_queue demo_cq"
    "map (\<lambda>cp. ss_index (cp_sigset cp)) new = [Suc 3 - 2..<Suc (cq_index demo_cq) - length (cq_queue demo_cq)]" by auto
  then have "cq_queue q' = new @ cq_queue demo_cq" "map (\<lambda>cp. ss_index (cp_sigset cp)) new = [2]"
    by (simp_all add: demo_cq_def upt_rec)
  with q' show ?thesis by (intro exI [of _ script] exI [of _ q'] exI [of _ new]) simp
qed

end
