(* ===== verification/Recovery.thy ===== *)
theory Recovery
  imports Checkpoint_Advance
begin

text \<open>
  Recovery of deposits to expired addresses (src/src/bitcoin/recovery.rs): a transaction that
  spends the deposit with the old signatory set and pays it to the address of the same destination
  under the new set.
\<close>

section \<open>Recovery transactions\<close>

record recovery_tx =
  rt_tx :: bitcoin_tx
  rt_old_sigset_index :: u32
  rt_new_sigset_index :: u32
  rt_dest :: dest

record signed_recovery_tx =
  st_tx :: transaction
  st_sigset_index :: u32
  st_dest :: dest

record recovery_txs =
  rx_txs :: "recovery_tx list"

record recovery_tx_input =
  ri_expired_tx :: transaction
  ri_vout :: u32
  ri_old_sigset :: signatory_set
  ri_new_sigset :: signatory_set
  ri_threshold :: "u64 \<times> u64"
  ri_fee_rate :: u64
  ri_dest :: dest

definition RecoveryTxs_new :: recovery_txs where
  "RecoveryTxs_new = \<lparr>rx_txs = []\<rparr>"

definition RecoveryTxs_create_recovery_tx ::
  "'m dest_lib_scheme \<Rightarrow> recovery_tx_input \<Rightarrow> recovery_txs \<Rightarrow> recovery_txs result" where
  "RecoveryTxs_create_recovery_tx L args rx =
     (if \<not> ri_vout args < length (tr_output (ri_expired_tx args)) then Err (SignerErr ''Invalid recovery tx vout'')
      else
      let expired_output = tr_output (ri_expired_tx args) ! ri_vout args in
      rbind (Dest_commitment_bytes L (ri_dest args)) (\<lambda>commitment_bytes.
      rbind (Input_new L (tx_txid L (ri_expired_tx args), ri_vout args) (ri_old_sigset args) commitment_bytes
               (to_value expired_output) (ri_threshold args)) (\<lambda>input.
      rbind (SignatorySet_output_script L (ri_new_sigset args) commitment_bytes (ri_threshold args)) (\<lambda>script_pubkey.
      let output = \<lparr>to_value = to_value expired_output, to_script_pubkey = script_pubkey\<rparr>;
          tx = BitcoinTx_default\<lparr>bt_input := [input], bt_output := [output]\<rparr> in
      rbind (BitcoinTx_est_vsize L tx) (\<lambda>vsize.
      rbind (mul_u64 (ri_fee_rate args) vsize) (\<lambda>fee.
      rbind (BitcoinTx_deduct_fee L fee tx) (\<lambda>tx.
      rbind (BitcoinTx_populate_input_sig_message L 0 tx) (\<lambda>tx.
      Ok (rx\<lparr>rx_txs := rx_txs rx @
            [\<lparr>rt_tx = tx, rt_old_sigset_index = ss_index (ri_old_sigset args),
              rt_new_sigset_index = ss_index (ri_new_sigset args), rt_dest = ri_dest args\<rparr>]\<rparr>)))))))))"

definition RecoveryTxs_to_sign :: "'m script_lib_scheme \<Rightarrow> xpub \<Rightarrow> recovery_txs \<Rightarrow> (message \<times> u32) list result" where
  "RecoveryTxs_to_sign L xpub rx =
     rbind (map_result (\<lambda>tx. map_result (input_to_sign L xpub) (bt_input (rt_tx tx))) (rx_txs rx)) (\<lambda>msgs.
     Ok (concat (map concat msgs)))"

text \<open>
  The loops of \<open>sign\<close>. The body for one input is the one of \<open>Checkpoint::sign\<close> but for the error
  when the signatures run out; the signatures not yet used are passed along.
\<close>

definition recovery_sign_input ::
  "'m script_lib_scheme \<Rightarrow> xpub \<Rightarrow> signature list \<Rightarrow> input \<Rightarrow> (signature list \<times> bool \<times> input) result" where
  "recovery_sign_input L xpub sigs input =
     rbind (derive_pubkey L xpub (in_sigset_index input)) (\<lambda>pubkey.
     if \<not> ThresholdSig_needs_sig (in_signatures input) pubkey then Ok (sigs, False, input)
     else case sigs of
       [] \<Rightarrow> Err (SignerErr ''Not enough signatures supplied for recovery transaction'')
     | sig # sigs \<Rightarrow>
         let input_was_signed = ThresholdSig_signed (in_signatures input) in
         rbind (ThresholdSig_sign L pubkey sig (in_signatures input)) (\<lambda>ts.
         Ok (sigs, \<not> input_was_signed \<and> ThresholdSig_signed ts, input\<lparr>in_signatures := ts\<rparr>)))"

fun recovery_sign_inputs ::
  "'m script_lib_scheme \<Rightarrow> xpub \<Rightarrow> signature list \<Rightarrow> u16 \<Rightarrow> input list
     \<Rightarrow> (signature list \<times> u16 \<times> input list) result" where
  "recovery_sign_inputs L xpub sigs n [] = Ok (sigs, n, [])"
| "recovery_sign_inputs L xpub sigs n (input # inputs) =
     rbind (recovery_sign_input L xpub sigs input) (\<lambda>(sigs, newly, input).
     rbind (if newly then add_u16 n 1 else Ok n) (\<lambda>n.
     rbind (recovery_sign_inputs L xpub sigs n inputs) (\<lambda>(sigs, n, inputs).
     Ok (sigs, n, input # inputs))))"

fun recovery_sign_txs ::
  "'m script_lib_scheme \<Rightarrow> xpub \<Rightarrow> signature list \<Rightarrow> recovery_tx list \<Rightarrow> (signature list \<times> recovery_tx list) result" where
  "recovery_sign_txs L xpub sigs [] = Ok (sigs, [])"
| "recovery_sign_txs L xpub sigs (tx # txs) =
     rbind (recovery_sign_inputs L xpub sigs (bt_signed_inputs (rt_tx tx)) (bt_input (rt_tx tx))) (\<lambda>(sigs, n, inputs).
     rbind (recovery_sign_txs L xpub sigs txs) (\<lambda>(sigs, txs).
     Ok (sigs, tx\<lparr>rt_tx := (rt_tx tx)\<lparr>bt_signed_inputs := n, bt_input := inputs\<rparr>\<rparr> # txs)))"

definition RecoveryTxs_sign ::
  "'m script_lib_scheme \<Rightarrow> ctx \<Rightarrow> xpub \<Rightarrow> signature list \<Rightarrow> recovery_txs \<Rightarrow> recovery_txs result" where
  "RecoveryTxs_sign L C xpub sigs rx =
     rbind (exempt_from_fee C) (\<lambda>_.
     if sigs = [] then Err (SignerErr ''No signatures supplied for recovery transaction'')
     else
     rbind (recovery_sign_txs L xpub sigs (rx_txs rx)) (\<lambda>(rest, txs).
     if rest \<noteq> [] then Err (SignerErr ''Excess signatures supplied for recovery transaction'')
     else Ok (rx\<lparr>rx_txs := txs\<rparr>)))"

definition RecoveryTxs_signed :: "'m tx_lib_scheme \<Rightarrow> recovery_txs \<Rightarrow> signed_recovery_tx list result" where
  "RecoveryTxs_signed L rx =
     map_result (\<lambda>tx.
       rbind (BitcoinTx_to_bitcoin_tx L (rt_tx tx)) (\<lambda>btc_tx.
       Ok \<lparr>st_tx = btc_tx, st_sigset_index = rt_new_sigset_index tx, st_dest = rt_dest tx\<rparr>))
     (filter (\<lambda>tx. BitcoinTx_signed (rt_tx tx)) (rx_txs rx))"

section \<open>Signing\<close>

lemma recovery_sign_input_Ok [simp]:
  "recovery_sign_input L xpub sigs input = Ok r \<longleftrightarrow> sign_input L xpub sigs input = Ok r"
  by (auto simp: recovery_sign_input_def sign_input_def split: list.splits)

lemma recovery_sign_inputs_Ok:
  "recovery_sign_inputs L xpub sigs n is = Ok r \<longleftrightarrow> sign_inputs L xpub sigs n is = Ok r"
proof (induction "is" arbitrary: sigs n r)
  case Nil
  then show ?case by simp
next
  case (Cons i "is")
  show ?case
  proof (cases "sign_input L xpub sigs i")
    case (Err e)
    then have "recovery_sign_input L xpub sigs i \<noteq> Ok x" for x by simp
    then show ?thesis using Err by (cases "recovery_sign_input L xpub sigs i") auto
  next
    case (Ok a)
    then have "recovery_sign_input L xpub sigs i = Ok a" by simp
    with Ok Cons.IH show ?thesis by (cases a) auto
  qed
qed

lemma recovery_sign_txs_Ok:
  assumes "recovery_sign_txs L xpub sigs txs = Ok (sigs', txs')" and "list_all (\<lambda>t. tx_inv L (rt_tx t)) txs"
  shows "(\<exists>msgs used. map_result (\<lambda>t. map_result (input_to_sign L xpub) (bt_input (rt_tx t))) txs = Ok msgs
      \<and> sigs = used @ sigs' \<and> answers L xpub (concat (map concat msgs)) used)
    \<and> list_all (\<lambda>t. tx_inv L (rt_tx t)) txs'
    \<and> list_all2 (\<lambda>t t'. tx_step L (rt_tx t) (rt_tx t')
         \<and> t' = t\<lparr>rt_tx := rt_tx t'\<rparr>) txs txs'"
  using assms
proof (induction txs arbitrary: sigs txs')
  case Nil
  then show ?case by (auto simp: answers_def)
next
  case (Cons t txs)
  from Cons.prems(1) obtain s1 n "is" txs1 where
    i: "sign_inputs L xpub sigs (bt_signed_inputs (rt_tx t)) (bt_input (rt_tx t)) = Ok (s1, n, is)"
    and r: "recovery_sign_txs L xpub s1 txs = Ok (sigs', txs1)"
    and txs': "txs' = t\<lparr>rt_tx := (rt_tx t)\<lparr>bt_signed_inputs := n, bt_input := is\<rparr>\<rparr> # txs1"
    by (auto simp: recovery_sign_inputs_Ok)
  from sign_inputs_Ok [OF i] obtain m u where m: "map_result (input_to_sign L xpub) (bt_input (rt_tx t)) = Ok m"
    "sigs = u @ s1" "answers L xpub (concat m) u" by blast
  from i obtain newly where "sign_tx L xpub sigs (rt_tx t)
      = Ok (s1, newly, (rt_tx t)\<lparr>bt_signed_inputs := n, bt_input := is\<rparr>)"
    by (simp add: sign_tx_def Let_def)
  note step = sign_tx_Ok(2) [OF this]
  from Cons.IH [OF r] Cons.prems(2) obtain ms us where
    ms: "map_result (\<lambda>t. map_result (input_to_sign L xpub) (bt_input (rt_tx t))) txs = Ok ms"
    "s1 = us @ sigs'" "answers L xpub (concat (map concat ms)) us"
    and IH: "list_all (\<lambda>t. tx_inv L (rt_tx t)) txs1"
      "list_all2 (\<lambda>t t'. tx_step L (rt_tx t) (rt_tx t') \<and> t' = t\<lparr>rt_tx := rt_tx t'\<rparr>) txs txs1" by auto
  from m ms have "map_result (\<lambda>t. map_result (input_to_sign L xpub) (bt_input (rt_tx t))) (t # txs) = Ok (m # ms)
      \<and> sigs = (u @ us) @ sigs' \<and> answers L xpub (concat (map concat (m # ms))) (u @ us)"
    by (simp add: answers_append)
  moreover have "tx_inv L ((rt_tx t)\<lparr>bt_signed_inputs := n, bt_input := is\<rparr>)"
    using step Cons.prems(2) by (simp add: tx_step_def)
  ultimately show ?case using IH step txs' by auto
qed

lemma recovery_sign_txs_total:
  assumes "list_all (\<lambda>t. tx_inv L (rt_tx t) \<and> length (bt_input (rt_tx t)) < 2 ^ 16) txs"
    and "map_result (\<lambda>t. map_result (input_to_sign L xpub) (bt_input (rt_tx t))) txs = Ok msgs"
    and "answers L xpub (concat (map concat msgs)) used"
  shows "\<exists>txs'. recovery_sign_txs L xpub (used @ rest) txs = Ok (rest, txs')"
  using assms
proof (induction txs arbitrary: msgs used)
  case Nil
  then show ?case by (auto simp: answers_def)
next
  case (Cons t txs)
  from Cons.prems(2) obtain m ms where m: "map_result (input_to_sign L xpub) (bt_input (rt_tx t)) = Ok m"
    and ms: "map_result (\<lambda>t. map_result (input_to_sign L xpub) (bt_input (rt_tx t))) txs = Ok ms" and msgs: "msgs = m # ms"
    by auto
  from Cons.prems(3) msgs obtain u1 u2 where u: "used = u1 @ u2" "answers L xpub (concat m) u1"
    "answers L xpub (concat (map concat ms)) u2" by (auto elim: answers_split)
  have inv: "tx_inv L (rt_tx t)" "length (bt_input (rt_tx t)) < 2 ^ 16" using Cons.prems(1) by simp_all
  then have "bt_signed_inputs (rt_tx t) + length (filter (\<lambda>i. \<not> input_signed i) (bt_input (rt_tx t))) < 2 ^ 16"
    by (simp add: tx_inv_def sum_length_filter_compl)
  moreover have "list_all (\<lambda>i. ts_inv L (in_signatures i)) (bt_input (rt_tx t))" using inv(1) by (simp add: tx_inv_def)
  ultimately obtain n is' where
    "sign_inputs L xpub (u1 @ u2 @ rest) (bt_signed_inputs (rt_tx t)) (bt_input (rt_tx t)) = Ok (u2 @ rest, n, is')"
    using sign_inputs_total [OF _ m u(2), of "bt_signed_inputs (rt_tx t)" "u2 @ rest"] by blast
  then have "recovery_sign_inputs L xpub (u1 @ u2 @ rest) (bt_signed_inputs (rt_tx t)) (bt_input (rt_tx t)) = Ok (u2 @ rest, n, is')"
    by (simp add: recovery_sign_inputs_Ok)
  moreover obtain txs' where "recovery_sign_txs L xpub (u2 @ rest) txs = Ok (rest, txs')"
    using Cons.IH [OF _ ms u(3)] Cons.prems(1) by auto
  ultimately show ?case using u(1) by simp
qed

section \<open>Properties\<close>

text \<open>
  A signatory's call on the recovery transactions succeeds exactly when it answers, in order and
  validly, every message asked of it, and then the transactions stay well formed and their outputs
  are untouched.
\<close>

theorem recovery_sign_iff_answers:
  assumes "list_all (\<lambda>t. tx_inv L (rt_tx t) \<and> length (bt_input (rt_tx t)) < 2 ^ 16) (rx_txs rx)"
    and "exempt_from_fee C = Ok ()" and "sigs \<noteq> []"
  shows "((\<exists>rx'. RecoveryTxs_sign L C xpub sigs rx = Ok rx') \<longleftrightarrow>
      (\<exists>msgs. RecoveryTxs_to_sign L xpub rx = Ok msgs \<and> answers L xpub msgs sigs))
    \<and> (\<forall>rx'. RecoveryTxs_sign L C xpub sigs rx = Ok rx' \<longrightarrow>
        list_all (\<lambda>t. tx_inv L (rt_tx t)) (rx_txs rx')
        \<and> map (\<lambda>t. bt_output (rt_tx t)) (rx_txs rx') = map (\<lambda>t. bt_output (rt_tx t)) (rx_txs rx))"
proof (intro conjI iffI allI impI)
  have inv: "list_all (\<lambda>t. tx_inv L (rt_tx t)) (rx_txs rx)" using assms(1) by (auto simp: list_all_iff)
  have ok: "\<exists>txs'. recovery_sign_txs L xpub sigs (rx_txs rx) = Ok ([], txs') \<and> rx' = rx\<lparr>rx_txs := txs'\<rparr>"
    if "RecoveryTxs_sign L C xpub sigs rx = Ok rx'" for rx'
    using that by (auto simp: RecoveryTxs_sign_def)
  show "\<exists>msgs. RecoveryTxs_to_sign L xpub rx = Ok msgs \<and> answers L xpub msgs sigs"
    if "\<exists>rx'. RecoveryTxs_sign L C xpub sigs rx = Ok rx'"
    using that ok recovery_sign_txs_Ok [OF _ inv] by (fastforce simp: RecoveryTxs_to_sign_def)
  show "\<exists>rx'. RecoveryTxs_sign L C xpub sigs rx = Ok rx'"
    if m: "\<exists>msgs. RecoveryTxs_to_sign L xpub rx = Ok msgs \<and> answers L xpub msgs sigs"
  proof -
    from m obtain ms where "map_result (\<lambda>t. map_result (input_to_sign L xpub) (bt_input (rt_tx t))) (rx_txs rx) = Ok ms"
      "answers L xpub (concat (map concat ms)) sigs" by (auto simp: RecoveryTxs_to_sign_def)
    from recovery_sign_txs_total [OF assms(1) this, of "[]"] assms(2,3) show ?thesis by (auto simp: RecoveryTxs_sign_def)
  qed
  fix rx' assume "RecoveryTxs_sign L C xpub sigs rx = Ok rx'"
  from ok [OF this] obtain txs' where t: "recovery_sign_txs L xpub sigs (rx_txs rx) = Ok ([], txs')" "rx' = rx\<lparr>rx_txs := txs'\<rparr>" by blast
  note r = recovery_sign_txs_Ok [OF t(1) inv]
  show "list_all (\<lambda>t. tx_inv L (rt_tx t)) (rx_txs rx')" using r t(2) by simp
  have "list_all2 (\<lambda>t t'. bt_output (rt_tx t') = bt_output (rt_tx t)) (rx_txs rx) txs'"
    using r by (auto simp: tx_step_def elim: list_all2_mono)
  then show "map (\<lambda>t. bt_output (rt_tx t)) (rx_txs rx') = map (\<lambda>t. bt_output (rt_tx t)) (rx_txs rx)"
    using t(2) by (auto simp: list_all2_conv_all_nth intro: nth_equalityI)
qed

definition demo_recovery :: recovery_txs where
  "demo_recovery = \<lparr>rx_txs = [\<lparr>rt_tx = demo_cp_tx, rt_old_sigset_index = 4, rt_new_sigset_index = 5, rt_dest = RewardPool\<rparr>]\<rparr>"

theorem recovery_sign_iff_answers_witness:
  "\<exists>rx'. RecoveryTxs_sign demo_script_lib (demo_ctx []) (demo_xpub33 2) [demo_pk 2] demo_recovery = Ok rx'"
proof -
  have inv: "list_all (\<lambda>t. tx_inv demo_script_lib (rt_tx t) \<and> length (bt_input (rt_tx t)) < 2 ^ 16) (rx_txs demo_recovery)"
    using demo_ts_inv by (simp add: demo_recovery_def tx_inv_def demo_cp_tx_def BitcoinTx_default_def demo_input_def
        ThresholdSig_signed_def demo_ts_def)
  have free: "exempt_from_fee (demo_ctx []) = Ok ()" by (simp add: exempt_from_fee_def demo_ctx_def)
  have "demo_pk 1 \<noteq> demo_pk 2" by (simp add: demo_pk_def)
  then have "RecoveryTxs_to_sign demo_script_lib (demo_xpub33 2) demo_recovery = Ok [([7], 4)]"
    using demo_derive by (simp add: RecoveryTxs_to_sign_def demo_recovery_def input_to_sign_def demo_cp_tx_def
        BitcoinTx_default_def demo_input_def demo_ts_def ThresholdSig_needs_sig_def)
  with recovery_sign_iff_answers [OF inv free, of "[demo_pk 2]" "demo_xpub33 2"] demo_cp_answers show ?thesis by auto
qed

text \<open>
  A recovery transaction spends the expired deposit for its whole value with the old signatory
  set and pays the value less the miner fee to the address of the same destination under the new
  set; a deposit too small for its fee and the dust limit gets a transaction without outputs.
\<close>

theorem recovery_pays_new_set:
  assumes "RecoveryTxs_create_recovery_tx L args rx = Ok rx'"
  shows "\<exists>t input fresh commitment script vsize expired. rx_txs rx' = rx_txs rx @ [t] \<and> rt_dest t = ri_dest args
    \<and> expired = tr_output (ri_expired_tx args) ! ri_vout args
    \<and> bt_input (rt_tx t) = [input] \<and> in_prevout input = (tx_txid L (ri_expired_tx args), ri_vout args)
    \<and> in_amount input = to_value expired \<and> in_sigset_index input = ss_index (ri_old_sigset args)
    \<and> Dest_commitment_bytes L (ri_dest args) = Ok commitment
    \<and> SignatorySet_output_script L (ri_new_sigset args) commitment (ri_threshold args) = Ok script
    \<and> Input_new L (in_prevout input) (ri_old_sigset args) commitment (to_value expired) (ri_threshold args) = Ok fresh
    \<and> input = fresh\<lparr>in_signatures := in_signatures input\<rparr>
    \<and> BitcoinTx_est_vsize L (BitcoinTx_default\<lparr>bt_input := [fresh],
         bt_output := [\<lparr>to_value = to_value expired, to_script_pubkey = script\<rparr>]\<rparr>) = Ok vsize
    \<and> bt_output (rt_tx t) =
        (let fee = ri_fee_rate args * vsize in
         if fee = 0 \<or> fee + dust_value L script < to_value expired
         then [\<lparr>to_value = to_value expired - fee, to_script_pubkey = script\<rparr>] else [])"
proof -
  let ?e = "tr_output (ri_expired_tx args) ! ri_vout args"
  from assms obtain c i s v tx1 tx2 where
    c: "Dest_commitment_bytes L (ri_dest args) = Ok c"
    and i: "Input_new L (tx_txid L (ri_expired_tx args), ri_vout args) (ri_old_sigset args) c (to_value ?e) (ri_threshold args) = Ok i"
    and s: "SignatorySet_output_script L (ri_new_sigset args) c (ri_threshold args) = Ok s"
    and v: "BitcoinTx_est_vsize L (BitcoinTx_default\<lparr>bt_input := [i],
         bt_output := [\<lparr>to_value = to_value ?e, to_script_pubkey = s\<rparr>]\<rparr>) = Ok v"
    and fee: "ri_fee_rate args * v < 2 ^ 64"
    and d: "BitcoinTx_deduct_fee L (ri_fee_rate args * v)
      (BitcoinTx_default\<lparr>bt_input := [i], bt_output := [\<lparr>to_value = to_value ?e, to_script_pubkey = s\<rparr>]\<rparr>) = Ok tx1"
    and p: "BitcoinTx_populate_input_sig_message L 0 tx1 = Ok tx2"
    and rx': "rx' = rx\<lparr>rx_txs := rx_txs rx @ [\<lparr>rt_tx = tx2, rt_old_sigset_index = ss_index (ri_old_sigset args),
              rt_new_sigset_index = ss_index (ri_new_sigset args), rt_dest = ri_dest args\<rparr>]\<rparr>"
    unfolding RecoveryTxs_create_recovery_tx_def Let_def by auto
  have tx1: "bt_input tx1 = [i] \<and> bt_output tx1 = (let fee = ri_fee_rate args * v in
         if fee = 0 \<or> fee + dust_value L s < to_value ?e
         then [\<lparr>to_value = to_value ?e - fee, to_script_pubkey = s\<rparr>] else [])"
  proof (cases "ri_fee_rate args * v = 0")
    case True
    with d show ?thesis by (auto simp: BitcoinTx_deduct_fee_def Let_def)
  next
    case False
    with d fee show ?thesis by (subst (asm) deduct_fee_single) (auto simp: Let_def)
  qed
  with p obtain h where tx2: "bt_input tx2 = [i\<lparr>in_signatures := h\<rparr>]" "bt_output tx2 = bt_output tx1"
    by (auto simp: BitcoinTx_populate_input_sig_message_def Let_def)
  have "in_prevout i = (tx_txid L (ri_expired_tx args), ri_vout args)" "in_amount i = to_value ?e"
    "in_sigset_index i = ss_index (ri_old_sigset args)" using i by (auto simp: Input_new_def Let_def)
  then show ?thesis using c i s v tx1 tx2 rx' by (intro exI [of _ "\<lparr>rt_tx = tx2, rt_old_sigset_index = ss_index (ri_old_sigset args),
              rt_new_sigset_index = ss_index (ri_new_sigset args), rt_dest = ri_dest args\<rparr>"]
        exI [of _ "i\<lparr>in_signatures := h\<rparr>"] exI [of _ i] exI [of _ c] exI [of _ s] exI [of _ v] exI [of _ ?e]) simp
qed

definition demo_bridge_lib :: dest_lib where
  "demo_bridge_lib = tx_lib.extend demo_flat_lib
     \<lparr>dest_encode = dest_encode demo_dest_lib, pending_order = pending_order demo_dest_lib, sha256 = sha256 demo_dest_lib,
      encode_string8 = encode_string8 demo_dest_lib, encode_signer = encode_signer demo_dest_lib,
      encode_u64 = encode_u64 demo_dest_lib, parse_address = parse_address demo_dest_lib,
      parse_channel = Some, parse_port = Some\<rparr>"

lemma demo_bridge_sel [simp]:
  "tx_vsize (tx_lib.extend demo_flat_lib x) tx = 100" "tx_txid (tx_lib.extend demo_flat_lib x) tx = [1]"
  "segwit_signature_hash (tx_lib.extend demo_flat_lib x) tx i s a = Ok [7]" "dust_value (tx_lib.extend demo_flat_lib x) s = 10"
  "encode_slice (tx_lib.extend demo_flat_lib x) = Ok" "script_bytes (tx_lib.extend demo_flat_lib x) is = []"
  "to_v0_p2wsh (tx_lib.extend demo_flat_lib x) s = s" "arrange_outputs (tx_lib.extend demo_flat_lib x) = rev"
  "push_int (tx_lib.extend demo_flat_lib x) n = PushBytes []"
  by (simp_all add: demo_flat_lib_def script_lib.defs tx_lib.defs demo_keys_lib_def)

lemma demo_bridge_out: "SignatorySet_output_script (tx_lib.extend demo_flat_lib x) demo_small_ss d (9, 10) = Ok []"
  "SignatorySet_redeem_script (tx_lib.extend demo_flat_lib x) demo_small_ss d (9, 10) = Ok []"
  by (simp_all add: SignatorySet_output_script_def SignatorySet_redeem_script_def demo_small_ss_def
      SignatorySet_signature_threshold_def div_u_def Let_def)

lemma demo_bridge_input:
  "length d < 2 ^ 16 \<Longrightarrow> Input_new (tx_lib.extend demo_flat_lib x) op demo_small_ss d amount (9, 10)
     = Ok ((demo_fresh op amount)\<lparr>in_dest := d\<rparr>)"
  using demo_parts
  by (simp add: Input_new_def demo_bridge_out demo_fresh_def SignatorySet_est_witness_vsize_def)
    (simp add: demo_small_ss_def)

definition demo_recovery_input :: recovery_tx_input where
  "demo_recovery_input = \<lparr>ri_expired_tx = \<lparr>tr_version = 1, tr_lock_time = 0, tr_input = [],
       tr_output = [\<lparr>to_value = 100000, to_script_pubkey = []\<rparr>]\<rparr>,
     ri_vout = 0, ri_old_sigset = demo_small_ss, ri_new_sigset = demo_small_ss\<lparr>ss_index := 5\<rparr>,
     ri_threshold = (9, 10), ri_fee_rate = 50, ri_dest = NativeAccount (replicate 20 1)\<rparr>"

theorem recovery_pays_new_set_witness:
  "\<exists>rx' t. RecoveryTxs_create_recovery_tx demo_bridge_lib demo_recovery_input RecoveryTxs_new = Ok rx' \<and> rx_txs rx' = [t]
     \<and> bt_output (rt_tx t) = [\<lparr>to_value = 100000 - 50 * 218, to_script_pubkey = []\<rparr>]"
proof -
  let ?c = "0 # sha256 demo_dest_lib (0 # replicate 20 1)"
  have c: "Dest_commitment_bytes demo_bridge_lib (NativeAccount (replicate 20 1)) = Ok ?c" "length ?c < 2 ^ 16"
    by (simp_all add: Dest_commitment_bytes_def demo_bridge_lib_def demo_dest_lib_def tx_lib.defs)
  have out: "SignatorySet_output_script demo_bridge_lib (demo_small_ss\<lparr>ss_index := 5\<rparr>) d (9, 10) = Ok []" for d
    by (simp_all add: demo_bridge_lib_def SignatorySet_output_script_def SignatorySet_redeem_script_def demo_small_ss_def
      SignatorySet_signature_threshold_def div_u_def Let_def)
  have inp: "Input_new demo_bridge_lib op demo_small_ss ?c amount (9, 10) = Ok ((demo_fresh op amount)\<lparr>in_dest := ?c\<rparr>)" for op amount
    unfolding demo_bridge_lib_def by (rule demo_bridge_input [OF c(2)])
  have sel: "tx_vsize demo_bridge_lib tx = 100" "dust_value demo_bridge_lib s = 10" "segwit_signature_hash demo_bridge_lib tx i s a = Ok [7]" for tx s i a
    by (simp_all add: demo_bridge_lib_def)
  have size: "BitcoinTx_est_vsize demo_bridge_lib (BitcoinTx_default\<lparr>bt_input := [(demo_fresh op a)\<lparr>in_dest := d\<rparr>], bt_output := outs\<rparr>) = Ok 218"
    for op a d outs
    by (simp add: BitcoinTx_est_vsize_def BitcoinTx_to_bitcoin_tx_def Input_to_txin_def demo_fresh_def ThresholdSig_to_witness_def
        ThresholdSig_signed_def witness_vsizes_def add_w_def sel)
  obtain rx' where r: "RecoveryTxs_create_recovery_tx demo_bridge_lib demo_recovery_input RecoveryTxs_new = Ok rx'"
    by (simp add: RecoveryTxs_create_recovery_tx_def demo_recovery_input_def c out inp size Let_def mul_w_def)
      (simp add: deduct_fee_single sel BitcoinTx_populate_input_sig_message_def BitcoinTx_to_bitcoin_tx_def Input_to_txin_def
        demo_fresh_def ThresholdSig_to_witness_def ThresholdSig_signed_def Let_def)
  obtain t v fresh script where t: "rx_txs rx' = [t]" "SignatorySet_output_script demo_bridge_lib (demo_small_ss\<lparr>ss_index := 5\<rparr>) ?c (9, 10) = Ok script"
    "Input_new demo_bridge_lib (tx_txid demo_bridge_lib (ri_expired_tx demo_recovery_input), 0) demo_small_ss ?c 100000 (9, 10) = Ok fresh"
    "BitcoinTx_est_vsize demo_bridge_lib (BitcoinTx_default\<lparr>bt_input := [fresh], bt_output := [\<lparr>to_value = 100000, to_script_pubkey = script\<rparr>]\<rparr>) = Ok v"
    "bt_output (rt_tx t) = (let fee = 50 * v in if fee = 0 \<or> fee + 10 < 100000
       then [\<lparr>to_value = 100000 - fee, to_script_pubkey = script\<rparr>] else [])"
    using recovery_pays_new_set [OF r] by (auto simp: RecoveryTxs_new_def demo_recovery_input_def c sel)
  from t(2) out have "script = []" by simp
  moreover from t(3) inp have "fresh = (demo_fresh (tx_txid demo_bridge_lib (ri_expired_tx demo_recovery_input), 0) 100000)\<lparr>in_dest := ?c\<rparr>" by simp
  then have "v = 218" using t(4) size by simp
  ultimately show ?thesis using r t(1,5) by (intro exI [of _ rx'] exI [of _ t]) simp
qed

end
