(* ===== verification/Signatory_Keys.thy ===== *)
theory Signatory_Keys
  imports Signatory Outpoint_Set
begin

text \<open>
  The registry of signatory keys (\<open>SignatoryKeys\<close> in src/src/bitcoin/mod.rs): the extended public
  key each validator declared, and the set of all keys ever declared, normalised so that the same
  key at another place of a derivation tree is recognised. A map stores an entry under the encoding
  of its key; the encoding of extended keys, \<open>ExtendedPubKey::encode\<close> of the bitcoin crate, is the
  parameter \<open>enc\<close>.
\<close>

section \<open>Networks\<close>

text \<open>With the default features the network is the test network.\<close>

definition NETWORK :: network where "NETWORK = Testnet"

definition matches_bitcoin_network :: "network \<Rightarrow> bool" where
  "matches_bitcoin_network net =
     (case NETWORK of
        Bitcoin_net \<Rightarrow> net = NETWORK
      | Regtest \<Rightarrow> net = Regtest \<or> net = Testnet
      | Testnet \<Rightarrow> net = Testnet \<or> net = Signet
      | Signet \<Rightarrow> net = Testnet \<or> net = Signet)"

section \<open>The registry\<close>

record signatory_keys =
  sk_by_cons :: "(consensus_key \<times> xpub) list"
  sk_xpubs :: "(bytes \<times> unit) list"

definition SignatoryKeys_default :: signatory_keys where
  "SignatoryKeys_default = \<lparr>sk_by_cons = [], sk_xpubs = []\<rparr>"

definition normalized_xpub :: "xpub \<Rightarrow> xpub" where
  "normalized_xpub xpub = xpub\<lparr>xp_child_number := 0, xp_depth := 0, xp_parent_fingerprint := replicate 4 0\<rparr>"

definition SignatoryKeys_reset :: "(xpub \<Rightarrow> bytes) \<Rightarrow> signatory_keys \<Rightarrow> signatory_keys" where
  "SignatoryKeys_reset enc sk =
     (let xpubs = map snd (sk_by_cons sk) in
      sk\<lparr>sk_xpubs := fold (\<lambda>xpub m. omap_remove (enc xpub) m) xpubs (sk_xpubs sk),
         sk_by_cons := clear_map (sk_by_cons sk)\<rparr>)"

definition SignatoryKeys_map :: "signatory_keys \<Rightarrow> (consensus_key \<times> xpub) list" where
  "SignatoryKeys_map sk = sk_by_cons sk"

definition SignatoryKeys_insert ::
  "(xpub \<Rightarrow> bytes) \<Rightarrow> consensus_key \<Rightarrow> xpub \<Rightarrow> signatory_keys \<Rightarrow> signatory_keys result" where
  "SignatoryKeys_insert enc consensus_key xpub sk =
     (let normalized = normalized_xpub xpub in
      if omap_contains (enc normalized) (sk_xpubs sk) then Err (App ''Duplicate signatory key'')
      else Ok (sk\<lparr>sk_by_cons := omap_insert (\<lambda>k. k) consensus_key xpub (sk_by_cons sk),
                  sk_xpubs := omap_insert (\<lambda>k. k) (enc normalized) () (sk_xpubs sk)\<rparr>))"

definition SignatoryKeys_get :: "signatory_keys \<Rightarrow> consensus_key \<Rightarrow> xpub option" where
  "SignatoryKeys_get sk cons_key = map_of (sk_by_cons sk) cons_key"

section \<open>The invariant\<close>

definition seen :: "signatory_keys \<Rightarrow> bytes set" where
  "seen sk = dom (map_of (sk_xpubs sk))"

text \<open>Every declared key is recorded in normal form, and no two validators share a normal form.\<close>

definition sk_inv :: "(xpub \<Rightarrow> bytes) \<Rightarrow> signatory_keys \<Rightarrow> bool" where
  "sk_inv enc sk \<longleftrightarrow> omap_inv (\<lambda>k. k) (sk_by_cons sk)
     \<and> (\<forall>(c, x) \<in> set (sk_by_cons sk). enc (normalized_xpub x) \<in> seen sk)
     \<and> (\<forall>(c, x) \<in> set (sk_by_cons sk). \<forall>(c', x') \<in> set (sk_by_cons sk).
          enc (normalized_xpub x) = enc (normalized_xpub x') \<longrightarrow> c = c')"

lemma SignatoryKeys_insert_Ok:
  "SignatoryKeys_insert enc c x sk = Ok sk' \<longleftrightarrow> enc (normalized_xpub x) \<notin> seen sk
     \<and> sk' = sk\<lparr>sk_by_cons := omap_insert (\<lambda>k. k) c x (sk_by_cons sk),
                sk_xpubs := omap_insert (\<lambda>k. k) (enc (normalized_xpub x)) () (sk_xpubs sk)\<rparr>"
  by (auto simp: SignatoryKeys_insert_def omap_contains_def seen_def Let_def)

lemma seen_insert:
  "SignatoryKeys_insert enc c x sk = Ok sk' \<Longrightarrow> seen sk' = insert (enc (normalized_xpub x)) (seen sk)"
  by (auto simp: SignatoryKeys_insert_Ok seen_def)

lemma sk_inv_default [simp]: "sk_inv enc SignatoryKeys_default"
  by (simp add: sk_inv_def SignatoryKeys_default_def)

lemma sk_inv_insert:
  assumes "sk_inv enc sk" and "SignatoryKeys_insert enc c x sk = Ok sk'"
  shows "sk_inv enc sk'"
proof -
  let ?n = "enc (normalized_xpub x)"
  have new: "?n \<notin> seen sk" and sk': "sk_by_cons sk' = omap_insert (\<lambda>k. k) c x (sk_by_cons sk)"
    using assms(2) by (auto simp: SignatoryKeys_insert_Ok)
  have sub: "set (sk_by_cons sk') \<subseteq> insert (c, x) (set (sk_by_cons sk))"
    unfolding sk' by (rule set_omap_insert_subset)
  have old: "\<And>c' x'. (c', x') \<in> set (sk_by_cons sk) \<Longrightarrow> enc (normalized_xpub x') \<in> seen sk"
    using assms(1) by (auto simp: sk_inv_def)
  have "omap_inv (\<lambda>k. k) (sk_by_cons sk')" using assms(1) by (simp add: sk' sk_inv_def omap_inv_insert)
  moreover have "\<forall>(c', x') \<in> set (sk_by_cons sk'). enc (normalized_xpub x') \<in> seen sk'"
    using sub old seen_insert [OF assms(2)] by auto
  moreover have "\<forall>(c1, x1) \<in> set (sk_by_cons sk'). \<forall>(c2, x2) \<in> set (sk_by_cons sk').
      enc (normalized_xpub x1) = enc (normalized_xpub x2) \<longrightarrow> c1 = c2"
  proof clarify
    fix c1 x1 c2 x2 assume "(c1, x1) \<in> set (sk_by_cons sk')" "(c2, x2) \<in> set (sk_by_cons sk')"
      and eq: "enc (normalized_xpub x1) = enc (normalized_xpub x2)"
    then have "(c1, x1) = (c, x) \<or> (c1, x1) \<in> set (sk_by_cons sk)" "(c2, x2) = (c, x) \<or> (c2, x2) \<in> set (sk_by_cons sk)"
      using sub by auto
    then consider "(c1, x1) = (c, x)" "(c2, x2) = (c, x)" | "(c1, x1) = (c, x)" "(c2, x2) \<in> set (sk_by_cons sk)"
      | "(c1, x1) \<in> set (sk_by_cons sk)" "(c2, x2) = (c, x)" | "(c1, x1) \<in> set (sk_by_cons sk)" "(c2, x2) \<in> set (sk_by_cons sk)"
      by blast
    then show "c1 = c2"
    proof cases
      case 4
      then show ?thesis using assms(1) eq unfolding sk_inv_def by blast
    qed (use old new eq in fastforce)+
  qed
  ultimately show ?thesis by (simp add: sk_inv_def)
qed

text \<open>A registration is a guarded insertion into the set of normal forms.\<close>

interpretation keys: replay_guard "\<lambda>sk n. n \<in> seen sk"
  "\<lambda>n (c, x) sk. sk\<lparr>sk_by_cons := omap_insert (\<lambda>k. k) c x (sk_by_cons sk),
     sk_xpubs := omap_insert (\<lambda>k. k) n () (sk_xpubs sk)\<rparr>"
  by unfold_locales (auto simp: seen_def split: prod.splits)

lemma SignatoryKeys_insert_guarded:
  "SignatoryKeys_insert enc c x sk = Ok sk' \<longleftrightarrow> keys.guarded sk (enc (normalized_xpub x), (c, x)) = Ok sk'"
  by (simp add: SignatoryKeys_insert_Ok keys.guarded_Ok)

lemma insert_run_guarded:
  "fold_result (\<lambda>sk (c, x). SignatoryKeys_insert enc c x sk) sk calls = Ok sk'
   \<Longrightarrow> fold_result keys.guarded sk (map (\<lambda>(c, x). (enc (normalized_xpub x), (c, x))) calls) = Ok sk'"
  by (induction calls arbitrary: sk) (auto simp: SignatoryKeys_insert_guarded)

section \<open>Properties\<close>

text \<open>
  C19: over any sequence of registrations from an empty registry, no key is accepted twice in any
  form, no two validators hold the same key up to normalisation, and a validator's key is the last
  one it declared.
\<close>

theorem signatory_keys_unique:
  assumes "fold_result (\<lambda>sk (c, x). SignatoryKeys_insert enc c x sk) SignatoryKeys_default calls = Ok sk"
  shows "distinct (map (\<lambda>(c, x). enc (normalized_xpub x)) calls)
    \<and> (\<forall>c. SignatoryKeys_get sk c = map_of (rev calls) c)
    \<and> (\<forall>c c' x x'. SignatoryKeys_get sk c = Some x \<longrightarrow> SignatoryKeys_get sk c' = Some x'
         \<longrightarrow> enc (normalized_xpub x) = enc (normalized_xpub x') \<longrightarrow> c = c')"
proof -
  have "distinct (map fst (map (\<lambda>(c, x). (enc (normalized_xpub x), (c, x))) calls))"
    using keys.guarded_run [OF insert_run_guarded [OF assms]] by blast
  then have "distinct (map (\<lambda>(c, x). enc (normalized_xpub x)) calls)" by (simp add: split_def comp_def)
  moreover have "map_of (sk_by_cons sk) = map_of (sk_by_cons sk0) ++ map_of (rev calls)"
    if "fold_result (\<lambda>sk (c, x). SignatoryKeys_insert enc c x sk) sk0 calls = Ok sk" for sk0
    using that
  proof (induction calls arbitrary: sk0)
    case (Cons cx calls)
    then obtain c x sk1 where "cx = (c, x)" "SignatoryKeys_insert enc c x sk0 = Ok sk1"
      "fold_result (\<lambda>sk (c, x). SignatoryKeys_insert enc c x sk) sk1 calls = Ok sk" by (cases cx) auto
    then show ?case using Cons.IH by (auto simp: SignatoryKeys_insert_Ok map_add_def fun_eq_iff split: option.splits)
  qed simp
  from this [OF assms] have "SignatoryKeys_get sk c = map_of (rev calls) c" for c
    by (simp add: SignatoryKeys_get_def SignatoryKeys_default_def)
  moreover have inv: "sk_inv enc sk"
    by (rule fold_result_invariant [OF assms, where P = "sk_inv enc"]) (auto intro: sk_inv_insert)
  have "c = c'" if "SignatoryKeys_get sk c = Some x" "SignatoryKeys_get sk c' = Some x'"
    "enc (normalized_xpub x) = enc (normalized_xpub x')" for c c' x x'
    using inv that unfolding sk_inv_def SignatoryKeys_get_def by (blast dest: map_of_SomeD)
  ultimately show ?thesis by blast
qed

theorem signatory_keys_unique_witness:
  "\<exists>sk. fold_result (\<lambda>sk (c, x). SignatoryKeys_insert xp_public_key c x sk) SignatoryKeys_default
        [([1], demo_xpub 1), ([2], demo_xpub 2), ([1], demo_xpub 3)] = Ok sk
     \<and> SignatoryKeys_get sk [1] = Some (demo_xpub 3)"
proof -
  let ?calls = "[([1], demo_xpub 1), ([2], demo_xpub 2), ([1], demo_xpub 3)] :: (consensus_key \<times> xpub) list"
  have "is_ok (fold_result (\<lambda>sk (c, x). SignatoryKeys_insert xp_public_key c x sk) SignatoryKeys_default ?calls)"
    by (simp add: SignatoryKeys_insert_def SignatoryKeys_default_def omap_contains_def normalized_xpub_def demo_xpub_def)
  then obtain sk where sk: "fold_result (\<lambda>sk (c, x). SignatoryKeys_insert xp_public_key c x sk) SignatoryKeys_default ?calls = Ok sk"
    unfolding is_ok_iff by blast
  from signatory_keys_unique [OF sk] have "SignatoryKeys_get sk [1] = map_of (rev ?calls) [1]" by blast
  then have "SignatoryKeys_get sk [1] = Some (demo_xpub 3)" by simp
  with sk show ?thesis by blast
qed

text \<open>
  \<open>reset\<close> empties the map of validators but forgets a normal form only where it is also the
  encoding of a declared key: a key declared at a non-zero depth can never be declared again.
\<close>

theorem reset_keeps_normal_forms:
  assumes "SignatoryKeys_insert enc c x SignatoryKeys_default = Ok sk" and "enc x \<noteq> enc (normalized_xpub x)"
  shows "sk_by_cons (SignatoryKeys_reset enc sk) = []
    \<and> SignatoryKeys_insert enc c' x (SignatoryKeys_reset enc sk) = Err (App ''Duplicate signatory key'')"
  using assms by (auto simp: SignatoryKeys_insert_def SignatoryKeys_reset_def SignatoryKeys_default_def omap_contains_def
      omap_remove_def Let_def)

theorem reset_keeps_normal_forms_witness:
  "\<exists>sk. SignatoryKeys_insert (\<lambda>x. [if xp_depth x = 0 then 0 else 1] :: bytes) [1] ((demo_xpub 1)\<lparr>xp_depth := 3\<rparr>) SignatoryKeys_default = Ok sk
     \<and> \<not> is_ok (SignatoryKeys_insert (\<lambda>x. [if xp_depth x = 0 then 0 else 1] :: bytes) [1] ((demo_xpub 1)\<lparr>xp_depth := 3\<rparr>)
          (SignatoryKeys_reset (\<lambda>x. [if xp_depth x = 0 then 0 else 1] :: bytes) sk))"
proof -
  let ?enc = "\<lambda>x :: xpub. [if xp_depth x = 0 then 0 else 1] :: bytes" and ?x = "(demo_xpub 1)\<lparr>xp_depth := 3\<rparr>"
  obtain sk where sk: "SignatoryKeys_insert ?enc [1] ?x SignatoryKeys_default = Ok sk"
    by (simp add: SignatoryKeys_insert_def SignatoryKeys_default_def omap_contains_def Let_def)
  have "?enc ?x \<noteq> ?enc (normalized_xpub ?x)" by (simp add: normalized_xpub_def)
  from reset_keeps_normal_forms [OF sk this, of "[1]"] sk show ?thesis by auto
qed

end
