(* ===== verification/Bitcoin_Module.thy ===== *)
theory Bitcoin_Module
  imports Checkpoint_Queue Recovery Signatory_Keys
begin

text \<open>
  The bridge itself (\<open>Bitcoin\<close> in src/src/bitcoin/mod.rs): its configuration and state, and every
  operation on it but \<open>change_rates\<close>, which computes in floating point. Coins, accounts and the
  validator plugin of orga, and the Merkle proofs of the bitcoin crate, are the parameters of
  \<open>btc_lib\<close>. Amounts of nBTC are in units, \<open>units_per_sat\<close> to the satoshi.
\<close>

section \<open>Configuration\<close>

record bitcoin_config =
  bf_min_withdrawal_checkpoints :: u32
  bf_min_deposit_amount :: u64
  bf_min_withdrawal_amount :: u64
  bf_max_withdrawal_amount :: u64
  bf_max_withdrawal_script_length :: u64
  bf_transfer_fee :: u64
  bf_min_confirmations :: u32
  bf_units_per_sat :: u64
  bf_max_offline_checkpoints :: u32
  bf_min_checkpoint_confirmations :: u32
  bf_capacity_limit :: u64
  bf_max_deposit_age :: u64
  bf_fee_pool_target_balance :: u64
  bf_fee_pool_reward_split :: "u64 \<times> u64"

definition BitcoinConfig_bitcoin :: bitcoin_config where
  "BitcoinConfig_bitcoin =
     \<lparr>bf_min_withdrawal_checkpoints = 4, bf_min_deposit_amount = 600, bf_min_withdrawal_amount = 600,
      bf_max_withdrawal_amount = 64, bf_max_withdrawal_script_length = 64, bf_transfer_fee = 1000000,
      bf_min_confirmations = 1, bf_units_per_sat = 1000000, bf_max_offline_checkpoints = 20,
      bf_min_checkpoint_confirmations = 0, bf_capacity_limit = 100 * 100000000,
      bf_max_deposit_age = 60 * 60 * 24 * 5, bf_fee_pool_target_balance = 100000000,
      bf_fee_pool_reward_split = (1, 10)\<rparr>"

definition BitcoinConfig_regtest :: bitcoin_config where
  "BitcoinConfig_regtest = BitcoinConfig_bitcoin
     \<lparr>bf_min_withdrawal_checkpoints := 1, bf_max_offline_checkpoints := 1, bf_min_confirmations := 0,
      bf_fee_pool_target_balance := 10000000\<rparr>"

definition BitcoinConfig_default :: bitcoin_config where
  "BitcoinConfig_default = (case NETWORK of Regtest \<Rightarrow> BitcoinConfig_regtest | _ \<Rightarrow> BitcoinConfig_bitcoin)"

text \<open>The fields of version 3, in order; the last three are new in version 4.\<close>

definition BitcoinConfig_migrate_from ::
  "u32 \<Rightarrow> u64 \<Rightarrow> u64 \<Rightarrow> u64 \<Rightarrow> u64 \<Rightarrow> u64 \<Rightarrow> u32 \<Rightarrow> u64 \<Rightarrow> u32 \<Rightarrow> u32 \<Rightarrow> u64 \<Rightarrow> bitcoin_config" where
  "BitcoinConfig_migrate_from min_withdrawal_checkpoints min_deposit_amount min_withdrawal_amount max_withdrawal_amount
       max_withdrawal_script_length transfer_fee min_confirmations units_per_sat max_offline_checkpoints
       min_checkpoint_confirmations capacity_limit =
     \<lparr>bf_min_withdrawal_checkpoints = min_withdrawal_checkpoints, bf_min_deposit_amount = min_deposit_amount,
      bf_min_withdrawal_amount = min_withdrawal_amount, bf_max_withdrawal_amount = max_withdrawal_amount,
      bf_max_withdrawal_script_length = max_withdrawal_script_length, bf_transfer_fee = transfer_fee,
      bf_min_confirmations = min_confirmations, bf_units_per_sat = units_per_sat,
      bf_max_offline_checkpoints = max_offline_checkpoints,
      bf_min_checkpoint_confirmations = min_checkpoint_confirmations, bf_capacity_limit = capacity_limit,
      bf_max_deposit_age = bf_max_deposit_age BitcoinConfig_default,
      bf_fee_pool_target_balance = bf_fee_pool_target_balance BitcoinConfig_default,
      bf_fee_pool_reward_split = bf_fee_pool_reward_split BitcoinConfig_default\<rparr>"

definition calc_bridge_deposit_fee :: "u64 \<Rightarrow> u64" where
  "calc_bridge_deposit_fee amount = amount div 100"

section \<open>State\<close>

type_synonym accounts = "address \<Rightarrow> u64"

record bitcoin =
  bc_headers :: header_queue
  bc_processed_outpoints :: outpoint_set
  bc_checkpoints :: checkpoint_queue
  bc_accounts :: accounts
  bc_signatory_keys :: signatory_keys
  bc_reward_pool :: u64
  bc_fee_pool :: int
  bc_recovery_scripts :: "(address \<times> bytes) list"
  bc_config :: bitcoin_config
  bc_recovery_txs :: recovery_txs

definition Bitcoin_migrate_from ::
  "header_queue \<Rightarrow> outpoint_set \<Rightarrow> checkpoint_queue \<Rightarrow> accounts \<Rightarrow> signatory_keys \<Rightarrow> u64
     \<Rightarrow> (address \<times> bytes) list \<Rightarrow> bitcoin_config \<Rightarrow> bitcoin" where
  "Bitcoin_migrate_from headers processed_outpoints checkpoints accounts keys reward_pool recovery_scripts config =
     \<lparr>bc_headers = headers, bc_processed_outpoints = processed_outpoints, bc_checkpoints = checkpoints,
      bc_accounts = accounts, bc_signatory_keys = keys, bc_reward_pool = reward_pool, bc_fee_pool = 0,
      bc_recovery_scripts = recovery_scripts, bc_config = config, bc_recovery_txs = RecoveryTxs_new\<rparr>"

text \<open>
  The parameters: a partial Merkle tree yields its root and the ids it matches; \<open>coin_take have n\<close>
  splits a coin into what is taken and what is left; \<open>amount_add\<close> adds amounts; \<open>acc_withdraw\<close> and
  \<open>acc_deposit\<close> move coins between an account and the caller.
\<close>

record btc_lib = dest_lib +
  extract_matches :: "bytes \<Rightarrow> (bytes \<times> bytes list) option"
  is_op_return :: "bytes \<Rightarrow> bool"
  xpub_encode :: "xpub \<Rightarrow> bytes"
  validator_entries :: "validator_entry list option \<Rightarrow> validator_entry list result"
  consensus_key_of :: "validator_entry list option \<Rightarrow> address \<Rightarrow> consensus_key option result"
  coin_take :: "u64 \<Rightarrow> u64 \<Rightarrow> (u64 \<times> u64) result"
  coin_give :: "u64 \<Rightarrow> u64 \<Rightarrow> u64 result"
  amount_add :: "u64 \<Rightarrow> u64 \<Rightarrow> u64 result"
  acc_withdraw :: "address \<Rightarrow> u64 \<Rightarrow> accounts \<Rightarrow> accounts result"
  acc_deposit :: "address \<Rightarrow> u64 \<Rightarrow> accounts \<Rightarrow> accounts result"
  paid_take :: "u64 \<Rightarrow> u64 result"

text \<open>\<open>self.context::<Signer>()...\<close> of the calls that must be signed.\<close>

definition call_signer :: "ctx \<Rightarrow> address result" where
  "call_signer C =
     rbind (ok_or (App ''No Signer context available'') (cx_signer C)) (ok_or (App ''Call must be signed''))"

definition accounts_withdraw :: "'m btc_lib_scheme \<Rightarrow> address \<Rightarrow> u64 \<Rightarrow> (bitcoin, u64) call" where
  "accounts_withdraw L addr amount =
     cbind (reads (\<lambda>s. acc_withdraw L addr amount (bc_accounts s))) (\<lambda>accounts.
     cbind (modify (bc_accounts_update (\<lambda>_. accounts))) (\<lambda>_.
     lift_result (Ok amount)))"

definition accounts_deposit :: "'m btc_lib_scheme \<Rightarrow> address \<Rightarrow> u64 \<Rightarrow> (bitcoin, unit) call" where
  "accounts_deposit L addr coins =
     cbind (reads (\<lambda>s. acc_deposit L addr coins (bc_accounts s))) (\<lambda>accounts.
     modify (bc_accounts_update (\<lambda>_. accounts)))"

definition reward_pool_give :: "'m btc_lib_scheme \<Rightarrow> u64 \<Rightarrow> (bitcoin, unit) call" where
  "reward_pool_give L coins =
     cbind (reads (\<lambda>s. coin_give L (bc_reward_pool s) coins)) (\<lambda>pool.
     modify (bc_reward_pool_update (\<lambda>_. pool)))"

text \<open>What is done through \<open>building_mut\<close>, with the value computed on the way.\<close>

definition building_mut :: "(checkpoint \<Rightarrow> (checkpoint \<times> 'a) result) \<Rightarrow> (bitcoin, 'a) call" where
  "building_mut f =
     cbind (reads (\<lambda>s. CheckpointQueue_get_mut (bc_checkpoints s) (cq_index (bc_checkpoints s)) f)) (\<lambda>(q, a).
     cbind (modify (bc_checkpoints_update (\<lambda>_. q))) (\<lambda>_.
     lift_result (Ok a)))"

text \<open>The edit of the first transaction of the checkpoint batch.\<close>

definition edit_checkpoint_tx :: "(bitcoin_tx \<Rightarrow> bitcoin_tx) \<Rightarrow> checkpoint \<Rightarrow> (checkpoint \<times> unit) result" where
  "edit_checkpoint_tx f cp =
     rbind (get_batch Checkpoint_batch cp) (\<lambda>b.
     rbind (get_tx b) (\<lambda>tx.
     Ok (set_batch Checkpoint_batch (set_tx (f tx) b) cp, ())))"

section \<open>Fees and rewards\<close>

definition Bitcoin_give_miner_fee :: "u64 \<Rightarrow> (bitcoin, unit) call" where
  "Bitcoin_give_miner_fee amount =
     cbind (reads (\<lambda>s. add_i64 (bc_fee_pool s) (as_i64 amount))) (\<lambda>pool.
     cbind (modify (bc_fee_pool_update (\<lambda>_. pool))) (\<lambda>_.
     cbind (reads (\<lambda>s. div_u amount (bf_units_per_sat (bc_config s)))) (\<lambda>sats.
     building_mut (\<lambda>cp. rbind (add_u64 (cp_fees_collected cp) sats) (\<lambda>fees.
       Ok (cp\<lparr>cp_fees_collected := fees\<rparr>, ()))))))"

definition Bitcoin_give_rewards :: "'m btc_lib_scheme \<Rightarrow> u64 \<Rightarrow> (bitcoin, unit) call" where
  "Bitcoin_give_rewards L amount s =
     cbind (reads (\<lambda>s. mul_u64 (bf_fee_pool_target_balance (bc_config s)) (bf_units_per_sat (bc_config s)))) (\<lambda>target.
     if bc_fee_pool s < as_i64 target then
       let split = bf_fee_pool_reward_split (bc_config s) in
       cbind (lift_result (div_u (amount * fst split) (snd split))) (\<lambda>share.
       let reward_amount = share mod 2 ^ 64 in
       cbind (lift_result (sub_u amount reward_amount)) (\<lambda>fee_amount.
       cbind (reward_pool_give L reward_amount) (\<lambda>_.
       cbind (Bitcoin_give_miner_fee fee_amount) (\<lambda>_.
       cbind (lift_result (add_u64 reward_amount fee_amount)) (\<lambda>total.
       lift_result (if total = amount then Ok () else Err Panic))))))
     else reward_pool_give L amount) s"

definition Bitcoin_insert_pending :: "'m btc_lib_scheme \<Rightarrow> dest \<Rightarrow> u64 \<Rightarrow> identity \<Rightarrow> (bitcoin, unit) call" where
  "Bitcoin_insert_pending L dest coins sender =
     cbind (building_mut (\<lambda>cp. Ok (cp\<lparr>cp_pending := omap_remove (dest, sender) (cp_pending cp)\<rparr>,
              case map_of (cp_pending cp) (dest, sender) of None \<Rightarrow> 0 | Some amount \<Rightarrow> amount))) (\<lambda>amount.
     cbind (lift_result (amount_add L amount coins)) (\<lambda>amount.
     building_mut (\<lambda>cp. Ok (cp\<lparr>cp_pending := omap_insert (pending_order L) (dest, sender) amount (cp_pending cp)\<rparr>, ()))))"

section \<open>Keys and scripts\<close>

definition Bitcoin_configure :: "bitcoin_config \<Rightarrow> bitcoin \<Rightarrow> bitcoin" where
  "Bitcoin_configure config s = s\<lparr>bc_config := config\<rparr>"

definition Bitcoin_set_signatory_key :: "'m btc_lib_scheme \<Rightarrow> ctx \<Rightarrow> xpub \<Rightarrow> (bitcoin, unit) call" where
  "Bitcoin_set_signatory_key L C signatory_key =
     cbind (lift_result (call_signer C)) (\<lambda>signer.
     cbind (lift_result (ok_or (App ''No validator context found'') (cx_validators C))) (\<lambda>validators.
     cbind (lift_result (consensus_key_of L validators signer)) (\<lambda>key.
     cbind (lift_result (ok_or (App ''Signer does not have a consensus key'') key)) (\<lambda>consensus_key.
     if \<not> matches_bitcoin_network (xp_network signatory_key)
     then lift_result (Err (App ''Signatory key network does not match network''))
     else
     cbind (reads (\<lambda>s. SignatoryKeys_insert (xpub_encode L) consensus_key signatory_key (bc_signatory_keys s))) (\<lambda>keys.
     modify (bc_signatory_keys_update (\<lambda>_. keys)))))))"

definition Bitcoin_set_recovery_script :: "ctx \<Rightarrow> bytes \<Rightarrow> (bitcoin, unit) call" where
  "Bitcoin_set_recovery_script C signatory_script s =
     (if length signatory_script > bf_max_withdrawal_script_length (bc_config s)
      then (Err (App ''Script exceeds maximum length''), s)
      else cbind (lift_result (call_signer C)) (\<lambda>signer.
        modify (bc_recovery_scripts_update (omap_insert (\<lambda>k. k) signer signatory_script))) s)"

definition Bitcoin_should_push_checkpoint :: "'m btc_lib_scheme \<Rightarrow> ctx \<Rightarrow> bitcoin \<Rightarrow> bool result" where
  "Bitcoin_should_push_checkpoint L C s =
     CheckpointQueue_should_push L C (SignatoryKeys_map (bc_signatory_keys s)) (replicate 32 0)
       (HeaderQueue_height (bc_headers s)) (bc_checkpoints s)"

section \<open>Deposits\<close>

text \<open>\<open>input_size * fee_rate * user_fee_factor / 10_000 * units_per_sat\<close>\<close>

definition spending_fee :: "u64 \<Rightarrow> u64 \<Rightarrow> u64 \<Rightarrow> u64 \<Rightarrow> u64 result" where
  "spending_fee vsize fee_rate user_fee_factor units_per_sat =
     rbind (mul_u64 vsize fee_rate) (\<lambda>x.
     rbind (mul_u64 x user_fee_factor) (\<lambda>x.
     mul_u64 (x div 10000) units_per_sat))"

definition Bitcoin_amount_after_deposit_fee ::
  "'m btc_lib_scheme \<Rightarrow> transaction \<Rightarrow> u32 \<Rightarrow> u32 \<Rightarrow> dest \<Rightarrow> bitcoin \<Rightarrow> u64 result" where
  "Bitcoin_amount_after_deposit_fee L tx vout sigset_index dest s =
     (if \<not> vout < length (tr_output tx) then Err (App ''Output index is out of bounds'')
      else
      let output = tr_output tx ! vout; prevout = (tx_txid L tx, vout) in
      rbind (CheckpointQueue_get (bc_checkpoints s) sigset_index) (\<lambda>cp.
      rbind (Dest_commitment_bytes L dest) (\<lambda>commitment.
      rbind (Input_new L prevout (cp_sigset cp) commitment (to_value output)
               (cc_sigset_threshold (cq_config (bc_checkpoints s)))) (\<lambda>input.
      rbind (Input_est_vsize input) (\<lambda>input_size.
      rbind (mul_u64 (to_value output) (bf_units_per_sat (bc_config s))) (\<lambda>amount.
      rbind (spending_fee input_size (cp_fee_rate cp) (cc_user_fee_factor (cq_config (bc_checkpoints s)))
               (bf_units_per_sat (bc_config s))) (\<lambda>miner_fee_amount.
      if amount < miner_fee_amount then Err (App ''Deposit amount is too small to pay its spending fee'')
      else if Dest_is_fee_exempt L dest then Ok amount
      else if amount < calc_bridge_deposit_fee amount then Err (App ''Deposit amount is too small to pay its deposit fee'')
      else Ok (amount - calc_bridge_deposit_fee amount))))))))"

text \<open>
  The first checks of \<open>relay_deposit\<close> and \<open>relay_checkpoint\<close>: the block is known and confirmed, and
  the proof matches it. The result is the single matched transaction id.
\<close>

definition proven_txid :: "'m btc_lib_scheme \<Rightarrow> header_queue \<Rightarrow> u32 \<Rightarrow> u32 \<Rightarrow> bytes \<Rightarrow> bytes result" where
  "proven_txid L headers min_confirmations btc_height btc_proof =
     rbind (HeaderQueue_get_by_height headers btc_height) (\<lambda>header.
     rbind (ok_or (App ''Invalid bitcoin block height'') header) (\<lambda>btc_header.
     rbind (sub_u (HeaderQueue_height headers) btc_height) (\<lambda>confirmations.
     if confirmations < min_confirmations then Err (App ''Block is not sufficiently confirmed'')
     else
     rbind (ok_or BitcoinMerkleBlockError (extract_matches L btc_proof)) (\<lambda>(proof_merkle_root, txids).
     if proof_merkle_root \<noteq> WorkHeader_merkle_root btc_header
     then Err (App ''Bitcoin merkle proof does not match header'')
     else case txids of
       [txid] \<Rightarrow> Ok txid
     | _ \<Rightarrow> Err (App ''Bitcoin merkle proof contains an invalid number of txids'')))))"

text \<open>The commitment whose output script the deposit pays to: the current one, or the legacy one.\<close>

definition matching_commitment ::
  "'m btc_lib_scheme \<Rightarrow> signatory_set \<Rightarrow> u64 \<times> u64 \<Rightarrow> bytes \<Rightarrow> dest \<Rightarrow> bytes result" where
  "matching_commitment L sigset threshold script_pubkey dest =
     rbind (Dest_commitment_bytes L dest) (\<lambda>dest_bytes.
     rbind (SignatorySet_output_script L sigset dest_bytes threshold) (\<lambda>expected_script.
     if script_pubkey = expected_script then Ok dest_bytes
     else
     rbind (Dest_legacy_commitment_bytes L dest) (\<lambda>dest_bytes.
     rbind (SignatorySet_output_script L sigset dest_bytes threshold) (\<lambda>expected_script.
     if script_pubkey = expected_script then Ok dest_bytes
     else Err (App ''Output script does not match signer set'')))))"

text \<open>The last part of \<open>relay_deposit\<close>: the deposit becomes an input and its nBTC is minted.\<close>

definition mint_deposit ::
  "'m btc_lib_scheme \<Rightarrow> outpoint \<Rightarrow> u64 \<Rightarrow> checkpoint \<Rightarrow> bytes \<Rightarrow> dest \<Rightarrow> (bitcoin, unit) call" where
  "mint_deposit L prevout value checkpoint dest_bytes dest =
     cbind (reads (\<lambda>s. Input_new L prevout (cp_sigset checkpoint) dest_bytes value
              (cc_sigset_threshold (cq_config (bc_checkpoints s))))) (\<lambda>input.
     cbind (lift_result (Input_est_vsize input)) (\<lambda>input_size.
     cbind (reads (\<lambda>s. mul_u64 value (bf_units_per_sat (bc_config s)))) (\<lambda>nbtc.
     cbind (reads (\<lambda>s. spending_fee input_size (cp_fee_rate checkpoint)
              (cc_user_fee_factor (cq_config (bc_checkpoints s))) (bf_units_per_sat (bc_config s)))) (\<lambda>fee_amount.
     cbind (lift_result (map_err (\<lambda>_. App ''Deposit amount is too small to pay its spending fee'')
              (coin_take L nbtc fee_amount))) (\<lambda>(fee, nbtc).
     cbind (Bitcoin_give_miner_fee fee) (\<lambda>_.
     cbind (building_mut (edit_checkpoint_tx (\<lambda>tx. tx\<lparr>bt_input := bt_input tx @ [input]\<rparr>))) (\<lambda>_.
     cbind (if Dest_is_fee_exempt L dest then lift_result (Ok nbtc)
            else
            cbind (lift_result (coin_take L nbtc (calc_bridge_deposit_fee nbtc))) (\<lambda>(deposit_fee, nbtc).
            cbind (Bitcoin_insert_pending L RewardPool deposit_fee Identity_None) (\<lambda>_.
            lift_result (Ok nbtc)))) (\<lambda>nbtc.
     Bitcoin_insert_pending L dest nbtc Identity_None))))))))"

definition recover_deposit ::
  "'m btc_lib_scheme \<Rightarrow> transaction \<Rightarrow> u32 \<Rightarrow> signatory_set \<Rightarrow> dest \<Rightarrow> (bitcoin, unit) call" where
  "recover_deposit L btc_tx btc_vout sigset dest =
     cbind (reads (\<lambda>s. CheckpointQueue_building (bc_checkpoints s))) (\<lambda>building.
     cbind (reads (\<lambda>s. RecoveryTxs_create_recovery_tx L
              \<lparr>ri_expired_tx = btc_tx, ri_vout = btc_vout, ri_old_sigset = sigset, ri_new_sigset = cp_sigset building,
               ri_threshold = cc_sigset_threshold (cq_config (bc_checkpoints s)), ri_fee_rate = cp_fee_rate building,
               ri_dest = dest\<rparr> (bc_recovery_txs s))) (\<lambda>rx.
     modify (bc_recovery_txs_update (\<lambda>_. rx))))"

definition Bitcoin_relay_deposit ::
  "'m btc_lib_scheme \<Rightarrow> ctx \<Rightarrow> transaction \<Rightarrow> u32 \<Rightarrow> bytes \<Rightarrow> u32 \<Rightarrow> u32 \<Rightarrow> dest \<Rightarrow> (bitcoin, unit) call" where
  "Bitcoin_relay_deposit L C btc_tx btc_height btc_proof btc_vout sigset_index dest =
     cbind (lift_result (exempt_from_fee C)) (\<lambda>_.
     cbind (lift_result (ok_or (App ''No time context available'') (cx_time C))) (\<lambda>seconds.
     let now = as_u64 seconds in
     cbind (reads (\<lambda>s. proven_txid L (bc_headers s) (bf_min_confirmations (bc_config s)) btc_height btc_proof)) (\<lambda>txid.
     if txid \<noteq> tx_txid L btc_tx then lift_result (Err (App ''Bitcoin merkle proof does not match transaction''))
     else if btc_vout \<ge> length (tr_output btc_tx) then lift_result (Err (App ''Output index is out of bounds''))
     else
     let output = tr_output btc_tx ! btc_vout; outpoint = (tx_txid L btc_tx, btc_vout) in
     cbind (reads (\<lambda>s. if to_value output < bf_min_deposit_amount (bc_config s)
              then Err (App ''Deposit amount is below minimum'') else Ok ())) (\<lambda>_.
     cbind (reads (\<lambda>s. CheckpointQueue_get (bc_checkpoints s) sigset_index)) (\<lambda>checkpoint.
     let sigset = cp_sigset checkpoint in
     cbind (reads (\<lambda>s. matching_commitment L sigset (cc_sigset_threshold (cq_config (bc_checkpoints s)))
              (to_script_pubkey output) dest)) (\<lambda>dest_bytes.
     cbind (reads (\<lambda>s. if OutpointSet_contains (bc_processed_outpoints s) outpoint
              then Err (App ''Output has already been relayed'') else Ok ())) (\<lambda>_.
     cbind (reads (\<lambda>s. add_u64 (ss_create_time sigset) (bf_max_deposit_age (bc_config s)))) (\<lambda>deposit_timeout.
     cbind (modify (bc_processed_outpoints_update (OutpointSet_insert outpoint deposit_timeout))) (\<lambda>_.
     if \<not> cp_deposits_enabled checkpoint
     then lift_result (Err (App ''Deposits are disabled for the given checkpoint''))
     else if now > deposit_timeout then recover_deposit L btc_tx btc_vout sigset dest
     else mint_deposit L outpoint (to_value output) checkpoint dest_bytes dest)))))))))"

definition Bitcoin_relay_checkpoint ::
  "'m btc_lib_scheme \<Rightarrow> ctx \<Rightarrow> u32 \<Rightarrow> bytes \<Rightarrow> u32 \<Rightarrow> (bitcoin, unit) call" where
  "Bitcoin_relay_checkpoint L C btc_height btc_proof cp_index =
     cbind (lift_result (exempt_from_fee C)) (\<lambda>_.
     cbind (reads (\<lambda>s. case cq_confirmed_index (bc_checkpoints s) of
                None \<Rightarrow> Ok ()
              | Some conf_index \<Rightarrow> if cp_index \<le> conf_index then Err (App ''Checkpoint has already been relayed'') else Ok ())) (\<lambda>_.
     cbind (reads (\<lambda>s. proven_txid L (bc_headers s) (bf_min_checkpoint_confirmations (bc_config s)) btc_height btc_proof)) (\<lambda>txid.
     cbind (reads (\<lambda>s. CheckpointQueue_get (bc_checkpoints s) cp_index)) (\<lambda>cp.
     cbind (lift_result (Checkpoint_checkpoint_tx L cp)) (\<lambda>btc_tx.
     if txid \<noteq> tx_txid L btc_tx then lift_result (Err (App ''Bitcoin merkle proof does not match transaction''))
     else modify (bc_checkpoints_update (cq_confirmed_index_update (\<lambda>_. Some cp_index))))))))"

section \<open>Withdrawals and transfers\<close>

definition Bitcoin_withdrawal_fee_amount :: "u64 \<Rightarrow> bitcoin \<Rightarrow> u64 result" where
  "Bitcoin_withdrawal_fee_amount script_len s =
     rbind (add_u64 9 script_len) (\<lambda>vsize.
     rbind (CheckpointQueue_building (bc_checkpoints s)) (\<lambda>building.
     spending_fee vsize (cp_fee_rate building) (cc_user_fee_factor (cq_config (bc_checkpoints s)))
       (bf_units_per_sat (bc_config s))))"

definition Bitcoin_validate_withdrawal :: "'m btc_lib_scheme \<Rightarrow> bytes \<Rightarrow> u64 \<Rightarrow> bitcoin \<Rightarrow> unit result" where
  "Bitcoin_validate_withdrawal L script_pubkey amount s =
     (if length script_pubkey > bf_max_withdrawal_script_length (bc_config s) then Err (App ''Script exceeds maximum length'')
      else if is_op_return L script_pubkey then Err (App ''Script is an OP_RETURN'')
      else
      rbind (CheckpointQueue_len (bc_checkpoints s)) (\<lambda>len.
      if len < bf_min_withdrawal_checkpoints (bc_config s)
      then Err (App (''Withdrawals are disabled until the network has produced at least ''
             @ decimal (bf_min_withdrawal_checkpoints (bc_config s)) @ '' checkpoints''))
      else
      rbind (Bitcoin_withdrawal_fee_amount (length script_pubkey) s) (\<lambda>fee_amount.
      if fee_amount > amount then Err (App ''Withdrawal is too small to pay its miner fee'')
      else
      rbind (div_u amount (bf_units_per_sat (bc_config s))) (\<lambda>value.
      if value < bf_min_withdrawal_amount (bc_config s)
      then Err (App ''Withdrawal is smaller than than the minimum amount'')
      else if value \<le> dust_value L script_pubkey then Err (App ''Withdrawal is smaller than the dust limit'')
      else Ok ()))))"

definition Bitcoin_add_withdrawal :: "'m btc_lib_scheme \<Rightarrow> bytes \<Rightarrow> u64 \<Rightarrow> (bitcoin, unit) call" where
  "Bitcoin_add_withdrawal L script_pubkey coins =
     cbind (reads (Bitcoin_validate_withdrawal L script_pubkey coins)) (\<lambda>_.
     cbind (reads (Bitcoin_withdrawal_fee_amount (length script_pubkey))) (\<lambda>fee_amount.
     cbind (lift_result (map_err (\<lambda>_. App ''Withdrawal is too small to pay its miner fee'')
              (coin_take L coins fee_amount))) (\<lambda>(fee, coins).
     cbind (Bitcoin_give_miner_fee fee) (\<lambda>_.
     cbind (reads (\<lambda>s. div_u coins (bf_units_per_sat (bc_config s)))) (\<lambda>value.
     building_mut (edit_checkpoint_tx (\<lambda>tx. tx\<lparr>bt_output := bt_output tx @
       [\<lparr>to_value = value, to_script_pubkey = script_pubkey\<rparr>]\<rparr>)))))))"

definition Bitcoin_withdraw :: "'m btc_lib_scheme \<Rightarrow> ctx \<Rightarrow> bytes \<Rightarrow> u64 \<Rightarrow> (bitcoin, unit) call" where
  "Bitcoin_withdraw L C script_pubkey amount =
     cbind (lift_result (exempt_from_fee C)) (\<lambda>_.
     cbind (lift_result (call_signer C)) (\<lambda>signer.
     cbind (accounts_withdraw L signer amount) (\<lambda>coins.
     Bitcoin_add_withdrawal L script_pubkey coins)))"

definition Bitcoin_transfer :: "'m btc_lib_scheme \<Rightarrow> ctx \<Rightarrow> address \<Rightarrow> u64 \<Rightarrow> (bitcoin, unit) call" where
  "Bitcoin_transfer L C to amount s =
     cbind (lift_result (exempt_from_fee C)) (\<lambda>_.
     cbind (lift_result (call_signer C)) (\<lambda>signer.
     cbind (accounts_withdraw L signer (bf_transfer_fee (bc_config s))) (\<lambda>transfer_fee.
     cbind (Bitcoin_give_rewards L transfer_fee) (\<lambda>_.
     cbind (accounts_withdraw L signer amount) (\<lambda>coins.
     cbind (lift_result (Identity_from_signer C)) (\<lambda>sender.
     Bitcoin_insert_pending L (NativeAccount to) coins sender)))))) s"

definition Bitcoin_give_funding_to_fee_pool :: "'m btc_lib_scheme \<Rightarrow> ctx \<Rightarrow> u64 \<Rightarrow> (bitcoin, unit) call" where
  "Bitcoin_give_funding_to_fee_pool L C amount =
     cbind (lift_result (ok_or (Coins ''No Paid context found'') (cx_paid C))) (\<lambda>_.
     cbind (lift_result (paid_take L amount)) Bitcoin_give_miner_fee)"

definition Bitcoin_transfer_to_fee_pool :: "'m btc_lib_scheme \<Rightarrow> ctx \<Rightarrow> u64 \<Rightarrow> (bitcoin, unit) call" where
  "Bitcoin_transfer_to_fee_pool L C amount =
     cbind (reads (\<lambda>s. mul_u64 100 (bf_units_per_sat (bc_config s)))) (\<lambda>minimum.
     if amount < minimum then lift_result (Err (App ''Minimum transfer to fee pool is 100 sat''))
     else
     cbind (lift_result (exempt_from_fee C)) (\<lambda>_.
     cbind (lift_result (call_signer C)) (\<lambda>signer.
     cbind (accounts_withdraw L signer amount) Bitcoin_give_miner_fee)))"

section \<open>Checkpointing\<close>

definition Bitcoin_sign :: "'m btc_lib_scheme \<Rightarrow> ctx \<Rightarrow> xpub \<Rightarrow> signature list \<Rightarrow> u32 \<Rightarrow> (bitcoin, unit) call" where
  "Bitcoin_sign L C xpub sigs cp_index =
     cbind (reads (\<lambda>s. CheckpointQueue_sign L C xpub sigs cp_index (HeaderQueue_height (bc_headers s)) (bc_checkpoints s))) (\<lambda>q.
     modify (bc_checkpoints_update (\<lambda>_. q)))"

definition Bitcoin_value_locked :: "'m btc_lib_scheme \<Rightarrow> bitcoin \<Rightarrow> u64 result" where
  "Bitcoin_value_locked L s =
     rbind (CheckpointQueue_last_completed (bc_checkpoints s)) (\<lambda>cp.
     rbind (Checkpoint_reserve_output L cp) (\<lambda>out.
     rbind (unwrap out) (\<lambda>out. Ok (to_value out))))"

text \<open>\<open>if let Err(Error::Orga(OrgaError::App(err))) = self.checkpoints.last_completed_index()\<close>: the message.\<close>

definition last_completed_app_error :: "checkpoint_queue \<Rightarrow> string option result" where
  "last_completed_app_error q =
     (case CheckpointQueue_last_completed_index q of
        Err (App err) \<Rightarrow> Ok (Some err)
      | Err Panic \<Rightarrow> Err Panic
      | _ \<Rightarrow> Ok None)"

text \<open>Whether a signatory answered none of the given checkpoints.\<close>

fun answered_none :: "'m script_lib_scheme \<Rightarrow> xpub \<Rightarrow> checkpoint list \<Rightarrow> bool result" where
  "answered_none L xpub [] = Ok True"
| "answered_none L xpub (cp # cps) =
     rbind (Checkpoint_to_sign L xpub cp) (\<lambda>msgs. if msgs = [] then Ok False else answered_none L xpub cps)"

fun offline_loop ::
  "'m script_lib_scheme \<Rightarrow> signatory_keys \<Rightarrow> u64 \<Rightarrow> checkpoint list \<Rightarrow> validator_entry list \<Rightarrow> consensus_key list result" where
  "offline_loop L keys lowest_power completed [] = Ok []"
| "offline_loop L keys lowest_power completed (v # vs) =
     (if ve_power v < lowest_power then Ok []
      else case SignatoryKeys_get keys (ve_pubkey v) of
        None \<Rightarrow> offline_loop L keys lowest_power completed vs
      | Some xpub \<Rightarrow>
          rbind (answered_none L xpub (rev completed)) (\<lambda>offline.
          rbind (offline_loop L keys lowest_power completed vs) (\<lambda>rest.
          Ok (if offline then ve_pubkey v # rest else rest))))"

definition Bitcoin_offline_signers :: "'m btc_lib_scheme \<Rightarrow> ctx \<Rightarrow> bitcoin \<Rightarrow> consensus_key list result" where
  "Bitcoin_offline_signers L C s =
     rbind (ok_or (App ''No validator context found'') (cx_validators C)) (\<lambda>ctx.
     rbind (validator_entries L ctx) (\<lambda>entries.
     let validators = sort_key (\<lambda>v. - int (ve_power v)) entries;
         offline_threshold = bf_max_offline_checkpoints (bc_config s) in
     rbind (CheckpointQueue_active_sigset (bc_checkpoints s)) (\<lambda>sigset.
     if ss_signatories sigset = [] then Err Panic
     else
     let lowest_power = sg_voting_power (last (ss_signatories sigset)) in
     rbind (CheckpointQueue_completed (bc_checkpoints s) offline_threshold) (\<lambda>completed.
     if length completed < offline_threshold then Ok []
     else offline_loop L (bc_signatory_keys s) lowest_power completed validators))))"

definition Bitcoin_begin_block_step ::
  "'h header_lib_scheme \<Rightarrow> 'm btc_lib_scheme \<Rightarrow> ctx \<Rightarrow> txout result list \<Rightarrow> bytes \<Rightarrow> (bitcoin, consensus_key list) call" where
  "Bitcoin_begin_block_step H L C external_outputs timestamping_commitment =
     cbind (reads (\<lambda>s. last_completed_app_error (bc_checkpoints s))) (\<lambda>err.
     cbind (lift_result (case err of None \<Rightarrow> Ok True
              | Some err \<Rightarrow> if err = ''No completed checkpoints yet'' then Ok False else Err (App err))) (\<lambda>has_completed_cp.
     cbind (reads (\<lambda>s. if has_completed_cp
              then rbind (Bitcoin_value_locked L s) (\<lambda>v. Ok (v \<ge> bf_capacity_limit (bc_config s)))
              else Ok False)) (\<lambda>reached_capacity_limit.
     cbind (reads (\<lambda>s. map_err (app_error H) (CheckpointQueue_maybe_step H L C (SignatoryKeys_map (bc_signatory_keys s))
              (bc_accounts s) (bc_recovery_scripts s) external_outputs (HeaderQueue_height (bc_headers s))
              (\<not> reached_capacity_limit) timestamping_commitment (bc_fee_pool s) (bf_units_per_sat (bc_config s))
              (bc_checkpoints s)))) (\<lambda>(pushed, q, pool).
     cbind (modify (\<lambda>s. s\<lparr>bc_checkpoints := q, bc_fee_pool := pool\<rparr>)) (\<lambda>_.
     if pushed then reads (Bitcoin_offline_signers L C) else lift_result (Ok []))))))"

text \<open>The loop of \<open>take_pending\<close> over the keys.\<close>

fun drain_pending :: "(dest \<times> identity) list \<Rightarrow> pending_map \<Rightarrow> ((dest \<times> u64 \<times> identity) list \<times> pending_map) result" where
  "drain_pending [] pending = Ok ([], pending)"
| "drain_pending ((dest, sender) # keys) pending =
     rbind (unwrap (map_of pending (dest, sender))) (\<lambda>coins.
     rbind (drain_pending keys (omap_remove (dest, sender) pending)) (\<lambda>(transfers, pending).
     Ok ((dest, coins, sender) # transfers, pending)))"

definition Bitcoin_take_pending :: "(bitcoin, (dest \<times> u64 \<times> identity) list) call" where
  "Bitcoin_take_pending =
     cbind (reads (\<lambda>s. last_completed_app_error (bc_checkpoints s))) (\<lambda>err.
     if err = Some ''No completed checkpoints yet'' then lift_result (Ok [])
     else
     cbind (reads (\<lambda>s. CheckpointQueue_last_completed_index (bc_checkpoints s))) (\<lambda>i.
     cbind (reads (\<lambda>s. CheckpointQueue_get_mut (bc_checkpoints s) i (\<lambda>cp.
              rbind (drain_pending (map fst (cp_pending cp)) (cp_pending cp)) (\<lambda>(transfers, pending).
              Ok (cp\<lparr>cp_pending := pending\<rparr>, transfers))))) (\<lambda>(q, transfers).
     cbind (modify (bc_checkpoints_update (\<lambda>_. q))) (\<lambda>_.
     lift_result (Ok transfers)))))"

end
