(* ===== verification/Bridge_Ledger.thy ===== *)
theory Bridge_Ledger
  imports Bitcoin_Module Checkpoint_Chain
begin

text \<open>
  The books of the bridge. On one side stands the Bitcoin it controls, the inputs less the outputs
  of the checkpoint transaction being built, in units; on the other what it owes: balances, pending
  transfers, the reward pool and the fee pool. The difference is the surplus, and this theory shows
  what each operation of src/src/bitcoin/mod.rs does to it.
\<close>

lemmas call_defs = cbind_def lift_result_def reads_def modify_def

section \<open>The surplus\<close>

definition total_balance :: "accounts \<Rightarrow> nat" where
  "total_balance bal = (\<Sum>a | bal a \<noteq> 0. bal a)"

definition cp_reserve :: "checkpoint \<Rightarrow> int" where
  "cp_reserve cp = (let tx = hd (ba_batch (cp_batches cp ! 2)) in
     int (sum_list (map in_amount (bt_input tx))) - int (outputs_value (bt_output tx)))"

definition cp_owed :: "checkpoint \<Rightarrow> nat" where
  "cp_owed cp = sum_list (map snd (cp_pending cp))"

definition queue_surplus :: "u64 \<Rightarrow> checkpoint list \<Rightarrow> int" where
  "queue_surplus U cps = (if cps = [] then 0 else int U * cp_reserve (last cps)) - int (sum_list (map cp_owed cps))"

definition surplus :: "u64 \<Rightarrow> bitcoin \<Rightarrow> int" where
  "surplus U s = queue_surplus U (cq_queue (bc_checkpoints s)) - int (total_balance (bc_accounts s))
     - int (bc_reward_pool s) - bc_fee_pool s"

text \<open>The invariant the books rest on.\<close>

definition wf_pending :: "checkpoint \<Rightarrow> bool" where
  "wf_pending cp \<longleftrightarrow> distinct (map fst (cp_pending cp))"

definition wf_building :: "checkpoint \<Rightarrow> bool" where
  "wf_building cp \<longleftrightarrow> 2 < length (cp_batches cp) \<and> length (ba_batch (cp_batches cp ! 2)) = 1"

definition bridge_inv :: "u64 \<Rightarrow> bitcoin \<Rightarrow> bool" where
  "bridge_inv U s \<longleftrightarrow> bf_units_per_sat (bc_config s) = U \<and> cq_inv (bc_checkpoints s)
     \<and> finite {a. bc_accounts s a \<noteq> 0} \<and> (\<forall>cp \<in> set (cq_queue (bc_checkpoints s)). wf_pending cp)
     \<and> (cq_queue (bc_checkpoints s) \<noteq> [] \<longrightarrow> wf_building (last (cq_queue (bc_checkpoints s))))"

text \<open>What coins and accounts promise.\<close>

definition coin_law :: "'m btc_lib_scheme \<Rightarrow> bool" where
  "coin_law L \<longleftrightarrow> (\<forall>have n taken left. coin_take L have n = Ok (taken, left) \<longrightarrow> taken = n \<and> have = n + left)
     \<and> (\<forall>have n r. coin_give L have n = Ok r \<longrightarrow> r = have + n)
     \<and> (\<forall>a b c. amount_add L a b = Ok c \<longrightarrow> c = a + b)
     \<and> (\<forall>addr n bal bal'. acc_withdraw L addr n bal = Ok bal' \<longrightarrow> n \<le> bal addr \<and> bal' = bal(addr := bal addr - n))
     \<and> (\<forall>addr n bal bal'. acc_deposit L addr n bal = Ok bal' \<longrightarrow> bal' = bal(addr := bal addr + n))"

lemma coin_lawD:
  assumes "coin_law L"
  shows "coin_take L have n = Ok (taken, left) \<Longrightarrow> taken = n \<and> have = n + left"
    and "coin_give L have n = Ok r \<Longrightarrow> r = have + n"
    and "amount_add L a b = Ok c \<Longrightarrow> c = a + b"
    and "acc_withdraw L addr n bal = Ok bal' \<Longrightarrow> n \<le> bal addr \<and> bal' = bal(addr := bal addr - n)"
    and "acc_deposit L addr n bal = Ok bal' \<Longrightarrow> bal' = bal(addr := bal addr + n)"
  using assms unfolding coin_law_def by blast+

section \<open>Balances\<close>

lemma total_balance_eq:
  assumes "finite S" and "{a. bal a \<noteq> 0} \<subseteq> S"
  shows "total_balance bal = sum bal S"
  unfolding total_balance_def by (rule sum.mono_neutral_left [OF assms]) auto

lemma total_balance_update:
  assumes "finite {a. bal a \<noteq> 0}"
  shows "total_balance (bal(addr := n)) + bal addr = total_balance bal + n"
    and "finite {a. (bal(addr := n)) a \<noteq> 0}"
proof -
  let ?S = "insert addr {a. bal a \<noteq> 0}"
  have fin: "finite ?S" using assms by simp
  have "total_balance bal = sum bal ?S" "total_balance (bal(addr := n)) = sum (bal(addr := n)) ?S"
    using fin by (intro total_balance_eq; auto)+
  moreover have "sum g ?S = g addr + sum g (?S - {addr})" for g :: "address \<Rightarrow> nat" by (rule sum.remove [OF fin]) simp
  note this [of bal] this [of "bal(addr := n)", unfolded fun_upd_same]
  moreover have "sum (bal(addr := n)) (?S - {addr}) = sum bal (?S - {addr})" by (rule sum.cong) auto
  ultimately show "total_balance (bal(addr := n)) + bal addr = total_balance bal + n" by linarith
  show "finite {a. (bal(addr := n)) a \<noteq> 0}" by (rule finite_subset [OF _ fin]) auto
qed

lemma accounts_withdraw_Ok:
  assumes "coin_law L" and "bridge_inv U s" and "accounts_withdraw L addr n s = (Ok c, s')"
  shows "bridge_inv U s'" "c = n" "surplus U s' = surplus U s + int n" "n \<le> bc_accounts s addr"
    "bc_checkpoints s' = bc_checkpoints s" "bc_config s' = bc_config s"
proof -
  from assms(1,3) have w: "n \<le> bc_accounts s addr" "c = n"
    "s' = s\<lparr>bc_accounts := (bc_accounts s)(addr := bc_accounts s addr - n)\<rparr>"
    by (auto simp: accounts_withdraw_def coin_law_def)
  have fin: "finite {a. bc_accounts s a \<noteq> 0}" using assms(2) by (simp add: bridge_inv_def)
  note t = total_balance_update [OF fin, of addr "bc_accounts s addr - n"]
  show "bridge_inv U s'" using assms(2) t(2) by (simp add: w(3) bridge_inv_def)
  show "surplus U s' = surplus U s + int n" using t(1) w(1) by (simp add: w(3) surplus_def)
qed (use assms in \<open>auto simp: accounts_withdraw_def coin_law_def\<close>)

lemma accounts_deposit_Ok:
  assumes "coin_law L" and "bridge_inv U s" and "accounts_deposit L addr n s = (Ok u, s')"
  shows "bridge_inv U s'" "surplus U s' = surplus U s - int n"
    "bc_checkpoints s' = bc_checkpoints s" "bc_config s' = bc_config s"
proof -
  from assms(1,3) have w: "s' = s\<lparr>bc_accounts := (bc_accounts s)(addr := bc_accounts s addr + n)\<rparr>"
    by (auto simp: accounts_deposit_def coin_law_def)
  have fin: "finite {a. bc_accounts s a \<noteq> 0}" using assms(2) by (simp add: bridge_inv_def)
  note t = total_balance_update [OF fin, of addr "bc_accounts s addr + n"]
  show "bridge_inv U s'" using assms(2) t(2) by (simp add: w bridge_inv_def)
  show "surplus U s' = surplus U s - int n" using t(1) by (simp add: w surplus_def)
qed (use assms in \<open>auto simp: accounts_deposit_def\<close>)

lemma reward_pool_give_Ok:
  assumes "coin_law L" and "bridge_inv U s" and "reward_pool_give L n s = (Ok u, s')"
  shows "bridge_inv U s'" "surplus U s' = surplus U s - int n"
    "bc_checkpoints s' = bc_checkpoints s" "bc_config s' = bc_config s" "bc_fee_pool s' = bc_fee_pool s"
proof -
  from assms(1,3) have "s' = s\<lparr>bc_reward_pool := bc_reward_pool s + n\<rparr>"
    by (auto simp: reward_pool_give_def dest: coin_lawD)
  with assms(2) show "bridge_inv U s'" "surplus U s' = surplus U s - int n"
    "bc_checkpoints s' = bc_checkpoints s" "bc_config s' = bc_config s" "bc_fee_pool s' = bc_fee_pool s"
    by (simp_all add: bridge_inv_def surplus_def)
qed

section \<open>Editing the checkpoint being built\<close>

lemma building_mut_Ok:
  assumes "cq_inv (bc_checkpoints s)" and "building_mut f s = (Ok a, s')"
  obtains old cp cp' where "cq_queue (bc_checkpoints s) = old @ [cp]" "f cp = Ok (cp', a)"
    "s' = s\<lparr>bc_checkpoints := (bc_checkpoints s)\<lparr>cq_queue := old @ [cp']\<rparr>\<rparr>"
proof -
  let ?q = "bc_checkpoints s"
  have wf: "cq_indexed (cq_index ?q) (cq_queue ?q)" using assms(1) by (simp add: cq_inv_def)
  from assms(2) obtain q where g: "CheckpointQueue_get_mut ?q (cq_index ?q) f = Ok (q, a)" and s': "s' = s\<lparr>bc_checkpoints := q\<rparr>"
    by (auto simp: building_mut_def)
  obtain j cp where j: "j < length (cq_queue ?q)" "cq_index ?q = first_of ?q + j" "f (cq_queue ?q ! j) = Ok (cp, a)"
    "q = ?q\<lparr>cq_queue := (cq_queue ?q)[j := cp]\<rparr>" by (rule get_mut_Ok [OF wf g])
  have "length (cq_queue ?q) \<le> Suc (cq_index ?q)" using wf by (simp add: cq_indexed_def)
  with j(1,2) have last: "Suc j = length (cq_queue ?q)" by linarith
  then have "cq_queue ?q \<noteq> []" by auto
  then obtain old b where q: "cq_queue ?q = old @ [b]" by (metis rev_exhaust)
  with last have "j = length old" by simp
  with q j s' show thesis by (intro that [of old b cp]) auto
qed

lemma bridge_replace_last:
  assumes inv: "bridge_inv U s" and q: "cq_queue (bc_checkpoints s) = old @ [cp]"
    and keep: "cp_status cp' = cp_status cp" "cp_sigset cp' = cp_sigset cp" and wf: "wf_pending cp'" "wf_building cp'"
    and s': "s' = s\<lparr>bc_checkpoints := (bc_checkpoints s)\<lparr>cq_queue := old @ [cp']\<rparr>\<rparr>"
  shows "bridge_inv U s'"
    "surplus U s' = surplus U s + int U * (cp_reserve cp' - cp_reserve cp) - (int (cp_owed cp') - int (cp_owed cp))"
proof -
  let ?q = "bc_checkpoints s"
  have upd: "old @ [cp'] = (cq_queue ?q)[length old := cp']" "cq_queue ?q ! length old = cp" "length old < length (cq_queue ?q)"
    using q by simp_all
  have "cq_inv ?q" using inv by (simp add: bridge_inv_def)
  then have "cq_inv (?q\<lparr>cq_queue := old @ [cp']\<rparr>)"
    using keep upd by (auto simp: cq_inv_def cq_shape_update cq_indexed_update has_signing_update split: option.splits)
  then show "bridge_inv U s'" using inv wf q by (auto simp: bridge_inv_def s')
  show "surplus U s' = surplus U s + int U * (cp_reserve cp' - cp_reserve cp) - (int (cp_owed cp') - int (cp_owed cp))"
    using q by (simp add: surplus_def queue_surplus_def s' algebra_simps)
qed

lemma bridge_last:
  assumes "bridge_inv U s" and "cq_queue (bc_checkpoints s) = old @ [cp]"
  shows "wf_pending cp" "wf_building cp"
  using assms by (auto simp: bridge_inv_def)

lemma edit_checkpoint_tx_Ok:
  assumes "edit_checkpoint_tx f cp = Ok (cp', u)" and "wf_building cp"
  obtains tx where "ba_batch (cp_batches cp ! 2) = [tx]" "ba_batch (cp_batches cp' ! 2) = [f tx]"
    "wf_building cp'" "cp_pending cp' = cp_pending cp"
proof -
  obtain tx where tx: "ba_batch (cp_batches cp ! 2) = [tx]" "2 < length (cp_batches cp)"
    using assms(2) by (auto simp: wf_building_def length_Suc_conv)
  with assms(1) have "cp' = set_batch Checkpoint_batch (set_tx (f tx) (cp_batches cp ! 2)) cp"
    by (auto simp: edit_checkpoint_tx_def get_batch_Ok get_tx_Ok)
  with tx show thesis by (intro that [of tx]) (auto simp: set_batch_def set_tx_def wf_building_def)
qed

lemma edit_checkpoint_tx_keeps:
  "edit_checkpoint_tx f cp = Ok (cp', u) \<Longrightarrow> cp_status cp' = cp_status cp \<and> cp_sigset cp' = cp_sigset cp"
  by (auto simp: edit_checkpoint_tx_def set_batch_def)

text \<open>An added input backs what it is worth; an added output takes away what it pays.\<close>

definition tx_balance :: "bitcoin_tx \<Rightarrow> int" where
  "tx_balance tx = int (sum_list (map in_amount (bt_input tx))) - int (outputs_value (bt_output tx))"

lemma edit_checkpoint_tx_moves:
  assumes inv: "bridge_inv U s" and m: "building_mut (edit_checkpoint_tx f) s = (Ok u, s')"
    and d: "\<And>tx. tx_balance (f tx) = tx_balance tx + d"
  shows "bridge_inv U s'" "surplus U s' = surplus U s + int U * d"
    "bc_config s' = bc_config s" "cq_config (bc_checkpoints s') = cq_config (bc_checkpoints s)"
proof -
  have cq: "cq_inv (bc_checkpoints s)" using inv by (simp add: bridge_inv_def)
  obtain old cp cp' where q: "cq_queue (bc_checkpoints s) = old @ [cp]" and e: "edit_checkpoint_tx f cp = Ok (cp', u)"
    and s': "s' = s\<lparr>bc_checkpoints := (bc_checkpoints s)\<lparr>cq_queue := old @ [cp']\<rparr>\<rparr>"
    by (rule building_mut_Ok [OF cq m])
  note wf = bridge_last [OF inv q]
  obtain tx where tx: "ba_batch (cp_batches cp ! 2) = [tx]" "ba_batch (cp_batches cp' ! 2) = [f tx]"
    "wf_building cp'" "cp_pending cp' = cp_pending cp" by (rule edit_checkpoint_tx_Ok [OF e wf(2)])
  have keep: "cp_status cp' = cp_status cp" "cp_sigset cp' = cp_sigset cp"
    using edit_checkpoint_tx_keeps [OF e] by simp_all
  have "wf_pending cp'" using wf(1) tx(4) by (simp add: wf_pending_def)
  note r = bridge_replace_last [OF inv q keep this tx(3) s']
  show "bridge_inv U s'" by (rule r(1))
  have "cp_reserve cp' = cp_reserve cp + d" using d [of tx] tx by (simp add: cp_reserve_def tx_balance_def)
  then show "surplus U s' = surplus U s + int U * d" using r(2) tx(4) by (simp add: cp_owed_def)
qed (use m in \<open>auto simp: building_mut_def CheckpointQueue_get_mut_def split: if_splits\<close>)

lemma push_input_Ok:
  assumes "bridge_inv U s" and "building_mut (edit_checkpoint_tx (\<lambda>tx. tx\<lparr>bt_input := bt_input tx @ [input]\<rparr>)) s = (Ok u, s')"
  shows "bridge_inv U s'" "surplus U s' = surplus U s + int U * int (in_amount input)"
  using edit_checkpoint_tx_moves [OF assms, of "int (in_amount input)"] by (simp_all add: tx_balance_def)

lemma push_output_Ok:
  assumes "bridge_inv U s" and "building_mut (edit_checkpoint_tx (\<lambda>tx. tx\<lparr>bt_output := bt_output tx @ [out]\<rparr>)) s = (Ok u, s')"
  shows "bridge_inv U s'" "surplus U s' = surplus U s - int U * int (to_value out)"
  using edit_checkpoint_tx_moves [OF assms, of "- int (to_value out)"] by (simp_all add: tx_balance_def)

section \<open>Fees, rewards and pending transfers\<close>

lemma as_i64_le: "as_i64 n \<le> int n"
  using zmod_le_nonneg_dividend [of "int n" "2 ^ 64"] by (auto simp: as_i64_def Let_def)

lemma give_miner_fee_Ok:
  assumes inv: "bridge_inv U s" and m: "Bitcoin_give_miner_fee n s = (Ok u, s')"
  shows "bridge_inv U s'" "surplus U s - int n \<le> surplus U s'" "bc_config s' = bc_config s"
    "cq_config (bc_checkpoints s') = cq_config (bc_checkpoints s)"
proof -
  let ?s1 = "s\<lparr>bc_fee_pool := bc_fee_pool s + as_i64 n\<rparr>"
  from m obtain sats where m1: "building_mut (\<lambda>cp. rbind (add_u64 (cp_fees_collected cp) sats) (\<lambda>fees.
       Ok (cp\<lparr>cp_fees_collected := fees\<rparr>, ()))) ?s1 = (Ok u, s')"
    by (auto simp: Bitcoin_give_miner_fee_def)
  have inv1: "bridge_inv U ?s1" using inv by (simp add: bridge_inv_def)
  then have cq: "cq_inv (bc_checkpoints ?s1)" by (simp add: bridge_inv_def)
  obtain old cp cp' where q: "cq_queue (bc_checkpoints ?s1) = old @ [cp]"
    and e: "rbind (add_u64 (cp_fees_collected cp) sats) (\<lambda>fees. Ok (cp\<lparr>cp_fees_collected := fees\<rparr>, ())) = Ok (cp', u)"
    and s': "s' = ?s1\<lparr>bc_checkpoints := (bc_checkpoints ?s1)\<lparr>cq_queue := old @ [cp']\<rparr>\<rparr>"
    by (rule building_mut_Ok [OF cq m1])
  note wf = bridge_last [OF inv1 q]
  from e wf have k: "cp_status cp' = cp_status cp" "cp_sigset cp' = cp_sigset cp" "wf_pending cp'" "wf_building cp'"
    "cp_reserve cp' = cp_reserve cp" "cp_owed cp' = cp_owed cp"
    by (auto simp: wf_pending_def wf_building_def cp_reserve_def cp_owed_def)
  note r = bridge_replace_last [OF inv1 q k(1-4) s']
  show "bridge_inv U s'" by (rule r(1))
  have "surplus U s' = surplus U s - as_i64 n" using r(2) k by (simp add: surplus_def)
  with as_i64_le [of n] show "surplus U s - int n \<le> surplus U s'" by simp
  show "bc_config s' = bc_config s" "cq_config (bc_checkpoints s') = cq_config (bc_checkpoints s)" using s' by simp_all
qed

lemma give_rewards_Ok:
  assumes "coin_law L" and inv: "bridge_inv U s" and m: "Bitcoin_give_rewards L n s = (Ok u, s')"
  shows "bridge_inv U s'" "surplus U s - int n \<le> surplus U s'" "bc_config s' = bc_config s"
    "cq_config (bc_checkpoints s') = cq_config (bc_checkpoints s)"
proof -
  from m consider reward fee s1 where "reward + fee = n" "reward_pool_give L reward s = (Ok (), s1)"
      "Bitcoin_give_miner_fee fee s1 = (Ok (), s')"
    | "reward_pool_give L n s = (Ok (), s')"
    by (auto simp: Bitcoin_give_rewards_def Let_def split: if_splits)
  then have "bridge_inv U s' \<and> surplus U s - int n \<le> surplus U s' \<and> bc_config s' = bc_config s
      \<and> cq_config (bc_checkpoints s') = cq_config (bc_checkpoints s)"
  proof cases
    case 1
    note a = reward_pool_give_Ok [OF assms(1) inv 1(2)]
    from give_miner_fee_Ok [OF a(1) 1(3)] a 1(1) show ?thesis by auto
  next
    case 2
    from reward_pool_give_Ok [OF assms(1) inv 2] show ?thesis by simp
  qed
  then show "bridge_inv U s'" "surplus U s - int n \<le> surplus U s'" "bc_config s' = bc_config s"
    "cq_config (bc_checkpoints s') = cq_config (bc_checkpoints s)" by blast+
qed

lemma owed_remove:
  assumes "distinct (map fst m)"
  shows "sum_list (map snd (omap_remove k m)) + (case map_of m k of None \<Rightarrow> 0 | Some v \<Rightarrow> v) = (sum_list (map snd m) :: nat)"
    and "distinct (map fst (omap_remove k m))" and "k \<notin> fst ` set (omap_remove k m)"
proof -
  have "omap_remove k m = m" if "k \<notin> fst ` set m" for m :: "('a \<times> nat) list"
    using that by (force simp: omap_remove_def intro!: filter_True)
  then show "sum_list (map snd (omap_remove k m)) + (case map_of m k of None \<Rightarrow> 0 | Some v \<Rightarrow> v) = sum_list (map snd m)"
    using assms by (induction m) (auto simp: omap_remove_def)
  show "distinct (map fst (omap_remove k m))" using assms by (simp add: omap_remove_def distinct_map_filter)
  show "k \<notin> fst ` set (omap_remove k m)" by (auto simp: omap_remove_def)
qed

lemma owed_insert:
  assumes "k \<notin> fst ` set m" and "distinct (map fst m)"
  shows "sum_list (map snd (omap_insert f k v m)) = v + (sum_list (map snd m) :: nat)" "distinct (map fst (omap_insert f k v m))"
proof -
  show "sum_list (map snd (omap_insert f k v m)) = v + sum_list (map snd m)"
    using assms(1) by (induction f k v m rule: omap_insert.induct) auto
  have "mset (map fst (omap_insert f k v m)) = add_mset k (mset (map fst m))"
    using assms(1) by (induction f k v m rule: omap_insert.induct) auto
  then have "mset (map fst (omap_insert f k v m)) = mset (k # map fst m)" by simp
  then show "distinct (map fst (omap_insert f k v m))" using assms by (metis distinct.simps(2) mset_eq_imp_distinct_iff set_map)
qed

lemma insert_pending_Ok:
  assumes "coin_law L" and inv: "bridge_inv U s" and m: "Bitcoin_insert_pending L dest n sender s = (Ok u, s')"
  shows "bridge_inv U s'" "surplus U s' = surplus U s - int n" "bc_config s' = bc_config s"
    "cq_config (bc_checkpoints s') = cq_config (bc_checkpoints s)"
proof -
  let ?k = "(dest, sender)"
  have cq: "cq_inv (bc_checkpoints s)" using inv by (simp add: bridge_inv_def)
  from m obtain amount total s1 where
    m1: "building_mut (\<lambda>cp. Ok (cp\<lparr>cp_pending := omap_remove ?k (cp_pending cp)\<rparr>,
              case map_of (cp_pending cp) ?k of None \<Rightarrow> 0 | Some amount \<Rightarrow> amount)) s = (Ok amount, s1)"
    and total: "total = amount + n"
    and m2: "building_mut (\<lambda>cp. Ok (cp\<lparr>cp_pending := omap_insert (pending_order L) ?k total (cp_pending cp)\<rparr>, ())) s1 = (Ok u, s')"
    using coin_lawD(3) [OF assms(1)] by (auto simp: Bitcoin_insert_pending_def)
  obtain old cp where q: "cq_queue (bc_checkpoints s) = old @ [cp]"
    and amount: "amount = (case map_of (cp_pending cp) ?k of None \<Rightarrow> 0 | Some amount \<Rightarrow> amount)"
    and s1: "s1 = s\<lparr>bc_checkpoints := (bc_checkpoints s)\<lparr>cq_queue := old @ [cp\<lparr>cp_pending := omap_remove ?k (cp_pending cp)\<rparr>]\<rparr>\<rparr>"
    by (rule building_mut_Ok [OF cq m1]) auto
  note wf = bridge_last [OF inv q]
  have d: "distinct (map fst (cp_pending cp))" using wf(1) by (simp add: wf_pending_def)
  note rm = owed_remove [OF d, of ?k] and ins = owed_insert [OF owed_remove(3,2) [OF d], of "pending_order L" ?k total]
  have "bridge_inv U s1"
    by (rule bridge_replace_last(1) [OF inv q _ _ _ _ s1]) (use wf rm in \<open>simp_all add: wf_pending_def wf_building_def\<close>)
  then have cq1: "cq_inv (bc_checkpoints s1)" by (simp add: bridge_inv_def)
  let ?cp = "cp\<lparr>cp_pending := omap_insert (pending_order L) ?k total (omap_remove ?k (cp_pending cp))\<rparr>"
  have s': "s' = s\<lparr>bc_checkpoints := (bc_checkpoints s)\<lparr>cq_queue := old @ [?cp]\<rparr>\<rparr>"
    by (rule building_mut_Ok [OF cq1 m2]) (auto simp: s1)
  have k: "cp_status ?cp = cp_status cp" "cp_sigset ?cp = cp_sigset cp" "wf_pending ?cp" "wf_building ?cp" "cp_reserve ?cp = cp_reserve cp"
    using wf ins by (simp_all add: wf_pending_def wf_building_def cp_reserve_def)
  have "cp_owed ?cp = cp_owed cp + n" using ins(1) rm(1) amount total by (simp add: cp_owed_def)
  with bridge_replace_last [OF inv q k(1-4) s'] k(5) show "bridge_inv U s'" "surplus U s' = surplus U s - int n" by simp_all
  show "bc_config s' = bc_config s" "cq_config (bc_checkpoints s') = cq_config (bc_checkpoints s)" using s' by simp_all
qed

section \<open>Deposits\<close>

text \<open>A minted deposit backs exactly what is credited for it.\<close>

lemma mint_deposit_Ok:
  assumes law: "coin_law L" and inv: "bridge_inv U s" and m: "mint_deposit L prevout value cp bytes dest s = (Ok u, s')"
  shows "bridge_inv U s'" "surplus U s \<le> surplus U s'"
proof -
  have U: "bf_units_per_sat (bc_config s) = U" using inv by (simp add: bridge_inv_def)
  from m U obtain input size fee_amount fee rest s1 s2 nbtc s3 where
    i: "Input_new L prevout (cp_sigset cp) bytes value (cc_sigset_threshold (cq_config (bc_checkpoints s))) = Ok input"
    and take: "coin_take L (value * U) fee_amount = Ok (fee, rest)"
    and s1: "Bitcoin_give_miner_fee fee s = (Ok (), s1)"
    and s2: "building_mut (edit_checkpoint_tx (\<lambda>tx. tx\<lparr>bt_input := bt_input tx @ [input]\<rparr>)) s1 = (Ok (), s2)"
    and s3: "(if Dest_is_fee_exempt L dest then lift_result (Ok rest)
            else
            cbind (lift_result (coin_take L rest (calc_bridge_deposit_fee rest))) (\<lambda>(deposit_fee, nbtc).
            cbind (Bitcoin_insert_pending L RewardPool deposit_fee Identity_None) (\<lambda>_.
            lift_result (Ok nbtc)))) s2 = (Ok nbtc, s3)"
    and s': "Bitcoin_insert_pending L dest nbtc Identity_None s3 = (Ok u, s')"
    unfolding mint_deposit_def by (auto split: prod.splits)
  have amount: "in_amount input = value" using i by (auto simp: Input_new_def Let_def)
  have split: "value * U = fee + rest" using coin_lawD(1) [OF law take] by simp
  note g = give_miner_fee_Ok [OF inv s1]
  note p = push_input_Ok [OF g(1) s2]
  have "bridge_inv U s3 \<and> surplus U s2 - int rest = surplus U s3 - int nbtc"
  proof (cases "Dest_is_fee_exempt L dest")
    case True
    with s3 p show ?thesis by simp
  next
    case False
    with s3 obtain dfee where t: "coin_take L rest (calc_bridge_deposit_fee rest) = Ok (dfee, nbtc)"
      and i: "Bitcoin_insert_pending L RewardPool dfee Identity_None s2 = (Ok (), s3)" by auto
    from coin_lawD(1) [OF law t] insert_pending_Ok [OF law p(1) i] show ?thesis by auto
  qed
  then have inv3: "bridge_inv U s3" and bal: "surplus U s2 - int rest = surplus U s3 - int nbtc" by auto
  note e = insert_pending_Ok [OF law inv3 s']
  show "bridge_inv U s'" by (rule e(1))
  have "surplus U s1 + int U * int value = surplus U s2" using p(2) amount by simp
  moreover have "int U * int value = int fee + int rest" using arg_cong [OF split, of int] by (simp add: mult.commute)
  ultimately show "surplus U s \<le> surplus U s'" using g(2) e(2) bal by linarith
qed

lemma relay_deposit_cases:
  assumes "Bitcoin_relay_deposit L C tx h pf vout i dest s = (Ok u, s')"
  obtains seconds cp commitment timeout where
    "cx_time C = Some seconds"
    "proven_txid L (bc_headers s) (bf_min_confirmations (bc_config s)) h pf = Ok (tx_txid L tx)"
    "vout < length (tr_output tx)" "bf_min_deposit_amount (bc_config s) \<le> to_value (tr_output tx ! vout)"
    "CheckpointQueue_get (bc_checkpoints s) i = Ok cp" "cp_deposits_enabled cp"
    "matching_commitment L (cp_sigset cp) (cc_sigset_threshold (cq_config (bc_checkpoints s)))
       (to_script_pubkey (tr_output tx ! vout)) dest = Ok commitment"
    "\<not> OutpointSet_contains (bc_processed_outpoints s) (tx_txid L tx, vout)"
    "timeout = ss_create_time (cp_sigset cp) + bf_max_deposit_age (bc_config s)"
    "(if timeout < as_u64 seconds then recover_deposit L tx vout (cp_sigset cp) dest
      else mint_deposit L (tx_txid L tx, vout) (to_value (tr_output tx ! vout)) cp commitment dest)
       (bc_processed_outpoints_update (OutpointSet_insert (tx_txid L tx, vout) timeout) s) = (Ok u, s')"
  using assms by (auto simp: Bitcoin_relay_deposit_def Let_def not_less not_le split: if_splits)

lemma recover_deposit_Ok:
  "recover_deposit L tx vout ss dest s = (Ok u, s') \<Longrightarrow> \<exists>rx. s' = s\<lparr>bc_recovery_txs := rx\<rparr>"
  by (auto simp: recover_deposit_def)

lemma relay_deposit_Ok:
  assumes law: "coin_law L" and inv: "bridge_inv U s" and m: "Bitcoin_relay_deposit L C tx h pf vout i dest s = (Ok u, s')"
  shows "bridge_inv U s'" "surplus U s \<le> surplus U s'"
proof -
  from m obtain seconds cp commitment timeout where
    c: "(if timeout < as_u64 seconds then recover_deposit L tx vout (cp_sigset cp) dest
      else mint_deposit L (tx_txid L tx, vout) (to_value (tr_output tx ! vout)) cp commitment dest)
       (bc_processed_outpoints_update (OutpointSet_insert (tx_txid L tx, vout) timeout) s) = (Ok u, s')"
    by (rule relay_deposit_cases)
  let ?s = "bc_processed_outpoints_update (OutpointSet_insert (tx_txid L tx, vout) timeout) s"
  have inv1: "bridge_inv U ?s" and eq: "surplus U ?s = surplus U s" using inv by (simp_all add: bridge_inv_def surplus_def)
  have "bridge_inv U s' \<and> surplus U ?s \<le> surplus U s'"
  proof (cases "timeout < as_u64 seconds")
    case True
    with c obtain rx where "s' = ?s\<lparr>bc_recovery_txs := rx\<rparr>" by (auto dest: recover_deposit_Ok)
    then show ?thesis using inv1 by (simp add: bridge_inv_def surplus_def)
  next
    case False
    with c mint_deposit_Ok [OF law inv1] show ?thesis by auto
  qed
  with eq show "bridge_inv U s'" "surplus U s \<le> surplus U s'" by simp_all
qed

section \<open>Withdrawals and transfers\<close>

lemma add_withdrawal_Ok:
  assumes law: "coin_law L" and inv: "bridge_inv U s" and m: "Bitcoin_add_withdrawal L script n s = (Ok u, s')"
  shows "bridge_inv U s'" "surplus U s - int n \<le> surplus U s'"
proof -
  from m obtain fee_amount fee rest s1 v where
    take: "coin_take L n fee_amount = Ok (fee, rest)" and s1: "Bitcoin_give_miner_fee fee s = (Ok (), s1)"
    and v: "v = rest div bf_units_per_sat (bc_config s1)"
    and s': "building_mut (edit_checkpoint_tx (\<lambda>tx. tx\<lparr>bt_output := bt_output tx @
       [\<lparr>to_value = v, to_script_pubkey = script\<rparr>]\<rparr>)) s1 = (Ok u, s')"
    by (auto simp: Bitcoin_add_withdrawal_def)
  note g = give_miner_fee_Ok [OF inv s1]
  note o = push_output_Ok [OF g(1) s']
  have "bf_units_per_sat (bc_config s1) = U" using g(1) by (simp add: bridge_inv_def)
  then have "U * v \<le> rest" using v by simp
  then have "int U * int v \<le> int rest" by (metis of_nat_le_iff of_nat_mult)
  moreover have "n = fee + rest" using coin_lawD(1) [OF law take] by simp
  ultimately show "surplus U s - int n \<le> surplus U s'" using g(2) o(2) by simp
  show "bridge_inv U s'" by (rule o(1))
qed

lemma withdraw_Ok:
  assumes law: "coin_law L" and inv: "bridge_inv U s" and m: "Bitcoin_withdraw L C script n s = (Ok u, s')"
  shows "bridge_inv U s'" "surplus U s \<le> surplus U s'"
proof -
  from m obtain addr c s1 where a: "accounts_withdraw L addr n s = (Ok c, s1)" and w: "Bitcoin_add_withdrawal L script c s1 = (Ok u, s')"
    by (auto simp: Bitcoin_withdraw_def)
  note a = accounts_withdraw_Ok [OF law inv a]
  from add_withdrawal_Ok [OF law a(1) w] a show "bridge_inv U s'" "surplus U s \<le> surplus U s'" by auto
qed

lemma transfer_Ok:
  assumes law: "coin_law L" and inv: "bridge_inv U s" and m: "Bitcoin_transfer L C to n s = (Ok u, s')"
  shows "bridge_inv U s'" "surplus U s \<le> surplus U s'"
proof -
  from m obtain addr f s1 s2 c s3 sender where
    s1: "accounts_withdraw L addr (bf_transfer_fee (bc_config s)) s = (Ok f, s1)"
    and s2: "Bitcoin_give_rewards L f s1 = (Ok (), s2)" and s3: "accounts_withdraw L addr n s2 = (Ok c, s3)"
    and s4: "Bitcoin_insert_pending L (NativeAccount to) c sender s3 = (Ok u, s')"
    by (auto simp: Bitcoin_transfer_def)
  note a = accounts_withdraw_Ok [OF law inv s1]
  note b = give_rewards_Ok [OF law a(1) s2]
  note c = accounts_withdraw_Ok [OF law b(1) s3]
  from insert_pending_Ok [OF law c(1) s4] a b c show "bridge_inv U s'" "surplus U s \<le> surplus U s'" by auto
qed

lemma transfer_to_fee_pool_Ok:
  assumes law: "coin_law L" and inv: "bridge_inv U s" and m: "Bitcoin_transfer_to_fee_pool L C n s = (Ok u, s')"
  shows "bridge_inv U s'" "surplus U s \<le> surplus U s'"
proof -
  from m obtain addr c s1 where a: "accounts_withdraw L addr n s = (Ok c, s1)" and w: "Bitcoin_give_miner_fee c s1 = (Ok u, s')"
    by (auto simp: Bitcoin_transfer_to_fee_pool_def split: if_splits)
  note a = accounts_withdraw_Ok [OF law inv a]
  from give_miner_fee_Ok [OF a(1) w] a show "bridge_inv U s'" "surplus U s \<le> surplus U s'" by auto
qed

section \<open>Pending transfers\<close>

definition transfers_total :: "(dest \<times> u64 \<times> identity) list \<Rightarrow> nat" where
  "transfers_total ts = sum_list (map (\<lambda>(_, coins, _). coins) ts)"

lemma drain_pending_total:
  assumes "distinct (map fst m)" and "drain_pending keys m = Ok (ts, m')"
  shows "transfers_total ts + sum_list (map snd m') = sum_list (map snd m)" "distinct (map fst m')"
    "map fst m' = filter (\<lambda>k. k \<notin> set keys) (map fst m)"
proof -
  have "transfers_total ts + sum_list (map snd m') = sum_list (map snd m) \<and> distinct (map fst m')
      \<and> map fst m' = filter (\<lambda>k. k \<notin> set keys) (map fst m)"
    using assms
  proof (induction keys m arbitrary: ts rule: drain_pending.induct)
    case (2 dest sender keys m)
    from "2.prems"(2) obtain c ts' where c: "map_of m (dest, sender) = Some c"
      and r: "drain_pending keys (omap_remove (dest, sender) m) = Ok (ts', m')" and ts: "ts = (dest, c, sender) # ts'" by auto
    note rm = owed_remove [OF "2.prems"(1), of "(dest, sender)"]
    have "map fst (omap_remove (dest, sender) m) = filter (\<lambda>k. k \<noteq> (dest, sender)) (map fst m)"
      by (simp add: omap_remove_def filter_map comp_def split_def)
    moreover have "unwrap (map_of m (dest, sender)) = Ok c" using c by simp
    ultimately show ?case using "2.IH" [OF _ rm(2) r] rm(1) c ts by (auto simp: transfers_total_def intro: filter_cong)
  qed (simp add: transfers_total_def)
  then show "transfers_total ts + sum_list (map snd m') = sum_list (map snd m)" "distinct (map fst m')"
    "map fst m' = filter (\<lambda>k. k \<notin> set keys) (map fst m)" by blast+
qed

lemma drain_pending_all:
  assumes "distinct (map fst m)"
  shows "\<exists>ts. drain_pending (map fst m) m = Ok (ts, [])"
  using assms
proof (induction m)
  case (Cons x m)
  obtain d i v where x: "x = ((d, i), v)" by (metis surj_pair)
  have "omap_remove (d, i) (x # m) = m" using Cons.prems by (force simp: omap_remove_def x intro!: filter_True)
  with Cons show ?case by (auto simp: x)
qed simp

text \<open>Changing a checkpoint that is not the one being built.\<close>

lemma bridge_replace_nth:
  assumes inv: "bridge_inv U s" and j: "Suc j < length (cq_queue (bc_checkpoints s))" and wf: "wf_pending cp'"
    and q: "cq_inv q" "cq_queue q = (cq_queue (bc_checkpoints s))[j := cp']"
  shows "bridge_inv U (s\<lparr>bc_checkpoints := q\<rparr>)"
    "surplus U (s\<lparr>bc_checkpoints := q\<rparr>) = surplus U s - (int (cp_owed cp') - int (cp_owed (cq_queue (bc_checkpoints s) ! j)))"
proof -
  let ?cps = "cq_queue (bc_checkpoints s)"
  have ne: "?cps \<noteq> []" using j by auto
  have last: "last (?cps[j := cp']) = last ?cps" using j by (subst last_list_update) auto
  have "\<forall>cp \<in> set (?cps[j := cp']). wf_pending cp"
    using inv wf set_update_subset_insert [of ?cps j cp'] by (auto simp: bridge_inv_def)
  then show "bridge_inv U (s\<lparr>bc_checkpoints := q\<rparr>)" using inv q last ne by (auto simp: bridge_inv_def)
  have "sum_list (map cp_owed (?cps[j := cp'])) + cp_owed (?cps ! j) = sum_list (map cp_owed ?cps) + cp_owed cp'"
  proof -
    have "cp_owed (?cps ! j) \<le> sum_list (map cp_owed ?cps)" using j by (intro member_le_sum_list) auto
    moreover have "sum_list (map cp_owed (?cps[j := cp'])) = sum_list (map cp_owed ?cps) + cp_owed cp' - cp_owed (?cps ! j)"
      using j by (simp add: map_update sum_list_update)
    ultimately show ?thesis by linarith
  qed
  then show "surplus U (s\<lparr>bc_checkpoints := q\<rparr>) = surplus U s - (int (cp_owed cp') - int (cp_owed (?cps ! j)))"
    using q last ne by (simp add: surplus_def queue_surplus_def)
qed

lemma take_pending_Ok:
  assumes inv: "bridge_inv U s" and m: "Bitcoin_take_pending s = (Ok ts, s')"
  shows "bridge_inv U s'" "surplus U s' = surplus U s + int (transfers_total ts)"
    "ts \<noteq> [] \<Longrightarrow> cq_queue (bc_checkpoints s') \<noteq> []"
proof -
  let ?q = "bc_checkpoints s"
  let ?f = "\<lambda>cp. rbind (drain_pending (map fst (cp_pending cp)) (cp_pending cp)) (\<lambda>(transfers, pending).
              Ok (cp\<lparr>cp_pending := pending\<rparr>, transfers))"
  have cq: "cq_inv ?q" and wf: "cq_indexed (cq_index ?q) (cq_queue ?q)" using inv by (auto simp: bridge_inv_def cq_inv_def)
  from m consider "ts = []" "s' = s"
    | i q where "CheckpointQueue_last_completed_index ?q = Ok i" "CheckpointQueue_get_mut ?q i ?f = Ok (q, ts)"
       "s' = s\<lparr>bc_checkpoints := q\<rparr>"
    by (auto simp: Bitcoin_take_pending_def split: if_splits)
  then have "bridge_inv U s' \<and> surplus U s' = surplus U s + int (transfers_total ts)
      \<and> (ts \<noteq> [] \<longrightarrow> cq_queue (bc_checkpoints s') \<noteq> [])"
  proof cases
    case 1
    with inv show ?thesis by (simp add: transfers_total_def)
  next
    case 2
    obtain j cp where j: "j < length (cq_queue ?q)" "i = first_of ?q + j" "?f (cq_queue ?q ! j) = Ok (cp, ts)"
      "q = ?q\<lparr>cq_queue := (cq_queue ?q)[j := cp]\<rparr>" by (rule get_mut_Ok [OF wf 2(2)])
    let ?cp = "cq_queue ?q ! j"
    have "i < cq_index ?q" using 2(1) by (auto simp: CheckpointQueue_last_completed_index_def Let_def split: if_splits)
    with j have sj: "Suc j < length (cq_queue ?q)" using wf by (auto simp: cq_indexed_def)
    from j(3) obtain pending where d: "drain_pending (map fst (cp_pending ?cp)) (cp_pending ?cp) = Ok (ts, pending)"
      and cp: "cp = ?cp\<lparr>cp_pending := pending\<rparr>" by auto
    have dist: "distinct (map fst (cp_pending ?cp))" using inv j(1) by (auto simp: bridge_inv_def wf_pending_def)
    note t = drain_pending_total [OF dist d]
    have cq': "cq_inv q" by (rule cq_inv_edit [OF cq 2(2)]) auto
    have "wf_pending cp" using t(2) by (simp add: cp wf_pending_def)
    note r = bridge_replace_nth [OF inv sj this cq', folded 2(3)]
    have "int (cp_owed cp) + int (transfers_total ts) = int (cp_owed ?cp)" using t(1) by (simp add: cp cp_owed_def)
    moreover have "cq_queue q \<noteq> []" using j by auto
    ultimately show ?thesis using r j(4) 2(3) by simp
  qed
  then show "bridge_inv U s'" "surplus U s' = surplus U s + int (transfers_total ts)"
    "ts \<noteq> [] \<Longrightarrow> cq_queue (bc_checkpoints s') \<noteq> []" by blast+
qed

section \<open>Signing, confirming and configuring\<close>

lemma sign_Ok:
  assumes inv: "bridge_inv U s" and m: "Bitcoin_sign L C xpub sigs i s = (Ok u, s')"
  shows "bridge_inv U s'" "surplus U s' = surplus U s"
proof -
  let ?q = "bc_checkpoints s" and ?h = "HeaderQueue_height (bc_headers s)"
  have cq: "cq_inv ?q" and wf: "cq_indexed (cq_index ?q) (cq_queue ?q)" using inv by (auto simp: bridge_inv_def cq_inv_def)
  from m obtain q where sg: "CheckpointQueue_sign L C xpub sigs i ?h ?q = Ok q" and s': "s' = s\<lparr>bc_checkpoints := q\<rparr>"
    by (auto simp: Bitcoin_sign_def)
  then have g: "CheckpointQueue_get_mut ?q i (sign_checkpoint L xpub sigs ?h) = Ok (q, ())" by (auto simp: CheckpointQueue_sign_def)
  obtain j cp where j: "j < length (cq_queue ?q)" "sign_checkpoint L xpub sigs ?h (cq_queue ?q ! j) = Ok (cp, ())"
    "q = ?q\<lparr>cq_queue := (cq_queue ?q)[j := cp]\<rparr>" by (rule get_mut_Ok [OF wf g])
  obtain cp1 where c: "cp_status (cq_queue ?q ! j) \<noteq> Building" "Checkpoint_sign L xpub sigs ?h (cq_queue ?q ! j) = Ok cp1"
    "cp = (if cp_status (cq_queue ?q ! j) = Signing \<and> Checkpoint_signed cp1 then cp1\<lparr>cp_status := Complete\<rparr> else cp1)"
    by (rule sign_checkpoint_Ok [OF j(2)])
  from Checkpoint_sign_Ok [OF c(2)] obtain bs h' where "cp1 = (cq_queue ?q ! j)\<lparr>cp_batches := bs, cp_signed_at_btc_height := h'\<rparr>" by blast
  then have p: "cp_pending cp = cp_pending (cq_queue ?q ! j)" using c(3) by simp
  have "cp_status (cq_queue ?q ! j) = Building \<longleftrightarrow> Suc j = length (cq_queue ?q)" using cq j(1) by (auto simp: cq_inv_def cq_shape_def)
  with c(1) j(1) have sj: "Suc j < length (cq_queue ?q)" by linarith
  have "wf_pending cp" using inv j(1) p by (auto simp: bridge_inv_def wf_pending_def)
  note r = bridge_replace_nth [OF inv sj this cq_inv_sign [OF cq sg]]
  show "bridge_inv U s'" "surplus U s' = surplus U s" using r j(3) p s' by (simp_all add: cp_owed_def)
qed

lemma relay_checkpoint_Ok:
  assumes inv: "bridge_inv U s" and m: "Bitcoin_relay_checkpoint L C h pf i s = (Ok u, s')"
  shows "bridge_inv U s'" "surplus U s' = surplus U s"
proof -
  from m obtain cp where get: "CheckpointQueue_get (bc_checkpoints s) i = Ok cp"
    and s': "s' = s\<lparr>bc_checkpoints := (bc_checkpoints s)\<lparr>cq_confirmed_index := Some i\<rparr>\<rparr>"
    by (auto simp: Bitcoin_relay_checkpoint_def split: if_splits option.splits)
  have "cq_inv ((bc_checkpoints s)\<lparr>cq_confirmed_index := Some i\<rparr>)"
    using inv cq_inv_confirm [OF _ get] by (auto simp: bridge_inv_def)
  then show "bridge_inv U s'" "surplus U s' = surplus U s" using inv by (auto simp: s' bridge_inv_def surplus_def)
qed

section \<open>The block step\<close>

text \<open>What freezing does to the value of the checkpoint transaction.\<close>

lemma advance_value:
  assumes "BuildingCheckpoint_advance H L C bal rs ext commitment additional config cp = Ok (cp', op, rv, fee, ei, eo)"
    and "wf_building cp"
  shows "cp_reserve cp = int fee + int rv + int (sum_list (map in_amount ei)) - int (outputs_value eo)"
    "int fee \<le> int (sum_list (map in_amount (bt_input (hd (ba_batch (cp_batches cp ! 2))))))"
proof -
  obtain tx0 where one: "ba_batch (cp_batches cp ! 2) = [tx0]" using assms(2) by (auto simp: wf_building_def length_Suc_conv)
  obtain outs base_fee tx1 others0 txs tx' where
    outs: "Checkpoint_additional_outputs L config commitment cp = Ok outs"
    and tx1: "ba_batch (cp_batches cp ! 2) = tx1 # others0"
    and fund: "fold_result (fund_other_tx L (cp_sigset cp) (cp_fee_rate cp) (length (outs @ bt_output tx1)))
       (tx1\<lparr>bt_output := outs @ bt_output tx1\<rparr> # others0) [1..<Suc (length others0)] = Ok txs"
    and fin: "finish_checkpoint_tx L config base_fee additional (txs ! 0) = Ok (tx', op, rv, fee, ei, eo)"
    by (rule advance_Ok [OF assms(1)])
  have eq: "tx1 = tx0" "others0 = []" using tx1 one by simp_all
  have tx: "txs ! 0 = tx0\<lparr>bt_output := outs @ bt_output tx0\<rparr>" using fund eq by auto
  obtain reserve rest where r: "take (cc_max_outputs config) (outs @ bt_output tx0) = reserve # rest"
    and i: "list_all2 same_input (take (cc_max_inputs config) (bt_input tx0)) (bt_input tx')"
    and e: "ei = rev (drop (cc_max_inputs config) (bt_input tx0))" "eo = rev (drop (cc_max_outputs config) (outs @ bt_output tx0))"
    and sum: "sum_list (map in_amount (bt_input tx')) = outputs_value (reserve # rest) + fee + rv"
    by (rule finish_checkpoint_tx_Ok [OF fin]) (simp add: tx)
  have "map in_amount (bt_input tx') = map in_amount (take (cc_max_inputs config) (bt_input tx0))"
    using i by (induction rule: list_all2_induct) (auto simp: same_input_def)
  moreover have "sum_list (map in_amount (bt_input tx0))
      = sum_list (map in_amount (take (cc_max_inputs config) (bt_input tx0))) + sum_list (map in_amount ei)"
    by (simp add: e rev_map [symmetric] sum_list.append [symmetric] map_append [symmetric] del: sum_list.append map_append)
  ultimately have ins: "sum_list (map in_amount (bt_input tx0)) = outputs_value (reserve # rest) + fee + rv + sum_list (map in_amount ei)"
    using sum by simp
  have "outs @ bt_output tx0 = (reserve # rest) @ rev eo" using r e(2) by (metis append_take_drop_id rev_rev_ident)
  then have "outputs_value (outs @ bt_output tx0) = outputs_value ((reserve # rest) @ rev eo)" by (rule arg_cong)
  then have "outputs_value outs + outputs_value (bt_output tx0) = outputs_value (reserve # rest) + outputs_value eo"
    by (simp add: rev_map [symmetric])
  moreover have "outputs_value outs = 0" using outs by (auto simp: Checkpoint_additional_outputs_def)
  ultimately have "outputs_value (bt_output tx0) = outputs_value (reserve # rest) + outputs_value eo" by simp
  with ins one show "cp_reserve cp = int fee + int rv + int (sum_list (map in_amount ei)) - int (outputs_value eo)"
    "int fee \<le> int (sum_list (map in_amount (bt_input (hd (ba_batch (cp_batches cp ! 2))))))"
    by (simp_all add: cp_reserve_def)
qed

lemma carry_inputs_amount: "map_result carry_input ei = Ok eis \<Longrightarrow> map in_amount eis = map in_amount ei"
  by (induction ei arbitrary: eis) (auto simp: carry_input_def)

lemma open_checkpoint_value:
  assumes "open_checkpoint L config ss rate op rv ei eo ((Checkpoint_new ss')\<lparr>cp_deposits_enabled := dep\<rparr>) = Ok (cp', u)"
  shows "cp_reserve cp' = int rv + int (sum_list (map in_amount ei)) - int (outputs_value eo)" "cp_pending cp' = []" "wf_building cp'"
proof -
  obtain b tx input eis where o: "get_batch Checkpoint_batch ((Checkpoint_new ss')\<lparr>cp_deposits_enabled := dep\<rparr>) = Ok b" "get_tx b = Ok tx"
    "Input_new L op ss [0] rv (cc_sigset_threshold config) = Ok input" "map_result carry_input ei = Ok eis"
    "cp' = (set_batch Checkpoint_batch (set_tx (tx\<lparr>bt_input := bt_input tx @ input # eis,
        bt_output := bt_output tx @ eo\<rparr>) b) ((Checkpoint_new ss')\<lparr>cp_deposits_enabled := dep\<rparr>))\<lparr>cp_fee_rate := rate\<rparr>"
    by (rule open_checkpoint_Ok [OF assms])
  have "in_amount input = rv" using o(3) by (auto simp: Input_new_def Let_def)
  with o carry_inputs_amount [OF o(4)] show "cp_reserve cp' = int rv + int (sum_list (map in_amount ei)) - int (outputs_value eo)"
    "cp_pending cp' = []" "wf_building cp'"
    by (auto simp: Checkpoint_new_def get_batch_def get_tx_def set_batch_def set_tx_def cp_reserve_def wf_building_def
        Batch_default_def BitcoinTx_default_def)
qed

text \<open>The value spent by the checkpoint transaction being built, in units.\<close>

definition spendable :: "u64 \<Rightarrow> checkpoint_queue \<Rightarrow> nat" where
  "spendable U q = (if cq_queue q = [] then 0
     else U * sum_list (map in_amount (bt_input (hd (ba_batch (cp_batches (last (cq_queue q)) ! 2))))))"

lemma as_i64_id: "n < 2 ^ 63 \<Longrightarrow> as_i64 n = int n"
  by (simp add: as_i64_def Let_def)

text \<open>The queue after an advance: the reserve moves to the new checkpoint less the fee, the pending amounts stay.\<close>

lemma advance_moves:
  assumes all: "cq_queue q = olds @ cps @ [prev]" and wf: "\<forall>cp \<in> set (cq_queue q). wf_pending cp" "wf_building prev"
    and small: "spendable U q < 2 ^ 63"
    and adv: "BuildingCheckpoint_advance H L C bal rs ext commitment additional config prev = Ok (prev', op, rv, fee, ei, eo)"
    and opn: "open_checkpoint L config (cp_sigset prev) rate op rv ei eo ((Checkpoint_new ss)\<lparr>cp_deposits_enabled := dep\<rparr>) = Ok (cp', ())"
  shows "\<forall>c \<in> set (cps @ [prev', cp']). wf_pending c" and "wf_building cp'"
    and "queue_surplus U (cq_queue q) - pool \<le> queue_surplus U (cps @ [prev', cp']) - (pool - as_i64 (fee * U))"
proof -
  note v = advance_value [OF adv wf(2)] and o = open_checkpoint_value [OF opn]
  note keep = advance_keeps_sigset(3) [OF adv]
  have last: "last (cq_queue q) = prev" "cq_queue q \<noteq> []" using all by auto
  have "fee \<le> sum_list (map in_amount (bt_input (hd (ba_batch (cp_batches prev ! 2)))))" using v(2) by linarith
  then have "fee * U \<le> spendable U q" using last by (simp add: spendable_def mult.commute)
  then have fee: "as_i64 (fee * U) = int U * int fee" using small by (simp add: as_i64_id mult.commute)
  have res: "cp_reserve cp' = cp_reserve prev - int fee" using v(1) o(1) by simp
  have "sum_list (map cp_owed (cps @ [prev', cp'])) = sum_list (map cp_owed cps) + cp_owed prev"
    using keep o(2) by (simp add: cp_owed_def)
  then have owed: "sum_list (map cp_owed (cps @ [prev', cp'])) \<le> sum_list (map cp_owed (cq_queue q))" by (simp add: all)
  have "queue_surplus U (cq_queue q) = int U * cp_reserve prev - int (sum_list (map cp_owed (cq_queue q)))"
    using last by (simp add: queue_surplus_def)
  moreover have "queue_surplus U (cps @ [prev', cp']) = int U * cp_reserve prev - int U * int fee - int (sum_list (map cp_owed (cps @ [prev', cp'])))"
    by (simp add: queue_surplus_def res right_diff_distrib)
  ultimately show "queue_surplus U (cq_queue q) - pool \<le> queue_surplus U (cps @ [prev', cp']) - (pool - as_i64 (fee * U))"
    using owed fee by linarith
  show "\<forall>c \<in> set (cps @ [prev', cp']). wf_pending c" using wf(1) keep o(2) by (auto simp: all wf_pending_def)
  show "wf_building cp'" by (rule o(3))
qed

lemma maybe_step_moves:
  assumes cq: "cq_inv q" and wf: "\<forall>cp \<in> set (cq_queue q). wf_pending cp" "cq_queue q \<noteq> [] \<longrightarrow> wf_building (last (cq_queue q))"
    and small: "spendable U q < 2 ^ 63"
    and m: "CheckpointQueue_maybe_step H L C keys bal rs ext h dep commitment pool U q = Ok (b, q', pool')"
  shows "(\<forall>cp \<in> set (cq_queue q'). wf_pending cp) \<and> (cq_queue q' \<noteq> [] \<longrightarrow> wf_building (last (cq_queue q')))
    \<and> queue_surplus U (cq_queue q) - pool \<le> queue_surplus U (cq_queue q') - pool'"
  using m
proof (rule maybe_step_Ok)
  assume "q' = q" "pool' = pool"
  then show ?thesis using wf by simp
next
  fix q1 q2 assume s: "CheckpointQueue_should_push L C keys commitment h q = Ok True"
     "CheckpointQueue_maybe_push L C keys dep q = Ok (Some q1)" "CheckpointQueue_prune q1 = Ok q2"
    and step: "if cq_index q2 > 0 then step_from H L C bal rs ext h commitment pool U q2 = Ok (q', pool')
      else q' = q2 \<and> pool' = pool"
  from push_prune_Ok [OF cq s] obtain n ss where ix: "cq_indexed (cq_index q2) (cq_queue q2)"
    and q2: "q2 = q\<lparr>cq_index := (if cq_queue q = [] then 0 else Suc (cq_index q)),
       cq_queue := drop n (cq_queue q @ [(Checkpoint_new ss)\<lparr>cp_deposits_enabled := dep\<rparr>])\<rparr>"
    and n: "n = 0 \<or> n + 9 \<le> length (cq_queue q)" .
  let ?new = "(Checkpoint_new ss)\<lparr>cp_deposits_enabled := dep\<rparr>"
  show ?thesis
  proof (cases "cq_queue q = []")
    case True
    with step q2 n have "q' = q2" "pool' = pool" "cq_queue q' = [?new]" by auto
    then show ?thesis using True
      by (simp add: queue_surplus_def cp_reserve_def cp_owed_def wf_pending_def wf_building_def Checkpoint_new_def
          Batch_default_def BitcoinTx_default_def Let_def)
  next
    case False
    with step q2 have st: "step_from H L C bal rs ext h commitment pool U q2 = Ok (q', pool')" by simp
    obtain cps prev prev' cp cp' additional op rv fee ei eo rate where
      d: "cq_queue q2 = cps @ [prev, cp]" "q' = q2\<lparr>cq_queue := cps @ [prev', cp']\<rparr>"
      and adv: "BuildingCheckpoint_advance H L C bal rs ext commitment additional (cq_config q2) prev = Ok (prev', op, rv, fee, ei, eo)"
      and pool': "pool' = pool - as_i64 (fee * U)"
      and opn: "open_checkpoint L (cq_config q2) (cp_sigset prev) rate op rv ei eo cp = Ok (cp', ())"
      by (rule step_from_Ok [OF st ix])
    have le: "n \<le> length (cq_queue q)" using n False by auto
    have "drop n (cq_queue q) @ [?new] = (cps @ [prev]) @ [cp]" using d(1) q2 le by simp
    then have old: "drop n (cq_queue q) = cps @ [prev]" and cp: "cp = ?new" by (simp_all only: append1_eq_conv)
    have all: "cq_queue q = take n (cq_queue q) @ cps @ [prev]" using old by (metis append_take_drop_id)
    then have "last (cq_queue q) = prev" by (metis append_assoc last_snoc)
    then have "wf_building prev" using wf(2) False by simp
    note moves = advance_moves [OF all wf(1) this small adv opn [unfolded cp]]
    show ?thesis using moves(1,2) moves(3) [of pool] by (simp add: d(2) pool')
  qed
qed

lemma begin_block_step_Ok:
  assumes inv: "bridge_inv U s" and small: "spendable U (bc_checkpoints s) < 2 ^ 63"
    and m: "Bitcoin_begin_block_step H L C ext commitment s = (Ok offline, s')"
  shows "bridge_inv U s'" "surplus U s \<le> surplus U s'"
proof -
  from m inv obtain dep b q pool where
    step: "CheckpointQueue_maybe_step H L C (SignatoryKeys_map (bc_signatory_keys s)) (bc_accounts s) (bc_recovery_scripts s)
      ext (HeaderQueue_height (bc_headers s)) dep commitment (bc_fee_pool s) U (bc_checkpoints s) = Ok (b, q, pool)"
    and s': "s' = s\<lparr>bc_checkpoints := q, bc_fee_pool := pool\<rparr>"
    by (auto simp: Bitcoin_begin_block_step_def bridge_inv_def split: if_splits)
  have cq: "cq_inv (bc_checkpoints s)" "\<forall>cp \<in> set (cq_queue (bc_checkpoints s)). wf_pending cp"
    "cq_queue (bc_checkpoints s) \<noteq> [] \<longrightarrow> wf_building (last (cq_queue (bc_checkpoints s)))"
    using inv by (simp_all add: bridge_inv_def)
  from maybe_step_moves [OF cq small step] cq_inv_maybe_step [OF cq(1) step] inv
  show "bridge_inv U s'" "surplus U s \<le> surplus U s'" by (auto simp: s' bridge_inv_def surplus_def)
qed

section \<open>What the queue keeps\<close>

text \<open>The inputs of the checkpoint transactions; deposits and block steps alone change them.\<close>

definition cp_inputs :: "checkpoint \<Rightarrow> input list" where
  "cp_inputs cp = bt_input (hd (ba_batch (cp_batches cp ! 2)))"

definition queue_inputs :: "bitcoin \<Rightarrow> input list list" where
  "queue_inputs s = map cp_inputs (cq_queue (bc_checkpoints s))"

lemma spendable_inputs:
  "spendable U (bc_checkpoints s) = (if queue_inputs s = [] then 0 else U * sum_list (map in_amount (last (queue_inputs s))))"
  by (simp add: spendable_def queue_inputs_def cp_inputs_def last_map)

lemma keeps_get_mut:
  assumes "\<And>cp cp' a. f cp = Ok (cp', a) \<Longrightarrow> cp_inputs cp' = cp_inputs cp" and "CheckpointQueue_get_mut q i f = Ok (q', a)"
  shows "map cp_inputs (cq_queue q') = map cp_inputs (cq_queue q)"
proof -
  from assms(2) obtain j cp where "j < length (cq_queue q)" "f (cq_queue q ! j) = Ok (cp, a)"
    "q' = q\<lparr>cq_queue := (cq_queue q)[j := cp]\<rparr>"
    by (auto simp: CheckpointQueue_get_mut_def split: if_splits)
  with assms(1) show ?thesis by (simp add: map_update list_update_same_conv)
qed

lemma keeps_building_mut:
  assumes "\<And>cp cp' a. f cp = Ok (cp', a) \<Longrightarrow> cp_inputs cp' = cp_inputs cp"
  shows "keeps queue_inputs (building_mut f)"
  unfolding keeps_def
proof
  fix s
  show "queue_inputs (snd (building_mut f s)) = queue_inputs s"
    by (cases "CheckpointQueue_get_mut (bc_checkpoints s) (cq_index (bc_checkpoints s)) f")
      (use keeps_get_mut [OF assms] in \<open>auto simp: building_mut_def cbind_def reads_def modify_def lift_result_def queue_inputs_def
         split: prod.splits\<close>)
qed

lemma keeps_accounts_withdraw [keeps_intros]: "keeps queue_inputs (accounts_withdraw L a n)"
  unfolding accounts_withdraw_def by (intro keeps_intros) (simp add: queue_inputs_def)

lemma keeps_accounts_deposit [keeps_intros]: "keeps queue_inputs (accounts_deposit L a n)"
  unfolding accounts_deposit_def by (intro keeps_intros) (simp add: queue_inputs_def)

lemma keeps_reward_pool_give [keeps_intros]: "keeps queue_inputs (reward_pool_give L n)"
  unfolding reward_pool_give_def by (intro keeps_intros) (simp add: queue_inputs_def)

lemma keeps_give_miner_fee [keeps_intros]: "keeps queue_inputs (Bitcoin_give_miner_fee n)"
  unfolding Bitcoin_give_miner_fee_def
  by (intro keeps_intros keeps_building_mut) (auto simp: queue_inputs_def cp_inputs_def)

lemma keeps_give_rewards [keeps_intros]: "keeps queue_inputs (Bitcoin_give_rewards L n)"
  unfolding Bitcoin_give_rewards_def [abs_def] Let_def by (rule keeps_self) (intro keeps_intros)

lemma keeps_add_withdrawal [keeps_intros]: "keeps queue_inputs (Bitcoin_add_withdrawal L script n)"
  unfolding Bitcoin_add_withdrawal_def
  by (intro keeps_intros keeps_building_mut, simp only: split_def, intro keeps_intros keeps_building_mut)
    (auto simp: cp_inputs_def edit_checkpoint_tx_def get_batch_def get_tx_def set_batch_def set_tx_def split: list.splits if_splits)

section \<open>What a deposit changes\<close>

text \<open>The relay of a deposit adds its outpoint to the processed ones.\<close>

lemma keeps_outpoints_building_mut [keeps_intros]: "keeps bc_processed_outpoints (building_mut f)"
  unfolding building_mut_def split_def by (intro keeps_intros) simp

lemma keeps_outpoints_accounts [keeps_intros]:
  "keeps bc_processed_outpoints (accounts_withdraw L a n)" "keeps bc_processed_outpoints (accounts_deposit L a n)"
  "keeps bc_processed_outpoints (reward_pool_give L n)"
  unfolding accounts_withdraw_def accounts_deposit_def reward_pool_give_def by (intro keeps_intros, simp)+

lemma keeps_outpoints_fees [keeps_intros]:
  "keeps bc_processed_outpoints (Bitcoin_give_miner_fee n)" "keeps bc_processed_outpoints (Bitcoin_insert_pending L dest n sender)"
  unfolding Bitcoin_give_miner_fee_def Bitcoin_insert_pending_def by (intro keeps_intros; simp)+

lemma keeps_outpoints_mint: "keeps bc_processed_outpoints (mint_deposit L op v cp bytes dest)"
  unfolding mint_deposit_def split_def by (intro keeps_intros)

lemma keeps_outpoints_recover: "keeps bc_processed_outpoints (recover_deposit L tx vout ss dest)"
  unfolding recover_deposit_def by (intro keeps_intros) simp

lemma relay_deposit_outpoints:
  assumes "Bitcoin_relay_deposit L C tx h pf vout i dest s = (Ok u, s')"
  shows "\<not> OutpointSet_contains (bc_processed_outpoints s) (tx_txid L tx, vout)"
    "OutpointSet_contains (bc_processed_outpoints s') o1 \<longleftrightarrow> o1 = (tx_txid L tx, vout) \<or> OutpointSet_contains (bc_processed_outpoints s) o1"
proof -
  from assms obtain seconds cp commitment timeout where
    new: "\<not> OutpointSet_contains (bc_processed_outpoints s) (tx_txid L tx, vout)"
    and m: "(if timeout < as_u64 seconds then recover_deposit L tx vout (cp_sigset cp) dest
      else mint_deposit L (tx_txid L tx, vout) (to_value (tr_output tx ! vout)) cp commitment dest)
       (bc_processed_outpoints_update (OutpointSet_insert (tx_txid L tx, vout) timeout) s) = (Ok u, s')"
    by (rule relay_deposit_cases)
  show "\<not> OutpointSet_contains (bc_processed_outpoints s) (tx_txid L tx, vout)" by (rule new)
  have "bc_processed_outpoints s' = OutpointSet_insert (tx_txid L tx, vout) timeout (bc_processed_outpoints s)"
    using keepsD [OF keeps_outpoints_mint] keepsD [OF keeps_outpoints_recover] m by (fastforce split: if_splits)
  then show "OutpointSet_contains (bc_processed_outpoints s') o1
      \<longleftrightarrow> o1 = (tx_txid L tx, vout) \<or> OutpointSet_contains (bc_processed_outpoints s) o1" by simp
qed

text \<open>What the checks of a deposit read of the chain, beside the processed outpoints; no deposit changes it.\<close>

definition deposit_view :: "bitcoin \<Rightarrow> header_queue \<times> bitcoin_config \<times> checkpoint_config \<times> u32 \<times> signatory_set list" where
  "deposit_view s = (bc_headers s, bc_config s, cq_config (bc_checkpoints s), cq_index (bc_checkpoints s), map cp_sigset (cq_queue (bc_checkpoints s)))"

lemma deposit_view_get:
  assumes "deposit_view s' = deposit_view s" and "CheckpointQueue_get (bc_checkpoints s') k = Ok cp'"
  shows "\<exists>cp. CheckpointQueue_get (bc_checkpoints s) k = Ok cp \<and> cp_sigset cp = cp_sigset cp'"
proof -
  have sets: "map cp_sigset (cq_queue (bc_checkpoints s')) = map cp_sigset (cq_queue (bc_checkpoints s))"
    and index: "cq_index (bc_checkpoints s') = cq_index (bc_checkpoints s)" using assms(1) by (simp_all add: deposit_view_def)
  have n: "length (cq_queue (bc_checkpoints s')) = length (cq_queue (bc_checkpoints s))" using sets by (rule map_eq_imp_length_eq)
  then have d: "CheckpointQueue_get_deque_index (bc_checkpoints s') k = CheckpointQueue_get_deque_index (bc_checkpoints s) k"
    using index by (simp add: CheckpointQueue_get_deque_index_def)
  with assms(2) obtain j where j: "CheckpointQueue_get_deque_index (bc_checkpoints s) k = Ok j" "j < length (cq_queue (bc_checkpoints s'))"
    "cp' = cq_queue (bc_checkpoints s') ! j"
    by (auto simp: CheckpointQueue_get_def split: if_split_asm)
  have "cp_sigset (cq_queue (bc_checkpoints s) ! j) = cp_sigset cp'"
    using sets j n by (metis nth_map)
  with j n show ?thesis by (simp add: CheckpointQueue_get_def)
qed

lemma keeps_view_building_mut:
  assumes "\<And>cp cp' a. f cp = Ok (cp', a) \<Longrightarrow> cp_sigset cp' = cp_sigset cp"
  shows "keeps deposit_view (building_mut f)"
  unfolding keeps_def
proof
  fix s
  show "deposit_view (snd (building_mut f s)) = deposit_view s"
    by (auto simp: building_mut_def cbind_def reads_def modify_def lift_result_def deposit_view_def CheckpointQueue_get_mut_def
        map_update list_update_same_conv split: prod.splits result.splits if_splits dest!: assms)
qed

lemma keeps_view_fees [keeps_intros]:
  "keeps deposit_view (Bitcoin_give_miner_fee n)" "keeps deposit_view (Bitcoin_insert_pending L dest n sender)"
  unfolding Bitcoin_give_miner_fee_def Bitcoin_insert_pending_def
  by (intro keeps_intros keeps_view_building_mut; auto simp: deposit_view_def)+

lemma edit_checkpoint_tx_sigset: "edit_checkpoint_tx f cp = Ok (cp', u) \<Longrightarrow> cp_sigset cp' = cp_sigset cp"
  by (auto simp: edit_checkpoint_tx_def set_batch_def)

lemma keeps_view_mint: "keeps deposit_view (mint_deposit L op v cp bytes dest)"
  unfolding mint_deposit_def split_def
  by (intro keeps_intros keeps_view_building_mut) (erule edit_checkpoint_tx_sigset)

lemma keeps_view_recover: "keeps deposit_view (recover_deposit L tx vout ss dest)"
  unfolding recover_deposit_def by (intro keeps_intros) (simp add: deposit_view_def)

lemma relay_deposit_view:
  assumes "Bitcoin_relay_deposit L C tx h pf vout i dest s = (Ok u, s')"
  shows "deposit_view s' = deposit_view s"
proof -
  from assms obtain seconds cp commitment timeout where
    m: "(if timeout < as_u64 seconds then recover_deposit L tx vout (cp_sigset cp) dest
      else mint_deposit L (tx_txid L tx, vout) (to_value (tr_output tx ! vout)) cp commitment dest)
       (bc_processed_outpoints_update (OutpointSet_insert (tx_txid L tx, vout) timeout) s) = (Ok u, s')"
    by (rule relay_deposit_cases)
  have "deposit_view (bc_processed_outpoints_update (OutpointSet_insert (tx_txid L tx, vout) timeout) s) = deposit_view s"
    by (simp add: deposit_view_def)
  with keepsD [OF keeps_view_mint] keepsD [OF keeps_view_recover] m show ?thesis by (fastforce split: if_splits)
qed

end
