(* ===== verification/App_Bridge.thy ===== *)
theory App_Bridge
  imports Bridge_Ledger
begin

text \<open>
  The part of the application that moves nBTC (\<open>InnerApp\<close> in src/src/app.rs): the calls that reach
  the bridge, transfers over IBC, the crediting of pending transfers when a checkpoint completes, and
  the bridge's part of \<open>begin_block\<close>. The IBC module of orga is a parameter, a state of type \<open>'i\<close> with
  the operations of \<open>app_lib\<close>. Staking, airdrops, upgrades and faucets are not in this model.
\<close>

section \<open>State\<close>

record 'i inner_app =
  ap_bitcoin :: bitcoin
  ap_ibc :: 'i
  ap_reward_timer :: int

text \<open>An ICS-20 transfer message, and a transfer that the IBC module received.\<close>

record msg_transfer =
  mt_port :: string
  mt_channel :: string
  mt_amount :: u64
  mt_receiver :: string
  mt_sender :: string
  mt_memo :: string
  mt_timeout_timestamp :: u64

record incoming_transfer =
  it_denom :: string
  it_receiver :: string
  it_amount :: u64
  it_memo :: string

record 'i app_lib = btc_lib +
  mint_coins_execute :: "address \<Rightarrow> u64 \<Rightarrow> ('i, unit) call"
  burn_coins_execute :: "address \<Rightarrow> u64 \<Rightarrow> ('i, unit) call"
  deliver_message :: "msg_transfer \<Rightarrow> ('i, unit) call"
  ibc_deliver_all :: "bytes \<Rightarrow> ('i, incoming_transfer list) call"
  symbol_balance :: "address \<Rightarrow> 'i \<Rightarrow> u64 result"
  parse_dest :: "string \<Rightarrow> dest option"
  amount_mul_decimal :: "u64 \<Rightarrow> nat \<Rightarrow> nat \<Rightarrow> u64 result"  \<comment> \<open>\<open>(amount * (n / d))?.amount()\<close>\<close>

definition on_bitcoin :: "(bitcoin, 'a) call \<Rightarrow> ('i inner_app, 'a) call" where
  "on_bitcoin m app = (let (r, b) = m (ap_bitcoin app) in (r, app\<lparr>ap_bitcoin := b\<rparr>))"

definition on_ibc :: "('i, 'a) call \<Rightarrow> ('i inner_app, 'a) call" where
  "on_ibc m app = (let (r, i) = m (ap_ibc app) in (r, app\<lparr>ap_ibc := i\<rparr>))"

text \<open>\<open>if let Err(err) = m { log::debug!(..) }\<close>: an error is logged and dropped, a panic is not.\<close>

definition log_error :: "('s, unit) call \<Rightarrow> ('s, unit) call" where
  "log_error m s = (let (r, s') = m s in (if r = Err Panic then Err Panic else Ok (), s'))"

definition IBC_FEE_USATS :: u64 where "IBC_FEE_USATS = 1000000"
definition CALL_FEE_USATS :: u64 where "CALL_FEE_USATS = 100000000"
definition REWARD_TIMER_PERIOD :: int where "REWARD_TIMER_PERIOD = 120"

definition ibc_fee :: "('i, 'm) app_lib_scheme \<Rightarrow> u64 \<Rightarrow> u64 result" where
  "ibc_fee L amount = amount_mul_decimal L amount 5 1000"

definition InnerApp_signer :: "ctx \<Rightarrow> address result" where
  "InnerApp_signer C =
     rbind (ok_or (SignerCtx ''No Signer context available'') (cx_signer C)) (ok_or (Coins ''Unauthorized account action''))"

text \<open>
  The rewards that a staker has claimed are the funds paid with the call. \<open>give_from_funding_all\<close> of orga, for NOM and
  for the balances of nBTC, is a parameter.
\<close>

definition InnerApp_deposit_rewards ::
  "unit result \<Rightarrow> ((address \<Rightarrow> u64) \<Rightarrow> (address \<Rightarrow> u64) result) \<Rightarrow> ('i inner_app, unit) call" where
  "InnerApp_deposit_rewards give_nom give_nbtc =
     cbind (lift_result give_nom) (\<lambda>_.
     on_bitcoin (cbind (reads (\<lambda>s. give_nbtc (bc_accounts s))) (\<lambda>accounts. modify (bc_accounts_update (\<lambda>_. accounts)))))"

section \<open>Transfers over IBC\<close>

definition IbcDest_transfer ::
  "('i, 'm) app_lib_scheme \<Rightarrow> ibc_dest \<Rightarrow> u64 \<Rightarrow> ('i inner_app, unit) call" where
  "IbcDest_transfer L d coins =
     cbind (if IbcDest_is_fee_exempt L d then lift_result (Ok coins)
            else
            cbind (lift_result (ibc_fee L coins)) (\<lambda>fee_amount.
            cbind (lift_result (coin_take L coins fee_amount)) (\<lambda>(fee, coins).
            cbind (on_bitcoin (Bitcoin_give_rewards L fee)) (\<lambda>_.
            lift_result (Ok coins))))) (\<lambda>coins.
     cbind (lift_result (IbcDest_sender_address L d)) (\<lambda>sender.
     cbind (on_ibc (mint_coins_execute L sender coins)) (\<lambda>_.
     cbind (lift_result (IbcDest_source_port L d)) (\<lambda>port.
     cbind (lift_result (IbcDest_source_channel L d)) (\<lambda>channel.
     log_error (on_ibc (deliver_message L \<lparr>mt_port = port, mt_channel = channel, mt_amount = coins,
       mt_receiver = ib_receiver d, mt_sender = ib_sender d, mt_memo = ib_memo d,
       mt_timeout_timestamp = ib_timeout_timestamp d\<rparr>)))))))"

definition InnerApp_ibc_transfer_nbtc ::
  "('i, 'm) app_lib_scheme \<Rightarrow> ctx \<Rightarrow> ibc_dest \<Rightarrow> u64 \<Rightarrow> ('i inner_app, unit) call" where
  "InnerApp_ibc_transfer_nbtc L C d amount =
     cbind (lift_result (exempt_from_fee C)) (\<lambda>_.
     cbind (lift_result (IbcDest_validate L d)) (\<lambda>_.
     cbind (lift_result (InnerApp_signer C)) (\<lambda>signer.
     cbind (on_bitcoin (accounts_withdraw L signer amount)) (\<lambda>coins.
     cbind (lift_result (if IbcDest_is_fee_exempt L d then Ok IBC_FEE_USATS else ibc_fee L amount)) (\<lambda>fee.
     cbind (lift_result (coin_take L coins fee)) (\<lambda>(fee, coins).
     cbind (on_bitcoin (Bitcoin_give_rewards L fee)) (\<lambda>_.
     cbind (lift_result (Identity_from_signer C)) (\<lambda>sender.
     on_bitcoin (Bitcoin_insert_pending L (Ibc_dest d) coins sender)))))))))"

definition InnerApp_ibc_withdraw_nbtc ::
  "('i, 'm) app_lib_scheme \<Rightarrow> ctx \<Rightarrow> u64 \<Rightarrow> ('i inner_app, unit) call" where
  "InnerApp_ibc_withdraw_nbtc L C amount =
     cbind (lift_result (exempt_from_fee C)) (\<lambda>_.
     cbind (lift_result (InnerApp_signer C)) (\<lambda>signer.
     cbind (on_ibc (burn_coins_execute L signer amount)) (\<lambda>_.
     on_bitcoin (accounts_deposit L signer amount))))"

definition InnerApp_escrowed_nbtc :: "('i, 'm) app_lib_scheme \<Rightarrow> address \<Rightarrow> 'i inner_app \<Rightarrow> u64 result" where
  "InnerApp_escrowed_nbtc L addr app = symbol_balance L addr (ap_ibc app)"

definition InnerApp_claim_escrowed_nbtc :: "('i, 'm) app_lib_scheme \<Rightarrow> ctx \<Rightarrow> ('i inner_app, unit) call" where
  "InnerApp_claim_escrowed_nbtc L C =
     cbind (lift_result (InnerApp_signer C)) (\<lambda>signer.
     cbind (reads (InnerApp_escrowed_nbtc L signer)) (\<lambda>balance.
     InnerApp_ibc_withdraw_nbtc L C balance))"

definition InnerApp_deduct_nbtc_fee :: "('i, 'm) app_lib_scheme \<Rightarrow> ctx \<Rightarrow> u64 \<Rightarrow> ('i inner_app, unit) call" where
  "InnerApp_deduct_nbtc_fee L C amount =
     cbind (lift_result (InnerApp_signer C)) (\<lambda>signer.
     cbind (on_bitcoin (accounts_withdraw L signer amount)) (\<lambda>fee.
     on_bitcoin (Bitcoin_give_rewards L fee)))"

definition InnerApp_pay_nbtc_fee :: "('i, 'm) app_lib_scheme \<Rightarrow> ctx \<Rightarrow> ('i inner_app, unit) call" where
  "InnerApp_pay_nbtc_fee L C = InnerApp_deduct_nbtc_fee L C CALL_FEE_USATS"

text \<open>The loop of \<open>ibc_deliver\<close> over the transfers received.\<close>

fun receive_transfers :: "('i, 'm) app_lib_scheme \<Rightarrow> incoming_transfer list \<Rightarrow> ('i inner_app, unit) call" where
  "receive_transfers L [] = lift_result (Ok ())"
| "receive_transfers L (t # ts) =
     (if it_denom t \<noteq> ''usat'' \<or> it_memo t = [] then receive_transfers L ts
      else
      cbind (lift_result (map_err (\<lambda>_. Coins ''Invalid address'') (parse_address L (it_receiver t)))) (\<lambda>receiver.
      case parse_dest L (it_memo t) of
        None \<Rightarrow> receive_transfers L ts
      | Some dest \<Rightarrow>
          cbind (on_ibc (burn_coins_execute L receiver (it_amount t))) (\<lambda>_.
          cbind (on_bitcoin (Bitcoin_insert_pending L dest (it_amount t) Identity_None)) (\<lambda>_.
          receive_transfers L ts))))"

definition InnerApp_ibc_deliver :: "('i, 'm) app_lib_scheme \<Rightarrow> ctx \<Rightarrow> bytes \<Rightarrow> ('i inner_app, unit) call" where
  "InnerApp_ibc_deliver L C messages =
     cbind (InnerApp_deduct_nbtc_fee L C IBC_FEE_USATS) (\<lambda>_.
     cbind (on_ibc (ibc_deliver_all L messages)) (receive_transfers L))"

section \<open>Crediting destinations\<close>

definition InnerApp_validate_dest ::
  "('i, 'm) app_lib_scheme \<Rightarrow> dest \<Rightarrow> u64 \<Rightarrow> 'i inner_app \<Rightarrow> unit result" where
  "InnerApp_validate_dest L dest amount app =
     (case dest of
        NativeAccount _ \<Rightarrow> Ok ()
      | Ibc_dest data \<Rightarrow> IbcDest_validate L data
      | RewardPool \<Rightarrow> Ok ()
      | Bitcoin_dest script \<Rightarrow> Bitcoin_validate_withdrawal L script amount (ap_bitcoin app)
      | AdjustEmergencyDisbursalBalance _ _ \<Rightarrow> Ok ())"

definition InnerApp_credit_dest :: "('i, 'm) app_lib_scheme \<Rightarrow> dest \<Rightarrow> u64 \<Rightarrow> ('i inner_app, unit) call" where
  "InnerApp_credit_dest L dest nbtc =
     (case dest of
        NativeAccount addr \<Rightarrow> on_bitcoin (accounts_deposit L addr nbtc)
      | Ibc_dest d \<Rightarrow> IbcDest_transfer L d nbtc
      | RewardPool \<Rightarrow> on_bitcoin (Bitcoin_give_rewards L nbtc)
      | Bitcoin_dest script \<Rightarrow> on_bitcoin (Bitcoin_add_withdrawal L script nbtc)
      | AdjustEmergencyDisbursalBalance _ _ \<Rightarrow> lift_result (Ok ()))"

text \<open>What \<open>try_credit_dest\<close> does with coins it could not credit.\<close>

definition return_to_sender :: "('i, 'm) app_lib_scheme \<Rightarrow> u64 \<Rightarrow> identity \<Rightarrow> ('i inner_app, unit) call" where
  "return_to_sender L coins sender =
     (case sender of
        Identity_NativeAccount addr \<Rightarrow> on_bitcoin (accounts_deposit L addr coins)
      | Identity_None \<Rightarrow> lift_result (Ok ()))"

definition InnerApp_try_credit_dest ::
  "('i, 'm) app_lib_scheme \<Rightarrow> dest \<Rightarrow> u64 \<Rightarrow> identity \<Rightarrow> ('i inner_app, unit) call" where
  "InnerApp_try_credit_dest L dest coins sender app =
     (case InnerApp_validate_dest L dest coins app of
        Err Panic \<Rightarrow> (Err Panic, app)
      | Err _ \<Rightarrow> return_to_sender L coins sender app
      | Ok _ \<Rightarrow>
          cbind (lift_result (coin_take L coins coins)) (\<lambda>(taken, left) app.
          case InnerApp_credit_dest L dest taken app of
            (Ok _, app) \<Rightarrow> (Ok (), app)
          | (Err Panic, app) \<Rightarrow> (Err Panic, app)
          | (Err _, app) \<Rightarrow>
              cbind (lift_result (coin_give L left coins)) (\<lambda>coins. return_to_sender L coins sender) app) app)"

section \<open>The calls of the bridge\<close>

definition InnerApp_relay_deposit ::
  "('i, 'm) app_lib_scheme \<Rightarrow> ctx \<Rightarrow> transaction \<Rightarrow> u32 \<Rightarrow> bytes \<Rightarrow> u32 \<Rightarrow> u32 \<Rightarrow> dest \<Rightarrow> ('i inner_app, unit) call" where
  "InnerApp_relay_deposit L C btc_tx btc_height btc_proof btc_vout sigset_index dest =
     cbind (reads (\<lambda>app. Bitcoin_amount_after_deposit_fee L btc_tx btc_vout sigset_index dest (ap_bitcoin app))) (\<lambda>amount_after_fee.
     cbind (reads (InnerApp_validate_dest L dest amount_after_fee)) (\<lambda>_.
     on_bitcoin (Bitcoin_relay_deposit L C btc_tx btc_height btc_proof btc_vout sigset_index dest)))"

definition InnerApp_withdraw_nbtc :: "('i, 'm) app_lib_scheme \<Rightarrow> ctx \<Rightarrow> bytes \<Rightarrow> u64 \<Rightarrow> ('i inner_app, unit) call" where
  "InnerApp_withdraw_nbtc L C script_pubkey amount = on_bitcoin (Bitcoin_withdraw L C script_pubkey amount)"

definition RewardTimer_tick :: "int \<Rightarrow> int \<Rightarrow> (bool \<times> int) result" where
  "RewardTimer_tick now last_period =
     rbind (sub_i64 now last_period) (\<lambda>elapsed.
     Ok (if elapsed < REWARD_TIMER_PERIOD then (False, last_period) else (True, now)))"

fun credit_transfers ::
  "('i, 'm) app_lib_scheme \<Rightarrow> (dest \<times> u64 \<times> identity) list \<Rightarrow> ('i inner_app, unit) call" where
  "credit_transfers L [] = lift_result (Ok ())"
| "credit_transfers L ((dest, coins, sender) # ts) =
     cbind (InnerApp_try_credit_dest L dest coins sender) (\<lambda>_. credit_transfers L ts)"

text \<open>
  The payout of rewards at the end of \<open>begin_block\<close>: the coins that go to the stakers. The timer ticks
  whether or not there is anything to pay.
\<close>

definition pay_rewards :: "('i, 'm) app_lib_scheme \<Rightarrow> int \<Rightarrow> bool \<Rightarrow> ('i inner_app, u64) call" where
  "pay_rewards L now has_stake app =
     (let has_nbtc_rewards = bc_reward_pool (ap_bitcoin app) > 0 in
      cbind (reads (\<lambda>app. RewardTimer_tick now (ap_reward_timer app))) (\<lambda>(ticked, timer).
      cbind (modify (ap_reward_timer_update (\<lambda>_. timer))) (\<lambda>_.
      if ticked \<and> has_stake \<and> has_nbtc_rewards then
        cbind (reads (\<lambda>app. amount_mul_decimal L (bc_reward_pool (ap_bitcoin app)) 1 2377)) (\<lambda>reward_amount.
        cbind (reads (\<lambda>app. coin_take L (bc_reward_pool (ap_bitcoin app)) reward_amount)) (\<lambda>(reward, pool).
        cbind (modify (ap_bitcoin_update (bc_reward_pool_update (\<lambda>_. pool)))) (\<lambda>_.
        lift_result (Ok reward))))
      else lift_result (Ok 0))) app)"

text \<open>
  The bridge's part of \<open>begin_block\<close>, from \<open>take_pending\<close> on. The outputs that the Cosmos module
  builds when a checkpoint is due are an argument; the result is the offline signers, to be
  punished, and the coins for the stakers.
\<close>

definition InnerApp_begin_block_bridge ::
  "'h header_lib_scheme \<Rightarrow> ('i, 'm) app_lib_scheme \<Rightarrow> ctx \<Rightarrow> txout list result \<Rightarrow> bytes \<Rightarrow> int \<Rightarrow> bool
     \<Rightarrow> ('i inner_app, consensus_key list \<times> u64) call" where
  "InnerApp_begin_block_bridge H L C cosmos_outputs hash now has_stake =
     cbind (on_bitcoin Bitcoin_take_pending) (\<lambda>pending_nbtc_transfers.
     cbind (credit_transfers L pending_nbtc_transfers) (\<lambda>_.
     cbind (reads (\<lambda>app. Bitcoin_should_push_checkpoint L C (ap_bitcoin app))) (\<lambda>push.
     cbind (lift_result (if push then cosmos_outputs else Ok [])) (\<lambda>external_outputs.
     cbind (on_bitcoin (Bitcoin_begin_block_step H L C (map Ok external_outputs) hash)) (\<lambda>offline_signers.
     cbind (pay_rewards L now has_stake) (\<lambda>reward.
     lift_result (Ok (offline_signers, reward))))))))"

end
