(* ===== verification/App_Ledger.thy ===== *)
theory App_Ledger
  imports App_Bridge
begin

text \<open>
  The books of the whole application: the surplus of the bridge less the nBTC held by the IBC
  module and by the stakers, along every sequence of calls and blocks. The locale \<open>accounting\<close> is what a state machine
  needs for its books to stay balanced; it is interpreted on the steps of the application.
\<close>

section \<open>What failures leave behind\<close>

text \<open>
  A call that fails halfway keeps its changes, and \<open>try_credit_dest\<close> goes on after a failure. One
  credit can fail after it has changed something: a transfer over IBC whose minting is refused.
\<close>

lemma building_mut_Err:
  assumes "cq_inv (bc_checkpoints s)" and "cq_queue (bc_checkpoints s) \<noteq> []" and "building_mut f s = (Err e, s')"
  shows "f (last (cq_queue (bc_checkpoints s))) = Err e" "s' = s"
proof -
  let ?q = "bc_checkpoints s"
  have wf: "cq_indexed (cq_index ?q) (cq_queue ?q)" using assms(1) by (simp add: cq_inv_def)
  have n: "length (cq_queue ?q) \<le> Suc (cq_index ?q)" "0 < length (cq_queue ?q)" using wf assms(2) by (simp_all add: cq_indexed_def)
  then have "first_of ?q \<le> cq_index ?q" "cq_index ?q - first_of ?q = length (cq_queue ?q) - 1" by linarith+
  then have "CheckpointQueue_get_deque_index ?q (cq_index ?q) = Ok (length (cq_queue ?q) - 1)"
    by (simp only: get_deque_index_eq [OF wf]) simp
  moreover have "cq_queue ?q ! (length (cq_queue ?q) - 1) = last (cq_queue ?q)" using assms(2) by (simp add: last_conv_nth)
  ultimately show "f (last (cq_queue ?q)) = Err e" "s' = s"
    using assms(2,3) by (auto simp: building_mut_def cbind_Err CheckpointQueue_get_mut_def rbind_eq_Err)
qed

lemma accounts_deposit_Err: "accounts_deposit L a n s = (Err e, s') \<Longrightarrow> s' = s"
  by (auto simp: accounts_deposit_def cbind_Err)

lemma reward_pool_give_Err: "reward_pool_give L n s = (Err e, s') \<Longrightarrow> s' = s"
  by (auto simp: reward_pool_give_def cbind_Err)

lemma checked_Err: "add_w w a b = Err e \<Longrightarrow> e = Panic" "mul_w w a b = Err e \<Longrightarrow> e = Panic" "sub_u a b = Err e \<Longrightarrow> e = Panic"
  "div_u a b = Err e \<Longrightarrow> e = Panic" "add_i64 x y = Err e \<Longrightarrow> e = Panic"
  by (auto simp: add_w_def mul_w_def sub_u_def div_u_def add_i64_def split: if_splits)

lemma give_miner_fee_Err:
  assumes "cq_inv (bc_checkpoints s)" and "cq_queue (bc_checkpoints s) \<noteq> []" and "Bitcoin_give_miner_fee n s = (Err e, s')"
  shows "e = Panic"
  using assms(3) unfolding Bitcoin_give_miner_fee_def
proof (simp add: cbind_Err, elim disjE exE conjE)
  fix pool sats
  assume m: "building_mut (\<lambda>cp. rbind (add_u64 (cp_fees_collected cp) sats) (\<lambda>fees. Ok (cp\<lparr>cp_fees_collected := fees\<rparr>, ())))
     (s\<lparr>bc_fee_pool := pool\<rparr>) = (Err e, s')"
  have "cq_inv (bc_checkpoints (s\<lparr>bc_fee_pool := pool\<rparr>))" "cq_queue (bc_checkpoints (s\<lparr>bc_fee_pool := pool\<rparr>)) \<noteq> []"
    using assms(1,2) by simp_all
  from building_mut_Err(1) [OF this m] show "e = Panic" by (auto simp: rbind_eq_Err dest: checked_Err)
qed (auto dest: checked_Err)

lemma give_rewards_Err:
  assumes "cq_inv (bc_checkpoints s)" and "cq_queue (bc_checkpoints s) \<noteq> []"
    and "Bitcoin_give_rewards L n s = (Err e, s')" and "e \<noteq> Panic"
  shows "s' = s"
proof -
  have fee: False if "reward_pool_give L k s = (Ok (), s1)" "Bitcoin_give_miner_fee fee s1 = (Err e, s')" for k fee s1
  proof -
    have "bc_checkpoints s1 = bc_checkpoints s" using that(1) by (auto simp: reward_pool_give_def)
    with give_miner_fee_Err [OF _ _ that(2)] assms(1,2,4) show False by simp
  qed
  show ?thesis
    using assms(3,4) fee
    by (auto simp: Bitcoin_give_rewards_def cbind_Err Let_def dest: checked_Err reward_pool_give_Err split: if_splits)
qed

lemma add_withdrawal_Err:
  assumes "bridge_inv U s" and "cq_queue (bc_checkpoints s) \<noteq> []"
    and "Bitcoin_add_withdrawal L script n s = (Err e, s')" and "e \<noteq> Panic"
  shows "s' = s"
proof -
  have cq: "cq_inv (bc_checkpoints s)" using assms(1) by (simp add: bridge_inv_def)
  have fee: "\<not> Bitcoin_give_miner_fee f s = (Err e, s')" for f using give_miner_fee_Err [OF cq assms(2)] assms(4) by blast
  have out: False if "Bitcoin_give_miner_fee f s = (Ok (), s1)" "building_mut (edit_checkpoint_tx g) s1 = (Err e, s')" for f s1 g
  proof -
    have "queue_inputs s1 = queue_inputs s" using keeps_give_miner_fee that(1) by (rule keepsD)
    then have ne: "cq_queue (bc_checkpoints s1) \<noteq> []" using assms(2) by (auto simp: queue_inputs_def)
    have cq1: "cq_inv (bc_checkpoints s1)" using give_miner_fee_Ok(1) [OF assms(1) that(1)] by (simp add: bridge_inv_def)
    from building_mut_Err(1) [OF cq1 ne that(2)] assms(4) show False
      by (auto simp: edit_checkpoint_tx_def rbind_eq_Err get_batch_def get_tx_def split: if_splits list.splits)
  qed
  show ?thesis
    using assms(3,4) fee out by (auto simp: Bitcoin_add_withdrawal_def cbind_Err dest: checked_Err)
qed

section \<open>The books of the application\<close>

text \<open>
  What the IBC module promises about the nBTC in it, \<open>nbtc\<close>: minting puts coins in, or fails and
  creates none; burning takes them out, and messages do not create any.
\<close>

definition ibc_law :: "('i \<Rightarrow> nat) \<Rightarrow> ('i, 'm) app_lib_scheme \<Rightarrow> bool" where
  "ibc_law nbtc L \<longleftrightarrow>
     (\<forall>addr n i r i'. mint_coins_execute L addr n i = (r, i') \<longrightarrow> nbtc i' \<le> nbtc i + (if r = Ok () then n else 0))
     \<and> (\<forall>addr n i i'. burn_coins_execute L addr n i = (Ok (), i') \<longrightarrow> nbtc i' + n = nbtc i)
     \<and> (\<forall>msg i r i'. deliver_message L msg i = (r, i') \<longrightarrow> nbtc i' \<le> nbtc i)
     \<and> (\<forall>msgs i r i'. ibc_deliver_all L msgs i = (r, i') \<longrightarrow> nbtc i' \<le> nbtc i)"

lemma ibc_lawD:
  assumes "ibc_law nbtc L"
  shows "mint_coins_execute L addr n i = (r, i') \<Longrightarrow> nbtc i' \<le> nbtc i + (if r = Ok () then n else 0)"
    and "burn_coins_execute L addr n i = (Ok (), i') \<Longrightarrow> nbtc i' + n = nbtc i"
    and "deliver_message L msg i = (rm, i') \<Longrightarrow> nbtc i' \<le> nbtc i"
    and "ibc_deliver_all L msgs i = (rs, i') \<Longrightarrow> nbtc i' \<le> nbtc i"
  using assms unfolding ibc_law_def by blast+

definition app_surplus :: "('i \<Rightarrow> nat) \<Rightarrow> u64 \<Rightarrow> 'i inner_app \<Rightarrow> int" where
  "app_surplus nbtc U app = surplus U (ap_bitcoin app) - int (nbtc (ap_ibc app))"

abbreviation app_inv :: "u64 \<Rightarrow> 'i inner_app \<Rightarrow> bool" where
  "app_inv U app \<equiv> bridge_inv U (ap_bitcoin app)"

lemma on_bitcoin_eq [simp]:
  "on_bitcoin m app = (r, app') \<longleftrightarrow> (\<exists>b. m (ap_bitcoin app) = (r, b) \<and> app' = app\<lparr>ap_bitcoin := b\<rparr>)"
  by (auto simp: on_bitcoin_def split: prod.splits)

lemma on_ibc_eq [simp]:
  "on_ibc m app = (r, app') \<longleftrightarrow> (\<exists>i. m (ap_ibc app) = (r, i) \<and> app' = app\<lparr>ap_ibc := i\<rparr>)"
  by (auto simp: on_ibc_def split: prod.splits)

lemma keeps_on_bitcoin [keeps_intros]: "keeps f m \<Longrightarrow> keeps (\<lambda>app. f (ap_bitcoin app)) (on_bitcoin m)"
  by (auto simp: keeps_def on_bitcoin_def split: prod.splits) (metis snd_conv)

lemma keeps_on_ibc [keeps_intros]: "keeps (\<lambda>app. f (ap_bitcoin app)) (on_ibc m)"
  by (auto simp: keeps_def on_ibc_def split: prod.splits)

lemma log_error_Ok [simp]: "log_error m s = (Ok u, s') \<longleftrightarrow> (\<exists>r. m s = (r, s') \<and> r \<noteq> Err Panic)"
  by (auto simp: log_error_def split: prod.splits)

lemma log_error_Err [simp]: "log_error m s = (Err e, s') \<longleftrightarrow> e = Panic \<and> m s = (Err Panic, s')"
  by (auto simp: log_error_def split: prod.splits if_splits)

text \<open>The parts of \<open>IbcDest::transfer\<close>: the fee, the minting and the message.\<close>

definition ibc_fee_taken :: "('i, 'm) app_lib_scheme \<Rightarrow> ibc_dest \<Rightarrow> u64 \<Rightarrow> ('i inner_app, u64 \<times> u64) call" where
  "ibc_fee_taken L d n = (if IbcDest_is_fee_exempt L d then lift_result (Ok (0, n))
     else
     cbind (lift_result (ibc_fee L n)) (\<lambda>fee_amount.
     cbind (lift_result (coin_take L n fee_amount)) (\<lambda>(fee, coins).
     cbind (on_bitcoin (Bitcoin_give_rewards L fee)) (\<lambda>_.
     lift_result (Ok (fee, coins))))))"

text \<open>
  A transfer that the IBC module refuses to mint: the fee that is in the reward and fee pools by then, and the state
  that the failure leaves.
\<close>

definition refused_mint :: "('i, 'm) app_lib_scheme \<Rightarrow> ibc_dest \<Rightarrow> u64 \<Rightarrow> 'i inner_app \<Rightarrow> (u64 \<times> 'i inner_app) option" where
  "refused_mint L d n app =
     (case ibc_fee_taken L d n app of
        (Ok (fee, coins), app1) \<Rightarrow>
          (case IbcDest_sender_address L d of
             Err _ \<Rightarrow> None
           | Ok sender \<Rightarrow>
               (case on_ibc (mint_coins_execute L sender coins) app1 of
                  (Err e, app2) \<Rightarrow> if e = Panic then None else Some (fee, app2)
                | (Ok _, _) \<Rightarrow> None))
      | (Err _, _) \<Rightarrow> None)"

lemma refused_mint_Some:
  "refused_mint L d n app = Some (fee, app2) \<longleftrightarrow> (\<exists>coins app1 sender e i. ibc_fee_taken L d n app = (Ok (fee, coins), app1)
     \<and> IbcDest_sender_address L d = Ok sender \<and> mint_coins_execute L sender coins (ap_ibc app1) = (Err e, i) \<and> e \<noteq> Panic
     \<and> app2 = app1\<lparr>ap_ibc := i\<rparr>)"
  by (auto simp: refused_mint_def on_ibc_def split: prod.splits result.splits)

lemma ibc_transfer_fee: "IbcDest_transfer L d n = cbind (ibc_fee_taken L d n) (\<lambda>(fee, coins).
     cbind (lift_result (IbcDest_sender_address L d)) (\<lambda>sender.
     cbind (on_ibc (mint_coins_execute L sender coins)) (\<lambda>_.
     cbind (lift_result (IbcDest_source_port L d)) (\<lambda>port.
     cbind (lift_result (IbcDest_source_channel L d)) (\<lambda>channel.
     log_error (on_ibc (deliver_message L \<lparr>mt_port = port, mt_channel = channel, mt_amount = coins,
       mt_receiver = ib_receiver d, mt_sender = ib_sender d, mt_memo = ib_memo d,
       mt_timeout_timestamp = ib_timeout_timestamp d\<rparr>)))))))"
  by (rule ext) (auto simp: IbcDest_transfer_def ibc_fee_taken_def cbind_def lift_result_def split: result.splits prod.splits)

lemma ibc_fee_taken_Ok:
  assumes law: "coin_law L" and inv: "app_inv U app" and m: "ibc_fee_taken L d n app = (Ok (fee, coins), app1)"
  shows "app_inv U app1" "ap_ibc app1 = ap_ibc app" "n = fee + coins" "surplus U (ap_bitcoin app) - int fee \<le> surplus U (ap_bitcoin app1)"
proof -
  have "app_inv U app1 \<and> ap_ibc app1 = ap_ibc app \<and> n = fee + coins \<and> surplus U (ap_bitcoin app) - int fee \<le> surplus U (ap_bitcoin app1)"
  proof (cases "IbcDest_is_fee_exempt L d")
    case True
    with m inv show ?thesis by (simp add: ibc_fee_taken_def)
  next
    case False
    with m obtain fa b where "coin_take L n fa = Ok (fee, coins)" "Bitcoin_give_rewards L fee (ap_bitcoin app) = (Ok (), b)"
      "app1 = app\<lparr>ap_bitcoin := b\<rparr>" by (auto simp: ibc_fee_taken_def)
    with coin_lawD(1) [OF law] give_rewards_Ok [OF law inv] show ?thesis by fastforce
  qed
  then show "app_inv U app1" "ap_ibc app1 = ap_ibc app" "n = fee + coins" "surplus U (ap_bitcoin app) - int fee \<le> surplus U (ap_bitcoin app1)"
    by blast+
qed

lemma ibc_fee_taken_Err:
  assumes inv: "app_inv U app" and ne: "cq_queue (bc_checkpoints (ap_bitcoin app)) \<noteq> []"
    and m: "ibc_fee_taken L d n app = (Err e, app')" and e: "e \<noteq> Panic"
  shows "app' = app"
proof -
  have cq: "cq_inv (bc_checkpoints (ap_bitcoin app))" using inv by (simp add: bridge_inv_def)
  have "b = ap_bitcoin app" if "Bitcoin_give_rewards L k (ap_bitcoin app) = (Err e, b)" for k b
    using give_rewards_Err [OF cq ne that e] .
  with m show ?thesis by (auto simp: ibc_fee_taken_def cbind_Err split: if_splits)
qed

lemma ibc_transfer_Ok:
  assumes law: "coin_law L" "ibc_law nbtc L" and inv: "app_inv U app" and m: "IbcDest_transfer L d n app = (Ok u, app')"
  shows "app_inv U app'" "app_surplus nbtc U app - int n \<le> app_surplus nbtc U app'"
proof -
  from m obtain fee coins app1 addr i2 msg r i3 where
    fee: "ibc_fee_taken L d n app = (Ok (fee, coins), app1)"
    and mint: "mint_coins_execute L addr coins (ap_ibc app1) = (Ok (), i2)"
    and msg: "deliver_message L msg i2 = (r, i3)" and app': "app' = app1\<lparr>ap_ibc := i3\<rparr>"
    unfolding ibc_transfer_fee by auto
  note f = ibc_fee_taken_Ok [OF law(1) inv fee]
  have "nbtc i2 \<le> nbtc (ap_ibc app1) + coins" using ibc_lawD(1) [OF law(2) mint] by simp
  moreover have "nbtc i3 \<le> nbtc i2" by (rule ibc_lawD(3) [OF law(2) msg])
  ultimately show "app_inv U app'" "app_surplus nbtc U app - int n \<le> app_surplus nbtc U app'"
    using f by (auto simp: app' app_surplus_def)
qed

lemma ibc_transfer_Err:
  assumes inv: "app_inv U app" and ne: "cq_queue (bc_checkpoints (ap_bitcoin app)) \<noteq> []"
    and valid: "IbcDest_validate L d = Ok ()" and m: "IbcDest_transfer L d n app = (Err e, app')" and e: "e \<noteq> Panic"
  shows "app' = (case refused_mint L d n app of None \<Rightarrow> app | Some (_, app2) \<Rightarrow> app2)"
proof -
  obtain addr port channel where v: "IbcDest_sender_address L d = Ok addr" "IbcDest_source_port L d = Ok port"
    "IbcDest_source_channel L d = Ok channel" using valid by (auto simp: IbcDest_validate_def)
  from m v e consider "ibc_fee_taken L d n app = (Err e, app')"
    | fee coins app1 i where "ibc_fee_taken L d n app = (Ok (fee, coins), app1)" "mint_coins_execute L addr coins (ap_ibc app1) = (Err e, i)"
      "app' = app1\<lparr>ap_ibc := i\<rparr>"
    unfolding ibc_transfer_fee by (auto simp: cbind_Err)
  then show ?thesis
  proof cases
    case 1
    with ibc_fee_taken_Err [OF inv ne 1 e] show ?thesis by (simp add: refused_mint_def)
  next
    case 2
    with v e have "refused_mint L d n app = Some (fee, app')" by (auto simp: refused_mint_Some)
    then show ?thesis by simp
  qed
qed

text \<open>What a refused minting does to the books: the fee is owed twice, once it is returned with the rest.\<close>

lemma refused_mint_books:
  assumes law: "coin_law L" "ibc_law nbtc L" and inv: "app_inv U app" and m: "refused_mint L d n app = Some (fee, app')"
  shows "app_inv U app' \<and> app_surplus nbtc U app - int fee \<le> app_surplus nbtc U app'"
proof -
  from m obtain coins app1 sender e i where fee: "ibc_fee_taken L d n app = (Ok (fee, coins), app1)"
    and mint: "mint_coins_execute L sender coins (ap_ibc app1) = (Err e, i)" and app': "app' = app1\<lparr>ap_ibc := i\<rparr>"
    by (auto simp: refused_mint_Some)
  from ibc_fee_taken_Ok [OF law(1) inv fee] ibc_lawD(1) [OF law(2) mint] show ?thesis by (simp add: app' app_surplus_def)
qed

abbreviation app_inputs :: "'i inner_app \<Rightarrow> input list list" where
  "app_inputs app \<equiv> queue_inputs (ap_bitcoin app)"

lemma keeps_log_error [keeps_intros]: "keeps f m \<Longrightarrow> keeps f (log_error m)"
  by (auto simp: keeps_def log_error_def split: prod.splits) (metis snd_conv)

lemma keeps_ibc_transfer [keeps_intros]: "keeps app_inputs (IbcDest_transfer L d n)"
  unfolding IbcDest_transfer_def split_def by (intro keeps_intros)

lemma keeps_credit_dest: "keeps app_inputs (InnerApp_credit_dest L dest n)"
  by (cases dest) (simp_all add: InnerApp_credit_dest_def keeps_intros)

lemma credit_dest_Ok:
  assumes law: "coin_law L" "ibc_law nbtc L" and inv: "app_inv U app" and m: "InnerApp_credit_dest L dest n app = (Ok u, app')"
  shows "app_inv U app' \<and> app_surplus nbtc U app - int n \<le> app_surplus nbtc U app'"
proof (cases dest)
  case (NativeAccount a)
  with m accounts_deposit_Ok [OF law(1) inv] show ?thesis by (auto simp: InnerApp_credit_dest_def app_surplus_def)
next
  case (Ibc_dest d)
  with m ibc_transfer_Ok [OF law inv] show ?thesis by (simp add: InnerApp_credit_dest_def)
next
  case RewardPool
  with m obtain b where "Bitcoin_give_rewards L n (ap_bitcoin app) = (Ok u, b)" "app' = app\<lparr>ap_bitcoin := b\<rparr>"
    by (auto simp: InnerApp_credit_dest_def)
  with give_rewards_Ok [OF law(1) inv] show ?thesis by (auto simp: app_surplus_def)
next
  case (Bitcoin_dest script)
  with m obtain b where "Bitcoin_add_withdrawal L script n (ap_bitcoin app) = (Ok u, b)" "app' = app\<lparr>ap_bitcoin := b\<rparr>"
    by (auto simp: InnerApp_credit_dest_def)
  with add_withdrawal_Ok [OF law(1) inv] show ?thesis by (auto simp: app_surplus_def)
next
  case (AdjustEmergencyDisbursalBalance data diff)
  with m inv show ?thesis by (simp add: InnerApp_credit_dest_def)
qed

text \<open>What a failed credit leaves, and the fee that a refused minting leaves with the pools.\<close>

definition after_refused :: "('i, 'm) app_lib_scheme \<Rightarrow> dest \<Rightarrow> u64 \<Rightarrow> 'i inner_app \<Rightarrow> 'i inner_app" where
  "after_refused L dest n app = (case dest of
       Ibc_dest d \<Rightarrow> (case refused_mint L d n app of None \<Rightarrow> app | Some (_, app') \<Rightarrow> app')
     | _ \<Rightarrow> app)"

definition refused_fee :: "('i, 'm) app_lib_scheme \<Rightarrow> dest \<Rightarrow> u64 \<Rightarrow> 'i inner_app \<Rightarrow> nat" where
  "refused_fee L dest n app = (case dest of
       Ibc_dest d \<Rightarrow> (case refused_mint L d n app of None \<Rightarrow> 0 | Some (fee, _) \<Rightarrow> fee)
     | _ \<Rightarrow> 0)"

lemma after_refused_books:
  assumes law: "coin_law L" "ibc_law nbtc L" and inv: "app_inv U app"
  shows "app_inv U (after_refused L dest n app)
    \<and> app_surplus nbtc U app - int (refused_fee L dest n app) \<le> app_surplus nbtc U (after_refused L dest n app)"
  using inv refused_mint_books [OF law inv]
  by (auto simp: after_refused_def refused_fee_def split: dest.splits option.splits prod.splits)

lemma credit_dest_Err:
  assumes inv: "app_inv U app" and ne: "cq_queue (bc_checkpoints (ap_bitcoin app)) \<noteq> []"
    and valid: "InnerApp_validate_dest L dest n app = Ok ()" and m: "InnerApp_credit_dest L dest k app = (Err e, app')" and e: "e \<noteq> Panic"
  shows "app' = after_refused L dest k app"
proof -
  have cq: "cq_inv (bc_checkpoints (ap_bitcoin app))" using inv by (simp add: bridge_inv_def)
  show ?thesis
  proof (cases dest)
    case (NativeAccount a)
    with m show ?thesis by (auto simp: InnerApp_credit_dest_def after_refused_def dest: accounts_deposit_Err)
  next
    case (Ibc_dest d)
    with m valid ibc_transfer_Err [OF inv ne _ _ e] show ?thesis
      by (simp add: InnerApp_credit_dest_def InnerApp_validate_dest_def after_refused_def)
  next
    case RewardPool
    with m give_rewards_Err [OF cq ne _ e] show ?thesis by (fastforce simp: InnerApp_credit_dest_def after_refused_def)
  next
    case (Bitcoin_dest script)
    with m add_withdrawal_Err [OF inv ne _ e] show ?thesis by (fastforce simp: InnerApp_credit_dest_def after_refused_def)
  next
    case (AdjustEmergencyDisbursalBalance data diff)
    with m show ?thesis by (simp add: InnerApp_credit_dest_def)
  qed
qed

lemma return_to_sender_Ok:
  assumes law: "coin_law L" and inv: "app_inv U app" and m: "return_to_sender L n sender app = (Ok u, app')"
  shows "app_inv U app' \<and> app_surplus nbtc U app - int n \<le> app_surplus nbtc U app' \<and> app_inputs app' = app_inputs app"
proof (cases sender)
  case Identity_None
  with m inv show ?thesis by (simp add: return_to_sender_def)
next
  case (Identity_NativeAccount a)
  with m obtain b where b: "accounts_deposit L a n (ap_bitcoin app) = (Ok u, b)" "app' = app\<lparr>ap_bitcoin := b\<rparr>"
    by (auto simp: return_to_sender_def)
  with accounts_deposit_Ok [OF law inv b(1)] keepsD [OF keeps_accounts_deposit b(1)] show ?thesis by (simp add: app_surplus_def)
qed

text \<open>The outcomes of \<open>try_credit_dest\<close>: the destination is credited, or the sender gets the coins back.\<close>

lemma try_credit_dest_cases:
  assumes law: "coin_law L" and inv: "app_inv U app" and ne: "cq_queue (bc_checkpoints (ap_bitcoin app)) \<noteq> []"
    and m: "InnerApp_try_credit_dest L dest n sender app = (Ok u, app')"
  obtains "InnerApp_validate_dest L dest n app = Ok ()" "InnerApp_credit_dest L dest n app = (Ok (), app')"
  | "InnerApp_validate_dest L dest n app \<noteq> Ok ()" "return_to_sender L n sender app = (Ok (), app')"
  | e where "InnerApp_validate_dest L dest n app = Ok ()" "InnerApp_credit_dest L dest n app = (Err e, after_refused L dest n app)"
    "return_to_sender L n sender (after_refused L dest n app) = (Ok (), app')"
proof (cases "InnerApp_validate_dest L dest n app")
  case (Err e)
  with m show thesis by (intro that(2)) (auto simp: InnerApp_try_credit_dest_def split: error.splits)
next
  case (Ok x)
  with m obtain taken left where t: "coin_take L n n = Ok (taken, left)"
    and c: "(case InnerApp_credit_dest L dest taken app of
            (Ok _, app) \<Rightarrow> (Ok (), app)
          | (Err Panic, app) \<Rightarrow> (Err Panic, app)
          | (Err _, app) \<Rightarrow>
              cbind (lift_result (coin_give L left n)) (\<lambda>coins. return_to_sender L coins sender) app) = (Ok u, app')"
    by (auto simp: InnerApp_try_credit_dest_def)
  have tl: "taken = n" "left = 0" using coin_lawD(1) [OF law t] by auto
  obtain r app1 where r: "InnerApp_credit_dest L dest n app = (r, app1)" by (cases "InnerApp_credit_dest L dest n app")
  show thesis
  proof (cases r)
    case (Ok y)
    with c r tl \<open>InnerApp_validate_dest L dest n app = Ok x\<close> show thesis by (intro that(1)) auto
  next
    case (Err e)
    with c r tl have e: "e \<noteq> Panic" by auto
    with c r tl Err obtain k where k: "coin_give L 0 n = Ok k" "return_to_sender L k sender app1 = (Ok (), app')"
      by (cases e) auto
    have "app1 = after_refused L dest n app" using credit_dest_Err [OF inv ne _ _ e] Ok r Err by simp
    moreover have "k = n" using coin_lawD(2) [OF law k(1)] by simp
    ultimately show thesis using k that(3) r Err Ok by simp
  qed
qed

text \<open>The fees that refused mintings leave while a list of transfers is credited, and in a block.\<close>

definition try_refused :: "('i, 'm) app_lib_scheme \<Rightarrow> dest \<Rightarrow> u64 \<Rightarrow> 'i inner_app \<Rightarrow> nat" where
  "try_refused L dest n app = (if InnerApp_validate_dest L dest n app = Ok () then refused_fee L dest n app else 0)"

fun refused_fees :: "('i, 'm) app_lib_scheme \<Rightarrow> (dest \<times> u64 \<times> identity) list \<Rightarrow> 'i inner_app \<Rightarrow> nat" where
  "refused_fees L [] app = 0"
| "refused_fees L ((dest, n, sender) # ts) app =
     try_refused L dest n app + refused_fees L ts (snd (InnerApp_try_credit_dest L dest n sender app))"

definition block_refused :: "('i, 'm) app_lib_scheme \<Rightarrow> 'i inner_app \<Rightarrow> nat" where
  "block_refused L app = (case Bitcoin_take_pending (ap_bitcoin app) of
       (Ok ts, b) \<Rightarrow> refused_fees L ts (app\<lparr>ap_bitcoin := b\<rparr>)
     | (Err _, _) \<Rightarrow> 0)"

text \<open>An IBC module that never refuses to mint leaves none.\<close>

definition mint_total :: "('i, 'm) app_lib_scheme \<Rightarrow> bool" where
  "mint_total L \<longleftrightarrow> (\<forall>addr n i e. fst (mint_coins_execute L addr n i) = Err e \<longrightarrow> e = Panic)"

lemma refused_mint_total: "mint_total L \<Longrightarrow> refused_mint L d n app = None"
proof (rule ccontr)
  assume law: "mint_total L" and "refused_mint L d n app \<noteq> None"
  then obtain addr k i e i' where "mint_coins_execute L addr k i = (Err e, i')" "e \<noteq> Panic"
    by (fastforce simp: refused_mint_Some)
  with law show False unfolding mint_total_def by (metis fst_conv)
qed

lemma block_refused_total: "mint_total L \<Longrightarrow> block_refused L app = 0"
proof -
  assume law: "mint_total L"
  have "try_refused L dest n a = 0" for dest n a
    by (simp add: try_refused_def refused_fee_def refused_mint_total [OF law] split: dest.splits)
  then have "refused_fees L ts a = 0" for ts a by (induction L ts a rule: refused_fees.induct) simp_all
  then show ?thesis by (simp add: block_refused_def split: prod.splits result.splits)
qed

lemma try_credit_dest_Ok:
  assumes law: "coin_law L" "ibc_law nbtc L" and inv: "app_inv U app" and ne: "cq_queue (bc_checkpoints (ap_bitcoin app)) \<noteq> []"
    and m: "InnerApp_try_credit_dest L dest n sender app = (Ok u, app')"
  shows "app_inv U app' \<and> app_surplus nbtc U app - int n - int (try_refused L dest n app) \<le> app_surplus nbtc U app'
    \<and> app_inputs app' = app_inputs app"
  using law(1) inv ne m
proof (cases rule: try_credit_dest_cases)
  case 1
  then have "app_inputs app' = app_inputs app" using keepsD [OF keeps_credit_dest] by blast
  with 1 credit_dest_Ok [OF law inv 1(2)] show ?thesis by simp
next
  case 2
  with return_to_sender_Ok [OF law(1) inv 2(2), of nbtc] show ?thesis by (simp add: try_refused_def)
next
  case (3 e)
  note a = after_refused_books [OF law inv, of dest n]
  have "app_inputs (after_refused L dest n app) = app_inputs app" using keepsD [OF keeps_credit_dest 3(2)] .
  with a 3(1) return_to_sender_Ok [OF law(1) conjunct1 [OF a] 3(3), of nbtc] show ?thesis by (auto simp: try_refused_def)
qed

lemma credit_transfers_Ok:
  assumes law: "coin_law L" "ibc_law nbtc L" and "app_inv U app" and "ts \<noteq> [] \<longrightarrow> cq_queue (bc_checkpoints (ap_bitcoin app)) \<noteq> []"
    and "credit_transfers L ts app = (Ok u, app')"
  shows "app_inv U app' \<and> app_surplus nbtc U app - int (transfers_total ts) - int (refused_fees L ts app) \<le> app_surplus nbtc U app'
    \<and> app_inputs app' = app_inputs app"
  using assms(3-)
proof (induction ts arbitrary: app)
  case Nil
  then show ?case by (simp add: transfers_total_def)
next
  case (Cons t ts)
  obtain dest n sender where t: "t = (dest, n, sender)" by (metis surj_pair)
  with Cons.prems obtain app1 where m1: "InnerApp_try_credit_dest L dest n sender app = (Ok (), app1)"
    and m2: "credit_transfers L ts app1 = (Ok u, app')" by auto
  have c: "app_inv U app1 \<and> app_surplus nbtc U app - int n - int (try_refused L dest n app) \<le> app_surplus nbtc U app1
      \<and> app_inputs app1 = app_inputs app"
    by (rule try_credit_dest_Ok [OF law Cons.prems(1) _ m1]) (use Cons.prems(2) in simp)
  moreover have "cq_queue (bc_checkpoints (ap_bitcoin app1)) \<noteq> []" using c Cons.prems(2) by (auto simp: queue_inputs_def)
  moreover note Cons.IH [OF _ _ m2]
  ultimately show ?case using m1 by (auto simp: t transfers_total_def)
qed

lemma keeps_take_pending: "keeps queue_inputs Bitcoin_take_pending"
proof -
  have "map cp_inputs (cq_queue q') = map cp_inputs (cq_queue q)"
    if "CheckpointQueue_get_mut q i (\<lambda>cp. rbind (drain_pending (map fst (cp_pending cp)) (cp_pending cp)) (\<lambda>(transfers, pending).
              Ok (cp\<lparr>cp_pending := pending\<rparr>, transfers))) = Ok (q', ts)" for q q' i ts
    by (rule keeps_get_mut [OF _ that]) (auto simp: cp_inputs_def)
  then show ?thesis
    by (auto simp: keeps_def Bitcoin_take_pending_def cbind_def reads_def modify_def lift_result_def queue_inputs_def
        split: result.splits prod.splits)
qed

text \<open>A block keeps the books, the coins it hands to the stakers included.\<close>

lemma pay_rewards_Ok:
  assumes law: "coin_law L" and inv: "app_inv U app" and m: "pay_rewards L now has_stake app = (Ok reward, app')"
  shows "app_inv U app' \<and> app_surplus nbtc U app' = app_surplus nbtc U app + int reward"
proof -
  from m consider t where "reward = 0" "app' = app\<lparr>ap_reward_timer := t\<rparr>"
    | t k pool where "coin_take L (bc_reward_pool (ap_bitcoin app)) k = Ok (reward, pool)"
       "app' = ap_bitcoin_update (bc_reward_pool_update (\<lambda>_. pool)) (app\<lparr>ap_reward_timer := t\<rparr>)"
    by (auto simp: pay_rewards_def Let_def split: if_splits)
  then show ?thesis
  proof cases
    case 1
    with inv show ?thesis by (simp add: app_surplus_def)
  next
    case 2
    then have "bc_reward_pool (ap_bitcoin app) = reward + pool" using coin_lawD(1) [OF law] by blast
    with 2 inv show ?thesis by (simp add: app_surplus_def surplus_def bridge_inv_def)
  qed
qed

lemma begin_block_bridge_Ok:
  assumes law: "coin_law L" "ibc_law nbtc L" and inv: "app_inv U app" and small: "spendable U (bc_checkpoints (ap_bitcoin app)) < 2 ^ 63"
    and m: "InnerApp_begin_block_bridge H L C cosmos hash now has_stake app = (Ok (offline, reward), app')"
  shows "app_inv U app' \<and> app_surplus nbtc U app + int reward - int (block_refused L app) \<le> app_surplus nbtc U app'"
proof -
  from m obtain ts b1 app2 ext b3 where
    s1: "Bitcoin_take_pending (ap_bitcoin app) = (Ok ts, b1)"
    and s2: "credit_transfers L ts (app\<lparr>ap_bitcoin := b1\<rparr>) = (Ok (), app2)"
    and s3: "Bitcoin_begin_block_step H L C ext hash (ap_bitcoin app2) = (Ok offline, b3)"
    and s4: "pay_rewards L now has_stake (app2\<lparr>ap_bitcoin := b3\<rparr>) = (Ok reward, app')"
    by (auto simp: InnerApp_begin_block_bridge_def)
  note t = take_pending_Ok [OF inv s1]
  have refused: "block_refused L app = refused_fees L ts (app\<lparr>ap_bitcoin := b1\<rparr>)" using s1 by (simp add: block_refused_def)
  have c: "app_inv U app2 \<and> app_surplus nbtc U (app\<lparr>ap_bitcoin := b1\<rparr>) - int (transfers_total ts)
        - int (refused_fees L ts (app\<lparr>ap_bitcoin := b1\<rparr>)) \<le> app_surplus nbtc U app2
      \<and> app_inputs app2 = app_inputs (app\<lparr>ap_bitcoin := b1\<rparr>)"
    by (rule credit_transfers_Ok [OF law _ _ s2]) (use t in auto)
  have "queue_inputs (ap_bitcoin app2) = queue_inputs (ap_bitcoin app)"
    using c keepsD [OF keeps_take_pending s1] by simp
  then have small2: "spendable U (bc_checkpoints (ap_bitcoin app2)) < 2 ^ 63" using small by (simp only: spendable_inputs)
  note b = begin_block_step_Ok [OF conjunct1 [OF c] small2 s3]
  have inv3: "app_inv U (app2\<lparr>ap_bitcoin := b3\<rparr>)" using b(1) by simp
  note r = pay_rewards_Ok [OF law(1) inv3 s4, of nbtc]
  show ?thesis using t(2) c b(2) r by (auto simp: app_surplus_def refused)
qed

lemma deduct_nbtc_fee_Ok:
  assumes law: "coin_law L" and inv: "app_inv U app" and m: "InnerApp_deduct_nbtc_fee L C n app = (Ok u, app')"
  shows "app_inv U app' \<and> app_surplus nbtc U app \<le> app_surplus nbtc U app'"
proof -
  from m obtain addr f b1 b2 where s1: "accounts_withdraw L addr n (ap_bitcoin app) = (Ok f, b1)"
    and s2: "Bitcoin_give_rewards L f b1 = (Ok u, b2)" and app': "app' = app\<lparr>ap_bitcoin := b2\<rparr>"
    by (auto simp: InnerApp_deduct_nbtc_fee_def)
  note a = accounts_withdraw_Ok [OF law inv s1]
  from give_rewards_Ok [OF law a(1) s2] a show ?thesis by (simp add: app' app_surplus_def)
qed

lemma ibc_transfer_nbtc_Ok:
  assumes law: "coin_law L" and inv: "app_inv U app" and m: "InnerApp_ibc_transfer_nbtc L C d n app = (Ok u, app')"
  shows "app_inv U app' \<and> app_surplus nbtc U app \<le> app_surplus nbtc U app'"
proof -
  from m obtain addr c b1 fee_amount fee rest b2 sender b3 where
    s1: "accounts_withdraw L addr n (ap_bitcoin app) = (Ok c, b1)" and t: "coin_take L c fee_amount = Ok (fee, rest)"
    and s2: "Bitcoin_give_rewards L fee b1 = (Ok (), b2)" and s3: "Bitcoin_insert_pending L (Ibc_dest d) rest sender b2 = (Ok u, b3)"
    and app': "app' = app\<lparr>ap_bitcoin := b3\<rparr>"
    by (auto simp: InnerApp_ibc_transfer_nbtc_def)
  note a = accounts_withdraw_Ok [OF law inv s1]
  note b = give_rewards_Ok [OF law a(1) s2]
  note c = insert_pending_Ok [OF law b(1) s3]
  have "c = fee + rest" using coin_lawD(1) [OF law t] by simp
  with a b c show ?thesis by (simp add: app' app_surplus_def)
qed

lemma ibc_withdraw_nbtc_Ok:
  assumes law: "coin_law L" "ibc_law nbtc L" and inv: "app_inv U app" and m: "InnerApp_ibc_withdraw_nbtc L C n app = (Ok u, app')"
  shows "app_inv U app' \<and> app_surplus nbtc U app \<le> app_surplus nbtc U app'"
proof -
  from m obtain addr i b where s1: "burn_coins_execute L addr n (ap_ibc app) = (Ok (), i)"
    and s2: "accounts_deposit L addr n (ap_bitcoin app) = (Ok u, b)" and app': "app' = app\<lparr>ap_ibc := i, ap_bitcoin := b\<rparr>"
    by (auto simp: InnerApp_ibc_withdraw_nbtc_def)
  from accounts_deposit_Ok [OF law(1) inv s2] ibc_lawD(2) [OF law(2) s1] show ?thesis by (auto simp: app' app_surplus_def)
qed

lemma receive_transfers_Ok:
  assumes law: "coin_law L" "ibc_law nbtc L" and "app_inv U app" and "receive_transfers L ts app = (Ok u, app')"
  shows "app_inv U app' \<and> app_surplus nbtc U app \<le> app_surplus nbtc U app'"
  using assms(3,4)
proof (induction ts arbitrary: app)
  case Nil
  then show ?case by simp
next
  case (Cons t ts)
  from Cons.prems(2) consider "receive_transfers L ts app = (Ok u, app')"
    | addr dest i b where "burn_coins_execute L addr (it_amount t) (ap_ibc app) = (Ok (), i)"
       "Bitcoin_insert_pending L dest (it_amount t) Identity_None (ap_bitcoin app) = (Ok (), b)"
       "receive_transfers L ts (app\<lparr>ap_ibc := i, ap_bitcoin := b\<rparr>) = (Ok u, app')"
    by (auto split: if_splits option.splits)
  then show ?case
  proof cases
    case 1
    with Cons show ?thesis by blast
  next
    case 2
    note p = insert_pending_Ok [OF law(1) Cons.prems(1) 2(2)]
    have "app_inv U (app\<lparr>ap_ibc := i, ap_bitcoin := b\<rparr>)" using p(1) by simp
    from Cons.IH [OF this 2(3)] ibc_lawD(2) [OF law(2) 2(1)] p(2) show ?thesis by (auto simp: app_surplus_def)
  qed
qed

lemma ibc_deliver_Ok:
  assumes law: "coin_law L" "ibc_law nbtc L" and inv: "app_inv U app" and m: "InnerApp_ibc_deliver L C msgs app = (Ok u, app')"
  shows "app_inv U app' \<and> app_surplus nbtc U app \<le> app_surplus nbtc U app'"
proof -
  from m obtain app1 ts i where s1: "InnerApp_deduct_nbtc_fee L C IBC_FEE_USATS app = (Ok (), app1)"
    and s2: "ibc_deliver_all L msgs (ap_ibc app1) = (Ok ts, i)" and s3: "receive_transfers L ts (app1\<lparr>ap_ibc := i\<rparr>) = (Ok u, app')"
    by (auto simp: InnerApp_ibc_deliver_def)
  note d = deduct_nbtc_fee_Ok [OF law(1) inv s1, of nbtc]
  then have "app_inv U (app1\<lparr>ap_ibc := i\<rparr>)" by simp
  from receive_transfers_Ok [OF law this s3] d ibc_lawD(4) [OF law(2) s2] show ?thesis by (auto simp: app_surplus_def)
qed

section \<open>State machines with books\<close>

text \<open>The contract: no step takes from the surplus. Then no sequence of steps does.\<close>

locale accounting =
  fixes inv :: "'s \<Rightarrow> bool" and worth :: "'s \<Rightarrow> int" and step :: "'s \<Rightarrow> 's \<Rightarrow> bool"
  assumes step_inv: "inv s \<Longrightarrow> step s s' \<Longrightarrow> inv s'"
    and step_worth: "inv s \<Longrightarrow> step s s' \<Longrightarrow> worth s \<le> worth s'"
begin

lemma run: "step\<^sup>*\<^sup>* s s' \<Longrightarrow> inv s \<Longrightarrow> inv s' \<and> worth s \<le> worth s'"
proof (induction rule: rtranclp_induct)
  case (step t u)
  then have "inv t" "worth s \<le> worth t" by blast+
  with step.hyps(2) step_inv step_worth show ?case by (blast intro: order_trans)
qed simp

lemma backed: "step\<^sup>*\<^sup>* s s' \<Longrightarrow> inv s \<Longrightarrow> 0 \<le> worth s \<Longrightarrow> 0 \<le> worth s'"
  using run by force

end

text \<open>
  The calls of the application that move nBTC, or touch the bridge without moving any, each as it is made when it
  succeeds. A call that fails changes nothing.
\<close>

inductive bridge_call :: "'h header_lib_scheme \<Rightarrow> ('i, 'm) app_lib_scheme \<Rightarrow> 'i inner_app \<Rightarrow> 'i inner_app \<Rightarrow> bool"
  for H :: "'h header_lib_scheme" and L :: "('i, 'm) app_lib_scheme" where
  relay_deposit: "InnerApp_relay_deposit L C tx h pf vout i dest app = (Ok (), app') \<Longrightarrow> bridge_call H L app app'"
| relay_checkpoint: "on_bitcoin (Bitcoin_relay_checkpoint L C h pf i) app = (Ok (), app') \<Longrightarrow> bridge_call H L app app'"
| relay_headers: "HeaderQueue_add H C headers (bc_headers (ap_bitcoin app)) = (Ok (), q)
     \<Longrightarrow> bridge_call H L app (app\<lparr>ap_bitcoin := (ap_bitcoin app)\<lparr>bc_headers := q\<rparr>\<rparr>)"
| withdraw: "InnerApp_withdraw_nbtc L C script n app = (Ok (), app') \<Longrightarrow> bridge_call H L app app'"
| transfer: "on_bitcoin (Bitcoin_transfer L C to n) app = (Ok (), app') \<Longrightarrow> bridge_call H L app app'"
| transfer_to_fee_pool: "on_bitcoin (Bitcoin_transfer_to_fee_pool L C n) app = (Ok (), app') \<Longrightarrow> bridge_call H L app app'"
| sign: "on_bitcoin (Bitcoin_sign L C xpub sigs i) app = (Ok (), app') \<Longrightarrow> bridge_call H L app app'"
| sign_recovery: "RecoveryTxs_sign L C xpub sigs (bc_recovery_txs (ap_bitcoin app)) = Ok rx
     \<Longrightarrow> bridge_call H L app (app\<lparr>ap_bitcoin := (ap_bitcoin app)\<lparr>bc_recovery_txs := rx\<rparr>\<rparr>)"
| set_signatory_key: "on_bitcoin (Bitcoin_set_signatory_key L C xpub) app = (Ok (), app') \<Longrightarrow> bridge_call H L app app'"
| set_recovery_script: "on_bitcoin (Bitcoin_set_recovery_script C script) app = (Ok (), app') \<Longrightarrow> bridge_call H L app app'"
| ibc_transfer: "InnerApp_ibc_transfer_nbtc L C d n app = (Ok (), app') \<Longrightarrow> bridge_call H L app app'"
| ibc_withdraw: "InnerApp_ibc_withdraw_nbtc L C n app = (Ok (), app') \<Longrightarrow> bridge_call H L app app'"
| claim_escrowed: "InnerApp_claim_escrowed_nbtc L C app = (Ok (), app') \<Longrightarrow> bridge_call H L app app'"
| ibc_deliver: "InnerApp_ibc_deliver L C msgs app = (Ok (), app') \<Longrightarrow> bridge_call H L app app'"
| ibc_direct: "on_ibc (ibc_deliver_all L msgs) app = (Ok ts, app') \<Longrightarrow> bridge_call H L app app'"
| pay_fee: "InnerApp_deduct_nbtc_fee L C n app = (Ok (), app') \<Longrightarrow> bridge_call H L app app'"

text \<open>
  The ledger of the application: its state, the nBTC that is held outside of it, by the stakers and as the funds paid with
  a call, and the fees that refused mintings have left owed twice. Only the state is in the program.
\<close>

record 'i ledger =
  lg_app :: "'i inner_app"
  lg_held :: nat
  lg_refused :: nat

text \<open>What \<open>give_from_funding_all\<close> does to the balances, for funds of \<open>n\<close>: they go to one account.\<close>

definition funding_law :: "nat \<Rightarrow> ((address \<Rightarrow> u64) \<Rightarrow> (address \<Rightarrow> u64) result) \<Rightarrow> bool" where
  "funding_law n give \<longleftrightarrow> (\<forall>bal bal'. give bal = Ok bal' \<longrightarrow> (\<exists>addr. bal' = bal(addr := bal addr + n)))"

text \<open>
  The steps of the application: each call that succeeds, the two calls that put nBTC held outside into the books, for
  what is held there, and each block, whose rewards are held by the stakers from then on. A block comes with the
  bound under which the fee pool's arithmetic is exact: the Bitcoin controlled is below \<open>2 ^ 63\<close> units (92233 BTC
  with the configured units).
\<close>

inductive nbtc_step :: "'h header_lib_scheme \<Rightarrow> ('i, 'm) app_lib_scheme \<Rightarrow> u64 \<Rightarrow> 'i ledger \<Rightarrow> 'i ledger \<Rightarrow> bool"
  for H :: "'h header_lib_scheme" and L :: "('i, 'm) app_lib_scheme" and U :: u64 where
  call: "bridge_call H L (lg_app lg) app' \<Longrightarrow> nbtc_step H L U lg (lg\<lparr>lg_app := app'\<rparr>)"
| deposit_rewards: "InnerApp_deposit_rewards give_nom give (lg_app lg) = (Ok (), app') \<Longrightarrow> funding_law n give \<Longrightarrow> n \<le> lg_held lg
     \<Longrightarrow> nbtc_step H L U lg (lg\<lparr>lg_app := app', lg_held := lg_held lg - n\<rparr>)"
| give_funding: "on_bitcoin (Bitcoin_give_funding_to_fee_pool L C amount) (lg_app lg) = (Ok (), app') \<Longrightarrow> paid_take L amount = Ok n
     \<Longrightarrow> n \<le> lg_held lg \<Longrightarrow> nbtc_step H L U lg (lg\<lparr>lg_app := app', lg_held := lg_held lg - n\<rparr>)"
| block: "InnerApp_begin_block_bridge H L C cosmos hash now has_stake (lg_app lg) = (Ok (offline, reward), app')
     \<Longrightarrow> spendable U (bc_checkpoints (ap_bitcoin (lg_app lg))) < 2 ^ 63
     \<Longrightarrow> nbtc_step H L U lg \<lparr>lg_app = app', lg_held = lg_held lg + reward, lg_refused = lg_refused lg + block_refused L (lg_app lg)\<rparr>"

lemma app_of_bitcoin:
  assumes "on_bitcoin m app = (Ok a, app')" and "app_inv U app"
    and "\<And>b b'. bridge_inv U b \<Longrightarrow> m b = (Ok a, b') \<Longrightarrow> bridge_inv U b' \<and> surplus U b \<le> surplus U b'"
  shows "app_inv U app' \<and> app_surplus nbtc U app \<le> app_surplus nbtc U app'"
  using assms by (auto simp: app_surplus_def)

lemma bridge_call_books:
  assumes law: "coin_law L" "ibc_law nbtc L" and step: "bridge_call H L app app'" and inv: "app_inv U app"
  shows "app_inv U app' \<and> app_surplus nbtc U app \<le> app_surplus nbtc U app'"
  using step inv
proof cases
  case (relay_deposit C tx h pf vout i dest)
  then have "on_bitcoin (Bitcoin_relay_deposit L C tx h pf vout i dest) app = (Ok (), app')"
    by (auto simp: InnerApp_relay_deposit_def)
  then show ?thesis using inv by (rule app_of_bitcoin) (simp add: relay_deposit_Ok [OF law(1)])
next
  case (relay_checkpoint C h pf i)
  from relay_checkpoint inv show ?thesis by (rule app_of_bitcoin) (simp add: relay_checkpoint_Ok)
next
  case (relay_headers C headers q)
  with inv show ?thesis by (simp add: app_surplus_def surplus_def bridge_inv_def)
next
  case (sign_recovery C xpub sigs rx)
  with inv show ?thesis by (simp add: app_surplus_def surplus_def bridge_inv_def)
next
  case (withdraw C script n)
  then have "on_bitcoin (Bitcoin_withdraw L C script n) app = (Ok (), app')" by (simp add: InnerApp_withdraw_nbtc_def)
  then show ?thesis using inv by (rule app_of_bitcoin) (simp add: withdraw_Ok [OF law(1)])
next
  case (transfer C to n)
  from transfer inv show ?thesis by (rule app_of_bitcoin) (simp add: transfer_Ok [OF law(1)])
next
  case (transfer_to_fee_pool C n)
  from transfer_to_fee_pool inv show ?thesis by (rule app_of_bitcoin) (simp add: transfer_to_fee_pool_Ok [OF law(1)])
next
  case (sign C xpub sigs i)
  from sign inv show ?thesis by (rule app_of_bitcoin) (simp add: sign_Ok)
next
  case (set_signatory_key C xpub)
  from set_signatory_key inv show ?thesis
    by (rule app_of_bitcoin) (auto simp: Bitcoin_set_signatory_key_def bridge_inv_def surplus_def split: if_splits)
next
  case (set_recovery_script C script)
  from set_recovery_script inv show ?thesis
    by (rule app_of_bitcoin) (auto simp: Bitcoin_set_recovery_script_def bridge_inv_def surplus_def split: if_splits)
next
  case (ibc_transfer C d n)
  show ?thesis by (rule ibc_transfer_nbtc_Ok [OF law(1) inv ibc_transfer])
next
  case (ibc_withdraw C n)
  show ?thesis by (rule ibc_withdraw_nbtc_Ok [OF law inv ibc_withdraw])
next
  case (ibc_deliver C msgs)
  show ?thesis by (rule ibc_deliver_Ok [OF law inv ibc_deliver])
next
  case (claim_escrowed C)
  then obtain n where "InnerApp_ibc_withdraw_nbtc L C n app = (Ok (), app')" by (auto simp: InnerApp_claim_escrowed_nbtc_def)
  then show ?thesis by (rule ibc_withdraw_nbtc_Ok [OF law inv])
next
  case (ibc_direct msgs ts)
  with inv ibc_lawD(4) [OF law(2)] show ?thesis by (auto simp: app_surplus_def)
next
  case (pay_fee C n)
  show ?thesis by (rule deduct_nbtc_fee_Ok [OF law(1) inv pay_fee])
qed

lemma deposit_rewards_Ok:
  assumes inv: "app_inv U app" and law: "funding_law n give" and m: "InnerApp_deposit_rewards give_nom give app = (Ok u, app')"
  shows "app_inv U app' \<and> app_surplus nbtc U app' = app_surplus nbtc U app - int n"
proof -
  from m obtain bal where bal: "give (bc_accounts (ap_bitcoin app)) = Ok bal"
    and app': "app' = app\<lparr>ap_bitcoin := (ap_bitcoin app)\<lparr>bc_accounts := bal\<rparr>\<rparr>"
    by (auto simp: InnerApp_deposit_rewards_def)
  from bal law obtain addr where addr: "bal = (bc_accounts (ap_bitcoin app))(addr := bc_accounts (ap_bitcoin app) addr + n)"
    unfolding funding_law_def by blast
  have fin: "finite {a. bc_accounts (ap_bitcoin app) a \<noteq> 0}" using inv by (simp add: bridge_inv_def)
  note t = total_balance_update [OF fin, of addr "bc_accounts (ap_bitcoin app) addr + n"]
  show ?thesis using inv t by (simp add: app' addr app_surplus_def surplus_def bridge_inv_def)
qed

lemma give_funding_Ok:
  assumes inv: "app_inv U app" and take: "paid_take L amount = Ok n"
    and m: "on_bitcoin (Bitcoin_give_funding_to_fee_pool L C amount) app = (Ok u, app')"
  shows "app_inv U app' \<and> app_surplus nbtc U app - int n \<le> app_surplus nbtc U app'"
proof -
  from m take obtain b where b: "Bitcoin_give_miner_fee n (ap_bitcoin app) = (Ok u, b)" and app': "app' = app\<lparr>ap_bitcoin := b\<rparr>"
    by (auto simp: Bitcoin_give_funding_to_fee_pool_def)
  from give_miner_fee_Ok(1,2) [OF inv b] show ?thesis by (simp add: app' app_surplus_def)
qed

section \<open>The books of the ledger\<close>

definition ledger_worth :: "('i \<Rightarrow> nat) \<Rightarrow> u64 \<Rightarrow> 'i ledger \<Rightarrow> int" where
  "ledger_worth nbtc U lg = app_surplus nbtc U (lg_app lg) - int (lg_held lg) + int (lg_refused lg)"

lemma nbtc_step_books:
  assumes law: "coin_law L" "ibc_law nbtc L" and step: "nbtc_step H L U lg lg'" and inv: "app_inv U (lg_app lg)"
  shows "app_inv U (lg_app lg') \<and> ledger_worth nbtc U lg \<le> ledger_worth nbtc U lg'"
  using step inv
proof cases
  case (call app')
  with bridge_call_books [OF law call(2) inv] show ?thesis by (simp add: ledger_worth_def)
next
  case (deposit_rewards give_nom give app' n)
  with deposit_rewards_Ok [OF inv deposit_rewards(3,2), of nbtc] show ?thesis by (simp add: ledger_worth_def)
next
  case (give_funding C amount app' n)
  with give_funding_Ok [OF inv give_funding(3,2), of nbtc] show ?thesis by (simp add: ledger_worth_def)
next
  case (block C cosmos hash now has_stake offline reward app')
  with begin_block_bridge_Ok [OF law inv block(3,2)] show ?thesis by (simp add: ledger_worth_def)
qed

lemma nbtc_step_refused: "nbtc_step H L U lg lg' \<Longrightarrow> mint_total L \<Longrightarrow> lg_refused lg' = lg_refused lg"
  by (cases rule: nbtc_step.cases) (auto simp: block_refused_total)

lemma nbtc_steps_refused: "(nbtc_step H L U)\<^sup>*\<^sup>* lg lg' \<Longrightarrow> mint_total L \<Longrightarrow> lg_refused lg' = lg_refused lg"
  by (induction rule: rtranclp_induct) (auto dest: nbtc_step_refused)

interpretation books: accounting "\<lambda>lg. coin_law L \<and> ibc_law nbtc L \<and> app_inv U (lg_app lg)" "ledger_worth nbtc U" "nbtc_step H L U"
  for H :: "'h header_lib_scheme" and L :: "('i, 'm) app_lib_scheme" and nbtc :: "'i \<Rightarrow> nat" and U :: u64
  by unfold_locales (use nbtc_step_books in blast)+

end
