(* ===== verification/Bridge_Examples.thy ===== *)
theory Bridge_Examples
  imports App_Bridge
begin

text \<open>
  A concrete bridge, on which properties of the application and of the relayer are shown to apply: instances of
  the library parameters, a chain with one signatory set, and a deposit to it that the chain accepts.
\<close>

section \<open>A concrete application\<close>

definition demo_app_lib :: "nat app_lib" where
  "demo_app_lib = tx_lib.extend demo_flat_lib
     \<lparr>dest_encode = dest_encode demo_dest_lib, pending_order = pending_order demo_dest_lib, sha256 = sha256 demo_dest_lib,
      encode_string8 = encode_string8 demo_dest_lib, encode_signer = encode_signer demo_dest_lib,
      encode_u64 = encode_u64 demo_dest_lib, parse_address = parse_address demo_dest_lib,
      parse_channel = Some, parse_port = Some,
      extract_matches = (\<lambda>b. Some ([], [b])), is_op_return = (\<lambda>s. s = [106]), xpub_encode = xp_public_key,
      validator_entries = ok_or (App ''none''), consensus_key_of = (\<lambda>_ a. Ok (Some a)),
      coin_take = (\<lambda>h n. if n \<le> h then Ok (n, h - n) else Err (Coins ''Insufficient funds'')),
      coin_give = add_u64, amount_add = add_u64,
      acc_withdraw = (\<lambda>a n bal. if n \<le> bal a then Ok (bal(a := bal a - n)) else Err (Coins ''Insufficient funds'')),
      acc_deposit = (\<lambda>a n bal. rbind (add_u64 (bal a) n) (\<lambda>m. Ok (bal(a := m)))), paid_take = Ok,
      mint_coins_execute = (\<lambda>a n i. (Ok (), i + n)),
      burn_coins_execute = (\<lambda>a n i. if n \<le> i then (Ok (), i - n) else (Err (Coins ''Insufficient funds''), i)),
      deliver_message = (\<lambda>msg i. (Ok (), i)), ibc_deliver_all = (\<lambda>msgs i. (Ok [], i)),
      symbol_balance = (\<lambda>a i. Ok i), parse_dest = (\<lambda>_. None), amount_mul_decimal = (\<lambda>a n d. Ok (a * n div d))\<rparr>"

lemma demo_app_sel [simp]:
  "dest_encode demo_app_lib = dest_encode demo_dest_lib" "pending_order demo_app_lib = pending_order demo_dest_lib"
  "sha256 demo_app_lib = sha256 demo_dest_lib" "extract_matches demo_app_lib = (\<lambda>b. Some ([], [b]))"
  "parse_channel demo_app_lib = Some" "is_op_return demo_app_lib = (\<lambda>s. s = [106])"
  "coin_take demo_app_lib = (\<lambda>h n. if n \<le> h then Ok (n, h - n) else Err (Coins ''Insufficient funds''))"
  "coin_give demo_app_lib = add_u64" "amount_add demo_app_lib = add_u64"
  "acc_withdraw demo_app_lib = (\<lambda>a n bal. if n \<le> bal a then Ok (bal(a := bal a - n)) else Err (Coins ''Insufficient funds''))"
  "acc_deposit demo_app_lib = (\<lambda>a n bal. rbind (add_u64 (bal a) n) (\<lambda>m. Ok (bal(a := m))))"
  "mint_coins_execute demo_app_lib = (\<lambda>a n i. (Ok (), i + n))" "deliver_message demo_app_lib = (\<lambda>msg i. (Ok (), i))"
  "burn_coins_execute demo_app_lib = (\<lambda>a n i. if n \<le> i then (Ok (), i - n) else (Err (Coins ''Insufficient funds''), i))"
  "ibc_deliver_all demo_app_lib = (\<lambda>msgs i. (Ok [], i))" "validator_entries demo_app_lib = ok_or (App ''none'')"
  "tx_vsize demo_app_lib tx = 100" "tx_txid demo_app_lib tx = [1]" "dust_value demo_app_lib sc = 10"
  by (simp_all add: demo_app_lib_def demo_flat_lib_def tx_lib.defs script_lib.defs)

definition demo_bitcoin :: bitcoin where
  "demo_bitcoin = (Bitcoin_migrate_from demo_queue OutpointSet_default demo_cq
      ((\<lambda>_. 0)([1] := 200000000000)) SignatoryKeys_default 0 [] BitcoinConfig_default)"

definition demo_app :: "nat inner_app" where
  "demo_app = \<lparr>ap_bitcoin = demo_bitcoin, ap_ibc = 0, ap_reward_timer = 0\<rparr>"

definition demo_user_ctx :: ctx where
  "demo_user_ctx = demo_cq_ctx\<lparr>cx_signer := Some (Some [1])\<rparr>"

section \<open>A deposit\<close>

definition demo_deposit_tx :: transaction where
  "demo_deposit_tx = \<lparr>tr_version = 1, tr_lock_time = 0, tr_input = [], tr_output = [\<lparr>to_value = 100000, to_script_pubkey = []\<rparr>]\<rparr>"

lemma demo_app_out: "SignatorySet_output_script demo_app_lib demo_small_ss d (9, 10) = Ok []"
  unfolding demo_app_lib_def by (rule demo_bridge_out)

lemma demo_app_input:
  "length d < 2 ^ 16 \<Longrightarrow> Input_new demo_app_lib op demo_small_ss d amount (9, 10) = Ok ((demo_fresh op amount)\<lparr>in_dest := d\<rparr>)"
  unfolding demo_app_lib_def by (rule demo_bridge_input)

lemma demo_commitment:
  "Dest_commitment_bytes demo_app_lib (NativeAccount a) = Ok (0 # sha256 demo_dest_lib (0 # a))"
  "length (sha256 demo_dest_lib b) = 32"
  by (simp_all add: Dest_commitment_bytes_def demo_dest_lib_def tx_lib.defs)

lemma demo_relay_deposit:
  "\<exists>b. Bitcoin_relay_deposit demo_app_lib demo_user_ctx demo_deposit_tx 2 [1] 0 4 (NativeAccount [2]) demo_bitcoin = (Ok (), b)"
proof -
  have height: "HeaderQueue_height demo_queue = 3" by (simp add: HeaderQueue_height_def demo_header_defs)
  have get: "HeaderQueue_get_by_height demo_queue 2 = Ok (Some (WorkHeader_new (demo_header 2 1 2 5) 10))"
    by (simp add: HeaderQueue_get_by_height_def demo_header_defs)
  have root: "WorkHeader_merkle_root (WorkHeader_new (demo_header 2 1 2 5) 10) = []"
    by (simp add: WorkHeader_merkle_root_def demo_header_defs)
  have proven: "proven_txid demo_app_lib demo_queue 1 2 [1] = Ok [1]"
    by (simp add: proven_txid_def get height root [simplified] sub_u_def)
  have cp: "CheckpointQueue_get demo_cq 4 = Ok demo_building"
    by (simp add: CheckpointQueue_get_def CheckpointQueue_get_deque_index_def add_w_def sub_u_def demo_cq_def)
  have match: "matching_commitment demo_app_lib demo_small_ss (9, 10) [] (NativeAccount [2]) = Ok (0 # sha256 demo_dest_lib [0, 2])"
    by (simp add: matching_commitment_def demo_commitment demo_app_out)
  have input: "Input_new demo_app_lib op demo_small_ss (0 # sha256 demo_dest_lib [0, 2]) v (9, 10)
      = Ok ((demo_fresh op v)\<lparr>in_dest := 0 # sha256 demo_dest_lib [0, 2]\<rparr>)" for op v
    by (rule demo_app_input) (simp add: demo_commitment)
  let ?s = "bc_processed_outpoints_update (OutpointSet_insert ([1], 0) 433000) demo_bitcoin"
  have cfg: "cc_sigset_threshold (cq_config demo_cq) = (9, 10)" "cc_user_fee_factor (cq_config demo_cq) = 21000"
    by (simp_all add: demo_cq_def CheckpointConfig_default_def CheckpointConfig_bitcoin_def SIGSET_THRESHOLD_def)
  have "Bitcoin_relay_deposit demo_app_lib demo_user_ctx demo_deposit_tx 2 [1] 0 4 (NativeAccount [2]) demo_bitcoin
      = mint_deposit demo_app_lib ([1], 0) 100000 demo_building (0 # sha256 demo_dest_lib [0, 2]) (NativeAccount [2]) ?s"
    by (simp add: Bitcoin_relay_deposit_def call_defs exempt_from_fee_def demo_user_ctx_def demo_cq_ctx_def demo_ctx_def Let_def
        demo_bitcoin_def Bitcoin_migrate_from_def BitcoinConfig_default_def NETWORK_def BitcoinConfig_bitcoin_def proven [simplified]
        demo_deposit_tx_def cp cfg match OutpointSet_contains_def OutpointSet_default_def omap_contains_def add_w_def as_u64_def)
      (simp add: demo_building_def Checkpoint_new_def)
  moreover have "fst (mint_deposit demo_app_lib ([1], 0) 100000 demo_building (0 # sha256 demo_dest_lib [0, 2]) (NativeAccount [2]) ?s) = Ok ()"
    by (simp add: mint_deposit_def call_defs input demo_bitcoin_def Bitcoin_migrate_from_def BitcoinConfig_default_def NETWORK_def
        BitcoinConfig_bitcoin_def cfg)
      (simp add: demo_building_def Checkpoint_new_def demo_fresh_def Input_est_vsize_def add_w_def spending_fee_def mul_w_def DEFAULT_FEE_RATE_def
        Bitcoin_give_miner_fee_def call_defs as_i64_def Let_def add_i64_def div_u_def building_mut_def CheckpointQueue_get_mut_def
        CheckpointQueue_get_deque_index_def sub_u_def demo_cq_def edit_checkpoint_tx_def get_batch_def get_tx_def set_batch_def set_tx_def
        Batch_default_def Dest_is_fee_exempt_def calc_bridge_deposit_fee_def Bitcoin_insert_pending_def
        CheckpointConfig_default_def CheckpointConfig_bitcoin_def)
  ultimately have "fst (Bitcoin_relay_deposit demo_app_lib demo_user_ctx demo_deposit_tx 2 [1] 0 4 (NativeAccount [2]) demo_bitcoin) = Ok ()"
    by simp
  then show ?thesis
    by (cases "Bitcoin_relay_deposit demo_app_lib demo_user_ctx demo_deposit_tx 2 [1] 0 4 (NativeAccount [2]) demo_bitcoin") auto
qed

lemma demo_app_relay_deposit:
  "\<exists>app'. InnerApp_relay_deposit demo_app_lib demo_user_ctx demo_deposit_tx 2 [1] 0 4 (NativeAccount [2]) demo_app = (Ok (), app')"
proof -
  have cp: "CheckpointQueue_get demo_cq 4 = Ok demo_building"
    by (simp add: CheckpointQueue_get_def CheckpointQueue_get_deque_index_def add_w_def sub_u_def demo_cq_def)
  have cfg: "cc_sigset_threshold (cq_config demo_cq) = (9, 10)" "cc_user_fee_factor (cq_config demo_cq) = 21000"
    by (simp_all add: demo_cq_def CheckpointConfig_default_def CheckpointConfig_bitcoin_def SIGSET_THRESHOLD_def)
  have input: "Input_new demo_app_lib op demo_small_ss (0 # sha256 demo_dest_lib [0, 2]) v (9, 10)
      = Ok ((demo_fresh op v)\<lparr>in_dest := 0 # sha256 demo_dest_lib [0, 2]\<rparr>)" for op v
    by (rule demo_app_input) (simp add: demo_commitment)
  have "\<exists>n. Bitcoin_amount_after_deposit_fee demo_app_lib demo_deposit_tx 0 4 (NativeAccount [2]) demo_bitcoin = Ok n"
    by (simp add: Bitcoin_amount_after_deposit_fee_def Let_def demo_deposit_tx_def demo_bitcoin_def Bitcoin_migrate_from_def cp cfg demo_commitment)
      (simp add: demo_building_def Checkpoint_new_def input demo_fresh_def Input_est_vsize_def add_w_def spending_fee_def mul_w_def DEFAULT_FEE_RATE_def
        BitcoinConfig_default_def NETWORK_def BitcoinConfig_bitcoin_def Dest_is_fee_exempt_def calc_bridge_deposit_fee_def)
  then obtain n where n: "Bitcoin_amount_after_deposit_fee demo_app_lib demo_deposit_tx 0 4 (NativeAccount [2]) demo_bitcoin = Ok n" ..
  obtain b where "Bitcoin_relay_deposit demo_app_lib demo_user_ctx demo_deposit_tx 2 [1] 0 4 (NativeAccount [2]) demo_bitcoin = (Ok (), b)"
    using demo_relay_deposit by blast
  with n show ?thesis by (simp add: InnerApp_relay_deposit_def call_defs demo_app_def InnerApp_validate_dest_def on_bitcoin_def)
qed

end
