(* ===== verification/Bridge_Properties.thy ===== *)
theory Bridge_Properties
  imports App_Ledger Bridge_Examples
begin

text \<open>
  The properties of the bridge as a whole: it stays backed, a deposit is credited once and only with a
  proof, withdrawals and failed credits account for every coin, and who counts as offline.
\<close>

section \<open>A concrete application\<close>

lemma demo_app_law: "coin_law demo_app_lib" "ibc_law (\<lambda>i. i) demo_app_lib"
  by (auto simp: coin_law_def ibc_law_def split: if_splits)

lemma demo_app_inv: "app_inv 1000000 demo_app"
proof -
  have "finite {a. ((\<lambda>_. 0 :: nat)([1 :: u8] := 200000000000)) a \<noteq> 0}" by (rule finite_subset [of _ "{[1]}"]) auto
  then show ?thesis using demo_cq_inv
    by (simp add: bridge_inv_def demo_app_def demo_bitcoin_def Bitcoin_migrate_from_def BitcoinConfig_default_def NETWORK_def
        BitcoinConfig_bitcoin_def demo_cq_def wf_pending_def wf_building_def demo_old_def demo_building_def Checkpoint_new_def)
qed

lemma demo_total: "total_balance ((\<lambda>_. 0)([1 :: u8] := n)) = n"
  using total_balance_update(1) [of "\<lambda>_. 0" "[1]" n] by (simp add: total_balance_def)

lemma demo_app_surplus: "0 \<le> app_surplus (\<lambda>i. i) 1000000 demo_app"
  by (simp add: app_surplus_def surplus_def demo_app_def demo_bitcoin_def Bitcoin_migrate_from_def demo_total queue_surplus_def
      demo_cq_def demo_old_def demo_building_def Checkpoint_new_def cp_reserve_def cp_owed_def Let_def Batch_default_def
      BitcoinTx_default_def demo_input_def)

lemma demo_transfer: "\<exists>app'. on_bitcoin (Bitcoin_transfer demo_app_lib demo_user_ctx [2] 5) demo_app = (Ok (), app')"
proof -
  have "fst (on_bitcoin (Bitcoin_transfer demo_app_lib demo_user_ctx [2] 5) demo_app) = Ok ()"
    by (simp add: on_bitcoin_def Bitcoin_transfer_def call_defs exempt_from_fee_def call_signer_def demo_user_ctx_def demo_cq_ctx_def
        demo_ctx_def accounts_withdraw_def demo_app_def demo_bitcoin_def Bitcoin_migrate_from_def BitcoinConfig_default_def NETWORK_def
        BitcoinConfig_bitcoin_def Bitcoin_give_rewards_def mul_w_def as_i64_def Let_def div_u_def sub_u_def reward_pool_give_def add_w_def
        Bitcoin_give_miner_fee_def add_i64_def building_mut_def CheckpointQueue_get_mut_def CheckpointQueue_get_deque_index_def demo_cq_def
        demo_building_def Checkpoint_new_def Identity_from_signer_def Bitcoin_insert_pending_def)
  then show ?thesis by (cases "on_bitcoin (Bitcoin_transfer demo_app_lib demo_user_ctx [2] 5) demo_app") auto
qed

section \<open>Processed outpoints\<close>

text \<open>Only the relay of a deposit touches the set of processed outpoints, and it only adds to it.\<close>

abbreviation app_outpoints :: "'i inner_app \<Rightarrow> outpoint_set" where
  "app_outpoints app \<equiv> bc_processed_outpoints (ap_bitcoin app)"

lemma keeps_outpoints_rewards [keeps_intros]: "keeps bc_processed_outpoints (Bitcoin_give_rewards L n)"
  unfolding Bitcoin_give_rewards_def [abs_def] Let_def by (rule keeps_self) (intro keeps_intros)

lemma keeps_outpoints_calls [keeps_intros]:
  "keeps bc_processed_outpoints (Bitcoin_add_withdrawal L script n)"
  "keeps bc_processed_outpoints (Bitcoin_transfer_to_fee_pool L C n)" "keeps bc_processed_outpoints (Bitcoin_sign L C xpub sigs i)"
  "keeps bc_processed_outpoints (Bitcoin_relay_checkpoint L C h pf i)" "keeps bc_processed_outpoints (Bitcoin_set_signatory_key L C xpub)"
  "keeps bc_processed_outpoints Bitcoin_take_pending"
  unfolding Bitcoin_add_withdrawal_def Bitcoin_transfer_to_fee_pool_def Bitcoin_sign_def Bitcoin_relay_checkpoint_def
    Bitcoin_set_signatory_key_def Bitcoin_take_pending_def split_def
  by (intro keeps_intros; simp)+

lemma keeps_outpoints_withdraw [keeps_intros]: "keeps bc_processed_outpoints (Bitcoin_withdraw L C script n)"
  unfolding Bitcoin_withdraw_def by (intro keeps_intros)

lemma keeps_outpoints_transfer [keeps_intros]: "keeps bc_processed_outpoints (Bitcoin_transfer L C to n)"
  unfolding Bitcoin_transfer_def [abs_def] by (rule keeps_self) (intro keeps_intros)

lemma keeps_outpoints_script [keeps_intros]: "keeps bc_processed_outpoints (Bitcoin_set_recovery_script C script)"
  by (auto simp: keeps_def Bitcoin_set_recovery_script_def call_defs split: result.splits prod.splits)

lemma keeps_outpoints_block_step [keeps_intros]: "keeps bc_processed_outpoints (Bitcoin_begin_block_step H L C ext commitment)"
  unfolding Bitcoin_begin_block_step_def split_def by (intro keeps_intros; simp)

lemma keeps_outpoints_app [keeps_intros]:
  "keeps app_outpoints (IbcDest_transfer L d n)" "keeps app_outpoints (InnerApp_deduct_nbtc_fee L C n)"
  "keeps app_outpoints (InnerApp_ibc_transfer_nbtc L C d n)" "keeps app_outpoints (InnerApp_ibc_withdraw_nbtc L C n)"
  unfolding IbcDest_transfer_def InnerApp_deduct_nbtc_fee_def InnerApp_ibc_transfer_nbtc_def InnerApp_ibc_withdraw_nbtc_def split_def
  by (intro keeps_intros)+

lemma keeps_outpoints_credit [keeps_intros]: "keeps app_outpoints (InnerApp_credit_dest L dest n)"
  by (cases dest) (simp_all add: InnerApp_credit_dest_def keeps_intros)

lemma keeps_outpoints_return [keeps_intros]: "keeps app_outpoints (return_to_sender L n sender)"
  by (cases sender) (simp_all add: return_to_sender_def keeps_intros)

lemma cbind_lift_Ok: "cbind (lift_result (Ok a)) f = f a"
  by (rule ext) (simp add: cbind_def lift_result_def)

lemma keeps_outpoints_try_credit [keeps_intros]: "keeps app_outpoints (InnerApp_try_credit_dest L dest n sender)"
proof -
  have "app_outpoints (snd (InnerApp_try_credit_dest L dest n sender app)) = app_outpoints app" for app
  proof (cases "InnerApp_validate_dest L dest n app")
    case (Err e)
    then show ?thesis
      using keeps_outpoints_return [of L n sender] by (auto simp: InnerApp_try_credit_dest_def keeps_def split: error.splits)
  next
    case (Ok x)
    show ?thesis
    proof (cases "coin_take L n n")
      case (Err e)
      with Ok show ?thesis by (simp add: InnerApp_try_credit_dest_def call_defs)
    next
      case t: (Ok tl)
      obtain taken left where tl: "tl = (taken, left)" by (cases tl)
      obtain r app1 where r: "InnerApp_credit_dest L dest taken app = (r, app1)" by (cases "InnerApp_credit_dest L dest taken app")
      note keep = keepsD [OF keeps_outpoints_credit r]
      have "keeps app_outpoints (cbind (lift_result (coin_give L left n)) (\<lambda>coins. return_to_sender L coins sender))"
        by (intro keeps_intros)
      then have returned: "app_outpoints (snd (cbind (lift_result (coin_give L left n)) (\<lambda>coins. return_to_sender L coins sender) app1))
          = app_outpoints app1" by (simp add: keeps_def)
      have "InnerApp_try_credit_dest L dest n sender app =
        (case r of Ok _ \<Rightarrow> (Ok (), app1) | Err Panic \<Rightarrow> (Err Panic, app1)
         | Err _ \<Rightarrow> cbind (lift_result (coin_give L left n)) (\<lambda>coins. return_to_sender L coins sender) app1)"
        using Ok t tl r by (simp add: InnerApp_try_credit_dest_def cbind_lift_Ok)
      then show ?thesis using keep returned by (simp split: result.splits error.splits)
    qed
  qed
  then show ?thesis by (simp add: keeps_def)
qed

lemma keeps_outpoints_credit_transfers [keeps_intros]: "keeps app_outpoints (credit_transfers L ts)"
  by (induction L ts rule: credit_transfers.induct) (simp_all add: keeps_intros)

lemma keeps_outpoints_receive [keeps_intros]: "keeps app_outpoints (receive_transfers L ts)"
proof (induction ts)
  case (Cons t ts)
  have "keeps app_outpoints (case parse_dest L (it_memo t) of None \<Rightarrow> receive_transfers L ts | Some dest \<Rightarrow>
          cbind (on_ibc (burn_coins_execute L receiver (it_amount t))) (\<lambda>_.
          cbind (on_bitcoin (Bitcoin_insert_pending L dest (it_amount t) Identity_None)) (\<lambda>_.
          receive_transfers L ts)))" for receiver
    by (cases "parse_dest L (it_memo t)") (simp_all add: Cons keeps_intros)
  then show ?case using Cons by (simp add: keeps_intros)
qed (simp add: keeps_intros)

lemma keeps_outpoints_deliver: "keeps app_outpoints (InnerApp_ibc_deliver L C msgs)"
  unfolding InnerApp_ibc_deliver_def by (intro keeps_intros)

lemma keeps_outpoints_pay [keeps_intros]: "keeps app_outpoints (pay_rewards L now has_stake)"
  unfolding pay_rewards_def [abs_def] Let_def split_def by (rule keeps_self) (intro keeps_intros; simp)

lemma keeps_outpoints_block: "keeps app_outpoints (InnerApp_begin_block_bridge H L C cosmos hash now has_stake)"
  unfolding InnerApp_begin_block_bridge_def by (intro keeps_intros)

lemma keeps_outpoints_claim: "keeps app_outpoints (InnerApp_claim_escrowed_nbtc L C)"
  unfolding InnerApp_claim_escrowed_nbtc_def by (intro keeps_intros)

lemma keeps_outpoints_funding: "keeps bc_processed_outpoints (Bitcoin_give_funding_to_fee_pool L C n)"
  unfolding Bitcoin_give_funding_to_fee_pool_def by (intro keeps_intros)

lemma bridge_call_outpoints:
  assumes "bridge_call H L app app'" and "OutpointSet_contains (app_outpoints app) o1"
  shows "OutpointSet_contains (app_outpoints app') o1"
proof -
  from assms(1) show ?thesis
  proof cases
    case (relay_deposit C tx h pf vout i dest)
    then show ?thesis using assms(2) by (auto simp: InnerApp_relay_deposit_def relay_deposit_outpoints)
  next
    case (ibc_deliver C msgs)
    then show ?thesis using keepsD [OF keeps_outpoints_deliver] assms(2) by metis
  next
    case (claim_escrowed C)
    then show ?thesis using keepsD [OF keeps_outpoints_claim] assms(2) by metis
  qed (use assms(2) in \<open>auto simp: InnerApp_withdraw_nbtc_def
      dest!: keepsD [OF keeps_outpoints_calls(2)] keepsD [OF keeps_outpoints_calls(3)] keepsD [OF keeps_outpoints_calls(4)]
        keepsD [OF keeps_outpoints_calls(5)] keepsD [OF keeps_outpoints_withdraw] keepsD [OF keeps_outpoints_transfer]
        keepsD [OF keeps_outpoints_script] keepsD [OF keeps_outpoints_app(2)] keepsD [OF keeps_outpoints_app(3)]
        keepsD [OF keeps_outpoints_app(4)]\<close>)
qed

lemma nbtc_step_outpoints:
  assumes "nbtc_step H L U lg lg'" and "OutpointSet_contains (app_outpoints (lg_app lg)) o1"
  shows "OutpointSet_contains (app_outpoints (lg_app lg')) o1"
  using assms(1)
proof cases
  case (call app')
  then show ?thesis using bridge_call_outpoints assms(2) by fastforce
next
  case (deposit_rewards give_nom give app' n)
  then show ?thesis using assms(2) by (auto simp: InnerApp_deposit_rewards_def)
next
  case (give_funding C amount app' n)
  then show ?thesis using assms(2) by (auto dest!: keepsD [OF keeps_outpoints_funding])
next
  case (block C cosmos hash now has_stake offline reward app')
  then show ?thesis using keepsD [OF keeps_outpoints_block block(2)] assms(2) by simp
qed

section \<open>Effects of single operations\<close>

lemma keeps_accounts_building_mut [keeps_intros]: "keeps bc_accounts (building_mut f)"
  unfolding building_mut_def split_def by (intro keeps_intros) simp

lemma keeps_accounts_rewards: "keeps bc_accounts (Bitcoin_give_rewards L n)"
  unfolding Bitcoin_give_rewards_def [abs_def] Let_def Bitcoin_give_miner_fee_def reward_pool_give_def
  by (rule keeps_self) (intro keeps_intros; simp)

text \<open>Where the fee of a refused minting went; no balance has changed.\<close>

lemma refused_mint_frame:
  assumes "refused_mint L d n app = Some (fee, app')"
  shows "bc_accounts (ap_bitcoin app') = bc_accounts (ap_bitcoin app)"
    and "if IbcDest_is_fee_exempt L d then fee = 0 \<and> ap_bitcoin app' = ap_bitcoin app
       else Bitcoin_give_rewards L fee (ap_bitcoin app) = (Ok (), ap_bitcoin app')"
proof -
  show given: "if IbcDest_is_fee_exempt L d then fee = 0 \<and> ap_bitcoin app' = ap_bitcoin app
       else Bitcoin_give_rewards L fee (ap_bitcoin app) = (Ok (), ap_bitcoin app')"
    using assms by (auto simp: refused_mint_Some ibc_fee_taken_def split: if_splits)
  then show "bc_accounts (ap_bitcoin app') = bc_accounts (ap_bitcoin app)"
    using keepsD [OF keeps_accounts_rewards] by (auto split: if_splits)
qed

lemma single_Ok: "(case xs of [x] \<Rightarrow> Ok x | _ \<Rightarrow> Err e) = Ok a \<longleftrightarrow> xs = [a]"
  by (auto split: list.splits)

lemma proven_txid_Ok:
  assumes "proven_txid L headers confs h pf = Ok txid"
  obtains header where "HeaderQueue_get_by_height headers h = Ok (Some header)" "h + confs \<le> HeaderQueue_height headers"
    "extract_matches L pf = Some (WorkHeader_merkle_root header, [txid])"
  using assms by (auto simp: proven_txid_def not_less single_Ok split: if_splits)

lemma matching_commitment_Ok:
  assumes "matching_commitment L ss thr script dest = Ok c"
  shows "(Dest_commitment_bytes L dest = Ok c \<or> Dest_legacy_commitment_bytes L dest = Ok c)
    \<and> SignatorySet_output_script L ss c thr = Ok script"
  using assms by (auto simp: matching_commitment_def split: if_splits)

lemma give_miner_fee_effect:
  assumes "cq_inv (bc_checkpoints s)" and "Bitcoin_give_miner_fee n s = (Ok u, s')"
  obtains old cp fees where "cq_queue (bc_checkpoints s) = old @ [cp]"
    "s' = s\<lparr>bc_fee_pool := bc_fee_pool s + as_i64 n,
       bc_checkpoints := (bc_checkpoints s)\<lparr>cq_queue := old @ [cp\<lparr>cp_fees_collected := fees\<rparr>]\<rparr>\<rparr>"
proof -
  let ?s1 = "s\<lparr>bc_fee_pool := bc_fee_pool s + as_i64 n\<rparr>"
  from assms(2) obtain sats where m: "building_mut (\<lambda>cp. rbind (add_u64 (cp_fees_collected cp) sats) (\<lambda>fees.
       Ok (cp\<lparr>cp_fees_collected := fees\<rparr>, ()))) ?s1 = (Ok u, s')"
    by (auto simp: Bitcoin_give_miner_fee_def)
  have cq: "cq_inv (bc_checkpoints ?s1)" using assms(1) by simp
  obtain old cp cp' where q: "cq_queue (bc_checkpoints ?s1) = old @ [cp]"
    "rbind (add_u64 (cp_fees_collected cp) sats) (\<lambda>fees. Ok (cp\<lparr>cp_fees_collected := fees\<rparr>, ())) = Ok (cp', u)"
    "s' = ?s1\<lparr>bc_checkpoints := (bc_checkpoints ?s1)\<lparr>cq_queue := old @ [cp']\<rparr>\<rparr>"
    by (rule building_mut_Ok [OF cq m])
  then show thesis by (intro that [of old cp "cp_fees_collected cp'"]) auto
qed

lemma add_withdrawal_effect:
  assumes "coin_law L" and "bridge_inv U s" and "Bitcoin_add_withdrawal L script n s = (Ok u, s')"
  obtains fee old cp cp' tx where "Bitcoin_withdrawal_fee_amount (length script) s = Ok fee" "fee \<le> n"
    "cq_queue (bc_checkpoints s) = old @ [cp]" "ba_batch (cp_batches cp ! 2) = [tx]"
    "ba_batch (cp_batches cp' ! 2) =
       [tx\<lparr>bt_output := bt_output tx @ [\<lparr>to_value = (n - fee) div U, to_script_pubkey = script\<rparr>]\<rparr>]"
    "s' = s\<lparr>bc_fee_pool := bc_fee_pool s + as_i64 fee,
       bc_checkpoints := (bc_checkpoints s)\<lparr>cq_queue := old @ [cp']\<rparr>\<rparr>"
proof -
  from assms(3) obtain fee0 fee rest s1 where fee0: "Bitcoin_withdrawal_fee_amount (length script) s = Ok fee0"
    and take: "coin_take L n fee0 = Ok (fee, rest)" and s1: "Bitcoin_give_miner_fee fee s = (Ok (), s1)"
    and out: "building_mut (edit_checkpoint_tx (\<lambda>tx. tx\<lparr>bt_output := bt_output tx @
       [\<lparr>to_value = rest div bf_units_per_sat (bc_config s1), to_script_pubkey = script\<rparr>]\<rparr>)) s1 = (Ok u, s')"
    by (auto simp: Bitcoin_add_withdrawal_def)
  have fee: "fee = fee0" "n = fee + rest" using coin_lawD(1) [OF assms(1) take] by auto
  have cq: "cq_inv (bc_checkpoints s)" using assms(2) by (simp add: bridge_inv_def)
  obtain old cp fees where q: "cq_queue (bc_checkpoints s) = old @ [cp]" and s1': "s1 = s\<lparr>bc_fee_pool := bc_fee_pool s + as_i64 fee,
       bc_checkpoints := (bc_checkpoints s)\<lparr>cq_queue := old @ [cp\<lparr>cp_fees_collected := fees\<rparr>]\<rparr>\<rparr>"
    by (rule give_miner_fee_effect [OF cq s1])
  note g = give_miner_fee_Ok [OF assms(2) s1]
  have U: "bf_units_per_sat (bc_config s1) = U" and cq1: "cq_inv (bc_checkpoints s1)" using g(1) by (simp_all add: bridge_inv_def)
  obtain old' cp1 cp' where q': "cq_queue (bc_checkpoints s1) = old' @ [cp1]"
    and e: "edit_checkpoint_tx (\<lambda>tx. tx\<lparr>bt_output := bt_output tx @
       [\<lparr>to_value = rest div bf_units_per_sat (bc_config s1), to_script_pubkey = script\<rparr>]\<rparr>) cp1 = Ok (cp', u)"
    and s': "s' = s1\<lparr>bc_checkpoints := (bc_checkpoints s1)\<lparr>cq_queue := old' @ [cp']\<rparr>\<rparr>"
    by (rule building_mut_Ok [OF cq1 out])
  have eqs: "old' = old" "cp1 = cp\<lparr>cp_fees_collected := fees\<rparr>" using q' by (simp_all add: s1')
  obtain tx where "ba_batch (cp_batches cp1 ! 2) = [tx]" "ba_batch (cp_batches cp' ! 2) =
      [tx\<lparr>bt_output := bt_output tx @ [\<lparr>to_value = rest div bf_units_per_sat (bc_config s1), to_script_pubkey = script\<rparr>]\<rparr>]"
    by (rule edit_checkpoint_tx_Ok [OF e bridge_last(2) [OF g(1) q']])
  then show thesis using fee fee0 q eqs by (intro that [of fee old cp tx cp']) (simp_all add: s' s1' U [unfolded s1', simplified])
qed

lemma drain_pending_eq:
  assumes "distinct (map fst m)"
  shows "drain_pending (map fst m) m = Ok (map (\<lambda>((dest, sender), coins). (dest, coins, sender)) m, [])"
  using assms
proof (induction m)
  case (Cons x m)
  obtain d i v where x: "x = ((d, i), v)" by (metis surj_pair)
  have "omap_remove (d, i) (x # m) = m" using Cons.prems by (force simp: omap_remove_def x intro!: filter_True)
  with Cons show ?case by (simp add: x)
qed simp

text \<open>Taking the pending transfers of the last completed checkpoint, when there is one.\<close>

lemma take_pending_of:
  assumes "cq_inv (bc_checkpoints s)" and "CheckpointQueue_last_completed_index (bc_checkpoints s) = Ok i"
    and "CheckpointQueue_get (bc_checkpoints s) i = Ok cp" and "wf_pending cp"
  shows "Bitcoin_take_pending s = (Ok (map (\<lambda>((dest, sender), coins). (dest, coins, sender)) (cp_pending cp)),
    s\<lparr>bc_checkpoints := (bc_checkpoints s)
      \<lparr>cq_queue := (cq_queue (bc_checkpoints s))[i - first_of (bc_checkpoints s) := cp\<lparr>cp_pending := []\<rparr>]\<rparr>\<rparr>)"
proof -
  have "cq_indexed (cq_index (bc_checkpoints s)) (cq_queue (bc_checkpoints s))" using assms(1) by (simp add: cq_inv_def)
  note deque = get_deque_index_eq [OF this]
  from assms(3) have at: "CheckpointQueue_get_deque_index (bc_checkpoints s) i = Ok (i - first_of (bc_checkpoints s))"
    "i - first_of (bc_checkpoints s) < length (cq_queue (bc_checkpoints s))"
    "cq_queue (bc_checkpoints s) ! (i - first_of (bc_checkpoints s)) = cp"
    by (auto simp: CheckpointQueue_get_def deque split: if_splits)
  show ?thesis
    by (simp add: Bitcoin_take_pending_def last_completed_app_error_def assms(2) call_defs CheckpointQueue_get_mut_def at
        drain_pending_eq [OF assms(4) [unfolded wf_pending_def]])
qed

lemma last_completed_index_edit:
  assumes "cq_inv q" and "j < length (cq_queue q)" and "cp_status cp = cp_status (cq_queue q ! j)"
    and "cp_sigset cp = cp_sigset (cq_queue q ! j)"
  shows "CheckpointQueue_last_completed_index (q\<lparr>cq_queue := (cq_queue q)[j := cp]\<rparr>) = CheckpointQueue_last_completed_index q"
proof -
  have "cq_indexed (cq_index q) (cq_queue q)" "cq_indexed (cq_index q) ((cq_queue q)[j := cp])"
    using assms by (auto simp: cq_inv_def cq_indexed_update)
  with assms show ?thesis by (simp add: CheckpointQueue_last_completed_index_def signing_eq has_signing_update)
qed

lemma takeWhile_sorted_filter:
  assumes "sorted (map (\<lambda>v. - int (f v)) vs)"
  shows "takeWhile (\<lambda>v. \<not> f v < n) vs = filter (\<lambda>v. n \<le> f v) vs"
  using assms
proof (induction vs)
  case (Cons v vs)
  show ?case
  proof (cases "f v < n")
    case True
    with Cons.prems have "filter (\<lambda>v. n \<le> f v) vs = []" by (auto simp: filter_empty_conv)
    with True show ?thesis by simp
  qed (use Cons in auto)
qed simp

text \<open>Whether a validator's registered key has answered none of the given checkpoints.\<close>

definition silent :: "'m script_lib_scheme \<Rightarrow> signatory_keys \<Rightarrow> checkpoint list \<Rightarrow> consensus_key \<Rightarrow> bool" where
  "silent L keys cps k \<longleftrightarrow> (\<exists>xpub. SignatoryKeys_get keys k = Some xpub
     \<and> (\<forall>cp \<in> set cps. \<exists>msgs. Checkpoint_to_sign L xpub cp = Ok msgs \<and> msgs \<noteq> []))"

lemma answered_none_iff:
  "answered_none L xpub cps = Ok b \<Longrightarrow> b \<longleftrightarrow> (\<forall>cp \<in> set cps. \<exists>msgs. Checkpoint_to_sign L xpub cp = Ok msgs \<and> msgs \<noteq> [])"
  by (induction cps) (auto split: if_splits)

lemma offline_loop_Ok:
  "offline_loop L keys lowest cps vs = Ok ks
   \<Longrightarrow> ks = map ve_pubkey (filter (\<lambda>v. silent L keys cps (ve_pubkey v)) (takeWhile (\<lambda>v. \<not> ve_power v < lowest) vs))"
  by (induction vs arbitrary: ks)
    (auto simp: silent_def dest!: answered_none_iff split: if_splits option.splits)

section \<open>Properties\<close>

text \<open>
  C1: nBTC stays backed. Along every sequence of successful calls and blocks, what is owed to
  account holders, pending transfers, the reward pool, the IBC module and the fee pool, together with what stakers
  and funds paid with calls hold, is at most the Bitcoin that the checkpoint transaction being built controls, in
  units, plus the fees of the transfers that the IBC module refused to mint, if it was at the start. There are no such
  fees, and so the backing is complete, as long as the IBC module mints what it is asked to. Blocks are taken
  while the reserve is below \<open>2 ^ 63\<close> units, 92233 BTC.
\<close>

theorem nbtc_stays_backed:
  assumes "coin_law L" and "ibc_law nbtc L" and "(nbtc_step H L U)\<^sup>*\<^sup>* lg lg'"
    and "app_inv U (lg_app lg)" and "0 \<le> ledger_worth nbtc U lg"
  shows "let s = ap_bitcoin (lg_app lg'); cps = cq_queue (bc_checkpoints s) in
    bridge_inv U s
    \<and> int (total_balance (bc_accounts s)) + int (sum_list (map cp_owed cps)) + int (bc_reward_pool s)
        + int (nbtc (ap_ibc (lg_app lg'))) + bc_fee_pool s + int (lg_held lg')
      \<le> (if cps = [] then 0 else int U * cp_reserve (last cps)) + int (lg_refused lg')
    \<and> (mint_total L \<longrightarrow> lg_refused lg' = lg_refused lg)"
proof -
  have start: "coin_law L \<and> ibc_law nbtc L \<and> app_inv U (lg_app lg)" using assms by blast
  from books.backed [OF assms(3) start assms(5)] books.run [OF assms(3) start] nbtc_steps_refused [OF assms(3)]
  show ?thesis by (simp add: ledger_worth_def app_surplus_def surplus_def queue_surplus_def Let_def)
qed

text \<open>
  From the demonstration state, a transfer that succeeds; and the same for an IBC module that refuses every minting,
  for which the law holds as well.
\<close>

definition demo_ledger :: "nat ledger" where
  "demo_ledger = \<lparr>lg_app = demo_app, lg_held = 0, lg_refused = 0\<rparr>"

lemma demo_refusing_law: "ibc_law (\<lambda>i. i) (demo_app_lib\<lparr>mint_coins_execute := (\<lambda>a n i. (Err (App ''refused''), i))\<rparr>)"
  by (auto simp: ibc_law_def split: if_splits)

theorem nbtc_stays_backed_witness:
  "\<exists>lg'. nbtc_step demo_header_lib demo_app_lib 1000000 demo_ledger lg'
     \<and> int (total_balance (bc_accounts (ap_bitcoin (lg_app lg')))) + bc_fee_pool (ap_bitcoin (lg_app lg'))
       \<le> (if cq_queue (bc_checkpoints (ap_bitcoin (lg_app lg'))) = [] then 0
          else int 1000000 * cp_reserve (last (cq_queue (bc_checkpoints (ap_bitcoin (lg_app lg'))))))"
proof -
  obtain app' where "on_bitcoin (Bitcoin_transfer demo_app_lib demo_user_ctx [2] 5) (lg_app demo_ledger) = (Ok (), app')"
    using demo_transfer by (auto simp: demo_ledger_def)
  then have "bridge_call demo_header_lib demo_app_lib (lg_app demo_ledger) app'" by (rule bridge_call.transfer)
  then have step: "nbtc_step demo_header_lib demo_app_lib 1000000 demo_ledger (demo_ledger\<lparr>lg_app := app'\<rparr>)" by (rule nbtc_step.call)
  then have steps: "(nbtc_step demo_header_lib demo_app_lib 1000000)\<^sup>*\<^sup>* demo_ledger (demo_ledger\<lparr>lg_app := app'\<rparr>)" by blast
  have "app_inv 1000000 (lg_app demo_ledger)" "0 \<le> ledger_worth (\<lambda>i. i) 1000000 demo_ledger"
    using demo_app_inv demo_app_surplus by (simp_all add: demo_ledger_def ledger_worth_def)
  from nbtc_stays_backed [OF demo_app_law steps this] step show ?thesis
    unfolding Let_def by (intro exI [of _ "demo_ledger\<lparr>lg_app := app'\<rparr>"]) (simp add: demo_ledger_def)
qed

text \<open>
  C2: no deposit is credited twice. Once an output has been relayed it is refused for good, whatever
  calls and blocks come between, whoever relays it and for whatever destination.
\<close>

theorem deposit_never_replayed:
  assumes "InnerApp_relay_deposit L C tx h pf vout i dest app = (Ok (), lg_app lg1)"
    and "(nbtc_step H L U)\<^sup>*\<^sup>* lg1 lg2" and "tx_txid L tx' = tx_txid L tx"
  shows "fst (InnerApp_relay_deposit L C' tx' h' pf' vout i' dest' (lg_app lg2)) \<noteq> Ok ()"
proof
  assume "fst (InnerApp_relay_deposit L C' tx' h' pf' vout i' dest' (lg_app lg2)) = Ok ()"
  then obtain app3 where "InnerApp_relay_deposit L C' tx' h' pf' vout i' dest' (lg_app lg2) = (Ok (), app3)" by (metis prod.collapse)
  then obtain b where "Bitcoin_relay_deposit L C' tx' h' pf' vout i' dest' (ap_bitcoin (lg_app lg2)) = (Ok (), b)"
    by (auto simp: InnerApp_relay_deposit_def)
  from relay_deposit_outpoints(1) [OF this] assms(3)
  have new: "\<not> OutpointSet_contains (app_outpoints (lg_app lg2)) (tx_txid L tx, vout)" by simp
  have "OutpointSet_contains (app_outpoints (lg_app lg1)) (tx_txid L tx, vout)"
    using assms(1) by (auto simp: InnerApp_relay_deposit_def relay_deposit_outpoints)
  with assms(2) have "OutpointSet_contains (app_outpoints (lg_app lg2)) (tx_txid L tx, vout)"
    by (induction rule: rtranclp_induct) (auto dest: nbtc_step_outpoints)
  with new show False by simp
qed

theorem deposit_never_replayed_witness:
  "\<exists>app'. InnerApp_relay_deposit demo_app_lib demo_user_ctx demo_deposit_tx 2 [1] 0 4 (NativeAccount [2]) demo_app = (Ok (), app')
     \<and> fst (InnerApp_relay_deposit demo_app_lib demo_user_ctx demo_deposit_tx 2 [1] 0 4 (NativeAccount [3]) app') \<noteq> Ok ()"
proof -
  obtain app' where first:
    "InnerApp_relay_deposit demo_app_lib demo_user_ctx demo_deposit_tx 2 [1] 0 4 (NativeAccount [2]) demo_app = (Ok (), app')"
    using demo_app_relay_deposit by blast
  let ?lg = "demo_ledger\<lparr>lg_app := app'\<rparr>"
  have relayed: "InnerApp_relay_deposit demo_app_lib demo_user_ctx demo_deposit_tx 2 [1] 0 4 (NativeAccount [2]) demo_app = (Ok (), lg_app ?lg)"
    using first by simp
  have "(nbtc_step demo_header_lib demo_app_lib 1000000)\<^sup>*\<^sup>* ?lg ?lg" by simp
  from first deposit_never_replayed [OF relayed this refl] show ?thesis by auto
qed

text \<open>
  C3: a deposit is accepted only if its transaction is in a sufficiently confirmed block of the
  followed chain, the output pays the signatory set of the named checkpoint under the commitment of
  the named destination, deposits are open there and the output is new.
\<close>

theorem deposit_requires_proof:
  assumes "Bitcoin_relay_deposit L C tx h pf vout i dest s = (Ok (), s')"
  shows "\<exists>header cp commitment.
    HeaderQueue_get_by_height (bc_headers s) h = Ok (Some header)
    \<and> h + bf_min_confirmations (bc_config s) \<le> HeaderQueue_height (bc_headers s)
    \<and> extract_matches L pf = Some (WorkHeader_merkle_root header, [tx_txid L tx])
    \<and> vout < length (tr_output tx) \<and> bf_min_deposit_amount (bc_config s) \<le> to_value (tr_output tx ! vout)
    \<and> CheckpointQueue_get (bc_checkpoints s) i = Ok cp \<and> cp_deposits_enabled cp
    \<and> (Dest_commitment_bytes L dest = Ok commitment \<or> Dest_legacy_commitment_bytes L dest = Ok commitment)
    \<and> SignatorySet_output_script L (cp_sigset cp) commitment (cc_sigset_threshold (cq_config (bc_checkpoints s)))
        = Ok (to_script_pubkey (tr_output tx ! vout))
    \<and> \<not> OutpointSet_contains (bc_processed_outpoints s) (tx_txid L tx, vout)
    \<and> OutpointSet_contains (bc_processed_outpoints s') (tx_txid L tx, vout)"
proof -
  obtain seconds cp c timeout where
    p: "proven_txid L (bc_headers s) (bf_min_confirmations (bc_config s)) h pf = Ok (tx_txid L tx)"
    and o: "vout < length (tr_output tx)" "bf_min_deposit_amount (bc_config s) \<le> to_value (tr_output tx ! vout)"
    and cp: "CheckpointQueue_get (bc_checkpoints s) i = Ok cp" "cp_deposits_enabled cp"
    and m: "matching_commitment L (cp_sigset cp) (cc_sigset_threshold (cq_config (bc_checkpoints s)))
       (to_script_pubkey (tr_output tx ! vout)) dest = Ok c"
    by (rule relay_deposit_cases [OF assms])
  obtain header where "HeaderQueue_get_by_height (bc_headers s) h = Ok (Some header)"
    "h + bf_min_confirmations (bc_config s) \<le> HeaderQueue_height (bc_headers s)"
    "extract_matches L pf = Some (WorkHeader_merkle_root header, [tx_txid L tx])" by (rule proven_txid_Ok [OF p])
  with o cp matching_commitment_Ok [OF m] relay_deposit_outpoints [OF assms] show ?thesis
    by (intro exI [of _ header] exI [of _ cp] exI [of _ c]) simp
qed

theorem deposit_requires_proof_witness:
  "\<exists>s' header. Bitcoin_relay_deposit demo_app_lib demo_user_ctx demo_deposit_tx 2 [1] 0 4 (NativeAccount [2]) demo_bitcoin = (Ok (), s')
     \<and> HeaderQueue_get_by_height (bc_headers demo_bitcoin) 2 = Ok (Some header)
     \<and> OutpointSet_contains (bc_processed_outpoints s') ([1], 0)"
proof -
  obtain s' where s': "Bitcoin_relay_deposit demo_app_lib demo_user_ctx demo_deposit_tx 2 [1] 0 4 (NativeAccount [2]) demo_bitcoin = (Ok (), s')"
    using demo_relay_deposit by blast
  from deposit_requires_proof [OF s'] obtain header where "HeaderQueue_get_by_height (bc_headers demo_bitcoin) 2 = Ok (Some header)"
    "OutpointSet_contains (bc_processed_outpoints s') (tx_txid demo_app_lib demo_deposit_tx, 0)" by blast
  with s' show ?thesis by auto
qed

text \<open>
  C8: a withdrawal pays out what it takes. The caller's balance falls by the amount, the miner fee
  goes to the fee pool, and the checkpoint transaction being built gains one output, to the
  requested script, worth the rest in satoshis; no other balance and no other checkpoint changes.
\<close>

theorem withdraw_pays_out:
  assumes "coin_law L" and "bridge_inv U s" and "Bitcoin_withdraw L C script amount s = (Ok (), s')"
  shows "\<exists>signer fee old cp cp' tx.
    call_signer C = Ok signer \<and> amount \<le> bc_accounts s signer
    \<and> bc_accounts s' = (bc_accounts s)(signer := bc_accounts s signer - amount)
    \<and> Bitcoin_withdrawal_fee_amount (length script) s = Ok fee \<and> fee \<le> amount
    \<and> bc_fee_pool s' = bc_fee_pool s + as_i64 fee
    \<and> cq_queue (bc_checkpoints s) = old @ [cp] \<and> cq_queue (bc_checkpoints s') = old @ [cp']
    \<and> ba_batch (cp_batches cp ! 2) = [tx]
    \<and> ba_batch (cp_batches cp' ! 2) =
        [tx\<lparr>bt_output := bt_output tx @ [\<lparr>to_value = (amount - fee) div U, to_script_pubkey = script\<rparr>]\<rparr>]"
proof -
  from assms(3) obtain signer c s0 where c: "call_signer C = Ok signer" and s0: "accounts_withdraw L signer amount s = (Ok c, s0)"
    and w: "Bitcoin_add_withdrawal L script c s0 = (Ok (), s')" by (auto simp: Bitcoin_withdraw_def)
  note a = accounts_withdraw_Ok [OF assms(1,2) s0]
  have s0': "s0 = s\<lparr>bc_accounts := (bc_accounts s)(signer := bc_accounts s signer - amount)\<rparr>"
    using s0 coin_lawD(4) [OF assms(1)] by (auto simp: accounts_withdraw_def)
  obtain fee old cp cp' tx where fee: "Bitcoin_withdrawal_fee_amount (length script) s0 = Ok fee" "fee \<le> c"
    and q: "cq_queue (bc_checkpoints s0) = old @ [cp]" and tx: "ba_batch (cp_batches cp ! 2) = [tx]" "ba_batch (cp_batches cp' ! 2) =
       [tx\<lparr>bt_output := bt_output tx @ [\<lparr>to_value = (c - fee) div U, to_script_pubkey = script\<rparr>]\<rparr>]"
    and s': "s' = s0\<lparr>bc_fee_pool := bc_fee_pool s0 + as_i64 fee,
       bc_checkpoints := (bc_checkpoints s0)\<lparr>cq_queue := old @ [cp']\<rparr>\<rparr>"
    by (rule add_withdrawal_effect [OF assms(1) a(1) w])
  from c a(2,4) fee q tx show ?thesis
    by (intro exI [of _ signer] exI [of _ fee] exI [of _ old] exI [of _ cp] exI [of _ cp'] exI [of _ tx])
      (simp add: s' s0' Bitcoin_withdrawal_fee_amount_def)
qed

theorem withdraw_pays_out_witness:
  "\<exists>s' signer fee. Bitcoin_withdraw demo_app_lib demo_user_ctx [0, 1] 5000000000 (Bitcoin_configure BitcoinConfig_regtest demo_bitcoin) = (Ok (), s')
     \<and> call_signer demo_user_ctx = Ok signer \<and> bc_accounts s' signer = bc_accounts demo_bitcoin signer - 5000000000
     \<and> bc_fee_pool s' = as_i64 fee"
proof -
  let ?s = "Bitcoin_configure BitcoinConfig_regtest demo_bitcoin"
  have "bridge_inv 1000000 demo_bitcoin" using demo_app_inv by (simp add: demo_app_def)
  then have inv: "bridge_inv 1000000 ?s"
    by (simp add: bridge_inv_def Bitcoin_configure_def BitcoinConfig_regtest_def BitcoinConfig_bitcoin_def)
  have "fst (Bitcoin_withdraw demo_app_lib demo_user_ctx [0, 1] 5000000000 ?s) = Ok ()"
    by (simp add: Bitcoin_withdraw_def call_defs exempt_from_fee_def call_signer_def demo_user_ctx_def demo_cq_ctx_def demo_ctx_def
        accounts_withdraw_def Bitcoin_configure_def demo_bitcoin_def Bitcoin_migrate_from_def BitcoinConfig_regtest_def BitcoinConfig_bitcoin_def
        Bitcoin_add_withdrawal_def Bitcoin_validate_withdrawal_def CheckpointQueue_len_def Bitcoin_withdrawal_fee_amount_def
        CheckpointQueue_building_def CheckpointQueue_get_def CheckpointQueue_get_deque_index_def add_w_def sub_u_def div_u_def mul_w_def spending_fee_def
        demo_cq_def CheckpointConfig_default_def CheckpointConfig_bitcoin_def)
      (simp add: demo_building_def Checkpoint_new_def DEFAULT_FEE_RATE_def mul_w_def call_defs div_u_def Let_def
        Bitcoin_give_miner_fee_def as_i64_def add_i64_def add_w_def building_mut_def CheckpointQueue_get_mut_def
        CheckpointQueue_get_deque_index_def sub_u_def edit_checkpoint_tx_def get_batch_def get_tx_def Batch_default_def)
  then obtain s' where s': "Bitcoin_withdraw demo_app_lib demo_user_ctx [0, 1] 5000000000 ?s = (Ok (), s')" by (metis prod.collapse)
  from withdraw_pays_out [OF demo_app_law(1) inv s'] obtain signer fee where
    "call_signer demo_user_ctx = Ok signer" "bc_accounts s' = (bc_accounts ?s)(signer := bc_accounts ?s signer - 5000000000)"
    "bc_fee_pool s' = bc_fee_pool ?s + as_i64 fee" by blast
  with s' show ?thesis
    by (intro exI [of _ s'] exI [of _ signer] exI [of _ fee]) (simp add: Bitcoin_configure_def demo_bitcoin_def Bitcoin_migrate_from_def)
qed

text \<open>The state with an amount added to the balance of a sender, if there is one.\<close>

definition refunded :: "u64 \<Rightarrow> identity \<Rightarrow> 'i inner_app \<Rightarrow> 'i inner_app" where
  "refunded coins sender base = (case sender of Identity_None \<Rightarrow> base
     | Identity_NativeAccount addr \<Rightarrow> base\<lparr>ap_bitcoin := (ap_bitcoin base)
         \<lparr>bc_accounts := (bc_accounts (ap_bitcoin base))(addr := bc_accounts (ap_bitcoin base) addr + coins)\<rparr>\<rparr>)"

lemma return_to_sender_refunds:
  assumes "coin_law L" and "return_to_sender L coins sender base = (Ok (), app')"
  shows "app' = refunded coins sender base"
  using assms(2) coin_lawD(5) [OF assms(1)] by (auto simp: refunded_def return_to_sender_def accounts_deposit_def split: identity.splits)

lemma after_refused_frame:
  "bc_accounts (ap_bitcoin (after_refused L dest n app)) = bc_accounts (ap_bitcoin app)
   \<and> (after_refused L dest n app = app \<or> (\<exists>d fee. dest = Ibc_dest d \<and> refused_mint L d n app = Some (fee, after_refused L dest n app)
        \<and> (if IbcDest_is_fee_exempt L d then fee = 0 \<and> ap_bitcoin (after_refused L dest n app) = ap_bitcoin app
           else Bitcoin_give_rewards L fee (ap_bitcoin app) = (Ok (), ap_bitcoin (after_refused L dest n app)))))"
proof (cases "\<exists>d fee app1. dest = Ibc_dest d \<and> refused_mint L d n app = Some (fee, app1)")
  case True
  then obtain d fee app1 where d: "dest = Ibc_dest d" "refused_mint L d n app = Some (fee, app1)" by blast
  with refused_mint_frame [OF d(2)] show ?thesis by (auto simp: after_refused_def)
next
  case False
  then show ?thesis by (auto simp: after_refused_def split: dest.splits option.splits)
qed

text \<open>
  C11: pending coins are never stranded by a failed credit. When \<open>try_credit_dest\<close> succeeds, either the
  destination was valid and was credited, or crediting it failed and the sender, if there is one, has the whole amount
  back, no other balance changes, and nothing else changes unless the IBC module refused to mint the coins. In
  that case, which the code leaves open with a TODO, the state is the one that the refusal leaves: the fee that was
  taken before is in the pools, although it was returned to the sender too.
\<close>

theorem failed_credit_returns_coins:
  assumes "coin_law L" and "app_inv U app" and "cq_queue (bc_checkpoints (ap_bitcoin app)) \<noteq> []"
    and "InnerApp_try_credit_dest L dest coins sender app = (Ok (), app')"
  shows "if InnerApp_validate_dest L dest coins app = Ok () \<and> fst (InnerApp_credit_dest L dest coins app) = Ok ()
    then InnerApp_credit_dest L dest coins app = (Ok (), app')
    else \<exists>base. app' = refunded coins sender base \<and> bc_accounts (ap_bitcoin base) = bc_accounts (ap_bitcoin app)
      \<and> (base = app \<or> (\<exists>d fee. dest = Ibc_dest d \<and> refused_mint L d coins app = Some (fee, base)
           \<and> (if IbcDest_is_fee_exempt L d then fee = 0 \<and> ap_bitcoin base = ap_bitcoin app
              else Bitcoin_give_rewards L fee (ap_bitcoin app) = (Ok (), ap_bitcoin base))))"
proof (cases "InnerApp_validate_dest L dest coins app = Ok () \<and> fst (InnerApp_credit_dest L dest coins app) = Ok ()")
  case True
  from True assms(4) obtain taken left where take: "coin_take L coins coins = Ok (taken, left)"
    by (auto simp: InnerApp_try_credit_dest_def)
  with coin_lawD(1) [OF assms(1) take] True assms(4) show ?thesis
    by (auto simp: InnerApp_try_credit_dest_def cbind_lift_Ok split: prod.splits)
next
  case False
  let ?result = "\<lambda>base. app' = refunded coins sender base \<and> bc_accounts (ap_bitcoin base) = bc_accounts (ap_bitcoin app)
      \<and> (base = app \<or> (\<exists>d fee. dest = Ibc_dest d \<and> refused_mint L d coins app = Some (fee, base)
           \<and> (if IbcDest_is_fee_exempt L d then fee = 0 \<and> ap_bitcoin base = ap_bitcoin app
              else Bitcoin_give_rewards L fee (ap_bitcoin app) = (Ok (), ap_bitcoin base))))"
  from try_credit_dest_cases [OF assms] False
  have "return_to_sender L coins sender app = (Ok (), app') \<or> return_to_sender L coins sender (after_refused L dest coins app) = (Ok (), app')"
    by force
  then have "?result app \<or> ?result (after_refused L dest coins app)"
    using return_to_sender_refunds [OF assms(1)] after_refused_frame [of L dest coins app] by metis
  then have "\<exists>base. ?result base" by blast
  then show ?thesis unfolding if_not_P [OF False] .
qed

theorem failed_credit_returns_coins_witness:
  "\<exists>app'. InnerApp_try_credit_dest demo_app_lib (Bitcoin_dest [106]) 7 (Identity_NativeAccount [2]) demo_app = (Ok (), app')
     \<and> bc_accounts (ap_bitcoin app') [2] = 7"
proof -
  have invalid: "InnerApp_validate_dest demo_app_lib (Bitcoin_dest [106]) 7 demo_app = Err (App ''Script is an OP_RETURN'')"
    by (simp add: InnerApp_validate_dest_def Bitcoin_validate_withdrawal_def demo_app_def demo_bitcoin_def Bitcoin_migrate_from_def
        BitcoinConfig_default_def NETWORK_def BitcoinConfig_bitcoin_def)
  then obtain app' where app': "InnerApp_try_credit_dest demo_app_lib (Bitcoin_dest [106]) 7 (Identity_NativeAccount [2]) demo_app = (Ok (), app')"
    by (simp add: InnerApp_try_credit_dest_def return_to_sender_def accounts_deposit_def call_defs on_bitcoin_def demo_app_def
        demo_bitcoin_def Bitcoin_migrate_from_def add_w_def)
  have "cq_queue (bc_checkpoints (ap_bitcoin demo_app)) \<noteq> []"
    by (simp add: demo_app_def demo_bitcoin_def Bitcoin_migrate_from_def demo_cq_def)
  from failed_credit_returns_coins [OF demo_app_law(1) demo_app_inv this app'] invalid app' show ?thesis
    by (auto simp: refunded_def demo_app_def demo_bitcoin_def Bitcoin_migrate_from_def)
qed

text \<open>
  Who is reported as offline. When enough checkpoints have completed, the offline signers are
  exactly the validators at least as powerful as the weakest current signatory, strongest first,
  whose registered key still owes a signature to every one of the last completed checkpoints.
\<close>

theorem offline_signers_exact:
  assumes "Bitcoin_offline_signers L C s = Ok ks"
  shows "\<exists>validators entries sigset completed.
    cx_validators C = Some validators \<and> validator_entries L validators = Ok entries
    \<and> CheckpointQueue_active_sigset (bc_checkpoints s) = Ok sigset \<and> ss_signatories sigset \<noteq> []
    \<and> CheckpointQueue_completed (bc_checkpoints s) (bf_max_offline_checkpoints (bc_config s)) = Ok completed
    \<and> ks = (if length completed < bf_max_offline_checkpoints (bc_config s) then []
        else map ve_pubkey (filter (\<lambda>v. sg_voting_power (last (ss_signatories sigset)) \<le> ve_power v
               \<and> silent L (bc_signatory_keys s) completed (ve_pubkey v))
             (sort_key (\<lambda>v. - int (ve_power v)) entries)))"
proof -
  from assms obtain validators entries sigset completed where
    parts: "cx_validators C = Some validators" "validator_entries L validators = Ok entries"
    "CheckpointQueue_active_sigset (bc_checkpoints s) = Ok sigset" "ss_signatories sigset \<noteq> []"
    "CheckpointQueue_completed (bc_checkpoints s) (bf_max_offline_checkpoints (bc_config s)) = Ok completed"
    and ks: "(if length completed < bf_max_offline_checkpoints (bc_config s) then Ok []
       else offline_loop L (bc_signatory_keys s) (sg_voting_power (last (ss_signatories sigset))) completed
              (sort_key (\<lambda>v. - int (ve_power v)) entries)) = Ok ks"
    by (auto simp: Bitcoin_offline_signers_def Let_def split: if_splits)
  have "ks = map ve_pubkey (filter (\<lambda>v. sg_voting_power (last (ss_signatories sigset)) \<le> ve_power v
       \<and> silent L (bc_signatory_keys s) completed (ve_pubkey v)) (sort_key (\<lambda>v. - int (ve_power v)) entries))"
    if "\<not> length completed < bf_max_offline_checkpoints (bc_config s)"
    using ks that takeWhile_sorted_filter [of ve_power "sort_key (\<lambda>v. - int (ve_power v)) entries"]
    by (auto dest!: offline_loop_Ok simp: conj_commute)
  with parts ks show ?thesis
    by (intro exI [of _ validators] exI [of _ entries] exI [of _ sigset] exI [of _ completed]) auto
qed

theorem offline_signers_exact_witness:
  "\<exists>s cp. Bitcoin_offline_signers demo_app_lib demo_user_ctx s = Ok [[1]]
     \<and> CheckpointQueue_completed (bc_checkpoints s) 1 = Ok [cp] \<and> silent demo_app_lib (bc_signatory_keys s) [cp] [1]"
proof -
  let ?keys = "\<lparr>sk_by_cons = [([1], demo_xpub33 2)], sk_xpubs = []\<rparr>"
  let ?cp = "demo_cp\<lparr>cp_status := Complete\<rparr>"
  let ?s = "demo_bitcoin\<lparr>bc_checkpoints := demo_cq\<lparr>cq_queue := [?cp, demo_building]\<rparr>,
     bc_config := BitcoinConfig_regtest, bc_signatory_keys := ?keys\<rparr>"
  have "demo_pk 1 \<noteq> demo_pk 2" by (simp add: demo_pk_def)
  moreover have "derive_pubkey demo_app_lib (demo_xpub33 2) 4 = Ok (demo_pk 2)"
    by (simp add: derive_pubkey_def demo_app_lib_def demo_flat_lib_def tx_lib.defs script_lib.defs demo_keys_lib_def demo_xpub33_def)
  ultimately have asked: "Checkpoint_to_sign demo_app_lib (demo_xpub33 2) ?cp = Ok [([7], 4)]"
    by (simp add: Checkpoint_to_sign_def demo_cp_def batch_to_sign_def Batch_default_def Batch_signed_def demo_cp_tx_def
        BitcoinTx_default_def input_to_sign_def demo_input_def demo_ts_def ThresholdSig_needs_sig_def)
  have done': "CheckpointQueue_completed (bc_checkpoints ?s) 1 = Ok [?cp]"
    by (simp add: CheckpointQueue_completed_def CheckpointQueue_len_def demo_get_simps demo_cq_def)
  have "Bitcoin_offline_signers demo_app_lib demo_user_ctx ?s = Ok [[1]]"
    by (simp add: Bitcoin_offline_signers_def demo_user_ctx_def demo_cq_ctx_def demo_ctx_def CheckpointQueue_active_sigset_def
        BitcoinConfig_regtest_def done' [simplified])
      (simp add: demo_get_simps demo_cq_def demo_small_ss_def SignatoryKeys_get_def asked)
  with offline_signers_exact [OF this] done' show ?thesis
    by (intro exI [of _ ?s] exI [of _ ?cp]) (auto simp: BitcoinConfig_regtest_def dest!: filter_eq_ConsD)
qed

text \<open>
  Pending transfers are handed out once. When the last completed checkpoint exists, \<open>take_pending\<close>
  succeeds, returns each of its pending transfers and empties it, changing nothing else; taking
  again right away returns nothing.
\<close>

theorem pending_taken_once:
  assumes "bridge_inv U s" and "CheckpointQueue_last_completed_index (bc_checkpoints s) = Ok i"
    and "CheckpointQueue_get (bc_checkpoints s) i = Ok cp"
  shows "\<exists>s'. Bitcoin_take_pending s = (Ok (map (\<lambda>((dest, sender), coins). (dest, coins, sender)) (cp_pending cp)), s')
    \<and> CheckpointQueue_get (bc_checkpoints s') i = Ok (cp\<lparr>cp_pending := []\<rparr>)
    \<and> bc_checkpoints_update (\<lambda>_. bc_checkpoints s) s' = s
    \<and> (\<forall>k. k \<noteq> i \<longrightarrow> CheckpointQueue_get (bc_checkpoints s') k = CheckpointQueue_get (bc_checkpoints s) k)
    \<and> Bitcoin_take_pending s' = (Ok [], s')"
proof -
  let ?q = "bc_checkpoints s"
  let ?j = "i - first_of ?q"
  let ?q' = "?q\<lparr>cq_queue := (cq_queue ?q)[?j := cp\<lparr>cp_pending := []\<rparr>]\<rparr>"
  let ?s' = "s\<lparr>bc_checkpoints := ?q'\<rparr>"
  have inv: "cq_inv ?q" and wf: "cq_indexed (cq_index ?q) (cq_queue ?q)" using assms(1) by (auto simp: bridge_inv_def cq_inv_def)
  from assms(3) have j: "?j < length (cq_queue ?q)" "cq_queue ?q ! ?j = cp" "first_of ?q \<le> i" "i \<le> cq_index ?q"
    by (auto simp: get_eq [OF wf] CheckpointQueue_get_def get_deque_index_eq [OF wf] split: if_splits)
  then have "wf_pending cp" using assms(1) by (auto simp: bridge_inv_def)
  from take_pending_of [OF inv assms(2,3) this]
  have taken: "Bitcoin_take_pending s = (Ok (map (\<lambda>((dest, sender), coins). (dest, coins, sender)) (cp_pending cp)), ?s')" .
  have inv': "cq_inv (bc_checkpoints ?s')" using take_pending_Ok(1) [OF assms(1) taken] unfolding bridge_inv_def by blast
  then have wf': "cq_indexed (cq_index ?q') (cq_queue ?q')" by (simp add: cq_inv_def)
  have get: "CheckpointQueue_get (bc_checkpoints ?s') k = (if k = i then Ok (cp\<lparr>cp_pending := []\<rparr>) else CheckpointQueue_get ?q k)" for k
    using j by (auto simp: CheckpointQueue_get_def get_deque_index_eq [OF wf] get_deque_index_eq [OF wf'] nth_list_update)
  have "CheckpointQueue_last_completed_index (bc_checkpoints ?s') = Ok i"
    using last_completed_index_edit [OF inv j(1), of "cp\<lparr>cp_pending := []\<rparr>"] assms(2) j(2) by simp
  moreover have "CheckpointQueue_get (bc_checkpoints ?s') i = Ok (cp\<lparr>cp_pending := []\<rparr>)" using get by simp
  ultimately have again: "Bitcoin_take_pending ?s' = (Ok [], ?s')"
    using take_pending_of [OF inv', of i "cp\<lparr>cp_pending := []\<rparr>"] j by (simp add: wf_pending_def list_update_same_conv)
  show ?thesis by (rule exI [of _ ?s']) (use taken again get in simp)
qed

theorem pending_taken_once_witness:
  "\<exists>s'. Bitcoin_take_pending demo_bitcoin = (Ok [], s') \<and> Bitcoin_take_pending s' = (Ok [], s')"
proof -
  have inv: "bridge_inv 1000000 demo_bitcoin" using demo_app_inv by (simp add: demo_app_def)
  have i: "CheckpointQueue_last_completed_index (bc_checkpoints demo_bitcoin) = Ok 3"
    "CheckpointQueue_get (bc_checkpoints demo_bitcoin) 3 = Ok demo_old"
    by (simp_all add: demo_bitcoin_def Bitcoin_migrate_from_def demo_get_simps demo_cq_def)
  have "cp_pending demo_old = []" by (simp add: demo_old_def demo_building_def Checkpoint_new_def)
  with pending_taken_once [OF inv i] show ?thesis by auto
qed

text \<open>
  The amount by which the application validates a deposit's destination does not depend on the
  miner fee, although the amount minted has it taken off.
\<close>

theorem deposit_estimate_ignores_miner_fee:
  assumes "Bitcoin_amount_after_deposit_fee L tx vout i dest s = Ok n"
  shows "n = (let amount = to_value (tr_output tx ! vout) * bf_units_per_sat (bc_config s)
      in if Dest_is_fee_exempt L dest then amount else amount - amount div 100)"
  using assms by (auto simp: Bitcoin_amount_after_deposit_fee_def Let_def calc_bridge_deposit_fee_def mul_w_def split: if_splits)

end
