(* ===== verification/Airdrop.thy ===== *)
theory Airdrop
  imports Prelude
begin

text \<open>
  Airdrop accounts (src/src/airdrop.rs): parts that can be locked, claimable or claimed, the calls
  that claim them and join accounts, and the allocation of the airdrops from a snapshot. The funding
  context that claims pay into, orga's amounts and decimals, and the reading of CSV files and
  addresses are the parameters of \<open>nom_lib\<close>.
\<close>

section \<open>Parts\<close>

record part =
  pt_locked :: u64
  pt_claimable :: u64
  pt_claimed :: u64

definition Part_default :: part where
  "Part_default = \<lparr>pt_locked = 0, pt_claimable = 0, pt_claimed = 0\<rparr>"

definition Part_unlock :: "part \<Rightarrow> part result" where
  "Part_unlock p =
     rbind (add_u64 (pt_claimable p) (pt_locked p)) (\<lambda>claimable.
     Ok (p\<lparr>pt_claimable := claimable, pt_locked := 0\<rparr>))"

definition Part_claim :: "part \<Rightarrow> (u64 \<times> part) result" where
  "Part_claim p =
     (let amount = pt_claimable p in
      if amount = 0 then Err (Coins ''No balance to claim'')
      else
      rbind (add_u64 (pt_claimed p) amount) (\<lambda>claimed.
      Ok (amount, p\<lparr>pt_claimed := claimed, pt_claimable := 0\<rparr>)))"

definition Part_is_empty :: "part \<Rightarrow> bool" where
  "Part_is_empty p \<longleftrightarrow> p = Part_default"

definition Part_total :: "part \<Rightarrow> u64 result" where
  "Part_total p = rbind (add_u64 (pt_locked p) (pt_claimable p)) (\<lambda>n. add_u64 n (pt_claimed p))"

text \<open>The closure \<open>add_part\<close> of the two \<open>join_accounts\<close>.\<close>

definition add_part :: "part \<Rightarrow> part \<Rightarrow> part result" where
  "add_part dest src =
     rbind (if pt_claimable dest > 0 \<or> pt_claimed dest > 0
            then rbind (add_u64 (pt_claimable dest) (pt_locked src)) (\<lambda>n. Ok (dest\<lparr>pt_claimable := n\<rparr>))
            else rbind (add_u64 (pt_locked dest) (pt_locked src)) (\<lambda>n. Ok (dest\<lparr>pt_locked := n\<rparr>))) (\<lambda>dest.
     rbind (add_u64 (pt_claimable dest) (pt_claimable src)) (\<lambda>claimable.
     rbind (add_u64 (pt_claimed dest) (pt_claimed src)) (\<lambda>claimed.
     Ok (dest\<lparr>pt_claimable := claimable, pt_claimed := claimed\<rparr>))))"

section \<open>Accounts\<close>

record airdrop_account =
  ac_airdrop1 :: part
  ac_airdrop2 :: part
  ac_joined :: bool

definition AirdropAccount_default :: airdrop_account where
  "AirdropAccount_default = \<lparr>ac_airdrop1 = Part_default, ac_airdrop2 = Part_default, ac_joined = False\<rparr>"

definition AirdropAccount_is_empty :: "airdrop_account \<Rightarrow> bool" where
  "AirdropAccount_is_empty a \<longleftrightarrow> a = AirdropAccount_default"

record airdrop =
  ad_accounts :: "(address \<times> airdrop_account) list"

text \<open>
  A claim moves tokens from a state \<open>'s\<close> to the funding context, which holds \<open>fd_paid\<close> units.
\<close>

record 's funded =
  fd_state :: 's
  fd_paid :: u64

record nom_lib =
  paid_give :: "u64 \<Rightarrow> u64 \<Rightarrow> u64 result"
  amount_sum :: "u64 \<Rightarrow> u64 \<Rightarrow> u64 result"
  amount_times :: "u64 \<Rightarrow> u64 \<Rightarrow> u64 result"
  amount_ratio :: "u64 \<Rightarrow> nat \<Rightarrow> nat \<Rightarrow> u64 result"  \<comment> \<open>\<open>(amount / (n / d))?.amount()\<close> in \<open>Decimal\<close>\<close>
  csv_records :: "bytes \<Rightarrow> string list result list"
  csv_message :: "error \<Rightarrow> string"
  read_address :: "string \<Rightarrow> address option"
  bech32_address :: "string \<Rightarrow> address option"

definition claim_signer :: "ctx \<Rightarrow> address result" where
  "claim_signer C =
     rbind (ok_or (SignerCtx ''No Signer context available'') (cx_signer C)) (ok_or (Coins ''Unauthorized account action''))"

definition pay_as_funding :: "'m nom_lib_scheme \<Rightarrow> ctx \<Rightarrow> u64 \<Rightarrow> ('s funded, unit) call" where
  "pay_as_funding L C amount =
     cbind (lift_result (ok_or (Coins ''No Paid context found'') (cx_paid C))) (\<lambda>_.
     cbind (reads (\<lambda>s. paid_give L (fd_paid s) amount)) (\<lambda>paid.
     modify (fd_paid_update (\<lambda>_. paid))))"

definition Airdrop_get :: "airdrop \<Rightarrow> address \<Rightarrow> airdrop_account option" where
  "Airdrop_get ad addr = map_of (ad_accounts ad) addr"

text \<open>\<open>signer_acct_mut\<close>: the key and the value of the signer's account.\<close>

definition Airdrop_signer_acct_mut :: "ctx \<Rightarrow> airdrop \<Rightarrow> (address \<times> airdrop_account) result" where
  "Airdrop_signer_acct_mut C ad =
     rbind (claim_signer C) (\<lambda>signer.
     rbind (ok_or (App ''No airdrop account for signer'') (Airdrop_get ad signer)) (\<lambda>acct. Ok (signer, acct)))"

definition Airdrop_put :: "address \<Rightarrow> airdrop_account \<Rightarrow> airdrop \<Rightarrow> airdrop" where
  "Airdrop_put addr acct = ad_accounts_update (omap_insert (\<lambda>k. k) addr acct)"

definition Airdrop_claim_airdrop1 :: "'m nom_lib_scheme \<Rightarrow> ctx \<Rightarrow> (airdrop funded, unit) call" where
  "Airdrop_claim_airdrop1 L C =
     cbind (reads (\<lambda>s. Airdrop_signer_acct_mut C (fd_state s))) (\<lambda>(signer, acct).
     cbind (lift_result (Part_claim (ac_airdrop1 acct))) (\<lambda>(amount, part).
     cbind (modify (fd_state_update (Airdrop_put signer (acct\<lparr>ac_airdrop1 := part\<rparr>)))) (\<lambda>_.
     pay_as_funding L C amount)))"

definition Airdrop_claim_airdrop2 :: "'m nom_lib_scheme \<Rightarrow> ctx \<Rightarrow> (airdrop funded, unit) call" where
  "Airdrop_claim_airdrop2 L C =
     cbind (reads (\<lambda>s. Airdrop_signer_acct_mut C (fd_state s))) (\<lambda>(signer, acct).
     cbind (lift_result (Part_claim (ac_airdrop2 acct))) (\<lambda>(amount, part).
     cbind (modify (fd_state_update (Airdrop_put signer (acct\<lparr>ac_airdrop2 := part\<rparr>)))) (\<lambda>_.
     pay_as_funding L C amount)))"

definition Airdrop_join_accounts :: "ctx \<Rightarrow> address \<Rightarrow> (airdrop, unit) call" where
  "Airdrop_join_accounts C dest_addr =
     cbind (reads (Airdrop_signer_acct_mut C)) (\<lambda>(signer, src).
     if ac_joined src then lift_result (Err (App ''Account already joined''))
     else if AirdropAccount_is_empty src then lift_result (Err (App ''Account has no airdrop balance''))
     else
     cbind (modify (Airdrop_put signer AirdropAccount_default)) (\<lambda>_.
     cbind (reads (\<lambda>ad.
              let dest = (case Airdrop_get ad dest_addr of None \<Rightarrow> AirdropAccount_default | Some a \<Rightarrow> a) in
              rbind (add_part (ac_airdrop1 dest) (ac_airdrop1 src)) (\<lambda>part1.
              rbind (add_part (ac_airdrop2 dest) (ac_airdrop2 src)) (\<lambda>part2.
              Ok \<lparr>ac_airdrop1 = part1, ac_airdrop2 = part2, ac_joined = True\<rparr>)))) (\<lambda>dest.
     modify (Airdrop_put dest_addr dest))))"

section \<open>Allocation\<close>

definition MAX_STAKED :: u64 where "MAX_STAKED = 1000000000"
definition AIRDROP_II_TOTAL :: u64 where "AIRDROP_II_TOTAL = 3500000000000"
definition airdrop_precision :: nat where "airdrop_precision = 1000000"

definition Airdrop_score :: "u64 \<Rightarrow> u64 \<Rightarrow> u64" where
  "Airdrop_score staked delegations = min staked MAX_STAKED"

text \<open>
  A recipient: the address, the pairs of staked amount and delegation count on each network, and the
  number of testnet tasks completed.
\<close>

type_synonym recipient = "address \<times> (u64 \<times> u64) list \<times> u64"

text \<open>\<open>str::parse\<close> for \<open>u64\<close> and \<open>bool\<close>.\<close>

fun parse_digits :: "nat \<Rightarrow> string \<Rightarrow> nat option" where
  "parse_digits n [] = (if n < 2 ^ 64 then Some n else None)"
| "parse_digits n (c # cs) =
     (let d = of_char c in if 48 \<le> d \<and> d < 58 then parse_digits (10 * n + (d - 48)) cs else None)"

definition parse_u64 :: "string \<Rightarrow> u64 option" where
  "parse_u64 s =
     (let digits = (if s \<noteq> [] \<and> hd s = CHR ''+'' then tl s else s) in
      if digits = [] then None else parse_digits 0 digits)"

definition parse_bool :: "string \<Rightarrow> bool option" where
  "parse_bool s = (if s = ''true'' then Some True else if s = ''false'' then Some False else None)"

fun chunks_exact2 :: "'a list \<Rightarrow> ('a \<times> 'a) list" where
  "chunks_exact2 (a # b # xs) = (a, b) # chunks_exact2 xs"
| "chunks_exact2 _ = []"

definition recipient_of_row :: "'m nom_lib_scheme \<Rightarrow> string list \<Rightarrow> recipient option result" where
  "recipient_of_row L row =
     (case row of
        [] \<Rightarrow> Err Panic
      | name # items \<Rightarrow>
          if length name \<noteq> 44 then Ok None
          else
          rbind (unwrap (read_address L name)) (\<lambda>addr.
          rbind (map_result (\<lambda>s. unwrap (parse_bool s)) (filter (\<lambda>s. parse_u64 s = None) items)) (\<lambda>claims.
          let values = List.map_filter parse_u64 items in
          Ok (Some (addr, chunks_exact2 values, length (filter (\<lambda>b. b) claims))))))"

definition Airdrop_get_recipients_from_csv :: "'m nom_lib_scheme \<Rightarrow> bytes \<Rightarrow> recipient list result" where
  "Airdrop_get_recipients_from_csv L data =
     rbind (map_result (\<lambda>row. case row of Ok row \<Rightarrow> recipient_of_row L row | Err _ \<Rightarrow> Err Panic) (csv_records L data)) (\<lambda>rs.
     Ok (List.map_filter (\<lambda>r. r) rs))"

text \<open>The scores of one recipient are added to the totals of the networks.\<close>

fun add_scores :: "u64 list \<Rightarrow> (u64 \<times> u64) list \<Rightarrow> u64 list result" where
  "add_scores totals [] = Ok totals"
| "add_scores [] (_ # _) = Err Panic"
| "add_scores (n # totals) ((staked, delegations) # networks) =
     rbind (add_u64 n (Airdrop_score staked delegations)) (\<lambda>n.
     rbind (add_scores totals networks) (\<lambda>totals. Ok (n # totals)))"

text \<open>\<open>iter().sum()\<close> on \<open>u64\<close>.\<close>

definition sum_u64 :: "u64 list \<Rightarrow> u64 result" where
  "sum_u64 = fold_result add_u64 0"

definition recipient_unom :: "nat list \<Rightarrow> (u64 \<times> u64) list \<Rightarrow> u64 result" where
  "recipient_unom unom_per_score networks =
     sum_u64 (map (\<lambda>((staked, delegations), ups). (Airdrop_score staked delegations * ups div airdrop_precision) mod 2 ^ 64)
       (zip networks unom_per_score))"

definition Airdrop_airdrop_to :: "address \<Rightarrow> u64 \<Rightarrow> u64 \<Rightarrow> airdrop \<Rightarrow> airdrop" where
  "Airdrop_airdrop_to addr unom testnet_completions ad =
     (let acct = (case Airdrop_get ad addr of None \<Rightarrow> AirdropAccount_default | Some a \<Rightarrow> a) in
      Airdrop_put addr (acct\<lparr>ac_airdrop2 := (ac_airdrop2 acct)\<lparr>pt_claimable := unom\<rparr>\<rparr>) ad)"

text \<open>The loop over the recipients, with the totals it logs.\<close>

fun airdrop_loop :: "nat list \<Rightarrow> recipient list \<Rightarrow> u64 \<Rightarrow> nat \<Rightarrow> (airdrop, u64 \<times> nat) call" where
  "airdrop_loop ups [] airdrop_total accounts = lift_result (Ok (airdrop_total, accounts))"
| "airdrop_loop ups ((addr, networks, completions) # rs) airdrop_total accounts =
     cbind (lift_result (recipient_unom ups networks)) (\<lambda>unom.
     cbind (modify (Airdrop_airdrop_to addr unom completions)) (\<lambda>_.
     cbind (lift_result (add_u64 airdrop_total unom)) (\<lambda>airdrop_total.
     cbind (lift_result (add_w 31 accounts 1)) (\<lambda>accounts.
     airdrop_loop ups rs airdrop_total accounts))))"

definition Airdrop_init_from_airdrop2_csv :: "'m nom_lib_scheme \<Rightarrow> bytes \<Rightarrow> (airdrop, unit) call" where
  "Airdrop_init_from_airdrop2_csv L data =
     cbind (lift_result (Airdrop_get_recipients_from_csv L data)) (\<lambda>recipients.
     if recipients = [] then lift_result (Err Panic)
     else
     let len = length (fst (snd (hd recipients))) in
     cbind (lift_result (fold_result (\<lambda>totals (_, networks, _). add_scores totals networks) (replicate len 0) recipients)) (\<lambda>totals.
     cbind (lift_result (div_u AIRDROP_II_TOTAL len)) (\<lambda>unom_per_network.
     cbind (lift_result (map_result (div_u (unom_per_network * airdrop_precision)) totals)) (\<lambda>unom_per_score.
     cbind (airdrop_loop unom_per_score recipients 0 0) (\<lambda>_.
     lift_result (Ok ()))))))"

definition Airdrop_init_airdrop1_amount :: "'m nom_lib_scheme \<Rightarrow> address \<Rightarrow> u64 \<Rightarrow> u64 \<Rightarrow> (airdrop, u64) call" where
  "Airdrop_init_airdrop1_amount L addr liquid staked =
     cbind (lift_result (amount_times L (min staked 1000000000) 4)) (\<lambda>weighted.
     cbind (lift_result (amount_sum L (min liquid 1000000000) weighted)) (\<lambda>units.
     cbind (lift_result (amount_ratio L units 20299325 1000000)) (\<lambda>nom_amount.
     cbind (modify (\<lambda>ad. let acct = (case Airdrop_get ad addr of None \<Rightarrow> AirdropAccount_default | Some a \<Rightarrow> a) in
              Airdrop_put addr (acct\<lparr>ac_airdrop1 := (ac_airdrop1 acct)\<lparr>pt_claimable := nom_amount\<rparr>\<rparr>) ad)) (\<lambda>_.
     lift_result (Ok nom_amount)))))"

fun airdrop1_loop :: "'m nom_lib_scheme \<Rightarrow> string list result list \<Rightarrow> u64 \<Rightarrow> nat \<Rightarrow> (airdrop, unit) call" where
  "airdrop1_loop L [] minted accounts = lift_result (Ok ())"
| "airdrop1_loop L (row # rows) minted accounts =
     cbind (lift_result (map_err (\<lambda>e. App (csv_message L e)) row)) (\<lambda>row.
     if length row < 3 then lift_result (Err Panic)
     else
     cbind (lift_result (unwrap (bech32_address L (row ! 0)))) (\<lambda>addr.
     cbind (lift_result (unwrap (parse_u64 (row ! 1)))) (\<lambda>liquid.
     cbind (lift_result (unwrap (parse_u64 (row ! 2)))) (\<lambda>staked.
     cbind (Airdrop_init_airdrop1_amount L addr liquid staked) (\<lambda>minted_for_account.
     cbind (lift_result (amount_sum L minted minted_for_account)) (\<lambda>minted.
     cbind (lift_result (add_w 31 accounts 1)) (\<lambda>accounts.
     airdrop1_loop L rows minted accounts)))))))"

definition Airdrop_init_from_airdrop1_csv :: "'m nom_lib_scheme \<Rightarrow> bytes \<Rightarrow> (airdrop, unit) call" where
  "Airdrop_init_from_airdrop1_csv L data = airdrop1_loop L (csv_records L data) 0 0"

section \<open>Claims pay each unit once\<close>

text \<open>
  Books of claims: what has been allocated never changes, and what has been paid out is what has
  been marked as claimed. So no more is ever paid than was allocated and unclaimed.
\<close>

locale claim_book =
  fixes inv :: "'s \<Rightarrow> bool" and allocated claimed paid :: "'s \<Rightarrow> nat" and step :: "'s \<Rightarrow> 's \<Rightarrow> bool"
  assumes step_inv: "inv s \<Longrightarrow> step s s' \<Longrightarrow> inv s'"
    and step_allocated: "inv s \<Longrightarrow> step s s' \<Longrightarrow> allocated s' = allocated s"
    and step_paid: "inv s \<Longrightarrow> step s s' \<Longrightarrow> paid s' + claimed s = paid s + claimed s'"
    and claimed_le: "claimed s \<le> allocated s"
begin

lemma run: "step\<^sup>*\<^sup>* s s' \<Longrightarrow> inv s \<Longrightarrow> inv s' \<and> allocated s' = allocated s \<and> paid s' + claimed s = paid s + claimed s'"
proof (induction rule: rtranclp_induct)
  case (step t u)
  with step_inv step_allocated step_paid show ?case by fastforce
qed simp

lemma paid_le: "step\<^sup>*\<^sup>* s s' \<Longrightarrow> inv s \<Longrightarrow> paid s' + claimed s \<le> paid s + allocated s"
  using run [of s s'] claimed_le [of s'] by simp

end

definition part_sum :: "part \<Rightarrow> nat" where
  "part_sum p = pt_locked p + pt_claimable p + pt_claimed p"

lemma Part_total_Ok: "Part_total p = Ok n \<Longrightarrow> n = part_sum p"
  by (simp add: Part_total_def part_sum_def)

lemma Part_unlock_Ok: "Part_unlock p = Ok p' \<Longrightarrow> part_sum p' = part_sum p \<and> pt_claimed p' = pt_claimed p \<and> pt_locked p' = 0"
  by (auto simp: Part_unlock_def part_sum_def)

lemma Part_claim_Ok:
  "Part_claim p = Ok (n, p') \<Longrightarrow> part_sum p' = part_sum p \<and> pt_claimed p' = pt_claimed p + n \<and> n = pt_claimable p \<and> 0 < n"
  by (auto simp: Part_claim_def part_sum_def Let_def)

lemma add_part_Ok:
  "add_part dest src = Ok p \<Longrightarrow> part_sum p = part_sum dest + part_sum src \<and> pt_claimed p = pt_claimed dest + pt_claimed src"
  by (auto simp: add_part_def part_sum_def split: if_splits)

lemma Part_default_sum [simp]: "part_sum Part_default = 0" "pt_claimed Part_default = 0" "pt_claimable Part_default = 0"
  by (simp_all add: Part_default_def part_sum_def)

definition acct_sum :: "airdrop_account \<Rightarrow> nat" where
  "acct_sum a = part_sum (ac_airdrop1 a) + part_sum (ac_airdrop2 a)"

definition acct_claimed :: "airdrop_account \<Rightarrow> nat" where
  "acct_claimed a = pt_claimed (ac_airdrop1 a) + pt_claimed (ac_airdrop2 a)"

lemma acct_default [simp]: "acct_sum AirdropAccount_default = 0" "acct_claimed AirdropAccount_default = 0"
  by (simp_all add: acct_sum_def acct_claimed_def AirdropAccount_default_def)

abbreviation ad_inv :: "airdrop \<Rightarrow> bool" where
  "ad_inv ad \<equiv> omap_inv (\<lambda>k. k) (ad_accounts ad)"

abbreviation ad_sum :: "(airdrop_account \<Rightarrow> nat) \<Rightarrow> airdrop \<Rightarrow> nat" where
  "ad_sum g ad \<equiv> omap_sum g (ad_accounts ad)"

lemma Airdrop_put_sum:
  "ad_inv ad \<Longrightarrow> ad_sum g (Airdrop_put addr a ad) + old_value g (Airdrop_get ad addr) = ad_sum g ad + g a"
  by (simp add: Airdrop_put_def Airdrop_get_def omap_sum_insert)

lemma Airdrop_put_inv [simp]: "ad_inv ad \<Longrightarrow> ad_inv (Airdrop_put addr a ad)"
  by (simp add: Airdrop_put_def omap_inv_insert)

lemma Airdrop_get_put [simp]: "Airdrop_get (Airdrop_put addr a ad) addr' = (if addr' = addr then Some a else Airdrop_get ad addr')"
  by (simp add: Airdrop_get_def Airdrop_put_def)

text \<open>Replacing an account by one of the same total.\<close>

lemma Airdrop_put_same:
  assumes "ad_inv ad" and "Airdrop_get ad addr = Some a" and "acct_sum a' = acct_sum a" and "acct_claimed a' = acct_claimed a + n"
  shows "ad_sum acct_sum (Airdrop_put addr a' ad) = ad_sum acct_sum ad"
    and "ad_sum acct_claimed (Airdrop_put addr a' ad) = ad_sum acct_claimed ad + n"
  using Airdrop_put_sum [OF assms(1), of acct_sum addr a'] Airdrop_put_sum [OF assms(1), of acct_claimed addr a'] assms(2-4)
  by simp_all

definition paid_law :: "'m nom_lib_scheme \<Rightarrow> bool" where
  "paid_law L \<longleftrightarrow> (\<forall>p n p'. paid_give L p n = Ok p' \<longrightarrow> p' = p + n)"

lemma pay_as_funding_Ok:
  "paid_law L \<Longrightarrow> pay_as_funding L C n s = (Ok u, s') \<Longrightarrow> s' = s\<lparr>fd_paid := fd_paid s + n\<rparr>"
  by (auto simp: pay_as_funding_def paid_law_def)

lemma claim_paid:
  assumes "paid_law L" and "ad_inv (fd_state s)" and "Airdrop_get (fd_state s) signer = Some a"
    and "acct_sum a' = acct_sum a" and "acct_claimed a' = acct_claimed a + n"
    and "pay_as_funding L C n (fd_state_update (Airdrop_put signer a') s) = (Ok u, s')"
  shows "ad_inv (fd_state s') \<and> ad_sum acct_sum (fd_state s') = ad_sum acct_sum (fd_state s)
    \<and> fd_paid s' + ad_sum acct_claimed (fd_state s) = fd_paid s + ad_sum acct_claimed (fd_state s')"
  using pay_as_funding_Ok [OF assms(1,6)] Airdrop_put_same [OF assms(2-5)] assms(2) by simp

lemma claim_airdrop1_Ok:
  assumes "paid_law L" and "ad_inv (fd_state s)" and "Airdrop_claim_airdrop1 L C s = (Ok u, s')"
  shows "ad_inv (fd_state s') \<and> ad_sum acct_sum (fd_state s') = ad_sum acct_sum (fd_state s)
    \<and> fd_paid s' + ad_sum acct_claimed (fd_state s) = fd_paid s + ad_sum acct_claimed (fd_state s')"
proof -
  from assms(3) obtain signer acct n p where g: "Airdrop_get (fd_state s) signer = Some acct" and c: "Part_claim (ac_airdrop1 acct) = Ok (n, p)"
    and s': "pay_as_funding L C n (fd_state_update (Airdrop_put signer (acct\<lparr>ac_airdrop1 := p\<rparr>)) s) = (Ok u, s')"
    by (auto simp: Airdrop_claim_airdrop1_def Airdrop_signer_acct_mut_def)
  show ?thesis
    by (rule claim_paid [OF assms(1,2) g _ _ s']) (use Part_claim_Ok [OF c] in \<open>simp_all add: acct_sum_def acct_claimed_def\<close>)
qed

lemma claim_airdrop2_Ok:
  assumes "paid_law L" and "ad_inv (fd_state s)" and "Airdrop_claim_airdrop2 L C s = (Ok u, s')"
  shows "ad_inv (fd_state s') \<and> ad_sum acct_sum (fd_state s') = ad_sum acct_sum (fd_state s)
    \<and> fd_paid s' + ad_sum acct_claimed (fd_state s) = fd_paid s + ad_sum acct_claimed (fd_state s')"
proof -
  from assms(3) obtain signer acct n p where g: "Airdrop_get (fd_state s) signer = Some acct" and c: "Part_claim (ac_airdrop2 acct) = Ok (n, p)"
    and s': "pay_as_funding L C n (fd_state_update (Airdrop_put signer (acct\<lparr>ac_airdrop2 := p\<rparr>)) s) = (Ok u, s')"
    by (auto simp: Airdrop_claim_airdrop2_def Airdrop_signer_acct_mut_def)
  show ?thesis
    by (rule claim_paid [OF assms(1,2) g _ _ s']) (use Part_claim_Ok [OF c] in \<open>simp_all add: acct_sum_def acct_claimed_def\<close>)
qed

lemma join_accounts_Ok:
  assumes "ad_inv ad" and "Airdrop_join_accounts C dest_addr ad = (Ok u, ad')"
  shows "ad_inv ad'" "ad_sum acct_sum ad' = ad_sum acct_sum ad" "ad_sum acct_claimed ad' = ad_sum acct_claimed ad"
proof -
  from assms(2) obtain signer src p1 p2 dest where g: "Airdrop_get ad signer = Some src"
    and dest: "dest = (case Airdrop_get (Airdrop_put signer AirdropAccount_default ad) dest_addr of None \<Rightarrow> AirdropAccount_default | Some a \<Rightarrow> a)"
    and p: "add_part (ac_airdrop1 dest) (ac_airdrop1 src) = Ok p1" "add_part (ac_airdrop2 dest) (ac_airdrop2 src) = Ok p2"
    and ad': "ad' = Airdrop_put dest_addr \<lparr>ac_airdrop1 = p1, ac_airdrop2 = p2, ac_joined = True\<rparr> (Airdrop_put signer AirdropAccount_default ad)"
    by (auto simp: Airdrop_join_accounts_def Airdrop_signer_acct_mut_def Let_def split: if_splits)
  have inv: "ad_inv (Airdrop_put signer AirdropAccount_default ad)" using assms(1) by simp
  have old: "old_value f (Airdrop_get (Airdrop_put signer AirdropAccount_default ad) dest_addr) = f dest" if "f AirdropAccount_default = 0" for f
    using that by (auto simp: dest split: option.splits)
  let ?new = "\<lparr>ac_airdrop1 = p1, ac_airdrop2 = p2, ac_joined = True\<rparr>"
  have new: "acct_sum ?new = acct_sum dest + acct_sum src" "acct_claimed ?new = acct_claimed dest + acct_claimed src"
    using add_part_Ok [OF p(1)] add_part_Ok [OF p(2)] by (simp_all add: acct_sum_def acct_claimed_def)
  have moved: "ad_sum f ad' = ad_sum f ad" if "f AirdropAccount_default = 0" "f ?new = f dest + f src" for f
    using Airdrop_put_sum [OF assms(1), of f signer AirdropAccount_default, unfolded g option.case]
      Airdrop_put_sum [OF inv, of f dest_addr ?new, folded ad', unfolded old [of f, OF that(1)]] that by simp
  show "ad_inv ad'" using inv by (simp add: ad')
  show "ad_sum acct_sum ad' = ad_sum acct_sum ad" "ad_sum acct_claimed ad' = ad_sum acct_claimed ad"
    by (rule moved; simp add: new)+
qed

text \<open>The calls a user can make, by whatever signer and in whatever context.\<close>

inductive airdrop_step :: "'m nom_lib_scheme \<Rightarrow> airdrop funded \<Rightarrow> airdrop funded \<Rightarrow> bool" for L where
  claim1: "Airdrop_claim_airdrop1 L C s = (Ok (), s') \<Longrightarrow> airdrop_step L s s'"
| claim2: "Airdrop_claim_airdrop2 L C s = (Ok (), s') \<Longrightarrow> airdrop_step L s s'"
| join: "Airdrop_join_accounts C dest_addr (fd_state s) = (Ok (), ad) \<Longrightarrow> airdrop_step L s (s\<lparr>fd_state := ad\<rparr>)"

lemma acct_claimed_le: "acct_claimed a \<le> acct_sum a"
  by (simp add: acct_claimed_def acct_sum_def part_sum_def)

lemma omap_sum_mono: "(\<And>v. g v \<le> h v) \<Longrightarrow> omap_sum g m \<le> omap_sum h m"
  by (induction m) (auto simp: omap_sum_def intro: add_mono)

interpretation airdrop_book: claim_book "\<lambda>s. paid_law L \<and> ad_inv (fd_state s)" "\<lambda>s. ad_sum acct_sum (fd_state s)"
  "\<lambda>s. ad_sum acct_claimed (fd_state s)" fd_paid "airdrop_step L"
proof
  fix s s' :: "airdrop funded"
  assume "paid_law L \<and> ad_inv (fd_state s)" "airdrop_step L s s'"
  then have law: "paid_law L" and inv: "ad_inv (fd_state s)" and st: "airdrop_step L s s'" by auto
  have "ad_inv (fd_state s') \<and> ad_sum acct_sum (fd_state s') = ad_sum acct_sum (fd_state s)
    \<and> fd_paid s' + ad_sum acct_claimed (fd_state s) = fd_paid s + ad_sum acct_claimed (fd_state s')"
    using st
  proof cases
    case (claim1 C)
    with claim_airdrop1_Ok [OF law inv] show ?thesis by blast
  next
    case (claim2 C)
    with claim_airdrop2_Ok [OF law inv] show ?thesis by blast
  next
    case (join C dest_addr ad)
    with join_accounts_Ok [OF inv join(2)] show ?thesis by simp
  qed
  then show "paid_law L \<and> ad_inv (fd_state s')" "ad_sum acct_sum (fd_state s') = ad_sum acct_sum (fd_state s)"
    "fd_paid s' + ad_sum acct_claimed (fd_state s) = fd_paid s + ad_sum acct_claimed (fd_state s')" using law by blast+
qed (simp add: omap_sum_mono acct_claimed_le)

section \<open>The allocation of airdrop II\<close>

definition net_score :: "nat \<Rightarrow> (u64 \<times> u64) list \<Rightarrow> nat" where
  "net_score i networks = (if i < length networks then Airdrop_score (fst (networks ! i)) (snd (networks ! i)) else 0)"

abbreviation networks_of :: "recipient \<Rightarrow> (u64 \<times> u64) list" where
  "networks_of r \<equiv> fst (snd r)"

lemma add_scores_Ok:
  "add_scores totals networks = Ok totals' \<Longrightarrow> length totals' = length totals
     \<and> (\<forall>i < length totals. totals' ! i = totals ! i + net_score i networks)"
  by (induction totals networks arbitrary: totals' rule: add_scores.induct)
    (auto simp: net_score_def nth_Cons split: nat.splits)

lemma totals_Ok:
  "fold_result (\<lambda>totals (_, networks, _). add_scores totals networks) totals rs = Ok totals' \<Longrightarrow> length totals' = length totals
     \<and> (\<forall>i < length totals. totals' ! i = totals ! i + (\<Sum>r \<leftarrow> rs. net_score i (networks_of r)))"
proof (induction rs arbitrary: totals)
  case (Cons r rs)
  then obtain t where t: "add_scores totals (networks_of r) = Ok t"
    "fold_result (\<lambda>totals (_, networks, _). add_scores totals networks) t rs = Ok totals'" by (auto simp: split_def)
  from add_scores_Ok [OF t(1)] Cons.IH [OF t(2)] show ?case by simp
qed simp

lemma sum_u64_Ok: "sum_u64 xs = Ok n \<Longrightarrow> n = sum_list xs"
proof -
  have "fold_result add_u64 a xs = Ok n \<Longrightarrow> n = a + sum_list xs" for a by (induction xs arbitrary: a) (simp, fastforce)
  then show "sum_u64 xs = Ok n \<Longrightarrow> n = sum_list xs" unfolding sum_u64_def by fastforce
qed

lemma recipient_unom_le:
  assumes "recipient_unom ups networks = Ok unom"
  shows "unom \<le> (\<Sum>i < length ups. net_score i networks * ups ! i div airdrop_precision)"
proof -
  let ?f = "\<lambda>((staked, delegations), ups). (Airdrop_score staked delegations * ups div airdrop_precision) mod 2 ^ 64"
  let ?xs = "map ?f (zip networks ups)"
  have "unom = sum_list ?xs" by (rule sum_u64_Ok) (rule assms [unfolded recipient_unom_def])
  also have "\<dots> = (\<Sum>i < length ?xs. ?xs ! i)" by (simp only: sum_list_sum_nth atLeast0LessThan)
  also have "\<dots> \<le> (\<Sum>i < length ?xs. net_score i networks * ups ! i div airdrop_precision)"
    by (rule sum_mono) (simp add: net_score_def split_def)
  also have "\<dots> \<le> (\<Sum>i < length ups. net_score i networks * ups ! i div airdrop_precision)"
    by (rule sum_mono2) auto
  finally show ?thesis .
qed

definition claimable2 :: "airdrop_account \<Rightarrow> nat" where
  "claimable2 a = pt_claimable (ac_airdrop2 a)"

lemma airdrop_to_sum:
  assumes "ad_inv ad"
  shows "ad_inv (Airdrop_airdrop_to addr unom c ad)"
    and "ad_sum claimable2 (Airdrop_airdrop_to addr unom c ad) \<le> ad_sum claimable2 ad + unom"
proof -
  let ?a = "case Airdrop_get ad addr of None \<Rightarrow> AirdropAccount_default | Some a \<Rightarrow> a"
  let ?b = "?a\<lparr>ac_airdrop2 := (ac_airdrop2 ?a)\<lparr>pt_claimable := unom\<rparr>\<rparr>"
  have to: "Airdrop_airdrop_to addr unom c ad = Airdrop_put addr ?b ad" by (simp add: Airdrop_airdrop_to_def Let_def)
  show "ad_inv (Airdrop_airdrop_to addr unom c ad)" unfolding to using assms by simp
  have "claimable2 ?b = unom" by (simp add: claimable2_def)
  with Airdrop_put_sum [OF assms, of claimable2 addr ?b]
  show "ad_sum claimable2 (Airdrop_airdrop_to addr unom c ad) \<le> ad_sum claimable2 ad + unom" unfolding to by linarith
qed

lemma airdrop_loop_Ok:
  assumes "airdrop_loop ups rs t n ad = (Ok r, ad')" and "ad_inv ad"
  shows "ad_inv ad' \<and> ad_sum claimable2 ad'
    \<le> ad_sum claimable2 ad + (\<Sum>r \<leftarrow> rs. \<Sum>i < length ups. net_score i (networks_of r) * ups ! i div airdrop_precision)"
  using assms
proof (induction rs arbitrary: t n ad)
  case (Cons x rs)
  obtain addr nets c where x: "x = (addr, nets, c)" by (cases x)
  with Cons.prems(1) obtain unom t' n' where u: "recipient_unom ups nets = Ok unom"
    and rest: "airdrop_loop ups rs t' n' (Airdrop_airdrop_to addr unom c ad) = (Ok r, ad')" by auto
  from Cons.IH [OF rest airdrop_to_sum(1) [OF Cons.prems(2)]] airdrop_to_sum(2) [OF Cons.prems(2), of addr unom c]
    recipient_unom_le [OF u] show ?case by (simp add: x)
qed simp

lemma sum_list_sum_swap: "(\<Sum>r \<leftarrow> rs. \<Sum>i < n. g r i) = (\<Sum>i < n. \<Sum>r \<leftarrow> rs. g r i :: nat)"
  by (induction rs) (simp_all add: sum.distrib)

text \<open>One network: what its recipients get is at most the network's share.\<close>

lemma network_share:
  assumes "tot = (\<Sum>r \<leftarrow> rs. s r)"
  shows "(\<Sum>r \<leftarrow> rs. s r * (share * airdrop_precision div tot) div airdrop_precision) \<le> share"
proof -
  let ?u = "share * airdrop_precision div tot"
  have "(\<Sum>r \<leftarrow> rs. s r * ?u div airdrop_precision) \<le> (\<Sum>r \<leftarrow> rs. s r * ?u) div airdrop_precision"
    by (rule sum_list_div_le)
  also have "\<dots> = tot * ?u div airdrop_precision" by (simp add: assms sum_list_mult_const)
  also have "\<dots> \<le> share * airdrop_precision div airdrop_precision" by (rule div_le_mono) simp
  also have "\<dots> = share" by (simp add: airdrop_precision_def)
  finally show ?thesis .
qed

section \<open>Properties\<close>

definition demo_nom_lib :: nom_lib where
  "demo_nom_lib = \<lparr>paid_give = add_u64, amount_sum = add_u64, amount_times = mul_u64, amount_ratio = (\<lambda>a n d. Ok (a * d div n)),
     csv_records = (\<lambda>data. map (\<lambda>b. Ok [replicate 44 CHR ''n'', ''3'', ''1'', ''true'']) data), csv_message = (\<lambda>_. []),
     read_address = (\<lambda>_. Some [1]), bech32_address = (\<lambda>_. Some [1])\<rparr>"

definition demo_claim_ctx :: ctx where
  "demo_claim_ctx = \<lparr>cx_time = Some 0, cx_signer = Some (Some [1]), cx_validators = None, cx_paid = Some (Ok ())\<rparr>"

text \<open>
  C22: airdrops are paid once. However users claim and join accounts, the tokens allocated over all
  accounts stay the same, what has been paid is exactly what has been marked as claimed, and no
  more is paid than was allocated and not yet claimed.
\<close>

theorem airdrop_pays_once:
  assumes "paid_law L" and "ad_inv (fd_state s)" and "(airdrop_step L)\<^sup>*\<^sup>* s s'"
  shows "ad_sum acct_sum (fd_state s') = ad_sum acct_sum (fd_state s)
    \<and> fd_paid s' + ad_sum acct_claimed (fd_state s) = fd_paid s + ad_sum acct_claimed (fd_state s')
    \<and> fd_paid s' + ad_sum acct_claimed (fd_state s) \<le> fd_paid s + ad_sum acct_sum (fd_state s)"
  using airdrop_book.run [OF assms(3)] airdrop_book.paid_le [OF assms(3)] assms(1,2) by blast

theorem airdrop_pays_once_witness:
  "\<exists>s s'. Airdrop_claim_airdrop2 demo_nom_lib demo_claim_ctx s = (Ok (), s') \<and> fd_paid s = 0 \<and> fd_paid s' = 9
     \<and> ad_sum acct_sum (fd_state s') = 9"
proof -
  let ?a = "AirdropAccount_default\<lparr>ac_airdrop2 := \<lparr>pt_locked = 0, pt_claimable = 9, pt_claimed = 0\<rparr>\<rparr>"
  let ?s = "\<lparr>fd_state = \<lparr>ad_accounts = [([1 :: u8], ?a)]\<rparr>, fd_paid = 0\<rparr>"
  have "fst (Airdrop_claim_airdrop2 demo_nom_lib demo_claim_ctx ?s) = Ok ()"
    by (simp add: Airdrop_claim_airdrop2_def cbind_def reads_def lift_result_def modify_def Airdrop_signer_acct_mut_def claim_signer_def
        demo_claim_ctx_def Airdrop_get_def Part_claim_def Let_def add_w_def pay_as_funding_def demo_nom_lib_def)
  then obtain s' where s': "Airdrop_claim_airdrop2 demo_nom_lib demo_claim_ctx ?s = (Ok (), s')" by (metis prod.collapse)
  have paid: "fd_paid s' = 9"
    using s' by (auto simp: Airdrop_claim_airdrop2_def Airdrop_signer_acct_mut_def claim_signer_def demo_claim_ctx_def Airdrop_get_def
        Part_claim_def pay_as_funding_def demo_nom_lib_def)
  have law: "paid_law demo_nom_lib" by (simp add: paid_law_def demo_nom_lib_def)
  have inv: "ad_inv (fd_state ?s)" by (simp add: omap_inv_def)
  have "(airdrop_step demo_nom_lib)\<^sup>*\<^sup>* ?s s'" using airdrop_step.claim2 [OF s'] by blast
  from airdrop_pays_once [OF law inv this] s' paid show ?thesis
    by (intro exI [of _ ?s] exI [of _ s']) (simp add: acct_sum_def part_sum_def AirdropAccount_default_def Part_default_def)
qed

text \<open>
  C23: airdrop II stays within its total. The allocation from a snapshot makes at most
  \<open>AIRDROP_II_TOTAL\<close> more tokens claimable, whatever the stakes in it.
\<close>

theorem airdrop2_within_total:
  assumes "Airdrop_init_from_airdrop2_csv L data ad = (Ok (), ad')" and "ad_inv ad"
  shows "ad_inv ad' \<and> ad_sum claimable2 ad' \<le> ad_sum claimable2 ad + AIRDROP_II_TOTAL"
proof -
  from assms(1) obtain rs totals share ups r where len: "length (networks_of (hd rs)) \<noteq> 0"
    and totals: "fold_result (\<lambda>totals (_, networks, _). add_scores totals networks) (replicate (length (networks_of (hd rs))) 0) rs = Ok totals"
    and share: "share = AIRDROP_II_TOTAL div length (networks_of (hd rs))"
    and ups: "map_result (div_u (share * airdrop_precision)) totals = Ok ups"
    and loop: "airdrop_loop ups rs 0 0 ad = (Ok r, ad')"
    by (auto simp: Airdrop_init_from_airdrop2_csv_def Let_def split: if_splits)
  let ?n = "length (networks_of (hd rs))"
  note t = totals_Ok [OF totals]
  have u: "length ups = ?n" "\<And>i. i < ?n \<Longrightarrow> ups ! i = share * airdrop_precision div totals ! i"
    using ups t by (auto simp: map_result_Ok_iff)
  have "(\<Sum>r \<leftarrow> rs. \<Sum>i < length ups. net_score i (networks_of r) * ups ! i div airdrop_precision)
      = (\<Sum>i < ?n. \<Sum>r \<leftarrow> rs. net_score i (networks_of r) * ups ! i div airdrop_precision)"
    unfolding u(1) by (rule sum_list_sum_swap)
  also have "\<dots> \<le> (\<Sum>i < ?n. share)"
  proof (rule sum_mono)
    fix i assume "i \<in> {..<?n}"
    then have i: "i < ?n" by simp
    have "totals ! i = (\<Sum>r \<leftarrow> rs. net_score i (networks_of r))" using t i by simp
    from network_share [OF this, of share] show "(\<Sum>r \<leftarrow> rs. net_score i (networks_of r) * ups ! i div airdrop_precision) \<le> share"
      by (simp add: u(2) [OF i])
  qed
  also have "\<dots> \<le> AIRDROP_II_TOTAL" by (simp add: share)
  finally show ?thesis using airdrop_loop_Ok [OF loop assms(2)] by linarith
qed

theorem airdrop2_within_total_witness:
  "\<exists>ad'. Airdrop_init_from_airdrop2_csv demo_nom_lib [7] \<lparr>ad_accounts = []\<rparr> = (Ok (), ad')
     \<and> ad_sum claimable2 ad' \<le> 3500000000000"
proof -
  have "fst (Airdrop_init_from_airdrop2_csv demo_nom_lib [7] \<lparr>ad_accounts = []\<rparr>) = Ok ()"
    by (simp add: Airdrop_init_from_airdrop2_csv_def cbind_def lift_result_def modify_def Airdrop_get_recipients_from_csv_def demo_nom_lib_def
        recipient_of_row_def parse_u64_def parse_bool_def map_filter_def add_w_def Airdrop_score_def MAX_STAKED_def div_u_def
        AIRDROP_II_TOTAL_def airdrop_precision_def recipient_unom_def sum_u64_def Let_def)
  then obtain ad' where ad': "Airdrop_init_from_airdrop2_csv demo_nom_lib [7] \<lparr>ad_accounts = []\<rparr> = (Ok (), ad')" by (metis prod.collapse)
  from airdrop2_within_total [OF this] ad' show ?thesis by (simp add: AIRDROP_II_TOTAL_def)
qed

end
