(* ===== verification/Incentives.thy ===== *)
theory Incentives
  imports Airdrop
begin

text \<open>
  Incentive accounts (src/src/incentives.rs), claimed and joined like airdrop accounts, and
  \<open>join_accounts\<close> of the application (src/src/app.rs), which joins both.
\<close>

section \<open>Accounts\<close>

record incentive_account =
  ia_testnet_participation :: part

definition IncentiveAccount_default :: incentive_account where
  "IncentiveAccount_default = \<lparr>ia_testnet_participation = Part_default\<rparr>"

definition IncentiveAccount_is_empty :: "incentive_account \<Rightarrow> bool" where
  "IncentiveAccount_is_empty a = Part_is_empty (ia_testnet_participation a)"

record incentives =
  ic_accounts :: "(address \<times> incentive_account) list"

text \<open>\<open>amount_quotient\<close> is \<open>(a / b).result()?.amount()?\<close> on amounts.\<close>

record incentive_lib = nom_lib +
  amount_quotient :: "u64 \<Rightarrow> u64 \<Rightarrow> u64 result"

definition Incentives_get :: "incentives \<Rightarrow> address \<Rightarrow> incentive_account option" where
  "Incentives_get ic addr = map_of (ic_accounts ic) addr"

definition Incentives_put :: "address \<Rightarrow> incentive_account \<Rightarrow> incentives \<Rightarrow> incentives" where
  "Incentives_put addr acct = ic_accounts_update (omap_insert (\<lambda>k. k) addr acct)"

section \<open>Allocation\<close>

text \<open>The columns 1 to 3 that are \<open>true\<close>, counted into a running value by steps of \<open>step\<close>.\<close>

definition count_true :: "string list \<Rightarrow> u64 \<Rightarrow> u64 \<Rightarrow> u64 result" where
  "count_true row step n =
     (if length row < 4 then Err Panic
      else fold_result (\<lambda>n v. if v = ''true'' then add_u64 n step else Ok n) n [row ! 1, row ! 2, row ! 3])"

definition incentive_row :: "'m nom_lib_scheme \<Rightarrow> u64 \<Rightarrow> incentives \<Rightarrow> string list result \<Rightarrow> incentives result" where
  "incentive_row L rate ic res =
     rbind res (\<lambda>row.
     if row = [] then Err Panic
     else
     rbind (unwrap (read_address L (row ! 0))) (\<lambda>address.
     rbind (count_true row rate 0) (\<lambda>claimable.
     if claimable > 0
     then Ok (Incentives_put address \<lparr>ia_testnet_participation = \<lparr>pt_locked = 0, pt_claimable = claimable, pt_claimed = 0\<rparr>\<rparr> ic)
     else Ok ic)))"

definition Incentives_from_csv :: "'m incentive_lib_scheme \<Rightarrow> bytes \<Rightarrow> u64 \<Rightarrow> incentives result" where
  "Incentives_from_csv L data funds =
     rbind (fold_result (\<lambda>sum row. rbind row (\<lambda>row. count_true row 1 sum)) 0 (csv_records L data)) (\<lambda>total_score.
     rbind (amount_quotient L funds total_score) (\<lambda>rate.
     fold_result (incentive_row L rate) \<lparr>ic_accounts = []\<rparr> (csv_records L data)))"

section \<open>Calls\<close>

definition Incentives_signer_acct_mut :: "ctx \<Rightarrow> incentives \<Rightarrow> (address \<times> incentive_account) result" where
  "Incentives_signer_acct_mut C ic =
     rbind (claim_signer C) (\<lambda>signer.
     rbind (ok_or (App ''No incentive account for signer'') (Incentives_get ic signer)) (\<lambda>acct. Ok (signer, acct)))"

definition Incentives_claim_testnet_participation_incentives ::
  "'m nom_lib_scheme \<Rightarrow> ctx \<Rightarrow> (incentives funded, unit) call" where
  "Incentives_claim_testnet_participation_incentives L C =
     cbind (reads (\<lambda>s. Incentives_signer_acct_mut C (fd_state s))) (\<lambda>(signer, acct).
     cbind (lift_result (Part_claim (ia_testnet_participation acct))) (\<lambda>(amount, part).
     cbind (modify (fd_state_update (Incentives_put signer (acct\<lparr>ia_testnet_participation := part\<rparr>)))) (\<lambda>_.
     pay_as_funding L C amount)))"

definition Incentives_join_accounts :: "ctx \<Rightarrow> address \<Rightarrow> (incentives, u64) call" where
  "Incentives_join_accounts C dest_addr ic =
     (case Incentives_signer_acct_mut C ic of
        Err (App _) \<Rightarrow> (Ok 0, ic)
      | Err e \<Rightarrow> (Err e, ic)
      | Ok (signer, src) \<Rightarrow>
          if IncentiveAccount_is_empty src then (Ok 0, ic)
          else
          cbind (modify (Incentives_put signer IncentiveAccount_default)) (\<lambda>_.
          cbind (reads (\<lambda>ic.
                   let dest = (case Incentives_get ic dest_addr of None \<Rightarrow> IncentiveAccount_default | Some a \<Rightarrow> a) in
                   add_part (ia_testnet_participation dest) (ia_testnet_participation src))) (\<lambda>part.
          cbind (modify (Incentives_put dest_addr \<lparr>ia_testnet_participation = part\<rparr>)) (\<lambda>_.
          lift_result (Part_total (ia_testnet_participation src))))) ic)"

definition InnerApp_join_accounts :: "ctx \<Rightarrow> address \<Rightarrow> (airdrop \<times> incentives, unit) call" where
  "InnerApp_join_accounts C dest_addr = (\<lambda>(ad, ic).
     case Airdrop_join_accounts C dest_addr ad of
       (Err e, ad) \<Rightarrow> (Err e, (ad, ic))
     | (Ok _, ad) \<Rightarrow>
         (case Incentives_join_accounts C dest_addr ic of
            (Err e, ic) \<Rightarrow> (Err e, (ad, ic))
          | (Ok _, ic) \<Rightarrow> (Ok (), (ad, ic))))"

section \<open>The books\<close>

definition inc_sum :: "incentive_account \<Rightarrow> nat" where
  "inc_sum a = part_sum (ia_testnet_participation a)"

definition inc_claimed :: "incentive_account \<Rightarrow> nat" where
  "inc_claimed a = pt_claimed (ia_testnet_participation a)"

lemma inc_default [simp]: "inc_sum IncentiveAccount_default = 0" "inc_claimed IncentiveAccount_default = 0"
  by (simp_all add: inc_sum_def inc_claimed_def IncentiveAccount_default_def)

abbreviation ic_inv :: "incentives \<Rightarrow> bool" where
  "ic_inv ic \<equiv> omap_inv (\<lambda>k. k) (ic_accounts ic)"

abbreviation ic_sum :: "(incentive_account \<Rightarrow> nat) \<Rightarrow> incentives \<Rightarrow> nat" where
  "ic_sum g ic \<equiv> omap_sum g (ic_accounts ic)"

lemma Incentives_put_sum:
  "ic_inv ic \<Longrightarrow> ic_sum g (Incentives_put addr a ic) + old_value g (Incentives_get ic addr) = ic_sum g ic + g a"
  by (simp add: Incentives_put_def Incentives_get_def omap_sum_insert)

lemma Incentives_put_inv [simp]: "ic_inv ic \<Longrightarrow> ic_inv (Incentives_put addr a ic)"
  by (simp add: Incentives_put_def omap_inv_insert)

lemma Incentives_get_put [simp]:
  "Incentives_get (Incentives_put addr a ic) addr' = (if addr' = addr then Some a else Incentives_get ic addr')"
  by (simp add: Incentives_get_def Incentives_put_def)

lemma claim_incentives_Ok:
  assumes "paid_law L" and "ic_inv (fd_state s)" and "Incentives_claim_testnet_participation_incentives L C s = (Ok u, s')"
  shows "ic_inv (fd_state s') \<and> ic_sum inc_sum (fd_state s') = ic_sum inc_sum (fd_state s)
    \<and> fd_paid s' + ic_sum inc_claimed (fd_state s) = fd_paid s + ic_sum inc_claimed (fd_state s')"
proof -
  from assms(3) obtain signer acct n p where g: "Incentives_get (fd_state s) signer = Some acct"
    and c: "Part_claim (ia_testnet_participation acct) = Ok (n, p)"
    and s': "pay_as_funding L C n (fd_state_update (Incentives_put signer (acct\<lparr>ia_testnet_participation := p\<rparr>)) s) = (Ok u, s')"
    by (auto simp: Incentives_claim_testnet_participation_incentives_def Incentives_signer_acct_mut_def)
  let ?a = "acct\<lparr>ia_testnet_participation := p\<rparr>"
  have "inc_sum ?a = inc_sum acct" "inc_claimed ?a = inc_claimed acct + n"
    using Part_claim_Ok [OF c] by (simp_all add: inc_sum_def inc_claimed_def)
  with Incentives_put_sum [OF assms(2), of inc_sum signer ?a] Incentives_put_sum [OF assms(2), of inc_claimed signer ?a] g
    pay_as_funding_Ok [OF assms(1) s'] assms(2) show ?thesis by simp
qed

lemma join_incentives_Ok:
  assumes "ic_inv ic" and "Incentives_join_accounts C dest_addr ic = (Ok n, ic')"
  shows "ic_inv ic' \<and> ic_sum inc_sum ic' = ic_sum inc_sum ic \<and> ic_sum inc_claimed ic' = ic_sum inc_claimed ic"
proof (cases "ic' = ic")
  case True
  with assms(1) show ?thesis by simp
next
  case False
  with assms(2) obtain signer src p dest where g: "Incentives_get ic signer = Some src"
    and dest: "dest = (case Incentives_get (Incentives_put signer IncentiveAccount_default ic) dest_addr of None \<Rightarrow> IncentiveAccount_default | Some a \<Rightarrow> a)"
    and p: "add_part (ia_testnet_participation dest) (ia_testnet_participation src) = Ok p"
    and ic': "ic' = Incentives_put dest_addr \<lparr>ia_testnet_participation = p\<rparr> (Incentives_put signer IncentiveAccount_default ic)"
    by (auto simp: Incentives_join_accounts_def Incentives_signer_acct_mut_def Let_def split: result.splits error.splits if_splits)
  let ?new = "\<lparr>ia_testnet_participation = p\<rparr>"
  have inv: "ic_inv (Incentives_put signer IncentiveAccount_default ic)" using assms(1) by simp
  have old: "old_value f (Incentives_get (Incentives_put signer IncentiveAccount_default ic) dest_addr) = f dest"
    if "f IncentiveAccount_default = 0" for f using that by (auto simp: dest split: option.splits)
  have new: "inc_sum ?new = inc_sum dest + inc_sum src" "inc_claimed ?new = inc_claimed dest + inc_claimed src"
    using add_part_Ok [OF p] by (simp_all add: inc_sum_def inc_claimed_def)
  have moved: "ic_sum f ic' = ic_sum f ic" if "f IncentiveAccount_default = 0" "f ?new = f dest + f src" for f
    using Incentives_put_sum [OF assms(1), of f signer IncentiveAccount_default, unfolded g option.case]
      Incentives_put_sum [OF inv, of f dest_addr ?new, folded ic', unfolded old [of f, OF that(1)]] that by simp
  show ?thesis using inv moved [of inc_sum] moved [of inc_claimed] new by (simp add: ic')
qed

inductive incentive_step :: "'m nom_lib_scheme \<Rightarrow> incentives funded \<Rightarrow> incentives funded \<Rightarrow> bool" for L where
  claim: "Incentives_claim_testnet_participation_incentives L C s = (Ok (), s') \<Longrightarrow> incentive_step L s s'"
| join: "Incentives_join_accounts C dest_addr (fd_state s) = (Ok n, ic) \<Longrightarrow> incentive_step L s (s\<lparr>fd_state := ic\<rparr>)"

interpretation incentive_book: claim_book "\<lambda>s. paid_law L \<and> ic_inv (fd_state s)" "\<lambda>s. ic_sum inc_sum (fd_state s)"
  "\<lambda>s. ic_sum inc_claimed (fd_state s)" fd_paid "incentive_step L"
proof
  fix s s' :: "incentives funded"
  assume "paid_law L \<and> ic_inv (fd_state s)" "incentive_step L s s'"
  then have law: "paid_law L" and inv: "ic_inv (fd_state s)" and st: "incentive_step L s s'" by auto
  have "ic_inv (fd_state s') \<and> ic_sum inc_sum (fd_state s') = ic_sum inc_sum (fd_state s)
    \<and> fd_paid s' + ic_sum inc_claimed (fd_state s) = fd_paid s + ic_sum inc_claimed (fd_state s')"
    using st
  proof cases
    case (claim C)
    with claim_incentives_Ok [OF law inv] show ?thesis by blast
  next
    case (join C dest_addr n ic)
    with join_incentives_Ok [OF inv join(2)] show ?thesis by simp
  qed
  then show "paid_law L \<and> ic_inv (fd_state s')" "ic_sum inc_sum (fd_state s') = ic_sum inc_sum (fd_state s)"
    "fd_paid s' + ic_sum inc_claimed (fd_state s) = fd_paid s + ic_sum inc_claimed (fd_state s')" using law by blast+
qed (simp add: omap_sum_mono inc_claimed_def inc_sum_def part_sum_def)

section \<open>The allocation\<close>

definition trues :: "string list \<Rightarrow> nat" where
  "trues row = length (filter (\<lambda>v. v = ''true'') [row ! 1, row ! 2, row ! 3])"

lemma count_true_Ok: "count_true row k n = Ok m \<Longrightarrow> m = n + k * trues row"
  by (auto simp: count_true_def trues_def split: if_splits)

definition rows_trues :: "string list result list \<Rightarrow> nat" where
  "rows_trues rows = (\<Sum>r \<leftarrow> rows. case r of Ok row \<Rightarrow> trues row | Err _ \<Rightarrow> 0)"

lemma total_score_Ok:
  "fold_result (\<lambda>sum row. rbind row (\<lambda>row. count_true row 1 sum)) n rows = Ok m \<Longrightarrow> m = n + rows_trues rows"
proof (induction rows arbitrary: n)
  case (Cons r rows)
  then obtain row k where "r = Ok row" "count_true row 1 n = Ok k"
    "fold_result (\<lambda>sum row. rbind row (\<lambda>row. count_true row 1 sum)) k rows = Ok m" by auto
  with Cons.IH [of k] count_true_Ok [of row 1 n k] show ?case by (simp add: rows_trues_def)
qed (simp add: rows_trues_def)

lemma incentive_row_Ok:
  assumes "incentive_row L rate ic (Ok row) = Ok ic'" and "ic_inv ic"
  shows "ic_inv ic' \<and> ic_sum inc_sum ic' \<le> ic_sum inc_sum ic + rate * trues row"
proof -
  from assms(1) obtain addr n where n: "count_true row rate 0 = Ok n" and e: "(if n > 0
      then Ok (Incentives_put addr \<lparr>ia_testnet_participation = \<lparr>pt_locked = 0, pt_claimable = n, pt_claimed = 0\<rparr>\<rparr> ic) else Ok ic) = Ok ic'"
    by (auto simp: incentive_row_def)
  with Incentives_put_sum [OF assms(2), of inc_sum addr "\<lparr>ia_testnet_participation = \<lparr>pt_locked = 0, pt_claimable = n, pt_claimed = 0\<rparr>\<rparr>"]
    count_true_Ok [OF n] assms(2) show ?thesis by (auto simp: inc_sum_def part_sum_def split: if_splits)
qed

lemma incentive_rows_Ok:
  assumes "fold_result (incentive_row L rate) ic rows = Ok ic'" and "ic_inv ic"
  shows "ic_inv ic' \<and> ic_sum inc_sum ic' \<le> ic_sum inc_sum ic + rate * rows_trues rows"
  using assms
proof (induction rows arbitrary: ic)
  case (Cons r rows)
  from Cons.prems(1) obtain ic1 where ic1: "incentive_row L rate ic r = Ok ic1" "fold_result (incentive_row L rate) ic1 rows = Ok ic'" by auto
  from ic1(1) obtain row where row: "r = Ok row" by (cases r) (auto simp: incentive_row_def)
  with ic1 have r: "r = Ok row" "incentive_row L rate ic (Ok row) = Ok ic1" "fold_result (incentive_row L rate) ic1 rows = Ok ic'" by simp_all
  from incentive_row_Ok [OF r(2) Cons.prems(2)] Cons.IH [OF r(3)] show ?case
    by (auto simp: rows_trues_def r(1) algebra_simps)
qed (simp add: rows_trues_def)

text \<open>What the quotient of two amounts promises: it is rounded down.\<close>

definition quotient_law :: "'m incentive_lib_scheme \<Rightarrow> bool" where
  "quotient_law L \<longleftrightarrow> (\<forall>a b q. amount_quotient L a b = Ok q \<longrightarrow> q * b \<le> a)"

section \<open>Properties\<close>

definition demo_incentive_lib :: incentive_lib where
  "demo_incentive_lib = nom_lib.extend (demo_nom_lib\<lparr>csv_records := map (\<lambda>b. Ok [[], ''true'', ''false'', ''true''])\<rparr>)
     \<lparr>amount_quotient = div_u\<rparr>"

text \<open>
  Incentives stay within their funds. The accounts made from a snapshot can claim at most the
  funds together.
\<close>

theorem incentives_within_funds:
  assumes "quotient_law L" and "Incentives_from_csv L data funds = Ok ic"
  shows "ic_inv ic \<and> ic_sum inc_sum ic \<le> funds"
proof -
  from assms(2) obtain score rate where
    score: "fold_result (\<lambda>sum row. rbind row (\<lambda>row. count_true row 1 sum)) 0 (csv_records L data) = Ok score"
    and rate: "amount_quotient L funds score = Ok rate"
    and ic: "fold_result (incentive_row L rate) \<lparr>ic_accounts = []\<rparr> (csv_records L data) = Ok ic"
    by (auto simp: Incentives_from_csv_def)
  have "rate * score \<le> funds" using assms(1) rate by (auto simp: quotient_law_def)
  with incentive_rows_Ok [OF ic] total_score_Ok [OF score] show ?thesis by simp
qed

theorem incentives_within_funds_witness:
  "\<exists>ic. Incentives_from_csv demo_incentive_lib [7] 101 = Ok ic \<and> ic_sum inc_sum ic \<le> 101"
proof -
  have law: "quotient_law demo_incentive_lib" by (simp add: quotient_law_def demo_incentive_lib_def nom_lib.defs)
  obtain ic where ic: "Incentives_from_csv demo_incentive_lib [7] 101 = Ok ic"
    by (simp add: Incentives_from_csv_def incentive_row_def demo_incentive_lib_def demo_nom_lib_def nom_lib.defs count_true_def add_w_def div_u_def)
      (simp flip: numeral_2_eq_2)
  with incentives_within_funds [OF law ic] show ?thesis by simp
qed

text \<open>
  Joining accounts only moves tokens. After \<open>join_accounts\<close> of the application the allocated and
  the claimed totals of the airdrop and of the incentives are what they were.
\<close>

theorem join_accounts_conserves:
  assumes "ad_inv ad" and "ic_inv ic" and "InnerApp_join_accounts C dest_addr (ad, ic) = (Ok (), (ad', ic'))"
  shows "ad_sum acct_sum ad' = ad_sum acct_sum ad \<and> ad_sum acct_claimed ad' = ad_sum acct_claimed ad
    \<and> ic_sum inc_sum ic' = ic_sum inc_sum ic \<and> ic_sum inc_claimed ic' = ic_sum inc_claimed ic"
proof -
  from assms(3) obtain n where "Airdrop_join_accounts C dest_addr ad = (Ok (), ad')" "Incentives_join_accounts C dest_addr ic = (Ok n, ic')"
    by (auto simp: InnerApp_join_accounts_def split: prod.splits result.splits)
  with join_accounts_Ok [OF assms(1)] join_incentives_Ok [OF assms(2)] show ?thesis by blast
qed

theorem join_accounts_conserves_witness:
  "\<exists>ad ic ad' ic'. InnerApp_join_accounts demo_claim_ctx [2] (ad, ic) = (Ok (), (ad', ic')) \<and> ad_sum acct_sum ad' = 9 \<and> ic_sum inc_sum ic' = 0"
proof -
  let ?a = "AirdropAccount_default\<lparr>ac_airdrop2 := \<lparr>pt_locked = 0, pt_claimable = 9, pt_claimed = 0\<rparr>\<rparr>"
  let ?ad = "\<lparr>ad_accounts = [([1 :: u8], ?a)]\<rparr>" and ?ic = "\<lparr>ic_accounts = []\<rparr>"
  have "fst (InnerApp_join_accounts demo_claim_ctx [2] (?ad, ?ic)) = Ok ()"
    by (simp add: InnerApp_join_accounts_def Airdrop_join_accounts_def Incentives_join_accounts_def cbind_def reads_def lift_result_def
        modify_def Airdrop_signer_acct_mut_def Incentives_signer_acct_mut_def claim_signer_def demo_claim_ctx_def Airdrop_get_def
        Incentives_get_def AirdropAccount_is_empty_def AirdropAccount_default_def Part_default_def add_part_def add_w_def Let_def Airdrop_put_def)
  then obtain ad' ic' where r: "InnerApp_join_accounts demo_claim_ctx [2] (?ad, ?ic) = (Ok (), (ad', ic'))" by (metis prod.collapse)
  have inv: "ad_inv ?ad" "ic_inv ?ic" by (simp_all add: omap_inv_def)
  from join_accounts_conserves [OF inv r] r show ?thesis
    by (intro exI [of _ ?ad] exI [of _ ?ic] exI [of _ ad'] exI [of _ ic'])
      (simp add: acct_sum_def part_sum_def AirdropAccount_default_def Part_default_def)
qed

end
