(* ===== verification/Deposit_Index.thy ===== *)
theory Deposit_Index
  imports Prelude
begin

text \<open>
  The index of observed deposits that the relayer keeps (src/src/bitcoin/deposit_index.rs): nested
  hash maps from receivers to addresses to outpoints. A hash map is an association list with
  distinct keys; the order in which its values are visited is the parameter \<open>visit\<close>.
\<close>

section \<open>The index\<close>

record deposit =
  de_txid :: bytes
  de_vout :: u32
  de_amount :: u64
  de_height :: "u64 option"

record deposit_info =
  di_deposit :: deposit
  di_confirmations :: u64

type_synonym address_deposits = "((bytes \<times> u32) \<times> deposit) list"
type_synonym receiver_index = "(string \<times> (string \<times> address_deposits) list) list"

record deposit_index =
  dx_receiver_index :: receiver_index

definition Deposit_new :: "bytes \<Rightarrow> u32 \<Rightarrow> u64 \<Rightarrow> u64 option \<Rightarrow> deposit" where
  "Deposit_new txid vout amount height = \<lparr>de_txid = txid, de_vout = vout, de_amount = amount, de_height = height\<rparr>"

definition DepositIndex_new :: deposit_index where
  "DepositIndex_new = \<lparr>dx_receiver_index = []\<rparr>"

definition hm_insert :: "'k \<Rightarrow> 'v \<Rightarrow> ('k \<times> 'v) list \<Rightarrow> ('k \<times> 'v) list" where
  "hm_insert k v m = (k, v) # omap_remove k m"

text \<open>\<open>entry(k).or_default()\<close> of a map of maps.\<close>

definition hm_get :: "'k \<Rightarrow> ('k \<times> 'v list) list \<Rightarrow> 'v list" where
  "hm_get k m = (case map_of m k of None \<Rightarrow> [] | Some v \<Rightarrow> v)"

definition DepositIndex_insert_deposit :: "string \<Rightarrow> string \<Rightarrow> deposit \<Rightarrow> deposit_index \<Rightarrow> deposit_index" where
  "DepositIndex_insert_deposit receiver address deposit ix =
     (let addresses = hm_get receiver (dx_receiver_index ix);
          deposits = hm_get address addresses;
          deposits = hm_insert (de_txid deposit, de_vout deposit) deposit deposits in
      ix\<lparr>dx_receiver_index := hm_insert receiver (hm_insert address deposits addresses) (dx_receiver_index ix)\<rparr>)"

definition DepositIndex_remove_address_index_deposit ::
  "string \<Rightarrow> string \<Rightarrow> bytes \<Rightarrow> u32 \<Rightarrow> deposit_index \<Rightarrow> deposit_index" where
  "DepositIndex_remove_address_index_deposit receiver address txid vout ix =
     ix\<lparr>dx_receiver_index := omap_modify receiver (omap_modify address (omap_remove (txid, vout))) (dx_receiver_index ix)\<rparr>"

definition DepositIndex_remove_deposit :: "string \<Rightarrow> string \<Rightarrow> bytes \<Rightarrow> u32 \<Rightarrow> deposit_index \<Rightarrow> deposit_index" where
  "DepositIndex_remove_deposit = DepositIndex_remove_address_index_deposit"

definition confirmations_of :: "u64 \<Rightarrow> deposit \<Rightarrow> u64 result" where
  "confirmations_of current_btc_height deposit =
     (case de_height deposit of
        Some height \<Rightarrow> add_u64 (current_btc_height - height) 1
      | None \<Rightarrow> Ok 0)"

definition DepositIndex_get_deposits_by_receiver ::
  "(deposit list \<Rightarrow> deposit list) \<Rightarrow> string \<Rightarrow> u64 \<Rightarrow> deposit_index \<Rightarrow> deposit_info list result" where
  "DepositIndex_get_deposits_by_receiver visit receiver current_btc_height ix =
     (case map_of (dx_receiver_index ix) receiver of
        None \<Rightarrow> Ok []
      | Some address_map \<Rightarrow>
          fold_result (\<lambda>deposits deposit.
            rbind (confirmations_of current_btc_height deposit) (\<lambda>confirmations.
            Ok (if confirmations = 0 then deposits @ [\<lparr>di_deposit = deposit, di_confirmations = confirmations\<rparr>] else deposits)))
          [] (visit (concat (map (map snd \<circ> snd) address_map))))"

section \<open>The index as a map\<close>

text \<open>The abstract value of the index: one flat map.\<close>

definition dx_lookup :: "deposit_index \<Rightarrow> string \<times> string \<times> bytes \<times> u32 \<Rightarrow> deposit option" where
  "dx_lookup ix = (\<lambda>(receiver, address, txid, vout).
     map_of (hm_get address (hm_get receiver (dx_receiver_index ix))) (txid, vout))"

definition dx_inv :: "deposit_index \<Rightarrow> bool" where
  "dx_inv ix \<longleftrightarrow> distinct (map fst (dx_receiver_index ix))
     \<and> (\<forall>(r, as) \<in> set (dx_receiver_index ix). distinct (map fst as)
         \<and> (\<forall>(a, ds) \<in> set as. distinct (map fst ds) \<and> (\<forall>(k, d) \<in> set ds. k = (de_txid d, de_vout d))))"

lemma hm_get_Nil [simp]: "hm_get k [] = []"
  by (simp add: hm_get_def)

lemma map_of_hm_insert [simp]: "map_of (hm_insert k v m) = (map_of m)(k \<mapsto> v)"
  by (auto simp: hm_insert_def fun_eq_iff)

lemma hm_get_insert [simp]: "hm_get k (hm_insert k' v m) = (if k = k' then v else hm_get k m)"
  by (simp add: hm_get_def)

lemma distinct_omap_remove [simp]: "distinct (map fst m) \<Longrightarrow> distinct (map fst (omap_remove k m))"
  by (induction m) (auto simp: omap_remove_def)

lemma set_omap_remove: "set (omap_remove k m) \<subseteq> set m"
  by (auto simp: omap_remove_def)

lemma distinct_hm_insert [simp]: "distinct (map fst m) \<Longrightarrow> distinct (map fst (hm_insert k v m))"
  by (auto simp: hm_insert_def) (auto simp: omap_remove_def)

lemma set_hm_insert: "set (hm_insert k v m) \<subseteq> insert (k, v) (set m)"
  by (auto simp: hm_insert_def omap_remove_def)

lemma set_hm_get: "hm_get k m \<noteq> [] \<Longrightarrow> (k, hm_get k m) \<in> set m"
  by (auto simp: hm_get_def split: option.splits dest: map_of_SomeD)

lemma hm_get_modify: "hm_get k (omap_modify k' f m) = (if k = k' \<and> map_of m k \<noteq> None then f (hm_get k m) else hm_get k m)"
  by (auto simp: hm_get_def split: option.splits)

lemma hm_get_cases: "hm_get k m = [] \<or> (k, hm_get k m) \<in> set m"
  using set_hm_get [of k m] by auto

definition wf_deposits :: "address_deposits \<Rightarrow> bool" where
  "wf_deposits ds \<longleftrightarrow> distinct (map fst ds) \<and> (\<forall>(k, d) \<in> set ds. k = (de_txid d, de_vout d))"

definition wf_addresses :: "(string \<times> address_deposits) list \<Rightarrow> bool" where
  "wf_addresses as \<longleftrightarrow> distinct (map fst as) \<and> (\<forall>(a, ds) \<in> set as. wf_deposits ds)"

lemma dx_inv_iff:
  "dx_inv ix \<longleftrightarrow> distinct (map fst (dx_receiver_index ix)) \<and> (\<forall>(r, as) \<in> set (dx_receiver_index ix). wf_addresses as)"
  by (auto simp: dx_inv_def wf_addresses_def wf_deposits_def)

lemma wf_Nil [simp]: "wf_deposits []" "wf_addresses []"
  by (simp_all add: wf_deposits_def wf_addresses_def)

lemma wf_addresses_get: "wf_addresses as \<Longrightarrow> wf_deposits (hm_get a as)"
  using hm_get_cases [of a as] by (auto simp: wf_addresses_def)

lemma dx_inv_get: "dx_inv ix \<Longrightarrow> wf_addresses (hm_get r (dx_receiver_index ix))"
  using hm_get_cases [of r "dx_receiver_index ix"] by (auto simp: dx_inv_iff)

lemma wf_deposits_insert: "wf_deposits ds \<Longrightarrow> wf_deposits (hm_insert (de_txid d, de_vout d) d ds)"
  using set_hm_insert [of "(de_txid d, de_vout d)" d ds] by (auto simp: wf_deposits_def)

lemma wf_deposits_remove: "wf_deposits ds \<Longrightarrow> wf_deposits (omap_remove k ds)"
  using set_omap_remove [of k ds] by (auto simp: wf_deposits_def)

lemma wf_addresses_insert: "wf_addresses as \<Longrightarrow> wf_deposits ds \<Longrightarrow> wf_addresses (hm_insert a ds as)"
  using set_hm_insert [of a ds as] by (auto simp: wf_addresses_def)

lemma wf_addresses_remove: "wf_addresses as \<Longrightarrow> wf_addresses (omap_modify a (omap_remove k) as)"
  by (auto simp: wf_addresses_def) (auto simp: omap_modify_def wf_deposits_remove)

lemma dx_inv_insert:
  assumes "dx_inv ix"
  shows "dx_inv (DepositIndex_insert_deposit r a d ix)"
proof -
  let ?as = "hm_get r (dx_receiver_index ix)"
  let ?new = "hm_insert a (hm_insert (de_txid d, de_vout d) d (hm_get a ?as)) ?as"
  have "wf_addresses ?as" by (rule dx_inv_get [OF assms])
  then have "wf_addresses ?new" by (intro wf_addresses_insert wf_deposits_insert wf_addresses_get)
  with assms set_hm_insert [of r ?new "dx_receiver_index ix"] show ?thesis
    by (auto simp: dx_inv_iff DepositIndex_insert_deposit_def Let_def)
qed

lemma dx_inv_remove: "dx_inv ix \<Longrightarrow> dx_inv (DepositIndex_remove_deposit r a txid vout ix)"
  by (auto simp: dx_inv_iff DepositIndex_remove_deposit_def DepositIndex_remove_address_index_deposit_def)
    (auto simp: omap_modify_def wf_addresses_remove [unfolded omap_modify_def])

text \<open>The simulation: each operation is the one on the flat map.\<close>

lemma lookup_insert:
  "dx_lookup (DepositIndex_insert_deposit r a d ix) = (dx_lookup ix)((r, a, de_txid d, de_vout d) \<mapsto> d)"
  by (auto simp: fun_eq_iff dx_lookup_def DepositIndex_insert_deposit_def Let_def)

lemma lookup_remove:
  "dx_lookup (DepositIndex_remove_deposit r a txid vout ix) = (dx_lookup ix)((r, a, txid, vout) := None)"
  by (auto simp: fun_eq_iff dx_lookup_def DepositIndex_remove_deposit_def DepositIndex_remove_address_index_deposit_def hm_get_modify)
    (auto simp: hm_get_def)

lemma deposits_of_receiver:
  assumes "dx_inv ix"
  shows "d \<in> set (concat (map (map snd \<circ> snd) (hm_get r (dx_receiver_index ix)))) \<longleftrightarrow> (\<exists>a. dx_lookup ix (r, a, de_txid d, de_vout d) = Some d)"
proof -
  let ?as = "hm_get r (dx_receiver_index ix)"
  have wf: "wf_addresses ?as" by (rule dx_inv_get [OF assms])
  have key: "k = (de_txid e, de_vout e)" "map_of ?as a = Some ds" "map_of ds k = Some e"
    if "(a, ds) \<in> set ?as" "(k, e) \<in> set ds" for a ds k e
    using wf that by (auto simp: wf_addresses_def wf_deposits_def)
  have look: "dx_lookup ix (r, a, k) = Some e \<longleftrightarrow> (\<exists>ds. map_of ?as a = Some ds \<and> map_of ds k = Some e)" for a k e
    by (cases k) (auto simp: dx_lookup_def hm_get_def [of a] split: option.splits)
  have "d \<in> set (concat (map (map snd \<circ> snd) ?as)) \<longleftrightarrow> (\<exists>a ds k. (a, ds) \<in> set ?as \<and> (k, d) \<in> set ds)" by force
  also have "\<dots> \<longleftrightarrow> (\<exists>a ds. map_of ?as a = Some ds \<and> map_of ds (de_txid d, de_vout d) = Some d)"
    using key by (metis map_of_SomeD)
  also have "\<dots> \<longleftrightarrow> (\<exists>a. dx_lookup ix (r, a, de_txid d, de_vout d) = Some d)" by (simp only: look)
  finally show ?thesis .
qed

lemma get_deposits_loop:
  assumes "fold_result (\<lambda>deposits deposit.
      rbind (confirmations_of height deposit) (\<lambda>confirmations.
      Ok (if confirmations = 0 then deposits @ [\<lparr>di_deposit = deposit, di_confirmations = confirmations\<rparr>] else deposits))) acc ds = Ok infos"
  shows "infos = acc @ map (\<lambda>d. \<lparr>di_deposit = d, di_confirmations = 0\<rparr>) (filter (\<lambda>d. de_height d = None) ds)"
  using assms
proof (induction ds arbitrary: acc)
  case (Cons d ds)
  from Cons.prems obtain c where c: "confirmations_of height d = Ok c"
    and rest: "fold_result (\<lambda>deposits deposit.
      rbind (confirmations_of height deposit) (\<lambda>confirmations.
      Ok (if confirmations = 0 then deposits @ [\<lparr>di_deposit = deposit, di_confirmations = confirmations\<rparr>] else deposits)))
      (if c = 0 then acc @ [\<lparr>di_deposit = d, di_confirmations = c\<rparr>] else acc) ds = Ok infos" by auto
  have "c = 0 \<longleftrightarrow> de_height d = None" using c by (auto simp: confirmations_of_def split: option.splits)
  with Cons.IH [OF rest] show ?case by (cases "c = 0") auto
qed simp

section \<open>Properties\<close>

text \<open>
  C24: the index implements one flat map from receiver, address and outpoint to deposits. Inserting
  and removing update that map at one place, both keep the index well formed, and a receiver's
  deposits are exactly the entries of the map that are not in a block yet, in the order of visiting.
\<close>

theorem deposit_index_refines_map:
  assumes "dx_inv ix" and "\<And>ds. set (visit ds) = set ds"
  shows "dx_inv (DepositIndex_insert_deposit r a d ix) \<and> dx_inv (DepositIndex_remove_deposit r a txid vout ix)
    \<and> dx_lookup (DepositIndex_insert_deposit r a d ix) = (dx_lookup ix)((r, a, de_txid d, de_vout d) \<mapsto> d)
    \<and> dx_lookup (DepositIndex_remove_deposit r a txid vout ix) = (dx_lookup ix)((r, a, txid, vout) := None)
    \<and> (\<forall>infos. DepositIndex_get_deposits_by_receiver visit r height ix = Ok infos \<longrightarrow>
         set infos = {\<lparr>di_deposit = e, di_confirmations = 0\<rparr> | e. de_height e = None
           \<and> (\<exists>a. dx_lookup ix (r, a, de_txid e, de_vout e) = Some e)})"
proof -
  let ?ds = "concat (map (map snd \<circ> snd) (hm_get r (dx_receiver_index ix)))"
  have "set infos = {\<lparr>di_deposit = e, di_confirmations = 0\<rparr> | e. de_height e = None
      \<and> (\<exists>a. dx_lookup ix (r, a, de_txid e, de_vout e) = Some e)}"
    if got: "DepositIndex_get_deposits_by_receiver visit r height ix = Ok infos" for infos
  proof -
    have "set infos = (\<lambda>d. \<lparr>di_deposit = d, di_confirmations = 0\<rparr>) ` {e \<in> set ?ds. de_height e = None}"
    proof (cases "map_of (dx_receiver_index ix) r")
      case None
      with got show ?thesis by (simp add: DepositIndex_get_deposits_by_receiver_def hm_get_def)
    next
      case (Some as)
      with got have "infos = [] @ map (\<lambda>d. \<lparr>di_deposit = d, di_confirmations = 0\<rparr>) (filter (\<lambda>d. de_height d = None) (visit ?ds))"
        by (intro get_deposits_loop) (simp add: DepositIndex_get_deposits_by_receiver_def hm_get_def [of r])
      then show ?thesis using assms(2) [of ?ds] by auto
    qed
    then show ?thesis unfolding deposits_of_receiver [OF assms(1), of _ r] by blast
  qed
  with assms(1) show ?thesis by (simp add: dx_inv_insert dx_inv_remove lookup_insert lookup_remove)
qed

theorem deposit_index_refines_map_witness:
  "\<exists>infos. DepositIndex_get_deposits_by_receiver rev ''r'' 9 (DepositIndex_insert_deposit ''r'' ''a'' (Deposit_new [1] 0 5 None) DepositIndex_new)
       = Ok infos \<and> set infos = {\<lparr>di_deposit = Deposit_new [1] 0 5 None, di_confirmations = 0\<rparr>}"
proof -
  let ?d = "Deposit_new [1] 0 5 None" and ?ix = "DepositIndex_new"
  have inv: "dx_inv ?ix" by (simp add: dx_inv_def DepositIndex_new_def)
  note empty = deposit_index_refines_map [OF inv, of rev "''r''" "''a''" ?d]
  let ?ix1 = "DepositIndex_insert_deposit ''r'' ''a'' ?d ?ix"
  have inv1: "dx_inv ?ix1" and look: "dx_lookup ?ix1 = (dx_lookup ?ix)((''r'', ''a'', [1], 0) \<mapsto> ?d)"
    using empty by (simp_all add: Deposit_new_def)
  have none: "dx_lookup ?ix k = None" for k by (cases k) (simp add: dx_lookup_def DepositIndex_new_def)
  obtain infos where got: "DepositIndex_get_deposits_by_receiver rev ''r'' 9 ?ix1 = Ok infos"
    by (simp add: DepositIndex_get_deposits_by_receiver_def DepositIndex_insert_deposit_def DepositIndex_new_def Let_def hm_insert_def
        omap_remove_def confirmations_of_def Deposit_new_def)
  have "(\<exists>a. dx_lookup ?ix1 (''r'', a, de_txid e, de_vout e) = Some e) \<longleftrightarrow> e = ?d" for e
    unfolding look by (auto simp: none) (auto simp: Deposit_new_def)
  with deposit_index_refines_map [OF inv1, of rev "''r''" "[]" ?d "[]" 0 9] got show ?thesis by (auto simp: Deposit_new_def)
qed

end
