(* ===== verification/Ethereum_Proofs.thy ===== *)
theory Ethereum_Proofs
  imports Prelude
begin

text \<open>
  The proofs of returns from Ethereum (src/src/ethereum/proofs.rs): the storage keys of the bridge
  contract, the proof a relayer builds from a node's response, and its verification against a state
  root. The trie, keccak and RLP decoding are the parameters of \<open>trie_lib\<close>; a decoder's failure
  carries its message.
\<close>

section \<open>The crates\<close>

type_synonym encoded_proof = "bytes list"
type_synonym index_proof = "encoded_proof list"

record trie_lib =
  keccak_256 :: "bytes \<Rightarrow> bytes"
  trie_get :: "bytes \<Rightarrow> bytes \<Rightarrow> encoded_proof \<Rightarrow> string + bytes option"
  rlp_account :: "bytes \<Rightarrow> string + bytes"  \<comment> \<open>the storage root of the decoded account\<close>
  rlp_address :: "bytes \<Rightarrow> string + address"
  rlp_u64 :: "bytes \<Rightarrow> u64 option"
  rlp_string :: "bytes \<Rightarrow> string + string"

text \<open>A \<open>LengthVec\<close> or \<open>LengthString\<close> whose length has \<open>w\<close> bits.\<close>

definition length_vec :: "nat \<Rightarrow> error \<Rightarrow> 'a list \<Rightarrow> 'a list result" where
  "length_vec w e xs = (if length xs < 2 ^ w then Ok xs else Err e)"

definition or_relayer :: "string \<Rightarrow> string + 'a \<Rightarrow> 'a result" where
  "or_relayer context r = (case r of Inl e \<Rightarrow> Err (Relayer (context @ e)) | Inr a \<Rightarrow> Ok a)"

text \<open>\<open>U256\<close>: big-endian conversions; \<open>from_big_endian\<close> takes at most 32 bytes.\<close>

definition to_big_endian :: "u256 \<Rightarrow> bytes" where
  "to_big_endian n = map (\<lambda>i. of_nat (n div 256 ^ (31 - i))) [0..<32]"

definition from_big_endian :: "bytes \<Rightarrow> u256 result" where
  "from_big_endian bs = (if length bs > 32 then Err Panic else Ok (fold (\<lambda>b n. 256 * n + unat b) bs 0))"

section \<open>Storage keys\<close>

definition RETURN_DESTS_SLOT :: u64 where "RETURN_DESTS_SLOT = 7"
definition RETURN_AMOUNTS_SLOT :: u64 where "RETURN_AMOUNTS_SLOT = 8"
definition RETURN_SENDERS_SLOT :: u64 where "RETURN_SENDERS_SLOT = 9"

definition get_key :: "'m trie_lib_scheme \<Rightarrow> u256 \<Rightarrow> u256 \<Rightarrow> bytes" where
  "get_key L index slot = keccak_256 L (to_big_endian index @ to_big_endian slot)"

definition dest_key :: "'m trie_lib_scheme \<Rightarrow> u64 \<Rightarrow> bytes" where
  "dest_key L index = get_key L index RETURN_DESTS_SLOT"

definition amount_key :: "'m trie_lib_scheme \<Rightarrow> u64 \<Rightarrow> bytes" where
  "amount_key L index = get_key L index RETURN_AMOUNTS_SLOT"

definition sender_key :: "'m trie_lib_scheme \<Rightarrow> u64 \<Rightarrow> bytes" where
  "sender_key L index = get_key L index RETURN_SENDERS_SLOT"

definition dest_chunk_key :: "'m trie_lib_scheme \<Rightarrow> u64 \<Rightarrow> u64 \<Rightarrow> bytes result" where
  "dest_chunk_key L index chunk_index =
     rbind (from_big_endian (keccak_256 L (dest_key L index))) (\<lambda>base.
     rbind (add_w 256 base chunk_index) (\<lambda>key. Ok (to_big_endian key)))"

definition extra_slots_required :: "nat \<Rightarrow> nat" where
  "extra_slots_required len = (len + 31) div 32"

definition dest_keys :: "'m trie_lib_scheme \<Rightarrow> string \<Rightarrow> u64 \<Rightarrow> bytes list result" where
  "dest_keys L str index =
     (let num_keys = 1 + (length str + 31) div 32 in
      rbind (map_result (\<lambda>i. dest_chunk_key L index i) [0..<num_keys - 1]) (\<lambda>chunks.
      Ok (dest_key L index # chunks)))"

section \<open>Proofs\<close>

record state_proof =
  sp_address :: address
  sp_start_index :: u64
  sp_account_proof :: encoded_proof
  sp_storage_proofs :: "index_proof list"

record bridge_contract_data =
  bd_dest :: string
  bd_amount :: u64
  bd_sender :: address
  bd_index :: u64

definition verify_key :: "'m trie_lib_scheme \<Rightarrow> bytes \<Rightarrow> bytes \<Rightarrow> encoded_proof \<Rightarrow> bytes result" where
  "verify_key L root key proofs =
     rbind (or_relayer ''TrieError: '' (trie_get L root key proofs)) (ok_or (Relayer ''Key not found''))"

text \<open>\<open>unwrap\<close> on a \<open>Result\<close>.\<close>

definition or_panic :: "'a result \<Rightarrow> 'a result" where
  "or_panic r = map_err (\<lambda>_. Panic) r"

definition trim_end_nul :: "string \<Rightarrow> string" where
  "trim_end_nul s = rev (dropWhile (\<lambda>c. c = char_of (0::nat)) (rev s))"

definition dest_chunk :: "'m trie_lib_scheme \<Rightarrow> bytes \<Rightarrow> u64 \<Rightarrow> index_proof \<Rightarrow> u64 \<Rightarrow> string result" where
  "dest_chunk L root index storage_proof i =
     rbind (dest_chunk_key L index i) (\<lambda>key.
     if i + 3 \<ge> length storage_proof then Err Panic
     else
     rbind (or_panic (verify_key L root (keccak_256 L key) (storage_proof ! (i + 3)))) (\<lambda>chunk.
     rbind (or_relayer ''Failed to decode return dest part: '' (rlp_string L chunk)) (\<lambda>chunk_str.
     Ok (trim_end_nul chunk_str))))"

text \<open>The number of further slots that a long destination takes, from the value of its first slot.\<close>

definition slots_of_entry :: "u64 \<Rightarrow> u64 result" where
  "slots_of_entry entry =
     (let dest_len = entry div 2 - 1 in rbind (add_u64 dest_len 31) (\<lambda>n. Ok (n div 32)))"

definition read_dest :: "'m trie_lib_scheme \<Rightarrow> bytes \<Rightarrow> u64 \<Rightarrow> index_proof \<Rightarrow> bytes \<Rightarrow> string result" where
  "read_dest L root index storage_proof dest_bytes =
     rbind (from_big_endian dest_bytes) (\<lambda>dest_entry.
     if odd dest_entry then
       rbind (unwrap (rlp_u64 L dest_bytes)) (\<lambda>entry.
       rbind (slots_of_entry entry) (\<lambda>extra_storage_slots.
       if length storage_proof \<noteq> 3 + extra_storage_slots
       then Err (Relayer ''Invalid number of dest storage proofs'')
       else
       rbind (map_result (dest_chunk L root index storage_proof) [0..<extra_storage_slots]) (\<lambda>chunks.
       Ok (concat chunks))))
     else or_relayer ''Failed to decode return dest: '' (rlp_string L dest_bytes))"

definition verify_index :: "'m trie_lib_scheme \<Rightarrow> bytes \<Rightarrow> u64 \<Rightarrow> index_proof \<Rightarrow> bridge_contract_data result" where
  "verify_index L root index storage_proof =
     rbind (or_panic (verify_key L root (keccak_256 L (dest_key L index)) (storage_proof ! 0))) (\<lambda>dest_bytes.
     rbind (or_panic (verify_key L root (keccak_256 L (amount_key L index)) (storage_proof ! 1))) (\<lambda>amount_bytes.
     rbind (verify_key L root (sender_key L index) (storage_proof ! 2)) (\<lambda>sender_bytes.
     rbind (or_relayer ''Failed to decode return sender: '' (rlp_address L sender_bytes)) (\<lambda>sender_addr.
     rbind (unwrap (rlp_u64 L amount_bytes)) (\<lambda>return_amount.
     rbind (read_dest L root index storage_proof dest_bytes) (\<lambda>dest_str.
     rbind (length_vec 16 Encoding dest_str) (\<lambda>dest.
     Ok \<lparr>bd_dest = dest, bd_amount = return_amount, bd_sender = sender_addr, bd_index = index\<rparr>)))))))"

definition StateProof_verify :: "'m trie_lib_scheme \<Rightarrow> bytes \<Rightarrow> state_proof \<Rightarrow> bridge_contract_data list result" where
  "StateProof_verify L state_root pr =
     rbind (or_panic (verify_key L state_root (keccak_256 L (sp_address pr)) (sp_account_proof pr))) (\<lambda>account.
     rbind (or_relayer ''Failed to decode account: '' (rlp_account L account)) (\<lambda>root.
     map_result (\<lambda>(i, storage_proof).
         if length storage_proof < 3 then Err (Relayer ''Storage proof is too short'')
         else rbind (add_u64 (sp_start_index pr) i) (\<lambda>index. verify_index L root index storage_proof))
       (enumerate 0 (sp_storage_proofs pr))))"

text \<open>A node's response: the proof of the account and one proof for each key that was asked for.\<close>

record proof_response =
  pr_address :: address
  pr_account_proof :: encoded_proof
  pr_storage_proof :: "encoded_proof list"

definition encode_proof :: "bytes list \<Rightarrow> encoded_proof result" where
  "encode_proof nodes = rbind (map_result (length_vec 16 Encoding) nodes) (length_vec 8 Encoding)"

definition StateProof_from_response :: "proof_response \<Rightarrow> (string \<times> u64) list \<Rightarrow> state_proof result" where
  "StateProof_from_response res dests =
     (case dests of
        [] \<Rightarrow> Err Panic
      | (_, start_index) # _ \<Rightarrow>
          rbind (encode_proof (pr_account_proof res)) (\<lambda>account_proof.
          rbind (fold_result (\<lambda>(state_proofs, cursor) (dest, _).
              let n = 3 + extra_slots_required (length dest) in
              if cursor + n > length (pr_storage_proof res) then Err Panic
              else
              rbind (map_result encode_proof (take n (drop cursor (pr_storage_proof res)))) (\<lambda>state_proof_for_index.
              rbind (length_vec 8 Panic state_proof_for_index) (\<lambda>p. Ok (state_proofs @ [p], cursor + n))))
            ([], 0) dests) (\<lambda>(state_proofs, _).
          rbind (length_vec 16 (Relayer (''Invalid storage'' @ [char_of (10::nat)] @ ''        proof'')) state_proofs) (\<lambda>storage_proofs.
          Ok \<lparr>sp_address = pr_address res, sp_start_index = start_index, sp_account_proof = account_proof,
              sp_storage_proofs = storage_proofs\<rparr>))))"

section \<open>What is verified\<close>

lemma StateProof_verify_Ok:
  assumes "StateProof_verify L state_root pr = Ok ds"
  shows "length ds = length (sp_storage_proofs pr)
    \<and> (\<exists>root. \<forall>i < length ds. verify_index L root (sp_start_index pr + i) (sp_storage_proofs pr ! i) = Ok (ds ! i))"
proof -
  from assms obtain root where "map_result (\<lambda>(i, storage_proof).
         if length storage_proof < 3 then Err (Relayer ''Storage proof is too short'')
         else rbind (add_u64 (sp_start_index pr) i) (\<lambda>index. verify_index L root index storage_proof))
       (enumerate 0 (sp_storage_proofs pr)) = Ok ds"
    by (auto simp: StateProof_verify_def)
  then show ?thesis by (auto simp: map_result_Ok_iff nth_enumerate_eq split: if_splits intro!: exI [of _ root])
qed

lemma verify_index_index: "verify_index L root index storage_proof = Ok d \<Longrightarrow> bd_index d = index"
  by (auto simp: verify_index_def)

text \<open>
  What a proof is to show of the return number \<open>n\<close>, said of the trie alone: the state holds the account that
  the proof names, and the storage of this account holds the amount, the sender and the destination under their
  keys; a long destination is the text of the slots that follow.
\<close>

definition slot_holds :: "'m trie_lib_scheme \<Rightarrow> bytes \<Rightarrow> bytes \<Rightarrow> encoded_proof \<Rightarrow> bytes \<Rightarrow> bool" where
  "slot_holds L root key pr v \<longleftrightarrow> trie_get L root key pr = Inr (Some v)"

definition chunk_proven :: "'m trie_lib_scheme \<Rightarrow> bytes \<Rightarrow> u64 \<Rightarrow> index_proof \<Rightarrow> nat \<Rightarrow> string \<Rightarrow> bool" where
  "chunk_proven L root n pr j chunk \<longleftrightarrow> (\<exists>key raw str. dest_chunk_key L n j = Ok key
     \<and> slot_holds L root (keccak_256 L key) (pr ! (j + 3)) raw \<and> rlp_string L raw = Inr str \<and> chunk = trim_end_nul str)"

definition dest_proven :: "'m trie_lib_scheme \<Rightarrow> bytes \<Rightarrow> u64 \<Rightarrow> index_proof \<Rightarrow> string \<Rightarrow> bool" where
  "dest_proven L root n pr dest \<longleftrightarrow> (\<exists>raw. slot_holds L root (keccak_256 L (dest_key L n)) (pr ! 0) raw
     \<and> (if odd (fold (\<lambda>b n. 256 * n + unat b) raw 0)
        then \<exists>chunks. length pr = 3 + length chunks \<and> dest = concat chunks
           \<and> (\<forall>j < length chunks. chunk_proven L root n pr j (chunks ! j))
        else rlp_string L raw = Inr dest))"

definition return_proven :: "'m trie_lib_scheme \<Rightarrow> bytes \<Rightarrow> state_proof \<Rightarrow> nat \<Rightarrow> bridge_contract_data \<Rightarrow> bool" where
  "return_proven L state_root pr i d \<longleftrightarrow>
     (let n = sp_start_index pr + i; pi = sp_storage_proofs pr ! i in bd_index d = n \<and>
     (\<exists>account root amount sender. slot_holds L state_root (keccak_256 L (sp_address pr)) (sp_account_proof pr) account
        \<and> rlp_account L account = Inr root
        \<and> slot_holds L root (keccak_256 L (amount_key L n)) (pi ! 1) amount \<and> rlp_u64 L amount = Some (bd_amount d)
        \<and> slot_holds L root (sender_key L n) (pi ! 2) sender \<and> rlp_address L sender = Inr (bd_sender d)
        \<and> dest_proven L root n pi (bd_dest d)))"

lemma verify_key_Ok: "verify_key L root key pr = Ok v \<longleftrightarrow> slot_holds L root key pr v"
  by (auto simp: verify_key_def or_relayer_def slot_holds_def split: sum.splits)

lemma or_panic_Ok [simp]: "or_panic r = Ok v \<longleftrightarrow> r = Ok v"
  by (cases r) (simp_all add: or_panic_def)

lemma or_relayer_Ok [simp]: "or_relayer c r = Ok v \<longleftrightarrow> r = Inr v"
  by (cases r) (simp_all add: or_relayer_def)

lemma dest_chunk_proven: "dest_chunk L root n pr j = Ok chunk \<Longrightarrow> chunk_proven L root n pr j chunk"
  by (auto simp: dest_chunk_def chunk_proven_def verify_key_Ok split: if_splits)

lemma read_dest_proven:
  assumes "read_dest L root n pr raw = Ok dest" and "slot_holds L root (keccak_256 L (dest_key L n)) (pr ! 0) raw"
  shows "dest_proven L root n pr dest"
proof (cases "odd (fold (\<lambda>b n. 256 * n + unat b) raw (0::nat))")
  case True
  with assms(1) obtain k chunks where k: "length pr = 3 + k" and dest: "dest = concat chunks"
    and chunks: "map_result (dest_chunk L root n pr) [0..<k] = Ok chunks"
    by (auto simp: read_dest_def from_big_endian_def split: if_splits)
  from chunks have "length chunks = k" "\<forall>j < k. dest_chunk L root n pr j = Ok (chunks ! j)"
    by (auto simp: map_result_Ok_iff)
  with assms(2) True k dest show ?thesis unfolding dest_proven_def using dest_chunk_proven by metis
next
  case False
  with assms show ?thesis by (auto simp: read_dest_def from_big_endian_def dest_proven_def split: if_splits)
qed

lemma verify_index_proven:
  assumes "verify_index L root n pr = Ok d"
  obtains amount sender where "slot_holds L root (keccak_256 L (amount_key L n)) (pr ! 1) amount" "rlp_u64 L amount = Some (bd_amount d)"
    and "slot_holds L root (sender_key L n) (pr ! 2) sender" "rlp_address L sender = Inr (bd_sender d)"
    and "dest_proven L root n pr (bd_dest d)" "bd_index d = n"
  using assms that by (auto simp: verify_index_def verify_key_Ok length_vec_def split: if_splits dest: read_dest_proven)

lemma StateProof_verify_proven:
  assumes "StateProof_verify L state_root pr = Ok ds"
  shows "length ds = length (sp_storage_proofs pr) \<and> (\<forall>i < length ds. return_proven L state_root pr i (ds ! i))"
proof -
  from assms obtain account root where acc: "slot_holds L state_root (keccak_256 L (sp_address pr)) (sp_account_proof pr) account"
    "rlp_account L account = Inr root" and m: "map_result (\<lambda>(i, storage_proof).
         if length storage_proof < 3 then Err (Relayer ''Storage proof is too short'')
         else rbind (add_u64 (sp_start_index pr) i) (\<lambda>index. verify_index L root index storage_proof))
       (enumerate 0 (sp_storage_proofs pr)) = Ok ds"
    by (auto simp: StateProof_verify_def verify_key_Ok)
  from m have v: "verify_index L root (sp_start_index pr + i) (sp_storage_proofs pr ! i) = Ok (ds ! i)" if "i < length ds" for i
    using that by (auto simp: map_result_Ok_iff nth_enumerate_eq split: if_splits)
  have "return_proven L state_root pr i (ds ! i)" if "i < length ds" for i
    using verify_index_proven [OF v [OF that]] acc by (metis (no_types, lifting) return_proven_def)
  with m show ?thesis by (simp add: map_result_Ok_iff)
qed

lemma slots_of_long_entry:
  assumes "0 < len" and "2 * len + 1 < 2 ^ 64"
  shows "slots_of_entry (2 * len + 1) = Ok ((len + 30) div 32)"
  using assms by (auto simp: slots_of_entry_def add_w_def Let_def)

text \<open>
  The relayer proves \<open>extra_slots_required\<close> further slots for a destination. The contract stores a
  string of \<open>len\<close> bytes, 32 or more, as the entry \<open>2 * len + 1\<close>, for which the verification expects as
  many slots unless the last one holds a single byte.
\<close>

lemma long_dest_slots:
  assumes "32 \<le> len" and "2 * len + 1 < 2 ^ 64"
  shows "slots_of_entry (2 * len + 1) = Ok (extra_slots_required len) \<longleftrightarrow> len mod 32 \<noteq> 1"
proof -
  have "(len + 30) div 32 = (len + 31) div 32 \<longleftrightarrow> len mod 32 \<noteq> 1"
  proof -
    have split: "(32 * q + a) div 32 = q + a div 32" for q a :: nat by simp
    obtain q r where len: "len = 32 * q + r" "r < 32"
      using div_mult_mod_eq [of len 32] mod_less_divisor [of 32 len] by (metis mult.commute zero_less_numeral)
    have "a div 32 = (if a < 32 then 0 else 1)" if "a < 64" for a :: nat
      using that by (auto simp: div_if)
    then show ?thesis using len split [of q "r + 30"] split [of q "r + 31"] by (simp add: add.assoc)
  qed
  with slots_of_long_entry [of len] assms show ?thesis by (auto simp: extra_slots_required_def)
qed

lemma long_dest_rejected:
  assumes "length dest_bytes \<le> 32" and "from_big_endian dest_bytes = Ok entry" and "odd entry"
    and "rlp_u64 L dest_bytes = Some (2 * len + 1)" and "32 \<le> len" and "2 * len + 1 < 2 ^ 64" and "len mod 32 = 1"
    and "length storage_proof = 3 + extra_slots_required len"
  shows "read_dest L root index storage_proof dest_bytes = Err (Relayer ''Invalid number of dest storage proofs'')"
  using assms long_dest_slots [OF assms(5,6)] slots_of_long_entry [of len] by (auto simp: read_dest_def)

end
