(* ===== verification/Ethereum.thy ===== *)
theory Ethereum
  imports Bridge_Ledger Ethereum_Proofs
begin

text \<open>
  The bridge to Ethereum (src/src/ethereum/mod.rs): a connection per bridge contract, with an outbox
  of messages that the validators sign for the contract, the nBTC locked in it, and the returns that
  come back. The module is behind the feature \<open>ethereum\<close>. Hashing, the ABI encoding and Ethereum
  addresses are the parameters of \<open>eth_lib\<close>; a connection is over any type \<open>'d\<close> of destinations.
\<close>

section \<open>Encodings\<close>

text \<open>The values that are ABI encoded: fixed-size bytes, numbers, byte strings and arrays.\<close>

datatype abi = Abi_fixed bytes | Abi_uint u64 | Abi_bytes bytes | Abi_array "abi list"

record eth_lib = btc_lib +
  keccak256 :: "bytes \<Rightarrow> bytes"
  abi_encode_params :: "abi list \<Rightarrow> bytes"
  eth_address :: "pubkey \<Rightarrow> address option"
  address_string :: "address \<Rightarrow> string"

text \<open>A byte string literal \<open>b"..."\<close>, and \<open>unwrap\<close> on a \<open>Result\<close>.\<close>

definition byte_literal :: "string \<Rightarrow> bytes" where
  "byte_literal s = map (\<lambda>c. of_nat (of_char c)) s"

definition unwrap_res :: "'a result \<Rightarrow> 'a result" where
  "unwrap_res r = map_err (\<lambda>_. Panic) r"

definition bytes32 :: "bytes \<Rightarrow> bytes result" where
  "bytes32 bs = (if length bs > 32 then Err (App ''bytes too long'') else Ok (bs @ replicate (32 - length bs) 0))"

definition be_bytes8 :: "u64 \<Rightarrow> bytes" where
  "be_bytes8 n = map (\<lambda>i. of_nat (n div 256 ^ (7 - i))) [0..<8]"

definition uint256 :: "u64 \<Rightarrow> bytes" where
  "uint256 n = replicate 24 0 @ be_bytes8 n"

definition addr_to_bytes32 :: "address \<Rightarrow> bytes" where
  "addr_to_bytes32 addr = replicate 12 0 @ addr"

definition sighash :: "'m eth_lib_scheme \<Rightarrow> bytes \<Rightarrow> bytes" where
  "sighash L message = keccak256 L (25 # byte_literal (''Ethereum Signed Message:'' @ [char_of (10::nat)] @ ''32'') @ message)"

section \<open>Validator sets\<close>

definition SignatorySet_eth_addresses :: "'m eth_lib_scheme \<Rightarrow> signatory_set \<Rightarrow> address list result" where
  "SignatorySet_eth_addresses L ss = map_result (\<lambda>s. unwrap (eth_address L (sg_pubkey s))) (ss_signatories ss)"

text \<open>\<open>(n as u128 * total as u128 / self.present_vp as u128) as u64\<close>\<close>

definition adjust_vp :: "u64 \<Rightarrow> u64 \<Rightarrow> u64 \<Rightarrow> u64 result" where
  "adjust_vp total_vp present_vp n = rbind (div_u (n * total_vp) present_vp) (\<lambda>q. Ok (q mod 2 ^ 64))"

definition SignatorySet_normalize_vp :: "u64 \<Rightarrow> signatory_set \<Rightarrow> signatory_set result" where
  "SignatorySet_normalize_vp total_vp ss =
     rbind (map_result (\<lambda>s. rbind (adjust_vp total_vp (ss_present_vp ss) (sg_voting_power s)) (\<lambda>n.
              Ok (s\<lparr>sg_voting_power := n\<rparr>))) (ss_signatories ss)) (\<lambda>signatories.
     rbind (adjust_vp total_vp (ss_present_vp ss) (ss_possible_vp ss)) (\<lambda>possible_vp.
     Ok (ss\<lparr>ss_signatories := signatories, ss_possible_vp := possible_vp, ss_present_vp := total_vp\<rparr>)))"

definition u32_MAX :: u64 where "u32_MAX = 4294967295"
definition u64_MAX :: u64 where "u64_MAX = 18446744073709551615"

section \<open>Messages\<close>

record transfer =
  tf_dest :: address
  tf_amount :: u64
  tf_fee_amount :: u64

datatype out_message_args =
    Out_Batch (ob_transfers: "transfer list") (ob_timeout: u64) (ob_batch_index: u64)
  | Out_ContractCall (oc_contract_address: address) (oc_data: bytes) (oc_max_gas: u64) (oc_fallback_address: address)
      (oc_transfer_amount: u64) (oc_fee_amount: u64) (oc_message_index: u64)
  | Out_UpdateValset (ov_index: u64) (ov_valset: signatory_set)

record out_message =
  om_sigset_index :: u32
  om_sigs :: threshold_sig
  om_msg :: out_message_args

definition call_hash ::
  "'m eth_lib_scheme \<Rightarrow> u32 \<Rightarrow> address \<Rightarrow> address \<Rightarrow> address \<Rightarrow> bytes \<Rightarrow> u64 \<Rightarrow> u64 \<Rightarrow> u64 \<Rightarrow> bytes result" where
  "call_hash L chain_id bridge_contract token_contract dest_contract data nonce_id transfer_amount fee_amount =
     rbind (unwrap_res (bytes32 (byte_literal ''logicCall''))) (\<lambda>tag.
     Ok (keccak256 L (abi_encode_params L
       [Abi_fixed (uint256 chain_id), Abi_fixed (addr_to_bytes32 bridge_contract), Abi_fixed tag,
        Abi_array [Abi_uint transfer_amount], Abi_array [Abi_fixed (addr_to_bytes32 token_contract)],
        Abi_array [Abi_uint fee_amount], Abi_array [Abi_fixed (addr_to_bytes32 token_contract)],
        Abi_fixed (addr_to_bytes32 dest_contract), Abi_bytes data, Abi_uint u64_MAX,
        Abi_fixed (uint256 nonce_id), Abi_fixed (uint256 1)])))"

definition checkpoint_hash :: "'m eth_lib_scheme \<Rightarrow> u32 \<Rightarrow> address \<Rightarrow> signatory_set \<Rightarrow> u64 \<Rightarrow> bytes result" where
  "checkpoint_hash L chain_id bridge_contract valset valset_index =
     rbind (unwrap_res (bytes32 (byte_literal ''checkpoint''))) (\<lambda>tag.
     rbind (SignatorySet_eth_addresses L valset) (\<lambda>addresses.
     Ok (keccak256 L (abi_encode_params L
       [Abi_fixed (uint256 chain_id), Abi_fixed (addr_to_bytes32 bridge_contract), Abi_fixed tag,
        Abi_fixed (uint256 valset_index), Abi_array (map (Abi_fixed \<circ> addr_to_bytes32) addresses),
        Abi_array (map (Abi_uint \<circ> sg_voting_power) (ss_signatories valset)),
        Abi_fixed (replicate 20 0), Abi_fixed (replicate 32 0)]))))"

definition batch_hash ::
  "'m eth_lib_scheme \<Rightarrow> u32 \<Rightarrow> address \<Rightarrow> u64 \<Rightarrow> transfer list \<Rightarrow> address \<Rightarrow> u64 \<Rightarrow> bytes result" where
  "batch_hash L chain_id bridge_contract bindex transfers token_contract timeout =
     rbind (unwrap_res (bytes32 (byte_literal ''transactionBatch''))) (\<lambda>tag.
     Ok (keccak256 L (abi_encode_params L
       [Abi_fixed (uint256 chain_id), Abi_fixed (addr_to_bytes32 bridge_contract), Abi_fixed tag,
        Abi_array (map (Abi_uint \<circ> tf_amount) transfers), Abi_array (map (Abi_fixed \<circ> addr_to_bytes32 \<circ> tf_dest) transfers),
        Abi_array (map (Abi_uint \<circ> tf_fee_amount) transfers), Abi_uint bindex,
        Abi_fixed (addr_to_bytes32 token_contract), Abi_uint timeout])))"

section \<open>Connections\<close>

definition VALSET_INTERVAL :: u64 where "VALSET_INTERVAL = 60 * 60 * 24"
definition GAS_PRICE :: u64 where "GAS_PRICE = 160000"
definition APPROX_TRANSFER_GAS :: u64 where "APPROX_TRANSFER_GAS = 80000"
definition APPROX_CALL_GAS :: u64 where "APPROX_CALL_GAS = 100000"
definition WHITELISTED_RELAYER_ADDR :: string where
  "WHITELISTED_RELAYER_ADDR = ''nomic124j0ky0luh9jzqh9w2dk77cze9v0ckdupk50ny''"

text \<open>\<open>Address::NULL\<close> is twenty zero bytes.\<close>

definition Address_NULL :: address where "Address_NULL = replicate 20 0"

text \<open>\<open>Identity::EthAccount\<close>.\<close>

record eth_account =
  ea_network :: u32
  ea_connection :: address
  ea_address :: address

record 'd connection =
  co_chain_id :: u32
  co_bridge_contract :: address
  co_token_contract :: address
  co_valset_interval :: u64
  co_message_index :: u64
  co_batch_index :: u64
  co_valset_index :: u64
  co_return_index :: u64
  co_emergency_disbursal_total :: u64
  co_emergency_disbursal_balances :: "(bytes \<times> u64) list"
  co_outbox :: "out_message list"
  co_pending :: "('d \<times> u64 \<times> eth_account) list"
  co_coins :: u64
  co_valset :: signatory_set

definition Connection_new :: "u32 \<Rightarrow> address \<Rightarrow> address \<Rightarrow> signatory_set \<Rightarrow> 'd connection result" where
  "Connection_new chain_id bridge_contract token_contract valset =
     rbind (SignatorySet_normalize_vp u32_MAX valset) (\<lambda>valset.
     Ok \<lparr>co_chain_id = chain_id, co_bridge_contract = bridge_contract, co_token_contract = token_contract,
         co_valset_interval = VALSET_INTERVAL, co_message_index = 1, co_batch_index = 0, co_valset_index = 0,
         co_return_index = 0, co_emergency_disbursal_total = 0, co_emergency_disbursal_balances = [],
         co_outbox = [], co_pending = [], co_coins = 0, co_valset = valset\<rparr>)"

definition Connection_message_hash :: "'m eth_lib_scheme \<Rightarrow> 'd connection \<Rightarrow> out_message_args \<Rightarrow> bytes result" where
  "Connection_message_hash L conn msg =
     rbind (case msg of
         Out_Batch transfers timeout bindex \<Rightarrow>
           batch_hash L (co_chain_id conn) (co_bridge_contract conn) bindex transfers (co_token_contract conn) timeout
       | Out_ContractCall contract_address data max_gas fallback_address transfer_amount fee_amount message_index \<Rightarrow>
           call_hash L (co_chain_id conn) (co_bridge_contract conn) (co_token_contract conn) contract_address data
             message_index transfer_amount fee_amount
       | Out_UpdateValset index valset \<Rightarrow> checkpoint_hash L (co_chain_id conn) (co_bridge_contract conn) valset index)
     (\<lambda>h. Ok (sighash L h))"

text \<open>\<open>u32::MAX as u64 * 2 / 3\<close>\<close>

definition ETH_THRESHOLD :: u64 where "ETH_THRESHOLD = u32_MAX * 2 div 3"

definition Connection_push_outbox :: "'m eth_lib_scheme \<Rightarrow> out_message_args \<Rightarrow> ('d connection, unit) call" where
  "Connection_push_outbox L msg =
     cbind (reads (\<lambda>conn. Connection_message_hash L conn msg)) (\<lambda>hash.
     cbind (reads (\<lambda>conn. ThresholdSig_from_sigset (sigset_pairs (co_valset conn)))) (\<lambda>sigs.
     let sigs = ThresholdSig_set_message hash (sigs\<lparr>ts_threshold := ETH_THRESHOLD\<rparr>) in
     cbind (reads (\<lambda>conn. if co_outbox conn \<noteq> [] then add_u64 (co_message_index conn) 1 else Ok (co_message_index conn))) (\<lambda>index.
     modify (\<lambda>conn. conn\<lparr>co_message_index := index,
       co_outbox := co_outbox conn @ [\<lparr>om_sigset_index = ss_index (co_valset conn), om_sigs = sigs, om_msg = msg\<rparr>]\<rparr>))))"

definition Connection_update_valset :: "'m eth_lib_scheme \<Rightarrow> signatory_set \<Rightarrow> ('d connection, unit) call" where
  "Connection_update_valset L new_valset =
     cbind (lift_result (SignatorySet_normalize_vp u32_MAX new_valset)) (\<lambda>new_valset.
     cbind (reads (\<lambda>conn. add_u64 (co_valset_index conn) 1)) (\<lambda>index.
     cbind (modify (co_valset_index_update (\<lambda>_. index))) (\<lambda>_.
     cbind (Connection_push_outbox L (Out_UpdateValset index new_valset)) (\<lambda>_.
     modify (co_valset_update (\<lambda>_. new_valset))))))"

definition Connection_step :: "'m eth_lib_scheme \<Rightarrow> signatory_set \<Rightarrow> ('d connection, unit) call" where
  "Connection_step L active_sigset =
     cbind (reads (\<lambda>conn. sub_u (ss_create_time active_sigset) (ss_create_time (co_valset conn)))) (\<lambda>age.
     cbind (reads (\<lambda>conn. Ok (age \<ge> co_valset_interval conn \<and> ss_index (co_valset conn) \<noteq> ss_index active_sigset))) (\<lambda>due.
     if due then Connection_update_valset L active_sigset else lift_result (Ok ())))"

definition Connection_validate_transfer :: "address \<Rightarrow> u64 \<Rightarrow> unit result" where
  "Connection_validate_transfer dest amount =
     rbind (mul_u64 APPROX_TRANSFER_GAS GAS_PRICE) (\<lambda>fee_amount.
     if amount < fee_amount then Err (App ''Insufficient funds for fee'')
     else if dest = Address_NULL then Err (App ''Invalid Ethereum address'')
     else Ok ())"

definition co_give :: "'m btc_lib_scheme \<Rightarrow> u64 \<Rightarrow> ('d connection, unit) call" where
  "co_give L coins =
     cbind (reads (\<lambda>conn. coin_give L (co_coins conn) coins)) (\<lambda>total. modify (co_coins_update (\<lambda>_. total)))"

definition Connection_transfer :: "'m eth_lib_scheme \<Rightarrow> address \<Rightarrow> u64 \<Rightarrow> ('d connection, unit) call" where
  "Connection_transfer L dest amount =
     cbind (lift_result (Connection_validate_transfer dest amount)) (\<lambda>_.
     cbind (lift_result (mul_u64 APPROX_TRANSFER_GAS GAS_PRICE)) (\<lambda>fee_amount.
     cbind (lift_result (sub_u amount fee_amount)) (\<lambda>net.
     let transfers = [\<lparr>tf_dest = dest, tf_amount = net, tf_fee_amount = fee_amount\<rparr>] in
     cbind (co_give L amount) (\<lambda>_.
     cbind (reads (\<lambda>conn. add_u64 (co_batch_index conn) 1)) (\<lambda>index.
     cbind (modify (co_batch_index_update (\<lambda>_. index))) (\<lambda>_.
     Connection_push_outbox L (Out_Batch transfers u64_MAX index)))))))"

definition call_fee :: "u64 \<Rightarrow> u64 result" where
  "call_fee max_gas = rbind (add_u64 APPROX_CALL_GAS max_gas) (\<lambda>gas. mul_u64 gas GAS_PRICE)"

definition Connection_validate_contract_call :: "u64 \<Rightarrow> address \<Rightarrow> u64 \<Rightarrow> unit result" where
  "Connection_validate_contract_call max_gas fallback_address amount =
     (if fallback_address = Address_NULL then Err (App ''Invalid Ethereum address'')
      else
      rbind (call_fee max_gas) (\<lambda>fee_amount.
      if amount < fee_amount then Err (App ''Insufficient funds for fee'') else Ok ()))"

definition Connection_call_contract ::
  "'m eth_lib_scheme \<Rightarrow> address \<Rightarrow> bytes \<Rightarrow> u64 \<Rightarrow> address \<Rightarrow> u64 \<Rightarrow> ('d connection, unit) call" where
  "Connection_call_contract L contract_address data max_gas fallback_address coins =
     cbind (lift_result (Connection_validate_contract_call max_gas fallback_address coins)) (\<lambda>_.
     cbind (lift_result (call_fee max_gas)) (\<lambda>fee_amount.
     cbind (lift_result (sub_u coins fee_amount)) (\<lambda>transfer_amount.
     cbind (co_give L coins) (\<lambda>_.
     cbind (reads (\<lambda>conn. add_u64 (co_message_index conn) (if co_outbox conn = [] then 0 else 1))) (\<lambda>message_index.
     Connection_push_outbox L (Out_ContractCall contract_address data max_gas fallback_address transfer_amount fee_amount message_index))))))"

definition Connection_take_pending :: "('d connection, ('d \<times> u64 \<times> eth_account) list) call" where
  "Connection_take_pending conn = (Ok (co_pending conn), conn\<lparr>co_pending := []\<rparr>)"

definition Connection_abs_index :: "'d connection \<Rightarrow> u64 \<Rightarrow> u64 result" where
  "Connection_abs_index conn msg_index =
     rbind (add_u64 (co_message_index conn) 1) (\<lambda>next.
     rbind (sub_u next (length (co_outbox conn))) (\<lambda>start_index.
     if co_outbox conn = [] \<or> msg_index > co_message_index conn \<or> msg_index < start_index
     then Err (App ''message index out of bounds'')
     else Ok (msg_index - start_index)))"

definition Connection_get :: "'d connection \<Rightarrow> u64 \<Rightarrow> out_message result" where
  "Connection_get conn msg_index =
     rbind (Connection_abs_index conn msg_index) (\<lambda>index.
     if index < length (co_outbox conn) then Ok (co_outbox conn ! index) else Err Panic)"

definition Connection_sign :: "'m eth_lib_scheme \<Rightarrow> ctx \<Rightarrow> u64 \<Rightarrow> pubkey \<Rightarrow> signature \<Rightarrow> ('d connection, unit) call" where
  "Connection_sign L C msg_index pubkey sig =
     cbind (lift_result (exempt_from_fee C)) (\<lambda>_.
     cbind (reads (\<lambda>conn. Connection_abs_index conn msg_index)) (\<lambda>index.
     cbind (reads (\<lambda>conn. Connection_get conn msg_index)) (\<lambda>msg.
     cbind (lift_result (ThresholdSig_sign L pubkey sig (om_sigs msg))) (\<lambda>sigs.
     modify (\<lambda>conn. conn\<lparr>co_outbox := (co_outbox conn)[index := msg\<lparr>om_sigs := sigs\<rparr>]\<rparr>)))))"

definition Connection_needs_sig :: "'d connection \<Rightarrow> u64 \<Rightarrow> pubkey \<Rightarrow> bool result" where
  "Connection_needs_sig conn msg_index pubkey =
     rbind (Connection_get conn msg_index) (\<lambda>msg. Ok (ThresholdSig_needs_sig (om_sigs msg) pubkey))"

text \<open>The shares in decreasing order of power, then key; an entry of the \<open>BTreeSet\<close> is its whole tuple.\<close>

definition Connection_get_sigs :: "'d connection \<Rightarrow> u64 \<Rightarrow> (pubkey \<times> signature option) list result" where
  "Connection_get_sigs conn msg_index =
     rbind (Connection_get conn msg_index) (\<lambda>msg.
     Ok (map (\<lambda>(pk, sh). (pk, sh_sig sh)) (rev (sort_key (\<lambda>(pk, sh). (sh_power sh, pk)) (ts_sigs (om_sigs msg))))))"

fun process_returns ::
  "'m eth_lib_scheme \<Rightarrow> (string \<Rightarrow> 'd option) \<Rightarrow> u32 \<Rightarrow> bridge_contract_data list \<Rightarrow> ('d connection, unit) call" where
  "process_returns L parse network [] = lift_result (Ok ())"
| "process_returns L parse network (d # ds) =
     cbind (reads (\<lambda>conn. if bd_index d \<noteq> co_return_index conn then Err (App ''Return index does not match'') else Ok ())) (\<lambda>_.
     cbind (reads (\<lambda>conn. coin_take L (co_coins conn) (bd_amount d))) (\<lambda>(coins, left).
     cbind (modify (co_coins_update (\<lambda>_. left))) (\<lambda>_.
     cbind (case parse (bd_dest d) of
         Some dest \<Rightarrow> modify (\<lambda>conn. conn\<lparr>co_pending := co_pending conn @
           [(dest, coins, \<lparr>ea_network = network, ea_connection = co_bridge_contract conn, ea_address = bd_sender d\<rparr>)]\<rparr>)
       | None \<Rightarrow> Connection_transfer L (bd_sender d) coins) (\<lambda>_.
     cbind (reads (\<lambda>conn. add_u64 (co_return_index conn) 1)) (\<lambda>index.
     cbind (modify (co_return_index_update (\<lambda>_. index))) (\<lambda>_.
     process_returns L parse network ds))))))"

definition Connection_relay_return ::
  "'m eth_lib_scheme \<Rightarrow> 'n trie_lib_scheme \<Rightarrow> (string \<Rightarrow> 'd option) \<Rightarrow> ctx \<Rightarrow> u32 \<Rightarrow> bytes \<Rightarrow> state_proof
     \<Rightarrow> ('d connection, unit) call" where
  "Connection_relay_return L T parse C network state_root pr =
     cbind (lift_result (exempt_from_fee C)) (\<lambda>_.
     cbind (lift_result (rbind (ok_or (SignerCtx ''No Signer context available'') (cx_signer C))
              (ok_or (Coins ''Call must be signed'')))) (\<lambda>signer.
     if address_string L signer \<noteq> WHITELISTED_RELAYER_ADDR
     then lift_result (Err (App ''Only whitelisted relayers can relay returns''))
     else cbind (lift_result (StateProof_verify T state_root pr)) (process_returns L parse network)))"

text \<open>The closure \<open>add\<close>: the sum in \<open>i128\<close>, back in \<open>u64\<close>.\<close>

definition add_signed :: "u64 \<Rightarrow> int \<Rightarrow> u64 result" where
  "add_signed a b =
     (let sum = int a + b in
      if sum < 0 \<or> sum > int u64_MAX then Err (App ''Balance overflow'') else Ok (nat sum))"

definition Connection_adjust_emergency_disbursal_balance :: "bytes \<Rightarrow> int \<Rightarrow> ('d connection, unit) call" where
  "Connection_adjust_emergency_disbursal_balance script difference =
     cbind (reads (\<lambda>conn. if int (co_emergency_disbursal_total conn) + difference > int (co_coins conn)
              then Err (App ''Exceeded balance in emergency disbursal distribution'') else Ok ())) (\<lambda>_.
     cbind (modify (co_emergency_disbursal_balances_update (\<lambda>m. if omap_contains script m then m else omap_insert (\<lambda>k. k) script 0 m))) (\<lambda>_.
     cbind (reads (\<lambda>conn. rbind (unwrap (map_of (co_emergency_disbursal_balances conn) script)) (\<lambda>balance. add_signed balance difference))) (\<lambda>balance.
     cbind (modify (co_emergency_disbursal_balances_update (omap_insert (\<lambda>k. k) script balance))) (\<lambda>_.
     cbind (reads (\<lambda>conn. add_signed (co_emergency_disbursal_total conn) difference)) (\<lambda>total.
     modify (co_emergency_disbursal_total_update (\<lambda>_. total)))))))"

section \<open>Networks\<close>

record 'd eth_network =
  nw_id :: u32
  nw_connections :: "(address \<times> 'd connection) list"

text \<open>
  A call on the value under a key of an ordered map, as the loops do that collect the keys first and
  then visit each with \<open>get_mut(key)?.unwrap()\<close>; the map keeps what a failed call left.
\<close>

definition at_key :: "'k \<Rightarrow> ('v, 'a) call \<Rightarrow> (('k \<times> 'v) list, 'a) call" where
  "at_key k f m =
     (case map_of m k of
        None \<Rightarrow> (Err Panic, m)
      | Some v \<Rightarrow> (case f v of (r, v') \<Rightarrow> (r, omap_modify k (\<lambda>_. v') m)))"

fun for_each_key :: "('v, 'a) call \<Rightarrow> 'k list \<Rightarrow> (('k \<times> 'v) list, 'a list) call" where
  "for_each_key f [] = lift_result (Ok [])"
| "for_each_key f (k # ks) =
     cbind (at_key k f) (\<lambda>a. cbind (for_each_key f ks) (\<lambda>as. lift_result (Ok (a # as))))"

definition on_connections :: "((address \<times> 'd connection) list, 'a) call \<Rightarrow> ('d eth_network, 'a) call" where
  "on_connections f net = (case f (nw_connections net) of (r, m) \<Rightarrow> (r, net\<lparr>nw_connections := m\<rparr>))"

definition Network_step :: "'m eth_lib_scheme \<Rightarrow> signatory_set \<Rightarrow> ('d eth_network, unit) call" where
  "Network_step L active_sigset =
     cbind (\<lambda>net. on_connections (for_each_key (Connection_step L active_sigset) (map fst (nw_connections net))) net) (\<lambda>_.
     lift_result (Ok ()))"

definition Network_take_pending :: "('d eth_network, ('d \<times> u64 \<times> eth_account) list) call" where
  "Network_take_pending =
     cbind (\<lambda>net. on_connections (for_each_key Connection_take_pending (map fst (nw_connections net))) net) (\<lambda>pending.
     lift_result (Ok (concat pending)))"

definition Network_connection :: "'d eth_network \<Rightarrow> address \<Rightarrow> 'd connection result" where
  "Network_connection net connection = ok_or (App ''Unknown connection'') (map_of (nw_connections net) connection)"

definition Network_update_consensus_state :: "'p \<Rightarrow> ('d eth_network, unit) call" where
  "Network_update_consensus_state consensus_proof = lift_result (Ok ())"

section \<open>The module\<close>

type_synonym 'd ethereum = "(u32 \<times> 'd eth_network) list"

definition Ethereum_step :: "'m eth_lib_scheme \<Rightarrow> signatory_set \<Rightarrow> ('d ethereum, unit) call" where
  "Ethereum_step L active_sigset =
     cbind (\<lambda>eth. for_each_key (Network_step L active_sigset) (map fst eth) eth) (\<lambda>_. lift_result (Ok ()))"

definition Ethereum_take_pending :: "('d ethereum, ('d \<times> u64 \<times> eth_account) list) call" where
  "Ethereum_take_pending =
     cbind (\<lambda>eth. for_each_key Network_take_pending (map fst eth) eth) (\<lambda>pending. lift_result (Ok (concat pending)))"

text \<open>\<open>get_mut(key)?.ok_or_else(...)?\<close>, then the call on what it finds.\<close>

definition at_key_or :: "error \<Rightarrow> 'k \<Rightarrow> ('v, 'a) call \<Rightarrow> (('k \<times> 'v) list, 'a) call" where
  "at_key_or e k f =
     cbind (reads (\<lambda>m. if omap_contains k m then Ok () else Err e)) (\<lambda>_. at_key k f)"

definition Ethereum_relay_return :: "ctx \<Rightarrow> u32 \<Rightarrow> address \<Rightarrow> 'p \<Rightarrow> 'q \<Rightarrow> ('d ethereum, unit) call" where
  "Ethereum_relay_return C network connection consensus_proof state_proof =
     cbind (lift_result (exempt_from_fee C)) (\<lambda>_.
     at_key_or (App ''network not found'') network (
       cbind (Network_update_consensus_state consensus_proof) (\<lambda>_.
       on_connections (at_key_or (App ''connection not found'') connection (lift_result (Ok ()))))))"

definition Ethereum_sign ::
  "'m eth_lib_scheme \<Rightarrow> ctx \<Rightarrow> u32 \<Rightarrow> address \<Rightarrow> u64 \<Rightarrow> pubkey \<Rightarrow> signature \<Rightarrow> ('d ethereum, unit) call" where
  "Ethereum_sign L C network connection msg_index pubkey sig =
     cbind (lift_result (exempt_from_fee C)) (\<lambda>_.
     at_key_or (App ''network not found'') network (
       on_connections (at_key_or (App ''connection not found'') connection (Connection_sign L C msg_index pubkey sig))))"

definition Ethereum_create_connection ::
  "'m eth_lib_scheme \<Rightarrow> u32 \<Rightarrow> address \<Rightarrow> address \<Rightarrow> signatory_set \<Rightarrow> ('d ethereum, unit) call" where
  "Ethereum_create_connection L chain_id bridge_contract token_contract valset =
     at_key_or (App (''Network with chain ID '' @ decimal chain_id @ '' not found'')) chain_id (on_connections (
       cbind (reads (\<lambda>m. if omap_contains bridge_contract m
                then Err (App (''Connection with bridge contract address '' @ address_string L bridge_contract @ '' already exists''))
                else Ok ())) (\<lambda>_.
       cbind (lift_result (Connection_new chain_id bridge_contract token_contract valset)) (\<lambda>connection.
       modify (omap_insert (\<lambda>k. k) bridge_contract connection)))))"

definition Ethereum_network :: "'d ethereum \<Rightarrow> u32 \<Rightarrow> 'd eth_network result" where
  "Ethereum_network eth network = ok_or (App ''Unknown network'') (map_of eth network)"

text \<open>\<open>network_mut(network)?.connection_mut(connection)?\<close>, then the call on the connection.\<close>

definition at_connection :: "u32 \<Rightarrow> address \<Rightarrow> ('d connection, 'a) call \<Rightarrow> ('d ethereum, 'a) call" where
  "at_connection network connection f =
     at_key_or (App ''Unknown network'') network (on_connections (at_key_or (App ''Unknown connection'') connection f))"

text \<open>The messages of a connection that lack the signature of \<open>xpub\<close>, with their hashes.\<close>

definition connection_to_sign ::
  "'m eth_lib_scheme \<Rightarrow> xpub \<Rightarrow> u32 \<Rightarrow> 'd connection \<Rightarrow> (u32 \<times> address \<times> u64 \<times> u32 \<times> message \<times> out_message_args) list result" where
  "connection_to_sign L xpub net_id conn =
     (if co_message_index conn \<noteq> length (co_outbox conn) then Ok []
      else
      rbind (map_result (\<lambda>(i, msg).
          let msg_index = i + 1 in
          rbind (derive_pubkey L xpub (om_sigset_index msg)) (\<lambda>pubkey.
          rbind (Connection_needs_sig conn msg_index pubkey) (\<lambda>needed.
          Ok (if needed then [(net_id, co_bridge_contract conn, msg_index, om_sigset_index msg, ts_message (om_sigs msg), om_msg msg)] else []))))
        (enumerate 0 (co_outbox conn))) (\<lambda>found. Ok (concat found)))"

definition Ethereum_to_sign ::
  "'m eth_lib_scheme \<Rightarrow> 'd ethereum \<Rightarrow> xpub \<Rightarrow> (u32 \<times> address \<times> u64 \<times> u32 \<times> message \<times> out_message_args) list result" where
  "Ethereum_to_sign L eth xpub =
     rbind (map_result (\<lambda>(_, net).
         rbind (map_result (\<lambda>(_, conn). connection_to_sign L xpub (nw_id net) conn) (nw_connections net)) (\<lambda>found. Ok (concat found))) eth)
     (\<lambda>found. Ok (concat found))"

text \<open>The queries, which unwrap both lookups.\<close>

definition query_connection :: "'d ethereum \<Rightarrow> u32 \<Rightarrow> address \<Rightarrow> 'd connection result" where
  "query_connection eth network connection =
     rbind (unwrap (map_of eth network)) (\<lambda>net. unwrap (map_of (nw_connections net) connection))"

definition Ethereum_token_contract :: "'d ethereum \<Rightarrow> u32 \<Rightarrow> address \<Rightarrow> address result" where
  "Ethereum_token_contract eth network connection =
     rbind (query_connection eth network connection) (\<lambda>conn. Ok (co_token_contract conn))"

definition Ethereum_message_index :: "'d ethereum \<Rightarrow> u32 \<Rightarrow> address \<Rightarrow> u64 result" where
  "Ethereum_message_index eth network connection =
     rbind (query_connection eth network connection) (\<lambda>conn. Ok (co_message_index conn))"

definition Ethereum_return_index :: "'d ethereum \<Rightarrow> u32 \<Rightarrow> address \<Rightarrow> u64 result" where
  "Ethereum_return_index eth network connection =
     rbind (query_connection eth network connection) (\<lambda>conn. Ok (co_return_index conn))"

definition Ethereum_signed :: "'d ethereum \<Rightarrow> u32 \<Rightarrow> address \<Rightarrow> u64 \<Rightarrow> bool result" where
  "Ethereum_signed eth network connection msg_index =
     rbind (query_connection eth network connection) (\<lambda>conn.
     rbind (Connection_get conn msg_index) (\<lambda>msg. Ok (ThresholdSig_signed (om_sigs msg))))"

definition Ethereum_msd ::
  "'d ethereum \<Rightarrow> u32 \<Rightarrow> address \<Rightarrow> u64 \<Rightarrow> (message \<times> (pubkey \<times> signature option) list \<times> out_message_args) result" where
  "Ethereum_msd eth network connection msg_index =
     rbind (query_connection eth network connection) (\<lambda>conn.
     rbind (Connection_get conn msg_index) (\<lambda>msg.
     rbind (Connection_get_sigs conn msg_index) (\<lambda>sigs. Ok (ts_message (om_sigs msg), sigs, om_msg msg))))"

text \<open>
  \<open>begin_block\<close> of src/src/app.rs moves the returns into the pending transfers of the checkpoint being
  built, whose map is in the order \<open>order\<close> of its keys.
\<close>

definition insert_eth_pending ::
  "('d \<times> eth_account \<Rightarrow> 'o::linorder) \<Rightarrow> ('d \<times> u64 \<times> eth_account) list \<Rightarrow> (('d \<times> eth_account) \<times> u64) list
     \<Rightarrow> (('d \<times> eth_account) \<times> u64) list" where
  "insert_eth_pending order returns pending =
     fold (\<lambda>(dest, coins, sender). omap_insert order (dest, sender) coins) returns pending"

end
