(* ===== verification/Ethereum_Ledger.thy ===== *)
theory Ethereum_Ledger
  imports Ethereum
begin

text \<open>
  What holds of a connection to Ethereum at every moment of its life: how its messages are numbered,
  whose signatures they carry, and how the nBTC it locks accounts for what its contract may release.
  A connection's life is the inductive relation \<open>conn_reach\<close>.
\<close>

section \<open>The invariants\<close>

text \<open>A signatory set that is fit to be a validator set.\<close>

definition sigset_ok :: "signatory_set \<Rightarrow> bool" where
  "sigset_ok ss \<longleftrightarrow> distinct (map sg_pubkey (ss_signatories ss)) \<and> ss_inv ss"

definition valset_ok :: "signatory_set \<Rightarrow> bool" where
  "valset_ok ss \<longleftrightarrow> distinct (map sg_pubkey (ss_signatories ss))
     \<and> sum_list (map sg_voting_power (ss_signatories ss)) \<le> u32_MAX"

definition msg_value :: "out_message_args \<Rightarrow> nat" where
  "msg_value msg = (case msg of
       Out_Batch transfers _ _ \<Rightarrow> sum_list (map (\<lambda>t. tf_amount t + tf_fee_amount t) transfers)
     | Out_ContractCall _ _ _ _ transfer_amount fee_amount _ \<Rightarrow> transfer_amount + fee_amount
     | Out_UpdateValset _ _ \<Rightarrow> 0)"

definition batch_ids :: "out_message list \<Rightarrow> nat list" where
  "batch_ids msgs = List.map_filter (\<lambda>m. case om_msg m of Out_Batch _ _ n \<Rightarrow> Some n | _ \<Rightarrow> None) msgs"

definition valset_ids :: "out_message list \<Rightarrow> nat list" where
  "valset_ids msgs = List.map_filter (\<lambda>m. case om_msg m of Out_UpdateValset n _ \<Rightarrow> Some n | _ \<Rightarrow> None) msgs"

definition call_number :: "out_message_args \<Rightarrow> nat option" where
  "call_number msg = (case msg of Out_ContractCall _ _ _ _ _ _ n \<Rightarrow> Some n | _ \<Rightarrow> None)"

definition numbering_inv :: "'d connection \<Rightarrow> bool" where
  "numbering_inv conn \<longleftrightarrow> co_message_index conn = max 1 (length (co_outbox conn))
     \<and> batch_ids (co_outbox conn) = [1..<Suc (co_batch_index conn)]
     \<and> valset_ids (co_outbox conn) = [1..<Suc (co_valset_index conn)]
     \<and> (\<forall>i < length (co_outbox conn). call_number (om_msg (co_outbox conn ! i)) \<in> {None, Some (Suc i)})"

text \<open>The signing state of a message: the one of an input, with the threshold of the contract.\<close>

definition eth_ts_inv :: "'m secp_lib_scheme \<Rightarrow> threshold_sig \<Rightarrow> bool" where
  "eth_ts_inv L ts \<longleftrightarrow> ts_threshold ts = ETH_THRESHOLD \<and> total_power (ts_sigs ts) \<le> u32_MAX
     \<and> ts_inv L (ts\<lparr>ts_threshold := threshold_of (total_power (ts_sigs ts))\<rparr>)"

definition msg_signing_inv :: "'m eth_lib_scheme \<Rightarrow> 'd connection \<Rightarrow> out_message \<Rightarrow> bool" where
  "msg_signing_inv L conn m \<longleftrightarrow> eth_ts_inv L (om_sigs m)
     \<and> Connection_message_hash L conn (om_msg m) = Ok (ts_message (om_sigs m))"

definition signing_inv :: "'m eth_lib_scheme \<Rightarrow> 'd connection \<Rightarrow> bool" where
  "signing_inv L conn \<longleftrightarrow> valset_ok (co_valset conn) \<and> list_all (msg_signing_inv L conn) (co_outbox conn)"

definition emergency_inv :: "'d connection \<Rightarrow> bool" where
  "emergency_inv conn \<longleftrightarrow> omap_inv (\<lambda>k. k) (co_emergency_disbursal_balances conn)
     \<and> co_emergency_disbursal_total conn = omap_sum (\<lambda>b. b) (co_emergency_disbursal_balances conn)"

text \<open>
  The books: of the coins \<open>given\<close> to the connection, what is neither locked nor pending was
  \<open>taken\<close>; and what the messages release on Ethereum, less what was \<open>returned\<close>, is locked.
\<close>

definition pending_value :: "('d \<times> u64 \<times> eth_account) list \<Rightarrow> nat" where
  "pending_value pending = sum_list (map (fst \<circ> snd) pending)"

definition outbox_value :: "out_message list \<Rightarrow> nat" where
  "outbox_value msgs = sum_list (map (msg_value \<circ> om_msg) msgs)"

definition books :: "'d connection \<Rightarrow> nat \<Rightarrow> nat \<Rightarrow> nat \<Rightarrow> bool" where
  "books conn given taken returned \<longleftrightarrow> co_coins conn + pending_value (co_pending conn) + taken = given
     \<and> outbox_value (co_outbox conn) = co_coins conn + returned"

section \<open>Validator sets\<close>

lemma normalize_vp_Ok:
  assumes "SignatorySet_normalize_vp total_vp ss = Ok ss'"
  shows "ss_present_vp ss \<noteq> 0 \<and> ss_present_vp ss' = total_vp \<and> ss_index ss' = ss_index ss \<and> ss_create_time ss' = ss_create_time ss
    \<and> ss_possible_vp ss' = ss_possible_vp ss * total_vp div ss_present_vp ss mod 2 ^ 64
    \<and> ss_signatories ss' = map (\<lambda>s. s\<lparr>sg_voting_power := sg_voting_power s * total_vp div ss_present_vp ss mod 2 ^ 64\<rparr>) (ss_signatories ss)"
proof -
  have nz: "ss_present_vp ss \<noteq> 0"
    using assms by (auto simp: SignatorySet_normalize_vp_def adjust_vp_def)
  then have "map_result (\<lambda>s. rbind (adjust_vp total_vp (ss_present_vp ss) (sg_voting_power s)) (\<lambda>n. Ok (s\<lparr>sg_voting_power := n\<rparr>))) (ss_signatories ss)
      = Ok (map (\<lambda>s. s\<lparr>sg_voting_power := sg_voting_power s * total_vp div ss_present_vp ss mod 2 ^ 64\<rparr>) (ss_signatories ss))"
    by (intro map_result_total) (simp add: adjust_vp_def div_u_def)
  with nz assms show ?thesis by (auto simp: SignatorySet_normalize_vp_def adjust_vp_def)
qed

lemma normalize_vp_valset_ok:
  assumes "SignatorySet_normalize_vp u32_MAX ss = Ok ss'" and "sigset_ok ss"
  shows "valset_ok ss'"
proof -
  note n = normalize_vp_Ok [OF assms(1)]
  let ?p = "ss_present_vp ss"
  have "sum_list (map sg_voting_power (ss_signatories ss')) \<le> sum_list (map (\<lambda>s. sg_voting_power s * u32_MAX div ?p) (ss_signatories ss))"
    using n by (auto intro: sum_list_mono simp: o_def)
  also have "\<dots> \<le> sum_list (map (\<lambda>s. sg_voting_power s * u32_MAX) (ss_signatories ss)) div ?p"
    by (rule sum_list_div_le)
  also have "\<dots> = ?p * u32_MAX div ?p"
    using assms(2) by (simp add: sigset_ok_def ss_inv_def sum_list_mult_const)
  also have "\<dots> = u32_MAX" using n by simp
  finally show ?thesis using assms(2) n by (simp add: valset_ok_def sigset_ok_def o_def)
qed

section \<open>Messages\<close>

text \<open>What a message's hash depends on, which no operation changes.\<close>

definition conn_id :: "'d connection \<Rightarrow> u32 \<times> address \<times> address" where
  "conn_id conn = (co_chain_id conn, co_bridge_contract conn, co_token_contract conn)"

lemma message_hash_conn_id:
  "conn_id conn = conn_id conn' \<Longrightarrow> Connection_message_hash L conn msg = Connection_message_hash L conn' msg"
  by (cases msg) (simp_all add: conn_id_def Connection_message_hash_def)

lemma msg_signing_inv_conn_id:
  "conn_id conn = conn_id conn' \<Longrightarrow> msg_signing_inv L conn = msg_signing_inv L conn'"
  by (simp add: msg_signing_inv_def fun_eq_iff message_hash_conn_id [of conn conn'])

lemma signing_inv_cong:
  "conn_id conn = conn_id conn' \<Longrightarrow> co_valset conn = co_valset conn' \<Longrightarrow> co_outbox conn = co_outbox conn' \<Longrightarrow>
    signing_inv L conn = signing_inv L conn'"
  by (simp add: signing_inv_def msg_signing_inv_conn_id [of conn conn'])

lemma eth_ts_inv_fresh:
  assumes "ThresholdSig_from_sigset (sigset_pairs ss) = Ok ts" and "valset_ok ss"
  shows "eth_ts_inv L (ThresholdSig_set_message h (ts\<lparr>ts_threshold := ETH_THRESHOLD\<rparr>))"
proof -
  have d: "distinct (map fst (sigset_pairs ss))" using assms(2) by (simp add: valset_ok_def o_def)
  note i = ThresholdSig_from_sigset_inv [OF assms(1) d]
  have "total_power (ts_sigs ts) = sum_list (map sg_voting_power (ss_signatories ss))"
    unfolding total_power_mset [OF i(4)] total_power_unsigned by (simp add: o_def)
  moreover have "ts_inv L (ThresholdSig_set_message h ts)"
    by (rule ThresholdSig_set_message_inv [OF i(1) ThresholdSig_from_sigset_unsigned [OF assms(1) d]])
  ultimately show ?thesis
    using assms(2) by (simp add: eth_ts_inv_def valset_ok_def ts_inv_def ThresholdSig_set_message_def)
qed

lemma eth_ts_inv_sign:
  assumes "ThresholdSig_sign L pk sg ts = Ok ts'" and "eth_ts_inv L ts"
  shows "eth_ts_inv L ts' \<and> ts_message ts' = ts_message ts"
proof -
  let ?n = "\<lambda>ts. ts\<lparr>ts_threshold := threshold_of (total_power (ts_sigs ts))\<rparr>"
  have "ThresholdSig_sign L pk sg (?n ts) = Ok (?n ts')" and "total_power (ts_sigs ts') = total_power (ts_sigs ts)"
    using assms(1) by (auto simp: ThresholdSig_sign_Ok)
  moreover from this assms(2) have "ts_inv L (?n ts')"
    by (auto simp: eth_ts_inv_def intro: ThresholdSig_sign_inv)
  ultimately show ?thesis using assms by (simp add: eth_ts_inv_def ThresholdSig_sign_frame)
qed

text \<open>The one message that a push appends.\<close>

lemma push_outbox_Ok:
  assumes "Connection_push_outbox L msg conn = (Ok u, conn')" and "co_message_index conn = max 1 (length (co_outbox conn))"
  obtains m where "conn' = conn\<lparr>co_message_index := Suc (length (co_outbox conn)), co_outbox := co_outbox conn @ [m]\<rparr>"
    and "om_msg m = msg" and "valset_ok (co_valset conn) \<Longrightarrow> msg_signing_inv L conn m"
proof -
  from assms(1) obtain h ts where h: "Connection_message_hash L conn msg = Ok h"
    and ts: "ThresholdSig_from_sigset (sigset_pairs (co_valset conn)) = Ok ts"
    and conn': "conn' = conn\<lparr>co_message_index := (if co_outbox conn = [] then co_message_index conn else Suc (co_message_index conn)),
      co_outbox := co_outbox conn @ [\<lparr>om_sigset_index = ss_index (co_valset conn),
        om_sigs = ThresholdSig_set_message h (ts\<lparr>ts_threshold := ETH_THRESHOLD\<rparr>), om_msg = msg\<rparr>]\<rparr>"
    by (auto simp: Connection_push_outbox_def Let_def split: if_splits)
  show thesis
  proof (rule that)
    show "conn' = conn\<lparr>co_message_index := Suc (length (co_outbox conn)), co_outbox := co_outbox conn @ [\<lparr>om_sigset_index = ss_index (co_valset conn),
        om_sigs = ThresholdSig_set_message h (ts\<lparr>ts_threshold := ETH_THRESHOLD\<rparr>), om_msg = msg\<rparr>]\<rparr>"
      unfolding conn' using assms(2) by (cases "co_outbox conn") simp_all
  qed (use h eth_ts_inv_fresh [OF ts] in \<open>simp_all add: msg_signing_inv_def ThresholdSig_set_message_def\<close>)
qed

lemma map_filter_snoc [simp]:
  "List.map_filter f (xs @ [x]) = List.map_filter f xs @ (case f x of None \<Rightarrow> [] | Some y \<Rightarrow> [y])"
  by (induction xs) (auto simp: map_filter_simps split: option.splits)

lemmas msg_ids_simps = batch_ids_def valset_ids_def call_number_def

text \<open>
  Appending a message that takes the next number of its kind keeps the numbering. \<open>b\<close> and \<open>v\<close> say
  whether the counters of batches and of validator sets moved.
\<close>

lemma numbering_inv_snoc:
  assumes "numbering_inv conn"
    and "conn' = conn\<lparr>co_message_index := Suc (length (co_outbox conn)), co_outbox := co_outbox conn @ [m],
           co_batch_index := co_batch_index conn + of_bool b, co_valset_index := co_valset_index conn + of_bool v,
           co_coins := coins, co_valset := vs\<rparr>"
    and "batch_ids [m] = (if b then [Suc (co_batch_index conn)] else [])"
    and "valset_ids [m] = (if v then [Suc (co_valset_index conn)] else [])"
    and "call_number (om_msg m) \<in> {None, Some (Suc (length (co_outbox conn)))}"
  shows "numbering_inv conn'"
proof -
  have "batch_ids (co_outbox conn @ [m]) = batch_ids (co_outbox conn) @ batch_ids [m]"
    "valset_ids (co_outbox conn @ [m]) = valset_ids (co_outbox conn) @ valset_ids [m]"
    by (simp_all add: msg_ids_simps map_filter_simps split: option.splits)
  with assms show ?thesis
    by (auto simp: numbering_inv_def nth_append less_Suc_eq)
qed

section \<open>The operations keep the invariants\<close>

definition conn_inv :: "'m eth_lib_scheme \<Rightarrow> 'd connection \<Rightarrow> nat \<Rightarrow> nat \<Rightarrow> nat \<Rightarrow> bool" where
  "conn_inv L conn given taken returned \<longleftrightarrow>
     numbering_inv conn \<and> signing_inv L conn \<and> emergency_inv conn \<and> books conn given taken returned"

text \<open>A message is issued for the coins it came with.\<close>

lemma issue_inv:
  assumes "conn_inv L conn given taken returned"
    and "Connection_push_outbox L msg (conn\<lparr>co_coins := co_coins conn + n,
           co_batch_index := co_batch_index conn + of_bool b, co_valset_index := co_valset_index conn + of_bool v\<rparr>) = (Ok u, mid)"
    and "conn' = mid\<lparr>co_valset := vs\<rparr>" and "valset_ok vs" and "msg_value msg = n"
    and "\<And>m. om_msg m = msg \<Longrightarrow> batch_ids [m] = (if b then [Suc (co_batch_index conn)] else [])"
    and "\<And>m. om_msg m = msg \<Longrightarrow> valset_ids [m] = (if v then [Suc (co_valset_index conn)] else [])"
    and "call_number msg \<in> {None, Some (Suc (length (co_outbox conn)))}"
  shows "conn_inv L conn' (given + n) taken returned"
proof -
  let ?c = "conn\<lparr>co_coins := co_coins conn + n, co_batch_index := co_batch_index conn + of_bool b,
    co_valset_index := co_valset_index conn + of_bool v\<rparr>"
  have idx: "co_message_index ?c = max 1 (length (co_outbox ?c))"
    using assms(1) by (simp add: conn_inv_def numbering_inv_def)
  obtain m where mid: "mid = ?c\<lparr>co_message_index := Suc (length (co_outbox conn)), co_outbox := co_outbox conn @ [m]\<rparr>"
    and m: "om_msg m = msg" and sig: "valset_ok (co_valset conn) \<Longrightarrow> msg_signing_inv L ?c m"
    by (rule push_outbox_Ok [OF assms(2) idx]) simp_all
  have "numbering_inv conn'"
    by (rule numbering_inv_snoc [where conn = conn and m = m and b = b and v = v and coins = "co_coins conn + n" and vs = vs])
      (use assms m mid in \<open>simp_all add: conn_inv_def\<close>)
  moreover have "conn_id ?c = conn_id conn" "conn_id conn' = conn_id conn"
    using assms(3) mid by (simp_all add: conn_id_def)
  then have "signing_inv L conn'"
    using sig assms(1,3,4) mid msg_signing_inv_conn_id [of conn' conn L] msg_signing_inv_conn_id [of ?c conn L]
    by (simp add: conn_inv_def signing_inv_def)
  moreover have "emergency_inv conn'" "books conn' (given + n) taken returned"
    using assms(1,3,5) mid m by (simp_all add: conn_inv_def emergency_inv_def books_def outbox_value_def)
  ultimately show ?thesis by (simp add: conn_inv_def)
qed

lemma of_bool_noop: "conn\<lparr>co_coins := c, co_batch_index := co_batch_index conn + of_bool False,
    co_valset_index := co_valset_index conn + of_bool False\<rparr> = conn\<lparr>co_coins := c\<rparr>"
  by simp

lemma transfer_inv:
  assumes "coin_law L" and "conn_inv L conn given taken returned"
    and "Connection_transfer L dest amount conn = (Ok u, conn')"
  shows "conn_inv L conn' (given + amount) taken returned"
proof -
  obtain fee where fee: "fee \<le> amount"
    and push: "Connection_push_outbox L (Out_Batch [\<lparr>tf_dest = dest, tf_amount = amount - fee, tf_fee_amount = fee\<rparr>]
        u64_MAX (Suc (co_batch_index conn)))
      (conn\<lparr>co_coins := co_coins conn + amount, co_batch_index := Suc (co_batch_index conn)\<rparr>) = (Ok u, conn')"
    using assms(3) by (auto simp: Connection_transfer_def co_give_def Let_def dest: coin_lawD(2) [OF assms(1)])
  show ?thesis
    by (rule issue_inv [where b = True and v = False and vs = "co_valset conn'" and mid = conn', OF assms(2)])
      (use push fee assms(2) in \<open>auto simp: msg_value_def msg_ids_simps map_filter_simps conn_inv_def signing_inv_def
         Connection_push_outbox_def Let_def\<close>)
qed

lemma call_contract_inv:
  assumes "coin_law L" and "conn_inv L conn given taken returned"
    and "Connection_call_contract L contract_address data max_gas fallback_address coins conn = (Ok u, conn')"
  shows "conn_inv L conn' (given + coins) taken returned"
proof -
  have number: "co_message_index conn + (if co_outbox conn = [] then 0 else 1) = Suc (length (co_outbox conn))"
    using assms(2) by (cases "co_outbox conn") (simp_all add: conn_inv_def numbering_inv_def)
  let ?issue = "\<lambda>fee i. Connection_push_outbox L (Out_ContractCall contract_address data max_gas fallback_address (coins - fee) fee i)
    (conn\<lparr>co_coins := co_coins conn + coins\<rparr>)"
  obtain fee where fee: "fee \<le> coins"
    and "?issue fee (co_message_index conn + (if co_outbox conn = [] then 0 else 1)) = (Ok u, conn')"
    using assms(3) by (force simp: Connection_call_contract_def co_give_def Let_def dest: coin_lawD(2) [OF assms(1)])
  with number have push: "?issue fee (Suc (length (co_outbox conn))) = (Ok u, conn')" by simp
  show ?thesis
    by (rule issue_inv [where b = False and v = False and vs = "co_valset conn'" and mid = conn', OF assms(2)])
      (use push fee assms(2) in \<open>auto simp: msg_value_def msg_ids_simps map_filter_simps conn_inv_def signing_inv_def
         Connection_push_outbox_def Let_def\<close>)
qed

lemma step_inv:
  assumes "conn_inv L conn given taken returned" and "sigset_ok ss" and "Connection_step L ss conn = (Ok u, conn')"
  shows "conn_inv L conn' given taken returned"
proof (cases "conn' = conn")
  case False
  then have "Connection_update_valset L ss conn = (Ok u, conn')"
    using assms(3) by (auto simp: Connection_step_def split: if_splits)
  then obtain ss' mid where ss': "SignatorySet_normalize_vp u32_MAX ss = Ok ss'"
    and push: "Connection_push_outbox L (Out_UpdateValset (Suc (co_valset_index conn)) ss')
      (conn\<lparr>co_valset_index := Suc (co_valset_index conn)\<rparr>) = (Ok (), mid)"
    and conn': "conn' = mid\<lparr>co_valset := ss'\<rparr>"
    by (auto simp: Connection_update_valset_def)
  have "conn_inv L conn' (given + 0) taken returned"
    by (rule issue_inv [where b = False and v = True and vs = ss' and mid = mid, OF assms(1)])
      (use push conn' normalize_vp_valset_ok [OF ss' assms(2)] in \<open>auto simp: msg_value_def msg_ids_simps map_filter_simps\<close>)
  then show ?thesis by simp
qed (use assms(1) in simp)

lemma take_pending_inv:
  assumes "conn_inv L conn given taken returned" and "Connection_take_pending conn = (Ok pending, conn')"
  shows "conn_inv L conn' given (taken + pending_value pending) returned"
  using assms signing_inv_cong [of "conn\<lparr>co_pending := []\<rparr>" conn L]
  by (auto simp: Connection_take_pending_def conn_inv_def numbering_inv_def emergency_inv_def
      books_def pending_value_def conn_id_def)

lemma abs_index_eq:
  assumes "numbering_inv conn" and "length (co_outbox conn) < 2 ^ 64 - 1"
  shows "Connection_abs_index conn i =
    (if 1 \<le> i \<and> i \<le> length (co_outbox conn) then Ok (i - 1) else Err (App ''message index out of bounds''))"
  using assms by (cases "co_outbox conn") (auto simp: Connection_abs_index_def numbering_inv_def add_w_def sub_u_def)

lemma abs_index_Ok:
  assumes "numbering_inv conn" and "Connection_abs_index conn i = Ok j"
  shows "i = Suc j \<and> j < length (co_outbox conn)"
  using assms by (cases "co_outbox conn") (auto simp: Connection_abs_index_def numbering_inv_def)

text \<open>Replacing the signing state of one message.\<close>

lemma replace_sigs_inv:
  assumes "conn_inv L conn given taken returned" and "j < length (co_outbox conn)"
    and "eth_ts_inv L ts" and "ts_message ts = ts_message (om_sigs (co_outbox conn ! j))"
  shows "conn_inv L (conn\<lparr>co_outbox := (co_outbox conn)[j := (co_outbox conn ! j)\<lparr>om_sigs := ts\<rparr>]\<rparr>) given taken returned"
proof -
  let ?out = "(co_outbox conn)[j := (co_outbox conn ! j)\<lparr>om_sigs := ts\<rparr>]"
  have msgs: "map om_msg ?out = map om_msg (co_outbox conn)"
    by (rule nth_equalityI) (simp_all add: nth_list_update assms(2))
  have ids: "batch_ids xs = List.map_filter (\<lambda>msg. case msg of Out_Batch _ _ n \<Rightarrow> Some n | _ \<Rightarrow> None) (map om_msg xs)"
    "valset_ids xs = List.map_filter (\<lambda>msg. case msg of Out_UpdateValset n _ \<Rightarrow> Some n | _ \<Rightarrow> None) (map om_msg xs)" for xs
    by (simp_all add: msg_ids_simps List.map_filter_def filter_map o_def)
  have "outbox_value ?out = outbox_value (co_outbox conn)"
    unfolding outbox_value_def map_map [symmetric] msgs ..
  moreover have "om_msg (?out ! i) = om_msg (co_outbox conn ! i)" if "i < length (co_outbox conn)" for i
    using arg_cong [OF msgs, of "\<lambda>xs. xs ! i"] that by simp
  moreover have "msg_signing_inv L conn ((co_outbox conn ! j)\<lparr>om_sigs := ts\<rparr>)"
    using assms by (simp add: conn_inv_def signing_inv_def list_all_length msg_signing_inv_def)
  then have "list_all (msg_signing_inv L conn) ?out"
    using assms(1,2) by (auto simp: conn_inv_def signing_inv_def list_all_length nth_list_update)
  ultimately show ?thesis
    using assms(1) msgs msg_signing_inv_conn_id [of "conn\<lparr>co_outbox := ?out\<rparr>" conn L]
    by (simp add: conn_inv_def numbering_inv_def signing_inv_def emergency_inv_def books_def ids conn_id_def)
qed

lemma sign_inv:
  assumes "conn_inv L conn given taken returned" and "Connection_sign L C i pk sg conn = (Ok u, conn')"
  shows "conn_inv L conn' given taken returned"
proof -
  from assms(2) obtain j ts where j: "Connection_abs_index conn i = Ok j"
    and ts: "ThresholdSig_sign L pk sg (om_sigs (co_outbox conn ! j)) = Ok ts"
    and conn': "conn' = conn\<lparr>co_outbox := (co_outbox conn)[j := (co_outbox conn ! j)\<lparr>om_sigs := ts\<rparr>]\<rparr>"
    by (auto simp: Connection_sign_def Connection_get_def)
  have lt: "j < length (co_outbox conn)" using abs_index_Ok [OF _ j] assms(1) by (simp add: conn_inv_def)
  then have "eth_ts_inv L (om_sigs (co_outbox conn ! j))"
    using assms(1) by (simp add: conn_inv_def signing_inv_def list_all_length msg_signing_inv_def)
  with replace_sigs_inv [OF assms(1) lt] eth_ts_inv_sign [OF ts] show ?thesis unfolding conn' by blast
qed

lemma process_returns_inv:
  assumes "coin_law L"
  shows "conn_inv L conn given taken returned \<Longrightarrow> process_returns L parse network ds conn = (Ok u, conn') \<Longrightarrow>
    conn_inv L conn' given taken (returned + sum_list (map bd_amount ds))
    \<and> co_return_index conn' = co_return_index conn + length ds
    \<and> map bd_index ds = [co_return_index conn..<co_return_index conn + length ds]"
proof (induction ds arbitrary: conn given returned)
  case (Cons d ds)
  let ?n = "bd_amount d"
  from Cons.prems(2) obtain mid where idx: "bd_index d = co_return_index conn" and coins: "?n \<le> co_coins conn"
    and mid: "(case parse (bd_dest d) of
         Some dest \<Rightarrow> modify (\<lambda>conn. conn\<lparr>co_pending := co_pending conn @
           [(dest, ?n, \<lparr>ea_network = network, ea_connection = co_bridge_contract conn, ea_address = bd_sender d\<rparr>)]\<rparr>)
       | None \<Rightarrow> Connection_transfer L (bd_sender d) ?n) (conn\<lparr>co_coins := co_coins conn - ?n\<rparr>) = (Ok (), mid)"
    and rest: "process_returns L parse network ds (mid\<lparr>co_return_index := Suc (co_return_index mid)\<rparr>) = (Ok u, conn')"
    by (auto split: if_splits dest!: coin_lawD(1) [OF assms])
  have frame: "conn_inv L (c\<lparr>co_return_index := k\<rparr>) = conn_inv L c" for c :: "'d connection" and k
    using signing_inv_cong [of "c\<lparr>co_return_index := k\<rparr>" c L]
    by (auto intro!: ext simp: conn_inv_def numbering_inv_def emergency_inv_def books_def conn_id_def)
  have "conn_inv L mid given taken (returned + ?n) \<and> co_return_index mid = co_return_index conn"
  proof (cases "parse (bd_dest d)")
    case None
    have "conn_inv L (conn\<lparr>co_coins := co_coins conn - ?n\<rparr>) (given - ?n) taken (returned + ?n) \<and> ?n \<le> given"
      using Cons.prems(1) coins signing_inv_cong [of "conn\<lparr>co_coins := co_coins conn - ?n\<rparr>" conn L]
      by (simp add: conn_inv_def numbering_inv_def emergency_inv_def books_def conn_id_def)
    with None mid transfer_inv [OF assms, of "conn\<lparr>co_coins := co_coins conn - ?n\<rparr>" "given - ?n" taken "returned + ?n" "bd_sender d" ?n "()" mid]
    show ?thesis by (auto simp: Connection_transfer_def co_give_def Connection_push_outbox_def Let_def)
  next
    case (Some dest)
    with mid Cons.prems(1) coins signing_inv_cong [of mid conn L] show ?thesis
      by (auto simp: conn_inv_def numbering_inv_def emergency_inv_def books_def conn_id_def pending_value_def)
  qed
  with Cons.IH [OF _ rest, of given "returned + ?n"] idx show ?case
    by (auto simp: frame upt_rec add.assoc)
qed simp

lemma adjust_emergency_inv:
  assumes "conn_inv L conn given taken returned"
    and "Connection_adjust_emergency_disbursal_balance script difference conn = (Ok u, conn')"
  shows "conn_inv L conn' given taken returned \<and> co_emergency_disbursal_total conn' \<le> co_coins conn'"
proof -
  let ?m = "co_emergency_disbursal_balances conn"
  let ?m1 = "if omap_contains script ?m then ?m else omap_insert (\<lambda>k. k) script 0 ?m"
  let ?old = "old_value (\<lambda>b. b) (map_of ?m script)"
  from assms(2) have eq: "conn' = conn\<lparr>co_emergency_disbursal_balances := omap_insert (\<lambda>k. k) script (nat (int ?old + difference)) ?m1,
        co_emergency_disbursal_total := nat (int (co_emergency_disbursal_total conn) + difference)\<rparr>"
    and ok: "0 \<le> int ?old + difference" "0 \<le> int (co_emergency_disbursal_total conn) + difference"
      "int (co_emergency_disbursal_total conn) + difference \<le> int (co_coins conn)"
    by (auto simp: Connection_adjust_emergency_disbursal_balance_def add_signed_def Let_def omap_contains_def
        split: if_splits option.splits)
  have inv: "omap_inv (\<lambda>k. k) ?m" "co_emergency_disbursal_total conn = omap_sum (\<lambda>b. b) ?m"
    using assms(1) by (simp_all add: conn_inv_def emergency_inv_def)
  have i1: "omap_inv (\<lambda>k. k) ?m1" "omap_sum (\<lambda>b. b) ?m1 = omap_sum (\<lambda>b. b) ?m" "map_of ?m1 script = Some ?old"
    using omap_inv_insert [of "\<lambda>k. k" ?m script 0] omap_sum_insert [of "\<lambda>k. k" ?m "\<lambda>b. b" script 0] inv
    by (auto simp: omap_contains_def split: option.splits)
  have "omap_sum (\<lambda>b. b) (omap_insert (\<lambda>k. k) script (nat (int ?old + difference)) ?m1) + ?old
      = omap_sum (\<lambda>b. b) ?m + nat (int ?old + difference)"
    using omap_sum_insert [of "\<lambda>k. k" ?m1 "\<lambda>b. b" script "nat (int ?old + difference)"] i1 by simp
  then have "omap_sum (\<lambda>b. b) (omap_insert (\<lambda>k. k) script (nat (int ?old + difference)) ?m1)
      = nat (int (omap_sum (\<lambda>b. b) ?m) + difference)"
    using ok inv(2) by linarith
  then have "emergency_inv conn'"
    using omap_inv_insert [OF _ i1(1), of script] inv(2) by (simp add: eq emergency_inv_def inj_on_def)
  with assms(1) ok(3) signing_inv_cong [of conn' conn L] show ?thesis
    by (simp add: eq conn_inv_def numbering_inv_def books_def conn_id_def)
qed

section \<open>The life of a connection\<close>

text \<open>
  The states that a connection can be in: the totals are the coins given with transfers and contract
  calls, taken out of the pending queue, and returned from Ethereum. A failed call leaves no state,
  since its transaction is dropped.
\<close>

inductive conn_reach :: "'m eth_lib_scheme \<Rightarrow> 'n trie_lib_scheme \<Rightarrow> 'd connection \<Rightarrow> nat \<Rightarrow> nat \<Rightarrow> nat \<Rightarrow> bool" for L T where
  reach_new: "sigset_ok ss \<Longrightarrow> Connection_new chain_id bridge_contract token_contract ss = Ok conn \<Longrightarrow> conn_reach L T conn 0 0 0"
| reach_step: "conn_reach L T conn g t r \<Longrightarrow> sigset_ok ss \<Longrightarrow> Connection_step L ss conn = (Ok (), conn') \<Longrightarrow> conn_reach L T conn' g t r"
| reach_transfer: "conn_reach L T conn g t r \<Longrightarrow> Connection_transfer L dest n conn = (Ok (), conn') \<Longrightarrow> conn_reach L T conn' (g + n) t r"
| reach_call: "conn_reach L T conn g t r \<Longrightarrow> Connection_call_contract L contract data max_gas fallback n conn = (Ok (), conn') \<Longrightarrow>
    conn_reach L T conn' (g + n) t r"
| reach_take: "conn_reach L T conn g t r \<Longrightarrow> Connection_take_pending conn = (Ok pending, conn') \<Longrightarrow>
    conn_reach L T conn' g (t + pending_value pending) r"
| reach_sign: "conn_reach L T conn g t r \<Longrightarrow> Connection_sign L C i pk sg conn = (Ok (), conn') \<Longrightarrow> conn_reach L T conn' g t r"
| reach_return: "conn_reach L T conn g t r \<Longrightarrow> StateProof_verify T root pr = Ok ds \<Longrightarrow>
    Connection_relay_return L T parse C network root pr conn = (Ok (), conn') \<Longrightarrow>
    conn_reach L T conn' g t (r + sum_list (map bd_amount ds))"
| reach_adjust: "conn_reach L T conn g t r \<Longrightarrow> Connection_adjust_emergency_disbursal_balance script difference conn = (Ok (), conn') \<Longrightarrow>
    conn_reach L T conn' g t r"

lemma relay_return_Ok:
  "Connection_relay_return L T parse C network root pr conn = (Ok u, conn') \<Longrightarrow>
    \<exists>ds. StateProof_verify T root pr = Ok ds \<and> process_returns L parse network ds conn = (Ok u, conn')"
  by (auto simp: Connection_relay_return_def split: if_splits)

lemma reach_inv:
  assumes "conn_reach L T conn g t r" and "coin_law L"
  shows "conn_inv L conn g t r"
  using assms
proof (induction rule: conn_reach.induct)
  case (reach_new ss chain_id bridge_contract token_contract conn)
  from reach_new(2) obtain ss' where ss': "SignatorySet_normalize_vp u32_MAX ss = Ok ss'" and conn: "co_valset conn = ss'"
    "co_outbox conn = []" "co_pending conn = []" "co_coins conn = 0" "co_message_index conn = 1" "co_batch_index conn = 0"
    "co_valset_index conn = 0" "co_emergency_disbursal_total conn = 0" "co_emergency_disbursal_balances conn = []"
    by (auto simp: Connection_new_def)
  then show ?case using normalize_vp_valset_ok [OF ss' reach_new(1)]
    by (simp add: conn_inv_def numbering_inv_def signing_inv_def emergency_inv_def books_def msg_ids_simps map_filter_simps
        pending_value_def outbox_value_def)
next
  case (reach_return conn g t r root pr ds parse C network conn')
  then have "process_returns L parse network ds conn = (Ok (), conn')" by (auto dest: relay_return_Ok)
  with reach_return show ?case using process_returns_inv by blast
qed (blast dest: step_inv transfer_inv call_contract_inv take_pending_inv sign_inv adjust_emergency_inv)+

text \<open>
  The messages of a connection are numbered without a gap. Message \<open>i\<close> of the outbox is found
  under the index \<open>i\<close>, counting from one, and every other index is an error; batches and validator sets
  carry consecutive numbers, and a contract call carries its own index, the number that makes it unique
  to the contract.
\<close>

theorem eth_messages_numbered:
  assumes "conn_reach L T conn given taken returned" and "coin_law L" and "length (co_outbox conn) < 2 ^ 64 - 1"
  shows "Connection_get conn i = (if 1 \<le> i \<and> i \<le> length (co_outbox conn) then Ok (co_outbox conn ! (i - 1))
      else Err (App ''message index out of bounds''))
    \<and> batch_ids (co_outbox conn) = [1..<Suc (co_batch_index conn)]
    \<and> valset_ids (co_outbox conn) = [1..<Suc (co_valset_index conn)]
    \<and> (\<forall>m n. Connection_get conn i = Ok m \<and> call_number (om_msg m) = Some n \<longrightarrow> n = i)"
proof -
  have inv: "numbering_inv conn" using reach_inv [OF assms(1,2)] by (simp add: conn_inv_def)
  then have get: "Connection_get conn i = (if 1 \<le> i \<and> i \<le> length (co_outbox conn) then Ok (co_outbox conn ! (i - 1))
      else Err (App ''message index out of bounds''))"
    using assms(3) by (auto simp: Connection_get_def abs_index_eq)
  have "call_number (om_msg (co_outbox conn ! (i - 1))) \<in> {None, Some i}" if "1 \<le> i" "i \<le> length (co_outbox conn)"
    using inv that by (auto simp: numbering_inv_def dest: spec [of _ "i - 1"])
  with inv get show ?thesis by (auto simp: numbering_inv_def split: if_splits)
qed

text \<open>
  C25: the books of a connection balance. Of all the nBTC that transfers and contract calls gave it, what
  was not taken out of its pending queue is still locked or pending; and the nBTC locked in it is what
  its messages release on Ethereum less what was returned from there, so the tokens of the contract are
  backed. The total of the emergency disbursal is the sum of its balances.
\<close>

theorem eth_coins_backed:
  assumes "conn_reach L T conn given taken returned" and "coin_law L"
  shows "co_coins conn + pending_value (co_pending conn) + taken = given
    \<and> outbox_value (co_outbox conn) = co_coins conn + returned
    \<and> co_emergency_disbursal_total conn = omap_sum (\<lambda>b. b) (co_emergency_disbursal_balances conn)"
  using reach_inv [OF assms] by (simp add: conn_inv_def books_def emergency_inv_def)

text \<open>
  C26: a message that counts as signed holds valid signatures, on the hash of exactly this message for
  this contract, by distinct keys that have more than two thirds of the voting power of its validator
  set; the contract's threshold is measured on the same scale.
\<close>

theorem eth_signed_by_two_thirds:
  assumes "conn_reach L T conn given taken returned" and "coin_law L"
    and "Connection_get conn i = Ok m" and "ThresholdSig_signed (om_sigs m)"
  shows "\<exists>h. Connection_message_hash L conn (om_msg m) = Ok h
    \<and> distinct (map fst (ts_sigs (om_sigs m))) \<and> list_all (share_verified L h) (ts_sigs (om_sigs m))
    \<and> signed_power (ts_sigs (om_sigs m)) > ETH_THRESHOLD
    \<and> 3 * signed_power (ts_sigs (om_sigs m)) > 2 * total_power (ts_sigs (om_sigs m))"
proof -
  have "m \<in> set (co_outbox conn)" using assms(3) by (auto simp: Connection_get_def)
  then have m: "msg_signing_inv L conn m"
    using reach_inv [OF assms(1,2)] by (auto simp: conn_inv_def signing_inv_def list_all_iff)
  then have ts: "ts_inv L ((om_sigs m)\<lparr>ts_threshold := threshold_of (total_power (ts_sigs (om_sigs m)))\<rparr>)"
    and pw: "ts_threshold (om_sigs m) = ETH_THRESHOLD" "total_power (ts_sigs (om_sigs m)) \<le> u32_MAX"
    by (simp_all add: msg_signing_inv_def eth_ts_inv_def)
  from ts have "signed_power (ts_sigs (om_sigs m)) = ts_signed (om_sigs m)" "distinct (map fst (ts_sigs (om_sigs m)))"
    "list_all (share_verified L (ts_message (om_sigs m))) (ts_sigs (om_sigs m))"
    by (auto simp: ts_inv_def intro: omap_inv_distinct)
  with m pw assms(4) show ?thesis
    by (auto simp: msg_signing_inv_def ThresholdSig_signed_def ETH_THRESHOLD_def u32_MAX_def)
qed

text \<open>
  One more call on a connection, whichever it is, and what a relayed list of returns adds to the pending queue: an
  entry for each return whose destination can be read, with its amount and the account that sent it.
\<close>

inductive conn_step :: "'m eth_lib_scheme \<Rightarrow> 'n trie_lib_scheme \<Rightarrow> 'd connection \<Rightarrow> 'd connection \<Rightarrow> bool" for L T where
  conn_step_step: "sigset_ok ss \<Longrightarrow> Connection_step L ss conn = (Ok (), conn') \<Longrightarrow> conn_step L T conn conn'"
| conn_step_transfer: "Connection_transfer L dest n conn = (Ok (), conn') \<Longrightarrow> conn_step L T conn conn'"
| conn_step_call: "Connection_call_contract L contract data max_gas fallback n conn = (Ok (), conn') \<Longrightarrow> conn_step L T conn conn'"
| conn_step_take: "Connection_take_pending conn = (Ok pending, conn') \<Longrightarrow> conn_step L T conn conn'"
| conn_step_sign: "Connection_sign L C i pk sg conn = (Ok (), conn') \<Longrightarrow> conn_step L T conn conn'"
| conn_step_return: "Connection_relay_return L T parse C network root pr conn = (Ok (), conn') \<Longrightarrow> conn_step L T conn conn'"
| conn_step_adjust: "Connection_adjust_emergency_disbursal_balance script difference conn = (Ok (), conn') \<Longrightarrow> conn_step L T conn conn'"

definition returned_coins :: "(string \<Rightarrow> 'd option) \<Rightarrow> u32 \<Rightarrow> address \<Rightarrow> bridge_contract_data list \<Rightarrow> ('d \<times> u64 \<times> eth_account) list" where
  "returned_coins parse network contract ds = List.map_filter (\<lambda>d. map_option (\<lambda>dest.
     (dest, bd_amount d, \<lparr>ea_network = network, ea_connection = contract, ea_address = bd_sender d\<rparr>)) (parse (bd_dest d))) ds"

lemma transfer_frame:
  "Connection_transfer L dest n conn = (Ok u, conn') \<Longrightarrow> co_return_index conn' = co_return_index conn
    \<and> co_pending conn' = co_pending conn \<and> co_bridge_contract conn' = co_bridge_contract conn"
  by (auto simp: Connection_transfer_def co_give_def Connection_push_outbox_def Let_def)

lemma process_returns_pending:
  assumes "coin_law L"
  shows "process_returns L parse network ds conn = (Ok u, conn') \<Longrightarrow>
    co_pending conn' = co_pending conn @ returned_coins parse network (co_bridge_contract conn) ds"
proof (induction ds arbitrary: conn)
  case (Cons d ds)
  from Cons.prems obtain mid where mid: "(case parse (bd_dest d) of
         Some dest \<Rightarrow> modify (\<lambda>conn. conn\<lparr>co_pending := co_pending conn @
           [(dest, bd_amount d, \<lparr>ea_network = network, ea_connection = co_bridge_contract conn, ea_address = bd_sender d\<rparr>)]\<rparr>)
       | None \<Rightarrow> Connection_transfer L (bd_sender d) (bd_amount d)) (conn\<lparr>co_coins := co_coins conn - bd_amount d\<rparr>) = (Ok (), mid)"
    and rest: "process_returns L parse network ds (mid\<lparr>co_return_index := Suc (co_return_index mid)\<rparr>) = (Ok u, conn')"
    by (auto split: if_splits dest!: coin_lawD(1) [OF assms])
  from Cons.IH [OF rest] mid show ?case
    by (auto simp: returned_coins_def map_filter_simps split: option.splits dest!: transfer_frame)
qed (simp add: returned_coins_def map_filter_simps)

text \<open>No call moves a connection back to a return that it has passed.\<close>

lemma conn_step_reach:
  assumes "conn_step L T conn conn'" and "conn_reach L T conn g t r" and "coin_law L"
  shows "co_return_index conn \<le> co_return_index conn' \<and> (\<exists>g t r. conn_reach L T conn' g t r)"
  using assms
proof (induction rule: conn_step.induct)
  case (conn_step_return parse C network root pr conn conn')
  then obtain ds where "StateProof_verify T root pr = Ok ds" "process_returns L parse network ds conn = (Ok (), conn')"
    using relay_return_Ok by blast
  with conn_step_return process_returns_inv [OF conn_step_return(3) reach_inv [OF conn_step_return(2,3)]] reach_return
  show ?case by (metis le_add1)
next
  case (conn_step_step ss conn conn')
  moreover from this have "co_return_index conn' = co_return_index conn"
    by (auto simp: Connection_step_def Connection_update_valset_def Connection_push_outbox_def Let_def split: if_splits)
  ultimately show ?case using reach_step by fastforce
next
  case (conn_step_call contract data max_gas fallback n conn conn')
  moreover from this have "co_return_index conn' = co_return_index conn"
    by (auto simp: Connection_call_contract_def co_give_def Connection_push_outbox_def Let_def)
  ultimately show ?case using reach_call by fastforce
next
  case (conn_step_sign C i pk sg conn conn')
  moreover from this have "co_return_index conn' = co_return_index conn" by (auto simp: Connection_sign_def)
  ultimately show ?case using reach_sign by fastforce
next
  case (conn_step_adjust script difference conn conn')
  moreover from this have "co_return_index conn' = co_return_index conn"
    by (auto simp: Connection_adjust_emergency_disbursal_balance_def split: if_splits)
  ultimately show ?case using reach_adjust by fastforce
next
  case (conn_step_transfer dest n conn conn')
  then show ?case using transfer_frame reach_transfer by fastforce
next
  case (conn_step_take conn pending conn')
  then show ?case using reach_take by (fastforce simp: Connection_take_pending_def)
qed

lemma conn_steps_reach:
  assumes "(conn_step L T)\<^sup>*\<^sup>* conn conn'" and "conn_reach L T conn g t r" and "coin_law L"
  shows "co_return_index conn \<le> co_return_index conn' \<and> (\<exists>g t r. conn_reach L T conn' g t r)"
  using assms
proof (induction rule: rtranclp_induct)
  case (step mid conn')
  then show ?case using conn_step_reach [OF step.hyps(2) _ assms(3)] by (meson le_trans)
qed blast

text \<open>
  C27: a return from Ethereum is credited at most once, in order, and only with a proof. A relay that succeeds carries
  returns whose amount, sender and destination the trie proves to be in the storage of the account named by the proof,
  under the keys of their indices. Their indices follow the last return credited, without a gap; each adds one entry to
  the pending queue (or, when its destination cannot be read, goes back to its sender), and the connection moves past
  all of them. Whatever calls come after it, a relay that succeeds later credits none of these indices again.
\<close>

theorem eth_return_never_replayed:
  assumes "conn_reach L T conn given taken returned" and "coin_law L"
    and "Connection_relay_return L T parse C network root pr conn = (Ok (), conn')"
  shows "\<exists>ds. StateProof_verify T root pr = Ok ds \<and> length ds = length (sp_storage_proofs pr)
    \<and> (\<forall>i < length ds. return_proven T root pr i (ds ! i))
    \<and> map bd_index ds = [co_return_index conn..<co_return_index conn']
    \<and> co_return_index conn' = co_return_index conn + length ds
    \<and> co_pending conn' = co_pending conn @ returned_coins parse network (co_bridge_contract conn) ds
    \<and> (\<forall>later parse' C' network' root' pr' ds' after. (conn_step L T)\<^sup>*\<^sup>* conn' later \<and> StateProof_verify T root' pr' = Ok ds'
         \<and> Connection_relay_return L T parse' C' network' root' pr' later = (Ok (), after) \<longrightarrow>
         set (map bd_index ds) \<inter> set (map bd_index ds') = {})"
proof -
  obtain ds where ds: "StateProof_verify T root pr = Ok ds" "process_returns L parse network ds conn = (Ok (), conn')"
    using relay_return_Ok [OF assms(3)] by auto
  note first = process_returns_inv [OF assms(2) reach_inv [OF assms(1,2)] ds(2)]
  have later: "set (map bd_index ds) \<inter> set (map bd_index ds') = {}"
    if steps: "(conn_step L T)\<^sup>*\<^sup>* conn' later" and ds': "StateProof_verify T root' pr' = Ok ds'"
      and relay: "Connection_relay_return L T parse' C' network' root' pr' later = (Ok (), after)"
    for later parse' C' network' root' pr' ds' "after"
  proof -
    have "conn_reach L T conn' given taken (returned + sum_list (map bd_amount ds))"
      by (rule reach_return [OF assms(1) ds(1) assms(3)])
    from conn_steps_reach [OF steps this assms(2)] obtain g t r where
      le: "co_return_index conn' \<le> co_return_index later" and reach: "conn_reach L T later g t r" by blast
    have "process_returns L parse' network' ds' later = (Ok (), after)" using relay_return_Ok [OF relay] ds' by simp
    from process_returns_inv [OF assms(2) reach_inv [OF reach assms(2)] this] first le show ?thesis by fastforce
  qed
  have "\<forall>later parse' C' network' root' pr' ds' after. (conn_step L T)\<^sup>*\<^sup>* conn' later \<and> StateProof_verify T root' pr' = Ok ds'
         \<and> Connection_relay_return L T parse' C' network' root' pr' later = (Ok (), after) \<longrightarrow>
         set (map bd_index ds) \<inter> set (map bd_index ds') = {}"
    using later by blast
  then show ?thesis using ds first StateProof_verify_proven [OF ds(1)] process_returns_pending [OF assms(2) ds(2)]
    by (intro exI [of _ ds] conjI) (assumption | simp)+
qed

section \<open>Failures\<close>

lemma message_hash_Err: "Connection_message_hash L conn msg = Err e \<Longrightarrow> e = Panic"
proof -
  have tag: "unwrap_res r = Err e \<Longrightarrow> e = Panic" for r :: "bytes result" and e
    by (cases r) (auto simp: unwrap_res_def)
  have addr: "map_result (\<lambda>s. unwrap (f s)) xs = Err e \<Longrightarrow> e = Panic" for f :: "signatory \<Rightarrow> address option" and xs e
    by (induction xs) (auto simp: rbind_eq_Err)
  show "Connection_message_hash L conn msg = Err e \<Longrightarrow> e = Panic"
    by (cases msg) (auto simp: Connection_message_hash_def rbind_eq_Err batch_hash_def call_hash_def checkpoint_hash_def
        SignatorySet_eth_addresses_def dest: tag addr)
qed

lemma push_outbox_Err: "Connection_push_outbox L msg conn = (Err e, conn') \<Longrightarrow> e = Panic"
  by (auto simp: Connection_push_outbox_def cbind_Err Let_def ThresholdSig_from_sigset_eq add_w_def
      dest: message_hash_Err split: if_splits)

text \<open>
  Sending to Ethereum is all or nothing: a transfer or a contract call that returns an error leaves
  the connection as it was, which \<open>try_credit_dest\<close> relies on when it gives the coins back to the
  sender. The one exception is a panic, which ends the block.
\<close>

theorem eth_send_fails_clean:
  "(Connection_transfer L dest n conn = (Err e, conn') \<and> e \<noteq> Panic \<longrightarrow> conn' = conn)
   \<and> (Connection_call_contract L contract_address data max_gas fallback_address n conn = (Err e, conn') \<and> e \<noteq> Panic \<longrightarrow> conn' = conn)"
proof -
  have arith: "add_u64 a b = Err e \<Longrightarrow> e = Panic" for a b e
    by (simp add: add_w_def split: if_splits)
  show ?thesis
    by (auto simp: Connection_transfer_def Connection_call_contract_def cbind_Err co_give_def Let_def
        dest: push_outbox_Err arith)
qed

section \<open>Normalized voting power\<close>

lemma sum_list_div_gt:
  assumes "xs \<noteq> []" and "0 < (d::nat)"
  shows "sum_list (map f xs) < d * (sum_list (map (\<lambda>x. f x div d) xs) + length xs)"
  using assms(1)
proof (induction xs)
  case (Cons x xs)
  have "f x < d * (f x div d + 1)"
    using dividend_less_div_times [OF assms(2), of "f x"] by (simp add: algebra_simps)
  moreover have "sum_list (map f xs) \<le> d * (sum_list (map (\<lambda>x. f x div d) xs) + length xs)"
    using Cons.IH by (cases "xs = []") auto
  ultimately show ?case by (simp add: algebra_simps)
qed simp

text \<open>
  Normalizing keeps the validators and their order, scales each voting power to its share of
  \<open>u32::MAX\<close> rounded down, and loses less than one unit per validator: the sum is at most
  \<open>u32::MAX\<close> and less than the number of validators below it.
\<close>

theorem normalize_vp_bounds:
  assumes "sigset_ok ss" and "SignatorySet_normalize_vp u32_MAX ss = Ok ss'"
  shows "map sg_pubkey (ss_signatories ss') = map sg_pubkey (ss_signatories ss)
    \<and> map sg_voting_power (ss_signatories ss') = map (\<lambda>s. sg_voting_power s * u32_MAX div ss_present_vp ss) (ss_signatories ss)
    \<and> sum_list (map sg_voting_power (ss_signatories ss')) \<le> u32_MAX
    \<and> u32_MAX < sum_list (map sg_voting_power (ss_signatories ss')) + length (ss_signatories ss')"
proof -
  let ?p = "ss_present_vp ss" and ?xs = "ss_signatories ss"
  note n = normalize_vp_Ok [OF assms(2)]
  have sum: "sum_list (map sg_voting_power ?xs) = ?p" using assms(1) by (simp add: sigset_ok_def ss_inv_def)
  have small: "sg_voting_power s * u32_MAX div ?p mod 2 ^ 64 = sg_voting_power s * u32_MAX div ?p" if "s \<in> set ?xs" for s
  proof -
    have "sg_voting_power s \<le> ?p" using that member_le_sum_list [of "sg_voting_power s" "map sg_voting_power ?xs"] sum by simp
    then have "sg_voting_power s * u32_MAX div ?p \<le> ?p * u32_MAX div ?p" by (intro div_le_mono mult_le_mono1)
    then show ?thesis using n by (simp add: u32_MAX_def)
  qed
  have vps: "map sg_voting_power (ss_signatories ss') = map (\<lambda>s. sg_voting_power s * u32_MAX div ?p) ?xs"
    using n small by simp
  have "?xs \<noteq> []" using sum n by auto
  from sum_list_div_gt [OF this, of ?p "\<lambda>s. sg_voting_power s * u32_MAX"]
  have "?p * u32_MAX < ?p * (sum_list (map sg_voting_power (ss_signatories ss')) + length ?xs)"
    using n sum unfolding vps by (simp add: sum_list_mult_const)
  then show ?thesis using n vps normalize_vp_valset_ok [OF assms(2,1)] by (simp add: valset_ok_def o_def)
qed

section \<open>All networks\<close>

lemma for_each_key_total:
  assumes "\<And>k v. (k, v) \<in> set ys \<Longrightarrow> f v = (Ok (g v), h v)" and "distinct (map fst (xs @ ys))"
  shows "for_each_key f (map fst ys) (xs @ ys) = (Ok (map (g \<circ> snd) ys), xs @ map (apsnd h) ys)"
  using assms
proof (induction ys arbitrary: xs)
  case (Cons y ys)
  obtain k v where y: "y = (k, v)" by (cases y)
  have other: "omap_modify k (\<lambda>_. v') m = m" if "k \<notin> fst ` set m" for v' :: 'b and m
    using that by (force simp: omap_modify_def intro!: map_idI)
  have "map_of xs k = None" using Cons.prems(2) y by (simp add: map_of_eq_None_iff)
  then have "map_of (xs @ y # ys) k = Some v" using y by (simp add: map_add_def)
  moreover have "omap_modify k (\<lambda>_. h v) (xs @ y # ys) = (xs @ [(k, h v)]) @ ys"
    using Cons.prems(2) y other [of xs "h v"] other [of ys "h v"] by (simp add: omap_modify_def)
  ultimately have "at_key k f (xs @ y # ys) = (Ok (g v), (xs @ [(k, h v)]) @ ys)"
    using Cons.prems(1) [of k v] y by (simp add: at_key_def)
  moreover have "for_each_key f (map fst ys) ((xs @ [(k, h v)]) @ ys) = (Ok (map (g \<circ> snd) ys), (xs @ [(k, h v)]) @ map (apsnd h) ys)"
    by (rule Cons.IH) (use Cons.prems y in auto)
  ultimately show ?case using y by (simp add: call_defs)
qed (simp add: call_defs)

lemmas for_each_key_all = for_each_key_total [where xs = "[]", simplified]

definition eth_wf :: "'d ethereum \<Rightarrow> bool" where
  "eth_wf eth \<longleftrightarrow> distinct (map fst eth) \<and> (\<forall>net \<in> snd ` set eth. distinct (map fst (nw_connections net)))"

lemma Network_take_pending_all:
  assumes "distinct (map fst (nw_connections net))"
  shows "Network_take_pending net = (Ok (concat (map (co_pending \<circ> snd) (nw_connections net))),
    net\<lparr>nw_connections := map (apsnd (co_pending_update (\<lambda>_. []))) (nw_connections net)\<rparr>)"
  using for_each_key_all [of "nw_connections net" Connection_take_pending co_pending "co_pending_update (\<lambda>_. [])"] assms
  by (simp add: Network_take_pending_def on_connections_def cbind_def lift_result_def Connection_take_pending_def)

text \<open>
  The application takes every pending return of every connection of every network, in the order of
  networks, connections and arrival, and each is taken once: the queues are empty afterwards and
  nothing else has changed.
\<close>

theorem eth_take_pending_exact:
  assumes "eth_wf eth"
  shows "Ethereum_take_pending eth =
    (Ok (concat (map (\<lambda>(_, net). concat (map (co_pending \<circ> snd) (nw_connections net))) eth)),
     map (apsnd (nw_connections_update (map (apsnd (co_pending_update (\<lambda>_. [])))))) eth)"
proof -
  let ?g = "\<lambda>net. concat (map (co_pending \<circ> snd) (nw_connections net))"
  let ?h = "nw_connections_update (map (apsnd (co_pending_update (\<lambda>_. []))))"
  have "for_each_key Network_take_pending (map fst eth) eth = (Ok (map (?g \<circ> snd) eth), map (apsnd ?h) eth)"
    by (rule for_each_key_all) (use assms in \<open>force simp: eth_wf_def Network_take_pending_all\<close>)+
  then show ?thesis by (simp add: Ethereum_take_pending_def cbind_def lift_result_def split_def o_def)
qed

text \<open>
  The transfer of the returns into a checkpoint replaces a pending transfer with the same destination and
  sender instead of adding to it: of two such returns only the second is kept.
\<close>

lemma eth_pending_overwritten:
  assumes "inj order" and "omap_inv order pending"
  shows "map_of (insert_eth_pending order [(dest, a, sender), (dest, b, sender)] pending) (dest, sender) = Some b
    \<and> omap_sum (\<lambda>n. n) (insert_eth_pending order [(dest, a, sender), (dest, b, sender)] pending)
        + old_value (\<lambda>n. n) (map_of pending (dest, sender)) = omap_sum (\<lambda>n. n) pending + b"
proof -
  let ?p = "omap_insert order (dest, sender) a pending"
  have "omap_sum (\<lambda>n. n) ?p + old_value (\<lambda>n. n) (map_of pending (dest, sender)) = omap_sum (\<lambda>n. n) pending + a"
    by (rule omap_sum_insert [OF assms])
  moreover have "omap_sum (\<lambda>n. n) (omap_insert order (dest, sender) b ?p) + a = omap_sum (\<lambda>n. n) ?p + b"
    using omap_sum_insert [OF assms(1) omap_inv_insert [OF assms], of "\<lambda>n. n" "(dest, sender)" b "(dest, sender)" a] by simp
  ultimately show ?thesis by (simp add: insert_eth_pending_def)
qed

section \<open>A connection at work\<close>

text \<open>One validator, one transfer, its signature and one return.\<close>

definition demo_eth_lib :: eth_lib where
  "demo_eth_lib = tx_lib.extend demo_flat_lib
     \<lparr>dest_encode = dest_encode demo_dest_lib, pending_order = pending_order demo_dest_lib, sha256 = sha256 demo_dest_lib,
      encode_string8 = encode_string8 demo_dest_lib, encode_signer = encode_signer demo_dest_lib,
      encode_u64 = encode_u64 demo_dest_lib, parse_address = parse_address demo_dest_lib,
      parse_channel = Some, parse_port = Some,
      extract_matches = (\<lambda>b. Some ([], [b])), is_op_return = (\<lambda>s. s = [106]), xpub_encode = xp_public_key,
      validator_entries = ok_or (App ''none''), consensus_key_of = (\<lambda>_ a. Ok (Some a)),
      coin_take = (\<lambda>h n. if n \<le> h then Ok (n, h - n) else Err (Coins ''Insufficient funds'')),
      coin_give = add_u64, amount_add = add_u64,
      acc_withdraw = (\<lambda>a n bal. if n \<le> bal a then Ok (bal(a := bal a - n)) else Err (Coins ''Insufficient funds'')),
      acc_deposit = (\<lambda>a n bal. rbind (add_u64 (bal a) n) (\<lambda>m. Ok (bal(a := m)))), paid_take = Ok,
      keccak256 = (\<lambda>_. replicate 32 0), abi_encode_params = (\<lambda>_. []), eth_address = Some,
      address_string = (\<lambda>_. WHITELISTED_RELAYER_ADDR)\<rparr>"

lemma demo_eth_sel [simp]:
  "coin_take demo_eth_lib = (\<lambda>h n. if n \<le> h then Ok (n, h - n) else Err (Coins ''Insufficient funds''))"
  "coin_give demo_eth_lib = add_u64" "amount_add demo_eth_lib = add_u64" "keccak256 demo_eth_lib = (\<lambda>_. replicate 32 0)"
  "acc_withdraw demo_eth_lib = (\<lambda>a n bal. if n \<le> bal a then Ok (bal(a := bal a - n)) else Err (Coins ''Insufficient funds''))"
  "acc_deposit demo_eth_lib = (\<lambda>a n bal. rbind (add_u64 (bal a) n) (\<lambda>m. Ok (bal(a := m))))"
  "address_string demo_eth_lib = (\<lambda>_. WHITELISTED_RELAYER_ADDR)"
  by (simp_all add: demo_eth_lib_def demo_flat_lib_def tx_lib.defs script_lib.defs)

lemma demo_eth_law: "coin_law demo_eth_lib"
  by (auto simp: coin_law_def split: if_splits)

definition demo_eth_msg :: "signature option \<Rightarrow> out_message" where
  "demo_eth_msg sg = \<lparr>om_sigset_index = 4,
     om_sigs = \<lparr>ts_threshold = ETH_THRESHOLD, ts_signed = (if sg = None then 0 else u32_MAX), ts_message = replicate 32 0,
       ts_len = 1, ts_sigs = [([2], \<lparr>sh_power = u32_MAX, sh_sig = sg\<rparr>)]\<rparr>,
     om_msg = Out_Batch [\<lparr>tf_dest = [9], tf_amount = 7200000000, tf_fee_amount = 12800000000\<rparr>] u64_MAX 1\<rparr>"

definition demo_conn :: "u64 \<Rightarrow> u64 \<Rightarrow> u64 \<Rightarrow> out_message list \<Rightarrow> (nat \<times> u64 \<times> eth_account) list \<Rightarrow> nat connection" where
  "demo_conn bindex rindex coins outbox pending =
     \<lparr>co_chain_id = 1, co_bridge_contract = [7], co_token_contract = [8],
      co_valset_interval = VALSET_INTERVAL, co_message_index = 1, co_batch_index = bindex, co_valset_index = 0,
      co_return_index = rindex, co_emergency_disbursal_total = 0, co_emergency_disbursal_balances = [],
      co_outbox = outbox, co_pending = pending, co_coins = coins,
      co_valset = demo_small_ss\<lparr>ss_signatories := [\<lparr>sg_voting_power = u32_MAX, sg_pubkey = [2]\<rparr>],
        ss_possible_vp := u32_MAX, ss_present_vp := u32_MAX\<rparr>\<rparr>"

lemma demo_eth_new: "Connection_new 1 [7] [8] demo_small_ss = Ok (demo_conn 0 0 0 [] [])"
  by (simp add: Connection_new_def SignatorySet_normalize_vp_def adjust_vp_def div_u_def demo_small_ss_def u32_MAX_def demo_conn_def)

lemma demo_sigset_ok: "sigset_ok demo_small_ss"
  by (simp add: sigset_ok_def ss_inv_def demo_small_ss_def MAX_SIGNATORIES_def)

lemma demo_not_null [simp]: "[b] \<noteq> Address_NULL"
  by (auto simp: Address_NULL_def dest: arg_cong [of _ _ length])

lemma demo_eth_transfer: "Connection_transfer demo_eth_lib [9] 20000000000 (demo_conn 0 0 0 [] [])
    = (Ok (), demo_conn 1 0 20000000000 [demo_eth_msg None] [])"
  by (simp add: Connection_transfer_def Connection_validate_transfer_def APPROX_TRANSFER_GAS_def GAS_PRICE_def mul_w_def sub_u_def
      co_give_def Let_def call_defs add_w_def Connection_push_outbox_def Connection_message_hash_def batch_hash_def
      bytes32_def unwrap_res_def byte_literal_def sighash_def ThresholdSig_from_sigset_eq demo_conn_def demo_eth_msg_def
      ThresholdSig_set_message_def u32_MAX_def u64_MAX_def)

lemma demo_eth_sign: "Connection_sign demo_eth_lib demo_cq_ctx 1 [2] [2] (demo_conn 1 0 20000000000 [demo_eth_msg None] [])
    = (Ok (), demo_conn 1 0 20000000000 [demo_eth_msg (Some [2])] [])"
  by (simp add: Connection_sign_def exempt_from_fee_def demo_cq_ctx_def demo_ctx_def Connection_abs_index_def Connection_get_def
      demo_conn_def call_defs add_w_def sub_u_def ThresholdSig_sign_def ThresholdSig_verify_def demo_eth_msg_def Let_def
      omap_modify_def demo_eth_lib_def demo_flat_lib_def demo_keys_lib_def tx_lib.defs script_lib.defs u32_MAX_def)

text \<open>A trie that hands out the first node of a proof, and a proof of one return of 500.\<close>

definition demo_trie_lib :: trie_lib where
  "demo_trie_lib = \<lparr>keccak_256 = (\<lambda>_. []), trie_get = (\<lambda>_ _ proofs. Inr (Some (hd proofs))), rlp_account = Inr,
     rlp_address = Inr, rlp_u64 = (\<lambda>bs. Some (fold (\<lambda>b n. 256 * n + unat b) bs 0)),
     rlp_string = (\<lambda>_. Inr [])\<rparr>"

definition demo_state_proof :: state_proof where
  "demo_state_proof = \<lparr>sp_address = [7], sp_start_index = 0, sp_account_proof = [[]],
     sp_storage_proofs = [[[[]], [[1, 244]], [[5]]]]\<rparr>"

lemma demo_verify: "StateProof_verify demo_trie_lib [] demo_state_proof
    = Ok [\<lparr>bd_dest = [], bd_amount = 500, bd_sender = [5], bd_index = 0\<rparr>]"
  by (simp add: StateProof_verify_def demo_state_proof_def demo_trie_lib_def verify_key_def or_relayer_def or_panic_def
      verify_index_def read_dest_def from_big_endian_def length_vec_def add_w_def)

definition demo_relayer_ctx :: ctx where
  "demo_relayer_ctx = demo_cq_ctx\<lparr>cx_signer := Some (Some [1])\<rparr>"

lemma demo_eth_return: "Connection_relay_return demo_eth_lib demo_trie_lib (\<lambda>_. Some 3) demo_relayer_ctx 1 [] demo_state_proof
      (demo_conn 1 0 20000000000 [demo_eth_msg (Some [2])] [])
    = (Ok (), demo_conn 1 1 19999999500 [demo_eth_msg (Some [2])]
        [(3, 500, \<lparr>ea_network = 1, ea_connection = [7], ea_address = [5]\<rparr>)])"
  by (simp add: Connection_relay_return_def exempt_from_fee_def demo_relayer_ctx_def demo_cq_ctx_def demo_ctx_def demo_verify
      call_defs demo_conn_def add_w_def)

abbreviation demo_signed_conn :: "nat connection" where
  "demo_signed_conn \<equiv> demo_conn 1 0 20000000000 [demo_eth_msg (Some [2])] []"

abbreviation demo_returned_conn :: "nat connection" where
  "demo_returned_conn \<equiv> demo_conn 1 1 19999999500 [demo_eth_msg (Some [2])]
     [(3, 500, \<lparr>ea_network = 1, ea_connection = [7], ea_address = [5]\<rparr>)]"

lemma demo_signed_reach: "conn_reach demo_eth_lib demo_trie_lib demo_signed_conn 20000000000 0 0"
  using reach_sign [OF reach_transfer [OF reach_new [OF demo_sigset_ok demo_eth_new] demo_eth_transfer] demo_eth_sign] by simp

lemma demo_returned_reach: "conn_reach demo_eth_lib demo_trie_lib demo_returned_conn 20000000000 0 500"
  using reach_return [OF demo_signed_reach demo_verify demo_eth_return] by simp

theorem eth_messages_numbered_witness:
  "Connection_get demo_signed_conn 1 = Ok (demo_eth_msg (Some [2]))
    \<and> Connection_get demo_signed_conn 0 = Err (App ''message index out of bounds'')"
  using eth_messages_numbered [OF demo_signed_reach demo_eth_law, of 1] eth_messages_numbered [OF demo_signed_reach demo_eth_law, of 0]
  by (simp add: demo_conn_def)

theorem eth_coins_backed_witness:
  "co_coins demo_returned_conn + pending_value (co_pending demo_returned_conn) = 20000000000
    \<and> outbox_value (co_outbox demo_returned_conn) = co_coins demo_returned_conn + 500"
  using eth_coins_backed [OF demo_returned_reach demo_eth_law] by simp

theorem eth_signed_by_two_thirds_witness:
  "\<exists>h. Connection_message_hash demo_eth_lib demo_signed_conn (om_msg (demo_eth_msg (Some [2]))) = Ok h
    \<and> list_all (share_verified demo_eth_lib h) [([2], \<lparr>sh_power = u32_MAX, sh_sig = Some [2]\<rparr>)]"
proof -
  have "Connection_get demo_signed_conn 1 = Ok (demo_eth_msg (Some [2]))"
    by (simp add: Connection_get_def Connection_abs_index_def demo_conn_def add_w_def sub_u_def)
  moreover have "ThresholdSig_signed (om_sigs (demo_eth_msg (Some [2])))"
    by (simp add: demo_eth_msg_def ThresholdSig_signed_def ETH_THRESHOLD_def u32_MAX_def)
  ultimately show ?thesis
    using eth_signed_by_two_thirds [OF demo_signed_reach demo_eth_law] by (fastforce simp: demo_eth_msg_def)
qed

theorem eth_return_never_replayed_witness:
  "return_proven demo_trie_lib [] demo_state_proof 0 \<lparr>bd_dest = [], bd_amount = 500, bd_sender = [5], bd_index = 0\<rparr>
    \<and> (\<nexists>later after. (conn_step demo_eth_lib demo_trie_lib)\<^sup>*\<^sup>* demo_returned_conn later
        \<and> Connection_relay_return demo_eth_lib demo_trie_lib (\<lambda>_. Some 3) demo_relayer_ctx 1 [] demo_state_proof later = (Ok (), after))"
proof -
  let ?d = "\<lparr>bd_dest = [], bd_amount = 500, bd_sender = [5], bd_index = 0\<rparr>"
  from eth_return_never_replayed [OF demo_signed_reach demo_eth_law demo_eth_return] obtain ds where
    ds: "StateProof_verify demo_trie_lib [] demo_state_proof = Ok ds"
    and proven: "\<forall>i < length ds. return_proven demo_trie_lib [] demo_state_proof i (ds ! i)"
    and once: "\<forall>later parse' C' network' root' pr' ds' after. (conn_step demo_eth_lib demo_trie_lib)\<^sup>*\<^sup>* demo_returned_conn later
         \<and> StateProof_verify demo_trie_lib root' pr' = Ok ds'
         \<and> Connection_relay_return demo_eth_lib demo_trie_lib parse' C' network' root' pr' later = (Ok (), after) \<longrightarrow>
         set (map bd_index ds) \<inter> set (map bd_index ds') = {}"
    by blast
  have eq: "ds = [?d]" using ds demo_verify by simp
  have False if "(conn_step demo_eth_lib demo_trie_lib)\<^sup>*\<^sup>* demo_returned_conn later"
    "Connection_relay_return demo_eth_lib demo_trie_lib (\<lambda>_. Some 3) demo_relayer_ctx 1 [] demo_state_proof later = (Ok (), after)"
    for later "after"
    using once that demo_verify eq by fastforce
  with proven eq show ?thesis by auto
qed

theorem eth_send_fails_clean_witness:
  "Connection_transfer demo_eth_lib [9] 5 demo_signed_conn = (Err (App ''Insufficient funds for fee''), demo_signed_conn)"
proof -
  have "fst (Connection_transfer demo_eth_lib [9] 5 demo_signed_conn) = Err (App ''Insufficient funds for fee'')"
    by (simp add: Connection_transfer_def Connection_validate_transfer_def APPROX_TRANSFER_GAS_def GAS_PRICE_def call_defs mul_w_def)
  moreover obtain conn' where "Connection_transfer demo_eth_lib [9] 5 demo_signed_conn = (Err (App ''Insufficient funds for fee''), conn')"
    using calculation by (metis prod.collapse)
  ultimately show ?thesis using eth_send_fails_clean [of demo_eth_lib "[9]" 5 demo_signed_conn "App ''Insufficient funds for fee''" conn'] by simp
qed

theorem normalize_vp_bounds_witness:
  "\<exists>ss'. SignatorySet_normalize_vp u32_MAX demo_small_ss = Ok ss' \<and> u32_MAX < sum_list (map sg_voting_power (ss_signatories ss')) + 1"
proof -
  obtain ss' where "SignatorySet_normalize_vp u32_MAX demo_small_ss = Ok ss'" "length (ss_signatories ss') = 1"
    by (simp add: SignatorySet_normalize_vp_def adjust_vp_def div_u_def demo_small_ss_def)
  with normalize_vp_bounds [OF demo_sigset_ok, of ss'] show ?thesis by auto
qed

theorem eth_take_pending_exact_witness:
  "fst (Ethereum_take_pending [(1, \<lparr>nw_id = 1, nw_connections = [([7], demo_returned_conn)]\<rparr>)])
     = Ok [(3, 500, \<lparr>ea_network = 1, ea_connection = [7], ea_address = [5]\<rparr>)]"
  using eth_take_pending_exact [of "[(1, \<lparr>nw_id = 1, nw_connections = [([7], demo_returned_conn)]\<rparr>)]"]
  by (simp add: eth_wf_def demo_conn_def)

end
