(* ===== verification/Float64.thy ===== *)
theory Float64
  imports Prelude "HOL-Library.Log_Nat"
begin

text \<open>
  The type \<open>f64\<close> of the language, as far as the rates of the signer need it: finite numbers as
  rationals, the infinities and NaN. Every operation rounds its exact result to 53 significant bits, to
  the even neighbour when two are as near. The sign of a zero is not kept: the zeros that are divided by are
  conversions of unsigned integers.
\<close>

section \<open>Rounding\<close>

datatype f64 = Fin rat | PosInf | NegInf | NaN

text \<open>The exponent of a positive number: the power of two at or below it.\<close>

definition exponent_of :: "rat \<Rightarrow> int" where
  "exponent_of x =
     (let (p, q) = quotient_of x; e = bitlen p - bitlen q in
      if 2 powi e \<le> x then e else e - 1)"

text \<open>The distance of two neighbours, at least that of the subnormal numbers.\<close>

definition ulp :: "rat \<Rightarrow> rat" where
  "ulp x = 2 powi max (exponent_of x - 52) (- 1074)"

definition nearest_even :: "rat \<Rightarrow> int" where
  "nearest_even x =
     (let n = \<lfloor>x\<rfloor>; r = x - of_int n in
      if r < 1 / 2 \<or> r = 1 / 2 \<and> even n then n else n + 1)"

definition round_pos :: "rat \<Rightarrow> rat" where
  "round_pos x = of_int (nearest_even (x / ulp x)) * ulp x"

definition f64_round :: "rat \<Rightarrow> f64" where
  "f64_round x =
     (if x = 0 then Fin 0
      else let r = round_pos \<bar>x\<bar> in
        if 2 ^ 1024 \<le> r then (if x < 0 then NegInf else PosInf)
        else Fin (if x < 0 then - r else r))"

section \<open>Operations\<close>

text \<open>\<open>n as f64\<close> of an unsigned integer.\<close>

definition f64_of_nat :: "nat \<Rightarrow> f64" where
  "f64_of_nat n = f64_round (of_nat n)"

fun f64_neg :: "f64 \<Rightarrow> f64" where
  "f64_neg (Fin x) = Fin (- x)"
| "f64_neg PosInf = NegInf"
| "f64_neg NegInf = PosInf"
| "f64_neg NaN = NaN"

fun f64_add :: "f64 \<Rightarrow> f64 \<Rightarrow> f64" where
  "f64_add (Fin x) (Fin y) = f64_round (x + y)"
| "f64_add NaN y = NaN"
| "f64_add x NaN = NaN"
| "f64_add PosInf NegInf = NaN"
| "f64_add NegInf PosInf = NaN"
| "f64_add (Fin x) y = y"
| "f64_add x y = x"

definition f64_sub :: "f64 \<Rightarrow> f64 \<Rightarrow> f64" where
  "f64_sub x y = f64_add x (f64_neg y)"

definition f64_inf :: "bool \<Rightarrow> f64" where
  "f64_inf pos = (if pos then PosInf else NegInf)"

fun f64_div :: "f64 \<Rightarrow> f64 \<Rightarrow> f64" where
  "f64_div (Fin x) (Fin y) =
     (if y \<noteq> 0 then f64_round (x / y) else if x = 0 then NaN else f64_inf (x > 0))"
| "f64_div NaN y = NaN"
| "f64_div x NaN = NaN"
| "f64_div (Fin x) y = Fin 0"
| "f64_div PosInf (Fin y) = f64_inf (y \<ge> 0)"
| "f64_div NegInf (Fin y) = f64_inf (y < 0)"
| "f64_div x y = NaN"

fun f64_mul :: "f64 \<Rightarrow> f64 \<Rightarrow> f64" where
  "f64_mul (Fin x) (Fin y) = f64_round (x * y)"
| "f64_mul NaN y = NaN"
| "f64_mul x NaN = NaN"
| "f64_mul (Fin x) y = (if x = 0 then NaN else f64_inf ((x > 0) = (y = PosInf)))"
| "f64_mul x (Fin y) = (if y = 0 then NaN else f64_inf ((y > 0) = (x = PosInf)))"
| "f64_mul x y = f64_inf (x = y)"

fun f64_gt :: "f64 \<Rightarrow> f64 \<Rightarrow> bool" where
  "f64_gt (Fin x) (Fin y) \<longleftrightarrow> x > y"
| "f64_gt NaN y \<longleftrightarrow> False"
| "f64_gt x NaN \<longleftrightarrow> False"
| "f64_gt PosInf y \<longleftrightarrow> y \<noteq> PosInf"
| "f64_gt NegInf y \<longleftrightarrow> False"
| "f64_gt x y \<longleftrightarrow> y = NegInf"

text \<open>\<open>x as u16\<close>: towards zero, saturating, and zero for NaN.\<close>

fun f64_as_u16 :: "f64 \<Rightarrow> u16" where
  "f64_as_u16 (Fin x) = min (nat \<lfloor>x\<rfloor>) (2 ^ 16 - 1)"
| "f64_as_u16 PosInf = 2 ^ 16 - 1"
| "f64_as_u16 x = 0"

section \<open>The error of rounding\<close>

lemma exponent_of_le:
  assumes "0 < x"
  shows "2 powi exponent_of x \<le> x"
proof -
  obtain p q where pq: "quotient_of x = (p, q)" by fastforce
  then have x: "x = of_int p / of_int q" and q: "0 < q" by (auto simp: quotient_of_div quotient_of_denom_pos)
  then have p: "0 < p" using assms by (simp add: zero_less_divide_iff)
  let ?e = "bitlen p - bitlen q"
  have bits: "1 \<le> bitlen p" using p by (simp add: bitlen_alt_def)
  have "2 ^ nat (bitlen p - 1) \<le> p" "q < 2 ^ nat (bitlen q)" using bitlen_bounds p q by auto
  then have "(2::rat) ^ nat (bitlen p - 1) \<le> of_int p" "of_int q < (2::rat) ^ nat (bitlen q)"
    by (metis of_int_le_iff of_int_numeral of_int_power, metis of_int_less_iff of_int_numeral of_int_power)
  then have "(2::rat) powi (bitlen p - 1) \<le> of_int p" "of_int q \<le> (2::rat) powi bitlen q"
    using bits bitlen_nonneg [of q] by (simp_all add: power_int_def)
  then have "(2::rat) powi (bitlen p - 1) / 2 powi bitlen q \<le> x" unfolding x using p q by (intro frac_le) auto
  then have "2 powi (?e - 1) \<le> x" by (simp add: power_int_diff power_int_add algebra_simps)
  then show ?thesis by (simp add: exponent_of_def pq Let_def)
qed

lemma nearest_even_error: "\<bar>of_int (nearest_even x) - x\<bar> \<le> 1 / 2"
proof -
  have "of_int \<lfloor>x\<rfloor> \<le> x" "x < of_int \<lfloor>x\<rfloor> + 1" by linarith+
  then show ?thesis by (auto simp: nearest_even_def Let_def abs_le_iff)
qed

text \<open>Rounding moves a normal number by at most one part in \<open>2 ^ 53\<close>.\<close>

lemma round_pos_error:
  assumes "2 powi (- 1022) \<le> x"
  shows "\<bar>round_pos x - x\<bar> \<le> x / 2 ^ 53"
proof -
  have "(0::rat) < 2 powi (- 1022)" by simp
  with assms have x: "0 < x" by linarith
  have "ulp x \<le> x / 2 ^ 52"
  proof (cases "exponent_of x - 52 \<le> - 1074")
    case True
    then have "ulp x = 2 powi (- 1022) / 2 ^ 52" by (simp add: ulp_def power_int_def max_def power_divide)
    then show ?thesis using assms by (simp add: divide_right_mono)
  next
    case False
    then have "ulp x = 2 powi exponent_of x / 2 powi 52" by (simp add: ulp_def power_int_diff)
    then show ?thesis using exponent_of_le [OF x] by (simp add: divide_right_mono)
  qed
  moreover have pos: "0 < ulp x" by (simp add: ulp_def)
  have "\<bar>round_pos x - x\<bar> = \<bar>of_int (nearest_even (x / ulp x)) - x / ulp x\<bar> * ulp x"
    using pos by (simp add: round_pos_def field_simps abs_mult_pos)
  then have "\<bar>round_pos x - x\<bar> \<le> 1 / 2 * ulp x"
    using nearest_even_error [of "x / ulp x"] pos by (metis mult_right_mono order_less_imp_le)
  ultimately show ?thesis by (simp add: field_simps)
qed

lemma exponent_of_less:
  assumes "0 < n" and "n < 2 ^ k"
  shows "exponent_of (of_int n) < int k"
proof (rule ccontr)
  assume "\<not> exponent_of (of_int n) < int k"
  then have "(2::rat) powi int k \<le> 2 powi exponent_of (of_int n)" by (intro power_int_increasing) auto
  also have "\<dots> \<le> of_int n" using assms(1) by (intro exponent_of_le) simp
  finally have "(2::rat) ^ k \<le> of_int n" by (simp add: power_int_def)
  then show False using assms(2) by (metis not_le of_int_le_iff of_int_numeral of_int_power)
qed

lemma exponent_of_nonneg:
  assumes "0 < n"
  shows "0 \<le> exponent_of (of_int n)"
proof -
  have "2 powi (bitlen n - 1) \<le> (of_int n :: rat)"
    using bitlen_bounds [OF assms] assms by (simp add: power_int_def bitlen_alt_def)
  then show ?thesis using assms by (auto simp: exponent_of_def Let_def bitlen_alt_def)
qed

text \<open>Integers of at most 53 bits are exact.\<close>

lemma round_pos_int:
  assumes "0 < n" and "n < 2 ^ 53"
  shows "round_pos (of_int n) = of_int n"
proof -
  let ?e = "exponent_of (of_int n)"
  have e: "0 \<le> ?e" "?e \<le> 52" using exponent_of_nonneg [OF assms(1)] exponent_of_less [OF assms] by auto
  then have u: "ulp (of_int n) = 1 / 2 ^ nat (52 - ?e)" by (simp add: ulp_def max_def power_int_def power_divide)
  then have "of_int n / ulp (of_int n) = of_int (n * 2 ^ nat (52 - ?e))" by simp
  then have "nearest_even (of_int n / ulp (of_int n)) = n * 2 ^ nat (52 - ?e)"
    unfolding nearest_even_def by (simp del: of_int_mult)
  with u show ?thesis by (simp add: round_pos_def)
qed

lemma f64_of_nat_exact: "n < 2 ^ 53 \<Longrightarrow> f64_of_nat n = Fin (of_nat n)"
  using round_pos_int [of "int n"] by (auto simp: f64_of_nat_def f64_round_def Let_def)

section \<open>Basis points\<close>

text \<open>\<open>n as f64 / 10_000.0\<close>; a limit that is written as a decimal number of basis points is the same value.\<close>

definition f64_bps :: "u16 \<Rightarrow> f64" where
  "f64_bps n = f64_div (f64_of_nat n) (Fin 10000)"

lemma f64_bps_Fin:
  assumes "n < 2 ^ 16"
  obtains r where "f64_bps n = Fin r" "\<bar>r - of_nat n / 10000\<bar> \<le> of_nat n / 10000 / 2 ^ 53"
proof (cases "n = 0")
  case True
  with that [of 0] show ?thesis using f64_of_nat_exact [of 0] by (simp add: f64_bps_def f64_round_def)
next
  case False
  let ?x = "of_nat n / 10000 :: rat"
  have "(2::rat) powi (- 1022) \<le> 2 powi (- 14)" by (intro power_int_increasing) auto
  also have "\<dots> \<le> 1 / 10000" by (simp add: power_int_def power_divide)
  also have "\<dots> \<le> ?x" using False by (simp add: divide_right_mono)
  finally have r: "\<bar>round_pos ?x - ?x\<bar> \<le> ?x / 2 ^ 53" by (rule round_pos_error)
  have n: "(of_nat n :: rat) < 2 ^ 16" using assms by (metis of_nat_less_iff of_nat_numeral of_nat_power)
  then have "\<not> 2 ^ 1024 \<le> round_pos ?x" using r by (auto simp: abs_le_iff field_simps)
  with False n assms f64_of_nat_exact [of n] have "f64_bps n = Fin (round_pos ?x)" by (simp add: f64_bps_def f64_round_def Let_def)
  with that r show ?thesis by blast
qed

lemma f64_bps_less:
  assumes "m < n" and "n < 2 ^ 16" and "f64_bps m = Fin r" and "f64_bps n = Fin s"
  shows "r < s"
proof -
  have m: "m < 2 ^ 16" using assms(1,2) by linarith
  from f64_bps_Fin [OF m] have "\<bar>r - of_nat m / 10000\<bar> \<le> of_nat m / 10000 / 2 ^ 53" using assms(3) by (metis f64.inject)
  then have r: "r \<le> of_nat m / 10000 + of_nat m / 10000 / 2 ^ 53" by linarith
  from f64_bps_Fin [OF assms(2)] have "\<bar>s - of_nat n / 10000\<bar> \<le> of_nat n / 10000 / 2 ^ 53" using assms(4) by (metis f64.inject)
  then have s: "of_nat n / 10000 - of_nat n / 10000 / 2 ^ 53 \<le> s" by linarith
  have b: "(of_nat m :: rat) + 1 \<le> of_nat n" "(of_nat m :: rat) \<le> 2 ^ 16" "(of_nat n :: rat) \<le> 2 ^ 16"
  proof -
    have "of_nat (Suc m) \<le> (of_nat n :: rat)" "of_nat m \<le> (of_nat (2 ^ 16) :: rat)" "of_nat n \<le> (of_nat (2 ^ 16) :: rat)"
      using assms(1,2) m by (simp_all only: of_nat_le_iff)
    then show "(of_nat m :: rat) + 1 \<le> of_nat n" "(of_nat m :: rat) \<le> 2 ^ 16" "(of_nat n :: rat) \<le> 2 ^ 16" by simp_all
  qed
  then have "of_nat m / 10000 + of_nat m / 10000 / 2 ^ 53 < (of_nat n :: rat) / 10000 - of_nat n / 10000 / 2 ^ 53" by simp
  with r s show ?thesis by linarith
qed

text \<open>Rates in basis points compare as the integers do, rounding notwithstanding.\<close>

lemma f64_bps_gt:
  assumes "m < 2 ^ 16" and "n < 2 ^ 16"
  shows "f64_gt (f64_bps m) (f64_bps n) \<longleftrightarrow> m > n"
proof -
  obtain r s where rs: "f64_bps m = Fin r" "f64_bps n = Fin s" using f64_bps_Fin assms by metis
  show ?thesis
    using f64_bps_less [OF _ assms(2) rs] f64_bps_less [OF _ assms(1) rs(2,1)] rs by (cases m n rule: linorder_cases) auto
qed

end
