(* ===== verification/Signer.thy ===== *)
theory Signer
  imports Recovery Bitcoin_Module Script_Semantics Float64
begin

text \<open>
  The signer of checkpoints (src/src/bitcoin/signer.rs), a process that each signatory runs beside the
  chain, and the rates of change that it limits (\<open>Bitcoin::change_rates\<close> in src/src/bitcoin/mod.rs). A
  signer asks the chain several questions before it submits its signatures, and the chain moves on
  between them: the state that the n-th question of an attempt reads is \<open>view n\<close>. The private keys of the
  bitcoin crate are a parameter, the record \<open>key_lib\<close>.
\<close>

section \<open>Rates of change\<close>

record ChangeRates =
  cr_withdrawal :: u16
  cr_sigset_change :: u16

definition ChangeRates_default :: ChangeRates where
  "ChangeRates_default = \<lparr>cr_withdrawal = 0, cr_sigset_change = 0\<rparr>"

text \<open>\<open>completed.iter().rposition(..)\<close> on the list in reverse; the test can panic.\<close>

fun rposition :: "('a \<Rightarrow> bool result) \<Rightarrow> 'a list \<Rightarrow> nat option result" where
  "rposition P [] = Ok None"
| "rposition P (c # cs) = rbind (P c) (\<lambda>found. if found then Ok (Some (length cs)) else rposition P cs)"

definition before_interval :: "u64 \<Rightarrow> u64 \<Rightarrow> u32 \<Rightarrow> checkpoint \<Rightarrow> bool result" where
  "before_interval interval now reset_index c =
     rbind (sub_u now (Checkpoint_create_time c)) (\<lambda>age.
     Ok (age > interval \<or> ss_index (cp_sigset c) \<le> reset_index))"

text \<open>The checkpoint being signed with the one it is compared with, or none if no limit applies.\<close>

definition rate_baseline :: "u64 \<Rightarrow> u64 \<Rightarrow> u32 \<Rightarrow> checkpoint_queue \<Rightarrow> (checkpoint \<times> checkpoint) option result" where
  "rate_baseline interval now reset_index q =
     rbind (CheckpointQueue_signing q) (\<lambda>signing.
     rbind (ok_or (App ''No checkpoint to be signed'') signing) (\<lambda>signing.
     if now > interval \<and> now - interval > Checkpoint_create_time signing \<or> reset_index \<ge> ss_index (cp_sigset signing)
     then Ok None
     else
     let now = max (Checkpoint_create_time signing) now in
     rbind (div_u interval (cc_min_checkpoint_interval (cq_config q))) (\<lambda>n.
     rbind (add_u32 (n mod 2 ^ 32) 1) (\<lambda>limit.
     rbind (CheckpointQueue_completed q limit) (\<lambda>completed.
     if completed = [] then Ok None
     else
     rbind (rposition (before_interval interval now reset_index) (rev completed)) (\<lambda>prev_index.
     let prev_index = (case prev_index of None \<Rightarrow> 0 | Some i \<Rightarrow> i) in
     Ok (Some (signing, completed ! prev_index))))))))"

text \<open>
  The shares of the voting power, by extended key: 0 for a key that is not in the set. The map from the keys of
  the set to fractions takes the last entry of a key.
\<close>

definition sigset_fractions :: "signatory_set \<Rightarrow> pubkey \<Rightarrow> f64 option" where
  "sigset_fractions sigset =
     (let total_vp = f64_of_nat (ss_present_vp sigset) in
      map_of (rev (map (\<lambda>v. (sg_pubkey v, f64_div (f64_of_nat (sg_voting_power v)) total_vp)) (ss_signatories sigset))))"

definition vp_shares :: "'m btc_lib_scheme \<Rightarrow> signatory_keys \<Rightarrow> signatory_set \<Rightarrow> (bytes \<times> f64) list result" where
  "vp_shares L keys sigset =
     fold_result (\<lambda>shares (_, xpub).
       rbind (derive_pubkey L xpub (ss_index sigset)) (\<lambda>pubkey.
       Ok (omap_insert (\<lambda>k. k) (xpub_encode L xpub)
             (case sigset_fractions sigset pubkey of None \<Rightarrow> Fin 0 | Some share \<Rightarrow> share) shares)))
     [] (SignatoryKeys_map keys)"

text \<open>The sum of the increases, in the order \<open>visit\<close> in which the hash map is read.\<close>

definition sigset_increase :: "((bytes \<times> f64) list \<Rightarrow> (bytes \<times> f64) list) \<Rightarrow> (bytes \<times> f64) list \<Rightarrow> (bytes \<times> f64) list \<Rightarrow> f64" where
  "sigset_increase visit now_sigset prev_sigset =
     foldl (\<lambda>acc (k, v).
       let prev_share = (case map_of prev_sigset k of None \<Rightarrow> Fin 0 | Some share \<Rightarrow> share) in
       if f64_gt v prev_share then f64_add acc (f64_sub v prev_share) else acc) (Fin 0) (rearrange visit now_sigset)"

definition reserve_value :: "'m btc_lib_scheme \<Rightarrow> checkpoint \<Rightarrow> u64 result" where
  "reserve_value L cp = rbind (Checkpoint_reserve_output L cp) (\<lambda>out. rbind (unwrap out) (\<lambda>out. Ok (to_value out)))"

definition Bitcoin_change_rates ::
  "'m btc_lib_scheme \<Rightarrow> ((bytes \<times> f64) list \<Rightarrow> (bytes \<times> f64) list) \<Rightarrow> u64 \<Rightarrow> u64 \<Rightarrow> u32 \<Rightarrow> bitcoin \<Rightarrow> ChangeRates result" where
  "Bitcoin_change_rates L visit interval now reset_index s =
     rbind (rate_baseline interval now reset_index (bc_checkpoints s)) (\<lambda>baseline.
     case baseline of
       None \<Rightarrow> Ok ChangeRates_default
     | Some (signing, prev_checkpoint) \<Rightarrow>
         rbind (reserve_value L prev_checkpoint) (\<lambda>amount_prev.
         rbind (reserve_value L signing) (\<lambda>amount_now.
         let reserve_decrease = amount_prev - amount_now in
         rbind (vp_shares L (bc_signatory_keys s) (cp_sigset signing)) (\<lambda>now_sigset.
         rbind (vp_shares L (bc_signatory_keys s) (cp_sigset prev_checkpoint)) (\<lambda>prev_sigset.
         let sigset_change = f64_as_u16 (f64_mul (sigset_increase visit now_sigset prev_sigset) (Fin 10000)) in
         rbind (mul_u64 reserve_decrease 10000) (\<lambda>scaled.
         rbind (div_u scaled amount_prev) (\<lambda>rate.
         Ok \<lparr>cr_withdrawal = rate mod 2 ^ 16, cr_sigset_change = sigset_change\<rparr>)))))))"

section \<open>The signer\<close>

type_synonym xpriv = bytes

record key_lib =
  xpub_from_priv :: "xpriv \<Rightarrow> xpub"
  derive_priv :: "xpriv \<Rightarrow> nat \<Rightarrow> bytes result"
  sign_ecdsa :: "message \<Rightarrow> bytes \<Rightarrow> signature"  \<comment> \<open>in the compact form\<close>

record signer =
  sr_op_addr :: address
  sr_xprivs :: "xpriv list"
  sr_max_withdrawal_rate :: f64
  sr_max_sigset_change_rate :: f64
  sr_min_blocks_per_checkpoint :: u64
  sr_reset_index :: "u32 option"

text \<open>Key files, by path; \<open>None\<close> is a path that does not exist.\<close>

definition load_xpriv :: "(string \<Rightarrow> xpriv result option) \<Rightarrow> string \<Rightarrow> xpriv result" where
  "load_xpriv files path = (case files path of None \<Rightarrow> Err (SignerErr ''Key path not found'') | Some r \<Rightarrow> r)"

definition Signer_load_xprivs ::
  "(string \<Rightarrow> xpriv result option) \<Rightarrow> address \<Rightarrow> string \<Rightarrow> string list \<Rightarrow> f64 \<Rightarrow> f64 \<Rightarrow> u64 \<Rightarrow> u32 option \<Rightarrow> signer result" where
  "Signer_load_xprivs files op_addr default_xpriv_path xpriv_paths max_withdrawal_rate max_sigset_change_rate min_checkpoint_seconds reset_index =
     rbind (if xpriv_paths \<noteq> [] then Ok xpriv_paths
            else if files default_xpriv_path = None then Err (SignerErr ''No local xpriv found'')
            else Ok [default_xpriv_path]) (\<lambda>xpriv_paths.
     rbind (map_result (load_xpriv files) xpriv_paths) (\<lambda>xprivs.
     Ok \<lparr>sr_op_addr = op_addr, sr_xprivs = xprivs, sr_max_withdrawal_rate = max_withdrawal_rate,
         sr_max_sigset_change_rate = max_sigset_change_rate, sr_min_blocks_per_checkpoint = min_checkpoint_seconds,
         sr_reset_index = reset_index\<rparr>))"

text \<open>The check of \<open>start\<close> that one of the keys is the one on the chain, and the pairs it goes on with.\<close>

definition start_key_pairs :: "key_lib \<Rightarrow> signer \<Rightarrow> xpub option \<Rightarrow> (xpub \<times> xpriv) list result" where
  "start_key_pairs K S onchain_xpub =
     (case onchain_xpub of
        None \<Rightarrow> Err (SignerErr ''No on-chain xpub found'')
      | Some onchain \<Rightarrow>
          let key_pairs = map (\<lambda>xpriv. (xpub_from_priv K xpriv, xpriv)) (sr_xprivs S) in
          if \<not> (\<exists>(xpub, _) \<in> set key_pairs. xpub = onchain) then Err (SignerErr ''No passed xpub matches on-chain xpub'')
          else Ok key_pairs)"

definition CHECKPOINT_WINDOW :: u32 where "CHECKPOINT_WINDOW = 20"

text \<open>The index that the loop of \<open>start_checkpoint_signing\<close> starts at.\<close>

definition start_index :: "signer \<Rightarrow> checkpoint_queue \<Rightarrow> u32 result" where
  "start_index S q =
     rbind (if cq_index q = 0 then Ok 0
            else
            rbind (add_u32 (cq_index q) 1) (\<lambda>next_index.
            rbind (CheckpointQueue_len q) (\<lambda>len.
            rbind (sub_u next_index len) (\<lambda>first.
            Ok (max (cq_index q - CHECKPOINT_WINDOW) first))))) (\<lambda>index.
     case sr_reset_index S of
       None \<Rightarrow> Ok index
     | Some reset_index \<Rightarrow>
         if reset_index > index then Err (CheckpointErr ''Limit reset index is greater than current checkpoint index'')
         else Ok index)"

definition sign :: "'m btc_lib_scheme \<Rightarrow> key_lib \<Rightarrow> xpriv \<Rightarrow> (message \<times> u32) list \<Rightarrow> signature list result" where
  "sign L K xpriv to_sign =
     rbind (map_result (\<lambda>(msg, index).
       rbind (from_normal_idx L index) (\<lambda>child.
       rbind (derive_priv K xpriv child) (\<lambda>privkey.
       if message_from_slice L msg then Ok (sign_ecdsa K msg privkey) else Err Secp))) to_sign) (\<lambda>sigs.
     if length sigs < 2 ^ 16 then Ok sigs else Err TryFrom)"

text \<open>The two questions of \<open>check_change_rates\<close>: the index, then the rates.\<close>

definition check_change_rates ::
  "'m btc_lib_scheme \<Rightarrow> ((bytes \<times> f64) list \<Rightarrow> (bytes \<times> f64) list) \<Rightarrow> signer \<Rightarrow> u64 \<Rightarrow> bitcoin \<Rightarrow> bitcoin \<Rightarrow> unit result" where
  "check_change_rates L visit S now s1 s2 =
     (if cq_index (bc_checkpoints s1) < 100 then Ok ()
      else
      let reset_index = (case sr_reset_index S of None \<Rightarrow> 0 | Some i \<Rightarrow> i) in
      rbind (Bitcoin_change_rates L visit (60 * 60 * 24) now reset_index s2) (\<lambda>rates.
      let withdrawal_rate = f64_bps (cr_withdrawal rates); sigset_change_rate = f64_bps (cr_sigset_change rates) in
      if f64_gt withdrawal_rate (sr_max_withdrawal_rate S) then Err (App ''Withdrawal rate is above maximum'')
      else if f64_gt sigset_change_rate (sr_max_sigset_change_rate S)
      then Err (App ''Signatory set change rate is above maximum'')
      else Ok ()))"

text \<open>Whether a checkpoint that is being signed may be: the limits, and the number of blocks since the last one.\<close>

definition ready_to_sign ::
  "'m btc_lib_scheme \<Rightarrow> ((bytes \<times> f64) list \<Rightarrow> (bytes \<times> f64) list) \<Rightarrow> signer \<Rightarrow> u64 \<Rightarrow> (nat \<Rightarrow> bitcoin) \<Rightarrow> u32 \<Rightarrow> bool result" where
  "ready_to_sign L visit S now view index =
     rbind (check_change_rates L visit S now (view 2) (view 3)) (\<lambda>_.
     let current_btc_height = HeaderQueue_height (bc_headers (view 4)) in
     rbind (CheckpointQueue_get (bc_checkpoints (view 5)) (index - 1)) (\<lambda>prev.
     case cp_signed_at_btc_height prev of
       None \<Rightarrow> Ok True
     | Some last_signed_btc_height \<Rightarrow>
         rbind (add_u64 last_signed_btc_height (sr_min_blocks_per_checkpoint S)) (\<lambda>height.
         Ok (\<not> current_btc_height < height))))"

text \<open>The part of \<open>try_sign_checkpoint\<close> before the call: \<open>Inl\<close> a result without a call, \<open>Inr\<close> the signatures.\<close>

definition checkpoint_sigs ::
  "'m btc_lib_scheme \<Rightarrow> key_lib \<Rightarrow> ((bytes \<times> f64) list \<Rightarrow> (bytes \<times> f64) list) \<Rightarrow> signer \<Rightarrow> u64 \<Rightarrow> (nat \<Rightarrow> bitcoin)
     \<Rightarrow> xpub \<Rightarrow> xpriv \<Rightarrow> u32 \<Rightarrow> (bool + signature list) result" where
  "checkpoint_sigs L K visit S now view xpub xpriv index =
     rbind (CheckpointQueue_get (bc_checkpoints (view 0)) index) (\<lambda>cp.
     let status = cp_status cp in
     if status = Building then Ok (Inl False)
     else
     rbind (rbind (CheckpointQueue_get (bc_checkpoints (view 1)) index) (Checkpoint_to_sign L xpub)) (\<lambda>to_sign.
     if to_sign = [] then Ok (Inl (status = Complete))
     else
     rbind (if status = Signing then ready_to_sign L visit S now view index else Ok True) (\<lambda>ready.
     if \<not> ready then Ok (Inl False)
     else rbind (sign L K xpriv to_sign) (\<lambda>sigs. Ok (Inr sigs)))))"

text \<open>A failed call leaves the chain as it is.\<close>

definition try_sign_checkpoint ::
  "'m btc_lib_scheme \<Rightarrow> key_lib \<Rightarrow> ((bytes \<times> f64) list \<Rightarrow> (bytes \<times> f64) list) \<Rightarrow> signer \<Rightarrow> u64 \<Rightarrow> ctx \<Rightarrow> (nat \<Rightarrow> bitcoin)
     \<Rightarrow> xpub \<Rightarrow> xpriv \<Rightarrow> u32 \<Rightarrow> bool result \<times> bitcoin" where
  "try_sign_checkpoint L K visit S now C view xpub xpriv index =
     (case checkpoint_sigs L K visit S now view xpub xpriv index of
        Err e \<Rightarrow> (Err e, view 6)
      | Ok (Inl all_signed) \<Rightarrow> (Ok all_signed, view 6)
      | Ok (Inr sigs) \<Rightarrow>
          (case Bitcoin_sign L C xpub sigs index (view 6) of
             (Ok _, s) \<Rightarrow> (Ok False, s)
           | (Err e, _) \<Rightarrow> (Err e, view 6)))"

text \<open>A turn of the loop of \<open>start_checkpoint_signing\<close>, from the results for each key: errors are logged.\<close>

definition next_index :: "bool result list \<Rightarrow> u32 \<Rightarrow> u32 result" where
  "next_index results index = (if \<exists>r \<in> set results. r = Ok True then add_u32 index 1 else Ok index)"

definition try_sign_recovery_txs ::
  "'m btc_lib_scheme \<Rightarrow> key_lib \<Rightarrow> ctx \<Rightarrow> (nat \<Rightarrow> bitcoin) \<Rightarrow> xpub \<Rightarrow> xpriv \<Rightarrow> unit result \<times> bitcoin" where
  "try_sign_recovery_txs L K C view xpub xpriv =
     (case rbind (RecoveryTxs_to_sign L xpub (bc_recovery_txs (view 0))) (\<lambda>to_sign.
           if to_sign = [] then Ok None else rbind (sign L K xpriv to_sign) (\<lambda>sigs. Ok (Some sigs))) of
        Err e \<Rightarrow> (Err e, view 1)
      | Ok None \<Rightarrow> (Ok (), view 1)
      | Ok (Some sigs) \<Rightarrow>
          (case RecoveryTxs_sign L C xpub sigs (bc_recovery_txs (view 1)) of
             Ok rx \<Rightarrow> (Ok (), (view 1)\<lparr>bc_recovery_txs := rx\<rparr>)
           | Err e \<Rightarrow> (Err e, view 1)))"

section \<open>The limits\<close>

lemma rposition_Ok:
  "rposition P cs = Ok r \<Longrightarrow>
    (case r of None \<Rightarrow> \<forall>c \<in> set cs. P c = Ok False
     | Some i \<Rightarrow> i < length cs \<and> P (rev cs ! i) = Ok True \<and> (\<forall>j < length cs. i < j \<longrightarrow> P (rev cs ! j) = Ok False))"
proof (induction cs)
  case (Cons c cs)
  show ?case
  proof (cases "P c = Ok True")
    case True
    with Cons.prems show ?thesis by (auto simp: nth_append)
  next
    case False
    with Cons.prems have c: "P c = Ok False" and r: "rposition P cs = Ok r" by (auto split: if_splits)
    from Cons.IH [OF r] c show ?thesis by (auto simp: nth_append less_Suc_eq split: option.splits)
  qed
qed auto

text \<open>
  The rates are measured from the last completed checkpoint that is older than the interval or not after the reset,
  or from the oldest one kept: every later one is younger than the interval and after the reset.
\<close>

theorem baseline_precedes_interval:
  assumes "rate_baseline interval now reset_index q = Ok (Some (signing, prev))"
  shows "\<exists>completed limit i. CheckpointQueue_signing q = Ok (Some signing) \<and> CheckpointQueue_completed q limit = Ok completed
    \<and> i < length completed \<and> completed ! i = prev
    \<and> (\<forall>j < length completed. i < j \<longrightarrow>
         max (Checkpoint_create_time signing) now \<le> Checkpoint_create_time (completed ! j) + interval
         \<and> reset_index < ss_index (cp_sigset (completed ! j)))"
proof -
  let ?P = "before_interval interval (max (Checkpoint_create_time signing) now) reset_index"
  from assms obtain limit completed r where sg: "CheckpointQueue_signing q = Ok (Some signing)"
    and c: "CheckpointQueue_completed q limit = Ok completed" "completed \<noteq> []" "rposition ?P (rev completed) = Ok r"
    and prev: "prev = completed ! (case r of None \<Rightarrow> 0 | Some i \<Rightarrow> i)"
    by (auto simp: rate_baseline_def Let_def split: if_splits)
  have later: "max (Checkpoint_create_time signing) now \<le> Checkpoint_create_time c + interval \<and> reset_index < ss_index (cp_sigset c)"
    if "?P c = Ok False" for c
    using that by (auto simp: before_interval_def)
  from rposition_Ok [OF c(3)] prev c(2) later
  have "(case r of None \<Rightarrow> 0 | Some i \<Rightarrow> i) < length completed \<and> (\<forall>j < length completed. (case r of None \<Rightarrow> 0 | Some i \<Rightarrow> i) < j \<longrightarrow>
      max (Checkpoint_create_time signing) now \<le> Checkpoint_create_time (completed ! j) + interval \<and> reset_index < ss_index (cp_sigset (completed ! j)))"
    by (auto split: option.splits)
  with sg c(1) prev show ?thesis by blast
qed

lemma change_rates_Ok:
  assumes "Bitcoin_change_rates L visit interval now reset_index s = Ok rates"
    and "rate_baseline interval now reset_index (bc_checkpoints s) = Ok (Some (signing, prev))"
  obtains amount_prev amount_now now_sigset prev_sigset where
    "reserve_value L prev = Ok amount_prev" "reserve_value L signing = Ok amount_now" "amount_prev \<noteq> 0"
    "cr_withdrawal rates = (amount_prev - amount_now) * 10000 div amount_prev" "cr_withdrawal rates \<le> 10000"
    "vp_shares L (bc_signatory_keys s) (cp_sigset signing) = Ok now_sigset"
    "vp_shares L (bc_signatory_keys s) (cp_sigset prev) = Ok prev_sigset"
    "cr_sigset_change rates = f64_as_u16 (f64_mul (sigset_increase visit now_sigset prev_sigset) (Fin 10000))"
proof -
  from assms obtain amount_prev amount_now now_sigset prev_sigset where a: "reserve_value L prev = Ok amount_prev"
    "reserve_value L signing = Ok amount_now" "amount_prev \<noteq> 0"
    and rates: "rates = \<lparr>cr_withdrawal = (amount_prev - amount_now) * 10000 div amount_prev mod 2 ^ 16,
      cr_sigset_change = f64_as_u16 (f64_mul (sigset_increase visit now_sigset prev_sigset) (Fin 10000))\<rparr>"
    and v: "vp_shares L (bc_signatory_keys s) (cp_sigset signing) = Ok now_sigset"
    "vp_shares L (bc_signatory_keys s) (cp_sigset prev) = Ok prev_sigset"
    by (auto simp: Bitcoin_change_rates_def Let_def)
  have "(amount_prev - amount_now) * 10000 div amount_prev \<le> amount_prev * 10000 div amount_prev" by (intro div_le_mono) simp
  then have "(amount_prev - amount_now) * 10000 div amount_prev \<le> 10000" using a(3) by simp
  with that [OF a _ _ v] rates show ?thesis by simp
qed

lemma f64_as_u16_less: "f64_as_u16 x < 2 ^ 16"
  by (cases x) auto

text \<open>
  C37: a signer contributes to a checkpoint that is being signed only within its limits, where they apply. They
  apply when the queue has reached index 100 and the chain has a checkpoint to compare with:
  \<open>rate_baseline\<close> gives one unless the checkpoint being signed was created over 24 hours ago, is not past the reset
  index, or no checkpoint is complete (the chain then reports no change at all). With limits of \<open>m\<close> and \<open>k\<close> basis
  points the reserve has then lost less than \<open>m + 1\<close> basis points of what it held (the chain reports the loss
  truncated to whole basis points, so a loss of a fraction above \<open>m\<close> passes), the change of the signatory set,
  truncated in the same way, is at most \<open>k\<close> basis points, and the configured number of blocks has been mined since
  the checkpoint before was signed.
\<close>

theorem signer_enforces_limits:
  assumes submits: "checkpoint_sigs L K visit S now view xpub xpriv index = Ok (Inr sigs)"
    and cp: "CheckpointQueue_get (bc_checkpoints (view 0)) index = Ok cp" "cp_status cp = Signing"
    and old: "100 \<le> cq_index (bc_checkpoints (view 2))"
    and limits: "sr_max_withdrawal_rate S = f64_bps m" "sr_max_sigset_change_rate S = f64_bps k" "m < 2 ^ 16" "k < 2 ^ 16"
    and baseline: "rate_baseline (60 * 60 * 24) now (case sr_reset_index S of None \<Rightarrow> 0 | Some i \<Rightarrow> i) (bc_checkpoints (view 3))
      = Ok (Some (signing, prev))"
  shows "(\<exists>amount_prev amount_now. reserve_value L prev = Ok amount_prev \<and> reserve_value L signing = Ok amount_now
      \<and> (amount_prev - amount_now) * 10000 < (m + 1) * amount_prev)
    \<and> (\<exists>now_sigset prev_sigset. vp_shares L (bc_signatory_keys (view 3)) (cp_sigset signing) = Ok now_sigset
      \<and> vp_shares L (bc_signatory_keys (view 3)) (cp_sigset prev) = Ok prev_sigset
      \<and> f64_as_u16 (f64_mul (sigset_increase visit now_sigset prev_sigset) (Fin 10000)) \<le> k)
    \<and> (\<exists>before. CheckpointQueue_get (bc_checkpoints (view 5)) (index - 1) = Ok before
      \<and> (\<forall>height. cp_signed_at_btc_height before = Some height \<longrightarrow>
           height + sr_min_blocks_per_checkpoint S \<le> HeaderQueue_height (bc_headers (view 4))))"
proof -
  from submits cp have ready: "ready_to_sign L visit S now view index = Ok True"
    by (auto simp: checkpoint_sigs_def Let_def split: if_splits)
  then have checked: "check_change_rates L visit S now (view 2) (view 3) = Ok ()" by (auto simp: ready_to_sign_def)
  obtain rates where rates: "Bitcoin_change_rates L visit (60 * 60 * 24) now (case sr_reset_index S of None \<Rightarrow> 0 | Some i \<Rightarrow> i) (view 3) = Ok rates"
    and within: "\<not> f64_gt (f64_bps (cr_withdrawal rates)) (f64_bps m)" "\<not> f64_gt (f64_bps (cr_sigset_change rates)) (f64_bps k)"
    using checked old limits(1,2) by (auto simp: check_change_rates_def Let_def split: if_splits)
  obtain amount_prev amount_now now_sigset prev_sigset
    where a: "reserve_value L prev = Ok amount_prev" "reserve_value L signing = Ok amount_now" "amount_prev \<noteq> 0"
      "cr_withdrawal rates = (amount_prev - amount_now) * 10000 div amount_prev" "cr_withdrawal rates \<le> 10000"
      "vp_shares L (bc_signatory_keys (view 3)) (cp_sigset signing) = Ok now_sigset"
      "vp_shares L (bc_signatory_keys (view 3)) (cp_sigset prev) = Ok prev_sigset"
      "cr_sigset_change rates = f64_as_u16 (f64_mul (sigset_increase visit now_sigset prev_sigset) (Fin 10000))"
    by (rule change_rates_Ok [OF rates baseline])
  have "(amount_prev - amount_now) * 10000 div amount_prev < m + 1"
    using within(1) a(4,5) f64_bps_gt [OF _ limits(3), of "cr_withdrawal rates"] by simp
  then have withdrawal: "(amount_prev - amount_now) * 10000 < (m + 1) * amount_prev" using a(3) by (simp add: div_less_iff_less_mult)
  have change: "f64_as_u16 (f64_mul (sigset_increase visit now_sigset prev_sigset) (Fin 10000)) \<le> k"
    using within(2) f64_bps_gt [OF f64_as_u16_less limits(4)] by (simp add: a(8) not_less)
  have "\<exists>before. CheckpointQueue_get (bc_checkpoints (view 5)) (index - 1) = Ok before
      \<and> (\<forall>height. cp_signed_at_btc_height before = Some height \<longrightarrow>
           height + sr_min_blocks_per_checkpoint S \<le> HeaderQueue_height (bc_headers (view 4)))"
    using ready by (auto simp: ready_to_sign_def split: option.splits)
  with a withdrawal change show ?thesis by blast
qed

section \<open>The chain accepts what the signer submits\<close>

text \<open>
  BIP 32 and ECDSA: the public key derived from the extended public key belongs to the private key derived from the
  extended private one, and what the latter signs verifies under the former.
\<close>

definition key_law :: "'m btc_lib_scheme \<Rightarrow> key_lib \<Rightarrow> bool" where
  "key_law L K \<longleftrightarrow> (\<forall>xpriv child privkey. derive_priv K xpriv child = Ok privkey \<longrightarrow>
     (\<exists>pk. derive_pub L (xpub_from_priv K xpriv) child = Ok pk
       \<and> (\<forall>msg. message_from_slice L msg \<longrightarrow> sig_valid L msg pk (sign_ecdsa K msg privkey))))"

lemma sign_answers:
  assumes "key_law L K" and "sign L K xpriv msgs = Ok sigs"
  shows "answers L (xpub_from_priv K xpriv) msgs sigs"
proof -
  let ?f = "\<lambda>(msg, index). rbind (from_normal_idx L index) (\<lambda>child. rbind (derive_priv K xpriv child) (\<lambda>privkey.
       if message_from_slice L msg then Ok (sign_ecdsa K msg privkey) else Err Secp))"
  have "map_result ?f msgs = Ok sigs" using assms(2) by (auto simp: sign_def split: if_splits)
  then show ?thesis
  proof (induction msgs arbitrary: sigs)
    case (Cons m msgs)
    obtain msg index where m: "m = (msg, index)" by (cases m)
    from Cons.prems obtain sg rest where s: "?f m = Ok sg" "map_result ?f msgs = Ok rest" "sigs = sg # rest" by auto
    then obtain child privkey where d: "from_normal_idx L index = Ok child" "derive_priv K xpriv child = Ok privkey"
      "message_from_slice L msg" "sg = sign_ecdsa K msg privkey"
      by (auto simp: m split: if_splits)
    then obtain pk where "derive_pub L (xpub_from_priv K xpriv) child = Ok pk" "sig_valid L msg pk sg"
      using assms(1) unfolding key_law_def by blast
    with Cons.IH [OF s(2)] s(3) d(1) show ?case by (auto simp: answers_def m derive_pubkey_def)
  qed simp
qed

lemma to_bitcoin_tx_total:
  assumes "tx_inv L tx"
  shows "\<exists>t. BitcoinTx_to_bitcoin_tx L tx = Ok t"
proof -
  have "\<exists>t. Input_to_txin L i = Ok t" if "i \<in> set (bt_input tx)" for i
  proof -
    have "ts_inv L (in_signatures i)" using assms that by (auto simp: tx_inv_def list_all_iff)
    then have "\<exists>w. ThresholdSig_to_witness L (in_signatures i) = Ok w"
      by (cases "input_signed i") (auto simp: to_witness_items, simp add: ThresholdSig_to_witness_def)
    then show ?thesis by (auto simp: Input_to_txin_def Let_def)
  qed
  then obtain g where "\<And>i. i \<in> set (bt_input tx) \<Longrightarrow> Input_to_txin L i = Ok (g i)" by metis
  then have "map_result (Input_to_txin L) (bt_input tx) = Ok (map g (bt_input tx))" by (rule map_result_total)
  then show ?thesis by (simp add: BitcoinTx_to_bitcoin_tx_def)
qed

lemma checkpoint_tx_after_sign:
  assumes "cp_inv L cp" and "Checkpoint_sign L xpub sigs h cp = Ok cp'" and "Checkpoint_checkpoint_tx L cp = Ok tx"
  shows "\<exists>tx'. Checkpoint_checkpoint_tx L cp' = Ok tx'"
proof -
  obtain bs where bs: "sign_batches L xpub sigs (cp_batches cp) = Ok ([], bs)" "cp_batches cp' = bs"
    by (rule Checkpoint_sign_Ok [OF assms(2)])
  from assms(3) obtain t ts where two: "2 < length (cp_batches cp)" "ba_batch (cp_batches cp ! 2) = t # ts"
    by (auto simp: Checkpoint_checkpoint_tx_def get_batch_def get_tx_def split: if_splits list.splits)
  from sign_batches_Ok [OF bs(1)] have step: "list_all2 (\<lambda>b b'. b' = b \<or> batch_step L b b') (cp_batches cp) bs" by blast
  then have len: "2 < length bs" and "bs ! 2 = cp_batches cp ! 2 \<or> batch_step L (cp_batches cp ! 2) (bs ! 2)"
    using two(1) by (auto simp: list_all2_conv_all_nth)
  then obtain t' ts' where t': "ba_batch (bs ! 2) = t' # ts'" using two(2) by (auto simp: batch_step_def list_all2_Cons1)
  have "batch_inv L (bs ! 2)" using cp_inv_sign(1) [OF assms(1) bs(1)] len by (auto simp: list_all_length)
  with t' have "tx_inv L t'" by (simp add: batch_inv_def)
  from to_bitcoin_tx_total [OF this] show ?thesis
    using len t' bs(2) by (simp add: Checkpoint_checkpoint_tx_def get_batch_def get_tx_def)
qed

text \<open>
  C38: the signatures that a signer computes are accepted: while the chain does not move, the call that an attempt makes
  succeeds, records on the checkpoint one valid signature for each message asked of the key and leaves the rest of the
  chain as it is.
\<close>

theorem signer_is_accepted:
  assumes "checkpoint_sigs L K visit S now (\<lambda>_. btc) (xpub_from_priv K xpriv) xpriv index = Ok (Inr sigs)" and "key_law L K"
    and "CheckpointQueue_get (bc_checkpoints btc) index = Ok cp" and "cp_inv L cp" and "list_all batch_sized (cp_batches cp)"
    and "Checkpoint_checkpoint_tx L cp = Ok tx" and "exempt_from_fee C = Ok ()"
  shows "\<exists>q cp'. try_sign_checkpoint L K visit S now C (\<lambda>_. btc) (xpub_from_priv K xpriv) xpriv index = (Ok False, btc\<lparr>bc_checkpoints := q\<rparr>)
    \<and> Checkpoint_sign L (xpub_from_priv K xpriv) sigs (HeaderQueue_height (bc_headers btc)) cp = Ok cp'
    \<and> CheckpointQueue_get q index = Ok (if cp_status cp = Signing \<and> Checkpoint_signed cp' then SigningCheckpoint_advance cp' else cp')"
proof -
  let ?xpub = "xpub_from_priv K xpriv" and ?h = "HeaderQueue_height (bc_headers btc)"
  from assms(1,3) obtain msgs where msgs: "Checkpoint_to_sign L ?xpub cp = Ok msgs" and sigs: "sign L K xpriv msgs = Ok sigs"
    and status: "cp_status cp \<noteq> Building"
    by (auto simp: checkpoint_sigs_def Let_def split: if_splits)
  have "answers L ?xpub msgs sigs" by (rule sign_answers [OF assms(2) sigs])
  then obtain bs where "sign_batches L ?xpub (sigs @ []) (cp_batches cp) = Ok ([], bs)"
    using sign_batches_total [of L "cp_batches cp" ?xpub msgs sigs "[]"] assms(4,5) msgs by (auto simp: Checkpoint_to_sign_def cp_inv_def)
  then have "\<exists>cp'. Checkpoint_sign L ?xpub sigs ?h cp = Ok cp'" by (simp add: Checkpoint_sign_def Let_def)
  then obtain cp' where cp': "Checkpoint_sign L ?xpub sigs ?h cp = Ok cp'" by blast
  let ?final = "if cp_status cp = Signing \<and> Checkpoint_signed cp' then SigningCheckpoint_advance cp' else cp'"
  have body: "sign_checkpoint L ?xpub sigs ?h cp = Ok (?final, ())"
    using status cp' checkpoint_tx_after_sign [OF assms(4) cp' assms(6)] by (auto simp: sign_checkpoint_def)
  from assms(3) obtain i where i: "CheckpointQueue_get_deque_index (bc_checkpoints btc) index = Ok i" "i < length (cq_queue (bc_checkpoints btc))"
    "cq_queue (bc_checkpoints btc) ! i = cp"
    by (auto simp: CheckpointQueue_get_def split: if_splits)
  let ?q = "(bc_checkpoints btc)\<lparr>cq_queue := (cq_queue (bc_checkpoints btc))[i := ?final]\<rparr>"
  have "CheckpointQueue_sign L C ?xpub sigs index ?h (bc_checkpoints btc) = Ok ?q"
    using i body assms(7) by (simp add: CheckpointQueue_sign_def CheckpointQueue_get_mut_def)
  then have "try_sign_checkpoint L K visit S now C (\<lambda>_. btc) ?xpub xpriv index = (Ok False, btc\<lparr>bc_checkpoints := ?q\<rparr>)"
    using assms(1) by (simp add: try_sign_checkpoint_def Bitcoin_sign_def cbind_def reads_def modify_def)
  moreover have "CheckpointQueue_get ?q index = Ok ?final"
    using i by (simp add: CheckpointQueue_get_def CheckpointQueue_get_deque_index_def CheckpointQueue_len_def split: if_splits)
  ultimately show ?thesis using cp' by blast
qed

text \<open>
  The index at which the limits are reset is compared with the start of the window of checkpoints to sign, although
  the message speaks of the current checkpoint: a signer that resets its limits at one of the last twenty does not start.
\<close>

theorem recent_reset_is_refused:
  assumes "sr_reset_index S = Some reset_index" and "20 < cq_index q" and "cq_index q < 2 ^ 32 - 1"
    and "length (cq_queue q) \<le> cq_index q + 1" and "20 < length (cq_queue q)" and "cq_index q - 20 < reset_index"
  shows "start_index S q = Err (CheckpointErr ''Limit reset index is greater than current checkpoint index'')"
proof -
  have "CheckpointQueue_len q = Ok (length (cq_queue q))" using assms(3,4) by (auto simp: CheckpointQueue_len_def)
  moreover have "max (cq_index q - 20) (Suc (cq_index q) - length (cq_queue q)) < reset_index" using assms by auto
  ultimately show ?thesis using assms by (simp add: start_index_def CHECKPOINT_WINDOW_def sub_u_def add_w_def)
qed

section \<open>A concrete chain\<close>

definition demo_signer_lib :: btc_lib where
  "demo_signer_lib = dest_lib.extend demo_dest_lib
     \<lparr>extract_matches = (\<lambda>b. None), is_op_return = (\<lambda>s. False), xpub_encode = xp_public_key,
      validator_entries = ok_or (App ''none''), consensus_key_of = (\<lambda>_ a. Ok (Some a)),
      coin_take = (\<lambda>h n. if n \<le> h then Ok (n, h - n) else Err (Coins ''Insufficient funds'')),
      coin_give = add_u64, amount_add = add_u64, acc_withdraw = (\<lambda>a n bal. Ok bal), acc_deposit = (\<lambda>a n bal. Ok bal), paid_take = Ok\<rparr>"

definition demo_key_lib :: key_lib where
  "demo_key_lib = \<lparr>xpub_from_priv = (\<lambda>k. (demo_xpub 0)\<lparr>xp_public_key := k\<rparr>), derive_priv = (\<lambda>k i. Ok k), sign_ecdsa = (\<lambda>m k. k)\<rparr>"

text \<open>The reserve goes from 1000 to 970, three hundred basis points.\<close>

definition demo_reserve :: "u32 \<Rightarrow> checkpoint_status \<Rightarrow> u64 \<Rightarrow> input list \<Rightarrow> checkpoint" where
  "demo_reserve index status reserve inputs = (Checkpoint_new (demo_ss\<lparr>ss_index := index\<rparr>))\<lparr>cp_status := status,
     cp_batches := [Batch_default, Batch_default, Batch_default\<lparr>ba_batch := [BitcoinTx_default\<lparr>bt_input := inputs,
       bt_output := [\<lparr>to_value = reserve, to_script_pubkey = []\<rparr>]\<rparr>]\<rparr>]\<rparr>"

definition demo_reserves :: bitcoin where
  "demo_reserves = Bitcoin_migrate_from demo_queue OutpointSet_default
     \<lparr>cq_queue = [demo_reserve 99 Complete 1000 [], demo_reserve 100 Signing 970 [demo_input], demo_reserve 101 Building 0 []],
      cq_index = 101, cq_confirmed_index = None, cq_config = CheckpointConfig_default\<rparr>
     (\<lambda>_. 0) SignatoryKeys_default 0 [] BitcoinConfig_default"

definition demo_signer :: signer where
  "demo_signer = \<lparr>sr_op_addr = [], sr_xprivs = [demo_pk 2], sr_max_withdrawal_rate = f64_bps 400, sr_max_sigset_change_rate = f64_bps 100,
     sr_min_blocks_per_checkpoint = 0, sr_reset_index = None\<rparr>"

lemma demo_signer_sel [simp]:
  "pubkey_from_slice demo_signer_lib pk" "message_from_slice demo_signer_lib msg" "sig_from_compact demo_signer_lib sg"
  "verify_ecdsa demo_signer_lib msg sg pk = (sg = pk)" "derive_pub demo_signer_lib x i = Ok (xp_public_key x)"
  "from_normal_idx demo_signer_lib i = (if i < 2 ^ 31 then Ok i else Err Bip32)"
  by (simp_all add: demo_signer_lib_def dest_lib.defs demo_dest_lib_def tx_lib.defs demo_tx_lib_def script_lib.defs demo_script_lib_def)

lemma demo_reserves_sel [simp]:
  "CheckpointQueue_get (bc_checkpoints demo_reserves) 99 = Ok (demo_reserve 99 Complete 1000 [])"
  "CheckpointQueue_get (bc_checkpoints demo_reserves) 100 = Ok (demo_reserve 100 Signing 970 [demo_input])"
  "bc_signatory_keys demo_reserves = SignatoryKeys_default" "cq_index (bc_checkpoints demo_reserves) = 101"
  "cp_status (demo_reserve i st r ins) = st" "cp_sigset (demo_reserve i st r ins) = demo_ss\<lparr>ss_index := i\<rparr>"
  "cp_signed_at_btc_height (demo_reserve i st r ins) = None"
  by (simp_all add: demo_reserves_def Bitcoin_migrate_from_def CheckpointQueue_get_def CheckpointQueue_get_deque_index_def
      CheckpointQueue_len_def add_w_def sub_u_def demo_reserve_def Checkpoint_new_def)

lemma demo_reserve_value:
  "reserve_value demo_signer_lib (demo_reserve 99 Complete 1000 []) = Ok 1000"
  "reserve_value demo_signer_lib (demo_reserve 100 Signing 970 [demo_input]) = Ok 970"
  "Checkpoint_checkpoint_tx demo_signer_lib (demo_reserve 100 Signing 970 [demo_input]) \<noteq> Err e"
  by (simp_all add: reserve_value_def Checkpoint_reserve_output_def Checkpoint_checkpoint_tx_def get_batch_def get_tx_def demo_reserve_def
      BitcoinTx_to_bitcoin_tx_def BitcoinTx_default_def Batch_default_def Checkpoint_new_def Input_to_txin_def demo_input_def
      ThresholdSig_to_witness_def ThresholdSig_signed_def demo_ts_def unwrap_def)

lemma demo_baseline:
  "rate_baseline (60 * 60 * 24) 1000 0 (bc_checkpoints demo_reserves) = Ok (Some (demo_reserve 100 Signing 970 [demo_input], demo_reserve 99 Complete 1000 []))"
proof -
  have "length (cq_queue (bc_checkpoints demo_reserves)) = 3" by (simp add: demo_reserves_def Bitcoin_migrate_from_def)
  then have sg: "CheckpointQueue_signing (bc_checkpoints demo_reserves) = Ok (Some (demo_reserve 100 Signing 970 [demo_input]))"
    and len: "CheckpointQueue_len (bc_checkpoints demo_reserves) = Ok 3"
    by (simp_all add: CheckpointQueue_signing_def CheckpointQueue_len_def sub_u_def)
  have "[99..<100] = [99::nat]" by (simp add: upt_rec)
  with sg len have "CheckpointQueue_completed (bc_checkpoints demo_reserves) 289 = Ok [demo_reserve 99 Complete 1000 []]"
    by (simp add: CheckpointQueue_completed_def Let_def sub_u_def)
  moreover have "cc_min_checkpoint_interval (cq_config (bc_checkpoints demo_reserves)) = 300"
    by (simp add: demo_reserves_def Bitcoin_migrate_from_def CheckpointConfig_default_def CheckpointConfig_bitcoin_def)
  ultimately show ?thesis
    using sg by (simp add: rate_baseline_def Let_def div_u_def add_w_def before_interval_def sub_u_def Checkpoint_create_time_def demo_ss_def)
qed

lemma demo_rates:
  "Bitcoin_change_rates demo_signer_lib id (60 * 60 * 24) 1000 0 demo_reserves = Ok \<lparr>cr_withdrawal = 300, cr_sigset_change = 0\<rparr>"
  using demo_baseline demo_reserve_value
  by (simp add: Bitcoin_change_rates_def vp_shares_def SignatoryKeys_default_def SignatoryKeys_map_def sigset_increase_def rearrange_def
      f64_round_def Let_def mul_w_def div_u_def)

lemma demo_to_sign:
  "Checkpoint_to_sign demo_signer_lib (xpub_from_priv demo_key_lib (demo_pk 2)) (demo_reserve 100 Signing 970 [demo_input]) = Ok [([7], 4)]"
proof -
  have "demo_pk 1 \<noteq> demo_pk 2" by (simp add: demo_pk_def)
  then show ?thesis
    by (simp add: Checkpoint_to_sign_def demo_reserve_def batch_to_sign_def Batch_default_def Batch_signed_def BitcoinTx_default_def
        input_to_sign_def demo_input_def demo_ts_def ThresholdSig_needs_sig_def derive_pubkey_def demo_key_lib_def)
qed

lemma demo_submits:
  "checkpoint_sigs demo_signer_lib demo_key_lib id demo_signer 1000 (\<lambda>_. demo_reserves) (xpub_from_priv demo_key_lib (demo_pk 2)) (demo_pk 2) 100
   = Ok (Inr [demo_pk 2])"
proof -
  have "\<not> f64_gt (f64_bps 300) (f64_bps 400)" "\<not> f64_gt (f64_bps 0) (f64_bps 100)" by (simp_all add: f64_bps_gt)
  then have "check_change_rates demo_signer_lib id demo_signer 1000 demo_reserves demo_reserves = Ok ()"
    using demo_rates by (simp add: check_change_rates_def demo_signer_def)
  then show ?thesis
    using demo_to_sign by (simp add: checkpoint_sigs_def ready_to_sign_def sign_def demo_key_lib_def)
qed

theorem signer_enforces_limits_witness:
  "\<exists>amount_prev amount_now. reserve_value demo_signer_lib (demo_reserve 99 Complete 1000 []) = Ok amount_prev
     \<and> reserve_value demo_signer_lib (demo_reserve 100 Signing 970 [demo_input]) = Ok amount_now
     \<and> (amount_prev - amount_now) * 10000 < (400 + 1) * amount_prev \<and> 0 < amount_prev - amount_now"
  using signer_enforces_limits [OF demo_submits, where m = 400 and k = 100] demo_baseline demo_reserve_value
  by (simp add: demo_signer_def)

lemma demo_key_law: "key_law demo_signer_lib demo_key_lib"
  by (simp add: key_law_def demo_key_lib_def sig_valid_def)

lemma demo_reserve_inv:
  "cp_inv demo_signer_lib (demo_reserve 100 Signing 970 [demo_input])" "list_all batch_sized (cp_batches (demo_reserve 100 Signing 970 [demo_input]))"
proof -
  have "demo_pk 1 < demo_pk 2" "demo_pk 1 \<noteq> demo_pk 2" by (simp_all add: demo_pk_def numeral_eq_Suc)
  then have "ts_inv demo_signer_lib (demo_ts None None 0 [7])"
    by (auto simp: ts_inv_def demo_ts_def omap_inv_def threshold_of_def SIGSET_THRESHOLD_def share_verified_def)
  then show "cp_inv demo_signer_lib (demo_reserve 100 Signing 970 [demo_input])"
    by (simp add: cp_inv_def demo_reserve_def batch_inv_def Batch_default_def tx_inv_def BitcoinTx_default_def
        demo_input_def counted_def BitcoinTx_signed_def ThresholdSig_signed_def demo_ts_def)
  show "list_all batch_sized (cp_batches (demo_reserve 100 Signing 970 [demo_input]))"
    by (simp add: demo_reserve_def batch_sized_def Batch_default_def BitcoinTx_default_def)
qed

theorem signer_is_accepted_witness:
  "\<exists>q. try_sign_checkpoint demo_signer_lib demo_key_lib id demo_signer 1000 (demo_ctx []) (\<lambda>_. demo_reserves)
     (xpub_from_priv demo_key_lib (demo_pk 2)) (demo_pk 2) 100 = (Ok False, demo_reserves\<lparr>bc_checkpoints := q\<rparr>)"
proof -
  obtain tx where "Checkpoint_checkpoint_tx demo_signer_lib (demo_reserve 100 Signing 970 [demo_input]) = Ok tx"
    using demo_reserve_value(3) by (cases "Checkpoint_checkpoint_tx demo_signer_lib (demo_reserve 100 Signing 970 [demo_input])") auto
  from signer_is_accepted [OF demo_submits demo_key_law demo_reserves_sel(2) demo_reserve_inv this, of "demo_ctx []"]
  show ?thesis by (auto simp: exempt_from_fee_def demo_ctx_def)
qed

end
