(* ===== verification/Ethereum_Clients.thy ===== *)
theory Ethereum_Clients
  imports Ethereum_Ledger Signer
begin

text \<open>
  The clients of the Ethereum module: the signer of outgoing messages (src/src/ethereum/signer.rs) and the
  collection of the proofs of returns (src/src/ethereum/relayer.rs). The Ethereum node is the parameter \<open>eth_provider\<close>.
\<close>

section \<open>Signing\<close>

text \<open>A failed call leaves the chain as it is and ends the loop.\<close>

fun sign_eth_messages_loop ::
  "'m eth_lib_scheme \<Rightarrow> key_lib \<Rightarrow> ctx \<Rightarrow> xpub \<Rightarrow> xpriv \<Rightarrow> (u32 \<times> address \<times> u64 \<times> u32 \<times> message \<times> out_message_args) list
     \<Rightarrow> ('d ethereum, unit) call" where
  "sign_eth_messages_loop L K C xpub xpriv [] = lift_result (Ok ())"
| "sign_eth_messages_loop L K C xpub xpriv ((net_id, bridge_contract, msg_index, set_index, hash, msg) # rest) =
     cbind (lift_result (derive_pubkey L xpub set_index)) (\<lambda>pubkey.
     cbind (lift_result (sign L K xpriv [(hash, set_index)])) (\<lambda>sigs.
     cbind (lift_result (case sigs of [] \<Rightarrow> Err Panic | sg # _ \<Rightarrow> Ok sg)) (\<lambda>sg.
     cbind (\<lambda>eth. case Ethereum_sign L C net_id bridge_contract msg_index pubkey sg eth of
         (Ok _, eth') \<Rightarrow> (Ok (), eth')
       | (Err e, _) \<Rightarrow> (Err e, eth)) (\<lambda>_.
     sign_eth_messages_loop L K C xpub xpriv rest))))"

definition sign_eth_messages :: "'m eth_lib_scheme \<Rightarrow> key_lib \<Rightarrow> ctx \<Rightarrow> xpub \<Rightarrow> xpriv \<Rightarrow> ('d ethereum, unit) call" where
  "sign_eth_messages L K C xpub xpriv =
     cbind (reads (\<lambda>eth. Ethereum_to_sign L eth xpub)) (sign_eth_messages_loop L K C xpub xpriv)"

section \<open>Proofs of returns\<close>

record eth_provider =
  block_number :: "u64 result"
  state_root_of :: "u64 \<Rightarrow> bytes option result"
  last_return_nonce :: "u64 result"
  return_dest :: "u64 \<Rightarrow> string result"
  storage_proof_of :: "address \<Rightarrow> bytes list \<Rightarrow> u64 \<Rightarrow> proof_response result"

text \<open>The keys to prove for one return.\<close>

definition keys_of_return :: "'m trie_lib_scheme \<Rightarrow> string \<times> u64 \<Rightarrow> bytes list result" where
  "keys_of_return L = (\<lambda>(dest, index).
     rbind (map_result (dest_chunk_key L index) [0..<extra_slots_required (length dest)]) (\<lambda>chunks.
     Ok (dest_key L index # amount_key L index # sender_key L index # chunks)))"

text \<open>Errors of the node are errors of the relayer; the calls of the contract are unwrapped.\<close>

definition get_proofs ::
  "'m trie_lib_scheme \<Rightarrow> eth_provider \<Rightarrow> address \<Rightarrow> u64 \<Rightarrow> (bytes \<times> state_proof) result" where
  "get_proofs L P address index =
     rbind (block_number P) (\<lambda>block_id.
     rbind (state_root_of P block_id) (\<lambda>root.
     rbind (unwrap root) (\<lambda>state_root.
     rbind (or_panic (last_return_nonce P)) (\<lambda>contract_index.
     rbind (map_result (\<lambda>i. rbind (or_panic (return_dest P i)) (\<lambda>dest. Ok (dest, i))) [index..<contract_index]) (\<lambda>dests.
     rbind (map_result (keys_of_return L) dests) (\<lambda>keys_to_prove.
     rbind (storage_proof_of P address (concat keys_to_prove) block_id) (\<lambda>proof_res.
     rbind (or_panic (StateProof_from_response proof_res dests)) (\<lambda>state_proof.
     Ok (state_root, state_proof)))))))))"

section \<open>The signatures are accepted\<close>

lemma eth_sign_total:
  assumes "eth_ts_inv L ts" and "ThresholdSig_needs_sig ts pk" and "sig_valid L (ts_message ts) pk sg"
  shows "\<exists>ts'. ThresholdSig_sign L pk sg ts = Ok ts'"
proof -
  let ?t = "ts\<lparr>ts_threshold := threshold_of (total_power (ts_sigs ts))\<rparr>"
  have "\<exists>ts'. ThresholdSig_sign L pk sg ?t = Ok ts'"
    using assms by (intro ThresholdSig_sign_total) (auto simp: eth_ts_inv_def ThresholdSig_needs_sig_def)
  then show ?thesis by (auto simp: ThresholdSig_sign_Ok)
qed

lemma to_sign_entry:
  assumes "connection_to_sign L xpub net conn = Ok entries" and "(n, contract, msg_index, set_index, hash, args) \<in> set entries"
  obtains msg pk where "Connection_get conn msg_index = Ok msg" "msg \<in> set (co_outbox conn)" "derive_pubkey L xpub set_index = Ok pk"
    "ThresholdSig_needs_sig (om_sigs msg) pk" "hash = ts_message (om_sigs msg)" "n = net" "contract = co_bridge_contract conn"
proof -
  let ?entry = "\<lambda>(i, msg). rbind (derive_pubkey L xpub (om_sigset_index msg)) (\<lambda>pk.
      rbind (Connection_needs_sig conn (Suc i) pk) (\<lambda>needed. Ok (if needed then [(net, co_bridge_contract conn, Suc i,
        om_sigset_index msg, ts_message (om_sigs msg), om_msg msg)] else [])))"
  from assms obtain found where found: "map_result ?entry (enumerate 0 (co_outbox conn)) = Ok found"
    "(n, contract, msg_index, set_index, hash, args) \<in> set (concat found)" and whole: "co_message_index conn = length (co_outbox conn)"
    by (auto simp: connection_to_sign_def Let_def split: if_splits)
  from found(2) obtain i where i: "i < length found" and es: "(n, contract, msg_index, set_index, hash, args) \<in> set (found ! i)"
    by (auto simp: in_set_conv_nth [of _ found])
  from found(1) i have i: "i < length (co_outbox conn)" and entry: "?entry (i, co_outbox conn ! i) = Ok (found ! i)"
    by (auto simp only: map_result_Ok_iff length_enumerate nth_enumerate_eq add_0)
  from entry obtain pk needed where pk: "derive_pubkey L xpub (om_sigset_index (co_outbox conn ! i)) = Ok pk"
    and needs: "Connection_needs_sig conn (Suc i) pk = Ok needed"
    and "found ! i = (if needed then [(net, co_bridge_contract conn, Suc i, om_sigset_index (co_outbox conn ! i),
      ts_message (om_sigs (co_outbox conn ! i)), om_msg (co_outbox conn ! i))] else [])"
    by (auto simp del: if_split)
  with es have eqs: "needed" "n = net" "contract = co_bridge_contract conn" "msg_index = Suc i"
    "set_index = om_sigset_index (co_outbox conn ! i)" "hash = ts_message (om_sigs (co_outbox conn ! i))"
    by (simp_all split: if_splits)
  from needs have get: "Connection_get conn (Suc i) = Ok (co_outbox conn ! i)" using whole i
    by (auto simp: Connection_needs_sig_def Connection_get_def Connection_abs_index_def sub_u_def add_w_def split: if_splits)
  show thesis
    by (rule that [of "co_outbox conn ! i" pk]) (use get needs pk eqs i in \<open>simp_all add: Connection_needs_sig_def\<close>)
qed

text \<open>
  On a connection in good order every message that a signatory is asked to sign is one it can sign: the signature made for
  it is accepted.
\<close>

theorem eth_signature_is_accepted:
  assumes "signing_inv L conn" and "connection_to_sign L (xpub_from_priv K xpriv) net conn = Ok entries" and "key_law L K"
    and "(n, contract, msg_index, set_index, hash, args) \<in> set entries" and "sign L K xpriv [(hash, set_index)] = Ok [sg]"
    and "exempt_from_fee C = Ok ()"
  shows "\<exists>pk conn'. derive_pubkey L (xpub_from_priv K xpriv) set_index = Ok pk \<and> Connection_sign L C msg_index pk sg conn = (Ok (), conn')"
proof -
  obtain msg pk where e: "Connection_get conn msg_index = Ok msg" "msg \<in> set (co_outbox conn)" "derive_pubkey L (xpub_from_priv K xpriv) set_index = Ok pk"
    "ThresholdSig_needs_sig (om_sigs msg) pk" "hash = ts_message (om_sigs msg)"
    by (rule to_sign_entry [OF assms(2,4)])
  have "answers L (xpub_from_priv K xpriv) [(hash, set_index)] [sg]" by (rule sign_answers [OF assms(3,5)])
  with e(3,5) have "sig_valid L (ts_message (om_sigs msg)) pk sg" by (simp add: answers_def)
  moreover have "eth_ts_inv L (om_sigs msg)" using assms(1) e(2) by (auto simp: signing_inv_def list_all_iff msg_signing_inv_def)
  ultimately obtain ts' where "ThresholdSig_sign L pk sg (om_sigs msg) = Ok ts'" using eth_sign_total e(4) by blast
  moreover obtain i where "Connection_abs_index conn msg_index = Ok i" using e(1) by (auto simp: Connection_get_def)
  ultimately show ?thesis
    using e(1,3) assms(6) by (simp add: Connection_sign_def cbind_def lift_result_def reads_def modify_def)
qed

section \<open>The proofs fit their keys\<close>

text \<open>The node proves each key that was asked for, in that order; \<open>prove\<close> is the proof of a key.\<close>

definition provider_law :: "eth_provider \<Rightarrow> (bytes \<Rightarrow> encoded_proof) \<Rightarrow> bool" where
  "provider_law P prove \<longleftrightarrow> (\<forall>address keys block res. storage_proof_of P address keys block = Ok res \<longrightarrow> pr_storage_proof res = map prove keys)"

lemma encode_proof_Ok: "encode_proof nodes = Ok ns \<Longrightarrow> ns = nodes"
  by (auto simp: encode_proof_def length_vec_def map_result_Ok_iff list_eq_iff_nth_eq split: if_splits)

lemma encode_proofs_Ok: "map_result encode_proof ps = Ok qs \<Longrightarrow> qs = ps"
  by (auto simp: map_result_Ok_iff list_eq_iff_nth_eq dest!: encode_proof_Ok)

text \<open>The response cut along the destinations is the proofs of each return's keys.\<close>

lemma split_response:
  assumes "fold_result (\<lambda>(state_proofs, cursor) (dest, _ :: u64).
       let n = 3 + extra_slots_required (length dest) in
       if cursor + n > length storage then Err Panic
       else
       rbind (map_result encode_proof (take n (drop cursor storage))) (\<lambda>state_proof_for_index.
       rbind (length_vec 8 Panic state_proof_for_index) (\<lambda>p. Ok (state_proofs @ [p], cursor + n)))) (acc, length pre) dests = Ok (ps, c)"
    and "storage = pre @ concat kss"
    and "list_all2 (\<lambda>(dest :: string, _) ks. length ks = 3 + extra_slots_required (length dest)) dests kss"
  shows "ps = acc @ kss"
  using assms
proof (induction dests arbitrary: acc pre kss)
  case (Cons d dests)
  obtain dest i where d: "d = (dest, i)" by (cases d)
  from Cons.prems(3) obtain ks rest where kss: "kss = ks # rest" "length ks = 3 + extra_slots_required (length dest)"
    "list_all2 (\<lambda>(dest, _) ks. length ks = 3 + extra_slots_required (length dest)) dests rest"
    by (auto simp: list_all2_Cons1 d)
  have part: "take (3 + extra_slots_required (length dest)) (drop (length pre) storage) = ks"
    using Cons.prems(2) kss by simp
  have "storage = (pre @ ks) @ concat rest" using Cons.prems(2) kss(1) by simp
  from Cons.IH [OF _ this kss(3), of "acc @ [ks]"] Cons.prems(1) show ?case
    by (auto simp: d part kss(1,2) Let_def length_vec_def dest!: encode_proofs_Ok split: if_splits)
qed simp

lemma keys_of_return_length: "keys_of_return L (dest, i) = Ok ks \<Longrightarrow> length ks = 3 + extra_slots_required (length dest)"
  by (auto simp: keys_of_return_def map_result_Ok_iff)

text \<open>
  Of a node that answers as asked, the proofs collected for the returns from \<open>index\<close> on are, return by return, those of
  the keys of its destination, amount, sender and further slots, in the order in which they are verified.
\<close>

theorem proofs_fit_their_returns:
  assumes "get_proofs L P contract index = Ok (state_root, pr)" and "provider_law P prove"
  shows "\<exists>nonce. last_return_nonce P = Ok nonce \<and> sp_start_index pr = index \<and> length (sp_storage_proofs pr) = nonce - index
    \<and> (\<forall>j < nonce - index. \<exists>dest ks. return_dest P (index + j) = Ok dest \<and> keys_of_return L (dest, index + j) = Ok ks
          \<and> sp_storage_proofs pr ! j = map prove ks)"
proof -
  from assms(1) obtain nonce dests keys res block where nonce: "last_return_nonce P = Ok nonce"
    and dests: "map_result (\<lambda>i. rbind (or_panic (return_dest P i)) (\<lambda>dest. Ok (dest, i))) [index..<nonce] = Ok dests"
    and keys: "map_result (keys_of_return L) dests = Ok keys"
    and res: "storage_proof_of P contract (concat keys) block = Ok res" and pr: "StateProof_from_response res dests = Ok pr"
    by (auto simp: get_proofs_def or_panic_def split: result.splits)
  have storage: "pr_storage_proof res = [] @ concat (map (map prove) keys)"
    using assms(2) res by (simp add: provider_law_def map_concat)
  have at_index: "\<exists>dest. return_dest P (index + j) = Ok dest \<and> dests ! j = (dest, index + j)" if "j < nonce - index" for j
    using dests that by (auto simp: map_result_Ok_iff or_panic_def split: result.splits)
  have lens: "length dests = nonce - index" "length keys = nonce - index"
    using dests keys by (simp_all add: map_result_Ok_iff)
  have fits: "list_all2 (\<lambda>(dest, _) ks. length ks = 3 + extra_slots_required (length dest)) dests (map (map prove) keys)"
    using keys by (auto simp: list_all2_conv_all_nth map_result_Ok_iff dest!: keys_of_return_length split: prod.split)
  have "sp_storage_proofs pr = map (map prove) keys \<and> sp_start_index pr = snd (hd dests) \<and> dests \<noteq> []"
    using pr split_response [where pre = "[]" and acc = "[]", OF _ storage fits]
    by (auto simp: StateProof_from_response_def length_vec_def split: list.splits if_splits)
  moreover from this have "snd (hd dests) = index" using at_index [of 0] lens(1) by (cases dests) auto
  ultimately show ?thesis 
    using nonce lens at_index keys by (fastforce simp: map_result_Ok_iff)
qed

text \<open>With no return beyond \<open>index\<close>, the relayer panics: the response is cut starting at the first destination.\<close>

theorem no_new_return_panics:
  assumes "last_return_nonce P = Ok nonce" and "nonce \<le> index" and "storage_proof_of P contract [] block = Ok res"
    and "block_number P = Ok block" and "state_root_of P block = Ok (Some state_root)"
  shows "get_proofs L P contract index = Err Panic"
  using assms by (simp add: get_proofs_def or_panic_def StateProof_from_response_def)

end
