(* ===== verification/Frost.thy ===== *)
theory Frost
  imports Prelude
begin

text \<open>
  FROST threshold signing (src/src/frost): groups of share holders (mod.rs), the distributed key
  generation (dkg.rs) and the two signing rounds (signing.rs), behind the feature \<open>frost\<close>. The values of
  the frost crate are opaque byte strings; building a signing package and aggregating the shares are the
  parameters of \<open>frost_lib\<close>. \<open>disable_fee\<close> concerns only the fee plugin and has no counterpart here.
\<close>

section \<open>The frost crate\<close>

datatype frost_error = InvalidSignatureShare string | FrostError string

record frost_lib =
  SigningPackage_new :: "(u16 \<times> bytes) list \<Rightarrow> bytes \<Rightarrow> bytes"
  frost_aggregate :: "bytes \<Rightarrow> (u16 \<times> bytes) list \<Rightarrow> bytes \<Rightarrow> frost_error + bytes"
  frost_address_string :: "address \<Rightarrow> string"

text \<open>An identifier is the participant's index plus one.\<close>

definition frost_identifier :: "u16 \<Rightarrow> u16 result" where
  "frost_identifier participant_index = add_u16 participant_index 1"

definition assemble_by_identifier :: "(u16 \<times> 'a) list \<Rightarrow> (u16 \<times> 'a) list result" where
  "assemble_by_identifier packages =
     rbind (map_result (\<lambda>(i, p). rbind (frost_identifier i) (\<lambda>k. Ok (k, p))) packages) (\<lambda>entries.
     Ok (fold (\<lambda>(k, p). omap_insert (\<lambda>k. k) k p) entries []))"

definition disassemble_by_identifier :: "(u16 \<times> 'a) list \<Rightarrow> (u16 \<times> 'a) list result" where
  "disassemble_by_identifier m =
     rbind (map_result (\<lambda>i. rbind (frost_identifier (i mod 2 ^ 16)) (\<lambda>k.
         Ok (case map_of m k of None \<Rightarrow> [] | Some p \<Rightarrow> [(i mod 2 ^ 16, p)]))) [0..<Suc (length m)]) (\<lambda>found.
     Ok (concat found))"

section \<open>Configurations\<close>

record participant =
  pt_address :: address
  pt_shares :: u16

record frost_config =
  fc_threshold :: u16
  fc_participants :: "participant list"

text \<open>What is read of a validator of the staking module.\<close>

record staking_validator =
  sv_address :: address
  sv_amount_staked :: u64

definition FrostConfig_from_staking ::
  "staking_validator list result \<Rightarrow> u16 \<Rightarrow> u16 \<Rightarrow> address list \<Rightarrow> frost_config result" where
  "FrostConfig_from_staking all_validators top_n threshold absent =
     rbind all_validators (\<lambda>validators.
     let validators = sort_key (\<lambda>v. if sv_address v \<in> set absent then 0 else sv_amount_staked v) validators;
         threshold = min threshold (length validators mod 2 ^ 16) in
     Ok \<lparr>fc_threshold = threshold,
         fc_participants = map (\<lambda>v. \<lparr>pt_address = sv_address v, pt_shares = 1\<rparr>) (take top_n validators)\<rparr>)"

definition FrostConfig_total_shares :: "frost_config \<Rightarrow> u16 result" where
  "FrostConfig_total_shares config = fold_result (\<lambda>n p. add_u16 n (pt_shares p)) 0 (fc_participants config)"

definition FrostConfig_contains :: "frost_config \<Rightarrow> address \<Rightarrow> bool" where
  "FrostConfig_contains config addr = list_ex (\<lambda>p. pt_address p = addr) (fc_participants config)"

fun share_range_from :: "'m frost_lib_scheme \<Rightarrow> address \<Rightarrow> u16 \<Rightarrow> participant list \<Rightarrow> (u16 \<times> u16) result" where
  "share_range_from L addr index [] = Err (App (''Participant not found: '' @ frost_address_string L addr))"
| "share_range_from L addr index (p # ps) =
     rbind (add_u16 index (pt_shares p)) (\<lambda>end_index.
     if pt_address p = addr then Ok (index, end_index) else share_range_from L addr end_index ps)"

definition FrostConfig_share_range :: "'m frost_lib_scheme \<Rightarrow> frost_config \<Rightarrow> address \<Rightarrow> (u16 \<times> u16) result" where
  "FrostConfig_share_range L config addr = share_range_from L addr 0 (fc_participants config)"

section \<open>Key generation\<close>

datatype dkg_state = Dkg_Round1 | Dkg_Round2 | Dkg_Attesting | Dkg_Complete

record dkg =
  dk_participants :: u16
  dk_round1 :: "(u16 \<times> bytes) list"
  dk_round1_len :: u16
  dk_round2 :: "(u16 \<times> (u16 \<times> bytes) list) list"
  dk_round2_len :: u16
  dk_group_pubkey :: "bytes option"
  dk_attested :: "(u16 \<times> unit) list"
  dk_attested_len :: u16

definition Dkg_from_config :: "frost_config \<Rightarrow> dkg result" where
  "Dkg_from_config config =
     rbind (FrostConfig_total_shares config) (\<lambda>participants.
     Ok \<lparr>dk_participants = participants, dk_round1 = [], dk_round1_len = 0, dk_round2 = [], dk_round2_len = 0,
         dk_group_pubkey = None, dk_attested = [], dk_attested_len = 0\<rparr>)"

definition Dkg_state :: "dkg \<Rightarrow> dkg_state" where
  "Dkg_state d =
     (if dk_round1_len d < dk_participants d then Dkg_Round1
      else if dk_round2_len d < dk_participants d then Dkg_Round2
      else if dk_attested_len d < dk_participants d then Dkg_Attesting
      else Dkg_Complete)"

definition Dkg_submit_round1 :: "u16 \<Rightarrow> bytes \<Rightarrow> (dkg, unit) call" where
  "Dkg_submit_round1 participant package =
     cbind (reads (\<lambda>d. if Dkg_state d \<noteq> Dkg_Round1 then Err (App ''Round 1 already complete'') else Ok ())) (\<lambda>_.
     cbind (reads (\<lambda>d. if omap_contains participant (dk_round1 d) then Err (App ''Round 1 package already submitted'') else Ok ())) (\<lambda>_.
     cbind (modify (dk_round1_update (omap_insert (\<lambda>k. k) participant package))) (\<lambda>_.
     cbind (reads (\<lambda>d. add_u16 (dk_round1_len d) 1)) (\<lambda>n. modify (dk_round1_len_update (\<lambda>_. n))))))"

definition Dkg_submit_round2 :: "u16 \<Rightarrow> (u16 \<times> bytes) list \<Rightarrow> (dkg, unit) call" where
  "Dkg_submit_round2 participant packages =
     cbind (reads (\<lambda>d. if Dkg_state d \<noteq> Dkg_Round2 then Err (App ''Not currently in round 2'') else Ok ())) (\<lambda>_.
     cbind (reads (\<lambda>d. if omap_contains participant (dk_round2 d) then Err (App ''Round 2 packages already submitted'') else Ok ())) (\<lambda>_.
     cbind (modify (dk_round2_update (omap_insert (\<lambda>k. k) participant
              (fold (\<lambda>(receiver, package). omap_insert (\<lambda>k. k) receiver package) packages [])))) (\<lambda>_.
     cbind (reads (\<lambda>d. add_u16 (dk_round2_len d) 1)) (\<lambda>n. modify (dk_round2_len_update (\<lambda>_. n))))))"

definition Dkg_attest_pubkey_package :: "u16 \<Rightarrow> bytes \<Rightarrow> (dkg, unit) call" where
  "Dkg_attest_pubkey_package participant package =
     cbind (reads (\<lambda>d. if omap_contains participant (dk_attested d) then Err (App ''Participant already attested'') else Ok ())) (\<lambda>_.
     cbind (\<lambda>d. case dk_group_pubkey d of
         Some inner \<Rightarrow> if inner \<noteq> package then (Err (App ''Participants computed different pubkeys''), d) else (Ok (), d)
       | None \<Rightarrow> (Ok (), d\<lparr>dk_group_pubkey := Some package\<rparr>)) (\<lambda>_.
     cbind (reads (\<lambda>d. add_u16 (dk_attested_len d) 1)) (\<lambda>n. modify (dk_attested_len_update (\<lambda>_. n)))))"

definition Dkg_group_pubkey :: "dkg \<Rightarrow> bytes option" where
  "Dkg_group_pubkey d = (if Dkg_state d = Dkg_Complete then dk_group_pubkey d else None)"

definition Dkg_round1_packages :: "dkg \<Rightarrow> (u16 \<times> bytes) list" where
  "Dkg_round1_packages d =
     List.map_filter (\<lambda>i. map_option (Pair i) (map_of (dk_round1 d) i)) [0..<dk_participants d]"

definition Dkg_round2_packages :: "dkg \<Rightarrow> u16 \<Rightarrow> (u16 \<times> bytes) list" where
  "Dkg_round2_packages d receiver =
     List.map_filter (\<lambda>sender. case map_of (dk_round2 d) sender of
         None \<Rightarrow> None
       | Some bundle \<Rightarrow> map_option (Pair sender) (map_of bundle receiver)) [0..<dk_participants d]"

definition Dkg_absent :: "dkg \<Rightarrow> u16 \<Rightarrow> bool" where
  "Dkg_absent d participant \<longleftrightarrow> \<not> omap_contains participant (dk_round1 d)"

definition Dkg_requires_action_from :: "dkg \<Rightarrow> u16 \<Rightarrow> bool" where
  "Dkg_requires_action_from d participant =
     (case Dkg_state d of
        Dkg_Round1 \<Rightarrow> Dkg_absent d participant
      | Dkg_Round2 \<Rightarrow> \<not> omap_contains participant (dk_round2 d)
      | Dkg_Attesting \<Rightarrow> \<not> omap_contains participant (dk_attested d)
      | Dkg_Complete \<Rightarrow> False)"

section \<open>Signing\<close>

datatype signing_state = Sig_Round1 | Sig_Round2 | Sig_Complete

record signing =
  si_config :: frost_config
  si_message :: bytes
  si_commitments :: "((u32 \<times> u16) \<times> bytes) list"
  si_commitments_len :: u16
  si_signing_package :: "bytes option"
  si_sig_shares :: "((u32 \<times> u16) \<times> bytes) list"
  si_sig_shares_len :: u16
  si_signature :: "bytes option"
  si_iteration :: u32
  si_iteration_start_seconds :: int

definition Signing_new :: "frost_config \<Rightarrow> bytes \<Rightarrow> int \<Rightarrow> signing" where
  "Signing_new config message now =
     \<lparr>si_config = config, si_message = message, si_commitments = [], si_commitments_len = 0, si_signing_package = None,
      si_sig_shares = [], si_sig_shares_len = 0, si_signature = None, si_iteration = 0, si_iteration_start_seconds = now\<rparr>"

definition Signing_state :: "signing \<Rightarrow> signing_state" where
  "Signing_state s =
     (if si_commitments_len s < fc_threshold (si_config s) then Sig_Round1
      else if si_sig_shares_len s < fc_threshold (si_config s) then Sig_Round2
      else Sig_Complete)"

definition Signing_next_iteration :: "int \<Rightarrow> (signing, unit) call" where
  "Signing_next_iteration now =
     cbind (reads (\<lambda>s. add_u32 (si_iteration s) 1)) (\<lambda>iteration.
     modify (\<lambda>s. s\<lparr>si_iteration := iteration, si_commitments_len := 0, si_sig_shares_len := 0, si_signing_package := None,
       si_iteration_start_seconds := now\<rparr>))"

definition Signing_advance_with_timeout :: "int \<Rightarrow> int \<Rightarrow> (signing, unit) call" where
  "Signing_advance_with_timeout now timeout =
     cbind (reads (\<lambda>s. add_i64 (si_iteration_start_seconds s) timeout)) (\<lambda>deadline.
     cbind (reads (\<lambda>s. Ok (now > deadline \<and> Signing_state s \<noteq> Sig_Complete))) (\<lambda>due.
     if due then Signing_next_iteration now else lift_result (Ok ())))"

definition Signing_requires_action_from :: "signing \<Rightarrow> u16 \<Rightarrow> bool" where
  "Signing_requires_action_from s participant =
     (case Signing_state s of
        Sig_Round1 \<Rightarrow> \<not> omap_contains (si_iteration s, participant) (si_commitments s)
      | Sig_Round2 \<Rightarrow> \<not> omap_contains (si_iteration s, participant) (si_sig_shares s)
      | Sig_Complete \<Rightarrow> False)"

text \<open>The entries of the current iteration, in the order of the map.\<close>

definition of_iteration :: "u32 \<Rightarrow> ((u32 \<times> u16) \<times> bytes) list \<Rightarrow> (u16 \<times> bytes) list" where
  "of_iteration iteration m = List.map_filter (\<lambda>((i, p), v). if i \<noteq> iteration then None else Some (p, v)) m"

definition Signing_build_signing_package :: "'m frost_lib_scheme \<Rightarrow> (signing, unit) call" where
  "Signing_build_signing_package L =
     cbind (reads (\<lambda>s. if si_signing_package s \<noteq> None then Err (App ''Signing package already built'') else Ok ())) (\<lambda>_.
     cbind (reads (\<lambda>s. assemble_by_identifier (of_iteration (si_iteration s) (si_commitments s)))) (\<lambda>commitments.
     modify (\<lambda>s. s\<lparr>si_signing_package := Some (SigningPackage_new L commitments (si_message s))\<rparr>)))"

definition Signing_submit_commitments :: "'m frost_lib_scheme \<Rightarrow> u32 \<Rightarrow> u16 \<Rightarrow> bytes \<Rightarrow> (signing, unit) call" where
  "Signing_submit_commitments L iteration participant commitments =
     cbind (reads (\<lambda>s. if Signing_state s \<noteq> Sig_Round1 then Err (App ''Not in round 1'') else Ok ())) (\<lambda>_.
     cbind (reads (\<lambda>s. if iteration \<noteq> si_iteration s then Err (App ''Invalid iteration'') else Ok ())) (\<lambda>_.
     cbind (reads (\<lambda>s. if omap_contains (iteration, participant) (si_commitments s)
              then Err (App ''Commitment already submitted'') else Ok ())) (\<lambda>_.
     cbind (modify (\<lambda>s. s\<lparr>si_commitments := omap_insert (\<lambda>k. k) (iteration, participant) commitments (si_commitments s)\<rparr>)) (\<lambda>_.
     cbind (reads (\<lambda>s. add_u16 (si_commitments_len s) 1)) (\<lambda>n.
     cbind (modify (si_commitments_len_update (\<lambda>_. n))) (\<lambda>_.
     cbind (reads (\<lambda>s. Ok (Signing_state s = Sig_Round2))) (\<lambda>ready.
     if ready then Signing_build_signing_package L else lift_result (Ok ()))))))))"

definition Signing_aggregate_signature :: "'m frost_lib_scheme \<Rightarrow> bytes \<Rightarrow> (signing, unit) call" where
  "Signing_aggregate_signature L pubkey_package =
     cbind (reads (\<lambda>s. ok_or (App ''Signing package not built'') (si_signing_package s))) (\<lambda>signing_package.
     cbind (reads (\<lambda>s. if si_signature s \<noteq> None then Err (App ''Signature already aggregated'') else Ok ())) (\<lambda>_.
     cbind (reads (\<lambda>s. assemble_by_identifier (of_iteration (si_iteration s) (si_sig_shares s)))) (\<lambda>sig_shares.
     case frost_aggregate L signing_package sig_shares pubkey_package of
       Inr signature \<Rightarrow> modify (si_signature_update (\<lambda>_. Some signature))
     | Inl (InvalidSignatureShare culprit) \<Rightarrow> lift_result (Err (App (''Invalid signature share from '' @ culprit)))
     | Inl (FrostError e) \<Rightarrow> lift_result (Err (App (''Failed to aggregate signature: '' @ e))))))"

definition Signing_submit_sig_share ::
  "'m frost_lib_scheme \<Rightarrow> u32 \<Rightarrow> u16 \<Rightarrow> bytes \<Rightarrow> bytes \<Rightarrow> (signing, unit) call" where
  "Signing_submit_sig_share L iteration participant share pubkey_package =
     cbind (reads (\<lambda>s. if Signing_state s \<noteq> Sig_Round2 then Err (App ''Not in round 2'') else Ok ())) (\<lambda>_.
     cbind (reads (\<lambda>s. if omap_contains (iteration, participant) (si_sig_shares s)
              then Err (App ''Signature share already submitted'') else Ok ())) (\<lambda>_.
     cbind (reads (\<lambda>s. if \<not> omap_contains (iteration, participant) (si_commitments s)
              then Err (App ''Participant not included in this round'') else Ok ())) (\<lambda>_.
     cbind (modify (\<lambda>s. s\<lparr>si_sig_shares := omap_insert (\<lambda>k. k) (iteration, participant) share (si_sig_shares s)\<rparr>)) (\<lambda>_.
     cbind (reads (\<lambda>s. add_u16 (si_sig_shares_len s) 1)) (\<lambda>n.
     cbind (modify (si_sig_shares_len_update (\<lambda>_. n))) (\<lambda>_.
     cbind (reads (\<lambda>s. Ok (Signing_state s = Sig_Complete))) (\<lambda>complete.
     if complete then Signing_aggregate_signature L pubkey_package else lift_result (Ok ()))))))))"

section \<open>Groups\<close>

record frost_group =
  fg_config :: frost_config
  fg_dkg :: dkg
  fg_signing :: "signing list"
  fg_created_at :: int

definition FrostGroup_with_config :: "frost_config \<Rightarrow> int \<Rightarrow> frost_group result" where
  "FrostGroup_with_config config now =
     rbind (Dkg_from_config config) (\<lambda>dkg.
     Ok \<lparr>fg_config = config, fg_dkg = dkg, fg_signing = [], fg_created_at = now\<rparr>)"

definition FrostGroup_signer :: "ctx \<Rightarrow> address result" where
  "FrostGroup_signer C =
     rbind (ok_or (Coins ''No Signer context available'') (cx_signer C)) (ok_or (Coins ''Call must be signed''))"

definition FrostGroup_now :: "ctx \<Rightarrow> int result" where
  "FrostGroup_now C = ok_or (App ''No time context available'') (cx_time C)"

definition FrostGroup_push_message :: "ctx \<Rightarrow> bytes \<Rightarrow> (frost_group, unit) call" where
  "FrostGroup_push_message C message =
     cbind (lift_result (FrostGroup_now C)) (\<lambda>now.
     modify (\<lambda>g. g\<lparr>fg_signing := fg_signing g @ [Signing_new (fg_config g) message now]\<rparr>))"

text \<open>A loop of calls, a call on the key generation and one on the signing at an index.\<close>

fun for_calls :: "('a \<Rightarrow> ('s, unit) call) \<Rightarrow> 'a list \<Rightarrow> ('s, unit) call" where
  "for_calls f [] = lift_result (Ok ())"
| "for_calls f (x # xs) = cbind (f x) (\<lambda>_. for_calls f xs)"

definition on_dkg :: "(dkg, 'a) call \<Rightarrow> (frost_group, 'a) call" where
  "on_dkg f g = (case f (fg_dkg g) of (r, d) \<Rightarrow> (r, g\<lparr>fg_dkg := d\<rparr>))"

definition on_nth :: "error \<Rightarrow> nat \<Rightarrow> ('s, 'a) call \<Rightarrow> ('s list, 'a) call" where
  "on_nth e i f xs = (if i < length xs then case f (xs ! i) of (r, x) \<Rightarrow> (r, xs[i := x]) else (Err e, xs))"

definition on_signing :: "u64 \<Rightarrow> (signing, 'a) call \<Rightarrow> (frost_group, 'a) call" where
  "on_signing sig_index f g =
     (case on_nth (App ''Signing not found'') sig_index f (fg_signing g) of (r, ss) \<Rightarrow> (r, g\<lparr>fg_signing := ss\<rparr>))"

text \<open>\<open>share_range.start + offset as u16\<close> for each of the values.\<close>

definition for_shares :: "u16 \<Rightarrow> (u16 \<Rightarrow> 'a \<Rightarrow> ('s, unit) call) \<Rightarrow> 'a list \<Rightarrow> ('s, unit) call" where
  "for_shares start f xs =
     for_calls (\<lambda>(offset, x). cbind (lift_result (add_u16 start (offset mod 2 ^ 16))) (\<lambda>participant. f participant x)) (enumerate 0 xs)"

definition signer_range :: "'m frost_lib_scheme \<Rightarrow> ctx \<Rightarrow> (frost_group, u16 \<times> u16) call" where
  "signer_range L C =
     cbind (lift_result (FrostGroup_signer C)) (\<lambda>addr. reads (\<lambda>g. FrostConfig_share_range L (fg_config g) addr))"

definition FrostGroup_submit_dkg_round1 :: "'m frost_lib_scheme \<Rightarrow> ctx \<Rightarrow> bytes list \<Rightarrow> (frost_group, unit) call" where
  "FrostGroup_submit_dkg_round1 L C packages =
     cbind (signer_range L C) (\<lambda>(start, stop).
     if stop - start \<noteq> length packages then lift_result (Err (App ''Invalid number of packages''))
     else for_shares start (\<lambda>participant package. on_dkg (Dkg_submit_round1 participant package)) packages)"

definition FrostGroup_submit_dkg_round2 :: "'m frost_lib_scheme \<Rightarrow> ctx \<Rightarrow> (u16 \<times> bytes) list list \<Rightarrow> (frost_group, unit) call" where
  "FrostGroup_submit_dkg_round2 L C packages =
     cbind (signer_range L C) (\<lambda>(start, stop).
     if stop - start \<noteq> length packages then lift_result (Err (App ''Invalid number of packages''))
     else for_shares start (\<lambda>participant packages. on_dkg (Dkg_submit_round2 participant packages)) packages)"

definition FrostGroup_attest_pubkey_package :: "'m frost_lib_scheme \<Rightarrow> ctx \<Rightarrow> bytes \<Rightarrow> (frost_group, unit) call" where
  "FrostGroup_attest_pubkey_package L C pubkey_package =
     cbind (signer_range L C) (\<lambda>(start, stop).
     for_calls (\<lambda>i. on_dkg (Dkg_attest_pubkey_package i pubkey_package)) [start..<stop])"

definition FrostGroup_submit_commitments ::
  "'m frost_lib_scheme \<Rightarrow> ctx \<Rightarrow> u64 \<Rightarrow> u32 \<Rightarrow> bytes list \<Rightarrow> (frost_group, unit) call" where
  "FrostGroup_submit_commitments L C sig_index iteration commitments =
     cbind (signer_range L C) (\<lambda>(start, _).
     on_signing sig_index (for_shares start (\<lambda>participant commitment.
       Signing_submit_commitments L iteration participant commitment) commitments))"

definition FrostGroup_submit_sig_shares ::
  "'m frost_lib_scheme \<Rightarrow> ctx \<Rightarrow> u64 \<Rightarrow> u32 \<Rightarrow> bytes list \<Rightarrow> (frost_group, unit) call" where
  "FrostGroup_submit_sig_shares L C sig_index iteration shares =
     cbind (signer_range L C) (\<lambda>(start, _).
     cbind (reads (\<lambda>g. ok_or (App ''Pubkey not yet generated for group'') (Dkg_group_pubkey (fg_dkg g)))) (\<lambda>pubkey_package.
     on_signing sig_index (for_shares start (\<lambda>participant share.
       Signing_submit_sig_share L iteration participant share pubkey_package) shares)))"

definition FrostGroup_advance_with_timeout :: "ctx \<Rightarrow> int \<Rightarrow> (frost_group, unit) call" where
  "FrostGroup_advance_with_timeout C timeout =
     cbind (lift_result (FrostGroup_now C)) (\<lambda>now g.
     for_calls (\<lambda>i. on_signing i (Signing_advance_with_timeout now timeout)) [0..<length (fg_signing g)] g)"

definition FrostGroup_absent :: "'m frost_lib_scheme \<Rightarrow> frost_group \<Rightarrow> address list result" where
  "FrostGroup_absent L g =
     (if Dkg_state (fg_dkg g) \<noteq> Dkg_Round1 then Ok []
      else
      rbind (map_result (\<lambda>p.
          rbind (FrostConfig_share_range L (fg_config g) (pt_address p)) (\<lambda>(start, stop).
          Ok (if list_ex (Dkg_absent (fg_dkg g)) [start..<stop] then [pt_address p] else [])))
        (fc_participants (fg_config g))) (\<lambda>found. Ok (concat found)))"

section \<open>The module\<close>

type_synonym frost = "frost_group list"

definition at_group :: "u64 \<Rightarrow> (frost_group, 'a) call \<Rightarrow> (frost, 'a) call" where
  "at_group index f = on_nth (App ''Sig not found'') index f"

definition Frost_submit_dkg_round1 :: "'m frost_lib_scheme \<Rightarrow> ctx \<Rightarrow> u64 \<Rightarrow> bytes list \<Rightarrow> (frost, unit) call" where
  "Frost_submit_dkg_round1 L C index packages = at_group index (FrostGroup_submit_dkg_round1 L C packages)"

definition Frost_submit_dkg_round2 :: "'m frost_lib_scheme \<Rightarrow> ctx \<Rightarrow> u64 \<Rightarrow> (u16 \<times> bytes) list list \<Rightarrow> (frost, unit) call" where
  "Frost_submit_dkg_round2 L C index packages = at_group index (FrostGroup_submit_dkg_round2 L C packages)"

definition Frost_attest_dkg_pubkey :: "'m frost_lib_scheme \<Rightarrow> ctx \<Rightarrow> u64 \<Rightarrow> bytes \<Rightarrow> (frost, unit) call" where
  "Frost_attest_dkg_pubkey L C index package = at_group index (FrostGroup_attest_pubkey_package L C package)"

definition Frost_submit_commitments ::
  "'m frost_lib_scheme \<Rightarrow> ctx \<Rightarrow> u64 \<Rightarrow> u64 \<Rightarrow> u32 \<Rightarrow> bytes list \<Rightarrow> (frost, unit) call" where
  "Frost_submit_commitments L C group_index sig_index iteration commitments =
     at_group group_index (FrostGroup_submit_commitments L C sig_index iteration commitments)"

definition Frost_submit_sig_shares ::
  "'m frost_lib_scheme \<Rightarrow> ctx \<Rightarrow> u64 \<Rightarrow> u64 \<Rightarrow> u32 \<Rightarrow> bytes list \<Rightarrow> (frost, unit) call" where
  "Frost_submit_sig_shares L C group_index sig_index iteration shares =
     at_group group_index (FrostGroup_submit_sig_shares L C sig_index iteration shares)"

definition get_group :: "string \<Rightarrow> frost \<Rightarrow> u64 \<Rightarrow> frost_group result" where
  "get_group msg fr index = (if index < length fr then Ok (fr ! index) else Err (App msg))"

definition get_signing :: "string \<Rightarrow> frost_group \<Rightarrow> u64 \<Rightarrow> signing result" where
  "get_signing msg g sig_index = (if sig_index < length (fg_signing g) then Ok (fg_signing g ! sig_index) else Err (App msg))"

definition Frost_dkg_round1_packages :: "frost \<Rightarrow> u64 \<Rightarrow> (u16 \<times> bytes) list result" where
  "Frost_dkg_round1_packages fr index = rbind (get_group ''Sig not found'' fr index) (\<lambda>g. Ok (Dkg_round1_packages (fg_dkg g)))"

definition Frost_dkg_round2_packages :: "frost \<Rightarrow> u64 \<Rightarrow> u16 \<Rightarrow> (u16 \<times> bytes) list result" where
  "Frost_dkg_round2_packages fr index receiver =
     rbind (get_group ''Sig not found'' fr index) (\<lambda>g. Ok (Dkg_round2_packages (fg_dkg g) receiver))"

definition Frost_dkg_state :: "frost \<Rightarrow> u64 \<Rightarrow> dkg_state result" where
  "Frost_dkg_state fr index = rbind (get_group ''Sig not found'' fr index) (\<lambda>g. Ok (Dkg_state (fg_dkg g)))"

definition Frost_signing_state :: "frost \<Rightarrow> u64 \<Rightarrow> u64 \<Rightarrow> signing_state result" where
  "Frost_signing_state fr group_index sig_index =
     rbind (get_group ''Sig not found'' fr group_index) (\<lambda>g.
     rbind (get_signing ''Signing not found'' g sig_index) (\<lambda>s. Ok (Signing_state s)))"

definition Frost_signing_state_with_iteration :: "frost \<Rightarrow> u64 \<Rightarrow> u64 \<Rightarrow> (u32 \<times> signing_state) result" where
  "Frost_signing_state_with_iteration fr group_index sig_index =
     rbind (get_group ''Sig not found'' fr group_index) (\<lambda>g.
     rbind (get_signing ''Signing not found'' g sig_index) (\<lambda>s. Ok (si_iteration s, Signing_state s)))"

definition Frost_config :: "frost \<Rightarrow> u64 \<Rightarrow> frost_config result" where
  "Frost_config fr index = rbind (get_group ''Sig not found'' fr index) (\<lambda>g. Ok (fg_config g))"

definition Frost_group_pubkey :: "frost \<Rightarrow> u64 \<Rightarrow> bytes option result" where
  "Frost_group_pubkey fr index = rbind (get_group ''Sig not found'' fr index) (\<lambda>g. Ok (Dkg_group_pubkey (fg_dkg g)))"

definition Frost_signing_package :: "frost \<Rightarrow> u64 \<Rightarrow> u64 \<Rightarrow> bytes option result" where
  "Frost_signing_package fr group_index sig_index =
     rbind (get_group ''Group not found'' fr group_index) (\<lambda>g.
     rbind (get_signing ''Sig not found'' g sig_index) (\<lambda>s. Ok (si_signing_package s)))"

definition Frost_signature :: "frost \<Rightarrow> u64 \<Rightarrow> u64 \<Rightarrow> bytes option result" where
  "Frost_signature fr group_index sig_index =
     rbind (get_group ''Group not found'' fr group_index) (\<lambda>g.
     rbind (get_signing ''Sig not found'' g sig_index) (\<lambda>s. Ok (si_signature s)))"

definition Frost_dkg_action_required :: "'m frost_lib_scheme \<Rightarrow> frost \<Rightarrow> address \<Rightarrow> u64 list result" where
  "Frost_dkg_action_required L fr addr =
     rbind (map_result (\<lambda>i.
         if i \<noteq> length fr - 1 then Ok []
         else
         rbind (get_group ''Sig not found'' fr i) (\<lambda>g.
         if FrostConfig_contains (fg_config g) addr then
           rbind (FrostConfig_share_range L (fg_config g) addr) (\<lambda>(start, stop).
           Ok (if list_ex (Dkg_requires_action_from (fg_dkg g)) [start..<stop] then [i] else []))
         else Ok [])) [0..<length fr]) (\<lambda>found. Ok (concat found))"

definition Frost_signing_action_required :: "'m frost_lib_scheme \<Rightarrow> frost \<Rightarrow> address \<Rightarrow> (u64 \<times> u64) list result" where
  "Frost_signing_action_required L fr addr =
     rbind (map_result (\<lambda>i.
         rbind (get_group ''Sig not found'' fr i) (\<lambda>g.
         if Dkg_state (fg_dkg g) \<noteq> Dkg_Complete \<or> \<not> FrostConfig_contains (fg_config g) addr then Ok []
         else
         rbind (map_result (\<lambda>(j, s).
             rbind (FrostConfig_share_range L (fg_config g) addr) (\<lambda>(start, stop).
             Ok (if list_ex (Signing_requires_action_from s) [start..<stop] then [(i, j)] else [])))
           (enumerate 0 (fg_signing g))) (\<lambda>found. Ok (concat found)))) [0..<length fr]) (\<lambda>found. Ok (concat found))"

text \<open>The loop runs over the indices below its bound from the top.\<close>

fun recent_with_key :: "frost \<Rightarrow> nat \<Rightarrow> u64 option result" where
  "recent_with_key fr 0 = Ok None"
| "recent_with_key fr (Suc i) =
     rbind (Frost_group_pubkey fr i) (\<lambda>key. if key \<noteq> None then Ok (Some i) else recent_with_key fr i)"

definition Frost_most_recent_with_key :: "frost \<Rightarrow> u64 option result" where
  "Frost_most_recent_with_key fr = recent_with_key fr (length fr)"

definition Frost_advance_with_timeout :: "ctx \<Rightarrow> int \<Rightarrow> (frost, unit) call" where
  "Frost_advance_with_timeout C timeout fr =
     for_calls (\<lambda>i. on_nth (App ''Group not found'') i (FrostGroup_advance_with_timeout C timeout)) [0..<length fr] fr"

section \<open>The step of the application\<close>

definition FROST_GROUP_INTERVAL :: int where "FROST_GROUP_INTERVAL = 10 * 60"
definition FROST_TOP_N :: u16 where "FROST_TOP_N = 5"
definition FROST_THRESHOLD :: u16 where "FROST_THRESHOLD = 3"

text \<open>\<open>unwrap_or_default\<close> replaces an error, not a panic.\<close>

definition absent_of_last :: "'m frost_lib_scheme \<Rightarrow> frost \<Rightarrow> address list result" where
  "absent_of_last L fr =
     (if fr = [] then Ok []
      else case FrostGroup_absent L (last fr) of Ok absent \<Rightarrow> Ok absent | Err Panic \<Rightarrow> Err Panic | Err _ \<Rightarrow> Ok [])"

definition InnerApp_step_frost ::
  "'m frost_lib_scheme \<Rightarrow> ctx \<Rightarrow> staking_validator list result \<Rightarrow> int \<Rightarrow> (frost, unit) call" where
  "InnerApp_step_frost L C all_validators now =
     cbind (reads (absent_of_last L)) (\<lambda>absent.
     cbind (reads (\<lambda>fr. add_i64 (if fr = [] then 0 else fg_created_at (last fr)) FROST_GROUP_INTERVAL)) (\<lambda>due.
     if now > due then
       cbind (lift_result (FrostConfig_from_staking all_validators FROST_TOP_N FROST_THRESHOLD absent)) (\<lambda>frost_config.
       if length (fc_participants frost_config) < 2 then lift_result (Ok ())
       else
       cbind (lift_result (FrostGroup_with_config frost_config now)) (\<lambda>group.
       cbind (modify (\<lambda>fr. fr @ [group])) (\<lambda>_.
       Frost_advance_with_timeout C (60 * 5))))
     else Frost_advance_with_timeout C (60 * 5)))"

end
