(* ===== verification/Frost_Properties.thy ===== *)
theory Frost_Properties
  imports Frost
begin

text \<open>
  What the key generation and the signing rounds of FROST guarantee: every round counts each participant
  once, a signer acts for its own shares in the key generation, a signature is the aggregate of one
  iteration's shares, and a signing session can always go on. The last section shows where the code
  falls short of this.
\<close>

section \<open>Counted rounds\<close>

lemma for_calls_invariant:
  assumes "for_calls f xs s = (Ok (), s')" and "P s"
    and "\<And>x s s'. x \<in> set xs \<Longrightarrow> P s \<Longrightarrow> f x s = (Ok (), s') \<Longrightarrow> P s'"
  shows "P s'"
  using assms
proof (induction xs arbitrary: s)
  case (Cons x xs)
  from Cons.prems(1) obtain t where t: "f x s = (Ok (), t)" and rest: "for_calls f xs t = (Ok (), s')" by auto
  show ?case by (rule Cons.IH [OF rest]) (use Cons.prems t in auto)
qed simp

text \<open>
  The contract that the rounds share: a submission is under a new key and moves the counter by one.
\<close>

locale counted_round =
  fixes keys :: "'s \<Rightarrow> 'k set"
    and len :: "'s \<Rightarrow> nat"
    and submit :: "'k \<Rightarrow> 'v \<Rightarrow> ('s, unit) call"
  assumes submit_new: "submit k v s = (Ok (), s') \<Longrightarrow> k \<notin> keys s \<and> keys s' = insert k (keys s) \<and> len s' = Suc (len s)"
begin

lemma run_counts:
  assumes "for_calls (\<lambda>(k, v). submit k v) kvs s = (Ok (), s')"
  shows "distinct (map fst kvs) \<and> set (map fst kvs) \<inter> keys s = {} \<and> keys s' = keys s \<union> set (map fst kvs)
    \<and> len s' = len s + length kvs"
  using assms
proof (induction kvs arbitrary: s)
  case (Cons kv kvs)
  obtain k v where kv: "kv = (k, v)" by (cases kv)
  with Cons.prems obtain t where "submit k v s = (Ok (), t)" and rest: "for_calls (\<lambda>(k, v). submit k v) kvs t = (Ok (), s')" by auto
  from Cons.IH [OF rest] submit_new [OF this(1)] show ?case by (auto simp: kv)
qed simp

lemma run_card:
  assumes "for_calls (\<lambda>(k, v). submit k v) kvs s = (Ok (), s')" and "finite (keys s)" and "len s = card (keys s)"
  shows "len s' = card (keys s')"
  using run_counts [OF assms(1)] assms(2,3) distinct_card [of "map fst kvs"] card_Un_disjoint [of "keys s" "set (map fst kvs)"]
  by (simp add: Int_commute)

end

abbreviation okeys :: "('k \<times> 'v) list \<Rightarrow> 'k set" where
  "okeys m \<equiv> fst ` set m"

lemma omap_contains_okeys: "omap_contains k m \<longleftrightarrow> k \<in> okeys m"
  by (auto simp: omap_contains_def map_of_eq_None_iff)

interpretation round1: counted_round "\<lambda>d. okeys (dk_round1 d)" dk_round1_len Dkg_submit_round1
  by unfold_locales (auto simp: Dkg_submit_round1_def omap_contains_okeys keys_omap_insert)

interpretation round2: counted_round "\<lambda>d. okeys (dk_round2 d)" dk_round2_len Dkg_submit_round2
  by unfold_locales (auto simp: Dkg_submit_round2_def omap_contains_okeys keys_omap_insert)

text \<open>The participants with an entry for an iteration.\<close>

definition entered :: "u32 \<Rightarrow> ((u32 \<times> u16) \<times> 'v) list \<Rightarrow> u16 set" where
  "entered iteration m = {p. (iteration, p) \<in> okeys m}"

lemma entered_insert: "entered it (omap_insert (\<lambda>k. k) (it', p) v m) = (if it = it' then insert p (entered it m) else entered it m)"
  by (auto simp: entered_def keys_omap_insert)

lemma omap_contains_entered: "omap_contains (it, p) m \<longleftrightarrow> p \<in> entered it m"
  by (simp add: omap_contains_okeys entered_def)

lemma build_package_Ok:
  assumes "Signing_build_signing_package L s = (Ok u, s')"
  obtains cs where "si_signing_package s = None" and "assemble_by_identifier (of_iteration (si_iteration s) (si_commitments s)) = Ok cs"
    and "s' = s\<lparr>si_signing_package := Some (SigningPackage_new L cs (si_message s))\<rparr>"
  using assms by (auto simp: Signing_build_signing_package_def)

lemma submit_commitments_Ok:
  assumes "Signing_submit_commitments L it p c s = (Ok u, s')"
  shows "Signing_state s = Sig_Round1 \<and> it = si_iteration s \<and> p \<notin> entered it (si_commitments s)
    \<and> (\<exists>pkg. s' = s\<lparr>si_commitments := omap_insert (\<lambda>k. k) (it, p) c (si_commitments s),
          si_commitments_len := Suc (si_commitments_len s), si_signing_package := pkg\<rparr>
        \<and> (if Signing_state s' = Sig_Round2
           then \<exists>cs. assemble_by_identifier (of_iteration it (si_commitments s')) = Ok cs
             \<and> pkg = Some (SigningPackage_new L cs (si_message s))
           else pkg = si_signing_package s))"
proof -
  let ?t = "s\<lparr>si_commitments := omap_insert (\<lambda>k. k) (it, p) c (si_commitments s), si_commitments_len := Suc (si_commitments_len s)\<rparr>"
  from assms have pre: "Signing_state s = Sig_Round1" "it = si_iteration s" "p \<notin> entered it (si_commitments s)"
    and post: "(if Signing_state ?t = Sig_Round2 then Signing_build_signing_package L else lift_result (Ok ())) ?t = (Ok u, s')"
    by (auto simp: Signing_submit_commitments_def omap_contains_entered)
  have st: "Signing_state (?t\<lparr>si_signing_package := pkg\<rparr>) = Signing_state ?t" for pkg by (simp add: Signing_state_def)
  show ?thesis
  proof (cases "Signing_state ?t = Sig_Round2")
    case True
    with post have "Signing_build_signing_package L ?t = (Ok u, s')" by simp
    then show ?thesis by (rule build_package_Ok) (use pre st True in auto)
  next
    case False
    with post have s': "s' = ?t" by simp
    have "?t = ?t\<lparr>si_signing_package := si_signing_package s\<rparr>" by simp
    with s' pre False show ?thesis by metis
  qed
qed

interpretation commitments: counted_round "\<lambda>s. entered it (si_commitments s)" si_commitments_len
    "Signing_submit_commitments L it" for L :: "'m frost_lib_scheme" and it
  by unfold_locales (auto dest!: submit_commitments_Ok simp: entered_insert)

section \<open>Share ranges\<close>

lemma share_range_bounds:
  "share_range_from L addr i ps = Ok (a, b) \<Longrightarrow> fold_result (\<lambda>n p. add_u16 n (pt_shares p)) i ps = Ok n \<Longrightarrow> i \<le> a \<and> a \<le> b \<and> b \<le> n"
proof (induction ps arbitrary: i)
  case (Cons p ps)
  have mono: "fold_result (\<lambda>n p. add_u16 n (pt_shares p)) i ps = Ok n \<Longrightarrow> i \<le> n" for i n
    by (induction ps arbitrary: i) fastforce+
  show ?case
  proof (cases "pt_address p = addr")
    case True
    with Cons.prems mono show ?thesis by auto
  next
    case False
    with Cons.prems have "share_range_from L addr (i + pt_shares p) ps = Ok (a, b)"
      "fold_result (\<lambda>n p. add_u16 n (pt_shares p)) (i + pt_shares p) ps = Ok n" by (auto split: if_splits)
    from Cons.IH [OF this] show ?thesis by simp
  qed
qed simp

lemma share_range_disjoint:
  "share_range_from L addr i ps = Ok (a, b) \<Longrightarrow> share_range_from L addr' i ps = Ok (a', b') \<Longrightarrow> addr \<noteq> addr' \<Longrightarrow>
   {a..<b} \<inter> {a'..<b'} = {}"
proof (induction ps arbitrary: i)
  case (Cons p ps)
  have low: "share_range_from L x i ps = Ok (a, b) \<Longrightarrow> i \<le> a" for x i a b
    by (induction ps arbitrary: i) (fastforce split: if_splits)+
  show ?case
    using Cons.prems low [of addr "i + pt_shares p" a b] low [of addr' "i + pt_shares p" a' b'] Cons.IH [of "i + pt_shares p"]
    by (auto split: if_splits)
qed simp

section \<open>Key generation\<close>

text \<open>Values submitted under the signer's indices.\<close>

lemma for_calls_map: "for_calls f (map g xs) = for_calls (f \<circ> g) xs"
  by (induction xs) simp_all

lemma for_shares_Ok:
  assumes "for_shares start f xs s = (Ok (), s')" and "length xs \<le> 2 ^ 16"
  shows "for_calls (\<lambda>(p, x). f p x) (zip [start..<start + length xs] xs) s = (Ok (), s')"
proof -
  have "for_calls (\<lambda>(p, x). f p x) (map (\<lambda>(o', x). (start + o', x)) (enumerate k xs)) s = (Ok (), s')"
    if "for_calls (\<lambda>(o', x). cbind (lift_result (add_u16 start (o' mod 2 ^ 16))) (\<lambda>p. f p x)) (enumerate k xs) s = (Ok (), s')"
      "k + length xs \<le> 2 ^ 16" for k
    using that
  proof (induction xs arbitrary: k s)
    case (Cons x xs)
    then show ?case by (auto simp: mod_less)
  qed simp
  from this [of 0] assms have "for_calls (\<lambda>(p, x). f p x) (map (\<lambda>(o', x). (start + o', x)) (enumerate 0 xs)) s = (Ok (), s')"
    by (simp add: for_shares_def)
  moreover have "map (\<lambda>(o', x). (start + o', x)) (enumerate 0 xs) = zip [start..<start + length xs] xs"
    by (rule nth_equalityI) (simp_all add: nth_enumerate_eq)
  ultimately show ?thesis by simp
qed

lemma for_calls_on_dkg:
  "for_calls (\<lambda>x. on_dkg (f x)) xs g = (case for_calls f xs (fg_dkg g) of (r, d) \<Rightarrow> (r, g\<lparr>fg_dkg := d\<rparr>))"
  by (induction xs arbitrary: g) (auto simp: cbind_def lift_result_def on_dkg_def split: prod.splits result.splits)

lemma signer_range_Ok:
  "signer_range L C g = (Ok (a, b), g') \<longleftrightarrow> g' = g \<and> (\<exists>addr. FrostGroup_signer C = Ok addr \<and> FrostConfig_share_range L (fg_config g) addr = Ok (a, b))"
  by (auto simp: signer_range_def)

definition dkg_inv :: "nat \<Rightarrow> dkg \<Rightarrow> bool" where
  "dkg_inv n d \<longleftrightarrow> dk_participants d = n \<and> dk_round1_len d = card (okeys (dk_round1 d)) \<and> okeys (dk_round1 d) \<subseteq> {..<n}
     \<and> dk_round2_len d = card (okeys (dk_round2 d)) \<and> okeys (dk_round2 d) \<subseteq> {..<n}"

text \<open>A round that counts distinct participants below \<open>n\<close> is complete when it has all of them.\<close>

lemma full_round: "K \<subseteq> {..<n} \<Longrightarrow> \<not> card K < n \<longleftrightarrow> K = {..<n}" for K :: "nat set"
  by (metis card_lessThan card_subset_eq finite_lessThan finite_subset less_irrefl psubsetI psubset_card_mono)

lemma share_range_u16: "share_range_from L addr i ps = Ok (a, b) \<Longrightarrow> a \<le> b \<and> b < 2 ^ 16"
  by (induction ps arbitrary: i) (auto split: if_splits)

lemma for_shares_on_dkg:
  assumes "for_shares a (\<lambda>p x. on_dkg (f p x)) xs g = (Ok (), g')" and "length xs \<le> 2 ^ 16"
  shows "for_calls (\<lambda>(p, x). f p x) (zip [a..<a + length xs] xs) (fg_dkg g) = (Ok (), fg_dkg g') \<and> g' = g\<lparr>fg_dkg := fg_dkg g'\<rparr>"
  using for_shares_Ok [OF assms] for_calls_on_dkg [of "\<lambda>(p, x). f p x" "zip [a..<a + length xs] xs" g]
  by (auto simp: split_def split: prod.splits)

lemma group_round:
  assumes "(cbind (signer_range L C) (\<lambda>(start, stop).
       if stop - start \<noteq> length xs then lift_result (Err (App ''Invalid number of packages''))
       else for_shares start (\<lambda>p x. on_dkg (f p x)) xs)) g = (Ok (), g')"
  obtains addr a b where "FrostGroup_signer C = Ok addr" and "FrostConfig_share_range L (fg_config g) addr = Ok (a, b)"
    and "length xs = b - a" and "g' = g\<lparr>fg_dkg := fg_dkg g'\<rparr>"
    and "for_calls (\<lambda>(p, x). f p x) (zip [a..<a + length xs] xs) (fg_dkg g) = (Ok (), fg_dkg g')"
proof -
  from assms obtain addr a b where ab: "FrostGroup_signer C = Ok addr" "FrostConfig_share_range L (fg_config g) addr = Ok (a, b)"
    "length xs = b - a" and run: "for_shares a (\<lambda>p x. on_dkg (f p x)) xs g = (Ok (), g')"
    by (auto simp: signer_range_Ok split: if_splits)
  have "b < 2 ^ 16" using ab(2) share_range_u16 unfolding FrostConfig_share_range_def by blast
  with ab(3) have "length xs \<le> 2 ^ 16" by simp
  from for_shares_on_dkg [OF run this] ab that show thesis by blast
qed

text \<open>The indices of a zip with a range.\<close>

lemma own_indices:
  assumes "FrostConfig_share_range L config addr = Ok (a, b)" and "FrostConfig_total_shares config = Ok n" and "length xs = b - a"
  shows "set (map fst (zip [a..<a + length xs] xs)) = {a..<b} \<and> {a..<b} \<subseteq> {..<n} \<and> length (zip [a..<a + length xs] xs) = b - a"
proof -
  have "a \<le> b" "b \<le> n" using share_range_bounds assms(1,2) unfolding FrostConfig_share_range_def FrostConfig_total_shares_def by fastforce+
  then show ?thesis using assms(3) by auto
qed

definition group_inv :: "frost_group \<Rightarrow> bool" where
  "group_inv g \<longleftrightarrow> (\<exists>n. FrostConfig_total_shares (fg_config g) = Ok n \<and> dkg_inv n (fg_dkg g))"

lemma dkg_frames:
  "Dkg_submit_round1 p x d = (Ok (), d') \<Longrightarrow> dk_participants d' = dk_participants d \<and> dk_round2 d' = dk_round2 d \<and> dk_round2_len d' = dk_round2_len d"
  "Dkg_submit_round2 p y d = (Ok (), d') \<Longrightarrow> dk_participants d' = dk_participants d \<and> dk_round1 d' = dk_round1 d \<and> dk_round1_len d' = dk_round1_len d"
  "Dkg_attest_pubkey_package p x d = (Ok (), d') \<Longrightarrow> dk_participants d' = dk_participants d \<and> dk_round1 d' = dk_round1 d \<and> dk_round1_len d' = dk_round1_len d
     \<and> dk_round2 d' = dk_round2 d \<and> dk_round2_len d' = dk_round2_len d \<and> dk_attested d' = dk_attested d"
  by (auto simp: Dkg_submit_round1_def Dkg_submit_round2_def Dkg_attest_pubkey_package_def split: option.splits if_splits)

lemma attest_inv: "Dkg_attest_pubkey_package p x d = (Ok (), d') \<Longrightarrow> dkg_inv n d \<Longrightarrow> dkg_inv n d'"
  by (drule dkg_frames(3)) (simp add: dkg_inv_def)

lemma round1_run_inv:
  assumes "for_calls (\<lambda>(p, x). Dkg_submit_round1 p x) kvs d = (Ok (), d')" and "dkg_inv n d" and "set (map fst kvs) \<subseteq> {..<n}"
  shows "dkg_inv n d'"
proof -
  have "dk_participants d' = dk_participants d \<and> dk_round2 d' = dk_round2 d \<and> dk_round2_len d' = dk_round2_len d"
    by (rule for_calls_invariant [OF assms(1)]) (auto dest: dkg_frames)
  moreover note round1.run_counts [OF assms(1)] round1.run_card [OF assms(1)]
  ultimately show ?thesis using assms(2,3) by (auto simp: dkg_inv_def)
qed

lemma round2_run_inv:
  assumes "for_calls (\<lambda>(p, x). Dkg_submit_round2 p x) kvs d = (Ok (), d')" and "dkg_inv n d" and "set (map fst kvs) \<subseteq> {..<n}"
  shows "dkg_inv n d'"
proof -
  have "dk_participants d' = dk_participants d \<and> dk_round1 d' = dk_round1 d \<and> dk_round1_len d' = dk_round1_len d"
    by (rule for_calls_invariant [OF assms(1)]) (auto dest: dkg_frames)
  moreover note round2.run_counts [OF assms(1)] round2.run_card [OF assms(1)]
  ultimately show ?thesis using assms(2,3) by (auto simp: dkg_inv_def)
qed

text \<open>A group's life.\<close>

inductive group_reach :: "'m frost_lib_scheme \<Rightarrow> frost_group \<Rightarrow> bool" for L where
  group_new: "FrostGroup_with_config config now = Ok g \<Longrightarrow> group_reach L g"
| group_round1: "group_reach L g \<Longrightarrow> FrostGroup_submit_dkg_round1 L C ps g = (Ok (), g') \<Longrightarrow> group_reach L g'"
| group_round2: "group_reach L g \<Longrightarrow> FrostGroup_submit_dkg_round2 L C qs g = (Ok (), g') \<Longrightarrow> group_reach L g'"
| group_attest: "group_reach L g \<Longrightarrow> FrostGroup_attest_pubkey_package L C k g = (Ok (), g') \<Longrightarrow> group_reach L g'"
| group_push: "group_reach L g \<Longrightarrow> FrostGroup_push_message C m g = (Ok (), g') \<Longrightarrow> group_reach L g'"
| group_commit: "group_reach L g \<Longrightarrow> FrostGroup_submit_commitments L C i it cs g = (Ok (), g') \<Longrightarrow> group_reach L g'"
| group_share: "group_reach L g \<Longrightarrow> FrostGroup_submit_sig_shares L C i it ss g = (Ok (), g') \<Longrightarrow> group_reach L g'"
| group_advance: "group_reach L g \<Longrightarrow> FrostGroup_advance_with_timeout C t g = (Ok (), g') \<Longrightarrow> group_reach L g'"

lemma on_signing_frame: "on_signing i f g = (r, g') \<Longrightarrow> fg_config g' = fg_config g \<and> fg_dkg g' = fg_dkg g"
  by (auto simp: on_signing_def split: prod.splits)

lemma group_inv_frame: "group_inv g \<Longrightarrow> fg_config g' = fg_config g \<and> fg_dkg g' = fg_dkg g \<Longrightarrow> group_inv g'"
  by (simp add: group_inv_def)

lemma group_signing_frames:
  "FrostGroup_push_message C m g = (Ok (), g') \<Longrightarrow> fg_config g' = fg_config g \<and> fg_dkg g' = fg_dkg g"
  "FrostGroup_submit_commitments L C i it cs g = (Ok (), g') \<Longrightarrow> fg_config g' = fg_config g \<and> fg_dkg g' = fg_dkg g"
  "FrostGroup_submit_sig_shares L C i it ss g = (Ok (), g') \<Longrightarrow> fg_config g' = fg_config g \<and> fg_dkg g' = fg_dkg g"
  "FrostGroup_advance_with_timeout C t g = (Ok (), g') \<Longrightarrow> fg_config g' = fg_config g \<and> fg_dkg g' = fg_dkg g"
proof -
  show "FrostGroup_advance_with_timeout C t g = (Ok (), g') \<Longrightarrow> fg_config g' = fg_config g \<and> fg_dkg g' = fg_dkg g"
    by (auto simp: FrostGroup_advance_with_timeout_def
        elim!: for_calls_invariant [where P = "\<lambda>h. fg_config h = fg_config g \<and> fg_dkg h = fg_dkg g"] dest: on_signing_frame)
qed (auto simp: FrostGroup_push_message_def FrostGroup_submit_commitments_def FrostGroup_submit_sig_shares_def signer_range_Ok
      dest: on_signing_frame)

lemma group_reach_inv: "group_reach L g \<Longrightarrow> group_inv g"
proof (induction rule: group_reach.induct)
  case (group_new config now g)
  then show ?case by (auto simp: FrostGroup_with_config_def Dkg_from_config_def group_inv_def dkg_inv_def)
next
  case (group_round1 g C ps g')
  obtain n where n: "FrostConfig_total_shares (fg_config g) = Ok n" "dkg_inv n (fg_dkg g)" using group_round1.IH by (auto simp: group_inv_def)
  from group_round1.hyps(2) obtain addr a b where rng: "FrostConfig_share_range L (fg_config g) addr = Ok (a, b)" and len: "length ps = b - a"
    and g': "g' = g\<lparr>fg_dkg := fg_dkg g'\<rparr>" and run: "for_calls (\<lambda>(p, x). Dkg_submit_round1 p x) (zip [a..<a + length ps] ps) (fg_dkg g) = (Ok (), fg_dkg g')"
    unfolding FrostGroup_submit_dkg_round1_def by (rule group_round)
  from own_indices [OF rng n(1) len] have "dkg_inv n (fg_dkg g')" by (intro round1_run_inv [OF run n(2)]) (simp only:)
  moreover have "fg_config g' = fg_config g" by (subst g') simp
  ultimately show ?case using n by (auto simp: group_inv_def)
next
  case (group_round2 g C ps g')
  obtain n where n: "FrostConfig_total_shares (fg_config g) = Ok n" "dkg_inv n (fg_dkg g)" using group_round2.IH by (auto simp: group_inv_def)
  from group_round2.hyps(2) obtain addr a b where rng: "FrostConfig_share_range L (fg_config g) addr = Ok (a, b)" and len: "length ps = b - a"
    and g': "g' = g\<lparr>fg_dkg := fg_dkg g'\<rparr>" and run: "for_calls (\<lambda>(p, x). Dkg_submit_round2 p x) (zip [a..<a + length ps] ps) (fg_dkg g) = (Ok (), fg_dkg g')"
    unfolding FrostGroup_submit_dkg_round2_def by (rule group_round)
  from own_indices [OF rng n(1) len] have "dkg_inv n (fg_dkg g')" by (intro round2_run_inv [OF run n(2)]) (simp only:)
  moreover have "fg_config g' = fg_config g" by (subst g') simp
  ultimately show ?case using n by (auto simp: group_inv_def)
next
  case (group_attest g C k g')
  obtain n where n: "FrostConfig_total_shares (fg_config g) = Ok n" "dkg_inv n (fg_dkg g)" using group_attest.IH by (auto simp: group_inv_def)
  have "fg_config g' = fg_config g \<and> dkg_inv n (fg_dkg g')"
    using group_attest.hyps(2) n(2)
    by (auto simp: FrostGroup_attest_pubkey_package_def signer_range_Ok
        elim!: for_calls_invariant [where P = "\<lambda>h. fg_config h = fg_config g \<and> dkg_inv n (fg_dkg h)"])
      (auto simp: on_dkg_def dest: attest_inv split: prod.splits)
  then show ?case using n by (auto simp: group_inv_def)
qed (blast intro: group_inv_frame dest: group_signing_frames)+

text \<open>
  The key generation counts every share once. In every state of a group, the participants that have
  submitted in a round are share indices of the group, and the state leaves a round exactly when every
  share of the group has submitted in it.
\<close>

theorem frost_dkg_rounds_exact:
  assumes "group_reach L g"
  shows "\<exists>n. FrostConfig_total_shares (fg_config g) = Ok n
    \<and> okeys (dk_round1 (fg_dkg g)) \<subseteq> {..<n} \<and> okeys (dk_round2 (fg_dkg g)) \<subseteq> {..<n}
    \<and> (Dkg_state (fg_dkg g) \<noteq> Dkg_Round1 \<longleftrightarrow> okeys (dk_round1 (fg_dkg g)) = {..<n})
    \<and> (Dkg_state (fg_dkg g) \<in> {Dkg_Attesting, Dkg_Complete} \<longleftrightarrow>
         okeys (dk_round1 (fg_dkg g)) = {..<n} \<and> okeys (dk_round2 (fg_dkg g)) = {..<n})"
proof -
  from group_reach_inv [OF assms] obtain n where n: "FrostConfig_total_shares (fg_config g) = Ok n" "dkg_inv n (fg_dkg g)"
    by (auto simp: group_inv_def)
  then show ?thesis
    using full_round [of "okeys (dk_round1 (fg_dkg g))" n] full_round [of "okeys (dk_round2 (fg_dkg g))" n]
    by (auto simp: dkg_inv_def Dkg_state_def)
qed

text \<open>
  In the key generation a signer acts for its own shares only: a successful submission of round one
  adds packages for exactly the signer's indices, none of which had one, and no other signer has any
  of these indices.
\<close>

theorem frost_round1_own_shares:
  assumes "FrostGroup_submit_dkg_round1 L C packages g = (Ok (), g')"
  shows "\<exists>addr a b. FrostGroup_signer C = Ok addr \<and> FrostConfig_share_range L (fg_config g) addr = Ok (a, b)
    \<and> okeys (dk_round1 (fg_dkg g')) = okeys (dk_round1 (fg_dkg g)) \<union> {a..<b} \<and> {a..<b} \<inter> okeys (dk_round1 (fg_dkg g)) = {}
    \<and> (\<forall>addr' a' b'. addr' \<noteq> addr \<and> FrostConfig_share_range L (fg_config g) addr' = Ok (a', b') \<longrightarrow> {a..<b} \<inter> {a'..<b'} = {})"
proof -
  from assms obtain addr a b where r: "FrostGroup_signer C = Ok addr" "FrostConfig_share_range L (fg_config g) addr = Ok (a, b)"
    "length packages = b - a"
    and run: "for_calls (\<lambda>(p, x). Dkg_submit_round1 p x) (zip [a..<a + length packages] packages) (fg_dkg g) = (Ok (), fg_dkg g')"
    unfolding FrostGroup_submit_dkg_round1_def by (rule group_round)
  have "a \<le> b" using r(2) share_range_u16 unfolding FrostConfig_share_range_def by blast
  then have "set (map fst (zip [a..<a + length packages] packages)) = {a..<b}" using r(3) by simp
  with round1.run_counts [OF run] have keys: "okeys (dk_round1 (fg_dkg g')) = okeys (dk_round1 (fg_dkg g)) \<union> {a..<b}"
    "{a..<b} \<inter> okeys (dk_round1 (fg_dkg g)) = {}" by simp_all
  have "{a..<b} \<inter> {a'..<b'} = {}" if "addr' \<noteq> addr" "FrostConfig_share_range L (fg_config g) addr' = Ok (a', b')" for addr' a' b'
    using share_range_disjoint r(2) that unfolding FrostConfig_share_range_def by metis
  with r keys show ?thesis by blast
qed

section \<open>Signing\<close>

abbreviation si_threshold :: "signing \<Rightarrow> nat" where
  "si_threshold s \<equiv> fc_threshold (si_config s)"

text \<open>The participants of the current iteration in each round.\<close>

abbreviation committed :: "signing \<Rightarrow> nat set" where
  "committed s \<equiv> entered (si_iteration s) (si_commitments s)"

abbreviation shared :: "signing \<Rightarrow> nat set" where
  "shared s \<equiv> entered (si_iteration s) (si_sig_shares s)"

definition current_package :: "'m frost_lib_scheme \<Rightarrow> signing \<Rightarrow> bytes option" where
  "current_package L s = (case assemble_by_identifier (of_iteration (si_iteration s) (si_commitments s)) of
     Ok cs \<Rightarrow> Some (SigningPackage_new L cs (si_message s)) | Err _ \<Rightarrow> None)"

definition aggregated :: "'m frost_lib_scheme \<Rightarrow> signing \<Rightarrow> bytes \<Rightarrow> bool" where
  "aggregated L s sg \<longleftrightarrow> (\<exists>package shares pubkey. current_package L s = Some package
     \<and> assemble_by_identifier (of_iteration (si_iteration s) (si_sig_shares s)) = Ok shares
     \<and> frost_aggregate L package shares pubkey = Inr sg)"

definition sig_inv :: "'m frost_lib_scheme \<Rightarrow> signing \<Rightarrow> bool" where
  "sig_inv L s \<longleftrightarrow> si_commitments_len s = card (committed s) \<and> si_commitments_len s \<le> si_threshold s
     \<and> (\<forall>(i, p) \<in> okeys (si_commitments s). i \<le> si_iteration s \<and> p < 2 ^ 16 - 1)
     \<and> okeys (si_sig_shares s) \<subseteq> okeys (si_commitments s)
     \<and> card (shared s) \<le> si_sig_shares_len s \<and> si_sig_shares_len s \<le> si_threshold s
     \<and> (si_commitments_len s < si_threshold s \<longrightarrow> si_sig_shares_len s = 0 \<and> si_signing_package s = None)
     \<and> (si_commitments_len s = si_threshold s \<longrightarrow> si_signing_package s = current_package L s \<and> si_signing_package s \<noteq> None)
     \<and> (if Signing_state s = Sig_Complete then \<exists>sg. si_signature s = Some sg \<and> aggregated L s sg else si_signature s = None)"

lemma finite_entered [simp]: "finite (entered it m)"
proof -
  have "entered it m \<subseteq> snd ` okeys m" by (force simp: entered_def)
  then show ?thesis by (rule finite_subset) simp
qed

lemma assemble_total: "(\<And>p v. (p, v) \<in> set xs \<Longrightarrow> p < 2 ^ 16 - 1) \<Longrightarrow> \<exists>m. assemble_by_identifier xs = Ok m"
proof -
  assume "\<And>p v. (p, v) \<in> set xs \<Longrightarrow> p < 2 ^ 16 - 1"
  then have "map_result (\<lambda>(i, p). rbind (frost_identifier i) (\<lambda>k. Ok (k, p))) xs = Ok (map (\<lambda>(i, p). (Suc i, p)) xs)"
    by (intro map_result_total) (fastforce simp: frost_identifier_def add_w_def split: prod.splits)
  then show ?thesis by (simp add: assemble_by_identifier_def)
qed

lemma set_of_iteration: "set (of_iteration it m) = {(p, v). ((it, p), v) \<in> set m}"
  by (force simp: of_iteration_def map_filter_def split: if_splits)

lemma assemble_commitments:
  assumes "sig_inv L s"
  shows "(\<exists>m. assemble_by_identifier (of_iteration (si_iteration s) (si_commitments s)) = Ok m)
    \<and> (\<exists>m. assemble_by_identifier (of_iteration (si_iteration s) (si_sig_shares s)) = Ok m)"
  using assms by (intro conjI assemble_total) (force simp: set_of_iteration sig_inv_def)+

lemma sig_inv_new: "0 < fc_threshold config \<Longrightarrow> sig_inv L (Signing_new config msg now)"
  by (simp add: sig_inv_def Signing_new_def entered_def Signing_state_def)

lemma sig_inv_commit:
  assumes "sig_inv L s" and "Signing_submit_commitments L it p c s = (Ok (), s')" and "p < 2 ^ 16 - 1"
  shows "sig_inv L s' \<and> si_config s' = si_config s"
proof -
  from submit_commitments_Ok [OF assms(2)] obtain pkg where st: "Signing_state s = Sig_Round1" and it: "it = si_iteration s"
    and new: "p \<notin> committed s" and s': "s' = s\<lparr>si_commitments := omap_insert (\<lambda>k. k) (it, p) c (si_commitments s),
          si_commitments_len := Suc (si_commitments_len s), si_signing_package := pkg\<rparr>"
    and pkg: "if Signing_state s' = Sig_Round2
           then \<exists>cs. assemble_by_identifier (of_iteration it (si_commitments s')) = Ok cs \<and> pkg = Some (SigningPackage_new L cs (si_message s))
           else pkg = si_signing_package s"
    by auto
  have low: "si_commitments_len s < si_threshold s" using st by (auto simp: Signing_state_def split: if_splits)
  with assms(1) have z: "si_sig_shares_len s = 0" "si_signing_package s = None" by (auto simp: sig_inv_def)
  have st': "Signing_state s' = (if Suc (si_commitments_len s) = si_threshold s then Sig_Round2 else Sig_Round1)"
    using low z by (simp add: s' Signing_state_def)
  have "(\<forall>(i, q) \<in> okeys (si_commitments s'). i \<le> si_iteration s' \<and> q < 2 ^ 16 - 1) \<and> okeys (si_sig_shares s') \<subseteq> okeys (si_commitments s')"
    using assms(1,3) it by (auto simp: s' keys_omap_insert sig_inv_def)
  moreover have "committed s' = insert p (committed s)" "shared s' = shared s" using it by (simp_all add: s' entered_insert)
  moreover have "Suc (si_commitments_len s) = si_threshold s \<longrightarrow> pkg = current_package L s' \<and> pkg \<noteq> None"
    using pkg st' it by (auto simp: s' current_package_def)
  moreover have "Suc (si_commitments_len s) < si_threshold s \<longrightarrow> pkg = None" using pkg st' z by simp
  ultimately show ?thesis using assms(1) new low z st st'
    by (auto simp: sig_inv_def s' split: if_splits)
qed

lemma aggregate_signature_Ok:
  assumes "Signing_aggregate_signature L pk s = (Ok u, s')"
  obtains package shares g where "si_signing_package s = Some package"
    and "assemble_by_identifier (of_iteration (si_iteration s) (si_sig_shares s)) = Ok shares"
    and "frost_aggregate L package shares pk = Inr g" and "s' = s\<lparr>si_signature := Some g\<rparr>"
proof -
  from assms obtain package shares where *: "si_signing_package s = Some package"
    "assemble_by_identifier (of_iteration (si_iteration s) (si_sig_shares s)) = Ok shares"
    and agg: "(case frost_aggregate L package shares pk of
       Inr signature \<Rightarrow> modify (si_signature_update (\<lambda>_. Some signature))
     | Inl (InvalidSignatureShare culprit) \<Rightarrow> lift_result (Err (App (''Invalid signature share from '' @ culprit)))
     | Inl (FrostError e) \<Rightarrow> lift_result (Err (App (''Failed to aggregate signature: '' @ e)))) s = (Ok u, s')"
    by (auto simp: Signing_aggregate_signature_def)
  from agg obtain g where "frost_aggregate L package shares pk = Inr g" "s' = s\<lparr>si_signature := Some g\<rparr>"
    by (auto split: sum.split_asm frost_error.split_asm)
  with * that show thesis by blast
qed

lemma submit_sig_share_Ok:
  assumes "Signing_submit_sig_share L it p sh pk s = (Ok u, s')"
  shows "Signing_state s = Sig_Round2 \<and> (it, p) \<notin> okeys (si_sig_shares s) \<and> (it, p) \<in> okeys (si_commitments s)
    \<and> (\<exists>sg. s' = s\<lparr>si_sig_shares := omap_insert (\<lambda>k. k) (it, p) sh (si_sig_shares s),
          si_sig_shares_len := Suc (si_sig_shares_len s), si_signature := sg\<rparr>
        \<and> (if Signing_state s' = Sig_Complete
           then \<exists>package shares g. si_signing_package s = Some package
             \<and> assemble_by_identifier (of_iteration (si_iteration s) (si_sig_shares s')) = Ok shares
             \<and> frost_aggregate L package shares pk = Inr g \<and> sg = Some g
           else sg = si_signature s))"
proof -
  let ?t = "s\<lparr>si_sig_shares := omap_insert (\<lambda>k. k) (it, p) sh (si_sig_shares s), si_sig_shares_len := Suc (si_sig_shares_len s)\<rparr>"
  from assms have pre: "Signing_state s = Sig_Round2" "(it, p) \<notin> okeys (si_sig_shares s)" "(it, p) \<in> okeys (si_commitments s)"
    and post: "(if Signing_state ?t = Sig_Complete then Signing_aggregate_signature L pk else lift_result (Ok ())) ?t = (Ok u, s')"
    by (auto simp: Signing_submit_sig_share_def omap_contains_okeys)
  have st: "Signing_state (?t\<lparr>si_signature := sg\<rparr>) = Signing_state ?t" for sg by (simp add: Signing_state_def)
  show ?thesis
  proof (cases "Signing_state ?t = Sig_Complete")
    case True
    with post have "Signing_aggregate_signature L pk ?t = (Ok u, s')" by simp
    then show ?thesis by (rule aggregate_signature_Ok) (use pre st True in auto)
  next
    case False
    with post have s': "s' = ?t" by simp
    have "?t = ?t\<lparr>si_signature := si_signature s\<rparr>" by simp
    with s' pre False show ?thesis by metis
  qed
qed

lemma share_moves: "Signing_submit_sig_share L it p sh pk s = (Ok u, s') \<Longrightarrow> si_sig_shares_len s' = Suc (si_sig_shares_len s)"
  by (drule submit_sig_share_Ok) auto

lemma sig_inv_share:
  assumes "sig_inv L s" and "Signing_submit_sig_share L it p sh pk s = (Ok (), s')"
  shows "sig_inv L s' \<and> si_config s' = si_config s"
proof -
  from submit_sig_share_Ok [OF assms(2)] obtain sg where st: "Signing_state s = Sig_Round2" and new: "(it, p) \<notin> okeys (si_sig_shares s)"
    and com: "(it, p) \<in> okeys (si_commitments s)" and s': "s' = s\<lparr>si_sig_shares := omap_insert (\<lambda>k. k) (it, p) sh (si_sig_shares s),
          si_sig_shares_len := Suc (si_sig_shares_len s), si_signature := sg\<rparr>"
    and sg: "if Signing_state s' = Sig_Complete
           then \<exists>package shares g. si_signing_package s = Some package
             \<and> assemble_by_identifier (of_iteration (si_iteration s) (si_sig_shares s')) = Ok shares
             \<and> frost_aggregate L package shares pk = Inr g \<and> sg = Some g
           else sg = si_signature s"
    by auto
  have full: "si_commitments_len s = si_threshold s" "si_sig_shares_len s < si_threshold s"
    using st assms(1) by (auto simp: Signing_state_def sig_inv_def split: if_splits)
  then have pkg: "si_signing_package s = current_package L s" "si_signature s = None"
    using assms(1) st by (auto simp: sig_inv_def)
  have cur: "current_package L s' = current_package L s" by (simp add: s' current_package_def split: result.split)
  have "card (shared s') \<le> Suc (card (shared s))" using new by (auto simp: s' entered_insert card_insert_if)
  moreover have "okeys (si_sig_shares s') \<subseteq> okeys (si_commitments s')" using com assms(1) by (auto simp: s' keys_omap_insert sig_inv_def)
  moreover have "if Signing_state s' = Sig_Complete then \<exists>g. si_signature s' = Some g \<and> aggregated L s' g else si_signature s' = None"
    using sg pkg cur by (auto simp: s' aggregated_def split: if_splits)
  ultimately show ?thesis using assms(1) full pkg cur by (auto simp: sig_inv_def s')
qed

lemma sig_inv_advance:
  assumes "sig_inv L s" and "Signing_advance_with_timeout now timeout s = (Ok (), s')" and "0 < si_threshold s"
  shows "sig_inv L s' \<and> si_config s' = si_config s"
proof (cases "s' = s")
  case False
  then have st: "Signing_state s \<noteq> Sig_Complete" and s': "s' = s\<lparr>si_iteration := Suc (si_iteration s), si_commitments_len := 0,
      si_sig_shares_len := 0, si_signing_package := None, si_iteration_start_seconds := now\<rparr>"
    using assms(2) by (auto simp: Signing_advance_with_timeout_def Signing_next_iteration_def split: if_splits)
  have "committed s' = {}" "shared s' = {}"
    using assms(1) by (force simp: s' entered_def sig_inv_def)+
  with assms st show ?thesis by (auto simp: sig_inv_def s' Signing_state_def split: if_splits)
qed (use assms(1) in simp)

text \<open>The life of a signing session with participants below the largest index.\<close>

inductive sig_reach :: "'m frost_lib_scheme \<Rightarrow> frost_config \<Rightarrow> bytes \<Rightarrow> signing \<Rightarrow> bool" for L config msg where
  sig_new: "sig_reach L config msg (Signing_new config msg now)"
| sig_commit: "sig_reach L config msg s \<Longrightarrow> p < 2 ^ 16 - 1 \<Longrightarrow> Signing_submit_commitments L it p c s = (Ok (), s') \<Longrightarrow> sig_reach L config msg s'"
| sig_share: "sig_reach L config msg s \<Longrightarrow> Signing_submit_sig_share L it p sh pk s = (Ok (), s') \<Longrightarrow> sig_reach L config msg s'"
| sig_advance: "sig_reach L config msg s \<Longrightarrow> Signing_advance_with_timeout now timeout s = (Ok (), s') \<Longrightarrow> sig_reach L config msg s'"

lemma sig_reach_inv: "sig_reach L config msg s \<Longrightarrow> 0 < fc_threshold config \<Longrightarrow> sig_inv L s \<and> si_config s = config"
proof (induction rule: sig_reach.induct)
  case (sig_new now)
  then show ?case using sig_inv_new [of config L msg now] by (simp add: Signing_new_def)
qed (metis sig_inv_commit sig_inv_share sig_inv_advance)+

text \<open>
  C28: a session holds a signature exactly when it is complete, and the signature is what the frost crate
  aggregates, for the session's message, from the commitments and the shares of one iteration. As many
  participants committed to that iteration as the threshold says, and only they have shares in it.
\<close>

theorem frost_signature_is_aggregate:
  assumes "sig_reach L config msg s" and "0 < fc_threshold config"
  shows "(si_signature s \<noteq> None \<longleftrightarrow> Signing_state s = Sig_Complete)
    \<and> (\<forall>sg. si_signature s = Some sg \<longrightarrow> aggregated L s sg \<and> card (committed s) = fc_threshold config \<and> shared s \<subseteq> committed s)"
proof -
  have inv: "sig_inv L s" and config: "si_config s = config" using sig_reach_inv [OF assms] by simp_all
  have "shared s \<subseteq> committed s" using inv by (force simp: sig_inv_def entered_def)
  moreover have "Signing_state s = Sig_Complete \<longrightarrow> card (committed s) = fc_threshold config"
    using inv config by (auto simp: Signing_state_def sig_inv_def split: if_splits)
  ultimately show ?thesis using inv by (auto simp: sig_inv_def split: if_splits)
qed

section \<open>Progress\<close>

lemma sig_inv_index: "sig_inv L s \<Longrightarrow> (i, p) \<in> okeys (si_commitments s) \<Longrightarrow> i \<le> si_iteration s \<and> p < 2 ^ 16 - 1"
  unfolding sig_inv_def by fastforce

lemma commit_accepted:
  assumes "sig_inv L s" and "Signing_state s = Sig_Round1" and "p \<notin> committed s" and "p < 2 ^ 16 - 1" and "si_threshold s < 2 ^ 16"
  shows "\<exists>s'. Signing_submit_commitments L (si_iteration s) p c s = (Ok (), s')"
proof -
  let ?t = "s\<lparr>si_commitments := omap_insert (\<lambda>k. k) (si_iteration s, p) c (si_commitments s), si_commitments_len := Suc (si_commitments_len s)\<rparr>"
  have low: "si_commitments_len s < si_threshold s" using assms(2) by (auto simp: Signing_state_def split: if_splits)
  have "\<exists>m. assemble_by_identifier (of_iteration (si_iteration ?t) (si_commitments ?t)) = Ok m"
  proof (rule assemble_total)
    fix q v assume "(q, v) \<in> set (of_iteration (si_iteration ?t) (si_commitments ?t))"
    then have "(si_iteration s, q) \<in> okeys (omap_insert (\<lambda>k. k) (si_iteration s, p) c (si_commitments s))"
      by (force simp: set_of_iteration)
    then show "q < 2 ^ 16 - 1" using assms(1,4) by (auto simp: keys_omap_insert dest: sig_inv_index)
  qed
  moreover have "si_signing_package ?t = None" using assms(1) low by (simp add: sig_inv_def)
  ultimately have "\<exists>s'. (if Signing_state ?t = Sig_Round2 then Signing_build_signing_package L else lift_result (Ok ())) ?t = (Ok (), s')"
    by (auto simp: Signing_build_signing_package_def)
  with assms(2,3,5) low show ?thesis
    by (simp add: Signing_submit_commitments_def omap_contains_entered)
qed

text \<open>
  A share for the current iteration. While more shares are to come it is only recorded; the share that fills the
  round is accepted when the crate aggregates the package of the session with the shares of the iteration, this
  one included.
\<close>

definition shares_with :: "signing \<Rightarrow> u16 \<Rightarrow> bytes \<Rightarrow> (u16 \<times> bytes) list" where
  "shares_with s p share = of_iteration (si_iteration s) (omap_insert (\<lambda>k. k) (si_iteration s, p) share (si_sig_shares s))"

lemma share_recorded:
  assumes "Signing_state s = Sig_Round2" and "p \<in> committed s" and "p \<notin> shared s" and "si_threshold s < 2 ^ 16"
    and "Suc (si_sig_shares_len s) < si_threshold s"
  shows "\<exists>s'. Signing_submit_sig_share L (si_iteration s) p share pk s = (Ok (), s') \<and> si_sig_shares_len s' = Suc (si_sig_shares_len s)"
proof -
  let ?t = "s\<lparr>si_sig_shares := omap_insert (\<lambda>k. k) (si_iteration s, p) share (si_sig_shares s), si_sig_shares_len := Suc (si_sig_shares_len s)\<rparr>"
  have "Signing_state ?t \<noteq> Sig_Complete" using assms(5) by (simp add: Signing_state_def)
  with assms have "Signing_submit_sig_share L (si_iteration s) p share pk s = (Ok (), ?t)"
    by (simp add: Signing_submit_sig_share_def omap_contains_entered)
  then show ?thesis by simp
qed

lemma last_share_aggregated:
  assumes "sig_inv L s" and "Signing_state s = Sig_Round2" and "p \<in> committed s" and "p \<notin> shared s" and "si_threshold s < 2 ^ 16"
    and "Suc (si_sig_shares_len s) = si_threshold s"
  shows "\<exists>package shares. si_signing_package s = Some package \<and> assemble_by_identifier (shares_with s p share) = Ok shares
    \<and> (\<forall>signature. frost_aggregate L package shares pk = Inr signature \<longrightarrow>
         (\<exists>s'. Signing_submit_sig_share L (si_iteration s) p share pk s = (Ok (), s')
            \<and> Signing_state s' = Sig_Complete \<and> si_signature s' = Some signature))"
proof -
  let ?t = "s\<lparr>si_sig_shares := omap_insert (\<lambda>k. k) (si_iteration s, p) share (si_sig_shares s), si_sig_shares_len := Suc (si_sig_shares_len s)\<rparr>"
  have full: "si_commitments_len s = si_threshold s"
    using assms(1,2) by (auto simp: Signing_state_def sig_inv_def split: if_splits)
  obtain m where m: "assemble_by_identifier (shares_with s p share) = Ok m"
  proof (atomize_elim, rule assemble_total)
    fix q v assume "(q, v) \<in> set (shares_with s p share)"
    then have "(si_iteration s, q) \<in> okeys (omap_insert (\<lambda>k. k) (si_iteration s, p) share (si_sig_shares s))"
      by (force simp: set_of_iteration shares_with_def)
    then have "(si_iteration s, q) \<in> okeys (si_commitments s)"
      using assms(1,3) by (auto simp: keys_omap_insert sig_inv_def entered_def)
    then show "q < 2 ^ 16 - 1" using assms(1) by (blast dest: sig_inv_index)
  qed
  have "si_signing_package s \<noteq> None" and none: "si_signature s = None" using assms(1,2) full unfolding sig_inv_def by (blast, simp)
  then obtain pkg where pkg: "si_signing_package s = Some pkg" by blast
  have complete: "Signing_state ?t = Sig_Complete" using full assms(6) by (simp add: Signing_state_def)
  have "Signing_submit_sig_share L (si_iteration s) p share pk s = (Ok (), ?t\<lparr>si_signature := Some signature\<rparr>)"
    if "frost_aggregate L pkg m pk = Inr signature" for signature
  proof -
    have "Signing_aggregate_signature L pk ?t = (Ok (), ?t\<lparr>si_signature := Some signature\<rparr>)"
      using that m pkg none by (simp add: Signing_aggregate_signature_def shares_with_def)
    with assms(2-6) complete show ?thesis by (simp add: Signing_submit_sig_share_def omap_contains_entered)
  qed
  moreover have "Signing_state (?t\<lparr>si_signature := Some signature\<rparr>) = Sig_Complete" for signature
    using full assms(6) by (simp add: Signing_state_def)
  ultimately show ?thesis using m pkg by (intro exI [of _ pkg] exI [of _ m]) auto
qed

lemma round1_progress:
  assumes "sig_inv L s" and "si_threshold s \<le> n" and "n < 2 ^ 16 - 1" and st: "Signing_state s = Sig_Round1"
  shows "\<exists>p < n. Signing_requires_action_from s p
    \<and> (\<forall>c. \<exists>s'. Signing_submit_commitments L (si_iteration s) p c s = (Ok (), s') \<and> si_commitments_len s' = Suc (si_commitments_len s))"
proof -
  have "card (committed s) < card {..<n}" using assms by (auto simp: sig_inv_def Signing_state_def split: if_splits)
  then have "\<not> {..<n} \<subseteq> committed s" using card_mono [of "committed s" "{..<n}"] by auto
  then obtain p where p: "p < n" "p \<notin> committed s" by auto
  have "\<exists>s'. Signing_submit_commitments L (si_iteration s) p c s = (Ok (), s') \<and> si_commitments_len s' = Suc (si_commitments_len s)" for c
    using commit_accepted [OF assms(1) st p(2), of c] p(1) assms(2,3) by (auto dest: commitments.submit_new)
  with p st show ?thesis by (auto simp: Signing_requires_action_from_def omap_contains_entered)
qed

lemma round2_progress:
  assumes "sig_inv L s" and "si_threshold s < 2 ^ 16" and st: "Signing_state s = Sig_Round2"
  shows "\<exists>p. Signing_requires_action_from s p \<and> p \<in> committed s
    \<and> (\<forall>share pk. if Suc (si_sig_shares_len s) < si_threshold s
         then \<exists>s'. Signing_submit_sig_share L (si_iteration s) p share pk s = (Ok (), s') \<and> si_sig_shares_len s' = Suc (si_sig_shares_len s)
         else \<exists>package shares. si_signing_package s = Some package \<and> assemble_by_identifier (shares_with s p share) = Ok shares
           \<and> (\<forall>signature. frost_aggregate L package shares pk = Inr signature \<longrightarrow>
                (\<exists>s'. Signing_submit_sig_share L (si_iteration s) p share pk s = (Ok (), s')
                   \<and> Signing_state s' = Sig_Complete \<and> si_signature s' = Some signature)))"
proof -
  have "card (shared s) < card (committed s)" using assms by (auto simp: sig_inv_def Signing_state_def split: if_splits)
  then have "\<not> committed s \<subseteq> shared s" using card_mono [of "shared s" "committed s"] by auto
  then obtain p where p: "p \<in> committed s" "p \<notin> shared s" by auto
  have low: "si_sig_shares_len s < si_threshold s" using st by (auto simp: Signing_state_def split: if_splits)
  have asked: "Signing_requires_action_from s p" using p st by (simp add: Signing_requires_action_from_def omap_contains_entered)
  show ?thesis
  proof (cases "Suc (si_sig_shares_len s) < si_threshold s")
    case True
    with asked p share_recorded [OF st p assms(2) True, of L] show ?thesis by (intro exI [of _ p]) simp
  next
    case False
    with low have "Suc (si_sig_shares_len s) = si_threshold s" by simp
    with False asked p last_share_aggregated [OF assms(1) st p assms(2)] show ?thesis by (intro exI [of _ p]) simp
  qed
qed

lemma timeout_restarts:
  assumes "sig_inv L s" and "0 < si_threshold s" and "Signing_state s \<noteq> Sig_Complete" and "si_iteration_start_seconds s + timeout < now"
    and "add_i64 (si_iteration_start_seconds s) timeout \<noteq> Err Panic" and "Suc (si_iteration s) < 2 ^ 32"
  shows "\<exists>s'. Signing_advance_with_timeout now timeout s = (Ok (), s')
    \<and> Signing_state s' = Sig_Round1 \<and> si_iteration s' = Suc (si_iteration s) \<and> (\<forall>p. Signing_requires_action_from s' p)"
proof -
  let ?s = "s\<lparr>si_iteration := Suc (si_iteration s), si_commitments_len := 0,
      si_sig_shares_len := 0, si_signing_package := None, si_iteration_start_seconds := now\<rparr>"
  have adv: "Signing_advance_with_timeout now timeout s = (Ok (), ?s)"
    using assms(3-6) by (auto simp: Signing_advance_with_timeout_def Signing_next_iteration_def add_i64_def add_w_def split: if_splits)
  have st': "Signing_state ?s = Sig_Round1" using assms(2) by (simp add: Signing_state_def)
  have "entered (Suc (si_iteration s)) (si_commitments s) = {}"
    using sig_inv_index [OF assms(1)] by (fastforce simp: entered_def)
  with st' have "\<forall>p. Signing_requires_action_from ?s p" by (simp add: Signing_requires_action_from_def omap_contains_entered)
  with adv st' show ?thesis by auto
qed

text \<open>
  C29: a signing session of a group with at least as many shares as the threshold can always go on. In
  round one some share of the group is asked to act, and its commitment is accepted and counted. In round two a
  participant that committed is asked: while more shares are to come its share is accepted and counted, whatever it is;
  the share that fills the round is accepted, and the session completes with the signature, when the crate
  aggregates the package of this session with the shares of its iteration, this one included (when the crate refuses
  them, the call fails and the session stays in round two until it times out). And once the timeout has passed,
  a session that is not complete starts over, in round one of the next iteration with every participant asked again, as long as
  the deadline and the number of the iteration fit their types.
\<close>

theorem frost_signing_progress:
  assumes "sig_reach L config msg s" and "0 < fc_threshold config" and "fc_threshold config \<le> n" and "n < 2 ^ 16 - 1"
  shows "(Signing_state s = Sig_Round1 \<longrightarrow> (\<exists>p < n. Signing_requires_action_from s p
        \<and> (\<forall>c. \<exists>s'. Signing_submit_commitments L (si_iteration s) p c s = (Ok (), s') \<and> si_commitments_len s' = Suc (si_commitments_len s))))
    \<and> (Signing_state s = Sig_Round2 \<longrightarrow> (\<exists>p. Signing_requires_action_from s p \<and> p \<in> committed s
        \<and> (\<forall>share pk. if Suc (si_sig_shares_len s) < fc_threshold config
             then \<exists>s'. Signing_submit_sig_share L (si_iteration s) p share pk s = (Ok (), s') \<and> si_sig_shares_len s' = Suc (si_sig_shares_len s)
             else \<exists>package shares. si_signing_package s = Some package \<and> assemble_by_identifier (shares_with s p share) = Ok shares
               \<and> (\<forall>signature. frost_aggregate L package shares pk = Inr signature \<longrightarrow>
                    (\<exists>s'. Signing_submit_sig_share L (si_iteration s) p share pk s = (Ok (), s')
                       \<and> Signing_state s' = Sig_Complete \<and> si_signature s' = Some signature)))))
    \<and> (\<forall>now timeout. Signing_state s \<noteq> Sig_Complete \<and> si_iteration_start_seconds s + timeout < now
        \<and> add_i64 (si_iteration_start_seconds s) timeout \<noteq> Err Panic \<and> Suc (si_iteration s) < 2 ^ 32
        \<longrightarrow> (\<exists>s'. Signing_advance_with_timeout now timeout s = (Ok (), s')
              \<and> Signing_state s' = Sig_Round1 \<and> si_iteration s' = Suc (si_iteration s) \<and> (\<forall>p. Signing_requires_action_from s' p)))"
proof -
  have inv: "sig_inv L s" and config: "si_config s = config" using sig_reach_inv [OF assms(1,2)] by simp_all
  have "Signing_state s = Sig_Round2 \<Longrightarrow> si_threshold s < 2 ^ 16" using assms config by simp
  note second = round2_progress [OF inv this, unfolded config]
  show ?thesis
    using round1_progress [OF inv] second timeout_restarts [OF inv] assms config by auto
qed

section \<open>Where the code falls short\<close>

text \<open>
  An attestation is counted but not recorded, so a single participant that attests often enough
  completes the key generation with a key of its choice.
\<close>

lemma attest_again:
  assumes "p \<notin> okeys (dk_attested d)" and "dk_group_pubkey d \<in> {None, Some k}" and "Suc (dk_attested_len d) < 2 ^ 16"
  shows "Dkg_attest_pubkey_package p k d = (Ok (), d\<lparr>dk_group_pubkey := Some k, dk_attested_len := Suc (dk_attested_len d)\<rparr>)"
  using assms by (auto simp: Dkg_attest_pubkey_package_def omap_contains_okeys cbind_def reads_def modify_def add_w_def split: option.splits)

lemma attest_repeatedly:
  assumes "p \<notin> okeys (dk_attested d)" and "dk_group_pubkey d \<in> {None, Some k}" and "dk_attested_len d + m < 2 ^ 16" and "0 < m"
  shows "for_calls (\<lambda>_. Dkg_attest_pubkey_package p k) (replicate m ()) d
    = (Ok (), d\<lparr>dk_group_pubkey := Some k, dk_attested_len := dk_attested_len d + m\<rparr>)"
  using assms
proof (induction m arbitrary: d)
  case (Suc m)
  have first: "Dkg_attest_pubkey_package p k d = (Ok (), d\<lparr>dk_group_pubkey := Some k, dk_attested_len := Suc (dk_attested_len d)\<rparr>)"
    by (rule attest_again) (use Suc.prems in auto)
  then show ?case
    using Suc.IH [of "d\<lparr>dk_group_pubkey := Some k, dk_attested_len := Suc (dk_attested_len d)\<rparr>"] Suc.prems
    by (cases m) (simp_all add: cbind_def lift_result_def)
qed simp

lemma attest_alone_completes:
  assumes "Dkg_state d = Dkg_Attesting" and "dk_attested d = []" and "dk_group_pubkey d = None" and "dk_attested_len d = 0"
    and "dk_participants d < 2 ^ 16"
  shows "\<exists>d'. for_calls (\<lambda>_. Dkg_attest_pubkey_package p k) (replicate (dk_participants d) ()) d = (Ok (), d') \<and> Dkg_group_pubkey d' = Some k"
proof -
  let ?d = "d\<lparr>dk_group_pubkey := Some k, dk_attested_len := dk_participants d\<rparr>"
  have "for_calls (\<lambda>_. Dkg_attest_pubkey_package p k) (replicate (dk_participants d) ()) d = (Ok (), ?d)"
    using attest_repeatedly [of p d k "dk_participants d"] assms by (auto simp: Dkg_state_def split: if_splits)
  moreover have "Dkg_group_pubkey ?d = Some k"
    using assms(1) by (auto simp: Dkg_group_pubkey_def Dkg_state_def split: if_splits)
  ultimately show ?thesis by blast
qed

text \<open>
  A signature share for an earlier iteration counts in the current one, where it is not aggregated.
\<close>

lemma old_share_counted:
  assumes "Signing_state s = Sig_Round2" and "(it, p) \<in> okeys (si_commitments s)" and "(it, p) \<notin> okeys (si_sig_shares s)"
    and "it \<noteq> si_iteration s" and "Suc (si_sig_shares_len s) < si_threshold s" and "si_threshold s < 2 ^ 16"
  shows "\<exists>s'. Signing_submit_sig_share L it p sh pk s = (Ok (), s') \<and> si_sig_shares_len s' = Suc (si_sig_shares_len s) \<and> shared s' = shared s"
proof -
  let ?t = "s\<lparr>si_sig_shares := omap_insert (\<lambda>k. k) (it, p) sh (si_sig_shares s), si_sig_shares_len := Suc (si_sig_shares_len s)\<rparr>"
  have "Signing_state ?t \<noteq> Sig_Complete" using assms(5) by (simp add: Signing_state_def)
  with assms have "Signing_submit_sig_share L it p sh pk s = (Ok (), ?t)"
    by (simp add: Signing_submit_sig_share_def omap_contains_okeys)
  then show ?thesis using assms(4) by (auto simp: entered_insert)
qed

text \<open>A small group: two participants with one share each.\<close>

definition demo_frost_lib :: frost_lib where
  "demo_frost_lib = \<lparr>SigningPackage_new = (\<lambda>cs m. m), frost_aggregate = (\<lambda>package shares k. Inr package),
     frost_address_string = (\<lambda>_. [])\<rparr>"

definition demo_frost_config :: frost_config where
  "demo_frost_config = \<lparr>fc_threshold = 2, fc_participants = [\<lparr>pt_address = [1], pt_shares = 1\<rparr>, \<lparr>pt_address = [2], pt_shares = 1\<rparr>]\<rparr>"

definition demo_signer_ctx :: "address \<Rightarrow> ctx" where
  "demo_signer_ctx addr = \<lparr>cx_time = Some 1000, cx_signer = Some (Some addr), cx_validators = None, cx_paid = Some (Ok ())\<rparr>"

definition demo_group :: "dkg \<Rightarrow> signing list \<Rightarrow> frost_group" where
  "demo_group d ss = \<lparr>fg_config = demo_frost_config, fg_dkg = d, fg_signing = ss, fg_created_at = 0\<rparr>"

definition demo_dkg :: dkg where
  "demo_dkg = \<lparr>dk_participants = 2, dk_round1 = [], dk_round1_len = 0, dk_round2 = [], dk_round2_len = 0,
     dk_group_pubkey = None, dk_attested = [], dk_attested_len = 0\<rparr>"

lemmas frost_eval = cbind_def reads_def modify_def lift_result_def add_w_def demo_frost_config_def demo_signer_ctx_def demo_group_def
  demo_dkg_def demo_frost_lib_def signer_range_def FrostGroup_signer_def FrostConfig_share_range_def for_shares_def enumerate_eq_zip

text \<open>
  Commitments are taken for the indices that follow the signer's first one, however many there are: the
  first participant commits for the second as well.
\<close>

lemma commitments_for_others:
  "FrostConfig_share_range demo_frost_lib demo_frost_config [1] = Ok (0, 1)
   \<and> (\<exists>g'. FrostGroup_submit_commitments demo_frost_lib (demo_signer_ctx [1]) 0 0 [[10], [11]]
        (demo_group demo_dkg [Signing_new demo_frost_config [7] 0]) = (Ok (), g')
      \<and> committed (fg_signing g' ! 0) = {0, 1} \<and> Signing_state (fg_signing g' ! 0) = Sig_Round2)"
proof -
  let ?g = "demo_group demo_dkg [Signing_new demo_frost_config [7] 0]"
  have "\<exists>s'. for_shares 0 (\<lambda>p c. Signing_submit_commitments demo_frost_lib 0 p c) [[10], [11]] (Signing_new demo_frost_config [7] 0) = (Ok (), s')
      \<and> committed s' = {0, 1} \<and> Signing_state s' = Sig_Round2"
    by (auto simp: frost_eval Signing_submit_commitments_def Signing_new_def Signing_state_def omap_contains_def entered_def
        Signing_build_signing_package_def assemble_by_identifier_def of_iteration_def map_filter_simps frost_identifier_def)
  then show ?thesis
    by (auto simp: FrostGroup_submit_commitments_def on_signing_def on_nth_def signer_range_def FrostGroup_signer_def cbind_def reads_def lift_result_def
        demo_signer_ctx_def demo_group_def FrostConfig_share_range_def demo_frost_config_def add_w_def)
qed

text \<open>The validators are sorted by ascending stake before the first \<open>top_n\<close> are taken: the group has the smallest ones.\<close>

lemma from_staking_takes_the_smallest:
  "FrostConfig_from_staking (Ok [\<lparr>sv_address = [1], sv_amount_staked = 30\<rparr>, \<lparr>sv_address = [2], sv_amount_staked = 10\<rparr>,
      \<lparr>sv_address = [3], sv_amount_staked = 20\<rparr>]) 2 2 []
    = Ok \<lparr>fc_threshold = 2, fc_participants = [\<lparr>pt_address = [2], pt_shares = 1\<rparr>, \<lparr>pt_address = [3], pt_shares = 1\<rparr>]\<rparr>"
  by (simp add: FrostConfig_from_staking_def)

theorem frost_dkg_rounds_exact_witness:
  "\<exists>g. group_reach demo_frost_lib g \<and> okeys (dk_round1 (fg_dkg g)) = {0}
    \<and> (Dkg_state (fg_dkg g) \<noteq> Dkg_Round1 \<longleftrightarrow> okeys (dk_round1 (fg_dkg g)) = {..<2})"
proof -
  let ?g = "demo_group demo_dkg []"
  let ?h = "demo_group (demo_dkg\<lparr>dk_round1 := [(0, [5])], dk_round1_len := 1\<rparr>) []"
  have total: "FrostConfig_total_shares demo_frost_config = Ok 2" by (simp add: FrostConfig_total_shares_def demo_frost_config_def add_w_def)
  then have "FrostGroup_with_config demo_frost_config 0 = Ok ?g"
    by (simp add: FrostGroup_with_config_def Dkg_from_config_def demo_group_def demo_dkg_def)
  then have "group_reach demo_frost_lib ?g" by (rule group_new)
  moreover have "FrostGroup_submit_dkg_round1 demo_frost_lib (demo_signer_ctx [1]) [[5]] ?g = (Ok (), ?h)"
    by (simp add: FrostGroup_submit_dkg_round1_def frost_eval on_dkg_def Dkg_submit_round1_def Dkg_state_def omap_contains_def)
  ultimately have reach: "group_reach demo_frost_lib ?h" by (rule group_round1)
  from frost_dkg_rounds_exact [OF reach] total have "Dkg_state (fg_dkg ?h) \<noteq> Dkg_Round1 \<longleftrightarrow> okeys (dk_round1 (fg_dkg ?h)) = {..<2}"
    by (simp add: demo_group_def)
  with reach show ?thesis by (intro exI [of _ ?h]) (simp add: demo_group_def demo_dkg_def)
qed

theorem frost_round1_own_shares_witness:
  "\<exists>g'. FrostGroup_submit_dkg_round1 demo_frost_lib (demo_signer_ctx [2]) [[5]] (demo_group demo_dkg []) = (Ok (), g')
    \<and> okeys (dk_round1 (fg_dkg g')) = {1}"
proof -
  have "\<exists>g'. FrostGroup_submit_dkg_round1 demo_frost_lib (demo_signer_ctx [2]) [[5]] (demo_group demo_dkg []) = (Ok (), g')"
    by (simp add: FrostGroup_submit_dkg_round1_def frost_eval on_dkg_def Dkg_submit_round1_def Dkg_state_def omap_contains_def)
  then obtain g' where g': "FrostGroup_submit_dkg_round1 demo_frost_lib (demo_signer_ctx [2]) [[5]] (demo_group demo_dkg []) = (Ok (), g')" ..
  from frost_round1_own_shares [OF g'] have "okeys (dk_round1 (fg_dkg g')) = {1}"
    by (auto simp: FrostGroup_signer_def demo_signer_ctx_def demo_group_def demo_dkg_def FrostConfig_share_range_def demo_frost_config_def add_w_def)
  with g' show ?thesis by blast
qed

definition demo_solo :: frost_config where
  "demo_solo = demo_frost_config\<lparr>fc_threshold := 1\<rparr>"

definition demo_session :: "((u32 \<times> u16) \<times> bytes) list \<Rightarrow> bytes option \<Rightarrow> ((u32 \<times> u16) \<times> bytes) list \<Rightarrow> bytes option \<Rightarrow> signing" where
  "demo_session cs package ss sg = (Signing_new demo_solo [7] 0)\<lparr>si_commitments := cs, si_commitments_len := length cs,
     si_signing_package := package, si_sig_shares := ss, si_sig_shares_len := length ss, si_signature := sg\<rparr>"

lemma demo_session_reach:
  "sig_reach demo_frost_lib demo_solo [7] (demo_session [((0, 0), [10])] (Some [7]) [] None)"
  "sig_reach demo_frost_lib demo_solo [7] (demo_session [((0, 0), [10])] (Some [7]) [((0, 0), [20])] (Some [7]))"
proof -
  have new: "sig_reach demo_frost_lib demo_solo [7] (Signing_new demo_solo [7] 0)" by (rule sig_new)
  have commit: "Signing_submit_commitments demo_frost_lib 0 0 [10] (Signing_new demo_solo [7] 0) = (Ok (), demo_session [((0, 0), [10])] (Some [7]) [] None)"
    by (simp add: frost_eval demo_session_def demo_solo_def Signing_submit_commitments_def Signing_new_def Signing_state_def omap_contains_def
        Signing_build_signing_package_def assemble_by_identifier_def of_iteration_def map_filter_simps frost_identifier_def)
  show one: "sig_reach demo_frost_lib demo_solo [7] (demo_session [((0, 0), [10])] (Some [7]) [] None)"
    by (rule sig_commit [OF new _ commit]) simp
  have "Signing_submit_sig_share demo_frost_lib 0 0 [20] [] (demo_session [((0, 0), [10])] (Some [7]) [] None)
      = (Ok (), demo_session [((0, 0), [10])] (Some [7]) [((0, 0), [20])] (Some [7]))"
    by (simp add: frost_eval demo_session_def demo_solo_def Signing_submit_sig_share_def Signing_new_def Signing_state_def omap_contains_def
        Signing_aggregate_signature_def assemble_by_identifier_def of_iteration_def map_filter_simps frost_identifier_def)
  then show "sig_reach demo_frost_lib demo_solo [7] (demo_session [((0, 0), [10])] (Some [7]) [((0, 0), [20])] (Some [7]))"
    by (rule sig_share [OF one])
qed

theorem frost_signature_is_aggregate_witness:
  "aggregated demo_frost_lib (demo_session [((0, 0), [10])] (Some [7]) [((0, 0), [20])] (Some [7])) [7]"
  using frost_signature_is_aggregate [OF demo_session_reach(2)] by (simp add: demo_session_def demo_solo_def)

theorem frost_signing_progress_witness:
  "\<exists>p. Signing_requires_action_from (demo_session [((0, 0), [10])] (Some [7]) [] None) p
    \<and> p \<in> committed (demo_session [((0, 0), [10])] (Some [7]) [] None)
    \<and> (\<exists>s'. Signing_submit_sig_share demo_frost_lib 0 p [20] [9] (demo_session [((0, 0), [10])] (Some [7]) [] None) = (Ok (), s')
         \<and> Signing_state s' = Sig_Complete \<and> si_signature s' = Some [7])"
proof -
  let ?s = "demo_session [((0, 0), [10])] (Some [7]) [] None"
  have facts: "Signing_state ?s = Sig_Round2" "si_iteration ?s = 0" "si_signing_package ?s = Some [7]" "si_sig_shares_len ?s = 0"
    by (simp_all add: demo_session_def demo_solo_def Signing_new_def Signing_state_def)
  obtain p where p: "Signing_requires_action_from ?s p" "p \<in> committed ?s"
    and acc: "\<forall>share pk. if Suc (si_sig_shares_len ?s) < fc_threshold demo_solo
             then \<exists>s'. Signing_submit_sig_share demo_frost_lib (si_iteration ?s) p share pk ?s = (Ok (), s') \<and> si_sig_shares_len s' = Suc (si_sig_shares_len ?s)
             else \<exists>package shares. si_signing_package ?s = Some package \<and> assemble_by_identifier (shares_with ?s p share) = Ok shares
               \<and> (\<forall>signature. frost_aggregate demo_frost_lib package shares pk = Inr signature \<longrightarrow>
                    (\<exists>s'. Signing_submit_sig_share demo_frost_lib (si_iteration ?s) p share pk ?s = (Ok (), s')
                       \<and> Signing_state s' = Sig_Complete \<and> si_signature s' = Some signature))"
    using frost_signing_progress [OF demo_session_reach(1), of 2] facts(1) by (auto simp: demo_solo_def)
  from acc [rule_format, of "[20]" "[9]"] facts(2-4) p show ?thesis by (auto simp: demo_solo_def demo_frost_lib_def)
qed

end
