(* ===== verification/Frost_Signer.thy ===== *)
theory Frost_Signer
  imports Frost_Properties
begin

text \<open>
  The signer of a FROST participant (src/src/frost/signer.rs): the secrets it keeps and what it submits in
  each round. The secrets, packages and nonces of the frost crate are opaque byte strings and its functions the parameters of
  \<open>frost_secrets\<close>; randomness is a counter of the draws made so far. The chain is changed here only by the calls of
  the signer, and a call that fails leaves it as it is.
\<close>

section \<open>State\<close>

record frost_secrets = frost_lib +
  dkg_part1 :: "u16 \<Rightarrow> u16 \<Rightarrow> u16 \<Rightarrow> nat \<Rightarrow> (bytes \<times> bytes) option"  \<comment> \<open>identifier, signers, threshold, randomness: secret and package\<close>
  dkg_part2 :: "bytes \<Rightarrow> (u16 \<times> bytes) list \<Rightarrow> (bytes \<times> (u16 \<times> bytes) list) option"
  dkg_part3 :: "bytes \<Rightarrow> (u16 \<times> bytes) list \<Rightarrow> (u16 \<times> bytes) list \<Rightarrow> (bytes \<times> bytes) option"  \<comment> \<open>key and public key packages\<close>
  frost_commit :: "bytes \<Rightarrow> nat \<Rightarrow> bytes \<times> bytes"  \<comment> \<open>nonces and commitment\<close>
  frost_round2_sign :: "bytes \<Rightarrow> bytes \<Rightarrow> bytes \<Rightarrow> bytes option"  \<comment> \<open>signing package, nonces, key package\<close>

record frost_signer =
  fs_address :: address
  fs_key_packages :: "((u64 \<times> u16) \<times> bytes) list"  \<comment> \<open>on disk\<close>
  fs_signing_nonces :: "((u64 \<times> u64 \<times> u32 \<times> u16) \<times> bytes) list"  \<comment> \<open>on disk\<close>
  fs_dkg_round1 :: "((u64 \<times> u16) \<times> bytes) list"
  fs_dkg_round2 :: "((u64 \<times> u16) \<times> bytes) list"
  fs_draws :: nat

definition Signer_new :: "address \<Rightarrow> frost_signer" where
  "Signer_new address =
     \<lparr>fs_address = address, fs_key_packages = [], fs_signing_nonces = [], fs_dkg_round1 = [], fs_dkg_round2 = [], fs_draws = 0\<rparr>"

record frost_world =
  fw_signer :: frost_signer
  fw_chain :: frost

definition on_signer :: "(frost_signer, 'a) call \<Rightarrow> (frost_world, 'a) call" where
  "on_signer f w = (case f (fw_signer w) of (r, s) \<Rightarrow> (r, w\<lparr>fw_signer := s\<rparr>))"

definition submit_call :: "(frost, unit) call \<Rightarrow> (frost_world, unit) call" where
  "submit_call f w = (case f (fw_chain w) of (Ok _, fr) \<Rightarrow> (Ok (), w\<lparr>fw_chain := fr\<rparr>) | (Err e, _) \<Rightarrow> (Err e, w))"

definition fetch :: "(frost \<Rightarrow> 'a result) \<Rightarrow> (frost_world, 'a) call" where
  "fetch f = reads (\<lambda>w. f (fw_chain w))"

text \<open>A loop over the shares of the signer that collects one value for each.\<close>

fun collect :: "('x \<Rightarrow> ('s, 'a) call) \<Rightarrow> 'x list \<Rightarrow> ('s, 'a list) call" where
  "collect f [] = lift_result (Ok [])"
| "collect f (x # xs) = cbind (f x) (\<lambda>a. cbind (collect f xs) (\<lambda>as. lift_result (Ok (a # as))))"

definition own_shares :: "'m frost_lib_scheme \<Rightarrow> frost_config \<Rightarrow> (frost_world, u16 list) call" where
  "own_shares L config =
     reads (\<lambda>w. rbind (FrostConfig_share_range L config (fs_address (fw_signer w))) (\<lambda>(start, stop). Ok [start..<stop]))"

definition length_vec16 :: "'a list \<Rightarrow> 'a list result" where
  "length_vec16 xs = (if length xs < 2 ^ 16 then Ok xs else Err TryFrom)"

section \<open>Key generation\<close>

definition round1_share :: "frost_secrets \<Rightarrow> u64 \<Rightarrow> u16 \<Rightarrow> u16 \<Rightarrow> u16 \<Rightarrow> (frost_signer, bytes) call" where
  "round1_share L index max_signers min_signers i =
     cbind (lift_result (frost_identifier i)) (\<lambda>id.
     cbind (reads (\<lambda>s. ok_or (App ''Error during DKG part 1'') (dkg_part1 L id max_signers min_signers (fs_draws s)))) (\<lambda>(secret, package).
     cbind (modify (\<lambda>s. s\<lparr>fs_draws := Suc (fs_draws s), fs_dkg_round1 := omap_insert (\<lambda>k. k) (index, i) secret (fs_dkg_round1 s)\<rparr>)) (\<lambda>_.
     lift_result (Ok package))))"

definition Signer_dkg_part1 :: "frost_secrets \<Rightarrow> ctx \<Rightarrow> u64 \<Rightarrow> (frost_world, unit) call" where
  "Signer_dkg_part1 L C index =
     cbind (fetch (\<lambda>fr. Frost_config fr index)) (\<lambda>config.
     cbind (lift_result (FrostConfig_total_shares config)) (\<lambda>max_signers.
     cbind (own_shares L config) (\<lambda>shares.
     cbind (on_signer (collect (round1_share L index max_signers (fc_threshold config)) shares)) (\<lambda>packages.
     cbind (lift_result (length_vec16 packages)) (\<lambda>packages.
     submit_call (Frost_submit_dkg_round1 L C index packages))))))"

definition round2_share :: "frost_secrets \<Rightarrow> u64 \<Rightarrow> (u16 \<times> bytes) list \<Rightarrow> u16 \<Rightarrow> (frost_signer, (u16 \<times> bytes) list) call" where
  "round2_share L index round1_packages i =
     cbind (lift_result (frost_identifier i)) (\<lambda>id.
     cbind (reads (\<lambda>s. ok_or (App ''Missing secret package for participant'') (map_of (fs_dkg_round1 s) (index, i)))) (\<lambda>secret.
     cbind (lift_result (ok_or (App ''Error during DKG part 2'') (dkg_part2 L secret (omap_remove id round1_packages)))) (\<lambda>(secret, package).
     cbind (modify (fs_dkg_round2_update (omap_insert (\<lambda>k. k) (index, i) secret))) (\<lambda>_.
     lift_result (rbind (disassemble_by_identifier package) length_vec16)))))"

definition Signer_dkg_part2 :: "frost_secrets \<Rightarrow> ctx \<Rightarrow> u64 \<Rightarrow> (frost_world, unit) call" where
  "Signer_dkg_part2 L C index =
     cbind (fetch (\<lambda>fr. Frost_config fr index)) (\<lambda>config.
     cbind (fetch (\<lambda>fr. Frost_dkg_round1_packages fr index)) (\<lambda>packages.
     cbind (lift_result (assemble_by_identifier packages)) (\<lambda>round1_packages.
     cbind (own_shares L config) (\<lambda>shares.
     cbind (on_signer (collect (round2_share L index round1_packages) shares)) (\<lambda>packages.
     cbind (lift_result (length_vec16 packages)) (\<lambda>packages.
     submit_call (Frost_submit_dkg_round2 L C index packages)))))))"

text \<open>
  One share of part 3: the key package is stored, and the public key is compared with the last one. \<open>take\<close> empties
  the last one again, so what the next share finds is always empty.
\<close>

definition attest_share ::
  "frost_secrets \<Rightarrow> ctx \<Rightarrow> u64 \<Rightarrow> (u16 \<times> bytes) list \<Rightarrow> bytes option \<Rightarrow> u16 \<Rightarrow> (frost_world, bytes option) call" where
  "attest_share L C index round1_packages last_pubkey_package i =
     cbind (lift_result (frost_identifier i)) (\<lambda>id.
     cbind (fetch (\<lambda>fr. Frost_dkg_round2_packages fr index i)) (\<lambda>packages.
     cbind (reads (\<lambda>w. ok_or (App ''Missing secret package for participant'') (map_of (fs_dkg_round2 (fw_signer w)) (index, i)))) (\<lambda>secret.
     cbind (lift_result (assemble_by_identifier packages)) (\<lambda>round2_packages.
     cbind (lift_result (ok_or (App ''Error during DKG part 3'') (dkg_part3 L secret (omap_remove id round1_packages) round2_packages)))
       (\<lambda>(key_package, pubkey_package).
     cbind (on_signer (modify (fs_key_packages_update (omap_insert (\<lambda>k. k) (index, i) key_package)))) (\<lambda>_.
     cbind (lift_result (case last_pubkey_package of
         Some package \<Rightarrow> if pubkey_package \<noteq> package then Err (App ''Participants computed different pubkeys'') else Ok (Some package)
       | None \<Rightarrow> Ok (Some pubkey_package))) (\<lambda>last_pubkey_package.
     case last_pubkey_package of
       Some pubkey \<Rightarrow> cbind (submit_call (Frost_attest_dkg_pubkey L C index pubkey)) (\<lambda>_. lift_result (Ok None))
     | None \<Rightarrow> lift_result (Ok None))))))))"

fun attest_shares ::
  "frost_secrets \<Rightarrow> ctx \<Rightarrow> u64 \<Rightarrow> (u16 \<times> bytes) list \<Rightarrow> bytes option \<Rightarrow> u16 list \<Rightarrow> (frost_world, unit) call" where
  "attest_shares L C index round1_packages last_pubkey_package [] = lift_result (Ok ())"
| "attest_shares L C index round1_packages last_pubkey_package (i # is) =
     cbind (attest_share L C index round1_packages last_pubkey_package i) (\<lambda>last_pubkey_package.
     attest_shares L C index round1_packages last_pubkey_package is)"

definition Signer_dkg_part3 :: "frost_secrets \<Rightarrow> ctx \<Rightarrow> u64 \<Rightarrow> (frost_world, unit) call" where
  "Signer_dkg_part3 L C index =
     cbind (fetch (\<lambda>fr. Frost_config fr index)) (\<lambda>config.
     cbind (fetch (\<lambda>fr. Frost_dkg_round1_packages fr index)) (\<lambda>packages.
     cbind (lift_result (assemble_by_identifier packages)) (\<lambda>round1_packages.
     cbind (own_shares L config) (\<lambda>shares.
     attest_shares L C index round1_packages None shares))))"

text \<open>The steps log the error of an index and go on with the next.\<close>

definition logged :: "('s, unit) call \<Rightarrow> ('s, unit) call" where
  "logged m s = (case m s of (Err Panic, s) \<Rightarrow> (Err Panic, s) | (_, s) \<Rightarrow> (Ok (), s))"

definition Signer_dkg_step :: "frost_secrets \<Rightarrow> ctx \<Rightarrow> (frost_world, unit) call" where
  "Signer_dkg_step L C w =
     cbind (fetch (\<lambda>fr. Frost_dkg_action_required L fr (fs_address (fw_signer w)))) (\<lambda>indices.
     for_calls (\<lambda>index.
       cbind (fetch (\<lambda>fr. Frost_dkg_state fr index)) (\<lambda>dkg_state.
       logged (case dkg_state of
           Dkg_Round1 \<Rightarrow> Signer_dkg_part1 L C index
         | Dkg_Round2 \<Rightarrow> Signer_dkg_part2 L C index
         | Dkg_Attesting \<Rightarrow> Signer_dkg_part3 L C index
         | Dkg_Complete \<Rightarrow> lift_result (Ok ())))) indices) w"

section \<open>Signing\<close>

definition key_package_of :: "u64 \<Rightarrow> u16 \<Rightarrow> (frost_signer, bytes) call" where
  "key_package_of group_index i =
     reads (\<lambda>s. ok_or (App ''Missing key package'') (map_of (fs_key_packages s) (group_index, i)))"

definition commit_share :: "frost_secrets \<Rightarrow> u64 \<Rightarrow> u64 \<Rightarrow> u32 \<Rightarrow> u16 \<Rightarrow> (frost_signer, bytes) call" where
  "commit_share L group_index sig_index iteration i =
     cbind (key_package_of group_index i) (\<lambda>key_package.
     cbind (reads (\<lambda>s. Ok (frost_commit L key_package (fs_draws s)))) (\<lambda>(nonces, commitment).
     cbind (modify (\<lambda>s. s\<lparr>fs_draws := Suc (fs_draws s),
         fs_signing_nonces := omap_insert (\<lambda>k. k) (group_index, sig_index, iteration, i) nonces (fs_signing_nonces s)\<rparr>)) (\<lambda>_.
     lift_result (Ok commitment))))"

definition Signer_signing_commit :: "frost_secrets \<Rightarrow> ctx \<Rightarrow> u64 \<Rightarrow> u64 \<Rightarrow> u32 \<Rightarrow> (frost_world, unit) call" where
  "Signer_signing_commit L C group_index sig_index iteration =
     cbind (fetch (\<lambda>fr. Frost_config fr group_index)) (\<lambda>config.
     cbind (own_shares L config) (\<lambda>shares.
     cbind (on_signer (collect (commit_share L group_index sig_index iteration) shares)) (\<lambda>commitments.
     cbind (lift_result (length_vec16 commitments)) (\<lambda>commitments.
     submit_call (Frost_submit_commitments L C group_index sig_index iteration commitments)))))"

definition sign_share :: "frost_secrets \<Rightarrow> bytes \<Rightarrow> u64 \<Rightarrow> u64 \<Rightarrow> u32 \<Rightarrow> u16 \<Rightarrow> (frost_signer, bytes) call" where
  "sign_share L signing_package group_index sig_index iteration i =
     cbind (key_package_of group_index i) (\<lambda>key_package.
     cbind (reads (\<lambda>s. ok_or (App ''Missing signing nonces'') (map_of (fs_signing_nonces s) (group_index, sig_index, iteration, i)))) (\<lambda>nonces.
     lift_result (ok_or (App ''Error during signing'') (frost_round2_sign L signing_package nonces key_package))))"

definition Signer_signing_sign :: "frost_secrets \<Rightarrow> ctx \<Rightarrow> u64 \<Rightarrow> u64 \<Rightarrow> u32 \<Rightarrow> (frost_world, unit) call" where
  "Signer_signing_sign L C group_index sig_index iteration =
     cbind (fetch (\<lambda>fr. Frost_signing_package fr group_index sig_index)) (\<lambda>package.
     cbind (lift_result (ok_or (App ''No signing package'') package)) (\<lambda>signing_package.
     cbind (fetch (\<lambda>fr. Frost_config fr group_index)) (\<lambda>config.
     cbind (own_shares L config) (\<lambda>shares.
     cbind (on_signer (collect (sign_share L signing_package group_index sig_index iteration) shares)) (\<lambda>sig_shares.
     cbind (lift_result (length_vec16 sig_shares)) (\<lambda>sig_shares.
     submit_call (Frost_submit_sig_shares L C group_index sig_index iteration sig_shares)))))))"

definition Signer_signing_step :: "frost_secrets \<Rightarrow> ctx \<Rightarrow> (frost_world, unit) call" where
  "Signer_signing_step L C w =
     cbind (fetch (\<lambda>fr. Frost_signing_action_required L fr (fs_address (fw_signer w)))) (\<lambda>indices.
     for_calls (\<lambda>(group_index, sig_index).
       cbind (fetch (\<lambda>fr. Frost_signing_state_with_iteration fr group_index sig_index)) (\<lambda>(i, state).
       logged (case state of
           Sig_Round1 \<Rightarrow> Signer_signing_commit L C group_index sig_index i
         | Sig_Round2 \<Rightarrow> Signer_signing_sign L C group_index sig_index i
         | Sig_Complete \<Rightarrow> lift_result (Ok ())))) indices) w"

definition Signer_step :: "frost_secrets \<Rightarrow> ctx \<Rightarrow> (frost_world, unit) call" where
  "Signer_step L C = cbind (Signer_dkg_step L C) (\<lambda>_. Signer_signing_step L C)"

section \<open>Commitments and nonces\<close>

lemma commit_share_Ok:
  "commit_share L g k it i s = (Ok c, t) \<longleftrightarrow> (\<exists>key nonces. map_of (fs_key_packages s) (g, i) = Some key
     \<and> frost_commit L key (fs_draws s) = (nonces, c)
     \<and> t = s\<lparr>fs_draws := Suc (fs_draws s), fs_signing_nonces := omap_insert (\<lambda>k. k) (g, k, it, i) nonces (fs_signing_nonces s)\<rparr>)"
  by (cases "map_of (fs_key_packages s) (g, i)"; cases "frost_commit L (the (map_of (fs_key_packages s) (g, i))) (fs_draws s)")
    (auto simp: commit_share_def key_package_of_def cbind_def reads_def modify_def lift_result_def ok_or_def)

lemma collect_commits:
  assumes "collect (commit_share L g k it) is s = (Ok cs, s')" and "distinct is"
  shows "length cs = length is \<and> fs_draws s' = fs_draws s + length is \<and> fs_key_packages s' = fs_key_packages s
    \<and> (\<forall>j. j \<notin> set is \<longrightarrow> map_of (fs_signing_nonces s') (g, k, it, j) = map_of (fs_signing_nonces s) (g, k, it, j))
    \<and> (\<forall>n < length is. \<exists>key nonces. map_of (fs_key_packages s) (g, is ! n) = Some key
         \<and> frost_commit L key (fs_draws s + n) = (nonces, cs ! n) \<and> map_of (fs_signing_nonces s') (g, k, it, is ! n) = Some nonces)"
  using assms
proof (induction "is" arbitrary: s cs)
  case (Cons i "is")
  from Cons.prems(1) obtain key nonces c t rest
    where key: "map_of (fs_key_packages s) (g, i) = Some key" and nc: "frost_commit L key (fs_draws s) = (nonces, c)"
      and t: "t = s\<lparr>fs_draws := Suc (fs_draws s), fs_signing_nonces := omap_insert (\<lambda>k. k) (g, k, it, i) nonces (fs_signing_nonces s)\<rparr>"
      and rest: "collect (commit_share L g k it) is t = (Ok rest, s')" and cs: "cs = c # rest"
    by (auto simp: commit_share_Ok)
  have "distinct is" and i: "i \<notin> set is" using Cons.prems(2) by auto
  note IH = Cons.IH [OF rest this(1)]
  have first: "map_of (fs_signing_nonces s') (g, k, it, i) = Some nonces" using IH i by (simp add: t)
  show ?case
  proof (intro conjI allI impI)
    fix n assume n: "n < length (i # is)"
    show "\<exists>key nonces. map_of (fs_key_packages s) (g, (i # is) ! n) = Some key
         \<and> frost_commit L key (fs_draws s + n) = (nonces, cs ! n) \<and> map_of (fs_signing_nonces s') (g, k, it, (i # is) ! n) = Some nonces"
    proof (cases n)
      case 0
      with key nc first cs show ?thesis by auto
    next
      case (Suc m)
      with n IH cs show ?thesis by (auto simp: t)
    qed
  next
    fix j assume "j \<notin> set (i # is)"
    with IH show "map_of (fs_signing_nonces s') (g, k, it, j) = map_of (fs_signing_nonces s) (g, k, it, j)" by (simp add: t)
  qed (use IH cs in \<open>simp_all add: t\<close>)
qed simp

lemma commits_recorded:
  assumes "for_calls (\<lambda>(p, c). Signing_submit_commitments L it p c) (zip ps cs) s = (Ok (), s')" and "distinct ps" and "length ps = length cs"
  shows "(\<forall>n < length ps. map_of (si_commitments s') (it, ps ! n) = Some (cs ! n))
    \<and> (\<forall>p. p \<notin> set ps \<longrightarrow> map_of (si_commitments s') (it, p) = map_of (si_commitments s) (it, p))"
  using assms
proof (induction ps arbitrary: cs s)
  case (Cons p ps)
  then obtain c rest where cs: "cs = c # rest" "length ps = length rest" by (cases cs) auto
  from Cons.prems(1) cs obtain t where t: "Signing_submit_commitments L it p c s = (Ok (), t)"
    and more: "for_calls (\<lambda>(p, c). Signing_submit_commitments L it p c) (zip ps rest) t = (Ok (), s')" by auto
  have "map_of (si_commitments t) = (map_of (si_commitments s))((it, p) \<mapsto> c)" using submit_commitments_Ok [OF t] by auto
  with Cons.IH [OF more _ cs(2)] Cons.prems(2) cs(1) show ?case by (auto simp: nth_Cons split: nat.splits)
qed simp

lemma submitted_commitments:
  assumes "Frost_submit_commitments L C g k it cs fr = (Ok (), fr')" and "length cs < 2 ^ 16"
  obtains addr a b where "FrostGroup_signer C = Ok addr" "FrostConfig_share_range L (fg_config (fr ! g)) addr = Ok (a, b)"
    "g < length fr" "\<And>n. n < length cs \<Longrightarrow> map_of (si_commitments (fg_signing (fr' ! g) ! k)) (it, a + n) = Some (cs ! n)"
proof -
  from assms(1) obtain addr a b where g: "g < length fr" "k < length (fg_signing (fr ! g))" "FrostGroup_signer C = Ok addr"
    "FrostConfig_share_range L (fg_config (fr ! g)) addr = Ok (a, b)"
    and run: "for_shares a (\<lambda>p c. Signing_submit_commitments L it p c) cs (fg_signing (fr ! g) ! k) = (Ok (), fg_signing (fr' ! g) ! k)"
    by (auto simp: Frost_submit_commitments_def at_group_def on_nth_def FrostGroup_submit_commitments_def cbind_def signer_range_def lift_result_def
        reads_def on_signing_def split: if_splits prod.splits result.splits)
  have "length cs \<le> 2 ^ 16" using assms(2) by simp
  from commits_recorded [OF for_shares_Ok [OF run this]] have "\<forall>n < length cs. map_of (si_commitments (fg_signing (fr' ! g) ! k)) (it, a + n) = Some (cs ! n)"
    by simp
  then show ?thesis using that g by blast
qed

text \<open>
  C40: what a participant keeps is what it has committed to: after a successful commitment the chain holds for each of its shares the
  commitment that was drawn together with the nonces now stored for that share and iteration, from the key of that
  share, and no two shares use the same draw.
\<close>

theorem commitments_match_nonces:
  assumes "Signer_signing_commit L C g k it w = (Ok (), w')" and "FrostGroup_signer C = Ok (fs_address (fw_signer w))"
  shows "\<exists>a b. FrostConfig_share_range L (fg_config (fw_chain w ! g)) (fs_address (fw_signer w)) = Ok (a, b)
    \<and> (\<forall>i \<in> {a..<b}. \<exists>key nonces commitment. map_of (fs_key_packages (fw_signer w)) (g, i) = Some key
         \<and> frost_commit L key (fs_draws (fw_signer w) + (i - a)) = (nonces, commitment)
         \<and> map_of (fs_signing_nonces (fw_signer w')) (g, k, it, i) = Some nonces
         \<and> map_of (si_commitments (fg_signing (fw_chain w' ! g) ! k)) (it, i) = Some commitment)
    \<and> fs_draws (fw_signer w') = fs_draws (fw_signer w) + (b - a)"
proof -
  from assms(1) obtain a b cs s where range: "FrostConfig_share_range L (fg_config (fw_chain w ! g)) (fs_address (fw_signer w)) = Ok (a, b)"
    and coll: "collect (commit_share L g k it) [a..<b] (fw_signer w) = (Ok cs, s)" and len: "length cs < 2 ^ 16"
    and sub: "Frost_submit_commitments L C g k it cs (fw_chain w) = (Ok (), fw_chain w')" and s: "fw_signer w' = s"
    by (auto simp: Signer_signing_commit_def fetch_def own_shares_def on_signer_def submit_call_def length_vec16_def cbind_def reads_def lift_result_def
        Frost_config_def get_group_def split: prod.splits result.splits if_splits)
  note cm = collect_commits [OF coll distinct_upt]
  obtain a' b' where sb: "FrostConfig_share_range L (fg_config (fw_chain w ! g)) (fs_address (fw_signer w)) = Ok (a', b')"
    "\<And>n. n < length cs \<Longrightarrow> map_of (si_commitments (fg_signing (fw_chain w' ! g) ! k)) (it, a' + n) = Some (cs ! n)"
    using submitted_commitments [OF sub len] assms(2) by (metis result.inject(1))
  have a': "a' = a" using sb(1) range by simp
  have "\<exists>key nonces commitment. map_of (fs_key_packages (fw_signer w)) (g, i) = Some key
         \<and> frost_commit L key (fs_draws (fw_signer w) + (i - a)) = (nonces, commitment)
         \<and> map_of (fs_signing_nonces (fw_signer w')) (g, k, it, i) = Some nonces
         \<and> map_of (si_commitments (fg_signing (fw_chain w' ! g) ! k)) (it, i) = Some commitment" if "i \<in> {a..<b}" for i
    using cm sb(2) [of "i - a"] that by (auto simp: a' s dest!: spec [of _ "i - a"])
  with range cm s show ?thesis by auto
qed

section \<open>Secrets that outlive their use\<close>

text \<open>
  Signing leaves the secrets as they are. The nonces of an iteration, which the frost crate requires to be used once, are
  still there after a share was made with them, and sign any other package that the signer is shown for that iteration.
\<close>

lemma sign_share_eq:
  "sign_share L package g k it i s = (case map_of (fs_key_packages s) (g, i) of
     None \<Rightarrow> Err (App ''Missing key package'')
   | Some key \<Rightarrow> (case map_of (fs_signing_nonces s) (g, k, it, i) of
       None \<Rightarrow> Err (App ''Missing signing nonces'')
     | Some nonces \<Rightarrow> ok_or (App ''Error during signing'') (frost_round2_sign L package nonces key)), s)"
  by (auto simp: sign_share_def key_package_of_def cbind_def reads_def lift_result_def ok_or_def split: option.splits)

lemma sign_share_state: "snd (sign_share L package g k it i s) = s"
  by (simp add: sign_share_eq)

lemma collect_state:
  assumes "\<And>x s. snd (f x s) = s"
  shows "snd (collect f xs s) = s"
proof (induction xs)
  case (Cons x xs)
  obtain r where "f x s = (r, s)" using assms [of x s] by (cases "f x s") auto
  moreover obtain rs where "collect f xs s = (rs, s)" using Cons by (cases "collect f xs s") auto
  ultimately show ?case by (cases r; cases rs) (auto simp: cbind_def lift_result_def)
qed (simp add: lift_result_def)

lemmas collect_sign_shares = collect_state [of "sign_share L package g k it" for L package g k it, OF sign_share_state]

theorem nonces_outlive_signing:
  assumes "Signer_signing_sign L C g k it w = (r, w')"
  shows "fw_signer w' = fw_signer w"
  using assms collect_sign_shares
  by (auto simp: Signer_signing_sign_def fetch_def own_shares_def on_signer_def submit_call_def cbind_def reads_def lift_result_def
      split: prod.splits result.splits if_splits) (metis snd_conv)+

theorem nonces_sign_other_packages:
  assumes "sign_share L package g k it i s = (Ok share, s')"
  shows "\<exists>key nonces. frost_round2_sign L package nonces key = Some share
    \<and> (\<forall>other share'. frost_round2_sign L other nonces key = Some share' \<longrightarrow> sign_share L other g k it i s' = (Ok share', s'))"
proof -
  from assms obtain key nonces where "map_of (fs_key_packages s) (g, i) = Some key" "map_of (fs_signing_nonces s) (g, k, it, i) = Some nonces"
    "frost_round2_sign L package nonces key = Some share" "s' = s"
    by (cases "map_of (fs_key_packages s) (g, i)"; cases "map_of (fs_signing_nonces s) (g, k, it, i)") (auto simp: sign_share_eq)
  then show ?thesis by (intro exI [of _ key] exI [of _ nonces]) (simp add: sign_share_eq)
qed

text \<open>
  The comparison of the public keys that the shares compute never takes place: each share starts without a key to compare
  with and attests its own.
\<close>

lemma cbind_after: "m s = (Ok a, t) \<Longrightarrow> cbind m f s = f a t"
  by (simp add: cbind_def)

theorem pubkeys_are_not_compared:
  "attest_shares L C index round1_packages None is =
     for_calls (\<lambda>i. cbind (attest_share L C index round1_packages None i) (\<lambda>_. lift_result (Ok ()))) is"
proof (induction "is")
  case (Cons i "is")
  have none: "p = None" if "attest_share L C index round1_packages None i w = (Ok p, w')" for p w w'
    using that by (auto simp: attest_share_def cbind_def lift_result_def split: prod.splits result.splits)
  let ?f = "\<lambda>i. cbind (attest_share L C index round1_packages None i) (\<lambda>_. lift_result (Ok ()))"
  show ?case
  proof
    fix w
    obtain r w1 where step: "attest_share L C index round1_packages None i w = (r, w1)" by (cases "attest_share L C index round1_packages None i w")
    show "attest_shares L C index round1_packages None (i # is) w = for_calls ?f (i # is) w"
    proof (cases r)
      case (Ok p)
      with step none [of w p w1] have now: "attest_share L C index round1_packages None i w = (Ok None, w1)" "?f i w = (Ok (), w1)"
        by (simp_all add: cbind_def lift_result_def)
      show ?thesis by (simp only: attest_shares.simps for_calls.simps cbind_after [of "attest_share L C index round1_packages None i" w, OF now(1)]
          cbind_after [of "?f i" w, OF now(2)] Cons.IH)
    next
      case (Err e)
      with step have "?f i w = (Err e, w1)" by (simp add: cbind_def)
      with Err step show ?thesis by (simp add: cbind_def)
    qed
  qed
qed simp

section \<open>A concrete participant\<close>

definition demo_frost_secrets :: frost_secrets where
  "demo_frost_secrets = frost_lib.extend demo_frost_lib
     \<lparr>dkg_part1 = (\<lambda>i n t r. Some ([of_nat r], [of_nat i])), dkg_part2 = (\<lambda>s p. Some (s, p)), dkg_part3 = (\<lambda>s p q. Some (s, [1])),
      frost_commit = (\<lambda>key r. ([of_nat r], 1 # key)), frost_round2_sign = (\<lambda>p n k. Some (p @ n @ k))\<rparr>"

definition demo_frost_world :: frost_world where
  "demo_frost_world = \<lparr>fw_signer = (Signer_new [2])\<lparr>fs_key_packages := [((0, 1), [7])]\<rparr>,
     fw_chain = [demo_group demo_dkg [Signing_new demo_frost_config [9] 0]]\<rparr>"

lemma demo_frost_world_sel:
  "FrostConfig_share_range demo_frost_secrets demo_frost_config [2] = Ok (1, 2)" "fs_address (fw_signer demo_frost_world) = [2]"
  "fw_chain demo_frost_world = [demo_group demo_dkg [Signing_new demo_frost_config [9] 0]]"
  "map_of (fs_key_packages (fw_signer demo_frost_world)) (0, 1) = Some [7]" "frost_commit demo_frost_secrets k r = ([of_nat r], 1 # k)"
  by (simp_all add: FrostConfig_share_range_def demo_frost_config_def add_w_def demo_frost_world_def Signer_new_def demo_frost_secrets_def
      frost_lib.defs)

lemma demo_frost_submit:
  "\<exists>fr. Frost_submit_commitments demo_frost_secrets (demo_signer_ctx [2]) 0 0 0 [[1, 7]] (fw_chain demo_frost_world) = (Ok (), fr)"
proof -
  have "signer_range demo_frost_secrets (demo_signer_ctx [2]) g = (Ok (1, 2), g)" if "fg_config g = demo_frost_config" for g
    using that demo_frost_world_sel(1) by (simp add: signer_range_def FrostGroup_signer_def demo_signer_ctx_def cbind_def lift_result_def reads_def)
  then have "signer_range demo_frost_secrets (demo_signer_ctx [2]) (demo_group demo_dkg [Signing_new demo_frost_config [9] 0])
      = (Ok (1, 2), demo_group demo_dkg [Signing_new demo_frost_config [9] 0])" by (simp add: demo_group_def)
  then show ?thesis
    unfolding Frost_submit_commitments_def at_group_def on_nth_def FrostGroup_submit_commitments_def demo_frost_world_sel
    by (simp add: cbind_after) (simp add: frost_eval on_signing_def on_nth_def Signing_submit_commitments_def Signing_new_def Signing_state_def
        omap_contains_def)
qed

lemma demo_frost_commit:
  "\<exists>w'. Signer_signing_commit demo_frost_secrets (demo_signer_ctx [2]) 0 0 0 demo_frost_world = (Ok (), w')"
proof -
  obtain fr where fr: "Frost_submit_commitments demo_frost_secrets (demo_signer_ctx [2]) 0 0 0 [[1, 7]] (fw_chain demo_frost_world) = (Ok (), fr)"
    using demo_frost_submit by blast
  have "commit_share demo_frost_secrets 0 0 0 1 (fw_signer demo_frost_world) = (Ok [1, 7],
      (fw_signer demo_frost_world)\<lparr>fs_draws := Suc (fs_draws (fw_signer demo_frost_world)),
        fs_signing_nonces := omap_insert (\<lambda>k. k) (0, 0, 0, 1) [of_nat (fs_draws (fw_signer demo_frost_world))] (fs_signing_nonces (fw_signer demo_frost_world))\<rparr>)"
    unfolding commit_share_Ok using demo_frost_world_sel(4,5) by auto
  moreover have "[1..<2] = [1::nat]" by (simp add: upt_rec)
  ultimately have "\<exists>s. collect (commit_share demo_frost_secrets 0 0 0) [1..<2] (fw_signer demo_frost_world) = (Ok [[1, 7]], s)"
    by (simp add: cbind_def lift_result_def)
  then obtain s where s: "collect (commit_share demo_frost_secrets 0 0 0) [1..<2] (fw_signer demo_frost_world) = (Ok [[1, 7]], s)" by blast
  have "Frost_config (fw_chain demo_frost_world) 0 = Ok demo_frost_config"
    by (simp add: Frost_config_def get_group_def demo_frost_world_sel demo_group_def)
  then show ?thesis using fr s demo_frost_world_sel(1,2)
    by (simp add: Signer_signing_commit_def fetch_def own_shares_def on_signer_def submit_call_def length_vec16_def cbind_def reads_def lift_result_def)
qed

theorem commitments_match_nonces_witness:
  "\<exists>w'. Signer_signing_commit demo_frost_secrets (demo_signer_ctx [2]) 0 0 0 demo_frost_world = (Ok (), w')
    \<and> map_of (fs_signing_nonces (fw_signer w')) (0, 0, 0, 1) = Some [0]
    \<and> map_of (si_commitments (fg_signing (fw_chain w' ! 0) ! 0)) (0, 1) = Some [1, 7]"
proof -
  obtain w' where w': "Signer_signing_commit demo_frost_secrets (demo_signer_ctx [2]) 0 0 0 demo_frost_world = (Ok (), w')"
    using demo_frost_commit by blast
  have "FrostGroup_signer (demo_signer_ctx [2]) = Ok (fs_address (fw_signer demo_frost_world))"
    by (simp add: FrostGroup_signer_def demo_signer_ctx_def demo_frost_world_sel)
  from commitments_match_nonces [OF w' this] obtain a b
    where ab: "FrostConfig_share_range demo_frost_secrets (fg_config (fw_chain demo_frost_world ! 0)) [2] = Ok (a, b)"
      and each: "\<forall>i \<in> {a..<b}. \<exists>key nonces commitment. map_of (fs_key_packages (fw_signer demo_frost_world)) (0, i) = Some key
         \<and> frost_commit demo_frost_secrets key (fs_draws (fw_signer demo_frost_world) + (i - a)) = (nonces, commitment)
         \<and> map_of (fs_signing_nonces (fw_signer w')) (0, 0, 0, i) = Some nonces
         \<and> map_of (si_commitments (fg_signing (fw_chain w' ! 0) ! 0)) (0, i) = Some commitment"
    unfolding demo_frost_world_sel(2) by blast
  have "a = 1" "b = 2" using ab demo_frost_world_sel(1,3) by (auto simp: demo_group_def)
  with bspec [OF each, of 1] obtain nonces commitment
    where "frost_commit demo_frost_secrets [7] (fs_draws (fw_signer demo_frost_world)) = (nonces, commitment)"
      "map_of (fs_signing_nonces (fw_signer w')) (0, 0, 0, 1) = Some nonces"
      "map_of (si_commitments (fg_signing (fw_chain w' ! 0) ! 0)) (0, 1) = Some commitment"
    using demo_frost_world_sel(4) by auto
  moreover have "fs_draws (fw_signer demo_frost_world) = 0" by (simp add: demo_frost_world_def Signer_new_def)
  ultimately show ?thesis using w' demo_frost_world_sel(5) by auto
qed

end
