(* ===== verification/Cosmos.thy ===== *)
theory Cosmos
  imports App_Bridge
begin

text \<open>
  The state about remote Cosmos chains (src/src/cosmos.rs): the operator keys of their validators,
  relayed with proofs, and the outputs that pay a chain's escrowed nBTC to its validators in an emergency
  disbursal. The IBC module is read through the record \<open>ibc_view\<close>; hashing, membership proofs and protobuf
  decoding are the parameters of \<open>cosmos_lib\<close>.
\<close>

section \<open>What is read of IBC\<close>

type_synonym client_id = string

record cosmos_validator =
  cv_address :: bytes
  cv_power :: u64
  cv_ed25519 :: "bytes option"

record client =
  cl_client_type :: "string result"
  cl_root :: "u64 \<times> u64 \<Rightarrow> bytes option"  \<comment> \<open>the root of the consensus state of a height\<close>
  cl_last_header :: "cosmos_validator list result"  \<comment> \<open>the validators of the last header\<close>

record channel =
  ch_port_id :: string
  ch_channel_id :: string

record ibc_view =
  iv_client :: "client_id \<Rightarrow> client option"
  iv_client_connections :: "client_id \<Rightarrow> string list result"
  iv_connection_channels :: "string \<Rightarrow> channel list result"
  iv_transfer_port :: "string option"
  iv_escrow_account :: "string \<Rightarrow> string \<Rightarrow> string + address"
  iv_nbtc_balance :: "address \<Rightarrow> string + u64"

record existence_proof =
  ex_key :: bytes
  ex_value :: bytes

datatype proof_kind = Exist existence_proof | Other_proof

text \<open>A commitment proof: the kind of proof it carries, if any, and the rest of its content.\<close>

record commitment_proof =
  cm_proof :: "proof_kind option"
  cm_content :: bytes

datatype proof_spec = Tendermint_spec | Iavl_spec

record cosmos_lib = script_lib +
  tendermint_client_type :: string
  height_new :: "u64 \<times> u64 \<Rightarrow> bool"
  cosmos_sha256 :: "bytes \<Rightarrow> bytes"
  verify_membership :: "commitment_proof \<Rightarrow> proof_spec \<Rightarrow> bytes \<Rightarrow> bytes \<Rightarrow> bytes \<Rightarrow> bool"
  str_bytes :: "string \<Rightarrow> bytes"
  decode_account :: "bytes \<Rightarrow> bytes option option"  \<comment> \<open>the bytes of its public key, if it has one\<close>
  decode_secp_pubkey :: "bytes \<Rightarrow> bytes option"
  client_order :: "client_id \<Rightarrow> bytes"
  parse_port_id :: "string \<Rightarrow> string option"
  parse_channel_id :: "string \<Rightarrow> string option"

section \<open>Proofs\<close>

record cosmos_proof =
  pf_inner :: commitment_proof
  pf_outer :: commitment_proof

definition existence_of :: "commitment_proof \<Rightarrow> existence_proof result" where
  "existence_of p =
     rbind (ok_or (Ibc ''Expected proof'') (cm_proof p)) (\<lambda>kind.
     case kind of Exist e \<Rightarrow> Ok e | Other_proof \<Rightarrow> Err (Ibc ''Expected existence proof''))"

definition Proof_outer_proof :: "cosmos_proof \<Rightarrow> existence_proof result" where
  "Proof_outer_proof p = existence_of (pf_outer p)"

definition Proof_inner_proof :: "cosmos_proof \<Rightarrow> existence_proof result" where
  "Proof_inner_proof p = existence_of (pf_inner p)"

definition Proof_key :: "cosmos_proof \<Rightarrow> bytes result" where
  "Proof_key p = rbind (Proof_inner_proof p) (\<lambda>e. Ok (ex_key e))"

definition Proof_value :: "cosmos_proof \<Rightarrow> bytes result" where
  "Proof_value p = rbind (Proof_inner_proof p) (\<lambda>e. Ok (ex_value e))"

definition Proof_verify :: "'m cosmos_lib_scheme \<Rightarrow> bytes \<Rightarrow> string \<Rightarrow> cosmos_proof \<Rightarrow> unit result" where
  "Proof_verify L root store p =
     rbind (Proof_outer_proof p) (\<lambda>outer.
     let inner_root = ex_value outer in
     if \<not> verify_membership L (pf_outer p) Tendermint_spec root (str_bytes L store) inner_root
     then Err (Ibc ''Invalid outer proof'')
     else
     rbind (Proof_key p) (\<lambda>key.
     rbind (Proof_value p) (\<lambda>val.
     if \<not> verify_membership L (pf_inner p) Iavl_spec inner_root key val
     then Err (Ibc ''Invalid inner proof'')
     else Ok ())))"

text \<open>
  The wire format of a proof: two byte strings with a 16-bit length. The encodings of a commitment proof
  and of the length are parameters.
\<close>

record proof_codec =
  pc_encode :: "commitment_proof \<Rightarrow> bytes result"
  pc_decode :: "bytes \<Rightarrow> commitment_proof result"
  pc_encode_u16 :: "u16 \<Rightarrow> bytes"
  pc_decode_u16 :: "bytes \<Rightarrow> (u16 \<times> bytes) result"

definition encode_length_vec :: "'m proof_codec_scheme \<Rightarrow> bytes \<Rightarrow> bytes result" where
  "encode_length_vec K bs = (if length bs < 2 ^ 16 then Ok (pc_encode_u16 K (length bs) @ bs) else Err Encoding)"

definition decode_length_vec :: "'m proof_codec_scheme \<Rightarrow> bytes \<Rightarrow> (bytes \<times> bytes) result" where
  "decode_length_vec K bs =
     rbind (pc_decode_u16 K bs) (\<lambda>(n, rest).
     if length rest < n then Err Encoding else Ok (take n rest, drop n rest))"

definition Proof_encode :: "'m proof_codec_scheme \<Rightarrow> cosmos_proof \<Rightarrow> bytes result" where
  "Proof_encode K p =
     rbind (pc_encode K (pf_inner p)) (\<lambda>inner_bytes.
     rbind (encode_length_vec K inner_bytes) (\<lambda>inner.
     rbind (pc_encode K (pf_outer p)) (\<lambda>outer_bytes.
     rbind (encode_length_vec K outer_bytes) (\<lambda>outer.
     Ok (inner @ outer)))))"

definition Proof_encoding_length :: "'m proof_codec_scheme \<Rightarrow> cosmos_proof \<Rightarrow> nat result" where
  "Proof_encoding_length K p =
     rbind (pc_encode K (pf_inner p)) (\<lambda>inner.
     rbind (pc_encode K (pf_outer p)) (\<lambda>outer.
     Ok (4 + length inner + length outer)))"

definition Proof_decode :: "'m proof_codec_scheme \<Rightarrow> bytes \<Rightarrow> cosmos_proof result" where
  "Proof_decode K bs =
     rbind (decode_length_vec K bs) (\<lambda>(inner_bytes, rest).
     rbind (pc_decode K inner_bytes) (\<lambda>inner.
     rbind (decode_length_vec K rest) (\<lambda>(outer_bytes, _).
     rbind (pc_decode K outer_bytes) (\<lambda>outer.
     Ok \<lparr>pf_inner = inner, pf_outer = outer\<rparr>))))"

section \<open>Chains\<close>

definition MAX_SIGSET_SIZE :: nat where "MAX_SIGSET_SIZE = 40"
definition RECOVERY_THRESHOLD :: "u64 \<times> u64" where "RECOVERY_THRESHOLD = (2, 3)"

text \<open>The operator keys by consensus key, in the order of a byte string with a length prefix.\<close>

record chain =
  ca_op_keys_by_cons :: "(bytes \<times> pubkey) list"

definition cons_order :: "bytes \<Rightarrow> nat \<times> bytes" where
  "cons_order k = (length k, k)"

definition Chain_default :: chain where
  "Chain_default = \<lparr>ca_op_keys_by_cons = []\<rparr>"

definition op_xpub :: "pubkey \<Rightarrow> xpub" where
  "op_xpub op_key = \<lparr>xp_network = Bitcoin_net, xp_depth = 0, xp_parent_fingerprint = replicate 4 0, xp_child_number = 0,
     xp_public_key = op_key, xp_chain_code = replicate 32 0\<rparr>"

definition SignatorySet_default :: signatory_set where
  "SignatorySet_default = \<lparr>ss_create_time = 0, ss_present_vp = 0, ss_possible_vp = 0, ss_index = 0, ss_signatories = []\<rparr>"

text \<open>The body of the loop over the validators.\<close>

definition add_cosmos_validator :: "'m script_lib_scheme \<Rightarrow> chain \<Rightarrow> u32 \<Rightarrow> signatory_set \<Rightarrow> cosmos_validator \<Rightarrow> signatory_set result" where
  "add_cosmos_validator L chain index sigset val =
     rbind (add_u64 (ss_possible_vp sigset) (cv_power val)) (\<lambda>possible_vp.
     let sigset = sigset\<lparr>ss_possible_vp := possible_vp\<rparr> in
     case cv_ed25519 val of
       None \<Rightarrow> Ok sigset
     | Some cons_key \<Rightarrow>
         if length cons_key \<ge> 2 ^ 8 then Err Encoding
         else (case map_of (ca_op_keys_by_cons chain) cons_key of
             None \<Rightarrow> Ok sigset
           | Some op_key \<Rightarrow>
               if \<not> pubkey_from_slice L op_key then Ok sigset
               else
               rbind (derive_pubkey L (op_xpub op_key) index) (\<lambda>sig_key.
               if length (ss_signatories sigset) < MAX_SIGSET_SIZE then
                 rbind (add_u64 (ss_present_vp sigset) (cv_power val)) (\<lambda>present_vp.
                 Ok (sigset\<lparr>ss_signatories := ss_signatories sigset @ [\<lparr>sg_voting_power = cv_power val, sg_pubkey = sig_key\<rparr>],
                     ss_present_vp := present_vp\<rparr>))
               else Ok sigset)))"

definition Chain_to_sigset :: "'m script_lib_scheme \<Rightarrow> chain \<Rightarrow> u32 \<Rightarrow> client \<Rightarrow> signatory_set option result" where
  "Chain_to_sigset L chain index client =
     rbind (cl_last_header client) (\<lambda>vals.
     rbind (fold_result (add_cosmos_validator L chain index) (SignatorySet_default\<lparr>ss_index := index\<rparr>) vals) (\<lambda>sigset.
     Ok (Some sigset)))"

section \<open>The module\<close>

type_synonym cosmos = "(client_id \<times> chain) list"

definition Cosmos_op_key_present :: "cosmos \<Rightarrow> client_id \<Rightarrow> bytes \<Rightarrow> bool" where
  "Cosmos_op_key_present cos client_id cons_key =
     (case map_of cos client_id of None \<Rightarrow> False | Some chain \<Rightarrow> omap_contains cons_key (ca_op_keys_by_cons chain))"

definition ibc_err :: "string + 'a \<Rightarrow> 'a result" where
  "ibc_err r = (case r of Inl e \<Rightarrow> Err (Ibc e) | Inr a \<Rightarrow> Ok a)"

definition add_channel_balance :: "'m cosmos_lib_scheme \<Rightarrow> ibc_view \<Rightarrow> u64 \<Rightarrow> channel \<Rightarrow> u64 result" where
  "add_channel_balance L ibc total_usats channel =
     rbind (unwrap (iv_transfer_port ibc)) (\<lambda>transfer_port.
     if ch_port_id channel \<noteq> transfer_port then Ok total_usats
     else
     rbind (ok_or (Ibc ''Invalid port'') (parse_port_id L (ch_port_id channel))) (\<lambda>port_id.
     rbind (ok_or (Ibc ''Invalid channel id'') (parse_channel_id L (ch_channel_id channel))) (\<lambda>channel_id.
     rbind (ibc_err (iv_escrow_account ibc port_id channel_id)) (\<lambda>escrow_address.
     rbind (ibc_err (iv_nbtc_balance ibc escrow_address)) (\<lambda>balance.
     add_u64 total_usats balance)))))"

definition escrowed_usats :: "'m cosmos_lib_scheme \<Rightarrow> ibc_view \<Rightarrow> client_id \<Rightarrow> u64 result" where
  "escrowed_usats L ibc client_id =
     rbind (iv_client_connections ibc client_id) (\<lambda>connection_ids.
     fold_result (\<lambda>total connection_id.
       rbind (iv_connection_channels ibc connection_id) (\<lambda>channels. fold_result (add_channel_balance L ibc) total channels))
     0 connection_ids)"

text \<open>One chain: no output when its client is missing or no set with a quorum can be built.\<close>

definition chain_outputs :: "'m cosmos_lib_scheme \<Rightarrow> ibc_view \<Rightarrow> u32 \<Rightarrow> client_id \<times> chain \<Rightarrow> txout list result" where
  "chain_outputs L ibc index = (\<lambda>(client_id, chain).
     case iv_client ibc client_id of
       None \<Rightarrow> Ok []
     | Some client \<Rightarrow>
         (case Chain_to_sigset L chain index client of
            Err Panic \<Rightarrow> Err Panic
          | Err _ \<Rightarrow> Ok []
          | Ok None \<Rightarrow> Ok []
          | Ok (Some sigset) \<Rightarrow>
              if \<not> SignatorySet_has_quorum sigset then Ok []
              else
              rbind (escrowed_usats L ibc client_id) (\<lambda>total_usats.
              rbind (SignatorySet_output_script L sigset [0] RECOVERY_THRESHOLD) (\<lambda>script_pubkey.
              Ok [\<lparr>to_value = total_usats div 1000000, to_script_pubkey = script_pubkey\<rparr>]))))"

definition Cosmos_build_outputs :: "'m cosmos_lib_scheme \<Rightarrow> cosmos \<Rightarrow> ibc_view \<Rightarrow> u32 \<Rightarrow> txout list result" where
  "Cosmos_build_outputs L cos ibc index =
     rbind (map_result (chain_outputs L ibc index) cos) (\<lambda>outputs. Ok (concat outputs))"

definition tmhash :: "'m cosmos_lib_scheme \<Rightarrow> bytes \<Rightarrow> bytes" where
  "tmhash L bs = take 20 (cosmos_sha256 L bs)"

definition Cosmos_relay_op_key ::
  "'m cosmos_lib_scheme \<Rightarrow> ibc_view \<Rightarrow> client_id \<Rightarrow> u64 \<times> u64 \<Rightarrow> bytes \<Rightarrow> cosmos_proof \<Rightarrow> cosmos_proof \<Rightarrow> (cosmos, unit) call" where
  "Cosmos_relay_op_key L ibc client_id height cons_key op_addr acc =
     cbind (lift_result (ok_or (Ibc ''Client not found'') (iv_client ibc client_id))) (\<lambda>client.
     cbind (lift_result (cl_client_type client)) (\<lambda>client_type.
     if client_type \<noteq> tendermint_client_type L then lift_result (Err (Ibc ''Only supported for Tendermint clients''))
     else if \<not> height_new L height then lift_result (Err (Ibc ''Invalid height''))
     else
     cbind (lift_result (ok_or (Ibc ''No consensus state for given height'') (cl_root client height))) (\<lambda>root.
     let cons_addr = tmhash L cons_key in
     cbind (lift_result (cl_last_header client)) (\<lambda>validators.
     if length cons_addr \<noteq> 20 then lift_result (Err (App ''Could not convert consensus address''))
     else if \<not> list_ex (\<lambda>v. cv_address v = cons_addr) validators
     then lift_result (Err (App ''Consensus key is not in most recent validator set''))
     else
     cbind (lift_result (Proof_verify L root ''staking'' op_addr)) (\<lambda>_.
     cbind (lift_result (Proof_verify L root ''acc'' acc)) (\<lambda>_.
     cbind (lift_result (Proof_key op_addr)) (\<lambda>op_addr_key.
     if op_addr_key \<noteq> [0x22, 0x14] @ cons_addr
     then lift_result (Err (App ''Operator address proof does not match consensus address''))
     else
     cbind (lift_result (Proof_key acc)) (\<lambda>acc_key.
     cbind (lift_result (Proof_value op_addr)) (\<lambda>operator.
     if acc_key \<noteq> [0x01] @ operator
     then lift_result (Err (App ''Account proof does not match operator address''))
     else
     cbind (lift_result (Proof_value acc)) (\<lambda>acc_value.
     cbind (lift_result (ok_or (App ''Invalid account'') (decode_account L acc_value))) (\<lambda>pub_key.
     cbind (lift_result (ok_or (App ''Expected public key'') pub_key)) (\<lambda>op_key_any.
     cbind (lift_result (ok_or (App ''Invalid public key'') (decode_secp_pubkey L op_key_any))) (\<lambda>key_bytes.
     cbind (lift_result (Pubkey_try_from_slice L key_bytes)) (\<lambda>op_key.
     cbind (modify (\<lambda>cos. if omap_contains client_id cos then cos else omap_insert (client_order L) client_id Chain_default cos)) (\<lambda>_.
     cbind (reads (\<lambda>cos. rbind (unwrap (map_of cos client_id)) (\<lambda>chain.
              if map_of (ca_op_keys_by_cons chain) cons_key = Some op_key
              then Err (App ''Operator key already relayed'') else Ok chain))) (\<lambda>chain.
     modify (\<lambda>cos. omap_insert (client_order L) client_id
       (chain\<lparr>ca_op_keys_by_cons := omap_insert cons_order cons_key op_key (ca_op_keys_by_cons chain)\<rparr>) cos)))))))))))))))))"

text \<open>The call of the application, which charges the fee of an IBC message first.\<close>

definition InnerApp_relay_op_key ::
  "('i, 'n) app_lib_scheme \<Rightarrow> 'm cosmos_lib_scheme \<Rightarrow> ctx \<Rightarrow> ibc_view \<Rightarrow> client_id \<Rightarrow> u64 \<times> u64 \<Rightarrow> bytes \<Rightarrow> cosmos_proof \<Rightarrow> cosmos_proof
     \<Rightarrow> ('i inner_app \<times> cosmos, unit) call" where
  "InnerApp_relay_op_key A L C ibc client_id height cons_key op_addr acc = (\<lambda>(app, cos).
     case InnerApp_deduct_nbtc_fee A C IBC_FEE_USATS app of
       (Err e, app) \<Rightarrow> (Err e, app, cos)
     | (Ok (), app) \<Rightarrow>
         (case Cosmos_relay_op_key L ibc client_id height cons_key op_addr acc cos of (r, cos) \<Rightarrow> (r, app, cos)))"

section \<open>The signatory set of a chain\<close>

text \<open>The validators with a usable operator key, with the key derived for the index.\<close>

definition cosmos_signatory :: "'m script_lib_scheme \<Rightarrow> chain \<Rightarrow> u32 \<Rightarrow> cosmos_validator \<Rightarrow> signatory option" where
  "cosmos_signatory L chain index val =
     (case cv_ed25519 val of
        None \<Rightarrow> None
      | Some cons_key \<Rightarrow> (case map_of (ca_op_keys_by_cons chain) cons_key of
            None \<Rightarrow> None
          | Some op_key \<Rightarrow> if \<not> pubkey_from_slice L op_key then None
              else (case derive_pubkey L (op_xpub op_key) index of
                  Ok pk \<Rightarrow> Some \<lparr>sg_voting_power = cv_power val, sg_pubkey = pk\<rparr>
                | Err _ \<Rightarrow> None)))"

definition op_signatories :: "'m script_lib_scheme \<Rightarrow> chain \<Rightarrow> u32 \<Rightarrow> cosmos_validator list \<Rightarrow> signatory list" where
  "op_signatories L chain index vals = List.map_filter (cosmos_signatory L chain index) vals"

lemma op_signatories_Cons:
  "op_signatories L chain index (v # vs) = (case cosmos_signatory L chain index v of None \<Rightarrow> [] | Some s \<Rightarrow> [s]) @ op_signatories L chain index vs"
  by (simp add: op_signatories_def map_filter_simps split: option.splits)

lemma add_cosmos_validator_Ok:
  assumes "add_cosmos_validator L chain index ss v = Ok ss'" and "length (ss_signatories ss) \<le> MAX_SIGSET_SIZE"
    and "ss_present_vp ss = vp_sum (ss_signatories ss)"
  shows "ss_possible_vp ss' = ss_possible_vp ss + cv_power v \<and> ss_index ss' = ss_index ss
    \<and> ss_signatories ss' = take MAX_SIGSET_SIZE (ss_signatories ss @ (case cosmos_signatory L chain index v of None \<Rightarrow> [] | Some s \<Rightarrow> [s]))
    \<and> ss_present_vp ss' = vp_sum (ss_signatories ss')"
  using assms
  by (cases "length (ss_signatories ss) < MAX_SIGSET_SIZE")
    (auto simp: add_cosmos_validator_def cosmos_signatory_def Let_def split: option.splits if_split_asm)

lemma cosmos_loop:
  assumes "fold_result (add_cosmos_validator L chain index) ss vals = Ok ss'" and "length (ss_signatories ss) \<le> MAX_SIGSET_SIZE"
    and "ss_present_vp ss = vp_sum (ss_signatories ss)"
  shows "ss_possible_vp ss' = ss_possible_vp ss + sum_list (map cv_power vals) \<and> ss_index ss' = ss_index ss
    \<and> ss_signatories ss' = take MAX_SIGSET_SIZE (ss_signatories ss @ op_signatories L chain index vals)
    \<and> ss_present_vp ss' = vp_sum (ss_signatories ss')"
  using assms
proof (induction vals arbitrary: ss)
  case Nil
  then show ?case by (simp add: op_signatories_def map_filter_simps)
next
  case (Cons v vals)
  then obtain t where t: "add_cosmos_validator L chain index ss v = Ok t" and rest: "fold_result (add_cosmos_validator L chain index) t vals = Ok ss'"
    by auto
  note step = add_cosmos_validator_Ok [OF t Cons.prems(2,3)]
  have "take k (take k (xs @ ys) @ zs) = take k (xs @ ys @ zs)" for k and xs ys zs :: "signatory list" by (simp add: min_def)
  with Cons.IH [OF rest] step show ?case by (simp add: op_signatories_Cons)
qed

text \<open>
  The signatory set of a remote chain is the first forty validators of its last header, in the
  header's order, whose operator key was relayed, each with the validator's power and the key derived for
  the checkpoint's index; the present power is the power of these and the possible power that of all
  validators.
\<close>

theorem cosmos_sigset_exact:
  assumes "Chain_to_sigset L chain index client = Ok (Some sigset)" and "cl_last_header client = Ok vals"
  shows "ss_signatories sigset = take MAX_SIGSET_SIZE (op_signatories L chain index vals)
    \<and> ss_present_vp sigset = vp_sum (ss_signatories sigset)
    \<and> ss_possible_vp sigset = sum_list (map cv_power vals) \<and> ss_index sigset = index"
proof -
  have "fold_result (add_cosmos_validator L chain index) (SignatorySet_default\<lparr>ss_index := index\<rparr>) vals = Ok sigset"
    using assms by (simp add: Chain_to_sigset_def)
  from cosmos_loop [OF this] show ?thesis by (simp add: SignatorySet_default_def)
qed

section \<open>Outputs\<close>

lemma length_concat_le: "(\<And>xs. xs \<in> set xss \<Longrightarrow> length xs \<le> 1) \<Longrightarrow> length (concat xss) \<le> length xss"
proof (induction xss)
  case (Cons xs xss)
  then have "length xs \<le> 1" "length (concat xss) \<le> length xss" by simp_all
  then show ?case by simp
qed simp

text \<open>
  Every output that the bridge adds for remote chains belongs to a chain whose relayed keys hold a
  quorum of its voting power, pays to these keys with a threshold of two thirds, and is worth the nBTC
  escrowed on the transfer channels of its connections, in satoshis rounded down.
\<close>

theorem cosmos_outputs_exact:
  assumes "Cosmos_build_outputs L cos ibc index = Ok outs"
  shows "length outs \<le> length cos \<and> (\<forall>out \<in> set outs. \<exists>client_id chain client sigset total_usats.
      (client_id, chain) \<in> set cos \<and> iv_client ibc client_id = Some client \<and> Chain_to_sigset L chain index client = Ok (Some sigset)
      \<and> SignatorySet_has_quorum sigset \<and> escrowed_usats L ibc client_id = Ok total_usats \<and> to_value out = total_usats div 1000000
      \<and> SignatorySet_output_script L sigset [0] (2, 3) = Ok (to_script_pubkey out))"
proof -
  from assms obtain xss where xss: "map_result (chain_outputs L ibc index) cos = Ok xss" and outs: "outs = concat xss"
    by (auto simp: Cosmos_build_outputs_def)
  have one: "length xs \<le> 1 \<and> (\<forall>out \<in> set xs. \<exists>client sigset total_usats.
      iv_client ibc client_id = Some client \<and> Chain_to_sigset L chain index client = Ok (Some sigset)
      \<and> SignatorySet_has_quorum sigset \<and> escrowed_usats L ibc client_id = Ok total_usats \<and> to_value out = total_usats div 1000000
      \<and> SignatorySet_output_script L sigset [0] (2, 3) = Ok (to_script_pubkey out))"
    if "chain_outputs L ibc index (client_id, chain) = Ok xs" for client_id chain xs
    using that by (auto simp: chain_outputs_def RECOVERY_THRESHOLD_def split: option.splits result.splits error.splits if_splits)
  have nth: "length xss = length cos" "\<And>i. i < length cos \<Longrightarrow> chain_outputs L ibc index (cos ! i) = Ok (xss ! i)"
    using xss by (auto simp: map_result_Ok_iff)
  have le: "length xs \<le> 1" if "xs \<in> set xss" for xs
    using that nth one by (metis in_set_conv_nth prod.collapse)
  have "length (concat xss) \<le> length xss" by (rule length_concat_le) (use le in blast)
  moreover have "\<exists>client_id chain. (client_id, chain) \<in> set cos \<and> (\<exists>client sigset total_usats.
      iv_client ibc client_id = Some client \<and> Chain_to_sigset L chain index client = Ok (Some sigset)
      \<and> SignatorySet_has_quorum sigset \<and> escrowed_usats L ibc client_id = Ok total_usats \<and> to_value out = total_usats div 1000000
      \<and> SignatorySet_output_script L sigset [0] (2, 3) = Ok (to_script_pubkey out))" if "out \<in> set outs" for out
  proof -
    from that obtain i where i: "i < length cos" "out \<in> set (xss ! i)" using nth(1) outs by (metis (no_types, lifting) in_set_conv_nth set_concat UN_E)
    obtain client_id chain where c: "cos ! i = (client_id, chain)" by (cases "cos ! i")
    with one [of client_id chain] nth(2) [OF i(1)] i show ?thesis by (metis nth_mem)
  qed
  ultimately show ?thesis unfolding nth(1) outs by blast
qed

section \<open>Operator keys\<close>

definition op_key_of :: "cosmos \<Rightarrow> client_id \<Rightarrow> bytes \<Rightarrow> pubkey option" where
  "op_key_of cos client_id cons_key =
     (case map_of cos client_id of None \<Rightarrow> None | Some chain \<Rightarrow> map_of (ca_op_keys_by_cons chain) cons_key)"

text \<open>
  What it takes to prove that a store under a root has a value at a key: the outer proof shows the root of
  the store under the root, and the inner one the key and the value under the root of the store.
\<close>

definition proven_under :: "'m cosmos_lib_scheme \<Rightarrow> bytes \<Rightarrow> string \<Rightarrow> cosmos_proof \<Rightarrow> bytes \<Rightarrow> bytes \<Rightarrow> bool" where
  "proven_under L root store p key val \<longleftrightarrow>
     (\<exists>store_root. verify_membership L (pf_outer p) Tendermint_spec root (str_bytes L store) store_root
        \<and> verify_membership L (pf_inner p) Iavl_spec store_root key val)"

lemma Proof_verify_proven:
  assumes "Proof_verify L root store p = Ok ()" and "Proof_key p = Ok key" and "Proof_value p = Ok val"
  shows "proven_under L root store p key val"
  using assms by (auto simp: Proof_verify_def proven_under_def Let_def split: if_split_asm)

text \<open>
  C30: an operator key is recorded only with proof. The consensus key belongs to a validator of the
  client's last header; under the root of the named height, the outer and the inner proof of membership both
  verify for the operator that the validator has in the staking store, and for the account that the operator
  has in the account store; and what is recorded is the public key of that account. Nothing
  else changes, and the same key is not accepted twice.
\<close>

theorem op_key_requires_proof:
  assumes "Cosmos_relay_op_key L ibc client_id height cons_key op_addr acc cos = (Ok (), cos')"
  shows "\<exists>client root vals operator account any_key key_bytes op_key.
    iv_client ibc client_id = Some client \<and> cl_root client height = Some root
    \<and> cl_last_header client = Ok vals \<and> tmhash L cons_key \<in> cv_address ` set vals
    \<and> proven_under L root ''staking'' op_addr ([0x22, 0x14] @ tmhash L cons_key) operator
    \<and> proven_under L root ''acc'' acc ([0x01] @ operator) account
    \<and> decode_account L account = Some (Some any_key) \<and> decode_secp_pubkey L any_key = Some key_bytes
    \<and> Pubkey_try_from_slice L key_bytes = Ok op_key \<and> op_key_of cos client_id cons_key \<noteq> Some op_key
    \<and> op_key_of cos' = (\<lambda>c k. if c = client_id \<and> k = cons_key then Some op_key else op_key_of cos c k)"
proof -
  define cos1 where "cos1 = (if omap_contains client_id cos then cos else omap_insert (client_order L) client_id Chain_default cos)"
  from assms obtain client root vals operator account any_key key_bytes op_key chain where
    facts: "iv_client ibc client_id = Some client" "cl_root client height = Some root" "cl_last_header client = Ok vals"
      "list_ex (\<lambda>v. cv_address v = tmhash L cons_key) vals"
      "Proof_verify L root ''staking'' op_addr = Ok ()" "Proof_verify L root ''acc'' acc = Ok ()"
      "Proof_key op_addr = Ok ([0x22, 0x14] @ tmhash L cons_key)" "Proof_value op_addr = Ok operator"
      "Proof_key acc = Ok ([0x01] @ operator)" "Proof_value acc = Ok account"
      "decode_account L account = Some (Some any_key)" "decode_secp_pubkey L any_key = Some key_bytes"
      "Pubkey_try_from_slice L key_bytes = Ok op_key"
    and chain: "map_of cos1 client_id = Some chain" "map_of (ca_op_keys_by_cons chain) cons_key \<noteq> Some op_key"
    and cos': "cos' = omap_insert (client_order L) client_id
       (chain\<lparr>ca_op_keys_by_cons := omap_insert cons_order cons_key op_key (ca_op_keys_by_cons chain)\<rparr>) cos1"
    unfolding cos1_def by (auto simp: Cosmos_relay_op_key_def Let_def split: if_split_asm)
  have same: "op_key_of cos1 = op_key_of cos"
    by (auto simp: cos1_def op_key_of_def fun_eq_iff Chain_default_def omap_contains_def split: option.splits)
  then have "op_key_of cos client_id cons_key \<noteq> Some op_key"
    using chain by (simp add: op_key_of_def flip: same)
  moreover have "op_key_of cos' = (\<lambda>c k. if c = client_id \<and> k = cons_key then Some op_key else op_key_of cos c k)"
    unfolding same [symmetric] cos' using chain(1) by (auto simp: op_key_of_def fun_eq_iff)
  moreover have "tmhash L cons_key \<in> cv_address ` set vals" using facts(4) by (force simp: list_ex_iff)
  moreover have "proven_under L root ''staking'' op_addr ([0x22, 0x14] @ tmhash L cons_key) operator"
    "proven_under L root ''acc'' acc ([0x01] @ operator) account"
    using facts by (simp_all add: Proof_verify_proven)
  ultimately show ?thesis using facts by blast
qed

section \<open>Wire format\<close>

definition codec_law :: "'m proof_codec_scheme \<Rightarrow> bool" where
  "codec_law K \<longleftrightarrow> (\<forall>n rest. n < 2 ^ 16 \<longrightarrow> length (pc_encode_u16 K n) = 2 \<and> pc_decode_u16 K (pc_encode_u16 K n @ rest) = Ok (n, rest))
     \<and> (\<forall>p bs. pc_encode K p = Ok bs \<longrightarrow> pc_decode K bs = Ok p)"

lemma decode_encode_length_vec:
  "codec_law K \<Longrightarrow> encode_length_vec K bs = Ok out \<Longrightarrow> decode_length_vec K (out @ rest) = Ok (bs, rest) \<and> length out = 2 + length bs"
  by (auto simp: codec_law_def encode_length_vec_def decode_length_vec_def)

text \<open>
  A proof survives its wire format, and the announced length of the encoding is its length.
\<close>

theorem cosmos_proof_roundtrip:
  assumes "codec_law K" and "Proof_encode K p = Ok bs"
  shows "Proof_decode K bs = Ok p \<and> Proof_encoding_length K p = Ok (length bs)"
proof -
  from assms(2) obtain ib i ob ob' where e: "pc_encode K (pf_inner p) = Ok ib" "encode_length_vec K ib = Ok i"
    "pc_encode K (pf_outer p) = Ok ob" "encode_length_vec K ob = Ok ob'" "bs = i @ ob'"
    by (auto simp: Proof_encode_def)
  have "decode_length_vec K bs = Ok (ib, ob')" "decode_length_vec K ob' = Ok (ob, [])" "length bs = 4 + length ib + length ob"
    using decode_encode_length_vec [OF assms(1) e(2), of ob'] decode_encode_length_vec [OF assms(1) e(4), of "[]"] e(5) by simp_all
  with e assms(1) show ?thesis by (simp add: Proof_decode_def Proof_encoding_length_def codec_law_def)
qed

section \<open>A small chain\<close>

definition demo_str :: "string \<Rightarrow> bytes" where "demo_str = map of_char"

definition demo_cosmos_lib :: cosmos_lib where
  "demo_cosmos_lib = script_lib.extend demo_keys_lib
     \<lparr>tendermint_client_type = ''tm'', height_new = (\<lambda>(rev, h). h > 0), cosmos_sha256 = (\<lambda>bs. replicate 32 (sum_list bs)),
      verify_membership = (\<lambda>p spec root key v. cm_proof p = Some (Exist \<lparr>ex_key = key, ex_value = v\<rparr>)), str_bytes = demo_str,
      decode_account = (\<lambda>bs. Some (Some bs)), decode_secp_pubkey = Some, client_order = map of_char,
      parse_port_id = Some, parse_channel_id = Some\<rparr>"

definition demo_client :: client where
  "demo_client = \<lparr>cl_client_type = Ok ''tm'', cl_root = (\<lambda>h. if h = (1, 5) then Some [9] else None),
     cl_last_header = Ok [\<lparr>cv_address = replicate 20 7, cv_power = 30, cv_ed25519 = Some [7]\<rparr>, \<lparr>cv_address = replicate 20 8, cv_power = 5, cv_ed25519 = None\<rparr>]\<rparr>"

definition demo_ibc :: ibc_view where
  "demo_ibc = \<lparr>iv_client = (\<lambda>c. if c = ''tm-0'' then Some demo_client else None), iv_client_connections = (\<lambda>c. Ok [''connection-0'']),
     iv_connection_channels = (\<lambda>c. Ok [\<lparr>ch_port_id = ''transfer'', ch_channel_id = ''channel-0''\<rparr>, \<lparr>ch_port_id = ''icahost'', ch_channel_id = ''channel-1''\<rparr>]),
     iv_transfer_port = Some ''transfer'', iv_escrow_account = (\<lambda>p c. Inr [1]), iv_nbtc_balance = (\<lambda>a. Inr 5000000)\<rparr>"

definition demo_key :: pubkey where "demo_key = replicate 33 2"

definition demo_commitment :: "bytes \<Rightarrow> bytes \<Rightarrow> commitment_proof" where
  "demo_commitment k v = \<lparr>cm_proof = Some (Exist \<lparr>ex_key = k, ex_value = v\<rparr>), cm_content = []\<rparr>"

definition demo_op_addr :: cosmos_proof where
  "demo_op_addr = \<lparr>pf_inner = demo_commitment ([0x22, 0x14] @ replicate 20 7) [3], pf_outer = demo_commitment (demo_str ''staking'') [4]\<rparr>"

definition demo_acc :: cosmos_proof where
  "demo_acc = \<lparr>pf_inner = demo_commitment [1, 3] demo_key, pf_outer = demo_commitment (demo_str ''acc'') [5]\<rparr>"

definition demo_chain :: chain where
  "demo_chain = \<lparr>ca_op_keys_by_cons = [([7], demo_key)]\<rparr>"

lemmas demo_cosmos_defs = demo_cosmos_lib_def script_lib.defs demo_keys_lib_def

lemma demo_hash: "tmhash demo_cosmos_lib [7] = replicate 20 7"
  by (simp add: tmhash_def demo_cosmos_defs)

lemma demo_proof_simps:
  "Proof_key \<lparr>pf_inner = demo_commitment k v, pf_outer = outer\<rparr> = Ok k"
  "Proof_value \<lparr>pf_inner = demo_commitment k v, pf_outer = outer\<rparr> = Ok v"
  "Proof_verify demo_cosmos_lib root store \<lparr>pf_inner = demo_commitment k v, pf_outer = demo_commitment (demo_str store) w\<rparr> = Ok ()"
  by (simp_all add: Proof_verify_def Proof_key_def Proof_value_def Proof_outer_proof_def Proof_inner_proof_def existence_of_def
      demo_commitment_def demo_cosmos_defs)

lemma demo_cosmos_relay:
  "Cosmos_relay_op_key demo_cosmos_lib demo_ibc ''tm-0'' (1, 5) [7] demo_op_addr demo_acc [] = (Ok (), [(''tm-0'', demo_chain)])"
  by (simp add: Cosmos_relay_op_key_def demo_hash demo_op_addr_def demo_acc_def demo_proof_simps demo_ibc_def demo_client_def
      cbind_def lift_result_def Let_def)
    (simp add: demo_cosmos_defs Pubkey_try_from_slice_def Pubkey_new_def PUBLIC_KEY_SIZE_def demo_key_def demo_chain_def
      Chain_default_def omap_contains_def cbind_def reads_def modify_def lift_result_def)

theorem op_key_requires_proof_witness:
  "\<exists>cos'. Cosmos_relay_op_key demo_cosmos_lib demo_ibc ''tm-0'' (1, 5) [7] demo_op_addr demo_acc [] = (Ok (), cos')
    \<and> op_key_of cos' ''tm-0'' [7] = Some demo_key"
  using op_key_requires_proof [OF demo_cosmos_relay] demo_cosmos_relay by (auto simp: op_key_of_def demo_chain_def)

definition demo_cosmos_set :: signatory_set where
  "demo_cosmos_set = \<lparr>ss_create_time = 0, ss_present_vp = 30, ss_possible_vp = 35, ss_index = 4,
     ss_signatories = [\<lparr>sg_voting_power = 30, sg_pubkey = demo_key\<rparr>]\<rparr>"

lemma demo_cosmos_sigset: "Chain_to_sigset demo_cosmos_lib demo_chain 4 demo_client = Ok (Some demo_cosmos_set)"
  by (simp add: Chain_to_sigset_def demo_client_def add_cosmos_validator_def demo_chain_def SignatorySet_default_def derive_pubkey_def
      op_xpub_def MAX_SIGSET_SIZE_def demo_cosmos_set_def demo_cosmos_defs)

theorem cosmos_sigset_exact_witness:
  "Chain_to_sigset demo_cosmos_lib demo_chain 4 demo_client = Ok (Some demo_cosmos_set) \<and> ss_possible_vp demo_cosmos_set = 35"
  using cosmos_sigset_exact [OF demo_cosmos_sigset, unfolded demo_client_def, simplified] demo_cosmos_sigset by simp

lemma demo_cosmos_outputs:
  "Cosmos_build_outputs demo_cosmos_lib [(''tm-0'', demo_chain)] demo_ibc 4 = Ok [\<lparr>to_value = 5, to_script_pubkey = []\<rparr>]"
proof -
  have quorum: "SignatorySet_has_quorum demo_cosmos_set"
    by (simp add: SignatorySet_has_quorum_def SignatorySet_quorum_threshold_def demo_cosmos_set_def)
  have usats: "escrowed_usats demo_cosmos_lib demo_ibc ''tm-0'' = Ok 5000000"
    by (simp add: escrowed_usats_def demo_ibc_def add_channel_balance_def ibc_err_def demo_cosmos_defs)
  have "SignatorySet_output_script demo_cosmos_lib demo_cosmos_set [0] (2, 3) = Ok []"
    by (simp add: SignatorySet_output_script_def SignatorySet_redeem_script_def demo_cosmos_set_def SignatorySet_signature_threshold_def
        div_u_def demo_cosmos_defs Let_def)
  moreover have "iv_client demo_ibc ''tm-0'' = Some demo_client" by (simp add: demo_ibc_def)
  ultimately have "chain_outputs demo_cosmos_lib demo_ibc 4 (''tm-0'', demo_chain) = Ok [\<lparr>to_value = 5, to_script_pubkey = []\<rparr>]"
    using quorum usats by (simp add: chain_outputs_def demo_cosmos_sigset RECOVERY_THRESHOLD_def)
  then show ?thesis by (simp add: Cosmos_build_outputs_def)
qed

theorem cosmos_outputs_exact_witness:
  "\<exists>outs. Cosmos_build_outputs demo_cosmos_lib [(''tm-0'', demo_chain)] demo_ibc 4 = Ok outs \<and> length outs \<le> 1"
  using cosmos_outputs_exact [OF demo_cosmos_outputs] demo_cosmos_outputs by simp

definition demo_codec :: proof_codec where
  "demo_codec = \<lparr>pc_encode = (\<lambda>p. if cm_proof p = None then Ok (cm_content p) else Err Encoding),
     pc_decode = (\<lambda>bs. Ok \<lparr>cm_proof = None, cm_content = bs\<rparr>),
     pc_encode_u16 = (\<lambda>n. [of_nat (n div 256), of_nat (n mod 256)]),
     pc_decode_u16 = (\<lambda>bs. case bs of h # l # rest \<Rightarrow> Ok (unat h * 256 + unat l, rest) | _ \<Rightarrow> Err Encoding)\<rparr>"

theorem cosmos_proof_roundtrip_witness:
  "codec_law demo_codec \<and> (\<exists>bs. Proof_encode demo_codec \<lparr>pf_inner = \<lparr>cm_proof = None, cm_content = [1]\<rparr>, pf_outer = \<lparr>cm_proof = None, cm_content = [2, 3]\<rparr>\<rparr> = Ok bs
    \<and> Proof_encoding_length demo_codec \<lparr>pf_inner = \<lparr>cm_proof = None, cm_content = [1]\<rparr>, pf_outer = \<lparr>cm_proof = None, cm_content = [2, 3]\<rparr>\<rparr> = Ok (length bs))"
proof -
  have "unat (of_nat m :: u8) = m" if "m < 256" for m using that by (simp add: unat_of_nat take_bit_nat_eq_self_iff)
  then have "unat (of_nat (n div 256) :: u8) * 256 + unat (of_nat (n mod 256) :: u8) = n" if "n < 2 ^ 16" for n
    using that by (simp add: div_mult_mod_eq less_mult_imp_div_less)
  then have law: "codec_law demo_codec"
    by (auto simp: codec_law_def demo_codec_def simp del: of_nat_mod split: if_split_asm)
  have "Proof_encode demo_codec \<lparr>pf_inner = \<lparr>cm_proof = None, cm_content = [1]\<rparr>, pf_outer = \<lparr>cm_proof = None, cm_content = [2, 3]\<rparr>\<rparr> = Ok [0, 1, 1, 0, 2, 2, 3]"
    by (simp add: Proof_encode_def demo_codec_def encode_length_vec_def)
  with cosmos_proof_roundtrip [OF law this] law show ?thesis by blast
qed

end
