(* ===== verification/Babylon_Scripts.thy ===== *)
theory Babylon_Scripts
  imports Bitcoin_Module Script_Semantics
begin

text \<open>
  The scripts, parameters and transactions of Babylon staking (src/src/babylon/mod.rs, the free functions
  and \<open>Params\<close>), behind the feature \<open>babylon\<close>. Taproot trees, x-only keys and addresses of the bitcoin
  crate are the parameters of \<open>tap_lib\<close>. A stack machine for the opcodes of the scripts says what their
  spending paths accept.
\<close>

section \<open>Keys and taproot\<close>

type_synonym xonly = bytes

record tap_lib = btc_lib +
  xonly_from_slice :: "bytes \<Rightarrow> bool"
  parse_xonly :: "string \<Rightarrow> xonly option"
  address_script :: "string \<Rightarrow> bytes option"
  taproot_leaves_ok :: "(nat \<times> bytes) list \<Rightarrow> bool"  \<comment> \<open>each \<open>add_leaf\<close> succeeds\<close>
  taproot_output_key :: "(nat \<times> bytes) list \<Rightarrow> xonly \<Rightarrow> xonly option"  \<comment> \<open>\<open>finalize\<close>, then \<open>output_key\<close>\<close>
  new_v1_p2tr_tweaked :: "xonly \<Rightarrow> bytes"
  taproot_sighash :: "transaction \<Rightarrow> nat \<Rightarrow> txout list \<Rightarrow> bytes \<Rightarrow> bytes result"  \<comment> \<open>of a script path spend\<close>
  verify_schnorr :: "bytes \<Rightarrow> bytes \<Rightarrow> xonly \<Rightarrow> bool"  \<comment> \<open>signature, message, key\<close>
  schnorr_from_slice :: "bytes \<Rightarrow> bool"

definition bytes_to_pubkey :: "'m tap_lib_scheme \<Rightarrow> bytes \<Rightarrow> xonly result" where
  "bytes_to_pubkey L bs = (if xonly_from_slice L bs then Ok bs else Err Secp)"

text \<open>Lower-case hexadecimal, for the constants.\<close>

definition hex_val :: "char \<Rightarrow> u8" where
  "hex_val c = (let n = of_char c :: nat in of_nat (if n < 58 then n - 48 else n - 87))"

fun hex_decode :: "string \<Rightarrow> bytes" where
  "hex_decode (a # b # cs) = (16 * hex_val a + hex_val b) # hex_decode cs"
| "hex_decode _ = []"

section \<open>Scripts\<close>

abbreviation OP_CHECKSIGVERIFY :: opcode where "OP_CHECKSIGVERIFY \<equiv> OP_OTHER 0xad"
abbreviation OP_CHECKSIGADD :: opcode where "OP_CHECKSIGADD \<equiv> OP_OTHER 0xba"
abbreviation OP_NUMEQUAL :: opcode where "OP_NUMEQUAL \<equiv> OP_OTHER 0x9c"
abbreviation OP_NUMEQUALVERIFY :: opcode where "OP_NUMEQUALVERIFY \<equiv> OP_OTHER 0x9d"
abbreviation OP_CSV :: opcode where "OP_CSV \<equiv> OP_OTHER 0xb2"

definition sort_keys :: "xonly list \<Rightarrow> xonly list result" where
  "sort_keys pks =
     (if length pks < 2 then Err (App ''Cannot sort less than two keys'')
      else
      let pks = sort pks in
      if list_ex (\<lambda>i. pks ! i = pks ! Suc i) [0..<length pks - 1] then Err (App ''Duplicate key in list of keys'')
      else Ok pks)"

definition single_key_script :: "'m script_lib_scheme \<Rightarrow> xonly \<Rightarrow> bool \<Rightarrow> bytes" where
  "single_key_script L pk verify = script_bytes L [PushBytes pk, Op (if verify then OP_CHECKSIGVERIFY else OP_CHECKSIG)]"

definition multisig_script :: "'m script_lib_scheme \<Rightarrow> xonly list \<Rightarrow> u32 \<Rightarrow> bool \<Rightarrow> bytes result" where
  "multisig_script L pks threshold verify =
     (case pks of
        [] \<Rightarrow> Err (App ''No keys provided'')
      | pk # _ \<Rightarrow>
          if threshold > length pks mod 2 ^ 32
          then Err (App ''Required number of valid signers is greater than number of provided keys'')
          else if length pks = 1 then Ok (single_key_script L pk verify)
          else
          rbind (sort_keys pks) (\<lambda>pks.
          Ok (concat (map (\<lambda>(i, pk). script_bytes L [PushBytes pk, Op (if i = 0 then OP_CHECKSIG else OP_CHECKSIGADD)]) (enumerate 0 pks))
            @ script_bytes L [push_int L (int threshold)]
            @ script_bytes L [Op (if verify then OP_NUMEQUALVERIFY else OP_NUMEQUAL)])))"

definition timelock_script :: "'m script_lib_scheme \<Rightarrow> xonly \<Rightarrow> u64 \<Rightarrow> bytes" where
  "timelock_script L pk timelock = single_key_script L pk True @ script_bytes L [push_int L (as_i64 timelock), Op OP_CSV]"

definition aggregate_scripts :: "bytes list \<Rightarrow> bytes" where
  "aggregate_scripts scripts = concat scripts"

section \<open>Parameters\<close>

record params =
  pm_covenant_keys :: "bytes list"
  pm_covenant_quorum :: u32
  pm_slashing_script :: bytes
  pm_slashing_min_fee :: u64
  pm_op_return_tag :: bytes
  pm_slashing_rate :: "u32 \<times> u32"
  pm_max_age :: u32
  pm_min_staking_time :: u16
  pm_max_staking_time :: u16
  pm_unbonding_time :: u16
  pm_min_staking_amount :: u64
  pm_max_staking_amount :: u64
  pm_unbonding_fee :: u64
  pm_confirmation_depth :: u32

definition SLASHING_ADDR :: string where "SLASHING_ADDR = ''tb1qv03wm7hxhag6awldvwacy0z42edtt6kwljrhd9''"

definition Params_bbn_test_3 :: "'m tap_lib_scheme \<Rightarrow> params result" where
  "Params_bbn_test_3 L =
     rbind (unwrap (address_script L SLASHING_ADDR)) (\<lambda>slashing_script.
     Ok \<lparr>pm_covenant_keys = map hex_decode [
           ''ffeaec52a9b407b355ef6967a7ffc15fd6c3fe07de2844d61550475e7a5233e5'',
           ''a5c60c2188e833d39d0fa798ab3f69aa12ed3dd2f3bad659effa252782de3c31'',
           ''59d3532148a597a2d05c0395bf5f7176044b1cd312f37701a9b4d0aad70bc5a4'',
           ''57349e985e742d5131e1e2b227b5170f6350ac2e2feb72254fcc25b3cee21a18'',
           ''c8ccb03c379e452f10c81232b41a1ca8b63d0baf8387e57d302c987e5abb8527''],
         pm_covenant_quorum = 3, pm_slashing_script = slashing_script, pm_slashing_min_fee = 1000,
         pm_op_return_tag = map of_char ''bbb3'', pm_slashing_rate = (11, 100), pm_max_age = 1008,
         pm_min_staking_time = 65535, pm_max_staking_time = 1, pm_unbonding_time = 5,
         pm_min_staking_amount = 50000, pm_max_staking_amount = 5000000, pm_unbonding_fee = 1000,
         pm_confirmation_depth = 10\<rparr>)"

definition Params_bbn_test_4 :: "'m tap_lib_scheme \<Rightarrow> params result" where
  "Params_bbn_test_4 L =
     rbind (unwrap (address_script L SLASHING_ADDR)) (\<lambda>slashing_script.
     Ok \<lparr>pm_covenant_keys = map hex_decode [
           ''a10a06bb3bae360db3aef0326413b55b9e46bf20b9a96fc8a806a99e644fe277'',
           ''6f13a6d104446520d1757caec13eaf6fbcf29f488c31e0107e7351d4994cd068'',
           ''a5e21514682b87e37fb5d3c9862055041d1e6f4cc4f3034ceaf3d90f86b230a6''],
         pm_covenant_quorum = 2, pm_slashing_script = slashing_script, pm_slashing_min_fee = 2000,
         pm_op_return_tag = map of_char ''bbb4'', pm_slashing_rate = (11, 100), pm_max_age = 1008,
         pm_min_staking_time = 64000, pm_max_staking_time = 64000, pm_unbonding_time = 1008,
         pm_min_staking_amount = 50000, pm_max_staking_amount = 5000000, pm_unbonding_fee = 10000,
         pm_confirmation_depth = 10\<rparr>)"

definition Params_default :: "'m tap_lib_scheme \<Rightarrow> params result" where
  "Params_default L = Params_bbn_test_4 L"

definition Params_covenant_keys :: "'m tap_lib_scheme \<Rightarrow> params \<Rightarrow> xonly list result" where
  "Params_covenant_keys L params =
     map_result (\<lambda>k. if xonly_from_slice L k then Ok k else Err Panic) (pm_covenant_keys params)"

definition unbonding_script :: "'m tap_lib_scheme \<Rightarrow> xonly \<Rightarrow> params \<Rightarrow> bytes result" where
  "unbonding_script L staker_key params =
     rbind (Params_covenant_keys L params) (\<lambda>covenant_keys.
     rbind (multisig_script L covenant_keys (pm_covenant_quorum params) False) (\<lambda>covenant.
     Ok (aggregate_scripts [single_key_script L staker_key True, covenant])))"

definition slashing_script :: "'m tap_lib_scheme \<Rightarrow> xonly \<Rightarrow> xonly list \<Rightarrow> params \<Rightarrow> bytes result" where
  "slashing_script L staker_key fp_keys params =
     rbind (multisig_script L fp_keys 1 True) (\<lambda>fp.
     rbind (Params_covenant_keys L params) (\<lambda>covenant_keys.
     rbind (multisig_script L covenant_keys (pm_covenant_quorum params) False) (\<lambda>covenant.
     Ok (aggregate_scripts [single_key_script L staker_key True, fp, covenant]))))"

section \<open>Transactions\<close>

definition UNSPENDABLE_KEY :: string where
  "UNSPENDABLE_KEY = ''50929b74c1a04954b78b4b6035e97a5e078a5a0f28ec96d547bfee9ace803ac0''"

definition taproot_tree :: "'m tap_lib_scheme \<Rightarrow> (nat \<times> bytes) list \<Rightarrow> xonly result" where
  "taproot_tree L leaves =
     rbind (ok_or Secp (parse_xonly L UNSPENDABLE_KEY)) (\<lambda>internal_key.
     if \<not> taproot_leaves_ok L leaves then Err TaprootBuilder
     else ok_or (App ''Failed to finalize taproot'') (taproot_output_key L leaves internal_key))"

definition staking_taproot :: "'m tap_lib_scheme \<Rightarrow> xonly \<Rightarrow> xonly list \<Rightarrow> u16 \<Rightarrow> params \<Rightarrow> xonly result" where
  "staking_taproot L staker_key fp_keys staking_time params =
     rbind (unbonding_script L staker_key params) (\<lambda>unbonding.
     rbind (slashing_script L staker_key fp_keys params) (\<lambda>slashing.
     taproot_tree L [(2, timelock_script L staker_key staking_time), (2, unbonding), (1, slashing)]))"

definition unbonding_taproot :: "'m tap_lib_scheme \<Rightarrow> xonly \<Rightarrow> xonly list \<Rightarrow> params \<Rightarrow> xonly result" where
  "unbonding_taproot L staker_key fp_keys params =
     rbind (slashing_script L staker_key fp_keys params) (\<lambda>slashing.
     taproot_tree L [(1, timelock_script L staker_key (pm_unbonding_time params)), (1, slashing)])"

definition spending_txin :: "outpoint \<Rightarrow> txin" where
  "spending_txin outpoint = \<lparr>ti_previous_output = outpoint, ti_script_sig = [], ti_sequence = 2 ^ 32 - 1, ti_witness = []\<rparr>"

definition slashing_tx :: "'m tap_lib_scheme \<Rightarrow> xonly \<Rightarrow> outpoint \<Rightarrow> u64 \<Rightarrow> params \<Rightarrow> transaction result" where
  "slashing_tx L staker_key stake_out stake_value params =
     rbind (div_u (stake_value * fst (pm_slashing_rate params)) (snd (pm_slashing_rate params))) (\<lambda>quotient.
     let slashing_value = quotient mod 2 ^ 64;
         leaves = [(0, timelock_script L staker_key (pm_unbonding_time params))] in
     if \<not> taproot_leaves_ok L leaves then Err TaprootBuilder
     else
     rbind (unwrap (parse_xonly L UNSPENDABLE_KEY)) (\<lambda>internal_key.
     rbind (unwrap (taproot_output_key L leaves internal_key)) (\<lambda>change_key.
     rbind (sub_u stake_value slashing_value) (\<lambda>rest.
     rbind (sub_u rest (pm_slashing_min_fee params)) (\<lambda>change.
     Ok \<lparr>tr_version = 2, tr_lock_time = 0, tr_input = [spending_txin stake_out],
         tr_output = [\<lparr>to_value = slashing_value, to_script_pubkey = pm_slashing_script params\<rparr>,
                      \<lparr>to_value = change, to_script_pubkey = new_v1_p2tr_tweaked L change_key\<rparr>]\<rparr>)))))"

definition unbonding_tx :: "'m tap_lib_scheme \<Rightarrow> xonly \<Rightarrow> xonly list \<Rightarrow> outpoint \<Rightarrow> u64 \<Rightarrow> params \<Rightarrow> transaction result" where
  "unbonding_tx L staker_key fp_keys staking_outpoint staking_value params =
     rbind (unbonding_taproot L staker_key fp_keys params) (\<lambda>output_key.
     rbind (sub_u staking_value (pm_unbonding_fee params)) (\<lambda>out_value.
     Ok \<lparr>tr_version = 2, tr_lock_time = 0, tr_input = [spending_txin staking_outpoint],
         tr_output = [\<lparr>to_value = out_value, to_script_pubkey = new_v1_p2tr_tweaked L output_key\<rparr>]\<rparr>))"

text \<open>The data that a staking transaction commits to, as the derived encoding lays it out.\<close>

record op_return_data =
  od_magic_byes :: bytes
  od_version :: u8
  od_staker_btc_pk :: bytes
  od_fp_pk :: bytes
  od_staking_time :: u16

definition OpReturnData_encode :: "op_return_data \<Rightarrow> bytes" where
  "OpReturnData_encode d = od_magic_byes d @ [od_version d] @ od_staker_btc_pk d @ od_fp_pk d
     @ [of_nat (od_staking_time d div 256), of_nat (od_staking_time d mod 256)]"

text \<open>The bytes of the repository's fixture.\<close>

lemma op_return_fixture:
  "OpReturnData_encode \<lparr>od_magic_byes = map of_char ''bbb4'', od_version = 0,
      od_staker_btc_pk = hex_decode ''8c0d21a8dd59a2a50f7ab8cb94d3034eb2b3d130589168bf7876a30b22c876d8'',
      od_fp_pk = hex_decode ''03d5a0bb72d71993e435d6c5a70e2aa4db500a62cfaae33c56050deefee64ec0'', od_staking_time = 150\<rparr>
   = hex_decode ''62626234008c0d21a8dd59a2a50f7ab8cb94d3034eb2b3d130589168bf7876a30b22c876d803d5a0bb72d71993e435d6c5a70e2aa4db500a62cfaae33c56050deefee64ec00096''"
  by (simp add: OpReturnData_encode_def hex_val_def Let_def)

section \<open>Values\<close>

lemma slashing_tx_values:
  assumes "slashing_tx L k out v params = Ok tx" and "v * fst (pm_slashing_rate params) < 2 ^ 64 * snd (pm_slashing_rate params)"
  shows "\<exists>slashed change. map to_value (tr_output tx) = [slashed, change] \<and> slashed + change + pm_slashing_min_fee params = v
    \<and> slashed = v * fst (pm_slashing_rate params) div snd (pm_slashing_rate params)"
proof -
  have "v * fst (pm_slashing_rate params) div snd (pm_slashing_rate params) < 2 ^ 64"
    using assms(2) by (metis div_less_iff_less_mult mult.commute mult_0_right neq0_conv not_less_zero)
  with assms(1) show ?thesis by (auto simp: slashing_tx_def div_u_def Let_def)
qed

section \<open>The machine\<close>

text \<open>
  Tapscript on the opcodes used, as BIP 342 and BIP 112 document it: an empty signature is a vote against,
  a signature that is neither empty nor valid makes the spend fail, and \<open>OP_CSV\<close> fails unless the
  spending input is old enough (\<open>age\<close>) and leaves its operand on the stack.
\<close>

definition tap_check :: "(bytes \<Rightarrow> xonly \<Rightarrow> bool) \<Rightarrow> bytes \<Rightarrow> xonly \<Rightarrow> bool option" where
  "tap_check chk sg pk = (if sg = [] then Some False else if chk sg pk then Some True else None)"

fun tap_op ::
  "'m script_lib_scheme \<Rightarrow> (int \<Rightarrow> bytes) \<Rightarrow> (bytes \<Rightarrow> xonly \<Rightarrow> bool) \<Rightarrow> int \<Rightarrow> instruction \<Rightarrow> bytes list \<Rightarrow> bytes list option" where
  "tap_op L enc chk age (PushBytes b) st = Some (b # st)"
| "tap_op L enc chk age (Op (OP_PUSHNUM k)) st = Some (enc (uint k) # st)"
| "tap_op L enc chk age (Op OP_FALSE) st = Some ([] # st)"
| "tap_op L enc chk age (Op OP_CHECKSIG) (pk # sg # st) =
     map_option (\<lambda>b. (if b then enc 1 else enc 0) # st) (tap_check chk sg pk)"
| "tap_op L enc chk age (Op (OP_OTHER c)) st =
     (if c = 0xad then (case st of pk # sg # st \<Rightarrow> if tap_check chk sg pk = Some True then Some st else None | _ \<Rightarrow> None)
      else if c = 0xba then (case st of pk # n # sg # st \<Rightarrow>
          (case (read_scriptint L n, tap_check chk sg pk) of
             (Some n, Some b) \<Rightarrow> Some (enc (n + (if b then 1 else 0)) # st) | _ \<Rightarrow> None) | _ \<Rightarrow> None)
      else if c = 0x9c then (case st of a # b # st \<Rightarrow>
          (case (read_scriptint L a, read_scriptint L b) of
             (Some x, Some y) \<Rightarrow> Some ((if x = y then enc 1 else enc 0) # st) | _ \<Rightarrow> None) | _ \<Rightarrow> None)
      else if c = 0x9d then (case st of a # b # st \<Rightarrow>
          (case (read_scriptint L a, read_scriptint L b) of
             (Some x, Some y) \<Rightarrow> if x = y then Some st else None | _ \<Rightarrow> None) | _ \<Rightarrow> None)
      else if c = 0xb2 then (case st of a # st \<Rightarrow>
          (case read_scriptint L a of Some n \<Rightarrow> if 0 \<le> n \<and> n \<le> age then Some (a # st) else None | None \<Rightarrow> None) | _ \<Rightarrow> None)
      else None)"
| "tap_op L enc chk age _ st = None"

fun tap_run ::
  "'m script_lib_scheme \<Rightarrow> (int \<Rightarrow> bytes) \<Rightarrow> (bytes \<Rightarrow> xonly \<Rightarrow> bool) \<Rightarrow> int \<Rightarrow> instruction list \<Rightarrow> bytes list \<Rightarrow> bytes list option" where
  "tap_run L enc chk age [] st = Some st"
| "tap_run L enc chk age (i # is) st =
     (case tap_op L enc chk age i st of None \<Rightarrow> None | Some st \<Rightarrow> tap_run L enc chk age is st)"

lemma tap_op_simps:
  "tap_op L enc chk age (Op OP_CHECKSIGVERIFY) (pk # sg # st) = (if tap_check chk sg pk = Some True then Some st else None)"
  "tap_op L enc chk age (Op OP_CHECKSIGADD) (pk # n # sg # st) =
     (case (read_scriptint L n, tap_check chk sg pk) of (Some n, Some b) \<Rightarrow> Some (enc (n + (if b then 1 else 0)) # st) | _ \<Rightarrow> None)"
  "tap_op L enc chk age (Op OP_NUMEQUAL) (a # b # st) =
     (case (read_scriptint L a, read_scriptint L b) of (Some x, Some y) \<Rightarrow> Some ((if x = y then enc 1 else enc 0) # st) | _ \<Rightarrow> None)"
  "tap_op L enc chk age (Op OP_NUMEQUALVERIFY) (a # b # st) =
     (case (read_scriptint L a, read_scriptint L b) of (Some x, Some y) \<Rightarrow> if x = y then Some st else None | _ \<Rightarrow> None)"
  "tap_op L enc chk age (Op OP_CSV) (a # st) =
     (case read_scriptint L a of Some n \<Rightarrow> if 0 \<le> n \<and> n \<le> age then Some (a # st) else None | None \<Rightarrow> None)"
  by simp_all

declare tap_op.simps(5) [simp del] tap_op_simps [simp]

text \<open>The stack is given with its top first.\<close>

definition tap_accepts ::
  "'m script_lib_scheme \<Rightarrow> (int \<Rightarrow> bytes) \<Rightarrow> (bytes \<Rightarrow> xonly \<Rightarrow> bool) \<Rightarrow> int \<Rightarrow> bytes \<Rightarrow> bytes list \<Rightarrow> bool" where
  "tap_accepts L enc chk age script st \<longleftrightarrow>
     (\<exists>is x. instructions L script = map Some is \<and> tap_run L enc chk age is st = Some [x] \<and> read_scriptint L x \<noteq> Some 0)"

lemma tap_run_append:
  "tap_run L enc chk age (xs @ ys) st = (case tap_run L enc chk age xs st of None \<Rightarrow> None | Some st \<Rightarrow> tap_run L enc chk age ys st)"
  by (induction xs arbitrary: st) (auto split: option.splits)

lemma tap_push_int:
  assumes "number_law L enc" and "n < 2 ^ 31"
  shows "tap_op L enc chk age (push_int L (int n)) st = Some (enc (int n) # st)"
proof -
  from number_lawD [OF assms] show ?thesis by auto
qed

section \<open>Votes\<close>

text \<open>The valid votes for the keys, in order; \<open>None\<close> when a signature that is not empty fails.\<close>

definition good_votes :: "(bytes \<Rightarrow> xonly \<Rightarrow> bool) \<Rightarrow> xonly list \<Rightarrow> bytes list \<Rightarrow> bool" where
  "good_votes chk pks sigs \<longleftrightarrow> list_all2 (\<lambda>pk sg. sg = [] \<or> chk sg pk) pks sigs"

definition votes :: "bytes list \<Rightarrow> nat" where
  "votes sigs = length (filter (\<lambda>sg. sg \<noteq> []) sigs)"

definition add_pieces :: "xonly list \<Rightarrow> instruction list" where
  "add_pieces pks = concat (map (\<lambda>pk. [PushBytes pk, Op OP_CHECKSIGADD]) pks)"

lemma tap_run_add:
  assumes "number_law L enc" and "length sigs = length pks" and "n + length pks < 2 ^ 31"
  shows "tap_run L enc chk age (add_pieces pks) (enc (int n) # sigs @ st) =
    (if good_votes chk pks sigs then Some (enc (int (n + votes sigs)) # st) else None)"
  using assms(2,3)
proof (induction pks arbitrary: sigs n)
  case Nil
  then show ?case by (simp add: add_pieces_def good_votes_def votes_def)
next
  case (Cons pk pks)
  then obtain sg ss where sigs: "sigs = sg # ss" and len: "length ss = length pks" by (cases sigs) auto
  have n: "n < 2 ^ 31" "Suc n + length pks < 2 ^ 31" "n + length pks < 2 ^ 31" using Cons.prems by simp_all
  have "add_pieces (pk # pks) = PushBytes pk # Op OP_CHECKSIGADD # add_pieces pks" by (simp add: add_pieces_def)
  then show ?case
    using Cons.IH [OF len n(2)] Cons.IH [OF len n(3)] read_enc [OF assms(1) n(1)]
    by (auto simp: sigs tap_check_def good_votes_def votes_def ac_simps)
qed

definition multisig_pieces :: "'m script_lib_scheme \<Rightarrow> xonly list \<Rightarrow> u32 \<Rightarrow> bool \<Rightarrow> instruction list list" where
  "multisig_pieces L pks threshold verify =
     map (\<lambda>(i, pk). [PushBytes pk, Op (if i = 0 then OP_CHECKSIG else OP_CHECKSIGADD)]) (enumerate 0 pks)
     @ [[push_int L (int threshold)], [Op (if verify then OP_NUMEQUALVERIFY else OP_NUMEQUAL)]]"

lemma sort_keys_Ok:
  assumes "sort_keys pks = Ok pks'"
  shows "pks' = sort pks \<and> distinct pks"
proof -
  have nodup: "\<not> list_ex (\<lambda>i. sort pks ! i = sort pks ! Suc i) [0..<length pks - 1]" and eq: "pks' = sort pks"
    using assms by (auto simp: sort_keys_def Let_def split: if_split_asm)
  have "sort pks ! i < sort pks ! Suc i" if "Suc i < length (sort pks)" for i
    using that nodup sorted_nth_mono [of "sort pks" i "Suc i"] by (fastforce simp: list_ex_iff le_less)
  then have "sorted_wrt (<) (sort pks)" by (simp add: sorted_wrt_iff_nth_Suc_transp)
  then have "distinct (sort pks)" by (simp add: strict_sorted_iff)
  with eq show ?thesis by simp
qed

lemma multisig_script_pieces:
  assumes "multisig_script L pks threshold verify = Ok script" and "2 \<le> length pks"
  shows "script = concat (map (script_bytes L) (multisig_pieces L (sort pks) threshold verify)) \<and> distinct pks"
proof -
  from assms obtain pks' where s: "sort_keys pks = Ok pks'"
    and script: "script = concat (map (script_bytes L) (multisig_pieces L pks' threshold verify))"
    by (cases pks) (auto simp: multisig_script_def multisig_pieces_def case_prod_unfold comp_def split: if_split_asm)
  with sort_keys_Ok [OF s] show ?thesis by blast
qed

lemma enumerate_pieces:
  "n > 0 \<Longrightarrow> concat (map (\<lambda>(i, pk). [PushBytes pk, Op (if i = 0 then OP_CHECKSIG else OP_CHECKSIGADD)]) (enumerate n pks)) = add_pieces pks"
  by (induction pks arbitrary: n) (auto simp: add_pieces_def)

lemma tap_run_multisig:
  assumes law: "number_law L enc" and len: "length sigs = length pks" and pks: "pks \<noteq> []" "length pks < 2 ^ 31" "threshold < 2 ^ 31"
  shows "tap_run L enc chk age (concat (multisig_pieces L pks threshold verify)) (sigs @ st) =
    (if \<not> good_votes chk pks sigs then None
     else if verify then (if votes sigs = threshold then Some st else None)
     else Some ((if votes sigs = threshold then enc 1 else enc 0) # st))"
proof -
  obtain pk rest sg ss where c: "pks = pk # rest" "sigs = sg # ss" "length ss = length rest"
    using pks(1) len by (cases pks; cases sigs) auto
  have pieces: "concat (multisig_pieces L pks threshold verify) = [PushBytes pk, Op OP_CHECKSIG] @ add_pieces rest
      @ [push_int L (int threshold), Op (if verify then OP_NUMEQUALVERIFY else OP_NUMEQUAL)]"
    by (simp add: multisig_pieces_def c(1) enumerate_pieces)
  have "votes ss \<le> length ss" by (simp add: votes_def)
  then have v: "votes ss < 2 ^ 31" "Suc (votes ss) < 2 ^ 31" using pks(2) c by simp_all
  note add = tap_run_add [OF law c(3), of 0] tap_run_add [OF law c(3), of 1]
  note ends = tap_push_int [OF law pks(3)] read_enc [OF law pks(3)] read_enc [OF law v(1)] read_enc [OF law v(2)]
  show ?thesis
    unfolding pieces tap_run_append
    using add ends pks(2) c by (auto simp: tap_check_def good_votes_def votes_def)
qed

lemma tap_run_staker:
  "tap_run L enc chk age ([PushBytes pk, Op OP_CHECKSIGVERIFY] @ is) (sg # st) =
     (if sg \<noteq> [] \<and> chk sg pk then tap_run L enc chk age is st else None)"
  by (auto simp: tap_check_def)

section \<open>Spending paths\<close>

lemma covenant_keys_Ok: "Params_covenant_keys L params = Ok keys \<Longrightarrow> keys = pm_covenant_keys params"
  by (auto simp: Params_covenant_keys_def map_result_Ok_iff intro: nth_equalityI)

lemma tap_plain [simp]: "plain (PushBytes b) \<longleftrightarrow> length b \<le> 520" "plain (Op OP_CHECKSIG)" "plain (Op OP_CHECKSIGVERIFY)"
  "plain (Op OP_CHECKSIGADD)" "plain (Op OP_NUMEQUAL)" "plain (Op OP_NUMEQUALVERIFY)" "plain (Op OP_CSV)"
  by (simp_all add: plain_def)

lemma multisig_plain:
  assumes "number_law L enc" and "list_all (\<lambda>pk. length pk \<le> 520) pks" and "threshold < 2 ^ 31"
  shows "list_all plain (concat (multisig_pieces L pks threshold verify))"
proof -
  have "length pk \<le> 520" if "(i, pk) \<in> set (enumerate 0 pks)" for i pk
    using assms(2) that by (auto simp: list_all_length in_set_enumerate_eq)
  then show ?thesis using push_int_plain [OF assms(1,3)]
    by (auto simp: multisig_pieces_def list_all_iff)
qed

lemma tap_accepts_pieces:
  assumes "assembler_law L" and "list_all plain (concat pieces)"
  shows "tap_accepts L enc chk age (concat (map (script_bytes L) pieces)) st \<longleftrightarrow>
    (\<exists>x. tap_run L enc chk age (concat pieces) st = Some [x] \<and> read_scriptint L x \<noteq> Some 0)"
proof -
  have "instructions L (concat (map (script_bytes L) pieces)) = map Some (concat pieces)"
    using assms by (simp add: assembler_law_def)
  then show ?thesis by (auto simp: tap_accepts_def dest!: map_injective [OF _ inj_Some])
qed

lemma multisig_threshold_le:
  "multisig_script L pks threshold verify = Ok script \<Longrightarrow> length pks < 2 ^ 31 \<Longrightarrow> threshold < 2 ^ 31"
  by (auto simp: multisig_script_def split: list.splits if_split_asm)

lemma enc_truth: "number_law L enc \<Longrightarrow> read_scriptint L (enc 1) = Some 1 \<and> read_scriptint L (enc 0) = Some 0"
  using read_enc [of L enc 1] read_enc [of L enc 0] by simp

text \<open>A script of any pieces before the covenant's: what is left to do when they have run.\<close>

lemma covenant_path:
  assumes laws: "assembler_law L" "number_law L enc" and keys: "Params_covenant_keys L params = Ok keys"
    and plain: "list_all plain (concat pieces)" "list_all (\<lambda>pk. length pk \<le> 520) (pm_covenant_keys params)"
    and script: "multisig_script L keys (pm_covenant_quorum params) False = Ok covenant"
    and len: "2 \<le> length (pm_covenant_keys params)" "length (pm_covenant_keys params) < 2 ^ 31" "length sigs = length (pm_covenant_keys params)"
    and before: "tap_run L enc chk age (concat pieces) st = (if P then Some sigs else None)"
  shows "distinct (pm_covenant_keys params)
    \<and> (tap_accepts L enc chk age (concat (map (script_bytes L) pieces) @ covenant) st \<longleftrightarrow>
       P \<and> good_votes chk (sort (pm_covenant_keys params)) sigs \<and> votes sigs = pm_covenant_quorum params)"
proof -
  let ?q = "pm_covenant_quorum params" and ?keys = "pm_covenant_keys params"
  have keys': "keys = ?keys" using keys by (rule covenant_keys_Ok)
  have pieces: "covenant = concat (map (script_bytes L) (multisig_pieces L (sort ?keys) ?q False))" and d: "distinct ?keys"
    using multisig_script_pieces [OF script] len(1) by (simp_all add: keys')
  have ne: "sort ?keys \<noteq> []" using len(1) by (metis length_sort list.size(3) not_numeral_le_zero)
  have run: "tap_run L enc chk age (concat (pieces @ multisig_pieces L (sort ?keys) ?q False)) st =
      (if P \<and> good_votes chk (sort ?keys) sigs then Some [if votes sigs = ?q then enc 1 else enc 0] else None)"
    using before tap_run_multisig [OF laws(2), of sigs "sort ?keys" ?q chk age False "[]"] multisig_threshold_le [OF script] len ne
    by (auto simp: tap_run_append keys')
  have thr: "?q < 2 ^ 31" using multisig_threshold_le [OF script] len(2) by (simp add: keys')
  have "list_all (\<lambda>pk. length pk \<le> 520) (sort ?keys)" using plain(2) by (simp add: list_all_iff)
  from plain(1) multisig_plain [OF laws(2) this thr, of False]
  have all: "list_all plain (concat (pieces @ multisig_pieces L (sort ?keys) ?q False))" by simp
  have "tap_accepts L enc chk age (concat (map (script_bytes L) pieces) @ covenant) st \<longleftrightarrow>
      (\<exists>x. tap_run L enc chk age (concat (pieces @ multisig_pieces L (sort ?keys) ?q False)) st = Some [x] \<and> read_scriptint L x \<noteq> Some 0)"
    unfolding pieces using tap_accepts_pieces [OF laws(1) all, of enc chk age st] by simp
  with run d enc_truth [OF laws(2)] show ?thesis by auto
qed

text \<open>
  The unbonding path of a stake needs the staker's signature and exactly the covenant's quorum, no
  fewer and no more: it accepts a spend precisely when the staker's signature is valid, every covenant
  signature given is valid for the key in its place, in the order of the sorted keys, and their number
  is the quorum. A path whose keys repeat is never built.
\<close>

theorem unbonding_path_exact:
  assumes "assembler_law L" and "number_law L enc" and "unbonding_script L staker_key params = Ok script"
    and "2 \<le> length (pm_covenant_keys params)" "length (pm_covenant_keys params) < 2 ^ 31"
    and "length sigs = length (pm_covenant_keys params)"
    and keys: "length staker_key \<le> 520" "list_all (\<lambda>pk. length pk \<le> 520) (pm_covenant_keys params)"
  shows "distinct (pm_covenant_keys params) \<and> (tap_accepts L enc chk age script (staker_sig # sigs) \<longleftrightarrow>
    staker_sig \<noteq> [] \<and> chk staker_sig staker_key \<and> good_votes chk (sort (pm_covenant_keys params)) sigs
    \<and> votes sigs = pm_covenant_quorum params)"
proof -
  from assms(3) obtain keys covenant where k: "Params_covenant_keys L params = Ok keys"
    "multisig_script L keys (pm_covenant_quorum params) False = Ok covenant"
    and script: "script = concat (map (script_bytes L) [[PushBytes staker_key, Op OP_CHECKSIGVERIFY]]) @ covenant"
    by (auto simp: unbonding_script_def aggregate_scripts_def single_key_script_def)
  have "tap_run L enc chk age (concat [[PushBytes staker_key, Op OP_CHECKSIGVERIFY]]) (staker_sig # sigs) =
      (if staker_sig \<noteq> [] \<and> chk staker_sig staker_key then Some sigs else None)"
    using tap_run_staker [of L enc chk age staker_key "[]" staker_sig sigs] by simp
  from covenant_path [OF assms(1,2) k(1) _ keys(2) k(2) assms(4,5,6) this] keys(1) show ?thesis by (simp add: script)
qed

text \<open>
  The slashing path of a stake with one finality provider needs the signatures of the staker and of the
  finality provider and exactly the covenant's quorum.
\<close>

theorem slashing_path_exact:
  assumes "assembler_law L" and "number_law L enc" and "slashing_script L staker_key [fp_key] params = Ok script"
    and "2 \<le> length (pm_covenant_keys params)" "length (pm_covenant_keys params) < 2 ^ 31"
    and "length sigs = length (pm_covenant_keys params)"
    and keys: "length staker_key \<le> 520" "length fp_key \<le> 520" "list_all (\<lambda>pk. length pk \<le> 520) (pm_covenant_keys params)"
  shows "tap_accepts L enc chk age script (staker_sig # fp_sig # sigs) \<longleftrightarrow>
    (staker_sig \<noteq> [] \<and> chk staker_sig staker_key) \<and> (fp_sig \<noteq> [] \<and> chk fp_sig fp_key)
    \<and> good_votes chk (sort (pm_covenant_keys params)) sigs \<and> votes sigs = pm_covenant_quorum params"
proof -
  let ?pieces = "[[PushBytes staker_key, Op OP_CHECKSIGVERIFY], [PushBytes fp_key, Op OP_CHECKSIGVERIFY]]"
  from assms(3) obtain keys covenant where k: "Params_covenant_keys L params = Ok keys"
    "multisig_script L keys (pm_covenant_quorum params) False = Ok covenant"
    and script: "script = concat (map (script_bytes L) ?pieces) @ covenant"
    by (auto simp: slashing_script_def aggregate_scripts_def single_key_script_def multisig_script_def [of L "[fp_key]"])
  have "tap_run L enc chk age (concat ?pieces) (staker_sig # fp_sig # sigs) =
      (if (staker_sig \<noteq> [] \<and> chk staker_sig staker_key) \<and> (fp_sig \<noteq> [] \<and> chk fp_sig fp_key) then Some sigs else None)"
    using tap_run_staker [of L enc chk age staker_key "[PushBytes fp_key, Op OP_CHECKSIGVERIFY]" staker_sig "fp_sig # sigs"]
      tap_run_staker [of L enc chk age fp_key "[]" fp_sig sigs] by simp
  from covenant_path [OF assms(1,2) k(1) _ keys(3) k(2) assms(4,5,6) this] keys(1,2) show ?thesis by (simp add: script)
qed

text \<open>The timelock path needs the staker's signature and the age; a timelock of zero is never accepted.\<close>

theorem timelock_path_exact:
  assumes "assembler_law L" and "number_law L enc" and "timelock < 2 ^ 31" and "length pk \<le> 520"
  shows "tap_accepts L enc chk age (timelock_script L pk timelock) [sg] \<longleftrightarrow>
    sg \<noteq> [] \<and> chk sg pk \<and> int timelock \<le> age \<and> timelock \<noteq> 0"
proof -
  let ?pieces = "[[PushBytes pk, Op OP_CHECKSIGVERIFY], [push_int L (int timelock), Op OP_CSV]]"
  have script: "timelock_script L pk timelock = concat (map (script_bytes L) ?pieces)"
    using assms(3) by (simp add: timelock_script_def single_key_script_def as_i64_small)
  have "tap_run L enc chk age (concat ?pieces) [sg] =
      (if sg \<noteq> [] \<and> chk sg pk \<and> int timelock \<le> age then Some [enc (int timelock)] else None)"
    using tap_run_staker [of L enc chk age pk "[push_int L (int timelock), Op OP_CSV]" sg "[]"]
      tap_push_int [OF assms(2,3)] read_enc [OF assms(2,3)] by auto
  moreover have "list_all plain (concat ?pieces)" using assms(4) push_int_plain [OF assms(2,3)] by simp
  ultimately show ?thesis unfolding script using tap_accepts_pieces [OF assms(1), of ?pieces] read_enc [OF assms(2,3)] by auto
qed

section \<open>A small instance\<close>

definition demo_tap_lib :: tap_lib where
  "demo_tap_lib = script_lib.extend demo_script_lib
     \<lparr>tx_vsize = (\<lambda>tx. 100), tx_txid = (\<lambda>tx. concat (map to_script_pubkey (tr_output tx))), segwit_signature_hash = (\<lambda>tx i script amount. Ok [7]),
      dust_value = (\<lambda>script. 10), new_op_return = (\<lambda>b. b), arrange_outputs = rev, visit_txs = (\<lambda>txs. txs), arrange_txs = rev,
      dest_encode = dest_encode demo_dest_lib, pending_order = pending_order demo_dest_lib, sha256 = sha256 demo_dest_lib,
      encode_string8 = encode_string8 demo_dest_lib, encode_signer = encode_signer demo_dest_lib,
      encode_u64 = encode_u64 demo_dest_lib, parse_address = parse_address demo_dest_lib, parse_channel = Some, parse_port = Some,
      extract_matches = (\<lambda>b. Some ([], [b])), is_op_return = (\<lambda>s. s = [106]), xpub_encode = xp_public_key,
      validator_entries = ok_or (App ''none''), consensus_key_of = (\<lambda>_ a. Ok (Some a)),
      coin_take = (\<lambda>h n. if n \<le> h then Ok (n, h - n) else Err (Coins ''Insufficient funds'')), coin_give = add_u64, amount_add = add_u64,
      acc_withdraw = (\<lambda>a n bal. if n \<le> bal a then Ok (bal(a := bal a - n)) else Err (Coins ''Insufficient funds'')),
      acc_deposit = (\<lambda>a n bal. rbind (add_u64 (bal a) n) (\<lambda>m. Ok (bal(a := m)))), paid_take = Ok,
      xonly_from_slice = (\<lambda>_. True), parse_xonly = (\<lambda>s. Some (hex_decode s)), address_script = (\<lambda>s. Some [0]),
      taproot_leaves_ok = (\<lambda>_. True), taproot_output_key = (\<lambda>leaves k. Some [of_nat (length leaves)]), new_v1_p2tr_tweaked = (\<lambda>k. 81 # k),
      taproot_sighash = (\<lambda>tx i prevouts leaf. Ok (replicate 32 3)), verify_schnorr = (\<lambda>sg m k. sg = k), schnorr_from_slice = (\<lambda>_. True)\<rparr>"

definition demo_params :: params where
  "demo_params = \<lparr>pm_covenant_keys = [[5], [4]], pm_covenant_quorum = 2, pm_slashing_script = [0], pm_slashing_min_fee = 2000, pm_op_return_tag = [1],
     pm_slashing_rate = (11, 100), pm_max_age = 1008, pm_min_staking_time = 0, pm_max_staking_time = 64000, pm_unbonding_time = 20,
     pm_min_staking_amount = 50000, pm_max_staking_amount = 5000000, pm_unbonding_fee = 10000, pm_confirmation_depth = 2\<rparr>"

lemma demo_tap_laws: "assembler_law demo_tap_lib" "number_law demo_tap_lib demo_enc"
  using demo_assembler demo_number by (simp_all add: assembler_law_def number_law_def demo_tap_lib_def script_lib.defs demo_script_lib_def)

theorem unbonding_path_exact_witness:
  "\<exists>script. unbonding_script demo_tap_lib [9] demo_params = Ok script
    \<and> tap_accepts demo_tap_lib demo_enc (\<lambda>sg pk. sg = pk) 0 script [[9], [4], [5]]
    \<and> \<not> tap_accepts demo_tap_lib demo_enc (\<lambda>sg pk. sg = pk) 0 script [[9], [4], []]"
proof -
  obtain script where script: "unbonding_script demo_tap_lib [9] demo_params = Ok script"
    by (simp add: unbonding_script_def Params_covenant_keys_def multisig_script_def sort_keys_def demo_params_def demo_tap_lib_def script_lib.defs demo_script_lib_def)
  have keys: "pm_covenant_keys demo_params = [[5], [4]]" "pm_covenant_quorum demo_params = 2" by (simp_all add: demo_params_def)
  note path = unbonding_path_exact [OF demo_tap_laws script, unfolded keys]
  show ?thesis
    using script path [of "[[4], [5]]" "\<lambda>sg pk. sg = pk" 0 "[9]"] path [of "[[4], []]" "\<lambda>sg pk. sg = pk" 0 "[9]"]
    by (auto simp: good_votes_def votes_def)
qed

end
