(* ===== verification/Babylon.thy ===== *)
theory Babylon
  imports Babylon_Scripts Frost
begin

text \<open>
  Babylon staking (src/src/babylon/mod.rs): delegations of nBTC, their life from creation to withdrawal,
  the queues that the step works through, and the calls of the application (src/src/app.rs), behind the
  feature \<open>babylon\<close>. Methods of a delegation run on \<open>del_env\<close>: the delegation with what the caller lends it.
  A sighash has 32 bytes, so its conversion to a message does not fail and has no counterpart here.
\<close>

section \<open>Delegations\<close>

text \<open>
  The parameters: the x-only form of a group's verifying key, the order of an encoded identity, the text
  form of a destination, and the destination \<open>Dest::Stake\<close>, which exists only with the feature.
\<close>

record bab_lib = tap_lib +
  verifying_key_xonly :: "bytes \<Rightarrow> xonly option"
  identity_order :: "identity \<Rightarrow> bytes"
  dest_to_string :: "dest \<Rightarrow> string"
  dest_stake :: "string \<Rightarrow> xonly \<Rightarrow> u16 \<Rightarrow> dest"

datatype delegation_status = Created | Staked | SigningUnbond | SignedUnbond | ConfirmedUnbond | Withdrawn

record delegation =
  dl_index :: u64
  dl_owner :: identity
  dl_return_dest :: dest
  dl_btc_key :: xonly
  dl_frost_group :: u64
  dl_fp_keys :: "xonly list"
  dl_staking_period :: u16
  dl_unbonding_period :: u16
  dl_checkpoint_batch_index :: "u32 \<times> u64"
  dl_stake :: u64
  dl_staking_outpoint :: "outpoint option"
  dl_staking_height :: "u32 option"
  dl_requested_unbond :: bool
  dl_withdrawal_sigset_index :: "u32 option"
  dl_withdrawal_script_pubkey :: "bytes option"
  dl_frost_sig_offset :: "u64 option"
  dl_staking_unbonding_sig :: "bytes option"
  dl_unbonding_withdrawal_sig :: "bytes option"
  dl_unbonding_height :: "u32 option"
  dl_withdraw_checkpoint_index :: "u32 option"

type_synonym delegation_queue = "((u32 \<times> identity \<times> u64) \<times> unit) list"

record del_env =
  de_del :: delegation
  de_staked :: delegation_queue
  de_unbonding :: delegation_queue
  de_frost :: frost
  de_btc :: bitcoin

definition queue_order :: "'m bab_lib_scheme \<Rightarrow> u32 \<times> identity \<times> u64 \<Rightarrow> u32 \<times> bytes \<times> u64" where
  "queue_order L = (\<lambda>(height, owner, index). (height, identity_order L owner, index))"

definition Delegation_new ::
  "u64 \<Rightarrow> identity \<Rightarrow> dest \<Rightarrow> xonly \<Rightarrow> u64 \<Rightarrow> xonly list \<Rightarrow> u16 \<Rightarrow> u32 \<times> u64 \<Rightarrow> u64 \<Rightarrow> params \<Rightarrow> delegation result" where
  "Delegation_new index owner return_dest btc_key frost_group fp_keys staking_period checkpoint_batch_index stake params =
     (if staking_period < pm_min_staking_time params \<or> staking_period > pm_max_staking_time params
      then Err (App ''Staking period out of bounds'')
      else if length fp_keys \<ge> 2 ^ 8 then Err Encoding
      else Ok \<lparr>dl_index = index, dl_owner = owner, dl_return_dest = return_dest, dl_btc_key = btc_key, dl_frost_group = frost_group,
        dl_fp_keys = fp_keys, dl_staking_period = staking_period, dl_unbonding_period = pm_unbonding_time params,
        dl_checkpoint_batch_index = checkpoint_batch_index, dl_stake = stake, dl_staking_outpoint = None, dl_staking_height = None,
        dl_requested_unbond = False, dl_withdrawal_sigset_index = None, dl_withdrawal_script_pubkey = None, dl_frost_sig_offset = None,
        dl_staking_unbonding_sig = None, dl_unbonding_withdrawal_sig = None, dl_unbonding_height = None, dl_withdraw_checkpoint_index = None\<rparr>)"

definition Delegation_btc_key :: "'m tap_lib_scheme \<Rightarrow> delegation \<Rightarrow> xonly result" where
  "Delegation_btc_key L d = bytes_to_pubkey L (dl_btc_key d)"

definition Delegation_fp_keys :: "'m tap_lib_scheme \<Rightarrow> delegation \<Rightarrow> xonly list result" where
  "Delegation_fp_keys L d = map_result (bytes_to_pubkey L) (dl_fp_keys d)"

definition Delegation_stake_sats :: "delegation \<Rightarrow> u64" where
  "Delegation_stake_sats d = dl_stake d div 1000000"

definition Delegation_status :: "delegation \<Rightarrow> delegation_status result" where
  "Delegation_status d =
     (if (dl_staking_outpoint d = None) \<noteq> (dl_staking_height d = None) then Err Panic
      else Ok (if dl_withdraw_checkpoint_index d \<noteq> None then Withdrawn
               else if dl_unbonding_height d \<noteq> None then ConfirmedUnbond
               else if dl_unbonding_withdrawal_sig d \<noteq> None then SignedUnbond
               else if dl_withdrawal_script_pubkey d \<noteq> None then SigningUnbond
               else if dl_staking_outpoint d \<noteq> None then Staked
               else Created))"

section \<open>The transactions of a delegation\<close>

definition Delegation_staking_taproot :: "'m tap_lib_scheme \<Rightarrow> delegation \<Rightarrow> params \<Rightarrow> xonly result" where
  "Delegation_staking_taproot L d params =
     rbind (Delegation_btc_key L d) (\<lambda>btc_key.
     rbind (Delegation_fp_keys L d) (\<lambda>fp_keys.
     staking_taproot L btc_key fp_keys (dl_staking_period d) params))"

definition Delegation_staking_script :: "'m tap_lib_scheme \<Rightarrow> delegation \<Rightarrow> params \<Rightarrow> bytes result" where
  "Delegation_staking_script L d params =
     rbind (Delegation_staking_taproot L d params) (\<lambda>output_key. Ok (new_v1_p2tr_tweaked L output_key))"

definition Delegation_staking_output :: "'m tap_lib_scheme \<Rightarrow> delegation \<Rightarrow> params \<Rightarrow> txout result" where
  "Delegation_staking_output L d params =
     rbind (Delegation_staking_script L d params) (\<lambda>script.
     Ok \<lparr>to_value = Delegation_stake_sats d, to_script_pubkey = script\<rparr>)"

definition Delegation_op_return_bytes :: "'m tap_lib_scheme \<Rightarrow> delegation \<Rightarrow> bytes result" where
  "Delegation_op_return_bytes L d =
     rbind (Params_bbn_test_4 L) (\<lambda>params.
     rbind (ok_or (App ''Missing first FP key'') (case dl_fp_keys d of [] \<Rightarrow> None | k # _ \<Rightarrow> Some k)) (\<lambda>fp_pk.
     Ok (OpReturnData_encode \<lparr>od_magic_byes = pm_op_return_tag params, od_version = 0, od_staker_btc_pk = dl_btc_key d,
       od_fp_pk = fp_pk, od_staking_time = dl_staking_period d\<rparr>)))"

definition Delegation_op_return_output :: "'m tap_lib_scheme \<Rightarrow> delegation \<Rightarrow> txout result" where
  "Delegation_op_return_output L d =
     rbind (Delegation_op_return_bytes L d) (\<lambda>bs. Ok \<lparr>to_value = 0, to_script_pubkey = new_op_return L bs\<rparr>)"

definition staking_outpoint :: "delegation \<Rightarrow> outpoint result" where
  "staking_outpoint d = ok_or (App ''Missing staking outpoint'') (dl_staking_outpoint d)"

definition Delegation_unbonding_tx :: "'m tap_lib_scheme \<Rightarrow> delegation \<Rightarrow> params \<Rightarrow> transaction result" where
  "Delegation_unbonding_tx L d params =
     rbind (Delegation_btc_key L d) (\<lambda>btc_key.
     rbind (Delegation_fp_keys L d) (\<lambda>fp_keys.
     rbind (staking_outpoint d) (\<lambda>outpoint.
     unbonding_tx L btc_key fp_keys outpoint (Delegation_stake_sats d) params)))"

definition Delegation_slashing_tx :: "'m tap_lib_scheme \<Rightarrow> delegation \<Rightarrow> transaction result" where
  "Delegation_slashing_tx L d =
     rbind (Delegation_btc_key L d) (\<lambda>btc_key.
     rbind (staking_outpoint d) (\<lambda>outpoint.
     rbind (Params_bbn_test_4 L) (\<lambda>params.
     slashing_tx L btc_key outpoint (Delegation_stake_sats d) params)))"

definition first_output :: "transaction \<Rightarrow> txout result" where
  "first_output tx = (case tr_output tx of [] \<Rightarrow> Err Panic | out # _ \<Rightarrow> Ok out)"

definition Delegation_unbonding_slashing_tx :: "'m tap_lib_scheme \<Rightarrow> delegation \<Rightarrow> params \<Rightarrow> transaction result" where
  "Delegation_unbonding_slashing_tx L d params =
     rbind (Delegation_unbonding_tx L d params) (\<lambda>tx.
     rbind (Delegation_btc_key L d) (\<lambda>btc_key.
     rbind (first_output tx) (\<lambda>out.
     rbind (Params_bbn_test_4 L) (\<lambda>params.
     slashing_tx L btc_key (tx_txid L tx, 0) (to_value out) params))))"

definition Delegation_unbonding_withdrawal_tx :: "'m tap_lib_scheme \<Rightarrow> delegation \<Rightarrow> params \<Rightarrow> transaction result" where
  "Delegation_unbonding_withdrawal_tx L d params =
     rbind (Delegation_unbonding_tx L d params) (\<lambda>tx.
     rbind (first_output tx) (\<lambda>out.
     rbind (ok_or (App ''Missing withdrawal script pubkey'') (dl_withdrawal_script_pubkey d)) (\<lambda>script.
     rbind (sub_u (to_value out) (pm_unbonding_fee params)) (\<lambda>out_value.
     Ok \<lparr>tr_version = 2, tr_lock_time = 0, tr_input = [spending_txin (tx_txid L tx, 0)],
         tr_output = [\<lparr>to_value = out_value, to_script_pubkey = script\<rparr>]\<rparr>))))"

definition Delegation_staking_timelock_sighash ::
  "'m tap_lib_scheme \<Rightarrow> delegation \<Rightarrow> transaction \<Rightarrow> u32 \<Rightarrow> params \<Rightarrow> bytes result" where
  "Delegation_staking_timelock_sighash L d spending_tx input_index params =
     rbind (Delegation_staking_script L d params) (\<lambda>script.
     rbind (Delegation_btc_key L d) (\<lambda>btc_key.
     taproot_sighash L spending_tx input_index [\<lparr>to_value = Delegation_stake_sats d, to_script_pubkey = script\<rparr>]
       (timelock_script L btc_key (dl_staking_period d))))"

definition Delegation_staking_unbonding_sighash :: "'m tap_lib_scheme \<Rightarrow> delegation \<Rightarrow> params \<Rightarrow> bytes result" where
  "Delegation_staking_unbonding_sighash L d params =
     rbind (Delegation_unbonding_tx L d params) (\<lambda>tx.
     rbind (Delegation_staking_script L d params) (\<lambda>script.
     rbind (Delegation_btc_key L d) (\<lambda>btc_key.
     rbind (Params_bbn_test_4 L) (\<lambda>params.
     rbind (unbonding_script L btc_key params) (\<lambda>leaf.
     taproot_sighash L tx 0 [\<lparr>to_value = Delegation_stake_sats d, to_script_pubkey = script\<rparr>] leaf)))))"

definition Delegation_staking_slashing_sighash :: "'m tap_lib_scheme \<Rightarrow> delegation \<Rightarrow> params \<Rightarrow> bytes result" where
  "Delegation_staking_slashing_sighash L d params =
     rbind (Delegation_slashing_tx L d) (\<lambda>tx.
     rbind (Delegation_staking_script L d params) (\<lambda>script.
     rbind (Delegation_btc_key L d) (\<lambda>btc_key.
     rbind (Delegation_fp_keys L d) (\<lambda>fp_keys.
     rbind (slashing_script L btc_key fp_keys params) (\<lambda>leaf.
     taproot_sighash L tx 0 [\<lparr>to_value = Delegation_stake_sats d, to_script_pubkey = script\<rparr>] leaf)))))"

definition Delegation_unbonding_withdrawal_sighash :: "'m tap_lib_scheme \<Rightarrow> delegation \<Rightarrow> params \<Rightarrow> bytes result" where
  "Delegation_unbonding_withdrawal_sighash L d params =
     rbind (Delegation_unbonding_tx L d params) (\<lambda>unbonding_tx.
     rbind (Delegation_unbonding_withdrawal_tx L d params) (\<lambda>withdrawal_tx.
     rbind (first_output unbonding_tx) (\<lambda>out.
     rbind (Delegation_btc_key L d) (\<lambda>btc_key.
     taproot_sighash L withdrawal_tx 0 [out] (timelock_script L btc_key (dl_unbonding_period d))))))"

section \<open>The life of a delegation\<close>

definition set_del :: "(delegation \<Rightarrow> delegation) \<Rightarrow> (del_env, unit) call" where
  "set_del f = modify (\<lambda>e. e\<lparr>de_del := f (de_del e)\<rparr>)"

definition on_btc :: "(bitcoin, 'a) call \<Rightarrow> (del_env, 'a) call" where
  "on_btc m e = (case m (de_btc e) of (r, b) \<Rightarrow> (r, e\<lparr>de_btc := b\<rparr>))"

definition push_frost_message :: "ctx \<Rightarrow> bytes \<Rightarrow> (del_env, unit) call" where
  "push_frost_message C message e =
     (case on_nth Panic (dl_frost_group (de_del e)) (FrostGroup_push_message C message) (de_frost e) of
        (r, fr) \<Rightarrow> (r, e\<lparr>de_frost := fr\<rparr>))"

definition Delegation_unbond :: "'m tap_lib_scheme \<Rightarrow> ctx \<Rightarrow> params \<Rightarrow> (del_env, unit) call" where
  "Delegation_unbond L C params =
     cbind (reads (\<lambda>e. Delegation_status (de_del e))) (\<lambda>status.
     if status \<noteq> Staked then lift_result (Err (App ''Delegation not in Staked state''))
     else
     cbind (reads (\<lambda>e. CheckpointQueue_active_sigset (bc_checkpoints (de_btc e)))) (\<lambda>sigset.
     cbind (lift_result (SignatorySet_output_script L sigset [0] SIGSET_THRESHOLD)) (\<lambda>script.
     cbind (set_del (\<lambda>d. d\<lparr>dl_withdrawal_sigset_index := Some (ss_index sigset), dl_withdrawal_script_pubkey := Some script\<rparr>)) (\<lambda>_.
     cbind (reads (\<lambda>e. if dl_frost_group (de_del e) < length (de_frost e)
              then Ok (length (fg_signing (de_frost e ! dl_frost_group (de_del e)))) else Err Panic)) (\<lambda>offset.
     cbind (set_del (\<lambda>d. d\<lparr>dl_frost_sig_offset := Some offset\<rparr>)) (\<lambda>_.
     cbind (reads (\<lambda>e. Delegation_unbonding_withdrawal_sighash L (de_del e) params)) (\<lambda>sighash.
     cbind (push_frost_message C sighash) (\<lambda>_.
     cbind (reads (\<lambda>e. Delegation_staking_unbonding_sighash L (de_del e) params)) (\<lambda>sighash.
     push_frost_message C sighash)))))))))"

text \<open>The checks that \<open>relay_staking_tx\<close> and \<open>relay_unbonding_tx\<close> make of the block and the proof.\<close>

definition check_relayed_tx ::
  "'m btc_lib_scheme \<Rightarrow> header_queue \<Rightarrow> string \<Rightarrow> params \<Rightarrow> u32 \<Rightarrow> bytes \<Rightarrow> transaction \<Rightarrow> unit result" where
  "check_relayed_tx L headers unconfirmed params height merkle_proof tx =
     (if HeaderQueue_height headers - height < pm_confirmation_depth params then Err (App unconfirmed)
      else
      rbind (HeaderQueue_get_by_height headers height) (\<lambda>found.
      rbind (ok_or (App ''Header not found'') found) (\<lambda>header.
      rbind (ok_or BitcoinMerkleBlockError (extract_matches L merkle_proof)) (\<lambda>(proof_merkle_root, txids).
      if proof_merkle_root \<noteq> WorkHeader_merkle_root header then Err (App ''Bitcoin merkle proof does not match header'')
      else case txids of
        [txid] \<Rightarrow> if txid \<noteq> tx_txid L tx then Err (App ''Bitcoin merkle proof does not match transaction'') else Ok ()
      | _ \<Rightarrow> Err (App ''Bitcoin merkle proof contains an invalid number of txids'')))))"

definition Delegation_relay_staking_tx ::
  "'m bab_lib_scheme \<Rightarrow> ctx \<Rightarrow> header_queue \<Rightarrow> u32 \<Rightarrow> bytes \<Rightarrow> transaction \<Rightarrow> u32 \<Rightarrow> params \<Rightarrow> (del_env, unit) call" where
  "Delegation_relay_staking_tx L C headers height merkle_proof tx vout params =
     cbind (reads (\<lambda>e. Delegation_status (de_del e))) (\<lambda>status.
     if status \<noteq> Created then lift_result (Err (App ''Staking tx already relayed''))
     else
     cbind (lift_result (check_relayed_tx L headers ''Staking tx is not confirmed'' params height merkle_proof tx)) (\<lambda>_.
     if \<not> vout < length (tr_output tx) then lift_result (Err (App ''Output index is out of bounds''))
     else
     let out = tr_output tx ! vout in
     cbind (reads (\<lambda>e. if to_value out \<noteq> Delegation_stake_sats (de_del e) then Err (App ''Staking amount does not match'') else Ok ())) (\<lambda>_.
     cbind (reads (\<lambda>e. Delegation_staking_script L (de_del e) params)) (\<lambda>script.
     if to_script_pubkey out \<noteq> script then lift_result (Err (App ''Staking script pubkey does not match''))
     else
     cbind (set_del (\<lambda>d. d\<lparr>dl_staking_outpoint := Some (tx_txid L tx, vout), dl_staking_height := Some height\<rparr>)) (\<lambda>_.
     cbind (modify (\<lambda>e. e\<lparr>de_staked := omap_insert (queue_order L) (height, dl_owner (de_del e), dl_index (de_del e)) () (de_staked e)\<rparr>)) (\<lambda>_.
     cbind (reads (\<lambda>e. Ok (dl_requested_unbond (de_del e)))) (\<lambda>requested_unbond.
     if requested_unbond then Delegation_unbond L C params else lift_result (Ok ()))))))))"

definition Delegation_request_unbond :: "'m tap_lib_scheme \<Rightarrow> ctx \<Rightarrow> params \<Rightarrow> (del_env, unit) call" where
  "Delegation_request_unbond L C params =
     cbind (reads (\<lambda>e. if dl_requested_unbond (de_del e) then Err (App ''Delegation already requested unbond'') else Ok ())) (\<lambda>_.
     cbind (reads (\<lambda>e. Delegation_status (de_del e))) (\<lambda>status.
     if status = Withdrawn then lift_result (Err (App ''Delegation already withdrawn''))
     else
     cbind (set_del (\<lambda>d. d\<lparr>dl_requested_unbond := True\<rparr>)) (\<lambda>_.
     cbind (reads (\<lambda>e. Delegation_status (de_del e))) (\<lambda>status.
     case status of
       Staked \<Rightarrow> Delegation_unbond L C params
     | Withdrawn \<Rightarrow> lift_result (Err (App ''Delegation already withdrawn''))
     | _ \<Rightarrow> lift_result (Ok ())))))"

definition verify_unbond_sig :: "'m tap_lib_scheme \<Rightarrow> xonly \<Rightarrow> bytes \<Rightarrow> bytes \<Rightarrow> unit result" where
  "verify_unbond_sig L key msg sg =
     (if \<not> message_from_slice L msg \<or> \<not> schnorr_from_slice L sg \<or> \<not> verify_schnorr L sg msg key then Err Secp else Ok ())"

definition Delegation_sign_unbond :: "'m tap_lib_scheme \<Rightarrow> bytes \<Rightarrow> bytes \<Rightarrow> params \<Rightarrow> (del_env, unit) call" where
  "Delegation_sign_unbond L staking_unbonding_sig unbonding_withdrawal_sig params =
     cbind (reads (\<lambda>e. Delegation_status (de_del e))) (\<lambda>status.
     if status \<noteq> SigningUnbond then lift_result (Err Panic)
     else
     cbind (reads (\<lambda>e. Delegation_btc_key L (de_del e))) (\<lambda>key.
     cbind (reads (\<lambda>e. Delegation_staking_unbonding_sighash L (de_del e) params)) (\<lambda>sighash.
     cbind (lift_result (verify_unbond_sig L key sighash staking_unbonding_sig)) (\<lambda>_.
     cbind (set_del (\<lambda>d. d\<lparr>dl_staking_unbonding_sig := Some staking_unbonding_sig\<rparr>)) (\<lambda>_.
     cbind (reads (\<lambda>e. Delegation_unbonding_withdrawal_sighash L (de_del e) params)) (\<lambda>sighash.
     cbind (lift_result (verify_unbond_sig L key sighash unbonding_withdrawal_sig)) (\<lambda>_.
     set_del (\<lambda>d. d\<lparr>dl_unbonding_withdrawal_sig := Some unbonding_withdrawal_sig\<rparr>))))))))"

definition Delegation_relay_unbonding_tx ::
  "'m bab_lib_scheme \<Rightarrow> header_queue \<Rightarrow> u32 \<Rightarrow> bytes \<Rightarrow> transaction \<Rightarrow> params \<Rightarrow> (del_env, unit) call" where
  "Delegation_relay_unbonding_tx L headers height merkle_proof tx params =
     cbind (reads (\<lambda>e. Delegation_status (de_del e))) (\<lambda>status.
     if status \<noteq> SignedUnbond then lift_result (Err (App ''Delegation not in SignedUnbond state''))
     else
     cbind (lift_result (check_relayed_tx L headers ''Unbonding tx is not confirmed'' params height merkle_proof tx)) (\<lambda>_.
     cbind (reads (\<lambda>e. Delegation_unbonding_tx L (de_del e) params)) (\<lambda>expected.
     if tx_txid L tx \<noteq> tx_txid L expected then lift_result (Err (App ''Proven tx is not expected unbonding tx''))
     else
     cbind (set_del (\<lambda>d. d\<lparr>dl_unbonding_height := Some height\<rparr>)) (\<lambda>_.
     cbind (reads (\<lambda>e. add_u32 height (dl_unbonding_period (de_del e)))) (\<lambda>maturity_height.
     cbind (modify (\<lambda>e. e\<lparr>de_unbonding := omap_insert (queue_order L) (maturity_height, dl_owner (de_del e), dl_index (de_del e)) () (de_unbonding e)\<rparr>)) (\<lambda>_.
     cbind (reads (\<lambda>e. unwrap (dl_staking_height (de_del e)))) (\<lambda>staking_height.
     modify (\<lambda>e. e\<lparr>de_staked := omap_remove (staking_height, dl_owner (de_del e), dl_index (de_del e)) (de_staked e)\<rparr>))))))))"

definition Delegation_can_withdraw :: "bitcoin \<Rightarrow> delegation \<Rightarrow> bool result" where
  "Delegation_can_withdraw btc d =
     rbind (Delegation_status d) (\<lambda>status.
     if status \<noteq> ConfirmedUnbond then Ok False
     else
     rbind (unwrap (dl_unbonding_height d)) (\<lambda>height.
     rbind (add_u32 height (dl_unbonding_period d)) (\<lambda>maturity_height.
     Ok (HeaderQueue_height (bc_headers btc) < maturity_height))))"

text \<open>Where the withdrawn stake goes: to its owner's destination, or into a new delegation.\<close>

definition withdrawal_dest :: "'m bab_lib_scheme \<Rightarrow> delegation \<Rightarrow> dest result" where
  "withdrawal_dest L d =
     (if dl_requested_unbond d then Ok (dl_return_dest d)
      else if length (dest_to_string L (dl_return_dest d)) \<ge> 2 ^ 16 then Err Encoding
      else case dl_fp_keys d of
        [] \<Rightarrow> Err Panic
      | fp_key # _ \<Rightarrow> Ok (dest_stake L (dest_to_string L (dl_return_dest d)) fp_key (dl_staking_period d)))"

definition Delegation_withdraw :: "'m bab_lib_scheme \<Rightarrow> params \<Rightarrow> (del_env, unit) call" where
  "Delegation_withdraw L params =
     cbind (reads (\<lambda>e. Delegation_status (de_del e))) (\<lambda>status.
     if status \<noteq> ConfirmedUnbond then lift_result (Err (App ''Delegation not in ConfirmedUnbond state''))
     else
     cbind (reads (\<lambda>e. Delegation_can_withdraw (de_btc e) (de_del e))) (\<lambda>can_withdraw.
     if \<not> can_withdraw then lift_result (Err (App ''Unbonding period not over''))
     else
     cbind (reads (\<lambda>e. Delegation_unbonding_withdrawal_tx L (de_del e) params)) (\<lambda>withdrawal_tx.
     cbind (reads (\<lambda>e. CheckpointQueue_active_sigset (bc_checkpoints (de_btc e)))) (\<lambda>sigset.
     cbind (lift_result (first_output withdrawal_tx)) (\<lambda>out.
     cbind (lift_result (Input_new L (tx_txid L withdrawal_tx, 0) sigset [0] (to_value out) SIGSET_THRESHOLD)) (\<lambda>input.
     cbind (on_btc (building_mut (edit_checkpoint_tx (\<lambda>tx. tx\<lparr>bt_input := bt_input tx @ [input]\<rparr>)))) (\<lambda>_.
     cbind (reads (\<lambda>e. withdrawal_dest L (de_del e))) (\<lambda>dest.
     cbind (reads (\<lambda>e. coin_take L (dl_stake (de_del e)) (dl_stake (de_del e)))) (\<lambda>(coins, rest).
     cbind (set_del (\<lambda>d. d\<lparr>dl_stake := rest\<rparr>)) (\<lambda>_.
     cbind (reads (\<lambda>e. Ok (dl_owner (de_del e)))) (\<lambda>owner.
     cbind (on_btc (building_mut (\<lambda>cp. Ok (cp\<lparr>cp_pending := omap_insert (pending_order L) (dest, owner) coins (cp_pending cp)\<rparr>, ())))) (\<lambda>_.
     set_del (\<lambda>d. d\<lparr>dl_withdraw_checkpoint_index := Some (ss_index sigset)\<rparr>)))))))))))))"

section \<open>The module\<close>

record babylon =
  bn_delegations :: "(identity \<times> delegation list) list"
  bn_staked :: delegation_queue
  bn_unbonding :: delegation_queue
  bn_params :: params

text \<open>The parts of the application that the module works on.\<close>

record bab_world =
  bw_babylon :: babylon
  bw_frost :: frost
  bw_bitcoin :: bitcoin

text \<open>A method call on the delegation of an owner at an index, with the errors for a missing one.\<close>

definition with_delegation ::
  "'m bab_lib_scheme \<Rightarrow> error \<Rightarrow> error \<Rightarrow> identity \<Rightarrow> u64 \<Rightarrow> (del_env, 'a) call \<Rightarrow> (bab_world, 'a) call" where
  "with_delegation L no_owner no_index owner index f w =
     (let b = bw_babylon w in
      case map_of (bn_delegations b) owner of
        None \<Rightarrow> (Err no_owner, w)
      | Some dels \<Rightarrow>
          if index < length dels then
            (case f \<lparr>de_del = dels ! index, de_staked = bn_staked b, de_unbonding = bn_unbonding b, de_frost = bw_frost w, de_btc = bw_bitcoin w\<rparr> of
               (r, e) \<Rightarrow> (r, \<lparr>bw_babylon = b\<lparr>bn_delegations := omap_insert (identity_order L) owner (dels[index := de_del e]) (bn_delegations b),
                                bn_staked := de_staked e, bn_unbonding := de_unbonding e\<rparr>,
                              bw_frost = de_frost e, bw_bitcoin = de_btc e\<rparr>))
          else (Err no_index, w))"

text \<open>
  \<open>process_queue\<close>: the entries of the queue in order while they are due; the processed ones are removed
  after the loop.
\<close>

fun process_entries ::
  "'m bab_lib_scheme \<Rightarrow> (u32 \<Rightarrow> u32 \<Rightarrow> params \<Rightarrow> bool result) \<Rightarrow> (params \<Rightarrow> (del_env, unit) call) \<Rightarrow> (u32 \<times> identity \<times> u64) list
     \<Rightarrow> (bab_world, (u32 \<times> identity \<times> u64) list) call" where
  "process_entries L condition handler [] = lift_result (Ok [])"
| "process_entries L condition handler (key # keys) = (case key of (height, owner, index) \<Rightarrow>
     cbind (reads (\<lambda>w. condition (HeaderQueue_height (bc_headers (bw_bitcoin w))) height (bn_params (bw_babylon w)))) (\<lambda>due.
     if \<not> due then lift_result (Ok [])
     else
     cbind (reads (\<lambda>w. Ok (bn_params (bw_babylon w)))) (\<lambda>params.
     cbind (with_delegation L (App ''Delegation not found'') (App ''Delegation not found'') owner index (handler params)) (\<lambda>_.
     cbind (process_entries L condition handler keys) (\<lambda>processed.
     lift_result (Ok (key # processed)))))))"

definition unbonding_due :: "u32 \<Rightarrow> u32 \<Rightarrow> params \<Rightarrow> bool result" where
  "unbonding_due btc_height maturity_height params = Ok (btc_height \<ge> maturity_height)"

definition staked_due :: "u32 \<Rightarrow> u32 \<Rightarrow> params \<Rightarrow> bool result" where
  "staked_due btc_height staking_height params =
     rbind (add_u32 staking_height (pm_max_age params)) (\<lambda>expiry. Ok (btc_height \<ge> expiry))"

definition Babylon_step :: "'m bab_lib_scheme \<Rightarrow> ctx \<Rightarrow> (bab_world, unit) call" where
  "Babylon_step L C =
     cbind (\<lambda>w. process_entries L unbonding_due (Delegation_withdraw L) (map fst (bn_unbonding (bw_babylon w))) w) (\<lambda>withdrawn.
     cbind (modify (\<lambda>w. w\<lparr>bw_babylon := (bw_babylon w)\<lparr>bn_unbonding := fold omap_remove withdrawn (bn_unbonding (bw_babylon w))\<rparr>\<rparr>)) (\<lambda>_.
     cbind (\<lambda>w. process_entries L staked_due (Delegation_unbond L C) (map fst (bn_staked (bw_babylon w))) w) (\<lambda>unbonded.
     modify (\<lambda>w. w\<lparr>bw_babylon := (bw_babylon w)\<lparr>bn_staked := fold omap_remove unbonded (bn_staked (bw_babylon w))\<rparr>\<rparr>))))"

definition on_bw_bitcoin :: "(bitcoin, 'a) call \<Rightarrow> (bab_world, 'a) call" where
  "on_bw_bitcoin m w = (case m (bw_bitcoin w) of (r, b) \<Rightarrow> (r, w\<lparr>bw_bitcoin := b\<rparr>))"

definition owner_delegations :: "identity \<Rightarrow> bab_world \<Rightarrow> delegation list" where
  "owner_delegations owner w = (case map_of (bn_delegations (bw_babylon w)) owner of None \<Rightarrow> [] | Some dels \<Rightarrow> dels)"

definition Babylon_stake ::
  "'m bab_lib_scheme \<Rightarrow> identity \<Rightarrow> dest \<Rightarrow> bytes \<Rightarrow> u16 \<Rightarrow> u64 \<Rightarrow> (bab_world, u64) call" where
  "Babylon_stake L owner return_dest finality_provider staking_time nbtc =
     cbind (reads (\<lambda>w. Frost_most_recent_with_key (bw_frost w))) (\<lambda>recent.
     cbind (lift_result (ok_or (App ''Frost not initialized'') recent)) (\<lambda>frost_index.
     cbind (reads (\<lambda>w. Frost_group_pubkey (bw_frost w) frost_index)) (\<lambda>key.
     cbind (lift_result (unwrap key)) (\<lambda>group_pubkey.
     cbind (reads (\<lambda>w. Ok (length (owner_delegations owner w)))) (\<lambda>index.
     cbind (reads (\<lambda>w. rbind (CheckpointQueue_building (bc_checkpoints (bw_bitcoin w))) (get_batch Checkpoint_batch))) (\<lambda>batch.
     cbind (lift_result (ok_or Secp (verifying_key_xonly L group_pubkey))) (\<lambda>btc_key.
     cbind (lift_result (bytes_to_pubkey L finality_provider)) (\<lambda>fp_key.
     cbind (reads (\<lambda>w. Delegation_new index owner return_dest btc_key frost_index [fp_key] staking_time
              (cq_index (bc_checkpoints (bw_bitcoin w)), length (ba_batch batch)) nbtc (bn_params (bw_babylon w)))) (\<lambda>del.
     cbind (reads (\<lambda>w. Delegation_staking_output L del (bn_params (bw_babylon w)))) (\<lambda>staking.
     cbind (lift_result (Delegation_op_return_output L del)) (\<lambda>op_return.
     cbind (on_bw_bitcoin (building_mut (\<lambda>cp.
              rbind (get_batch Checkpoint_batch cp) (\<lambda>b.
              Ok (set_batch Checkpoint_batch (b\<lparr>ba_batch := ba_batch b @ [BitcoinTx_default\<lparr>bt_output := [staking, op_return]\<rparr>]\<rparr>) cp, ()))))) (\<lambda>_.
     cbind (modify (\<lambda>w. w\<lparr>bw_babylon := (bw_babylon w)\<lparr>bn_delegations :=
              omap_insert (identity_order L) owner (owner_delegations owner w @ [del]) (bn_delegations (bw_babylon w))\<rparr>\<rparr>)) (\<lambda>_.
     lift_result (Ok index))))))))))))))"

definition Babylon_unstake :: "'m bab_lib_scheme \<Rightarrow> ctx \<Rightarrow> identity \<Rightarrow> u64 \<Rightarrow> (bab_world, unit) call" where
  "Babylon_unstake L C owner index w =
     with_delegation L (App ''Delegation not found'') (App ''Delegation not found'') owner index
       (Delegation_request_unbond L C (bn_params (bw_babylon w))) w"

section \<open>Calls of the application\<close>

definition InnerApp_stake_nbtc :: "'m bab_lib_scheme \<Rightarrow> ctx \<Rightarrow> u64 \<Rightarrow> bytes \<Rightarrow> u16 \<Rightarrow> (bab_world, unit) call" where
  "InnerApp_stake_nbtc L C amount finality_provider staking_period =
     cbind (lift_result (call_signer C)) (\<lambda>signer.
     cbind (on_bw_bitcoin (accounts_withdraw L signer amount)) (\<lambda>stake.
     cbind (lift_result (Identity_from_signer C)) (\<lambda>owner.
     cbind (Babylon_stake L owner (NativeAccount signer) finality_provider staking_period stake) (\<lambda>_.
     lift_result (Ok ())))))"

definition InnerApp_relay_btc_staking_tx ::
  "'m bab_lib_scheme \<Rightarrow> ctx \<Rightarrow> identity \<Rightarrow> u64 \<Rightarrow> u32 \<Rightarrow> bytes \<Rightarrow> transaction \<Rightarrow> u32 \<Rightarrow> (bab_world, unit) call" where
  "InnerApp_relay_btc_staking_tx L C del_owner del_index height merkle_proof tx vout =
     cbind (lift_result (exempt_from_fee C)) (\<lambda>_ w.
     with_delegation L (App ''No delegations found with given owner'') (App ''Delegation not found'') del_owner del_index
       (Delegation_relay_staking_tx L C (bc_headers (bw_bitcoin w)) height merkle_proof tx vout (bn_params (bw_babylon w))) w)"

definition InnerApp_relay_btc_unbonding_tx ::
  "'m bab_lib_scheme \<Rightarrow> ctx \<Rightarrow> identity \<Rightarrow> u64 \<Rightarrow> u32 \<Rightarrow> bytes \<Rightarrow> transaction \<Rightarrow> (bab_world, unit) call" where
  "InnerApp_relay_btc_unbonding_tx L C del_owner del_index height merkle_proof tx =
     cbind (lift_result (exempt_from_fee C)) (\<lambda>_ w.
     with_delegation L (App ''No delegations found with given owner'') (App ''Delegation not found'') del_owner del_index
       (Delegation_relay_unbonding_tx L (bc_headers (bw_bitcoin w)) height merkle_proof tx (bn_params (bw_babylon w))) w)"

text \<open>The cases of \<open>validate_dest\<close> for the two destinations of the feature; \<open>parses\<close> says whether the return
  destination parses.\<close>

definition validate_stake :: "bab_world \<Rightarrow> unit result \<Rightarrow> u16 \<Rightarrow> u64 \<Rightarrow> unit result" where
  "validate_stake w parses staking_period amount =
     (let params = bn_params (bw_babylon w) in
      if amount < pm_min_staking_amount params \<or> amount > pm_max_staking_amount params then Err (App ''Invalid stake amount'')
      else if staking_period < pm_min_staking_time params \<or> staking_period > pm_max_staking_time params
      then Err (App ''Invalid staking period'')
      else
      rbind parses (\<lambda>_.
      rbind (Frost_most_recent_with_key (bw_frost w)) (\<lambda>recent.
      if recent = None then Err (App ''No Frost DKG groups'') else Ok ())))"

definition validate_unstake :: "bab_world \<Rightarrow> identity \<Rightarrow> u64 \<Rightarrow> unit result" where
  "validate_unstake w sender index =
     rbind (ok_or (App ''No delegations found for owner'') (map_of (bn_delegations (bw_babylon w)) sender)) (\<lambda>owner_dels.
     if \<not> index < length owner_dels then Err (App ''Delegation not found'')
     else
     rbind (Delegation_status (owner_dels ! index)) (\<lambda>status.
     if status = Withdrawn then Err (App ''Delegation already withdrawn'') else Ok ()))"

end
