(* ===== verification/Babylon_Properties.thy ===== *)
theory Babylon_Properties
  imports Babylon Checkpoint_Chain
begin

text \<open>
  What Babylon staking guarantees. A contract for the methods of a delegation (locale \<open>delegation_method\<close>)
  says that a method only moves its delegation forward; each method is an interpretation, and the contract
  carries the invariant of the module through every sequence of calls, whatever the Bitcoin module and the
  signers of FROST do in between.
\<close>

section \<open>Effects of the methods\<close>

lemma set_del_Ok [simp]: "set_del f e = (Ok u, e') \<longleftrightarrow> e' = e\<lparr>de_del := f (de_del e)\<rparr>"
  by (simp add: set_del_def)

lemma push_frost_message_Ok:
  "push_frost_message C message e = (Ok u, e') \<longleftrightarrow>
     (\<exists>now. FrostGroup_now C = Ok now \<and> dl_frost_group (de_del e) < length (de_frost e)
        \<and> e' = e\<lparr>de_frost := (de_frost e)[dl_frost_group (de_del e) := (de_frost e ! dl_frost_group (de_del e))
             \<lparr>fg_signing := fg_signing (de_frost e ! dl_frost_group (de_del e))
                @ [Signing_new (fg_config (de_frost e ! dl_frost_group (de_del e))) message now]\<rparr>]\<rparr>)"
  by (auto simp: push_frost_message_def on_nth_def FrostGroup_push_message_def cbind_def lift_result_def modify_def split: prod.splits result.splits)

text \<open>The sighashes read only what never changes, the staking output and the withdrawal script.\<close>

lemma sighash_offset [simp]:
  "Delegation_unbonding_withdrawal_sighash L (d\<lparr>dl_frost_sig_offset := x\<rparr>) params = Delegation_unbonding_withdrawal_sighash L d params"
  "Delegation_staking_unbonding_sighash L (d\<lparr>dl_frost_sig_offset := x\<rparr>) params = Delegation_staking_unbonding_sighash L d params"
  by (simp_all add: Delegation_unbonding_withdrawal_sighash_def Delegation_staking_unbonding_sighash_def Delegation_unbonding_tx_def
      Delegation_unbonding_withdrawal_tx_def Delegation_btc_key_def Delegation_fp_keys_def staking_outpoint_def Delegation_stake_sats_def
      Delegation_staking_script_def Delegation_staking_taproot_def)

definition signed_part :: "delegation \<Rightarrow> xonly \<times> xonly list \<times> u16 \<times> u16 \<times> u64 \<times> outpoint option \<times> bytes option" where
  "signed_part d = (dl_btc_key d, dl_fp_keys d, dl_staking_period d, dl_unbonding_period d, dl_stake d, dl_staking_outpoint d,
     dl_withdrawal_script_pubkey d)"

lemma sighash_cong:
  assumes "signed_part d = signed_part d'"
  shows "Delegation_unbonding_withdrawal_sighash L d params = Delegation_unbonding_withdrawal_sighash L d' params"
    and "Delegation_staking_unbonding_sighash L d params = Delegation_staking_unbonding_sighash L d' params"
  using assms
  by (simp_all add: signed_part_def Delegation_unbonding_withdrawal_sighash_def Delegation_staking_unbonding_sighash_def Delegation_unbonding_tx_def
      Delegation_unbonding_withdrawal_tx_def Delegation_btc_key_def Delegation_fp_keys_def staking_outpoint_def Delegation_stake_sats_def
      Delegation_staking_script_def Delegation_staking_taproot_def)

lemma status_Ok: "Delegation_status d = Ok st \<Longrightarrow> (dl_staking_outpoint d = None) = (dl_staking_height d = None)"
  by (simp add: Delegation_status_def)

lemma status_iff:
  "Delegation_status d = Ok Created \<longleftrightarrow> dl_staking_outpoint d = None \<and> dl_staking_height d = None \<and> dl_withdrawal_script_pubkey d = None
     \<and> dl_unbonding_withdrawal_sig d = None \<and> dl_unbonding_height d = None \<and> dl_withdraw_checkpoint_index d = None"
  "Delegation_status d = Ok Staked \<longleftrightarrow> dl_staking_outpoint d \<noteq> None \<and> dl_staking_height d \<noteq> None \<and> dl_withdrawal_script_pubkey d = None
     \<and> dl_unbonding_withdrawal_sig d = None \<and> dl_unbonding_height d = None \<and> dl_withdraw_checkpoint_index d = None"
  by (auto simp: Delegation_status_def)

text \<open>Unbonding records the script to withdraw to and asks the delegation's group for its two signatures.\<close>

lemma unbond_Ok:
  assumes "Delegation_unbond L C params e = (Ok u, e')"
  obtains sigset script m1 m2 now group d'
  where "Delegation_status (de_del e) = Ok Staked" "dl_frost_group (de_del e) < length (de_frost e)"
    "group = de_frost e ! dl_frost_group (de_del e)"
    "d' = (de_del e)\<lparr>dl_withdrawal_sigset_index := Some (ss_index sigset), dl_withdrawal_script_pubkey := Some script,
       dl_frost_sig_offset := Some (length (fg_signing group))\<rparr>"
    "CheckpointQueue_active_sigset (bc_checkpoints (de_btc e)) = Ok sigset"
    "SignatorySet_output_script L sigset [0] SIGSET_THRESHOLD = Ok script"
    "Delegation_unbonding_withdrawal_sighash L d' params = Ok m1" "Delegation_staking_unbonding_sighash L d' params = Ok m2"
    "e' = e\<lparr>de_del := d', de_frost := (de_frost e)[dl_frost_group (de_del e) := group\<lparr>fg_signing :=
         fg_signing group @ [Signing_new (fg_config group) m1 now, Signing_new (fg_config group) m2 now]\<rparr>]\<rparr>"
proof -
  define group where "group = de_frost e ! dl_frost_group (de_del e)"
  from assms obtain sigset script where a: "Delegation_status (de_del e) = Ok Staked"
    "CheckpointQueue_active_sigset (bc_checkpoints (de_btc e)) = Ok sigset"
    "SignatorySet_output_script L sigset [0] SIGSET_THRESHOLD = Ok script" "dl_frost_group (de_del e) < length (de_frost e)"
    by (auto simp: Delegation_unbond_def split: if_split_asm)
  define d' where "d' = (de_del e)\<lparr>dl_withdrawal_sigset_index := Some (ss_index sigset), dl_withdrawal_script_pubkey := Some script,
       dl_frost_sig_offset := Some (length (fg_signing group))\<rparr>"
  from assms a obtain m1 m2 e1 where b: "Delegation_unbonding_withdrawal_sighash L d' params = Ok m1"
    "push_frost_message C m1 (e\<lparr>de_del := d'\<rparr>) = (Ok (), e1)" "Delegation_staking_unbonding_sighash L (de_del e1) params = Ok m2"
    "push_frost_message C m2 e1 = (Ok u, e')"
    by (auto simp: Delegation_unbond_def d'_def group_def split: if_split_asm)
  then obtain now where now: "FrostGroup_now C = Ok now" by (auto simp: push_frost_message_Ok)
  have group': "dl_frost_group d' = dl_frost_group (de_del e)" by (simp add: d'_def)
  have e1: "e1 = e\<lparr>de_del := d', de_frost := (de_frost e)[dl_frost_group (de_del e) := group\<lparr>fg_signing :=
      fg_signing group @ [Signing_new (fg_config group) m1 now]\<rparr>]\<rparr>"
    using b(2) now by (simp add: push_frost_message_Ok group' group_def)
  have "e' = e\<lparr>de_del := d', de_frost := (de_frost e)[dl_frost_group (de_del e) := group\<lparr>fg_signing :=
      fg_signing group @ [Signing_new (fg_config group) m1 now, Signing_new (fg_config group) m2 now]\<rparr>]\<rparr>"
    using b(4) now a(4) by (simp add: push_frost_message_Ok e1 group')
  with a b e1 show ?thesis by (intro that [OF a(1,4) group_def d'_def a(2,3)]) auto
qed

section \<open>The contract of a method\<close>

text \<open>The stages of a delegation are nested: each mark is there only if the one before it is.\<close>

definition stages :: "delegation \<Rightarrow> bool" where
  "stages d \<longleftrightarrow> (dl_staking_outpoint d = None) = (dl_staking_height d = None)
     \<and> (dl_withdrawal_script_pubkey d \<noteq> None \<longrightarrow> dl_staking_outpoint d \<noteq> None)
     \<and> (dl_frost_sig_offset d = None) = (dl_withdrawal_script_pubkey d = None)
     \<and> (dl_staking_unbonding_sig d \<noteq> None \<longrightarrow> dl_withdrawal_script_pubkey d \<noteq> None)
     \<and> (dl_staking_unbonding_sig d = None) = (dl_unbonding_withdrawal_sig d = None)
     \<and> (dl_unbonding_height d \<noteq> None \<longrightarrow> dl_unbonding_withdrawal_sig d \<noteq> None)
     \<and> dl_withdraw_checkpoint_index d = None"

definition messages :: "frost \<Rightarrow> u64 \<Rightarrow> bytes list" where
  "messages fr g = (if g < length fr then map si_message (fg_signing (fr ! g)) else [])"

definition frost_extends :: "frost \<Rightarrow> frost \<Rightarrow> bool" where
  "frost_extends fr fr' \<longleftrightarrow> (\<forall>g. \<exists>ms. messages fr' g = messages fr g @ ms)"

text \<open>The group was asked, at the recorded place, for the signatures of this delegation's two transactions.\<close>

definition asked :: "'m tap_lib_scheme \<Rightarrow> params \<Rightarrow> frost \<Rightarrow> delegation \<Rightarrow> bool" where
  "asked L params fr d \<longleftrightarrow> (\<forall>i. dl_frost_sig_offset d = Some i \<longrightarrow> (\<exists>m1 m2.
     Delegation_unbonding_withdrawal_sighash L d params = Ok m1 \<and> Delegation_staking_unbonding_sighash L d params = Ok m2
     \<and> Suc i < length (messages fr (dl_frost_group d)) \<and> messages fr (dl_frost_group d) ! i = m1 \<and> messages fr (dl_frost_group d) ! Suc i = m2))"

definition sigs_valid :: "'m tap_lib_scheme \<Rightarrow> params \<Rightarrow> delegation \<Rightarrow> bool" where
  "sigs_valid L params d \<longleftrightarrow>
     (\<forall>sg. dl_staking_unbonding_sig d = Some sg \<longrightarrow> (\<exists>m. Delegation_staking_unbonding_sighash L d params = Ok m \<and> verify_schnorr L sg m (dl_btc_key d)))
   \<and> (\<forall>sg. dl_unbonding_withdrawal_sig d = Some sg \<longrightarrow> (\<exists>m. Delegation_unbonding_withdrawal_sighash L d params = Ok m \<and> verify_schnorr L sg m (dl_btc_key d)))"

text \<open>A delegation is in the unbonding queue for its maturity once confirmed; it is in the other one while staked.\<close>

definition queued :: "delegation_queue \<Rightarrow> delegation_queue \<Rightarrow> delegation \<Rightarrow> bool" where
  "queued staked unbonding d \<longleftrightarrow>
     (\<forall>h. (h, dl_owner d, dl_index d) \<in> fst ` set unbonding \<longleftrightarrow>
        (\<exists>uh. dl_unbonding_height d = Some uh \<and> h = uh + dl_unbonding_period d \<and> h < 2 ^ 32))
   \<and> (dl_unbonding_height d \<noteq> None \<longrightarrow> the (dl_unbonding_height d) + dl_unbonding_period d < 2 ^ 32)
   \<and> (\<forall>h. (h, dl_owner d, dl_index d) \<in> fst ` set staked \<longrightarrow> dl_staking_height d = Some h)
   \<and> (Delegation_status d = Ok Staked \<longrightarrow> (the (dl_staking_height d), dl_owner d, dl_index d) \<in> fst ` set staked)"

definition env_ok :: "'m tap_lib_scheme \<Rightarrow> params \<Rightarrow> del_env \<Rightarrow> bool" where
  "env_ok L params e \<longleftrightarrow> stages (de_del e) \<and> asked L params (de_frost e) (de_del e) \<and> sigs_valid L params (de_del e)
     \<and> queued (de_staked e) (de_unbonding e) (de_del e)"

fun status_rank :: "delegation_status \<Rightarrow> nat" where
  "status_rank Created = 0" | "status_rank Staked = 1" | "status_rank SigningUnbond = 2"
| "status_rank SignedUnbond = 3" | "status_rank ConfirmedUnbond = 4" | "status_rank Withdrawn = 5"

definition stage :: "delegation \<Rightarrow> nat" where
  "stage d = (case Delegation_status d of Ok st \<Rightarrow> status_rank st | Err _ \<Rightarrow> 0)"

text \<open>What never changes of a delegation.\<close>

definition fixed_part :: "delegation \<Rightarrow> u64 \<times> identity \<times> dest \<times> xonly \<times> u64 \<times> xonly list \<times> u16 \<times> u16 \<times> (u32 \<times> u64) \<times> u64" where
  "fixed_part d = (dl_index d, dl_owner d, dl_return_dest d, dl_btc_key d, dl_frost_group d, dl_fp_keys d, dl_staking_period d,
     dl_unbonding_period d, dl_checkpoint_batch_index d, dl_stake d)"

definition own_entries_only :: "delegation \<Rightarrow> delegation_queue \<Rightarrow> delegation_queue \<Rightarrow> bool" where
  "own_entries_only d q q' \<longleftrightarrow> (\<forall>h o' i. (o', i) \<noteq> (dl_owner d, dl_index d) \<longrightarrow> ((h, o', i) \<in> fst ` set q' \<longleftrightarrow> (h, o', i) \<in> fst ` set q))"

definition in_order :: "'m bab_lib_scheme \<Rightarrow> delegation_queue \<Rightarrow> bool" where
  "in_order L q \<longleftrightarrow> sorted (map (queue_order L \<circ> fst) q)"

definition ahead :: "delegation \<Rightarrow> delegation \<Rightarrow> bool" where
  "ahead d d' \<longleftrightarrow> fixed_part d' = fixed_part d \<and> stage d \<le> stage d' \<and> (dl_requested_unbond d \<longrightarrow> dl_requested_unbond d')"

lemma ahead_refl [simp]: "ahead d d" and ahead_trans: "ahead d d' \<Longrightarrow> ahead d' d'' \<Longrightarrow> ahead d d''"
  by (auto simp: ahead_def)

definition moved :: "'m bab_lib_scheme \<Rightarrow> del_env \<Rightarrow> del_env \<Rightarrow> bool" where
  "moved L e e' \<longleftrightarrow> ahead (de_del e) (de_del e') \<and> frost_extends (de_frost e) (de_frost e') \<and> de_btc e' = de_btc e
     \<and> own_entries_only (de_del e) (de_staked e) (de_staked e') \<and> own_entries_only (de_del e) (de_unbonding e) (de_unbonding e')
     \<and> (in_order L (de_unbonding e) \<longrightarrow> in_order L (de_unbonding e'))"

locale delegation_method =
  fixes L :: "'m bab_lib_scheme" and params :: params and meth :: "(del_env, unit) call"
  assumes forward: "meth e = (Ok u, e') \<Longrightarrow> env_ok L params e \<Longrightarrow> env_ok L params e' \<and> moved L e e'"

section \<open>The methods keep the contract\<close>

lemma frost_extends_refl [simp]: "frost_extends fr fr" and own_entries_refl [simp]: "own_entries_only d q q"
  by (simp_all add: frost_extends_def own_entries_only_def)

lemma own_entriesD:
  "own_entries_only d q q' \<Longrightarrow> (o', i) \<noteq> (dl_owner d, dl_index d) \<Longrightarrow> (h, o', i) \<in> fst ` set q' \<longleftrightarrow> (h, o', i) \<in> fst ` set q"
  by (simp add: own_entries_only_def)

lemma frost_extends_trans: "frost_extends a b \<Longrightarrow> frost_extends b c \<Longrightarrow> frost_extends a c"
  unfolding frost_extends_def by (metis append.assoc)

lemma moved_refl [simp]: "moved L e e"
  by (simp add: moved_def)

lemma moved_trans: "moved L a b \<Longrightarrow> moved L b c \<Longrightarrow> moved L a c"
  unfolding moved_def own_entries_only_def ahead_def fixed_part_def by (auto intro: frost_extends_trans)

lemma status_of_stages:
  "stages d \<Longrightarrow> Delegation_status d =
     Ok (if dl_unbonding_height d \<noteq> None then ConfirmedUnbond else if dl_unbonding_withdrawal_sig d \<noteq> None then SignedUnbond
         else if dl_withdrawal_script_pubkey d \<noteq> None then SigningUnbond else if dl_staking_outpoint d \<noteq> None then Staked else Created)"
  by (simp add: Delegation_status_def stages_def)

lemma asked_extends: "asked L params fr d \<Longrightarrow> frost_extends fr fr' \<Longrightarrow> asked L params fr' d"
  unfolding asked_def frost_extends_def by (metis (no_types, lifting) Suc_lessD length_append nth_append trans_less_add1)

lemma sorted_omap_insert: "sorted (map (f \<circ> fst) m) \<Longrightarrow> sorted (map (f \<circ> fst) (omap_insert f k v m))"
proof (induction f k v m rule: omap_insert.induct)
  case (2 f k v k' v' m)
  have "f k' \<le> y" if "\<not> f k < f k'" "y \<in> f ` fst ` set (omap_insert f k v m)" for y
    using that 2(2) by (auto simp: keys_omap_insert)
  with 2 show ?case by (auto simp: image_image)
qed simp

lemma sorted_filter_fst: "sorted (map f m) \<Longrightarrow> sorted (map f (filter P m))"
  by (induction m) auto

lemma in_order_intros:
  "in_order L q \<Longrightarrow> in_order L (omap_insert (queue_order L) k v q)" "in_order L q \<Longrightarrow> in_order L (omap_remove k q)"
  by (simp_all add: in_order_def omap_remove_def sorted_omap_insert sorted_filter_fst)

lemma keys_omap_remove: "fst ` set (omap_remove k m) = fst ` set m - {k}"
  by (force simp: omap_remove_def)

lemma messages_push:
  assumes "g < length fr"
  shows "messages (fr[g := (fr ! g)\<lparr>fg_signing := fg_signing (fr ! g) @ ss\<rparr>]) g' = messages fr g' @ (if g' = g then map si_message ss else [])"
  using assms by (auto simp: messages_def nth_list_update)

lemma stage_simps:
  "stages d \<Longrightarrow> stage d = (if dl_unbonding_height d \<noteq> None then 4 else if dl_unbonding_withdrawal_sig d \<noteq> None then 3
     else if dl_withdrawal_script_pubkey d \<noteq> None then 2 else if dl_staking_outpoint d \<noteq> None then 1 else 0)"
  by (simp add: stage_def status_of_stages)

lemma unbond_forward:
  assumes "Delegation_unbond L C params e = (Ok u, e')" and "env_ok L params e"
  shows "env_ok L params e' \<and> moved L e e'"
proof (rule unbond_Ok [OF assms(1)])
  fix sigset script m1 m2 now group d'
  assume a: "Delegation_status (de_del e) = Ok Staked" "dl_frost_group (de_del e) < length (de_frost e)"
    "group = de_frost e ! dl_frost_group (de_del e)"
    and d': "d' = (de_del e)\<lparr>dl_withdrawal_sigset_index := Some (ss_index sigset), dl_withdrawal_script_pubkey := Some script,
       dl_frost_sig_offset := Some (length (fg_signing group))\<rparr>"
    and m: "Delegation_unbonding_withdrawal_sighash L d' params = Ok m1" "Delegation_staking_unbonding_sighash L d' params = Ok m2"
    and e': "e' = e\<lparr>de_del := d', de_frost := (de_frost e)[dl_frost_group (de_del e) := group\<lparr>fg_signing :=
         fg_signing group @ [Signing_new (fg_config group) m1 now, Signing_new (fg_config group) m2 now]\<rparr>]\<rparr>"
  let ?d = "de_del e"
  have st: "stages ?d" and q: "queued (de_staked e) (de_unbonding e) ?d" using assms(2) by (simp_all add: env_ok_def)
  have st': "stages d'" using st a(1) by (auto simp: d' stages_def status_iff)
  have msgs: "messages (de_frost e') g = messages (de_frost e) g @ (if g = dl_frost_group ?d then [m1, m2] else [])" for g
    using messages_push [OF a(2)] by (simp add: e' a(3) Signing_new_def)
  have "length (messages (de_frost e) (dl_frost_group ?d)) = length (fg_signing group)" using a by (simp add: messages_def)
  then have "asked L params (de_frost e') d'" unfolding asked_def msgs using m by (auto simp: d' nth_append)
  moreover have "sigs_valid L params d'" using st a(1) by (auto simp: sigs_valid_def d' stages_def status_iff)
  moreover have "queued (de_staked e) (de_unbonding e) d'"
    using q st' a(1) by (auto simp: queued_def status_of_stages d' status_iff)
  ultimately have ok: "env_ok L params e'" using st' by (simp add: env_ok_def e')
  have "frost_extends (de_frost e) (de_frost e')" using msgs by (auto simp: frost_extends_def)
  moreover have "stage ?d \<le> stage d'" using st st' a(1) by (simp add: stage_simps d' status_iff)
  ultimately have "moved L e e'" by (simp add: moved_def ahead_def e' d' fixed_part_def)
  with ok show ?thesis by blast
qed

interpretation unbond: delegation_method L params "Delegation_unbond L C params" for L C params
  by unfold_locales (rule unbond_forward)

lemma relay_staking_Ok:
  assumes "Delegation_relay_staking_tx L C headers height merkle_proof tx vout params e = (Ok u, e')"
  obtains d' e1 where "Delegation_status (de_del e) = Ok Created" "check_relayed_tx L headers ''Staking tx is not confirmed'' params height merkle_proof tx = Ok ()"
    "vout < length (tr_output tx)" "to_value (tr_output tx ! vout) = Delegation_stake_sats (de_del e)"
    "Delegation_staking_script L (de_del e) params = Ok (to_script_pubkey (tr_output tx ! vout))"
    "d' = (de_del e)\<lparr>dl_staking_outpoint := Some (tx_txid L tx, vout), dl_staking_height := Some height\<rparr>"
    "e1 = e\<lparr>de_del := d', de_staked := omap_insert (queue_order L) (height, dl_owner d', dl_index d') () (de_staked e)\<rparr>"
    "if dl_requested_unbond d' then Delegation_unbond L C params e1 = (Ok u, e') else e' = e1"
  using assms by (auto simp: Delegation_relay_staking_tx_def Let_def split: if_split_asm)

lemma relay_staking_forward:
  assumes "Delegation_relay_staking_tx L C headers height merkle_proof tx vout params e = (Ok u, e')" and "env_ok L params e"
  shows "env_ok L params e' \<and> moved L e e'"
proof (rule relay_staking_Ok [OF assms(1)])
  fix d' e1
  assume c: "Delegation_status (de_del e) = Ok Created"
    and d': "d' = (de_del e)\<lparr>dl_staking_outpoint := Some (tx_txid L tx, vout), dl_staking_height := Some height\<rparr>"
    and e1: "e1 = e\<lparr>de_del := d', de_staked := omap_insert (queue_order L) (height, dl_owner d', dl_index d') () (de_staked e)\<rparr>"
    and rest: "if dl_requested_unbond d' then Delegation_unbond L C params e1 = (Ok u, e') else e' = e1"
  have st: "stages (de_del e)" and q: "queued (de_staked e) (de_unbonding e) (de_del e)" using assms(2) by (simp_all add: env_ok_def)
  have st': "stages d'" using st c by (auto simp: d' stages_def status_iff)
  have "queued (de_staked e1) (de_unbonding e1) d'"
    using q c by (auto simp: queued_def d' e1 status_iff keys_omap_insert)
  moreover have "asked L params (de_frost e1) d'" "sigs_valid L params d'" using st c by (auto simp: asked_def sigs_valid_def d' stages_def status_iff)
  ultimately have ok: "env_ok L params e1" using st' by (simp add: env_ok_def e1)
  have "stage (de_del e) \<le> stage d'" using st st' c by (simp add: stage_simps d' status_iff)
  then have mv: "moved L e e1"
    by (auto simp: moved_def ahead_def e1 d' fixed_part_def own_entries_only_def keys_omap_insert)
  show ?thesis
    using rest ok mv unbond_forward [of L C params e1 u e'] by (auto split: if_split_asm intro: moved_trans)
qed

interpretation relay_staking: delegation_method L params "Delegation_relay_staking_tx L C headers height merkle_proof tx vout params"
  for L C headers height merkle_proof tx vout params
  by unfold_locales (rule relay_staking_forward)

lemma env_ok_request:
  assumes "env_ok L params e"
  shows "env_ok L params (e\<lparr>de_del := (de_del e)\<lparr>dl_requested_unbond := True\<rparr>\<rparr>) \<and> moved L e (e\<lparr>de_del := (de_del e)\<lparr>dl_requested_unbond := True\<rparr>\<rparr>)"
proof -
  let ?d = "(de_del e)\<lparr>dl_requested_unbond := True\<rparr>"
  have same: "Delegation_status ?d = Delegation_status (de_del e)" by (simp add: Delegation_status_def)
  have "signed_part ?d = signed_part (de_del e)" by (simp add: signed_part_def)
  note part = sighash_cong [OF this]
  have "stages ?d = stages (de_del e)" "asked L params (de_frost e) ?d = asked L params (de_frost e) (de_del e)"
    "sigs_valid L params ?d = sigs_valid L params (de_del e)"
    "queued (de_staked e) (de_unbonding e) ?d = queued (de_staked e) (de_unbonding e) (de_del e)"
    by (simp_all add: stages_def asked_def sigs_valid_def queued_def part same)
  with assms show ?thesis by (simp add: env_ok_def moved_def ahead_def fixed_part_def stage_def same)
qed

lemma request_unbond_forward:
  assumes "Delegation_request_unbond L C params e = (Ok u, e')" and "env_ok L params e"
  shows "env_ok L params e' \<and> moved L e e'"
proof -
  let ?e = "e\<lparr>de_del := (de_del e)\<lparr>dl_requested_unbond := True\<rparr>\<rparr>"
  have "e' = ?e \<or> Delegation_unbond L C params ?e = (Ok u, e')"
    using assms(1) by (auto simp: Delegation_request_unbond_def split: if_split_asm delegation_status.split_asm)
      (metis delegation_status.exhaust)
  with env_ok_request [OF assms(2)] show ?thesis using unbond_forward [of L C params ?e u e'] by (auto intro: moved_trans)
qed

interpretation request_unbond: delegation_method L params "Delegation_request_unbond L C params" for L C params
  by unfold_locales (rule request_unbond_forward)

lemma sign_unbond_forward:
  assumes "Delegation_sign_unbond L sg1 sg2 params e = (Ok u, e')" and "env_ok L params e"
  shows "env_ok L params e' \<and> moved L e e'"
proof -
  let ?d = "de_del e" and ?d' = "(de_del e)\<lparr>dl_staking_unbonding_sig := Some sg1, dl_unbonding_withdrawal_sig := Some sg2\<rparr>"
  have part: "signed_part ?d' = signed_part ?d" "signed_part (?d\<lparr>dl_staking_unbonding_sig := Some sg1\<rparr>) = signed_part ?d"
    by (simp_all add: signed_part_def)
  from assms(1) obtain key m1 m2 where status: "Delegation_status ?d = Ok SigningUnbond" and key: "Delegation_btc_key L ?d = Ok key"
    and m: "Delegation_staking_unbonding_sighash L ?d params = Ok m1" "Delegation_unbonding_withdrawal_sighash L ?d params = Ok m2"
    and v: "verify_unbond_sig L key m1 sg1 = Ok ()" "verify_unbond_sig L key m2 sg2 = Ok ()" and e': "e' = e\<lparr>de_del := ?d'\<rparr>"
    by (auto simp: Delegation_sign_unbond_def sighash_cong [OF part(2)] split: if_split_asm)
  have st: "stages ?d" and q: "queued (de_staked e) (de_unbonding e) ?d" using assms(2) by (simp_all add: env_ok_def)
  have none: "dl_unbonding_height ?d = None" "dl_unbonding_withdrawal_sig ?d = None" "dl_withdrawal_script_pubkey ?d \<noteq> None"
    using status st by (auto simp: status_of_stages split: if_split_asm)
  have st': "stages ?d'" using st none by (auto simp: stages_def)
  have "sigs_valid L params ?d'"
    using v m key by (auto simp: sigs_valid_def sighash_cong [OF part(1)] verify_unbond_sig_def Delegation_btc_key_def bytes_to_pubkey_def)
  moreover have "asked L params (de_frost e) ?d'"
    using assms(2) by (simp add: env_ok_def asked_def sighash_cong [OF part(1)])
  moreover have "queued (de_staked e) (de_unbonding e) ?d'"
    using q st' none by (auto simp: queued_def status_of_stages)
  ultimately have "env_ok L params e'" using st' by (simp add: env_ok_def e')
  moreover have "moved L e e'" using st st' none by (simp add: moved_def ahead_def e' fixed_part_def stage_simps)
  ultimately show ?thesis by blast
qed

interpretation sign_unbond: delegation_method L params "Delegation_sign_unbond L sg1 sg2 params" for L sg1 sg2 params
  by unfold_locales (rule sign_unbond_forward)

lemma relay_unbonding_Ok:
  assumes "Delegation_relay_unbonding_tx L headers height merkle_proof tx params e = (Ok u, e')"
  obtains d' staking_height expected where "Delegation_status (de_del e) = Ok SignedUnbond"
    "check_relayed_tx L headers ''Unbonding tx is not confirmed'' params height merkle_proof tx = Ok ()"
    "Delegation_unbonding_tx L (de_del e) params = Ok expected" "tx_txid L tx = tx_txid L expected"
    "d' = (de_del e)\<lparr>dl_unbonding_height := Some height\<rparr>" "height + dl_unbonding_period d' < 2 ^ 32" "dl_staking_height d' = Some staking_height"
    "e' = e\<lparr>de_del := d', de_unbonding := omap_insert (queue_order L) (height + dl_unbonding_period d', dl_owner d', dl_index d') () (de_unbonding e),
       de_staked := omap_remove (staking_height, dl_owner d', dl_index d') (de_staked e)\<rparr>"
  using assms by (auto simp: Delegation_relay_unbonding_tx_def add_w_def split: if_split_asm)

lemma relay_unbonding_forward:
  assumes "Delegation_relay_unbonding_tx L headers height merkle_proof tx params e = (Ok u, e')" and "env_ok L params e"
  shows "env_ok L params e' \<and> moved L e e'"
proof (rule relay_unbonding_Ok [OF assms(1)])
  fix d' staking_height
  let ?d = "de_del e"
  assume status: "Delegation_status ?d = Ok SignedUnbond" and d': "d' = ?d\<lparr>dl_unbonding_height := Some height\<rparr>"
    and b: "height + dl_unbonding_period d' < 2 ^ 32" and h: "dl_staking_height d' = Some staking_height"
    and e': "e' = e\<lparr>de_del := d', de_unbonding := omap_insert (queue_order L) (height + dl_unbonding_period d', dl_owner d', dl_index d') () (de_unbonding e),
       de_staked := omap_remove (staking_height, dl_owner d', dl_index d') (de_staked e)\<rparr>"
  have st: "stages ?d" and q: "queued (de_staked e) (de_unbonding e) ?d" using assms(2) by (simp_all add: env_ok_def)
  have marks: "dl_unbonding_height ?d = None" "dl_unbonding_withdrawal_sig ?d \<noteq> None"
    using status st by (auto simp: status_of_stages split: if_split_asm)
  have st': "stages d'" using st marks by (auto simp: stages_def d')
  have part: "signed_part d' = signed_part ?d" by (simp add: signed_part_def d')
  have "asked L params (de_frost e) d'" "sigs_valid L params d'"
    using assms(2) by (simp_all add: env_ok_def asked_def sigs_valid_def sighash_cong [OF part]) (simp_all add: d')
  moreover have "queued (de_staked e') (de_unbonding e') d'"
    using q st' marks b by (auto simp: queued_def status_of_stages e' d' keys_omap_insert keys_omap_remove)
  ultimately have "env_ok L params e'" using st' by (simp add: env_ok_def e')
  moreover have "moved L e e'"
    using st st' marks
    by (auto simp: moved_def ahead_def e' d' fixed_part_def stage_simps own_entries_only_def keys_omap_insert keys_omap_remove in_order_intros)
  ultimately show ?thesis by blast
qed

interpretation relay_unbonding: delegation_method L params "Delegation_relay_unbonding_tx L headers height merkle_proof tx params"
  for L headers height merkle_proof tx params
  by unfold_locales (rule relay_unbonding_forward)

section \<open>The module\<close>

definition env_of :: "bab_world \<Rightarrow> identity \<Rightarrow> nat \<Rightarrow> del_env" where
  "env_of w owner i = \<lparr>de_del = owner_delegations owner w ! i, de_staked = bn_staked (bw_babylon w), de_unbonding = bn_unbonding (bw_babylon w),
     de_frost = bw_frost w, de_btc = bw_bitcoin w\<rparr>"

definition world_ok :: "'m bab_lib_scheme \<Rightarrow> bab_world \<Rightarrow> bool" where
  "world_ok L w \<longleftrightarrow>
     (\<forall>owner i. i < length (owner_delegations owner w) \<longrightarrow> dl_owner (owner_delegations owner w ! i) = owner \<and> dl_index (owner_delegations owner w ! i) = i
        \<and> env_ok L (bn_params (bw_babylon w)) (env_of w owner i))
   \<and> (\<forall>h owner i. (h, owner, i) \<in> fst ` set (bn_staked (bw_babylon w)) \<union> fst ` set (bn_unbonding (bw_babylon w))
        \<longrightarrow> i < length (owner_delegations owner w))
   \<and> in_order L (bn_unbonding (bw_babylon w))"

definition advanced :: "bab_world \<Rightarrow> bab_world \<Rightarrow> bool" where
  "advanced w w' \<longleftrightarrow> bn_params (bw_babylon w') = bn_params (bw_babylon w)
     \<and> (\<forall>owner i. i < length (owner_delegations owner w) \<longrightarrow> i < length (owner_delegations owner w')
        \<and> ahead (owner_delegations owner w ! i) (owner_delegations owner w' ! i))"

lemma advanced_refl [simp]: "advanced w w"
  by (simp add: advanced_def)

lemma advancedD:
  "advanced w w' \<Longrightarrow> i < length (owner_delegations owner w) \<Longrightarrow>
     i < length (owner_delegations owner w') \<and> ahead (owner_delegations owner w ! i) (owner_delegations owner w' ! i)"
  by (simp add: advanced_def)

lemma advanced_params: "advanced w w' \<Longrightarrow> bn_params (bw_babylon w') = bn_params (bw_babylon w)"
  by (simp add: advanced_def)

lemma advanced_trans:
  assumes "advanced a b" and "advanced b c"
  shows "advanced a c"
  unfolding advanced_def [of a c]
proof (intro conjI allI impI)
  show "bn_params (bw_babylon c) = bn_params (bw_babylon a)" using assms by (simp add: advanced_params)
next
  fix owner i
  assume "i < length (owner_delegations owner a)"
  then have b: "i < length (owner_delegations owner b) \<and> ahead (owner_delegations owner a ! i) (owner_delegations owner b ! i)"
    by (rule advancedD [OF assms(1)])
  then show "i < length (owner_delegations owner c)" using advancedD [OF assms(2)] by blast
  show "ahead (owner_delegations owner a ! i) (owner_delegations owner c ! i)"
    using b advancedD [OF assms(2), of i owner] by (auto intro: ahead_trans)
qed

lemma world_okD:
  assumes "world_ok L w" and "i < length (owner_delegations owner w)"
  shows "dl_owner (owner_delegations owner w ! i) = owner" "dl_index (owner_delegations owner w ! i) = i"
    "env_ok L (bn_params (bw_babylon w)) (env_of w owner i)"
  using assms by (auto simp: world_ok_def)

lemma world_ok_keyD:
  "world_ok L w \<Longrightarrow> (h, owner, i) \<in> fst ` set (bn_staked (bw_babylon w)) \<union> fst ` set (bn_unbonding (bw_babylon w))
     \<Longrightarrow> i < length (owner_delegations owner w)"
  unfolding world_ok_def by blast

lemma with_delegation_Ok:
  assumes "with_delegation L no_owner no_index owner i f w = (Ok x, w')"
  obtains e' where "i < length (owner_delegations owner w)" "f (env_of w owner i) = (Ok x, e')"
    "\<And>owner'. owner_delegations owner' w' = (if owner' = owner then (owner_delegations owner w)[i := de_del e'] else owner_delegations owner' w)"
    "bn_params (bw_babylon w') = bn_params (bw_babylon w)" "bn_staked (bw_babylon w') = de_staked e'"
    "bn_unbonding (bw_babylon w') = de_unbonding e'" "bw_frost w' = de_frost e'" "bw_bitcoin w' = de_btc e'"
  using assms
  by (auto simp: with_delegation_def Let_def owner_delegations_def env_of_def split: option.split_asm if_split_asm prod.split_asm)

text \<open>A delegation that a method does not work on keeps what is known of it.\<close>

lemma env_ok_others:
  assumes "env_ok L params e" and "moved L e0 e'" and "(dl_owner (de_del e), dl_index (de_del e)) \<noteq> (dl_owner (de_del e0), dl_index (de_del e0))"
    and "de_frost e = de_frost e0" "de_staked e = de_staked e0" "de_unbonding e = de_unbonding e0"
  shows "env_ok L params (e\<lparr>de_frost := de_frost e', de_staked := de_staked e', de_unbonding := de_unbonding e', de_btc := btc\<rparr>)"
proof -
  have "asked L params (de_frost e') (de_del e)" using assms by (auto simp: env_ok_def moved_def intro: asked_extends)
  moreover have "queued (de_staked e') (de_unbonding e') (de_del e)"
    using assms by (auto simp: env_ok_def moved_def queued_def own_entries_only_def)
  ultimately show ?thesis using assms(1) by (simp add: env_ok_def)
qed

context delegation_method
begin

lemma world_forward:
  assumes run: "with_delegation L no_owner no_index owner i meth w = (Ok u, w')" and ok: "world_ok L w"
    and params: "bn_params (bw_babylon w) = params"
  shows "world_ok L w' \<and> advanced w w'"
proof (rule with_delegation_Ok [OF run])
  fix e'
  let ?e = "env_of w owner i"
  assume i: "i < length (owner_delegations owner w)" and f: "meth ?e = (Ok u, e')"
    and dels: "\<And>owner'. owner_delegations owner' w' = (if owner' = owner then (owner_delegations owner w)[i := de_del e'] else owner_delegations owner' w)"
    and w': "bn_params (bw_babylon w') = bn_params (bw_babylon w)" "bn_staked (bw_babylon w') = de_staked e'"
      "bn_unbonding (bw_babylon w') = de_unbonding e'" "bw_frost w' = de_frost e'" "bw_bitcoin w' = de_btc e'"
  have name: "dl_owner (de_del ?e) = owner" "dl_index (de_del ?e) = i" using ok i by (auto simp: world_ok_def env_of_def)
  have "env_ok L params ?e" using ok i params by (auto simp: world_ok_def)
  from forward [OF f this] have e': "env_ok L params e'" and mv: "moved L ?e e'" by auto
  have name': "dl_owner (de_del e') = owner" "dl_index (de_del e') = i" using mv name by (auto simp: moved_def ahead_def fixed_part_def)
  have one: "dl_owner (owner_delegations o' w' ! j) = o' \<and> dl_index (owner_delegations o' w' ! j) = j \<and> env_ok L params (env_of w' o' j)"
    if j: "j < length (owner_delegations o' w')" for o' j
  proof (cases "o' = owner \<and> j = i")
    case True
    then have "env_of w' o' j = e'" using i by (simp add: env_of_def dels w')
    with e' True name' show ?thesis by (metis del_env.select_convs(1) env_of_def)
  next
    case False
    then have same: "owner_delegations o' w' ! j = owner_delegations o' w ! j" and j': "j < length (owner_delegations o' w)"
      using j by (auto simp: dels split: if_split_asm)
    then have j_ok: "dl_owner (owner_delegations o' w ! j) = o'" "dl_index (owner_delegations o' w ! j) = j" "env_ok L params (env_of w o' j)"
      using ok params by (auto simp: world_ok_def)
    have "env_ok L params ((env_of w o' j)\<lparr>de_frost := de_frost e', de_staked := de_staked e', de_unbonding := de_unbonding e', de_btc := de_btc e'\<rparr>)"
      using j_ok False name by (intro env_ok_others [OF _ mv]) (auto simp: env_of_def)
    with j_ok same show ?thesis by (simp add: env_of_def w')
  qed
  have keys: "j < length (owner_delegations o' w')" if "(h, o', j) \<in> fst ` set (de_staked e') \<union> fst ` set (de_unbonding e')" for h o' j
  proof (cases "(o', j) = (owner, i)")
    case False
    then have "(o', j) \<noteq> (dl_owner (de_del ?e), dl_index (de_del ?e))" using name by simp
    moreover have "own_entries_only (de_del ?e) (de_staked ?e) (de_staked e')" "own_entries_only (de_del ?e) (de_unbonding ?e) (de_unbonding e')"
      using mv by (simp_all add: moved_def)
    ultimately have "(h, o', j) \<in> fst ` set (de_staked ?e) \<union> fst ` set (de_unbonding ?e)" using that own_entriesD by fast
    then have "j < length (owner_delegations o' w)" by (intro world_ok_keyD [OF ok]) (simp add: env_of_def)
    then show ?thesis by (auto simp: dels)
  qed (use i in \<open>simp add: dels\<close>)
  have "in_order L (de_unbonding e')" using mv ok by (auto simp: moved_def world_ok_def env_of_def)
  then have "world_ok L w'" using one keys by (simp add: world_ok_def w' params)
  moreover have "advanced w w'" using mv i by (auto simp: advanced_def w' dels nth_list_update moved_def env_of_def)
  ultimately show ?thesis by blast
qed

end

section \<open>The step\<close>

text \<open>No matured delegation can be withdrawn: the check of \<open>can_withdraw\<close> asks for the opposite of the condition of the queue.\<close>

lemma withdraw_blocked:
  assumes ok: "world_ok L w" and key: "(h, owner, i) \<in> fst ` set (bn_unbonding (bw_babylon w))"
    and due: "h \<le> HeaderQueue_height (bc_headers (bw_bitcoin w))"
  shows "fst (with_delegation L no_owner no_index owner i (Delegation_withdraw L params) w) = Err (App ''Unbonding period not over'')"
proof -
  let ?e = "env_of w owner i"
  have i: "i < length (owner_delegations owner w)" using world_ok_keyD [OF ok] key by blast
  note d = world_okD [OF ok i]
  have st: "stages (de_del ?e)" and q: "queued (de_staked ?e) (de_unbonding ?e) (de_del ?e)" using d(3) by (simp_all add: env_ok_def)
  then obtain uh where uh: "dl_unbonding_height (de_del ?e) = Some uh" "h = uh + dl_unbonding_period (de_del ?e)" "h < 2 ^ 32"
    using key d(1,2) by (auto simp: queued_def env_of_def)
  then have "Delegation_status (de_del ?e) = Ok ConfirmedUnbond" using st by (simp add: status_of_stages)
  moreover have "Delegation_can_withdraw (de_btc ?e) (de_del ?e) = Ok False"
    using uh due calculation by (simp add: Delegation_can_withdraw_def add_w_def env_of_def)
  ultimately have "Delegation_withdraw L params ?e = (Err (App ''Unbonding period not over''), ?e)"
    by (simp add: Delegation_withdraw_def cbind_def reads_def lift_result_def)
  moreover obtain dels where "map_of (bn_delegations (bw_babylon w)) owner = Some dels" "owner_delegations owner w = dels"
    using i by (cases "map_of (bn_delegations (bw_babylon w)) owner") (simp_all add: owner_delegations_def)
  ultimately show ?thesis using i by (simp add: with_delegation_def env_of_def Let_def)
qed

lemma process_unbonding_Err:
  assumes "world_ok L w" and "set (key # keys) \<subseteq> fst ` set (bn_unbonding (bw_babylon w))"
    and "fst key \<le> HeaderQueue_height (bc_headers (bw_bitcoin w))"
  shows "fst (process_entries L unbonding_due (Delegation_withdraw L) (key # keys) w) = Err (App ''Unbonding period not over'')"
proof -
  obtain h owner i where key: "key = (h, owner, i)" by (cases key)
  have "fst (with_delegation L (App ''Delegation not found'') (App ''Delegation not found'') owner i
      (Delegation_withdraw L (bn_params (bw_babylon w))) w) = Err (App ''Unbonding period not over'')"
    using assms by (intro withdraw_blocked) (auto simp: key)
  then obtain w1 where "with_delegation L (App ''Delegation not found'') (App ''Delegation not found'') owner i
      (Delegation_withdraw L (bn_params (bw_babylon w))) w = (Err (App ''Unbonding period not over''), w1)"
    by (metis prod.collapse)
  then show ?thesis using assms(3) by (simp add: key cbind_def reads_def lift_result_def unbonding_due_def)
qed

lemma process_unbonding_Ok:
  assumes "world_ok L w" and "set keys \<subseteq> fst ` set (bn_unbonding (bw_babylon w))"
    and "process_entries L unbonding_due (Delegation_withdraw L) keys w = (Ok ks, w')"
  shows "ks = [] \<and> w' = w"
proof (cases keys)
  case (Cons key rest)
  obtain h owner i where key: "key = (h, owner, i)" by (cases key)
  have "\<not> h \<le> HeaderQueue_height (bc_headers (bw_bitcoin w))"
    using process_unbonding_Err [of L w key rest] assms unfolding Cons by (auto simp: key simp del: process_entries.simps)
  then show ?thesis using assms(3) by (auto simp: Cons key unbonding_due_def split: if_split_asm)
qed (use assms(3) in simp)

lemma unbond_stage: "Delegation_unbond L C params e = (Ok u, e') \<Longrightarrow> env_ok L params e' \<Longrightarrow> 2 \<le> stage (de_del e')"
  by (erule unbond_Ok) (simp add: env_ok_def stage_simps)

lemma process_staked_Ok:
  assumes "process_entries L staked_due (Delegation_unbond L C) keys w = (Ok ks, w')" and "world_ok L w"
  shows "world_ok L w' \<and> advanced w w' \<and> (\<forall>(h, owner, i) \<in> set ks. i < length (owner_delegations owner w') \<and> 2 \<le> stage (owner_delegations owner w' ! i))"
  using assms
proof (induction keys arbitrary: w ks)
  case (Cons key keys)
  obtain h owner i where key: "key = (h, owner, i)" by (cases key)
  show ?case
  proof (cases "ks = []")
    case True
    then show ?thesis using Cons.prems by (auto simp: key split: if_split_asm)
  next
    case False
    then obtain w1 ks' where run: "with_delegation L (App ''Delegation not found'') (App ''Delegation not found'') owner i
        (Delegation_unbond L C (bn_params (bw_babylon w))) w = (Ok (), w1)"
      and rest: "process_entries L staked_due (Delegation_unbond L C) keys w1 = (Ok ks', w')" and ks: "ks = key # ks'"
      using Cons.prems by (auto simp: key split: if_split_asm)
    note w1 = unbond.world_forward [OF run Cons.prems(2) refl]
    from Cons.IH [OF rest] w1 have IH: "world_ok L w'" "advanced w1 w'"
      "\<forall>(h, owner, i) \<in> set ks'. i < length (owner_delegations owner w') \<and> 2 \<le> stage (owner_delegations owner w' ! i)" by auto
    have i: "i < length (owner_delegations owner w1) \<and> 2 \<le> stage (owner_delegations owner w1 ! i)"
    proof (rule with_delegation_Ok [OF run])
      fix e' assume i: "i < length (owner_delegations owner w)" and f: "Delegation_unbond L C (bn_params (bw_babylon w)) (env_of w owner i) = (Ok (), e')"
        and dels: "\<And>owner'. owner_delegations owner' w1 = (if owner' = owner then (owner_delegations owner w)[i := de_del e'] else owner_delegations owner' w)"
      have "env_ok L (bn_params (bw_babylon w)) e'"
        using unbond_forward [OF f world_okD(3) [OF Cons.prems(2) i]] by blast
      from unbond_stage [OF f this] i show ?thesis by (simp add: dels)
    qed
    then have "i < length (owner_delegations owner w') \<and> 2 \<le> stage (owner_delegations owner w' ! i)"
      using advancedD [OF IH(2), of i owner] by (auto simp: ahead_def)
    with IH w1 show ?thesis by (auto simp: ks key intro: advanced_trans)
  qed
qed simp

lemma keys_fold_remove: "fst ` set (fold omap_remove ks m) = fst ` set m - set ks"
  by (induction ks arbitrary: m) (auto simp: keys_omap_remove)

text \<open>An entry of a delegation that is past being staked may be dropped from its queue.\<close>

lemma world_ok_drop_staked:
  assumes ok: "world_ok L w" and past: "\<forall>(h, owner, i) \<in> set ks. 2 \<le> stage (owner_delegations owner w ! i)"
  shows "world_ok L (w\<lparr>bw_babylon := (bw_babylon w)\<lparr>bn_staked := fold omap_remove ks (bn_staked (bw_babylon w))\<rparr>\<rparr>)"
proof -
  let ?w = "w\<lparr>bw_babylon := (bw_babylon w)\<lparr>bn_staked := fold omap_remove ks (bn_staked (bw_babylon w))\<rparr>\<rparr>"
  have dels: "owner_delegations owner ?w = owner_delegations owner w" for owner by (simp add: owner_delegations_def)
  have "env_ok L (bn_params (bw_babylon w)) (env_of ?w owner i)" if i: "i < length (owner_delegations owner w)" for owner i
  proof -
    note d = world_okD [OF ok i]
    let ?d = "owner_delegations owner w ! i"
    have "(h, owner, i) \<notin> set ks" if "Delegation_status ?d = Ok Staked" for h
      using that past by (fastforce simp: stage_def)
    then have "queued (fold omap_remove ks (bn_staked (bw_babylon w))) (bn_unbonding (bw_babylon w)) ?d"
      using d by (auto simp: env_ok_def env_of_def queued_def keys_fold_remove)
    with d show ?thesis by (simp add: env_ok_def env_of_def dels)
  qed
  moreover have "i < length (owner_delegations owner w)"
    if "(h, owner, i) \<in> fst ` set (bn_staked (bw_babylon w)) - set ks \<union> fst ` set (bn_unbonding (bw_babylon w))" for h owner i
    using that world_ok_keyD [OF ok] by blast
  moreover have "in_order L (bn_unbonding (bw_babylon w))" using ok by (simp add: world_ok_def)
  ultimately show ?thesis using world_okD(1,2) [OF ok] unfolding world_ok_def [of L ?w] by (simp add: dels keys_fold_remove)
qed

lemma step_forward:
  assumes "Babylon_step L C w = (Ok u, w')" and "world_ok L w"
  shows "world_ok L w' \<and> advanced w w'"
proof -
  from assms(1) obtain ks w1 ks' w2 where a: "process_entries L unbonding_due (Delegation_withdraw L) (map fst (bn_unbonding (bw_babylon w))) w = (Ok ks, w1)"
    and b: "process_entries L staked_due (Delegation_unbond L C) (map fst (bn_staked (bw_babylon w1)))
      (w1\<lparr>bw_babylon := (bw_babylon w1)\<lparr>bn_unbonding := fold omap_remove ks (bn_unbonding (bw_babylon w1))\<rparr>\<rparr>) = (Ok ks', w2)"
    and w': "w' = w2\<lparr>bw_babylon := (bw_babylon w2)\<lparr>bn_staked := fold omap_remove ks' (bn_staked (bw_babylon w2))\<rparr>\<rparr>"
    by (auto simp: Babylon_step_def)
  have "ks = [] \<and> w1 = w" using process_unbonding_Ok [OF assms(2) _ a] by simp
  with b have "process_entries L staked_due (Delegation_unbond L C) (map fst (bn_staked (bw_babylon w))) w = (Ok ks', w2)" by simp
  from process_staked_Ok [OF this assms(2)] have "world_ok L w2" "advanced w w2"
    and past: "\<forall>(h, owner, i) \<in> set ks'. 2 \<le> stage (owner_delegations owner w2 ! i)" by auto
  moreover have "advanced w2 w'" by (simp add: w' advanced_def owner_delegations_def)
  ultimately show ?thesis using world_ok_drop_staked [of L w2 ks'] w' by (auto intro: advanced_trans)
qed

section \<open>Reachable states\<close>

lemma on_bw_bitcoin_Ok: "on_bw_bitcoin m w = (Ok a, w') \<longleftrightarrow> (\<exists>b. m (bw_bitcoin w) = (Ok a, b) \<and> w' = w\<lparr>bw_bitcoin := b\<rparr>)"
  by (auto simp: on_bw_bitcoin_def split: prod.splits)

lemma stake_Ok:
  assumes "Babylon_stake L owner return_dest fp staking_time nbtc w = (Ok index, w')"
  obtains btc d where "index = length (owner_delegations owner w)" "dl_owner d = owner" "dl_index d = index" "dl_stake d = nbtc"
    "dl_return_dest d = return_dest" "pm_min_staking_time (bn_params (bw_babylon w)) \<le> dl_staking_period d"
    "dl_staking_period d \<le> pm_max_staking_time (bn_params (bw_babylon w))"
    "Delegation_status d = Ok Created" "stages d" "dl_frost_sig_offset d = None" "dl_staking_unbonding_sig d = None"
    "dl_unbonding_withdrawal_sig d = None" "dl_unbonding_height d = None" "dl_requested_unbond d = False"
    "w' = w\<lparr>bw_bitcoin := btc, bw_babylon := (bw_babylon w)\<lparr>bn_delegations :=
       omap_insert (identity_order L) owner (owner_delegations owner w @ [d]) (bn_delegations (bw_babylon w))\<rparr>\<rparr>"
  using assms
  by (auto simp: Babylon_stake_def on_bw_bitcoin_Ok Delegation_new_def Delegation_status_def stages_def owner_delegations_def not_less
      intro!: that)

lemma stake_forward:
  assumes "Babylon_stake L owner return_dest fp staking_time nbtc w = (Ok index, w')" and ok: "world_ok L w"
  shows "world_ok L w' \<and> advanced w w'"
proof (rule stake_Ok [OF assms(1)])
  fix btc d
  assume index: "index = length (owner_delegations owner w)" and d: "dl_owner d = owner" "dl_index d = index"
    and st: "Delegation_status d = Ok Created" "stages d" "dl_frost_sig_offset d = None" "dl_staking_unbonding_sig d = None"
      "dl_unbonding_withdrawal_sig d = None" "dl_unbonding_height d = None"
    and w': "w' = w\<lparr>bw_bitcoin := btc, bw_babylon := (bw_babylon w)\<lparr>bn_delegations :=
       omap_insert (identity_order L) owner (owner_delegations owner w @ [d]) (bn_delegations (bw_babylon w))\<rparr>\<rparr>"
  have dels: "owner_delegations o' w' = owner_delegations o' w @ (if o' = owner then [d] else [])" for o'
    by (simp add: w' owner_delegations_def)
  have fresh: "(h, owner, index) \<notin> fst ` set (bn_staked (bw_babylon w)) \<union> fst ` set (bn_unbonding (bw_babylon w))" for h
    using world_ok_keyD [OF ok, of h owner index] index by auto
  have "queued (bn_staked (bw_babylon w)) (bn_unbonding (bw_babylon w)) d" using st fresh by (auto simp: queued_def d)
  moreover have "env_of w' owner index = \<lparr>de_del = d, de_staked = bn_staked (bw_babylon w), de_unbonding = bn_unbonding (bw_babylon w),
      de_frost = bw_frost w, de_btc = btc\<rparr>"
    unfolding env_of_def by (simp add: dels index) (simp add: w')
  ultimately have new: "env_ok L (bn_params (bw_babylon w)) (env_of w' owner index)"
    using st by (simp add: env_ok_def asked_def sigs_valid_def)
  have "dl_owner (owner_delegations o' w' ! i) = o' \<and> dl_index (owner_delegations o' w' ! i) = i \<and> env_ok L (bn_params (bw_babylon w)) (env_of w' o' i)"
    if i: "i < length (owner_delegations o' w')" for o' i
  proof (cases "i < length (owner_delegations o' w)")
    case True
    then have "env_of w' o' i = (env_of w o' i)\<lparr>de_btc := btc\<rparr>" unfolding env_of_def by (simp add: dels nth_append) (simp add: w')
    with world_okD [OF ok True] True show ?thesis by (simp add: env_ok_def dels nth_append)
  next
    case False
    with i have "o' = owner" "i = index" by (auto simp: dels index split: if_split_asm)
    with new d show ?thesis by (simp add: dels index)
  qed
  moreover have "i < length (owner_delegations o' w')"
    if "(h, o', i) \<in> fst ` set (bn_staked (bw_babylon w)) \<union> fst ` set (bn_unbonding (bw_babylon w))" for h o' i
    using world_ok_keyD [OF ok that] by (simp add: dels)
  moreover have "in_order L (bn_unbonding (bw_babylon w))" using ok by (simp add: world_ok_def)
  ultimately have "world_ok L w'" unfolding world_ok_def [of L w'] by (simp add: w')
  moreover have "advanced w w'" by (auto simp: advanced_def dels nth_append) (simp add: w')
  ultimately show ?thesis by blast
qed

text \<open>
  The calls and blocks of the module, and what happens beside it: the Bitcoin module may do anything, and
  the groups of FROST may do anything that keeps the messages they were asked to sign.
\<close>

inductive bab_step :: "'m bab_lib_scheme \<Rightarrow> bab_world \<Rightarrow> bab_world \<Rightarrow> bool" for L where
  stake: "Babylon_stake L owner return_dest fp staking_time nbtc w = (Ok index, w') \<Longrightarrow> bab_step L w w'"
| unstake: "Babylon_unstake L C owner i w = (Ok (), w') \<Longrightarrow> bab_step L w w'"
| relay_stake: "InnerApp_relay_btc_staking_tx L C owner i height merkle_proof tx vout w = (Ok (), w') \<Longrightarrow> bab_step L w w'"
| sign: "with_delegation L no_owner no_index owner i (Delegation_sign_unbond L sg1 sg2 (bn_params (bw_babylon w))) w = (Ok (), w') \<Longrightarrow> bab_step L w w'"
| relay_unbond: "InnerApp_relay_btc_unbonding_tx L C owner i height merkle_proof tx w = (Ok (), w') \<Longrightarrow> bab_step L w w'"
| block: "Babylon_step L C w = (Ok (), w') \<Longrightarrow> bab_step L w w'"
| beside: "frost_extends (bw_frost w) fr \<Longrightarrow> bab_step L w (w\<lparr>bw_frost := fr, bw_bitcoin := btc\<rparr>)"

inductive bab_reach :: "'m bab_lib_scheme \<Rightarrow> bab_world \<Rightarrow> bool" for L where
  start: "bn_delegations b = [] \<Longrightarrow> bn_staked b = [] \<Longrightarrow> bn_unbonding b = [] \<Longrightarrow> bab_reach L \<lparr>bw_babylon = b, bw_frost = fr, bw_bitcoin = btc\<rparr>"
| go: "bab_reach L w \<Longrightarrow> bab_step L w w' \<Longrightarrow> bab_reach L w'"

lemma world_ok_beside:
  assumes ok: "world_ok L w" and fr: "frost_extends (bw_frost w) fr"
  shows "world_ok L (w\<lparr>bw_frost := fr, bw_bitcoin := btc\<rparr>) \<and> advanced w (w\<lparr>bw_frost := fr, bw_bitcoin := btc\<rparr>)"
proof -
  let ?w = "w\<lparr>bw_frost := fr, bw_bitcoin := btc\<rparr>"
  have dels: "owner_delegations owner ?w = owner_delegations owner w" for owner by (simp add: owner_delegations_def)
  have "env_ok L (bn_params (bw_babylon w)) (env_of ?w owner i)" if i: "i < length (owner_delegations owner w)" for owner i
    using world_okD(3) [OF ok i] asked_extends [OF _ fr] by (auto simp: env_ok_def env_of_def dels)
  then have "world_ok L ?w" using ok unfolding world_ok_def by (simp add: dels)
  then show ?thesis by (simp add: advanced_def dels)
qed

lemma bab_step_forward:
  assumes "bab_step L w w'" and "world_ok L w"
  shows "world_ok L w' \<and> advanced w w'"
  using assms
proof (induction rule: bab_step.induct)
  case (unstake C owner i w w')
  then show ?case by (auto simp: Babylon_unstake_def dest!: request_unbond.world_forward)
next
  case (relay_stake C owner i height merkle_proof tx vout w w')
  then show ?case by (auto simp: InnerApp_relay_btc_staking_tx_def dest!: relay_staking.world_forward)
next
  case (relay_unbond C owner i height merkle_proof tx w w')
  then show ?case by (auto simp: InnerApp_relay_btc_unbonding_tx_def dest!: relay_unbonding.world_forward)
next
  case (stake owner return_dest fp staking_time nbtc w index w')
  then show ?case by (rule stake_forward)
next
  case (sign no_owner no_index owner i sg1 sg2 w w')
  then show ?case by (intro sign_unbond.world_forward) auto
next
  case (block C w w')
  then show ?case by (rule step_forward)
next
  case (beside w fr btc)
  then show ?case by (intro world_ok_beside)
qed

lemma bab_reach_ok: "bab_reach L w \<Longrightarrow> world_ok L w"
proof (induction rule: bab_reach.induct)
  case (start b fr btc)
  then show ?case by (simp add: world_ok_def owner_delegations_def in_order_def)
qed (use bab_step_forward in blast)

section \<open>What holds\<close>

text \<open>
  The life of a delegation goes one way. In every reachable state each delegation has a status (the
  assertion of \<open>status\<close> never fails), and no call, no block and nothing that happens beside the module takes a
  delegation back to an earlier status, changes its owner, destination, keys, periods or stake, or takes
  back a request to unbond.
\<close>

theorem delegations_move_forward:
  assumes "bab_reach L w" and "bab_step L w w'" and "i < length (owner_delegations owner w)"
  shows "i < length (owner_delegations owner w') \<and> (\<exists>st st'. Delegation_status (owner_delegations owner w ! i) = Ok st
    \<and> Delegation_status (owner_delegations owner w' ! i) = Ok st' \<and> status_rank st \<le> status_rank st'
    \<and> fixed_part (owner_delegations owner w' ! i) = fixed_part (owner_delegations owner w ! i)
    \<and> (dl_requested_unbond (owner_delegations owner w ! i) \<longrightarrow> dl_requested_unbond (owner_delegations owner w' ! i)))"
proof -
  have ok: "world_ok L w" using assms(1) by (rule bab_reach_ok)
  note step = bab_step_forward [OF assms(2) ok]
  note i = advancedD [OF conjunct2 [OF step] assms(3)]
  have "stages (owner_delegations owner w ! i)" "stages (owner_delegations owner w' ! i)"
    using world_okD(3) [OF ok assms(3)] world_okD(3) [OF conjunct1 [OF step], of i owner] i by (simp_all add: env_ok_def env_of_def)
  then obtain st st' where "Delegation_status (owner_delegations owner w ! i) = Ok st" "Delegation_status (owner_delegations owner w' ! i) = Ok st'"
    by (simp add: status_of_stages)
  with i show ?thesis by (auto simp: ahead_def stage_def)
qed

text \<open>
  C31: unbonding is authorised. In every reachable state, the group of a delegation that is being unbonded
  was asked to sign exactly its own two transactions, at the recorded place; and a delegation counts as
  signed only with signatures of its key that are valid for these two.
\<close>

theorem unbonding_is_authorised:
  assumes "bab_reach L w" and "i < length (owner_delegations owner w)" and "d = owner_delegations owner w ! i"
    and "Delegation_status d = Ok st" and "params = bn_params (bw_babylon w)"
  shows "(st \<in> {SigningUnbond, SignedUnbond, ConfirmedUnbond} \<longrightarrow> (\<exists>k m1 m2. dl_frost_sig_offset d = Some k
      \<and> Delegation_unbonding_withdrawal_sighash L d params = Ok m1 \<and> Delegation_staking_unbonding_sighash L d params = Ok m2
      \<and> Suc k < length (messages (bw_frost w) (dl_frost_group d)) \<and> messages (bw_frost w) (dl_frost_group d) ! k = m1
      \<and> messages (bw_frost w) (dl_frost_group d) ! Suc k = m2))
    \<and> (st \<in> {SignedUnbond, ConfirmedUnbond} \<longrightarrow> (\<exists>sg1 sg2 m1 m2. dl_staking_unbonding_sig d = Some sg1 \<and> dl_unbonding_withdrawal_sig d = Some sg2
      \<and> Delegation_staking_unbonding_sighash L d params = Ok m1 \<and> verify_schnorr L sg1 m1 (dl_btc_key d)
      \<and> Delegation_unbonding_withdrawal_sighash L d params = Ok m2 \<and> verify_schnorr L sg2 m2 (dl_btc_key d)))"
proof -
  have "env_ok L params (env_of w owner i)" using world_okD(3) [OF bab_reach_ok [OF assms(1)] assms(2)] by (simp add: assms(5))
  then have st: "stages d" and a: "asked L params (bw_frost w) d" and v: "sigs_valid L params d" by (simp_all add: env_ok_def env_of_def assms(3))
  have "dl_withdrawal_script_pubkey d \<noteq> None" if "st \<in> {SigningUnbond, SignedUnbond, ConfirmedUnbond}"
    using that assms(4) st by (auto simp: status_of_stages stages_def split: if_split_asm)
  moreover have "dl_unbonding_withdrawal_sig d \<noteq> None" if "st \<in> {SignedUnbond, ConfirmedUnbond}"
    using that assms(4) st by (auto simp: status_of_stages stages_def split: if_split_asm)
  ultimately show ?thesis using a v st unfolding asked_def sigs_valid_def stages_def by fastforce
qed

text \<open>
  A matured stake stops the module. In every reachable state no delegation has been withdrawn, and as
  soon as the unbonding of one is confirmed and its period over, every further step fails: the check that
  is meant to hold back an early withdrawal refuses exactly the withdrawals that are due.
\<close>

theorem matured_unbonding_blocks_step:
  assumes "bab_reach L w" and "i < length (owner_delegations owner w)"
    and "Delegation_status (owner_delegations owner w ! i) = Ok ConfirmedUnbond"
    and "the (dl_unbonding_height (owner_delegations owner w ! i)) + dl_unbonding_period (owner_delegations owner w ! i)
      \<le> HeaderQueue_height (bc_headers (bw_bitcoin w))"
  shows "fst (Babylon_step L C w) = Err (App ''Unbonding period not over'')"
proof -
  let ?d = "owner_delegations owner w ! i" and ?q = "bn_unbonding (bw_babylon w)"
  have ok: "world_ok L w" using assms(1) by (rule bab_reach_ok)
  note d = world_okD [OF ok assms(2)]
  then have "stages ?d" "queued (bn_staked (bw_babylon w)) ?q ?d" by (simp_all add: env_ok_def env_of_def)
  then have key: "(the (dl_unbonding_height ?d) + dl_unbonding_period ?d, owner, i) \<in> fst ` set ?q"
    using assms(3) d(1,2) by (auto simp: status_of_stages queued_def split: if_split_asm)
  then obtain k0 q where q: "?q = k0 # q" by (cases ?q) auto
  have "in_order L ?q" using ok by (simp add: world_ok_def)
  then have "queue_order L (fst k0) \<le> queue_order L (the (dl_unbonding_height ?d) + dl_unbonding_period ?d, owner, i)"
    using key by (auto simp: q in_order_def)
  then have "fst (fst k0) \<le> the (dl_unbonding_height ?d) + dl_unbonding_period ?d" by (auto simp: queue_order_def split: prod.splits)
  with assms(4) have "fst (fst k0) \<le> HeaderQueue_height (bc_headers (bw_bitcoin w))" by simp
  then have "fst (process_entries L unbonding_due (Delegation_withdraw L) (map fst ?q) w) = Err (App ''Unbonding period not over'')"
    unfolding q list.map by (intro process_unbonding_Err [OF ok]) (auto simp: q)
  then show ?thesis by (auto simp: Babylon_step_def cbind_def split: prod.splits result.splits)
qed

text \<open>A stake whose unbonding has begun is still in the queue of staked ones; when it is due there, the step fails too.\<close>

theorem expired_unbonding_blocks_step:
  assumes "bab_reach L w" and "bn_unbonding (bw_babylon w) = []" and "bn_staked (bw_babylon w) = ((h, owner, i), ()) # q"
    and "h + pm_max_age (bn_params (bw_babylon w)) \<le> HeaderQueue_height (bc_headers (bw_bitcoin w))"
    and "h + pm_max_age (bn_params (bw_babylon w)) < 2 ^ 32"
    and "Delegation_status (owner_delegations owner w ! i) = Ok st" "st \<noteq> Staked"
  shows "fst (Babylon_step L C w) = Err (App ''Delegation not in Staked state'')"
proof -
  have i: "i < length (owner_delegations owner w)" using world_ok_keyD [OF bab_reach_ok [OF assms(1)], of h owner i] assms(3) by simp
  then obtain dels where dels: "map_of (bn_delegations (bw_babylon w)) owner = Some dels" "owner_delegations owner w = dels"
    by (cases "map_of (bn_delegations (bw_babylon w)) owner") (simp_all add: owner_delegations_def)
  have "Delegation_unbond L C params (env_of w owner i) = (Err (App ''Delegation not in Staked state''), env_of w owner i)" for params
    using assms(6,7) by (simp add: Delegation_unbond_def cbind_def reads_def lift_result_def env_of_def)
  then have "fst (with_delegation L (App ''Delegation not found'') (App ''Delegation not found'') owner i (Delegation_unbond L C params) w)
      = Err (App ''Delegation not in Staked state'')" for params
    using i dels by (simp add: with_delegation_def env_of_def Let_def)
  then obtain w1 where "with_delegation L (App ''Delegation not found'') (App ''Delegation not found'') owner i
      (Delegation_unbond L C (bn_params (bw_babylon w))) w = (Err (App ''Delegation not in Staked state''), w1)"
    by (metis prod.collapse)
  then show ?thesis using assms(2-5)
    by (simp add: Babylon_step_def cbind_def reads_def lift_result_def modify_def staked_due_def add_w_def)
qed

text \<open>With the parameters of the third test network no staking period is accepted: its bounds are swapped.\<close>

theorem bbn_test_3_accepts_no_period:
  assumes "Params_bbn_test_3 L = Ok params"
  shows "Delegation_new index owner return_dest btc_key group_index fps period position stake params = Err (App ''Staking period out of bounds'')"
  using assms by (auto simp: Params_bbn_test_3_def Delegation_new_def)

text \<open>
  A stake counts as made only with proof. A relayed staking transaction is accepted only when it is in
  a block of the header chain with enough confirmations, named by a Merkle proof of that block, and the
  named output pays exactly the delegated amount to the delegation's own staking script; that output is
  then what the delegation records.
\<close>

theorem staking_requires_proof:
  assumes "InnerApp_relay_btc_staking_tx L C owner i height merkle_proof tx vout w = (Ok (), w')" and "bab_reach L w"
    and "d = owner_delegations owner w ! i" and "d' = owner_delegations owner w' ! i"
  shows "\<exists>header. i < length (owner_delegations owner w) \<and> Delegation_status d = Ok Created
    \<and> pm_confirmation_depth (bn_params (bw_babylon w)) \<le> HeaderQueue_height (bc_headers (bw_bitcoin w)) - height
    \<and> HeaderQueue_get_by_height (bc_headers (bw_bitcoin w)) height = Ok (Some header)
    \<and> extract_matches L merkle_proof = Some (WorkHeader_merkle_root header, [tx_txid L tx])
    \<and> vout < length (tr_output tx) \<and> to_value (tr_output tx ! vout) = Delegation_stake_sats d
    \<and> Delegation_staking_script L d (bn_params (bw_babylon w)) = Ok (to_script_pubkey (tr_output tx ! vout))
    \<and> dl_staking_outpoint d' = Some (tx_txid L tx, vout) \<and> dl_staking_height d' = Some height"
proof -
  let ?params = "bn_params (bw_babylon w)" and ?headers = "bc_headers (bw_bitcoin w)"
  from assms(1) have run: "with_delegation L (App ''No delegations found with given owner'') (App ''Delegation not found'') owner i
      (Delegation_relay_staking_tx L C ?headers height merkle_proof tx vout ?params) w = (Ok (), w')"
    by (simp add: InnerApp_relay_btc_staking_tx_def)
  from run obtain e' where i: "i < length (owner_delegations owner w)"
    and f: "Delegation_relay_staking_tx L C ?headers height merkle_proof tx vout ?params (env_of w owner i) = (Ok (), e')"
    and d': "d' = de_del e'"
    by (rule with_delegation_Ok) (simp add: assms(4))
  from f obtain e1 where facts: "Delegation_status d = Ok Created"
    "check_relayed_tx L ?headers ''Staking tx is not confirmed'' ?params height merkle_proof tx = Ok ()"
    "vout < length (tr_output tx)" "to_value (tr_output tx ! vout) = Delegation_stake_sats d"
    "Delegation_staking_script L d ?params = Ok (to_script_pubkey (tr_output tx ! vout))"
    and e1: "de_del e1 = d\<lparr>dl_staking_outpoint := Some (tx_txid L tx, vout), dl_staking_height := Some height\<rparr>"
    and rest: "e' = e1 \<or> Delegation_unbond L C ?params e1 = (Ok (), e')"
  proof (rule relay_staking_Ok, goal_cases)
    case (1 d1 e1)
    have d: "de_del (env_of w owner i) = d" by (simp add: env_of_def assms(3))
    have "de_del e1 = d1" using 1(8) by simp
    with 1(2-7,9) show ?case by (intro 1(1) [of e1]) (auto simp: d split: if_split_asm)
  qed
  have "dl_staking_outpoint d' = Some (tx_txid L tx, vout) \<and> dl_staking_height d' = Some height"
    using rest e1 by (auto simp: d' elim!: unbond_Ok)
  moreover from facts(2) obtain header where "pm_confirmation_depth ?params \<le> HeaderQueue_height ?headers - height"
    "HeaderQueue_get_by_height ?headers height = Ok (Some header)" "extract_matches L merkle_proof = Some (WorkHeader_merkle_root header, [tx_txid L tx])"
    by (auto simp: check_relayed_tx_def not_less split: list.split_asm if_split_asm) (metis neq_Nil_conv)
  ultimately show ?thesis using i facts by blast
qed

section \<open>A small run\<close>

definition demo_bab_lib :: bab_lib where
  "demo_bab_lib = (tap_lib.extend demo_tap_lib
     \<lparr>verifying_key_xonly = Some, identity_order = (\<lambda>i. case i of Identity_None \<Rightarrow> [0] | Identity_NativeAccount a \<Rightarrow> 1 # a),
      dest_to_string = (\<lambda>d. ''d''), dest_stake = (\<lambda>s k p. RewardPool)\<rparr>)
     \<lparr>script_bytes := (\<lambda>_. []), push_int := (\<lambda>_. PushBytes []), to_v0_p2wsh := (\<lambda>s. s)\<rparr>"

definition demo_bab_header :: "u32 \<Rightarrow> work_header" where
  "demo_bab_header h = WorkHeader_new \<lparr>wr_height = h, wr_header = \<lparr>bh_version = 1, bh_prev_blockhash = [], bh_merkle_root = [], bh_time = 0, bh_bits = 0, bh_nonce = 0\<rparr>\<rparr> 0"

definition demo_bab_btc :: "u32 list \<Rightarrow> bitcoin" where
  "demo_bab_btc hs = Bitcoin_migrate_from \<lparr>hq_deque = map demo_bab_header hs, hq_current_work = 0, hq_config = demo_header_config\<rparr>
     OutpointSet_default demo_cq (\<lambda>_. 0) SignatoryKeys_default 0 [] BitcoinConfig_default"

definition demo_group :: "bytes list \<Rightarrow> frost_group" where
  "demo_group ms = \<lparr>fg_config = \<lparr>fc_threshold = 1, fc_participants = []\<rparr>,
     fg_dkg = \<lparr>dk_participants = 0, dk_round1 = [], dk_round1_len = 0, dk_round2 = [], dk_round2_len = 0, dk_group_pubkey = Some [9], dk_attested = [], dk_attested_len = 0\<rparr>,
     fg_signing = map (\<lambda>m. Signing_new \<lparr>fc_threshold = 1, fc_participants = []\<rparr> m 1000) ms, fg_created_at = 0\<rparr>"

abbreviation demo_owner :: identity where "demo_owner \<equiv> Identity_NativeAccount [1]"

definition demo_del :: delegation where
  "demo_del = \<lparr>dl_index = 0, dl_owner = demo_owner, dl_return_dest = NativeAccount [1], dl_btc_key = [9], dl_frost_group = 0, dl_fp_keys = [[5]],
     dl_staking_period = 100, dl_unbonding_period = 20, dl_checkpoint_batch_index = (4, 1), dl_stake = 50000000000, dl_staking_outpoint = None,
     dl_staking_height = None, dl_requested_unbond = False, dl_withdrawal_sigset_index = None, dl_withdrawal_script_pubkey = None,
     dl_frost_sig_offset = None, dl_staking_unbonding_sig = None, dl_unbonding_withdrawal_sig = None, dl_unbonding_height = None,
     dl_withdraw_checkpoint_index = None\<rparr>"

definition demo_world :: "delegation list \<Rightarrow> delegation_queue \<Rightarrow> delegation_queue \<Rightarrow> bytes list \<Rightarrow> u32 list \<Rightarrow> bab_world" where
  "demo_world ds st ub ms hs = \<lparr>bw_babylon = \<lparr>bn_delegations = (if ds = [] then [] else [(demo_owner, ds)]), bn_staked = st, bn_unbonding = ub, bn_params = demo_params\<rparr>,
     bw_frost = [demo_group ms], bw_bitcoin = demo_bab_btc hs\<rparr>"

lemma demo_bab_sel [simp]:
  "xonly_from_slice demo_bab_lib = (\<lambda>_. True)" "parse_xonly demo_bab_lib = (\<lambda>s. Some (hex_decode s))" "address_script demo_bab_lib = (\<lambda>s. Some [0])"
  "taproot_leaves_ok demo_bab_lib = (\<lambda>_. True)" "taproot_output_key demo_bab_lib = (\<lambda>leaves k. Some [of_nat (length leaves)])"
  "new_v1_p2tr_tweaked demo_bab_lib = (\<lambda>k. 81 # k)" "taproot_sighash demo_bab_lib = (\<lambda>tx i prevouts leaf. Ok (replicate 32 3))"
  "verify_schnorr demo_bab_lib = (\<lambda>sg m k. sg = k)" "schnorr_from_slice demo_bab_lib = (\<lambda>_. True)" "message_from_slice demo_bab_lib = (\<lambda>_. True)"
  "extract_matches demo_bab_lib = (\<lambda>b. Some ([], [b]))" "tx_txid demo_bab_lib = (\<lambda>tx. concat (map to_script_pubkey (tr_output tx)))"
  "script_bytes demo_bab_lib = (\<lambda>_. [])" "to_v0_p2wsh demo_bab_lib = (\<lambda>s. s)" "verifying_key_xonly demo_bab_lib = Some" "encode_slice demo_bab_lib = Ok"
  "new_op_return demo_bab_lib = (\<lambda>b. b)"
  by (simp_all add: demo_bab_lib_def demo_tap_lib_def tap_lib.defs script_lib.defs demo_script_lib_def)

lemma demo_scripts:
  "multisig_script demo_bab_lib [[5], [4]] 2 b = Ok []" "multisig_script demo_bab_lib [[5]] 1 b = Ok []"
  "unbonding_script demo_bab_lib k demo_params = Ok []" "slashing_script demo_bab_lib k [[5]] demo_params = Ok []"
  "staking_taproot demo_bab_lib k [[5]] t demo_params = Ok [3]" "unbonding_taproot demo_bab_lib k [[5]] demo_params = Ok [2]"
proof -
  show m: "multisig_script demo_bab_lib [[5], [4]] 2 b = Ok []" "multisig_script demo_bab_lib [[5]] 1 b = Ok []" for b
    by (simp_all add: multisig_script_def sort_keys_def single_key_script_def case_prod_unfold)
  have keys: "Params_covenant_keys demo_bab_lib demo_params = Ok [[5], [4]]" "pm_covenant_quorum demo_params = 2"
    by (simp_all add: Params_covenant_keys_def demo_params_def)
  show u: "unbonding_script demo_bab_lib k demo_params = Ok []" and s: "slashing_script demo_bab_lib k [[5]] demo_params = Ok []"
    by (simp_all add: unbonding_script_def slashing_script_def keys m m(2) [unfolded One_nat_def] aggregate_scripts_def single_key_script_def)
  show "staking_taproot demo_bab_lib k [[5]] t demo_params = Ok [3]" "unbonding_taproot demo_bab_lib k [[5]] demo_params = Ok [2]"
    by (simp_all add: staking_taproot_def unbonding_taproot_def u s taproot_tree_def)
qed

lemma demo_p4: "\<exists>p. Params_bbn_test_4 demo_bab_lib = Ok p \<and> unbonding_script demo_bab_lib k p = Ok []"
  by (simp add: Params_bbn_test_4_def unbonding_script_def Params_covenant_keys_def multisig_script_def sort_keys_def hex_val_def Let_def
      aggregate_scripts_def single_key_script_def case_prod_unfold)

lemma demo_redeem_bab: "SignatorySet_output_script demo_bab_lib demo_small_ss [0] SIGSET_THRESHOLD = Ok []"
  by (simp add: SignatorySet_output_script_def SignatorySet_redeem_script_def demo_small_ss_def SignatorySet_signature_threshold_def div_u_def
      SIGSET_THRESHOLD_def Let_def)

lemma demo_sighashes:
  assumes "dl_btc_key d = [9]" "dl_fp_keys d = [[5]]" "dl_stake d = 50000000000" "dl_staking_outpoint d = Some op" "dl_withdrawal_script_pubkey d = Some sc"
  shows "Delegation_staking_unbonding_sighash demo_bab_lib d demo_params = Ok (replicate 32 3)"
    "Delegation_unbonding_withdrawal_sighash demo_bab_lib d demo_params = Ok (replicate 32 3)"
    "\<exists>tx. Delegation_unbonding_tx demo_bab_lib d demo_params = Ok tx \<and> tx_txid demo_bab_lib tx = [81, 2]"
proof -
  have keys: "Delegation_btc_key demo_bab_lib d = Ok [9]" "Delegation_fp_keys demo_bab_lib d = Ok [[5]]"
    using assms by (simp_all add: Delegation_btc_key_def Delegation_fp_keys_def bytes_to_pubkey_def)
  have fee: "pm_unbonding_fee demo_params = 10000" by (simp add: demo_params_def)
  have tx: "Delegation_unbonding_tx demo_bab_lib d demo_params = Ok \<lparr>tr_version = 2, tr_lock_time = 0, tr_input = [spending_txin op],
      tr_output = [\<lparr>to_value = 40000, to_script_pubkey = [81, 2]\<rparr>]\<rparr>"
    using assms by (simp add: Delegation_unbonding_tx_def keys staking_outpoint_def unbonding_tx_def demo_scripts Delegation_stake_sats_def fee sub_u_def)
  then show "\<exists>tx. Delegation_unbonding_tx demo_bab_lib d demo_params = Ok tx \<and> tx_txid demo_bab_lib tx = [81, 2]" by simp
  show "Delegation_staking_unbonding_sighash demo_bab_lib d demo_params = Ok (replicate 32 3)"
    using demo_p4 [of "[9]"] by (auto simp: Delegation_staking_unbonding_sighash_def tx keys Delegation_staking_script_def Delegation_staking_taproot_def demo_scripts)
  show "Delegation_unbonding_withdrawal_sighash demo_bab_lib d demo_params = Ok (replicate 32 3)"
    using assms by (simp add: Delegation_unbonding_withdrawal_sighash_def Delegation_unbonding_withdrawal_tx_def tx first_output_def keys fee sub_u_def)
qed

abbreviation "demo_d1 \<equiv> demo_del\<lparr>dl_staking_outpoint := Some ([81, 3], 0), dl_staking_height := Some 10\<rparr>"
abbreviation "demo_d2 \<equiv> demo_d1\<lparr>dl_requested_unbond := True, dl_withdrawal_sigset_index := Some 4, dl_withdrawal_script_pubkey := Some [], dl_frost_sig_offset := Some 0\<rparr>"
abbreviation "demo_d3 \<equiv> demo_d2\<lparr>dl_staking_unbonding_sig := Some [9], dl_unbonding_withdrawal_sig := Some [9]\<rparr>"
abbreviation "demo_d4 \<equiv> demo_d3\<lparr>dl_unbonding_height := Some 11\<rparr>"
abbreviation "demo_m \<equiv> replicate 32 3 :: bytes"

lemma demo_building_batch:
  "CheckpointQueue_get_mut demo_cq 4 (\<lambda>cp. rbind (get_batch Checkpoint_batch cp) (\<lambda>b. Ok (f cp b, ()))) =
     Ok (demo_cq\<lparr>cq_queue := [demo_old, f demo_building (cp_batches demo_building ! 2)]\<rparr>, ())"
  "CheckpointQueue_building demo_cq = Ok demo_building" "get_batch Checkpoint_batch demo_building = Ok (cp_batches demo_building ! 2)"
  "length (ba_batch (cp_batches demo_building ! 2)) = 1" "CheckpointQueue_active_sigset demo_cq = Ok demo_small_ss"
  by (simp_all add: CheckpointQueue_get_mut_def CheckpointQueue_get_deque_index_def CheckpointQueue_building_def CheckpointQueue_get_def demo_cq_def
      demo_building_def Checkpoint_new_def get_batch_def CheckpointQueue_active_sigset_def)

lemma demo_bab_btc_sel [simp]:
  "bc_checkpoints (demo_bab_btc hs) = demo_cq" "cq_index demo_cq = 4" "bc_headers (demo_bab_btc hs) =
     \<lparr>hq_deque = map demo_bab_header hs, hq_current_work = 0, hq_config = demo_header_config\<rparr>"
  by (simp_all add: demo_bab_btc_def Bitcoin_migrate_from_def demo_cq_def)

lemma demo_world_sel [simp]:
  "bw_frost (demo_world ds st ub ms hs) = [demo_group ms]" "bw_bitcoin (demo_world ds st ub ms hs) = demo_bab_btc hs"
  "bn_params (bw_babylon (demo_world ds st ub ms hs)) = demo_params" "owner_delegations demo_owner (demo_world ds st ub ms hs) = ds"
  by (simp_all add: demo_world_def owner_delegations_def)

lemma demo_new: "Delegation_new 0 demo_owner (NativeAccount [1]) [9] 0 [[5]] 100 (4, 1) 50000000000 demo_params = Ok demo_del"
  by (simp add: Delegation_new_def demo_params_def demo_del_def)

lemma demo_outputs: "\<exists>a b. Delegation_staking_output demo_bab_lib demo_del demo_params = Ok a \<and> Delegation_op_return_output demo_bab_lib demo_del = Ok b"
  using demo_p4 [of "[9]"]
  by (auto simp: Delegation_staking_output_def Delegation_staking_script_def Delegation_staking_taproot_def Delegation_btc_key_def Delegation_fp_keys_def
      bytes_to_pubkey_def demo_del_def demo_scripts Delegation_op_return_output_def Delegation_op_return_bytes_def)

lemma demo_stake: "\<exists>btc. Babylon_stake demo_bab_lib demo_owner (NativeAccount [1]) [5] 100 50000000000 (demo_world [] [] [] [] [10, 11, 12, 13])
    = (Ok 0, (demo_world [demo_del] [] [] [] [10, 11, 12, 13])\<lparr>bw_bitcoin := btc\<rparr>)"
proof -
  have recent: "Frost_most_recent_with_key [demo_group []] = Ok (Some 0)" "Frost_group_pubkey [demo_group []] 0 = Ok (Some [9])"
    by (simp_all add: Frost_most_recent_with_key_def Frost_group_pubkey_def get_group_def Dkg_group_pubkey_def Dkg_state_def demo_group_def)
  obtain a b where out: "Delegation_staking_output demo_bab_lib demo_del demo_params = Ok a" "Delegation_op_return_output demo_bab_lib demo_del = Ok b"
    using demo_outputs by blast
  have "owner_delegations demo_owner (demo_world [] [] [] [] hs\<lparr>bw_bitcoin := btc\<rparr>) = []" for hs btc by (simp add: demo_world_def owner_delegations_def)
  then show ?thesis
    by (simp add: Babylon_stake_def recent bytes_to_pubkey_def demo_building_batch demo_new demo_new [unfolded One_nat_def] out on_bw_bitcoin_Ok building_mut_def)
      (simp add: demo_world_def demo_new out)
qed

definition demo_env :: "delegation \<Rightarrow> delegation_queue \<Rightarrow> delegation_queue \<Rightarrow> bytes list \<Rightarrow> u32 list \<Rightarrow> del_env" where
  "demo_env d st ub ms hs = \<lparr>de_del = d, de_staked = st, de_unbonding = ub, de_frost = [demo_group ms], de_btc = demo_bab_btc hs\<rparr>"

lemma demo_with:
  "f (demo_env d st ub ms hs) = (r, demo_env d' st' ub' ms' hs)
     \<Longrightarrow> with_delegation demo_bab_lib e1 e2 demo_owner 0 f (demo_world [d] st ub ms hs) = (r, demo_world [d'] st' ub' ms' hs)"
  by (simp add: with_delegation_def demo_world_def demo_env_def Let_def)

lemma demo_env_simps [simp]:
  "de_del (demo_env d st ub ms hs) = d" "de_staked (demo_env d st ub ms hs) = st" "de_unbonding (demo_env d st ub ms hs) = ub"
  "de_frost (demo_env d st ub ms hs) = [demo_group ms]" "de_btc (demo_env d st ub ms hs) = demo_bab_btc hs"
  "de_del_update f (demo_env d st ub ms hs) = demo_env (f d) st ub ms hs"
  "de_staked_update g (demo_env d st ub ms hs) = demo_env d (g st) ub ms hs" "de_unbonding_update g (demo_env d st ub ms hs) = demo_env d st (g ub) ms hs"
  by (simp_all add: demo_env_def)

lemma demo_push: "dl_frost_group d = 0 \<Longrightarrow> push_frost_message (demo_ctx []) m (demo_env d st ub ms hs) = (Ok (), demo_env d st ub (ms @ [m]) hs)"
  by (simp add: push_frost_message_Ok FrostGroup_now_def demo_ctx_def) (simp add: demo_env_def demo_group_def)

lemma demo_check:
  "check_relayed_tx demo_bab_lib (bc_headers (demo_bab_btc [10, 11, 12, 13])) e demo_params h sc
     \<lparr>tr_version = 2, tr_lock_time = 0, tr_input = [], tr_output = [\<lparr>to_value = v, to_script_pubkey = sc\<rparr>]\<rparr> = Ok ()" if "h = 10 \<or> h = 11"
  using that
  by (auto simp: check_relayed_tx_def HeaderQueue_height_def HeaderQueue_get_by_height_def demo_bab_header_def WorkHeader_new_def demo_params_def
      WorkHeader_merkle_root_def)

lemma demo_exempt: "exempt_from_fee (demo_ctx []) = Ok ()"
  by (simp add: exempt_from_fee_def demo_ctx_def)

lemma demo_relay_stake:
  "InnerApp_relay_btc_staking_tx demo_bab_lib (demo_ctx []) demo_owner 0 10 [81, 3]
     \<lparr>tr_version = 2, tr_lock_time = 0, tr_input = [], tr_output = [\<lparr>to_value = 50000, to_script_pubkey = [81, 3]\<rparr>]\<rparr> 0
     (demo_world [demo_del] [] [] [] [10, 11, 12, 13])
   = (Ok (), demo_world [demo_d1] [((10, demo_owner, 0), ())] [] [] [10, 11, 12, 13])"
proof -
  have "Delegation_staking_script demo_bab_lib demo_del demo_params = Ok [81, 3]"
    by (simp add: Delegation_staking_script_def Delegation_staking_taproot_def Delegation_btc_key_def Delegation_fp_keys_def bytes_to_pubkey_def demo_del_def demo_scripts)
  moreover have d: "Delegation_status demo_del = Ok Created" "Delegation_stake_sats demo_del = 50000" "dl_owner demo_del = demo_owner" "dl_index demo_del = 0"
    "\<not> dl_requested_unbond demo_del"
    by (simp_all add: Delegation_status_def Delegation_stake_sats_def demo_del_def)
  ultimately have "Delegation_relay_staking_tx demo_bab_lib (demo_ctx []) (bc_headers (demo_bab_btc [10, 11, 12, 13])) 10 [81, 3]
     \<lparr>tr_version = 2, tr_lock_time = 0, tr_input = [], tr_output = [\<lparr>to_value = 50000, to_script_pubkey = [81, 3]\<rparr>]\<rparr> 0 demo_params
     (demo_env demo_del [] [] [] [10, 11, 12, 13]) = (Ok (), demo_env demo_d1 [((10, demo_owner, 0), ())] [] [] [10, 11, 12, 13])"
    using demo_check [of 10 "''Staking tx is not confirmed''" "[81, 3]" 50000]
    by (simp add: Delegation_relay_staking_tx_def Let_def del: demo_bab_btc_sel(3))
  then show ?thesis by (simp add: InnerApp_relay_btc_staking_tx_def demo_exempt demo_with del: demo_bab_btc_sel(3))
qed

lemma demo_unstake:
  "Babylon_unstake demo_bab_lib (demo_ctx []) demo_owner 0 (demo_world [demo_d1] [((10, demo_owner, 0), ())] [] [] [10, 11, 12, 13])
   = (Ok (), demo_world [demo_d2] [((10, demo_owner, 0), ())] [] [demo_m, demo_m] [10, 11, 12, 13])"
proof -
  let ?d = "demo_d1\<lparr>dl_requested_unbond := True\<rparr>"
  have "Delegation_unbond demo_bab_lib (demo_ctx []) demo_params (demo_env ?d [((10, demo_owner, 0), ())] [] [] [10, 11, 12, 13])
      = (Ok (), demo_env demo_d2 [((10, demo_owner, 0), ())] [] [demo_m, demo_m] [10, 11, 12, 13])"
    using demo_sighashes [of demo_d2]
    by (simp add: Delegation_unbond_def Delegation_status_def demo_del_def demo_building_batch demo_redeem_bab demo_push demo_small_ss_def [THEN arg_cong [of _ _ ss_index]]
        demo_group_def [THEN arg_cong [of _ _ fg_signing]] del: sighash_offset)
  then have "Delegation_request_unbond demo_bab_lib (demo_ctx []) demo_params (demo_env demo_d1 [((10, demo_owner, 0), ())] [] [] [10, 11, 12, 13])
      = (Ok (), demo_env demo_d2 [((10, demo_owner, 0), ())] [] [demo_m, demo_m] [10, 11, 12, 13])"
    by (simp add: Delegation_request_unbond_def Delegation_status_def demo_del_def)
  then show ?thesis by (simp add: Babylon_unstake_def demo_with)
qed

lemma demo_sign:
  "with_delegation demo_bab_lib Panic Panic demo_owner 0 (Delegation_sign_unbond demo_bab_lib [9] [9] demo_params)
     (demo_world [demo_d2] [((10, demo_owner, 0), ())] [] [demo_m, demo_m] [10, 11, 12, 13])
   = (Ok (), demo_world [demo_d3] [((10, demo_owner, 0), ())] [] [demo_m, demo_m] [10, 11, 12, 13])"
  using demo_sighashes [of demo_d2] demo_sighashes [of "demo_d2\<lparr>dl_staking_unbonding_sig := Some [9]\<rparr>"]
  by (intro demo_with) (simp add: Delegation_sign_unbond_def Delegation_status_def demo_del_def Delegation_btc_key_def bytes_to_pubkey_def verify_unbond_sig_def)

lemma demo_relay_unbond:
  "InnerApp_relay_btc_unbonding_tx demo_bab_lib (demo_ctx []) demo_owner 0 11 [81, 2]
     \<lparr>tr_version = 2, tr_lock_time = 0, tr_input = [], tr_output = [\<lparr>to_value = 40000, to_script_pubkey = [81, 2]\<rparr>]\<rparr>
     (demo_world [demo_d3] [((10, demo_owner, 0), ())] [] [demo_m, demo_m] [10, 11, 12, 13])
   = (Ok (), demo_world [demo_d4] [] [((31, demo_owner, 0), ())] [demo_m, demo_m] [10, 11, 12, 13])"
proof -
  obtain tx where tx: "Delegation_unbonding_tx demo_bab_lib demo_d3 demo_params = Ok tx" "concat (map to_script_pubkey (tr_output tx)) = [81, 2]"
    using demo_sighashes(3) [of demo_d3 "([81, 3], 0)" "[]"] by (auto simp: demo_del_def)
  then have "Delegation_relay_unbonding_tx demo_bab_lib (bc_headers (demo_bab_btc [10, 11, 12, 13])) 11 [81, 2]
     \<lparr>tr_version = 2, tr_lock_time = 0, tr_input = [], tr_output = [\<lparr>to_value = 40000, to_script_pubkey = [81, 2]\<rparr>]\<rparr> demo_params
     (demo_env demo_d3 [((10, demo_owner, 0), ())] [] [demo_m, demo_m] [10, 11, 12, 13])
     = (Ok (), demo_env demo_d4 [] [((31, demo_owner, 0), ())] [demo_m, demo_m] [10, 11, 12, 13])"
    using demo_check [of 11 "''Unbonding tx is not confirmed''" "[81, 2]" 40000]
    by (simp add: Delegation_relay_unbonding_tx_def Delegation_status_def demo_del_def add_w_def omap_remove_def del: demo_bab_btc_sel(3))
  then show ?thesis by (simp add: InnerApp_relay_btc_unbonding_tx_def demo_exempt demo_with del: demo_bab_btc_sel(3))
qed

lemma demo_reach_staking: "bab_reach demo_bab_lib (demo_world [demo_del] [] [] [] [10, 11, 12, 13])"
proof -
  have start: "bab_reach demo_bab_lib (demo_world [] [] [] [] [10, 11, 12, 13])" unfolding demo_world_def by (rule bab_reach.start) simp_all
  obtain btc where "Babylon_stake demo_bab_lib demo_owner (NativeAccount [1]) [5] 100 50000000000 (demo_world [] [] [] [] [10, 11, 12, 13])
      = (Ok 0, (demo_world [demo_del] [] [] [] [10, 11, 12, 13])\<lparr>bw_bitcoin := btc\<rparr>)" using demo_stake by blast
  from bab_reach.go [OF start bab_step.stake [OF this]]
  have "bab_reach demo_bab_lib ((demo_world [demo_del] [] [] [] [10, 11, 12, 13])\<lparr>bw_bitcoin := btc\<rparr>)" .
  from bab_reach.go [OF this bab_step.beside [OF frost_extends_refl, where btc = "demo_bab_btc [10, 11, 12, 13]"]]
  show ?thesis by (simp add: demo_world_def)
qed

lemma demo_reach_signed: "bab_reach demo_bab_lib (demo_world [demo_d3] [((10, demo_owner, 0), ())] [] [demo_m, demo_m] [10, 11, 12, 13])"
proof -
  have "bab_reach demo_bab_lib (demo_world [demo_d2] [((10, demo_owner, 0), ())] [] [demo_m, demo_m] [10, 11, 12, 13])"
    using demo_reach_staking bab_step.relay_stake [OF demo_relay_stake] bab_step.unstake [OF demo_unstake] by (blast intro: bab_reach.go)
  then show ?thesis
    by (rule bab_reach.go) (rule bab_step.sign, unfold demo_world_sel, rule demo_sign)
qed

lemma demo_reach_matured: "bab_reach demo_bab_lib (demo_world [demo_d4] [] [((31, demo_owner, 0), ())] [demo_m, demo_m] [40])"
proof -
  have "bab_reach demo_bab_lib (demo_world [demo_d4] [] [((31, demo_owner, 0), ())] [demo_m, demo_m] [10, 11, 12, 13])"
    using demo_reach_signed bab_step.relay_unbond [OF demo_relay_unbond] by (rule bab_reach.go)
  from bab_reach.go [OF this bab_step.beside [OF frost_extends_refl, where btc = "demo_bab_btc [40]"]]
  show ?thesis by (simp add: demo_world_def)
qed

theorem delegations_move_forward_witness:
  "\<exists>w w'. bab_reach demo_bab_lib w \<and> bab_step demo_bab_lib w w' \<and> 0 < length (owner_delegations demo_owner w) \<and> 0 < length (owner_delegations demo_owner w')"
  using delegations_move_forward [OF demo_reach_staking bab_step.relay_stake [OF demo_relay_stake], of 0 demo_owner]
    demo_reach_staking bab_step.relay_stake [OF demo_relay_stake]
  by (metis demo_world_sel(4) length_greater_0_conv list.distinct(1))

theorem unbonding_is_authorised_witness:
  "bab_reach demo_bab_lib (demo_world [demo_d3] [((10, demo_owner, 0), ())] [] [demo_m, demo_m] [10, 11, 12, 13])
    \<and> Delegation_status demo_d3 = Ok SignedUnbond \<and> messages [demo_group [demo_m, demo_m]] 0 ! 0 = demo_m"
proof -
  have st: "Delegation_status demo_d3 = Ok SignedUnbond" by (simp add: Delegation_status_def demo_del_def)
  from unbonding_is_authorised [OF demo_reach_signed, of 0 demo_owner demo_d3, OF _ _ st refl]
  have "\<exists>k m1 m2. dl_frost_sig_offset demo_d3 = Some k \<and> Delegation_unbonding_withdrawal_sighash demo_bab_lib demo_d3 demo_params = Ok m1
      \<and> messages [demo_group [demo_m, demo_m]] 0 ! k = m1"
    by (auto simp: demo_del_def)
  then show ?thesis
    using st demo_reach_signed demo_sighashes(2) [of demo_d3 "([81, 3], 0)" "[]"] by (auto simp: demo_del_def)
qed

theorem matured_unbonding_blocks_step_witness:
  "fst (Babylon_step demo_bab_lib (demo_ctx []) (demo_world [demo_d4] [] [((31, demo_owner, 0), ())] [demo_m, demo_m] [40])) = Err (App ''Unbonding period not over'')"
  by (rule matured_unbonding_blocks_step [OF demo_reach_matured, of 0 demo_owner])
    (simp_all add: Delegation_status_def demo_del_def HeaderQueue_height_def demo_bab_header_def WorkHeader_new_def)

theorem staking_requires_proof_witness:
  "\<exists>w w'. InnerApp_relay_btc_staking_tx demo_bab_lib (demo_ctx []) demo_owner 0 10 [81, 3]
     \<lparr>tr_version = 2, tr_lock_time = 0, tr_input = [], tr_output = [\<lparr>to_value = 50000, to_script_pubkey = [81, 3]\<rparr>]\<rparr> 0 w = (Ok (), w')
    \<and> dl_staking_outpoint (owner_delegations demo_owner w' ! 0) = Some ([81, 3], 0)"
  using staking_requires_proof [OF demo_relay_stake demo_reach_staking refl refl] demo_relay_stake by (auto simp del: demo_world_sel)

end
