(* ===== verification/Text_Numbers.thy ===== *)
theory Text_Numbers
  imports Prelude
begin

text \<open>
  Unsigned integers in texts, as \<open>str::parse\<close> of the standard library reads them; used for the amounts of
  wallet messages (src/src/app.rs) and the file of watched addresses (src/src/bitcoin/relayer.rs).
\<close>

section \<open>Reading\<close>

text \<open>\<open>str::parse\<close> for an unsigned integer of \<open>w\<close> bits: an optional plus sign, then decimal digits.\<close>

definition digit_of :: "char \<Rightarrow> nat option" where
  "digit_of c = (let n = of_char c :: nat in if 48 \<le> n \<and> n \<le> 57 then Some (n - 48) else None)"

fun parse_digits :: "nat \<Rightarrow> nat \<Rightarrow> string \<Rightarrow> string + nat" where
  "parse_digits w n [] = Inr n"
| "parse_digits w n (c # cs) =
     (case digit_of c of
        None \<Rightarrow> Inl ''invalid digit found in string''
      | Some d \<Rightarrow> if 10 * n + d < 2 ^ w then parse_digits w (10 * n + d) cs
                  else Inl ''number too large to fit in target type'')"

definition parse_uint :: "nat \<Rightarrow> string \<Rightarrow> string + nat" where
  "parse_uint w s =
     (case s of
        [] \<Rightarrow> Inl ''cannot parse integer from empty string''
      | c # cs \<Rightarrow> if c = CHR ''+'' then (if cs = [] then Inl ''invalid digit found in string'' else parse_digits w 0 cs)
                  else parse_digits w 0 s)"

section \<open>Numbers read back\<close>

text \<open>The value of a text of decimal digits, without a bound.\<close>

primrec dec_value :: "nat \<Rightarrow> string \<Rightarrow> nat" where
  "dec_value n [] = n"
| "dec_value n (c # cs) = dec_value (10 * n + (of_char c - 48)) cs"

definition is_dec :: "string \<Rightarrow> bool" where
  "is_dec s \<longleftrightarrow> (\<forall>c \<in> set s. 48 \<le> (of_char c :: nat) \<and> (of_char c :: nat) \<le> 57)"

lemma is_dec_simps [simp]: "is_dec []" "is_dec (c # cs) \<longleftrightarrow> digit_of c \<noteq> None \<and> is_dec cs"
  by (auto simp: is_dec_def digit_of_def Let_def)

lemma digit_of_Some: "digit_of c = Some d \<longleftrightarrow> 48 \<le> (of_char c :: nat) \<and> (of_char c :: nat) \<le> 57 \<and> d = of_char c - 48"
  by (auto simp: digit_of_def Let_def)

lemma dec_value_ge: "n \<le> dec_value n s"
proof (induction s arbitrary: n)
  case (Cons c cs)
  from Cons.IH [of "10 * n + (of_char c - 48)"] show ?case by simp
qed simp

lemma parse_digits_exact:
  "n < 2 ^ w \<Longrightarrow> parse_digits w n s = Inr m \<longleftrightarrow> is_dec s \<and> dec_value n s = m \<and> m < 2 ^ w"
proof (induction s arbitrary: n)
  case (Cons c cs)
  show ?case
  proof (cases "digit_of c")
    case (Some d)
    then have "of_char c - 48 = d" by (simp add: digit_of_Some)
    with Some Cons.IH [of "10 * n + d"] dec_value_ge [of "10 * n + d" cs] show ?thesis
      by auto
  qed simp
qed auto

text \<open>
  A number in a text is read exactly: parsing for \<open>w\<close> bits gives \<open>m\<close> just when the text, after
  an optional plus sign, is a non-empty run of decimal digits whose value is \<open>m\<close> and is below \<open>2 ^ w\<close>;
  nothing wraps around.
\<close>
theorem parse_uint_exact:
  "parse_uint w s = Inr m \<longleftrightarrow>
     (let ds = if s \<noteq> [] \<and> hd s = CHR ''+'' then tl s else s in ds \<noteq> [] \<and> is_dec ds \<and> dec_value 0 ds = m \<and> m < 2 ^ w)"
proof (cases s)
  case (Cons c cs)
  then show ?thesis
    using parse_digits_exact [of 0 w cs m] parse_digits_exact [of 0 w s m]
    by (simp add: parse_uint_def Let_def del: parse_digits.simps dec_value.simps is_dec_simps)
qed (simp add: parse_uint_def)

text \<open>The printed form of a number is read back.\<close>

lemma of_char_digit: "d < 10 \<Longrightarrow> of_char (char_of (48 + d) :: char) = (48 + d :: nat)"
  by simp

lemma dec_value_append: "dec_value n (s @ t) = dec_value (dec_value n s) t"
  by (induction s arbitrary: n) simp_all

lemma is_dec_append [simp]: "is_dec (s @ t) \<longleftrightarrow> is_dec s \<and> is_dec t"
  by (auto simp: is_dec_def)

lemma is_dec_digit: "(d :: nat) < 10 \<Longrightarrow> is_dec [char_of (48 + d)]"
  using of_char_digit [of d] by (auto simp: is_dec_def)

lemma decimal_value: "is_dec (decimal n) \<and> dec_value 0 (decimal n) = n \<and> decimal n \<noteq> []"
proof (induction n rule: decimal.induct)
  case (1 n)
  have "dec_value m [char_of (48 + d)] = 10 * m + d" if "d < 10" for m d
    using of_char_digit [OF that] by simp
  with 1 is_dec_digit show ?case
    by (cases "n < 10") (auto simp: decimal.simps [of n] dec_value_append simp del: dec_value.simps is_dec_simps)
qed

lemma decimal_char: "c \<in> set (decimal n) \<Longrightarrow> 48 \<le> (of_char c :: nat) \<and> (of_char c :: nat) \<le> 57"
  using decimal_value [of n] by (auto simp: is_dec_def)

lemma decimal_hd: "hd (decimal n) \<noteq> CHR ''+''"
  using decimal_char [of "hd (decimal n)" n] decimal_value [of n] by (auto intro: list.set_sel)

theorem parse_uint_decimal: "n < 2 ^ w \<Longrightarrow> parse_uint w (decimal n) = Inr n"
  using decimal_value [of n] decimal_hd [of n] by (simp add: parse_uint_exact)

end
