(* ===== verification/Wallet_Tx.thy ===== *)
theory Wallet_Tx
  imports App_Bridge Text_Numbers
begin

text \<open>
  Transactions of Cosmos wallets (\<open>ConvertSdkTx for InnerApp\<close> in src/src/app.rs): a transaction in protobuf
  or Amino JSON form becomes the pair of calls of a \<open>PaidCall\<close>, one that pays and one that is paid for. The
  deserializers, addresses and identifiers of other crates are the parameters of \<open>wallet_lib\<close>; a failure
  carries its message.
\<close>

section \<open>Transactions and calls\<close>

datatype json = JNull | JBool bool | JNum int | JStr string | JArr "json list" | JObj "(string \<times> json) list"

definition as_object :: "json \<Rightarrow> (string \<times> json) list option" where
  "as_object v = (case v of JObj members \<Rightarrow> Some members | _ \<Rightarrow> None)"

definition as_str :: "json \<Rightarrow> string option" where
  "as_str v = (case v of JStr s \<Rightarrow> Some s | _ \<Rightarrow> None)"

record any =
  an_type_url :: string
  an_value :: bytes

record proto_tx =
  px_bytes :: bytes
  px_messages :: "any list"

record amino_msg =
  am_type :: string
  am_value :: json

datatype sdk_tx = Protobuf proto_tx | Amino "amino_msg list"

record sdk_coin =
  sc_denom :: string
  sc_amount :: string

text \<open>A bank message of cosmrs, with the bytes of its addresses, and the messages of orga and of this file.\<close>

record proto_send =
  ps_from :: bytes
  ps_to :: bytes
  ps_amount :: "sdk_coin list"

record msg_send =
  se_from_address :: string
  se_to_address :: string
  se_amount :: "sdk_coin list"

record msg_delegate =
  md_delegator_address :: string
  md_validator_address :: string
  md_amount :: "sdk_coin option"

record msg_redelegate =
  mr_delegator_address :: string
  mr_validator_src_address :: string
  mr_validator_dst_address :: string
  mr_amount :: "sdk_coin option"

record MsgWithdraw =
  mw_amount :: string
  mw_dst_address :: string

record MsgIbcTransfer =
  mi_channel_id :: string
  mi_port_id :: string
  mi_amount :: string
  mi_denom :: string
  mi_receiver :: string
  mi_sender :: string
  mi_timeout_timestamp :: string
  mi_memo :: string

text \<open>The calls that \<open>build_call!\<close> is used for.\<close>

datatype app_call =
    Ibc_deliver bytes
  | App_noop
  | Accounts_take_as_funding u64
  | Accounts_transfer address u64
  | Accounts_give_from_funding_all
  | Bitcoin_transfer_call address u64
  | Bitcoin_set_recovery_script_call bytes
  | Bitcoin_transfer_to_fee_pool_call u64
  | Staking_delegate_from_self address u64
  | Staking_redelegate_self address address u64
  | Staking_unbond_self address u64
  | Staking_claim_all
  | Deposit_rewards
  | Claim_airdrop1
  | Claim_airdrop2
  | Claim_testnet_participation_incentives
  | Withdraw_nbtc bytes u64
  | Claim_escrowed_nbtc
  | Ibc_transfer_nbtc ibc_dest u64
  | Join_accounts address
  | Pay_nbtc_fee
  | Stake_nbtc u64 bytes u16

record paid_call =
  pc_payer :: app_call
  pc_paid :: app_call

record wallet_lib =
  min_fee :: u64
  sdk_sender_address :: "sdk_tx \<Rightarrow> address result"
  is_ibc_tx :: "proto_tx \<Rightarrow> bool"
  send_from_any :: "any \<Rightarrow> proto_send option"
  send_from_value :: "json \<Rightarrow> string + msg_send"
  delegate_from_value :: "json \<Rightarrow> string + msg_delegate"
  redelegate_from_value :: "json \<Rightarrow> string + msg_redelegate"
  undelegate_from_value :: "json \<Rightarrow> string + msg_delegate"
  withdraw_from_value :: "json \<Rightarrow> string + MsgWithdraw"
  ibc_from_value :: "json \<Rightarrow> string + MsgIbcTransfer"
  bech32_address :: "string \<Rightarrow> string + address"
  btc_address :: "string \<Rightarrow> string + network \<times> bytes"  \<comment> \<open>the network and the script\<close>
  network_string :: "network \<Rightarrow> string"
  parse_channel_text :: "string \<Rightarrow> string option"  \<comment> \<open>the identifier, printed\<close>
  parse_port_text :: "string \<Rightarrow> string option"
  hex_text :: "string \<Rightarrow> string + bytes"
  length_string :: "string \<Rightarrow> string result"  \<comment> \<open>\<open>LengthString<u8>::try_from\<close> of orga\<close>

section \<open>Errors and amounts\<close>

definition app_err :: "string + 'a \<Rightarrow> 'a result" where
  "app_err r = (case r of Inl e \<Rightarrow> Err (App e) | Inr a \<Rightarrow> Ok a)"

definition or_err :: "error \<Rightarrow> string + 'a \<Rightarrow> 'a result" where
  "or_err e r = (case r of Inl _ \<Rightarrow> Err e | Inr a \<Rightarrow> Ok a)"

definition get_amount :: "sdk_coin option \<Rightarrow> string \<Rightarrow> u64 result" where
  "get_amount coin expected_denom =
     rbind (ok_or (App ''Empty amount'') coin) (\<lambda>coin.
     if sc_denom coin \<noteq> expected_denom then Err (App (''Invalid denom in amount: '' @ sc_denom coin))
     else case parse_uint 64 (sc_amount coin) of Inl e \<Rightarrow> Err (ParseInt e) | Inr n \<Rightarrow> Ok n)"

section \<open>Protobuf transactions\<close>

definition quoted :: "string \<Rightarrow> string" where "quoted s = CHR 0x27 # s @ [CHR 0x27]"

definition paid_with :: "app_call \<Rightarrow> app_call \<Rightarrow> paid_call result" where
  "paid_with payer paid = Ok \<lparr>pc_payer = payer, pc_paid = paid\<rparr>"

definition to_address :: "string \<Rightarrow> bytes \<Rightarrow> address result" where
  "to_address what bs = (if length bs = 20 then Ok bs else Err (App what))"

definition convert_proto_send :: "'m wallet_lib_scheme \<Rightarrow> address \<Rightarrow> any \<Rightarrow> paid_call result" where
  "convert_proto_send L sender_address any =
     rbind (ok_or (App ''Invalid MsgSend'') (send_from_any L any)) (\<lambda>msg.
     rbind (to_address ''Invalid sender address'' (ps_from msg)) (\<lambda>from_addr.
     if from_addr \<noteq> sender_address then Err (App (quoted ''from_address'' @ '' must match sender address''))
     else
     rbind (to_address ''Invalid receiver address'' (ps_to msg)) (\<lambda>to_addr.
     case ps_amount msg of
       [coin] \<Rightarrow>
         if sc_denom coin = ''unom'' then
           rbind (or_err (App ''Invalid amount'') (parse_uint 64 (sc_amount coin))) (\<lambda>amount.
           paid_with (Accounts_take_as_funding (min_fee L)) (Accounts_transfer to_addr amount))
         else if sc_denom coin = ''usat'' then
           rbind (or_err (App ''Invalid amount'') (parse_uint 64 (sc_amount coin))) (\<lambda>amount.
           paid_with (Bitcoin_transfer_call to_addr amount) App_noop)
         else Err (App ''Unknown denom'')
     | _ \<Rightarrow> Err (App (quoted ''amount'' @ '' must have exactly one element'')))))"

definition convert_protobuf :: "'m wallet_lib_scheme \<Rightarrow> address \<Rightarrow> proto_tx \<Rightarrow> paid_call result" where
  "convert_protobuf L sender_address tx =
     (if is_ibc_tx L tx then paid_with (Ibc_deliver (px_bytes tx)) App_noop
      else case px_messages tx of
        [msg] \<Rightarrow> if an_type_url msg = ''cosmos-sdk/MsgSend'' then convert_proto_send L sender_address msg
                  else Err (App ''Unsupported protobuf transaction'')
      | _ \<Rightarrow> Err (App ''Only transactions with one message are supported''))"

section \<open>Amino transactions\<close>

definition convert_send :: "'m wallet_lib_scheme \<Rightarrow> address \<Rightarrow> json \<Rightarrow> paid_call result" where
  "convert_send L sender_address v =
     rbind (app_err (send_from_value L v)) (\<lambda>msg.
     rbind (app_err (bech32_address L (se_from_address msg))) (\<lambda>from_addr.
     if from_addr \<noteq> sender_address then Err (App (quoted ''from_address'' @ '' must match sender address''))
     else
     rbind (app_err (bech32_address L (se_to_address msg))) (\<lambda>to_addr.
     case se_amount msg of
       [coin] \<Rightarrow>
         if sc_denom coin = ''unom'' then
           rbind (get_amount (Some coin) ''unom'') (\<lambda>amount.
           paid_with (Accounts_take_as_funding (min_fee L)) (Accounts_transfer to_addr amount))
         else if sc_denom coin = ''usat'' then
           rbind (get_amount (Some coin) ''usat'') (\<lambda>amount.
           paid_with (Bitcoin_transfer_call to_addr amount) App_noop)
         else Err (App ''Unknown denom'')
     | _ \<Rightarrow> Err (App (quoted ''amount'' @ '' must have exactly one element'')))))"

text \<open>The delegator of a staking message must be the sender.\<close>

definition check_delegator :: "'m wallet_lib_scheme \<Rightarrow> address \<Rightarrow> string \<Rightarrow> unit result" where
  "check_delegator L sender_address delegator =
     rbind (app_err (bech32_address L delegator)) (\<lambda>del_addr.
     if del_addr \<noteq> sender_address then Err (App (quoted ''delegator_address'' @ '' must match sender address'')) else Ok ())"

definition convert_delegate :: "'m wallet_lib_scheme \<Rightarrow> address \<Rightarrow> json \<Rightarrow> paid_call result" where
  "convert_delegate L sender_address v =
     rbind (app_err (delegate_from_value L v)) (\<lambda>msg.
     rbind (check_delegator L sender_address (md_delegator_address msg)) (\<lambda>_.
     rbind (app_err (bech32_address L (md_validator_address msg))) (\<lambda>val_addr.
     rbind (get_amount (md_amount msg) ''unom'') (\<lambda>amount.
     rbind (add_u64 (min_fee L) amount) (\<lambda>funding_amt.
     paid_with (Accounts_take_as_funding funding_amt) (Staking_delegate_from_self val_addr amount))))))"

definition convert_redelegate :: "'m wallet_lib_scheme \<Rightarrow> address \<Rightarrow> json \<Rightarrow> paid_call result" where
  "convert_redelegate L sender_address v =
     rbind (app_err (redelegate_from_value L v)) (\<lambda>msg.
     rbind (check_delegator L sender_address (mr_delegator_address msg)) (\<lambda>_.
     rbind (app_err (bech32_address L (mr_validator_src_address msg))) (\<lambda>val_src_addr.
     rbind (app_err (bech32_address L (mr_validator_dst_address msg))) (\<lambda>val_dst_addr.
     rbind (get_amount (mr_amount msg) ''unom'') (\<lambda>amount.
     paid_with (Accounts_take_as_funding (min_fee L)) (Staking_redelegate_self val_src_addr val_dst_addr amount))))))"

definition convert_undelegate :: "'m wallet_lib_scheme \<Rightarrow> address \<Rightarrow> json \<Rightarrow> paid_call result" where
  "convert_undelegate L sender_address v =
     rbind (app_err (undelegate_from_value L v)) (\<lambda>msg.
     rbind (check_delegator L sender_address (md_delegator_address msg)) (\<lambda>_.
     rbind (app_err (bech32_address L (md_validator_address msg))) (\<lambda>val_addr.
     rbind (get_amount (md_amount msg) ''unom'') (\<lambda>amount.
     paid_with (Accounts_take_as_funding (min_fee L)) (Staking_unbond_self val_addr amount)))))"

definition message_object :: "json \<Rightarrow> (string \<times> json) list result" where
  "message_object v = ok_or (App ''Invalid message value'') (as_object v)"

text \<open>The messages without content.\<close>

definition convert_empty :: "app_call \<Rightarrow> app_call \<Rightarrow> json \<Rightarrow> paid_call result" where
  "convert_empty payer paid v =
     rbind (message_object v) (\<lambda>msg.
     if msg \<noteq> [] then Err (App ''Message should be empty'') else paid_with payer paid)"

definition network_mismatch :: "'m wallet_lib_scheme \<Rightarrow> string \<Rightarrow> network \<Rightarrow> error" where
  "network_mismatch L what got =
     App (''Invalid network for '' @ what @ '' address. Got '' @ network_string L got @ '', Expected '' @ network_string L NETWORK)"

definition convert_withdraw :: "'m wallet_lib_scheme \<Rightarrow> json \<Rightarrow> paid_call result" where
  "convert_withdraw L v =
     rbind (app_err (withdraw_from_value L v)) (\<lambda>msg.
     rbind (app_err (btc_address L (mw_dst_address msg))) (\<lambda>(net, script).
     if \<not> matches_bitcoin_network net then Err (network_mismatch L ''destination'' net)
     else
     rbind (app_err (parse_uint 64 (mw_amount msg))) (\<lambda>amount.
     paid_with (Withdraw_nbtc script amount) App_noop)))"

definition convert_ibc_transfer :: "'m wallet_lib_scheme \<Rightarrow> address \<Rightarrow> json \<Rightarrow> paid_call result" where
  "convert_ibc_transfer L sender_address v =
     rbind (app_err (ibc_from_value L v)) (\<lambda>msg.
     rbind (ok_or (Ibc ''Invalid channel id'') (parse_channel_text L (mi_channel_id msg))) (\<lambda>channel_id.
     rbind (ok_or (Ibc ''Invalid port'') (parse_port_text L (mi_port_id msg))) (\<lambda>port_id.
     if mi_denom msg \<noteq> ''usat'' then Err (App ''Unsupported denom for IBC transfer'')
     else
     rbind (app_err (parse_uint 64 (mi_amount msg))) (\<lambda>amount.
     rbind (or_err (Ibc ''Invalid sender address'') (bech32_address L (mi_sender msg))) (\<lambda>ibc_sender_addr.
     if ibc_sender_addr \<noteq> sender_address then Err (App (quoted ''sender'' @ '' must match sender address''))
     else
     rbind (or_err (Ibc ''Invalid timeout timestamp'') (parse_uint 64 (mi_timeout_timestamp msg))) (\<lambda>timeout_timestamp.
     rbind (length_string L port_id) (\<lambda>source_port.
     rbind (length_string L channel_id) (\<lambda>source_channel.
     rbind (length_string L (mi_sender msg)) (\<lambda>sender.
     rbind (length_string L (mi_receiver msg)) (\<lambda>receiver.
     rbind (length_string L (mi_memo msg)) (\<lambda>memo.
     paid_with (Ibc_transfer_nbtc \<lparr>ib_source_port = source_port, ib_source_channel = source_channel, ib_receiver = receiver,
         ib_sender = sender, ib_timeout_timestamp = timeout_timestamp, ib_memo = memo\<rparr> amount) App_noop)))))))))))"

text \<open>\<open>msg.get(key)...as_str()...\<close> with the errors for a missing member and for one that is not a string.\<close>

definition str_member :: "string \<Rightarrow> string \<Rightarrow> string \<Rightarrow> (string \<times> json) list \<Rightarrow> string result" where
  "str_member missing invalid key msg =
     rbind (ok_or (App missing) (map_of msg key)) (\<lambda>v. ok_or (App invalid) (as_str v))"

definition convert_join :: "'m wallet_lib_scheme \<Rightarrow> json \<Rightarrow> paid_call result" where
  "convert_join L v =
     rbind (message_object v) (\<lambda>msg.
     rbind (str_member ''Missing destination address'' ''Invalid destination address'' ''dest_address'' msg) (\<lambda>s.
     rbind (or_err (App ''Invalid destination address'') (bech32_address L s)) (\<lambda>dest_addr.
     paid_with (Join_accounts dest_addr) App_noop)))"

definition convert_set_recovery :: "'m wallet_lib_scheme \<Rightarrow> json \<Rightarrow> paid_call result" where
  "convert_set_recovery L v =
     rbind (message_object v) (\<lambda>msg.
     rbind (str_member ''Missing reovery address'' ''Invalid recovery address'' ''recovery_address'' msg) (\<lambda>s.
     rbind (or_err (App ''Invalid recovery address'') (btc_address L s)) (\<lambda>(net, script).
     if \<not> matches_bitcoin_network net then Err (network_mismatch L ''recovery'' net)
     else paid_with Pay_nbtc_fee (Bitcoin_set_recovery_script_call script))))"

definition convert_pay_to_fee_pool :: "json \<Rightarrow> paid_call result" where
  "convert_pay_to_fee_pool v =
     rbind (message_object v) (\<lambda>msg.
     rbind (str_member ''Missing amount'' ''Invalid amount'' ''amount'' msg) (\<lambda>s.
     rbind (app_err (parse_uint 64 s)) (\<lambda>amount.
     paid_with (Bitcoin_transfer_to_fee_pool_call amount) App_noop)))"

definition convert_stake_nbtc :: "'m wallet_lib_scheme \<Rightarrow> json \<Rightarrow> paid_call result" where
  "convert_stake_nbtc L v =
     rbind (message_object v) (\<lambda>msg.
     rbind (str_member ''Invalid amount'' ''Invalid amount'' ''amount'' msg) (\<lambda>s.
     rbind (app_err (parse_uint 64 s)) (\<lambda>amount.
     rbind (str_member ''Invalid finality provider'' ''Invalid finality provider'' ''finality_provider'' msg) (\<lambda>s.
     rbind (app_err (hex_text L s)) (\<lambda>fp.
     if length fp \<noteq> 32 then Err (App ''Invalid finality provider'')
     else
     rbind (str_member ''Invalid staking period'' ''Invalid staking period'' ''staking_period'' msg) (\<lambda>s.
     rbind (app_err (parse_uint 16 s)) (\<lambda>staking_period.
     rbind (str_member ''Invalid unbonding period'' ''Invalid unbonding period'' ''unbonding_period'' msg) (\<lambda>s.
     rbind (app_err (parse_uint 16 s)) (\<lambda>unbonding_period.
     paid_with Pay_nbtc_fee (Stake_nbtc amount fp staking_period))))))))))"

definition convert_amino :: "'m wallet_lib_scheme \<Rightarrow> address \<Rightarrow> amino_msg \<Rightarrow> paid_call result" where
  "convert_amino L sender_address msg =
     (let type = am_type msg; v = am_value msg in
      if type = ''cosmos-sdk/MsgSend'' then convert_send L sender_address v
      else if type = ''cosmos-sdk/MsgDelegate'' then convert_delegate L sender_address v
      else if type = ''cosmos-sdk/MsgBeginRedelegate'' then convert_redelegate L sender_address v
      else if type = ''cosmos-sdk/MsgUndelegate'' then convert_undelegate L sender_address v
      else if type = ''nomic/MsgClaimRewards'' then convert_empty Staking_claim_all Deposit_rewards v
      else if type = ''nomic/MsgClaimAirdrop1'' then convert_empty Claim_airdrop1 Accounts_give_from_funding_all v
      else if type = ''nomic/MsgClaimAirdrop2'' then convert_empty Claim_airdrop2 Accounts_give_from_funding_all v
      else if type = ''nomic/MsgWithdraw'' then convert_withdraw L v
      else if type = ''nomic/MsgClaimIbcBitcoin'' then convert_empty Claim_escrowed_nbtc App_noop v
      else if type = ''nomic/MsgIbcTransferOut'' then convert_ibc_transfer L sender_address v
      else if type = ''nomic/MsgJoinRewardAccounts'' then convert_join L v
      else if type = ''nomic/MsgClaimTestnetParticipationIncentives''
      then convert_empty Claim_testnet_participation_incentives Accounts_give_from_funding_all v
      else if type = ''nomic/MsgSetRecoveryAddress'' then convert_set_recovery L v
      else if type = ''nomic/MsgPayToFeePool'' then convert_pay_to_fee_pool v
      else if type = ''nomic/MsgStakeNbtc'' then convert_stake_nbtc L v
      else Err (App ''Unsupported message type''))"

definition InnerApp_convert :: "'m wallet_lib_scheme \<Rightarrow> sdk_tx \<Rightarrow> paid_call result" where
  "InnerApp_convert L sdk_tx =
     rbind (sdk_sender_address L sdk_tx) (\<lambda>sender_address.
     case sdk_tx of
       Protobuf tx \<Rightarrow> convert_protobuf L sender_address tx
     | Amino [msg] \<Rightarrow> convert_amino L sender_address msg
     | Amino _ \<Rightarrow> Err (App ''Invalid number of messages''))"

section \<open>Who a transaction acts for\<close>

text \<open>The address that a message names as the one it acts for.\<close>

definition named_sender :: "'m wallet_lib_scheme \<Rightarrow> amino_msg \<Rightarrow> string option" where
  "named_sender L msg =
     (let type = am_type msg; v = am_value msg in
      if type = ''cosmos-sdk/MsgSend'' then (case send_from_value L v of Inl _ \<Rightarrow> None | Inr m \<Rightarrow> Some (se_from_address m))
      else if type = ''cosmos-sdk/MsgDelegate'' then (case delegate_from_value L v of Inl _ \<Rightarrow> None | Inr m \<Rightarrow> Some (md_delegator_address m))
      else if type = ''cosmos-sdk/MsgBeginRedelegate'' then (case redelegate_from_value L v of Inl _ \<Rightarrow> None | Inr m \<Rightarrow> Some (mr_delegator_address m))
      else if type = ''cosmos-sdk/MsgUndelegate'' then (case undelegate_from_value L v of Inl _ \<Rightarrow> None | Inr m \<Rightarrow> Some (md_delegator_address m))
      else if type = ''nomic/MsgIbcTransferOut'' then (case ibc_from_value L v of Inl _ \<Rightarrow> None | Inr m \<Rightarrow> Some (mi_sender m))
      else None)"

text \<open>
  What a paid call takes out of the funds of its payer, beside the fee of a transaction: only a delegation takes any.
\<close>

definition funds_used :: "app_call \<Rightarrow> u64" where
  "funds_used call = (case call of Staking_delegate_from_self val amount \<Rightarrow> amount | _ \<Rightarrow> 0)"

definition funded :: "'m wallet_lib_scheme \<Rightarrow> paid_call \<Rightarrow> bool" where
  "funded L pc \<longleftrightarrow> (\<forall>n. pc_payer pc = Accounts_take_as_funding n \<longrightarrow> n = min_fee L + funds_used (pc_paid pc))
     \<and> (0 < funds_used (pc_paid pc) \<longrightarrow> (\<exists>n. pc_payer pc = Accounts_take_as_funding n))"

lemma paid_with_Ok [simp]: "paid_with payer paid = Ok pc \<longleftrightarrow> pc = \<lparr>pc_payer = payer, pc_paid = paid\<rparr>"
  by (auto simp: paid_with_def)

lemma app_err_Ok [simp]: "app_err r = Ok a \<longleftrightarrow> r = Inr a" and or_err_Ok [simp]: "or_err e r = Ok a \<longleftrightarrow> r = Inr a"
  by (auto simp: app_err_def or_err_def split: sum.splits)

lemma singleton_Ok [simp]: "(case xs of [] \<Rightarrow> Err e | [x] \<Rightarrow> f x | x # y # zs \<Rightarrow> Err e') = Ok r \<longleftrightarrow> (\<exists>x. xs = [x] \<and> f x = Ok r)"
  by (auto split: list.split)

lemma convert_send_Ok:
  assumes "convert_send L a v = Ok pc"
  shows "funded L pc" "\<exists>msg. send_from_value L v = Inr msg \<and> bech32_address L (se_from_address msg) = Inr a"
  using assms by (auto simp: convert_send_def funded_def funds_used_def split: if_split_asm)

lemma convert_delegation_Ok:
  "convert_delegate L a v = Ok pc \<Longrightarrow> funded L pc \<and> (\<exists>msg. delegate_from_value L v = Inr msg \<and> bech32_address L (md_delegator_address msg) = Inr a)"
  "convert_redelegate L a v = Ok pc \<Longrightarrow> funded L pc \<and> (\<exists>msg. redelegate_from_value L v = Inr msg \<and> bech32_address L (mr_delegator_address msg) = Inr a)"
  "convert_undelegate L a v = Ok pc \<Longrightarrow> funded L pc \<and> (\<exists>msg. undelegate_from_value L v = Inr msg \<and> bech32_address L (md_delegator_address msg) = Inr a)"
  by (auto simp: convert_delegate_def convert_redelegate_def convert_undelegate_def check_delegator_def funded_def funds_used_def add_w_def)

lemma convert_ibc_transfer_Ok:
  "convert_ibc_transfer L a v = Ok pc \<Longrightarrow> funded L pc \<and> (\<exists>msg. ibc_from_value L v = Inr msg \<and> bech32_address L (mi_sender msg) = Inr a)"
  by (auto simp: convert_ibc_transfer_def funded_def funds_used_def)

lemma convert_rest_Ok:
  "convert_withdraw L v = Ok pc \<Longrightarrow> funded L pc" "convert_join L v = Ok pc \<Longrightarrow> funded L pc" "convert_set_recovery L v = Ok pc \<Longrightarrow> funded L pc"
  "convert_pay_to_fee_pool v = Ok pc \<Longrightarrow> funded L pc" "convert_stake_nbtc L v = Ok pc \<Longrightarrow> funded L pc"
  by (auto simp: convert_withdraw_def convert_join_def convert_set_recovery_def convert_pay_to_fee_pool_def convert_stake_nbtc_def funded_def funds_used_def)

lemma convert_empty_Ok: "convert_empty payer paid v = Ok pc \<Longrightarrow> funded L \<lparr>pc_payer = payer, pc_paid = paid\<rparr> \<Longrightarrow> funded L pc"
  by (auto simp: convert_empty_def)

lemma convert_amino_funded: "convert_amino L a msg = Ok pc \<Longrightarrow> funded L pc"
  unfolding convert_amino_def Let_def
  by (auto split: if_split_asm dest: convert_send_Ok(1) convert_delegation_Ok convert_ibc_transfer_Ok convert_rest_Ok
      elim!: convert_empty_Ok) (auto simp: funded_def funds_used_def)

lemma convert_amino_sender:
  assumes "convert_amino L a msg = Ok pc" and "named_sender L msg = Some s"
  shows "bech32_address L s = Inr a"
  using assms unfolding convert_amino_def named_sender_def Let_def
  by (auto split: if_split_asm sum.split_asm dest: convert_send_Ok(2) convert_delegation_Ok convert_ibc_transfer_Ok)

lemma convert_protobuf_Ok:
  assumes "convert_protobuf L a tx = Ok pc"
  shows "funded L pc"
    and "is_ibc_tx L tx \<and> pc_payer pc = Ibc_deliver (px_bytes tx) \<or>
         (\<exists>any msg. px_messages tx = [any] \<and> send_from_any L any = Some msg \<and> ps_from msg = a)"
  using assms
  by (auto simp: convert_protobuf_def convert_proto_send_def to_address_def funded_def funds_used_def split: if_split_asm)

text \<open>
  C32: A wallet transaction that is converted acts for the account that signed it. In Amino form it has exactly one
  message, and the sender that the message names, if it names one, is the signer. In protobuf form it is either an IBC transaction, which
  is delivered as it is and not checked further here, or has exactly one message, a transfer from the signer. When the
  payer takes funds, it takes the fee and what the paid call uses of them, and a paid call that uses funds has such a payer.
\<close>
theorem wallet_acts_for_sender:
  assumes "InnerApp_convert L tx = Ok pc"
  shows "\<exists>a. sdk_sender_address L tx = Ok a \<and> funded L pc \<and>
           (case tx of
              Amino msgs \<Rightarrow> \<exists>msg. msgs = [msg] \<and> (\<forall>s. named_sender L msg = Some s \<longrightarrow> bech32_address L s = Inr a)
            | Protobuf ptx \<Rightarrow> is_ibc_tx L ptx \<and> pc_payer pc = Ibc_deliver (px_bytes ptx) \<or>
                (\<exists>any msg. px_messages ptx = [any] \<and> send_from_any L any = Some msg \<and> ps_from msg = a))"
proof -
  from assms obtain a where a: "sdk_sender_address L tx = Ok a"
    by (auto simp: InnerApp_convert_def)
  show ?thesis
  proof (cases tx)
    case (Protobuf ptx)
    then have "convert_protobuf L a ptx = Ok pc"
      using assms a by (simp add: InnerApp_convert_def)
    then show ?thesis
      using a Protobuf convert_protobuf_Ok by fastforce
  next
    case (Amino msgs)
    then obtain msg where "msgs = [msg]" "convert_amino L a msg = Ok pc"
      using assms a by (auto simp: InnerApp_convert_def)
    then show ?thesis
      using a Amino convert_amino_funded convert_amino_sender by fastforce
  qed
qed

section \<open>Two conversions that do not do what they should\<close>

text \<open>A delegation of an amount close to the largest integer overflows when the fee is added.\<close>

theorem delegate_amount_overflows:
  assumes "delegate_from_value L v = Inr msg" and "bech32_address L (md_delegator_address msg) = Inr a"
    and "bech32_address L (md_validator_address msg) = Inr val" and "get_amount (md_amount msg) ''unom'' = Ok n"
    and "2 ^ 64 \<le> min_fee L + n"
  shows "convert_delegate L a v = Err Panic"
  using assms by (simp add: convert_delegate_def check_delegator_def app_err_def add_w_def)

text \<open>The unbonding period of a staking message must be a number, and has no effect on the call.\<close>

theorem stake_ignores_unbonding_period:
  assumes "convert_stake_nbtc L (JObj msg) = Ok pc" and "parse_uint 16 s = Inr period"
  shows "convert_stake_nbtc L (JObj ((''unbonding_period'', JStr s) # msg)) = Ok pc"
  using assms
  by (auto simp: convert_stake_nbtc_def message_object_def as_object_def str_member_def as_str_def split: if_split_asm)

section \<open>A concrete wallet\<close>

text \<open>Addresses are their own texts, and the members of a message are read by name.\<close>

definition demo_member :: "json \<Rightarrow> string \<Rightarrow> string" where
  "demo_member v key = (case map_of (the (as_object v)) key of Some (JStr s) \<Rightarrow> s | _ \<Rightarrow> [])"

definition demo_wallet :: wallet_lib where
  "demo_wallet =
     \<lparr>min_fee = 10000, sdk_sender_address = (\<lambda>tx. Ok (map of_char ''alice'')), is_ibc_tx = (\<lambda>tx. px_messages tx = []),
      send_from_any = (\<lambda>any. None),
      send_from_value = (\<lambda>v. Inr \<lparr>se_from_address = demo_member v ''from_address'', se_to_address = demo_member v ''to_address'',
        se_amount = [\<lparr>sc_denom = demo_member v ''denom'', sc_amount = demo_member v ''amount''\<rparr>]\<rparr>),
      delegate_from_value = (\<lambda>v. Inr \<lparr>md_delegator_address = demo_member v ''delegator_address'',
        md_validator_address = demo_member v ''validator_address'',
        md_amount = Some \<lparr>sc_denom = ''unom'', sc_amount = demo_member v ''amount''\<rparr>\<rparr>),
      redelegate_from_value = (\<lambda>v. Inl ''redelegate''), undelegate_from_value = (\<lambda>v. Inl ''undelegate''),
      withdraw_from_value = (\<lambda>v. Inl ''withdraw''), ibc_from_value = (\<lambda>v. Inl ''ibc''),
      bech32_address = (\<lambda>s. Inr (map of_char s)), btc_address = (\<lambda>s. Inl ''address''), network_string = (\<lambda>n. []),
      parse_channel_text = Some, parse_port_text = Some, hex_text = (\<lambda>s. Inr (map of_char s)), length_string = Ok\<rparr>"

definition demo_delegate :: "string \<Rightarrow> string \<Rightarrow> json" where
  "demo_delegate delegator amount =
     JObj [(''delegator_address'', JStr delegator), (''validator_address'', JStr ''bob''), (''amount'', JStr amount)]"

lemmas wallet_eval = InnerApp_convert_def convert_amino_def convert_delegate_def check_delegator_def named_sender_def get_amount_def
  parse_uint_def digit_of_def demo_wallet_def demo_delegate_def demo_member_def as_object_def app_err_def add_w_def paid_with_def Let_def

lemma demo_delegate_converts:
  "InnerApp_convert demo_wallet (Amino [\<lparr>am_type = ''cosmos-sdk/MsgDelegate'', am_value = demo_delegate ''alice'' ''250''\<rparr>]) =
     Ok \<lparr>pc_payer = Accounts_take_as_funding 10250, pc_paid = Staking_delegate_from_self (map of_char ''bob'') 250\<rparr>"
  by (simp add: wallet_eval)

lemma demo_delegate_other:
  "InnerApp_convert demo_wallet (Amino [\<lparr>am_type = ''cosmos-sdk/MsgDelegate'', am_value = demo_delegate ''carol'' ''250''\<rparr>]) =
     Err (App (quoted ''delegator_address'' @ '' must match sender address''))"
  by (simp add: wallet_eval)

theorem wallet_acts_for_sender_witness:
  "funded demo_wallet \<lparr>pc_payer = Accounts_take_as_funding 10250, pc_paid = Staking_delegate_from_self (map of_char ''bob'') 250\<rparr> \<and>
   named_sender demo_wallet \<lparr>am_type = ''cosmos-sdk/MsgDelegate'', am_value = demo_delegate ''alice'' ''250''\<rparr> = Some ''alice'' \<and>
   bech32_address demo_wallet ''alice'' = Inr (map of_char ''alice'')"
proof -
  have "named_sender demo_wallet \<lparr>am_type = ''cosmos-sdk/MsgDelegate'', am_value = demo_delegate ''alice'' ''250''\<rparr> = Some ''alice''"
    by (simp add: wallet_eval)
  moreover have "sdk_sender_address demo_wallet tx = Ok a \<longleftrightarrow> a = map of_char ''alice''" for tx a
    by (auto simp: demo_wallet_def)
  ultimately show ?thesis
    using wallet_acts_for_sender [OF demo_delegate_converts] by (simp only: sdk_tx.case list.inject simp_thms ex_simps)
qed

lemma demo_delegate_overflows:
  "convert_delegate demo_wallet (map of_char ''alice'') (demo_delegate ''alice'' ''18446744073709551615'') = Err Panic"
  by (simp add: wallet_eval)

end
