(* ===== verification/Watched_Scripts.thy ===== *)
theory Watched_Scripts
  imports Checkpoint_Queue Deposit_Index Text_Numbers
begin

text \<open>
  The deposit addresses that a relayer watches (\<open>WatchedScripts\<close> and \<open>WatchedScriptStore\<close> in
  src/src/bitcoin/relayer.rs) and the text form of a destination (src/src/app.rs). The file that keeps the
  addresses is the list of its lines; base64 and the decoder of destinations are the parameters of \<open>dest_text\<close>.
  The operations on the file itself are taken not to fail.
\<close>

section \<open>Watched scripts\<close>

record watched_scripts =
  ws_scripts :: "(bytes \<times> dest \<times> u32) list"
  ws_sigsets :: "(u32 \<times> signatory_set \<times> dest list) list"

definition WatchedScripts_new :: watched_scripts where
  "WatchedScripts_new = \<lparr>ws_scripts = [], ws_sigsets = []\<rparr>"

definition WatchedScripts_get :: "bytes \<Rightarrow> watched_scripts \<Rightarrow> (dest \<times> u32) option" where
  "WatchedScripts_get script ws = map_of (ws_scripts ws) script"

definition WatchedScripts_has :: "bytes \<Rightarrow> watched_scripts \<Rightarrow> bool" where
  "WatchedScripts_has script ws = omap_contains script (ws_scripts ws)"

definition WatchedScripts_len :: "watched_scripts \<Rightarrow> nat" where
  "WatchedScripts_len ws = length (ws_scripts ws)"

definition WatchedScripts_is_empty :: "watched_scripts \<Rightarrow> bool" where
  "WatchedScripts_is_empty ws = (ws_scripts ws = [])"

definition derive_script ::
  "'m dest_lib_scheme \<Rightarrow> dest \<Rightarrow> signatory_set \<Rightarrow> u64 \<times> u64 \<Rightarrow> bytes result" where
  "derive_script L dest sigset threshold =
     rbind (Dest_commitment_bytes L dest) (\<lambda>commitment. SignatorySet_output_script L sigset commitment threshold)"

text \<open>\<open>self.sigsets.entry(sigset.index()).or_insert((sigset.clone(), vec![]))\<close> followed by \<open>dests.push(dest)\<close>.\<close>

definition push_dest ::
  "signatory_set \<Rightarrow> dest \<Rightarrow> (u32 \<times> signatory_set \<times> dest list) list \<Rightarrow> (u32 \<times> signatory_set \<times> dest list) list" where
  "push_dest sigset dest m =
     (let m = (if omap_contains (ss_index sigset) m then m else omap_insert (\<lambda>k. k) (ss_index sigset) (sigset, []) m) in
      omap_modify (ss_index sigset) (\<lambda>(set, dests). (set, dests @ [dest])) m)"

definition WatchedScripts_insert ::
  "'m dest_lib_scheme \<Rightarrow> dest \<Rightarrow> signatory_set \<Rightarrow> watched_scripts \<Rightarrow> (bool \<times> watched_scripts) result" where
  "WatchedScripts_insert L dest sigset ws =
     rbind (derive_script L dest sigset SIGSET_THRESHOLD) (\<lambda>script.
     if omap_contains script (ws_scripts ws) then Ok (False, ws)
     else Ok (True, ws\<lparr>ws_scripts := hm_insert script (dest, ss_index sigset) (ws_scripts ws),
                       ws_sigsets := push_dest sigset dest (ws_sigsets ws)\<rparr>))"

text \<open>The two loops of \<open>remove_expired\<close>; the scripts removed before an error stay removed.\<close>

fun expire_dests ::
  "'m dest_lib_scheme \<Rightarrow> signatory_set \<Rightarrow> dest list \<Rightarrow> ((bytes \<times> dest \<times> u32) list, unit) call" where
  "expire_dests L sigset [] = lift_result (Ok ())"
| "expire_dests L sigset (dest # dests) =
     cbind (lift_result (derive_script L dest sigset SIGSET_THRESHOLD)) (\<lambda>script.
     cbind (modify (omap_remove script)) (\<lambda>_.
     expire_dests L sigset dests))"

fun expire_sets ::
  "'m dest_lib_scheme \<Rightarrow> u64 \<Rightarrow> u64 \<Rightarrow> (u32 \<times> signatory_set \<times> dest list) list
     \<Rightarrow> ((bytes \<times> dest \<times> u32) list, unit) call" where
  "expire_sets L now max_age [] = lift_result (Ok ())"
| "expire_sets L now max_age ((index, sigset, dests) # sigsets) =
     cbind (lift_result (add_u64 (ss_create_time sigset) max_age)) (\<lambda>expiry.
     if now < expiry then lift_result (Ok ())
     else cbind (expire_dests L sigset dests) (\<lambda>_. expire_sets L now max_age sigsets))"

definition WatchedScripts_remove_expired :: "'m dest_lib_scheme \<Rightarrow> u64 \<Rightarrow> u64 \<Rightarrow> (watched_scripts, unit) call" where
  "WatchedScripts_remove_expired L now max_age ws =
     (let (r, scripts) = expire_sets L now max_age (ws_sigsets ws) (ws_scripts ws) in (r, ws\<lparr>ws_scripts := scripts\<rparr>))"

section \<open>The file of addresses\<close>

record dest_text =
  base64_encode :: "bytes \<Rightarrow> string"
  base64_decode :: "string \<Rightarrow> bytes option"
  dest_decode :: "bytes \<Rightarrow> dest result"
  address_string :: "address \<Rightarrow> string"  \<comment> \<open>\<open>Display for Address\<close>\<close>

definition Dest_to_base64 :: "'m dest_lib_scheme \<Rightarrow> 'n dest_text_scheme \<Rightarrow> dest \<Rightarrow> string result" where
  "Dest_to_base64 L T dest = rbind (dest_encode L dest) (\<lambda>bs. Ok (base64_encode T bs))"

definition Dest_from_base64 :: "'n dest_text_scheme \<Rightarrow> string \<Rightarrow> dest result" where
  "Dest_from_base64 T s = rbind (ok_or (App ''Failed to decode base64'') (base64_decode T s)) (dest_decode T)"

definition Dest_to_receiver_addr :: "'n dest_text_scheme \<Rightarrow> dest \<Rightarrow> string option" where
  "Dest_to_receiver_addr T dest =
     (case dest of NativeAccount address \<Rightarrow> Some (address_string T address) | Ibc_dest data \<Rightarrow> Some (ib_receiver data) | _ \<Rightarrow> None)"

record watched_store =
  wd_scripts :: watched_scripts
  wd_file :: "string list"

definition store_line :: "'m dest_lib_scheme \<Rightarrow> 'n dest_text_scheme \<Rightarrow> dest \<Rightarrow> u32 \<Rightarrow> string result" where
  "store_line L T dest sigset_index =
     rbind (Dest_to_base64 L T dest) (\<lambda>text. Ok (text @ CHR '','' # decimal sigset_index))"

definition WatchedScriptStore_insert ::
  "'m dest_lib_scheme \<Rightarrow> 'n dest_text_scheme \<Rightarrow> dest \<Rightarrow> signatory_set \<Rightarrow> (watched_store, unit) call" where
  "WatchedScriptStore_insert L T dest sigset =
     cbind (reads (\<lambda>st. WatchedScripts_insert L dest sigset (wd_scripts st))) (\<lambda>(inserted, ws).
     cbind (modify (wd_scripts_update (\<lambda>_. ws))) (\<lambda>_.
     if inserted then
       cbind (lift_result (store_line L T dest (ss_index sigset))) (\<lambda>line.
       modify (wd_file_update (\<lambda>file. file @ [line])))
     else lift_result (Ok ())))"

text \<open>\<open>line.split(sep)\<close>\<close>

fun split_on :: "char \<Rightarrow> string \<Rightarrow> string list" where
  "split_on sep [] = [[]]"
| "split_on sep (c # s) =
     (if c = sep then [] # split_on sep s
      else case split_on sep s of [] \<Rightarrow> [[c]] | piece # pieces \<Rightarrow> (c # piece) # pieces)"

definition load_line ::
  "'m dest_lib_scheme \<Rightarrow> 'n dest_text_scheme \<Rightarrow> (u32 \<times> signatory_set) list \<Rightarrow> watched_scripts \<Rightarrow> string
     \<Rightarrow> watched_scripts result" where
  "load_line L T sigsets ws line =
     (case split_on CHR '','' line of
        text # index_text # _ \<Rightarrow>
          (case parse_uint 32 index_text of
             Inl _ \<Rightarrow> Err (App ''Could not parse sigset index'')
           | Inr sigset_index \<Rightarrow>
               (case map_of sigsets sigset_index of
                  None \<Rightarrow> Ok ws
                | Some sigset \<Rightarrow>
                    rbind (Dest_from_base64 T text) (\<lambda>dest.
                    rbind (WatchedScripts_insert L dest sigset ws) (\<lambda>(_, ws). Ok ws))))
      | _ \<Rightarrow> Err Panic)"

text \<open>
  \<open>maybe_load\<close> on the scripts \<open>WatchedScripts::new()\<close> that its only caller passes; \<open>None\<close> is a missing
  file, and the queue of checkpoints is what the two queries to the chain see.
\<close>

definition WatchedScriptStore_maybe_load ::
  "'m dest_lib_scheme \<Rightarrow> 'n dest_text_scheme \<Rightarrow> checkpoint_queue \<Rightarrow> u64 \<Rightarrow> string list option \<Rightarrow> watched_scripts result" where
  "WatchedScriptStore_maybe_load L T q now file =
     (case file of
        None \<Rightarrow> Ok WatchedScripts_new
      | Some lines \<Rightarrow>
          rbind (CheckpointQueue_all q) (\<lambda>checkpoints.
          let sigsets = map (\<lambda>(index, checkpoint). (index, cp_sigset checkpoint)) checkpoints in
          rbind (fold_result (load_line L T sigsets) WatchedScripts_new lines) (\<lambda>ws.
          let (r, ws) = WatchedScripts_remove_expired L now (cc_max_age (cq_config q)) ws in
          rbind r (\<lambda>_. Ok ws))))"

text \<open>\<open>open\<close> rewrites the file with the scripts loaded, in the order in which the hash map is visited.\<close>

definition WatchedScriptStore_open ::
  "'m dest_lib_scheme \<Rightarrow> 'n dest_text_scheme \<Rightarrow> ((dest \<times> u32) list \<Rightarrow> (dest \<times> u32) list) \<Rightarrow> checkpoint_queue \<Rightarrow> u64
     \<Rightarrow> string list option \<Rightarrow> watched_store result" where
  "WatchedScriptStore_open L T visit q now file =
     rbind (WatchedScriptStore_maybe_load L T q now file) (\<lambda>ws.
     rbind (map_result (\<lambda>(dest, index). store_line L T dest index) (visit (map snd (ws_scripts ws)))) (\<lambda>lines.
     Ok \<lparr>wd_scripts = ws, wd_file = lines\<rparr>))"

section \<open>What is watched\<close>

text \<open>
  The life of the collection. \<open>sets i\<close> is the signatory set of checkpoint \<open>i\<close>, which never changes; \<open>ann\<close> holds the
  destinations announced so far and \<open>gone\<close> those whose set had expired at some sweep.
\<close>

definition expired_set :: "signatory_set \<Rightarrow> u64 \<Rightarrow> u64 \<Rightarrow> bool" where
  "expired_set sigset now max_age \<longleftrightarrow> ss_create_time sigset + max_age \<le> now"

inductive ws_run ::
  "'m dest_lib_scheme \<Rightarrow> (u32 \<Rightarrow> signatory_set) \<Rightarrow> (dest \<times> u32) set \<Rightarrow> (dest \<times> u32) set \<Rightarrow> watched_scripts \<Rightarrow> bool"
  for L :: "'m dest_lib_scheme" and sets where
  init: "ws_run L sets {} {} WatchedScripts_new"
| announce: "ws_run L sets ann gone ws \<Longrightarrow> ss_index (sets i) = i \<Longrightarrow> WatchedScripts_insert L dest (sets i) ws = Ok (b, ws')
    \<Longrightarrow> ws_run L sets (insert (dest, i) ann) gone ws'"
| sweep: "ws_run L sets ann gone ws \<Longrightarrow> WatchedScripts_remove_expired L now max_age ws = (r, ws')
    \<Longrightarrow> ws_run L sets ann (gone \<union> {(dest, i). (dest, i) \<in> ann \<and> expired_set (sets i) now max_age}) ws'"

definition script_of :: "'m dest_lib_scheme \<Rightarrow> (u32 \<Rightarrow> signatory_set) \<Rightarrow> dest \<times> u32 \<Rightarrow> bytes result" where
  "script_of L sets = (\<lambda>(dest, i). derive_script L dest (sets i) SIGSET_THRESHOLD)"

text \<open>The part of the invariant on the signatory sets, and the one on the scripts.\<close>

definition sigsets_inv :: "(u32 \<Rightarrow> signatory_set) \<Rightarrow> (dest \<times> u32) set \<Rightarrow> watched_scripts \<Rightarrow> bool" where
  "sigsets_inv sets ann ws \<longleftrightarrow> omap_inv (\<lambda>k. k) (ws_sigsets ws)
     \<and> (\<forall>i set' dests. (i, set', dests) \<in> set (ws_sigsets ws) \<longrightarrow> set' = sets i \<and> (\<forall>d \<in> set dests. (d, i) \<in> ann))"

definition listed :: "watched_scripts \<Rightarrow> dest \<times> u32 \<Rightarrow> bool" where
  "listed ws = (\<lambda>(dest, i). \<exists>set' dests. (i, set', dests) \<in> set (ws_sigsets ws) \<and> dest \<in> set dests)"

definition scripts_inv :: "'m dest_lib_scheme \<Rightarrow> (u32 \<Rightarrow> signatory_set) \<Rightarrow> (dest \<times> u32) set \<Rightarrow> watched_scripts \<Rightarrow> bool" where
  "scripts_inv L sets ann ws \<longleftrightarrow>
     (\<forall>script p. map_of (ws_scripts ws) script = Some p \<longrightarrow> p \<in> ann \<and> script_of L sets p = Ok script \<and> listed ws p)"

lemma mem_omap_insert: "distinct (map fst m) \<Longrightarrow> map_of m k = None \<Longrightarrow> set (omap_insert f k v m) = insert (k, v) (set m)"
  by (induction m) (auto split: if_split_asm)

lemma mem_omap_modify: "(j, w) \<in> set (omap_modify k g m) \<longleftrightarrow> (\<exists>v. (j, v) \<in> set m \<and> w = (if j = k then g v else v))"
  by (force simp: omap_modify_def)

lemma mem_push_dest:
  assumes "omap_inv (\<lambda>k. k) m" and "ss_index sigset = i" and "\<And>s' ds. (i, s', ds) \<in> set m \<Longrightarrow> s' = sigset"
  shows "omap_inv (\<lambda>k. k) (push_dest sigset dest m)"
    and "set (push_dest sigset dest m) =
      {(j, s', ds). (j, s', ds) \<in> set m \<and> j \<noteq> i} \<union> {(i, sigset, (case map_of m i of None \<Rightarrow> [] | Some (_, ds) \<Rightarrow> ds) @ [dest])}"
proof -
  show "omap_inv (\<lambda>k. k) (push_dest sigset dest m)"
    using assms(1) by (auto simp: push_dest_def Let_def intro!: omap_inv_insert)
  have d: "distinct (map fst m)" using assms(1) by (rule omap_inv_distinct)
  show "set (push_dest sigset dest m) =
      {(j, s', ds). (j, s', ds) \<in> set m \<and> j \<noteq> i} \<union> {(i, sigset, (case map_of m i of None \<Rightarrow> [] | Some (_, ds) \<Rightarrow> ds) @ [dest])}"
  proof (cases "map_of m i")
    case None
    then have "\<forall>(j, v) \<in> set m. j \<noteq> i" by (force simp: map_of_eq_None_iff)
    with None d assms(2) show ?thesis
      by (auto simp: push_dest_def omap_contains_def mem_omap_insert mem_omap_modify split: if_split_asm)
  next
    case (Some v)
    then have v: "(i, v) \<in> set m" by (rule map_of_SomeD)
    with assms(3) obtain ds where ds: "v = (sigset, ds)" by (cases v) auto
    have u: "(i, w) \<in> set m \<longleftrightarrow> w = (sigset, ds)" for w
      using v ds eq_key_imp_eq_value [OF d] by blast
    have "push_dest sigset dest m = omap_modify i (\<lambda>(s', ds). (s', ds @ [dest])) m"
      using Some assms(2) by (simp add: push_dest_def omap_contains_def)
    with Some ds show ?thesis
      by (auto simp: mem_omap_modify u split: if_split_asm)
  qed
qed

lemma insert_Ok:
  assumes "WatchedScripts_insert L dest sigset ws = Ok (b, ws')"
  obtains script where "derive_script L dest sigset SIGSET_THRESHOLD = Ok script"
    and "if map_of (ws_scripts ws) script = None
         then ws' = ws\<lparr>ws_scripts := hm_insert script (dest, ss_index sigset) (ws_scripts ws), ws_sigsets := push_dest sigset dest (ws_sigsets ws)\<rparr>
         else ws' = ws"
  using assms by (auto simp: WatchedScripts_insert_def omap_contains_def split: if_split_asm)

lemma announce_sigsets:
  assumes inv: "sigsets_inv sets ann ws" and i: "ss_index (sets i) = i" and ins: "WatchedScripts_insert L dest (sets i) ws = Ok (b, ws')"
  shows "sigsets_inv sets (insert (dest, i) ann) ws'" and "listed ws p \<Longrightarrow> listed ws' p"
    and "ws' \<noteq> ws \<Longrightarrow> listed ws' (dest, i)"
proof -
  have m: "omap_inv (\<lambda>k. k) (ws_sigsets ws)" "\<And>s' ds. (i, s', ds) \<in> set (ws_sigsets ws) \<Longrightarrow> s' = sets i"
    using inv by (auto simp: sigsets_inv_def)
  have old: "map_of (ws_sigsets ws) i = Some (s', ds) \<Longrightarrow> d \<in> set ds \<Longrightarrow> (d, i) \<in> ann" for s' ds d
    using inv by (auto simp: sigsets_inv_def dest!: map_of_SomeD)
  note push = mem_push_dest [where dest = dest, OF m(1) i m(2)]
  from ins show "sigsets_inv sets (insert (dest, i) ann) ws'"
    using inv push(1) old
    by (auto elim!: insert_Ok split: if_split_asm option.split_asm simp: sigsets_inv_def push(2))
  have "listed (ws\<lparr>ws_scripts := x, ws_sigsets := push_dest (sets i) dest (ws_sigsets ws)\<rparr>) p" if p: "listed ws p" for x
  proof -
    from p obtain d j s' ds where mem: "p = (d, j)" "(j, s', ds) \<in> set (ws_sigsets ws)" "d \<in> set ds"
      by (auto simp: listed_def)
    then have "map_of (ws_sigsets ws) j = Some (s', ds)" using omap_inv_distinct [OF m(1)] by simp
    with mem show ?thesis
      by (cases "j = i") (auto simp: listed_def push(2))
  qed
  with ins show "listed ws p \<Longrightarrow> listed ws' p"
    by (elim insert_Ok) (simp split: if_split_asm)
  from ins show "ws' \<noteq> ws \<Longrightarrow> listed ws' (dest, i)"
    by (elim insert_Ok) (auto simp: listed_def push(2) split: if_split_asm)
qed

lemma announce_scripts:
  assumes inv: "scripts_inv L sets ann ws" "sigsets_inv sets ann ws" and i: "ss_index (sets i) = i"
    and ins: "WatchedScripts_insert L dest (sets i) ws = Ok (b, ws')"
  shows "scripts_inv L sets (insert (dest, i) ann) ws'"
    and "script_of L sets (dest, i) = Ok script \<Longrightarrow> map_of (ws_scripts ws') script \<noteq> None"
    and "map_of (ws_scripts ws) script \<noteq> None \<Longrightarrow> map_of (ws_scripts ws') script \<noteq> None"
proof -
  obtain script' where d: "derive_script L dest (sets i) SIGSET_THRESHOLD = Ok script'"
    and ws': "if map_of (ws_scripts ws) script' = None
         then ws' = ws\<lparr>ws_scripts := hm_insert script' (dest, i) (ws_scripts ws), ws_sigsets := push_dest (sets i) dest (ws_sigsets ws)\<rparr>
         else ws' = ws"
    using ins i by (auto elim!: insert_Ok)
  have l: "listed ws p \<Longrightarrow> listed ws' p" "ws' \<noteq> ws \<Longrightarrow> listed ws' (dest, i)" for p
    by (rule announce_sigsets [OF inv(2) i ins], assumption)+
  show "scripts_inv L sets (insert (dest, i) ann) ws'"
  proof (cases "map_of (ws_scripts ws) script' = None")
    case True
    then have "ws' \<noteq> ws" using ws' by (auto simp: hm_insert_def dest!: arg_cong [where f = "\<lambda>w. map_of (ws_scripts w) script'"])
    with True ws' l inv(1) d show ?thesis
      by (auto simp: scripts_inv_def script_of_def)
  next
    case False
    with ws' inv(1) show ?thesis by (auto simp: scripts_inv_def)
  qed
  show "script_of L sets (dest, i) = Ok script \<Longrightarrow> map_of (ws_scripts ws') script \<noteq> None"
    using d ws' by (auto simp: script_of_def split: if_split_asm)
  show "map_of (ws_scripts ws) script \<noteq> None \<Longrightarrow> map_of (ws_scripts ws') script \<noteq> None"
    using ws' by (auto split: if_split_asm)
qed

text \<open>A sweep removes scripts of expired sets, and when it succeeds and sets are made in order, all of them.\<close>

lemma expire_dests_only:
  assumes "expire_dests L sigset dests scripts = (r, scripts')"
  shows "map_of scripts' s = map_of scripts s \<or>
    map_of scripts' s = None \<and> (\<exists>d \<in> set dests. derive_script L d sigset SIGSET_THRESHOLD = Ok s)"
  using assms
proof (induction dests arbitrary: scripts)
  case (Cons d dests)
  show ?case
  proof (cases "derive_script L d sigset SIGSET_THRESHOLD")
    case (Ok s')
    with Cons.prems have "expire_dests L sigset dests (omap_remove s' scripts) = (r, scripts')"
      by (simp add: cbind_def lift_result_def modify_def)
    from Cons.IH [OF this] Ok show ?thesis by (auto split: if_split_asm)
  qed (use Cons.prems in \<open>simp add: cbind_def lift_result_def\<close>)
qed (simp add: lift_result_def)

lemma expire_dests_all:
  assumes "expire_dests L sigset dests scripts = (Ok (), scripts')" and "d \<in> set dests"
    and "derive_script L d sigset SIGSET_THRESHOLD = Ok s"
  shows "map_of scripts' s = None"
  using assms(1,2)
proof (induction dests arbitrary: scripts)
  case (Cons e dests)
  then obtain s' where s': "derive_script L e sigset SIGSET_THRESHOLD = Ok s'"
    and rest: "expire_dests L sigset dests (omap_remove s' scripts) = (Ok (), scripts')" by auto
  show ?case
  proof (cases "d \<in> set dests")
    case True
    then show ?thesis using Cons.IH rest by blast
  next
    case False
    then have "s' = s" using Cons.prems s' assms(3) by simp
    with expire_dests_only [OF rest, of s] show ?thesis by auto
  qed
qed simp

definition in_expired ::
  "'m dest_lib_scheme \<Rightarrow> u64 \<Rightarrow> u64 \<Rightarrow> (u32 \<times> signatory_set \<times> dest list) list \<Rightarrow> bytes \<Rightarrow> bool" where
  "in_expired L now max_age sigsets s \<longleftrightarrow> (\<exists>i set' ds d. (i, set', ds) \<in> set sigsets \<and> expired_set set' now max_age
     \<and> d \<in> set ds \<and> derive_script L d set' SIGSET_THRESHOLD = Ok s)"

lemma in_expired_Cons:
  "in_expired L now max_age ((i, set', ds) # sigsets) s \<longleftrightarrow>
     expired_set set' now max_age \<and> (\<exists>d \<in> set ds. derive_script L d set' SIGSET_THRESHOLD = Ok s) \<or> in_expired L now max_age sigsets s"
  unfolding in_expired_def by auto

lemma expire_sets_only:
  assumes "expire_sets L now max_age sigsets scripts = (r, scripts')"
  shows "map_of scripts' s = map_of scripts s \<or> map_of scripts' s = None \<and> in_expired L now max_age sigsets s"
  using assms
proof (induction L now max_age sigsets arbitrary: scripts rule: expire_sets.induct)
  case (2 L now max_age i sigset ds sigsets)
  show ?case
  proof (cases "now < ss_create_time sigset + max_age \<or> ss_create_time sigset + max_age \<ge> 2 ^ 64")
    case True
    with "2.prems" have "scripts' = scripts"
      by (auto simp: cbind_def lift_result_def add_w_def split: if_split_asm)
    then show ?thesis by simp
  next
    case False
    then have e: "expired_set sigset now max_age" and sum: "add_u64 (ss_create_time sigset) max_age = Ok (ss_create_time sigset + max_age)"
      by (auto simp: expired_set_def)
    obtain r1 mid where mid: "expire_dests L sigset ds scripts = (r1, mid)" by fastforce
    note only = expire_dests_only [OF mid, of s]
    show ?thesis
    proof (cases r1)
      case (Err x)
      with "2.prems" mid False sum have "scripts' = mid" by (simp add: cbind_def lift_result_def)
      with only e show ?thesis by (auto simp: in_expired_Cons)
    next
      case (Ok u)
      with "2.prems" mid False sum have "expire_sets L now max_age sigsets mid = (r, scripts')"
        by (simp add: cbind_def lift_result_def)
      from "2.IH" [OF _ this, of "ss_create_time sigset + max_age"] False only e show ?thesis by (auto simp: in_expired_Cons)
    qed
  qed
qed (simp add: lift_result_def)

lemma expire_sets_all:
  assumes "expire_sets L now max_age sigsets scripts = (Ok (), scripts')"
    and "sorted (map (\<lambda>(i, set', ds). ss_create_time set') sigsets)" and "in_expired L now max_age sigsets s"
  shows "map_of scripts' s = None"
  using assms
proof (induction sigsets arbitrary: scripts)
  case (Cons x sigsets)
  obtain i sigset ds where x: "x = (i, sigset, ds)" by (cases x)
  have first: "expired_set sigset now max_age"
    using Cons.prems(2,3) by (fastforce simp: x in_expired_def expired_set_def)
  with Cons.prems(1) obtain mid where mid: "expire_dests L sigset ds scripts = (Ok (), mid)"
    and rest: "expire_sets L now max_age sigsets mid = (Ok (), scripts')"
    by (auto simp: x expired_set_def)
  show ?case
  proof (cases "in_expired L now max_age sigsets s")
    case True
    then show ?thesis using Cons.IH [OF rest] Cons.prems(2) by simp
  next
    case False
    with Cons.prems(3) obtain d where "d \<in> set ds" "derive_script L d sigset SIGSET_THRESHOLD = Ok s"
      by (auto simp: x in_expired_Cons)
    then have "map_of mid s = None" by (rule expire_dests_all [OF mid])
    with expire_sets_only [OF rest, of s] show ?thesis by auto
  qed
qed (simp add: in_expired_def)

lemma sweep_eq:
  "WatchedScripts_remove_expired L now max_age ws = (r, ws') \<longleftrightarrow>
     (\<exists>scripts. expire_sets L now max_age (ws_sigsets ws) (ws_scripts ws) = (r, scripts) \<and> ws' = ws\<lparr>ws_scripts := scripts\<rparr>)"
  by (auto simp: WatchedScripts_remove_expired_def split: prod.split)

lemma in_expired_ann:
  assumes "sigsets_inv sets ann ws" and "in_expired L now max_age (ws_sigsets ws) s"
  shows "\<exists>d i. (d, i) \<in> ann \<and> expired_set (sets i) now max_age \<and> script_of L sets (d, i) = Ok s"
  using assms unfolding in_expired_def sigsets_inv_def script_of_def by fastforce

definition ws_inv ::
  "'m dest_lib_scheme \<Rightarrow> (u32 \<Rightarrow> signatory_set) \<Rightarrow> (dest \<times> u32) set \<Rightarrow> (dest \<times> u32) set \<Rightarrow> watched_scripts \<Rightarrow> bool" where
  "ws_inv L sets ann gone ws \<longleftrightarrow> sigsets_inv sets ann ws \<and> scripts_inv L sets ann ws
     \<and> (\<forall>p s. p \<in> ann \<longrightarrow> script_of L sets p = Ok s \<longrightarrow> (\<forall>q \<in> gone. script_of L sets q \<noteq> Ok s) \<longrightarrow> map_of (ws_scripts ws) s \<noteq> None)"

lemma ws_run_inv: "ws_run L sets ann gone ws \<Longrightarrow> ws_inv L sets ann gone ws"
proof (induction rule: ws_run.induct)
  case init
  then show ?case by (simp add: ws_inv_def sigsets_inv_def scripts_inv_def WatchedScripts_new_def)
next
  case (announce ann gone ws i dest b ws')
  then have inv: "sigsets_inv sets ann ws" "scripts_inv L sets ann ws" by (auto simp: ws_inv_def)
  note step = announce_sigsets(1) [OF inv(1) announce.hyps(2,3)] announce_scripts [OF inv(2,1) announce.hyps(2,3)]
  with announce.IH show ?case by (auto simp: ws_inv_def)
next
  case (sweep ann gone ws now max_age r ws')
  then obtain scripts where run: "expire_sets L now max_age (ws_sigsets ws) (ws_scripts ws) = (r, scripts)"
    and ws': "ws' = ws\<lparr>ws_scripts := scripts\<rparr>" by (auto simp: sweep_eq)
  note only = expire_sets_only [OF run]
  from sweep.IH have inv: "sigsets_inv sets ann ws" "scripts_inv L sets ann ws" by (auto simp: ws_inv_def)
  have "scripts_inv L sets ann ws'"
unfolding scripts_inv_def
  proof (intro allI impI)
    fix s q assume "map_of (ws_scripts ws') s = Some q"
    then have "map_of (ws_scripts ws) s = Some q" using only [of s] by (auto simp: ws')
    then show "q \<in> ann \<and> script_of L sets q = Ok s \<and> listed ws' q"
      using inv(2) by (cases q) (simp add: scripts_inv_def ws' listed_def)
  qed
  moreover have "map_of scripts s = map_of (ws_scripts ws) s"
    if "\<forall>q \<in> gone \<union> {(d, i). (d, i) \<in> ann \<and> expired_set (sets i) now max_age}. script_of L sets q \<noteq> Ok s" for s
    using only [of s] in_expired_ann [OF inv(1), of L now max_age s] that by blast
  ultimately show ?case
    using sweep.IH inv(1) unfolding ws_inv_def ws' sigsets_inv_def by auto
qed

text \<open>When later checkpoints have later signatory sets, a sweep that succeeds leaves no script of an expired one.\<close>

lemma sorted_create_times:
  assumes "sigsets_inv sets ann ws" and "\<And>i j. i \<le> j \<Longrightarrow> ss_create_time (sets i) \<le> ss_create_time (sets j)"
  shows "sorted (map (\<lambda>(i, set', ds). ss_create_time set') (ws_sigsets ws))"
proof -
  have eq: "map (\<lambda>(i, set', ds). ss_create_time set') (ws_sigsets ws) = map (ss_create_time \<circ> sets) (map fst (ws_sigsets ws))"
    using assms(1) by (auto simp: sigsets_inv_def)
  have keys: "sorted (map fst (ws_sigsets ws))"
    using assms(1) by (simp add: sigsets_inv_def omap_inv_def comp_def)
  have "sorted (map f xs)" if "sorted xs" "\<And>i j :: nat. i \<le> j \<Longrightarrow> f i \<le> (f j :: nat)" for f xs
    using that by (induction xs) auto
  from this [OF keys, of "ss_create_time \<circ> sets"] assms(2) show ?thesis unfolding eq by simp
qed

theorem sweep_leaves_no_expired:
  assumes run: "ws_run L sets ann gone ws" and mono: "\<And>i j. i \<le> j \<Longrightarrow> ss_create_time (sets i) \<le> ss_create_time (sets j)"
    and sweep: "WatchedScripts_remove_expired L now max_age ws = (Ok (), ws')" and found: "WatchedScripts_get s ws' = Some (d, i)"
  shows "now < ss_create_time (sets i) + max_age"
proof (rule ccontr)
  assume "\<not> ?thesis"
  then have e: "expired_set (sets i) now max_age" by (simp add: expired_set_def)
  obtain scripts where sw: "expire_sets L now max_age (ws_sigsets ws) (ws_scripts ws) = (Ok (), scripts)"
    and ws': "ws' = ws\<lparr>ws_scripts := scripts\<rparr>" using sweep by (auto simp: sweep_eq)
  have inv: "sigsets_inv sets ann ws" "scripts_inv L sets ann ws" using ws_run_inv [OF run] by (auto simp: ws_inv_def)
  have "map_of (ws_scripts ws) s = Some (d, i)"
    using found expire_sets_only [OF sw, of s] by (auto simp: WatchedScripts_get_def ws')
  then have "script_of L sets (d, i) = Ok s" "listed ws (d, i)" using inv(2) by (auto simp: scripts_inv_def)
  then have "in_expired L now max_age (ws_sigsets ws) s"
    using inv(1) e unfolding in_expired_def listed_def script_of_def sigsets_inv_def by fastforce
  moreover have "sorted (map (\<lambda>(i, set', ds). ss_create_time set') (ws_sigsets ws))"
    using sorted_create_times [OF inv(1)] mono by blast
  ultimately have "map_of scripts s = None" using expire_sets_all [OF sw] by blast
  then show False using found by (simp add: WatchedScripts_get_def ws')
qed

text \<open>
  C33: A relayer watches the addresses it should, whatever is announced and swept: a script that is
  found belongs to a destination announced for that checkpoint, and is the output script of its
  signatory set with its commitment; the script of an announced destination is found as long as
  no destination with that script was swept as expired; and right after a sweep that succeeds, no script that is
  found is of a signatory set that has expired, when later checkpoints have later signatory sets.
\<close>
theorem watched_scripts_exact:
  assumes "ws_run L sets ann gone ws" and "\<And>i j. i \<le> j \<Longrightarrow> ss_create_time (sets i) \<le> ss_create_time (sets j)"
  shows "(\<forall>s d i. WatchedScripts_get s ws = Some (d, i) \<longrightarrow>
            (d, i) \<in> ann \<and> derive_script L d (sets i) SIGSET_THRESHOLD = Ok s)
    \<and> (\<forall>s d i. (d, i) \<in> ann \<longrightarrow> derive_script L d (sets i) SIGSET_THRESHOLD = Ok s \<longrightarrow>
            (\<forall>d' i'. (d', i') \<in> gone \<longrightarrow> derive_script L d' (sets i') SIGSET_THRESHOLD \<noteq> Ok s) \<longrightarrow> WatchedScripts_has s ws)
    \<and> (\<forall>now max_age ws' s d i. WatchedScripts_remove_expired L now max_age ws = (Ok (), ws') \<longrightarrow>
            WatchedScripts_get s ws' = Some (d, i) \<longrightarrow> now < ss_create_time (sets i) + max_age)"
proof (intro conjI allI impI)
  note inv = ws_run_inv [OF assms(1), unfolded ws_inv_def]
  fix s d i
  show "(d, i) \<in> ann" "derive_script L d (sets i) SIGSET_THRESHOLD = Ok s" if "WatchedScripts_get s ws = Some (d, i)"
    using that inv by (auto simp: scripts_inv_def script_of_def WatchedScripts_get_def)
  show "now < ss_create_time (sets i) + max_age"
    if "WatchedScripts_remove_expired L now max_age ws = (Ok (), ws')" "WatchedScripts_get s ws' = Some (d, i)" for now max_age ws'
    by (rule sweep_leaves_no_expired [OF assms that])
  assume d: "(d, i) \<in> ann" "derive_script L d (sets i) SIGSET_THRESHOLD = Ok s"
    and "\<forall>d' i'. (d', i') \<in> gone \<longrightarrow> derive_script L d' (sets i') SIGSET_THRESHOLD \<noteq> Ok s"
  then have "\<forall>q \<in> gone. script_of L sets q \<noteq> Ok s" "script_of L sets (d, i) = Ok s" by (auto simp: script_of_def)
  with inv d(1) show "WatchedScripts_has s ws" unfolding WatchedScripts_has_def omap_contains_def by blast
qed

section \<open>The file is read back\<close>

text \<open>What is documented of the text forms of the destinations in \<open>D\<close>: decoding inverts encoding, and base64 has no comma.\<close>

definition text_law :: "'m dest_lib_scheme \<Rightarrow> 'n dest_text_scheme \<Rightarrow> dest set \<Rightarrow> bool" where
  "text_law L T D \<longleftrightarrow> (\<forall>d \<in> D. \<forall>bs. dest_encode L d = Ok bs \<longrightarrow>
     base64_decode T (base64_encode T bs) = Some bs \<and> dest_decode T bs = Ok d \<and> CHR '','' \<notin> set (base64_encode T bs))"

fun announce_all ::
  "'m dest_lib_scheme \<Rightarrow> 'n dest_text_scheme \<Rightarrow> (dest \<times> signatory_set) list \<Rightarrow> (watched_store, unit) call" where
  "announce_all L T [] = lift_result (Ok ())"
| "announce_all L T ((dest, sigset) # rest) =
     cbind (WatchedScriptStore_insert L T dest sigset) (\<lambda>_. announce_all L T rest)"

lemma split_on_single [simp]: "sep \<notin> set s \<Longrightarrow> split_on sep s = [s]"
  by (induction s) auto

lemma split_on_pair: "sep \<notin> set s \<Longrightarrow> sep \<notin> set t \<Longrightarrow> split_on sep (s @ sep # t) = [s, t]"
  by (induction s) auto

lemma comma_not_decimal: "CHR '','' \<notin> set (decimal n)"
  using decimal_char [of "CHR '',''" n] by auto

lemma load_stored_line:
  assumes "text_law L T D" and "d \<in> D" and "store_line L T d i = Ok line" and "i < 2 ^ 32" and "map_of sigsets i = Some sigset"
    and "WatchedScripts_insert L d sigset ws = Ok (b, ws')"
  shows "load_line L T sigsets ws line = Ok ws'"
proof -
  obtain bs where "dest_encode L d = Ok bs" "line = base64_encode T bs @ CHR '','' # decimal i"
    using assms(3) by (auto simp: store_line_def Dest_to_base64_def)
  with assms show ?thesis
    by (simp add: load_line_def text_law_def split_on_pair comma_not_decimal parse_uint_decimal Dest_from_base64_def)
qed

lemma announce_reload:
  assumes law: "text_law L T (fst ` set ps)" and ann: "announce_all L T ps st = (Ok (), st')"
    and known: "\<And>d sigset. (d, sigset) \<in> set ps \<Longrightarrow> map_of sigsets (ss_index sigset) = Some sigset \<and> ss_index sigset < 2 ^ 32"
    and st: "fold_result (load_line L T sigsets) WatchedScripts_new (wd_file st) = Ok (wd_scripts st)"
  shows "fold_result (load_line L T sigsets) WatchedScripts_new (wd_file st') = Ok (wd_scripts st')"
  using law ann known st
proof (induction ps arbitrary: st)
  case (Cons p ps)
  obtain d sigset where p: "p = (d, sigset)" by (cases p)
  with Cons.prems(2) obtain mid where ins: "WatchedScriptStore_insert L T d sigset st = (Ok (), mid)"
    and rest: "announce_all L T ps mid = (Ok (), st')" by auto
  have k: "map_of sigsets (ss_index sigset) = Some sigset" "ss_index sigset < 2 ^ 32" using Cons.prems(3) p by auto
  from ins obtain b ws where ws: "WatchedScripts_insert L d sigset (wd_scripts st) = Ok (b, ws)"
    by (auto simp: WatchedScriptStore_insert_def)
  have mid: "if b then \<exists>line. store_line L T d (ss_index sigset) = Ok line \<and> mid = st\<lparr>wd_scripts := ws, wd_file := wd_file st @ [line]\<rparr>
              else mid = st\<lparr>wd_scripts := ws\<rparr>"
    using ins ws by (cases b) (auto simp: WatchedScriptStore_insert_def)
  have "fold_result (load_line L T sigsets) WatchedScripts_new (wd_file mid) = Ok (wd_scripts mid)"
  proof (cases b)
    case True
    with mid obtain line where "store_line L T d (ss_index sigset) = Ok line" "mid = st\<lparr>wd_scripts := ws, wd_file := wd_file st @ [line]\<rparr>"
      by auto
    with Cons.prems(4) load_stored_line [OF Cons.prems(1) _ _ k(2,1) ws] p show ?thesis by (simp add: fold_result_append)
  next
    case False
    with ws have "ws = wd_scripts st" by (auto simp: WatchedScripts_insert_def split: if_split_asm)
    with False mid Cons.prems(4) show ?thesis by simp
  qed
  moreover have "text_law L T (fst ` set ps)" using Cons.prems(1) by (simp add: text_law_def)
  ultimately show ?case using Cons.IH [OF _ rest] Cons.prems(3) by (meson list.set_intros(2))
qed simp

text \<open>
  The addresses survive a restart of the relayer: what \<open>maybe_load\<close> reads back from the file, as
  long as the chain still has the checkpoints, is what was watched, swept of what has expired since.
\<close>
theorem watched_store_reloads:
  assumes "text_law L T (fst ` set ps)" and "announce_all L T ps \<lparr>wd_scripts = WatchedScripts_new, wd_file = []\<rparr> = (Ok (), st)"
    and "CheckpointQueue_all q = Ok cps"
    and "\<And>d sigset. (d, sigset) \<in> set ps \<Longrightarrow>
      map_of (map (\<lambda>(i, cp). (i, cp_sigset cp)) cps) (ss_index sigset) = Some sigset \<and> ss_index sigset < 2 ^ 32"
    and "WatchedScripts_remove_expired L now (cc_max_age (cq_config q)) (wd_scripts st) = (Ok (), ws)"
  shows "WatchedScriptStore_maybe_load L T q now (Some (wd_file st)) = Ok ws"
  using announce_reload [OF assms(1,2,4)] assms(3,5)
  by (simp add: WatchedScriptStore_maybe_load_def Let_def)

section \<open>A concrete relayer\<close>

definition demo_text :: dest_text where
  "demo_text = \<lparr>base64_encode = map (\<lambda>b. if b = 44 then CHR ''x'' else char_of (unat b)),
     base64_decode = (\<lambda>s. Some (map (\<lambda>c. of_nat (of_char c)) s)), dest_decode = (\<lambda>bs. Ok (NativeAccount (tl bs))), address_string = (\<lambda>a. [])\<rparr>"

definition demo_watch :: checkpoint_queue where
  "demo_watch = \<lparr>cq_queue = [demo_building], cq_index = 4, cq_confirmed_index = None, cq_config = CheckpointConfig_default\<rparr>"

lemma demo_derives: "\<exists>s. derive_script demo_dest_lib (NativeAccount [5]) demo_small_ss SIGSET_THRESHOLD = Ok s"
  by (simp add: derive_script_def Dest_commitment_bytes_def SignatorySet_output_script_def SignatorySet_redeem_script_def demo_small_ss_def
      SignatorySet_signature_threshold_def SIGSET_THRESHOLD_def demo_dest_lib_def tx_lib.defs demo_tx_lib_def script_lib.defs
      demo_script_lib_def Let_def div_u_def)

lemma demo_watch_insert:
  assumes "derive_script demo_dest_lib (NativeAccount [5]) demo_small_ss SIGSET_THRESHOLD = Ok s"
  shows "WatchedScripts_insert demo_dest_lib (NativeAccount [5]) demo_small_ss WatchedScripts_new =
    Ok (True, \<lparr>ws_scripts = [(s, NativeAccount [5], 4)], ws_sigsets = [(4, demo_small_ss, [NativeAccount [5]])]\<rparr>)"
  using assms
  by (simp add: WatchedScripts_insert_def WatchedScripts_new_def omap_contains_def hm_insert_def push_dest_def omap_modify_def omap_remove_def)
    (simp add: demo_small_ss_def)

theorem watched_scripts_exact_witness:
  "\<exists>s ws ws'. derive_script demo_dest_lib (NativeAccount [5]) demo_small_ss SIGSET_THRESHOLD = Ok s
     \<and> ws_run demo_dest_lib (\<lambda>_. demo_small_ss) {(NativeAccount [5], 4)} {} ws \<and> WatchedScripts_has s ws
     \<and> WatchedScripts_remove_expired demo_dest_lib (ss_create_time demo_small_ss + 10) 10 ws = (Ok (), ws')
     \<and> WatchedScripts_get s ws' \<noteq> Some (NativeAccount [5], 4)"
proof -
  obtain s where s: "derive_script demo_dest_lib (NativeAccount [5]) demo_small_ss SIGSET_THRESHOLD = Ok s"
    using demo_derives by blast
  let ?ws = "\<lparr>ws_scripts = [(s, NativeAccount [5], 4)], ws_sigsets = [(4, demo_small_ss, [NativeAccount [5]])]\<rparr>"
  let ?sweep = "WatchedScripts_remove_expired demo_dest_lib (ss_create_time demo_small_ss + 10) 10 ?ws"
  have run: "ws_run demo_dest_lib (\<lambda>_. demo_small_ss) {(NativeAccount [5], 4)} {} ?ws"
    using ws_run.announce [OF ws_run.init, of "\<lambda>_. demo_small_ss" 4, OF _ demo_watch_insert [OF s]]
    by (simp add: demo_small_ss_def)
  have "fst ?sweep = Ok ()"
    using s by (simp add: WatchedScripts_remove_expired_def cbind_def lift_result_def modify_def demo_small_ss_def add_w_def)
  then have sweep: "?sweep = (Ok (), snd ?sweep)" by (metis prod.collapse)
  note exact = watched_scripts_exact [OF run order.refl]
  have "WatchedScripts_has s ?ws" using exact s by auto
  moreover have "WatchedScripts_get s (snd ?sweep) \<noteq> Some (NativeAccount [5], 4)"
    using exact [THEN conjunct2, THEN conjunct2, rule_format, OF sweep] by auto
  ultimately show ?thesis using run s sweep by (intro exI [of _ s] exI [of _ ?ws] exI [of _ "snd ?sweep"] conjI)
qed

theorem watched_store_reloads_witness:
  "\<exists>s file. derive_script demo_dest_lib (NativeAccount [5]) demo_small_ss SIGSET_THRESHOLD = Ok s
     \<and> WatchedScriptStore_maybe_load demo_dest_lib demo_text demo_watch 2000 (Some file) =
       Ok \<lparr>ws_scripts = [(s, NativeAccount [5], 4)], ws_sigsets = [(4, demo_small_ss, [NativeAccount [5]])]\<rparr>"
proof -
  obtain s where s: "derive_script demo_dest_lib (NativeAccount [5]) demo_small_ss SIGSET_THRESHOLD = Ok s"
    using demo_derives by blast
  let ?ws = "\<lparr>ws_scripts = [(s, NativeAccount [5], 4)], ws_sigsets = [(4, demo_small_ss, [NativeAccount [5]])]\<rparr>"
  have law: "text_law demo_dest_lib demo_text (fst ` set [(NativeAccount [5], demo_small_ss)])"
    by (simp add: text_law_def demo_text_def demo_dest_lib_def tx_lib.defs) (auto dest!: arg_cong [where f = "of_char :: char \<Rightarrow> nat"])
  obtain line where line: "store_line demo_dest_lib demo_text (NativeAccount [5]) 4 = Ok line"
    by (simp add: store_line_def Dest_to_base64_def demo_dest_lib_def tx_lib.defs)
  have ann: "announce_all demo_dest_lib demo_text [(NativeAccount [5], demo_small_ss)] \<lparr>wd_scripts = WatchedScripts_new, wd_file = []\<rparr>
      = (Ok (), \<lparr>wd_scripts = ?ws, wd_file = [line]\<rparr>)"
    using line demo_watch_insert [OF s] by (simp add: WatchedScriptStore_insert_def) (simp add: demo_small_ss_def)
  have all: "CheckpointQueue_all demo_watch = Ok [(4, demo_building)]"
    by (simp add: CheckpointQueue_all_def demo_watch_def)
  have keep: "WatchedScripts_remove_expired demo_dest_lib 2000 (cc_max_age (cq_config demo_watch)) ?ws = (Ok (), ?ws)"
    by (simp add: sweep_eq demo_watch_def CheckpointConfig_default_def CheckpointConfig_bitcoin_def demo_small_ss_def)
  have "WatchedScriptStore_maybe_load demo_dest_lib demo_text demo_watch 2000 (Some [line]) = Ok ?ws"
    using watched_store_reloads [OF law ann all, of 2000 ?ws] keep
    by (simp add: demo_building_def demo_small_ss_def Checkpoint_new_def)
  with s show ?thesis by blast
qed

end
