(* ===== verification/Relayer_Headers.thy ===== *)
theory Relayer_Headers
  imports Header_Queue
begin

text \<open>
  The relay of Bitcoin headers (src/src/bitcoin/relayer.rs): where a full node and the header queue of
  the chain part, and the batch of headers sent to the chain. The full node, reached over RPC, is the
  parameter \<open>btc_node\<close>; one round of the relay sees one state of it, and reads the chain's queue before and
  after its call. The numbers of confirmations that a node reports are at least \<open>-1\<close>.
\<close>

section \<open>The full node\<close>

record header_info =
  hi_hash :: bytes
  hi_height :: nat
  hi_confirmations :: int  \<comment> \<open>\<open>-1\<close>: not in the best chain\<close>
  hi_prev :: "bytes option"
  hi_next :: "bytes option"

record btc_node =
  best_block_hash :: "bytes result"
  header_info_of :: "bytes \<Rightarrow> header_info result"
  header_of :: "bytes \<Rightarrow> block_header result"

section \<open>The relay\<close>

definition HEADER_BATCH_SIZE :: nat where "HEADER_BATCH_SIZE = 250"

definition WrappedHeader_from_header :: "block_header \<Rightarrow> u32 \<Rightarrow> wrapped_header" where
  "WrappedHeader_from_header header height = \<lparr>wr_height = height, wr_header = header\<rparr>"

text \<open>\<open>(info.confirmations - 1) as usize\<close>\<close>

definition blocks_above :: "header_info \<Rightarrow> nat" where
  "blocks_above i = as_u64 (hi_confirmations i - 1)"

text \<open>
  The loop of \<open>common_ancestor\<close>, which a node whose answers do not form a tree can keep from ending:
  \<open>None\<close> is a loop that does not return.
\<close>

partial_function (option) ancestor_loop ::
  "'m btc_node_scheme \<Rightarrow> header_info \<Rightarrow> header_info \<Rightarrow> header_info result option" where
  "ancestor_loop N a b =
     (if a = b then Some (Ok a)
      else if hi_height a > hi_height b \<and> blocks_above b = hi_height a - hi_height b then Some (Ok b)
      else if hi_height b > hi_height a \<and> blocks_above a = hi_height b - hi_height a then Some (Ok a)
      else if hi_height a > hi_height b then
        (case hi_prev a of
           None \<Rightarrow> Some (Err Panic)
         | Some prev \<Rightarrow> (case header_info_of N prev of Err e \<Rightarrow> Some (Err e) | Ok a \<Rightarrow> ancestor_loop N a b))
      else
        (case hi_prev b of
           None \<Rightarrow> Some (Err Panic)
         | Some prev \<Rightarrow> (case header_info_of N prev of Err e \<Rightarrow> Some (Err e) | Ok b \<Rightarrow> ancestor_loop N a b)))"

definition common_ancestor :: "'m btc_node_scheme \<Rightarrow> bytes \<Rightarrow> bytes \<Rightarrow> header_info result option" where
  "common_ancestor N a b =
     (case header_info_of N a of
        Err e \<Rightarrow> Some (Err e)
      | Ok a \<Rightarrow> (case header_info_of N b of Err e \<Rightarrow> Some (Err e) | Ok b \<Rightarrow> ancestor_loop N a b))"

fun header_batch :: "'m btc_node_scheme \<Rightarrow> nat \<Rightarrow> header_info \<Rightarrow> wrapped_header list result" where
  "header_batch N 0 cursor = Ok []"
| "header_batch N (Suc n) cursor =
     (case hi_next cursor of
        None \<Rightarrow> Ok []
      | Some next_hash \<Rightarrow>
          rbind (header_info_of N next_hash) (\<lambda>cursor.
          rbind (header_of N (hi_hash cursor)) (\<lambda>header.
          rbind (header_batch N n cursor) (\<lambda>headers.
          Ok (WrappedHeader_from_header header (hi_height cursor mod 2 ^ 32) # headers)))))"

definition get_header_batch :: "'m btc_node_scheme \<Rightarrow> bytes \<Rightarrow> wrapped_header list result" where
  "get_header_batch N from_hash = rbind (header_info_of N from_hash) (header_batch N HEADER_BATCH_SIZE)"

text \<open>
  The part of \<open>relay_header_batch\<close> before its call: the batch to send, or nothing while the node is
  still syncing. Printing the first header of an empty batch panics.
\<close>

definition next_batch :: "'m btc_node_scheme \<Rightarrow> bytes \<Rightarrow> bytes \<Rightarrow> wrapped_header list option result option" where
  "next_batch N fullnode_hash sidechain_hash =
     (case header_info_of N fullnode_hash of
        Err e \<Rightarrow> Some (Err e)
      | Ok fullnode_info \<Rightarrow>
          (case header_info_of N sidechain_hash of
             Err e \<Rightarrow> Some (Err e)
           | Ok sidechain_info \<Rightarrow>
               if hi_height fullnode_info < hi_height sidechain_info then Some (Ok None)
               else map_option (\<lambda>r.
                 rbind r (\<lambda>start.
                 rbind (get_header_batch N (hi_hash start)) (\<lambda>batch.
                 if batch = [] then Err Panic else Ok (Some batch)))) (common_ancestor N fullnode_hash sidechain_hash)))"

text \<open>The call to the chain, whose error counts only when the chain is not at the node's best block afterwards.\<close>

definition relay_header_batch ::
  "'m btc_node_scheme \<Rightarrow> 'h header_lib_scheme \<Rightarrow> ctx \<Rightarrow> bytes \<Rightarrow> bytes \<Rightarrow> header_queue \<Rightarrow> (unit result \<times> header_queue) option" where
  "relay_header_batch N H C fullnode_hash sidechain_hash q =
     map_option (\<lambda>r. case r of
        Err e \<Rightarrow> (Err e, q)
      | Ok None \<Rightarrow> (Ok (), q)
      | Ok (Some batch) \<Rightarrow>
          let (res, q') = (case HeaderQueue_add H C batch q of (Ok u, q') \<Rightarrow> (Ok u, q') | (Err e, _) \<Rightarrow> (Err e, q)) in
          (rbind (HeaderQueue_hash H q') (\<lambda>current_tip. if current_tip = fullnode_hash then Ok () else res), q'))
     (next_batch N fullnode_hash sidechain_hash)"

text \<open>One turn of the loop of \<open>relay_headers\<close>: whether there was something to relay.\<close>

definition relay_headers_turn ::
  "'m btc_node_scheme \<Rightarrow> 'h header_lib_scheme \<Rightarrow> ctx \<Rightarrow> header_queue \<Rightarrow> (bool result \<times> header_queue) option" where
  "relay_headers_turn N H C q =
     (case best_block_hash N of
        Err e \<Rightarrow> Some (Err e, q)
      | Ok fullnode_hash \<Rightarrow>
          (case HeaderQueue_hash H q of
             Err e \<Rightarrow> Some (Err e, q)
           | Ok sidechain_hash \<Rightarrow>
               if fullnode_hash = sidechain_hash then Some (Ok False, q)
               else map_option (\<lambda>(r, q). (rbind r (\<lambda>_. Ok True), q)) (relay_header_batch N H C fullnode_hash sidechain_hash q)))"

section \<open>A node with a tree of blocks\<close>

text \<open>Ancestors, as the node's answers give them.\<close>

inductive anc :: "'m btc_node_scheme \<Rightarrow> header_info \<Rightarrow> header_info \<Rightarrow> bool" for N :: "'m btc_node_scheme" where
  anc_refl: "header_info_of N (hi_hash i) = Ok i \<Longrightarrow> anc N i i"
| anc_step: "anc N i j \<Longrightarrow> header_info_of N (hi_hash k) = Ok k \<Longrightarrow> hi_prev k = Some (hi_hash j) \<Longrightarrow> anc N i k"

text \<open>
  The documented answers of a node: every block but the first has a parent one below it; \<open>tip\<close> is the
  best block; the blocks with confirmations are the ancestors of \<open>tip\<close>, and count the blocks from them to \<open>tip\<close>;
  each of them but \<open>tip\<close> names the next one.
\<close>

definition tree_law :: "'m btc_node_scheme \<Rightarrow> bool" where
  "tree_law N \<longleftrightarrow>
     (\<forall>h i. header_info_of N h = Ok i \<longrightarrow> hi_hash i = h \<and> hi_height i < 2 ^ 31
        \<and> (0 < hi_height i \<longrightarrow> (\<exists>j. hi_prev i = Some (hi_hash j) \<and> header_info_of N (hi_hash j) = Ok j \<and> hi_height i = Suc (hi_height j))))
     \<and> (\<forall>h i h' i'. header_info_of N h = Ok i \<longrightarrow> header_info_of N h' = Ok i' \<longrightarrow> hi_height i = 0 \<longrightarrow> hi_height i' = 0 \<longrightarrow> i = i')
     \<and> (\<forall>h i. header_info_of N h = Ok i \<longrightarrow> hi_height i = 0 \<longrightarrow> hi_prev i = None)"

definition best_law :: "'m btc_node_scheme \<Rightarrow> header_info \<Rightarrow> bool" where
  "best_law N tip \<longleftrightarrow> best_block_hash N = Ok (hi_hash tip) \<and> header_info_of N (hi_hash tip) = Ok tip \<and> hi_next tip = None
     \<and> (\<forall>h i. header_info_of N h = Ok i \<longrightarrow>
          hi_confirmations i = (if anc N i tip then int (hi_height tip - hi_height i) + 1 else - 1)
          \<and> (anc N i tip \<longrightarrow> i \<noteq> tip \<longrightarrow> (\<exists>j. hi_next i = Some (hi_hash j) \<and> anc N j tip \<and> hi_prev j = Some (hi_hash i))))"

text \<open>The headers themselves: a block's header hashes to it and names its parent.\<close>

definition headers_law :: "'m btc_node_scheme \<Rightarrow> 'h header_lib_scheme \<Rightarrow> bool" where
  "headers_law N H \<longleftrightarrow> (\<forall>h i. header_info_of N h = Ok i \<longrightarrow>
     (\<exists>header. header_of N h = Ok header \<and> block_hash H header = h \<and> (\<forall>prev. hi_prev i = Some prev \<longrightarrow> bh_prev_blockhash header = prev)))"

lemma anc_known: "anc N i j \<Longrightarrow> header_info_of N (hi_hash i) = Ok i \<and> header_info_of N (hi_hash j) = Ok j"
  by (induction rule: anc.induct) auto

lemma tree_lawD:
  assumes "tree_law N" and "header_info_of N h = Ok i"
  shows "hi_hash i = h" and "hi_height i < 2 ^ 31" and "hi_height i = 0 \<Longrightarrow> hi_prev i = None"
    and "0 < hi_height i \<Longrightarrow> \<exists>j. hi_prev i = Some (hi_hash j) \<and> header_info_of N (hi_hash j) = Ok j \<and> hi_height i = Suc (hi_height j)"
    and "header_info_of N h' = Ok i' \<Longrightarrow> hi_height i = 0 \<Longrightarrow> hi_height i' = 0 \<Longrightarrow> i' = i"
  using assms unfolding tree_law_def by blast+

lemma parent_height:
  assumes "tree_law N" and "header_info_of N (hi_hash k) = Ok k" and "hi_prev k = Some (hi_hash j)" and "header_info_of N (hi_hash j) = Ok j"
  shows "hi_height k = Suc (hi_height j)"
proof -
  have "0 < hi_height k" using tree_lawD(3) [OF assms(1,2)] assms(3) by (cases "hi_height k") auto
  from tree_lawD(4) [OF assms(1,2) this] assms(3,4) show ?thesis by auto
qed

lemma anc_height: "anc N i j \<Longrightarrow> tree_law N \<Longrightarrow> hi_height i \<le> hi_height j"
proof (induction rule: anc.induct)
  case (anc_step i j k)
  then have "hi_height k = Suc (hi_height j)" using parent_height anc_known by blast
  with anc_step show ?case by simp
qed simp

lemma anc_trans: "anc N j k \<Longrightarrow> anc N i j \<Longrightarrow> anc N i k"
proof (induction rule: anc.induct)
  case (anc_step j l k)
  show ?case by (rule anc.anc_step [OF anc_step.IH [OF anc_step.prems] anc_step.hyps(2,3)])
qed

lemma anc_iff:
  assumes "header_info_of N (hi_hash k) = Ok k"
  shows "hi_prev k = None \<Longrightarrow> anc N i k \<longleftrightarrow> i = k"
    and "hi_prev k = Some (hi_hash j) \<Longrightarrow> header_info_of N (hi_hash j) = Ok j \<Longrightarrow> anc N i k \<longleftrightarrow> i = k \<or> anc N i j"
proof -
  show "hi_prev k = None \<Longrightarrow> anc N i k \<longleftrightarrow> i = k"
    using assms by (auto elim: anc.cases intro: anc_refl)
  assume j: "hi_prev k = Some (hi_hash j)" "header_info_of N (hi_hash j) = Ok j"
  have "i = k \<or> anc N i j" if "anc N i k"
    using that
  proof (cases rule: anc.cases)
    case (anc_step j')
    have "hi_hash j' = hi_hash j" using anc_step(3) j(1) by simp
    then have "Ok j' = header_info_of N (hi_hash j)" using anc_known [OF anc_step(1)] by metis
    then have "j' = j" unfolding j(2) by (rule result.inject(1) [THEN iffD1])
    then show ?thesis using anc_step(1) by blast
  qed simp
  then show "anc N i k \<longleftrightarrow> i = k \<or> anc N i j"
    using assms j anc_refl anc.anc_step by metis
qed

lemma anc_parent:
  assumes "anc N x k" and "hi_height x < hi_height k" and "hi_prev k = Some (hi_hash j)" and "header_info_of N (hi_hash j) = Ok j"
  shows "anc N x j"
  using anc_iff(2) [OF _ assms(3,4), of x] anc_known [OF assms(1)] assms(1,2) by auto

lemma anc_same_height:
  assumes "tree_law N" and "anc N x k" and "hi_height x = hi_height k"
  shows "x = k"
  using assms(2)
proof (cases rule: anc.cases)
  case (anc_step j)
  then have "hi_height k = Suc (hi_height j)" using parent_height [OF assms(1)] anc_known by blast
  with anc_height [OF anc_step(1) assms(1)] assms(3) show ?thesis by simp
qed simp

lemma blocks_above_best:
  assumes "tree_law N" and "best_law N tip" and "header_info_of N (hi_hash i) = Ok i"
  shows "anc N i tip \<Longrightarrow> blocks_above i = hi_height tip - hi_height i" and "\<not> anc N i tip \<Longrightarrow> blocks_above i = 2 ^ 64 - 2"
proof -
  have c: "hi_confirmations i = (if anc N i tip then int (hi_height tip - hi_height i) + 1 else - 1)"
    using assms(2,3) unfolding best_law_def by blast
  have "hi_height tip < 2 ^ 31" using assms(1,2) tree_lawD(2) unfolding best_law_def by blast
  then show "anc N i tip \<Longrightarrow> blocks_above i = hi_height tip - hi_height i"
    using c by (simp add: blocks_above_def as_u64_def)
  show "\<not> anc N i tip \<Longrightarrow> blocks_above i = 2 ^ 64 - 2"
    using c by (simp add: blocks_above_def as_u64_def)
qed

section \<open>Where the chains part\<close>

lemma ancestor_loop_finds:
  assumes tree: "tree_law N" and best: "best_law N tip" and a: "anc N a tip" and b: "header_info_of N (hi_hash b) = Ok b"
    and le: "hi_height b \<le> hi_height a"
  shows "\<exists>r. ancestor_loop N a b = Some (Ok r) \<and> anc N r tip \<and> anc N r b \<and> (\<forall>x. anc N x a \<longrightarrow> anc N x b \<longrightarrow> anc N x r)"
  using a b le
proof (induction "hi_height a + hi_height b" arbitrary: a b rule: less_induct)
  case less
  note loop = ancestor_loop.simps [of N a b]
  have ka: "header_info_of N (hi_hash a) = Ok a" using less.prems(1) anc_known by blast
  consider (same) "a = b" | (short) "a \<noteq> b" "hi_height a > hi_height b" "blocks_above b = hi_height a - hi_height b"
    | (down) "a \<noteq> b" "hi_height a > hi_height b" "blocks_above b \<noteq> hi_height a - hi_height b"
    | (level) "a \<noteq> b" "hi_height a = hi_height b" using less.prems(3) by linarith
  then show ?case
  proof cases
    case same
    then show ?thesis using less.prems(1,2) by (subst loop) (auto intro: anc_refl)
  next
    case short
    have "hi_height a < 2 ^ 31" using tree_lawD(2) [OF tree ka] .
    then have "anc N b tip" using blocks_above_best(2) [OF tree best less.prems(2)] short(3) by fastforce
    with short show ?thesis using less.prems(2) by (auto simp: loop intro: anc_refl)
  next
    case down
    then obtain p where p: "hi_prev a = Some (hi_hash p)" "header_info_of N (hi_hash p) = Ok p" "hi_height a = Suc (hi_height p)"
      using tree_lawD(4) [OF tree ka] by auto
    have "anc N p a" using p ka by (blast intro: anc.intros)
    with less.prems(1) have "anc N p tip" by (rule anc_trans)
    then obtain r where "ancestor_loop N p b = Some (Ok r)" "anc N r tip" "anc N r b" "\<forall>x. anc N x p \<longrightarrow> anc N x b \<longrightarrow> anc N x r"
      using less.hyps [of p b] less.prems down p by auto
    moreover have "anc N x p" if "anc N x a" "anc N x b" for x
      using anc_parent [OF that(1) _ p(1,2)] anc_height [OF that(2) tree] down(2) by simp
    ultimately show ?thesis using down p by (auto simp: loop)
  next
    case level
    then have "0 < hi_height b" using tree_lawD(5) [OF tree ka less.prems(2)] by (cases "hi_height b") auto
    then obtain p where p: "hi_prev b = Some (hi_hash p)" "header_info_of N (hi_hash p) = Ok p" "hi_height b = Suc (hi_height p)"
      using tree_lawD(4) [OF tree less.prems(2)] by auto
    have pb: "anc N p b" using p less.prems(2) by (blast intro: anc.intros)
    obtain r where r: "ancestor_loop N a p = Some (Ok r)" "anc N r tip" "anc N r p" "\<forall>x. anc N x a \<longrightarrow> anc N x p \<longrightarrow> anc N x r"
      using less.hyps [of a p] less.prems level p by auto
    have "anc N x p" if "anc N x a" "anc N x b" for x
    proof -
      have "hi_height x < hi_height b"
        using anc_height [OF that(2) tree] anc_same_height [OF tree that(1)] anc_same_height [OF tree that(2)] level
        by (metis nat_less_le)
      then show ?thesis by (rule anc_parent [OF that(2) _ p(1,2)])
    qed
    moreover have "anc N r b" using pb r(3) by (rule anc_trans)
    ultimately show ?thesis using level p r by (auto simp: loop)
  qed
qed

section \<open>The batch\<close>

text \<open>The headers of the blocks of the best chain that follow a block, one after the other.\<close>

fun follows ::
  "'m btc_node_scheme \<Rightarrow> 'h header_lib_scheme \<Rightarrow> header_info \<Rightarrow> header_info \<Rightarrow> wrapped_header list \<Rightarrow> header_info \<Rightarrow> bool" where
  "follows N H tip i [] k \<longleftrightarrow> i = k"
| "follows N H tip i (w # ws) k \<longleftrightarrow>
     (\<exists>j. anc N j tip \<and> wr_height w = Suc (hi_height i) \<and> hi_height j = Suc (hi_height i)
        \<and> WrappedHeader_prev_blockhash w = hi_hash i \<and> WrappedHeader_block_hash H w = hi_hash j \<and> follows N H tip j ws k)"

lemma follows_linked: "follows N H tip i ws k \<Longrightarrow> successively (linked H) ws"
proof (induction N H tip i ws k rule: follows.induct)
  case (2 N H tip i w ws k)
  then show ?case by (cases ws) (auto simp: linked_def)
qed simp

lemma follows_height: "follows N H tip i ws k \<Longrightarrow> hi_height k = hi_height i + length ws"
  by (induction N H tip i ws k rule: follows.induct) auto

lemma follows_last: "follows N H tip i ws k \<Longrightarrow> ws \<noteq> [] \<Longrightarrow> anc N k tip \<and> WrappedHeader_block_hash H (last ws) = hi_hash k"
  by (induction N H tip i ws k rule: follows.induct) auto

lemma header_batch_follows:
  assumes tree: "tree_law N" and best: "best_law N tip" and headers: "headers_law N H" and i: "anc N i tip"
  shows "\<exists>ws k. header_batch N n i = Ok ws \<and> follows N H tip i ws k \<and> length ws = min n (hi_height tip - hi_height i)"
  using i
proof (induction n arbitrary: i)
  case (Suc n)
  have hi: "hi_height i \<le> hi_height tip" by (rule anc_height [OF Suc.prems tree])
  have ki: "header_info_of N (hi_hash i) = Ok i" using Suc.prems anc_known by blast
  show ?case
  proof (cases "i = tip")
    case True
    then show ?thesis using best by (auto simp: best_law_def)
  next
    case False
    then have lt: "hi_height i < hi_height tip" using anc_same_height [OF tree Suc.prems] hi by fastforce
    obtain j where j: "hi_next i = Some (hi_hash j)" "anc N j tip" "hi_prev j = Some (hi_hash i)"
      using best ki Suc.prems False unfolding best_law_def by blast
    have kj: "header_info_of N (hi_hash j) = Ok j" using j(2) anc_known by blast
    have hj: "hi_height j = Suc (hi_height i)" by (rule parent_height [OF tree kj j(3) ki])
    have small: "hi_height j < 2 ^ 31" by (rule tree_lawD(2) [OF tree kj])
    obtain header where header: "header_of N (hi_hash j) = Ok header" "block_hash H header = hi_hash j" "bh_prev_blockhash header = hi_hash i"
      using headers kj j(3) unfolding headers_law_def by blast
    obtain ws k where "header_batch N n j = Ok ws" "follows N H tip j ws k" "length ws = min n (hi_height tip - hi_height j)"
      using Suc.IH [OF j(2)] by blast
    with j kj hj small header lt show ?thesis
      by (intro exI [of _ "WrappedHeader_from_header header (hi_height j) # ws"] exI [of _ k])
        (auto simp: WrappedHeader_from_header_def WrappedHeader_prev_blockhash_def WrappedHeader_block_hash_def)
  qed
qed (intro exI [of _ "[]"] exI, simp)

text \<open>
  C34: The relay of headers always has a next step towards the node's best block. On a node that answers as
  documented, for a chain at any other block of the node that is not above its best one, the search
  for the fork ends at the latest common ancestor, and the batch sent is not empty, fits the chain's
  limit, and is the headers of the best chain after that ancestor, each linked to the one before; it
  ends at the best block unless it is full.
\<close>
theorem header_relay_extends_fork:
  assumes "tree_law N" and "best_law N tip" and "headers_law N H"
    and "header_info_of N (hi_hash b) = Ok b" and "hi_height b \<le> hi_height tip" and "b \<noteq> tip"
  shows "\<exists>start batch. next_batch N (hi_hash tip) (hi_hash b) = Some (Ok (Some batch))
    \<and> anc N start tip \<and> anc N start b \<and> (\<forall>x. anc N x tip \<longrightarrow> anc N x b \<longrightarrow> anc N x start)
    \<and> batch \<noteq> [] \<and> length batch \<le> MAX_RELAY \<and> successively (linked H) batch
    \<and> wr_height (hd batch) = Suc (hi_height start) \<and> WrappedHeader_prev_blockhash (hd batch) = hi_hash start
    \<and> (WrappedHeader_block_hash H (last batch) = hi_hash tip \<or> length batch = MAX_RELAY)"
proof -
  have tip: "header_info_of N (hi_hash tip) = Ok tip" using assms(2) by (simp add: best_law_def)
  obtain start where start: "ancestor_loop N tip b = Some (Ok start)" "anc N start tip" "anc N start b"
    "\<forall>x. anc N x tip \<longrightarrow> anc N x b \<longrightarrow> anc N x start"
    using ancestor_loop_finds [OF assms(1,2) anc_refl [OF tip] assms(4,5)] by blast
  obtain batch k where batch: "header_batch N HEADER_BATCH_SIZE start = Ok batch" "follows N H tip start batch k"
    "length batch = min HEADER_BATCH_SIZE (hi_height tip - hi_height start)"
    using header_batch_follows [OF assms(1,2,3) start(2)] by blast
  have "start \<noteq> tip" using anc_same_height [OF assms(1) start(3)] anc_height [OF start(3) assms(1)] assms(5,6) by auto
  then have lt: "hi_height start < hi_height tip"
    using anc_same_height [OF assms(1) start(2)] anc_height [OF start(2) assms(1)] by fastforce
  then have ne: "batch \<noteq> []" using batch(3) by (auto simp: HEADER_BATCH_SIZE_def)
  have ks: "header_info_of N (hi_hash start) = Ok start" using start(2) anc_known by blast
  have last: "WrappedHeader_block_hash H (last batch) = hi_hash tip \<or> length batch = MAX_RELAY"
  proof (cases "length batch = HEADER_BATCH_SIZE")
    case False
    then have "hi_height k = hi_height tip" using batch(3) lt follows_height [OF batch(2)] by simp
    then have "k = tip" using anc_same_height [OF assms(1)] follows_last [OF batch(2) ne] by blast
    then show ?thesis using follows_last [OF batch(2) ne] by simp
  qed (simp add: HEADER_BATCH_SIZE_def MAX_RELAY_def)
  have nb: "next_batch N (hi_hash tip) (hi_hash b) = Some (Ok (Some batch))"
    using assms(4,5) tip start(1) batch(1) ne ks by (simp add: next_batch_def common_ancestor_def get_header_batch_def)
  have "length batch \<le> MAX_RELAY" using batch(3) by (simp add: HEADER_BATCH_SIZE_def MAX_RELAY_def)
  moreover have "wr_height (hd batch) = Suc (hi_height start) \<and> WrappedHeader_prev_blockhash (hd batch) = hi_hash start"
    using batch(2) ne by (cases batch) auto
  ultimately show ?thesis using nb start ne last follows_linked [OF batch(2)] by blast
qed

text \<open>A round that succeeds moves the chain to the end of its batch.\<close>

theorem relay_round_moves_tip:
  assumes inv: "hq_inv H q" "0 < hc_max_length (hq_config q)" and batch: "next_batch N fullnode_hash sidechain_hash = Some (Ok (Some batch))"
    and side: "HeaderQueue_hash H q = Ok sidechain_hash" "fullnode_hash \<noteq> sidechain_hash"
    and ok: "relay_header_batch N H C fullnode_hash sidechain_hash q = Some (Ok (), q')"
  shows "HeaderQueue_hash H q' = Ok (WrappedHeader_block_hash H (last batch))"
proof -
  have add: "HeaderQueue_add H C batch q = (Ok (), q')"
    using ok batch side by (auto simp: relay_header_batch_def Let_def split: prod.split_asm result.split_asm if_split_asm)
  obtain first rest q2 where b: "batch = first # rest" and q2: "hq_headers q2 = below (wr_height first) (hq_headers q) @ batch"
    "hq_config q2 = hq_config q" "q' = prune_headers H q2"
    using add_into_iter_Ok [OF inv(1) HeaderQueue_add_Ok(1) [OF add]] by metis
  have deque: "hq_deque q' = drop (length (hq_deque q2) - hc_max_length (hq_config q)) (hq_deque q2)"
    using prune_headers_deque [of H q2] q2(2,3) by simp
  have ne: "hq_deque q2 \<noteq> []" using q2(1) b by (metis append_is_Nil_conv list.distinct(1) list.simps(8))
  then have "length (hq_deque q2) - hc_max_length (hq_config q) < length (hq_deque q2)" using inv(2) by (simp add: diff_less)
  then have "hq_deque q' \<noteq> []" "last (hq_deque q') = last (hq_deque q2)" using deque by auto
  moreover have "wk_header (last (hq_deque q2)) = last batch"
    using q2(1) b ne by (metis last_append last_map list.distinct(1))
  ultimately show ?thesis by (simp add: HeaderQueue_hash_def)
qed

section \<open>A concrete node\<close>

text \<open>A best chain of two blocks on the first one, and a stale branch of the same height.\<close>

definition demo_info :: "nat \<Rightarrow> nat \<Rightarrow> int \<Rightarrow> nat option \<Rightarrow> nat option \<Rightarrow> header_info" where
  "demo_info n height confirmations prev succ = \<lparr>hi_hash = [word_of_nat n], hi_height = height, hi_confirmations = confirmations,
     hi_prev = map_option (\<lambda>n. [word_of_nat n]) prev, hi_next = map_option (\<lambda>n. [word_of_nat n]) succ\<rparr>"

definition demo_infos :: "header_info list" where
  "demo_infos = [demo_info 0 0 3 None (Some 1), demo_info 1 1 2 (Some 0) (Some 2), demo_info 2 2 1 (Some 1) None,
     demo_info 3 1 (- 1) (Some 0) None, demo_info 4 2 (- 1) (Some 3) None]"

definition demo_node :: btc_node where
  "demo_node = \<lparr>best_block_hash = Ok [2],
     header_info_of = (\<lambda>h. case find (\<lambda>i. hi_hash i = h) demo_infos of None \<Rightarrow> Err (App ''Block not found'') | Some i \<Rightarrow> Ok i),
     header_of = (\<lambda>h. case find (\<lambda>i. hi_hash i = h) demo_infos of None \<Rightarrow> Err (App ''Block not found'')
       | Some i \<Rightarrow> Ok (wr_header (demo_header (hi_height i) (case hi_prev i of None \<Rightarrow> 0 | Some p \<Rightarrow> unat (hd p)) (unat (hd h)) 5)))\<rparr>"

lemmas demo_node_defs = demo_node_def demo_infos_def demo_info_def

lemma demo_info_Ok: "header_info_of demo_node h = Ok i \<longleftrightarrow> i \<in> set demo_infos \<and> h = hi_hash i"
  by (auto simp: demo_node_defs)

lemma demo_anc: "anc demo_node i (demo_info 2 2 1 (Some 1) None) \<longleftrightarrow> i \<in> set (take 3 demo_infos)"
proof -
  let ?g = "demo_info 0 0 3 None (Some 1)" and ?x1 = "demo_info 1 1 2 (Some 0) (Some 2)" and ?x2 = "demo_info 2 2 1 (Some 1) None"
  have known: "header_info_of demo_node (hi_hash ?g) = Ok ?g" "header_info_of demo_node (hi_hash ?x1) = Ok ?x1"
    "header_info_of demo_node (hi_hash ?x2) = Ok ?x2" by (simp_all add: demo_info_Ok demo_infos_def)
  have "anc demo_node i ?g \<longleftrightarrow> i = ?g" by (rule anc_iff(1) [OF known(1)]) (simp add: demo_info_def)
  moreover have "anc demo_node i ?x1 \<longleftrightarrow> i = ?x1 \<or> anc demo_node i ?g"
    by (rule anc_iff(2) [OF known(2) _ known(1)]) (simp add: demo_info_def)
  moreover have "anc demo_node i ?x2 \<longleftrightarrow> i = ?x2 \<or> anc demo_node i ?x1"
    by (rule anc_iff(2) [OF known(3) _ known(2)]) (simp add: demo_info_def)
  ultimately show ?thesis by (auto simp: demo_infos_def)
qed

lemma demo_anc_stale:
  "anc demo_node i (demo_info 4 2 (- 1) (Some 3) None) \<longleftrightarrow>
     i \<in> set [demo_info 4 2 (- 1) (Some 3) None, demo_info 3 1 (- 1) (Some 0) None, demo_info 0 0 3 None (Some 1)]"
proof -
  let ?g = "demo_info 0 0 3 None (Some 1)" and ?y1 = "demo_info 3 1 (- 1) (Some 0) None" and ?y2 = "demo_info 4 2 (- 1) (Some 3) None"
  have known: "header_info_of demo_node (hi_hash ?g) = Ok ?g" "header_info_of demo_node (hi_hash ?y1) = Ok ?y1"
    "header_info_of demo_node (hi_hash ?y2) = Ok ?y2" by (simp_all add: demo_info_Ok demo_infos_def)
  have "anc demo_node i ?g \<longleftrightarrow> i = ?g" by (rule anc_iff(1) [OF known(1)]) (simp add: demo_info_def)
  moreover have "anc demo_node i ?y1 \<longleftrightarrow> i = ?y1 \<or> anc demo_node i ?g"
    by (rule anc_iff(2) [OF known(2) _ known(1)]) (simp add: demo_info_def)
  moreover have "anc demo_node i ?y2 \<longleftrightarrow> i = ?y2 \<or> anc demo_node i ?y1"
    by (rule anc_iff(2) [OF known(3) _ known(2)]) (simp add: demo_info_def)
  ultimately show ?thesis by simp
qed

lemma demo_tree: "tree_law demo_node"
  unfolding tree_law_def demo_info_Ok
  by (auto simp: demo_infos_def demo_info_def ex_disj_distrib conj_disj_distribL conj_disj_distribR)

lemma demo_best: "best_law demo_node (demo_info 2 2 1 (Some 1) None)"
  unfolding best_law_def demo_info_Ok demo_anc
  by (auto simp: demo_infos_def demo_info_def demo_node_def ex_disj_distrib conj_disj_distribL conj_disj_distribR)

lemma demo_headers: "headers_law demo_node demo_header_lib"
  unfolding headers_law_def demo_info_Ok
  by (auto simp: demo_infos_def demo_info_def demo_node_def demo_header_def demo_header_lib_def WrappedHeader_new_def)

theorem header_relay_extends_fork_witness:
  "\<exists>batch. next_batch demo_node [2] [4] = Some (Ok (Some batch)) \<and> wr_height (hd batch) = 1 \<and> successively (linked demo_header_lib) batch"
proof -
  have b: "header_info_of demo_node (hi_hash (demo_info 4 2 (- 1) (Some 3) None)) = Ok (demo_info 4 2 (- 1) (Some 3) None)"
    by (simp add: demo_info_Ok demo_infos_def)
  have "hi_height (demo_info 4 2 (- 1) (Some 3) None) \<le> hi_height (demo_info 2 2 1 (Some 1) None)"
    "demo_info 4 2 (- 1) (Some 3) None \<noteq> demo_info 2 2 1 (Some 1) None" by (simp_all add: demo_info_def)
  from header_relay_extends_fork [OF demo_tree demo_best demo_headers b this]
  obtain start batch where *: "next_batch demo_node [2] [4] = Some (Ok (Some batch))" "anc demo_node start (demo_info 4 2 (- 1) (Some 3) None)"
    "anc demo_node start (demo_info 2 2 1 (Some 1) None)" "successively (linked demo_header_lib) batch" "wr_height (hd batch) = Suc (hi_height start)"
    by (auto simp: demo_info_def)
  then have "start \<in> set (take 3 demo_infos)" "start \<in> set [demo_info 4 2 (- 1) (Some 3) None, demo_info 3 1 (- 1) (Some 0) None, demo_info 0 0 3 None (Some 1)]"
    by (simp_all only: demo_anc demo_anc_stale)
  then have "hi_height start = 0" by (auto simp: demo_infos_def demo_info_def)
  with * show ?thesis by auto
qed

text \<open>
  Between two other blocks the search can return a block that is no common ancestor: the first shortcut takes
  a block with confirmations for an ancestor of any block as high as the best one, stale or not.
\<close>

theorem common_ancestor_of_stale_block:
  "common_ancestor demo_node [4] [1] = Some (Ok (demo_info 1 1 2 (Some 0) (Some 2)))
     \<and> \<not> anc demo_node (demo_info 1 1 2 (Some 0) (Some 2)) (demo_info 4 2 (- 1) (Some 3) None)"
proof
  have "header_info_of demo_node [4] = Ok (demo_info 4 2 (- 1) (Some 3) None)"
    "header_info_of demo_node [1] = Ok (demo_info 1 1 2 (Some 0) (Some 2))" by (simp_all add: demo_node_defs)
  then show "common_ancestor demo_node [4] [1] = Some (Ok (demo_info 1 1 2 (Some 0) (Some 2)))"
    by (simp add: common_ancestor_def ancestor_loop.simps demo_info_def blocks_above_def as_u64_def)
  show "\<not> anc demo_node (demo_info 1 1 2 (Some 0) (Some 2)) (demo_info 4 2 (- 1) (Some 3) None)"
    unfolding demo_anc_stale by (simp add: demo_info_def)
qed

end
