(* ===== verification/Relayer.thy ===== *)
theory Relayer
  imports Bridge_Examples Watched_Scripts Relayer_Headers "HOL-Library.Sublist"
begin

text \<open>
  The relay of deposits, checkpoints and their confirmations, and the announcement of deposit
  addresses (src/src/bitcoin/relayer.rs). The loops of the relayer run for ever; what is modelled is one
  turn of each, with the full node (\<open>full_node\<close>) in one state and the chain changed only by the calls
  of the relayer. The encodings that pass transactions, blocks and scripts from one version of the
  bitcoin crate to another are left out, as they give back the same value.
\<close>

section \<open>The node and the chain\<close>

record btc_block =
  bl_header :: block_header
  bl_txdata :: "transaction list"

record full_node = btc_node +
  block_of :: "bytes \<Rightarrow> btc_block result"
  tx_out_proof :: "bytes \<Rightarrow> bytes \<Rightarrow> bytes result"  \<comment> \<open>of a transaction in a block: the Merkle tree of the proof\<close>
  send_raw_transaction :: "transaction \<Rightarrow> error option"
  raw_mempool :: "bytes list result"
  raw_transaction :: "bytes \<Rightarrow> transaction result"

record relay_text = dest_text +
  address_from_script :: "bytes \<Rightarrow> string result"
  error_text :: "error \<Rightarrow> string"  \<comment> \<open>\<open>err.to_string()\<close>\<close>

definition error_contains :: "'t relay_text_scheme \<Rightarrow> error \<Rightarrow> string \<Rightarrow> bool" where
  "error_contains T e message = sublist message (error_text T e)"

text \<open>The index of deposits, and the chain, which a failed call leaves unchanged.\<close>

record 'i relay_state =
  rl_index :: deposit_index
  rl_app :: "'i inner_app"

definition submit :: "('i inner_app, unit) call \<Rightarrow> ('i relay_state, unit) call" where
  "submit m st = (case m (rl_app st) of (Ok u, app) \<Rightarrow> (Ok u, st\<lparr>rl_app := app\<rparr>) | (Err e, _) \<Rightarrow> (Err e, st))"

section \<open>Announced addresses\<close>

record address_server =
  as_sigsets :: "(u32 \<times> signatory_set) list"
  as_sent :: "(dest \<times> u32) list"  \<comment> \<open>the channel to the relay of deposits\<close>

record DepositAddress =
  da_sigset_index :: u32
  da_deposit_addr :: string

definition cached_sigset :: "checkpoint_queue \<Rightarrow> u32 \<Rightarrow> (address_server, signatory_set) call" where
  "cached_sigset q index sv =
     (case map_of (as_sigsets sv) index of
        Some sigset \<Rightarrow> (Ok sigset, sv)
      | None \<Rightarrow>
          cbind (lift_result (CheckpointQueue_get q index)) (\<lambda>cp.
          if \<not> cp_deposits_enabled cp then lift_result (Err (App ''Deposits disabled for this checkpoint''))
          else
          cbind (modify (as_sigsets_update (omap_insert (\<lambda>k. k) index (cp_sigset cp)))) (\<lambda>_.
          lift_result (Ok (cp_sigset cp)))) sv)"

text \<open>The route \<open>POST /address\<close>; \<open>unwrap\<close> on the address of the expected script.\<close>

definition post_address ::
  "'m dest_lib_scheme \<Rightarrow> 't relay_text_scheme \<Rightarrow> bitcoin \<Rightarrow> u64 \<Rightarrow> u64 \<Rightarrow> DepositAddress \<Rightarrow> bytes \<Rightarrow> (address_server, unit) call" where
  "post_address L T btc now deposit_buffer query body =
     cbind (lift_result (dest_decode T body)) (\<lambda>dest.
     cbind (cached_sigset (bc_checkpoints btc) (da_sigset_index query)) (\<lambda>sigset.
     cbind (lift_result (derive_script L dest sigset SIGSET_THRESHOLD)) (\<lambda>script.
     cbind (lift_result (map_err (\<lambda>_. Panic) (address_from_script T script))) (\<lambda>expected_addr.
     if expected_addr \<noteq> da_deposit_addr query then lift_result (Err InvalidDepositAddress)
     else
     cbind (modify (as_sent_update (\<lambda>sent. sent @ [(dest, da_sigset_index query)]))) (\<lambda>_.
     cbind (lift_result (add_u64 now deposit_buffer)) (\<lambda>time.
     cbind (lift_result (add_u64 (ss_create_time sigset) (bf_max_deposit_age (bc_config btc)))) (\<lambda>limit.
     if time \<ge> limit
     then lift_result (Err (Relayer ''Sigset no longer accepting deposits. Unable to generate deposit address''))
     else lift_result (Ok ()))))))))"

text \<open>A checkpoint that the chain does not have is logged and skipped.\<close>

fun receive_addrs ::
  "'m dest_lib_scheme \<Rightarrow> 't relay_text_scheme \<Rightarrow> checkpoint_queue \<Rightarrow> (dest \<times> u32) list \<Rightarrow> (watched_store, unit) call" where
  "receive_addrs L T q [] = lift_result (Ok ())"
| "receive_addrs L T q ((addr, sigset_index) # rest) =
     (case CheckpointQueue_sigset q sigset_index of
        Err e \<Rightarrow> receive_addrs L T q rest
      | Ok sigset \<Rightarrow> cbind (WatchedScriptStore_insert L T addr sigset) (\<lambda>_. receive_addrs L T q rest))"

definition insert_announced_addrs ::
  "'m dest_lib_scheme \<Rightarrow> 't relay_text_scheme \<Rightarrow> checkpoint_queue \<Rightarrow> u64 \<Rightarrow> (dest \<times> u32) list \<Rightarrow> (watched_store, unit) call" where
  "insert_announced_addrs L T q now received =
     cbind (receive_addrs L T q received) (\<lambda>_ st.
       let (r, ws) = WatchedScripts_remove_expired L now (cc_max_age (cq_config q)) (wd_scripts st) in (r, st\<lparr>wd_scripts := ws\<rparr>))"

section \<open>Blocks\<close>

fun last_n_blocks :: "'n full_node_scheme \<Rightarrow> nat \<Rightarrow> bytes \<Rightarrow> btc_block list result" where
  "last_n_blocks N 0 hash = Ok []"
| "last_n_blocks N (Suc n) hash =
     rbind (block_of N hash) (\<lambda>block.
     rbind (last_n_blocks N n (bh_prev_blockhash (bl_header block))) (\<lambda>blocks.
     Ok (block # blocks)))"

text \<open>\<open>blocks.into_iter().enumerate().rev()\<close> with the height \<open>(base_height - i) as u32\<close>.\<close>

definition block_height :: "nat \<Rightarrow> nat \<Rightarrow> u32 result" where
  "block_height base_height i = rbind (sub_u base_height i) (\<lambda>height. Ok (height mod 2 ^ 32))"

fun find_txid ::
  "'m tx_lib_scheme \<Rightarrow> 'h header_lib_scheme \<Rightarrow> bytes \<Rightarrow> nat \<Rightarrow> (nat \<times> btc_block) list \<Rightarrow> (u32 \<times> bytes) option result" where
  "find_txid L H txid base_height [] = Ok None"
| "find_txid L H txid base_height ((i, block) # blocks) =
     rbind (block_height base_height i) (\<lambda>height.
     if \<exists>tx \<in> set (bl_txdata block). tx_txid L tx = txid then Ok (Some (height, block_hash H (bl_header block)))
     else find_txid L H txid base_height blocks)"

definition scan_for_txid ::
  "'m tx_lib_scheme \<Rightarrow> 'h header_lib_scheme \<Rightarrow> 'n full_node_scheme \<Rightarrow> header_queue \<Rightarrow> bytes \<Rightarrow> nat \<Rightarrow> (u32 \<times> bytes) option result" where
  "scan_for_txid L H N q txid num_blocks =
     rbind (HeaderQueue_hash H q) (\<lambda>tip.
     rbind (header_info_of N tip) (\<lambda>info.
     rbind (last_n_blocks N num_blocks tip) (\<lambda>blocks.
     find_txid L H txid (hi_height info) (rev (enumerate 0 blocks)))))"

section \<open>Deposits\<close>

record OutputMatch =
  om_sigset_index :: u32
  om_vout :: u32
  om_dest :: dest

definition relevant_outputs :: "watched_scripts \<Rightarrow> transaction \<Rightarrow> OutputMatch list" where
  "relevant_outputs ws tx =
     List.map_filter (\<lambda>(vout, output).
       map_option (\<lambda>(dest, sigset_index). \<lparr>om_sigset_index = sigset_index, om_vout = vout mod 2 ^ 32, om_dest = dest\<rparr>)
         (WatchedScripts_get (to_script_pubkey output) ws)) (enumerate 0 (tr_output tx))"

definition relevant_txs :: "watched_scripts \<Rightarrow> btc_block \<Rightarrow> (transaction \<times> OutputMatch list) list" where
  "relevant_txs ws block = map (\<lambda>tx. (tx, relevant_outputs ws tx)) (bl_txdata block)"

text \<open>The deposits that are too small are not errors of the relay.\<close>

definition too_small :: "'t relay_text_scheme \<Rightarrow> error \<Rightarrow> bool" where
  "too_small T e \<longleftrightarrow> error_contains T e ''Deposit amount is below minimum''
     \<or> error_contains T e ''Deposit amount is too small to pay its spending fee''"

definition submit_deposit ::
  "('i, 'm) app_lib_scheme \<Rightarrow> 't relay_text_scheme \<Rightarrow> 'n full_node_scheme \<Rightarrow> ctx \<Rightarrow> transaction \<Rightarrow> u32 \<Rightarrow> bytes \<Rightarrow> OutputMatch
     \<Rightarrow> ('i relay_state, unit) call" where
  "submit_deposit L T N C tx height blk output =
     cbind (lift_result (tx_out_proof N (tx_txid L tx) blk)) (\<lambda>btc_proof st.
     case submit (InnerApp_relay_deposit L C tx height btc_proof (om_vout output) (om_sigset_index output) (om_dest output)) st of
       (Err e, st) \<Rightarrow> if too_small T e then (Ok (), st) else (Err e, st)
     | r \<Rightarrow> r)"

definition maybe_relay_deposit ::
  "('i, 'm) app_lib_scheme \<Rightarrow> 't relay_text_scheme \<Rightarrow> 'n full_node_scheme \<Rightarrow> ctx \<Rightarrow> transaction \<Rightarrow> u32 \<Rightarrow> bytes \<Rightarrow> OutputMatch
     \<Rightarrow> ('i relay_state, unit) call" where
  "maybe_relay_deposit L T N C tx height blk output =
     (let txid = tx_txid L tx; vout = om_vout output; dest = om_dest output in
      cbind (reads (\<lambda>st. Ok (OutpointSet_contains (bc_processed_outpoints (ap_bitcoin (rl_app st))) (txid, vout)))) (\<lambda>contains_outpoint.
      cbind (lift_result (if vout < length (tr_output tx) then Ok (tr_output tx ! vout) else Err Panic)) (\<lambda>out.
      cbind (lift_result (address_from_script T (to_script_pubkey out))) (\<lambda>deposit_address.
      case Dest_to_receiver_addr T dest of
        None \<Rightarrow> submit_deposit L T N C tx height blk output
      | Some receiver_addr \<Rightarrow>
          if contains_outpoint
          then modify (rl_index_update (DepositIndex_remove_deposit receiver_addr deposit_address txid vout))
          else
          cbind (modify (rl_index_update (DepositIndex_insert_deposit receiver_addr deposit_address
                   (Deposit_new txid vout (to_value out) (Some height))))) (\<lambda>_.
          submit_deposit L T N C tx height blk output)))))"

text \<open>The loops of \<open>scan_for_deposits\<close>: an error on one deposit is logged and the scan goes on.\<close>

fun relay_all :: "('s, unit) call list \<Rightarrow> ('s, unit) call" where
  "relay_all [] = lift_result (Ok ())"
| "relay_all (m # ms) = cbind (log_error m) (\<lambda>_. relay_all ms)"

fun relay_blocks ::
  "('i, 'm) app_lib_scheme \<Rightarrow> 'h header_lib_scheme \<Rightarrow> 't relay_text_scheme \<Rightarrow> 'n full_node_scheme \<Rightarrow> ctx \<Rightarrow> watched_scripts \<Rightarrow> nat
     \<Rightarrow> (nat \<times> btc_block) list \<Rightarrow> ('i relay_state, unit) call" where
  "relay_blocks L H T N C ws base_height [] = lift_result (Ok ())"
| "relay_blocks L H T N C ws base_height ((i, block) # blocks) =
     cbind (lift_result (block_height base_height i)) (\<lambda>height.
     cbind (relay_all (concat (map (\<lambda>(tx, matches).
              map (maybe_relay_deposit L T N C tx height (block_hash H (bl_header block))) matches) (relevant_txs ws block)))) (\<lambda>_.
     relay_blocks L H T N C ws base_height blocks))"

definition scan_for_deposits ::
  "('i, 'm) app_lib_scheme \<Rightarrow> 'h header_lib_scheme \<Rightarrow> 't relay_text_scheme \<Rightarrow> 'n full_node_scheme \<Rightarrow> ctx \<Rightarrow> watched_scripts \<Rightarrow> nat
     \<Rightarrow> ('i relay_state, bytes) call" where
  "scan_for_deposits L H T N C ws num_blocks =
     cbind (reads (\<lambda>st. HeaderQueue_hash H (bc_headers (ap_bitcoin (rl_app st))))) (\<lambda>tip.
     cbind (lift_result (header_info_of N tip)) (\<lambda>info.
     cbind (lift_result (last_n_blocks N num_blocks tip)) (\<lambda>blocks.
     cbind (relay_blocks L H T N C ws (hi_height info) (rev (enumerate 0 blocks))) (\<lambda>_.
     lift_result (Ok tip)))))"

text \<open>
  The end of a turn of \<open>relay_deposits\<close>, after the announced addresses are inserted: the number of blocks
  to scan when the tip is not the previous one. \<open>None\<close> is a search for the fork that does not return.
\<close>

definition blocks_to_scan ::
  "'n full_node_scheme \<Rightarrow> bytes option \<Rightarrow> bytes \<Rightarrow> nat option result option" where
  "blocks_to_scan N prev_tip tip =
     (let prev = (case prev_tip of None \<Rightarrow> tip | Some prev \<Rightarrow> prev) in
      if prev_tip \<noteq> None \<and> prev = tip then Some (Ok None)
      else map_option (\<lambda>r.
        rbind r (\<lambda>start.
        rbind (header_info_of N tip) (\<lambda>info.
        rbind (sub_u (hi_height info) (hi_height start)) (\<lambda>n. Ok (Some (max n 1100)))))) (common_ancestor N tip prev))"

text \<open>A turn of \<open>relay_deposits\<close>: the tip scanned up to, with the watched addresses and the state.\<close>

definition relay_deposits_turn ::
  "('i, 'm) app_lib_scheme \<Rightarrow> 'h header_lib_scheme \<Rightarrow> 't relay_text_scheme \<Rightarrow> 'n full_node_scheme \<Rightarrow> ctx \<Rightarrow> u64 \<Rightarrow> (dest \<times> u32) list
     \<Rightarrow> bytes option \<Rightarrow> watched_store \<times> 'i relay_state \<Rightarrow> (bytes option result \<times> watched_store \<times> 'i relay_state) option" where
  "relay_deposits_turn L H T N C now received prev_tip = (\<lambda>(store, st).
     let btc = ap_bitcoin (rl_app st) in
     case insert_announced_addrs L T (bc_checkpoints btc) now received store of
       (Err e, store) \<Rightarrow> Some (Err e, store, st)
     | (Ok _, store) \<Rightarrow>
     case HeaderQueue_hash H (bc_headers btc) of
       Err e \<Rightarrow> Some (Err e, store, st)
     | Ok tip \<Rightarrow>
     map_option (\<lambda>num_blocks.
       case num_blocks of
         Err e \<Rightarrow> (Err e, store, st)
       | Ok None \<Rightarrow> (Ok prev_tip, store, st)
       | Ok (Some n) \<Rightarrow>
           (case scan_for_deposits L H T N C (wd_scripts store) n st of
              (Err e, st) \<Rightarrow> (Err e, store, st)
            | (Ok _, st) \<Rightarrow> (Ok (Some tip), store, st))) (blocks_to_scan N prev_tip tip))"

text \<open>The route \<open>/pending_deposits\<close>.\<close>

definition pending_deposits ::
  "'n full_node_scheme \<Rightarrow> (deposit list \<Rightarrow> deposit list) \<Rightarrow> string \<Rightarrow> deposit_index \<Rightarrow> deposit_info list result" where
  "pending_deposits N visit receiver ix =
     rbind (best_block_hash N) (\<lambda>tip.
     rbind (header_info_of N tip) (\<lambda>info.
     DepositIndex_get_deposits_by_receiver visit receiver (hi_height info) ix))"

text \<open>The mempool: deposits without a height. The transactions seen are kept from one scan to the next.\<close>

definition mempool_output ::
  "'t relay_text_scheme \<Rightarrow> watched_scripts \<Rightarrow> bytes \<Rightarrow> deposit_index \<Rightarrow> nat \<times> txout \<Rightarrow> deposit_index result" where
  "mempool_output T ws txid ix = (\<lambda>(vout, output).
     case WatchedScripts_get (to_script_pubkey output) ws of
       None \<Rightarrow> Ok ix
     | Some (dest, _) \<Rightarrow>
         rbind (address_from_script T (to_script_pubkey output)) (\<lambda>bitcoin_address.
         case Dest_to_receiver_addr T dest of
           None \<Rightarrow> Ok ix
         | Some receiver_addr \<Rightarrow>
             Ok (DepositIndex_insert_deposit receiver_addr bitcoin_address
                   (Deposit_new txid (vout mod 2 ^ 32) (to_value output) None) ix)))"

definition mempool_tx ::
  "'t relay_text_scheme \<Rightarrow> 'n full_node_scheme \<Rightarrow> watched_scripts \<Rightarrow> bytes set \<times> deposit_index \<Rightarrow> bytes
     \<Rightarrow> (bytes set \<times> deposit_index) result" where
  "mempool_tx T N ws = (\<lambda>(seen, ix) txid.
     if txid \<in> seen then Ok (seen, ix)
     else
     rbind (raw_transaction N txid) (\<lambda>tx.
     rbind (fold_result (mempool_output T ws txid) ix (enumerate 0 (tr_output tx))) (\<lambda>ix.
     Ok (insert txid seen, ix))))"

definition scan_for_mempool_deposits ::
  "'t relay_text_scheme \<Rightarrow> 'n full_node_scheme \<Rightarrow> watched_scripts \<Rightarrow> bytes set \<times> deposit_index \<Rightarrow> (bytes set \<times> deposit_index) result" where
  "scan_for_mempool_deposits T N ws st = rbind (raw_mempool N) (fold_result (mempool_tx T N ws) st)"

section \<open>Checkpoints\<close>

text \<open>The errors of the node that mean that a transaction is already there.\<close>

definition already_there :: "'t relay_text_scheme \<Rightarrow> error \<Rightarrow> bool" where
  "already_there T e \<longleftrightarrow> error_contains T e ''bad-txns-inputs-missingorspent'' \<or> error_contains T e ''Transaction already in block chain''"

definition broadcast :: "'t relay_text_scheme \<Rightarrow> 'n full_node_scheme \<Rightarrow> transaction \<Rightarrow> unit result" where
  "broadcast T N tx =
     (case send_raw_transaction N tx of None \<Rightarrow> Ok () | Some e \<Rightarrow> if already_there T e then Ok () else Err e)"

text \<open>The loop over the transactions of completed checkpoints; those of backfilled checkpoints have no input.\<close>

fun relay_checkpoint_txs ::
  "'m tx_lib_scheme \<Rightarrow> 't relay_text_scheme \<Rightarrow> 'n full_node_scheme \<Rightarrow> transaction list \<Rightarrow> (bytes set, unit) call" where
  "relay_checkpoint_txs L T N [] = lift_result (Ok ())"
| "relay_checkpoint_txs L T N (tx # txs) =
     (\<lambda>relayed.
       if tx_txid L tx \<in> relayed \<or> tr_input tx = [] then relay_checkpoint_txs L T N txs relayed
       else cbind (lift_result (broadcast T N tx)) (\<lambda>_.
         cbind (modify (insert (tx_txid L tx))) (\<lambda>_. relay_checkpoint_txs L T N txs)) relayed)"

definition relay_checkpoints_turn ::
  "'m tx_lib_scheme \<Rightarrow> 't relay_text_scheme \<Rightarrow> 'n full_node_scheme \<Rightarrow> checkpoint_queue \<Rightarrow> (bytes set, unit) call" where
  "relay_checkpoints_turn L T N q =
     cbind (lift_result (CheckpointQueue_completed_txs L q 1000)) (relay_checkpoint_txs L T N)"

text \<open>The emergency disbursal: the first transaction whose lock time has not come ends the relay for now.\<close>

fun relay_disbursal_txs ::
  "'m tx_lib_scheme \<Rightarrow> 't relay_text_scheme \<Rightarrow> 'n full_node_scheme \<Rightarrow> u64 \<Rightarrow> transaction list \<Rightarrow> (bytes set, unit) call" where
  "relay_disbursal_txs L T N now [] = lift_result (Ok ())"
| "relay_disbursal_txs L T N now (tx # txs) =
     (\<lambda>relayed.
       if tx_txid L tx \<in> relayed then relay_disbursal_txs L T N now txs relayed
       else if now < tr_lock_time tx then (Ok (), relayed)
       else cbind (lift_result (broadcast T N tx)) (\<lambda>_.
         cbind (modify (insert (tx_txid L tx))) (\<lambda>_. relay_disbursal_txs L T N now txs)) relayed)"

definition relay_disbursal_turn ::
  "'m tx_lib_scheme \<Rightarrow> 't relay_text_scheme \<Rightarrow> 'n full_node_scheme \<Rightarrow> u64 \<Rightarrow> checkpoint_queue \<Rightarrow> (bytes set, unit) call" where
  "relay_disbursal_turn L T N now q =
     cbind (lift_result (CheckpointQueue_emergency_disbursal_txs L q)) (relay_disbursal_txs L T N now)"

text \<open>
  The recovery transactions: each is broadcast, and its address is announced to the address server. The
  parameter \<open>post\<close> gives the status of the response for a set, an address and an encoded destination.
\<close>

fun relay_signed_txs ::
  "'m dest_lib_scheme \<Rightarrow> 't relay_text_scheme \<Rightarrow> 'n full_node_scheme \<Rightarrow> (u32 \<Rightarrow> string \<Rightarrow> bytes \<Rightarrow> nat) \<Rightarrow> signed_recovery_tx list
     \<Rightarrow> (bytes set, unit) call" where
  "relay_signed_txs L T N post [] = lift_result (Ok ())"
| "relay_signed_txs L T N post (signed_tx # txs) =
     (\<lambda>relayed.
       let tx = st_tx signed_tx in
       if tx_txid L tx \<in> relayed then relay_signed_txs L T N post txs relayed
       else
       cbind (lift_result (broadcast T N tx)) (\<lambda>_.
       cbind (lift_result (case tr_output tx of [] \<Rightarrow> Err Panic | out # _ \<Rightarrow> Ok (to_script_pubkey out))) (\<lambda>script_pubkey.
       cbind (lift_result (address_from_script T script_pubkey)) (\<lambda>deposit_addr.
       cbind (lift_result (dest_encode L (st_dest signed_tx))) (\<lambda>body.
       if post (st_sigset_index signed_tx) deposit_addr body = 200
       then cbind (modify (insert (tx_txid L tx))) (\<lambda>_. relay_signed_txs L T N post txs)
       else lift_result (Err (Relayer ''Relayer response returned with error code'')))))) relayed)"

definition relay_recovery_turn ::
  "'m dest_lib_scheme \<Rightarrow> 't relay_text_scheme \<Rightarrow> 'n full_node_scheme \<Rightarrow> (u32 \<Rightarrow> string \<Rightarrow> bytes \<Rightarrow> nat) \<Rightarrow> recovery_txs
     \<Rightarrow> (bytes set, unit) call" where
  "relay_recovery_turn L T N post rx = cbind (lift_result (RecoveryTxs_signed L rx)) (relay_signed_txs L T N post)"

text \<open>The checkpoint whose confirmation is looked for, or none to look for yet.\<close>

definition unconfirmed_target :: "'t relay_text_scheme \<Rightarrow> checkpoint_queue \<Rightarrow> u32 option result" where
  "unconfirmed_target T q =
     (case rbind (CheckpointQueue_first_unconfirmed_index q) (\<lambda>unconf.
           rbind (ok_or (App ''No completed checkpoints yet'') unconf) (\<lambda>unconf_index.
           rbind (CheckpointQueue_last_completed_index q) (\<lambda>last_completed_index. Ok (unconf_index, last_completed_index)))) of
        Err e \<Rightarrow> if error_contains T e ''No completed checkpoints yet'' then Ok None else Err e
      | Ok (unconf_index, last_completed_index) \<Rightarrow>
          let unconf_index = max unconf_index (last_completed_index - 5) in
          if cq_confirmed_index q = Some unconf_index then Ok None else Ok (Some unconf_index))"

definition relay_checkpoint_conf ::
  "('i, 'm) app_lib_scheme \<Rightarrow> 'h header_lib_scheme \<Rightarrow> 't relay_text_scheme \<Rightarrow> 'n full_node_scheme \<Rightarrow> ctx \<Rightarrow> bitcoin \<Rightarrow> unit result \<times> bitcoin" where
  "relay_checkpoint_conf L H T N C btc =
     cbind (reads (\<lambda>btc. unconfirmed_target T (bc_checkpoints btc))) (\<lambda>target.
     case target of
       None \<Rightarrow> lift_result (Ok ())
     | Some unconf_index \<Rightarrow>
         cbind (reads (\<lambda>btc. CheckpointQueue_get (bc_checkpoints btc) unconf_index)) (\<lambda>cp.
         cbind (lift_result (Checkpoint_checkpoint_tx L cp)) (\<lambda>tx.
         let btc_height = HeaderQueue_height (bc_headers btc); min_confs = bf_min_checkpoint_confirmations (bc_config btc) in
         cbind (reads (\<lambda>btc. scan_for_txid L H N (bc_headers btc) (tx_txid L tx) 100)) (\<lambda>maybe_conf.
         case maybe_conf of
           None \<Rightarrow> lift_result (Ok ())
         | Some (height, blk) \<Rightarrow>
             cbind (lift_result (sub_u btc_height min_confs)) (\<lambda>confirmed_height.
             if height > confirmed_height then lift_result (Ok ())
             else
             cbind (lift_result (tx_out_proof N (tx_txid L tx) blk)) (\<lambda>btc_proof btc.
             case Bitcoin_relay_checkpoint L C height btc_proof unconf_index btc of
               (Ok u, btc) \<Rightarrow> (Ok (), btc)
             | (Err e, _) \<Rightarrow> (Err e, btc))))))) btc"

section \<open>What the relayer submits\<close>

text \<open>
  The node and the chain know the same blocks: a block hashes to its name, a header of the queue with that
  hash is its header, and the chain's tip has the same height at both.
\<close>

definition node_agrees :: "'n full_node_scheme \<Rightarrow> 'h header_lib_scheme \<Rightarrow> header_queue \<Rightarrow> bool" where
  "node_agrees N H q \<longleftrightarrow>
     (\<forall>h blk. block_of N h = Ok blk \<longrightarrow> block_hash H (bl_header blk) = h
        \<and> (\<forall>w \<in> set (hq_headers q). WrappedHeader_block_hash H w = h \<longrightarrow> wr_header w = bl_header blk))
     \<and> (\<forall>tip info. HeaderQueue_hash H q = Ok tip \<longrightarrow> header_info_of N tip = Ok info \<longrightarrow> hi_height info = HeaderQueue_height q)"

text \<open>The proof that a node gives for a transaction of a block has the block's Merkle root and that transaction alone.\<close>

definition proof_law :: "'m btc_lib_scheme \<Rightarrow> 'n full_node_scheme \<Rightarrow> bool" where
  "proof_law L N \<longleftrightarrow> (\<forall>h blk tx btc_proof. block_of N h = Ok blk \<longrightarrow> tx \<in> set (bl_txdata blk)
     \<longrightarrow> tx_out_proof N (tx_txid L tx) h = Ok btc_proof
     \<longrightarrow> extract_matches L btc_proof = Some (bh_merkle_root (bl_header blk), [tx_txid L tx]))"

lemma last_n_blocks_headers:
  assumes agrees: "node_agrees N H q" and linked: "successively (linked H) (hq_headers q)"
  shows "last_n_blocks N n hash = Ok blocks \<Longrightarrow> k < length (hq_deque q) \<Longrightarrow> WrappedHeader_block_hash H (hq_headers q ! k) = hash
    \<Longrightarrow> i < length blocks \<Longrightarrow> i \<le> k \<Longrightarrow>
    block_of N (block_hash H (bl_header (blocks ! i))) = Ok (blocks ! i) \<and> wr_header (hq_headers q ! (k - i)) = bl_header (blocks ! i)"
proof (induction n arbitrary: hash blocks k i)
  case (Suc n)
  from Suc.prems(1) obtain block rest where block: "block_of N hash = Ok block" and blocks: "blocks = block # rest"
    and rest: "last_n_blocks N n (bh_prev_blockhash (bl_header block)) = Ok rest" by auto
  have first: "block_hash H (bl_header block) = hash" "wr_header (hq_headers q ! k) = bl_header block"
    using agrees block Suc.prems(2,3) unfolding node_agrees_def by (metis length_map nth_mem)+
  show ?case
  proof (cases i)
    case 0
    then show ?thesis using first block blocks by simp
  next
    case (Suc j)
    then have k: "0 < k" "k - 1 < length (hq_deque q)" "j \<le> k - 1" "j < length rest" using Suc.prems blocks by auto
    have "linked H (hq_headers q ! (k - 1)) (hq_headers q ! k)"
      using linked k(1) Suc.prems(2) by (metis One_nat_def Suc_pred length_map successively_conv_nth)
    then have "WrappedHeader_block_hash H (hq_headers q ! (k - 1)) = bh_prev_blockhash (bl_header block)"
      using first(2) by (simp add: linked_def WrappedHeader_prev_blockhash_def)
    from Suc.IH [OF rest k(2) this k(4,3)] show ?thesis using blocks Suc by simp
  qed
qed simp

lemma last_n_blocks_length: "last_n_blocks N n hash = Ok blocks \<Longrightarrow> length blocks = n"
  by (induction n arbitrary: hash blocks) auto

lemma HeaderQueue_height_first:
  assumes "hq_inv H q"
  shows "HeaderQueue_height q = wr_height (hd (hq_headers q)) + (length (hq_deque q) - 1)"
  using assms linked_heights [of H "hq_headers q" "length (hq_deque q) - 1"]
  by (simp add: hq_inv_def HeaderQueue_height_def last_conv_nth)

lemma get_by_height_back:
  assumes "hq_inv H q" and "i < length (hq_deque q)"
  shows "HeaderQueue_get_by_height q (HeaderQueue_height q - i) = Ok (Some (hq_deque q ! (length (hq_deque q) - 1 - i)))"
    and "i \<le> HeaderQueue_height q"
proof -
  have ne: "hq_deque q \<noteq> []" using assms(1) by (auto simp: hq_inv_def)
  then have top: "HeaderQueue_height q = wr_height (wk_header (hd (hq_deque q))) + (length (hq_deque q) - 1)"
    using HeaderQueue_height_first [OF assms(1)] by (simp add: hd_map)
  with assms(2) show "i \<le> HeaderQueue_height q" by simp
  obtain front rest where q: "hq_deque q = front # rest" using ne by (cases "hq_deque q") auto
  let ?h = "wr_height (wk_header front)"
  have "\<not> ?h + length rest - i < ?h" "?h + length rest - i - ?h = length rest - i" using assms(2) q by auto
  with top assms(2) q show "HeaderQueue_get_by_height q (HeaderQueue_height q - i) = Ok (Some (hq_deque q ! (length (hq_deque q) - 1 - i)))"
    by (simp add: HeaderQueue_get_by_height_def Let_def)
qed

lemma relayed_proof:
  assumes inv: "hq_inv H q" and agrees: "node_agrees N H q" and law: "proof_law L N" and tip: "HeaderQueue_hash H q = Ok tip"
    and blocks: "last_n_blocks N n tip = Ok blocks" and i: "i < length blocks" "i < length (hq_deque q)"
    and tx: "tx \<in> set (bl_txdata (blocks ! i))"
    and pf: "tx_out_proof N (tx_txid L tx) (block_hash H (bl_header (blocks ! i))) = Ok btc_proof"
    and confs: "min_confs \<le> i"
  shows "proven_txid L q min_confs (HeaderQueue_height q - i) btc_proof = Ok (tx_txid L tx)"
proof -
  have ne: "hq_deque q \<noteq> []" and succ: "successively (linked H) (hq_headers q)" using inv by (auto simp: hq_inv_def)
  let ?k = "length (hq_deque q) - 1"
  have k: "?k < length (hq_deque q)" "i \<le> ?k" using i ne by auto
  have "WrappedHeader_block_hash H (hq_headers q ! ?k) = tip"
    using tip ne by (simp add: HeaderQueue_hash_def last_conv_nth)
  from last_n_blocks_headers [OF agrees succ blocks k(1) this i(1) k(2)]
  have b: "block_of N (block_hash H (bl_header (blocks ! i))) = Ok (blocks ! i)" "wr_header (hq_headers q ! (?k - i)) = bl_header (blocks ! i)"
    by auto
  have m: "extract_matches L btc_proof = Some (bh_merkle_root (bl_header (blocks ! i)), [tx_txid L tx])"
    using law b(1) tx pf unfolding proof_law_def by blast
  note got = get_by_height_back [OF inv i(2)]
  have "WorkHeader_merkle_root (hq_deque q ! (?k - i)) = bh_merkle_root (bl_header (blocks ! i))"
    using b(2) k i by (simp add: WorkHeader_merkle_root_def)
  with got m confs show ?thesis
    by (simp add: proven_txid_def sub_u_def)
qed

text \<open>The outputs with a watched script, and only these, are matched.\<close>

lemma relevant_outputs_iff:
  assumes "length (tr_output tx) \<le> 2 ^ 32"
  shows "om \<in> set (relevant_outputs ws tx) \<longleftrightarrow> om_vout om < length (tr_output tx)
    \<and> WatchedScripts_get (to_script_pubkey (tr_output tx ! om_vout om)) ws = Some (om_dest om, om_sigset_index om)"
proof
  assume "om \<in> set (relevant_outputs ws tx)"
  then show "om_vout om < length (tr_output tx)
    \<and> WatchedScripts_get (to_script_pubkey (tr_output tx ! om_vout om)) ws = Some (om_dest om, om_sigset_index om)"
    using assms by (auto simp: relevant_outputs_def List.map_filter_def in_set_enumerate_eq split: option.split_asm)
next
  assume om: "om_vout om < length (tr_output tx)
    \<and> WatchedScripts_get (to_script_pubkey (tr_output tx ! om_vout om)) ws = Some (om_dest om, om_sigset_index om)"
  then have "(om_vout om, tr_output tx ! om_vout om) \<in> set (enumerate 0 (tr_output tx))" by (simp add: in_set_enumerate_eq)
  with om assms show "om \<in> set (relevant_outputs ws tx)"
    by (force simp: relevant_outputs_def List.map_filter_def intro!: image_eqI [of _ _ "(om_vout om, tr_output tx ! om_vout om)"])
qed

text \<open>What a scan does to the chain: deposits that it accepts, one after the other.\<close>

definition deposit_step :: "('i, 'm) app_lib_scheme \<Rightarrow> ctx \<Rightarrow> 'i inner_app \<Rightarrow> 'i inner_app \<Rightarrow> bool" where
  "deposit_step L C app app' \<longleftrightarrow>
     (\<exists>tx height btc_proof vout sigset_index dest. InnerApp_relay_deposit L C tx height btc_proof vout sigset_index dest app = (Ok (), app'))"

abbreviation deposits :: "('i, 'm) app_lib_scheme \<Rightarrow> ctx \<Rightarrow> 'i relay_state \<Rightarrow> 'i relay_state \<Rightarrow> bool" where
  "deposits L C st st' \<equiv> (deposit_step L C)\<^sup>*\<^sup>* (rl_app st) (rl_app st')"

lemma InnerApp_relay_deposit_Ok:
  assumes "InnerApp_relay_deposit L C tx h pf vout k dest app = (Ok u, app')"
  obtains b where "Bitcoin_relay_deposit L C tx h pf vout k dest (ap_bitcoin app) = (Ok u, b)" "ap_bitcoin app' = b"
  using assms by (auto simp: InnerApp_relay_deposit_def on_bitcoin_def split: prod.split_asm)

lemma deposits_keep:
  assumes "(deposit_step L C)\<^sup>*\<^sup>* app app'"
  shows "deposit_view (ap_bitcoin app') = deposit_view (ap_bitcoin app)"
    and "OutpointSet_contains (bc_processed_outpoints (ap_bitcoin app)) o1 \<Longrightarrow> OutpointSet_contains (bc_processed_outpoints (ap_bitcoin app')) o1"
  using assms
proof (induction rule: rtranclp_induct)
  case (step app1 app2)
  from step(2) obtain tx h pf vout k dest where "InnerApp_relay_deposit L C tx h pf vout k dest app1 = (Ok (), app2)"
    by (auto simp: deposit_step_def)
  then obtain b where b: "Bitcoin_relay_deposit L C tx h pf vout k dest (ap_bitcoin app1) = (Ok (), b)" "ap_bitcoin app2 = b"
    by (rule InnerApp_relay_deposit_Ok)
  { case 1 then show ?case using step(3) b relay_deposit_view [OF b(1)] by simp }
  { case 2 then show ?case using step(4) b relay_deposit_outpoints(2) [OF b(1)] by simp }
qed simp_all

text \<open>The outcome of a submission: the chain has accepted it, or has refused it and is as before.\<close>

lemma submit_deposit_outcome:
  assumes "submit_deposit L T N C tx height blk om st = (r, st')"
    and "tx_out_proof N (tx_txid L tx) blk = Ok pf"
  shows "(\<exists>e app. InnerApp_relay_deposit L C tx height pf (om_vout om) (om_sigset_index om) (om_dest om) (rl_app st) = (Err e, app)
      \<and> rl_app st' = rl_app st)
    \<or> InnerApp_relay_deposit L C tx height pf (om_vout om) (om_sigset_index om) (om_dest om) (rl_app st) = (Ok (), rl_app st')"
  using assms by (auto simp: submit_deposit_def submit_def cbind_def lift_result_def split: prod.split_asm result.split_asm if_split_asm)

lemma submit_deposit_deposits:
  assumes "submit_deposit L T N C tx height blk om st = (r, st')"
  shows "deposits L C st st'"
proof (cases "tx_out_proof N (tx_txid L tx) blk")
  case (Ok pf)
  from submit_deposit_outcome [OF assms this] show ?thesis
    by (metis deposit_step_def r_into_rtranclp rtranclp.rtrancl_refl)
next
  case (Err e)
  with assms show ?thesis by (simp add: submit_deposit_def cbind_def lift_result_def)
qed

lemma maybe_relay_deposits:
  assumes "maybe_relay_deposit L T N C tx height blk om st = (r, st')"
  shows "deposits L C st st'"
  using assms submit_deposit_deposits [of L T N C tx height blk om]
  by (fastforce simp: maybe_relay_deposit_def Let_def cbind_def reads_def lift_result_def modify_def
      split: prod.split_asm result.split_asm if_split_asm option.split_asm)

lemma maybe_relay_outcome:
  assumes "maybe_relay_deposit L T N C tx height blk om st = (r, st')" and "om_vout om < length (tr_output tx)"
    and "address_from_script T (to_script_pubkey (tr_output tx ! om_vout om)) = Ok addr" and "tx_out_proof N (tx_txid L tx) blk = Ok pf"
  shows "OutpointSet_contains (bc_processed_outpoints (ap_bitcoin (rl_app st))) (tx_txid L tx, om_vout om)
    \<or> (\<exists>e app. InnerApp_relay_deposit L C tx height pf (om_vout om) (om_sigset_index om) (om_dest om) (rl_app st) = (Err e, app))
    \<or> InnerApp_relay_deposit L C tx height pf (om_vout om) (om_sigset_index om) (om_dest om) (rl_app st) = (Ok (), rl_app st')"
proof (rule ccontr)
  assume neg: "\<not> ?thesis"
  then have "\<exists>st0. rl_app st0 = rl_app st \<and> submit_deposit L T N C tx height blk om st0 = (r, st')"
    using assms(1-3) by (fastforce simp: maybe_relay_deposit_def Let_def cbind_def reads_def lift_result_def modify_def split: option.split_asm)
  with submit_deposit_outcome [OF _ assms(4)] neg show False by metis
qed

lemma relay_all_deposits:
  assumes "\<And>m st r st'. m \<in> set ms \<Longrightarrow> m st = (r, st') \<Longrightarrow> deposits L C st st'"
  shows "relay_all ms st = (r, st') \<Longrightarrow> deposits L C st st'"
  using assms
proof (induction ms arbitrary: st)
  case (Cons m ms)
  obtain r1 st1 where m: "m st = (r1, st1)" by fastforce
  have one: "deposits L C st st1" by (rule Cons.prems(2) [OF list.set_intros(1) m])
  show ?case
  proof (cases "r1 = Err Panic")
    case False
    with m Cons.prems(1) have "relay_all ms st1 = (r, st')" by (simp add: cbind_def log_error_def)
    with Cons.IH Cons.prems(2) one show ?thesis by (meson list.set_intros(2) rtranclp_trans)
  qed (use m one Cons.prems(1) in \<open>simp add: cbind_def log_error_def\<close>)
qed (simp add: lift_result_def)

lemma relay_all_each:
  assumes "\<And>m st r st'. m \<in> set ms \<Longrightarrow> m st = (r, st') \<Longrightarrow> deposits L C st st'"
  shows "relay_all ms st = (Ok u, st') \<Longrightarrow> m \<in> set ms \<Longrightarrow> \<exists>st1 r st2. deposits L C st st1 \<and> m st1 = (r, st2) \<and> deposits L C st2 st'"
  using assms
proof (induction ms arbitrary: st)
  case (Cons m1 ms)
  obtain r1 st1 where m1: "m1 st = (r1, st1)" by fastforce
  with Cons.prems(1) have rest: "relay_all ms st1 = (Ok u, st')" by (auto simp: cbind_def log_error_def split: if_split_asm)
  have first: "deposits L C st st1" by (rule Cons.prems(3) [OF list.set_intros(1) m1])
  show ?case
  proof (cases "m = m1")
    case True
    have "deposits L C st1 st'" by (rule relay_all_deposits [OF Cons.prems(3) [OF list.set_intros(2)] rest])
    with True m1 show ?thesis by blast
  next
    case False
    with Cons.prems(2) have "m \<in> set ms" by simp
    with Cons.IH [OF rest] Cons.prems(3) obtain st2 r st3 where "deposits L C st1 st2" "m st2 = (r, st3)" "deposits L C st3 st'"
      by (meson list.set_intros(2))
    with first show ?thesis by (meson rtranclp_trans)
  qed
qed simp

text \<open>What the scan does for one block.\<close>

definition block_calls ::
  "('i, 'm) app_lib_scheme \<Rightarrow> 'h header_lib_scheme \<Rightarrow> 't relay_text_scheme \<Rightarrow> 'n full_node_scheme \<Rightarrow> ctx \<Rightarrow> watched_scripts \<Rightarrow> u32 \<Rightarrow> btc_block
     \<Rightarrow> ('i relay_state, unit) call list" where
  "block_calls L H T N C ws height block = concat (map (\<lambda>(tx, matches).
     map (maybe_relay_deposit L T N C tx height (block_hash H (bl_header block))) matches) (relevant_txs ws block))"

lemma block_calls_deposits: "m \<in> set (block_calls L H T N C ws height block) \<Longrightarrow> m st = (r, st') \<Longrightarrow> deposits L C st st'"
  by (auto simp: block_calls_def intro: maybe_relay_deposits)

lemma relay_blocks_Cons:
  "relay_blocks L H T N C ws base ((i, block) # bs) =
     cbind (lift_result (block_height base i)) (\<lambda>height.
     cbind (relay_all (block_calls L H T N C ws height block)) (\<lambda>_. relay_blocks L H T N C ws base bs))"
  by (simp add: block_calls_def)

lemma relay_blocks_deposits: "relay_blocks L H T N C ws base bs st = (r, st') \<Longrightarrow> deposits L C st st'"
proof (induction bs arbitrary: st)
  case (Cons b bs)
  obtain i block where b: "b = (i, block)" by (cases b)
  show ?case
  proof (cases "block_height base i")
    case (Ok height)
    obtain r1 st1 where one: "relay_all (block_calls L H T N C ws height block) st = (r1, st1)" by fastforce
    have d: "deposits L C st st1" by (rule relay_all_deposits [OF block_calls_deposits one])
    show ?thesis
    proof (cases r1)
      case (Ok u)
      with Cons.prems b one \<open>block_height base i = Ok height\<close> have "relay_blocks L H T N C ws base bs st1 = (r, st')"
        by (simp add: relay_blocks_Cons cbind_def lift_result_def del: relay_blocks.simps)
      with Cons.IH d show ?thesis by (meson rtranclp_trans)
    qed (use Cons.prems b one d Ok in \<open>simp add: relay_blocks_Cons cbind_def lift_result_def del: relay_blocks.simps\<close>)
  qed (use Cons.prems b in \<open>simp add: cbind_def lift_result_def\<close>)
qed (simp add: lift_result_def)

lemma relay_blocks_each:
  "relay_blocks L H T N C ws base bs st = (Ok u, st') \<Longrightarrow> (i, block) \<in> set bs \<Longrightarrow>
   \<exists>height st1 st2. block_height base i = Ok height \<and> deposits L C st st1
     \<and> relay_all (block_calls L H T N C ws height block) st1 = (Ok (), st2) \<and> deposits L C st2 st'"
proof (induction bs arbitrary: st)
  case (Cons b bs)
  obtain j blk where b: "b = (j, blk)" by (cases b)
  from Cons.prems(1) b obtain h st1 where h: "block_height base j = Ok h"
    and one: "relay_all (block_calls L H T N C ws h blk) st = (Ok (), st1)" and rest: "relay_blocks L H T N C ws base bs st1 = (Ok u, st')"
    by (auto simp: block_calls_def)
  have d: "deposits L C st st1" by (rule relay_all_deposits [OF block_calls_deposits one])
  show ?case
  proof (cases "(i, block) = b")
    case True
    with b h one relay_blocks_deposits [OF rest] show ?thesis by auto
  next
    case False
    with Cons.IH [OF rest] Cons.prems(2) d show ?thesis by (auto 4 4 intro: rtranclp_trans)
  qed
qed simp

text \<open>The scan comes to every watched output of the blocks, and otherwise only changes the chain by deposits.\<close>

lemma scan_for_deposits_each:
  assumes scan: "scan_for_deposits L H T N C ws n st = (Ok tip, st')" and info: "header_info_of N tip = Ok info"
    and height: "block_height (hi_height info) i = Ok height"
    and block: "last_n_blocks N n tip = Ok blocks" "i < length blocks" "tx \<in> set (bl_txdata (blocks ! i))"
    and out: "vout < length (tr_output tx)" "length (tr_output tx) \<le> 2 ^ 32"
      "WatchedScripts_get (to_script_pubkey (tr_output tx ! vout)) ws = Some (dest, k)"
  obtains st1 r st2 where "deposits L C st st1" "deposits L C st2 st'"
    "maybe_relay_deposit L T N C tx height (block_hash H (bl_header (blocks ! i)))
       \<lparr>om_sigset_index = k, om_vout = vout, om_dest = dest\<rparr> st1 = (r, st2)"
proof -
  let ?om = "\<lparr>om_sigset_index = k, om_vout = vout, om_dest = dest\<rparr>"
  let ?m = "maybe_relay_deposit L T N C tx height (block_hash H (bl_header (blocks ! i))) ?om"
  from scan block(1) info have run: "relay_blocks L H T N C ws (hi_height info) (rev (enumerate 0 blocks)) st = (Ok (), st')"
    by (auto simp: scan_for_deposits_def)
  have mem: "(i, blocks ! i) \<in> set (rev (enumerate 0 blocks))" using block(2) by (simp add: in_set_enumerate_eq)
  obtain st1 st2 where st1: "deposits L C st st1" "deposits L C st2 st'"
    and calls: "relay_all (block_calls L H T N C ws height (blocks ! i)) st1 = (Ok (), st2)"
    using relay_blocks_each [OF run mem] height by auto
  have "?om \<in> set (relevant_outputs ws tx)" using out by (simp add: relevant_outputs_iff)
  then have m: "?m \<in> set (block_calls L H T N C ws height (blocks ! i))"
    using block(3) by (force simp: block_calls_def relevant_txs_def)
  have "\<exists>st3 r st4. deposits L C st1 st3 \<and> ?m st3 = (r, st4) \<and> deposits L C st4 st2"
    by (rule relay_all_each [OF _ calls m]) (rule block_calls_deposits)
  then show ?thesis using st1 that by (meson rtranclp_trans)
qed

lemma watched_script_matches:
  assumes "ws_run L sets ann gone ws" and "WatchedScripts_get script ws = Some (dest, k)"
  shows "\<exists>commitment. matching_commitment L (sets k) SIGSET_THRESHOLD script dest = Ok commitment"
proof -
  have "scripts_inv L sets ann ws" using ws_run_inv [OF assms(1)] by (simp add: ws_inv_def)
  with assms(2) have "script_of L sets (dest, k) = Ok script" by (auto simp: scripts_inv_def WatchedScripts_get_def)
  then show ?thesis by (auto simp: script_of_def derive_script_def matching_commitment_def)
qed

text \<open>
  C35: a scan credits every watched deposit that the chain can take. Let a scan of the last blocks end without a
  panic, where the node knows the blocks of the chain and the watched scripts were announced with the signatory sets of the
  chain's checkpoints. Then every output with a watched script in a scanned block that the chain knows and that
  has the confirmations it asks for has been processed by the chain when the scan ends; or the chain refused it,
  during the scan, in the call for this transaction, the height of its block, the node's proof, this output, and the destination and checkpoint that
  the script was announced for, and then neither for the proof nor for the script, which stand the chain's checks.
\<close>
theorem relayed_deposits_are_valid:
  assumes scan: "scan_for_deposits L H T N C ws n st = (Ok tip, st')"
    and watched: "ws_run L sets ann gone ws"
      "\<forall>k cp. CheckpointQueue_get (bc_checkpoints (ap_bitcoin (rl_app st))) k = Ok cp \<longrightarrow> sets k = cp_sigset cp"
      "cc_sigset_threshold (cq_config (bc_checkpoints (ap_bitcoin (rl_app st)))) = SIGSET_THRESHOLD"
    and chain: "hq_inv H (bc_headers (ap_bitcoin (rl_app st)))" "node_agrees N H (bc_headers (ap_bitcoin (rl_app st)))" "proof_law L N"
      "HeaderQueue_height (bc_headers (ap_bitcoin (rl_app st))) < 2 ^ 32"
    and block: "last_n_blocks N n tip = Ok blocks" "i < length blocks" "i < length (hq_deque (bc_headers (ap_bitcoin (rl_app st))))"
      "bf_min_confirmations (bc_config (ap_bitcoin (rl_app st))) \<le> i" "tx \<in> set (bl_txdata (blocks ! i))"
    and out: "vout < length (tr_output tx)" "length (tr_output tx) \<le> 2 ^ 32"
      "WatchedScripts_get (to_script_pubkey (tr_output tx ! vout)) ws = Some (dest, k)"
      "address_from_script T (to_script_pubkey (tr_output tx ! vout)) = Ok addr"
      "tx_out_proof N (tx_txid L tx) (block_hash H (bl_header (blocks ! i))) = Ok btc_proof"
  shows "OutpointSet_contains (bc_processed_outpoints (ap_bitcoin (rl_app st'))) (tx_txid L tx, vout)
    \<or> (\<exists>app e app' height. (deposit_step L C)\<^sup>*\<^sup>* (rl_app st) app \<and> (deposit_step L C)\<^sup>*\<^sup>* app (rl_app st')
        \<and> height = HeaderQueue_height (bc_headers (ap_bitcoin app)) - i
        \<and> InnerApp_relay_deposit L C tx height btc_proof vout k dest app = (Err e, app')
        \<and> proven_txid L (bc_headers (ap_bitcoin app)) (bf_min_confirmations (bc_config (ap_bitcoin app))) height btc_proof = Ok (tx_txid L tx)
        \<and> (\<forall>cp. CheckpointQueue_get (bc_checkpoints (ap_bitcoin app)) k = Ok cp \<longrightarrow>
             (\<exists>commitment. matching_commitment L (cp_sigset cp) (cc_sigset_threshold (cq_config (bc_checkpoints (ap_bitcoin app))))
                (to_script_pubkey (tr_output tx ! vout)) dest = Ok commitment)))"
proof -
  let ?q = "bc_headers (ap_bitcoin (rl_app st))"
  from scan obtain info where tip: "HeaderQueue_hash H ?q = Ok tip" "header_info_of N tip = Ok info" by (auto simp: scan_for_deposits_def)
  then have "block_height (hi_height info) i = Ok (HeaderQueue_height ?q - i)"
    using chain(2,4) get_by_height_back(2) [OF chain(1) block(3)] by (simp add: node_agrees_def block_height_def sub_u_def)
  then obtain st3 r st4 where st3: "deposits L C st st3" "deposits L C st4 st'"
    "maybe_relay_deposit L T N C tx (HeaderQueue_height ?q - i) (block_hash H (bl_header (blocks ! i)))
       \<lparr>om_sigset_index = k, om_vout = vout, om_dest = dest\<rparr> st3 = (r, st4)"
    by (rule scan_for_deposits_each [OF scan tip(2) _ block(1,2,5) out(1-3)])
  have reach: "deposits L C st st3" "deposits L C st4 st'" "deposits L C st3 st'"
    using st3 maybe_relay_deposits [OF st3(3)] by (meson rtranclp_trans)+
  have view: "deposit_view (ap_bitcoin (rl_app st3)) = deposit_view (ap_bitcoin (rl_app st))" by (rule deposits_keep(1) [OF reach(1)])
  then have same: "bc_headers (ap_bitcoin (rl_app st3)) = ?q" "bc_config (ap_bitcoin (rl_app st3)) = bc_config (ap_bitcoin (rl_app st))"
    "cc_sigset_threshold (cq_config (bc_checkpoints (ap_bitcoin (rl_app st3)))) = SIGSET_THRESHOLD"
    using watched(3) by (simp_all add: deposit_view_def)
  have proven: "proven_txid L ?q (bf_min_confirmations (bc_config (ap_bitcoin (rl_app st)))) (HeaderQueue_height ?q - i) btc_proof = Ok (tx_txid L tx)"
    by (rule relayed_proof [OF chain(1-3) tip(1) block(1-3,5) out(5) block(4)])
  have script: "\<exists>commitment. matching_commitment L (cp_sigset cp) SIGSET_THRESHOLD (to_script_pubkey (tr_output tx ! vout)) dest = Ok commitment"
    if "CheckpointQueue_get (bc_checkpoints (ap_bitcoin (rl_app st3))) k = Ok cp" for cp
    using deposit_view_get [OF view that] watched(2) watched_script_matches [OF watched(1) out(3)] by fastforce
  from maybe_relay_outcome [OF st3(3), of addr btc_proof] out
  consider "OutpointSet_contains (bc_processed_outpoints (ap_bitcoin (rl_app st3))) (tx_txid L tx, vout)"
    | e app where "InnerApp_relay_deposit L C tx (HeaderQueue_height ?q - i) btc_proof vout k dest (rl_app st3) = (Err e, app)"
    | "InnerApp_relay_deposit L C tx (HeaderQueue_height ?q - i) btc_proof vout k dest (rl_app st3) = (Ok (), rl_app st4)"
    by auto
  then show ?thesis
  proof cases
    case 1
    then show ?thesis using deposits_keep(2) [OF reach(3)] by blast
  next
    case 2
    then show ?thesis using reach proven script same by (intro disjI2 exI [of _ "rl_app st3"]) auto
  next
    case 3
    then obtain b where "Bitcoin_relay_deposit L C tx (HeaderQueue_height ?q - i) btc_proof vout k dest (ap_bitcoin (rl_app st3)) = (Ok (), b)"
      "ap_bitcoin (rl_app st4) = b" by (rule InnerApp_relay_deposit_Ok)
    then have "OutpointSet_contains (bc_processed_outpoints (ap_bitcoin (rl_app st4))) (tx_txid L tx, vout)"
      using relay_deposit_outpoints(2) by blast
    then show ?thesis using deposits_keep(2) [OF reach(2)] by blast
  qed
qed

text \<open>The scan for a transaction names the block that has it.\<close>

lemma find_txid_Some:
  assumes "find_txid L H txid base blocks = Ok (Some (height, blk))"
  shows "\<exists>i block. (i, block) \<in> set blocks \<and> block_height base i = Ok height \<and> blk = block_hash H (bl_header block)
    \<and> (\<exists>tx \<in> set (bl_txdata block). tx_txid L tx = txid)"
  using assms
proof (induction L H txid base blocks rule: find_txid.induct)
  case (2 L H txid base i block blocks)
  from "2.prems" obtain h where h: "block_height base i = Ok h" by auto
  show ?case
  proof (cases "\<exists>tx \<in> set (bl_txdata block). tx_txid L tx = txid")
    case True
    with "2.prems" h show ?thesis by auto
  next
    case False
    with "2.prems" h have "find_txid L H txid base blocks = Ok (Some (height, blk))" by auto
    from "2.IH" [OF h False this] show ?thesis by auto
  qed
qed simp

lemma scan_for_txid_Some:
  assumes inv: "hq_inv H q" and agrees: "node_agrees N H q" and small: "HeaderQueue_height q < 2 ^ 32"
    and first: "wr_height (hd (hq_headers q)) \<le> height" and scan: "scan_for_txid L H N q txid n = Ok (Some (height, blk))"
  obtains tip blocks i tx where "HeaderQueue_hash H q = Ok tip" "last_n_blocks N n tip = Ok blocks" "i < length blocks" "i < length (hq_deque q)"
    "height = HeaderQueue_height q - i" "blk = block_hash H (bl_header (blocks ! i))" "tx \<in> set (bl_txdata (blocks ! i))" "tx_txid L tx = txid"
proof -
  from scan obtain tip info blocks where tip: "HeaderQueue_hash H q = Ok tip" "header_info_of N tip = Ok info" "last_n_blocks N n tip = Ok blocks"
    and find: "find_txid L H txid (hi_height info) (rev (enumerate 0 blocks)) = Ok (Some (height, blk))"
    by (auto simp: scan_for_txid_def)
  from find_txid_Some [OF find] obtain i tx where i: "i < length blocks" "block_height (hi_height info) i = Ok height"
    "blk = block_hash H (bl_header (blocks ! i))" "tx \<in> set (bl_txdata (blocks ! i))" "tx_txid L tx = txid"
    by (auto simp: in_set_enumerate_eq)
  have h: "i \<le> HeaderQueue_height q" "height = HeaderQueue_height q - i"
    using i(2) agrees tip(1,2) small by (auto simp: node_agrees_def block_height_def)
  moreover have "0 < length (hq_deque q)" using inv by (simp add: hq_inv_def)
  ultimately have "i < length (hq_deque q)" using first HeaderQueue_height_first [OF inv] by linarith
  then show ?thesis using that tip i h(2) by blast
qed

lemma find_txid_skip:
  "(\<And>i b. (i, b) \<in> set xs \<Longrightarrow> i \<le> base \<and> (\<forall>tx \<in> set (bl_txdata b). tx_txid L tx \<noteq> txid))
   \<Longrightarrow> find_txid L H txid base (xs @ ys) = find_txid L H txid base ys"
proof (induction xs)
  case (Cons x xs)
  obtain i b where x: "x = (i, b)" by (cases x)
  with Cons.prems [of i b] have "block_height base i = Ok ((base - i) mod 2 ^ 32)" "\<not> (\<exists>tx \<in> set (bl_txdata b). tx_txid L tx = txid)"
    by (auto simp: block_height_def sub_u_def)
  with x Cons show ?case by auto
qed simp

text \<open>The scan goes from the oldest block to the newest, and stops at the first that has the transaction.\<close>

lemma find_txid_oldest:
  assumes "i < length blocks" and "\<exists>tx \<in> set (bl_txdata (blocks ! i)). tx_txid L tx = txid" and "length blocks \<le> Suc base" and "base < 2 ^ 32"
    and "\<forall>j < length blocks. i < j \<longrightarrow> (\<forall>tx \<in> set (bl_txdata (blocks ! j)). tx_txid L tx \<noteq> txid)"
  shows "find_txid L H txid base (rev (enumerate 0 blocks)) = Ok (Some (base - i, block_hash H (bl_header (blocks ! i))))"
proof -
  have "blocks = take i blocks @ blocks ! i # drop (Suc i) blocks" using assms(1) by (rule id_take_nth_drop)
  then have "enumerate 0 blocks = enumerate 0 (take i blocks) @ (i, blocks ! i) # enumerate (Suc i) (drop (Suc i) blocks)"
    using assms(1) by (metis add_0 enumerate_append_eq enumerate_simps(2) length_take min.absorb4)
  then have split: "rev (enumerate 0 blocks) = rev (enumerate (Suc i) (drop (Suc i) blocks)) @ (i, blocks ! i) # rev (enumerate 0 (take i blocks))"
    by simp
  have skip: "j \<le> base \<and> (\<forall>tx \<in> set (bl_txdata b). tx_txid L tx \<noteq> txid)"
    if "(j, b) \<in> set (rev (enumerate (Suc i) (drop (Suc i) blocks)))" for j b
  proof -
    have "j < length blocks" "i < j" "b = blocks ! j" using that assms(1) by (auto simp: in_set_enumerate_eq)
    then show ?thesis using assms(3,5) by auto
  qed
  have "block_height base i = Ok (base - i)" using assms(1,3,4) by (simp add: block_height_def sub_u_def)
  with assms(2) find_txid_skip [where H = H and xs = "rev (enumerate (Suc i) (drop (Suc i) blocks))", OF skip] show ?thesis
    unfolding split by simp
qed

text \<open>
  The checkpoint whose confirmation a turn looks for: the oldest of the last six that are complete and not yet
  confirmed.
\<close>

definition conf_target :: "checkpoint_queue \<Rightarrow> checkpoint" where
  "conf_target q = (let us = filter (is_unconfirmed q) (cq_queue q) in us ! (length us - 6))"

lemma unconfirmed_target_eq:
  assumes inv: "cq_inv q" "confirmed_complete q" and some: "filter (is_unconfirmed q) (cq_queue q) \<noteq> []"
  defines "u \<equiv> ss_index (cp_sigset (conf_target q))"
  shows "unconfirmed_target T q = Ok (Some u)" "CheckpointQueue_get q u = Ok (conf_target q)" "cq_confirmed_index q = Some c \<Longrightarrow> c < u"
proof -
  have wf: "cq_indexed (cq_index q) (cq_queue q)" using inv(1) by (simp add: cq_inv_def)
  have ne: "cq_queue q \<noteq> []" using some by auto
  obtain old rest k where q: "cq_queue q = old @ rest" "length rest = (if has_signing (cq_queue q) then 2 else 1)"
    and num: "CheckpointQueue_num_unconfirmed q = Ok (length old - k)" and fil: "filter (is_unconfirmed q) (cq_queue q) = drop k old"
    by (rule unconfirmed_parts [OF inv ne])
  have k: "k < length old" using some fil by simp
  let ?j = "k + (length old - k - 6)"
  have j: "?j < length (cq_queue q)" "?j < length old" using k q(1) by auto
  have "conf_target q = drop k old ! (length old - k - 6)" unfolding conf_target_def fil by (simp add: Let_def)
  then have target: "conf_target q = cq_queue q ! ?j" using k j(2) q(1) by (simp add: nth_append)
  have u: "u = first_of q + ?j" using cq_ss_index [OF wf j(1)] by (simp add: u_def target)
  have n: "length old + length rest \<le> Suc (cq_index q)" using wf q(1) by (simp add: cq_indexed_def)
  have last: "CheckpointQueue_last_completed_index q = Ok (first_of q + length old - 1)"
    using signing_eq [OF wf] q n k by (auto simp: CheckpointQueue_last_completed_index_def Let_def split: if_splits)
  let ?us = "filter (is_unconfirmed q) (cq_queue q)"
  have "?us ! (length ?us - 6) \<in> set ?us" using some by (intro nth_mem) (simp add: length_greater_0_conv [symmetric] del: length_greater_0_conv)
  then have unconf: "is_unconfirmed q (conf_target q)" by (simp add: conf_target_def Let_def)
  then show less: "c < u" if "cq_confirmed_index q = Some c" for c using that by (simp add: is_unconfirmed_def u_def)
  have "max (first_of q + k) (first_of q + length old - 1 - 5) = u" using u k by linarith
  moreover have "cq_confirmed_index q \<noteq> Some u" using less by blast
  ultimately show "unconfirmed_target T q = Ok (Some u)"
    using first_unconfirmed_eq [OF inv(1) q num k] last by (simp add: unconfirmed_target_def Let_def)
  show "CheckpointQueue_get q u = Ok (conf_target q)"
  proof -
    have "length (cq_queue q) = length old + length rest" using q(1) by simp
    then have "first_of q \<le> first_of q + ?j" "first_of q + ?j \<le> cq_index q" "first_of q + ?j - first_of q = ?j" using j(1) n by linarith+
    then show ?thesis unfolding u get_eq [OF wf] target by simp
  qed
qed

text \<open>
  C36: the confirmation of a checkpoint goes through. Let the queue have complete checkpoints that are not confirmed (the
  confirmed one being complete too), and take the oldest of the last six of them. If its transaction is in one of the last
  hundred blocks of the node up to the chain's tip, the oldest block that has it has the number of confirmations
  that the chain asks for, and the chain still has the header of that block, then one turn of the relay ends with this
  checkpoint recorded as confirmed, and nothing else has changed.
\<close>
theorem checkpoint_conf_is_recorded:
  assumes chain: "hq_inv H (bc_headers btc)" "node_agrees N H (bc_headers btc)" "proof_law L N" "exempt_from_fee C = Ok ()"
      "HeaderQueue_height (bc_headers btc) < 2 ^ 32" "99 \<le> HeaderQueue_height (bc_headers btc)"
    and queue: "cq_inv (bc_checkpoints btc)" "confirmed_complete (bc_checkpoints btc)"
      "filter (is_unconfirmed (bc_checkpoints btc)) (cq_queue (bc_checkpoints btc)) \<noteq> []"
      "Checkpoint_checkpoint_tx L (conf_target (bc_checkpoints btc)) = Ok tx"
    and node: "HeaderQueue_hash H (bc_headers btc) = Ok tip" "header_info_of N tip = Ok info" "last_n_blocks N 100 tip = Ok blocks"
    and found: "i < length blocks" "\<exists>tx' \<in> set (bl_txdata (blocks ! i)). tx_txid L tx' = tx_txid L tx"
      "\<forall>j < length blocks. i < j \<longrightarrow> (\<forall>tx' \<in> set (bl_txdata (blocks ! j)). tx_txid L tx' \<noteq> tx_txid L tx)"
    and deep: "bf_min_checkpoint_confirmations (bc_config btc) \<le> i" "i < length (hq_deque (bc_headers btc))"
    and pf: "tx_out_proof N (tx_txid L tx) (block_hash H (bl_header (blocks ! i))) = Ok btc_proof"
  shows "relay_checkpoint_conf L H T N C btc =
    (Ok (), btc\<lparr>bc_checkpoints := (bc_checkpoints btc)
      \<lparr>cq_confirmed_index := Some (ss_index (cp_sigset (conf_target (bc_checkpoints btc))))\<rparr>\<rparr>)"
proof -
  let ?q = "bc_headers btc" and ?u = "ss_index (cp_sigset (conf_target (bc_checkpoints btc)))" and ?blk = "block_hash H (bl_header (blocks ! i))"
  note target = unconfirmed_target_eq [OF queue(1-3)]
  have "length blocks = 100" using node(3) by (rule last_n_blocks_length)
  moreover have height: "hi_height info = HeaderQueue_height ?q" using chain(2) node(1,2) by (simp add: node_agrees_def)
  ultimately have scan: "scan_for_txid L H N ?q (tx_txid L tx) 100 = Ok (Some (HeaderQueue_height ?q - i, ?blk))"
    using find_txid_oldest [OF found(1,2) _ chain(5) found(3), of H] chain(6) node by (simp add: scan_for_txid_def)
  obtain tx' where tx': "tx' \<in> set (bl_txdata (blocks ! i))" "tx_txid L tx' = tx_txid L tx" using found(2) by blast
  have i: "i \<le> HeaderQueue_height ?q" by (rule get_by_height_back(2) [OF chain(1) deep(2)])
  have "proven_txid L ?q (bf_min_checkpoint_confirmations (bc_config btc)) (HeaderQueue_height ?q - i) btc_proof = Ok (tx_txid L tx)"
    using relayed_proof [OF chain(1-3) node(1,3) found(1) deep(2) tx'(1) _ deep(1), of btc_proof] pf tx'(2) by simp
  then have "Bitcoin_relay_checkpoint L C (HeaderQueue_height ?q - i) btc_proof ?u btc
      = (Ok (), btc\<lparr>bc_checkpoints := (bc_checkpoints btc)\<lparr>cq_confirmed_index := Some ?u\<rparr>\<rparr>)"
    using chain(4) queue(4) target(2,3) by (auto simp: Bitcoin_relay_checkpoint_def not_le split: option.split)
  moreover have "bf_min_checkpoint_confirmations (bc_config btc) \<le> HeaderQueue_height ?q"
    "\<not> HeaderQueue_height ?q - bf_min_checkpoint_confirmations (bc_config btc) < HeaderQueue_height ?q - i"
    using deep(1) i by linarith+
  ultimately show ?thesis
    using target(1) [of T] target(2) queue(4) scan pf
    by (simp add: relay_checkpoint_conf_def cbind_def reads_def lift_result_def Let_def sub_u_def)
qed

section \<open>An announcement that is refused\<close>

text \<open>
  A deposit address of a signatory set that no longer accepts deposits is refused only after it was
  sent to the relay, which watches it all the same.
\<close>

theorem refused_address_is_announced:
  assumes "post_address L T btc now deposit_buffer query body sv = (Err (Relayer msg), sv')"
    and "\<And>r. dest_decode T body \<noteq> Err (Relayer r)" and "\<And>d sigset r. derive_script L d sigset SIGSET_THRESHOLD \<noteq> Err (Relayer r)"
    and "\<And>r. CheckpointQueue_get (bc_checkpoints btc) (da_sigset_index query) \<noteq> Err (Relayer r)"
  shows "\<exists>dest. dest_decode T body = Ok dest \<and> last (as_sent sv') = (dest, da_sigset_index query)"
proof -
  have c: "cached_sigset q i s = (Err (Relayer r), s') \<Longrightarrow> CheckpointQueue_get q i = Err (Relayer r)" for q i s s' r
    by (auto simp: cached_sigset_def cbind_Err split: option.split_asm if_split_asm)
  have p: "map_err (\<lambda>_. Panic) r \<noteq> Err (Relayer msg)" for r :: "string result"
    by (cases r) simp_all
  show ?thesis
    using assms by (auto simp: post_address_def cbind_Err add_w_def p dest!: c split: if_split_asm)
qed

section \<open>A concrete relayer and chain\<close>

text \<open>A chain with two headers, the last of a block with one transaction; the node has one block below, over and over.\<close>

definition demo_top :: "transaction list \<Rightarrow> btc_block" where
  "demo_top txs = \<lparr>bl_header = wr_header (demo_header 201 2 3 5), bl_txdata = txs\<rparr>"

definition demo_below :: btc_block where
  "demo_below = \<lparr>bl_header = wr_header (demo_header 200 2 2 5), bl_txdata = []\<rparr>"

definition demo_full :: "transaction list \<Rightarrow> full_node" where
  "demo_full txs = btc_node.extend
     \<lparr>best_block_hash = Ok [3], header_info_of = (\<lambda>h. Ok (demo_info 3 201 1 (Some 2) None)), header_of = (\<lambda>h. Err (App ''none''))\<rparr>
     \<lparr>block_of = (\<lambda>h. if h = [3] then Ok (demo_top txs) else if h = [2] then Ok demo_below else Err (App ''none'')),
      tx_out_proof = (\<lambda>txid h. Ok txid), send_raw_transaction = (\<lambda>tx. None), raw_mempool = Ok [], raw_transaction = (\<lambda>h. Err (App ''none''))\<rparr>"

definition demo_two :: header_queue where
  "demo_two = \<lparr>hq_deque = [WorkHeader_new (demo_header 200 2 2 5) 5, WorkHeader_new (demo_header 201 2 3 5) 10],
      hq_current_work = 10, hq_config = demo_header_config\<rparr>"

lemmas demo_full_defs = demo_full_def btc_node.defs demo_top_def demo_below_def demo_header_def WrappedHeader_new_def

lemma demo_two_inv: "hq_inv demo_header_lib demo_two" "HeaderQueue_hash demo_header_lib demo_two = Ok [3]" "HeaderQueue_height demo_two = 201"
  by (simp_all add: hq_inv_def demo_two_def linked_def HeaderQueue_hash_def HeaderQueue_height_def WrappedHeader_block_hash_def
      WrappedHeader_prev_blockhash_def WorkHeader_new_def demo_header_def WrappedHeader_new_def demo_header_lib_def)

lemma demo_full_agrees: "node_agrees (demo_full txs) demo_header_lib demo_two" "proof_law demo_app_lib (demo_full txs)"
proof -
  show "node_agrees (demo_full txs) demo_header_lib demo_two"
    using demo_two_inv(2,3)
    by (auto simp: node_agrees_def demo_full_defs demo_two_def WorkHeader_new_def WrappedHeader_block_hash_def demo_header_lib_def demo_info_def
        split: if_split_asm)
  show "proof_law demo_app_lib (demo_full txs)"
    by (auto simp: proof_law_def demo_full_defs split: if_split_asm)
qed

lemma demo_blocks_below: "last_n_blocks (demo_full txs) n [2] = Ok (replicate n demo_below)"
proof (induction n)
  case (Suc n)
  have "block_of (demo_full txs) [2] = Ok demo_below" "bh_prev_blockhash (bl_header demo_below) = [2]"
    by (simp_all add: demo_full_defs)
  with Suc show ?case by simp
qed simp

lemma demo_blocks: "last_n_blocks (demo_full txs) (Suc n) [3] = Ok (demo_top txs # replicate n demo_below)"
proof -
  have "block_of (demo_full txs) [3] = Ok (demo_top txs)" "bh_prev_blockhash (bl_header (demo_top txs)) = [2]"
    by (simp_all add: demo_full_defs)
  then show ?thesis by (simp add: demo_blocks_below)
qed

text \<open>A node that has the chain's last two blocks, the lower one with a deposit.\<close>

definition demo_deposit_node :: full_node where
  "demo_deposit_node = btc_node.extend
     \<lparr>best_block_hash = Ok [3], header_info_of = (\<lambda>h. Ok (demo_info 3 3 1 (Some 2) None)), header_of = (\<lambda>h. Err (App ''none''))\<rparr>
     \<lparr>block_of = (\<lambda>h. if h = [3] then Ok \<lparr>bl_header = wr_header (demo_header 3 2 3 5), bl_txdata = []\<rparr>
        else if h = [2] then Ok \<lparr>bl_header = wr_header (demo_header 2 1 2 5), bl_txdata = [demo_deposit_tx]\<rparr> else Err (App ''none'')),
      tx_out_proof = (\<lambda>txid h. Ok txid), send_raw_transaction = (\<lambda>tx. None), raw_mempool = Ok [], raw_transaction = (\<lambda>h. Err (App ''none''))\<rparr>"

definition demo_watched :: watched_scripts where
  "demo_watched = \<lparr>ws_scripts = [([], NativeAccount [2], 4)], ws_sigsets = [(4, demo_small_ss, [NativeAccount [2]])]\<rparr>"

lemma demo_watched_run: "ws_run demo_app_lib (\<lambda>k. demo_small_ss\<lparr>ss_index := k\<rparr>) {(NativeAccount [2], 4)} {} demo_watched"
proof -
  have ss: "demo_small_ss\<lparr>ss_index := 4\<rparr> = demo_small_ss" by (simp add: demo_small_ss_def)
  have "derive_script demo_app_lib (NativeAccount [2]) demo_small_ss SIGSET_THRESHOLD = Ok []"
    by (simp add: derive_script_def demo_commitment demo_app_out SIGSET_THRESHOLD_def)
  then have "WatchedScripts_insert demo_app_lib (NativeAccount [2]) (demo_small_ss\<lparr>ss_index := 4\<rparr>) WatchedScripts_new = Ok (True, demo_watched)"
    by (simp add: ss) (simp add: WatchedScripts_insert_def WatchedScripts_new_def omap_contains_def hm_insert_def push_dest_def
        omap_modify_def omap_remove_def demo_small_ss_def demo_watched_def)
  from ws_run.announce [where sets = "\<lambda>k. demo_small_ss\<lparr>ss_index := k\<rparr>", OF ws_run.init _ this] show ?thesis by simp
qed

definition demo_relay_text :: relay_text where
  "demo_relay_text = dest_text.extend demo_text \<lparr>address_from_script = (\<lambda>s. Ok []), error_text = (\<lambda>e. [])\<rparr>"

lemma demo_deposit_node_agrees:
  "node_agrees demo_deposit_node demo_header_lib demo_queue" "proof_law demo_app_lib demo_deposit_node"
proof -
  have top: "HeaderQueue_hash demo_header_lib demo_queue = Ok [3]" "HeaderQueue_height demo_queue = 3"
    by (simp_all add: HeaderQueue_hash_def HeaderQueue_height_def demo_header_defs WrappedHeader_block_hash_def)
  show "node_agrees demo_deposit_node demo_header_lib demo_queue"
    using top by (auto simp: node_agrees_def demo_deposit_node_def btc_node.defs demo_header_defs WrappedHeader_block_hash_def demo_info_def
        split: if_split_asm)
  show "proof_law demo_app_lib demo_deposit_node"
    by (auto simp: proof_law_def demo_deposit_node_def btc_node.defs demo_header_defs split: if_split_asm)
qed

text \<open>The scan of these two blocks, in which the chain takes the deposit.\<close>

abbreviation demo_relay_state :: "nat relay_state" where
  "demo_relay_state \<equiv> \<lparr>rl_index = DepositIndex_new, rl_app = demo_app\<rparr>"

lemma demo_scan:
  "last_n_blocks demo_deposit_node 2 [3] = Ok [\<lparr>bl_header = wr_header (demo_header 3 2 3 5), bl_txdata = []\<rparr>,
     \<lparr>bl_header = wr_header (demo_header 2 1 2 5), bl_txdata = [demo_deposit_tx]\<rparr>]"
  "\<exists>st'. scan_for_deposits demo_app_lib demo_header_lib demo_relay_text demo_deposit_node demo_user_ctx demo_watched 2 demo_relay_state = (Ok [3], st')"
proof -
  show blocks: "last_n_blocks demo_deposit_node 2 [3] = Ok [\<lparr>bl_header = wr_header (demo_header 3 2 3 5), bl_txdata = []\<rparr>,
     \<lparr>bl_header = wr_header (demo_header 2 1 2 5), bl_txdata = [demo_deposit_tx]\<rparr>]"
    by (simp add: demo_deposit_node_def btc_node.defs demo_header_def WrappedHeader_new_def numeral_2_eq_2)
  obtain app where app: "InnerApp_relay_deposit demo_app_lib demo_user_ctx demo_deposit_tx 2 [1] 0 4 (NativeAccount [2]) demo_app = (Ok (), app)"
    using demo_app_relay_deposit by blast
  let ?om = "\<lparr>om_sigset_index = 4, om_vout = 0, om_dest = NativeAccount [2]\<rparr>"
  have sub: "submit_deposit demo_app_lib demo_relay_text demo_deposit_node demo_user_ctx demo_deposit_tx 2 [2] ?om \<lparr>rl_index = ix, rl_app = demo_app\<rparr>
      = (Ok (), \<lparr>rl_index = ix, rl_app = app\<rparr>)" for ix
    using app by (simp add: submit_deposit_def submit_def cbind_def lift_result_def demo_deposit_node_def btc_node.defs)
  have new: "\<not> OutpointSet_contains (bc_processed_outpoints (ap_bitcoin demo_app)) ([1], 0)"
    by (simp add: demo_app_def demo_bitcoin_def Bitcoin_migrate_from_def OutpointSet_contains_def OutpointSet_default_def omap_contains_def)
  have out: "length (tr_output demo_deposit_tx) = 1" "address_from_script demo_relay_text sc = Ok []" for sc
    by (simp_all add: demo_deposit_tx_def demo_relay_text_def dest_text.defs)
  have m: "\<exists>st'. maybe_relay_deposit demo_app_lib demo_relay_text demo_deposit_node demo_user_ctx demo_deposit_tx 2 [2] ?om demo_relay_state = (Ok (), st')"
    by (cases "Dest_to_receiver_addr demo_relay_text (NativeAccount [2])")
      (simp_all add: maybe_relay_deposit_def Let_def cbind_def reads_def lift_result_def modify_def sub new out)
  have rel: "relevant_outputs demo_watched demo_deposit_tx = [?om]"
    by (simp add: relevant_outputs_def List.map_filter_def WatchedScripts_get_def demo_watched_def demo_deposit_tx_def)
  have hash: "HeaderQueue_hash demo_header_lib (bc_headers (ap_bitcoin demo_app)) = Ok [3]"
    by (simp add: demo_app_def demo_bitcoin_def Bitcoin_migrate_from_def HeaderQueue_hash_def demo_header_defs WrappedHeader_block_hash_def)
  have info: "header_info_of demo_deposit_node [3] = Ok (demo_info 3 3 1 (Some 2) None)" by (simp add: demo_deposit_node_def btc_node.defs)
  have names: "block_hash demo_header_lib (wr_header (demo_header 2 1 2 5)) = [2]" "block_height 3 1 = Ok 2" "block_height 3 0 = Ok 3"
    by (simp_all add: demo_header_defs block_height_def sub_u_def)
  from m obtain st' where "maybe_relay_deposit demo_app_lib demo_relay_text demo_deposit_node demo_user_ctx demo_deposit_tx 2 [2] ?om demo_relay_state = (Ok (), st')" ..
  with rel names hash info blocks
  show "\<exists>st'. scan_for_deposits demo_app_lib demo_header_lib demo_relay_text demo_deposit_node demo_user_ctx demo_watched 2 demo_relay_state = (Ok [3], st')"
    by (simp add: scan_for_deposits_def cbind_def reads_def lift_result_def relevant_txs_def log_error_def demo_info_def)
qed

theorem relayed_deposits_are_valid_witness:
  "\<exists>st'. scan_for_deposits demo_app_lib demo_header_lib demo_relay_text demo_deposit_node demo_user_ctx demo_watched 2 demo_relay_state = (Ok [3], st')
    \<and> (OutpointSet_contains (bc_processed_outpoints (ap_bitcoin (rl_app st'))) ([1], 0)
      \<or> (\<exists>app e app'. InnerApp_relay_deposit demo_app_lib demo_user_ctx demo_deposit_tx
           (HeaderQueue_height (bc_headers (ap_bitcoin app)) - 1) [1] 0 4 (NativeAccount [2]) app = (Err e, app')))"
proof -
  have sel: "bc_headers (ap_bitcoin (rl_app demo_relay_state)) = demo_queue" "bc_checkpoints (ap_bitcoin (rl_app demo_relay_state)) = demo_cq"
    "bc_config (ap_bitcoin (rl_app demo_relay_state)) = BitcoinConfig_default"
    by (simp_all add: demo_app_def demo_bitcoin_def Bitcoin_migrate_from_def)
  have sets: "\<forall>k cp. CheckpointQueue_get (bc_checkpoints (ap_bitcoin (rl_app demo_relay_state))) k = Ok cp
      \<longrightarrow> demo_small_ss\<lparr>ss_index := k\<rparr> = cp_sigset cp"
  proof (intro allI impI)
    fix k cp
    assume "CheckpointQueue_get (bc_checkpoints (ap_bitcoin (rl_app demo_relay_state))) k = Ok cp"
    then have get: "CheckpointQueue_get demo_cq k = Ok cp" unfolding sel .
    then have "k \<le> 4" "3 \<le> k"
      by (auto simp: CheckpointQueue_get_def CheckpointQueue_get_deque_index_def add_w_def sub_u_def demo_cq_def split: if_split_asm)
    then consider "k = 3" | "k = 4" by linarith
    then show "demo_small_ss\<lparr>ss_index := k\<rparr> = cp_sigset cp"
      by cases (use get in \<open>auto simp: CheckpointQueue_get_def CheckpointQueue_get_deque_index_def add_w_def sub_u_def demo_cq_def
          demo_old_def demo_building_def Checkpoint_new_def demo_small_ss_def\<close>)
  qed
  have thr: "cc_sigset_threshold (cq_config (bc_checkpoints (ap_bitcoin (rl_app demo_relay_state)))) = SIGSET_THRESHOLD"
    unfolding sel by (simp add: demo_cq_def CheckpointConfig_default_def CheckpointConfig_bitcoin_def)
  obtain st' where scan: "scan_for_deposits demo_app_lib demo_header_lib demo_relay_text demo_deposit_node demo_user_ctx demo_watched 2 demo_relay_state = (Ok [3], st')"
    using demo_scan(2) by blast
  have height: "HeaderQueue_height demo_queue < 2 ^ 32" by (simp add: HeaderQueue_height_def demo_header_defs)
  have pf: "tx_out_proof demo_deposit_node (tx_txid demo_app_lib demo_deposit_tx) blk = Ok [1]" for blk
    by (simp add: demo_deposit_node_def btc_node.defs)
  note inst = relayed_deposits_are_valid [OF scan demo_watched_run sets thr, unfolded sel, OF demo_queue_inv demo_deposit_node_agrees height demo_scan(1),
      where i = 1 and tx = demo_deposit_tx and vout = 0 and dest = "NativeAccount [2]" and k = 4 and addr = "[]" and btc_proof = "[1]"]
  have "OutpointSet_contains (bc_processed_outpoints (ap_bitcoin (rl_app st'))) ([1], 0)
      \<or> (\<exists>app e app'. InnerApp_relay_deposit demo_app_lib demo_user_ctx demo_deposit_tx
           (HeaderQueue_height (bc_headers (ap_bitcoin app)) - 1) [1] 0 4 (NativeAccount [2]) app = (Err e, app'))"
    using inst pf by (auto simp: demo_deposit_tx_def demo_queue_def BitcoinConfig_default_def NETWORK_def BitcoinConfig_bitcoin_def
        demo_watched_def WatchedScripts_get_def demo_relay_text_def dest_text.defs)
  with scan show ?thesis by blast
qed

text \<open>A chain with one complete checkpoint, whose transaction is in the node's last block.\<close>

definition demo_done_tx :: transaction where
  "demo_done_tx = \<lparr>tr_version = 1, tr_lock_time = 0, tr_input = [], tr_output = [\<lparr>to_value = 7, to_script_pubkey = [3]\<rparr>]\<rparr>"

definition demo_done :: checkpoint where
  "demo_done = (Checkpoint_new (demo_small_ss\<lparr>ss_index := 3\<rparr>))\<lparr>cp_status := Complete,
     cp_batches := [Batch_default, Batch_default, Batch_default\<lparr>ba_batch := [BitcoinTx_default\<lparr>bt_output := [\<lparr>to_value = 7, to_script_pubkey = [3]\<rparr>]\<rparr>]\<rparr>]\<rparr>"

definition demo_done_btc :: bitcoin where
  "demo_done_btc = Bitcoin_migrate_from demo_two OutpointSet_default
     \<lparr>cq_queue = [demo_done, demo_building], cq_index = 4, cq_confirmed_index = None, cq_config = CheckpointConfig_default\<rparr>
     (\<lambda>_. 0) SignatoryKeys_default 0 [] BitcoinConfig_default"

lemma demo_done_sel [simp]:
  "bc_headers demo_done_btc = demo_two" "bc_config demo_done_btc = BitcoinConfig_default" "cq_confirmed_index (bc_checkpoints demo_done_btc) = None"
  "bc_checkpoints demo_done_btc = \<lparr>cq_queue = [demo_done, demo_building], cq_index = 4, cq_confirmed_index = None, cq_config = CheckpointConfig_default\<rparr>"
  "cp_status demo_done = Complete"
  by (simp_all add: demo_done_btc_def Bitcoin_migrate_from_def demo_done_def)

lemma demo_done_queue:
  "cq_inv (bc_checkpoints demo_done_btc)" "confirmed_complete (bc_checkpoints demo_done_btc)"
  "filter (is_unconfirmed (bc_checkpoints demo_done_btc)) (cq_queue (bc_checkpoints demo_done_btc)) = [demo_done]"
  "conf_target (bc_checkpoints demo_done_btc) = demo_done" "ss_index (cp_sigset demo_done) = 3"
proof -
  have st: "cp_status demo_building = Building" "ss_index (cp_sigset demo_building) = 4"
    by (simp_all add: demo_building_def Checkpoint_new_def demo_small_ss_def)
  show ix: "ss_index (cp_sigset demo_done) = 3" by (simp add: demo_done_def Checkpoint_new_def demo_small_ss_def)
  show "cq_inv (bc_checkpoints demo_done_btc)" using st ix by (simp add: cq_inv_def cq_shape_def cq_indexed_def All_less_Suc)
  show "confirmed_complete (bc_checkpoints demo_done_btc)" by (simp add: confirmed_complete_def)
  show fil: "filter (is_unconfirmed (bc_checkpoints demo_done_btc)) (cq_queue (bc_checkpoints demo_done_btc)) = [demo_done]"
    using st by (simp add: is_unconfirmed_def)
  show "conf_target (bc_checkpoints demo_done_btc) = demo_done" unfolding conf_target_def fil by simp
qed

theorem checkpoint_conf_is_recorded_witness:
  "\<exists>btc'. relay_checkpoint_conf demo_app_lib demo_header_lib demo_relay_text (demo_full [demo_done_tx]) demo_fee_ctx demo_done_btc = (Ok (), btc')
     \<and> cq_confirmed_index (bc_checkpoints btc') = Some 3"
proof -
  let ?N = "demo_full [demo_done_tx]" and ?blocks = "demo_top [demo_done_tx] # replicate 99 demo_below"
  have tx: "Checkpoint_checkpoint_tx demo_app_lib (conf_target (bc_checkpoints demo_done_btc)) = Ok demo_done_tx"
    unfolding demo_done_queue(4)
    by (simp add: Checkpoint_checkpoint_tx_def demo_done_def demo_done_tx_def get_batch_def get_tx_def BitcoinTx_to_bitcoin_tx_def
        Batch_default_def BitcoinTx_default_def)
  have below: "\<forall>j < length ?blocks. 0 < j \<longrightarrow> (\<forall>tx' \<in> set (bl_txdata (?blocks ! j)). tx_txid demo_app_lib tx' \<noteq> tx_txid demo_app_lib demo_done_tx)"
    by (auto simp: nth_Cons demo_below_def split: nat.split)
  have blocks: "last_n_blocks ?N 100 [3] = Ok ?blocks" using demo_blocks [of "[demo_done_tx]" 99] by simp
  have info: "header_info_of ?N [3] = Ok (demo_info 3 201 1 (Some 2) None)" by (simp add: demo_full_defs)
  have hash: "HeaderQueue_hash demo_header_lib (bc_headers demo_done_btc) = Ok [3]" using demo_two_inv(2) by simp
  have some: "filter (is_unconfirmed (bc_checkpoints demo_done_btc)) (cq_queue (bc_checkpoints demo_done_btc)) \<noteq> []"
    unfolding demo_done_queue(3) by simp
  have "relay_checkpoint_conf demo_app_lib demo_header_lib demo_relay_text ?N demo_fee_ctx demo_done_btc =
    (Ok (), demo_done_btc\<lparr>bc_checkpoints := (bc_checkpoints demo_done_btc)
      \<lparr>cq_confirmed_index := Some (ss_index (cp_sigset (conf_target (bc_checkpoints demo_done_btc))))\<rparr>\<rparr>)"
    by (rule checkpoint_conf_is_recorded [where i = 0 and btc_proof = "[1]", OF _ _ demo_full_agrees(2) _ _ _ demo_done_queue(1,2) some tx hash info blocks _ _ below])
      (use demo_two_inv demo_full_agrees(1) in \<open>simp_all add: exempt_from_fee_def demo_fee_ctx_def BitcoinConfig_default_def NETWORK_def
        BitcoinConfig_bitcoin_def demo_full_def btc_node.defs demo_top_def demo_two_def\<close>)
  then show ?thesis unfolding demo_done_queue(4,5) by simp
qed

end
