(* ===== verification/Babylon_Relayer.thy ===== *)
theory Babylon_Relayer
  imports Babylon Relayer
begin

text \<open>
  The relayer of Babylon staking (src/src/babylon/relayer.rs): it looks for the staking and unbonding transactions of
  the delegations among the last blocks of a Bitcoin node and submits proofs of them. A failed call leaves the chain
  as it is, and its error ends the relay. The text of a transaction id is the parameter \<open>text\<close>.
\<close>

section \<open>The relay\<close>

definition scan_best_for_txid ::
  "'m tx_lib_scheme \<Rightarrow> 'h header_lib_scheme \<Rightarrow> 'n full_node_scheme \<Rightarrow> bytes \<Rightarrow> nat \<Rightarrow> (u32 \<times> bytes) option result" where
  "scan_best_for_txid L H N txid num_blocks =
     rbind (best_block_hash N) (\<lambda>tip.
     rbind (header_info_of N tip) (\<lambda>info.
     rbind (last_n_blocks N num_blocks tip) (\<lambda>blocks.
     find_txid L H txid (hi_height info) (rev (enumerate 0 blocks)))))"

fun position :: "('a \<Rightarrow> bool) \<Rightarrow> 'a list \<Rightarrow> nat option" where
  "position P [] = None"
| "position P (x # xs) = (if P x then Some 0 else map_option Suc (position P xs))"

definition submit_bab :: "(bab_world, unit) call \<Rightarrow> (bab_world, unit) call" where
  "submit_bab m w = (case m w of (Ok u, w') \<Rightarrow> (Ok u, w') | (Err e, _) \<Rightarrow> (Err e, w))"

text \<open>The transaction of the checkpoint that stakes a delegation, with the status of the checkpoint.\<close>

definition staking_tx_of :: "'m tx_lib_scheme \<Rightarrow> delegation \<Rightarrow> bab_world \<Rightarrow> (checkpoint_status \<times> transaction) result" where
  "staking_tx_of L del w =
     rbind (CheckpointQueue_get (bc_checkpoints (bw_bitcoin w)) (fst (dl_checkpoint_batch_index del))) (\<lambda>cp.
     rbind (get_batch Checkpoint_batch cp) (\<lambda>batch.
     if \<not> snd (dl_checkpoint_batch_index del) < length (ba_batch batch) then Err Panic
     else
     rbind (BitcoinTx_to_bitcoin_tx L (ba_batch batch ! snd (dl_checkpoint_batch_index del))) (\<lambda>tx.
     Ok (cp_status cp, tx))))"

definition staking_vout :: "'m tap_lib_scheme \<Rightarrow> (bytes \<Rightarrow> string) \<Rightarrow> delegation \<Rightarrow> params \<Rightarrow> transaction \<Rightarrow> u32 result" where
  "staking_vout L text del params tx =
     rbind (Delegation_staking_script L del params) (\<lambda>staking_script.
     rbind (ok_or (App (''Staking output not found in checkpoint tx '' @ text (tx_txid L tx)))
       (position (\<lambda>out. out = \<lparr>to_value = dl_stake del div 1000000, to_script_pubkey = staking_script\<rparr>) (tr_output tx))) (\<lambda>vout.
     Ok (vout mod 2 ^ 32)))"

definition maybe_relay_staking_conf ::
  "'m bab_lib_scheme \<Rightarrow> 'h header_lib_scheme \<Rightarrow> 'n full_node_scheme \<Rightarrow> (bytes \<Rightarrow> string) \<Rightarrow> ctx \<Rightarrow> delegation \<Rightarrow> params \<Rightarrow> (bab_world, bool) call" where
  "maybe_relay_staking_conf L H N text C del params =
     (if dl_staking_outpoint del \<noteq> None then lift_result (Ok True)
      else
      cbind (reads (staking_tx_of L del)) (\<lambda>(cp_status, tx).
      if cp_status \<noteq> Complete then lift_result (Ok False)
      else
      cbind (lift_result (scan_best_for_txid L H N (tx_txid L tx) 100)) (\<lambda>maybe_conf.
      case maybe_conf of
        None \<Rightarrow> lift_result (Ok False)
      | Some (height, blk) \<Rightarrow>
          cbind (lift_result (tx_out_proof N (tx_txid L tx) blk)) (\<lambda>btc_proof.
          cbind (lift_result (staking_vout L text del params tx)) (\<lambda>vout.
          cbind (submit_bab (InnerApp_relay_btc_staking_tx L C (dl_owner del) (dl_index del) height btc_proof tx vout)) (\<lambda>_.
          lift_result (Ok False)))))))"

definition maybe_relay_unbonding_conf ::
  "'m bab_lib_scheme \<Rightarrow> 'h header_lib_scheme \<Rightarrow> 'n full_node_scheme \<Rightarrow> ctx \<Rightarrow> delegation \<Rightarrow> params \<Rightarrow> (bab_world, bool) call" where
  "maybe_relay_unbonding_conf L H N C del params =
     (if dl_unbonding_height del \<noteq> None then lift_result (Ok True)
      else
      cbind (lift_result (Delegation_unbonding_tx L del params)) (\<lambda>tx.
      cbind (lift_result (scan_best_for_txid L H N (tx_txid L tx) 100)) (\<lambda>maybe_conf.
      case maybe_conf of
        None \<Rightarrow> lift_result (Ok False)
      | Some (height, blk) \<Rightarrow>
          cbind (lift_result (tx_out_proof N (tx_txid L tx) blk)) (\<lambda>btc_proof.
          cbind (submit_bab (InnerApp_relay_btc_unbonding_tx L C (dl_owner del) (dl_index del) height btc_proof tx)) (\<lambda>_.
          lift_result (Ok False))))))"

fun relay_each :: "('x \<Rightarrow> (bab_world, 'b) call) \<Rightarrow> 'x list \<Rightarrow> (bab_world, unit) call" where
  "relay_each f [] = lift_result (Ok ())"
| "relay_each f (x # xs) = cbind (f x) (\<lambda>_. relay_each f xs)"

definition delegations_of :: "identity \<Rightarrow> bab_world \<Rightarrow> delegation list result" where
  "delegations_of owner w = unwrap (map_of (bn_delegations (bw_babylon w)) owner)"

definition relay_staking_confs ::
  "'m bab_lib_scheme \<Rightarrow> 'h header_lib_scheme \<Rightarrow> 'n full_node_scheme \<Rightarrow> (bytes \<Rightarrow> string) \<Rightarrow> ctx \<Rightarrow> (bab_world, unit) call" where
  "relay_staking_confs L H N text C =
     cbind (reads (\<lambda>w. Ok (map fst (bn_delegations (bw_babylon w)), bn_params (bw_babylon w)))) (\<lambda>(owners, params).
     relay_each (\<lambda>owner.
       cbind (reads (\<lambda>w. rbind (delegations_of owner w) (\<lambda>dels. Ok (filter (\<lambda>del. dl_staking_outpoint del = None) dels)))) (\<lambda>unconf_dels.
       relay_each (\<lambda>del. maybe_relay_staking_conf L H N text C del params) unconf_dels)) owners)"

definition relay_unbonding_confs ::
  "'m bab_lib_scheme \<Rightarrow> 'h header_lib_scheme \<Rightarrow> 'n full_node_scheme \<Rightarrow> ctx \<Rightarrow> (bab_world, unit) call" where
  "relay_unbonding_confs L H N C =
     cbind (reads (\<lambda>w. Ok (map fst (bn_delegations (bw_babylon w)), bn_params (bw_babylon w)))) (\<lambda>(owners, params).
     relay_each (\<lambda>owner.
       cbind (reads (\<lambda>w. rbind (delegations_of owner w) (\<lambda>dels.
         rbind (map_result (\<lambda>del. rbind (Delegation_status del) (\<lambda>status. Ok (if status = SignedUnbond then [del] else []))) dels) (\<lambda>found.
         Ok (concat found))))) (\<lambda>unconf_dels.
       relay_each (\<lambda>del. maybe_relay_unbonding_conf L H N C del params) unconf_dels)) owners)"

section \<open>What is found is accepted\<close>

lemma position_Some: "position P xs = Some i \<Longrightarrow> i < length xs \<and> P (xs ! i)"
  by (induction xs arbitrary: i) (auto split: if_splits)

lemma proven_txid_checks:
  assumes "proven_txid L q (pm_confirmation_depth params) height btc_proof = Ok (tx_txid L tx)"
  shows "check_relayed_tx L q unconfirmed params height btc_proof tx = Ok ()"
proof -
  from assms obtain header root txids where h: "HeaderQueue_get_by_height q height = Ok (Some header)"
    and m: "extract_matches L btc_proof = Some (root, txids)" and deep: "\<not> HeaderQueue_height q - height < pm_confirmation_depth params"
    and rest: "(if root \<noteq> WorkHeader_merkle_root header then Err (App ''Bitcoin merkle proof does not match header'')
      else case txids of [txid] \<Rightarrow> Ok txid | _ \<Rightarrow> Err (App ''Bitcoin merkle proof contains an invalid number of txids'')) = Ok (tx_txid L tx)"
    by (auto simp: proven_txid_def sub_u_def ok_or_def split: if_split_asm option.split_asm)
  from rest have "root = WorkHeader_merkle_root header" "txids = [tx_txid L tx]"
    by (auto split: if_split_asm list.split_asm)
  with h m deep show ?thesis by (simp add: check_relayed_tx_def ok_or_def)
qed

text \<open>
  When the node's best block is the tip of the chain's headers, what the scan finds, in a block the chain still has, is
  proven to the chain once it is deep enough.
\<close>

lemma scanned_tx_checks:
  assumes "hq_inv H q" and "node_agrees N H q" and "proof_law L N" and "best_block_hash N = HeaderQueue_hash H q"
    and "HeaderQueue_height q < 2 ^ 32" and "wr_height (hd (hq_headers q)) \<le> height"
    and "scan_best_for_txid L H N (tx_txid L tx) 100 = Ok (Some (height, blk))"
    and "tx_out_proof N (tx_txid L tx) blk = Ok btc_proof"
    and "height + pm_confirmation_depth params \<le> HeaderQueue_height q"
  shows "check_relayed_tx L q unconfirmed params height btc_proof tx = Ok ()"
proof -
  have scan: "scan_for_txid L H N q (tx_txid L tx) 100 = Ok (Some (height, blk))"
    using assms(4,7) by (simp add: scan_best_for_txid_def scan_for_txid_def)
  obtain tip blocks i tx' where f: "HeaderQueue_hash H q = Ok tip" "last_n_blocks N 100 tip = Ok blocks" "i < length blocks"
    "i < length (hq_deque q)" "height = HeaderQueue_height q - i" "blk = block_hash H (bl_header (blocks ! i))"
    "tx' \<in> set (bl_txdata (blocks ! i))" "tx_txid L tx' = tx_txid L tx"
    by (rule scan_for_txid_Some [OF assms(1,2,5,6) scan])
  have depth: "pm_confirmation_depth params \<le> i" using assms(9) f(5) get_by_height_back(2) [OF assms(1) f(4)] by simp
  have "proven_txid L q (pm_confirmation_depth params) height btc_proof = Ok (tx_txid L tx)"
    using relayed_proof [OF assms(1,2,3) f(1-4,7) _ depth, of btc_proof] assms(8) f(5,6,8) by simp
  then show ?thesis by (rule proven_txid_checks)
qed

lemma staking_vout_Ok:
  assumes "staking_vout L text del params tx = Ok vout" and "length (tr_output tx) \<le> 2 ^ 32"
  shows "vout < length (tr_output tx)" "Delegation_staking_script L del params = Ok (to_script_pubkey (tr_output tx ! vout))"
    "to_value (tr_output tx ! vout) = Delegation_stake_sats del"
proof -
  from assms(1) obtain script i where script: "Delegation_staking_script L del params = Ok script"
    and i: "position (\<lambda>out. out = \<lparr>to_value = dl_stake del div 1000000, to_script_pubkey = script\<rparr>) (tr_output tx) = Some i"
    and vout: "vout = i mod 2 ^ 32"
    by (auto simp: staking_vout_def ok_or_def split: option.split_asm)
  note p = position_Some [OF i]
  then have "vout = i" using vout assms(2) by simp
  with p script show "vout < length (tr_output tx)" "Delegation_staking_script L del params = Ok (to_script_pubkey (tr_output tx ! vout))"
    "to_value (tr_output tx ! vout) = Delegation_stake_sats del"
    by (simp_all add: Delegation_stake_sats_def)
qed

text \<open>
  The stake of a delegation that no unbonding was requested for is confirmed: when the relayer finds its transaction deep
  enough, the chain records the output that the relayer found and the height of its block.
\<close>

theorem staking_conf_is_recorded:
  fixes w :: bab_world
  defines "q \<equiv> bc_headers (bw_bitcoin w)" and "params \<equiv> bn_params (bw_babylon w)"
  assumes "hq_inv H q" and "node_agrees N H q" and "proof_law L N" and "best_block_hash N = HeaderQueue_hash H q"
    and "HeaderQueue_height q < 2 ^ 32" and "wr_height (hd (hq_headers q)) \<le> height"
    and "map_of (bn_delegations (bw_babylon w)) (dl_owner del) = Some dels" and "dl_index del < length dels" and "dels ! dl_index del = del"
    and "Delegation_status del = Ok Created" and "\<not> dl_requested_unbond del" and "exempt_from_fee C = Ok ()"
    and "staking_tx_of L del w = Ok (Complete, tx)" and "length (tr_output tx) \<le> 2 ^ 32"
    and "scan_best_for_txid L H N (tx_txid L tx) 100 = Ok (Some (height, blk))"
    and "tx_out_proof N (tx_txid L tx) blk = Ok btc_proof" and "staking_vout L text del params tx = Ok vout"
    and "height + pm_confirmation_depth params \<le> HeaderQueue_height q"
  shows "\<exists>w'. maybe_relay_staking_conf L H N text C del params w = (Ok False, w')
    \<and> map_of (bn_delegations (bw_babylon w')) (dl_owner del)
        = Some (dels[dl_index del := del\<lparr>dl_staking_outpoint := Some (tx_txid L tx, vout), dl_staking_height := Some height\<rparr>])
    \<and> map_of (bn_staked (bw_babylon w')) (height, dl_owner del, dl_index del) = Some ()"
proof -
  have check: "check_relayed_tx L q s params height btc_proof tx = Ok ()" for s
    by (rule scanned_tx_checks [OF assms(3-8,17,18,20)])
  note out = staking_vout_Ok [OF assms(19,16)]
  have new: "dl_staking_outpoint del = None" using assms(12) by (auto simp: Delegation_status_def split: if_splits)
  show ?thesis
    using assms(9-15,17-19) check out new
    by (simp add: maybe_relay_staking_conf_def submit_bab_def InnerApp_relay_btc_staking_tx_def with_delegation_def
        Delegation_relay_staking_tx_def set_del_def cbind_def reads_def lift_result_def modify_def Let_def q_def params_def)
qed

text \<open>Likewise, the unbonding of a delegation is confirmed, and the delegation moves from the staked queue to the unbonding one.\<close>

theorem unbonding_conf_is_recorded:
  fixes w :: bab_world
  defines "q \<equiv> bc_headers (bw_bitcoin w)" and "params \<equiv> bn_params (bw_babylon w)"
  assumes "hq_inv H q" and "node_agrees N H q" and "proof_law L N" and "best_block_hash N = HeaderQueue_hash H q"
    and "HeaderQueue_height q < 2 ^ 32" and "wr_height (hd (hq_headers q)) \<le> height"
    and "map_of (bn_delegations (bw_babylon w)) (dl_owner del) = Some dels" and "dl_index del < length dels" and "dels ! dl_index del = del"
    and "Delegation_status del = Ok SignedUnbond" and "exempt_from_fee C = Ok ()" and "dl_staking_height del = Some staked"
    and "Delegation_unbonding_tx L del params = Ok tx" and "height + dl_unbonding_period del < 2 ^ 32"
    and "scan_best_for_txid L H N (tx_txid L tx) 100 = Ok (Some (height, blk))"
    and "tx_out_proof N (tx_txid L tx) blk = Ok btc_proof"
    and "height + pm_confirmation_depth params \<le> HeaderQueue_height q"
  shows "\<exists>w'. maybe_relay_unbonding_conf L H N C del params w = (Ok False, w')
    \<and> map_of (bn_delegations (bw_babylon w')) (dl_owner del) = Some (dels[dl_index del := del\<lparr>dl_unbonding_height := Some height\<rparr>])
    \<and> map_of (bn_unbonding (bw_babylon w')) (height + dl_unbonding_period del, dl_owner del, dl_index del) = Some ()
    \<and> bn_staked (bw_babylon w') = omap_remove (staked, dl_owner del, dl_index del) (bn_staked (bw_babylon w))"
proof -
  have check: "check_relayed_tx L q s params height btc_proof tx = Ok ()" for s
    by (rule scanned_tx_checks [OF assms(3-8,17-19)])
  have new: "dl_unbonding_height del = None" using assms(12) by (auto simp: Delegation_status_def split: if_splits)
  show ?thesis
    using assms(9-18) check new
    by (simp add: maybe_relay_unbonding_conf_def submit_bab_def InnerApp_relay_btc_unbonding_tx_def with_delegation_def add_w_def
        Delegation_relay_unbonding_tx_def set_del_def cbind_def reads_def lift_result_def modify_def Let_def q_def params_def unwrap_def)
qed

section \<open>A stake that is not deep enough\<close>

text \<open>
  The relayer submits what it finds without asking how deep it is. The chain refuses a transaction that is not deep
  enough, and the error ends the relay: no other delegation is relayed until then.
\<close>

lemma shallow_stake_fails:
  assumes "map_of (bn_delegations (bw_babylon w)) (dl_owner del) = Some dels" and "dl_index del < length dels" and "dels ! dl_index del = del"
    and "Delegation_status del = Ok Created" and "exempt_from_fee C = Ok ()" and "staking_tx_of L del w = Ok (Complete, tx)"
    and "scan_best_for_txid L H N (tx_txid L tx) 100 = Ok (Some (height, blk))"
    and "tx_out_proof N (tx_txid L tx) blk = Ok btc_proof" and "staking_vout L text del (bn_params (bw_babylon w)) tx = Ok vout"
    and "HeaderQueue_height (bc_headers (bw_bitcoin w)) - height < pm_confirmation_depth (bn_params (bw_babylon w))"
  shows "maybe_relay_staking_conf L H N text C del (bn_params (bw_babylon w)) w = (Err (App ''Staking tx is not confirmed''), w)"
proof -
  have "dl_staking_outpoint del = None" using assms(4) by (auto simp: Delegation_status_def split: if_splits)
  with assms show ?thesis
    by (simp add: maybe_relay_staking_conf_def submit_bab_def InnerApp_relay_btc_staking_tx_def with_delegation_def
        Delegation_relay_staking_tx_def check_relayed_tx_def cbind_def reads_def lift_result_def Let_def)
qed

theorem shallow_stake_ends_relay:
  assumes "bn_delegations (bw_babylon w) = (dl_owner del, del # dels) # others" and "dl_index del = 0"
    and "Delegation_status del = Ok Created" and "exempt_from_fee C = Ok ()" and "staking_tx_of L del w = Ok (Complete, tx)"
    and "scan_best_for_txid L H N (tx_txid L tx) 100 = Ok (Some (height, blk))"
    and "tx_out_proof N (tx_txid L tx) blk = Ok btc_proof" and "staking_vout L text del (bn_params (bw_babylon w)) tx = Ok vout"
    and "HeaderQueue_height (bc_headers (bw_bitcoin w)) - height < pm_confirmation_depth (bn_params (bw_babylon w))"
  shows "relay_staking_confs L H N text C w = (Err (App ''Staking tx is not confirmed''), w)"
proof -
  have "maybe_relay_staking_conf L H N text C del (bn_params (bw_babylon w)) w = (Err (App ''Staking tx is not confirmed''), w)"
    by (rule shallow_stake_fails [of w del "del # dels", OF _ _ _ assms(3-9)]) (simp_all add: assms(1,2))
  moreover have "dl_staking_outpoint del = None" using assms(3) by (auto simp: Delegation_status_def split: if_splits)
  ultimately show ?thesis
    using assms(1) by (simp add: relay_staking_confs_def delegations_of_def unwrap_def cbind_def reads_def lift_result_def)
qed

end
