(* ===== verification/Light_Client.thy ===== *)
theory Light_Client
  imports Prelude
begin

text \<open>
  The light client of Ethereum (src/src/ethereum/consensus/mod.rs) and the choice of the updates to relay to
  it (src/src/ethereum/consensus/relayer.rs). The verification and application of updates is the helios crate, a
  parameter; what is the repository's own is the check before an update is applied and the wire format of
  the client and of updates. The wrapper structs around helios types are those types.
\<close>

section \<open>Data\<close>

record eth_header =
  eh_slot :: u64
  eh_proposer_index :: u64
  eh_parent_root :: bytes
  eh_state_root :: bytes
  eh_body_root :: bytes

record sync_committee =
  sc_pubkeys :: "bytes list"
  sc_aggregate_pubkey :: bytes

record sync_aggregate =
  sa_sync_committee_bits :: bytes
  sa_sync_committee_signature :: bytes

record light_client_store =
  ls_finalized_header :: eth_header
  ls_current_sync_committee :: sync_committee
  ls_next_sync_committee :: "sync_committee option"
  ls_optimistic_header :: eth_header
  ls_previous_max_active_participants :: u64
  ls_current_max_active_participants :: u64

record lc_network =
  nw_genesis_vals_root :: bytes
  nw_deneb_fork_version :: u32
  nw_genesis_time :: u64

record light_client =
  lc_lcs :: light_client_store
  lc_net :: lc_network

record update =
  up_attested_header :: eth_header
  up_next_sync_committee :: "sync_committee option"
  up_next_sync_committee_branch :: "bytes list option"
  up_finalized_header :: eth_header
  up_finality_branch :: "bytes list"
  up_sync_aggregate :: sync_aggregate
  up_signature_slot :: u64

record bootstrap =
  bs_header :: eth_header
  bs_current_sync_committee :: sync_committee
  bs_current_sync_committee_branch :: "bytes list"

section \<open>The crates\<close>

text \<open>
  The integers of the \<open>ed\<close> crate, the SSZ form of keys, signatures and bit fields, and helios. A verification gives
  the text of an error, or nothing.
\<close>

record ed_lib =
  ed_u32 :: "u32 \<Rightarrow> bytes"
  ed_u32_dec :: "bytes \<Rightarrow> (u32 \<times> bytes) result"
  ed_u64 :: "u64 \<Rightarrow> bytes"
  ed_u64_dec :: "bytes \<Rightarrow> (u64 \<times> bytes) result"
  ed_vec_dec :: "bytes \<Rightarrow> (bytes \<times> bytes) result"  \<comment> \<open>\<open>Vec::<u8>::decode\<close>\<close>
  pubkey_from_ssz :: "bytes \<Rightarrow> bytes option"
  sig_from_ssz :: "bytes \<Rightarrow> bytes option"
  bits_from_ssz :: "bytes \<Rightarrow> bytes option"

record helios_update =
  hu_attested_header :: eth_header
  hu_next_sync_committee :: sync_committee
  hu_next_sync_committee_branch :: "bytes list"
  hu_finalized_header :: eth_header
  hu_finality_branch :: "bytes list"
  hu_sync_aggregate :: sync_aggregate
  hu_signature_slot :: u64

record helios_finality_update =
  hf_attested_header :: eth_header
  hf_finalized_header :: eth_header
  hf_finality_branch :: "bytes list"
  hf_sync_aggregate :: sync_aggregate
  hf_signature_slot :: u64

record helios_lib =
  tree_hash_root :: "eth_header \<Rightarrow> bytes"
  default_store :: light_client_store
  verify_bootstrap :: "bootstrap \<Rightarrow> bytes \<Rightarrow> string option"
  apply_bootstrap :: "bootstrap \<Rightarrow> light_client_store \<Rightarrow> light_client_store"
  verify_update :: "helios_update \<Rightarrow> u64 \<Rightarrow> light_client_store \<Rightarrow> bytes \<Rightarrow> bytes \<Rightarrow> string option"
  apply_update :: "helios_update \<Rightarrow> light_client_store \<Rightarrow> light_client_store"
  verify_finality_update :: "helios_finality_update \<Rightarrow> u64 \<Rightarrow> light_client_store \<Rightarrow> bytes \<Rightarrow> bytes \<Rightarrow> string option"
  apply_finality_update :: "helios_finality_update \<Rightarrow> light_client_store \<Rightarrow> light_client_store"

section \<open>Updates\<close>

definition ethereum_mainnet :: lc_network where
  "ethereum_mainnet = \<lparr>nw_genesis_vals_root =
     [0x4b, 0x36, 0x3d, 0xb9, 0x4e, 0x28, 0x61, 0x20, 0xd7, 0x6e, 0xb9, 0x05, 0x34, 0x0f, 0xdd, 0x4e,
      0x54, 0xbf, 0xe9, 0xf0, 0x6b, 0xf3, 0x3f, 0xf6, 0xcf, 0x5a, 0xd2, 0x7f, 0x51, 0x1b, 0xfe, 0x95],
     nw_deneb_fork_version = 4, nw_genesis_time = 1606824023\<rparr>"

definition LightClient_new :: "helios_lib \<Rightarrow> bootstrap \<Rightarrow> lc_network \<Rightarrow> light_client result" where
  "LightClient_new H b network =
     (case verify_bootstrap H b (tree_hash_root H (bs_header b)) of
        Some e \<Rightarrow> Err (App (''Invalid bootstrap: '' @ e))
      | None \<Rightarrow> Ok \<lparr>lc_lcs = apply_bootstrap H b (default_store H), lc_net = network\<rparr>)"

definition Update_try_into :: "update \<Rightarrow> helios_update result" where
  "Update_try_into u =
     rbind (ok_or (App ''next_sync_committee is required'') (up_next_sync_committee u)) (\<lambda>committee.
     rbind (ok_or (App ''next_sync_committee_branch is required'') (up_next_sync_committee_branch u)) (\<lambda>branch.
     Ok \<lparr>hu_attested_header = up_attested_header u, hu_next_sync_committee = committee, hu_next_sync_committee_branch = branch,
         hu_finalized_header = up_finalized_header u, hu_finality_branch = up_finality_branch u,
         hu_sync_aggregate = up_sync_aggregate u, hu_signature_slot = up_signature_slot u\<rparr>))"

definition Update_into_finality :: "update \<Rightarrow> helios_finality_update" where
  "Update_into_finality u =
     \<lparr>hf_attested_header = up_attested_header u, hf_finalized_header = up_finalized_header u, hf_finality_branch = up_finality_branch u,
      hf_sync_aggregate = up_sync_aggregate u, hf_signature_slot = up_signature_slot u\<rparr>"

definition le_bytes4 :: "u32 \<Rightarrow> bytes" where
  "le_bytes4 n = map (\<lambda>i. of_nat (n div 256 ^ i)) [0..<4]"

definition LightClient_update :: "helios_lib \<Rightarrow> update \<Rightarrow> u64 \<Rightarrow> (light_client, unit) call" where
  "LightClient_update H u now_seconds lc =
     (let network = lc_net lc; lcs = lc_lcs lc in
      cbind (lift_result (sub_u now_seconds (nw_genesis_time network))) (\<lambda>age.
      let expected_slot = age div 12; fork_version = le_bytes4 (nw_deneb_fork_version network);
          genesis_root = nw_genesis_vals_root network in
      if up_next_sync_committee u \<noteq> None then
        cbind (lift_result (map_err (\<lambda>_. Panic) (Update_try_into u))) (\<lambda>u.
        case verify_update H u expected_slot lcs genesis_root fork_version of
          Some e \<Rightarrow> lift_result (Err (App (''Invalid update: '' @ e)))
        | None \<Rightarrow> modify (lc_lcs_update (apply_update H u)))
      else
        let u = Update_into_finality u in
        case verify_finality_update H u expected_slot lcs genesis_root fork_version of
          Some e \<Rightarrow> lift_result (Err (App (''Invalid update: '' @ e)))
        | None \<Rightarrow> modify (lc_lcs_update (apply_finality_update H u))) lc)"

definition LightClient_slot :: "light_client \<Rightarrow> u64" where
  "LightClient_slot lc = eh_slot (ls_finalized_header (lc_lcs lc))"

definition LightClient_state_root :: "light_client \<Rightarrow> bytes" where
  "LightClient_state_root lc = eh_state_root (ls_finalized_header (lc_lcs lc))"

text \<open>The updates to relay: \<open>get_updates start n\<close> asks a beacon node for those of \<open>n\<close> periods.\<close>

definition get_updates :: "(u64 \<Rightarrow> u64 \<Rightarrow> update list result) \<Rightarrow> update result \<Rightarrow> light_client \<Rightarrow> update list result" where
  "get_updates eth_updates finality_update lc =
     rbind finality_update (\<lambda>finality_update.
     let app_epoch = LightClient_slot lc div 32; eth_epoch = eh_slot (up_finalized_header finality_update) div 32;
         app_period = app_epoch div 256; eth_period = eth_epoch div 256 in
     rbind (sub_u eth_period app_period) (\<lambda>updates_needed.
     rbind (if updates_needed > 0 then eth_updates app_period updates_needed else Ok []) (\<lambda>updates.
     Ok (if eth_epoch > app_epoch then updates @ [finality_update] else updates))))"

section \<open>The wire format\<close>

definition read_exact :: "nat \<Rightarrow> bytes \<Rightarrow> (bytes \<times> bytes) result" where
  "read_exact n bs = (if n \<le> length bs then Ok (take n bs, drop n bs) else Err Encoding)"

definition encode_header :: "ed_lib \<Rightarrow> eth_header \<Rightarrow> bytes" where
  "encode_header L h = ed_u64 L (eh_slot h) @ ed_u64 L (eh_proposer_index h) @ eh_parent_root h @ eh_state_root h @ eh_body_root h"

definition Header_decode :: "ed_lib \<Rightarrow> bytes \<Rightarrow> (eth_header \<times> bytes) result" where
  "Header_decode L bs =
     rbind (ed_u64_dec L bs) (\<lambda>(slot, bs).
     rbind (ed_u64_dec L bs) (\<lambda>(proposer_index, bs).
     rbind (read_exact 32 bs) (\<lambda>(parent_root, bs).
     rbind (read_exact 32 bs) (\<lambda>(state_root, bs).
     rbind (read_exact 32 bs) (\<lambda>(body_root, bs).
     Ok (\<lparr>eh_slot = slot, eh_proposer_index = proposer_index, eh_parent_root = parent_root, eh_state_root = state_root,
          eh_body_root = body_root\<rparr>, bs))))))"

definition PublicKey_decode :: "ed_lib \<Rightarrow> bytes \<Rightarrow> (bytes \<times> bytes) result" where
  "PublicKey_decode L bs =
     rbind (read_exact 48 bs) (\<lambda>(key, bs). rbind (ok_or Encoding (pubkey_from_ssz L key)) (\<lambda>pk. Ok (pk, bs)))"

definition Signature_decode :: "ed_lib \<Rightarrow> bytes \<Rightarrow> (bytes \<times> bytes) result" where
  "Signature_decode L bs =
     rbind (read_exact 96 bs) (\<lambda>(sg, bs). rbind (ok_or Encoding (sig_from_ssz L sg)) (\<lambda>sg. Ok (sg, bs)))"

text \<open>Keys, signatures and bit fields are written as their SSZ bytes, which the model takes for the value.\<close>

definition encode_sync_committee :: "sync_committee \<Rightarrow> bytes result" where
  "encode_sync_committee sc =
     rbind (map_result (\<lambda>i. if i < length (sc_pubkeys sc) then Ok (sc_pubkeys sc ! i) else Err Panic) [0..<512]) (\<lambda>keys.
     Ok (concat keys @ sc_aggregate_pubkey sc))"

fun decode_keys :: "ed_lib \<Rightarrow> nat \<Rightarrow> bytes \<Rightarrow> (bytes list \<times> bytes) result" where
  "decode_keys L 0 bs = Ok ([], bs)"
| "decode_keys L (Suc n) bs =
     rbind (PublicKey_decode L bs) (\<lambda>(pk, bs).
     rbind (decode_keys L n bs) (\<lambda>(pks, bs). Ok (pk # pks, bs)))"

definition SyncCommittee_decode :: "ed_lib \<Rightarrow> bytes \<Rightarrow> (sync_committee \<times> bytes) result" where
  "SyncCommittee_decode L bs =
     rbind (decode_keys L 512 bs) (\<lambda>(pubkeys, bs).
     rbind (PublicKey_decode L bs) (\<lambda>(aggregate_pubkey, bs).
     if length pubkeys = 512 then Ok (\<lparr>sc_pubkeys = pubkeys, sc_aggregate_pubkey = aggregate_pubkey\<rparr>, bs) else Err Panic))"

definition encode_sync_aggregate :: "sync_aggregate \<Rightarrow> bytes" where
  "encode_sync_aggregate sa = sa_sync_committee_bits sa @ sa_sync_committee_signature sa"

definition SyncAggregate_decode :: "ed_lib \<Rightarrow> bytes \<Rightarrow> (sync_aggregate \<times> bytes) result" where
  "SyncAggregate_decode L bs =
     rbind (ed_vec_dec L bs) (\<lambda>(bits, bs).
     rbind (Signature_decode L bs) (\<lambda>(sg, bs).
     rbind (ok_or Encoding (bits_from_ssz L bits)) (\<lambda>bits.
     Ok (\<lparr>sa_sync_committee_bits = bits, sa_sync_committee_signature = sg\<rparr>, bs))))"

text \<open>\<open>Option\<close> in the \<open>ed\<close> crate: a byte 0 or 1, then the value.\<close>

definition encode_option :: "('a \<Rightarrow> bytes result) \<Rightarrow> 'a option \<Rightarrow> bytes result" where
  "encode_option enc x = (case x of None \<Rightarrow> Ok [0] | Some a \<Rightarrow> rbind (enc a) (\<lambda>bs. Ok (1 # bs)))"

definition decode_option :: "(bytes \<Rightarrow> ('a \<times> bytes) result) \<Rightarrow> bytes \<Rightarrow> ('a option \<times> bytes) result" where
  "decode_option dec bs =
     (case bs of
        [] \<Rightarrow> Err Encoding
      | b # bs \<Rightarrow>
          if b = 0 then Ok (None, bs)
          else if b = 1 then rbind (dec bs) (\<lambda>(a, bs). Ok (Some a, bs))
          else Err Encoding)"

text \<open>The network's derived format.\<close>

definition encode_network :: "ed_lib \<Rightarrow> lc_network \<Rightarrow> bytes" where
  "encode_network L n = nw_genesis_vals_root n @ ed_u32 L (nw_deneb_fork_version n) @ ed_u64 L (nw_genesis_time n)"

definition decode_network :: "ed_lib \<Rightarrow> bytes \<Rightarrow> (lc_network \<times> bytes) result" where
  "decode_network L bs =
     rbind (read_exact 32 bs) (\<lambda>(root, bs).
     rbind (ed_u32_dec L bs) (\<lambda>(version, bs).
     rbind (ed_u64_dec L bs) (\<lambda>(time, bs).
     Ok (\<lparr>nw_genesis_vals_root = root, nw_deneb_fork_version = version, nw_genesis_time = time\<rparr>, bs))))"

text \<open>The client writes \<open>Some(())\<close> and then the committee, which is the form of an option.\<close>

definition LightClient_encode :: "ed_lib \<Rightarrow> light_client \<Rightarrow> bytes result" where
  "LightClient_encode L lc =
     (let lcs = lc_lcs lc in
      rbind (encode_sync_committee (ls_current_sync_committee lcs)) (\<lambda>current.
      rbind (case ls_next_sync_committee lcs of
               None \<Rightarrow> Ok [0]
             | Some sc \<Rightarrow> rbind (encode_sync_committee sc) (\<lambda>bs. Ok (1 # bs))) (\<lambda>next_committee.
      Ok (encode_header L (ls_finalized_header lcs) @ current @ next_committee @ encode_header L (ls_optimistic_header lcs)
          @ ed_u64 L (ls_previous_max_active_participants lcs) @ ed_u64 L (ls_current_max_active_participants lcs)
          @ encode_network L (lc_net lc)))))"

definition LightClient_decode :: "ed_lib \<Rightarrow> bytes \<Rightarrow> (light_client \<times> bytes) result" where
  "LightClient_decode L bs =
     rbind (Header_decode L bs) (\<lambda>(finalized_header, bs).
     rbind (SyncCommittee_decode L bs) (\<lambda>(current_sync_committee, bs).
     rbind (decode_option (SyncCommittee_decode L) bs) (\<lambda>(next_sync_committee, bs).
     rbind (Header_decode L bs) (\<lambda>(optimistic_header, bs).
     rbind (ed_u64_dec L bs) (\<lambda>(previous_max, bs).
     rbind (ed_u64_dec L bs) (\<lambda>(current_max, bs).
     rbind (decode_network L bs) (\<lambda>(network, bs).
     Ok (\<lparr>lc_lcs = \<lparr>ls_finalized_header = finalized_header, ls_current_sync_committee = current_sync_committee,
                   ls_next_sync_committee = next_sync_committee, ls_optimistic_header = optimistic_header,
                   ls_previous_max_active_participants = previous_max, ls_current_max_active_participants = current_max\<rparr>,
          lc_net = network\<rparr>, bs))))))))"

definition header_length :: nat where "header_length = 8 + 8 + 32 + 32 + 32"

definition committee_length :: nat where "committee_length = 512 * 48 + 48"

definition LightClient_encoding_length :: "light_client \<Rightarrow> nat" where
  "LightClient_encoding_length lc =
     header_length + committee_length
     + (case ls_next_sync_committee (lc_lcs lc) of None \<Rightarrow> 1 | Some _ \<Rightarrow> 1 + committee_length)
     + header_length + 8 + 8 + (32 + 4 + 8)"

section \<open>Codecs\<close>

text \<open>
  The contract of a wire format: on good values it writes a known number of bytes, from which the value is read back and
  nothing beyond them is consumed.
\<close>

locale codec =
  fixes enc :: "'a \<Rightarrow> bytes result" and dec :: "bytes \<Rightarrow> ('a \<times> bytes) result" and good :: "'a \<Rightarrow> bool" and len :: "'a \<Rightarrow> nat"
  assumes writes: "good x \<Longrightarrow> \<exists>bs. enc x = Ok bs \<and> length bs = len x"
    and reads_back: "good x \<Longrightarrow> enc x = Ok bs \<Longrightarrow> dec (bs @ rest) = Ok (x, rest)"
begin

lemma obtain_bytes:
  assumes "good x"
  obtains bs where "enc x = Ok bs" "length bs = len x" "\<And>rest. dec (bs @ rest) = Ok (x, rest)"
  using writes [OF assms] reads_back [OF assms] by blast

lemma prefix_free:
  assumes "good x" and "good y" and "enc x = Ok bs" and "enc y = Ok cs" and "bs @ rest = cs @ rest'"
  shows "x = y \<and> rest = rest'"
  using reads_back [OF assms(1,3), of rest] reads_back [OF assms(2,4), of rest'] assms(5) by simp

lemma option_codec:
  "codec (encode_option enc) (decode_option dec) (pred_option good) (\<lambda>x. case x of None \<Rightarrow> 1 | Some a \<Rightarrow> 1 + len a)"
proof
  fix x assume "pred_option good x"
  then show "\<exists>bs. encode_option enc x = Ok bs \<and> length bs = (case x of None \<Rightarrow> 1 | Some a \<Rightarrow> 1 + len a)"
    by (cases x) (auto simp: encode_option_def dest!: writes)
next
  fix x bs rest assume "pred_option good x" "encode_option enc x = Ok bs"
  then show "decode_option dec (bs @ rest) = Ok (x, rest)"
    using reads_back by (cases x) (auto simp: encode_option_def decode_option_def)
qed

end

text \<open>The documented behaviour of the crates: integers of fixed size, and SSZ bytes that are read back.\<close>

definition ed_law :: "ed_lib \<Rightarrow> bool" where
  "ed_law L \<longleftrightarrow> (\<forall>n rest. n < 2 ^ 64 \<longrightarrow> length (ed_u64 L n) = 8 \<and> ed_u64_dec L (ed_u64 L n @ rest) = Ok (n, rest))
     \<and> (\<forall>n rest. n < 2 ^ 32 \<longrightarrow> length (ed_u32 L n) = 4 \<and> ed_u32_dec L (ed_u32 L n @ rest) = Ok (n, rest))"

definition is_key :: "ed_lib \<Rightarrow> bytes \<Rightarrow> bool" where
  "is_key L pk \<longleftrightarrow> length pk = 48 \<and> pubkey_from_ssz L pk = Some pk"

definition good_header :: "ed_lib \<Rightarrow> eth_header \<Rightarrow> bool" where
  "good_header L h \<longleftrightarrow> ed_law L \<and> eh_slot h < 2 ^ 64 \<and> eh_proposer_index h < 2 ^ 64
     \<and> length (eh_parent_root h) = 32 \<and> length (eh_state_root h) = 32 \<and> length (eh_body_root h) = 32"

definition good_committee :: "ed_lib \<Rightarrow> sync_committee \<Rightarrow> bool" where
  "good_committee L sc \<longleftrightarrow> length (sc_pubkeys sc) = 512 \<and> list_all (is_key L) (sc_pubkeys sc) \<and> is_key L (sc_aggregate_pubkey sc)"

definition good_network :: "ed_lib \<Rightarrow> lc_network \<Rightarrow> bool" where
  "good_network L n \<longleftrightarrow> ed_law L \<and> length (nw_genesis_vals_root n) = 32 \<and> nw_deneb_fork_version n < 2 ^ 32 \<and> nw_genesis_time n < 2 ^ 64"

definition good_client :: "ed_lib \<Rightarrow> light_client \<Rightarrow> bool" where
  "good_client L lc \<longleftrightarrow> (let lcs = lc_lcs lc in
     good_header L (ls_finalized_header lcs) \<and> good_header L (ls_optimistic_header lcs)
     \<and> good_committee L (ls_current_sync_committee lcs) \<and> pred_option (good_committee L) (ls_next_sync_committee lcs)
     \<and> ls_previous_max_active_participants lcs < 2 ^ 64 \<and> ls_current_max_active_participants lcs < 2 ^ 64
     \<and> good_network L (lc_net lc))"

lemma read_exact_append [simp]: "length bs = n \<Longrightarrow> read_exact n (bs @ rest) = Ok (bs, rest)"
  by (simp add: read_exact_def)

lemma read_key: "is_key L pk \<Longrightarrow> PublicKey_decode L (pk @ rest) = Ok (pk, rest)"
  by (simp add: PublicKey_decode_def is_key_def)

lemma read_keys: "list_all (is_key L) pks \<Longrightarrow> decode_keys L (length pks) (concat pks @ rest) = Ok (pks, rest)"
  by (induction pks) (simp_all add: read_key)

lemma write_keys: "length pks = n \<Longrightarrow> map_result (\<lambda>i. if i < length pks then Ok (pks ! i) else Err Panic) [0..<n] = Ok pks"
  using map_result_total [of "[0..<n]" "\<lambda>i. if i < length pks then Ok (pks ! i) else Err Panic" "(!) pks"] by (auto simp: map_nth)

lemma encode_committee_eq:
  "length (sc_pubkeys sc) = 512 \<Longrightarrow> encode_sync_committee sc = Ok (concat (sc_pubkeys sc) @ sc_aggregate_pubkey sc)"
  using write_keys [of "sc_pubkeys sc" 512] by (simp add: encode_sync_committee_def)

interpretation header_codec: codec "\<lambda>h. Ok (encode_header L h)" "Header_decode L" "good_header L" "\<lambda>_. header_length" for L
  by unfold_locales (auto simp: good_header_def ed_law_def encode_header_def header_length_def Header_decode_def)

interpretation network_codec: codec "\<lambda>n. Ok (encode_network L n)" "decode_network L" "good_network L" "\<lambda>_. 32 + 4 + 8" for L
  by unfold_locales (auto simp: good_network_def ed_law_def encode_network_def decode_network_def)

interpretation committee_codec: codec encode_sync_committee "SyncCommittee_decode L" "good_committee L" "\<lambda>_. committee_length" for L
proof
  fix sc assume sc: "good_committee L sc"
  then have "length (concat (sc_pubkeys sc)) = 512 * 48"
    by (simp add: good_committee_def length_concat list_all_iff is_key_def sum_list_triv cong: map_cong)
  with sc show "\<exists>bs. encode_sync_committee sc = Ok bs \<and> length bs = committee_length"
    by (auto simp: good_committee_def encode_committee_eq committee_length_def is_key_def)
next
  fix sc bs rest assume "good_committee L sc" "encode_sync_committee sc = Ok bs"
  then show "SyncCommittee_decode L (bs @ rest) = Ok (sc, rest)"
    using read_keys [of L "sc_pubkeys sc" "sc_aggregate_pubkey sc @ rest"]
    by (auto simp: good_committee_def encode_committee_eq SyncCommittee_decode_def read_key)
qed

interpretation next_codec: codec "encode_option encode_sync_committee" "decode_option (SyncCommittee_decode L)"
  "pred_option (good_committee L)" "\<lambda>x. case x of None \<Rightarrow> 1 | Some a \<Rightarrow> 1 + committee_length" for L
  by (rule committee_codec.option_codec)

text \<open>The bytes of a client, part by part.\<close>

lemma client_parts:
  assumes "good_client L lc"
  shows "\<exists>current nxt. LightClient_encode L lc = Ok (encode_header L (ls_finalized_header (lc_lcs lc)) @ current @ nxt
      @ encode_header L (ls_optimistic_header (lc_lcs lc)) @ ed_u64 L (ls_previous_max_active_participants (lc_lcs lc))
      @ ed_u64 L (ls_current_max_active_participants (lc_lcs lc)) @ encode_network L (lc_net lc))
    \<and> length current = committee_length
    \<and> length nxt = (case ls_next_sync_committee (lc_lcs lc) of None \<Rightarrow> 1 | Some _ \<Rightarrow> 1 + committee_length)
    \<and> (\<forall>rest. SyncCommittee_decode L (current @ rest) = Ok (ls_current_sync_committee (lc_lcs lc), rest))
    \<and> (\<forall>rest. decode_option (SyncCommittee_decode L) (nxt @ rest) = Ok (ls_next_sync_committee (lc_lcs lc), rest))"
proof -
  from assms have g: "good_committee L (ls_current_sync_committee (lc_lcs lc))" "pred_option (good_committee L) (ls_next_sync_committee (lc_lcs lc))"
    by (simp_all add: good_client_def Let_def)
  from committee_codec.obtain_bytes [OF g(1)] obtain current where c: "encode_sync_committee (ls_current_sync_committee (lc_lcs lc)) = Ok current"
    "length current = committee_length" "\<And>rest. SyncCommittee_decode L (current @ rest) = Ok (ls_current_sync_committee (lc_lcs lc), rest)" by metis
  from next_codec.obtain_bytes [OF g(2)] obtain nxt where n: "encode_option encode_sync_committee (ls_next_sync_committee (lc_lcs lc)) = Ok nxt"
    "length nxt = (case ls_next_sync_committee (lc_lcs lc) of None \<Rightarrow> 1 | Some _ \<Rightarrow> 1 + committee_length)"
    "\<And>rest. decode_option (SyncCommittee_decode L) (nxt @ rest) = Ok (ls_next_sync_committee (lc_lcs lc), rest)" by metis
  show ?thesis
    using c n [unfolded encode_option_def] by (intro exI [of _ current] exI [of _ nxt]) (simp add: LightClient_encode_def Let_def)
qed

interpretation client_codec: codec "LightClient_encode L" "LightClient_decode L" "good_client L" LightClient_encoding_length for L
proof
  fix lc assume lc: "good_client L lc"
  then have "length (encode_header L (ls_finalized_header (lc_lcs lc))) = header_length" "length (encode_header L (ls_optimistic_header (lc_lcs lc))) = header_length"
    "length (encode_network L (lc_net lc)) = 32 + 4 + 8"
    "length (ed_u64 L (ls_previous_max_active_participants (lc_lcs lc))) = 8" "length (ed_u64 L (ls_current_max_active_participants (lc_lcs lc))) = 8"
    using header_codec.writes network_codec.writes by (auto simp: good_client_def Let_def good_network_def ed_law_def)
  with client_parts [OF lc] show "\<exists>bs. LightClient_encode L lc = Ok bs \<and> length bs = LightClient_encoding_length lc"
    by (auto simp: LightClient_encoding_length_def split: option.splits)
next
  fix lc bs rest assume lc: "good_client L lc" and bs: "LightClient_encode L lc = Ok bs"
  have h: "Header_decode L (encode_header L h @ r) = Ok (h, r)" if "good_header L h" for h r using header_codec.reads_back [OF that] by blast
  have n: "decode_network L (encode_network L (lc_net lc) @ r) = Ok (lc_net lc, r)" for r
    using lc network_codec.reads_back [of L "lc_net lc"] by (auto simp: good_client_def Let_def)
  have u: "ed_u64_dec L (ed_u64 L m @ r) = Ok (m, r)" if "m < 2 ^ 64" for m r
    using lc that by (auto simp: good_client_def Let_def good_network_def ed_law_def)
  from client_parts [OF lc] bs h n u lc show "LightClient_decode L (bs @ rest) = Ok (lc, rest)"
    by (auto simp: LightClient_decode_def good_client_def Let_def)
qed

section \<open>Properties\<close>

text \<open>
  C39: the stored form of the light client is exact: it has the announced length, the client is read back from it
  whatever follows, and no two clients share one.
\<close>

theorem light_client_roundtrip:
  assumes "good_client L lc"
  shows "\<exists>bs. LightClient_encode L lc = Ok bs \<and> length bs = LightClient_encoding_length lc
    \<and> (\<forall>rest. LightClient_decode L (bs @ rest) = Ok (lc, rest))
    \<and> (\<forall>lc'. good_client L lc' \<longrightarrow> LightClient_encode L lc' = Ok bs \<longrightarrow> lc' = lc)"
  using client_codec.obtain_bytes [OF assms] client_codec.prefix_free [OF _ assms] by metis

text \<open>An update moves the client only when helios has verified it for the time and the network given, and never the network.\<close>

theorem light_client_needs_verification:
  assumes "LightClient_update H u now lc = (r, lc')"
  shows "lc_net lc' = lc_net lc \<and> (lc' \<noteq> lc \<longrightarrow>
    (let slot = (now - nw_genesis_time (lc_net lc)) div 12; root = nw_genesis_vals_root (lc_net lc);
         version = le_bytes4 (nw_deneb_fork_version (lc_net lc)) in
     nw_genesis_time (lc_net lc) \<le> now \<and> r = Ok ()
     \<and> (case up_next_sync_committee u of
          Some _ \<Rightarrow> \<exists>hu. Update_try_into u = Ok hu \<and> verify_update H hu slot (lc_lcs lc) root version = None
                    \<and> lc_lcs lc' = apply_update H hu (lc_lcs lc)
        | None \<Rightarrow> verify_finality_update H (Update_into_finality u) slot (lc_lcs lc) root version = None
                    \<and> lc_lcs lc' = apply_finality_update H (Update_into_finality u) (lc_lcs lc))))"
  using assms
  by (cases "Update_try_into u"; cases "up_next_sync_committee u")
    (auto simp: LightClient_update_def Let_def cbind_def lift_result_def modify_def sub_u_def split: option.splits if_splits)

text \<open>A committee without its branch makes the conversion of an update fail, and the call panics instead of returning an error.\<close>

theorem update_without_branch_panics:
  assumes "up_next_sync_committee u = Some sc" and "up_next_sync_committee_branch u = None"
  shows "LightClient_update H u now lc = (Err Panic, lc)"
  using assms by (auto simp: LightClient_update_def Update_try_into_def Let_def cbind_def lift_result_def sub_u_def)

text \<open>
  \<open>Vec::<u8>::decode\<close> of the \<open>ed\<close> crate reads to the end of the input. The bit field of a sync aggregate is read with it,
  which leaves nothing for the signature: no bytes at all decode to a sync aggregate, and so none decode to an update.
\<close>

theorem sync_aggregate_is_unreadable:
  assumes "\<And>bs. ed_vec_dec L bs = Ok (bs, [])"
  shows "\<exists>e. SyncAggregate_decode L bs = Err e"
  using assms by (simp add: SyncAggregate_decode_def Signature_decode_def read_exact_def)

text \<open>
  The updates relayed are those that the node gives for the periods from the client's to its own, followed by the newest
  finality update exactly when the node has finalised a later epoch.
\<close>

theorem relayed_updates:
  assumes "get_updates eth_updates (Ok fin) lc = Ok us"
  shows "\<exists>more. us = more @ (if LightClient_slot lc div 32 < eh_slot (up_finalized_header fin) div 32 then [fin] else [])
    \<and> (let first = LightClient_slot lc div (32 * 256); last_period = eh_slot (up_finalized_header fin) div (32 * 256) in
       first \<le> last_period \<and> (if first = last_period then more = [] else eth_updates first (last_period - first) = Ok more))"
proof -
  let ?first = "LightClient_slot lc div 32 div 256" and ?last = "eh_slot (up_finalized_header fin) div 32 div 256"
  from assms obtain more where m: "?first \<le> ?last" "(if ?last - ?first > 0 then eth_updates ?first (?last - ?first) else Ok []) = Ok more"
    and us: "us = (if LightClient_slot lc div 32 < eh_slot (up_finalized_header fin) div 32 then more @ [fin] else more)"
    unfolding get_updates_def Let_def rbind.simps rbind_eq_Ok sub_u_Ok by auto
  have "eth_updates ?first (?last - ?first) = Ok more" if "?first \<noteq> ?last" using m that by (simp split: if_splits)
  moreover have "more = []" if "?first = ?last" using m(2) that by simp
  ultimately show ?thesis unfolding Let_def div_mult2_eq using m(1) us by (intro exI [of _ more]) simp
qed

section \<open>A concrete client\<close>

fun be_bytes :: "nat \<Rightarrow> nat \<Rightarrow> bytes" where
  "be_bytes 0 n = []"
| "be_bytes (Suc k) n = be_bytes k (n div 256) @ [of_nat (n mod 256)]"

definition from_be :: "bytes \<Rightarrow> nat" where
  "from_be bs = foldl (\<lambda>n b. n * 256 + unat b) 0 bs"

definition demo_ed :: ed_lib where
  "demo_ed = \<lparr>ed_u32 = be_bytes 4, ed_u32_dec = (\<lambda>bs. rbind (read_exact 4 bs) (\<lambda>(b, r). Ok (from_be b, r))),
     ed_u64 = be_bytes 8, ed_u64_dec = (\<lambda>bs. rbind (read_exact 8 bs) (\<lambda>(b, r). Ok (from_be b, r))),
     ed_vec_dec = (\<lambda>bs. Ok (bs, [])), pubkey_from_ssz = Some, sig_from_ssz = Some, bits_from_ssz = Some\<rparr>"

definition demo_eth_header :: "u64 \<Rightarrow> eth_header" where
  "demo_eth_header slot = \<lparr>eh_slot = slot, eh_proposer_index = 7, eh_parent_root = replicate 32 1, eh_state_root = replicate 32 2,
     eh_body_root = replicate 32 3\<rparr>"

definition demo_committee :: sync_committee where
  "demo_committee = \<lparr>sc_pubkeys = replicate 512 (replicate 48 4), sc_aggregate_pubkey = replicate 48 5\<rparr>"

definition demo_client :: light_client where
  "demo_client = \<lparr>lc_lcs = \<lparr>ls_finalized_header = demo_eth_header 100, ls_current_sync_committee = demo_committee,
       ls_next_sync_committee = Some demo_committee, ls_optimistic_header = demo_eth_header 101,
       ls_previous_max_active_participants = 512, ls_current_max_active_participants = 500\<rparr>,
     lc_net = ethereum_mainnet\<rparr>"

lemma length_be_bytes [simp]: "length (be_bytes k n) = k"
  by (induction k arbitrary: n) auto

lemma from_be_bytes: "n < 256 ^ k \<Longrightarrow> from_be (be_bytes k n) = n"
proof (induction k arbitrary: n)
  case (Suc k)
  have "n div 256 < 256 ^ k" using Suc.prems by (simp add: div_less_iff_less_mult mult.commute)
  then show ?case using Suc.IH [of "n div 256"] by (simp add: from_be_def unat_of_nat)
qed (simp add: from_be_def)

lemma demo_ed_law: "ed_law demo_ed"
  using from_be_bytes [of _ 8] from_be_bytes [of _ 4] by (simp add: ed_law_def demo_ed_def)

lemma demo_client_good: "good_client demo_ed demo_client"
  using demo_ed_law
  by (simp add: good_client_def demo_client_def good_header_def demo_eth_header_def good_committee_def demo_committee_def list_all_iff
      is_key_def good_network_def ethereum_mainnet_def) (simp add: demo_ed_def)

theorem light_client_roundtrip_witness:
  "\<exists>bs. LightClient_encode demo_ed demo_client = Ok bs \<and> length bs = 49533 \<and> LightClient_decode demo_ed (bs @ [9]) = Ok (demo_client, [9])"
  using light_client_roundtrip [OF demo_client_good]
  by (auto simp: LightClient_encoding_length_def demo_client_def header_length_def committee_length_def)

end
