(* ===== verification/Spec2Isabelle.thy ===== *)
theory Spec2Isabelle
  imports Checkpoint_Chain Bridge_Properties Incentives Deposit_Index Ethereum_Clients Frost_Signer Cosmos Babylon_Properties
    Wallet_Tx Babylon_Relayer Light_Client
begin

text \<open>
  Verification of nomic, a Tendermint chain that bridges Bitcoin: validators hold a reserve of
  Bitcoin under a threshold signature, deposits to it are minted as nBTC, and withdrawals are paid
  from it in periodic checkpoint transactions.

  \<^bold>\<open>The program and its theories.\<close> Each theory models one file or one part of a file under
  src/src, keeps the names of the source (\<open>Type_method\<close>), and holds the definitions first, then an
  invariant, lemmas and properties.

  \<^item> Prelude: errors and results, checked integer arithmetic, ordered maps, the context a call runs
    in (time, signer, validators, paid), and state-passing calls with the \<open>keeps\<close> framework.
  \<^item> Threshold_Sig (bitcoin/threshold_sig.rs): shares, signing and witnesses.
  \<^item> Signatory (bitcoin/signatory.rs): the choice of the signatory set, its redeem script and the
    parser of that script. Script_Semantics gives the opcodes used by the script a meaning and
    proves what the script accepts.
  \<^item> Outpoint_Set (bitcoin/outpoint_set.rs): the set of relayed deposits, a locale \<open>replay_guard\<close>.
  \<^item> Header_Queue (bitcoin/header_queue.rs): the Bitcoin light client.
  \<^item> Bitcoin_Tx, Checkpoint, Checkpoint_Advance, Checkpoint_Queue, Checkpoint_Chain
    (bitcoin/checkpoint.rs): inputs and transactions with fee deduction; batches and their serial
    signing; the freezing of a checkpoint with its emergency disbursal; the queue of checkpoints;
    the properties of the queue over its reachable states.
  \<^item> Dest (app.rs): destinations, their commitments and identities.
  \<^item> Recovery (bitcoin/recovery.rs): transactions that recover deposits to expired addresses.
  \<^item> Signatory_Keys and Bitcoin_Module (bitcoin/mod.rs): the registry of signatory keys and the
    bridge itself, every call of it that changes state.
  \<^item> App_Bridge (app.rs): the calls of the application that move nBTC, IBC transfers, and the
    bridge's part of a block.
  \<^item> Wallet_Tx (app.rs): the conversion of wallet transactions to calls.
  \<^item> Bridge_Ledger and App_Ledger: the books, what every operation does to the difference between
    the Bitcoin controlled and the nBTC owed. App_Ledger collects the calls (\<open>bridge_call\<close>), the coins that
    enter from funds paid with a call, and the blocks into the step relation \<open>nbtc_step\<close> on the application
    together with the coins held elsewhere and the fees left over by refused transfers (\<open>ledger\<close>), and
    interprets the locale \<open>accounting\<close> on it. Bridge_Examples is a concrete bridge.
  \<^item> Bridge_Properties: the properties of the bridge as a whole.
  \<^item> Airdrop (airdrop.rs) and Incentives (incentives.rs): accounts whose parts are unlocked, claimed and
    joined, and the allocation from snapshots. The books of both say that a claim is paid once and
    never beyond what was allocated.
  \<^item> Deposit_Index (bitcoin/deposit_index.rs): the relayer's index of deposits, shown to implement one
    flat map.
  \<^item> Watched_Scripts, Relayer_Headers and Relayer (bitcoin/relayer.rs): the addresses whose deposits
    are looked for, with the file they are kept in; the search for the fork of two header chains and
    the batches of headers relayed; a turn of each of the other relays. They show that a scan submits every
    watched deposit with a proof, a script and a checkpoint that stand the chain's checks, and that the
    confirmation of a checkpoint is recorded.
  \<^item> Float64 and Signer (bitcoin/signer.rs, \<open>change_rates\<close> in bitcoin/mod.rs): rounding to 64 bit
    floating point, the rates of change that a signer limits, and its attempts to sign. The chain moves
    on between the questions of an attempt: each reads its own state of it.
  \<^item> Text_Numbers: the parsing of unsigned integers, for wallet transactions and the file of addresses.
  \<^item> Cosmos (cosmos.rs): the operator keys of remote validators, relayed with proofs, and the outputs
    that pay the nBTC escrowed for a remote chain to its validators in an emergency disbursal; these
    outputs are an argument of the bridge's block in App_Bridge.
  \<^item> Ethereum_Proofs (ethereum/proofs.rs), Ethereum and Ethereum_Ledger (ethereum/mod.rs): proofs of
    returns, connections with their signed messages, and what holds of a connection over its life
    (\<open>conn_reach\<close>, and \<open>conn_step\<close> for what comes after a state). Ethereum_Clients (ethereum/signer.rs, ethereum/relayer.rs): the signer of messages,
    whose signatures are accepted, and the collection of the proofs of returns.
  \<^item> Light_Client (ethereum/consensus/mod.rs, ethereum/consensus/relayer.rs): the light client of Ethereum
    around the helios crate, and its wire format. The locale \<open>codec\<close> is the contract of a wire format,
    interpreted on each part of the client.
  \<^item> Frost (frost/mod.rs, frost/dkg.rs, frost/signing.rs) and Frost_Properties: groups, key generation
    and signing sessions. The locale \<open>counted_round\<close> is the contract of a round that counts its
    submissions, interpreted on each round. Frost_Signer (frost/signer.rs) is the process of a
    participant, with its secrets.
  \<^item> Babylon_Scripts, Babylon and Babylon_Properties (babylon/mod.rs): the scripts and transactions of a
    stake with a machine for their opcodes, delegations, and the module, which uses Frost and
    Bitcoin_Module. The locale \<open>delegation_method\<close> is the contract of a method on a delegation; the
    invariant of the module is carried by it over \<open>bab_reach\<close>. Babylon_Relayer (babylon/relayer.rs):
    the relay of staking and unbonding transactions, with the lemmas of Relayer on the scan of blocks.

  \<^bold>\<open>How the code is modelled.\<close> Structs are records, enums datatypes, and the store's maps, deques
  and vectors lists, ordered by the encoding of the key where the order shows. A method on
  \<open>&mut self\<close> is a function to the new state, or a \<open>call\<close>, which keeps the state reached when an
  error is returned. Unsigned integers are naturals and signed ones integers; every operation is
  checked at its width and yields \<open>Err Panic\<close> on overflow, as the release profile of the source has
  overflow checks on; casts wrap. The features are the default ones, full and testnet; the modules for
  Ethereum, FROST and Babylon, whose features are off by default, are modelled as they are when on.

  \<^bold>\<open>Parameters.\<close> Code that is not in the repository is a field of a record of parameters:
  \<open>secp_lib\<close> (keys and signatures), \<open>script_lib\<close> (script bytes, extended keys), \<open>tx_lib\<close> (sizes,
  transaction ids, signature hashes, the order in which a retained deque is left), \<open>header_lib\<close>
  (hashes and targets of headers), \<open>dest_lib\<close> (encodings), \<open>btc_lib\<close> (Merkle proofs, coins and
  accounts, validators), \<open>app_lib\<close> (IBC), \<open>full_node\<close> (a Bitcoin node), \<open>eth_provider\<close> (an Ethereum node),
  \<open>key_lib\<close> (private keys), and one record for each of the other modules. Properties that rely on them name what they need as a
  definition, and their witnesses instantiate it: \<open>coin_law\<close> (coins are neither made nor lost), \<open>ibc_law\<close> (what
  the IBC module holds grows only by what it mints, and it may refuse to), \<open>assembler_law\<close> (scripts made of opcodes and
  pushes are read back, \<open>OP_FALSE\<close> apart, which is read as an empty push), \<open>number_law\<close> (numbers in scripts), \<open>checksig_law\<close>, \<open>proof_law\<close>.

  \<^bold>\<open>Bounds and termination.\<close> Loops over collections are structural recursions; the loop of
  \<open>deduct_fee\<close>, the removal of replaced headers and the parser of signatories are functions with a proved measure;
  \<open>ancestor_loop\<close>, which asks a node for headers, is a partial function that is shown to return when the
  node's headers form a tree; nothing is modelled with fuel. The rule for blocks in \<open>nbtc_step\<close> assumes that the Bitcoin controlled is
  below \<open>2 ^ 63\<close> units, 92233 BTC, as the code stores fees of that size in an i64.

  \<^bold>\<open>Not modelled.\<close> Staking, faucets, upgrades and the IBC module, which are orga's. The JSON form of
  destinations, which serde derives. Of the relayers and the signers, the endless loops around
  the turns, sleeps, metrics and the route that serves the signatory set. The command line and the REST
  server, which are clients of the network and the disk. The wire formats that are delegated to other crates.
\<close>

end
